(* ===== verification/Prelude.thy ===== *)
theory Prelude
  imports Main "HOL-Library.Word" "HOL-Library.Monad_Syntax"
begin

text \<open>
  Shared vocabulary of the development.

  A Rust computation that may panic is a value of an \<open>option\<close> type: \<open>None\<close> is the
  panic (the kernel and the user modules are built with \<open>panic = "abort"\<close>, so a panic is
  final), \<open>Some x\<close> is a normal return. A \<open>Result<T, E>\<close> of the source is a sum
  \<open>'e + 'a\<close> with \<open>Inl\<close> for \<open>Err\<close>. Mutation is explicit state passing. Identifiers
  of type \<open>u64\<close> are naturals with the overflow check of the kernel's build profile
  (\<open>overflow-checks = true\<close>) written out by \<open>checked_u64\<close>; values that are
  used bitwise are machine words.

  The iteration order of the third-party \<open>hashbrown\<close> containers is unspecified. It is a
  parameter \<open>ord\<close> of the operations that iterate over such a container, and
  \<open>iter_order ord\<close> states the only thing the code relies on: an iteration visits every
  element of the container exactly once.
\<close>

subsection \<open>Types\<close>

type_synonym u8 = "8 word"
type_synonym u16 = "16 word"
type_synonym u32 = "32 word"
type_synonym u64 = "64 word"

type_synonym bytes = "u8 list"

type_synonym pid = nat
type_synonym eventid = nat
type_synonym instant = nat

subsection \<open>Panics, checked arithmetic, unspecified iteration order\<close>

definition rassert :: "bool \<Rightarrow> unit option" where
  "rassert b = (if b then Some () else None)"

definition checked_u64 :: "nat \<Rightarrow> nat option" where
  "checked_u64 n = (if n < 2 ^ 64 then Some n else None)"

definition checked_sub :: "nat \<Rightarrow> nat \<Rightarrow> nat option" where
  "checked_sub a b = (if b \<le> a then Some (a - b) else None)"

definition iter_order :: "(nat set \<Rightarrow> nat list) \<Rightarrow> bool" where
  "iter_order ord \<longleftrightarrow> (\<forall>S. finite S \<longrightarrow> set (ord S) = S \<and> distinct (ord S))"

text \<open>A loop over a list whose body may panic.\<close>

fun foldM :: "('s \<Rightarrow> 'a \<Rightarrow> 's option) \<Rightarrow> 's \<Rightarrow> 'a list \<Rightarrow> 's option" where
  "foldM f s [] = Some s"
| "foldM f s (x # xs) = (case f s x of None \<Rightarrow> None | Some s' \<Rightarrow> foldM f s' xs)"

text \<open>Decimal display of an unsigned integer.\<close>

fun show_nat :: "nat \<Rightarrow> string" where
  "show_nat n =
     (if n < 10 then [char_of (48 + n)] else show_nat (n div 10) @ [char_of (48 + n mod 10)])"

declare show_nat.simps [simp del]

text \<open>Slicing \<open>&xs[i..j]\<close> and indexing \<open>xs[i]\<close>, which panic out of range.\<close>

definition slice :: "'a list \<Rightarrow> nat \<Rightarrow> nat \<Rightarrow> 'a list option" where
  "slice xs i j = (if i \<le> j \<and> j \<le> length xs then Some (take (j - i) (drop i xs)) else None)"

definition index :: "'a list \<Rightarrow> nat \<Rightarrow> 'a option" where
  "index xs i = (if i < length xs then Some (xs ! i) else None)"

subsection \<open>Proof automation\<close>

named_theorems panic_simps \<open>rewrite rules for computations that may panic\<close>

lemma rassert_bind [panic_simps, simp]:
  "Option.bind (rassert b) f = (if b then f () else None)"
  by (simp add: rassert_def)

lemma rassert_eq_Some [panic_simps, simp]: "rassert b = Some u \<longleftrightarrow> b"
  by (simp add: rassert_def)

lemma checked_u64_eq_Some [panic_simps]:
  "checked_u64 n = Some m \<longleftrightarrow> m = n \<and> n < 2 ^ 64"
  by (auto simp: checked_u64_def)

lemma checked_sub_eq_Some [panic_simps]:
  "checked_sub a b = Some c \<longleftrightarrow> b \<le> a \<and> c = a - b"
  by (auto simp: checked_sub_def)

lemma iter_orderD:
  assumes "iter_order ord" and "finite S"
  shows "set (ord S) = S" and "distinct (ord S)"
  using assms by (auto simp: iter_order_def)

lemma iter_order_sorted: "iter_order sorted_list_of_set"
  by (simp add: iter_order_def)

lemma foldM_append:
  "foldM f s (xs @ ys) = Option.bind (foldM f s xs) (\<lambda>s'. foldM f s' ys)"
  by (induction xs arbitrary: s) (auto split: option.splits)

lemma foldM_Some_fold: "foldM (\<lambda>s x. Some (f x s)) s xs = Some (fold f xs s)"
  by (induction xs arbitrary: s) auto

text \<open>An invariant kept by every iteration holds at the end of the loop.\<close>

lemma foldM_invariant:
  assumes "foldM f s xs = Some s'" and "I s"
    and "\<And>s x s'. x \<in> set xs \<Longrightarrow> I s \<Longrightarrow> f s x = Some s' \<Longrightarrow> I s'"
  shows "I s'"
  using assms
proof (induction xs arbitrary: s)
  case Nil
  then show ?case by simp
next
  case (Cons x xs)
  from Cons.prems(1) obtain s1 where s1: "f s x = Some s1" and rest: "foldM f s1 xs = Some s'"
    by (auto split: option.splits)
  from Cons.prems(2) s1 have "I s1" by (rule Cons.prems(3) [rotated]) simp
  with rest show ?case by (rule Cons.IH) (rule Cons.prems(3), auto)
qed

text \<open>A loop whose body never panics under an invariant it keeps does not panic.\<close>

lemma foldM_total:
  assumes "I s" and "\<And>s x. x \<in> set xs \<Longrightarrow> I s \<Longrightarrow> \<exists>s'. f s x = Some s' \<and> I s'"
  shows "\<exists>s'. foldM f s xs = Some s' \<and> I s'"
  using assms
proof (induction xs arbitrary: s)
  case Nil
  then show ?case by simp
next
  case (Cons x xs)
  then obtain s1 where "f s x = Some s1" and "I s1" by (meson list.set_intros(1))
  moreover from this Cons have "\<exists>s'. foldM f s1 xs = Some s' \<and> I s'" by auto
  ultimately show ?case by simp
qed

lemma fold_invariant_list:
  assumes "I s" and "\<And>s x. x \<in> set xs \<Longrightarrow> I s \<Longrightarrow> I (f x s)"
  shows "I (fold f xs s)"
  using assms by (induction xs arbitrary: s) auto

lemma slice_eq_Some [panic_simps]:
  "slice xs i j = Some ys \<longleftrightarrow> i \<le> j \<and> j \<le> length xs \<and> ys = take (j - i) (drop i xs)"
  by (auto simp: slice_def)

lemma index_eq_Some [panic_simps]: "index xs i = Some x \<longleftrightarrow> i < length xs \<and> x = xs ! i"
  by (auto simp: index_def)

lemma length_slice: "slice xs i j = Some ys \<Longrightarrow> length ys = j - i"
  by (auto simp: slice_def split: if_splits)

end
