(* ===== verification/WaitCond.thy ===== *)
theory WaitCond
  imports Prelude
begin

text \<open>
  The scheduling conditions of \<open>src/multitasking/waitfor.rs\<close>: the enum \<open>WaitFor\<close>, its
  normalisation \<open>reduce\<close>, and the global event counter behind \<open>new_event_id\<close>. The two
  operations that look at the scheduler queues (\<open>try_resolve_immediate\<close> and
  \<open>reduce_queues\<close>) are in theory \<open>SchedQueues\<close>.
\<close>

subsection \<open>Data\<close>

datatype WaitFor =
    WNone
  | Time instant
  | Process pid
  | Event eventid
  | FirstOf "WaitFor list"

subsection \<open>Operations\<close>

text \<open>The loop of \<open>reduce\<close>: it collects every condition but the times in \<open>new_se\<close>
  and keeps the earliest time. A nested \<open>None\<close> or \<open>FirstOf\<close> panics.\<close>

fun reduce_loop :: "WaitFor list \<Rightarrow> WaitFor list \<Rightarrow> instant option
    \<Rightarrow> (WaitFor list \<times> instant option) option" where
  "reduce_loop [] new_se earliest = Some (new_se, earliest)"
| "reduce_loop (WNone # es) new_se earliest = None"
| "reduce_loop (Time t # es) new_se earliest =
     reduce_loop es new_se
       (case earliest of Some e \<Rightarrow> (if t < e then Some t else earliest) | None \<Rightarrow> Some t)"
| "reduce_loop (FirstOf ws # es) new_se earliest = None"
| "reduce_loop (other # es) new_se earliest = reduce_loop es (new_se @ [other]) earliest"

definition reduce :: "WaitFor \<Rightarrow> WaitFor option" where
  "reduce w = (case w of
     FirstOf subevents \<Rightarrow> do {
       (new_se, earliest) \<leftarrow> reduce_loop subevents [] None;
       let new_se = (case earliest of Some e \<Rightarrow> new_se @ [Time e] | None \<Rightarrow> new_se);
       Some (case new_se of [] \<Rightarrow> WNone | [x] \<Rightarrow> x | _ \<Rightarrow> FirstOf new_se)
     }
   | other \<Rightarrow> Some other)"

text \<open>\<open>NEXT_EVENT.fetch_add(1)\<close>: atomics wrap, they are not overflow-checked.\<close>

definition new_event_id :: "nat \<Rightarrow> eventid \<times> nat" where
  "new_event_id next_event = (next_event, (next_event + 1) mod 2 ^ 64)"

subsection \<open>Specification\<close>

text \<open>A leaf condition, the shape \<open>Queues::give_inner\<close> accepts.\<close>

fun leaf :: "WaitFor \<Rightarrow> bool" where
  "leaf (Time t) = True"
| "leaf (Process p) = True"
| "leaf (Event e) = True"
| "leaf _ = False"

fun is_Time :: "WaitFor \<Rightarrow> bool" where
  "is_Time (Time t) = True"
| "is_Time _ = False"

text \<open>What the code expects of a condition: \<open>FirstOf\<close> holds leaf conditions only.\<close>

fun wf_wait :: "WaitFor \<Rightarrow> bool" where
  "wf_wait (FirstOf ws) = list_all leaf ws"
| "wf_wait _ = True"

text \<open>The normal form that \<open>reduce\<close> establishes: at least two leaves, at most one time.\<close>

fun reduced :: "WaitFor \<Rightarrow> bool" where
  "reduced (FirstOf ws) = (list_all leaf ws \<and> 2 \<le> length ws \<and> length (filter is_Time ws) \<le> 1)"
| "reduced _ = True"

text \<open>When a condition is met, given the time, the completed processes and the triggered
  events.\<close>

fun satisfied :: "instant \<Rightarrow> (pid \<Rightarrow> bool) \<Rightarrow> (eventid \<Rightarrow> bool) \<Rightarrow> WaitFor \<Rightarrow> bool" where
  "satisfied now done fired WNone = True"
| "satisfied now done fired (Time t) = (t \<le> now)"
| "satisfied now done fired (Process p) = done p"
| "satisfied now done fired (Event e) = fired e"
| "satisfied now done fired (FirstOf ws) = list_ex (satisfied now done fired) ws"

subsection \<open>Properties of the normalisation\<close>

lemma reduce_loop_Some_iff: "(\<exists>r. reduce_loop ws se e = Some r) \<longleftrightarrow> list_all leaf ws"
  by (induction ws se e rule: reduce_loop.induct) auto

lemma reduce_loop_leaves:
  "reduce_loop ws se e = Some (se', e') \<Longrightarrow> list_all (\<lambda>w. leaf w \<and> \<not> is_Time w) se \<Longrightarrow>
   list_all (\<lambda>w. leaf w \<and> \<not> is_Time w) se'"
  by (induction ws se e rule: reduce_loop.induct) auto

lemma reduce_loop_satisfied:
  assumes "reduce_loop ws se e = Some (se', e')"
  shows "(list_ex (satisfied now done fired) se' \<or> (\<exists>t. e' = Some t \<and> t \<le> now)) \<longleftrightarrow>
         (list_ex (satisfied now done fired) ws \<or> list_ex (satisfied now done fired) se
          \<or> (\<exists>t. e = Some t \<and> t \<le> now))"
  using assms
  by (induction ws se e rule: reduce_loop.induct) (auto split: option.splits if_splits)

lemma reduce_loop_empty:
  "reduce_loop ws se e = Some ([], None) \<Longrightarrow> ws = [] \<and> se = [] \<and> e = None"
  by (induction ws se e rule: reduce_loop.induct) (auto split: option.splits if_splits)

lemma reduce_defined_iff: "(\<exists>w'. reduce w = Some w') \<longleftrightarrow> wf_wait w"
proof (cases w)
  case (FirstOf ws)
  have "reduce w \<noteq> None \<longleftrightarrow> reduce_loop ws [] None \<noteq> None"
    by (cases "reduce_loop ws [] None") (auto simp: reduce_def FirstOf Let_def)
  then show ?thesis using reduce_loop_Some_iff [of ws "[]" None] FirstOf by auto
qed (auto simp: reduce_def)

lemma filter_no_time: "list_all (\<lambda>w. leaf w \<and> \<not> is_Time w) se \<Longrightarrow> filter is_Time se = []"
  by (induction se) auto

lemma reduce_reduced: "reduce w = Some w' \<Longrightarrow> reduced w'"
proof (cases w)
  case (FirstOf ws)
  assume "reduce w = Some w'"
  then obtain se e where loop: "reduce_loop ws [] None = Some (se, e)"
    and w': "w' = (case (case e of Some t \<Rightarrow> se @ [Time t] | None \<Rightarrow> se) of
                     [] \<Rightarrow> WNone | [x] \<Rightarrow> x
                   | _ \<Rightarrow> FirstOf (case e of Some t \<Rightarrow> se @ [Time t] | None \<Rightarrow> se))"
    by (auto simp: reduce_def FirstOf Let_def bind_eq_Some_conv)
  from loop have se: "list_all (\<lambda>w. leaf w \<and> \<not> is_Time w) se"
    by (rule reduce_loop_leaves) simp
  have leaf_reduced: "leaf x \<Longrightarrow> reduced x" for x by (cases x) auto
  show ?thesis
    using se filter_no_time [OF se] leaf_reduced unfolding w'
    by (auto split: option.splits list.splits simp: list_all_iff Cons_eq_append_conv
        append_eq_Cons_conv)
qed (auto simp: reduce_def)

lemma reduce_satisfied:
  assumes "reduce w = Some w'" and "w \<noteq> FirstOf []"
  shows "satisfied now done fired w' \<longleftrightarrow> satisfied now done fired w"
proof (cases w)
  case (FirstOf ws)
  with assms obtain se e where loop: "reduce_loop ws [] None = Some (se, e)"
    and w': "w' = (case (case e of Some t \<Rightarrow> se @ [Time t] | None \<Rightarrow> se) of
                     [] \<Rightarrow> WNone | [x] \<Rightarrow> x
                   | _ \<Rightarrow> FirstOf (case e of Some t \<Rightarrow> se @ [Time t] | None \<Rightarrow> se))"
    by (auto simp: reduce_def Let_def bind_eq_Some_conv)
  have ne: "\<not> (se = [] \<and> e = None)"
  proof
    assume "se = [] \<and> e = None"
    with loop have "ws = []" by (simp add: reduce_loop_empty)
    with assms(2) FirstOf show False by simp
  qed
  have "satisfied now done fired w' \<longleftrightarrow>
      list_ex (satisfied now done fired) (case e of Some t \<Rightarrow> se @ [Time t] | None \<Rightarrow> se)"
    using ne unfolding w' by (auto split: option.splits list.splits)
  also have "\<dots> \<longleftrightarrow> list_ex (satisfied now done fired) se \<or> (\<exists>t. e = Some t \<and> t \<le> now)"
    by (auto split: option.splits)
  also have "\<dots> \<longleftrightarrow> list_ex (satisfied now done fired) ws"
    using reduce_loop_satisfied [OF loop, of now "done" fired] by simp
  finally show ?thesis by (simp add: FirstOf)
qed (use assms in \<open>auto simp: reduce_def\<close>)

text \<open>The conditions a process waits for, and which of them survive the normalisation.\<close>

fun targets_of :: "WaitFor \<Rightarrow> WaitFor list" where
  "targets_of (FirstOf ws) = ws"
| "targets_of w = [w]"

lemma leaf_targets: "leaf w \<Longrightarrow> targets_of w = [w]"
  by (cases w) auto

lemma reduce_loop_keeps:
  assumes "reduce_loop ws se e = Some (se', e')"
  shows "set se \<subseteq> set se'" and "c \<in> set ws \<Longrightarrow> \<not> is_Time c \<Longrightarrow> c \<in> set se'"
  using assms by (induction ws se e rule: reduce_loop.induct) auto

lemma reduce_loop_earliest:
  assumes "reduce_loop ws se e = Some (se', e')"
  shows "e = Some t \<or> Time t \<in> set ws \<Longrightarrow> \<exists>t'. e' = Some t' \<and> t' \<le> t"
  using assms
proof (induction ws se e arbitrary: t rule: reduce_loop.induct)
  case (3 u es se e)
  let ?e = "case e of Some x \<Rightarrow> (if u < x then Some u else e) | None \<Rightarrow> Some u"
  have "\<exists>t0. (?e = Some t0 \<or> Time t0 \<in> set es) \<and> t0 \<le> t"
    using "3.prems"(1) by (auto split: option.splits)
  then obtain t0 where t0: "?e = Some t0 \<or> Time t0 \<in> set es" "t0 \<le> t" by blast
  from "3.IH" [OF t0(1)] "3.prems"(2) obtain t' where "e' = Some t'" "t' \<le> t0" by auto
  with t0(2) show ?case by auto
qed auto

lemma reduce_targets:
  assumes "reduce w = Some w'" and "w \<noteq> FirstOf []" and "c \<in> set (targets_of w)" and "leaf c"
  shows "if is_Time c then (\<exists>t t'. c = Time t \<and> t' \<le> t \<and> Time t' \<in> set (targets_of w'))
         else c \<in> set (targets_of w')"
proof (cases w)
  case (FirstOf ws)
  with assms(1) obtain se e where loop: "reduce_loop ws [] None = Some (se, e)"
    and w': "w' = (let l = (case e of Some t \<Rightarrow> se @ [Time t] | None \<Rightarrow> se)
                   in case l of [] \<Rightarrow> WNone | [x] \<Rightarrow> x | _ \<Rightarrow> FirstOf l)"
    by (auto simp: reduce_def Let_def bind_eq_Some_conv)
  let ?l = "case e of Some t \<Rightarrow> se @ [Time t] | None \<Rightarrow> se"
  have leaves: "list_all leaf ?l"
    using reduce_loop_leaves [OF loop] by (auto simp: list_all_iff split: option.splits)
  have tg: "set (targets_of w') = set ?l" if "?l \<noteq> []"
  proof (cases ?l rule: remdups_adj.cases)
    case (2 x)
    then show ?thesis using leaves by (simp add: w' leaf_targets)
  qed (use that in \<open>simp_all add: w'\<close>)
  show ?thesis
  proof (cases "is_Time c")
    case True
    then obtain t where c: "c = Time t" by (cases c) auto
    with assms(3) FirstOf obtain t' where "e = Some t'" "t' \<le> t"
      using reduce_loop_earliest [OF loop, of t] by auto
    with c tg show ?thesis by auto
  next
    case False
    with assms(3) FirstOf have "c \<in> set se" using reduce_loop_keeps(2) [OF loop] by auto
    then have "?l \<noteq> []" and "c \<in> set ?l" by (cases e; force)+
    with False tg show ?thesis by simp
  qed
qed (use assms in \<open>auto simp: reduce_def\<close>)

subsection \<open>The interface through which events reach the scheduler\<close>

text \<open>
  Every component that completes an event (the IPC manager, the timer) does so through one
  operation of the scheduler. What such a client may rely on: a signal keeps the scheduler
  consistent, neither loses nor invents a process, and never makes a runnable process wait.
\<close>

locale event_sink =
  fixes signal :: "eventid \<Rightarrow> 's \<Rightarrow> 's"
    and ok :: "'s \<Rightarrow> bool"
    and members :: "'s \<Rightarrow> pid set"
    and runnable :: "'s \<Rightarrow> pid set"
  assumes signal_ok: "ok s \<Longrightarrow> ok (signal e s)"
    and signal_members: "ok s \<Longrightarrow> members (signal e s) = members s"
    and signal_runnable: "ok s \<Longrightarrow> runnable s \<subseteq> runnable (signal e s)"
begin

lemma signal_all_ok: "ok s \<Longrightarrow> ok (fold signal es s)"
  by (induction es arbitrary: s) (auto intro: signal_ok)

lemma signal_all_members: "ok s \<Longrightarrow> members (fold signal es s) = members s"
  by (induction es arbitrary: s) (auto simp: signal_ok signal_members)

lemma signal_all_runnable: "ok s \<Longrightarrow> runnable s \<subseteq> runnable (fold signal es s)"
proof (induction es arbitrary: s)
  case Nil
  then show ?case by simp
next
  case (Cons e es)
  have "runnable s \<subseteq> runnable (signal e s)" using Cons.prems by (rule signal_runnable)
  also have "\<dots> \<subseteq> runnable (fold signal es (signal e s))"
    using Cons.prems by (intro Cons.IH signal_ok)
  finally show ?case by simp
qed

end

subsection \<open>Claims\<close>

text \<open>normalising a wait condition is exact. \<open>reduce\<close> returns (does not panic) exactly
  for the conditions whose \<open>FirstOf\<close> alternatives are plain conditions; its result is in
  normal form (at least two alternatives, at most one of them a time), and, except for the
  empty list of alternatives, it is met in exactly the same situations as the original.\<close>

lemma reduce_exact:
  "(\<exists>w'. reduce w = Some w') = wf_wait w \<and>
   (case reduce w of None \<Rightarrow> True
    | Some w' \<Rightarrow> reduced w' \<and>
        (w = FirstOf [] \<or> satisfied now done fired w' = satisfied now done fired w))"
  using reduce_defined_iff [of w] reduce_reduced [of w] reduce_satisfied [of w]
  by (auto split: option.splits)

end
