(* ===== verification/EventQ.thy ===== *)
theory EventQ
  imports WaitCond
begin

text \<open>
  The bounded message queue with wakeup of \<open>src/ipc/event_queue.rs\<close>. The global event
  counter \<open>NEXT_EVENT\<close> of \<open>waitfor.rs\<close> is threaded through the operations that draw a
  fresh event id. The locale \<open>bounded_fifo\<close> is what a mailbox promises to the IPC manager.
\<close>

subsection \<open>Data\<close>

record 'a EventQueue =
  eq_queue :: "'a list"
  eq_event :: "eventid option"
  eq_limit :: nat

definition eq_new :: "nat \<Rightarrow> 'a EventQueue" where
  "eq_new limit = \<lparr>eq_queue = [], eq_event = None, eq_limit = limit\<rparr>"

subsection \<open>Operations\<close>

definition eq_is_empty :: "'a EventQueue \<Rightarrow> bool" where
  "eq_is_empty q \<longleftrightarrow> eq_queue q = []"

text \<open>\<open>push\<close>: \<open>Inl ()\<close> when full, otherwise the event to trigger, if a reader waits.\<close>

definition eq_push :: "'a EventQueue \<Rightarrow> 'a \<Rightarrow> (unit + eventid option) \<times> 'a EventQueue" where
  "eq_push q item =
     (if eq_limit q \<le> length (eq_queue q) then (Inl (), q)
      else (Inr (eq_event q), q\<lparr>eq_queue := eq_queue q @ [item], eq_event := None\<rparr>))"

definition eq_pop :: "'a EventQueue \<Rightarrow> 'a option \<times> 'a EventQueue" where
  "eq_pop q = (case eq_queue q of [] \<Rightarrow> (None, q) | x # xs \<Rightarrow> (Some x, q\<lparr>eq_queue := xs\<rparr>))"

definition eq_get_event :: "'a EventQueue \<Rightarrow> nat \<Rightarrow> eventid \<times> 'a EventQueue \<times> nat" where
  "eq_get_event q next_event = (case eq_event q of
     Some e \<Rightarrow> (e, q, next_event)
   | None \<Rightarrow> (let (e, next_event') = new_event_id next_event
              in (e, q\<lparr>eq_event := Some e\<rparr>, next_event')))"

text \<open>\<open>pop_or_event\<close>: \<open>Inr\<close> a message, \<open>Inl\<close> the event to wait for.\<close>

definition eq_pop_or_event ::
    "'a EventQueue \<Rightarrow> nat \<Rightarrow> (eventid + 'a) \<times> 'a EventQueue \<times> nat" where
  "eq_pop_or_event q next_event = (case eq_pop q of
     (Some x, q') \<Rightarrow> (Inr x, q', next_event)
   | (None, q') \<Rightarrow> (let (e, q'', next_event') = eq_get_event q' next_event
                   in (Inl e, q'', next_event')))"

definition eq_take_event :: "'a EventQueue \<Rightarrow> eventid option \<times> 'a EventQueue" where
  "eq_take_event q = (eq_event q, q\<lparr>eq_event := None\<rparr>)"

definition eq_wait_for :: "'a EventQueue \<Rightarrow> nat \<Rightarrow> WaitFor \<times> 'a EventQueue \<times> nat" where
  "eq_wait_for q next_event =
     (if eq_queue q = [] then
        (let (e, q', next_event') = eq_get_event q next_event in (Event e, q', next_event'))
      else (WNone, q, next_event))"

definition eq_into_iter :: "'a EventQueue \<Rightarrow> 'a list" where
  "eq_into_iter q = eq_queue q"

subsection \<open>Invariant\<close>

text \<open>The queue respects its limit, and a reader has an event pending only while there is
  nothing to read.\<close>

definition eq_inv :: "'a EventQueue \<Rightarrow> bool" where
  "eq_inv q \<longleftrightarrow> length (eq_queue q) \<le> eq_limit q \<and> (eq_event q \<noteq> None \<longrightarrow> eq_queue q = [])"

named_theorems eq_simps \<open>the operations of the bounded queue\<close>

declare eq_push_def [eq_simps] eq_pop_def [eq_simps] eq_get_event_def [eq_simps]
  eq_pop_or_event_def [eq_simps] eq_take_event_def [eq_simps] eq_wait_for_def [eq_simps]
  eq_inv_def [eq_simps] Let_def [eq_simps]

lemma eq_inv_new [simp]: "eq_inv (eq_new n)"
  by (simp add: eq_simps eq_new_def)

lemma eq_push_inv: "eq_inv q \<Longrightarrow> eq_inv (snd (eq_push q x))"
  by (auto simp: eq_simps)

lemma eq_pop_inv: "eq_inv q \<Longrightarrow> eq_inv (snd (eq_pop q))"
  by (auto simp: eq_simps split: list.splits)

lemma eq_get_event_inv: "eq_inv q \<Longrightarrow> eq_queue q = [] \<Longrightarrow> eq_inv (fst (snd (eq_get_event q n)))"
  by (auto simp: eq_simps split: option.splits prod.splits)

lemma eq_pop_or_event_inv: "eq_inv q \<Longrightarrow> eq_inv (fst (snd (eq_pop_or_event q n)))"
  by (auto simp: eq_simps split: list.splits option.splits prod.splits)

lemma eq_wait_for_inv: "eq_inv q \<Longrightarrow> eq_inv (fst (snd (eq_wait_for q n)))"
  by (auto simp: eq_simps split: option.splits prod.splits)

lemma eq_take_event_inv: "eq_inv q \<Longrightarrow> eq_inv (snd (eq_take_event q))"
  by (auto simp: eq_simps)

lemma eq_push_queue:
  "eq_queue (snd (eq_push q x)) =
     (if eq_limit q \<le> length (eq_queue q) then eq_queue q else eq_queue q @ [x])"
  by (simp add: eq_push_def)

lemma eq_wait_for_queue: "eq_queue (fst (snd (eq_wait_for q n))) = eq_queue q"
  by (auto simp: eq_simps split: option.splits prod.splits)

lemma eq_pop_or_event_queue:
  "eq_pop_or_event q n = (r, q', n') \<Longrightarrow>
   eq_queue q = (case r of Inr x \<Rightarrow> x # eq_queue q' | Inl e \<Rightarrow> eq_queue q')"
  by (auto simp: eq_simps split: list.splits option.splits prod.splits)

text \<open>A reader that is told to wait for an event leaves that event in the queue, and it stays
  there until the push that triggers it.\<close>

lemma eq_pop_or_event_waits:
  "eq_pop_or_event q n = (Inl e, q', n') \<Longrightarrow> eq_event q' = Some e \<and> eq_queue q' = []"
  by (auto simp: eq_simps split: list.splits option.splits prod.splits)

lemma eq_wait_for_waits:
  "eq_wait_for q n = (Event e, q', n') \<Longrightarrow> eq_event q' = Some e \<and> eq_queue q' = []"
  by (auto simp: eq_simps split: option.splits prod.splits if_splits)

lemma eq_push_triggers:
  "eq_push q x = (Inr t, q') \<Longrightarrow> t = eq_event q \<and> eq_event q' = None"
  by (auto simp: eq_simps split: if_splits)

subsection \<open>The bounded FIFO interface\<close>

text \<open>Running a sequence of operations: \<open>Inl x\<close> pushes \<open>x\<close>, \<open>Inr ()\<close> pops. The result
  is the list of the accepted items, the list of the popped items, and the final state.\<close>

fun run_fifo :: "('q \<Rightarrow> 'a \<Rightarrow> (unit + eventid option) \<times> 'q) \<Rightarrow> ('q \<Rightarrow> 'a option \<times> 'q)
    \<Rightarrow> ('a + unit) list \<Rightarrow> 'q \<Rightarrow> 'a list \<times> 'a list \<times> 'q" where
  "run_fifo psh pp [] q = ([], [], q)"
| "run_fifo psh pp (Inl x # ops) q =
     (let (r, q') = psh q x; (acc, out, q'') = run_fifo psh pp ops q'
      in ((case r of Inl _ \<Rightarrow> acc | Inr _ \<Rightarrow> x # acc), out, q''))"
| "run_fifo psh pp (Inr _ # ops) q =
     (let (r, q') = pp q; (acc, out, q'') = run_fifo psh pp ops q'
      in (acc, (case r of None \<Rightarrow> out | Some x \<Rightarrow> x # out), q''))"

locale bounded_fifo =
  fixes psh :: "'q \<Rightarrow> 'a \<Rightarrow> (unit + eventid option) \<times> 'q"
    and pp :: "'q \<Rightarrow> 'a option \<times> 'q"
    and contents :: "'q \<Rightarrow> 'a list"
    and capacity :: "'q \<Rightarrow> nat"
    and ok :: "'q \<Rightarrow> bool"
  assumes push_ok: "ok q \<Longrightarrow> ok (snd (psh q x))"
    and pop_ok: "ok q \<Longrightarrow> ok (snd (pp q))"
    and push_capacity: "capacity (snd (psh q x)) = capacity q"
    and pop_capacity: "capacity (snd (pp q)) = capacity q"
    and bounded: "ok q \<Longrightarrow> length (contents q) \<le> capacity q"
    and push_full: "ok q \<Longrightarrow> fst (psh q x) = Inl () \<longleftrightarrow> length (contents q) = capacity q"
    and push_contents: "ok q \<Longrightarrow> contents (snd (psh q x)) =
          (case fst (psh q x) of Inl _ \<Rightarrow> contents q | Inr _ \<Rightarrow> contents q @ [x])"
    and pop_contents: "ok q \<Longrightarrow> contents q =
          (case fst (pp q) of None \<Rightarrow> [] | Some x \<Rightarrow> x # contents (snd (pp q)))"
    and pop_empty: "ok q \<Longrightarrow> contents q = [] \<Longrightarrow> contents (snd (pp q)) = []"
begin

lemma run_ok:
  "ok q \<Longrightarrow> run_fifo psh pp ops q = (acc, out, q') \<Longrightarrow> ok q' \<and> capacity q' = capacity q"
proof (induction ops arbitrary: q acc out)
  case Nil
  then show ?case by simp
next
  case (Cons c ops)
  show ?case
  proof (cases c)
    case (Inl x)
    obtain acc1 where "run_fifo psh pp ops (snd (psh q x)) = (acc1, out, q')"
      using Cons.prems(2) by (auto simp: Inl split: prod.splits)
    from Cons.IH [OF push_ok [OF Cons.prems(1)] this] show ?thesis by (simp add: push_capacity)
  next
    case (Inr u)
    obtain out1 where "run_fifo psh pp ops (snd (pp q)) = (acc, out1, q')"
      using Cons.prems(2) by (auto simp: Inr split: prod.splits)
    from Cons.IH [OF pop_ok [OF Cons.prems(1)] this] show ?thesis by (simp add: pop_capacity)
  qed
qed

text \<open>Nothing is lost, duplicated or reordered: what was in the queue followed by what was
  accepted is what came out followed by what is still there.\<close>

lemma run_fifo_order:
  "ok q \<Longrightarrow> run_fifo psh pp ops q = (acc, out, q') \<Longrightarrow> contents q @ acc = out @ contents q'"
proof (induction ops arbitrary: q acc out)
  case Nil
  then show ?case by simp
next
  case (Cons c ops)
  show ?case
  proof (cases c)
    case (Inl x)
    obtain r q1 where p: "psh q x = (r, q1)" by fastforce
    obtain acc1 where run: "run_fifo psh pp ops q1 = (acc1, out, q')"
      and acc: "acc = (case r of Inl _ \<Rightarrow> acc1 | Inr _ \<Rightarrow> x # acc1)"
      using Cons.prems(2) p by (auto simp: Inl split: prod.splits)
    have "contents q1 @ acc1 = out @ contents q'"
      using Cons.IH [OF _ run] push_ok [OF Cons.prems(1), of x] p by simp
    with push_contents [OF Cons.prems(1), of x] p acc show ?thesis by (auto split: sum.splits)
  next
    case (Inr u)
    obtain r q1 where p: "pp q = (r, q1)" by fastforce
    obtain out1 where run: "run_fifo psh pp ops q1 = (acc, out1, q')"
      and out: "out = (case r of None \<Rightarrow> out1 | Some x \<Rightarrow> x # out1)"
      using Cons.prems(2) p by (auto simp: Inr split: prod.splits)
    have "contents q1 @ acc = out1 @ contents q'"
      using Cons.IH [OF _ run] pop_ok [OF Cons.prems(1)] p by simp
    with pop_contents [OF Cons.prems(1)] pop_empty [OF Cons.prems(1)] p out show ?thesis
      by (auto split: option.splits)
  qed
qed

end

interpretation eventq: bounded_fifo eq_push eq_pop eq_queue eq_limit eq_inv
  by unfold_locales (auto simp: eq_simps split: list.splits)

subsection \<open>Claims\<close>

text \<open>C17: the IPC message queue is a lossless bounded FIFO. For every sequence of \<open>push\<close>
  and \<open>pop\<close> calls on a new queue, the accepted messages are exactly the received ones,
  in order, followed by those still queued, and the queue never holds more than its limit.\<close>

theorem event_queue_fifo:
  "case run_fifo eq_push eq_pop ops (eq_new limit) of (accepted, received, q) \<Rightarrow>
     accepted = received @ eq_queue q \<and> length (eq_queue q) \<le> limit"
proof -
  obtain acc out q where run: "run_fifo eq_push eq_pop ops (eq_new limit) = (acc, out, q)"
    by (metis prod_cases3)
  with eventq.run_fifo_order [OF eq_inv_new run] eventq.run_ok [OF eq_inv_new run]
    eventq.bounded [of q]
  show ?thesis by (simp add: eq_new_def)
qed

text \<open>no wakeup of a receiver is lost. When \<open>pop_or_event\<close> finds the queue empty and
  tells its caller to wait for an event, the next \<open>push\<close> into the queue succeeds (for a
  non-zero limit) and returns that very event as the one to trigger, and the message is then
  what the next \<open>pop_or_event\<close> returns.\<close>

lemma event_queue_wakeup:
  assumes "eq_pop_or_event q n = (Inl e, q', n')" and "0 < eq_limit q'"
  shows "\<exists>q''. eq_push q' x = (Inr (Some e), q'') \<and> fst (eq_pop_or_event q'' m) = Inr x"
proof -
  from assms(1) have w: "eq_event q' = Some e" "eq_queue q' = []"
    using eq_pop_or_event_waits by blast+
  let ?q = "q'\<lparr>eq_queue := [x], eq_event := None\<rparr>"
  have "eq_push q' x = (Inr (Some e), ?q)" using w assms(2) by (simp add: eq_push_def)
  moreover have "fst (eq_pop_or_event ?q m) = Inr x"
    by (simp add: eq_pop_or_event_def eq_pop_def)
  ultimately show ?thesis by blast
qed

lemma event_queue_wakeup_example:
  "\<exists>q''. eq_push \<lparr>eq_queue = [], eq_event = Some 7, eq_limit = 2\<rparr> (5 :: nat)
           = (Inr (Some 7), q'') \<and> fst (eq_pop_or_event q'' 8) = Inr 5"
  by (rule event_queue_wakeup [of "eq_new 2" 7 7 _ 8])
    (simp_all add: eq_new_def eq_simps new_event_id_def)

end
