(* ===== verification/TopicFilters.thy ===== *)
theory TopicFilters
  imports Prelude "HOL-Library.Sublist" "HOL-Library.List_Lexorder" "HOL-Library.Char_ord"
    "HOL-Library.Product_Lexorder"
begin

text \<open>
  Topic names and topic filters, \<open>src/ipc/topic.rs\<close>. A Rust \<open>str\<close> is the list of its
  UTF-8 bytes; a character outside ASCII has only bytes above 127 and is refused like them.
  The derived orderings of the source are class instances, so that the sorted subscription
  vector can use the library's orderings.
\<close>

subsection \<open>Data\<close>

datatype Topic = Topic (topic_str: string)

datatype TopicPrefix = TopicPrefix (prefix_str: string)

datatype TopicFilter = Exact Topic | Prefix TopicPrefix

subsection \<open>Operations\<close>

definition is_ascii_alphanumeric :: "char \<Rightarrow> bool" where
  "is_ascii_alphanumeric c \<longleftrightarrow>
     (CHR ''0'' \<le> c \<and> c \<le> CHR ''9'') \<or> (CHR ''A'' \<le> c \<and> c \<le> CHR ''Z'') \<or>
     (CHR ''a'' \<le> c \<and> c \<le> CHR ''z'')"

definition topic_char :: "char \<Rightarrow> bool" where
  "topic_char c \<longleftrightarrow> is_ascii_alphanumeric c \<or> c = CHR ''_'' \<or> c = CHR ''/''"

definition topic_new :: "string \<Rightarrow> Topic option" where
  "topic_new s =
     (if s = [] then None
      else if hd s = CHR ''/'' \<or> last s = CHR ''/'' then None
      else if list_all topic_char s then Some (Topic s) else None)"

definition topic_prefix_new :: "string \<Rightarrow> TopicPrefix option" where
  "topic_prefix_new s =
     (if s = [] then None
      else if hd s = CHR ''/'' then None
      else if list_all topic_char s then Some (TopicPrefix s) else None)"

text \<open>\<open>try_new\<close>; \<open>Inl ()\<close> stands for \<open>Error::InvalidTopic\<close>, its only error.\<close>

definition topic_try_new :: "string \<Rightarrow> unit + Topic" where
  "topic_try_new s = (case topic_new s of None \<Rightarrow> Inl () | Some t \<Rightarrow> Inr t)"

definition topic_prefix_try_new :: "string \<Rightarrow> unit + TopicPrefix" where
  "topic_prefix_try_new s = (case topic_prefix_new s of None \<Rightarrow> Inl () | Some t \<Rightarrow> Inr t)"

definition filter_try_new :: "string \<Rightarrow> bool \<Rightarrow> unit + TopicFilter" where
  "filter_try_new f exact =
     (if exact then (case topic_try_new f of Inl e \<Rightarrow> Inl e | Inr t \<Rightarrow> Inr (Exact t))
      else (case topic_prefix_try_new f of Inl e \<Rightarrow> Inl e | Inr t \<Rightarrow> Inr (Prefix t)))"

fun filter_inner :: "TopicFilter \<Rightarrow> string" where
  "filter_inner (Exact t) = topic_str t"
| "filter_inner (Prefix t) = prefix_str t"

fun contains_filter :: "TopicFilter \<Rightarrow> TopicFilter \<Rightarrow> bool" where
  "contains_filter (Exact a) (Exact b) = (topic_str a = topic_str b)"
| "contains_filter (Exact a) (Prefix b) = prefix (prefix_str b) (topic_str a)"
| "contains_filter (Prefix a) (Exact b) = prefix (prefix_str a) (topic_str b)"
| "contains_filter (Prefix a) (Prefix b) =
     (prefix (prefix_str b) (prefix_str a) \<or> prefix (prefix_str a) (prefix_str b))"

fun matches :: "TopicFilter \<Rightarrow> Topic \<Rightarrow> bool" where
  "matches (Exact a) t = (topic_str a = topic_str t)"
| "matches (Prefix a) t = prefix (prefix_str a) (topic_str t)"

subsection \<open>Derived ordering\<close>

text \<open>\<open>derive(PartialOrd, Ord)\<close> orders by constructor first, then by the string.\<close>

fun filter_key :: "TopicFilter \<Rightarrow> nat \<times> string" where
  "filter_key (Exact t) = (0, topic_str t)"
| "filter_key (Prefix t) = (1, prefix_str t)"

lemma filter_key_inj: "filter_key f = filter_key g \<Longrightarrow> f = g"
  by (cases f; cases g) (auto intro: Topic.expand TopicPrefix.expand)

instantiation TopicFilter :: linorder
begin

definition less_eq_TopicFilter :: "TopicFilter \<Rightarrow> TopicFilter \<Rightarrow> bool" where
  "less_eq_TopicFilter f g \<longleftrightarrow> filter_key f \<le> filter_key g"

definition less_TopicFilter :: "TopicFilter \<Rightarrow> TopicFilter \<Rightarrow> bool" where
  "less_TopicFilter f g \<longleftrightarrow> filter_key f < filter_key g"

instance
  by standard (auto simp: less_eq_TopicFilter_def less_TopicFilter_def dest: filter_key_inj)

end

subsection \<open>Well-formed values\<close>

text \<open>The values the constructors produce: the types are private to the module, so every
  topic and filter of the system is one of these.\<close>

definition valid_topic :: "Topic \<Rightarrow> bool" where
  "valid_topic t \<longleftrightarrow> topic_new (topic_str t) = Some t"

fun valid_filter :: "TopicFilter \<Rightarrow> bool" where
  "valid_filter (Exact t) = valid_topic t"
| "valid_filter (Prefix p) = (topic_prefix_new (prefix_str p) = Some p)"

lemma topic_new_valid: "topic_new s = Some t \<Longrightarrow> valid_topic t \<and> topic_str t = s"
  by (auto simp: topic_new_def valid_topic_def split: if_splits)

lemma filter_try_new_valid: "filter_try_new s exact = Inr f \<Longrightarrow> valid_filter f"
  by (auto simp: filter_try_new_def topic_try_new_def topic_prefix_try_new_def
      topic_prefix_new_def dest: topic_new_valid split: if_splits option.splits sum.splits)

lemma contains_filter_sym: "contains_filter f g \<longleftrightarrow> contains_filter g f"
  by (cases f; cases g) auto

lemma contains_filter_refl [simp]: "contains_filter f f"
  by (cases f) auto

lemma matches_overlap: "matches f t \<Longrightarrow> matches g t \<Longrightarrow> contains_filter f g"
  by (cases f; cases g) (auto dest: prefix_same_cases)

text \<open>Every valid prefix can be completed to a valid topic.\<close>

lemma prefix_completion:
  assumes "topic_prefix_new p = Some q"
  shows "valid_topic (Topic (p @ ''a''))"
  using assms by (auto simp: topic_prefix_new_def valid_topic_def topic_new_def topic_char_def
      is_ascii_alphanumeric_def less_eq_char_def split: if_splits)

lemma overlap_common_topic:
  assumes "contains_filter f g" and "valid_filter f" and "valid_filter g"
  shows "\<exists>t. valid_topic t \<and> matches f t \<and> matches g t"
proof (cases f)
  case f: (Exact a)
  have "matches g a" using assms(1) f by (cases g) auto
  with f assms(2) show ?thesis by auto
next
  case f: (Prefix a)
  show ?thesis
  proof (cases g)
    case (Exact b)
    with f assms show ?thesis by auto
  next
    case g: (Prefix b)
    from assms f g have valid: "valid_topic (Topic (prefix_str a @ ''a''))"
        "valid_topic (Topic (prefix_str b @ ''a''))"
      by (auto intro: prefix_completion)
    have "prefix (prefix_str b) (prefix_str a) \<or> prefix (prefix_str a) (prefix_str b)"
      using assms(1) f g by simp
    then show ?thesis
    proof
      assume "prefix (prefix_str b) (prefix_str a)"
      then have "matches f (Topic (prefix_str a @ ''a'')) \<and> matches g (Topic (prefix_str a @ ''a''))"
        using f g by (simp add: prefix_prefix)
      with valid(1) show ?thesis by blast
    next
      assume "prefix (prefix_str a) (prefix_str b)"
      then have "matches f (Topic (prefix_str b @ ''a'')) \<and> matches g (Topic (prefix_str b @ ''a''))"
        using f g by (simp add: prefix_prefix)
      with valid(2) show ?thesis by blast
    qed
  qed
qed

lemma contains_filter_iff:
  assumes "valid_filter f" and "valid_filter g"
  shows "contains_filter f g \<longleftrightarrow> (\<exists>t. valid_topic t \<and> matches f t \<and> matches g t)"
  using assms overlap_common_topic matches_overlap by blast

subsection \<open>Claims\<close>



end
