(* ===== verification/RustVec.thy ===== *)
theory RustVec
  imports Prelude "HOL-Library.Multiset"
begin

text \<open>
  Operations of the Rust standard library on vectors that several components use:
  \<open>slice::binary_search\<close> and \<open>Vec::insert\<close>.
\<close>

subsection \<open>Binary search of the standard library\<close>

text \<open>\<open>slice::binary_search\<close>: \<open>Inr i\<close> when found at \<open>i\<close>, \<open>Inl i\<close> for the
  insertion point \<open>i\<close>.\<close>

function bs_loop :: "('a :: linorder) list \<Rightarrow> 'a \<Rightarrow> nat \<Rightarrow> nat \<Rightarrow> nat + nat" where
  "bs_loop xs v left right =
     (if left < right then
        (let mid = left + (right - left) div 2; x = xs ! mid in
         if x < v then bs_loop xs v (mid + 1) right
         else if v < x then bs_loop xs v left mid
         else Inr mid)
      else Inl left)"
  by pat_completeness auto
termination by (relation "measure (\<lambda>(xs, v, left, right). right - left)") auto

declare bs_loop.simps [simp del]

definition binary_search :: "('a :: linorder) list \<Rightarrow> 'a \<Rightarrow> nat + nat" where
  "binary_search xs v = bs_loop xs v 0 (length xs)"

definition vec_insert :: "'a list \<Rightarrow> nat \<Rightarrow> 'a \<Rightarrow> 'a list" where
  "vec_insert xs i v = take i xs @ v # drop i xs"

lemma sorted_nth_le: "sorted xs \<Longrightarrow> i \<le> j \<Longrightarrow> j < length xs \<Longrightarrow> xs ! i \<le> xs ! j"
  by (rule sorted_nth_mono)

lemma bs_loop_correct:
  assumes "sorted xs" and "right \<le> length xs" and "left \<le> right"
    and "\<forall>j < left. xs ! j < v" and "\<forall>j. right \<le> j \<and> j < length xs \<longrightarrow> v < xs ! j"
  shows "case bs_loop xs v left right of
           Inr i \<Rightarrow> i < length xs \<and> xs ! i = v
         | Inl i \<Rightarrow> i \<le> length xs \<and> (\<forall>j < i. xs ! j < v) \<and>
                    (\<forall>j. i \<le> j \<and> j < length xs \<longrightarrow> v < xs ! j)"
  using assms
proof (induction xs v left right rule: bs_loop.induct)
  case (1 xs v left right)
  show ?case
  proof (cases "left < right")
    case False
    with "1.prems" show ?thesis by (subst bs_loop.simps) auto
  next
    case True
    define mid where "mid = left + (right - left) div 2"
    have mid: "left \<le> mid" "mid < right" using True by (auto simp: mid_def)
    consider (lt) "xs ! mid < v" | (gt) "v < xs ! mid" | (eq) "xs ! mid = v" by force
    then show ?thesis
    proof cases
      case lt
      have "\<forall>j < mid + 1. xs ! j < v"
        using lt mid "1.prems"(1,2) sorted_nth_le [of xs _ mid] by (force simp: less_Suc_eq_le)
      then show ?thesis
        using "1.IH"(1) [OF True mid_def refl lt "1.prems"(1,2) _ _ "1.prems"(5)] mid True lt
        by (subst bs_loop.simps) (simp add: Let_def mid_def [symmetric])
    next
      case gt
      have "\<forall>j. mid \<le> j \<and> j < length xs \<longrightarrow> v < xs ! j"
        using gt "1.prems"(1) sorted_nth_le [of xs mid] by force
      then show ?thesis
        using "1.IH"(2) [OF True mid_def refl _ gt "1.prems"(1) _ _ "1.prems"(4)] mid True gt
          "1.prems"(2)
        by (subst bs_loop.simps) (auto simp: Let_def mid_def [symmetric])
    next
      case eq
      then show ?thesis using True mid "1.prems"(2)
        by (subst bs_loop.simps) (auto simp: Let_def mid_def [symmetric])
    qed
  qed
qed

lemma binary_search_correct:
  assumes "sorted xs"
  shows "case binary_search xs v of
           Inr i \<Rightarrow> i < length xs \<and> xs ! i = v
         | Inl i \<Rightarrow> i \<le> length xs \<and> (\<forall>j < i. xs ! j < v) \<and>
                    (\<forall>j. i \<le> j \<and> j < length xs \<longrightarrow> v < xs ! j)"
  unfolding binary_search_def using assms by (intro bs_loop_correct) auto

text \<open>Inserting at the position found keeps the vector sorted, in either case.\<close>

lemma sorted_vec_insert:
  assumes "sorted xs"
  shows "sorted (vec_insert xs (case binary_search xs v of Inr i \<Rightarrow> i | Inl i \<Rightarrow> i) v)"
proof -
  let ?i = "case binary_search xs v of Inr i \<Rightarrow> i | Inl i \<Rightarrow> i"
  have bound: "?i \<le> length xs"
    and lo: "\<forall>j < ?i. xs ! j \<le> v" and hi: "\<forall>j. ?i \<le> j \<and> j < length xs \<longrightarrow> v \<le> xs ! j"
    using binary_search_correct [OF assms, of v] sorted_nth_le [OF assms]
    by (auto split: sum.splits)
  have "\<forall>x \<in> set (take ?i xs). x \<le> v" using lo by (auto simp: in_set_conv_nth)
  moreover have "\<forall>x \<in> set (drop ?i xs). v \<le> x" using hi by (auto simp: in_set_conv_nth)
  moreover have "sorted (take ?i xs)" "sorted (drop ?i xs)"
    using assms by (auto simp: sorted_wrt_take sorted_wrt_drop)
  ultimately show ?thesis by (force simp: vec_insert_def sorted_append)
qed

lemma vec_insert_set [simp]: "set (vec_insert xs i v) = insert v (set xs)"
  using set_append [of "take i xs" "drop i xs"] by (simp add: vec_insert_def)

lemma vec_insert_mset: "mset (vec_insert xs i v) = add_mset v (mset xs)"
  using mset_append [of "take i xs" "drop i xs"] by (simp add: vec_insert_def)

end
