(* ===== verification/SubList.thy ===== *)
theory SubList
  imports TopicFilters RustVec
begin

text \<open>
  The sorted subscription vector of \<open>src/ipc/list.rs\<close>. The locale \<open>exclusive_registry\<close> is the contract that the IPC
  manager relies on: reliable subscriptions exclude every overlapping subscription.
\<close>

subsection \<open>Data\<close>

type_synonym SubscriptionId = nat

type_synonym target = "TopicFilter \<times> bool \<times> SubscriptionId"

record SubscriptionList =
  targets :: "target list"
  next_subscription_id :: SubscriptionId

definition sl_new :: SubscriptionList where
  "sl_new = \<lparr>targets = [], next_subscription_id = 0\<rparr>"

subsection \<open>Operations\<close>

definition conflicts :: "SubscriptionList \<Rightarrow> TopicFilter \<Rightarrow> bool \<Rightarrow> bool" where
  "conflicts sl filt reliable = list_ex (\<lambda>(f, r, _).
     (reliable \<and> contains_filter filt f) \<or> (r \<and> contains_filter f filt)) (targets sl)"

text \<open>\<open>insert\<close>; the outer option is the overflow panic of \<open>SubscriptionId::next\<close>.\<close>

definition sl_insert :: "SubscriptionList \<Rightarrow> TopicFilter \<Rightarrow> bool
    \<Rightarrow> (SubscriptionId option \<times> SubscriptionList) option" where
  "sl_insert sl filt reliable =
     (if conflicts sl filt reliable then Some (None, sl)
      else do {
        let id = next_subscription_id sl;
        let val = (filt, reliable, id);
        let index = (case binary_search (targets sl) val of Inr i \<Rightarrow> i | Inl i \<Rightarrow> i);
        nxt \<leftarrow> checked_u64 (id + 1);
        Some (Some id, sl\<lparr>targets := vec_insert (targets sl) index val,
                          next_subscription_id := nxt\<rparr>)
      })"

definition sl_remove :: "SubscriptionList \<Rightarrow> SubscriptionId \<Rightarrow> SubscriptionList" where
  "sl_remove sl subscription =
     sl\<lparr>targets := filter (\<lambda>(_, _, id). subscription \<noteq> id) (targets sl)\<rparr>"

definition find_all :: "SubscriptionList \<Rightarrow> Topic \<Rightarrow> bool \<Rightarrow> SubscriptionId set" where
  "find_all sl topic reliable =
     set (List.map_filter (\<lambda>(f, r, id). if r = reliable \<and> matches f topic then Some id else None)
       (targets sl))"

subsection \<open>Invariant\<close>

definition tid :: "target \<Rightarrow> SubscriptionId" where "tid t = snd (snd t)"

text \<open>Two entries exclude each other when one is reliable and their filters overlap.\<close>

definition exclude :: "target \<Rightarrow> target \<Rightarrow> bool" where
  "exclude a b \<longleftrightarrow> (fst (snd a) \<or> fst (snd b)) \<and> contains_filter (fst a) (fst b)"

definition exclusive :: "target set \<Rightarrow> bool" where
  "exclusive T \<longleftrightarrow> (\<forall>a \<in> T. \<forall>b \<in> T. tid a \<noteq> tid b \<longrightarrow> \<not> exclude a b)"

definition sl_inv :: "SubscriptionList \<Rightarrow> bool" where
  "sl_inv sl \<longleftrightarrow> sorted (targets sl) \<and> distinct (map tid (targets sl)) \<and>
     (\<forall>t \<in> set (targets sl). tid t < next_subscription_id sl) \<and> exclusive (set (targets sl))"

lemma conflicts_exclude:
  "conflicts sl filt reliable \<longleftrightarrow> (\<exists>t \<in> set (targets sl). exclude (filt, reliable, i) t)"
  by (auto simp: conflicts_def list_ex_iff exclude_def contains_filter_sym split_def)

lemma exclude_sym: "exclude a b \<longleftrightarrow> exclude b a"
  by (auto simp: exclude_def contains_filter_sym)

lemma exclusive_insert:
  "exclusive (insert a T) \<longleftrightarrow> exclusive T \<and> (\<forall>b \<in> T. tid a \<noteq> tid b \<longrightarrow> \<not> exclude a b)"
  by (auto simp: exclusive_def exclude_sym)

lemma exclusive_subset: "exclusive T \<Longrightarrow> S \<subseteq> T \<Longrightarrow> exclusive S"
  by (auto simp: exclusive_def)

lemma sl_inv_new [simp]: "sl_inv sl_new"
  by (simp add: sl_inv_def sl_new_def exclusive_def)

lemma sl_insert_None_id:
  "sl_insert sl filt reliable = Some (None, sl') \<longleftrightarrow> conflicts sl filt reliable \<and> sl' = sl"
  by (auto simp: sl_insert_def Let_def bind_eq_Some_conv)

lemma sl_insert_total:
  "next_subscription_id sl + 1 < 2 ^ 64 \<Longrightarrow> \<exists>r. sl_insert sl filt reliable = Some r"
  by (auto simp: sl_insert_def Let_def checked_u64_def)

lemma sl_insert_SomeE:
  assumes "sl_insert sl filt reliable = Some (Some i, sl')"
  obtains "\<not> conflicts sl filt reliable" and "i = next_subscription_id sl"
    and "set (targets sl') = insert (filt, reliable, i) (set (targets sl))"
    and "mset (targets sl') = add_mset (filt, reliable, i) (mset (targets sl))"
    and "next_subscription_id sl' = Suc i"
    and "sorted (targets sl) \<Longrightarrow> sorted (targets sl')"
proof
  show "sorted (targets sl) \<Longrightarrow> sorted (targets sl')"
    using assms sorted_vec_insert [of "targets sl" "(filt, reliable, i)"]
    by (auto simp: sl_insert_def Let_def bind_eq_Some_conv split: if_splits)
qed (use assms in \<open>auto simp: sl_insert_def Let_def bind_eq_Some_conv vec_insert_mset
       checked_u64_eq_Some split: if_splits\<close>)

lemma distinct_map_mset:
  assumes "mset ys = add_mset x (mset xs)"
  shows "distinct (map f ys) \<longleftrightarrow> f x \<notin> f ` set xs \<and> distinct (map f xs)"
proof -
  have "mset (map f ys) = mset (map f (x # xs))" using assms by simp
  then have "distinct (map f ys) = distinct (map f (x # xs))" by (metis mset_eq_imp_distinct_iff)
  then show ?thesis by simp
qed

lemma sl_insert_inv:
  assumes "sl_insert sl filt reliable = Some (r, sl')" and "sl_inv sl"
  shows "sl_inv sl'"
proof (cases r)
  case None
  with assms show ?thesis by (simp add: sl_insert_None_id)
next
  case (Some i)
  with assms(1) have ins: "sl_insert sl filt reliable = Some (Some i, sl')" by simp
  from ins show ?thesis
  proof (rule sl_insert_SomeE)
    assume c: "\<not> conflicts sl filt reliable" and i: "i = next_subscription_id sl"
      and s: "set (targets sl') = insert (filt, reliable, i) (set (targets sl))"
      and m: "mset (targets sl') = add_mset (filt, reliable, i) (mset (targets sl))"
      and n: "next_subscription_id sl' = Suc i"
      and srt: "sorted (targets sl) \<Longrightarrow> sorted (targets sl')"
    have "exclusive (set (targets sl'))"
      using c assms(2) unfolding s exclusive_insert sl_inv_def
      by (auto simp: conflicts_exclude [of _ _ _ i])
    moreover have "distinct (map tid (targets sl'))"
      using assms(2) i unfolding distinct_map_mset [OF m] sl_inv_def by (force simp: tid_def)
    moreover have "\<forall>t \<in> set (targets sl'). tid t < next_subscription_id sl'"
      using assms(2) i by (auto simp: s n sl_inv_def tid_def less_Suc_eq)
    ultimately show ?thesis using srt assms(2) by (simp add: sl_inv_def)
  qed
qed

lemma set_sl_remove: "set (targets (sl_remove sl i)) = {t \<in> set (targets sl). tid t \<noteq> i}"
  by (auto simp: sl_remove_def tid_def)

lemma sl_remove_inv: "sl_inv sl \<Longrightarrow> sl_inv (sl_remove sl i)"
  unfolding sl_inv_def
  by (auto simp: sl_remove_def sorted_wrt_filter distinct_map inj_on_def
      intro: exclusive_subset)

lemma find_all_iff:
  "i \<in> find_all sl topic reliable \<longleftrightarrow>
   (\<exists>f. (f, reliable, i) \<in> set (targets sl) \<and> matches f topic)"
  by (auto simp: find_all_def map_filter_def image_iff split: if_splits)

lemma find_all_finite [simp]: "finite (find_all sl topic reliable)"
  by (simp add: find_all_def)

subsection \<open>The exclusive registry interface\<close>

locale exclusive_registry =
  fixes entries :: "'r \<Rightarrow> target set"
    and lookup :: "'r \<Rightarrow> Topic \<Rightarrow> bool \<Rightarrow> SubscriptionId set"
    and ins :: "'r \<Rightarrow> TopicFilter \<Rightarrow> bool \<Rightarrow> (SubscriptionId option \<times> 'r) option"
    and rmv :: "'r \<Rightarrow> SubscriptionId \<Rightarrow> 'r"
    and ok :: "'r \<Rightarrow> bool"
  assumes lookup_iff: "i \<in> lookup r t rel \<longleftrightarrow> (\<exists>f. (f, rel, i) \<in> entries r \<and> matches f t)"
    and ok_ids: "ok r \<Longrightarrow> inj_on tid (entries r)"
    and ok_exclusive: "ok r \<Longrightarrow> exclusive (entries r)"
    and ins_ok: "ok r \<Longrightarrow> ins r f rel = Some (x, r') \<Longrightarrow> ok r'"
    and ins_entries: "ok r \<Longrightarrow> ins r f rel = Some (x, r') \<Longrightarrow>
          entries r' = (case x of None \<Rightarrow> entries r | Some i \<Rightarrow> insert (f, rel, i) (entries r))"
    and ins_fresh: "ok r \<Longrightarrow> ins r f rel = Some (Some i, r') \<Longrightarrow> i \<notin> tid ` entries r"
    and ins_refused: "ok r \<Longrightarrow> ins r f rel = Some (None, r') \<Longrightarrow>
          \<exists>t \<in> entries r. exclude (f, rel, i) t"
    and rmv_ok: "ok r \<Longrightarrow> ok (rmv r i)"
    and rmv_entries: "entries (rmv r i) = {t \<in> entries r. tid t \<noteq> i}"
begin

lemma lookup_exclusive:
  assumes "ok r" and "i \<in> lookup r t True" and "j \<in> lookup r t rel"
  shows "i = j \<and> rel"
proof -
  from assms obtain f g where f: "(f, True, i) \<in> entries r" "matches f t"
    and g: "(g, rel, j) \<in> entries r" "matches g t" by (auto simp: lookup_iff)
  from f(2) g(2) have "contains_filter f g" by (rule matches_overlap)
  then have "exclude (f, True, i) (g, rel, j)" by (simp add: exclude_def)
  with ok_exclusive [OF assms(1)] f(1) g(1) have same: "i = j"
    by (force simp: exclusive_def tid_def)
  with ok_ids [OF assms(1)] f(1) g(1) have "(f, True, i) = (g, rel, j)"
    by (force simp: inj_on_def tid_def)
  with same show ?thesis by simp
qed

text \<open>At most one subscription receives a reliable message, and no unreliable one shares its
  topic.\<close>

lemma lookup_reliable_single:
  assumes "ok r"
  shows "lookup r t True = {} \<or> (\<exists>i. lookup r t True = {i})"
  using lookup_exclusive [OF assms] by blast

lemma lookup_reliable_silences:
  "ok r \<Longrightarrow> lookup r t True \<noteq> {} \<Longrightarrow> lookup r t False = {}"
  using lookup_exclusive by blast

lemma lookup_ids: "lookup r t rel \<subseteq> tid ` entries r"
  by (force simp: lookup_iff tid_def)

lemma lookup_after_insert:
  "ok r \<Longrightarrow> ins r f rel = Some (Some i, r') \<Longrightarrow> matches f t \<Longrightarrow>
   lookup r' t rel = insert i (lookup r t rel)"
  by (auto simp: lookup_iff ins_entries)

lemma lookup_after_remove: "lookup (rmv r i) t rel = lookup r t rel - {i}"
  by (auto simp: lookup_iff rmv_entries tid_def)

end

interpretation sub_registry: exclusive_registry
  "\<lambda>sl. set (targets sl)" find_all sl_insert sl_remove sl_inv
proof
  show "inj_on tid (set (targets r))" if "sl_inv r" for r
    using that by (simp add: sl_inv_def distinct_map)
  show "exclusive (set (targets r))" if "sl_inv r" for r
    using that by (simp add: sl_inv_def)
  show "set (targets r') = (case x of None \<Rightarrow> set (targets r)
          | Some i \<Rightarrow> insert (f, rel, i) (set (targets r)))"
    if "sl_inv r" "sl_insert r f rel = Some (x, r')" for r f rel x r'
    using that(2) by (cases x) (auto simp: sl_insert_None_id elim: sl_insert_SomeE)
  show "i \<notin> tid ` set (targets r)" if "sl_inv r" "sl_insert r f rel = Some (Some i, r')"
    for r f rel i r'
    using that by (auto simp: sl_inv_def elim!: sl_insert_SomeE)
  show "\<exists>t \<in> set (targets r). exclude (f, rel, i) t"
    if "sl_inv r" "sl_insert r f rel = Some (None, r')" for r f rel r' i
    using that(2) conflicts_exclude [of r f rel i] by (simp add: sl_insert_None_id)
qed (auto intro: sl_insert_inv sl_remove_inv simp: find_all_iff set_sl_remove)

subsection \<open>Reachable lists\<close>

text \<open>The lists the manager can hold: \<open>new\<close>, then inserts and removals. The filters come
  from \<open>TopicFilter::try_new\<close>, so they are valid.\<close>

inductive sl_reachable :: "SubscriptionList \<Rightarrow> bool" where
  sl_start: "sl_reachable sl_new"
| sl_ins: "sl_reachable sl \<Longrightarrow> valid_filter f \<Longrightarrow> sl_insert sl f rel = Some (x, sl') \<Longrightarrow>
    sl_reachable sl'"
| sl_rem: "sl_reachable sl \<Longrightarrow> sl_reachable (sl_remove sl i)"

lemma sl_reachable_inv: "sl_reachable sl \<Longrightarrow> sl_inv sl"
  by (induction rule: sl_reachable.induct) (auto intro: sl_insert_inv sl_remove_inv)

lemma sl_reachable_valid: "sl_reachable sl \<Longrightarrow> t \<in> set (targets sl) \<Longrightarrow> valid_filter (fst t)"
proof (induction rule: sl_reachable.induct)
  case sl_start
  then show ?case by (simp add: sl_new_def)
next
  case (sl_ins sl f rel x sl')
  then have "set (targets sl') \<subseteq> insert (f, rel, the x) (set (targets sl))"
    using sub_registry.ins_entries [OF sl_reachable_inv [OF sl_ins.hyps(1)] sl_ins.hyps(3)]
    by (auto split: option.splits)
  with sl_ins show ?case by auto
next
  case (sl_rem sl i)
  then show ?case by (simp add: set_sl_remove)
qed

subsection \<open>Claims\<close>

text \<open>C18: reliable subscriptions are exclusive. In every list built by \<open>insert\<close> and
  \<open>remove\<close>, a topic has at most one reliable receiver, and a topic with a reliable
  receiver has no unreliable one; so the assertion of \<open>deliver\<close> that \<open>find_all\<close> returns
  at most one subscription holds.\<close>

theorem reliable_exclusive:
  assumes "sl_reachable sl"
  shows "card (find_all sl t True) \<le> 1 \<and>
         (find_all sl t True \<noteq> {} \<longrightarrow> find_all sl t False = {})"
  using sub_registry.lookup_reliable_single [OF sl_reachable_inv [OF assms], of t]
    sub_registry.lookup_reliable_silences [OF sl_reachable_inv [OF assms], of t]
  by auto

theorem reliable_exclusive_witness:
  "\<exists>sl. sl_insert sl_new (Exact (Topic ''a'')) True = Some (Some 0, sl) \<and>
     card (find_all sl (Topic ''a'') True) \<le> 1 \<and> find_all sl (Topic ''a'') False = {}"
proof -
  let ?f = "Exact (Topic ''a'')"
  let ?sl = "\<lparr>targets = [(?f, True, 0)], next_subscription_id = 1\<rparr>"
  have ins: "sl_insert sl_new ?f True = Some (Some 0, ?sl)"
    by (simp add: sl_insert_def conflicts_def sl_new_def binary_search_def bs_loop.simps
        vec_insert_def checked_u64_def)
  have "valid_filter ?f"
    by (simp add: valid_topic_def topic_new_def topic_char_def is_ascii_alphanumeric_def
        less_eq_char_def)
  from reliable_exclusive [OF sl_ins [OF sl_start this ins], of "Topic ''a''"]
  have "card (find_all ?sl (Topic ''a'') True) \<le> 1 \<and> find_all ?sl (Topic ''a'') False = {}"
    by (auto simp: find_all_iff)
  with ins show ?thesis by blast
qed

text \<open>\<open>insert\<close> refuses a subscription exactly when it has to. On a reachable list that has
  not run out of identifiers, inserting a valid filter is refused if and only if some valid
  topic is matched both by it and by an existing subscription, one of the two being reliable;
  otherwise it gets a fresh identifier and the vector stays sorted.\<close>

lemma insert_refused_iff:
  assumes "sl_reachable sl" and "valid_filter f" and "next_subscription_id sl + 1 < 2 ^ 64"
  shows "case sl_insert sl f rel of
      None \<Rightarrow> False
    | Some (None, sl') \<Rightarrow> sl' = sl \<and> (\<exists>(g, r, i) \<in> set (targets sl). (rel \<or> r) \<and>
          (\<exists>t. valid_topic t \<and> matches f t \<and> matches g t))
    | Some (Some i, sl') \<Rightarrow> i \<notin> tid ` set (targets sl) \<and> sorted (targets sl') \<and>
          set (targets sl') = insert (f, rel, i) (set (targets sl)) \<and>
          \<not> (\<exists>(g, r, i) \<in> set (targets sl). (rel \<or> r) \<and>
              (\<exists>t. valid_topic t \<and> matches f t \<and> matches g t))"
proof -
  note inv = sl_reachable_inv [OF assms(1)]
  from sl_insert_total [OF assms(3)] obtain x sl' where ins: "sl_insert sl f rel = Some (x, sl')"
    by force
  have conf: "conflicts sl f rel \<longleftrightarrow> (\<exists>(g, r, i) \<in> set (targets sl). (rel \<or> r) \<and>
          (\<exists>t. valid_topic t \<and> matches f t \<and> matches g t))"
    unfolding conflicts_exclude [of _ _ _ 0] exclude_def split_def
    by (intro bex_cong refl)
      (simp add: contains_filter_iff [OF assms(2) sl_reachable_valid [OF assms(1)]])
  show ?thesis
  proof (cases x)
    case None
    with ins have "conflicts sl f rel \<and> sl' = sl" by (simp add: sl_insert_None_id)
    with None ins conf show ?thesis by simp
  next
    case (Some i)
    with ins have ins': "sl_insert sl f rel = Some (Some i, sl')" by simp
    from ins' have c: "\<not> conflicts sl f rel"
      and s: "set (targets sl') = insert (f, rel, i) (set (targets sl))"
      by (auto elim: sl_insert_SomeE)
    from sl_insert_inv [OF ins inv] have "sorted (targets sl')" by (simp add: sl_inv_def)
    with c s conf sub_registry.ins_fresh [OF inv ins'] ins' show ?thesis by simp
  qed
qed

lemma insert_refused_iff_example:
  "case sl_insert sl_new (Exact (Topic ''a'')) True of
      None \<Rightarrow> False
    | Some (None, sl') \<Rightarrow> sl' = sl_new \<and> (\<exists>(g, r, i) \<in> set (targets sl_new). (True \<or> r) \<and>
          (\<exists>t. valid_topic t \<and> matches (Exact (Topic ''a'')) t \<and> matches g t))
    | Some (Some i, sl') \<Rightarrow> i \<notin> tid ` set (targets sl_new) \<and> sorted (targets sl') \<and>
          set (targets sl') = insert (Exact (Topic ''a''), True, i) (set (targets sl_new)) \<and>
          \<not> (\<exists>(g, r, i) \<in> set (targets sl_new). (True \<or> r) \<and>
              (\<exists>t. valid_topic t \<and> matches (Exact (Topic ''a'')) t \<and> matches g t))"
  by (rule insert_refused_iff [OF sl_start])
    (simp_all add: valid_topic_def topic_new_def topic_char_def is_ascii_alphanumeric_def
      less_eq_char_def sl_new_def)

end
