(* ===== verification/Abi.thy ===== *)
theory Abi
  imports Prelude
begin

text \<open>
  The kernel interface constants of \<open>libs/d7abi\<close>: system call numbers, error codes, process
  ids and results, subscription and memory protection flags. The conversions derived by
  \<open>num_enum\<close> map a value to the variant with that discriminant.
\<close>

unbundle bit_operations_syntax

subsection \<open>System call numbers\<close>

datatype SyscallNumber =
    sys_exit | sys_get_pid | sys_debug_print | sys_exec | sys_random | sys_sched_yield
  | sys_sched_sleep_ns | sys_ipc_subscribe | sys_ipc_unsubscribe | sys_ipc_publish
  | sys_ipc_deliver | sys_ipc_deliver_reply | sys_ipc_receive | sys_ipc_acknowledge
  | sys_ipc_select | sys_kernel_log_read | sys_irq_set_handler | sys_mmap_physical
  | sys_dma_allocate | sys_dma_free | sys_mem_alloc | sys_mem_dealloc

fun syscall_code :: "SyscallNumber \<Rightarrow> u64" where
  "syscall_code sys_exit = 0x00"
| "syscall_code sys_get_pid = 0x01"
| "syscall_code sys_debug_print = 0x02"
| "syscall_code sys_exec = 0x30"
| "syscall_code sys_random = 0x40"
| "syscall_code sys_sched_yield = 0x50"
| "syscall_code sys_sched_sleep_ns = 0x51"
| "syscall_code sys_ipc_subscribe = 0x70"
| "syscall_code sys_ipc_unsubscribe = 0x71"
| "syscall_code sys_ipc_publish = 0x72"
| "syscall_code sys_ipc_deliver = 0x73"
| "syscall_code sys_ipc_deliver_reply = 0x74"
| "syscall_code sys_ipc_receive = 0x75"
| "syscall_code sys_ipc_acknowledge = 0x76"
| "syscall_code sys_ipc_select = 0x77"
| "syscall_code sys_kernel_log_read = 0x80"
| "syscall_code sys_irq_set_handler = 0x84"
| "syscall_code sys_mmap_physical = 0x90"
| "syscall_code sys_dma_allocate = 0x92"
| "syscall_code sys_dma_free = 0x93"
| "syscall_code sys_mem_alloc = 0x94"
| "syscall_code sys_mem_dealloc = 0x95"

definition syscall_numbers :: "SyscallNumber list" where
  "syscall_numbers = [sys_exit, sys_get_pid, sys_debug_print, sys_exec, sys_random,
     sys_sched_yield, sys_sched_sleep_ns, sys_ipc_subscribe, sys_ipc_unsubscribe,
     sys_ipc_publish, sys_ipc_deliver, sys_ipc_deliver_reply, sys_ipc_receive,
     sys_ipc_acknowledge, sys_ipc_select, sys_kernel_log_read, sys_irq_set_handler,
     sys_mmap_physical, sys_dma_allocate, sys_dma_free, sys_mem_alloc, sys_mem_dealloc]"

definition syscall_try_from :: "u64 \<Rightarrow> SyscallNumber option" where
  "syscall_try_from v = List.find (\<lambda>n. syscall_code n = v) syscall_numbers"

subsection \<open>Error codes\<close>

datatype SyscallErrorCode =
    ec_unknown | ec_unsupported | ec_out_of_memory | ec_empty_list_argument | ec_too_large
  | ec_would_block | ec_ipc_invalid_topic | ec_ipc_filter_exclusion | ec_ipc_delivery_no_target
  | ec_ipc_delivery_target_full | ec_ipc_delivery_target_nack | ec_ipc_unsubscribed
  | ec_ipc_re_acknowledge | ec_ipc_pipe_reserved | ec_ipc_pipe_sender_terminated
  | ec_ipc_permission_error | ec_invalid_utf8 | ec_ptr_unaligned
  | ec_mmap_invalid_protection_flags | ec_mmap_incorrect_alignment | ec_mmap_permission_error

fun error_code :: "SyscallErrorCode \<Rightarrow> u64" where
  "error_code ec_unknown = 0"
| "error_code ec_unsupported = 1"
| "error_code ec_out_of_memory = 2"
| "error_code ec_empty_list_argument = 3"
| "error_code ec_too_large = 4"
| "error_code ec_would_block = 5"
| "error_code ec_ipc_invalid_topic = 6"
| "error_code ec_ipc_filter_exclusion = 7"
| "error_code ec_ipc_delivery_no_target = 8"
| "error_code ec_ipc_delivery_target_full = 9"
| "error_code ec_ipc_delivery_target_nack = 10"
| "error_code ec_ipc_unsubscribed = 11"
| "error_code ec_ipc_re_acknowledge = 12"
| "error_code ec_ipc_pipe_reserved = 13"
| "error_code ec_ipc_pipe_sender_terminated = 14"
| "error_code ec_ipc_permission_error = 15"
| "error_code ec_invalid_utf8 = 16"
| "error_code ec_ptr_unaligned = 17"
| "error_code ec_mmap_invalid_protection_flags = 18"
| "error_code ec_mmap_incorrect_alignment = 19"
| "error_code ec_mmap_permission_error = 20"

definition error_codes :: "SyscallErrorCode list" where
  "error_codes = [ec_unknown, ec_unsupported, ec_out_of_memory, ec_empty_list_argument,
     ec_too_large, ec_would_block, ec_ipc_invalid_topic, ec_ipc_filter_exclusion,
     ec_ipc_delivery_no_target, ec_ipc_delivery_target_full, ec_ipc_delivery_target_nack,
     ec_ipc_unsubscribed, ec_ipc_re_acknowledge, ec_ipc_pipe_reserved,
     ec_ipc_pipe_sender_terminated, ec_ipc_permission_error, ec_invalid_utf8, ec_ptr_unaligned,
     ec_mmap_invalid_protection_flags, ec_mmap_incorrect_alignment, ec_mmap_permission_error]"

definition error_try_from :: "u64 \<Rightarrow> SyscallErrorCode option" where
  "error_try_from v = List.find (\<lambda>n. error_code n = v) error_codes"

subsection \<open>Process ids and results\<close>

definition pid_first :: pid where "pid_first = 1"

definition pid_from_u64 :: "nat \<Rightarrow> pid option" where
  "pid_from_u64 v = do { rassert (v \<noteq> 0); Some v }"

definition pid_next :: "pid \<Rightarrow> pid option" where
  "pid_next p = do { rassert (p \<noteq> 2 ^ 64 - 1); checked_u64 (p + 1) }"

text \<open>Why a process ended; \<open>'f\<close> stands for the interrupt stack frame of the CPU crate.\<close>

datatype 'f ProcessError =
    DivideByZero 'f
  | PageFault 'f u64 u64
  | Interrupt u8 'f
  | InterruptWithCode u8 'f u32
  | SyscallNumberError u64
  | SyscallArgument
  | PointerError u64
  | ChainedTermination

datatype 'f ProcessResult = Completed u64 | Failed "'f ProcessError"

subsection \<open>Flags\<close>

definition SF_PREFIX :: u64 where "SF_PREFIX = push_bit 0 1"
definition SF_RELIABLE :: u64 where "SF_RELIABLE = push_bit 1 1"
definition SF_PIPE :: u64 where "SF_PIPE = push_bit 2 1 OR SF_PREFIX OR SF_RELIABLE"

definition flags_from_bits :: "u64 \<Rightarrow> u64 option" where
  "flags_from_bits v = (if v AND NOT (SF_PREFIX OR SF_RELIABLE OR SF_PIPE) = 0 then Some v else None)"

definition flags_contains :: "u64 \<Rightarrow> u64 \<Rightarrow> bool" where
  "flags_contains fl other \<longleftrightarrow> fl AND other = other"

definition MP_READ :: u8 where "MP_READ = push_bit 0 1"
definition MP_WRITE :: u8 where "MP_WRITE = push_bit 1 1"
definition MP_EXECUTE :: u8 where "MP_EXECUTE = push_bit 2 1"

definition mp_from_bits :: "u8 \<Rightarrow> u8 option" where
  "mp_from_bits v = (if v AND NOT (MP_READ OR MP_WRITE OR MP_EXECUTE) = 0 then Some v else None)"

subsection \<open>Facts\<close>

lemma find_key_iff:
  assumes "\<And>x. x \<in> set xs" and "inj f"
  shows "List.find (\<lambda>x. f x = v) xs = Some y \<longleftrightarrow> f y = v"
proof
  assume "f y = v"
  then have "List.find (\<lambda>x. f x = v) xs \<noteq> None" using assms(1) by (auto simp: find_None_iff)
  then obtain z where "List.find (\<lambda>x. f x = v) xs = Some z" by blast
  moreover from this have "f z = v" by (auto simp: find_Some_iff)
  ultimately show "List.find (\<lambda>x. f x = v) xs = Some y"
    using \<open>f y = v\<close> assms(2) by (auto simp: inj_def)
qed (auto simp: find_Some_iff)

lemma syscall_code_inj: "inj syscall_code"
proof (rule injI)
  fix x y assume "syscall_code x = syscall_code y"
  then show "x = y" by (cases x; simp; cases y; simp)
qed

lemma error_code_inj: "inj error_code"
proof (rule injI)
  fix x y assume "error_code x = error_code y"
  then show "x = y" by (cases x; simp; cases y; simp)
qed

lemma syscall_numbers_all: "n \<in> set syscall_numbers"
  by (cases n) (simp_all add: syscall_numbers_def)

lemma error_codes_all: "c \<in> set error_codes"
  by (cases c) (simp_all add: error_codes_def)

lemma syscall_try_from_iff: "syscall_try_from v = Some n \<longleftrightarrow> syscall_code n = v"
  unfolding syscall_try_from_def by (rule find_key_iff [OF syscall_numbers_all syscall_code_inj])

lemma error_try_from_iff: "error_try_from v = Some c \<longleftrightarrow> error_code c = v"
  unfolding error_try_from_def by (rule find_key_iff [OF error_codes_all error_code_inj])

text \<open>A pipe subscription is always reliable, and always a prefix subscription.\<close>

lemma pipe_implies:
  assumes "flags_contains fl SF_PIPE"
  shows "flags_contains fl SF_RELIABLE" and "flags_contains fl SF_PREFIX"
proof -
  have p: "fl AND SF_PIPE = SF_PIPE" using assms by (simp add: flags_contains_def)
  have bits: "bit SF_PIPE 0" "bit SF_PIPE 1"
    by (simp_all add: SF_PIPE_def SF_PREFIX_def SF_RELIABLE_def bit_simps)
  have "bit fl 0" "bit fl 1" using p bits by (metis bit_and_iff)+
  then show "flags_contains fl SF_RELIABLE" "flags_contains fl SF_PREFIX"
    by (auto simp: flags_contains_def SF_PREFIX_def SF_RELIABLE_def intro!: bit_word_eqI
        simp: bit_simps)
qed

text \<open>system call numbers and error codes survive the user/kernel boundary: converting a
  number back gives the variant it came from, and any other number is refused.\<close>

lemma abi_codes_roundtrip:
  "(syscall_try_from v = Some n \<longleftrightarrow> syscall_code n = v) \<and>
   (error_try_from v = Some c \<longleftrightarrow> error_code c = v)"
  by (simp add: syscall_try_from_iff error_try_from_iff)

end
