(* ===== verification/SchedQueues.thy ===== *)
theory SchedQueues
  imports WaitCond
begin

text \<open>
  The scheduler queues of \<open>src/multitasking/queues.rs\<close>, with the two operations of
  \<open>src/multitasking/waitfor.rs\<close> that read them. A hash map is a map, a hash set a set;
  \<open>ord\<close> is the iteration order of hash sets.
\<close>

subsection \<open>Data\<close>

record Queues =
  running :: "pid list"
  waiting :: "nat \<rightharpoonup> pid"
  next_waitid :: nat
  wait_sleeping :: "(instant \<times> nat) list"
  wait_process :: "pid \<rightharpoonup> nat set"
  wait_event :: "eventid \<rightharpoonup> nat set"

definition queues_new :: Queues where
  "queues_new = \<lparr>running = [], waiting = Map.empty, next_waitid = 0, wait_sleeping = [],
     wait_process = Map.empty, wait_event = Map.empty\<rparr>"

subsection \<open>Operations\<close>

definition process_exists :: "Queues \<Rightarrow> pid \<Rightarrow> bool" where
  "process_exists qs p \<longleftrightarrow> p \<in> set (running qs) \<or> p \<in> ran (waiting qs)"

text \<open>\<open>WaitFor::try_resolve_immediate\<close> and \<open>WaitFor::reduce_queues\<close>.\<close>

definition process_done :: "Queues \<Rightarrow> pid \<Rightarrow> pid \<Rightarrow> bool" where
  "process_done qs current p \<longleftrightarrow> current \<noteq> p \<and> \<not> process_exists qs p"

fun first_done :: "Queues \<Rightarrow> pid \<Rightarrow> WaitFor list \<Rightarrow> pid option" where
  "first_done qs current [] = None"
| "first_done qs current (Process p # es) =
     (if process_done qs current p then Some p else first_done qs current es)"
| "first_done qs current (_ # es) = first_done qs current es"

definition try_resolve_immediate :: "WaitFor \<Rightarrow> Queues \<Rightarrow> pid \<Rightarrow> WaitFor + pid" where
  "try_resolve_immediate s qs current = (case s of
     Process p \<Rightarrow> (if process_done qs current p then Inr p else Inl s)
   | FirstOf subevents \<Rightarrow>
       (case first_done qs current subevents of Some p \<Rightarrow> Inr p | None \<Rightarrow> Inl s)
   | _ \<Rightarrow> Inl s)"

definition reduce_queues :: "WaitFor \<Rightarrow> Queues \<Rightarrow> pid \<Rightarrow> WaitFor option" where
  "reduce_queues s qs current = (case s of
     Process p \<Rightarrow> (if process_done qs current p then Some WNone else reduce s)
   | FirstOf subevents \<Rightarrow>
       (case first_done qs current subevents of Some p \<Rightarrow> Some WNone | None \<Rightarrow> reduce s)
   | _ \<Rightarrow> reduce s)"

text \<open>\<open>WaitId::take\<close> increments with an overflow check, then the wait is recorded.\<close>

definition create_wait :: "pid \<Rightarrow> Queues \<Rightarrow> (nat \<times> Queues) option" where
  "create_wait p qs = do {
     n \<leftarrow> checked_u64 (next_waitid qs + 1);
     let wait_id = next_waitid qs;
     Some (wait_id, qs\<lparr>next_waitid := n, waiting := (waiting qs)(wait_id \<mapsto> p)\<rparr>)
   }"

definition trigger_wait :: "nat \<Rightarrow> Queues \<Rightarrow> Queues" where
  "trigger_wait wait_id qs = (case waiting qs wait_id of
     Some p \<Rightarrow> qs\<lparr>waiting := (waiting qs)(wait_id := None), running := p # running qs\<rparr>
   | None \<Rightarrow> qs)"

fun p_index_vecdeque :: "(instant \<times> 'v) list \<Rightarrow> instant \<Rightarrow> nat" where
  "p_index_vecdeque [] t = 0"
| "p_index_vecdeque ((k, _) # v) t = (if t < k then 0 else Suc (p_index_vecdeque v t))"

definition insert_at :: "nat \<Rightarrow> 'a \<Rightarrow> 'a list \<Rightarrow> 'a list" where
  "insert_at i x xs = take i xs @ x # drop i xs"

definition or_default :: "nat set option \<Rightarrow> nat set" where
  "or_default v = (case v of Some W \<Rightarrow> W | None \<Rightarrow> {})"

definition give_inner :: "Queues \<Rightarrow> nat \<Rightarrow> WaitFor \<Rightarrow> Queues option" where
  "give_inner qs wait_id s = (case s of
     Time t \<Rightarrow> Some (qs\<lparr>wait_sleeping :=
       insert_at (p_index_vecdeque (wait_sleeping qs) t) (t, wait_id) (wait_sleeping qs)\<rparr>)
   | Process p \<Rightarrow> Some (qs\<lparr>wait_process :=
       (wait_process qs)(p \<mapsto> insert wait_id (or_default (wait_process qs p)))\<rparr>)
   | Event e \<Rightarrow> Some (qs\<lparr>wait_event :=
       (wait_event qs)(e \<mapsto> insert wait_id (or_default (wait_event qs e)))\<rparr>)
   | WNone \<Rightarrow> None
   | FirstOf _ \<Rightarrow> None)"

definition give :: "pid \<Rightarrow> WaitFor \<Rightarrow> Queues \<Rightarrow> Queues option" where
  "give p s0 qs = do {
     s \<leftarrow> reduce_queues s0 qs p;
     if s = WNone then Some (qs\<lparr>running := running qs @ [p]\<rparr>)
     else do {
       (wait_id, qs) \<leftarrow> create_wait p qs;
       (case s of
          FirstOf targets \<Rightarrow> foldM (\<lambda>qs target. give_inner qs wait_id target) qs targets
        | _ \<Rightarrow> give_inner qs wait_id s)
     }
   }"

definition take_next :: "Queues \<Rightarrow> pid option \<times> Queues" where
  "take_next qs = (case running qs of
     [] \<Rightarrow> (None, qs) | p # rest \<Rightarrow> (Some p, qs\<lparr>running := rest\<rparr>))"

lemma trigger_wait_sleeping [simp]: "wait_sleeping (trigger_wait w qs) = wait_sleeping qs"
  by (simp add: trigger_wait_def split: option.splits)

function on_tick :: "instant \<Rightarrow> Queues \<Rightarrow> Queues" where
  "on_tick now qs = (case wait_sleeping qs of
     [] \<Rightarrow> qs
   | (wakeup, wait_id) # rest \<Rightarrow>
       (if now \<ge> wakeup then on_tick now (trigger_wait wait_id (qs\<lparr>wait_sleeping := rest\<rparr>))
        else qs))"
  by pat_completeness auto
termination
  by (relation "measure (\<lambda>(now, qs). length (wait_sleeping qs))") auto

declare on_tick.simps [simp del]

definition next_wakeup :: "Queues \<Rightarrow> instant option" where
  "next_wakeup qs = (case wait_sleeping qs of [] \<Rightarrow> None | (t, _) # _ \<Rightarrow> Some t)"

definition trigger_set :: "(nat set \<Rightarrow> nat list) \<Rightarrow> nat set option \<Rightarrow> Queues \<Rightarrow> Queues" where
  "trigger_set ord W qs = (case W of Some wait_ids \<Rightarrow> fold trigger_wait (ord wait_ids) qs | None \<Rightarrow> qs)"

definition queues_on_process_over :: "(nat set \<Rightarrow> nat list) \<Rightarrow> pid \<Rightarrow> Queues \<Rightarrow> Queues" where
  "queues_on_process_over ord completed qs =
     (let qs = qs\<lparr>running := remove1 completed (running qs)\<rparr>;
          W = wait_process qs completed
      in trigger_set ord W (qs\<lparr>wait_process := (wait_process qs)(completed := None)\<rparr>))"

definition on_explicit_event :: "(nat set \<Rightarrow> nat list) \<Rightarrow> eventid \<Rightarrow> Queues \<Rightarrow> Queues" where
  "on_explicit_event ord e qs =
     trigger_set ord (wait_event qs e) (qs\<lparr>wait_event := (wait_event qs)(e := None)\<rparr>)"

subsection \<open>Invariant\<close>

text \<open>The processes the queues hold, and where a wait id is registered.\<close>

definition queued :: "Queues \<Rightarrow> pid set" where
  "queued qs = set (running qs) \<union> ran (waiting qs)"

definition registered :: "Queues \<Rightarrow> nat set" where
  "registered qs = snd ` set (wait_sleeping qs)
     \<union> \<Union> (ran (wait_process qs)) \<union> \<Union> (ran (wait_event qs))"

text \<open>
  A process is held at most once (once in the run queue or under one wait id), wait ids in use
  are below the next one, every waiting process has a trigger, and the sleep queue is sorted.
\<close>

definition queues_inv :: "Queues \<Rightarrow> bool" where
  "queues_inv qs \<longleftrightarrow>
     distinct (running qs)
   \<and> inj_on (waiting qs) (dom (waiting qs))
   \<and> set (running qs) \<inter> ran (waiting qs) = {}
   \<and> registered qs \<subseteq> {..<next_waitid qs}
   \<and> dom (waiting qs) \<subseteq> registered qs
   \<and> sorted (map fst (wait_sleeping qs))
   \<and> next_waitid qs < 2 ^ 64"


text \<open>The part of the invariant about processes alone, kept by every single trigger.\<close>

definition once_inv :: "Queues \<Rightarrow> bool" where
  "once_inv qs \<longleftrightarrow> distinct (running qs) \<and> inj_on (waiting qs) (dom (waiting qs))
     \<and> set (running qs) \<inter> ran (waiting qs) = {}"

subsection \<open>Triggering\<close>

lemma trigger_wait_fields [simp]:
  "next_waitid (trigger_wait w qs) = next_waitid qs"
  "wait_process (trigger_wait w qs) = wait_process qs"
  "wait_event (trigger_wait w qs) = wait_event qs"
  by (simp_all add: trigger_wait_def split: option.splits)

lemma waiting_trigger_wait: "waiting (trigger_wait w qs) = (waiting qs)(w := None)"
  by (auto simp: trigger_wait_def split: option.splits)

lemma set_running_trigger_wait:
  "set (running (trigger_wait w qs)) = set (running qs) \<union> set_option (waiting qs w)"
  by (auto simp: trigger_wait_def split: option.splits)

lemma ran_remove_inj:
  assumes "inj_on m (dom m)" and "m w = Some p"
  shows "ran (m(w := None)) = ran m - {p}"
proof (rule set_eqI)
  fix x
  have mem: "x \<in> ran (m(w := None)) \<longleftrightarrow> (\<exists>a. a \<noteq> w \<and> m a = Some x)"
    by (auto simp: ran_def)
  have "a \<noteq> w \<Longrightarrow> m a = Some x \<Longrightarrow> x \<noteq> p" for a
    using assms by (auto dest!: inj_onD [where x = a and y = w])
  then show "x \<in> ran (m(w := None)) \<longleftrightarrow> x \<in> ran m - {p}"
    unfolding mem using assms(2) by (auto simp: ran_def, metis option.inject)
qed

lemma queued_trigger_wait: "once_inv qs \<Longrightarrow> queued (trigger_wait w qs) = queued qs"
proof (cases "waiting qs w")
  case (Some p)
  assume "once_inv qs"
  then have "ran ((waiting qs)(w := None)) = ran (waiting qs) - {p}"
    using Some by (intro ran_remove_inj) (auto simp: once_inv_def)
  moreover have "p \<in> ran (waiting qs)" using Some by (rule ranI)
  ultimately show ?thesis
    using Some by (auto simp: queued_def waiting_trigger_wait set_running_trigger_wait)
qed (simp add: trigger_wait_def)

lemma once_inv_trigger_wait:
  assumes inv: "once_inv qs"
  shows "once_inv (trigger_wait w qs)"
proof (cases "waiting qs w")
  case (Some p)
  have "ran ((waiting qs)(w := None)) = ran (waiting qs) - {p}"
    using inv Some by (intro ran_remove_inj) (auto simp: once_inv_def)
  moreover have "p \<in> ran (waiting qs)" using Some by (rule ranI)
  moreover have "inj_on ((waiting qs)(w := None)) (dom ((waiting qs)(w := None)))"
    using inv by (auto simp: once_inv_def inj_on_def dom_def)
  ultimately show ?thesis using inv Some by (auto simp: once_inv_def trigger_wait_def)
qed (use inv in \<open>simp add: trigger_wait_def\<close>)

lemma fold_trigger_fields [simp]:
  "next_waitid (fold trigger_wait ws qs) = next_waitid qs"
  "wait_sleeping (fold trigger_wait ws qs) = wait_sleeping qs"
  "wait_process (fold trigger_wait ws qs) = wait_process qs"
  "wait_event (fold trigger_wait ws qs) = wait_event qs"
  by (induction ws arbitrary: qs) auto

lemma waiting_fold_trigger: "waiting (fold trigger_wait ws qs) = waiting qs |` (- set ws)"
  by (induction ws arbitrary: qs) (auto simp: waiting_trigger_wait restrict_map_def)

lemma set_running_fold_trigger:
  "set (running (fold trigger_wait ws qs)) =
     set (running qs) \<union> {p. \<exists>w \<in> set ws. waiting qs w = Some p}"
  by (induction ws arbitrary: qs)
     (auto simp: set_running_trigger_wait waiting_trigger_wait split: if_splits, metis+)

lemma once_inv_fold_trigger: "once_inv qs \<Longrightarrow> once_inv (fold trigger_wait ws qs)"
  by (induction ws arbitrary: qs) (auto simp: once_inv_trigger_wait)

lemma queued_fold_trigger: "once_inv qs \<Longrightarrow> queued (fold trigger_wait ws qs) = queued qs"
  by (induction ws arbitrary: qs) (auto simp: once_inv_trigger_wait queued_trigger_wait)

subsection \<open>The invariant in terms of its parts\<close>

lemma registered_fold_trigger [simp]: "registered (fold trigger_wait ws qs) = registered qs"
  by (simp add: registered_def)

lemma registered_trigger_wait [simp]: "registered (trigger_wait w qs) = registered qs"
  by (simp add: registered_def)

lemma registered_update [simp]:
  "registered (qs\<lparr>running := r\<rparr>) = registered qs"
  "registered (qs\<lparr>waiting := m\<rparr>) = registered qs"
  "registered (qs\<lparr>next_waitid := n\<rparr>) = registered qs"
  by (simp_all add: registered_def)

lemma queues_inv_parts:
  "queues_inv qs \<longleftrightarrow> once_inv qs \<and> registered qs \<subseteq> {..<next_waitid qs}
     \<and> dom (waiting qs) \<subseteq> registered qs
     \<and> sorted (map fst (wait_sleeping qs)) \<and> next_waitid qs < 2 ^ 64"
  by (auto simp: queues_inv_def once_inv_def)

lemma once_inv_cong:
  "running qs = running qs' \<Longrightarrow> waiting qs = waiting qs' \<Longrightarrow> once_inv qs = once_inv qs'"
  by (simp add: once_inv_def)

lemma queued_cong: "running qs = running qs' \<Longrightarrow> waiting qs = waiting qs' \<Longrightarrow> queued qs = queued qs'"
  by (simp add: queued_def)

lemma queues_inv_new: "queues_inv queues_new"
  by (simp add: queues_inv_def queues_new_def registered_def)

lemma registered_finite: "queues_inv qs \<Longrightarrow> W \<in> ran (wait_process qs) \<union> ran (wait_event qs) \<Longrightarrow> finite W"
  by (rule finite_subset [of _ "{..<next_waitid qs}"]) (auto simp: queues_inv_def registered_def)

subsection \<open>The sleep queue stays sorted\<close>

lemma set_insert_at: "set (insert_at i x xs) = insert x (set xs)"
proof -
  have "set (take i xs) \<union> set (drop i xs) = set xs"
    by (metis append_take_drop_id set_append)
  then show ?thesis by (auto simp: insert_at_def)
qed

lemma insert_at_Cons: "insert_at (Suc i) x (y # ys) = y # insert_at i x ys"
  by (simp add: insert_at_def)

lemma insert_at_0 [simp]: "insert_at 0 x xs = x # xs"
  by (simp add: insert_at_def)

lemma sorted_insert_p_index:
  "sorted (map fst v) \<Longrightarrow> sorted (map fst (insert_at (p_index_vecdeque v t) (t, w) v))"
proof (induction v t rule: p_index_vecdeque.induct)
  case (2 k u v t)
  then show ?case by (auto simp: insert_at_Cons set_insert_at)
qed simp

subsection \<open>Giving a process to the queues\<close>

lemma give_inner_defined: "(\<exists>qs'. give_inner qs w s = Some qs') \<longleftrightarrow> leaf s"
  by (cases s) (auto simp: give_inner_def)

lemma give_inner_fields:
  assumes "give_inner qs w s = Some qs'"
  shows "running qs' = running qs" and "waiting qs' = waiting qs"
    and "next_waitid qs' = next_waitid qs"
  using assms by (auto simp: give_inner_def split: WaitFor.splits)

lemma Union_ran_or_default:
  fixes m :: "nat \<rightharpoonup> nat set"
  shows "\<Union> (ran (m(k \<mapsto> insert w (or_default (m k))))) = insert w (\<Union> (ran m))"
proof (rule set_eqI)
  fix x
  have mem: "x \<in> \<Union> (ran f) \<longleftrightarrow> (\<exists>a W. f a = Some W \<and> x \<in> W)" for f :: "nat \<rightharpoonup> nat set"
    by (auto simp: ran_def)
  show "x \<in> \<Union> (ran (m(k \<mapsto> insert w (or_default (m k))))) \<longleftrightarrow> x \<in> insert w (\<Union> (ran m))"
    unfolding mem insert_iff by (cases "m k") (auto simp: or_default_def, (metis option.distinct(1) option.inject)+)
qed

lemma give_inner_registered:
  assumes "give_inner qs w s = Some qs'"
  shows "registered qs' = insert w (registered qs)"
proof (cases s)
  case (Time t)
  with assms show ?thesis by (auto simp: give_inner_def registered_def set_insert_at)
next
  case (Process p)
  with assms have qs': "qs' = qs\<lparr>wait_process :=
      (wait_process qs)(p \<mapsto> insert w (or_default (wait_process qs p)))\<rparr>"
    by (simp add: give_inner_def)
  show ?thesis by (simp add: qs' registered_def Union_ran_or_default)
next
  case (Event e)
  with assms have qs': "qs' = qs\<lparr>wait_event :=
      (wait_event qs)(e \<mapsto> insert w (or_default (wait_event qs e)))\<rparr>"
    by (simp add: give_inner_def)
  show ?thesis by (simp add: qs' registered_def Union_ran_or_default)
qed (use assms in \<open>auto simp: give_inner_def\<close>)

lemma give_inner_sorted:
  "give_inner qs w s = Some qs' \<Longrightarrow> sorted (map fst (wait_sleeping qs)) \<Longrightarrow>
   sorted (map fst (wait_sleeping qs'))"
  by (cases s) (auto simp: give_inner_def sorted_insert_p_index)

text \<open>Registering a list of targets for one wait id.\<close>

definition register_all :: "nat \<Rightarrow> WaitFor list \<Rightarrow> Queues \<Rightarrow> Queues option" where
  "register_all w ts qs = foldM (\<lambda>qs t. give_inner qs w t) qs ts"

lemma register_all_defined: "(\<exists>qs'. register_all w ts qs = Some qs') \<longleftrightarrow> list_all leaf ts"
  unfolding register_all_def
proof (induction ts arbitrary: qs)
  case (Cons t ts)
  show ?case
  proof (cases "give_inner qs w t")
    case None
    then show ?thesis using give_inner_defined [of qs w t] by simp
  next
    case (Some qs')
    then show ?thesis using give_inner_defined [of qs w t] Cons.IH [of qs'] by auto
  qed
qed simp

lemma register_all_fields:
  assumes "register_all w ts qs = Some qs'"
  shows "running qs' = running qs \<and> waiting qs' = waiting qs \<and> next_waitid qs' = next_waitid qs"
  using assms unfolding register_all_def
  by (rule foldM_invariant) (auto simp: give_inner_fields)

lemma register_all_sorted:
  assumes "register_all w ts qs = Some qs'" and "sorted (map fst (wait_sleeping qs))"
  shows "sorted (map fst (wait_sleeping qs'))"
  using assms unfolding register_all_def
  by (rule foldM_invariant) (auto simp: give_inner_sorted)

lemma register_all_registered:
  "register_all w ts qs = Some qs' \<Longrightarrow> ts \<noteq> [] \<Longrightarrow> registered qs' = insert w (registered qs)"
  unfolding register_all_def
proof (induction ts arbitrary: qs)
  case (Cons t ts)
  then show ?case
    by (cases ts) (auto simp: give_inner_registered split: option.splits)
qed simp

lemma give_eq:
  "give p s0 qs = do {
     s \<leftarrow> reduce_queues s0 qs p;
     if s = WNone then Some (qs\<lparr>running := running qs @ [p]\<rparr>)
     else do {
       (wait_id, qs) \<leftarrow> create_wait p qs;
       register_all wait_id (targets_of s) qs
     }
   }"
proof -
  have "(case s of FirstOf targets \<Rightarrow> foldM (\<lambda>qs target. give_inner qs w target) q targets
          | _ \<Rightarrow> give_inner q w s) = register_all w (targets_of s) q"
    if "s \<noteq> WNone" for s w q
    using that by (cases s) (auto simp: register_all_def split: option.splits)
  then show ?thesis
    by (auto simp: give_def intro!: bind_option_cong split: prod.splits)
qed


lemma reduce_queues_cases:
  assumes "reduce_queues s qs p = Some s'"
  shows "s' = WNone \<or> reduce s = Some s'"
  using assms by (auto simp: reduce_queues_def split: WaitFor.splits if_splits option.splits)

lemma reduce_queues_total:
  assumes "wf_wait s"
  shows "\<exists>s'. reduce_queues s qs p = Some s' \<and> (s' = WNone \<or> list_all leaf (targets_of s'))"
proof -
  from assms obtain s1 where s1: "reduce s = Some s1" using reduce_defined_iff by blast
  then have "s1 = WNone \<or> list_all leaf (targets_of s1)"
    using reduce_reduced [OF s1] by (cases s1) auto
  then show ?thesis
    using s1 by (auto simp: reduce_queues_def split: WaitFor.splits option.splits)
qed

lemma reduced_targets_nonempty:
  "reduce_queues s qs p = Some s' \<Longrightarrow> targets_of s' \<noteq> []"
proof -
  assume "reduce_queues s qs p = Some s'"
  then have "reduced s'"
    using reduce_queues_cases reduce_reduced by fastforce
  then show ?thesis by (cases s') auto
qed

text \<open>What \<open>give\<close> does when it returns: the process is queued to run, or it waits under a
  fresh wait id that is registered for each of its targets.\<close>

lemma give_cases:
  assumes "give p s qs = Some qs'"
  obtains (run) "reduce_queues s qs p = Some WNone" "qs' = qs\<lparr>running := running qs @ [p]\<rparr>"
  | (wait) s' where "reduce_queues s qs p = Some s'" "s' \<noteq> WNone" "next_waitid qs + 1 < 2 ^ 64"
      "register_all (next_waitid qs) (targets_of s')
         (qs\<lparr>next_waitid := next_waitid qs + 1,
            waiting := (waiting qs)(next_waitid qs \<mapsto> p)\<rparr>) = Some qs'"
  using assms
  by (auto simp: give_eq create_wait_def Let_def bind_eq_Some_conv checked_u64_eq_Some
      split: if_splits)

lemma give_total:
  assumes "wf_wait s" and "next_waitid qs + 1 < 2 ^ 64"
  shows "\<exists>qs'. give p s qs = Some qs'"
proof -
  from reduce_queues_total [OF assms(1)] obtain s' where s': "reduce_queues s qs p = Some s'"
    and ok: "s' = WNone \<or> list_all leaf (targets_of s')" by blast
  show ?thesis
  proof (cases "s' = WNone")
    case True
    then show ?thesis using s' by (simp add: give_eq)
  next
    case False
    with ok have "list_all leaf (targets_of s')" by simp
    then show ?thesis
      using s' False assms(2) by (simp add: give_eq create_wait_def Let_def checked_u64_def register_all_defined)
  qed
qed

lemma ran_upd_fresh: "m k = None \<Longrightarrow> ran (m(k \<mapsto> v)) = insert v (ran m)"
  by (rule ran_map_upd)

lemma give_queued:
  assumes inv: "queues_inv qs" and g: "give p s qs = Some qs'"
  shows "queued qs' = insert p (queued qs)"
  using g
proof (cases rule: give_cases)
  case run
  then show ?thesis by (auto simp: queued_def)
next
  case (wait s')
  have "waiting qs (next_waitid qs) = None"
    using inv by (fastforce simp: queues_inv_def dom_def)
  with register_all_fields [OF wait(4)] show ?thesis
    by (auto simp: queued_def ran_upd_fresh)
qed

lemma give_inv:
  assumes inv: "queues_inv qs" and new: "p \<notin> queued qs" and g: "give p s qs = Some qs'"
  shows "queues_inv qs'"
  using g
proof (cases rule: give_cases)
  case run
  then show ?thesis using inv new by (auto simp: queues_inv_def queued_def registered_def)
next
  case (wait s')
  let ?w = "next_waitid qs"
  let ?q = "qs\<lparr>next_waitid := ?w + 1, waiting := (waiting qs)(?w \<mapsto> p)\<rparr>"
  have fresh: "waiting qs ?w = None"
    using inv by (fastforce simp: queues_inv_def dom_def)
  have once: "once_inv ?q"
    using inv new fresh
    by (auto simp: queues_inv_def once_inv_def queued_def ran_upd_fresh inj_on_def dom_def ran_def)
  have reg: "registered qs' = insert ?w (registered qs)"
    using register_all_registered [OF wait(4) reduced_targets_nonempty [OF wait(1)]]
    by (simp add: registered_def)
  have "sorted (map fst (wait_sleeping qs'))"
    using register_all_sorted [OF wait(4)] inv by (simp add: queues_inv_def)
  moreover have "once_inv qs'"
    using once register_all_fields [OF wait(4)] by (auto simp: once_inv_def)
  ultimately show ?thesis
    using inv wait(3) reg register_all_fields [OF wait(4)]
    by (auto simp: queues_inv_parts less_Suc_eq)
qed

subsection \<open>Taking, ticking, events and completed processes\<close>

lemma take_next_inv:
  assumes "queues_inv qs" and "take_next qs = (r, qs')"
  shows "queues_inv qs'"
  using assms by (cases "running qs") (simp_all add: take_next_def queues_inv_def, force)

lemma take_next_queued:
  assumes "queues_inv qs" and "take_next qs = (Some p, qs')"
  shows "queued qs = insert p (queued qs')" and "p \<notin> queued qs'"
  using assms by (auto simp: take_next_def queues_inv_def queued_def split: list.splits)

lemma take_next_None: "take_next qs = (None, qs') \<Longrightarrow> qs' = qs \<and> running qs = []"
  by (auto simp: take_next_def split: list.splits)

text \<open>Removing entries from the registries and triggering all of them keeps the invariant.\<close>

lemma trigger_removed_inv:
  assumes inv: "queues_inv qs"
    and same: "waiting qs1 = waiting qs" "next_waitid qs1 = next_waitid qs" "once_inv qs1"
    and sub: "registered qs1 \<subseteq> registered qs" "registered qs \<subseteq> registered qs1 \<union> set ws"
    and sorted: "sorted (map fst (wait_sleeping qs1))"
  shows "queues_inv (fold trigger_wait ws qs1)"
  using assms once_inv_fold_trigger [OF same(3), of ws]
  by (auto simp: queues_inv_parts waiting_fold_trigger restrict_map_def dom_def split: if_splits)

lemma on_tick_inv: "queues_inv qs \<Longrightarrow> queues_inv (on_tick now qs)"
proof (induction now qs rule: on_tick.induct)
  case (1 now qs)
  show ?case
  proof (cases "wait_sleeping qs")
    case Nil
    then show ?thesis using 1 by (simp add: on_tick.simps [of now qs])
  next
    case (Cons tw rest)
    obtain t w where tw: "tw = (t, w)" by (cases tw)
    show ?thesis
    proof (cases "t \<le> now")
      case True
      have "queues_inv (fold trigger_wait [w] (qs\<lparr>wait_sleeping := rest\<rparr>))"
        using "1.prems" Cons tw
        by (intro trigger_removed_inv [where qs = qs])
           (auto simp: registered_def queues_inv_def once_inv_def)
      then show ?thesis
        using True "1.IH" [OF Cons] tw Cons by (simp add: on_tick.simps [of now qs])
    next
      case False
      then show ?thesis using 1 Cons tw by (simp add: on_tick.simps [of now qs])
    qed
  qed
qed


lemma on_tick_queued: "once_inv qs \<Longrightarrow> queued (on_tick now qs) = queued qs"
proof (induction now qs rule: on_tick.induct)
  case (1 now qs)
  show ?case
  proof (cases "wait_sleeping qs")
    case Nil
    then show ?thesis by (simp add: on_tick.simps [of now qs])
  next
    case (Cons tw rest)
    obtain t w where tw: "tw = (t, w)" by (cases tw)
    let ?q = "qs\<lparr>wait_sleeping := rest\<rparr>"
    have "once_inv ?q" using "1.prems" by (simp add: once_inv_def)
    moreover have "queued ?q = queued qs" by (simp add: queued_def)
    ultimately show ?thesis
      using "1.IH" [OF Cons] tw Cons
      by (simp add: on_tick.simps [of now qs] once_inv_trigger_wait queued_trigger_wait)
  qed
qed

text \<open>A tick wakes exactly the sleepers whose time has come.\<close>

lemma on_tick_sleeping:
  "wait_sleeping (on_tick now qs) = dropWhile (\<lambda>(t, w). t \<le> now) (wait_sleeping qs)"
proof (induction now qs rule: on_tick.induct)
  case (1 now qs)
  then show ?case
    by (cases "wait_sleeping qs") (auto simp: on_tick.simps [of now qs])
qed

lemma on_tick_waiting:
  "waiting (on_tick now qs) =
     waiting qs |` (- snd ` set (takeWhile (\<lambda>(t, w). t \<le> now) (wait_sleeping qs)))"
proof (induction now qs rule: on_tick.induct)
  case (1 now qs)
  show ?case
  proof (cases "wait_sleeping qs")
    case Nil
    then show ?thesis by (simp add: on_tick.simps [of now qs])
  next
    case (Cons tw rest)
    obtain t w where tw: "tw = (t, w)" by (cases tw)
    let ?A = "snd ` set (takeWhile (\<lambda>(t, w). t \<le> now) rest)"
    show ?thesis
    proof (cases "t \<le> now")
      case True
      then have "waiting (on_tick now qs) = (waiting qs)(w := None) |` (- ?A)"
        using "1.IH" [OF Cons] tw Cons
        by (auto simp: on_tick.simps [of now qs] waiting_trigger_wait restrict_map_def fun_eq_iff)
      also have "\<dots> = waiting qs |` (- insert w ?A)"
        by (auto simp: restrict_map_def)
      also have "insert w ?A = snd ` set (takeWhile (\<lambda>(t, w). t \<le> now) (wait_sleeping qs))"
        using True Cons tw by auto
      finally show ?thesis .
    next
      case False
      then show ?thesis using Cons tw by (simp add: on_tick.simps [of now qs])
    qed
  qed
qed

lemma on_tick_running:
  "set (running (on_tick now qs)) = set (running qs) \<union>
     {p. \<exists>w \<in> snd ` set (takeWhile (\<lambda>(t, w). t \<le> now) (wait_sleeping qs)). waiting qs w = Some p}"
proof (induction now qs rule: on_tick.induct)
  case (1 now qs)
  show ?case
  proof (cases "wait_sleeping qs")
    case Nil
    then show ?thesis by (simp add: on_tick.simps [of now qs])
  next
    case (Cons tw rest)
    obtain t w where tw: "tw = (t, w)" by (cases tw)
    show ?thesis
      using "1.IH" [OF Cons] tw Cons
      by (auto simp: on_tick.simps [of now qs] set_running_trigger_wait waiting_trigger_wait)
         (metis snd_conv)+
  qed
qed

lemma sorted_takeWhile_le:
  assumes "sorted (map fst xs)"
  shows "set (takeWhile (\<lambda>(t, w). t \<le> now) xs) = {(t, w) \<in> set xs. t \<le> (now :: nat)}"
  using assms by (induction xs) (auto split: if_splits)

lemma sorted_dropWhile_gt:
  assumes "sorted (map fst xs)" and "(t, w) \<in> set (dropWhile (\<lambda>(t, w). t \<le> (now :: nat)) xs)"
  shows "now < t"
  using assms by (induction xs) (auto split: if_splits)

lemma next_wakeup_on_tick:
  "queues_inv qs \<Longrightarrow> next_wakeup (on_tick now qs) = Some t \<Longrightarrow> now < t"
  using sorted_dropWhile_gt [of "wait_sleeping qs" t _ now]
  by (auto simp: next_wakeup_def on_tick_sleeping queues_inv_def split: list.splits)

lemma Union_ran_remove:
  fixes m :: "nat \<rightharpoonup> nat set"
  shows "\<Union> (ran m) = \<Union> (ran (m(k := None))) \<union> or_default (m k)"
proof (rule set_eqI)
  fix x
  have mem: "x \<in> \<Union> (ran f) \<longleftrightarrow> (\<exists>a W. f a = Some W \<and> x \<in> W)" for f :: "nat \<rightharpoonup> nat set"
    by (auto simp: ran_def)
  show "x \<in> \<Union> (ran m) \<longleftrightarrow> x \<in> \<Union> (ran (m(k := None))) \<union> or_default (m k)"
    unfolding mem Un_iff
    by (cases "m k") (auto simp: or_default_def, (metis option.distinct(1) option.inject)+)
qed

lemma registered_wait_event_None:
  "registered qs = registered (qs\<lparr>wait_event := (wait_event qs)(e := None)\<rparr>)
     \<union> or_default (wait_event qs e)"
proof -
  have "\<Union> (ran (wait_event qs)) =
      \<Union> (ran ((wait_event qs)(e := None))) \<union> or_default (wait_event qs e)"
    by (rule Union_ran_remove)
  then show ?thesis by (auto simp: registered_def)
qed

lemma registered_wait_process_None:
  "registered qs = registered (qs\<lparr>wait_process := (wait_process qs)(p := None)\<rparr>)
     \<union> or_default (wait_process qs p)"
proof -
  have "\<Union> (ran (wait_process qs)) =
      \<Union> (ran ((wait_process qs)(p := None))) \<union> or_default (wait_process qs p)"
    by (rule Union_ran_remove)
  then show ?thesis by (auto simp: registered_def)
qed


lemma trigger_set_eq: "trigger_set ord W qs = fold trigger_wait (case W of Some S \<Rightarrow> ord S | None \<Rightarrow> []) qs"
  by (simp add: trigger_set_def split: option.splits)

lemma on_explicit_event_inv:
  assumes "iter_order ord" and "queues_inv qs"
  shows "queues_inv (on_explicit_event ord e qs)"
proof -
  let ?q = "qs\<lparr>wait_event := (wait_event qs)(e := None)\<rparr>"
  let ?ws = "case wait_event qs e of Some S \<Rightarrow> ord S | None \<Rightarrow> []"
  have "or_default (wait_event qs e) \<subseteq> set ?ws"
    using assms registered_finite [OF assms(2)]
    by (auto simp: or_default_def iter_orderD ranI split: option.splits)
  then show ?thesis
    unfolding on_explicit_event_def trigger_set_eq
    using assms(2) registered_wait_event_None [of qs e]
    by (intro trigger_removed_inv [where qs = qs]) (auto simp: queues_inv_def once_inv_def)
qed

lemma on_explicit_event_queued:
  "queues_inv qs \<Longrightarrow> queued (on_explicit_event ord e qs) = queued qs"
  unfolding on_explicit_event_def trigger_set_eq
  by (subst queued_fold_trigger) (auto simp: queues_inv_parts once_inv_def queued_def)

lemma on_explicit_event_running:
  assumes "iter_order ord" and "queues_inv qs"
  shows "set (running (on_explicit_event ord e qs)) = set (running qs) \<union>
           {p. \<exists>w \<in> or_default (wait_event qs e). waiting qs w = Some p}"
proof -
  have "finite W" if "wait_event qs e = Some W" for W
    using that registered_finite [OF assms(2)] by (auto simp: ranI)
  then show ?thesis
    using assms(1)
    by (auto simp: on_explicit_event_def trigger_set_eq set_running_fold_trigger or_default_def
        iter_orderD split: option.splits)
qed

lemma on_process_over_inv:
  assumes "iter_order ord" and "queues_inv qs"
  shows "queues_inv (queues_on_process_over ord p qs)"
proof -
  let ?q = "qs\<lparr>running := remove1 p (running qs),
             wait_process := (wait_process qs)(p := None)\<rparr>"
  let ?ws = "case wait_process qs p of Some S \<Rightarrow> ord S | None \<Rightarrow> []"
  have "or_default (wait_process qs p) \<subseteq> set ?ws"
    using assms registered_finite [OF assms(2)]
    by (auto simp: or_default_def iter_orderD ranI split: option.splits)
  moreover have "registered ?q = registered (qs\<lparr>wait_process := (wait_process qs)(p := None)\<rparr>)"
    by (simp add: registered_def)
  ultimately have "queues_inv (fold trigger_wait ?ws ?q)"
    using assms(2) registered_wait_process_None [of qs p]
    by (intro trigger_removed_inv [where qs = qs])
       (auto simp: queues_inv_def once_inv_def dest: in_set_remove1)
  then show ?thesis by (simp add: queues_on_process_over_def trigger_set_eq Let_def)
qed

text \<open>A completed process leaves the run queue, but not the waiting map.\<close>

lemma on_process_over_queued:
  assumes "queues_inv qs"
  shows "queued (queues_on_process_over ord p qs) = queued qs - (set (running qs) \<inter> {p})"
proof -
  let ?q = "qs\<lparr>running := remove1 p (running qs),
             wait_process := (wait_process qs)(p := None)\<rparr>"
  have "once_inv ?q"
    using assms by (auto simp: queues_inv_def once_inv_def dest: in_set_remove1)
  then have "queued (fold trigger_wait ws ?q) = queued ?q" for ws
    by (rule queued_fold_trigger)
  moreover have "queued ?q = queued qs - (set (running qs) \<inter> {p})"
    using assms by (auto simp: queued_def queues_inv_def)
  ultimately show ?thesis by (simp add: queues_on_process_over_def trigger_set_eq Let_def)
qed

lemma on_process_over_running:
  assumes "iter_order ord" and "queues_inv qs"
  shows "set (running (queues_on_process_over ord p qs)) = (set (running qs) - {p}) \<union>
           {r. \<exists>w \<in> or_default (wait_process qs p). waiting qs w = Some r}"
proof -
  have "finite W" if "wait_process qs p = Some W" for W
    using that registered_finite [OF assms(2)] by (auto simp: ranI)
  then show ?thesis
    using assms
    by (auto simp: queues_on_process_over_def Let_def trigger_set_eq set_running_fold_trigger
        or_default_def iter_orderD queues_inv_def split: option.splits)
qed

interpretation sched_events:
  event_sink "on_explicit_event ord" "\<lambda>qs. iter_order ord \<and> queues_inv qs" queued "\<lambda>qs. set (running qs)"
  for ord
proof unfold_locales
  fix e :: eventid and s :: Queues
  assume "iter_order ord \<and> queues_inv s"
  then show "iter_order ord \<and> queues_inv (on_explicit_event ord e s)"
    and "queued (on_explicit_event ord e s) = queued s"
    and "set (running s) \<subseteq> set (running (on_explicit_event ord e s))"
    by (simp_all add: on_explicit_event_inv on_explicit_event_queued on_explicit_event_running)
qed


subsection \<open>A waiting process is woken by each of its conditions\<close>

text \<open>The queue operation that reports a leaf condition as met.\<close>

fun fire :: "(nat set \<Rightarrow> nat list) \<Rightarrow> WaitFor \<Rightarrow> Queues \<Rightarrow> Queues" where
  "fire ord (Time t) qs = on_tick t qs"
| "fire ord (Process p) qs = queues_on_process_over ord p qs"
| "fire ord (Event e) qs = on_explicit_event ord e qs"
| "fire ord _ qs = qs"

text \<open>Wait id \<open>w\<close> is registered for the leaf condition \<open>c\<close>.\<close>

fun registered_for :: "Queues \<Rightarrow> nat \<Rightarrow> WaitFor \<Rightarrow> bool" where
  "registered_for qs w (Time t) = ((t, w) \<in> set (wait_sleeping qs))"
| "registered_for qs w (Process p) = (w \<in> or_default (wait_process qs p))"
| "registered_for qs w (Event e) = (w \<in> or_default (wait_event qs e))"
| "registered_for qs w _ = False"

lemma give_inner_registered_for:
  assumes "give_inner qs w s = Some qs'"
  shows "registered_for qs' w s" and "registered_for qs w c \<Longrightarrow> registered_for qs' w c"
  using assms
  by (cases s; cases c; auto simp: give_inner_def set_insert_at or_default_def)+

lemma register_all_registered_for:
  assumes "register_all w ts qs = Some qs'"
  shows "c \<in> set ts \<or> registered_for qs w c \<Longrightarrow> registered_for qs' w c"
  using assms unfolding register_all_def
proof (induction ts arbitrary: qs)
  case (Cons t ts)
  from Cons.prems(2) obtain q where q: "give_inner qs w t = Some q"
    and rest: "foldM (\<lambda>qs t. give_inner qs w t) q ts = Some qs'"
    by (auto split: option.splits)
  have "c \<in> set ts \<or> registered_for q w c"
    using Cons.prems(1) give_inner_registered_for [OF q] by auto
  then show ?case using rest by (rule Cons.IH)
qed simp

lemma fire_wakes:
  assumes "iter_order ord" and "queues_inv qs" and "waiting qs w = Some p"
    and "registered_for qs w c"
  shows "p \<in> set (running (fire ord c qs))"
proof (cases c)
  case (Time t)
  then have "(t, w) \<in> {(u, v) \<in> set (wait_sleeping qs). u \<le> t}" using assms(4) by simp
  then have "(t, w) \<in> set (takeWhile (\<lambda>(u, v). u \<le> t) (wait_sleeping qs))"
    using assms(2) by (simp add: sorted_takeWhile_le queues_inv_def)
  then show ?thesis using assms(3) Time by (force simp: on_tick_running)
qed (use assms in \<open>auto simp: on_process_over_running on_explicit_event_running\<close>)

lemma on_tick_mono:
  assumes "queues_inv qs" and "t' \<le> t"
  shows "set (running (on_tick t' qs)) \<subseteq> set (running (on_tick t qs))"
  using assms by (force simp: on_tick_running sorted_takeWhile_le queues_inv_def)

lemma fire_keeps_running:
  assumes "iter_order ord" and "queues_inv qs" and "p \<in> set (running qs)" and "c \<noteq> Process p"
  shows "p \<in> set (running (fire ord c qs))"
  using assms
  by (cases c) (auto simp: on_tick_running on_process_over_running on_explicit_event_running)

lemma give_wakes:
  assumes "iter_order ord" and "queues_inv qs" and "p \<notin> queued qs" and "give p s qs = Some qs'"
    and "c \<in> set (targets_of s)" and "leaf c" and "c \<noteq> Process p"
  shows "p \<in> set (running (fire ord c qs'))"
  using assms(4)
proof (cases rule: give_cases)
  case run
  then have "p \<in> set (running qs')" by simp
  then show ?thesis using give_inv assms fire_keeps_running by blast
next
  case (wait s')
  let ?w = "next_waitid qs"
  have inv': "queues_inv qs'" using assms give_inv by blast
  have w: "waiting qs' ?w = Some p" using register_all_fields [OF wait(4)] by simp
  have red: "reduce s = Some s'" using reduce_queues_cases [OF wait(1)] wait(2) by blast
  have "s \<noteq> FirstOf []" using assms(5) by auto
  note kept = reduce_targets [OF red this assms(5,6)]
  have reg: "registered_for qs' ?w d" if "d \<in> set (targets_of s')" for d
    using register_all_registered_for [OF wait(4)] that by simp
  show ?thesis
  proof (cases "is_Time c")
    case True
    then obtain t t' where c: "c = Time t" "t' \<le> t" "Time t' \<in> set (targets_of s')"
      using kept by auto
    have "p \<in> set (running (fire ord (Time t') qs'))"
      using assms(1) inv' w reg [OF c(3)] by (rule fire_wakes)
    then show ?thesis using on_tick_mono [OF inv' c(2)] c(1) by auto
  next
    case False
    then have "registered_for qs' ?w c" using kept reg by simp
    with assms(1) inv' w show ?thesis by (rule fire_wakes)
  qed
qed

subsection \<open>Reachable queues\<close>

text \<open>The queues after any sequence of the operations the scheduler uses; a process is given
  to the queues only when they do not hold it already, which is how the scheduler calls
  \<open>give\<close> (with the process that has just run, or a new one).\<close>

inductive q_reachable :: "(nat set \<Rightarrow> nat list) \<Rightarrow> Queues \<Rightarrow> bool" for ord where
  q_new: "q_reachable ord queues_new"
| q_give: "q_reachable ord qs \<Longrightarrow> p \<notin> queued qs \<Longrightarrow> give p s qs = Some qs' \<Longrightarrow> q_reachable ord qs'"
| q_take: "q_reachable ord qs \<Longrightarrow> take_next qs = (r, qs') \<Longrightarrow> q_reachable ord qs'"
| q_tick: "q_reachable ord qs \<Longrightarrow> q_reachable ord (on_tick now qs)"
| q_over: "q_reachable ord qs \<Longrightarrow> q_reachable ord (queues_on_process_over ord p qs)"
| q_event: "q_reachable ord qs \<Longrightarrow> q_reachable ord (on_explicit_event ord e qs)"

lemma q_reachable_inv: "q_reachable ord qs \<Longrightarrow> iter_order ord \<Longrightarrow> queues_inv qs"
  by (induction rule: q_reachable.induct)
    (auto intro: queues_inv_new give_inv take_next_inv on_tick_inv on_process_over_inv
      on_explicit_event_inv)

subsection \<open>Claims\<close>

text \<open>C11: a process is never in the scheduler queues twice. After any sequence of queue
  operations, the run queue has no duplicates, no process waits under two wait ids, no waiting
  process is also runnable, every waiting process is registered for some trigger, and the
  sleep queue is sorted by wake-up time.\<close>

theorem queues_consistent:
  assumes "q_reachable ord qs" and "iter_order ord"
  shows "distinct (running qs) \<and> inj_on (waiting qs) (dom (waiting qs)) \<and>
    set (running qs) \<inter> ran (waiting qs) = {} \<and> dom (waiting qs) \<subseteq> registered qs \<and>
    sorted (map fst (wait_sleeping qs))"
  using q_reachable_inv [OF assms] by (simp add: queues_inv_def)

theorem queues_consistent_witness:
  "\<exists>qs. give 1 (FirstOf [Time 5, Event 3]) queues_new = Some qs \<and>
    distinct (running qs) \<and> inj_on (waiting qs) (dom (waiting qs)) \<and>
    set (running qs) \<inter> ran (waiting qs) = {} \<and> dom (waiting qs) \<subseteq> registered qs \<and>
    sorted (map fst (wait_sleeping qs))"
proof -
  obtain qs where g: "give 1 (FirstOf [Time 5, Event 3]) queues_new = Some qs"
    using give_total [of "FirstOf [Time 5, Event 3]" queues_new 1] by (auto simp: queues_new_def)
  have "q_reachable sorted_list_of_set qs"
    using q_new by (rule q_give [OF _ _ g]) (simp add: queues_new_def queued_def)
  from queues_consistent [OF this iter_order_sorted] g show ?thesis by blast
qed



text \<open>a clock tick wakes exactly the sleepers that are due. Processes become runnable by
  \<open>on_tick\<close> if and only if they wait under a wait id whose wake-up time has been reached;
  afterwards every remaining wake-up time, hence \<open>next_wakeup\<close>, lies in the future, and no
  process is lost or invented.\<close>

lemma on_tick_exact:
  assumes "q_reachable ord qs" and "iter_order ord"
  shows "set (running (on_tick now qs)) = set (running qs) \<union>
           {p. \<exists>t w. (t, w) \<in> set (wait_sleeping qs) \<and> t \<le> now \<and> waiting qs w = Some p}
    \<and> (\<forall>t. next_wakeup (on_tick now qs) = Some t \<longrightarrow> now < t)
    \<and> queued (on_tick now qs) = queued qs"
proof -
  note inv = q_reachable_inv [OF assms]
  have "set (running (on_tick now qs)) = set (running qs) \<union>
      {p. \<exists>t w. (t, w) \<in> set (wait_sleeping qs) \<and> t \<le> now \<and> waiting qs w = Some p}"
    using inv by (force simp: on_tick_running sorted_takeWhile_le queues_inv_def)
  with inv next_wakeup_on_tick [OF inv] on_tick_queued show ?thesis by (auto simp: queues_inv_parts)
qed

lemma on_tick_exact_example:
  "\<exists>qs. give 1 (Time 5) queues_new = Some qs \<and>
    set (running (on_tick 7 qs)) = set (running qs) \<union>
           {p. \<exists>t w. (t, w) \<in> set (wait_sleeping qs) \<and> t \<le> 7 \<and> waiting qs w = Some p}
    \<and> (\<forall>t. next_wakeup (on_tick 7 qs) = Some t \<longrightarrow> 7 < t)
    \<and> queued (on_tick 7 qs) = queued qs"
proof -
  obtain qs where g: "give 1 (Time 5) queues_new = Some qs"
    using give_total [of "Time 5" queues_new 1] by (auto simp: queues_new_def)
  have "q_reachable sorted_list_of_set qs"
    using q_new by (rule q_give [OF _ _ g]) (simp add: queues_new_def queued_def)
  from on_tick_exact [OF this iter_order_sorted, of 7] g show ?thesis by blast
qed

end
