(* ===== verification/IpcResults.thy ===== *)
theory IpcResults
  imports Abi SchedQueues
begin

text \<open>
  Results and errors of IPC operations, \<open>src/ipc/result.rs\<close>. An \<open>IpcResult\<close> carries, beside
  its value, the set of events the caller has to trigger. \<open>consume_events\<close> hands them to the
  scheduler queues (\<open>Scheduler::on_explicit_event\<close> only forwards to the queues).
\<close>

subsection \<open>Data\<close>

datatype SubscriptionError = Exclusion

datatype DeliveryError = NoSubscriber | QueueFull | NegativeAcknowledgement

datatype PermissionError = NotOwner | NoAccess

datatype IpcError =
    InvalidTopic
  | Unsubscribed
  | ReAcknowledge
  | PipeReserved
  | PipeSenderTerminated
  | Subscription SubscriptionError
  | Delivery DeliveryError
  | Permission PermissionError

record 'a IpcResult =
  ipc_value :: "IpcError + 'a"
  ipc_events :: "eventid set"

subsection \<open>Operations\<close>

definition ipc_new :: "IpcError + 'a \<Rightarrow> 'a IpcResult" where
  "ipc_new v = \<lparr>ipc_value = v, ipc_events = {}\<rparr>"

definition ipc_success :: "'a \<Rightarrow> 'a IpcResult" where
  "ipc_success v = \<lparr>ipc_value = Inr v, ipc_events = {}\<rparr>"

definition ipc_error :: "IpcError \<Rightarrow> 'a IpcResult" where
  "ipc_error e = \<lparr>ipc_value = Inl e, ipc_events = {}\<rparr>"

definition with_event :: "'a IpcResult \<Rightarrow> eventid \<Rightarrow> 'a IpcResult" where
  "with_event r e = r\<lparr>ipc_events := insert e (ipc_events r)\<rparr>"

definition with_events :: "'a IpcResult \<Rightarrow> eventid set \<Rightarrow> 'a IpcResult" where
  "with_events r es = r\<lparr>ipc_events := ipc_events r \<union> es\<rparr>"

definition separate_events :: "'a IpcResult \<Rightarrow> (IpcError + 'a) \<times> eventid set" where
  "separate_events r = (ipc_value r, ipc_events r)"

definition consume_events :: "(nat set \<Rightarrow> nat list) \<Rightarrow> 'a IpcResult \<Rightarrow> Queues
    \<Rightarrow> (IpcError + 'a) \<times> Queues" where
  "consume_events ord r sched =
     (ipc_value r, fold (on_explicit_event ord) (ord (ipc_events r)) sched)"

definition ipc_map :: "('a \<Rightarrow> 'b) \<Rightarrow> 'a IpcResult \<Rightarrow> 'b IpcResult" where
  "ipc_map f r = \<lparr>ipc_value = (case ipc_value r of Inl e \<Rightarrow> Inl e | Inr v \<Rightarrow> Inr (f v)),
     ipc_events = ipc_events r\<rparr>"

fun subscription_error_code :: "SubscriptionError \<Rightarrow> SyscallErrorCode" where
  "subscription_error_code Exclusion = ec_ipc_filter_exclusion"

fun delivery_error_code :: "DeliveryError \<Rightarrow> SyscallErrorCode" where
  "delivery_error_code NoSubscriber = ec_ipc_delivery_no_target"
| "delivery_error_code QueueFull = ec_ipc_delivery_target_full"
| "delivery_error_code NegativeAcknowledgement = ec_ipc_delivery_target_nack"

definition permission_error_code :: "PermissionError \<Rightarrow> SyscallErrorCode" where
  "permission_error_code e = ec_ipc_permission_error"

fun ipc_error_code :: "IpcError \<Rightarrow> SyscallErrorCode" where
  "ipc_error_code InvalidTopic = ec_ipc_invalid_topic"
| "ipc_error_code Unsubscribed = ec_ipc_unsubscribed"
| "ipc_error_code ReAcknowledge = ec_ipc_re_acknowledge"
| "ipc_error_code PipeReserved = ec_ipc_pipe_reserved"
| "ipc_error_code PipeSenderTerminated = ec_ipc_pipe_sender_terminated"
| "ipc_error_code (Subscription e) = subscription_error_code e"
| "ipc_error_code (Delivery e) = delivery_error_code e"
| "ipc_error_code (Permission e) = permission_error_code e"

subsection \<open>Facts\<close>

named_theorems ipc_simps \<open>constructors and projections of IPC results\<close>

lemma ipc_sel [ipc_simps, simp]:
  "ipc_value (ipc_success v) = Inr v" "ipc_events (ipc_success v) = {}"
  "ipc_value (ipc_error e) = Inl e" "ipc_events (ipc_error e) = {}"
  "ipc_value (ipc_new w) = w" "ipc_events (ipc_new w) = {}"
  "ipc_value (with_event r x) = ipc_value r" "ipc_events (with_event r x) = insert x (ipc_events r)"
  "ipc_value (with_events r X) = ipc_value r" "ipc_events (with_events r X) = ipc_events r \<union> X"
  by (simp_all add: ipc_success_def ipc_error_def ipc_new_def with_event_def with_events_def)

lemma ipc_map_events [simp]: "ipc_events (ipc_map f r) = ipc_events r"
  by (simp add: ipc_map_def)

text \<open>Distinct errors that a program can react to have distinct codes; only the two permission
  errors share one.\<close>

lemma ipc_error_code_inj:
  "ipc_error_code e = ipc_error_code e' \<Longrightarrow> e = e' \<or> (\<exists>p p'. e = Permission p \<and> e' = Permission p')"
proof -
  have sub: "subscription_error_code x = ec_ipc_filter_exclusion" for x by (cases x) simp
  have del: "delivery_error_code x = (case x of NoSubscriber \<Rightarrow> ec_ipc_delivery_no_target
      | QueueFull \<Rightarrow> ec_ipc_delivery_target_full
      | NegativeAcknowledgement \<Rightarrow> ec_ipc_delivery_target_nack)" for x by (cases x) simp_all
  have one: "x = y" for x y :: SubscriptionError by (cases x; cases y) simp
  show "ipc_error_code e = ipc_error_code e' \<Longrightarrow> ?thesis"
    by (cases e; cases e')
      (auto simp: permission_error_code_def sub del split: DeliveryError.splits intro: one)
qed

lemma consume_events_inv:
  assumes "iter_order ord" and "queues_inv qs" and "consume_events ord r qs = (v, qs')"
  shows "queues_inv qs'" and "queued qs' = queued qs" and "set (running qs) \<subseteq> set (running qs')"
  using assms sched_events.signal_all_ok [of ord qs] sched_events.signal_all_members [of ord qs]
    sched_events.signal_all_runnable [of ord qs]
  by (auto simp: consume_events_def subset_iff)

text \<open>Every process that waits for one of the events is runnable afterwards.\<close>

lemma fold_events_wakes:
  assumes "iter_order ord" and "queues_inv qs" and "e \<in> set es"
    and "waiting qs w = Some p" and "w \<in> or_default (wait_event qs e)"
  shows "p \<in> set (running (fold (on_explicit_event ord) es qs))"
  using assms(2-)
proof (induction es arbitrary: qs)
  case (Cons x xs)
  let ?q = "on_explicit_event ord x qs"
  have inv: "queues_inv ?q" using assms(1) Cons.prems(1) by (rule on_explicit_event_inv)
  show ?case
  proof (cases "p \<in> set (running ?q)")
    case True
    moreover have "set (running ?q) \<subseteq> set (running (fold (on_explicit_event ord) xs ?q))"
      using sched_events.signal_all_runnable assms(1) inv by blast
    ultimately show ?thesis by auto
  next
    case False
    have "x \<noteq> e"
      using False Cons.prems on_explicit_event_running [OF assms(1) Cons.prems(1), of x] by auto
    then have ev: "wait_event ?q e = wait_event qs e"
      by (simp add: on_explicit_event_def trigger_set_eq)
    have fin: "finite W" if "wait_event qs x = Some W" for W
      using that registered_finite [OF Cons.prems(1)] by (auto simp: ranI)
    have "w \<notin> or_default (wait_event qs x)"
      using False Cons.prems(3) on_explicit_event_running [OF assms(1) Cons.prems(1), of x] by auto
    then have "waiting ?q w = Some p"
      using Cons.prems(3) fin assms(1)
      by (auto simp: on_explicit_event_def trigger_set_eq waiting_fold_trigger or_default_def
          iter_orderD restrict_map_def split: option.splits)
    then show ?thesis using Cons.IH [OF inv] Cons.prems(2,4) \<open>x \<noteq> e\<close> ev by auto
  qed
qed simp

end
