(* ===== verification/ByteCodec.thy ===== *)
theory ByteCodec
  imports Prelude
begin

text \<open>
  Integers as byte sequences: \<open>to_le_bytes\<close>, \<open>from_le_bytes\<close>, \<open>to_be_bytes\<close> and
  \<open>from_be_bytes\<close> of the Rust standard library, and the interface of a wire format
  (\<open>wire_codec\<close>) that every packet type of the network stack provides.
\<close>

subsection \<open>Integers as bytes\<close>

fun to_le :: "nat \<Rightarrow> nat \<Rightarrow> bytes" where
  "to_le 0 v = []"
| "to_le (Suc n) v = word_of_nat v # to_le n (v div 256)"

fun from_le :: "bytes \<Rightarrow> nat" where
  "from_le [] = 0"
| "from_le (b # bs) = unat b + 256 * from_le bs"

definition to_be :: "nat \<Rightarrow> nat \<Rightarrow> bytes" where
  "to_be n v = rev (to_le n v)"

definition from_be :: "bytes \<Rightarrow> nat" where
  "from_be bs = from_le (rev bs)"

lemma length_to_le [simp]: "length (to_le n v) = n"
  by (induction n arbitrary: v) auto

lemma length_to_be [simp]: "length (to_be n v) = n"
  by (simp add: to_be_def)

lemma unat_u8_of_nat: "unat (word_of_nat v :: u8) = v mod 256"
  by (simp add: unat_of_nat)

lemma from_le_to_le: "from_le (to_le n v) = v mod 256 ^ n"
proof (induction n arbitrary: v)
  case (Suc n)
  have "v mod (256 * 256 ^ n) = 256 * (v div 256 mod 256 ^ n) + v mod 256"
    by (rule mod_mult2_eq)
  then show ?case by (simp add: Suc unat_u8_of_nat)
qed simp

lemma from_be_to_be: "from_be (to_be n v) = v mod 256 ^ n"
  by (simp add: from_be_def to_be_def from_le_to_le)

lemma from_le_to_le_small [simp]: "v < 256 ^ n \<Longrightarrow> from_le (to_le n v) = v"
  by (simp add: from_le_to_le)

lemma from_be_to_be_small [simp]: "v < 256 ^ n \<Longrightarrow> from_be (to_be n v) = v"
  by (simp add: from_be_to_be)

lemma to_le_from_le: "to_le (length bs) (from_le bs) = bs"
proof (induction bs)
  case (Cons b bs)
  have "unat b < 256" using unsigned_less [of b] by simp
  then have "(unat b + 256 * from_le bs) div 256 = from_le bs" by simp
  moreover have "(word_of_nat (unat b + 256 * from_le bs) :: u8) = b"
    by (simp add: word_unat_eq_iff unat_of_nat \<open>unat b < 256\<close> del: of_nat_add of_nat_mult
        of_nat_numeral)
  ultimately show ?case using Cons by simp
qed simp

lemma to_be_from_be: "to_be (length bs) (from_be bs) = bs"
  using to_le_from_le [of "rev bs"] by (simp add: to_be_def from_be_def)

lemma from_le_bound: "from_le bs < 256 ^ length bs"
proof (induction bs)
  case (Cons b bs)
  have "unat b < 256" using unsigned_less [of b] by simp
  with Cons have "unat b + 256 * from_le bs < 256 * (from_le bs + 1)" by simp
  also have "\<dots> \<le> 256 * 256 ^ length bs" using Cons by (intro mult_le_mono2) simp
  finally show ?case by simp
qed simp

lemma from_be_bound: "from_be bs < 256 ^ length bs"
  using from_le_bound [of "rev bs"] by (simp add: from_be_def)

subsection \<open>Ranges of memory\<close>

definition mem_range :: "(nat \<Rightarrow> u8) \<Rightarrow> nat \<Rightarrow> nat \<Rightarrow> bytes" where
  "mem_range mem off n = map mem [off ..< off + n]"

lemma mem_range_take:
  assumes "\<And>i. i < length bs \<Longrightarrow> mem i = bs ! i" and "off + n \<le> length bs"
  shows "mem_range mem off n = take n (drop off bs)"
  using assms by (intro nth_equalityI) (auto simp: mem_range_def)

lemma length_mem_range [simp]: "length (mem_range mem off n) = n"
  by (simp add: mem_range_def)

lemma mem_range_cong:
  "(\<And>i. off \<le> i \<Longrightarrow> i < off + n \<Longrightarrow> mem i = mem' i) \<Longrightarrow> mem_range mem off n = mem_range mem' off n"
  by (simp add: mem_range_def)

subsection \<open>Wire formats\<close>

text \<open>
  What a packet type promises: building a packet and parsing the bytes gives the packet back.
  The client facts: a packet is determined by its bytes, and a format carried in the payload of
  another is read back through both.
\<close>

locale wire_codec =
  fixes build :: "'p \<Rightarrow> bytes"
    and parse :: "bytes \<Rightarrow> 'p option"
    and ok :: "'p \<Rightarrow> bool"
  assumes parse_build: "ok p \<Longrightarrow> parse (build p) = Some p"
begin

lemma build_inj: "inj_on build {p. ok p}"
proof (rule inj_onI)
  fix p q assume "p \<in> {p. ok p}" and "q \<in> {p. ok p}" and "build p = build q"
  then show "p = q" using parse_build by (metis mem_Collect_eq option.inject)
qed

lemma build_distinguishes: "ok p \<Longrightarrow> ok q \<Longrightarrow> p \<noteq> q \<Longrightarrow> build p \<noteq> build q"
  using build_inj by (auto simp: inj_on_def)

lemma parse_all: "list_all ok ps \<Longrightarrow> map (parse \<circ> build) ps = map Some ps"
  by (induction ps) (simp_all add: parse_build)

end

end
