(* ===== verification/Initrd.thy ===== *)
theory Initrd
  imports ByteCodec
begin

text \<open>
  The initial ramdisk: the image builder \<open>libs/d7initrd/src/bin/mkimg.rs\<close> and the kernel's
  reader \<open>src/initrd.rs\<close>. The third-party serialiser \<open>pinecone\<close> is a parameter
  (\<open>enc\<close>, \<open>dec\<close>). The builder's file access is abstracted: it gets the files as pairs of
  name and contents and the disk image as bytes. The reader sees the memory into which the
  boot loader copied the image, as a function from offsets to bytes.
\<close>

subsection \<open>Data\<close>

definition SECTOR_SIZE :: nat where "SECTOR_SIZE = 0x200"
definition MBR_POSITION_S :: nat where "MBR_POSITION_S = 0x01f6"
definition MBR_POSITION_E :: nat where "MBR_POSITION_E = 0x01fa"
definition HEADER_MAGIC :: nat where "HEADER_MAGIC = 0xd7cafed7"
definition HEADER_SIZE_BYTES :: nat where "HEADER_SIZE_BYTES = 16"
definition PAGE_SIZE_BYTES :: nat where "PAGE_SIZE_BYTES = 0x200000"

record FileEntry =
  fe_name :: string
  fe_size :: nat
  fe_offset :: nat

record InitRD =
  rd_files :: "string \<rightharpoonup> FileEntry"
  rd_slice :: bytes

subsection \<open>The image builder\<close>

definition to_sectors_round_up :: "nat \<Rightarrow> nat option" where
  "to_sectors_round_up p = do { s \<leftarrow> checked_u64 (p + SECTOR_SIZE - 1); Some (s div SECTOR_SIZE) }"

text \<open>The loop that collects the file entries; the offset is cumulative.\<close>

fun build_entries :: "(string \<times> bytes) list \<Rightarrow> nat \<Rightarrow> FileEntry list" where
  "build_entries [] off = []"
| "build_entries ((name, contents) # fs) off =
     \<lparr>fe_name = name, fe_size = length contents, fe_offset = off\<rparr>
       # build_entries fs (off + length contents)"

text \<open>Seek and overwrite; a file shorter than the position is filled with zeros.\<close>

definition write_at :: "bytes \<Rightarrow> nat \<Rightarrow> bytes \<Rightarrow> bytes" where
  "write_at d off bs = take off (d @ replicate (off - length d) 0) @ bs @ drop (off + length bs) d"

definition mkimg :: "(FileEntry list \<Rightarrow> bytes) \<Rightarrow> bytes \<Rightarrow> nat \<Rightarrow> (string \<times> bytes) list
    \<Rightarrow> bytes option" where
  "mkimg enc disk kernel_skip_index files = do {
     let entries = build_entries files 0;
     let size_sectors = length disk div SECTOR_SIZE;
     let header_body = enc entries;
     let header_size = HEADER_SIZE_BYTES + length header_body;
     let files_size = sum_list (map fe_size entries);
     sectors \<leftarrow> to_sectors_round_up (header_size + files_size);
     let required_size_sectors = kernel_skip_index + sectors;
     rassert (required_size_sectors < size_sectors);
     magic1 \<leftarrow> slice disk MBR_POSITION_S (MBR_POSITION_S + 4);
     rassert (magic1 = to_le 4 HEADER_MAGIC);
     magic2 \<leftarrow> slice disk MBR_POSITION_E (MBR_POSITION_E + 4);
     rassert (magic2 = to_le 4 HEADER_MAGIC);
     empty_check \<leftarrow> slice disk (kernel_skip_index * SECTOR_SIZE)
                            (kernel_skip_index * SECTOR_SIZE + 4);
     rassert (empty_check = [0, 0, 0, 0]);
     let disk = write_at disk MBR_POSITION_S (to_le 4 kernel_skip_index);
     let disk = write_at disk MBR_POSITION_E (to_le 4 required_size_sectors);
     Some (write_at disk (kernel_skip_index * SECTOR_SIZE)
       (to_le 4 HEADER_MAGIC @ to_le 4 (length header_body) @ to_le 8 (header_size + files_size)
        @ header_body @ concat (map snd files)))
   }"

subsection \<open>The reader\<close>

definition initrd_init :: "(bytes \<Rightarrow> FileEntry list option) \<Rightarrow> (nat \<Rightarrow> u8) \<Rightarrow> InitRD option" where
  "initrd_init dec mem = do {
     let magic = from_le (mem_range mem 0 4);
     let size_flist = from_le (mem_range mem 4 4);
     let size_total = from_le (mem_range mem 8 8);
     rassert (magic = HEADER_MAGIC);
     rassert (size_flist > 0);
     rassert (size_flist + 8 < PAGE_SIZE_BYTES);
     let header_bytes = mem_range mem 16 size_flist;
     file_list \<leftarrow> dec header_bytes;
     let files_offset = HEADER_SIZE_BYTES + size_flist;
     files_len \<leftarrow> checked_sub size_total files_offset;
     Some \<lparr>rd_files = fold (\<lambda>f m. m(fe_name f \<mapsto> f)) file_list Map.empty,
           rd_slice = mem_range mem files_offset files_len\<rparr>
   }"

text \<open>\<open>read\<close>: panics before \<open>init\<close> and when an entry points outside the image.\<close>

definition initrd_read :: "InitRD option \<Rightarrow> string \<Rightarrow> bytes option option" where
  "initrd_read initrd name = do {
     rd \<leftarrow> initrd;
     (case rd_files rd name of
        None \<Rightarrow> Some None
      | Some entry \<Rightarrow> do {
          s \<leftarrow> slice (rd_slice rd) (fe_offset entry) (fe_offset entry + fe_size entry);
          Some (Some s)
        })
   }"

subsection \<open>Facts\<close>

lemma write_at_range:
  assumes "i < length bs"
  shows "write_at d off bs ! (off + i) = bs ! i"
proof -
  let ?p = "take off (d @ replicate (off - length d) 0)"
  have "length ?p = off" by simp
  then have "(?p @ bs @ drop (off + length bs) d) ! (off + i) = (bs @ drop (off + length bs) d) ! i"
    by (metis nth_append_length_plus)
  then show ?thesis using assms by (simp add: write_at_def nth_append)
qed

lemma sum_list_build_entries:
  "sum_list (map fe_size (build_entries fs off)) = length (concat (map snd fs))"
  by (induction fs off rule: build_entries.induct) auto

lemma map_name_build_entries: "map fe_name (build_entries fs off) = map fst fs"
  by (induction fs off rule: build_entries.induct) auto

lemma build_entries_contents:
  assumes "(name, contents) \<in> set fs"
  shows "\<exists>e \<in> set (build_entries fs off). fe_name e = name \<and> fe_size e = length contents \<and>
    off \<le> fe_offset e \<and> fe_offset e - off + length contents \<le> length (concat (map snd fs)) \<and>
    take (length contents) (drop (fe_offset e - off) (concat (map snd fs))) = contents"
  using assms
proof (induction fs off rule: build_entries.induct)
  case (2 n c fs off)
  show ?case
  proof (cases "(name, contents) = (n, c)")
    case True
    then show ?thesis by simp
  next
    case False
    with "2.prems" have "(name, contents) \<in> set fs" by auto
    from "2.IH" [OF this] obtain e where e: "e \<in> set (build_entries fs (off + length c))"
        "fe_name e = name" "fe_size e = length contents" "off + length c \<le> fe_offset e"
        "fe_offset e - (off + length c) + length contents \<le> length (concat (map snd fs))"
        "take (length contents) (drop (fe_offset e - (off + length c)) (concat (map snd fs)))
           = contents"
      by blast
    have "drop (fe_offset e - off) (c @ concat (map snd fs)) =
        drop (fe_offset e - (off + length c)) (concat (map snd fs))"
      using e(4) by simp
    with e show ?thesis by (intro bexI [of _ e]) auto
  qed
qed simp

lemma fold_upd_lookup:
  assumes "distinct (map fe_name es)" and "e \<in> set es"
  shows "fold (\<lambda>f m. m(fe_name f \<mapsto> f)) es m (fe_name e) = Some e"
proof -
  let ?upd = "\<lambda>f m. m(fe_name f \<mapsto> f)"
  have keep: "fold ?upd xs m k = m k" if "k \<notin> fe_name ` set xs" for xs m and k :: string
    using that by (induction xs arbitrary: m) (auto simp del: fun_upd_apply simp: fun_upd_other)
  show ?thesis
    using assms
  proof (induction es arbitrary: m)
    case (Cons f es)
    show ?case
    proof (cases "e = f")
      case True
      with Cons.prems keep [of "fe_name f" es "m(fe_name f \<mapsto> f)"] show ?thesis
        by (simp del: fun_upd_apply add: fun_upd_same)
    qed (use Cons in \<open>auto simp del: fun_upd_apply\<close>)
  qed simp
qed

text \<open>What \<open>init\<close> makes of an image laid out by \<open>mkimg\<close>.\<close>

lemma initrd_init_image:
  assumes mem: "\<And>i. i < length img \<Longrightarrow> mem i = img ! i"
    and img: "img = to_le 4 HEADER_MAGIC @ to_le 4 (length hb)
                @ to_le 8 (HEADER_SIZE_BYTES + length hb + length body) @ hb @ body"
    and hb: "0 < length hb" "length hb + 8 < PAGE_SIZE_BYTES"
    and total: "HEADER_SIZE_BYTES + length hb + length body < 2 ^ 64"
    and dec: "dec hb = Some es"
  shows "initrd_init dec mem = Some \<lparr>rd_files = fold (\<lambda>f m. m(fe_name f \<mapsto> f)) es Map.empty,
           rd_slice = body\<rparr>"
proof -
  have len: "length img = 16 + length hb + length body" by (simp add: img)
  have r: "mem_range mem 0 4 = to_le 4 HEADER_MAGIC" "mem_range mem 4 4 = to_le 4 (length hb)"
    "mem_range mem 8 8 = to_le 8 (HEADER_SIZE_BYTES + length hb + length body)"
    "mem_range mem 16 (length hb) = hb" "mem_range mem (16 + length hb) (length body) = body"
    by (subst mem_range_take [OF mem], assumption, simp add: len, simp add: img)+
  have "from_le (to_le 4 HEADER_MAGIC) = HEADER_MAGIC" by (simp add: HEADER_MAGIC_def)
  moreover have "from_le (to_le 4 (length hb)) = length hb"
    using hb by (simp add: PAGE_SIZE_BYTES_def)
  moreover have "from_le (to_le 8 (HEADER_SIZE_BYTES + length hb + length body))
      = HEADER_SIZE_BYTES + length hb + length body"
    using total by simp
  ultimately show ?thesis
    using hb dec r
    by (simp add: initrd_init_def Let_def checked_sub_def HEADER_SIZE_BYTES_def)
qed

lemma mkimg_layout:
  assumes "mkimg enc disk skip files = Some img"
  defines "hb \<equiv> enc (build_entries files 0)" and "body \<equiv> concat (map snd files)"
  shows "HEADER_SIZE_BYTES + length hb + length body < 2 ^ 64"
    and "\<exists>d. img = write_at d (skip * SECTOR_SIZE)
           (to_le 4 HEADER_MAGIC @ to_le 4 (length hb)
            @ to_le 8 (HEADER_SIZE_BYTES + length hb + length body) @ hb @ body)"
proof -
  from assms(1) obtain sectors where "to_sectors_round_up (HEADER_SIZE_BYTES + length hb + length body) = Some sectors"
    by (auto simp: mkimg_def Let_def bind_eq_Some_conv sum_list_build_entries hb_def body_def)
  then have "HEADER_SIZE_BYTES + length hb + length body + SECTOR_SIZE - 1 < 2 ^ 64"
    by (auto simp: to_sectors_round_up_def bind_eq_Some_conv checked_u64_eq_Some)
  then show "HEADER_SIZE_BYTES + length hb + length body < 2 ^ 64"
    by (simp add: SECTOR_SIZE_def)
  show "\<exists>d. img = write_at d (skip * SECTOR_SIZE)
           (to_le 4 HEADER_MAGIC @ to_le 4 (length hb)
            @ to_le 8 (HEADER_SIZE_BYTES + length hb + length body) @ hb @ body)"
    using assms(1)
    by (auto simp: mkimg_def Let_def bind_eq_Some_conv sum_list_build_entries hb_def body_def
        split: if_splits)
qed

lemma initrd_read_entry:
  assumes "distinct (map fst files)" and "(name, contents) \<in> set files"
  shows "initrd_read (Some \<lparr>rd_files = fold (\<lambda>f m. m(fe_name f \<mapsto> f)) (build_entries files 0)
           Map.empty, rd_slice = concat (map snd files)\<rparr>) name = Some (Some contents)"
proof -
  from build_entries_contents [OF assms(2), of 0] obtain e
    where e: "e \<in> set (build_entries files 0)" "fe_name e = name" "fe_size e = length contents"
      "fe_offset e + length contents \<le> length (concat (map snd files))"
      "take (length contents) (drop (fe_offset e) (concat (map snd files))) = contents"
    by auto
  have "fold (\<lambda>f m. m(fe_name f \<mapsto> f)) (build_entries files 0) Map.empty name = Some e"
    using fold_upd_lookup [of "build_entries files 0" e] e(1,2) assms(1)
    by (simp add: map_name_build_entries del: fun_upd_apply)
  then show ?thesis using e(3-5)
    by (simp add: initrd_read_def slice_def del: fun_upd_apply length_concat)
qed

subsection \<open>Claims\<close>

text \<open>C35: the ramdisk round trip. When \<open>mkimg\<close> has written a set of files with distinct names
  to a disk image and the kernel finds that image in memory, \<open>init\<close> accepts it and \<open>read\<close>
  returns, for each file, exactly the bytes that were packed. The serialiser must read back
  the file table it wrote, and the table must fit in the page the kernel allows for it.\<close>

theorem initrd_roundtrip:
  assumes "mkimg enc disk skip files = Some img"
    and "dec (enc (build_entries files 0)) = Some (build_entries files 0)"
    and "0 < length (enc (build_entries files 0))"
    and "length (enc (build_entries files 0)) + 8 < PAGE_SIZE_BYTES"
    and "distinct (map fst files)" and "(name, contents) \<in> set files"
  shows "\<exists>rd. initrd_init dec (\<lambda>i. img ! (skip * SECTOR_SIZE + i)) = Some rd \<and>
              initrd_read (Some rd) name = Some (Some contents)"
proof -
  let ?hb = "enc (build_entries files 0)" and ?body = "concat (map snd files)"
  let ?w = "to_le 4 HEADER_MAGIC @ to_le 4 (length ?hb)
      @ to_le 8 (HEADER_SIZE_BYTES + length ?hb + length ?body) @ ?hb @ ?body"
  from mkimg_layout(2) [OF assms(1)] obtain d where img: "img = write_at d (skip * SECTOR_SIZE) ?w"
    by blast
  have "initrd_init dec (\<lambda>i. img ! (skip * SECTOR_SIZE + i)) =
      Some \<lparr>rd_files = fold (\<lambda>f m. m(fe_name f \<mapsto> f)) (build_entries files 0) Map.empty,
            rd_slice = ?body\<rparr>"
    by (rule initrd_init_image [where hb = ?hb and body = ?body and dec = dec and es = "build_entries files 0", OF _ refl assms(3,4) mkimg_layout(1) [OF assms(1)] assms(2)])
      (simp only: img write_at_range)
  with initrd_read_entry [OF assms(5,6)] show ?thesis by blast
qed

theorem initrd_roundtrip_witness:
  "\<exists>img rd. mkimg (\<lambda>es. [7]) (replicate 0x1f6 0 @ to_le 4 HEADER_MAGIC @ to_le 4 HEADER_MAGIC
        @ replicate 2050 0) 1 [(''a'', [1, 2]), (''b'', [3])] = Some img \<and>
     initrd_init (\<lambda>bs. Some (build_entries [(''a'', [1, 2]), (''b'', [3])] 0))
       (\<lambda>i. img ! (1 * SECTOR_SIZE + i)) = Some rd \<and>
     initrd_read (Some rd) ''b'' = Some (Some [3])"
proof -
  let ?fs = "[(''a'', [1, 2]), (''b'', [3])] :: (string \<times> bytes) list"
  let ?disk = "replicate 0x1f6 0 @ to_le 4 HEADER_MAGIC @ to_le 4 HEADER_MAGIC @ replicate 2050 0"
  have zeros: "replicate 4 0 = [0, 0, 0, 0 :: u8]" by (simp add: numeral_eq_Suc)
  have "mkimg (\<lambda>es. [7]) ?disk 1 ?fs \<noteq> None"
    by (simp add: zeros mkimg_def Let_def to_sectors_round_up_def checked_u64_def SECTOR_SIZE_def
        HEADER_SIZE_BYTES_def MBR_POSITION_S_def MBR_POSITION_E_def slice_def)
  then obtain img where img: "mkimg (\<lambda>es. [7]) ?disk 1 ?fs = Some img" by blast
  have "\<exists>rd. initrd_init (\<lambda>bs. Some (build_entries ?fs 0)) (\<lambda>i. img ! (1 * SECTOR_SIZE + i)) = Some rd
      \<and> initrd_read (Some rd) ''b'' = Some (Some [3])"
    by (rule initrd_roundtrip [OF img]) (simp_all add: PAGE_SIZE_BYTES_def)
  with img show ?thesis by blast
qed

end
