(* ===== verification/IpcManager.thy ===== *)
theory IpcManager
  imports EventQ SubList IpcResults Initrd
begin

text \<open>
  The publish/subscribe manager of \<open>src/ipc/mod.rs\<close> with the in-kernel services of
  \<open>src/services\<close>. The manager is a record passed through its operations; \<open>ne\<close> is the
  global event counter, \<open>ord\<close> the iteration order of hash sets. A panic is \<open>None\<close>.
\<close>

subsection \<open>Data\<close>

record Message =
  msg_topic :: string
  msg_data :: bytes
  msg_ack :: "nat option"

definition needs_response :: "Message \<Rightarrow> bool" where
  "needs_response msg \<longleftrightarrow> msg_ack msg \<noteq> None"

definition MAILBOX_BUFFER_LIMIT :: nat where "MAILBOX_BUFFER_LIMIT = 100"

datatype PipeMode = PipeNone | NotConnected | ConnectedTo pid | Disconnected

record Mailbox =
  mb_queue :: "Message EventQueue"
  pipe_mode :: PipeMode

datatype Deliver = DeliverProcess eventid | DeliverKernel

record Manager =
  subscriptions :: SubscriptionList
  mailboxes :: "SubscriptionId \<rightharpoonup> Mailbox option"
  waiting_for_delivery :: "nat \<rightharpoonup> eventid \<times> pid"
  delivery_result :: "pid \<rightharpoonup> (DeliveryError + unit)"
  next_acknowledge_id :: nat
  process_subscriptions :: "pid \<rightharpoonup> SubscriptionId set"

text \<open>The kernel services: the only one the code registers serves files of the ramdisk. The
  environment holds the registered services, the ramdisk, and the third-party serialiser.\<close>

datatype Service = InitrdRead

record Kenv =
  ke_services :: "SubscriptionId \<rightharpoonup> Service"
  ke_initrd :: "InitRD option"
  ke_dec_pair :: "bytes \<Rightarrow> (string \<times> string) option"
  ke_enc_bytes :: "bytes \<Rightarrow> bytes option"

subsection \<open>Mailboxes\<close>

definition mailbox_new :: "PipeMode \<Rightarrow> Mailbox" where
  "mailbox_new pm = \<lparr>mb_queue = eq_new MAILBOX_BUFFER_LIMIT, pipe_mode = pm\<rparr>"

definition mb_is_empty :: "Mailbox \<Rightarrow> bool" where
  "mb_is_empty mb = eq_is_empty (mb_queue mb)"

definition push_unreliable :: "Mailbox \<Rightarrow> Message \<Rightarrow> (eventid option \<times> Mailbox) option" where
  "push_unreliable mb msg = do {
     rassert (pipe_mode mb = PipeNone);
     let (r, q) = eq_push (mb_queue mb) msg;
     Some (case r of Inr v \<Rightarrow> v | Inl _ \<Rightarrow> None, mb\<lparr>mb_queue := q\<rparr>)
   }"

definition push_reliable ::
    "Mailbox \<Rightarrow> Message \<Rightarrow> ((DeliveryError + eventid option) \<times> Mailbox) option" where
  "push_reliable mb msg = do {
     rassert (pipe_mode mb \<noteq> NotConnected);
     let (r, q) = eq_push (mb_queue mb) msg;
     Some (case r of Inr v \<Rightarrow> Inr v | Inl _ \<Rightarrow> Inl QueueFull, mb\<lparr>mb_queue := q\<rparr>)
   }"

definition mb_pop_or_event :: "Mailbox \<Rightarrow> nat \<Rightarrow> (eventid + Message) \<times> Mailbox \<times> nat" where
  "mb_pop_or_event mb ne = (let (r, q, ne') = eq_pop_or_event (mb_queue mb) ne
     in (r, mb\<lparr>mb_queue := q\<rparr>, ne'))"

subsection \<open>Subscribing\<close>

definition manager_new :: Manager where
  "manager_new = \<lparr>subscriptions = sl_new, mailboxes = Map.empty, waiting_for_delivery = Map.empty,
     delivery_result = Map.empty, next_acknowledge_id = 0, process_subscriptions = Map.empty\<rparr>"

definition process_owns :: "Manager \<Rightarrow> pid \<Rightarrow> SubscriptionId \<Rightarrow> bool" where
  "process_owns mgr p sub = (case process_subscriptions mgr p of
     Some subs \<Rightarrow> sub \<in> subs | None \<Rightarrow> False)"

definition verify_process_owns :: "Manager \<Rightarrow> pid \<Rightarrow> SubscriptionId \<Rightarrow> PermissionError + unit" where
  "verify_process_owns mgr p sub = (if process_owns mgr p sub then Inr () else Inl NotOwner)"

definition subscribe :: "Manager \<Rightarrow> pid \<Rightarrow> TopicFilter \<Rightarrow> bool \<Rightarrow> bool
    \<Rightarrow> ((SubscriptionError + SubscriptionId) \<times> Manager) option" where
  "subscribe mgr p filt reliable pipe = do {
     (r, subs) \<leftarrow> sl_insert (subscriptions mgr) filt reliable;
     (case r of
        Some i \<Rightarrow> Some (Inr i, mgr\<lparr>subscriptions := subs,
          mailboxes := (mailboxes mgr)(i \<mapsto> Some (mailbox_new (if pipe then NotConnected else PipeNone))),
          process_subscriptions := (process_subscriptions mgr)
            (p \<mapsto> insert i (or_default (process_subscriptions mgr p)))\<rparr>)
      | None \<Rightarrow> Some (Inl Exclusion, mgr\<lparr>subscriptions := subs\<rparr>))
   }"

definition kernel_subscribe :: "Manager \<Rightarrow> TopicFilter
    \<Rightarrow> ((SubscriptionError + SubscriptionId) \<times> Manager) option" where
  "kernel_subscribe mgr filt = do {
     (r, subs) \<leftarrow> sl_insert (subscriptions mgr) filt True;
     (case r of
        Some i \<Rightarrow> Some (Inr i, mgr\<lparr>subscriptions := subs, mailboxes := (mailboxes mgr)(i \<mapsto> None)\<rparr>)
      | None \<Rightarrow> Some (Inl Exclusion, mgr\<lparr>subscriptions := subs\<rparr>))
   }"

text \<open>The loop of \<open>_force_unsubscribe\<close> that releases the senders of queued messages.\<close>

definition release_msg ::
    "(nat \<rightharpoonup> eventid \<times> pid) \<times> (pid \<rightharpoonup> (DeliveryError + unit)) \<times> eventid set \<Rightarrow> Message
     \<Rightarrow> ((nat \<rightharpoonup> eventid \<times> pid) \<times> (pid \<rightharpoonup> (DeliveryError + unit)) \<times> eventid set) option" where
  "release_msg s msg = (case s of (wfd, results, events) \<Rightarrow>
     (case msg_ack msg of
        Some ack_id \<Rightarrow> do {
          (event, p) \<leftarrow> wfd ack_id;
          Some (wfd(ack_id := None), results(p \<mapsto> Inl NoSubscriber), insert event events)
        }
      | None \<Rightarrow> Some s))"

definition force_unsubscribe :: "SubscriptionId \<Rightarrow> Manager \<Rightarrow> (unit IpcResult \<times> Manager) option" where
  "force_unsubscribe sub mgr = do {
     let subs = sl_remove (subscriptions mgr) sub;
     entry \<leftarrow> mailboxes mgr sub;
     mailbox \<leftarrow> entry;
     (wfd, results, events) \<leftarrow> foldM release_msg
       (waiting_for_delivery mgr, delivery_result mgr, {}) (eq_into_iter (mb_queue mailbox));
     Some (with_events (ipc_success ()) events,
       mgr\<lparr>subscriptions := subs, mailboxes := (mailboxes mgr)(sub := None),
           waiting_for_delivery := wfd, delivery_result := results\<rparr>)
   }"

definition unsubscribe :: "pid \<Rightarrow> SubscriptionId \<Rightarrow> Manager \<Rightarrow> (unit IpcResult \<times> Manager) option" where
  "unsubscribe p sub mgr = (case verify_process_owns mgr p sub of
     Inl e \<Rightarrow> Some (ipc_error (Permission e), mgr)
   | Inr _ \<Rightarrow> do {
       subs \<leftarrow> process_subscriptions mgr p;
       force_unsubscribe sub
         (mgr\<lparr>process_subscriptions := (process_subscriptions mgr)(p \<mapsto> subs - {sub})\<rparr>)
     })"

subsection \<open>Sending\<close>

definition publish_one :: "Topic \<Rightarrow> bytes \<Rightarrow> Manager \<times> eventid set \<Rightarrow> SubscriptionId
    \<Rightarrow> (Manager \<times> eventid set) option" where
  "publish_one topic data s sub = (case s of (mgr, events) \<Rightarrow> do {
     entry \<leftarrow> mailboxes mgr sub;
     mailbox \<leftarrow> entry;
     (ev, mailbox) \<leftarrow> push_unreliable mailbox
       \<lparr>msg_topic = topic_str topic, msg_data = data, msg_ack = None\<rparr>;
     Some (mgr\<lparr>mailboxes := (mailboxes mgr)(sub \<mapsto> Some mailbox)\<rparr>, events \<union> set_option ev)
   })"

definition publish :: "(nat set \<Rightarrow> nat list) \<Rightarrow> Topic \<Rightarrow> bytes \<Rightarrow> Manager
    \<Rightarrow> (unit IpcResult \<times> Manager) option" where
  "publish ord topic data mgr = do {
     (mgr, events) \<leftarrow> foldM (publish_one topic data) (mgr, {})
       (ord (find_all (subscriptions mgr) topic False));
     Some (with_events (ipc_success ()) events, mgr)
   }"

definition first_of :: "'a list \<Rightarrow> 'a option" where
  "first_of xs = (case xs of [] \<Rightarrow> None | x # _ \<Rightarrow> Some x)"

definition kernel_reply_to_mailbox :: "SubscriptionId \<Rightarrow> Mailbox \<Rightarrow> Topic \<Rightarrow> bytes option \<Rightarrow> Manager
    \<Rightarrow> ((DeliveryError + unit) \<times> Manager) option" where
  "kernel_reply_to_mailbox sub mailbox topic encoded mgr = do {
     rassert (pipe_mode mailbox = PipeNone);
     data \<leftarrow> encoded;
     (result, mailbox) \<leftarrow> push_reliable mailbox
       \<lparr>msg_topic = topic_str topic, msg_data = data, msg_ack = None\<rparr>;
     let mgr = mgr\<lparr>mailboxes := (mailboxes mgr)(sub \<mapsto> Some mailbox)\<rparr>;
     (case result of
        Inl e \<Rightarrow> Some (Inl e, mgr)
      | Inr trigger \<Rightarrow> do { rassert (trigger = None); Some (Inr (), mgr) })
   }"

definition kernel_deliver_reply :: "(nat set \<Rightarrow> nat list) \<Rightarrow> Topic \<Rightarrow> bytes option \<Rightarrow> Manager
    \<Rightarrow> ((DeliveryError + unit) \<times> Manager) option" where
  "kernel_deliver_reply ord topic encoded mgr =
     (let all = find_all (subscriptions mgr) topic True in
      if card all = 0 then Some (Inl NoSubscriber, mgr)
      else do {
        rassert (card all = 1);
        nxt \<leftarrow> checked_u64 (next_acknowledge_id mgr + 1);
        let mgr = mgr\<lparr>next_acknowledge_id := nxt\<rparr>;
        sub \<leftarrow> first_of (ord all);
        entry \<leftarrow> mailboxes mgr sub;
        mailbox \<leftarrow> entry;
        kernel_reply_to_mailbox sub mailbox topic encoded mgr
      })"

text \<open>\<open>services/initrd.rs\<close>: decode the request, look the file up, reply with its contents.\<close>

definition service_initrd_read :: "(nat set \<Rightarrow> nat list) \<Rightarrow> Kenv \<Rightarrow> Manager \<Rightarrow> Message
    \<Rightarrow> ((DeliveryError + unit) \<times> Manager) option" where
  "service_initrd_read ord env mgr message = do {
     (reply_to, path) \<leftarrow> ke_dec_pair env (msg_data message);
     (case topic_new reply_to of
        None \<Rightarrow> Some (Inl NegativeAcknowledgement, mgr)
      | Some reply_to \<Rightarrow> do {
          found \<leftarrow> initrd_read (ke_initrd env) path;
          (case found of
             None \<Rightarrow> Some (Inl NegativeAcknowledgement, mgr)
           | Some data \<Rightarrow> kernel_deliver_reply ord reply_to (ke_enc_bytes env data) mgr)
        })
   }"

definition incoming :: "(nat set \<Rightarrow> nat list) \<Rightarrow> Kenv \<Rightarrow> Manager \<Rightarrow> SubscriptionId \<Rightarrow> Message
    \<Rightarrow> (unit IpcResult \<times> Manager) option" where
  "incoming ord env mgr sub message = do {
     service \<leftarrow> ke_services env sub;
     ack_id \<leftarrow> msg_ack message;
     let message = message\<lparr>msg_ack := None\<rparr>;
     (r, mgr) \<leftarrow> (case service of InitrdRead \<Rightarrow> service_initrd_read ord env mgr message);
     Some (ipc_new (case r of Inl e \<Rightarrow> Inl (Delivery e) | Inr u \<Rightarrow> Inr u), mgr)
   }"

text \<open>The check of \<open>deliver\<close> on a pipe mailbox: refused, or the mode after connecting.\<close>

definition pipe_gate :: "pid \<Rightarrow> PipeMode \<Rightarrow> PipeMode option" where
  "pipe_gate p pm = (case pm of
     PipeNone \<Rightarrow> Some PipeNone
   | NotConnected \<Rightarrow> Some (ConnectedTo p)
   | ConnectedTo c \<Rightarrow> (if c \<noteq> p then None else Some pm)
   | Disconnected \<Rightarrow> None)"

definition deliver_to_mailbox :: "pid \<Rightarrow> SubscriptionId \<Rightarrow> Mailbox \<Rightarrow> Message \<Rightarrow> nat \<Rightarrow> Manager \<Rightarrow> nat
    \<Rightarrow> (Deliver IpcResult \<times> Manager \<times> nat) option" where
  "deliver_to_mailbox p sub mailbox msg ack_id mgr ne =
     (case pipe_gate p (pipe_mode mailbox) of
        None \<Rightarrow> Some (ipc_error PipeReserved, mgr, ne)
      | Some pm \<Rightarrow> do {
          (result, mailbox) \<leftarrow> push_reliable (mailbox\<lparr>pipe_mode := pm\<rparr>) msg;
          let mgr = mgr\<lparr>mailboxes := (mailboxes mgr)(sub \<mapsto> Some mailbox)\<rparr>;
          (case result of
             Inr trigger \<Rightarrow>
               (let (ev, ne) = new_event_id ne;
                    mgr = mgr\<lparr>waiting_for_delivery :=
                            (waiting_for_delivery mgr)(ack_id \<mapsto> (ev, p))\<rparr>
                in Some (with_events (ipc_success (DeliverProcess ev)) (set_option trigger), mgr, ne))
           | Inl e \<Rightarrow> Some (ipc_error (Delivery e), mgr, ne))
        })"

definition deliver :: "(nat set \<Rightarrow> nat list) \<Rightarrow> Kenv \<Rightarrow> pid \<Rightarrow> Topic \<Rightarrow> bytes \<Rightarrow> Manager \<Rightarrow> nat
    \<Rightarrow> (Deliver IpcResult \<times> Manager \<times> nat) option" where
  "deliver ord env p topic data mgr ne =
     (let all = find_all (subscriptions mgr) topic True in
      if card all = 0 then Some (ipc_error (Delivery NoSubscriber), mgr, ne)
      else do {
        rassert (card all = 1);
        let ack_id = next_acknowledge_id mgr;
        nxt \<leftarrow> checked_u64 (ack_id + 1);
        let mgr = mgr\<lparr>next_acknowledge_id := nxt\<rparr>;
        sub \<leftarrow> first_of (ord all);
        entry \<leftarrow> mailboxes mgr sub;
        let msg = \<lparr>msg_topic = topic_str topic, msg_data = data, msg_ack = Some ack_id\<rparr>;
        (case entry of
           Some mailbox \<Rightarrow> deliver_to_mailbox p sub mailbox msg ack_id mgr ne
         | None \<Rightarrow> do {
             (r, mgr) \<leftarrow> incoming ord env mgr sub msg;
             Some (ipc_map (\<lambda>_. DeliverKernel) r, mgr, ne)
           })
      })"

definition reply_to_mailbox :: "SubscriptionId \<Rightarrow> Mailbox \<Rightarrow> Message \<Rightarrow> Manager
    \<Rightarrow> (unit IpcResult \<times> Manager) option" where
  "reply_to_mailbox sub mailbox msg mgr = do {
     rassert (pipe_mode mailbox = PipeNone);
     (result, mailbox) \<leftarrow> push_reliable mailbox msg;
     let mgr = mgr\<lparr>mailboxes := (mailboxes mgr)(sub \<mapsto> Some mailbox)\<rparr>;
     (case result of
        Inr trigger \<Rightarrow> Some (with_events (ipc_success ()) (set_option trigger), mgr)
      | Inl e \<Rightarrow> Some (ipc_error (Delivery e), mgr))
   }"

definition deliver_reply :: "(nat set \<Rightarrow> nat list) \<Rightarrow> Topic \<Rightarrow> bytes \<Rightarrow> Manager
    \<Rightarrow> (unit IpcResult \<times> Manager) option" where
  "deliver_reply ord topic data mgr =
     (let all = find_all (subscriptions mgr) topic True in
      if card all = 0 then Some (ipc_error (Delivery NoSubscriber), mgr)
      else do {
        rassert (card all = 1);
        sub \<leftarrow> first_of (ord all);
        entry \<leftarrow> mailboxes mgr sub;
        (case entry of
           None \<Rightarrow> None
         | Some mailbox \<Rightarrow> reply_to_mailbox sub mailbox
             \<lparr>msg_topic = topic_str topic, msg_data = data, msg_ack = None\<rparr> mgr)
      })"

subsection \<open>Receiving and acknowledging\<close>

definition delivery_complete :: "pid \<Rightarrow> Manager \<Rightarrow> bool" where
  "delivery_complete p mgr \<longleftrightarrow> delivery_result mgr p \<noteq> None"

definition after_delivery :: "pid \<Rightarrow> Manager \<Rightarrow> (unit IpcResult \<times> Manager) option" where
  "after_delivery p mgr = do {
     result \<leftarrow> delivery_result mgr p;
     let mgr = mgr\<lparr>delivery_result := (delivery_result mgr)(p := None)\<rparr>;
     Some (case result of Inr _ \<Rightarrow> ipc_success () | Inl e \<Rightarrow> ipc_error (Delivery e), mgr)
   }"

definition waiting_for :: "SubscriptionId \<Rightarrow> Manager \<Rightarrow> nat \<Rightarrow> (WaitFor \<times> Manager \<times> nat) option" where
  "waiting_for sub mgr ne = do {
     entry \<leftarrow> mailboxes mgr sub;
     mailbox \<leftarrow> entry;
     let (w, q, ne) = eq_wait_for (mb_queue mailbox) ne;
     Some (w, mgr\<lparr>mailboxes := (mailboxes mgr)(sub \<mapsto> Some (mailbox\<lparr>mb_queue := q\<rparr>))\<rparr>, ne)
   }"

definition receive :: "pid \<Rightarrow> SubscriptionId \<Rightarrow> Manager \<Rightarrow> nat
    \<Rightarrow> ((eventid + Message) IpcResult \<times> Manager \<times> nat) option" where
  "receive p sub mgr ne = (case verify_process_owns mgr p sub of
     Inl e \<Rightarrow> Some (ipc_error (Permission e), mgr, ne)
   | Inr _ \<Rightarrow> (case mailboxes mgr sub of
       None \<Rightarrow> Some (ipc_error Unsubscribed, mgr, ne)
     | Some entry \<Rightarrow> do {
         mailbox \<leftarrow> entry;
         let (r, mailbox, ne) = mb_pop_or_event mailbox ne;
         Some (ipc_success r, mgr\<lparr>mailboxes := (mailboxes mgr)(sub \<mapsto> Some mailbox)\<rparr>, ne)
       }))"

definition acknowledge :: "SubscriptionId \<Rightarrow> nat \<Rightarrow> bool \<Rightarrow> Manager
    \<Rightarrow> (unit IpcResult \<times> Manager) option" where
  "acknowledge subscription ack_id positive mgr = do {
     (event, p) \<leftarrow> waiting_for_delivery mgr ack_id;
     let mgr = mgr\<lparr>waiting_for_delivery := (waiting_for_delivery mgr)(ack_id := None),
                   delivery_result := (delivery_result mgr)
                     (p \<mapsto> (if positive then Inr () else Inl NegativeAcknowledgement))\<rparr>;
     Some (with_event (ipc_success ()) event, mgr)
   }"

subsection \<open>Process termination and kernel messages\<close>

definition drop_subscription :: "(nat set \<Rightarrow> nat list) \<Rightarrow> Manager \<times> Queues \<Rightarrow> SubscriptionId
    \<Rightarrow> (Manager \<times> Queues) option" where
  "drop_subscription ord s sub = (case s of (mgr, sched) \<Rightarrow> do {
     (r, mgr) \<leftarrow> force_unsubscribe sub mgr;
     let (v, sched) = consume_events ord r sched;
     (case v of Inl _ \<Rightarrow> None | Inr _ \<Rightarrow> Some (mgr, sched))
   })"

definition disconnect_pipe :: "(nat set \<Rightarrow> nat list) \<Rightarrow> pid \<Rightarrow> SubscriptionId \<Rightarrow> Manager \<times> Queues
    \<Rightarrow> Manager \<times> Queues" where
  "disconnect_pipe ord p sub s = (case s of (mgr, sched) \<Rightarrow>
     (case mailboxes mgr sub of
        Some (Some mailbox) \<Rightarrow>
          (if pipe_mode mailbox = ConnectedTo p then
             (let (ev, q) = eq_take_event (mb_queue mailbox);
                  mailbox = mailbox\<lparr>pipe_mode := Disconnected, mb_queue := q\<rparr>;
                  mgr = mgr\<lparr>mailboxes := (mailboxes mgr)(sub \<mapsto> Some mailbox)\<rparr>
              in (mgr, case ev of Some e \<Rightarrow> on_explicit_event ord e sched | None \<Rightarrow> sched))
           else (mgr, sched))
      | _ \<Rightarrow> (mgr, sched)))"

definition ipc_on_process_over :: "(nat set \<Rightarrow> nat list) \<Rightarrow> pid \<Rightarrow> Manager \<Rightarrow> Queues
    \<Rightarrow> (Manager \<times> Queues) option" where
  "ipc_on_process_over ord p mgr sched = do {
     (mgr, sched) \<leftarrow> (case process_subscriptions mgr p of
        Some subs \<Rightarrow> foldM (drop_subscription ord)
          (mgr\<lparr>process_subscriptions := (process_subscriptions mgr)(p := None)\<rparr>, sched) (ord subs)
      | None \<Rightarrow> Some (mgr, sched));
     Some (fold (disconnect_pipe ord p) (ord (dom (mailboxes mgr))) (mgr, sched))
   }"

definition kernel_publish :: "(nat set \<Rightarrow> nat list) \<Rightarrow> string \<Rightarrow> bytes option \<Rightarrow> Manager \<Rightarrow> Queues
    \<Rightarrow> (Manager \<times> Queues) option" where
  "kernel_publish ord topic encoded mgr sched = do {
     data \<leftarrow> encoded;
     t \<leftarrow> topic_new topic;
     (r, mgr) \<leftarrow> publish ord t data mgr;
     let (v, sched) = consume_events ord r sched;
     (case v of Inl _ \<Rightarrow> None | Inr _ \<Rightarrow> Some (mgr, sched))
   }"

subsection \<open>Registering services\<close>

definition register_service :: "TopicFilter \<Rightarrow> Service \<Rightarrow> Manager \<Rightarrow> Kenv \<Rightarrow> (Manager \<times> Kenv) option" where
  "register_service filt service mgr env = do {
     (r, mgr) \<leftarrow> kernel_subscribe mgr filt;
     (case r of
        Inl _ \<Rightarrow> None
      | Inr sub \<Rightarrow> Some (mgr, env\<lparr>ke_services := (ke_services env)(sub \<mapsto> service)\<rparr>))
   }"

definition register_exact :: "string \<Rightarrow> Service \<Rightarrow> Manager \<Rightarrow> Kenv \<Rightarrow> (Manager \<times> Kenv) option" where
  "register_exact filt service mgr env = (case filter_try_new filt True of
     Inl _ \<Rightarrow> None | Inr f \<Rightarrow> register_service f service mgr env)"

definition services_init :: "Manager \<Rightarrow> Kenv \<Rightarrow> (Manager \<times> Kenv) option" where
  "services_init mgr env = register_exact ''initrd/read'' InitrdRead mgr env"

end
