(* ===== verification/IpcSafety.thy ===== *)
theory IpcSafety
  imports IpcManager
begin

text \<open>
  The invariant of the IPC manager and that every operation of theory \<open>IpcManager\<close> keeps it.
  Under the invariant the internal \<open>unwrap\<close>, \<open>expect\<close> and \<open>assert!\<close> calls of the source
  cannot fire, except in the cases the lemmas name.
\<close>

subsection \<open>Invariant\<close>

definition acks :: "Mailbox \<Rightarrow> nat list" where
  "acks mb = List.map_filter msg_ack (eq_queue (mb_queue mb))"

definition mailbox_ok :: "Mailbox \<Rightarrow> bool" where
  "mailbox_ok mb \<longleftrightarrow> eq_inv (mb_queue mb) \<and> eq_limit (mb_queue mb) = MAILBOX_BUFFER_LIMIT
     \<and> distinct (acks mb)"

text \<open>Queued acknowledge ids are outstanding, and each is queued once.\<close>

definition boxes_inv :: "(SubscriptionId \<rightharpoonup> Mailbox option) \<Rightarrow> nat set \<Rightarrow> bool" where
  "boxes_inv M A \<longleftrightarrow>
     (\<forall>i mb. M i = Some (Some mb) \<longrightarrow> mailbox_ok mb \<and> set (acks mb) \<subseteq> A) \<and>
     (\<forall>i j mb mb'. i \<noteq> j \<longrightarrow> M i = Some (Some mb) \<longrightarrow> M j = Some (Some mb') \<longrightarrow>
        set (acks mb) \<inter> set (acks mb') = {})"

text \<open>Unreliable subscriptions belong to processes and are no pipes.\<close>

definition modes_inv :: "target set \<Rightarrow> (SubscriptionId \<rightharpoonup> Mailbox option) \<Rightarrow> bool" where
  "modes_inv T M \<longleftrightarrow> (\<forall>f i. (f, False, i) \<in> T \<longrightarrow>
     (\<exists>mb. M i = Some (Some mb) \<and> pipe_mode mb = PipeNone))"

definition owners_inv :: "(pid \<rightharpoonup> SubscriptionId set) \<Rightarrow> (SubscriptionId \<rightharpoonup> Mailbox option) \<Rightarrow> bool" where
  "owners_inv P M \<longleftrightarrow>
     (\<forall>p. finite (or_default (P p))) \<and>
     (\<forall>p. \<forall>i \<in> or_default (P p). \<exists>mb. M i = Some (Some mb)) \<and>
     (\<forall>p q i. i \<in> or_default (P p) \<longrightarrow> i \<in> or_default (P q) \<longrightarrow> p = q)"

definition mgr_inv :: "Manager \<Rightarrow> bool" where
  "mgr_inv mgr \<longleftrightarrow> sl_inv (subscriptions mgr)
     \<and> dom (mailboxes mgr) = tid ` set (targets (subscriptions mgr))
     \<and> boxes_inv (mailboxes mgr) (dom (waiting_for_delivery mgr))
     \<and> dom (waiting_for_delivery mgr) \<subseteq> {..<next_acknowledge_id mgr}
     \<and> modes_inv (set (targets (subscriptions mgr))) (mailboxes mgr)
     \<and> owners_inv (process_subscriptions mgr) (mailboxes mgr)"

lemmas mgr_inv_defs = mgr_inv_def boxes_inv_def modes_inv_def owners_inv_def

lemma or_default_upd:
  "or_default ((P(p \<mapsto> S)) q) = (if q = p then S else or_default (P q))"
  "or_default ((P(p := None)) q) = (if q = p then {} else or_default (P q))"
  "or_default (Some S) = S" "or_default None = {}"
  by (simp_all add: or_default_def)

lemma process_owns_iff: "process_owns mgr p sub \<longleftrightarrow> sub \<in> or_default (process_subscriptions mgr p)"
  by (auto simp: process_owns_def or_default_def split: option.splits)

lemma mgr_inv_new [simp]: "mgr_inv manager_new"
  by (simp add: mgr_inv_defs manager_new_def sl_new_def sl_inv_def exclusive_def or_default_upd)

subsection \<open>Mailboxes\<close>

lemma acks_push:
  assumes "push_reliable mb msg = Some (r, mb')"
  shows "acks mb' = acks mb @ (case r of Inl _ \<Rightarrow> [] | Inr _ \<Rightarrow> (case msg_ack msg of Some a \<Rightarrow> [a] | None \<Rightarrow> []))"
    and "pipe_mode mb' = pipe_mode mb" and "eq_limit (mb_queue mb') = eq_limit (mb_queue mb)"
    and "eq_inv (mb_queue mb) \<Longrightarrow> eq_inv (mb_queue mb')"
  using assms
  by (auto simp: push_reliable_def acks_def eq_push_def eq_inv_def map_filter_def Let_def
      split: option.splits if_splits)

lemma push_reliable_total: "pipe_mode mb \<noteq> NotConnected \<Longrightarrow> \<exists>r mb'. push_reliable mb msg = Some (r, mb')"
  by (auto simp: push_reliable_def Let_def split: prod.splits)

lemma acks_push_unreliable:
  assumes "push_unreliable mb msg = Some (r, mb')" and "msg_ack msg = None"
  shows "acks mb' = acks mb" and "pipe_mode mb' = pipe_mode mb"
    and "eq_limit (mb_queue mb') = eq_limit (mb_queue mb)"
    and "eq_inv (mb_queue mb) \<Longrightarrow> eq_inv (mb_queue mb')"
  using assms
  by (auto simp: push_unreliable_def acks_def eq_push_def eq_inv_def map_filter_def Let_def
      split: option.splits if_splits)

lemma push_unreliable_total: "pipe_mode mb = PipeNone \<Longrightarrow> \<exists>r mb'. push_unreliable mb msg = Some (r, mb')"
  by (auto simp: push_unreliable_def Let_def split: prod.splits)

lemma acks_pop:
  assumes "mb_pop_or_event mb ne = (r, mb', ne')"
  shows "acks mb = (case r of Inl _ \<Rightarrow> [] | Inr msg \<Rightarrow> (case msg_ack msg of Some a \<Rightarrow> [a] | None \<Rightarrow> [])) @ acks mb'"
    and "pipe_mode mb' = pipe_mode mb" and "eq_limit (mb_queue mb') = eq_limit (mb_queue mb)"
    and "eq_inv (mb_queue mb) \<Longrightarrow> eq_inv (mb_queue mb')"
  using assms
  by (auto simp: mb_pop_or_event_def acks_def eq_simps map_filter_def new_event_id_def
      split: prod.splits option.splits list.splits sum.splits)

lemma mailbox_ok_new [simp]: "mailbox_ok (mailbox_new pm)" "acks (mailbox_new pm) = []"
  "pipe_mode (mailbox_new pm) = pm"
  by (auto simp: mailbox_ok_def mailbox_new_def acks_def eq_new_def eq_inv_def map_filter_def)

subsection \<open>Updating one mailbox\<close>

lemma mgr_inv_box:
  assumes "mgr_inv mgr" and "mailboxes mgr i = Some (Some mb)"
  shows "mailbox_ok mb" and "set (acks mb) \<subseteq> dom (waiting_for_delivery mgr)"
  using assms by (auto simp: mgr_inv_def boxes_inv_def)

lemma boxes_inv_upd:
  assumes inv: "boxes_inv M A" and A: "A \<subseteq> A'" and ok: "mailbox_ok mb'" "set (acks mb') \<subseteq> A'"
    and dis: "\<And>j b. j \<noteq> i \<Longrightarrow> M j = Some (Some b) \<Longrightarrow> set (acks mb') \<inter> set (acks b) = {}"
  shows "boxes_inv (M(i \<mapsto> Some mb')) A'"
  unfolding boxes_inv_def
proof (intro conjI allI impI)
  fix j b assume "(M(i \<mapsto> Some mb')) j = Some (Some b)"
  then have "b = mb' \<or> M j = Some (Some b)" by (auto split: if_splits)
  then show "mailbox_ok b" "set (acks b) \<subseteq> A'"
    using inv A ok unfolding boxes_inv_def by blast+
next
  fix j k b b'
  assume "j \<noteq> k" "(M(i \<mapsto> Some mb')) j = Some (Some b)" "(M(i \<mapsto> Some mb')) k = Some (Some b')"
  then show "set (acks b) \<inter> set (acks b') = {}"
    using inv dis [of j b] dis [of k b'] unfolding boxes_inv_def
    by (cases "j = i"; cases "k = i") auto
qed

text \<open>The parts of the invariant that do not depend on the messages survive an update of a
  process mailbox that does not turn it into a pipe.\<close>

lemma mgr_inv_box_parts:
  assumes inv: "mgr_inv mgr" and box: "mailboxes mgr i = Some (Some mb)"
    and mode: "pipe_mode mb = PipeNone \<Longrightarrow> pipe_mode mb' = PipeNone"
  shows "dom ((mailboxes mgr)(i \<mapsto> Some mb')) = dom (mailboxes mgr)"
    and "modes_inv (set (targets (subscriptions mgr))) ((mailboxes mgr)(i \<mapsto> Some mb'))"
    and "owners_inv (process_subscriptions mgr) ((mailboxes mgr)(i \<mapsto> Some mb'))"
proof -
  show "dom ((mailboxes mgr)(i \<mapsto> Some mb')) = dom (mailboxes mgr)" using box by auto
  have "modes_inv (set (targets (subscriptions mgr))) (mailboxes mgr)"
    using inv by (simp add: mgr_inv_def)
  then show "modes_inv (set (targets (subscriptions mgr))) ((mailboxes mgr)(i \<mapsto> Some mb'))"
    using box mode unfolding modes_inv_def by fastforce
  have "owners_inv (process_subscriptions mgr) (mailboxes mgr)" using inv by (simp add: mgr_inv_def)
  then show "owners_inv (process_subscriptions mgr) ((mailboxes mgr)(i \<mapsto> Some mb'))"
    unfolding owners_inv_def by auto
qed

text \<open>Replacing a mailbox by one with no new acknowledge ids.\<close>

lemma mgr_inv_update_box:
  assumes inv: "mgr_inv mgr" and box: "mailboxes mgr i = Some (Some mb)"
    and ok: "mailbox_ok mb'" and sub: "set (acks mb') \<subseteq> set (acks mb)"
    and mode: "pipe_mode mb = PipeNone \<Longrightarrow> pipe_mode mb' = PipeNone"
  shows "mgr_inv (mgr\<lparr>mailboxes := (mailboxes mgr)(i \<mapsto> Some mb')\<rparr>)"
proof -
  have "boxes_inv ((mailboxes mgr)(i \<mapsto> Some mb')) (dom (waiting_for_delivery mgr))"
  proof (rule boxes_inv_upd)
    show "boxes_inv (mailboxes mgr) (dom (waiting_for_delivery mgr))"
      using inv by (simp add: mgr_inv_def)
    then show "set (acks mb') \<inter> set (acks b) = {}"
      if "j \<noteq> i" "mailboxes mgr j = Some (Some b)" for j b
      using that box sub unfolding boxes_inv_def by blast
    show "set (acks mb') \<subseteq> dom (waiting_for_delivery mgr)"
      using mgr_inv_box(2) [OF inv box] sub by blast
  qed (use ok in simp_all)
  with inv mgr_inv_box_parts [OF inv box mode] show ?thesis by (simp add: mgr_inv_def)
qed

text \<open>Appending a message with the next acknowledge id, and recording its sender.\<close>

lemma mgr_inv_push_ack:
  assumes inv: "mgr_inv mgr" and box: "mailboxes mgr i = Some (Some mb)"
    and q: "eq_inv (mb_queue mb')" "eq_limit (mb_queue mb') = MAILBOX_BUFFER_LIMIT"
    and acks: "acks mb' = acks mb @ [a]" and a: "a = next_acknowledge_id mgr"
    and mode: "pipe_mode mb = PipeNone \<Longrightarrow> pipe_mode mb' = PipeNone"
  shows "mgr_inv (mgr\<lparr>next_acknowledge_id := Suc a, mailboxes := (mailboxes mgr)(i \<mapsto> Some mb'),
           waiting_for_delivery := (waiting_for_delivery mgr)(a \<mapsto> x)\<rparr>)"
proof -
  let ?A = "dom (waiting_for_delivery mgr)"
  have inv': "boxes_inv (mailboxes mgr) ?A" and fresh: "a \<notin> ?A"
    using inv a by (auto simp: mgr_inv_def)
  have "boxes_inv ((mailboxes mgr)(i \<mapsto> Some mb')) (insert a ?A)"
  proof (rule boxes_inv_upd [OF inv'])
    show "mailbox_ok mb'"
      using q acks mgr_inv_box [OF inv box] fresh by (auto simp: mailbox_ok_def)
    show "set (acks mb') \<subseteq> insert a ?A" using acks mgr_inv_box(2) [OF inv box] by auto
    show "set (acks mb') \<inter> set (acks b) = {}" if "j \<noteq> i" "mailboxes mgr j = Some (Some b)" for j b
    proof -
      have "set (acks mb) \<inter> set (acks b) = {}"
        using inv' that box unfolding boxes_inv_def by blast
      moreover have "a \<notin> set (acks b)" using mgr_inv_box(2) [OF inv that(2)] fresh by blast
      ultimately show ?thesis using acks by auto
    qed
  qed auto
  moreover have "?A \<subseteq> {..<Suc a}" using inv a unfolding mgr_inv_def by (auto simp: less_Suc_eq)
  ultimately show ?thesis
    using inv mgr_inv_box_parts [OF inv box mode] by (simp add: mgr_inv_def)
qed

lemma mgr_inv_next_ack: "mgr_inv mgr \<Longrightarrow> mgr_inv (mgr\<lparr>next_acknowledge_id := Suc (next_acknowledge_id mgr)\<rparr>)"
  by (auto simp: mgr_inv_def)

lemma mgr_inv_results [simp]: "mgr_inv (mgr\<lparr>delivery_result := d\<rparr>) = mgr_inv mgr"
  by (simp add: mgr_inv_def)

subsection \<open>Subscribing\<close>

lemma sl_insert_cases:
  assumes "sl_inv sl" and "sl_insert sl f rel = Some (r, sl')"
  obtains (refused) "r = None" "sl' = sl"
  | (inserted) i where "r = Some i" "i \<notin> tid ` set (targets sl)"
      "set (targets sl') = insert (f, rel, i) (set (targets sl))" "sl_inv sl'"
proof (cases r)
  case None
  with assms refused show ?thesis by (auto simp: sl_insert_None_id)
next
  case (Some i)
  with assms show ?thesis
    using inserted sub_registry.ins_fresh sub_registry.ins_entries sub_registry.ins_ok by fastforce
qed

lemma mgr_inv_new_box:
  assumes inv: "mgr_inv mgr" and sl': "sl_inv sl'" and i: "i \<notin> tid ` set (targets (subscriptions mgr))"
    and T: "set (targets sl') = insert (f, rel, i) (set (targets (subscriptions mgr)))"
    and box: "\<And>mb. entry = Some mb \<Longrightarrow> mailbox_ok mb \<and> acks mb = []"
    and mode: "\<not> rel \<Longrightarrow> \<exists>mb. entry = Some mb \<and> pipe_mode mb = PipeNone"
    and own: "owners_inv P ((mailboxes mgr)(i \<mapsto> entry))"
  shows "mgr_inv (mgr\<lparr>subscriptions := sl', mailboxes := (mailboxes mgr)(i \<mapsto> entry),
           process_subscriptions := P\<rparr>)"
proof -
  let ?M = "(mailboxes mgr)(i \<mapsto> entry)"
  have dom: "dom (mailboxes mgr) = tid ` set (targets (subscriptions mgr))"
    and boxes: "boxes_inv (mailboxes mgr) (dom (waiting_for_delivery mgr))"
    and modes: "modes_inv (set (targets (subscriptions mgr))) (mailboxes mgr)"
    using inv by (auto simp: mgr_inv_def)
  have "dom ?M = tid ` set (targets sl')" using dom T by (auto simp: tid_def)
  moreover have "boxes_inv ?M (dom (waiting_for_delivery mgr))"
  proof (cases entry)
    case None
    then show ?thesis using boxes unfolding boxes_inv_def by auto
  next
    case (Some mb)
    then show ?thesis using box [OF Some] boxes_inv_upd [OF boxes order_refl] by simp
  qed
  moreover have "modes_inv (set (targets sl')) ?M"
    unfolding modes_inv_def
  proof (intro allI impI)
    fix g j assume "(g, False, j) \<in> set (targets sl')"
    then consider "(g, False, j) \<in> set (targets (subscriptions mgr))" "j \<noteq> i" | "j = i" "\<not> rel"
      using T i by (force simp: tid_def)
    then show "\<exists>mb. ?M j = Some (Some mb) \<and> pipe_mode mb = PipeNone"
    proof cases
      case 1
      then show ?thesis using modes unfolding modes_inv_def by simp
    qed (use mode in auto)
  qed
  ultimately show ?thesis using inv sl' own by (simp add: mgr_inv_def)
qed

lemma subscribe_inv:
  assumes inv: "mgr_inv mgr" and pipe: "pipe \<longrightarrow> reliable"
    and s: "subscribe mgr p filt reliable pipe = Some (r, mgr')"
  shows "mgr_inv mgr'"
proof -
  from s obtain x subs where ins: "sl_insert (subscriptions mgr) filt reliable = Some (x, subs)"
    by (auto simp: subscribe_def bind_eq_Some_conv)
  have sl: "sl_inv (subscriptions mgr)" using inv by (simp add: mgr_inv_def)
  from sl ins show ?thesis
  proof (cases rule: sl_insert_cases)
    case refused
    with s ins inv show ?thesis by (simp add: subscribe_def)
  next
    case (inserted i)
    let ?mb = "mailbox_new (if pipe then NotConnected else PipeNone)"
    let ?P = "(process_subscriptions mgr)(p \<mapsto> insert i (or_default (process_subscriptions mgr p)))"
    have own: "owners_inv (process_subscriptions mgr) (mailboxes mgr)"
      and dom: "dom (mailboxes mgr) = tid ` set (targets (subscriptions mgr))"
      using inv by (auto simp: mgr_inv_def)
    have fresh: "i \<notin> or_default (process_subscriptions mgr q)" for q
      using own inserted(2) dom unfolding owners_inv_def by blast
    have "owners_inv ?P ((mailboxes mgr)(i \<mapsto> Some ?mb))"
      using own fresh unfolding owners_inv_def or_default_upd by auto
    from mgr_inv_new_box [OF inv inserted(4,2,3) _ _ this] pipe
    have "mgr_inv (mgr\<lparr>subscriptions := subs, mailboxes := (mailboxes mgr)(i \<mapsto> Some ?mb),
        process_subscriptions := ?P\<rparr>)" by auto
    with s ins inserted(1) show ?thesis by (auto simp: subscribe_def)
  qed
qed

lemma kernel_subscribe_inv:
  assumes inv: "mgr_inv mgr" and s: "kernel_subscribe mgr filt = Some (r, mgr')"
  shows "mgr_inv mgr'"
proof -
  from s obtain x subs where ins: "sl_insert (subscriptions mgr) filt True = Some (x, subs)"
    by (auto simp: kernel_subscribe_def bind_eq_Some_conv)
  have sl: "sl_inv (subscriptions mgr)" using inv by (simp add: mgr_inv_def)
  from sl ins show ?thesis
  proof (cases rule: sl_insert_cases)
    case refused
    with s ins inv show ?thesis by (simp add: kernel_subscribe_def)
  next
    case (inserted i)
    have own: "owners_inv (process_subscriptions mgr) (mailboxes mgr)"
      and dom: "dom (mailboxes mgr) = tid ` set (targets (subscriptions mgr))"
      using inv by (auto simp: mgr_inv_def)
    have "i \<notin> or_default (process_subscriptions mgr q)" for q
      using own inserted(2) dom unfolding owners_inv_def by blast
    then have "owners_inv (process_subscriptions mgr) ((mailboxes mgr)(i \<mapsto> None))"
      using own unfolding owners_inv_def by auto
    from mgr_inv_new_box [OF inv inserted(4,2,3) _ _ this]
    have "mgr_inv (mgr\<lparr>subscriptions := subs, mailboxes := (mailboxes mgr)(i \<mapsto> None)\<rparr>)"
      by (auto simp: mgr_inv_def)
    with s ins inserted(1) show ?thesis by (auto simp: kernel_subscribe_def)
  qed
qed

subsection \<open>Unsubscribing\<close>

text \<open>Releasing queued messages succeeds when their acknowledge ids are outstanding and distinct:
  every sender gets the result \<open>NoSubscriber\<close> and its wake-up event.\<close>

lemma release_total:
  assumes "distinct (List.map_filter msg_ack msgs)" and "set (List.map_filter msg_ack msgs) \<subseteq> dom wfd"
  shows "\<exists>res. foldM release_msg (wfd, results, events) msgs =
     Some (wfd |` (- set (List.map_filter msg_ack msgs)), res,
           events \<union> {e. \<exists>a \<in> set (List.map_filter msg_ack msgs). \<exists>p. wfd a = Some (e, p)}) \<and>
     (\<forall>q. res q = (if \<exists>a \<in> set (List.map_filter msg_ack msgs). \<exists>e. wfd a = Some (e, q)
                   then Some (Inl NoSubscriber) else results q))"
  using assms
proof (induction msgs arbitrary: wfd results events)
  case Nil
  then show ?case by (simp add: map_filter_def)
next
  case (Cons msg msgs)
  show ?case
  proof (cases "msg_ack msg")
    case None
    then have "release_msg (wfd, results, events) msg = Some (wfd, results, events)"
      by (simp add: release_msg_def)
    with Cons None show ?thesis by (simp add: map_filter_simps)
  next
    case (Some a)
    let ?as = "List.map_filter msg_ack msgs"
    from Cons.prems Some obtain e p where a: "wfd a = Some (e, p)" "a \<notin> set ?as" "distinct ?as"
      "set ?as \<subseteq> dom (wfd(a := None))"
      by (auto simp: map_filter_simps)
    have other: "(wfd(a := None)) b = wfd b" if "b \<in> set ?as" for b using that a(2) by auto
    from Cons.IH [OF a(3,4), of "results(p \<mapsto> Inl NoSubscriber)" "insert e events"]
    obtain res where res: "foldM release_msg (wfd(a := None), results(p \<mapsto> Inl NoSubscriber), insert e events) msgs
        = Some ((wfd(a := None)) |` (- set ?as), res,
            insert e events \<union> {e'. \<exists>b \<in> set ?as. \<exists>q. (wfd(a := None)) b = Some (e', q)})"
      and q: "\<And>q. res q = (if \<exists>b \<in> set ?as. \<exists>e. (wfd(a := None)) b = Some (e, q)
                   then Some (Inl NoSubscriber) else (results(p \<mapsto> Inl NoSubscriber)) q)"
      by blast
    have r1: "(wfd(a := None)) |` (- set ?as) = wfd |` (- insert a (set ?as))"
      by (auto simp: restrict_map_def fun_eq_iff)
    have r2: "insert e events \<union> {e'. \<exists>b \<in> set ?as. \<exists>q. (wfd(a := None)) b = Some (e', q)}
        = events \<union> {e'. \<exists>b \<in> insert a (set ?as). \<exists>q. wfd b = Some (e', q)}"
      using a(1) other by auto
    have r3: "res q = (if \<exists>b \<in> insert a (set ?as). \<exists>e. wfd b = Some (e, q)
        then Some (Inl NoSubscriber) else results q)" for q
      using q [of q] other a(1) by auto
    have r4: "release_msg (wfd, results, events) msg =
        Some (wfd(a := None), results(p \<mapsto> Inl NoSubscriber), insert e events)"
      using Some a(1) by (simp add: release_msg_def)
    have r5: "set (List.map_filter msg_ack (msg # msgs)) = insert a (set ?as)"
      using Some by (simp add: map_filter_simps)
    show ?thesis
      unfolding r5 by (intro exI [of _ res] conjI allI r3) (simp only: foldM.simps r4 option.case res r1 r2)
  qed
qed

definition unowned :: "Manager \<Rightarrow> SubscriptionId \<Rightarrow> bool" where
  "unowned mgr i \<longleftrightarrow> (\<forall>p. i \<notin> or_default (process_subscriptions mgr p))"

text \<open>The senders with a message in a mailbox, and the events they wait for.\<close>

definition senders :: "Manager \<Rightarrow> Mailbox \<Rightarrow> (eventid \<times> pid) set" where
  "senders mgr mb = {s. \<exists>a \<in> set (acks mb). waiting_for_delivery mgr a = Some s}"

lemma force_unsubscribe_total:
  assumes inv: "mgr_inv mgr" and box: "mailboxes mgr sub = Some (Some mb)"
  shows "\<exists>res. force_unsubscribe sub mgr = Some (with_events (ipc_success ()) (fst ` senders mgr mb),
     mgr\<lparr>subscriptions := sl_remove (subscriptions mgr) sub, mailboxes := (mailboxes mgr)(sub := None),
         waiting_for_delivery := waiting_for_delivery mgr |` (- set (acks mb)),
         delivery_result := res\<rparr>) \<and>
     (\<forall>q. res q = (if q \<in> snd ` senders mgr mb then Some (Inl NoSubscriber) else delivery_result mgr q))"
proof -
  have "distinct (acks mb)" "set (acks mb) \<subseteq> dom (waiting_for_delivery mgr)"
    using mgr_inv_box [OF inv box] by (auto simp: mailbox_ok_def)
  from release_total [OF this [unfolded acks_def], of "delivery_result mgr" "{}"]
  obtain res where res: "foldM release_msg (waiting_for_delivery mgr, delivery_result mgr, {})
       (eq_queue (mb_queue mb)) = Some (waiting_for_delivery mgr |` (- set (acks mb)), res,
         {e. \<exists>a \<in> set (acks mb). \<exists>p. waiting_for_delivery mgr a = Some (e, p)})"
    and q: "\<And>q. res q = (if \<exists>a \<in> set (acks mb). \<exists>e. waiting_for_delivery mgr a = Some (e, q)
              then Some (Inl NoSubscriber) else delivery_result mgr q)"
    by (auto simp: acks_def)
  have "{e. \<exists>a \<in> set (acks mb). \<exists>p. waiting_for_delivery mgr a = Some (e, p)} = fst ` senders mgr mb"
    by (force simp: senders_def)
  moreover have "(\<exists>a \<in> set (acks mb). \<exists>e. waiting_for_delivery mgr a = Some (e, q))
      \<longleftrightarrow> q \<in> snd ` senders mgr mb" for q
    by (force simp: senders_def)
  ultimately show ?thesis
    using res q box by (intro exI [of _ res]) (simp add: force_unsubscribe_def eq_into_iter_def)
qed

lemma boxes_inv_remove:
  assumes "boxes_inv M A" and "M i = Some (Some mb)"
  shows "boxes_inv (M(i := None)) (A - set (acks mb))"
  unfolding boxes_inv_def
proof (intro conjI allI impI)
  fix j b assume "(M(i := None)) j = Some (Some b)"
  then have j: "j \<noteq> i" "M j = Some (Some b)" by (auto split: if_splits)
  with assms show "mailbox_ok b" unfolding boxes_inv_def by blast
  have "set (acks b) \<inter> set (acks mb) = {}" "set (acks b) \<subseteq> A"
    using assms j unfolding boxes_inv_def by blast+
  then show "set (acks b) \<subseteq> A - set (acks mb)" by blast
next
  fix j k b b' assume "j \<noteq> k" "(M(i := None)) j = Some (Some b)" "(M(i := None)) k = Some (Some b')"
  then have "j \<noteq> k" "M j = Some (Some b)" "M k = Some (Some b')" by (auto split: if_splits)
  then show "set (acks b) \<inter> set (acks b') = {}"
    using assms(1) unfolding boxes_inv_def by blast
qed

lemma force_unsubscribe_inv:
  assumes inv: "mgr_inv mgr" and box: "mailboxes mgr sub = Some (Some mb)" and un: "unowned mgr sub"
    and f: "force_unsubscribe sub mgr = Some (r, mgr')"
  shows "mgr_inv mgr'"
proof -
  let ?T = "set (targets (subscriptions mgr))" and ?M = "(mailboxes mgr)(sub := None)"
  let ?W = "waiting_for_delivery mgr |` (- set (acks mb))"
  obtain res where mgr': "mgr' = mgr\<lparr>subscriptions := sl_remove (subscriptions mgr) sub, mailboxes := ?M,
         waiting_for_delivery := ?W, delivery_result := res\<rparr>"
    using force_unsubscribe_total [OF inv box] f by auto
  have inv': "sl_inv (subscriptions mgr)" "dom (mailboxes mgr) = tid ` ?T"
      "boxes_inv (mailboxes mgr) (dom (waiting_for_delivery mgr))"
      "dom (waiting_for_delivery mgr) \<subseteq> {..<next_acknowledge_id mgr}"
      "modes_inv ?T (mailboxes mgr)" "owners_inv (process_subscriptions mgr) (mailboxes mgr)"
    using inv by (simp_all add: mgr_inv_def)
  have "boxes_inv ?M (dom ?W)"
    using boxes_inv_remove [OF inv'(3) box] by (simp add: dom_restrict Diff_eq)
  moreover have "dom ?M = tid ` {t \<in> ?T. tid t \<noteq> sub}" using inv'(2) by auto
  moreover have "modes_inv {t \<in> ?T. tid t \<noteq> sub} ?M"
    using inv'(5) unfolding modes_inv_def by (auto simp: tid_def)
  moreover have "owners_inv (process_subscriptions mgr) ?M"
    using inv'(6) un unfolding owners_inv_def unowned_def by auto
  moreover have "dom ?W \<subseteq> {..<next_acknowledge_id mgr}" using inv'(4) by auto
  ultimately show ?thesis using sl_remove_inv [OF inv'(1), of sub]
    by (simp add: mgr' mgr_inv_def set_sl_remove)
qed

lemma unsubscribe_total:
  assumes inv: "mgr_inv mgr"
  shows "\<exists>r mgr'. unsubscribe p sub mgr = Some (r, mgr') \<and> mgr_inv mgr' \<and>
    (if process_owns mgr p sub then
       ipc_value r = Inr () \<and> (\<exists>mb. mailboxes mgr sub = Some (Some mb) \<and>
         ipc_events r = fst ` senders mgr mb \<and>
         mailboxes mgr' = (mailboxes mgr)(sub := None) \<and>
         \<not> process_owns mgr' p sub \<and>
         (\<forall>q \<in> snd ` senders mgr mb. delivery_result mgr' q = Some (Inl NoSubscriber)))
     else r = ipc_error (Permission NotOwner) \<and> mgr' = mgr)"
proof (cases "process_owns mgr p sub")
  case False
  then show ?thesis using inv by (simp add: unsubscribe_def verify_process_owns_def)
next
  case True
  then obtain S where S: "process_subscriptions mgr p = Some S" "sub \<in> S"
    by (auto simp: process_owns_def split: option.splits)
  let ?m = "mgr\<lparr>process_subscriptions := (process_subscriptions mgr)(p \<mapsto> S - {sub})\<rparr>"
  have own: "owners_inv (process_subscriptions mgr) (mailboxes mgr)"
    using inv by (simp add: mgr_inv_def)
  have sub: "sub \<in> or_default (process_subscriptions mgr p)" using S by (simp add: or_default_upd)
  then obtain mb where mb: "mailboxes mgr sub = Some (Some mb)"
    using own unfolding owners_inv_def by blast
  have "S = or_default (process_subscriptions mgr p)" using S by (simp add: or_default_upd)
  then have "owners_inv ((process_subscriptions mgr)(p \<mapsto> S - {sub})) (mailboxes mgr)"
    using own unfolding owners_inv_def or_default_upd by (auto split: if_splits)
  then have inv1: "mgr_inv ?m" using inv by (simp add: mgr_inv_def)
  have un: "unowned ?m sub"
    using own sub unfolding owners_inv_def unowned_def by (auto simp: or_default_upd)
  have mb': "mailboxes ?m sub = Some (Some mb)" using mb by simp
  have sen: "senders ?m mb = senders mgr mb" by (simp add: senders_def)
  from force_unsubscribe_total [OF inv1 mb'] obtain res mgr' where
    f: "force_unsubscribe sub ?m = Some (with_events (ipc_success ()) (fst ` senders mgr mb), mgr')"
    and mgr': "mgr' = ?m\<lparr>subscriptions := sl_remove (subscriptions mgr) sub,
        mailboxes := (mailboxes mgr)(sub := None),
        waiting_for_delivery := waiting_for_delivery mgr |` (- set (acks mb)), delivery_result := res\<rparr>"
    and res: "\<forall>q. res q = (if q \<in> snd ` senders mgr mb then Some (Inl NoSubscriber) else delivery_result mgr q)"
    by (auto simp: sen)
  have "unsubscribe p sub mgr = Some (with_events (ipc_success ()) (fst ` senders mgr mb), mgr')"
    using f S True by (simp add: unsubscribe_def verify_process_owns_def)
  moreover have "mgr_inv mgr'" using force_unsubscribe_inv [OF inv1 mb' un f] .
  moreover have "\<not> process_owns mgr' p sub" using un by (simp add: mgr' process_owns_iff or_default_upd)
  ultimately show ?thesis using True mb res by (auto simp: mgr')
qed

end
