(* ===== verification/IpcDelivery.thy ===== *)
theory IpcDelivery
  imports IpcSafety
begin

text \<open>
  Sending, receiving, acknowledging and process termination under the manager invariant, the
  reachable states of the manager, and the claims about the IPC system.
\<close>

subsection \<open>Looking up the receiver\<close>

lemma lookup_box:
  assumes "mgr_inv mgr" and "i \<in> find_all (subscriptions mgr) t rel"
  shows "\<exists>entry. mailboxes mgr i = Some entry"
proof -
  have "i \<in> tid ` set (targets (subscriptions mgr))"
    using assms(2) sub_registry.lookup_ids by blast
  then show ?thesis using assms(1) by (auto simp: mgr_inv_def)
qed

lemma lookup_unreliable_box:
  assumes "mgr_inv mgr" and "i \<in> find_all (subscriptions mgr) t False"
  obtains mb where "mailboxes mgr i = Some (Some mb)" and "pipe_mode mb = PipeNone"
  using assms unfolding mgr_inv_def modes_inv_def find_all_iff by blast

lemma lookup_reliable:
  assumes "mgr_inv mgr"
  shows "find_all (subscriptions mgr) t True = {} \<or> (\<exists>i. find_all (subscriptions mgr) t True = {i})"
  using assms sub_registry.lookup_reliable_single by (simp add: mgr_inv_def)

lemma first_of_single: "iter_order ord \<Longrightarrow> first_of (ord {i}) = Some i"
proof -
  assume "iter_order ord"
  then have "set (ord {i}) = {i}" "distinct (ord {i})" by (auto simp: iter_orderD)
  then have "ord {i} = [i]" by (cases "ord {i}") (auto, metis list.set_intros(1) neq_Nil_conv singletonD subset_iff)
  then show ?thesis by (simp add: first_of_def)
qed

subsection \<open>Publishing\<close>

definition push_msg :: "Message \<Rightarrow> Mailbox \<Rightarrow> Mailbox" where
  "push_msg msg mb = mb\<lparr>mb_queue := snd (eq_push (mb_queue mb) msg)\<rparr>"

definition push_boxes :: "SubscriptionId set \<Rightarrow> Message \<Rightarrow> (SubscriptionId \<rightharpoonup> Mailbox option)
    \<Rightarrow> (SubscriptionId \<rightharpoonup> Mailbox option)" where
  "push_boxes S msg M = (\<lambda>i. if i \<in> S then map_option (map_option (push_msg msg)) (M i) else M i)"

text \<open>The events of the processes that wait for a message in one of the mailboxes.\<close>

definition box_events :: "SubscriptionId set \<Rightarrow> (SubscriptionId \<rightharpoonup> Mailbox option) \<Rightarrow> eventid set" where
  "box_events S M = {e. \<exists>i \<in> S. \<exists>mb. M i = Some (Some mb) \<and> eq_event (mb_queue mb) = Some e}"

lemma push_unreliable_eq:
  assumes "mailbox_ok mb" and "pipe_mode mb = PipeNone"
  shows "push_unreliable mb msg = Some (eq_event (mb_queue mb), push_msg msg mb)"
  using assms
  by (auto simp: push_unreliable_def push_msg_def eq_push_def mailbox_ok_def eq_inv_def
      MAILBOX_BUFFER_LIMIT_def)

lemma publish_loop:
  fixes t :: Topic and data :: bytes
  assumes "distinct subs" and "set subs \<subseteq> find_all (subscriptions mgr) t False" and "mgr_inv mgr"
  defines "msg \<equiv> \<lparr>msg_topic = topic_str t, msg_data = data, msg_ack = None\<rparr>"
  shows "foldM (publish_one t data) (mgr, E) subs =
           Some (mgr\<lparr>mailboxes := push_boxes (set subs) msg (mailboxes mgr)\<rparr>,
                 E \<union> box_events (set subs) (mailboxes mgr)) \<and>
         mgr_inv (mgr\<lparr>mailboxes := push_boxes (set subs) msg (mailboxes mgr)\<rparr>)"
  using assms(1-3)
proof (induction subs arbitrary: mgr E)
  case Nil
  then show ?case by (simp add: push_boxes_def box_events_def)
next
  case (Cons i subs)
  have i: "i \<in> find_all (subscriptions mgr) t False" using Cons.prems(2) by simp
  obtain mb where mb: "mailboxes mgr i = Some (Some mb)" "pipe_mode mb = PipeNone"
    using lookup_unreliable_box [OF Cons.prems(3) i] .
  note ok = mgr_inv_box(1) [OF Cons.prems(3) mb(1)]
  note push = push_unreliable_eq [OF ok mb(2), of msg]
  let ?m = "mgr\<lparr>mailboxes := (mailboxes mgr)(i \<mapsto> Some (push_msg msg mb))\<rparr>"
  have step: "publish_one t data (mgr, E) i = Some (?m, E \<union> set_option (eq_event (mb_queue mb)))"
    using mb push by (simp add: publish_one_def msg_def)
  have inv: "mgr_inv ?m"
    using acks_push_unreliable [OF push] ok mb
    by (intro mgr_inv_update_box [OF Cons.prems(3) mb(1)]) (auto simp: mailbox_ok_def msg_def)
  have ni: "i \<notin> set subs" using Cons.prems(1) by simp
  have M: "push_boxes (set subs) msg (mailboxes ?m) = push_boxes (set (i # subs)) msg (mailboxes mgr)"
    using mb ni by (auto simp: push_boxes_def)
  have E: "box_events (set (i # subs)) (mailboxes mgr) =
      set_option (eq_event (mb_queue mb)) \<union> box_events (set subs) (mailboxes ?m)"
    using mb ni by (auto simp: box_events_def)
  have "foldM (publish_one t data) (?m, E \<union> set_option (eq_event (mb_queue mb))) subs =
      Some (?m\<lparr>mailboxes := push_boxes (set subs) msg (mailboxes ?m)\<rparr>,
        E \<union> set_option (eq_event (mb_queue mb)) \<union> box_events (set subs) (mailboxes ?m)) \<and>
      mgr_inv (?m\<lparr>mailboxes := push_boxes (set subs) msg (mailboxes ?m)\<rparr>)"
    using Cons.prems inv by (intro Cons.IH) auto
  with step show ?case unfolding M E by (simp add: Un_assoc)
qed

lemma publish_eq:
  fixes t :: Topic and data :: bytes
  assumes "iter_order ord" and "mgr_inv mgr"
  defines "S \<equiv> find_all (subscriptions mgr) t False"
    and "msg \<equiv> \<lparr>msg_topic = topic_str t, msg_data = data, msg_ack = None\<rparr>"
  shows "publish ord t data mgr = Some (with_events (ipc_success ()) (box_events S (mailboxes mgr)),
           mgr\<lparr>mailboxes := push_boxes S msg (mailboxes mgr)\<rparr>)"
    and "mgr_inv (mgr\<lparr>mailboxes := push_boxes S msg (mailboxes mgr)\<rparr>)"
proof -
  have "set (ord S) = S" "distinct (ord S)" using assms(1) by (auto simp: iter_orderD S_def)
  with publish_loop [of "ord S" mgr t data "{}"] assms(2)
  show "publish ord t data mgr = Some (with_events (ipc_success ()) (box_events S (mailboxes mgr)),
           mgr\<lparr>mailboxes := push_boxes S msg (mailboxes mgr)\<rparr>)"
    and "mgr_inv (mgr\<lparr>mailboxes := push_boxes S msg (mailboxes mgr)\<rparr>)"
    by (auto simp: publish_def S_def msg_def)
qed

subsection \<open>Reliable delivery\<close>

lemma deliver_to_mailbox_inv:
  assumes inv: "mgr_inv mgr" and box: "mailboxes mgr sub = Some (Some mb)"
    and ack: "msg_ack msg = Some a" "a = next_acknowledge_id mgr"
    and d: "deliver_to_mailbox p sub mb msg a (mgr\<lparr>next_acknowledge_id := Suc a\<rparr>) ne = Some (r, mgr', ne')"
  shows "mgr_inv mgr'"
proof (cases "pipe_gate p (pipe_mode mb)")
  case None
  with d inv ack mgr_inv_next_ack [OF inv] show ?thesis by (simp add: deliver_to_mailbox_def)
next
  case (Some pm)
  let ?mb = "mb\<lparr>pipe_mode := pm\<rparr>"
  from d Some obtain res mb' where push: "push_reliable ?mb msg = Some (res, mb')"
    by (auto simp: deliver_to_mailbox_def bind_eq_Some_conv)
  have acks: "acks ?mb = acks mb" by (simp add: acks_def)
  have mode: "pipe_mode mb = PipeNone \<Longrightarrow> pipe_mode mb' = PipeNone"
    using Some acks_push(2) [OF push] by (auto simp: pipe_gate_def)
  note ok = mgr_inv_box(1) [OF inv box]
  have q: "eq_inv (mb_queue mb')" "eq_limit (mb_queue mb') = MAILBOX_BUFFER_LIMIT"
    using acks_push(3,4) [OF push] ok by (auto simp: mailbox_ok_def)
  show ?thesis
  proof (cases res)
    case (Inl e)
    have "acks mb' = acks mb" using acks_push(1) [OF push] Inl acks by simp
    then have "mgr_inv (mgr\<lparr>mailboxes := (mailboxes mgr)(sub \<mapsto> Some mb')\<rparr>)"
      using q ok mode by (intro mgr_inv_update_box [OF inv box]) (auto simp: mailbox_ok_def)
    from mgr_inv_next_ack [OF this]
    have "mgr_inv (mgr\<lparr>next_acknowledge_id := Suc a, mailboxes := (mailboxes mgr)(sub \<mapsto> Some mb')\<rparr>)"
      using ack(2) by (simp add: mgr_inv_def)
    then show ?thesis using d Some push Inl by (auto simp: deliver_to_mailbox_def)
  next
    case (Inr tr)
    have "acks mb' = acks mb @ [a]" using acks_push(1) [OF push] Inr ack acks by simp
    from mgr_inv_push_ack [OF inv box q this ack(2) mode] d Some push Inr
    show ?thesis by (auto simp: deliver_to_mailbox_def Let_def split: prod.splits)
  qed
qed

text \<open>What a delivery to a process does.\<close>

lemma deliver_to_mailbox_eq:
  assumes "pipe_gate p (pipe_mode mb) = Some pm"
  shows "deliver_to_mailbox p sub mb msg a mgr ne =
     (if eq_limit (mb_queue mb) \<le> length (eq_queue (mb_queue mb))
      then Some (ipc_error (Delivery QueueFull),
             mgr\<lparr>mailboxes := (mailboxes mgr)(sub \<mapsto> Some (mb\<lparr>pipe_mode := pm\<rparr>))\<rparr>, ne)
      else Some (with_events (ipc_success (DeliverProcess ne)) (set_option (eq_event (mb_queue mb))),
             mgr\<lparr>mailboxes := (mailboxes mgr)(sub \<mapsto> Some (push_msg msg (mb\<lparr>pipe_mode := pm\<rparr>))),
                 waiting_for_delivery := (waiting_for_delivery mgr)(a \<mapsto> (ne, p))\<rparr>,
             (ne + 1) mod 2 ^ 64))"
proof -
  have "pm \<noteq> NotConnected" using assms by (auto simp: pipe_gate_def split: PipeMode.splits if_splits)
  then show ?thesis
    using assms
    by (simp add: deliver_to_mailbox_def push_reliable_def eq_push_def push_msg_def new_event_id_def Let_def)
qed

lemma kernel_reply_to_mailbox_inv:
  assumes inv: "mgr_inv mgr" and box: "mailboxes mgr sub = Some (Some mb)"
    and d: "kernel_reply_to_mailbox sub mb t enc mgr = Some (r, mgr')"
  shows "mgr_inv mgr'"
proof -
  from d obtain data res mb' where mode: "pipe_mode mb = PipeNone" and enc: "enc = Some data"
    and push: "push_reliable mb \<lparr>msg_topic = topic_str t, msg_data = data, msg_ack = None\<rparr> = Some (res, mb')"
    by (auto simp: kernel_reply_to_mailbox_def bind_eq_Some_conv split: if_splits)
  have mgr': "mgr' = mgr\<lparr>mailboxes := (mailboxes mgr)(sub \<mapsto> Some mb')\<rparr>"
    using d mode enc push
    by (cases res) (auto simp: kernel_reply_to_mailbox_def split: if_splits)
  show ?thesis unfolding mgr'
    using acks_push [OF push] mgr_inv_box(1) [OF inv box] mode
    by (intro mgr_inv_update_box [OF inv box]) (auto simp: mailbox_ok_def split: sum.splits)
qed

lemma kernel_deliver_reply_inv:
  assumes inv: "mgr_inv mgr" and k: "kernel_deliver_reply ord t enc mgr = Some (r, mgr')"
  shows "mgr_inv mgr'"
proof (cases "card (find_all (subscriptions mgr) t True) = 0")
  case True
  with k inv show ?thesis by (simp add: kernel_deliver_reply_def)
next
  case False
  let ?m = "mgr\<lparr>next_acknowledge_id := Suc (next_acknowledge_id mgr)\<rparr>"
  from k False obtain sub mb where "mailboxes ?m sub = Some (Some mb)"
    and "kernel_reply_to_mailbox sub mb t enc ?m = Some (r, mgr')"
    by (auto simp: kernel_deliver_reply_def Let_def bind_eq_Some_conv checked_u64_eq_Some
        split: if_splits)
  with mgr_inv_next_ack [OF inv] show ?thesis by (rule kernel_reply_to_mailbox_inv)
qed

lemma case_service [simp]: "(case s of InitrdRead \<Rightarrow> x) = x"
  by (cases s) simp

lemma incoming_inv:
  assumes "mgr_inv mgr" and "incoming ord env mgr sub msg = Some (r, mgr')"
  shows "mgr_inv mgr'"
  using assms kernel_deliver_reply_inv [OF assms(1)]
  by (auto simp: incoming_def service_initrd_read_def bind_eq_Some_conv
      split: option.splits)

lemma deliver_inv:
  assumes inv: "mgr_inv mgr" and d: "deliver ord env p t data mgr ne = Some (r, mgr', ne')"
  shows "mgr_inv mgr'"
proof (cases "card (find_all (subscriptions mgr) t True) = 0")
  case True
  with d inv show ?thesis by (simp add: deliver_def)
next
  case False
  let ?a = "next_acknowledge_id mgr"
  let ?m = "mgr\<lparr>next_acknowledge_id := Suc ?a\<rparr>"
  let ?msg = "\<lparr>msg_topic = topic_str t, msg_data = data, msg_ack = Some ?a\<rparr>"
  from d False obtain sub entry where entry: "mailboxes mgr sub = Some entry"
    and rest: "(case entry of Some mailbox \<Rightarrow> deliver_to_mailbox p sub mailbox ?msg ?a ?m ne
         | None \<Rightarrow> do { (r, mgr) \<leftarrow> incoming ord env ?m sub ?msg;
                       Some (ipc_map (\<lambda>_. DeliverKernel) r, mgr, ne) }) = Some (r, mgr', ne')"
    by (auto simp: deliver_def Let_def bind_eq_Some_conv checked_u64_eq_Some split: if_splits)
  show ?thesis
  proof (cases entry)
    case None
    with rest obtain r0 where "incoming ord env ?m sub ?msg = Some (r0, mgr')"
      by (auto simp: bind_eq_Some_conv)
    with mgr_inv_next_ack [OF inv] show ?thesis by (rule incoming_inv)
  next
    case (Some mb)
    with entry rest show ?thesis by (intro deliver_to_mailbox_inv [OF inv _ _ refl]) auto
  qed
qed

lemma reply_to_mailbox_inv:
  assumes inv: "mgr_inv mgr" and box: "mailboxes mgr sub = Some (Some mb)" and ack: "msg_ack msg = None"
    and d: "reply_to_mailbox sub mb msg mgr = Some (r, mgr')"
  shows "mgr_inv mgr'"
proof -
  from d obtain res mb' where mode: "pipe_mode mb = PipeNone"
    and push: "push_reliable mb msg = Some (res, mb')"
    by (auto simp: reply_to_mailbox_def bind_eq_Some_conv split: if_splits)
  have mgr': "mgr' = mgr\<lparr>mailboxes := (mailboxes mgr)(sub \<mapsto> Some mb')\<rparr>"
    using d mode push by (cases res) (auto simp: reply_to_mailbox_def)
  show ?thesis unfolding mgr'
    using acks_push [OF push] mgr_inv_box(1) [OF inv box] mode ack
    by (intro mgr_inv_update_box [OF inv box]) (auto simp: mailbox_ok_def split: sum.splits)
qed

lemma deliver_reply_inv:
  assumes inv: "mgr_inv mgr" and d: "deliver_reply ord t data mgr = Some (r, mgr')"
  shows "mgr_inv mgr'"
proof (cases "card (find_all (subscriptions mgr) t True) = 0")
  case True
  with d inv show ?thesis by (simp add: deliver_reply_def)
next
  case False
  with d obtain sub mb where "mailboxes mgr sub = Some (Some mb)" and "reply_to_mailbox sub mb
      \<lparr>msg_topic = topic_str t, msg_data = data, msg_ack = None\<rparr> mgr = Some (r, mgr')"
    by (auto simp: deliver_reply_def Let_def bind_eq_Some_conv split: if_splits option.splits)
  with inv show ?thesis by (intro reply_to_mailbox_inv [OF inv]) auto
qed

subsection \<open>Receiving and acknowledging\<close>

text \<open>An acknowledge id whose message has been received and not acknowledged yet.\<close>

definition outstanding :: "Manager \<Rightarrow> nat \<Rightarrow> bool" where
  "outstanding mgr a \<longleftrightarrow> a \<in> dom (waiting_for_delivery mgr) \<and>
     (\<forall>i mb. mailboxes mgr i = Some (Some mb) \<longrightarrow> a \<notin> set (acks mb))"

lemma receive_total:
  assumes inv: "mgr_inv mgr"
  shows "\<exists>r mgr' ne'. receive p sub mgr ne = Some (r, mgr', ne') \<and> mgr_inv mgr' \<and>
    waiting_for_delivery mgr' = waiting_for_delivery mgr \<and>
    (if process_owns mgr p sub then
       (\<exists>mb. mailboxes mgr sub = Some (Some mb) \<and>
         (case eq_queue (mb_queue mb) of
            msg # rest \<Rightarrow> ipc_value r = Inr (Inr msg) \<and>
              mailboxes mgr' = (mailboxes mgr)(sub \<mapsto> Some (mb\<lparr>mb_queue := mb_queue mb\<lparr>eq_queue := rest\<rparr>\<rparr>)) \<and>
              (\<forall>a. msg_ack msg = Some a \<longrightarrow> outstanding mgr' a)
          | [] \<Rightarrow> \<exists>e mb'. ipc_value r = Inr (Inl e) \<and> mailboxes mgr' sub = Some (Some mb') \<and>
              eq_event (mb_queue mb') = Some e))
     else r = ipc_error (Permission NotOwner) \<and> mgr' = mgr)"
proof (cases "process_owns mgr p sub")
  case False
  then show ?thesis using inv by (simp add: receive_def verify_process_owns_def)
next
  case True
  then obtain mb where box: "mailboxes mgr sub = Some (Some mb)"
    using inv unfolding mgr_inv_def owners_inv_def process_owns_iff by blast
  obtain r mb' ne' where pop: "mb_pop_or_event mb ne = (r, mb', ne')" by (metis prod_cases3)
  let ?m = "mgr\<lparr>mailboxes := (mailboxes mgr)(sub \<mapsto> Some mb')\<rparr>"
  have rec: "receive p sub mgr ne = Some (ipc_success r, ?m, ne')"
    using True box pop by (simp add: receive_def verify_process_owns_def)
  note ok = mgr_inv_box [OF inv box]
  have inv': "mgr_inv ?m"
    using acks_pop [OF pop] ok
    by (intro mgr_inv_update_box [OF inv box]) (auto simp: mailbox_ok_def)
  have out: "outstanding ?m a" if "r = Inr msg" "msg_ack msg = Some a" for msg a
  proof -
    have acks: "acks mb = a # acks mb'" using acks_pop(1) [OF pop] that by simp
    then have "a \<notin> set (acks mb')" using ok(1) by (auto simp: mailbox_ok_def)
    moreover have "a \<notin> set (acks b)" if "j \<noteq> sub" "mailboxes mgr j = Some (Some b)" for j b
    proof -
      have "set (acks b) \<inter> set (acks mb) = {}"
        using inv that box unfolding mgr_inv_def boxes_inv_def by blast
      then show ?thesis using acks by auto
    qed
    moreover have "a \<in> dom (waiting_for_delivery mgr)" using ok(2) acks by auto
    ultimately show ?thesis unfolding outstanding_def by (auto split: if_splits)
  qed
  show ?thesis
  proof (cases "eq_queue (mb_queue mb)")
    case Nil
    then obtain e where "r = Inl e" "eq_event (mb_queue mb') = Some e"
      using pop by (auto simp: mb_pop_or_event_def eq_simps new_event_id_def split: option.splits prod.splits)
    with Nil rec inv' True box show ?thesis by simp
  next
    case (Cons msg rest)
    then have "r = Inr msg" "mb' = mb\<lparr>mb_queue := mb_queue mb\<lparr>eq_queue := rest\<rparr>\<rparr>"
      using pop by (auto simp: mb_pop_or_event_def eq_simps)
    with Cons rec inv' True box out show ?thesis by simp
  qed
qed

lemma acknowledge_iff: "(\<exists>x. acknowledge s a pos mgr = Some x) \<longleftrightarrow> a \<in> dom (waiting_for_delivery mgr)"
  by (cases "waiting_for_delivery mgr a") (auto simp: acknowledge_def)

lemma acknowledge_eq:
  assumes "waiting_for_delivery mgr a = Some (e, p)"
  shows "acknowledge s a pos mgr = Some (with_event (ipc_success ()) e,
    mgr\<lparr>waiting_for_delivery := (waiting_for_delivery mgr)(a := None),
        delivery_result := (delivery_result mgr)(p \<mapsto> (if pos then Inr () else Inl NegativeAcknowledgement))\<rparr>)"
  using assms by (simp add: acknowledge_def)

lemma acknowledge_inv:
  assumes inv: "mgr_inv mgr" and out: "outstanding mgr a" and ack: "acknowledge s a pos mgr = Some (r, mgr')"
  shows "mgr_inv mgr'"
proof -
  obtain e p where w: "waiting_for_delivery mgr a = Some (e, p)"
    using out by (auto simp: outstanding_def)
  have "boxes_inv (mailboxes mgr) (dom (waiting_for_delivery mgr) - {a})"
    using inv out unfolding mgr_inv_def boxes_inv_def outstanding_def by blast
  then have "mgr_inv (mgr\<lparr>waiting_for_delivery := (waiting_for_delivery mgr)(a := None)\<rparr>)"
    using inv by (auto simp: mgr_inv_def)
  then show ?thesis using ack acknowledge_eq [OF w, of s pos] by auto
qed

lemma waiting_for_inv:
  assumes inv: "mgr_inv mgr" and w: "waiting_for sub mgr ne = Some (x, mgr', ne')"
  shows "mgr_inv mgr'"
proof -
  from w obtain mb where box: "mailboxes mgr sub = Some (Some mb)"
    by (auto simp: waiting_for_def bind_eq_Some_conv)
  obtain x1 q n1 where q1: "eq_wait_for (mb_queue mb) ne = (x1, q, n1)" by (metis prod_cases3)
  with w box have q: "eq_wait_for (mb_queue mb) ne = (x, q, ne')"
    and mgr': "mgr' = mgr\<lparr>mailboxes := (mailboxes mgr)(sub \<mapsto> Some (mb\<lparr>mb_queue := q\<rparr>))\<rparr>"
    by (auto simp: waiting_for_def)
  have "eq_queue q = eq_queue (mb_queue mb)" using eq_wait_for_queue [of "mb_queue mb" ne] q by simp
  moreover have "eq_limit q = eq_limit (mb_queue mb)"
    using q by (auto simp: eq_simps new_event_id_def split: if_splits option.splits prod.splits)
  moreover have "eq_inv (mb_queue mb) \<Longrightarrow> eq_inv q"
    using eq_wait_for_inv [of "mb_queue mb" ne] q by simp
  ultimately show ?thesis unfolding mgr'
    using mgr_inv_box(1) [OF inv box]
    by (intro mgr_inv_update_box [OF inv box]) (auto simp: mailbox_ok_def acks_def)
qed

lemma waiting_for_iff:
  "(\<exists>x. waiting_for sub mgr ne = Some x) \<longleftrightarrow> (\<exists>mb. mailboxes mgr sub = Some (Some mb))"
  unfolding waiting_for_def
  by (cases "mailboxes mgr sub"; cases "the (mailboxes mgr sub)") (simp_all add: split_def Let_def)

lemma after_delivery_iff: "(\<exists>x. after_delivery p mgr = Some x) \<longleftrightarrow> delivery_complete p mgr"
  by (cases "delivery_result mgr p") (simp_all add: after_delivery_def delivery_complete_def)

lemma after_delivery_inv: "mgr_inv mgr \<Longrightarrow> after_delivery p mgr = Some (r, mgr') \<Longrightarrow> mgr_inv mgr'"
  by (auto simp: after_delivery_def bind_eq_Some_conv)

subsection \<open>Process termination\<close>

lemma drop_subscription_step:
  assumes "iter_order ord" and "mgr_inv mgr" and "queues_inv qs"
    and "mailboxes mgr i = Some (Some mb)" and "unowned mgr i"
  shows "\<exists>mgr' qs'. drop_subscription ord (mgr, qs) i = Some (mgr', qs') \<and> mgr_inv mgr' \<and>
    queues_inv qs' \<and> queued qs' = queued qs \<and> set (running qs) \<subseteq> set (running qs') \<and>
    mailboxes mgr' = (mailboxes mgr)(i := None) \<and> process_subscriptions mgr' = process_subscriptions mgr"
proof -
  obtain r mgr' where f: "force_unsubscribe i mgr = Some (r, mgr')" "ipc_value r = Inr ()"
      "mailboxes mgr' = (mailboxes mgr)(i := None)" "process_subscriptions mgr' = process_subscriptions mgr"
    using force_unsubscribe_total [OF assms(2,4)] by auto
  obtain v qs' where c: "consume_events ord r qs = (v, qs')" by fastforce
  then have "v = Inr ()" using f(2) by (simp add: consume_events_def)
  with f c have "drop_subscription ord (mgr, qs) i = Some (mgr', qs')" by (simp add: drop_subscription_def)
  with f consume_events_inv [OF assms(1,3) c] force_unsubscribe_inv [OF assms(2,4,5) f(1)]
  show ?thesis by blast
qed

lemma drop_subscriptions_total:
  assumes "iter_order ord" and "mgr_inv mgr" and "queues_inv qs" and "distinct subs"
    and "\<And>i. i \<in> set subs \<Longrightarrow> (\<exists>mb. mailboxes mgr i = Some (Some mb)) \<and> unowned mgr i"
  shows "\<exists>mgr' qs'. foldM (drop_subscription ord) (mgr, qs) subs = Some (mgr', qs') \<and> mgr_inv mgr' \<and>
    queues_inv qs' \<and> queued qs' = queued qs \<and> set (running qs) \<subseteq> set (running qs') \<and>
    mailboxes mgr' = mailboxes mgr |` (- set subs) \<and> process_subscriptions mgr' = process_subscriptions mgr"
  using assms(2-)
proof (induction subs arbitrary: mgr qs)
  case Nil
  then show ?case by simp
next
  case (Cons i subs)
  obtain mb where mb: "mailboxes mgr i = Some (Some mb)" and un: "unowned mgr i"
    using Cons.prems(4) by force
  from drop_subscription_step [OF assms(1) Cons.prems(1,2) mb un] obtain m q where
    step: "drop_subscription ord (mgr, qs) i = Some (m, q)" and inv: "mgr_inv m" "queues_inv q"
    and q: "queued q = queued qs" "set (running qs) \<subseteq> set (running q)"
    and M: "mailboxes m = (mailboxes mgr)(i := None)" and P: "process_subscriptions m = process_subscriptions mgr"
    by blast
  have "distinct subs" and ni: "i \<notin> set subs" using Cons.prems(3) by simp_all
  have own: "(\<exists>mb. mailboxes m j = Some (Some mb)) \<and> unowned m j" if "j \<in> set subs" for j
    using Cons.prems(4) [of j] that ni M P by (auto simp: unowned_def)
  from Cons.IH [OF inv \<open>distinct subs\<close> own] obtain mgr' qs' where
    rest: "foldM (drop_subscription ord) (m, q) subs = Some (mgr', qs')" "mgr_inv mgr'" "queues_inv qs'"
      "queued qs' = queued q" "set (running q) \<subseteq> set (running qs')"
      "mailboxes mgr' = mailboxes m |` (- set subs)" "process_subscriptions mgr' = process_subscriptions m"
    by blast
  have "mailboxes mgr' = mailboxes mgr |` (- set (i # subs))"
    unfolding rest(6) M by (auto simp: restrict_map_def fun_eq_iff)
  with rest step q P show ?case by (auto simp: subset_iff)
qed

lemma disconnect_pipe_step:
  assumes "iter_order ord" and "mgr_inv mgr" and "queues_inv qs"
    and d: "disconnect_pipe ord p i (mgr, qs) = (mgr', qs')"
  shows "mgr_inv mgr' \<and> queues_inv qs' \<and> queued qs' = queued qs \<and> set (running qs) \<subseteq> set (running qs') \<and>
    process_subscriptions mgr' = process_subscriptions mgr \<and>
    (\<forall>j. j \<noteq> i \<longrightarrow> mailboxes mgr' j = mailboxes mgr j) \<and>
    (\<forall>mb. mailboxes mgr' i = Some (Some mb) \<longrightarrow> pipe_mode mb \<noteq> ConnectedTo p) \<and>
    (mailboxes mgr i = None \<longrightarrow> mailboxes mgr' i = None)"
proof (cases "\<exists>mb. mailboxes mgr i = Some (Some mb) \<and> pipe_mode mb = ConnectedTo p")
  case False
  then have "mgr' = mgr" "qs' = qs"
    using d by (auto simp: disconnect_pipe_def split: option.splits if_splits)
  with assms False show ?thesis by auto
next
  case True
  then obtain mb where box: "mailboxes mgr i = Some (Some mb)" and mode: "pipe_mode mb = ConnectedTo p"
    by blast
  let ?q = "(mb_queue mb)\<lparr>eq_event := None\<rparr>"
  let ?mb = "mb\<lparr>pipe_mode := Disconnected, mb_queue := ?q\<rparr>"
  have mgr': "mgr' = mgr\<lparr>mailboxes := (mailboxes mgr)(i \<mapsto> Some ?mb)\<rparr>"
    and qs': "qs' = (case eq_event (mb_queue mb) of Some e \<Rightarrow> on_explicit_event ord e qs | None \<Rightarrow> qs)"
    using d box mode by (auto simp: disconnect_pipe_def eq_take_event_def)
  have "mgr_inv mgr'" unfolding mgr'
    using mgr_inv_box(1) [OF assms(2) box] mode
    by (intro mgr_inv_update_box [OF assms(2) box]) (auto simp: mailbox_ok_def acks_def eq_inv_def)
  moreover have "queues_inv qs' \<and> queued qs' = queued qs \<and> set (running qs) \<subseteq> set (running qs')"
    using assms(1,3) unfolding qs'
    by (auto split: option.splits simp: on_explicit_event_inv on_explicit_event_queued on_explicit_event_running)
  ultimately show ?thesis using box by (auto simp: mgr')
qed

lemma disconnect_pipes:
  assumes "iter_order ord" and "mgr_inv mgr" and "queues_inv qs"
    and "fold (disconnect_pipe ord p) subs (mgr, qs) = (mgr', qs')"
  shows "mgr_inv mgr' \<and> queues_inv qs' \<and> queued qs' = queued qs \<and> set (running qs) \<subseteq> set (running qs') \<and>
    process_subscriptions mgr' = process_subscriptions mgr \<and>
    (\<forall>j. mailboxes mgr j = None \<longrightarrow> mailboxes mgr' j = None) \<and>
    (\<forall>j mb. mailboxes mgr' j = Some (Some mb) \<and>
        (j \<in> set subs \<or> (\<forall>mb0. mailboxes mgr j = Some (Some mb0) \<longrightarrow> pipe_mode mb0 \<noteq> ConnectedTo p)) \<longrightarrow>
        pipe_mode mb \<noteq> ConnectedTo p)"
  using assms(2-)
proof (induction subs arbitrary: mgr qs)
  case Nil
  then show ?case by auto
next
  case (Cons i subs)
  obtain m q where d: "disconnect_pipe ord p i (mgr, qs) = (m, q)" by fastforce
  note step = disconnect_pipe_step [OF assms(1) Cons.prems(1,2) d]
  have rest: "fold (disconnect_pipe ord p) subs (m, q) = (mgr', qs')" using Cons.prems(3) d by simp
  have "mgr_inv m" "queues_inv q" using step by blast+
  note ih = Cons.IH [OF this rest]
  have "pipe_mode mb \<noteq> ConnectedTo p"
    if mb: "mailboxes mgr' j = Some (Some mb)"
      and j: "j \<in> set (i # subs) \<or> (\<forall>mb0. mailboxes mgr j = Some (Some mb0) \<longrightarrow> pipe_mode mb0 \<noteq> ConnectedTo p)"
    for j mb
  proof -
    have "j \<in> set subs \<or> (\<forall>mb0. mailboxes m j = Some (Some mb0) \<longrightarrow> pipe_mode mb0 \<noteq> ConnectedTo p)"
      using step j by (cases "j = i") auto
    with ih mb show ?thesis by blast
  qed
  moreover have "mailboxes mgr' j = None" if "mailboxes mgr j = None" for j
    using that step ih by (cases "j = i") auto
  ultimately show ?case using ih step by (auto simp: subset_iff)
qed

lemma finite_mailboxes: "mgr_inv mgr \<Longrightarrow> finite (dom (mailboxes mgr))"
  by (simp add: mgr_inv_def)

lemma ipc_on_process_over_total:
  assumes ord: "iter_order ord" and inv: "mgr_inv mgr" and q: "queues_inv qs"
  shows "\<exists>mgr' qs'. ipc_on_process_over ord p mgr qs = Some (mgr', qs') \<and> mgr_inv mgr' \<and>
    queues_inv qs' \<and> queued qs' = queued qs \<and> set (running qs) \<subseteq> set (running qs') \<and>
    or_default (process_subscriptions mgr' p) = {} \<and>
    (\<forall>i \<in> or_default (process_subscriptions mgr p). mailboxes mgr' i = None) \<and>
    (\<forall>i mb. mailboxes mgr' i = Some (Some mb) \<longrightarrow> pipe_mode mb \<noteq> ConnectedTo p)"
proof -
  let ?S = "or_default (process_subscriptions mgr p)"
  let ?m0 = "mgr\<lparr>process_subscriptions := (process_subscriptions mgr)(p := None)\<rparr>"
  have own: "owners_inv (process_subscriptions mgr) (mailboxes mgr)" using inv by (simp add: mgr_inv_def)
  have "owners_inv ((process_subscriptions mgr)(p := None)) (mailboxes mgr)"
    using own unfolding owners_inv_def or_default_upd by auto
  then have inv0: "mgr_inv ?m0" using inv by (simp add: mgr_inv_def)
  have fin: "finite ?S" using own by (simp add: owners_inv_def)
  have boxes: "(\<exists>mb. mailboxes ?m0 i = Some (Some mb)) \<and> unowned ?m0 i" if "i \<in> ?S" for i
  proof -
    have "\<exists>mb. mailboxes mgr i = Some (Some mb)" using own that unfolding owners_inv_def by blast
    moreover have "i \<notin> or_default (process_subscriptions mgr r)" if "r \<noteq> p" for r
      using own \<open>i \<in> ?S\<close> that unfolding owners_inv_def by blast
    ultimately show ?thesis by (auto simp: unowned_def or_default_upd simp del: fun_upd_apply)
  qed
  have "\<exists>m1 q1. (case process_subscriptions mgr p of
        Some subs \<Rightarrow> foldM (drop_subscription ord) (?m0, qs) (ord subs)
      | None \<Rightarrow> Some (mgr, qs)) = Some (m1, q1) \<and> mgr_inv m1 \<and> queues_inv q1 \<and>
      queued q1 = queued qs \<and> set (running qs) \<subseteq> set (running q1) \<and>
      (\<forall>i \<in> ?S. mailboxes m1 i = None) \<and> or_default (process_subscriptions m1 p) = {}"
  proof (cases "process_subscriptions mgr p")
    case None
    then show ?thesis using inv q by (simp add: or_default_upd)
  next
    case (Some subs)
    then have S: "?S = subs" by (simp add: or_default_upd)
    have "set (ord subs) = subs" "distinct (ord subs)" using ord fin S by (auto simp: iter_orderD)
    with drop_subscriptions_total [OF ord inv0 q, of "ord subs"] boxes S obtain m1 q1 where
      "foldM (drop_subscription ord) (?m0, qs) (ord subs) = Some (m1, q1)" "mgr_inv m1" "queues_inv q1"
      "queued q1 = queued qs" "set (running qs) \<subseteq> set (running q1)"
      "mailboxes m1 = mailboxes ?m0 |` (- subs)" "process_subscriptions m1 = process_subscriptions ?m0"
      by auto
    then show ?thesis using Some S by (auto simp: or_default_upd)
  qed
  then obtain m1 q1 where first: "(case process_subscriptions mgr p of
        Some subs \<Rightarrow> foldM (drop_subscription ord) (?m0, qs) (ord subs)
      | None \<Rightarrow> Some (mgr, qs)) = Some (m1, q1)" and i1: "mgr_inv m1" "queues_inv q1"
      "queued q1 = queued qs" "set (running qs) \<subseteq> set (running q1)"
      "\<forall>i \<in> ?S. mailboxes m1 i = None" "or_default (process_subscriptions m1 p) = {}" by blast
  obtain mgr' qs' where f: "fold (disconnect_pipe ord p) (ord (dom (mailboxes m1))) (m1, q1) = (mgr', qs')"
    by fastforce
  have dom: "set (ord (dom (mailboxes m1))) = dom (mailboxes m1)"
    using ord finite_mailboxes [OF i1(1)] by (simp add: iter_orderD)
  note d = disconnect_pipes [OF ord i1(1,2) f]
  have "ipc_on_process_over ord p mgr qs = Some (mgr', qs')"
    using first f by (simp add: ipc_on_process_over_def)
  moreover have "pipe_mode mb \<noteq> ConnectedTo p" if "mailboxes mgr' i = Some (Some mb)" for i mb
  proof -
    have "mailboxes m1 i \<noteq> None" using d that by force
    then have "i \<in> set (ord (dom (mailboxes m1)))" using dom by auto
    with d that show ?thesis by blast
  qed
  ultimately show ?thesis using d i1 by (auto simp: subset_iff)
qed

lemma kernel_publish_total:
  assumes "iter_order ord" and "mgr_inv mgr" and "queues_inv qs" and "topic_new topic = Some t"
  shows "\<exists>mgr' qs'. kernel_publish ord topic (Some data) mgr qs = Some (mgr', qs') \<and> mgr_inv mgr' \<and>
    queues_inv qs' \<and> queued qs' = queued qs \<and> set (running qs) \<subseteq> set (running qs')"
proof -
  obtain r mgr' where p: "publish ord t data mgr = Some (r, mgr')" "ipc_value r = Inr ()" "mgr_inv mgr'"
    using publish_eq [OF assms(1,2)] by auto
  obtain v qs' where c: "consume_events ord r qs = (v, qs')" by fastforce
  then have "v = Inr ()" using p by (simp add: consume_events_def)
  with p c assms(4) consume_events_inv [OF assms(1,3) c] show ?thesis by (simp add: kernel_publish_def)
qed

lemma kernel_publish_subscriptions:
  assumes "kernel_publish ord topic encoded mgr qs = Some (mgr', qs')"
  shows "process_subscriptions mgr' = process_subscriptions mgr"
proof -
  obtain t data r m1 where p: "publish ord t data mgr = Some (r, m1)"
    and c: "(case consume_events ord r qs of (v, sched) \<Rightarrow> (case v of Inl _ \<Rightarrow> None | Inr _ \<Rightarrow> Some (m1, sched)))
      = Some (mgr', qs')"
    using assms unfolding kernel_publish_def Let_def by (auto simp only: bind_eq_Some_conv prod.case)
  have "m1 = mgr'" using c by (cases "consume_events ord r qs"; cases "fst (consume_events ord r qs)") simp_all
  with p have p: "publish ord t data mgr = Some (r, mgr')" by simp
  then obtain es where f: "foldM (publish_one t data) (mgr, {}) (ord (find_all (subscriptions mgr) t False)) = Some (mgr', es)"
    by (auto simp: publish_def bind_eq_Some_conv)
  show ?thesis
    using foldM_invariant [OF f, where I = "\<lambda>s. process_subscriptions (fst s) = process_subscriptions mgr"]
    by (force simp: publish_one_def bind_eq_Some_conv)
qed

end
