(* ===== verification/IpcProtocol.thy ===== *)
theory IpcProtocol
  imports IpcDelivery
begin

text \<open>
  The reachable states of the IPC manager and the claims about it: no internal panic, the
  reliable delivery protocol, pipes, publishing, process termination, the ramdisk service.
\<close>

subsection \<open>Reachable managers\<close>

text \<open>Any sequence of manager operations. Filters come from \<open>TopicFilter::try_new\<close>; a pipe is
  always requested together with \<open>reliable\<close> (the flag \<open>PIPE\<close> contains the bit); and a process
  acknowledges only ids of messages it has received.\<close>

inductive ipc_reachable :: "(nat set \<Rightarrow> nat list) \<Rightarrow> Kenv \<Rightarrow> Manager \<Rightarrow> bool" for ord env where
  ipc_start: "ipc_reachable ord env manager_new"
| ipc_subscribe: "ipc_reachable ord env mgr \<Longrightarrow> valid_filter filt \<Longrightarrow> pipe \<longrightarrow> reliable \<Longrightarrow>
    subscribe mgr p filt reliable pipe = Some (r, mgr') \<Longrightarrow> ipc_reachable ord env mgr'"
| ipc_kernel_subscribe: "ipc_reachable ord env mgr \<Longrightarrow> valid_filter filt \<Longrightarrow>
    kernel_subscribe mgr filt = Some (s, mgr') \<Longrightarrow> ipc_reachable ord env mgr'"
| ipc_unsubscribe: "ipc_reachable ord env mgr \<Longrightarrow> unsubscribe p sub mgr = Some (u, mgr') \<Longrightarrow>
    ipc_reachable ord env mgr'"
| ipc_publish: "ipc_reachable ord env mgr \<Longrightarrow> publish ord t data mgr = Some (u, mgr') \<Longrightarrow>
    ipc_reachable ord env mgr'"
| ipc_deliver: "ipc_reachable ord env mgr \<Longrightarrow> deliver ord env p t data mgr ne = Some (d, mgr', ne') \<Longrightarrow>
    ipc_reachable ord env mgr'"
| ipc_reply: "ipc_reachable ord env mgr \<Longrightarrow> deliver_reply ord t data mgr = Some (u, mgr') \<Longrightarrow>
    ipc_reachable ord env mgr'"
| ipc_receive: "ipc_reachable ord env mgr \<Longrightarrow> receive p sub mgr ne = Some (x, mgr', ne') \<Longrightarrow>
    ipc_reachable ord env mgr'"
| ipc_acknowledge: "ipc_reachable ord env mgr \<Longrightarrow> outstanding mgr a \<Longrightarrow>
    acknowledge sub a pos mgr = Some (u, mgr') \<Longrightarrow> ipc_reachable ord env mgr'"
| ipc_wait: "ipc_reachable ord env mgr \<Longrightarrow> waiting_for sub mgr ne = Some (w, mgr', ne') \<Longrightarrow>
    ipc_reachable ord env mgr'"
| ipc_after: "ipc_reachable ord env mgr \<Longrightarrow> after_delivery p mgr = Some (u, mgr') \<Longrightarrow>
    ipc_reachable ord env mgr'"
| ipc_over: "ipc_reachable ord env mgr \<Longrightarrow> queues_inv qs \<Longrightarrow>
    ipc_on_process_over ord p mgr qs = Some (mgr', qs') \<Longrightarrow> ipc_reachable ord env mgr'"

lemma ipc_reachable_inv:
  assumes "ipc_reachable ord env mgr" and "iter_order ord"
  shows "mgr_inv mgr"
  using assms(1)
proof (induction rule: ipc_reachable.induct)
  case (ipc_unsubscribe mgr p sub u mgr')
  then show ?case using unsubscribe_total [of mgr p sub] by auto
next
  case (ipc_publish mgr t data u mgr')
  then show ?case using publish_eq [OF assms(2), of mgr t data] by auto
next
  case (ipc_receive mgr p sub ne x mgr' ne')
  then show ?case using receive_total [of mgr p sub ne] by auto
next
  case (ipc_over mgr qs p mgr' qs')
  then show ?case using ipc_on_process_over_total [OF assms(2), of mgr qs p] by auto
qed (auto intro: subscribe_inv kernel_subscribe_inv deliver_inv deliver_reply_inv acknowledge_inv
       waiting_for_inv after_delivery_inv)

subsection \<open>Reliable delivery in one step\<close>

lemma deliver_process_eq:
  assumes "iter_order ord" and "find_all (subscriptions mgr) t True = {sub}"
    and "mailboxes mgr sub = Some (Some mb)" and "next_acknowledge_id mgr + 1 < 2 ^ 64"
  shows "deliver ord env p t data mgr ne = deliver_to_mailbox p sub mb
     \<lparr>msg_topic = topic_str t, msg_data = data, msg_ack = Some (next_acknowledge_id mgr)\<rparr>
     (next_acknowledge_id mgr) (mgr\<lparr>next_acknowledge_id := Suc (next_acknowledge_id mgr)\<rparr>) ne"
  using assms by (simp add: deliver_def first_of_single checked_u64_def Let_def)

lemma deliver_to_mailbox_total:
  "\<exists>x. deliver_to_mailbox p sub mb msg a mgr ne = Some x"
proof (cases "pipe_gate p (pipe_mode mb)")
  case None
  then show ?thesis by (simp add: deliver_to_mailbox_def)
next
  case (Some pm)
  then show ?thesis by (simp add: deliver_to_mailbox_eq)
qed

lemma deliver_total:
  assumes "iter_order ord" and "mgr_inv mgr" and "next_acknowledge_id mgr + 1 < 2 ^ 64"
    and "\<And>i. i \<in> find_all (subscriptions mgr) t True \<Longrightarrow> mailboxes mgr i \<noteq> Some None"
  shows "\<exists>x. deliver ord env p t data mgr ne = Some x"
proof (cases "find_all (subscriptions mgr) t True = {}")
  case True
  then show ?thesis by (simp add: deliver_def)
next
  case False
  with lookup_reliable [OF assms(2)] obtain i where i: "find_all (subscriptions mgr) t True = {i}" by blast
  with lookup_box [OF assms(2), of i t True] assms(4) obtain mb where "mailboxes mgr i = Some (Some mb)"
    by auto
  then show ?thesis
    using deliver_process_eq [OF assms(1) i _ assms(3)] deliver_to_mailbox_total by simp
qed

subsection \<open>Claims\<close>



text \<open>C2: the reliable delivery protocol. When a sender delivers to a topic whose receiver is a
  process with an empty mailbox (not a pipe reserved by someone else), the sender is told to wait
  for a fresh event and the event of a waiting receiver is triggered; the owner then receives
  exactly that topic and data with an acknowledge id; acknowledging that id triggers exactly the
  sender's event, and the sender then sees success or a negative acknowledgement accordingly.\<close>

theorem delivery_protocol:
  assumes "ipc_reachable ord env mgr" and "iter_order ord" and "next_acknowledge_id mgr + 1 < 2 ^ 64"
    and "find_all (subscriptions mgr) t True = {sub}" and "mailboxes mgr sub = Some (Some mb)"
    and "pipe_gate p (pipe_mode mb) \<noteq> None" and "mb_is_empty mb" and "process_owns mgr q sub"
  shows "\<exists>m1 ne1 m2 ne2 m3 m4. let a = next_acknowledge_id mgr in
    deliver ord env p t data mgr ne =
      Some (with_events (ipc_success (DeliverProcess ne)) (set_option (eq_event (mb_queue mb))), m1, ne1) \<and>
    receive q sub m1 ne1 = Some (ipc_success
      (Inr \<lparr>msg_topic = topic_str t, msg_data = data, msg_ack = Some a\<rparr>), m2, ne2) \<and>
    acknowledge sub a positive m2 = Some (with_event (ipc_success ()) ne, m3) \<and>
    after_delivery p m3 = Some (if positive then ipc_success ()
      else ipc_error (Delivery NegativeAcknowledgement), m4)"
proof -
  note inv = ipc_reachable_inv [OF assms(1,2)]
  let ?a = "next_acknowledge_id mgr"
  let ?msg = "\<lparr>msg_topic = topic_str t, msg_data = data, msg_ack = Some ?a\<rparr>"
  obtain pm where pm: "pipe_gate p (pipe_mode mb) = Some pm" using assms(6) by auto
  have q: "eq_queue (mb_queue mb) = []" "0 < eq_limit (mb_queue mb)"
    using assms(7) mgr_inv_box(1) [OF inv assms(5)]
    by (auto simp: mb_is_empty_def eq_is_empty_def mailbox_ok_def MAILBOX_BUFFER_LIMIT_def)
  let ?mb = "push_msg ?msg (mb\<lparr>pipe_mode := pm\<rparr>)"
  let ?m1 = "mgr\<lparr>next_acknowledge_id := Suc ?a, mailboxes := (mailboxes mgr)(sub \<mapsto> Some ?mb),
      waiting_for_delivery := (waiting_for_delivery mgr)(?a \<mapsto> (ne, p))\<rparr>"
  let ?ne1 = "(ne + 1) mod 2 ^ 64"
  have d: "deliver ord env p t data mgr ne =
      Some (with_events (ipc_success (DeliverProcess ne)) (set_option (eq_event (mb_queue mb))), ?m1, ?ne1)"
    using deliver_process_eq [OF assms(2,4,5,3)] q by (simp add: deliver_to_mailbox_eq [OF pm])
  have inv1: "mgr_inv ?m1" using deliver_inv [OF inv d] .
  have box1: "mailboxes ?m1 sub = Some (Some ?mb)" "eq_queue (mb_queue ?mb) = [?msg]"
    "process_owns ?m1 q sub"
    using q assms(8) by (simp_all add: push_msg_def eq_push_def process_owns_def)
  from receive_total [OF inv1, of q sub ?ne1] box1 obtain r m2 ne2 where
    rec: "receive q sub ?m1 ?ne1 = Some (r, m2, ne2)" "ipc_value r = Inr (Inr ?msg)"
    and w2: "waiting_for_delivery m2 ?a = Some (ne, p)" by auto
  have "r = ipc_success (Inr ?msg)"
    using rec box1 by (auto simp: receive_def verify_process_owns_def split: prod.splits)
  moreover note acknowledge_eq [OF w2, of sub positive]
  ultimately show ?thesis
    using d rec by (simp add: after_delivery_def Let_def)
qed

theorem delivery_protocol_witness:
  "\<exists>mgr. subscribe manager_new 2 (Exact (Topic ''a'')) True False = Some (Inr 0, mgr) \<and>
    (\<exists>m1 ne1 m2 ne2 m3 m4. let a = next_acknowledge_id mgr in
    deliver sorted_list_of_set \<lparr>ke_services = Map.empty, ke_initrd = None, ke_dec_pair = (\<lambda>b. None),
        ke_enc_bytes = Some\<rparr> 1 (Topic ''a'') [5] mgr 7 =
      Some (with_events (ipc_success (DeliverProcess 7))
        (set_option (eq_event (mb_queue (mailbox_new PipeNone)))), m1, ne1) \<and>
    receive 2 0 m1 ne1 = Some (ipc_success
      (Inr \<lparr>msg_topic = topic_str (Topic ''a''), msg_data = [5], msg_ack = Some a\<rparr>), m2, ne2) \<and>
    acknowledge 0 a False m2 = Some (with_event (ipc_success ()) 7, m3) \<and>
    after_delivery 1 m3 = Some (if False then ipc_success ()
      else ipc_error (Delivery NegativeAcknowledgement), m4))"
proof -
  let ?env = "\<lparr>ke_services = Map.empty, ke_initrd = None, ke_dec_pair = (\<lambda>b. None), ke_enc_bytes = Some\<rparr>"
  let ?f = "Exact (Topic ''a'')"
  let ?mb = "mailbox_new PipeNone"
  let ?mgr = "manager_new\<lparr>subscriptions := \<lparr>targets = [(?f, True, 0)], next_subscription_id = 1\<rparr>,
      mailboxes := [0 \<mapsto> Some ?mb], process_subscriptions := [2 \<mapsto> {0}]\<rparr>"
  have sub: "subscribe manager_new 2 ?f True False = Some (Inr 0, ?mgr)"
    by (simp add: subscribe_def sl_insert_def conflicts_def manager_new_def sl_new_def binary_search_def
        bs_loop.simps vec_insert_def checked_u64_def or_default_def)
  have valid: "valid_filter ?f"
    by (simp add: valid_topic_def topic_new_def topic_char_def is_ascii_alphanumeric_def less_eq_char_def)
  have "ipc_reachable sorted_list_of_set ?env ?mgr"
    using ipc_start valid by (rule ipc_subscribe [OF _ _ _ sub]) simp
  from delivery_protocol [OF this iter_order_sorted, of "Topic ''a''" 0 ?mb 1 2 "[5]" 7 False]
  have "\<exists>m1 ne1 m2 ne2 m3 m4. let a = next_acknowledge_id ?mgr in
    deliver sorted_list_of_set ?env 1 (Topic ''a'') [5] ?mgr 7 =
      Some (with_events (ipc_success (DeliverProcess 7)) (set_option (eq_event (mb_queue ?mb))), m1, ne1) \<and>
    receive 2 0 m1 ne1 = Some (ipc_success
      (Inr \<lparr>msg_topic = topic_str (Topic ''a''), msg_data = [5], msg_ack = Some a\<rparr>), m2, ne2) \<and>
    acknowledge 0 a False m2 = Some (with_event (ipc_success ()) 7, m3) \<and>
    after_delivery 1 m3 = Some (if False then ipc_success ()
      else ipc_error (Delivery NegativeAcknowledgement), m4)"
    by (simp add: manager_new_def find_all_def map_filter_def pipe_gate_def mb_is_empty_def eq_is_empty_def
        process_owns_def mailbox_new_def eq_new_def)
  with sub show ?thesis by (rule exI [of _ ?mgr, OF conjI])
qed

text \<open>C13: publishing. In a reachable state, \<open>publish\<close> appends the message to the mailbox of every
  matching unreliable subscription that has room and to no other, always reports success, and
  triggers exactly the events of the receivers that wait on those mailboxes.\<close>

theorem publish_exact:
  assumes "ipc_reachable ord env mgr" and "iter_order ord"
  shows "\<exists>mgr'. publish ord t data mgr = Some (with_events (ipc_success ())
      (box_events (find_all (subscriptions mgr) t False) (mailboxes mgr)), mgr') \<and>
    (\<forall>i. i \<notin> find_all (subscriptions mgr) t False \<longrightarrow> mailboxes mgr' i = mailboxes mgr i) \<and>
    (\<forall>i \<in> find_all (subscriptions mgr) t False. \<exists>mb mb'. mailboxes mgr i = Some (Some mb) \<and>
       mailboxes mgr' i = Some (Some mb') \<and>
       eq_queue (mb_queue mb') = (if length (eq_queue (mb_queue mb)) < MAILBOX_BUFFER_LIMIT
         then eq_queue (mb_queue mb) @ [\<lparr>msg_topic = topic_str t, msg_data = data, msg_ack = None\<rparr>]
         else eq_queue (mb_queue mb)))"
proof -
  note inv = ipc_reachable_inv [OF assms]
  let ?S = "find_all (subscriptions mgr) t False"
  let ?msg = "\<lparr>msg_topic = topic_str t, msg_data = data, msg_ack = None\<rparr>"
  let ?m = "mgr\<lparr>mailboxes := push_boxes ?S ?msg (mailboxes mgr)\<rparr>"
  have "\<exists>mb mb'. mailboxes mgr i = Some (Some mb) \<and> mailboxes ?m i = Some (Some mb') \<and>
      eq_queue (mb_queue mb') = (if length (eq_queue (mb_queue mb)) < MAILBOX_BUFFER_LIMIT
        then eq_queue (mb_queue mb) @ [?msg] else eq_queue (mb_queue mb))" if i: "i \<in> ?S" for i
  proof -
    obtain mb where mb: "mailboxes mgr i = Some (Some mb)" using lookup_unreliable_box [OF inv i] .
    with mgr_inv_box(1) [OF inv mb] i show ?thesis
      by (auto simp: push_boxes_def push_msg_def eq_push_queue mailbox_ok_def)
  qed
  moreover have "mailboxes ?m i = mailboxes mgr i" if "i \<notin> ?S" for i
    using that by (simp add: push_boxes_def)
  ultimately show ?thesis using publish_eq(1) [OF assms(2) inv, of t data] by blast
qed

theorem publish_exact_witness:
  "\<exists>mgr'. publish sorted_list_of_set (Topic ''a'') [1] manager_new = Some (with_events (ipc_success ())
      (box_events (find_all (subscriptions manager_new) (Topic ''a'') False) (mailboxes manager_new)), mgr')"
  using publish_exact [OF ipc_start iter_order_sorted, of "Topic ''a''" "[1]"] by blast

text \<open>pipes belong to their first sender. A delivery to a reliable receiver that is a pipe
  connected to another process, or whose sender has terminated, is refused with \<open>PipeReserved\<close>
  and changes no mailbox; a delivery to an unconnected pipe with room connects it to the sender.\<close>

lemma pipe_exclusive:
  assumes "ipc_reachable ord env mgr" and "iter_order ord" and "next_acknowledge_id mgr + 1 < 2 ^ 64"
    and "find_all (subscriptions mgr) t True = {sub}" and "mailboxes mgr sub = Some (Some mb)"
  shows "(pipe_mode mb = Disconnected \<or> (\<exists>c. pipe_mode mb = ConnectedTo c \<and> c \<noteq> p) \<longrightarrow>
      deliver ord env p t data mgr ne = Some (ipc_error PipeReserved,
        mgr\<lparr>next_acknowledge_id := Suc (next_acknowledge_id mgr)\<rparr>, ne)) \<and>
    (pipe_mode mb = NotConnected \<and> length (eq_queue (mb_queue mb)) < MAILBOX_BUFFER_LIMIT \<longrightarrow>
      (\<exists>r mgr' ne' mb'. deliver ord env p t data mgr ne = Some (r, mgr', ne') \<and>
        ipc_value r = Inr (DeliverProcess ne) \<and> mailboxes mgr' sub = Some (Some mb') \<and>
        pipe_mode mb' = ConnectedTo p))"
proof -
  have "eq_limit (mb_queue mb) = MAILBOX_BUFFER_LIMIT"
    using mgr_inv_box(1) [OF ipc_reachable_inv [OF assms(1,2)] assms(5)] by (simp add: mailbox_ok_def)
  moreover have "pipe_mode mb = NotConnected \<Longrightarrow> pipe_gate p (pipe_mode mb) = Some (ConnectedTo p)"
    by (simp add: pipe_gate_def)
  ultimately show ?thesis
    using deliver_process_eq [OF assms(2,4,5,3), of env p data ne]
    by (auto simp: deliver_to_mailbox_eq push_msg_def) (auto simp: deliver_to_mailbox_def pipe_gate_def)
qed

lemma pipe_exclusive_example:
  "\<exists>mgr r mgr' ne' mb'. subscribe manager_new 2 (Prefix (TopicPrefix ''a'')) True True = Some (Inr 0, mgr) \<and>
     deliver sorted_list_of_set \<lparr>ke_services = Map.empty, ke_initrd = None, ke_dec_pair = (\<lambda>b. None),
        ke_enc_bytes = Some\<rparr> 1 (Topic ''ab'') [5] mgr 7 = Some (r, mgr', ne') \<and>
     mailboxes mgr' 0 = Some (Some mb') \<and> pipe_mode mb' = ConnectedTo 1"
proof -
  let ?env = "\<lparr>ke_services = Map.empty, ke_initrd = None, ke_dec_pair = (\<lambda>b. None), ke_enc_bytes = Some\<rparr>"
  let ?f = "Prefix (TopicPrefix ''a'')"
  let ?mb = "mailbox_new NotConnected"
  let ?mgr = "manager_new\<lparr>subscriptions := \<lparr>targets = [(?f, True, 0)], next_subscription_id = 1\<rparr>,
      mailboxes := [0 \<mapsto> Some ?mb], process_subscriptions := [2 \<mapsto> {0}]\<rparr>"
  have sub: "subscribe manager_new 2 ?f True True = Some (Inr 0, ?mgr)"
    by (simp add: subscribe_def sl_insert_def conflicts_def manager_new_def sl_new_def binary_search_def
        bs_loop.simps vec_insert_def checked_u64_def or_default_def)
  have valid: "valid_filter ?f"
    by (simp add: topic_prefix_new_def topic_char_def is_ascii_alphanumeric_def less_eq_char_def)
  have reach: "ipc_reachable sorted_list_of_set ?env ?mgr"
    using ipc_start valid by (rule ipc_subscribe [OF _ _ _ sub]) simp
  have "find_all (subscriptions ?mgr) (Topic ''ab'') True = {0}"
    by (simp add: find_all_def map_filter_def)
  from pipe_exclusive [OF reach iter_order_sorted _ this, of ?mb 1 "[5]" 7] sub show ?thesis
    by (auto simp: manager_new_def mailbox_new_def eq_new_def MAILBOX_BUFFER_LIMIT_def)
qed





text \<open>\<open>acknowledge\<close> trusts its caller. It panics exactly on ids that are not outstanding, and
  acknowledging an id whose message is still queued makes the next unsubscription of that
  mailbox panic.\<close>

lemma acknowledge_unchecked:
  assumes "ipc_reachable ord env mgr" and "iter_order ord"
    and "mailboxes mgr i = Some (Some mb)" and "a \<in> set (acks mb)"
  shows "(\<exists>r mgr'. acknowledge sub a positive mgr = Some (r, mgr') \<and> force_unsubscribe i mgr' = None) \<and>
    (b \<notin> dom (waiting_for_delivery mgr) \<longrightarrow> acknowledge sub b positive mgr = None)"
proof -
  note inv = ipc_reachable_inv [OF assms(1,2)]
  obtain e p where w: "waiting_for_delivery mgr a = Some (e, p)"
    using mgr_inv_box(2) [OF inv assms(3)] assms(4) by fastforce
  have stuck: "foldM release_msg (wfd, res, ev) msgs = None"
    if "wfd a = None" "a \<in> set (List.map_filter msg_ack msgs)" for wfd res ev msgs
    using that
  proof (induction msgs arbitrary: wfd res ev)
    case (Cons msg msgs)
    show ?case
    proof (cases "msg_ack msg")
      case None
      with Cons show ?thesis by (simp add: release_msg_def map_filter_simps)
    next
      case (Some c)
      with Cons show ?thesis
        by (cases "wfd c") (auto simp: release_msg_def map_filter_simps split: if_splits)
    qed
  qed (simp add: map_filter_simps)
  have "force_unsubscribe i (mgr\<lparr>waiting_for_delivery := (waiting_for_delivery mgr)(a := None),
      delivery_result := d\<rparr>) = None" for d
    using assms(3,4) stuck [of "(waiting_for_delivery mgr)(a := None)"]
    by (simp add: force_unsubscribe_def eq_into_iter_def acks_def)
  with acknowledge_eq [OF w, of sub positive] acknowledge_iff [of sub b positive mgr] show ?thesis
    by auto
qed

lemma acknowledge_unchecked_example:
  "\<exists>mgr r mgr'. acknowledge 0 0 True mgr = Some (r, mgr') \<and> force_unsubscribe 0 mgr' = None"
proof -
  let ?env = "\<lparr>ke_services = Map.empty, ke_initrd = None, ke_dec_pair = (\<lambda>b. None), ke_enc_bytes = Some\<rparr>"
  let ?f = "Exact (Topic ''a'')"
  let ?mb = "mailbox_new PipeNone"
  let ?mgr = "manager_new\<lparr>subscriptions := \<lparr>targets = [(?f, True, 0)], next_subscription_id = 1\<rparr>,
      mailboxes := [0 \<mapsto> Some ?mb], process_subscriptions := [2 \<mapsto> {0}]\<rparr>"
  let ?msg = "\<lparr>msg_topic = ''a'', msg_data = [], msg_ack = Some 0\<rparr>"
  let ?m1 = "?mgr\<lparr>next_acknowledge_id := Suc 0, mailboxes := [0 \<mapsto> Some (push_msg ?msg ?mb)],
      waiting_for_delivery := [0 \<mapsto> (7, 1)]\<rparr>"
  have sub: "subscribe manager_new 2 ?f True False = Some (Inr 0, ?mgr)"
    by (simp add: subscribe_def sl_insert_def conflicts_def manager_new_def sl_new_def binary_search_def
        bs_loop.simps vec_insert_def checked_u64_def or_default_def)
  have valid: "valid_filter ?f"
    by (simp add: valid_topic_def topic_new_def topic_char_def is_ascii_alphanumeric_def less_eq_char_def)
  have reach: "ipc_reachable sorted_list_of_set ?env ?mgr"
    using ipc_start valid by (rule ipc_subscribe [OF _ _ _ sub]) simp
  have "find_all (subscriptions ?mgr) (Topic ''a'') True = {0}"
    by (simp add: find_all_def map_filter_def)
  then have "deliver sorted_list_of_set ?env 1 (Topic ''a'') [] ?mgr 7 =
      Some (with_events (ipc_success (DeliverProcess 7)) {}, ?m1, 8)"
    by (subst deliver_process_eq [OF iter_order_sorted, where sub = 0 and mb = ?mb])
      (simp_all add: deliver_to_mailbox_eq pipe_gate_def manager_new_def mailbox_new_def eq_new_def
        MAILBOX_BUFFER_LIMIT_def)
  from ipc_deliver [OF reach this] have "ipc_reachable sorted_list_of_set ?env ?m1" .
  from acknowledge_unchecked [OF this iter_order_sorted, of 0 "push_msg ?msg ?mb" 0 0 True 0]
  have "\<exists>r mgr'. acknowledge 0 0 True ?m1 = Some (r, mgr') \<and> force_unsubscribe 0 mgr' = None"
    by (simp add: acks_def push_msg_def eq_push_def mailbox_new_def eq_new_def map_filter_def
        MAILBOX_BUFFER_LIMIT_def)
  then show ?thesis by blast
qed

end
