(* ===== verification/NetBase.thy ===== *)
theory NetBase
  imports ByteCodec
begin

text \<open>
  Big-endian fields and the internet checksum of \<open>libs/d7net\<close>. The user-space crates are built in release mode without overflow checks,
  so \<open>+\<close> on \<open>u16\<close> wraps and is word addition; indexing and slicing still panic out of
  range.
\<close>

unbundle bit_operations_syntax

subsection \<open>Big-endian fields\<close>

definition u16_be :: "u16 \<Rightarrow> bytes" where
  "u16_be v = to_be 2 (unat v)"

definition u16_of_be :: "u8 \<Rightarrow> u8 \<Rightarrow> u16" where
  "u16_of_be a b = word_of_nat (from_be [a, b])"

definition u32_be :: "u32 \<Rightarrow> bytes" where
  "u32_be v = to_be 4 (unat v)"

definition u32_of_be :: "u8 \<Rightarrow> u8 \<Rightarrow> u8 \<Rightarrow> u8 \<Rightarrow> u32" where
  "u32_of_be a b c d = word_of_nat (from_be [a, b, c, d])"

text \<open>The byte of a field at a bit offset.\<close>

definition u16_byte :: "nat \<Rightarrow> u16 \<Rightarrow> u8" where
  "u16_byte i v = word_of_nat (unat v div 2 ^ i)"

definition u32_byte :: "nat \<Rightarrow> u32 \<Rightarrow> u8" where
  "u32_byte i v = word_of_nat (unat v div 2 ^ i)"

named_theorems wire_simps \<open>unfolding of serialised fields into their bytes\<close>

lemma to_be_2: "to_be 2 v = [word_of_nat (v div 256), word_of_nat v]"
  by (simp add: to_be_def numeral_2_eq_2)

lemma to_be_4: "to_be 4 v =
    [word_of_nat (v div 16777216), word_of_nat (v div 65536), word_of_nat (v div 256), word_of_nat v]"
proof -
  have four: "(4::nat) = Suc (Suc (Suc (Suc 0)))" by simp
  show ?thesis unfolding four to_be_def by (simp add: div_mult2_eq [symmetric])
qed

lemma u16_be_bytes [wire_simps]: "u16_be v = [u16_byte 8 v, u16_byte 0 v]"
  by (simp add: u16_be_def u16_byte_def to_be_2)

lemma u32_be_bytes [wire_simps]:
  "u32_be v = [u32_byte 24 v, u32_byte 16 v, u32_byte 8 v, u32_byte 0 v]"
  by (simp add: u32_be_def u32_byte_def to_be_4)

lemma u16_roundtrip [wire_simps]: "u16_of_be (u16_byte 8 v) (u16_byte 0 v) = v"
proof -
  have "unat v < 256 ^ 2" using unsigned_less [of v] by simp
  then have "from_be (u16_be v) = unat v" unfolding u16_be_def by (rule from_be_to_be_small)
  then show ?thesis by (simp add: u16_of_be_def u16_be_bytes)
qed

lemma u32_roundtrip [wire_simps]:
  "u32_of_be (u32_byte 24 v) (u32_byte 16 v) (u32_byte 8 v) (u32_byte 0 v) = v"
proof -
  have "unat v < 256 ^ 4" using unsigned_less [of v] by simp
  then have "from_be (u32_be v) = unat v" unfolding u32_be_def by (rule from_be_to_be_small)
  then show ?thesis by (simp add: u32_of_be_def u32_be_bytes)
qed

lemma length_u16_be [simp]: "length (u16_be v) = 2"
  by (simp add: u16_be_def)

lemma length_u32_be [simp]: "length (u32_be v) = 4"
  by (simp add: u32_be_def)

lemma unat_u16_of_be: "unat (u16_of_be a b) = 256 * unat a + unat b"
proof -
  have "unat a < 256" and "unat b < 256"
    using unsigned_less [of a] unsigned_less [of b] by simp_all
  then have "256 * unat a + unat b < 2 ^ LENGTH(16)" by simp
  moreover have "from_be [a, b] = 256 * unat a + unat b" by (simp add: from_be_def)
  ultimately show ?thesis unfolding u16_of_be_def by (simp only: unat_of_nat mod_less)
qed

lemma u16_be_of_be: "u16_be (u16_of_be a b) = [a, b]"
proof -
  have "unat (u16_of_be a b) = from_be [a, b]" by (simp add: unat_u16_of_be from_be_def)
  then show ?thesis
    using to_be_from_be [of "[a, b]"] by (simp add: u16_be_def numeral_2_eq_2)
qed

lemma u16_of_be_zero: "u16_of_be 0 0 = 0"
  by (simp add: u16_of_be_def from_be_def)

subsection \<open>Internet checksum (checksum.rs)\<close>

definition overflowing_add :: "u16 \<Rightarrow> u16 \<Rightarrow> u16 \<times> bool" where
  "overflowing_add a b = (a + b, 2 ^ 16 \<le> unat a + unat b)"

definition checksum_step :: "u16 \<Rightarrow> u16 \<Rightarrow> u16" where
  "checksum_step result v =
     (let (r, c) = overflowing_add result v in
      if c then (let (r', c') = overflowing_add r 1 in if c' then r' + 1 else r')
      else r)"

fun checksum_loop :: "u16 \<Rightarrow> bytes \<Rightarrow> u16" where
  "checksum_loop result [] = result"
| "checksum_loop result [a] = checksum_step result (u16_of_be a 0)"
| "checksum_loop result (a # b # data) =
     checksum_loop (checksum_step result (u16_of_be a b)) data"

definition inet_checksum :: "bytes \<Rightarrow> u16" where
  "inet_checksum data = NOT (checksum_loop 0 data)"

text \<open>The reference: the sum of the big-endian 16-bit words of the data.\<close>

fun word_sum :: "bytes \<Rightarrow> nat" where
  "word_sum [] = 0"
| "word_sum [a] = 256 * unat a"
| "word_sum (a # b # data) = 256 * unat a + unat b + word_sum data"

text \<open>One step is addition modulo \<open>65535\<close>, with \<open>65535\<close> for a non-zero multiple.\<close>

definition ones_sum :: "nat \<Rightarrow> nat" where
  "ones_sum n = (if n = 0 then 0 else Suc ((n - 1) mod 65535))"

lemma ones_sum_add: "ones_sum (ones_sum a + b) = ones_sum (a + b)"
proof (cases "a = 0")
  case False
  have "((a - 1) mod 65535 + b) mod 65535 = (a - 1 + b) mod 65535" by (rule mod_add_left_eq)
  then show ?thesis using False by (simp add: ones_sum_def)
qed (simp add: ones_sum_def)

lemma unat_checksum_step:
  "unat (checksum_step r v) = ones_sum (unat r + unat v)"
proof -
  have r: "unat r < 65536" and v: "unat v < 65536"
    using unsigned_less [of r] unsigned_less [of v] by simp_all
  show ?thesis
  proof (cases "65536 \<le> unat r + unat v")
    case False
    then have "unat (r + v) = unat r + unat v" by (simp add: unat_word_ariths)
    moreover have "ones_sum (unat r + unat v) = unat r + unat v"
      using False by (simp add: ones_sum_def)
    ultimately show ?thesis
      using False by (simp add: checksum_step_def overflowing_add_def)
  next
    case True
    with r v have sum: "unat (r + v) = unat r + unat v - 65536"
      by (simp add: unat_word_ariths mod_if)
    with True r v have nocarry: "unat (r + v) + 1 < 65536" by linarith
    then have "unat (r + v + 1) = unat (r + v) + 1" by (simp add: unat_word_ariths)
    moreover have "(unat r + unat v - 1) mod 65535 = unat r + unat v - 65536"
      using True r v by (simp add: mod_if)
    ultimately show ?thesis
      using True r v sum nocarry
      by (simp add: checksum_step_def overflowing_add_def ones_sum_def)
  qed
qed

lemma unat_checksum_loop: "unat (checksum_loop r data) = ones_sum (unat r + word_sum data)"
proof (induction r data rule: checksum_loop.induct)
  case (1 r)
  have "unat r < 65536" using unsigned_less [of r] by simp
  then show ?case by (simp add: ones_sum_def)
next
  case (2 r a)
  then show ?case by (simp add: unat_checksum_step unat_u16_of_be)
next
  case (3 r a b data)
  then show ?case by (simp add: unat_checksum_step unat_u16_of_be ones_sum_add add.assoc)
qed

lemma unat_NOT_u16: "unat (NOT (w :: u16)) = 65535 - unat w"
proof -
  have "NOT w = - 1 - w" by (simp add: not_eq_complement)
  moreover have "w \<le> - 1" by simp
  ultimately have "unat (NOT w) = unat (- 1 :: u16) - unat w" by (simp only: unat_sub)
  then show ?thesis by (simp add: unsigned_minus_1_eq_mask mask_eq_exp_minus_1)
qed

lemma unat_inet_checksum: "unat (inet_checksum data) = 65535 - ones_sum (word_sum data)"
  by (simp add: inet_checksum_def unat_NOT_u16 unat_checksum_loop)

lemma ones_sum_le: "ones_sum n \<le> 65535"
proof (cases "n = 0")
  case False
  have "(n - 1) mod 65535 < 65535" by simp
  then show ?thesis unfolding ones_sum_def using False by (simp only: if_False Suc_le_eq)
qed (simp add: ones_sum_def)

lemma ones_sum_complement: "0 < n + (65535 - ones_sum n) \<Longrightarrow> ones_sum (n + (65535 - ones_sum n)) = 65535"
proof -
  have "ones_sum (n + (65535 - ones_sum n)) = ones_sum (ones_sum n + (65535 - ones_sum n))"
    by (rule ones_sum_add [symmetric])
  also have "\<dots> = ones_sum 65535" using ones_sum_le [of n] by simp
  finally show ?thesis by (simp add: ones_sum_def)
qed

lemma word_sum_append: "even (length xs) \<Longrightarrow> word_sum (xs @ ys) = word_sum xs + word_sum ys"
  by (induction xs rule: word_sum.induct) auto

text \<open>
  The receiver's test: writing the checksum into the zeroed field at an even offset makes the
  checksum of the whole zero.
\<close>

lemma inet_checksum_embed:
  assumes "even (length xs)"
  shows "inet_checksum (xs @ u16_be (inet_checksum (xs @ [0, 0] @ ys)) @ ys) = 0"
proof -
  let ?n = "word_sum (xs @ [0, 0] @ ys)" and ?c = "inet_checksum (xs @ [0, 0] @ ys)"
  have "word_sum (u16_be ?c @ ys) = unat ?c + word_sum ys"
    using unat_u16_of_be [of "u16_byte 8 ?c" "u16_byte 0 ?c"]
    by (simp add: u16_be_bytes u16_roundtrip del: One_nat_def)
  then have "word_sum (xs @ u16_be ?c @ ys) = ?n + (65535 - ones_sum ?n)"
    using assms by (simp add: word_sum_append unat_inet_checksum)
  moreover have "0 < ?n + (65535 - ones_sum ?n)" by (simp add: ones_sum_def)
  ultimately have "ones_sum (word_sum (xs @ u16_be ?c @ ys)) = 65535"
    using ones_sum_complement by simp
  then have "unat (inet_checksum (xs @ u16_be ?c @ ys)) = 0"
    by (simp add: unat_inet_checksum)
  then show ?thesis unfolding word_unat_eq_iff by (simp only: unsigned_0)
qed

end
