(* ===== verification/NetLink.thy ===== *)
theory NetLink
  imports NetBase
begin

text \<open>
  Hardware addresses and Ethernet frames: \<open>mac.rs\<close>, \<open>ethertype.rs\<close> and
  \<open>ethernet.rs\<close> of \<open>libs/d7net\<close>. A fixed-size byte array is a constructor with one
  argument for each byte, so that an address of the wrong length cannot be written down.
\<close>

subsection \<open>Parsing fields\<close>

text \<open>\<open>u16::from_be_bytes([input[i], input[i + 1]])\<close> and the four-byte variant.\<close>

definition read_u16 :: "bytes \<Rightarrow> nat \<Rightarrow> u16 option" where
  "read_u16 input i = do {
     a \<leftarrow> index input i;
     b \<leftarrow> index input (i + 1);
     Some (u16_of_be a b)
   }"

definition read_u32 :: "bytes \<Rightarrow> nat \<Rightarrow> u32 option" where
  "read_u32 input i = do {
     a \<leftarrow> index input i;
     b \<leftarrow> index input (i + 1);
     c \<leftarrow> index input (i + 2);
     d \<leftarrow> index input (i + 3);
     Some (u32_of_be a b c d)
   }"

lemmas read_simps = index_def slice_def read_u16_def read_u32_def

lemma read_u16_at: "i = length pre \<Longrightarrow> read_u16 (pre @ u16_be v @ post) i = Some v"
  by (simp add: read_u16_def index_def nth_append wire_simps)

lemma read_u32_at: "i = length pre \<Longrightarrow> read_u32 (pre @ u32_be v @ post) i = Some v"
  by (simp add: read_u32_def index_def nth_append wire_simps)

lemma slice_at: "i = length pre \<Longrightarrow> j = i + length xs \<Longrightarrow> slice (pre @ xs @ post) i j = Some xs"
  by (simp add: slice_def)

subsection \<open>MAC addresses (mac.rs)\<close>

datatype MacAddr = MacAddr u8 u8 u8 u8 u8 u8

primrec mac_bytes :: "MacAddr \<Rightarrow> bytes" where
  "mac_bytes (MacAddr a b c d e f) = [a, b, c, d, e, f]"

definition mac_ZERO :: MacAddr where
  "mac_ZERO = MacAddr 0 0 0 0 0 0"

definition mac_BROADCAST :: MacAddr where
  "mac_BROADCAST = MacAddr 0xff 0xff 0xff 0xff 0xff 0xff"

fun mac_from_bytes :: "bytes \<Rightarrow> MacAddr option" where
  "mac_from_bytes [a, b, c, d, e, f] = Some (MacAddr a b c d e f)"
| "mac_from_bytes _ = None"

lemma mac_roundtrip [wire_simps]: "mac_from_bytes (mac_bytes m) = Some m"
  by (cases m) simp

lemma mac_from_bytes_bytes: "mac_from_bytes bs = Some m \<Longrightarrow> mac_bytes m = bs"
  by (cases bs rule: mac_from_bytes.cases) auto

lemma length_mac_bytes [simp]: "length (mac_bytes m) = 6"
  by (cases m) simp

lemma mac_from_bytes_None: "mac_from_bytes bs = None \<longleftrightarrow> length bs \<noteq> 6"
proof -
  have "length bs = 6 \<Longrightarrow> mac_from_bytes bs \<noteq> None"
    by (auto simp: length_Suc_conv eval_nat_numeral)
  moreover have "length bs \<noteq> 6 \<Longrightarrow> mac_from_bytes bs = None"
    by (cases bs rule: mac_from_bytes.cases) auto
  ultimately show ?thesis by blast
qed

subsection \<open>Ether types (ethertype.rs)\<close>

datatype EtherType = Et_Ipv4 | Et_ARP | Et_WakeOnLan | Et_SLPP | Et_Ipv6
  | Et_EthernetFlowControl | Et_EthernetSlowProtocol

primrec ethertype_code :: "EtherType \<Rightarrow> u16" where
  "ethertype_code Et_Ipv4 = 0x0800"
| "ethertype_code Et_ARP = 0x0806"
| "ethertype_code Et_WakeOnLan = 0x0842"
| "ethertype_code Et_SLPP = 0x8102"
| "ethertype_code Et_Ipv6 = 0x86dd"
| "ethertype_code Et_EthernetFlowControl = 0x8808"
| "ethertype_code Et_EthernetSlowProtocol = 0x8809"

definition ethertype_try_from :: "u16 \<Rightarrow> EtherType option" where
  "ethertype_try_from n =
     find (\<lambda>t. ethertype_code t = n)
       [Et_Ipv4, Et_ARP, Et_WakeOnLan, Et_SLPP, Et_Ipv6,
        Et_EthernetFlowControl, Et_EthernetSlowProtocol]"

definition ethertype_from_bytes :: "bytes \<Rightarrow> EtherType option" where
  "ethertype_from_bytes input = do {
     n \<leftarrow> read_u16 input 0;
     ethertype_try_from n
   }"

definition ethertype_to_bytes :: "EtherType \<Rightarrow> bytes" where
  "ethertype_to_bytes t = u16_be (ethertype_code t)"

lemma ethertype_code_roundtrip [wire_simps]: "ethertype_try_from (ethertype_code t) = Some t"
  by (cases t) (simp_all add: ethertype_try_from_def)

lemma ethertype_roundtrip: "ethertype_from_bytes (ethertype_to_bytes t) = Some t"
  by (simp add: ethertype_from_bytes_def ethertype_to_bytes_def read_simps wire_simps)

subsection \<open>Ethernet frames (ethernet.rs)\<close>

record FrameHeader =
  fh_dst_mac :: MacAddr
  fh_src_mac :: MacAddr
  fh_ethertype :: EtherType

record Frame =
  fr_header :: FrameHeader
  fr_payload :: bytes

definition frame_header_from_bytes :: "bytes \<Rightarrow> FrameHeader option" where
  "frame_header_from_bytes input = do {
     d \<leftarrow> slice input 0 6;
     dst \<leftarrow> mac_from_bytes d;
     s \<leftarrow> slice input 6 12;
     src \<leftarrow> mac_from_bytes s;
     e \<leftarrow> slice input 12 14;
     et \<leftarrow> ethertype_from_bytes e;
     Some \<lparr>fh_dst_mac = dst, fh_src_mac = src, fh_ethertype = et\<rparr>
   }"

definition frame_header_to_bytes :: "FrameHeader \<Rightarrow> bytes" where
  "frame_header_to_bytes h =
     mac_bytes (fh_dst_mac h) @ mac_bytes (fh_src_mac h) @ ethertype_to_bytes (fh_ethertype h)"

definition frame_from_bytes :: "bytes \<Rightarrow> Frame option" where
  "frame_from_bytes input = do {
     h \<leftarrow> slice input 0 14;
     header \<leftarrow> frame_header_from_bytes h;
     payload \<leftarrow> slice input 14 (length input);
     Some \<lparr>fr_header = header, fr_payload = payload\<rparr>
   }"

definition frame_to_bytes :: "Frame \<Rightarrow> bytes" where
  "frame_to_bytes f = frame_header_to_bytes (fr_header f) @ fr_payload f"

lemma length_frame_header [simp]: "length (frame_header_to_bytes h) = 14"
  by (simp add: frame_header_to_bytes_def ethertype_to_bytes_def)

lemma frame_header_roundtrip [wire_simps]:
  "frame_header_from_bytes (frame_header_to_bytes h) = Some h"
  by (simp add: frame_header_from_bytes_def frame_header_to_bytes_def slice_def
      ethertype_to_bytes_def mac_roundtrip)
    (simp add: ethertype_roundtrip [unfolded ethertype_to_bytes_def])

lemma frame_roundtrip: "frame_from_bytes (frame_to_bytes f) = Some f"
  by (simp add: frame_from_bytes_def frame_to_bytes_def slice_def wire_simps)

interpretation frames: wire_codec frame_to_bytes frame_from_bytes "\<lambda>_. True"
  by unfold_locales (simp add: frame_roundtrip)

lemma ethertype_from_bytes_code:
  "ethertype_from_bytes [a, b] = Some t \<Longrightarrow> ethertype_to_bytes t = [a, b]"
proof -
  assume "ethertype_from_bytes [a, b] = Some t"
  then have "ethertype_try_from (u16_of_be a b) = Some t"
    by (simp add: ethertype_from_bytes_def read_simps)
  then have "ethertype_code t = u16_of_be a b"
    unfolding ethertype_try_from_def find_Some_iff by blast
  then have "ethertype_to_bytes t = u16_be (u16_of_be a b)" by (simp add: ethertype_to_bytes_def)
  also have "\<dots> = [a, b]" by (rule u16_be_of_be)
  finally show ?thesis .
qed

end
