(* ===== verification/NetAddr.thy ===== *)
theory NetAddr
  imports NetBase
begin

text \<open>
  IP and socket addresses (\<open>libs/d7net/src/ip_addr.rs\<close>): their bytes, and their text form
  with the string functions of the Rust library the parser uses (\<open>split\<close>, \<open>rsplit\<close>,
  \<open>strip_prefix\<close>, \<open>strip_suffix\<close>, \<open>parse\<close>).
\<close>

subsection \<open>String functions of the library\<close>

fun split_on :: "char \<Rightarrow> string \<Rightarrow> string list" where
  "split_on c [] = [[]]"
| "split_on c (x # s) =
     (if x = c then [] # split_on c s
      else (case split_on c s of [] \<Rightarrow> [[x]] | w # ws \<Rightarrow> (x # w) # ws))"

definition rsplit_on :: "char \<Rightarrow> string \<Rightarrow> string list" where
  "rsplit_on c s = rev (split_on c s)"

fun strip_prefix_char :: "char \<Rightarrow> string \<Rightarrow> string option" where
  "strip_prefix_char c [] = None"
| "strip_prefix_char c (x # s) = (if x = c then Some s else None)"

definition strip_suffix_char :: "char \<Rightarrow> string \<Rightarrow> string option" where
  "strip_suffix_char c s = map_option rev (strip_prefix_char c (rev s))"

definition is_digit :: "char \<Rightarrow> bool" where
  "is_digit c \<longleftrightarrow> 48 \<le> (of_char c :: nat) \<and> (of_char c :: nat) \<le> 57"

definition digit_value :: "char \<Rightarrow> nat" where
  "digit_value c = of_char c - 48"

definition digits_value :: "string \<Rightarrow> nat" where
  "digits_value s = fold (\<lambda>c n. 10 * n + digit_value c) s 0"

text \<open>
  \<open>str::parse\<close> at an unsigned type with maximum \<open>hi\<close>: an optional plus sign, then at least
  one digit, and the value has to fit the type.
\<close>

definition parse_unsigned :: "nat \<Rightarrow> string \<Rightarrow> nat option" where
  "parse_unsigned hi s =
     (let ds = (case s of [] \<Rightarrow> [] | c # r \<Rightarrow> if c = CHR ''+'' then r else s)
      in if ds \<noteq> [] \<and> list_all is_digit ds \<and> digits_value ds \<le> hi
         then Some (digits_value ds) else None)"

lemma digit_char:
  assumes "d < 10"
  shows "is_digit (char_of (48 + d))" and "digit_value (char_of (48 + d)) = d"
    and "char_of (48 + d) \<noteq> CHR ''.''" and "char_of (48 + d) \<noteq> CHR '':''"
    and "char_of (48 + d) \<noteq> CHR ''+''" and "char_of (48 + d) \<noteq> CHR ''[''"
    and "char_of (48 + d) \<noteq> CHR '']''"
proof -
  have code: "(of_char (char_of (48 + d) :: char) :: nat) = 48 + d"
    using assms by (simp add: of_char_of)
  show "is_digit (char_of (48 + d))" using assms by (simp add: is_digit_def code)
  show "digit_value (char_of (48 + d)) = d"
    using assms by (simp add: digit_value_def code)
  have "char_of (48 + d) = c \<Longrightarrow> of_char c = 48 + d" for c using code by auto
  then show "char_of (48 + d) \<noteq> CHR ''.''" "char_of (48 + d) \<noteq> CHR '':''"
    "char_of (48 + d) \<noteq> CHR ''+''" "char_of (48 + d) \<noteq> CHR ''[''" "char_of (48 + d) \<noteq> CHR '']''"
    using assms by fastforce+
qed

definition plain_digits :: "string \<Rightarrow> bool" where
  "plain_digits s \<longleftrightarrow> s \<noteq> [] \<and> list_all is_digit s \<and>
     list_all (\<lambda>c. c \<notin> {CHR ''.'', CHR '':'', CHR ''+'', CHR ''['', CHR '']''}) s"

lemma show_nat_digits: "plain_digits (show_nat n) \<and> digits_value (show_nat n) = n"
proof (induction n rule: show_nat.induct)
  case (1 n)
  show ?case
  proof (cases "n < 10")
    case True
    then show ?thesis
      by (simp add: show_nat.simps [of n] plain_digits_def digits_value_def digit_char)
  next
    case False
    have "n mod 10 < 10" by simp
    note d = digit_char [OF this]
    from 1 [OF False] show ?thesis
      using False d by (simp add: show_nat.simps [of n] plain_digits_def digits_value_def)
  qed
qed

lemma parse_unsigned_show: "n \<le> hi \<Longrightarrow> parse_unsigned hi (show_nat n) = Some n"
  using show_nat_digits [of n]
  by (cases "show_nat n") (auto simp: parse_unsigned_def plain_digits_def)

lemma split_on_nonempty: "split_on c s \<noteq> []"
  by (cases s) (auto split: list.splits)

lemma split_on_append:
  "c \<notin> set w \<Longrightarrow> split_on c (w @ c # s) = w # split_on c s"
  by (induction w) auto

lemma split_on_single: "c \<notin> set w \<Longrightarrow> split_on c w = [w]"
  by (induction w) auto

lemma show_nat_no_separator:
  "CHR ''.'' \<notin> set (show_nat n)" "CHR '':'' \<notin> set (show_nat n)"
  "CHR ''['' \<notin> set (show_nat n)" "CHR '']'' \<notin> set (show_nat n)"
  using show_nat_digits [of n] by (auto simp: plain_digits_def list_all_iff)

subsection \<open>Addresses\<close>

datatype Ipv4Addr = Ipv4Addr u8 u8 u8 u8

datatype Ipv6Addr = Ipv6Addr u8 u8 u8 u8 u8 u8 u8 u8 u8 u8 u8 u8 u8 u8 u8 u8

primrec ipv4_bytes :: "Ipv4Addr \<Rightarrow> bytes" where
  "ipv4_bytes (Ipv4Addr a b c d) = [a, b, c, d]"

primrec ipv6_bytes :: "Ipv6Addr \<Rightarrow> bytes" where
  "ipv6_bytes (Ipv6Addr a b c d e f g h i j k l m n p q) =
     [a, b, c, d, e, f, g, h, i, j, k, l, m, n, p, q]"

definition ipv4_ZERO :: Ipv4Addr where
  "ipv4_ZERO = Ipv4Addr 0 0 0 0"

definition ipv4_LOCALHOST :: Ipv4Addr where
  "ipv4_LOCALHOST = Ipv4Addr 127 0 0 1"

definition ipv4_BROADCAST :: Ipv4Addr where
  "ipv4_BROADCAST = Ipv4Addr 255 255 255 255"

fun ipv4_from_bytes :: "bytes \<Rightarrow> Ipv4Addr option" where
  "ipv4_from_bytes [a, b, c, d] = Some (Ipv4Addr a b c d)"
| "ipv4_from_bytes _ = None"

fun ipv6_from_bytes :: "bytes \<Rightarrow> Ipv6Addr option" where
  "ipv6_from_bytes [a, b, c, d, e, f, g, h, i, j, k, l, m, n, p, q] =
     Some (Ipv6Addr a b c d e f g h i j k l m n p q)"
| "ipv6_from_bytes _ = None"

datatype IpAddr = V4 Ipv4Addr | V6 Ipv6Addr

definition ip_from_bytes :: "bytes \<Rightarrow> IpAddr option" where
  "ip_from_bytes bs =
     (if length bs = 4 then map_option V4 (ipv4_from_bytes bs)
      else if length bs = 16 then map_option V6 (ipv6_from_bytes bs)
      else None)"

record SocketAddr =
  sa_host :: IpAddr
  sa_port :: u16

definition socket_ZERO :: SocketAddr where
  "socket_ZERO = \<lparr>sa_host = V4 ipv4_ZERO, sa_port = 0\<rparr>"

lemma ipv4_roundtrip [wire_simps]: "ipv4_from_bytes (ipv4_bytes a) = Some a"
  by (cases a) simp

lemma length_ipv4_bytes [simp]: "length (ipv4_bytes a) = 4"
  by (cases a) simp

lemma length_ipv6_bytes [simp]: "length (ipv6_bytes a) = 16"
  by (cases a) simp

lemma ipv6_roundtrip [wire_simps]: "ipv6_from_bytes (ipv6_bytes a) = Some a"
  by (cases a) simp

lemma ip_roundtrip:
  "ip_from_bytes (ipv4_bytes a) = Some (V4 a)" "ip_from_bytes (ipv6_bytes b) = Some (V6 b)"
  by (simp_all add: ip_from_bytes_def ipv4_roundtrip ipv6_roundtrip)

subsection \<open>Text form\<close>

datatype AddrError = InvalidIpv4Addr | InvalidIpAddr | InvalidSocketAddr

fun display_parts :: "bytes \<Rightarrow> string" where
  "display_parts [] = []"
| "display_parts [p] = show_nat (unat p)"
| "display_parts (p # q # ps) = show_nat (unat p) @ CHR ''.'' # display_parts (q # ps)"

definition ipv4_display :: "Ipv4Addr \<Rightarrow> string" where
  "ipv4_display a = display_parts (ipv4_bytes a)"

text \<open>The loop over the buffer: \<open>n\<close> parts are taken from the iterator \<open>s\<close>.\<close>

fun ipv4_parts :: "nat \<Rightarrow> string list \<Rightarrow> (bytes \<times> string list) option" where
  "ipv4_parts 0 s = Some ([], s)"
| "ipv4_parts (Suc n) [] = None"
| "ipv4_parts (Suc n) (a # s) = do {
     v \<leftarrow> parse_unsigned 255 a;
     (vs, s') \<leftarrow> ipv4_parts n s;
     Some (word_of_nat v # vs, s')
   }"

definition ipv4_try_from :: "string \<Rightarrow> AddrError + Ipv4Addr" where
  "ipv4_try_from value =
     (case ipv4_parts 4 (split_on CHR ''.'' value) of
        None \<Rightarrow> Inl InvalidIpv4Addr
      | Some (buffer, s) \<Rightarrow>
          if s \<noteq> [] then Inl InvalidIpv4Addr
          else (case ipv4_from_bytes buffer of
                  None \<Rightarrow> Inl InvalidIpv4Addr | Some a \<Rightarrow> Inr a))"

definition ip_try_from :: "string \<Rightarrow> AddrError + IpAddr" where
  "ip_try_from value =
     (case ipv4_try_from value of Inl _ \<Rightarrow> Inl InvalidIpAddr | Inr a \<Rightarrow> Inr (V4 a))"

definition socket_try_from_host_port :: "string \<Rightarrow> u16 \<Rightarrow> AddrError + SocketAddr" where
  "socket_try_from_host_port host_str port =
     (case ip_try_from host_str of
        Inl _ \<Rightarrow> Inl InvalidSocketAddr
      | Inr host \<Rightarrow> Inr \<lparr>sa_host = host, sa_port = port\<rparr>)"

definition strip_brackets :: "string \<Rightarrow> string" where
  "strip_brackets host_str =
     (case Option.bind (strip_prefix_char CHR ''['' host_str) (strip_suffix_char CHR '']'') of
        None \<Rightarrow> host_str
      | Some s \<Rightarrow> s)"

definition socket_try_from :: "string \<Rightarrow> AddrError + SocketAddr" where
  "socket_try_from value =
     (case rsplit_on CHR '':'' value of
        [] \<Rightarrow> Inl InvalidSocketAddr
      | p # it \<Rightarrow>
          (case parse_unsigned 65535 p of
             None \<Rightarrow> Inl InvalidSocketAddr
           | Some port \<Rightarrow>
               (case it of
                  [host_str] \<Rightarrow>
                    socket_try_from_host_port (strip_brackets host_str) (word_of_nat port)
                | _ \<Rightarrow> Inl InvalidSocketAddr)))"

lemma u8_parse_show: "parse_unsigned 255 (show_nat (unat (b :: u8))) = Some (unat b)"
  by (rule parse_unsigned_show) (use unsigned_less [of b, where 'a = nat] in simp)

lemma u16_parse_show: "parse_unsigned 65535 (show_nat (unat (b :: u16))) = Some (unat b)"
  by (rule parse_unsigned_show) (use unsigned_less [of b, where 'a = nat] in simp)

lemma ipv4_display_split:
  "split_on CHR ''.'' (ipv4_display (Ipv4Addr a b c d)) =
     [show_nat (unat a), show_nat (unat b), show_nat (unat c), show_nat (unat d)]"
  by (simp add: ipv4_display_def split_on_append split_on_single show_nat_no_separator)

lemma ipv4_try_from_display: "ipv4_try_from (ipv4_display a) = Inr a"
proof (cases a)
  case (Ipv4Addr a b c d)
  have four: "(4::nat) = Suc (Suc (Suc (Suc 0)))" by simp
  show ?thesis
    unfolding Ipv4Addr ipv4_try_from_def ipv4_display_split four
    by (simp add: u8_parse_show)
qed

lemma ipv4_display_no_separator:
  "CHR '':'' \<notin> set (ipv4_display a)" "CHR ''['' \<notin> set (ipv4_display a)"
  by (cases a, simp add: ipv4_display_def show_nat_no_separator)+

lemma strip_brackets_plain: "CHR ''['' \<notin> set s \<Longrightarrow> strip_brackets s = s"
  by (cases s) (auto simp: strip_brackets_def)

lemma strip_brackets_bracketed: "strip_brackets (CHR ''['' # s @ [CHR '']'']) = s"
  by (simp add: strip_brackets_def strip_suffix_char_def)

lemma socket_try_from_text:
  assumes "CHR '':'' \<notin> set h"
  shows "socket_try_from (h @ CHR '':'' # show_nat (unat port)) =
    socket_try_from_host_port (strip_brackets h) port"
  using assms
  by (simp add: socket_try_from_def rsplit_on_def split_on_append split_on_single
      show_nat_no_separator u16_parse_show)

text \<open>The text form of addresses reads back: parsing the displayed form of an IPv4 address
  gives the address, and a socket address written as host, colon and port parses to that host
  and port, with or without square brackets around the host.\<close>

lemma address_text_roundtrip:
  "ipv4_try_from (ipv4_display a) = Inr a \<and>
   socket_try_from (ipv4_display a @ '':'' @ show_nat (unat port)) =
     Inr \<lparr>sa_host = V4 a, sa_port = port\<rparr> \<and>
   socket_try_from (''['' @ ipv4_display a @ '']:'' @ show_nat (unat port)) =
     Inr \<lparr>sa_host = V4 a, sa_port = port\<rparr>"
proof (intro conjI)
  show plain: "ipv4_try_from (ipv4_display a) = Inr a" by (rule ipv4_try_from_display)
  show "socket_try_from (ipv4_display a @ '':'' @ show_nat (unat port)) =
      Inr \<lparr>sa_host = V4 a, sa_port = port\<rparr>"
    using socket_try_from_text [of "ipv4_display a" port]
    by (simp add: ipv4_display_no_separator strip_brackets_plain socket_try_from_host_port_def
        ip_try_from_def plain)
  show "socket_try_from (''['' @ ipv4_display a @ '']:'' @ show_nat (unat port)) =
      Inr \<lparr>sa_host = V4 a, sa_port = port\<rparr>"
    using socket_try_from_text [of "''['' @ ipv4_display a @ '']''" port]
    by (simp add: ipv4_display_no_separator strip_brackets_bracketed
        socket_try_from_host_port_def ip_try_from_def plain)
qed

end
