(* ===== verification/IpProtocols.thy ===== *)
theory IpProtocols
  imports NetBase
begin

text \<open>
  The protocol numbers of \<open>libs/d7net/src/ip_protocol.rs\<close>. The enumeration is
  \<open>repr(u8)\<close> with the discriminants \<open>0\<close> to \<open>142\<close> and \<open>253\<close> to \<open>255\<close>; a variant is
  its discriminant, and the variants the code names have a constant each.
\<close>

typedef IpProtocol = "{n :: u8. n \<le> 142 \<or> 253 \<le> n}"
  morphisms ip_protocol_code IpProtocol
  by (rule exI [of _ 0]) simp

setup_lifting type_definition_IpProtocol

lift_definition ICMP :: IpProtocol is 1 by simp
lift_definition TCP :: IpProtocol is 6 by simp
lift_definition UDP :: IpProtocol is 17 by simp

definition ip_protocol_try_from :: "u8 \<Rightarrow> IpProtocol option" where
  "ip_protocol_try_from n = (if n \<le> 142 \<or> 253 \<le> n then Some (IpProtocol n) else None)"

lemma ip_protocol_roundtrip [wire_simps]:
  "ip_protocol_try_from (ip_protocol_code p) = Some p"
  using ip_protocol_code [of p] by (simp add: ip_protocol_try_from_def ip_protocol_code_inverse)

lemma ip_protocol_try_from_code: "ip_protocol_try_from n = Some p \<Longrightarrow> ip_protocol_code p = n"
  by (auto simp: ip_protocol_try_from_def IpProtocol_inverse split: if_splits)

lemmas ip_protocol_codes [simp] = ICMP.rep_eq TCP.rep_eq UDP.rep_eq

lemma ip_protocols_distinct [simp]: "TCP \<noteq> UDP" "UDP \<noteq> TCP"
  by (simp_all add: ip_protocol_code_inject [symmetric])

end
