(* ===== verification/NetIp.thy ===== *)
theory NetIp
  imports NetLink NetAddr IpProtocols
begin

text \<open>
  The IPv4, UDP and ARP formats of \<open>libs/d7net\<close> (\<open>ipv4.rs\<close>, \<open>udp.rs\<close>, \<open>arp.rs\<close>) and
  the UDP builder (\<open>builder/ipv4_udp.rs\<close>). A parser panics (\<open>None\<close>) on malformed data.
\<close>

unbundle bit_operations_syntax

subsection \<open>IPv4 (ipv4.rs)\<close>

record Ipv4Header =
  ip_dscp_and_ecn :: u8
  ip_payload_len :: u16
  ip_identification :: u16
  ip_flags_and_frament :: u16
  ip_ttl :: u8
  ip_protocol :: IpProtocol
  ip_src_ip :: Ipv4Addr
  ip_dst_ip :: Ipv4Addr

record Ipv4Packet =
  ipp_header :: Ipv4Header
  ipp_payload :: bytes

definition ipv4_header_from_bytes :: "bytes \<Rightarrow> Ipv4Header option" where
  "ipv4_header_from_bytes input = do {
     b0 \<leftarrow> index input 0;
     rassert (drop_bit 4 b0 = 4);
     rassert (b0 AND 0xf = 5);
     total_len \<leftarrow> read_u16 input 2;
     rassert (20 \<le> total_len);
     dscp \<leftarrow> index input 1;
     ident \<leftarrow> read_u16 input 4;
     flags \<leftarrow> read_u16 input 6;
     ttl \<leftarrow> index input 8;
     p \<leftarrow> index input 9;
     proto \<leftarrow> ip_protocol_try_from p;
     s \<leftarrow> slice input 12 16;
     src \<leftarrow> ipv4_from_bytes s;
     d \<leftarrow> slice input 16 20;
     dst \<leftarrow> ipv4_from_bytes d;
     Some \<lparr>ip_dscp_and_ecn = dscp, ip_payload_len = total_len - 20, ip_identification = ident,
           ip_flags_and_frament = flags, ip_ttl = ttl, ip_protocol = proto,
           ip_src_ip = src, ip_dst_ip = dst\<rparr>
   }"

definition ipv4_packet_from_bytes :: "bytes \<Rightarrow> Ipv4Packet option" where
  "ipv4_packet_from_bytes input = do {
     h \<leftarrow> slice input 0 20;
     header \<leftarrow> ipv4_header_from_bytes h;
     payload \<leftarrow> slice input 20 (20 + unat (ip_payload_len header));
     Some \<lparr>ipp_header = header, ipp_payload = payload\<rparr>
   }"

definition ipv4_header_to_bytes :: "Ipv4Header \<Rightarrow> nat \<Rightarrow> bytes" where
  "ipv4_header_to_bytes h payload_len =
     (let result =
            [0x45, ip_dscp_and_ecn h]
            @ u16_be (20 + word_of_nat payload_len)
            @ u16_be (ip_identification h)
            @ u16_be (ip_flags_and_frament h)
            @ [ip_ttl h, ip_protocol_code (ip_protocol h)]
            @ u16_be 0
            @ ipv4_bytes (ip_src_ip h)
            @ ipv4_bytes (ip_dst_ip h);
          checksum = inet_checksum result
      in take 10 result @ u16_be checksum @ drop 12 result)"

text \<open>The header with its checksum in place, and what the parser reads from it.\<close>

lemma length_ipv4_header [simp]: "length (ipv4_header_to_bytes h n) = 20"
  by (simp add: ipv4_header_to_bytes_def Let_def)

lemma ipv4_header_checksum_ok: "inet_checksum (ipv4_header_to_bytes h n) = 0"
proof -
  let ?xs = "[0x45, ip_dscp_and_ecn h] @ u16_be (20 + word_of_nat n) @ u16_be (ip_identification h)
    @ u16_be (ip_flags_and_frament h) @ [ip_ttl h, ip_protocol_code (ip_protocol h)]"
  let ?ys = "ipv4_bytes (ip_src_ip h) @ ipv4_bytes (ip_dst_ip h)"
  have zero: "u16_be 0 = [0, 0]" by (simp add: u16_be_bytes u16_byte_def)
  have "ipv4_header_to_bytes h n = ?xs @ u16_be (inet_checksum (?xs @ [0, 0] @ ?ys)) @ ?ys"
    by (simp add: ipv4_header_to_bytes_def Let_def zero)
  moreover have "even (length ?xs)" by simp
  ultimately show ?thesis by (simp only: inet_checksum_embed)
qed

lemma total_len_ok:
  assumes "n \<le> 65515"
  shows "(20 :: u16) \<le> 20 + word_of_nat n"
proof -
  have "unat (20 + word_of_nat n :: u16) = 20 + n"
    using assms by (simp add: unat_word_ariths unat_of_nat)
  then show ?thesis by (simp add: word_le_nat_alt)
qed

lemma ipv4_header_roundtrip:
  assumes "n \<le> 65515"
  shows "ipv4_header_from_bytes (ipv4_header_to_bytes h n) =
    Some (h\<lparr>ip_payload_len := word_of_nat n\<rparr>)"
proof -
  obtain a b c d where src: "ip_src_ip h = Ipv4Addr a b c d" by (cases "ip_src_ip h")
  obtain a' b' c' d' where dst: "ip_dst_ip h = Ipv4Addr a' b' c' d'" by (cases "ip_dst_ip h")
  show ?thesis
    using total_len_ok [OF assms]
    by (simp add: ipv4_header_from_bytes_def ipv4_header_to_bytes_def Let_def src dst
        read_simps wire_simps)
qed

lemma ipv4_packet_roundtrip:
  assumes "length payload \<le> 65515"
  shows "ipv4_packet_from_bytes (ipv4_header_to_bytes h (length payload) @ payload @ pad) =
    Some \<lparr>ipp_header = h\<lparr>ip_payload_len := word_of_nat (length payload)\<rparr>, ipp_payload = payload\<rparr>"
proof -
  have "unat (word_of_nat (length payload) :: u16) = length payload"
    using assms by (simp add: unat_of_nat)
  then show ?thesis
    by (simp add: ipv4_packet_from_bytes_def slice_def ipv4_header_roundtrip [OF assms])
qed

subsection \<open>UDP (udp.rs)\<close>

record UdpHeader =
  udp_src_port :: u16
  udp_dst_port :: u16
  udp_length :: u16
  udp_checksum :: u16

record UdpPacket =
  udp_header :: UdpHeader
  udp_payload :: bytes

definition udp_header_from_bytes :: "bytes \<Rightarrow> UdpHeader option" where
  "udp_header_from_bytes input = do {
     src_port \<leftarrow> read_u16 input 0;
     dst_port \<leftarrow> read_u16 input 2;
     len \<leftarrow> read_u16 input 4;
     checksum \<leftarrow> read_u16 input 6;
     Some \<lparr>udp_src_port = src_port, udp_dst_port = dst_port, udp_length = len,
           udp_checksum = checksum\<rparr>
   }"

definition udp_header_to_bytes :: "UdpHeader \<Rightarrow> bytes" where
  "udp_header_to_bytes h =
     u16_be (udp_src_port h) @ u16_be (udp_dst_port h) @ u16_be (udp_length h)
     @ u16_be (udp_checksum h)"

definition udp_packet_from_bytes :: "bytes \<Rightarrow> UdpPacket option" where
  "udp_packet_from_bytes input = do {
     h \<leftarrow> slice input 0 8;
     header \<leftarrow> udp_header_from_bytes h;
     payload \<leftarrow> slice input 8 (unat (udp_length header));
     Some \<lparr>udp_header = header, udp_payload = payload\<rparr>
   }"

definition udp_packet_to_bytes :: "UdpPacket \<Rightarrow> bytes option" where
  "udp_packet_to_bytes p =
     (let result = udp_header_to_bytes (udp_header p) @ udp_payload p
      in do { rassert (length result = unat (udp_length (udp_header p))); Some result })"

lemma length_udp_header [simp]: "length (udp_header_to_bytes h) = 8"
  by (simp add: udp_header_to_bytes_def)

lemma udp_header_roundtrip: "udp_header_from_bytes (udp_header_to_bytes h) = Some h"
  by (simp add: udp_header_from_bytes_def udp_header_to_bytes_def read_simps wire_simps)

interpretation udp_headers: wire_codec udp_header_to_bytes udp_header_from_bytes "\<lambda>_. True"
  by unfold_locales (simp add: udp_header_roundtrip)

lemma udp_packet_parse:
  assumes "unat (udp_length h) = 8 + length payload"
  shows "udp_packet_from_bytes (udp_header_to_bytes h @ payload @ pad) =
    Some \<lparr>udp_header = h, udp_payload = payload\<rparr>"
  using assms by (simp add: udp_packet_from_bytes_def slice_def udp_header_roundtrip)

lemma udp_packet_roundtrip:
  "udp_packet_to_bytes p = Some bs \<Longrightarrow> udp_packet_from_bytes bs = Some p"
  using udp_packet_parse [of "udp_header p" "udp_payload p" "[]"]
  by (auto simp: udp_packet_to_bytes_def Let_def split: if_splits)

subsection \<open>ARP (arp.rs)\<close>

datatype Operation = Request | Reply

record ArpPacket =
  arp_ptype :: EtherType
  arp_operation :: Operation
  arp_src_hw :: MacAddr
  arp_src_ip :: Ipv4Addr
  arp_dst_hw :: MacAddr
  arp_dst_ip :: Ipv4Addr

definition operation_from_bytes :: "bytes \<Rightarrow> Operation option" where
  "operation_from_bytes bs = do {
     b0 \<leftarrow> index bs 0;
     rassert (b0 = 0);
     b1 \<leftarrow> index bs 1;
     if b1 = 1 then Some Request else if b1 = 2 then Some Reply else None
   }"

definition arp_from_bytes :: "bytes \<Rightarrow> ArpPacket option" where
  "arp_from_bytes input = do {
     htype \<leftarrow> slice input 0 2;
     rassert (htype = [0, 1]);
     hlen \<leftarrow> map_option unat (index input 4);
     plen \<leftarrow> map_option unat (index input 5);
     rassert (hlen = 6);
     rassert (plen = 4);
     pt \<leftarrow> slice input 2 4;
     ptype \<leftarrow> ethertype_from_bytes pt;
     op \<leftarrow> slice input 6 8;
     operation \<leftarrow> operation_from_bytes op;
     sh \<leftarrow> slice input 8 (8 + hlen);
     src_hw \<leftarrow> mac_from_bytes sh;
     si \<leftarrow> slice input (8 + hlen) (8 + hlen + plen);
     src_ip \<leftarrow> ipv4_from_bytes si;
     dh \<leftarrow> slice input (8 + hlen + plen) (8 + hlen * 2 + plen);
     dst_hw \<leftarrow> mac_from_bytes dh;
     di \<leftarrow> slice input (8 + hlen * 2 + plen) (8 + hlen * 2 + plen * 2);
     dst_ip \<leftarrow> ipv4_from_bytes di;
     Some \<lparr>arp_ptype = ptype, arp_operation = operation, arp_src_hw = src_hw,
           arp_src_ip = src_ip, arp_dst_hw = dst_hw, arp_dst_ip = dst_ip\<rparr>
   }"

definition arp_to_bytes :: "ArpPacket \<Rightarrow> bytes" where
  "arp_to_bytes p =
     [0, 1, 8, 0, 6, 4, 0, (case arp_operation p of Request \<Rightarrow> 1 | Reply \<Rightarrow> 2)]
     @ mac_bytes (arp_src_hw p) @ ipv4_bytes (arp_src_ip p)
     @ mac_bytes (arp_dst_hw p) @ ipv4_bytes (arp_dst_ip p)"

definition arp_is_request :: "ArpPacket \<Rightarrow> bool" where
  "arp_is_request p \<longleftrightarrow> arp_operation p = Request"

definition arp_to_reply :: "ArpPacket \<Rightarrow> MacAddr \<Rightarrow> Ipv4Addr \<Rightarrow> ArpPacket option" where
  "arp_to_reply p mac ip = do {
     rassert (arp_is_request p);
     Some (p\<lparr>arp_operation := Reply, arp_dst_hw := arp_src_hw p, arp_dst_ip := arp_src_ip p,
             arp_src_hw := mac, arp_src_ip := ip\<rparr>)
   }"

lemma ethertype_ipv4_bytes: "ethertype_from_bytes [8, 0] = Some Et_Ipv4"
proof -
  have "[8, 0] = ethertype_to_bytes Et_Ipv4"
    by (simp add: ethertype_to_bytes_def u16_be_bytes u16_byte_def)
  then show ?thesis by (simp only: ethertype_roundtrip)
qed

text \<open>Trailing padding of a short frame is ignored.\<close>

lemma arp_parse_padded:
  "arp_from_bytes (arp_to_bytes p @ pad) = Some (p\<lparr>arp_ptype := Et_Ipv4\<rparr>)"
proof -
  obtain a b c d e f where sh: "arp_src_hw p = MacAddr a b c d e f" by (cases "arp_src_hw p")
  obtain a' b' c' d' e' f' where dh: "arp_dst_hw p = MacAddr a' b' c' d' e' f'"
    by (cases "arp_dst_hw p")
  obtain g h i j where si: "arp_src_ip p = Ipv4Addr g h i j" by (cases "arp_src_ip p")
  obtain g' h' i' j' where di: "arp_dst_ip p = Ipv4Addr g' h' i' j'" by (cases "arp_dst_ip p")
  show ?thesis
    by (cases "arp_operation p")
      (simp_all add: arp_from_bytes_def arp_to_bytes_def slice_def index_def sh dh si di
        ethertype_ipv4_bytes operation_from_bytes_def)
qed

interpretation arp_packets: wire_codec arp_to_bytes arp_from_bytes "\<lambda>p. arp_ptype p = Et_Ipv4"
  by unfold_locales (use arp_parse_padded [where pad = "[]"] in simp)

subsection \<open>Building UDP datagrams (builder/ipv4_udp.rs)\<close>

record UdpBuilder =
  ub_ipv4_header :: Ipv4Header
  ub_udp_header :: UdpHeader
  ub_payload :: bytes

definition udp_builder_new ::
  "Ipv4Addr \<Rightarrow> Ipv4Addr \<Rightarrow> u16 \<Rightarrow> u16 \<Rightarrow> bytes \<Rightarrow> UdpBuilder" where
  "udp_builder_new src_ip dst_ip src_port dst_port payload =
     \<lparr>ub_ipv4_header =
        \<lparr>ip_dscp_and_ecn = 0, ip_payload_len = 0, ip_identification = 0,
         ip_flags_and_frament = 0, ip_ttl = 64, ip_protocol = UDP,
         ip_src_ip = src_ip, ip_dst_ip = dst_ip\<rparr>,
      ub_udp_header =
        \<lparr>udp_src_port = src_port, udp_dst_port = dst_port, udp_length = 0, udp_checksum = 0\<rparr>,
      ub_payload = payload\<rparr>"

text \<open>The pseudo header of the transport checksum.\<close>

definition pseudo_header :: "Ipv4Header \<Rightarrow> IpProtocol \<Rightarrow> u16 \<Rightarrow> bytes" where
  "pseudo_header h proto len =
     ipv4_bytes (ip_src_ip h) @ ipv4_bytes (ip_dst_ip h) @ [0, ip_protocol_code proto]
     @ u16_be len"

definition udp_build :: "UdpBuilder \<Rightarrow> bytes" where
  "udp_build self =
     (let hdr = (ub_udp_header self)\<lparr>udp_length := word_of_nat (8 + length (ub_payload self))\<rparr>;
          cksm_buf = pseudo_header (ub_ipv4_header self) UDP (udp_length hdr)
            @ udp_header_to_bytes hdr @ ub_payload self;
          hdr' = hdr\<lparr>udp_checksum := inet_checksum cksm_buf\<rparr>;
          udp = udp_header_to_bytes hdr'
      in ipv4_header_to_bytes (ub_ipv4_header self) (length udp + length (ub_payload self))
         @ udp @ ub_payload self)"

lemma length_pseudo_header [simp]: "length (pseudo_header h p n) = 12"
  by (simp add: pseudo_header_def)

lemma udp_checksum_ok:
  assumes "udp_checksum hdr = 0"
  shows "inet_checksum (pseudo_header iph p n
    @ udp_header_to_bytes (hdr\<lparr>udp_checksum :=
        inet_checksum (pseudo_header iph p n @ udp_header_to_bytes hdr @ payload)\<rparr>)
    @ payload) = 0"
proof -
  let ?xs = "pseudo_header iph p n @ u16_be (udp_src_port hdr) @ u16_be (udp_dst_port hdr)
    @ u16_be (udp_length hdr)"
  have "u16_be 0 = [0, 0]" by (simp add: u16_be_bytes u16_byte_def)
  moreover have "even (length ?xs)" by simp
  ultimately show ?thesis
    using inet_checksum_embed [of ?xs payload] assms by (simp add: udp_header_to_bytes_def)
qed

text \<open>A built UDP datagram is what its receiver expects: for a payload of at most 65507
  bytes, parsing the bytes (even with padding behind them, as short frames have) gives an
  IPv4 packet with the builder's addresses and protocol UDP whose payload parses to a UDP packet
  with the builder's ports and exactly the given payload; the IPv4 header checksum and the UDP
  checksum over pseudo header and datagram both verify.\<close>

lemma udp_build_parses:
  assumes len_ok: "length payload \<le> 65507"
  shows "\<exists>ip udp.
    ipv4_packet_from_bytes
      (udp_build (udp_builder_new src_ip dst_ip src_port dst_port payload) @ pad) = Some ip
    \<and> ip_src_ip (ipp_header ip) = src_ip \<and> ip_dst_ip (ipp_header ip) = dst_ip
    \<and> ip_protocol (ipp_header ip) = UDP
    \<and> udp_packet_from_bytes (ipp_payload ip) = Some udp
    \<and> udp_src_port (udp_header udp) = src_port \<and> udp_dst_port (udp_header udp) = dst_port
    \<and> udp_payload udp = payload
    \<and> inet_checksum
        (take 20 (udp_build (udp_builder_new src_ip dst_ip src_port dst_port payload))) = 0
    \<and> inet_checksum (pseudo_header (ipp_header ip) UDP (udp_length (udp_header udp))
        @ ipp_payload ip) = 0"
proof -
  let ?n = "length payload"
  define iph where
    "iph = ub_ipv4_header (udp_builder_new src_ip dst_ip src_port dst_port payload)"
  define hdr where "hdr = \<lparr>udp_src_port = src_port, udp_dst_port = dst_port,
    udp_length = word_of_nat (8 + ?n), udp_checksum = 0\<rparr>"
  define hdr' where "hdr' = hdr\<lparr>udp_checksum :=
    inet_checksum (pseudo_header iph UDP (udp_length hdr) @ udp_header_to_bytes hdr @ payload)\<rparr>"
  have build: "udp_build (udp_builder_new src_ip dst_ip src_port dst_port payload) =
      ipv4_header_to_bytes iph (length (udp_header_to_bytes hdr' @ payload))
      @ udp_header_to_bytes hdr' @ payload"
    unfolding hdr'_def hdr_def iph_def by (simp add: udp_build_def udp_builder_new_def Let_def)
  have len: "unat (udp_length hdr') = 8 + ?n"
    using len_ok by (simp add: hdr'_def hdr_def unat_of_nat del: of_nat_add)
  have ip: "ipv4_packet_from_bytes
      (ipv4_header_to_bytes iph (length (udp_header_to_bytes hdr' @ payload))
        @ (udp_header_to_bytes hdr' @ payload) @ pad)
    = Some \<lparr>ipp_header = iph\<lparr>ip_payload_len := word_of_nat (length (udp_header_to_bytes hdr' @ payload))\<rparr>,
        ipp_payload = udp_header_to_bytes hdr' @ payload\<rparr>"
    using len_ok by (intro ipv4_packet_roundtrip) simp
  have udp: "udp_packet_from_bytes (udp_header_to_bytes hdr' @ payload) =
      Some \<lparr>udp_header = hdr', udp_payload = payload\<rparr>"
    using udp_packet_parse [OF len, of "[]"] by simp
  have ck: "inet_checksum (pseudo_header iph UDP (udp_length hdr')
      @ udp_header_to_bytes hdr' @ payload) = 0"
    using udp_checksum_ok [of hdr iph UDP "udp_length hdr" payload]
    by (simp add: hdr'_def) (simp add: hdr_def)
  let ?ip = "\<lparr>ipp_header = iph\<lparr>ip_payload_len := word_of_nat (length (udp_header_to_bytes hdr' @ payload))\<rparr>,
        ipp_payload = udp_header_to_bytes hdr' @ payload\<rparr>"
  let ?udp = "\<lparr>udp_header = hdr', udp_payload = payload\<rparr>"
  have ps: "pseudo_header (iph\<lparr>ip_payload_len := x\<rparr>) = pseudo_header iph" for x
    by (simp add: pseudo_header_def fun_eq_iff)
  show ?thesis
  proof (rule exI [of _ ?ip], rule exI [of _ ?udp], intro conjI)
    show "ipv4_packet_from_bytes
        (udp_build (udp_builder_new src_ip dst_ip src_port dst_port payload) @ pad) = Some ?ip"
      using ip by (simp add: build)
    show "udp_packet_from_bytes (ipp_payload ?ip) = Some ?udp" using udp by simp
    show "inet_checksum
        (take 20 (udp_build (udp_builder_new src_ip dst_ip src_port dst_port payload))) = 0"
      by (simp add: build ipv4_header_checksum_ok)
    show "inet_checksum (pseudo_header (ipp_header ?ip) UDP (udp_length (udp_header ?udp))
        @ ipp_payload ?ip) = 0"
      using ck by (simp add: ps)
  qed (simp_all add: iph_def hdr'_def hdr_def udp_builder_new_def)
qed

lemma udp_build_parses_example:
  "\<exists>ip udp.
    ipv4_packet_from_bytes
      (udp_build (udp_builder_new ipv4_LOCALHOST ipv4_BROADCAST 68 67 [1, 2, 3]) @ [0]) = Some ip
    \<and> ip_src_ip (ipp_header ip) = ipv4_LOCALHOST
    \<and> udp_packet_from_bytes (ipp_payload ip) = Some udp \<and> udp_payload udp = [1, 2, 3]"
  using udp_build_parses [of "[1, 2, 3]" ipv4_LOCALHOST ipv4_BROADCAST 68 67 "[0]"] by auto

end
