(* ===== verification/NetTcp.thy ===== *)
theory NetTcp
  imports NetIp
begin

text \<open>
  TCP segments (\<open>libs/d7net/src/tcp/segment.rs\<close>) and their builder
  (\<open>builder/ipv4_tcp.rs\<close>). The flag set \<open>SegmentFlags\<close> is a \<open>bitflags\<close> type of the
  external crate \<open>tcpstate\<close>: a value is its bits, and the union of the declared flags is the
  parameter \<open>all_flags\<close> of the parser (\<open>from_bits_truncate\<close> keeps the declared bits).
\<close>

unbundle bit_operations_syntax

subsection \<open>Segment options\<close>

record SegmentOptions =
  so_segemnt_max_size :: "u16 option"

definition segment_options_empty :: SegmentOptions where
  "segment_options_empty = \<lparr>so_segemnt_max_size = None\<rparr>"

fun segment_options_loop :: "SegmentOptions \<Rightarrow> bytes \<Rightarrow> SegmentOptions option" where
  "segment_options_loop result [] = Some result"
| "segment_options_loop result (b # input) =
     (if b = 0 then Some result
      else if b = 1 then segment_options_loop result input
      else if b = 2 then
        (case input of
           l # x # y # input' \<Rightarrow>
             if l = 4
             then segment_options_loop (result\<lparr>so_segemnt_max_size := Some (u16_of_be x y)\<rparr>) input'
             else None
         | _ \<Rightarrow> None)
      else None)"

definition segment_options_from_bytes :: "bytes \<Rightarrow> SegmentOptions option" where
  "segment_options_from_bytes input = segment_options_loop segment_options_empty input"

subsection \<open>Segments\<close>

record SegmentHeader =
  sh_src_port :: u16
  sh_dst_port :: u16
  sh_sequence :: u32
  sh_ack_number :: u32
  sh_flags :: u16
  sh_window_size :: u16
  sh_options :: SegmentOptions
  sh_checksum :: u16
  sh_offset :: nat

record Segment =
  seg_header :: SegmentHeader
  seg_payload :: bytes

definition OFFSET_NO_OPTIONS :: nat where
  "OFFSET_NO_OPTIONS = 20"

definition from_bits_truncate :: "u16 \<Rightarrow> u16 \<Rightarrow> u16" where
  "from_bits_truncate all_flags bits = bits AND all_flags"

definition segment_header_from_bytes :: "u16 \<Rightarrow> bytes \<Rightarrow> SegmentHeader option" where
  "segment_header_from_bytes all_flags input = do {
     offset_and_flags \<leftarrow> read_u16 input 12;
     let offset = unat (drop_bit 12 offset_and_flags) * 4;
     let flags = from_bits_truncate all_flags (offset_and_flags AND 0x1f);
     option_bytes \<leftarrow> slice input OFFSET_NO_OPTIONS offset;
     src_port \<leftarrow> read_u16 input 0;
     dst_port \<leftarrow> read_u16 input 2;
     sequence \<leftarrow> read_u32 input 4;
     ack_number \<leftarrow> read_u32 input 8;
     window_size \<leftarrow> read_u16 input 14;
     options \<leftarrow> segment_options_from_bytes option_bytes;
     Some \<lparr>sh_src_port = src_port, sh_dst_port = dst_port, sh_sequence = sequence,
           sh_ack_number = ack_number, sh_flags = flags, sh_window_size = window_size,
           sh_options = options, sh_checksum = 0, sh_offset = offset\<rparr>
   }"

definition segment_from_bytes :: "u16 \<Rightarrow> bytes \<Rightarrow> Segment option" where
  "segment_from_bytes all_flags input = do {
     header \<leftarrow> segment_header_from_bytes all_flags input;
     payload \<leftarrow> slice input (sh_offset header) (length input);
     Some \<lparr>seg_header = header, seg_payload = payload\<rparr>
   }"

definition segment_header_to_bytes :: "SegmentHeader \<Rightarrow> bytes" where
  "segment_header_to_bytes h =
     (let data_offset = push_bit 12 (word_of_nat (sh_offset h div 4));
          b = data_offset OR sh_flags h
      in u16_be (sh_src_port h) @ u16_be (sh_dst_port h) @ u32_be (sh_sequence h)
         @ u32_be (sh_ack_number h) @ u16_be b @ u16_be (sh_window_size h)
         @ u16_be (sh_checksum h) @ u16_be 0)"

text \<open>The classification of segments, with the flag constants of the external crate.\<close>

definition seg_flags_contain :: "u16 \<Rightarrow> u16 \<Rightarrow> bool" where
  "seg_flags_contain flags f \<longleftrightarrow> flags AND f = f"

definition is_initialization :: "u16 \<Rightarrow> u16 \<Rightarrow> SegmentHeader \<Rightarrow> bool" where
  "is_initialization SYN ACK h \<longleftrightarrow>
     seg_flags_contain (sh_flags h) SYN \<and> \<not> seg_flags_contain (sh_flags h) ACK"

definition is_initialization_reply :: "u16 \<Rightarrow> u16 \<Rightarrow> SegmentHeader \<Rightarrow> bool" where
  "is_initialization_reply SYN ACK h \<longleftrightarrow>
     seg_flags_contain (sh_flags h) SYN \<and> seg_flags_contain (sh_flags h) ACK"

definition is_normal :: "u16 \<Rightarrow> u16 \<Rightarrow> u16 \<Rightarrow> SegmentHeader \<Rightarrow> bool" where
  "is_normal SYN ACK FIN h \<longleftrightarrow>
     seg_flags_contain (sh_flags h) ACK
     \<and> \<not> (seg_flags_contain (sh_flags h) SYN \<or> seg_flags_contain (sh_flags h) FIN)"

lemma segment_kinds_exclusive:
  "\<not> (is_initialization SYN ACK h \<and> is_initialization_reply SYN ACK h)"
  "\<not> (is_initialization SYN ACK h \<and> is_normal SYN ACK FIN h)"
  "\<not> (is_initialization_reply SYN ACK h \<and> is_normal SYN ACK FIN h)"
  by (auto simp: is_initialization_def is_initialization_reply_def is_normal_def)

subsection \<open>Building segments (builder/ipv4_tcp.rs)\<close>

record TcpBuilder =
  tb_ipv4_header :: Ipv4Header
  tb_tcp_header :: SegmentHeader
  tb_payload :: bytes

definition tcp_builder_new ::
  "Ipv4Addr \<Rightarrow> Ipv4Addr \<Rightarrow> u16 \<Rightarrow> u16 \<Rightarrow> u32 \<Rightarrow> u32 \<Rightarrow> u16 \<Rightarrow> u16 \<Rightarrow> bytes \<Rightarrow> TcpBuilder" where
  "tcp_builder_new src_ip dst_ip src_port dst_port sequence ack_number window_size flags payload =
     \<lparr>tb_ipv4_header =
        \<lparr>ip_dscp_and_ecn = 0, ip_payload_len = 0, ip_identification = 0,
         ip_flags_and_frament = 0, ip_ttl = 64, ip_protocol = TCP,
         ip_src_ip = src_ip, ip_dst_ip = dst_ip\<rparr>,
      tb_tcp_header =
        \<lparr>sh_src_port = src_port, sh_dst_port = dst_port, sh_sequence = sequence,
         sh_ack_number = ack_number, sh_flags = flags, sh_window_size = window_size,
         sh_options = segment_options_empty, sh_checksum = 0, sh_offset = OFFSET_NO_OPTIONS\<rparr>,
      tb_payload = payload\<rparr>"

definition tcp_build :: "TcpBuilder \<Rightarrow> bytes" where
  "tcp_build self =
     (let hdr = (tb_tcp_header self)\<lparr>sh_checksum := 0\<rparr>;
          cksm_buf =
            pseudo_header (tb_ipv4_header self) TCP
              (word_of_nat (length (segment_header_to_bytes hdr) + length (tb_payload self)))
            @ segment_header_to_bytes hdr @ tb_payload self;
          hdr' = hdr\<lparr>sh_checksum := inet_checksum cksm_buf\<rparr>;
          tcp_header = segment_header_to_bytes hdr'
      in ipv4_header_to_bytes (tb_ipv4_header self) (length tcp_header + length (tb_payload self))
         @ tcp_header @ tb_payload self)"

subsection \<open>What a receiver reads\<close>

lemma length_segment_header [simp]: "length (segment_header_to_bytes h) = 20"
  by (simp add: segment_header_to_bytes_def Let_def)

lemma offset_word_20:
  assumes "flags AND 0xf000 = (0 :: u16)"
  shows "drop_bit 12 (push_bit 12 5 OR flags) = (5 :: u16)"
    and "(push_bit 12 5 OR flags) AND 0x1f = flags AND (0x1f :: u16)"
proof -
  have "drop_bit 12 flags = 0"
  proof (rule bit_eqI)
    fix n
    assume "possible_bit TYPE(16 word) n"
    have "n < 4 \<Longrightarrow> bit (0xf000 :: u16) (12 + n)"
      by (simp add: numeral_eq_Suc less_Suc_eq) auto
    moreover have "\<not> bit (flags AND 0xf000) (12 + n)" using assms by simp
    moreover have "\<not> n < 4 \<Longrightarrow> \<not> bit flags (12 + n)"
      by (auto dest: bit_imp_le_length)
    ultimately show "bit (drop_bit 12 flags) n \<longleftrightarrow> bit (0 :: u16) n"
      by (auto simp: bit_drop_bit_eq bit_and_iff)
  qed
  moreover have "drop_bit 12 (push_bit 12 5 :: u16) = 5" by simp
  ultimately show "drop_bit 12 (push_bit 12 5 OR flags) = (5 :: u16)"
    by (simp only: drop_bit_or or.right_neutral)
  have "(push_bit 12 5 :: u16) AND 0x1f = 0" by simp
  then show "(push_bit 12 5 OR flags) AND 0x1f = flags AND (0x1f :: u16)"
    by (simp only: and.commute [of _ "0x1f"] bit.conj_disj_distrib or.left_neutral)
qed

lemma segment_parse:
  assumes "sh_offset h = OFFSET_NO_OPTIONS" and "sh_flags h AND 0xf000 = 0"
  shows "segment_from_bytes all_flags (segment_header_to_bytes h @ payload) =
    Some \<lparr>seg_header = h\<lparr>sh_flags := from_bits_truncate all_flags (sh_flags h AND 0x1f),
            sh_options := segment_options_empty, sh_checksum := 0\<rparr>,
          seg_payload = payload\<rparr>"
proof -
  have off: "word_of_nat (sh_offset h div 4) = (5 :: u16)" and off20: "sh_offset h = 20"
    using assms(1) by (simp_all add: OFFSET_NO_OPTIONS_def)
  show ?thesis
    using offset_word_20 [OF assms(2)] off20
    by (simp add: segment_from_bytes_def segment_header_from_bytes_def segment_header_to_bytes_def
        Let_def off read_simps wire_simps OFFSET_NO_OPTIONS_def segment_options_from_bytes_def)
qed

lemma tcp_checksum_ok:
  assumes "sh_checksum hdr = 0"
  shows "inet_checksum (pseudo_header iph p n
    @ segment_header_to_bytes (hdr\<lparr>sh_checksum :=
        inet_checksum (pseudo_header iph p n @ segment_header_to_bytes hdr @ payload)\<rparr>)
    @ payload) = 0"
proof -
  let ?xs = "pseudo_header iph p n @ u16_be (sh_src_port hdr) @ u16_be (sh_dst_port hdr)
    @ u32_be (sh_sequence hdr) @ u32_be (sh_ack_number hdr)
    @ u16_be (push_bit 12 (word_of_nat (sh_offset hdr div 4)) OR sh_flags hdr)
    @ u16_be (sh_window_size hdr)"
  have "u16_be 0 = [0, 0]" by (simp add: u16_be_bytes u16_byte_def)
  moreover have "even (length ?xs)" by simp
  ultimately show ?thesis
    using inet_checksum_embed [of ?xs "[0, 0] @ payload"] assms
    by (simp add: segment_header_to_bytes_def Let_def)
qed

text \<open>C34: A built TCP segment is what its receiver expects: for a payload of at most 65495
  bytes and flags that are declared flag bits below the data offset, parsing the bytes gives an
  IPv4 packet with the builder's addresses and protocol TCP whose payload parses to a segment
  with the builder's ports, sequence and acknowledgement numbers, window and exactly the given
  payload; of the flags the parser keeps the low five. The IPv4 header checksum and the TCP
  checksum over pseudo header and segment both verify.\<close>

theorem tcp_build_parses:
  assumes len_ok: "length payload \<le> 65495"
    and low: "flags AND 0xf000 = 0" and declared: "flags AND all_flags = flags"
  shows "\<exists>ip seg.
    ipv4_packet_from_bytes (tcp_build
      (tcp_builder_new src_ip dst_ip src_port dst_port sq ackn window flags payload)) = Some ip
    \<and> ip_src_ip (ipp_header ip) = src_ip \<and> ip_dst_ip (ipp_header ip) = dst_ip
    \<and> ip_protocol (ipp_header ip) = TCP
    \<and> segment_from_bytes all_flags (ipp_payload ip) = Some seg
    \<and> sh_src_port (seg_header seg) = src_port \<and> sh_dst_port (seg_header seg) = dst_port
    \<and> sh_sequence (seg_header seg) = sq \<and> sh_ack_number (seg_header seg) = ackn
    \<and> sh_window_size (seg_header seg) = window \<and> sh_flags (seg_header seg) = flags AND 0x1f
    \<and> seg_payload seg = payload
    \<and> inet_checksum (take 20 (tcp_build
        (tcp_builder_new src_ip dst_ip src_port dst_port sq ackn window flags payload))) = 0
    \<and> inet_checksum (pseudo_header (ipp_header ip) TCP (word_of_nat (length (ipp_payload ip)))
        @ ipp_payload ip) = 0"
proof -
  let ?self = "tcp_builder_new src_ip dst_ip src_port dst_port sq ackn window flags payload"
  define iph where "iph = tb_ipv4_header ?self"
  define hdr where "hdr = tb_tcp_header ?self"
  define n where "n = (word_of_nat (20 + length payload) :: u16)"
  define hdr' where "hdr' = hdr\<lparr>sh_checksum :=
    inet_checksum (pseudo_header iph TCP n @ segment_header_to_bytes hdr @ payload)\<rparr>"
  let ?seg = "segment_header_to_bytes hdr' @ payload"
  let ?ip = "\<lparr>ipp_header = iph\<lparr>ip_payload_len := word_of_nat (length ?seg)\<rparr>, ipp_payload = ?seg\<rparr>"
  have build: "tcp_build ?self = ipv4_header_to_bytes iph (length ?seg) @ ?seg"
    by (simp add: tcp_build_def Let_def iph_def hdr_def hdr'_def n_def tcp_builder_new_def)
  have ip: "ipv4_packet_from_bytes (tcp_build ?self) = Some ?ip"
    using ipv4_packet_roundtrip [of ?seg iph "[]"] len_ok by (simp add: build)
  have keep: "from_bits_truncate all_flags (flags AND 0x1f) = flags AND 0x1f"
    using declared by (simp add: from_bits_truncate_def and.assoc and.commute [of "0x1f"])
      (simp add: and.assoc [symmetric])
  have fields: "sh_offset hdr' = OFFSET_NO_OPTIONS" "sh_flags hdr' = flags"
    by (simp_all add: hdr'_def hdr_def tcp_builder_new_def)
  have seg: "segment_from_bytes all_flags ?seg = Some
      \<lparr>seg_header = hdr'\<lparr>sh_flags := flags AND 0x1f, sh_options := segment_options_empty,
         sh_checksum := 0\<rparr>, seg_payload = payload\<rparr>"
    using segment_parse [of hdr' all_flags payload] fields low by (simp add: keep)
  have ps: "pseudo_header (iph\<lparr>ip_payload_len := x\<rparr>) = pseudo_header iph" for x
    by (simp add: pseudo_header_def fun_eq_iff)
  have ck: "inet_checksum (pseudo_header iph TCP n @ ?seg) = 0"
    using tcp_checksum_ok [of hdr iph TCP n payload]
    by (simp add: hdr'_def) (simp add: hdr_def tcp_builder_new_def)
  show ?thesis
  proof (rule exI [of _ ?ip], rule exI, intro conjI)
    show "ipv4_packet_from_bytes (tcp_build ?self) = Some ?ip" by (rule ip)
    show "segment_from_bytes all_flags (ipp_payload ?ip) = Some
      \<lparr>seg_header = hdr'\<lparr>sh_flags := flags AND 0x1f, sh_options := segment_options_empty,
         sh_checksum := 0\<rparr>, seg_payload = payload\<rparr>"
      using seg by simp
    show "inet_checksum (take 20 (tcp_build ?self)) = 0"
      by (simp add: build ipv4_header_checksum_ok)
    show "inet_checksum (pseudo_header (ipp_header ?ip) TCP (word_of_nat (length (ipp_payload ?ip)))
        @ ipp_payload ?ip) = 0"
      using ck by (simp add: ps n_def)
  qed (simp_all add: iph_def hdr'_def hdr_def tcp_builder_new_def)
qed

theorem tcp_build_parses_witness:
  "\<exists>ip seg.
    ipv4_packet_from_bytes (tcp_build
      (tcp_builder_new ipv4_LOCALHOST ipv4_LOCALHOST 80 49152 7 9 1000 0x12 [65, 66])) = Some ip
    \<and> segment_from_bytes 0x1ff (ipp_payload ip) = Some seg
    \<and> sh_flags (seg_header seg) = 0x12 \<and> seg_payload seg = [65, 66]"
  using tcp_build_parses [of "[65, 66]" "0x12" "0x1ff" ipv4_LOCALHOST ipv4_LOCALHOST 80 49152 7 9 1000]
  by auto

end
