(* ===== verification/NetDhcp.thy ===== *)
theory NetDhcp
  imports NetLink NetAddr
begin

text \<open>
  The DHCP format of \<open>libs/d7net/src/dhcp.rs\<close>. A parser or a serialiser that reaches an
  assertion, an \<open>expect\<close> or a \<open>todo!\<close> panics (\<open>None\<close>).
\<close>

subsection \<open>Types\<close>

definition MAGIC_COOKIE :: u32 where
  "MAGIC_COOKIE = 0x63825363"

datatype MsgType = QUERY | REPLY

primrec msg_type_code :: "MsgType \<Rightarrow> u8" where
  "msg_type_code QUERY = 1"
| "msg_type_code REPLY = 2"

definition msg_type_try_from :: "u8 \<Rightarrow> MsgType option" where
  "msg_type_try_from n = (if n = 1 then Some QUERY else if n = 2 then Some REPLY else None)"

datatype Op = DISCOVER | OFFER | REQUEST | DECLINE | ACK | NAK | RELEASE | INFORM | FORCERENEW
  | LEASEQUERY | LEASEUNASSIGNED | LEASEUNKNOWN | LEASEACTIVE | BULKLEASEQUERY | LEASEQUERYDONE
  | ACTIVELEASEQUERY | LEASEQUERYSTATUS | TLS

primrec op_code :: "Op \<Rightarrow> u8" where
  "op_code DISCOVER = 1"
| "op_code OFFER = 2"
| "op_code REQUEST = 3"
| "op_code DECLINE = 4"
| "op_code ACK = 5"
| "op_code NAK = 6"
| "op_code RELEASE = 7"
| "op_code INFORM = 8"
| "op_code FORCERENEW = 9"
| "op_code LEASEQUERY = 10"
| "op_code LEASEUNASSIGNED = 11"
| "op_code LEASEUNKNOWN = 12"
| "op_code LEASEACTIVE = 13"
| "op_code BULKLEASEQUERY = 14"
| "op_code LEASEQUERYDONE = 15"
| "op_code ACTIVELEASEQUERY = 16"
| "op_code LEASEQUERYSTATUS = 17"
| "op_code TLS = 18"

definition op_try_from :: "u8 \<Rightarrow> Op option" where
  "op_try_from n = find (\<lambda>p. op_code p = n)
     [DISCOVER, OFFER, REQUEST, DECLINE, ACK, NAK, RELEASE, INFORM, FORCERENEW, LEASEQUERY,
      LEASEUNASSIGNED, LEASEUNKNOWN, LEASEACTIVE, BULKLEASEQUERY, LEASEQUERYDONE,
      ACTIVELEASEQUERY, LEASEQUERYSTATUS, TLS]"

datatype ParamReq = PrSubnetMask | PrRouter | PrDNSServer | PrDomainName

primrec param_req_code :: "ParamReq \<Rightarrow> u8" where
  "param_req_code PrSubnetMask = 0x01"
| "param_req_code PrRouter = 0x03"
| "param_req_code PrDNSServer = 0x06"
| "param_req_code PrDomainName = 0x0f"

definition param_req_try_from :: "u8 \<Rightarrow> ParamReq option" where
  "param_req_try_from n =
     find (\<lambda>p. param_req_code p = n) [PrSubnetMask, PrRouter, PrDNSServer, PrDomainName]"

datatype DhcpOption = Pad | DOp Op | SubnetMask Ipv4Addr | Routers "Ipv4Addr list"
  | DnsServers "Ipv4Addr list" | LeaseTime u32 | RequestedAddress Ipv4Addr | ServerId Ipv4Addr
  | ParamReqList "ParamReq list" | End | Unknown

record DhcpPayload =
  dh_op :: MsgType
  dh_xid :: u32
  dh_client_ip :: Ipv4Addr
  dh_your_ip :: Ipv4Addr
  dh_server_ip :: Ipv4Addr
  dh_gateway_ip :: Ipv4Addr
  dh_mac_addr :: MacAddr
  dh_options :: "DhcpOption list"

subsection \<open>Options\<close>

definition read_ipv4_items :: "bytes \<Rightarrow> nat \<Rightarrow> Ipv4Addr list option" where
  "read_ipv4_items bs len = do {
     rassert (len mod 4 = 0);
     foldM (\<lambda>items i. do {
       s \<leftarrow> slice bs (2 + i * 4) (2 + i * 4 + 4);
       a \<leftarrow> ipv4_from_bytes s;
       Some (items @ [a])
     }) [] [0..<len div 4]
   }"

definition read_option_item :: "bytes \<Rightarrow> u8 \<Rightarrow> nat \<Rightarrow> DhcpOption option" where
  "read_option_item bs code len =
     (if code = 0x01 then do {
        rassert (len = 4); s \<leftarrow> slice bs 2 6; a \<leftarrow> ipv4_from_bytes s; Some (SubnetMask a) }
      else if code = 0x03 then map_option Routers (read_ipv4_items bs len)
      else if code = 0x06 then map_option DnsServers (read_ipv4_items bs len)
      else if code = 0x33 then do {
        rassert (len = 4); t \<leftarrow> read_u32 bs 2; Some (LeaseTime t) }
      else if code = 0x35 then do {
        rassert (len = 1); b \<leftarrow> index bs 2; p \<leftarrow> op_try_from b; Some (DOp p) }
      else if code = 0x36 then do {
        rassert (len = 4); s \<leftarrow> slice bs 2 6; a \<leftarrow> ipv4_from_bytes s; Some (ServerId a) }
      else if code = 0x37 then do {
        s \<leftarrow> slice bs 2 (2 + len);
        items \<leftarrow> those (map param_req_try_from s);
        Some (ParamReqList items) }
      else Some Unknown)"

definition option_from_bytes :: "bytes \<Rightarrow> (DhcpOption \<times> nat) option" where
  "option_from_bytes bs = do {
     code \<leftarrow> index bs 0;
     if code = 0x00 then Some (Pad, 1)
     else if code = 0xff then Some (End, 1)
     else do {
       len \<leftarrow> map_option unat (index bs 1);
       item \<leftarrow> read_option_item bs code len;
       Some (item, 2 + len)
     }
   }"

primrec option_to_bytes :: "DhcpOption \<Rightarrow> bytes option" where
  "option_to_bytes Pad = Some [0x00]"
| "option_to_bytes End = Some [0xff]"
| "option_to_bytes (DOp p) = Some [0x35, 0x01, op_code p]"
| "option_to_bytes (RequestedAddress addr) = Some ([0x32, 0x04] @ ipv4_bytes addr)"
| "option_to_bytes (ServerId sid) = Some ([0x36, 0x04] @ ipv4_bytes sid)"
| "option_to_bytes (ParamReqList items) =
     Some ([0x37, word_of_nat (length items)] @ map param_req_code items)"
| "option_to_bytes (SubnetMask _) = None"
| "option_to_bytes (Routers _) = None"
| "option_to_bytes (DnsServers _) = None"
| "option_to_bytes (LeaseTime _) = None"
| "option_to_bytes Unknown = None"

lemma option_from_bytes_advances: "option_from_bytes bs = Some (opt, n) \<Longrightarrow> bs \<noteq> [] \<and> 0 < n"
  by (auto simp: option_from_bytes_def index_def split: if_splits bind_splits)

subsection \<open>Payloads\<close>

definition payload_discover :: "u32 \<Rightarrow> MacAddr \<Rightarrow> DhcpPayload" where
  "payload_discover xid mac_addr =
     \<lparr>dh_op = QUERY, dh_xid = xid, dh_client_ip = ipv4_ZERO, dh_your_ip = ipv4_ZERO,
      dh_server_ip = ipv4_ZERO, dh_gateway_ip = ipv4_ZERO, dh_mac_addr = mac_addr,
      dh_options = [DOp DISCOVER]\<rparr>"

definition payload_request :: "u32 \<Rightarrow> MacAddr \<Rightarrow> Ipv4Addr \<Rightarrow> Ipv4Addr \<Rightarrow> DhcpPayload" where
  "payload_request xid mac_addr client_ip server_ip =
     \<lparr>dh_op = QUERY, dh_xid = xid, dh_client_ip = client_ip, dh_your_ip = ipv4_ZERO,
      dh_server_ip = server_ip, dh_gateway_ip = ipv4_ZERO, dh_mac_addr = mac_addr,
      dh_options = [DOp REQUEST, RequestedAddress client_ip, ServerId server_ip,
        ParamReqList [PrSubnetMask, PrRouter, PrDNSServer]]\<rparr>"

text \<open>The loop over the options; every option moves the index forward, so it ends.\<close>

function read_options :: "bytes \<Rightarrow> nat \<Rightarrow> DhcpOption list option" where
  "read_options bs i = do {
     rest \<leftarrow> slice bs i (length bs);
     (opt, len) \<leftarrow> option_from_bytes rest;
     if opt = End then Some []
     else do { opts \<leftarrow> read_options bs (i + len); Some (opt # opts) }
   }"
  by pat_completeness auto

termination
proof (relation "measure (\<lambda>(bs, i). length bs - i)")
  fix bs :: bytes and i rest opt_len opt len
  assume "slice bs i (length bs) = Some rest" and "option_from_bytes rest = Some opt_len"
    and "(opt, len) = opt_len"
  then have "0 < length rest" and "0 < len" and "i \<le> length bs" and "length rest = length bs - i"
    using option_from_bytes_advances [of rest opt len] by (auto simp: slice_def split: if_splits)
  then show "((bs, i + len), bs, i) \<in> measure (\<lambda>(bs, i). length bs - i)" by simp
qed simp

declare read_options.simps [simp del]

definition payload_from_bytes :: "bytes \<Rightarrow> DhcpPayload option" where
  "payload_from_bytes bs = do {
     b0 \<leftarrow> index bs 0;
     msg \<leftarrow> msg_type_try_from b0;
     htype \<leftarrow> index bs 1;
     rassert (htype = 0x01);
     hlen \<leftarrow> index bs 2;
     rassert (hlen = 0x06);
     hops \<leftarrow> index bs 3;
     rassert (hops = 0x00);
     xid \<leftarrow> read_u32 bs 4;
     ci \<leftarrow> slice bs 12 16;
     client_ip \<leftarrow> ipv4_from_bytes ci;
     yi \<leftarrow> slice bs 16 20;
     your_ip \<leftarrow> ipv4_from_bytes yi;
     si \<leftarrow> slice bs 20 24;
     server_ip \<leftarrow> ipv4_from_bytes si;
     gi \<leftarrow> slice bs 24 28;
     gateway_ip \<leftarrow> ipv4_from_bytes gi;
     m \<leftarrow> slice bs 28 34;
     mac_addr \<leftarrow> mac_from_bytes m;
     magic \<leftarrow> read_u32 bs (44 + 64 + 128);
     rassert (magic = MAGIC_COOKIE);
     options \<leftarrow> read_options bs (44 + 64 + 128 + 4);
     Some \<lparr>dh_op = msg, dh_xid = xid, dh_client_ip = client_ip, dh_your_ip = your_ip,
           dh_server_ip = server_ip, dh_gateway_ip = gateway_ip, dh_mac_addr = mac_addr,
           dh_options = options\<rparr>
   }"

definition options_to_bytes :: "DhcpOption list \<Rightarrow> bytes option" where
  "options_to_bytes opts =
     foldM (\<lambda>result opt. do { b \<leftarrow> option_to_bytes opt; Some (result @ b) }) [] opts"

definition payload_header :: "DhcpPayload \<Rightarrow> bytes" where
  "payload_header p =
     [msg_type_code (dh_op p), 0x01, 0x06, 0x00] @ u32_be (dh_xid p) @ [0, 0, 0, 0]
     @ ipv4_bytes (dh_client_ip p) @ ipv4_bytes (dh_your_ip p)
     @ ipv4_bytes (dh_server_ip p) @ ipv4_bytes (dh_gateway_ip p)
     @ mac_bytes (dh_mac_addr p) @ replicate 10 0 @ replicate 64 0 @ replicate 128 0
     @ u32_be MAGIC_COOKIE"

definition payload_to_bytes :: "DhcpPayload \<Rightarrow> bytes option" where
  "payload_to_bytes p = do {
     opts \<leftarrow> options_to_bytes (dh_options p);
     Some (payload_header p @ opts @ [0xff])
   }"

subsection \<open>Reading back what was written\<close>

lemma op_roundtrip: "op_try_from (op_code p) = Some p"
  by (cases p) (simp_all add: op_try_from_def)

lemma msg_type_roundtrip: "msg_type_try_from (msg_type_code m) = Some m"
  by (cases m) (simp_all add: msg_type_try_from_def)

lemma param_req_roundtrip: "param_req_try_from (param_req_code r) = Some r"
  by (cases r) (simp_all add: param_req_try_from_def)

lemma those_param_reqs: "those (map (param_req_try_from \<circ> param_req_code) items) = Some items"
  by (induction items) (simp_all add: param_req_roundtrip)

text \<open>What the parser makes of an option: it does not know the requested address.\<close>

fun reread :: "DhcpOption \<Rightarrow> DhcpOption" where
  "reread (RequestedAddress _) = Unknown"
| "reread opt = opt"

fun fits :: "DhcpOption \<Rightarrow> bool" where
  "fits (ParamReqList items) \<longleftrightarrow> length items < 256"
| "fits _ \<longleftrightarrow> True"

lemma option_reads:
  assumes "option_to_bytes opt = Some b" and "fits opt"
  shows "option_from_bytes (b @ post) = Some (reread opt, length b)"
proof (cases opt)
  case (RequestedAddress a)
  then show ?thesis using assms
    by (cases a) (auto simp: option_from_bytes_def read_option_item_def index_def)
next
  case (ServerId a)
  then show ?thesis using assms
    by (cases a) (auto simp: option_from_bytes_def read_option_item_def index_def slice_def)
next
  case (ParamReqList items)
  have "unat (word_of_nat (length items) :: u8) = length items"
    using assms(2) ParamReqList by (simp add: unat_of_nat)
  then show ?thesis using assms ParamReqList
    by (auto simp: option_from_bytes_def read_option_item_def index_def slice_def those_param_reqs)
qed (use assms in \<open>auto simp: option_from_bytes_def read_option_item_def index_def op_roundtrip\<close>)

lemma reread_End: "reread opt = End \<longleftrightarrow> opt = End"
  by (cases opt) auto

lemma foldM_append_bytes:
  "foldM (\<lambda>result opt. do { b \<leftarrow> f opt; Some (result @ b) }) acc opts =
     map_option (\<lambda>bs. acc @ concat bs) (those (map f opts))"
  by (induction opts arbitrary: acc) (auto split: option.splits bind_splits simp: option.map_comp o_def)

lemma options_to_bytes_Cons:
  "options_to_bytes (opt # opts) = Some bs \<longleftrightarrow>
     (\<exists>b bs'. option_to_bytes opt = Some b \<and> options_to_bytes opts = Some bs' \<and> bs = b @ bs')"
  by (auto simp: options_to_bytes_def foldM_append_bytes split: option.splits)

lemma read_options_at:
  assumes "options_to_bytes opts = Some bs" and "list_all fits opts"
  shows "read_options (pre @ bs @ 0xff # post) (length pre) =
    Some (map reread (takeWhile (\<lambda>opt. opt \<noteq> End) opts))"
  using assms
proof (induction opts arbitrary: pre bs)
  case Nil
  then show ?case
    by (simp add: options_to_bytes_def read_options.simps [of _ "length pre"] slice_def
        option_from_bytes_def index_def)
next
  case (Cons opt opts)
  then obtain b bs' where b: "option_to_bytes opt = Some b" and bs': "options_to_bytes opts = Some bs'"
    and bs: "bs = b @ bs'" by (auto simp: options_to_bytes_Cons)
  let ?data = "pre @ bs @ 0xff # post"
  have "option_from_bytes (b @ bs' @ 0xff # post) = Some (reread opt, length b)"
    using option_reads [OF b] Cons.prems by simp
  then have first: "read_options ?data (length pre) =
    (if reread opt = End then Some []
     else do { r \<leftarrow> read_options ?data (length pre + length b); Some (reread opt # r) })"
    by (simp add: read_options.simps [of _ "length pre"] slice_def bs)
  have "read_options ((pre @ b) @ bs' @ 0xff # post) (length (pre @ b)) =
      Some (map reread (takeWhile (\<lambda>opt. opt \<noteq> End) opts))"
    by (rule Cons.IH [OF bs']) (use Cons.prems in simp)
  then show ?case unfolding first by (simp add: reread_End bs)
qed

lemma length_payload_header: "length (payload_header p) = 240"
  by (simp add: payload_header_def)

lemma payload_header_reads:
  "index (payload_header p @ rest) 0 = Some (msg_type_code (dh_op p))"
  "index (payload_header p @ rest) 1 = Some 0x01" "index (payload_header p @ rest) 2 = Some 0x06"
  "index (payload_header p @ rest) 3 = Some 0x00"
  "read_u32 (payload_header p @ rest) 4 = Some (dh_xid p)"
  "slice (payload_header p @ rest) 12 16 = Some (ipv4_bytes (dh_client_ip p))"
  "slice (payload_header p @ rest) 16 20 = Some (ipv4_bytes (dh_your_ip p))"
  "slice (payload_header p @ rest) 20 24 = Some (ipv4_bytes (dh_server_ip p))"
  "slice (payload_header p @ rest) 24 28 = Some (ipv4_bytes (dh_gateway_ip p))"
  "slice (payload_header p @ rest) 28 34 = Some (mac_bytes (dh_mac_addr p))"
  by (simp_all add: payload_header_def index_def read_u32_def slice_def wire_simps)

lemma payload_header_magic: "read_u32 (payload_header p @ rest) 236 = Some MAGIC_COOKIE"
proof -
  obtain pre where "payload_header p = pre @ u32_be MAGIC_COOKIE" and "length pre = 236"
  proof
    show "payload_header p = take 236 (payload_header p) @ u32_be MAGIC_COOKIE"
      by (simp add: payload_header_def)
    show "length (take 236 (payload_header p)) = 236" by (simp add: length_payload_header)
  qed
  then show ?thesis using read_u32_at [of 236 pre MAGIC_COOKIE rest] by simp
qed

text \<open>A DHCP message reads back as it was written: when serialisation succeeds and no
  parameter request list is longer than its length byte can say, parsing gives the same message
  type, transaction id, addresses and hardware address, and the options up to the first end
  marker, where a requested address comes back as an unknown option.\<close>

lemma dhcp_roundtrip:
  assumes "payload_to_bytes p = Some bs" and "list_all fits (dh_options p)"
  shows "payload_from_bytes (bs @ post) =
    Some (p\<lparr>dh_options := map reread (takeWhile (\<lambda>opt. opt \<noteq> End) (dh_options p))\<rparr>)"
proof -
  obtain opts where opts: "options_to_bytes (dh_options p) = Some opts"
    and bs: "bs = payload_header p @ opts @ [0xff]"
    using assms(1) by (auto simp: payload_to_bytes_def bind_eq_Some_conv)
  have o: "read_options (payload_header p @ opts @ 0xff # post) 240 =
      Some (map reread (takeWhile (\<lambda>opt. opt \<noteq> End) (dh_options p)))"
    using read_options_at [OF opts assms(2), of "payload_header p" post]
    by (simp add: length_payload_header)
  have num: "44 + 64 + 128 = (236 :: nat)" "236 + 4 = (240 :: nat)" by simp_all
  show ?thesis
    unfolding payload_from_bytes_def bs append_assoc append_Cons append_Nil num
      payload_header_reads payload_header_magic o
    by (simp add: msg_type_roundtrip ipv4_roundtrip mac_roundtrip)
qed

lemma discover_bytes:
  "payload_to_bytes (payload_discover 1 mac_BROADCAST) =
     Some (payload_header (payload_discover 1 mac_BROADCAST) @ [0x35, 1, 1, 0xff])"
  by (simp add: payload_to_bytes_def payload_discover_def options_to_bytes_def)

lemma dhcp_roundtrip_example:
  "payload_from_bytes
     (payload_header (payload_discover 1 mac_BROADCAST) @ [0x35, 1, 1, 0xff]) =
   Some (payload_discover 1 mac_BROADCAST)"
  using dhcp_roundtrip [OF discover_bytes, of "[]"] by (simp add: payload_discover_def)

end
