(* ===== verification/NetDns.thy ===== *)
theory NetDns
  imports NetLink NetAddr
begin

text \<open>
  The DNS client format of \<open>libs/d7net/src/dns.rs\<close>: questions and replies. Following
  compression pointers in a reply need not end, so the functions that read names are
  \<open>partial_function (option)\<close>: the outer \<open>None\<close> is a run that does not return, and
  \<open>Some None\<close> is a panic. The debug assertion on the length of an MX name is not compiled
  into release builds.
\<close>

unbundle bit_operations_syntax

subsection \<open>Types\<close>

datatype RCode = Success | FormatError | ServerError | NxDomainCode | NotSupported | Refused

definition rcode_try_from :: "u8 \<Rightarrow> RCode option" where
  "rcode_try_from n =
     (if n = 0 then Some Success else if n = 1 then Some FormatError
      else if n = 2 then Some ServerError else if n = 3 then Some NxDomainCode
      else if n = 4 then Some NotSupported else if n = 5 then Some Refused else None)"

datatype QueryType = QA | QNS | QCNAME | QMX | QAAAA

primrec query_type_code :: "QueryType \<Rightarrow> u16" where
  "query_type_code QA = 0x0001"
| "query_type_code QNS = 0x0002"
| "query_type_code QCNAME = 0x0005"
| "query_type_code QMX = 0x000f"
| "query_type_code QAAAA = 0x001c"

definition query_type_try_from :: "u16 \<Rightarrow> QueryType option" where
  "query_type_try_from n = find (\<lambda>t. query_type_code t = n) [QA, QNS, QCNAME, QMX, QAAAA]"

datatype QueryResult = RA Ipv4Addr | RAAAA Ipv6Addr | RNS string | RCNAME string
  | RMX u16 string

primrec query_result_query :: "QueryResult \<Rightarrow> QueryType" where
  "query_result_query (RA _) = QA"
| "query_result_query (RAAAA _) = QAAAA"
| "query_result_query (RNS _) = QNS"
| "query_result_query (RCNAME _) = QCNAME"
| "query_result_query (RMX _ _) = QMX"

datatype NxDomain = NxDomain

type_synonym dns_record = "string \<times> u32 \<times> QueryResult"

record DnsReply =
  rp_req_id :: u16
  rp_query :: "string \<times> QueryType"
  rp_records :: "NxDomain + dns_record list"

lemma query_type_roundtrip: "query_type_try_from (query_type_code t) = Some t"
  by (cases t) (simp_all add: query_type_try_from_def)

subsection \<open>Questions\<close>

definition char_byte :: "char \<Rightarrow> u8" where
  "char_byte c = word_of_nat (of_char c)"

definition byte_char :: "u8 \<Rightarrow> char" where
  "byte_char b = char_of (unat b)"

definition push_label :: "bytes \<Rightarrow> string \<Rightarrow> bytes option" where
  "push_label result seg = do {
     rassert (seg \<noteq> []);
     rassert (list_all (\<lambda>c. (of_char c :: nat) < 128) seg);
     rassert (length seg < 64);
     Some (result @ [word_of_nat (length seg)] @ map char_byte seg)
   }"

definition make_question :: "u16 \<Rightarrow> string \<Rightarrow> QueryType \<Rightarrow> bytes option" where
  "make_question reg_id domain qtype = do {
     let result = u16_be reg_id @ u16_be (push_bit 8 1) @ u16_be 1 @ u16_be 0 @ u16_be 0 @ u16_be 0;
     result' \<leftarrow> foldM push_label result (split_on CHR ''.'' domain);
     Some (result' @ [0] @ u16_be (query_type_code qtype) @ u16_be 1)
   }"

subsection \<open>Names\<close>

datatype name_step = NamePanic | NameDone string nat | NameContinue nat string nat bool

text \<open>One iteration of the loop of \<open>read_name\<close>.\<close>

definition read_label :: "bytes \<Rightarrow> nat \<Rightarrow> string \<Rightarrow> nat \<Rightarrow> bool \<Rightarrow> name_step option" where
  "read_label data i name ncl inc = do {
     seg_len \<leftarrow> index data i;
     rassert (seg_len AND NOT 0x3f = 0);
     let ncl' = (if inc then ncl else ncl + 1);
     if seg_len = 0 then Some (NameDone name ncl')
     else do {
       seg \<leftarrow> slice data (i + 1) (i + 1 + unat seg_len);
       Some (NameContinue (i + 1 + unat seg_len)
         ((if name = [] then [] else name @ [CHR ''.'']) @ map byte_char seg)
         (if inc then ncl' else ncl' + unat seg_len) inc)
     }
   }"

definition read_name_step :: "bytes \<Rightarrow> nat \<Rightarrow> string \<Rightarrow> nat \<Rightarrow> bool \<Rightarrow> name_step" where
  "read_name_step data i name ncl inc =
     (case do {
        b \<leftarrow> index data i;
        if b AND 0xc0 \<noteq> 0 then do {
          start \<leftarrow> read_u16 data i;
          read_label data (unat (start AND 0x3fff)) name (if inc then ncl else ncl + 2) True
        }
        else read_label data i name ncl inc
      } of None \<Rightarrow> NamePanic | Some s \<Rightarrow> s)"

partial_function (option) read_name_loop ::
  "bytes \<Rightarrow> nat \<Rightarrow> string \<Rightarrow> nat \<Rightarrow> bool \<Rightarrow> (string \<times> nat) option option" where
  [code]: "read_name_loop data i name ncl inc =
     (case read_name_step data i name ncl inc of
        NamePanic \<Rightarrow> Some None
      | NameDone name' ncl' \<Rightarrow> Some (Some (name', ncl'))
      | NameContinue i' name' ncl' inc' \<Rightarrow> read_name_loop data i' name' ncl' inc')"

definition read_name :: "nat \<Rightarrow> bytes \<Rightarrow> (string \<times> nat) option option" where
  "read_name i data = read_name_loop data i [] 0 False"

subsection \<open>Replies\<close>

text \<open>Sequencing of runs that may panic or not return.\<close>

definition rbind :: "'a option option \<Rightarrow> ('a \<Rightarrow> 'b option option) \<Rightarrow> 'b option option" where
  "rbind m f =
     (case m of None \<Rightarrow> None | Some None \<Rightarrow> Some None | Some (Some x) \<Rightarrow> f x)"

lemma rbind_simps [simp]:
  "rbind None f = None" "rbind (Some None) f = Some None" "rbind (Some (Some x)) f = f x"
  by (simp_all add: rbind_def)

text \<open>The fixed fields of an answer: type, class, time to live, payload.\<close>

definition read_answer_fields :: "bytes \<Rightarrow> nat \<Rightarrow> (u16 \<times> u16 \<times> u32 \<times> bytes) option" where
  "read_answer_fields data i = do {
     qtype \<leftarrow> read_u16 data i;
     class \<leftarrow> read_u16 data (i + 2);
     ttl \<leftarrow> read_u32 data (i + 4);
     payload_len \<leftarrow> read_u16 data (i + 8);
     payload \<leftarrow> slice data (i + 10) (i + 10 + unat payload_len);
     Some (qtype, class, ttl, payload)
   }"

text \<open>
  The payload of a supported answer. The inner \<open>option\<close> is \<open>None\<close> for a type that is
  skipped with a warning.
\<close>

definition read_payload ::
  "bytes \<Rightarrow> nat \<Rightarrow> bytes \<Rightarrow> QueryType \<Rightarrow> QueryResult option option option" where
  "read_payload data payload_start payload qtype =
     (case qtype of
        QA \<Rightarrow> Some (do {
          rassert (length payload = 4);
          a \<leftarrow> ipv4_from_bytes payload;
          Some (Some (RA a)) })
      | QAAAA \<Rightarrow> Some (do {
          rassert (length payload = 16);
          a \<leftarrow> ipv6_from_bytes payload;
          Some (Some (RAAAA a)) })
      | QMX \<Rightarrow>
          rbind (Some (read_u16 payload 0)) (\<lambda>priority.
          rbind (read_name (payload_start + 2) data) (\<lambda>(domain, _).
          Some (Some (Some (RMX priority domain)))))
      | _ \<Rightarrow> Some (Some None))"

definition read_answer ::
  "bytes \<Rightarrow> nat \<Rightarrow> (dns_record option \<times> nat) option option" where
  "read_answer data i =
     rbind (read_name i data) (\<lambda>(name, sz).
     rbind (Some (read_answer_fields data (i + sz))) (\<lambda>(qtype, class, ttl, payload).
       let payload_start = i + sz + 10; i' = payload_start + length payload in
       if class \<noteq> 1 then Some (Some (None, i'))
       else (case query_type_try_from qtype of
          None \<Rightarrow> Some (Some (None, i'))
        | Some qt \<Rightarrow>
            rbind (read_payload data payload_start payload qt) (\<lambda>p.
              Some (Some (map_option (\<lambda>x. (name, ttl, x)) p, i')))))) "

fun read_answers ::
  "bytes \<Rightarrow> nat \<Rightarrow> nat \<Rightarrow> dns_record list \<Rightarrow> dns_record list option option" where
  "read_answers data 0 i records = Some (Some records)"
| "read_answers data (Suc n) i records =
     rbind (read_answer data i) (\<lambda>(r, i').
       read_answers data n i' (case r of None \<Rightarrow> records | Some x \<Rightarrow> records @ [x]))"

text \<open>The query section: the count has to be one, and the type of the query has to be known.\<close>

definition read_query :: "bytes \<Rightarrow> (string \<times> QueryType \<times> nat) option option" where
  "read_query data =
     rbind (Some (do { count_qd \<leftarrow> read_u16 data 4; rassert (count_qd = 1) })) (\<lambda>_.
     rbind (read_name 12 data) (\<lambda>(query_name, sz).
     rbind (Some (do { qtype \<leftarrow> read_u16 data (12 + sz); query_type_try_from qtype })) (\<lambda>query_type.
     Some (Some (query_name, query_type, 12 + sz)))))"

definition parse_success :: "bytes \<Rightarrow> u16 \<Rightarrow> (string + DnsReply) option option" where
  "parse_success data req_id =
     rbind (Some (do {
       count_an \<leftarrow> read_u16 data 6;
       count_ns \<leftarrow> read_u16 data 8;
       count_ar \<leftarrow> read_u16 data 10;
       Some count_an })) (\<lambda>count_an.
     rbind (read_query data) (\<lambda>(query_name, query_type, i).
     rbind (read_answers data (unat count_an) (i + 4) []) (\<lambda>records.
     Some (Some (Inr \<lparr>rp_req_id = req_id, rp_query = (query_name, query_type),
       rp_records = Inr records\<rparr>)))))"

definition parse_nx_domain :: "bytes \<Rightarrow> u16 \<Rightarrow> (string + DnsReply) option option" where
  "parse_nx_domain data req_id =
     rbind (read_query data) (\<lambda>(query_name, query_type, _).
     Some (Some (Inr \<lparr>rp_req_id = req_id, rp_query = (query_name, query_type),
       rp_records = Inl NxDomain\<rparr>)))"

definition parse_reply :: "bytes \<Rightarrow> (string + DnsReply) option option" where
  "parse_reply data =
     rbind (Some (do {
       req_id \<leftarrow> read_u16 data 0;
       flags \<leftarrow> read_u16 data 2;
       Some (req_id, flags) })) (\<lambda>(req_id, flags).
     if flags AND push_bit 15 1 = 0 then Some (Some (Inl ''Not a reply''))
     else if flags AND push_bit 9 1 \<noteq> 0 then Some (Some (Inl ''Truncated''))
     else if flags AND push_bit 7 1 = 0 then Some (Some (Inl ''Could not recurse''))
     else (case rcode_try_from (ucast flags AND 0x0f) of
        None \<Rightarrow> Some (Some (Inl ''Invalid rcode''))
      | Some Success \<Rightarrow> parse_success data req_id
      | Some FormatError \<Rightarrow> Some (Some (Inl ''Format error''))
      | Some ServerError \<Rightarrow> Some (Some (Inl ''Server error''))
      | Some NxDomainCode \<Rightarrow> parse_nx_domain data req_id
      | Some NotSupported \<Rightarrow> Some (Some (Inl ''Server does not support this''))
      | Some Refused \<Rightarrow> Some (Some (Inl ''Server refused''))))"

subsection \<open>Reading an encoded name\<close>

definition label_bytes :: "string \<Rightarrow> bytes" where
  "label_bytes l = word_of_nat (length l) # map char_byte l"

definition name_bytes :: "string list \<Rightarrow> bytes" where
  "name_bytes ls = concat (map label_bytes ls) @ [0]"

definition ok_label :: "string \<Rightarrow> bool" where
  "ok_label l \<longleftrightarrow> l \<noteq> [] \<and> length l < 64 \<and> list_all (\<lambda>c. (of_char c :: nat) < 128) l"

fun join_labels :: "string \<Rightarrow> string list \<Rightarrow> string" where
  "join_labels name [] = name"
| "join_labels name (l # ls) =
     join_labels ((if name = [] then [] else name @ [CHR ''.'']) @ l) ls"

lemma byte_char_byte [simp]: "byte_char (char_byte c) = c"
  by (simp add: byte_char_def char_byte_def unat_of_nat)

lemma map_byte_char [simp]: "map (byte_char \<circ> char_byte) l = l"
  by (rule map_idI) simp

lemma low_six_bits:
  assumes "n < 64"
  shows "(word_of_nat n :: u8) AND 0xc0 = 0" and "(word_of_nat n :: u8) AND NOT 0x3f = 0"
    and "(word_of_nat n :: u8) AND - 64 = 0"
proof -
  have low: "bit (word_of_nat n :: u8) k \<Longrightarrow> k < 6" for k
  proof (rule ccontr)
    assume b: "bit (word_of_nat n :: u8) k" and "\<not> k < 6"
    have "take_bit 6 n = n" using assms by (simp add: take_bit_eq_mod)
    moreover from b have "bit n k" by (simp add: bit_of_nat_iff)
    ultimately have "bit (take_bit 6 n) k" by simp
    with \<open>\<not> k < 6\<close> show False by (simp add: bit_take_bit_iff)
  qed
  have "0xc0 = (push_bit 6 3 :: u8)" by simp
  then have "bit (0xc0 :: u8) k \<Longrightarrow> 6 \<le> k" for k by (simp only: bit_push_bit_iff)
  then show "(word_of_nat n :: u8) AND 0xc0 = 0"
    using low by (intro bit_eqI) (fastforce simp: bit_and_iff)
  have "0x3f = (mask 6 :: u8)" by (simp add: mask_eq_exp_minus_1)
  then have high: "k < 6 \<Longrightarrow> bit (0x3f :: u8) k" for k by (simp only: bit_mask_iff) simp
  have "\<not> bit ((word_of_nat n :: u8) AND NOT 0x3f) k" for k
    unfolding bit_and_iff bit_not_iff using low high by blast
  then show "(word_of_nat n :: u8) AND NOT 0x3f = 0"
    by (intro bit_eqI) simp
  then show "(word_of_nat n :: u8) AND - 64 = 0" by simp
qed

lemma unat_label_length: "n < 64 \<Longrightarrow> unat (word_of_nat n :: u8) = n"
  by (simp add: unat_of_nat)

lemma label_length_zero: "n < 64 \<Longrightarrow> (word_of_nat n :: u8) = 0 \<longleftrightarrow> n = 0"
  using unat_label_length [of n] by (simp add: word_unat_eq_iff)

text \<open>The label at an offset, reached directly or through a pointer.\<close>

lemma read_label_at:
  assumes "ok_label l"
  shows "read_label (pre @ label_bytes l @ post) (length pre) name ncl inc =
    Some (NameContinue (length (pre @ label_bytes l))
      ((if name = [] then [] else name @ [CHR ''.'']) @ l)
      (if inc then ncl else ncl + Suc (length l)) inc)"
  using assms
  by (auto simp: read_label_def index_def slice_def label_bytes_def ok_label_def nth_append
      low_six_bits label_length_zero unat_label_length Let_def)

lemma read_label_end:
  "read_label (pre @ 0 # post) (length pre) name ncl inc =
     Some (NameDone name (if inc then ncl else ncl + 1))"
  by (simp add: read_label_def index_def nth_append Let_def)

lemma read_step_plain:
  assumes "ok_label l"
  shows "read_name_step (pre @ label_bytes l @ post) (length pre) name ncl inc =
    NameContinue (length (pre @ label_bytes l))
      ((if name = [] then [] else name @ [CHR ''.'']) @ l)
      (if inc then ncl else ncl + Suc (length l)) inc"
proof -
  have "index (pre @ label_bytes l @ post) (length pre) = Some (word_of_nat (length l))"
    by (simp add: index_def label_bytes_def nth_append)
  moreover have "(word_of_nat (length l) :: u8) AND 0xc0 = 0"
    using assms by (intro low_six_bits) (simp add: ok_label_def)
  ultimately show ?thesis
    unfolding read_name_step_def read_label_at [OF assms] by simp
qed

lemma read_step_end:
  "read_name_step (pre @ 0 # post) (length pre) name ncl inc =
     NameDone name (if inc then ncl else ncl + 1)"
proof -
  have "index (pre @ 0 # post) (length pre) = Some 0" by (simp add: index_def nth_append)
  then show ?thesis unfolding read_name_step_def read_label_end by simp
qed

lemma read_name_loop_labels:
  assumes "list_all ok_label ls"
  shows "read_name_loop (pre @ name_bytes ls @ post) (length pre) name ncl inc =
    Some (Some (join_labels name ls, if inc then ncl else ncl + length (name_bytes ls)))"
  using assms
proof (induction ls arbitrary: pre name ncl)
  case Nil
  then show ?case
    by (simp add: name_bytes_def read_name_loop.simps [of _ "length pre"] read_step_end)
next
  case (Cons l ls)
  have data: "pre @ name_bytes (l # ls) @ post = pre @ label_bytes l @ name_bytes ls @ post"
    by (simp add: name_bytes_def)
  have IH: "read_name_loop ((pre @ label_bytes l) @ name_bytes ls @ post) (length (pre @ label_bytes l))
      name' ncl' inc =
    Some (Some (join_labels name' ls, if inc then ncl' else ncl' + length (name_bytes ls)))"
    for name' ncl' using Cons.prems by (intro Cons.IH) simp
  have "length (label_bytes l) = Suc (length l)" by (simp add: label_bytes_def)
  then have len: "length (name_bytes (l # ls)) = Suc (length l) + length (name_bytes ls)"
    by (simp add: name_bytes_def)
  have ok: "ok_label l" using Cons.prems by simp
  show ?case
    unfolding data
    apply (subst read_name_loop.simps)
    apply (simp only: read_step_plain [OF ok] name_step.case)
    using IH by (simp add: len)
qed

lemma foldM_push_label:
  "foldM push_label r ls =
     (if list_all ok_label ls then Some (r @ concat (map label_bytes ls)) else None)"
  by (induction ls arbitrary: r) (auto simp: push_label_def ok_label_def label_bytes_def)

lemma make_question_iff:
  "make_question reg_id domain qtype = Some q \<longleftrightarrow>
     list_all ok_label (split_on CHR ''.'' domain) \<and>
     q = u16_be reg_id @ u16_be 0x100 @ u16_be 1 @ u16_be 0 @ u16_be 0 @ u16_be 0
       @ name_bytes (split_on CHR ''.'' domain) @ u16_be (query_type_code qtype) @ u16_be 1"
  by (auto simp: make_question_def foldM_push_label name_bytes_def Let_def)

lemma join_labels_nonempty:
  "name \<noteq> [] \<Longrightarrow> join_labels name ls = name @ concat (map ((#) CHR ''.'') ls)"
  by (induction ls arbitrary: name) auto

lemma split_on_concat: "split_on c s = w # ws \<Longrightarrow> s = w @ concat (map ((#) c) ws)"
proof (induction s arbitrary: w ws)
  case (Cons x s)
  obtain w' ws' where s: "split_on c s = w' # ws'"
    using split_on_nonempty by (cases "split_on c s") auto
  have "s = w' @ concat (map ((#) c) ws')" by (rule Cons.IH [OF s])
  moreover have "(w = [] \<and> ws = w' # ws' \<and> x = c) \<or> (w = x # w' \<and> ws = ws')"
    using Cons.prems s by (simp split: if_splits)
  ultimately show ?case by fastforce
qed simp

lemma join_split:
  assumes "list_all ok_label (split_on CHR ''.'' domain)"
  shows "join_labels [] (split_on CHR ''.'' domain) = domain"
proof -
  obtain w ws where s: "split_on CHR ''.'' domain = w # ws"
    using split_on_nonempty by (cases "split_on CHR ''.'' domain") auto
  with assms have "w \<noteq> []" by (simp add: ok_label_def)
  then have "join_labels [] (w # ws) = w @ concat (map ((#) CHR ''.'') ws)"
    by (simp add: join_labels_nonempty)
  then show ?thesis unfolding s split_on_concat [OF s, symmetric] .
qed

subsection \<open>Reading a reply\<close>

lemma read_name_at:
  assumes "list_all ok_label (split_on CHR ''.'' domain)"
  shows "read_name (length pre) (pre @ name_bytes (split_on CHR ''.'' domain) @ post) =
    Some (Some (domain, length (name_bytes (split_on CHR ''.'' domain))))"
  using read_name_loop_labels [OF assms, of pre post "[]" 0 False] join_split [OF assms]
  by (simp add: read_name_def)

text \<open>A compression pointer to the name at offset 12.\<close>

lemma read_name_pointer:
  assumes "list_all ok_label ls" and "ls \<noteq> []" and hdr: "length hdr = 12"
    and data: "data = hdr @ name_bytes ls @ post" and ptr: "data = pre @ [0xc0, 12] @ rest"
  shows "read_name (length pre) data = Some (Some (join_labels [] ls, 2))"
proof -
  obtain l ls' where ls: "ls = l # ls'" using assms(2) by (cases ls) auto
  have at: "index data (length pre) = Some 0xc0" "read_u16 data (length pre) = Some 0xc00c"
    unfolding ptr
    by (simp_all add: index_def read_u16_def nth_append u16_of_be_def from_be_def)
  have split: "data = hdr @ label_bytes l @ name_bytes ls' @ post"
    by (simp add: data ls name_bytes_def)
  have "read_label data 12 [] 2 True = Some (NameContinue (length (hdr @ label_bytes l)) l 2 True)"
    unfolding split using read_label_at [of l hdr] assms(1) hdr by (simp add: ls)
  then have "read_name_step data (length pre) [] 0 False =
      NameContinue (length (hdr @ label_bytes l)) l 2 True"
    unfolding read_name_step_def at by (simp add: at numeral_2_eq_2 [symmetric])
  moreover have "read_name_loop data (length (hdr @ label_bytes l)) l 2 True =
      Some (Some (join_labels l ls', 2))"
    using read_name_loop_labels [of ls' "hdr @ label_bytes l" post l 2 True] assms(1)
    by (simp add: split ls)
  ultimately show ?thesis
    by (simp add: read_name_def read_name_loop.simps [of data "length pre"] ls)
qed

text \<open>An address record as servers send it: the name is a pointer to the question.\<close>

fun a_record :: "u32 \<times> Ipv4Addr \<Rightarrow> bytes" where
  "a_record (ttl, ip) = [0xc0, 12] @ u16_be 1 @ u16_be 1 @ u32_be ttl @ u16_be 4 @ ipv4_bytes ip"

lemma read_a_fields:
  "read_answer_fields (pre @ a_record (ttl, ip) @ post) (length pre + 2) =
     Some (1, 1, ttl, ipv4_bytes ip)"
proof -
  let ?d = "pre @ a_record (ttl, ip) @ post"
  have "read_u16 ?d (length pre + 2) = Some 1"
    using read_u16_at [of _ "pre @ [0xc0, 12]" 1] by simp
  moreover have "read_u16 ?d (length pre + 2 + 2) = Some 1"
    using read_u16_at [of "length pre + 2 + 2" "pre @ [0xc0, 12] @ u16_be 1" 1] by simp
  moreover have "read_u32 ?d (length pre + 2 + 4) = Some ttl"
    using read_u32_at [of "length pre + 2 + 4" "pre @ [0xc0, 12] @ u16_be 1 @ u16_be 1" ttl] by simp
  moreover have "read_u16 ?d (length pre + 2 + 8) = Some 4"
    using read_u16_at [of "length pre + 2 + 8" "pre @ [0xc0, 12] @ u16_be 1 @ u16_be 1 @ u32_be ttl" 4] by simp
  moreover have "slice ?d (length pre + 2 + 10) (length pre + 2 + 10 + 4) = Some (ipv4_bytes ip)"
    using slice_at [of "12 + length pre" "pre @ [0xc0, 12] @ u16_be 1 @ u16_be 1 @ u32_be ttl @ u16_be 4" _
        "ipv4_bytes ip" post] by simp
  ultimately show ?thesis unfolding read_answer_fields_def by simp
qed

lemma length_a_record [simp]: "length (a_record r) = 16"
  by (cases r) simp

lemma read_a_record:
  assumes "read_name (length pre) (pre @ a_record (ttl, ip) @ post) = Some (Some (domain, 2))"
  shows "read_answer (pre @ a_record (ttl, ip) @ post) (length pre) =
    Some (Some (Some (domain, ttl, RA ip), length (pre @ a_record (ttl, ip))))"
proof -
  have qt: "query_type_try_from 1 = Some QA" by (simp add: query_type_try_from_def)
  show ?thesis
    unfolding read_answer_def assms rbind_simps prod.case read_a_fields
    by (simp add: qt read_payload_def ipv4_roundtrip)
qed

lemma read_a_records:
  assumes "\<And>pre post rest. data = pre @ [0xc0, 12] @ rest \<Longrightarrow>
      read_name (length pre) data = Some (Some (domain, 2))"
    and "data = pre @ concat (map a_record recs)"
  shows "read_answers data (length recs) (length pre) acc =
    Some (Some (acc @ map (\<lambda>(ttl, ip). (domain, ttl, RA ip)) recs))"
  using assms(2)
proof (induction recs arbitrary: pre acc)
  case (Cons r recs)
  obtain ttl ip where r: "r = (ttl, ip)" by (cases r)
  let ?post = "concat (map a_record recs)"
  have d: "data = pre @ a_record (ttl, ip) @ ?post" using Cons.prems r by simp
  have nm: "read_name (length pre) (pre @ a_record (ttl, ip) @ ?post) = Some (Some (domain, 2))"
    using assms(1) [of pre] d by simp
  have ans: "read_answer data (length pre) =
      Some (Some (Some (domain, ttl, RA ip), length (pre @ a_record (ttl, ip))))"
    using read_a_record [OF nm] d by simp
  have "read_answers data (length recs) (length (pre @ a_record (ttl, ip)))
      (acc @ [(domain, ttl, RA ip)]) =
    Some (Some ((acc @ [(domain, ttl, RA ip)]) @ map (\<lambda>(ttl, ip). (domain, ttl, RA ip)) recs))"
    by (rule Cons.IH) (use d in simp)
  then show ?case by (simp only: list.size read_answers.simps add_Suc_right add_0_right ans) (simp add: r)
qed simp

text \<open>C36: A standard answer to a question is read correctly: when \<open>make_question\<close> accepts a
  domain, the parser returns, for a successful reply that repeats the question and carries any
  number of address records whose names point back at it, the request id, the domain and type
  asked for, and exactly the records sent, in order.\<close>

theorem dns_reply_roundtrip:
  assumes q: "make_question req_id domain qtype = Some q" and n: "length recs < 65536"
  shows "parse_reply (u16_be req_id @ u16_be 0x8180 @ u16_be 1 @ u16_be (word_of_nat (length recs))
      @ u16_be 0 @ u16_be 0 @ drop 12 q @ concat (map a_record recs)) =
    Some (Some (Inr \<lparr>rp_req_id = req_id, rp_query = (domain, qtype),
      rp_records = Inr (map (\<lambda>(ttl, ip). (domain, ttl, RA ip)) recs)\<rparr>))"
    (is "parse_reply ?data = _")
proof -
  let ?ls = "split_on CHR ''.'' domain"
  define hdr where "hdr = u16_be req_id @ u16_be 0x8180 @ u16_be 1
    @ u16_be (word_of_nat (length recs)) @ u16_be 0 @ u16_be 0"
  define qs where "qs = name_bytes ?ls @ u16_be (query_type_code qtype) @ u16_be 1"
  have hdr_len: "length hdr = 12" by (simp add: hdr_def)
  have ok: "list_all ok_label ?ls" and "drop 12 q = qs"
    using q unfolding make_question_iff qs_def by simp_all
  then have data: "?data = hdr @ qs @ concat (map a_record recs)" by (simp add: hdr_def)
  define d where "d = hdr @ qs @ concat (map a_record recs)"
  have r: "read_u16 d 0 = Some req_id" "read_u16 d 2 = Some 0x8180" "read_u16 d 4 = Some 1"
    "read_u16 d 6 = Some (word_of_nat (length recs))" "read_u16 d 8 = Some 0" "read_u16 d 10 = Some 0"
    unfolding d_def hdr_def by (simp_all add: read_u16_def index_def wire_simps)
  have name: "read_name 12 d = Some (Some (domain, length (name_bytes ?ls)))"
    using read_name_at [OF ok, of hdr] hdr_len by (simp add: d_def qs_def)
  have qt: "read_u16 d (12 + length (name_bytes ?ls)) = Some (query_type_code qtype)"
    using read_u16_at [of "12 + length (name_bytes ?ls)" "hdr @ name_bytes ?ls" "query_type_code qtype"]
    by (simp add: d_def qs_def hdr_len)
  have query: "read_query d = Some (Some (domain, qtype, 12 + length (name_bytes ?ls)))"
    by (simp add: read_query_def r name qt query_type_roundtrip rassert_def)
  have ptr: "read_name (length pre) d = Some (Some (domain, 2))" if "d = pre @ [0xc0, 12] @ rest" for pre rest
    using read_name_pointer [OF ok split_on_nonempty hdr_len _ that] join_split [OF ok]
    by (simp add: d_def qs_def)
  have "read_answers d (length recs) (length (hdr @ qs)) [] =
      Some (Some ([] @ map (\<lambda>(ttl, ip). (domain, ttl, RA ip)) recs))"
    by (rule read_a_records) (use ptr in simp, simp add: d_def)
  moreover have "length (hdr @ qs) = 12 + length (name_bytes ?ls) + 4"
    by (simp add: hdr_len qs_def)
  moreover have "unat (word_of_nat (length recs) :: u16) = length recs"
    using n by (simp add: unat_of_nat)
  ultimately have "parse_success d req_id =
      Some (Some (Inr \<lparr>rp_req_id = req_id, rp_query = (domain, qtype),
        rp_records = Inr (map (\<lambda>(ttl, ip). (domain, ttl, RA ip)) recs)\<rparr>))"
    by (simp add: parse_success_def r query)
  then show ?thesis
    unfolding data d_def [symmetric]
    by (simp add: parse_reply_def r rcode_try_from_def)
qed

lemma question_example:
  "make_question 7 ''os.d7'' QA =
     Some [0, 7, 1, 0, 0, 1, 0, 0, 0, 0, 0, 0, 2, 111, 115, 2, 100, 55, 0, 0, 1, 0, 1]"
  by code_simp

theorem dns_reply_roundtrip_witness:
  "parse_reply (u16_be 7 @ u16_be 0x8180 @ u16_be 1 @ u16_be (word_of_nat 1) @ u16_be 0 @ u16_be 0
      @ [2, 111, 115, 2, 100, 55, 0, 0, 1, 0, 1] @ a_record (60, Ipv4Addr 10 0 2 15)) =
    Some (Some (Inr \<lparr>rp_req_id = 7, rp_query = (''os.d7'', QA),
      rp_records = Inr [(''os.d7'', 60, RA (Ipv4Addr 10 0 2 15))]\<rparr>))"
  using dns_reply_roundtrip [OF question_example, of "[(60, Ipv4Addr 10 0 2 15)]"]
  by (simp del: a_record.simps)

subsection \<open>Compression pointers that form a cycle\<close>

text \<open>A reply whose question name is one label followed by a pointer back to that label.\<close>

definition cyclic_reply :: bytes where
  "cyclic_reply = [0, 7, 0x81, 0x80, 0, 1, 0, 1, 0, 0, 0, 0, 1, 97, 0xc0, 12]"

lemma cyclic_first: "read_name_step cyclic_reply 12 [] 0 False = NameContinue 14 ''a'' 2 False"
  by code_simp

lemma cyclic_label: "name \<noteq> [] \<Longrightarrow> read_label cyclic_reply 12 name ncl True =
    Some (NameContinue 14 (name @ [CHR ''.''] @ ''a'') ncl True)"
  by (simp add: read_label_def cyclic_reply_def index_def slice_def byte_char_def) code_simp

lemma cyclic_step:
  assumes "name \<noteq> []"
  shows "\<exists>ncl'. read_name_step cyclic_reply 14 name ncl inc =
    NameContinue 14 (name @ [CHR ''.''] @ ''a'') ncl' True"
proof -
  have "index cyclic_reply 14 = Some 0xc0" "read_u16 cyclic_reply 14 = Some 0xc00c"
    by (simp_all add: cyclic_reply_def index_def read_u16_def u16_of_be_def from_be_def)
  then show ?thesis using cyclic_label [OF assms] by (simp add: read_name_step_def)
qed

lemma cyclic_never_returns:
  assumes "name \<noteq> []"
  shows "read_name_loop cyclic_reply 14 name ncl inc = None"
proof -
  let ?P = "\<lambda>data i name ncl inc r. \<not> (data = cyclic_reply \<and> i = 14 \<and> name \<noteq> [])"
  have "?P data i name ncl inc r" if "read_name_loop data i name ncl inc = Some r"
    for data i name ncl inc r
  proof (rule read_name_loop.raw_induct [where P = ?P, OF _ that])
    fix loop data i name ncl inc r
    assume IH: "\<And>data i name ncl inc r. loop data i name ncl inc = Some r \<Longrightarrow> ?P data i name ncl inc r"
      and run: "(case read_name_step data i name ncl inc of
        NamePanic \<Rightarrow> Some None
      | NameDone name' ncl' \<Rightarrow> Some (Some (name', ncl'))
      | NameContinue i' name' ncl' inc' \<Rightarrow> loop data i' name' ncl' inc') = Some r"
    show "?P data i name ncl inc r"
    proof
      assume a: "data = cyclic_reply \<and> i = 14 \<and> name \<noteq> []"
      then obtain ncl' where st: "read_name_step data i name ncl inc =
          NameContinue 14 (name @ [CHR ''.''] @ ''a'') ncl' True"
        using cyclic_step by blast
      have "loop data 14 (name @ [CHR ''.''] @ ''a'') ncl' True = Some r"
        using run unfolding st by simp
      from IH [OF this] show False using a by simp
    qed
  qed
  then show ?thesis using assms by (cases "read_name_loop cyclic_reply 14 name ncl inc") auto
qed

text \<open>The resolver does not survive a reply whose compression pointers form a cycle: on a
  16-byte packet whose question name is a label followed by a pointer to that label,
  \<open>parse_reply\<close> never returns (the name grows with every round).\<close>

lemma dns_pointer_cycle_diverges: "parse_reply cyclic_reply = None"
proof -
  have "read_name 12 cyclic_reply = None"
    unfolding read_name_def
    by (subst read_name_loop.simps) (simp add: cyclic_first cyclic_never_returns)
  moreover have "read_u16 cyclic_reply 4 = Some 1" "read_u16 cyclic_reply 0 = Some 7"
    "read_u16 cyclic_reply 2 = Some 0x8180" "read_u16 cyclic_reply 6 = Some 1"
    "read_u16 cyclic_reply 8 = Some 0" "read_u16 cyclic_reply 10 = Some 0"
    by (simp_all add: cyclic_reply_def index_def read_u16_def u16_of_be_def from_be_def)
  ultimately show ?thesis
    by (simp add: parse_reply_def parse_success_def read_query_def rcode_try_from_def rassert_def)
qed

end
