(* ===== verification/NetDaemon.thy ===== *)
theory NetDaemon
  imports NetTcp NetDhcp NetDns
begin

text \<open>
  The network daemon (\<open>modules/daemon_net\<close>): the DHCP client, interfaces, the ARP handler,
  the DNS resolver and the dispatch of received packets. Publishing to \<open>nic/send\<close> goes to a
  driver process: whether a delivery succeeds is the parameter \<open>pub_ok\<close>, and an operation
  returns the packets it published. The two functions registered as UDP handlers are the
  constructors of \<open>UdpHandler\<close>. Handling of TCP segments is a parameter.
\<close>

subsection \<open>Ports (ports.rs)\<close>

definition RANGE_DYNAMIC_start :: u16 where "RANGE_DYNAMIC_start = 49152"
definition RANGE_DYNAMIC_len :: u16 where "RANGE_DYNAMIC_len = 65535 - 49152 + 1"
definition FIXED_DNS_CLIENT :: u16 where "FIXED_DNS_CLIENT = 54"

definition random_dynamic_port :: "u8 \<Rightarrow> u8 \<Rightarrow> u16" where
  "random_dynamic_port a b =
     (let v = word_of_nat (from_le [a, b]) :: u16; i = v mod RANGE_DYNAMIC_len
      in RANGE_DYNAMIC_start + i)"

lemma random_dynamic_port_range: "49152 \<le> random_dynamic_port a b"
proof -
  let ?i = "word_of_nat (from_le [a, b]) mod (16384 :: u16)"
  have "unat ?i < 16384" by (simp add: unat_mod)
  then have "unat (49152 + ?i :: u16) = 49152 + unat ?i" by (simp add: unat_word_ariths)
  then show ?thesis
    by (simp add: random_dynamic_port_def RANGE_DYNAMIC_start_def RANGE_DYNAMIC_len_def Let_def
        word_le_nat_alt)
qed

subsection \<open>Sending\<close>

text \<open>\<open>while packet.len() < 64 \{ packet.push(0) \}\<close>\<close>

definition pad_packet :: "bytes \<Rightarrow> bytes" where
  "pad_packet packet = packet @ replicate (64 - length packet) 0"

definition eth_frame :: "MacAddr \<Rightarrow> MacAddr \<Rightarrow> EtherType \<Rightarrow> bytes \<Rightarrow> bytes" where
  "eth_frame dst src et payload =
     frame_to_bytes
       \<lparr>fr_header = \<lparr>fh_dst_mac = dst, fh_src_mac = src, fh_ethertype = et\<rparr>, fr_payload = payload\<rparr>"

subsection \<open>DHCP client (dhcp\_client.rs)\<close>

datatype ClientState = Initial | Discover | Requested | Operational

record Client =
  dc_id :: u32
  dc_mac_addr :: MacAddr
  dc_state :: ClientState

record InterfaceSettings =
  is_ipv4 :: "Ipv4Addr option"
  is_netmask :: "Ipv4Addr option"
  is_routers :: "Ipv4Addr list"
  is_dns_servers :: "Ipv4Addr list"

definition client_new :: "u32 \<Rightarrow> MacAddr \<Rightarrow> Client" where
  "client_new rnd mac = \<lparr>dc_id = rnd, dc_mac_addr = mac, dc_state = Initial\<rparr>"

definition dhcp_packet :: "MacAddr \<Rightarrow> bytes \<Rightarrow> bytes" where
  "dhcp_packet mac payload =
     pad_packet (eth_frame mac_BROADCAST mac Et_Ipv4
       (udp_build (udp_builder_new ipv4_ZERO ipv4_BROADCAST 68 67 payload)))"

definition send_discover :: "(bytes \<Rightarrow> bool) \<Rightarrow> Client \<Rightarrow> (Client \<times> bytes list) option" where
  "send_discover pub_ok c = do {
     rassert (dc_mac_addr c \<noteq> mac_ZERO);
     payload \<leftarrow> payload_to_bytes (payload_discover (dc_id c) (dc_mac_addr c));
     let packet = dhcp_packet (dc_mac_addr c) payload;
     rassert (pub_ok packet);
     Some (c\<lparr>dc_state := Discover\<rparr>, [packet])
   }"

definition accept_offer ::
  "(bytes \<Rightarrow> bool) \<Rightarrow> Client \<Rightarrow> Ipv4Addr \<Rightarrow> Ipv4Addr \<Rightarrow> (Client \<times> bytes list) option" where
  "accept_offer pub_ok c client_ip server_ip = do {
     payload \<leftarrow> payload_to_bytes (payload_request (dc_id c) (dc_mac_addr c) client_ip server_ip);
     let packet = dhcp_packet (dc_mac_addr c) payload;
     rassert (pub_ok packet);
     Some (c\<lparr>dc_state := Requested\<rparr>, [packet])
   }"

text \<open>\<open>options.iter().find_map(..)\<close>\<close>

fun find_map :: "('a \<Rightarrow> 'b option) \<Rightarrow> 'a list \<Rightarrow> 'b option" where
  "find_map f [] = None"
| "find_map f (x # xs) = (case f x of Some y \<Rightarrow> Some y | None \<Rightarrow> find_map f xs)"

fun opt_op :: "DhcpOption \<Rightarrow> Op option" where
  "opt_op (DOp p) = Some p" | "opt_op _ = None"

fun opt_server_id :: "DhcpOption \<Rightarrow> Ipv4Addr option" where
  "opt_server_id (ServerId sid) = Some sid" | "opt_server_id _ = None"

fun opt_subnet_mask :: "DhcpOption \<Rightarrow> Ipv4Addr option" where
  "opt_subnet_mask (SubnetMask x) = Some x" | "opt_subnet_mask _ = None"

fun opt_routers :: "DhcpOption \<Rightarrow> Ipv4Addr list option" where
  "opt_routers (Routers x) = Some x" | "opt_routers _ = None"

fun opt_dns_servers :: "DhcpOption \<Rightarrow> Ipv4Addr list option" where
  "opt_dns_servers (DnsServers x) = Some x" | "opt_dns_servers _ = None"

definition unwrap_or_empty :: "'a list option \<Rightarrow> 'a list" where
  "unwrap_or_empty x = (case x of None \<Rightarrow> [] | Some xs \<Rightarrow> xs)"

definition ack_settings :: "DhcpPayload \<Rightarrow> InterfaceSettings" where
  "ack_settings payload =
     \<lparr>is_ipv4 = Some (dh_your_ip payload),
      is_netmask = find_map opt_subnet_mask (dh_options payload),
      is_routers = unwrap_or_empty (find_map opt_routers (dh_options payload)),
      is_dns_servers = unwrap_or_empty (find_map opt_dns_servers (dh_options payload))\<rparr>"

definition client_handle ::
  "(bytes \<Rightarrow> bool) \<Rightarrow> Client \<Rightarrow> DhcpPayload
     \<Rightarrow> (Client \<times> bytes list \<times> InterfaceSettings option) option" where
  "client_handle pub_ok c payload =
     (if dh_op payload \<noteq> REPLY then Some (c, [], None)
      else (case find_map opt_op (dh_options payload) of
        None \<Rightarrow> Some (c, [], None)
      | Some opn \<Rightarrow>
          (case dc_state c of
             Initial \<Rightarrow> Some (c, [], None)
           | Discover \<Rightarrow>
               if opn = OFFER then
                 (case find_map opt_server_id (dh_options payload) of
                    None \<Rightarrow> Some (c, [], None)
                  | Some sid \<Rightarrow> do {
                      (c', sent) \<leftarrow> accept_offer pub_ok c (dh_your_ip payload) sid;
                      Some (c', sent, None) })
               else Some (c, [], None)
           | Requested \<Rightarrow>
               if opn = ACK then
                 Some (c\<lparr>dc_state := Operational\<rparr>, [], Some (ack_settings payload))
               else if opn = NAK then None
               else Some (c, [], None)
           | Operational \<Rightarrow> Some (c, [], None))))"

definition client_on_packet ::
  "(bytes \<Rightarrow> bool) \<Rightarrow> Client \<Rightarrow> UdpPacket
     \<Rightarrow> (Client \<times> bytes list \<times> InterfaceSettings option) option" where
  "client_on_packet pub_ok c packet = do {
     payload \<leftarrow> payload_from_bytes (udp_payload packet);
     client_handle pub_ok c payload
   }"

subsection \<open>Interfaces (interface.rs)\<close>

record Interface =
  if_mac_addr :: MacAddr
  if_settings :: InterfaceSettings
  if_dhcp_client :: Client
  if_arp_probe_ok :: bool

definition settings_new :: InterfaceSettings where
  "settings_new = \<lparr>is_ipv4 = None, is_netmask = None, is_routers = [], is_dns_servers = []\<rparr>"

definition interface_new :: "u32 \<Rightarrow> MacAddr \<Rightarrow> Interface" where
  "interface_new rnd mac =
     \<lparr>if_mac_addr = mac, if_settings = settings_new, if_dhcp_client = client_new rnd mac,
      if_arp_probe_ok = False\<rparr>"

definition arp_request_packet :: "MacAddr \<Rightarrow> Ipv4Addr \<Rightarrow> Ipv4Addr \<Rightarrow> bytes" where
  "arp_request_packet mac src_ip dst_ip =
     pad_packet (eth_frame mac_BROADCAST mac Et_ARP (arp_to_bytes
       \<lparr>arp_ptype = Et_Ipv4, arp_operation = Request, arp_src_hw = mac, arp_src_ip = src_ip,
        arp_dst_hw = mac_ZERO, arp_dst_ip = dst_ip\<rparr>))"

definition arp_router :: "(bytes \<Rightarrow> bool) \<Rightarrow> Interface \<Rightarrow> bytes list option" where
  "arp_router pub_ok i =
     (case is_ipv4 (if_settings i) of
        None \<Rightarrow> Some []
      | Some src_ip \<Rightarrow>
          foldM (\<lambda>sent router_ip. do {
            let packet = arp_request_packet (if_mac_addr i) src_ip router_ip;
            rassert (pub_ok packet);
            Some (sent @ [packet]) }) [] (is_routers (if_settings i)))"

definition arp_probe :: "(bytes \<Rightarrow> bool) \<Rightarrow> Interface \<Rightarrow> (Interface \<times> bytes list) option" where
  "arp_probe pub_ok i =
     (case is_ipv4 (if_settings i) of
        None \<Rightarrow> None
      | Some ip \<Rightarrow> do {
          let packet = arp_request_packet (if_mac_addr i) ipv4_ZERO ip;
          rassert (pub_ok packet);
          let i' = i\<lparr>if_arp_probe_ok := True\<rparr>;
          routers \<leftarrow> arp_router pub_ok i';
          Some (i', packet # routers) })"

definition on_dhcp_packet ::
  "(bytes \<Rightarrow> bool) \<Rightarrow> Interface \<Rightarrow> UdpPacket \<Rightarrow> (Interface \<times> bytes list) option" where
  "on_dhcp_packet pub_ok i p = do {
     (c, sent, new_settings) \<leftarrow> client_on_packet pub_ok (if_dhcp_client i) p;
     let i' = i\<lparr>if_dhcp_client := c\<rparr>;
     (case new_settings of
        None \<Rightarrow> Some (i', sent)
      | Some settings \<Rightarrow> do {
          (i'', sent') \<leftarrow> arp_probe pub_ok (i'\<lparr>if_settings := settings\<rparr>);
          Some (i'', sent @ sent') })
   }"

text \<open>The discovery that the main function starts on every interface.\<close>

definition interface_discover ::
  "(bytes \<Rightarrow> bool) \<Rightarrow> Interface \<Rightarrow> (Interface \<times> bytes list) option" where
  "interface_discover pub_ok i = do {
     (c, sent) \<leftarrow> send_discover pub_ok (if_dhcp_client i);
     Some (i\<lparr>if_dhcp_client := c\<rparr>, sent)
   }"

subsection \<open>Daemon state (lib.rs)\<close>

datatype UdpHandler = HandleUdpDhcp | HandleUdpDns

record NetState =
  ns_interfaces :: "Interface list"
  ns_arp_table :: "Ipv4Addr \<rightharpoonup> MacAddr"
  ns_udp_handlers :: "SocketAddr \<rightharpoonup> UdpHandler"

definition net_state_new :: NetState where
  "net_state_new =
     \<lparr>ns_interfaces = [], ns_arp_table = Map.empty, ns_udp_handlers = Map.empty\<rparr>"

definition default_send_interface :: "NetState \<Rightarrow> Interface option" where
  "default_send_interface ns = index (ns_interfaces ns) 0"

text \<open>The position of the interface that \<open>interface\<close> and \<open>interface_mut\<close> return.\<close>

fun find_index :: "('a \<Rightarrow> bool) \<Rightarrow> 'a list \<Rightarrow> nat option" where
  "find_index P [] = None"
| "find_index P (x # xs) = (if P x then Some 0 else map_option Suc (find_index P xs))"

definition interface_index :: "NetState \<Rightarrow> MacAddr \<Rightarrow> nat option" where
  "interface_index ns mac =
     (if mac = mac_BROADCAST then (if ns_interfaces ns = [] then None else Some 0)
      else find_index (\<lambda>i. if_mac_addr i = mac) (ns_interfaces ns))"

definition interface_by_mac :: "NetState \<Rightarrow> MacAddr \<Rightarrow> Interface option" where
  "interface_by_mac ns mac = map_option (\<lambda>k. ns_interfaces ns ! k) (interface_index ns mac)"

definition net_state_init :: "u32 \<Rightarrow> MacAddr \<Rightarrow> NetState" where
  "net_state_init rnd mac = net_state_new
     \<lparr>ns_interfaces := [interface_new rnd mac],
      ns_udp_handlers :=
        [\<lparr>sa_host = V4 ipv4_ZERO, sa_port = 68\<rparr> \<mapsto> HandleUdpDhcp,
         \<lparr>sa_host = V4 ipv4_ZERO, sa_port = FIXED_DNS_CLIENT\<rparr> \<mapsto> HandleUdpDns]\<rparr>"

subsection \<open>ARP (arp\_handler.rs)\<close>

definition arp_reply_packet ::
  "Frame \<Rightarrow> ArpPacket \<Rightarrow> Interface \<Rightarrow> Ipv4Addr \<Rightarrow> bytes option" where
  "arp_reply_packet frame arp i ip = do {
     r \<leftarrow> arp_to_reply arp (if_mac_addr i) ip;
     Some (eth_frame (fh_src_mac (fr_header frame)) (if_mac_addr i) Et_ARP (arp_to_bytes r))
   }"

definition reply_if_ours ::
  "(bytes \<Rightarrow> bool) \<Rightarrow> Frame \<Rightarrow> ArpPacket \<Rightarrow> Interface \<Rightarrow> bytes list option" where
  "reply_if_ours pub_ok frame arp i =
     (if is_ipv4 (if_settings i) = Some (arp_dst_ip arp) then do {
        packet \<leftarrow> arp_reply_packet frame arp i (arp_dst_ip arp);
        rassert (pub_ok packet);
        Some [packet] }
      else Some [])"

text \<open>The loop of the ip-targeted case: the first interface that is online and has the address.\<close>

fun arp_loop ::
  "(bytes \<Rightarrow> bool) \<Rightarrow> Frame \<Rightarrow> ArpPacket \<Rightarrow> Interface list \<Rightarrow> bytes list option" where
  "arp_loop pub_ok frame arp [] = Some []"
| "arp_loop pub_ok frame arp (i # is) =
     (if \<not> if_arp_probe_ok i then arp_loop pub_ok frame arp is
      else if is_ipv4 (if_settings i) = Some (arp_dst_ip arp)
      then reply_if_ours pub_ok frame arp i
      else arp_loop pub_ok frame arp is)"

definition handle_arp_packet ::
  "(bytes \<Rightarrow> bool) \<Rightarrow> NetState \<Rightarrow> Frame \<Rightarrow> ArpPacket \<Rightarrow> (NetState \<times> bytes list) option" where
  "handle_arp_packet pub_ok ns frame arp =
     (if arp_src_ip arp = ipv4_ZERO then Some (ns, [])
      else
        let ns' = ns\<lparr>ns_arp_table := (ns_arp_table ns)(arp_src_ip arp \<mapsto> arp_src_hw arp)\<rparr> in
        if \<not> arp_is_request arp then Some (ns', [])
        else if arp_dst_hw arp \<noteq> mac_ZERO then
          (case interface_by_mac ns' (arp_dst_hw arp) of
             None \<Rightarrow> Some (ns', [])
           | Some i \<Rightarrow>
               if \<not> if_arp_probe_ok i then Some (ns', [])
               else map_option (Pair ns') (reply_if_ours pub_ok frame arp i))
        else if arp_dst_ip arp \<noteq> ipv4_ZERO then
          map_option (Pair ns') (arp_loop pub_ok frame arp (ns_interfaces ns'))
        else Some (ns', []))"

subsection \<open>DNS resolver (dns\_resolver.rs)\<close>

type_synonym dns_query = "string \<times> QueryType"
type_synonym dns_answer = "NxDomain + QueryResult list"

record 'ctx DnsResolver =
  dr_servers :: "IpAddr list"
  dr_pending_requests :: "(u16 \<times> dns_query \<times> 'ctx) list"

definition resolver_new :: "'ctx DnsResolver" where
  "resolver_new =
     \<lparr>dr_servers = [V4 (Ipv4Addr 1 1 1 1), V4 (Ipv4Addr 1 0 0 1)], dr_pending_requests = []\<rparr>"

definition reply_answer :: "DnsReply \<Rightarrow> dns_answer" where
  "reply_answer r = map_sum id (map (\<lambda>(_, _, c). c)) (rp_records r)"

definition resolver_handle ::
  "'ctx DnsResolver \<Rightarrow> string + DnsReply \<Rightarrow> 'ctx DnsResolver \<times> ('ctx \<times> dns_answer) list" where
  "resolver_handle dr res =
     (case res of
        Inl err \<Rightarrow> (dr, [])
      | Inr r \<Rightarrow>
          let hit = (\<lambda>(req_id, q, _). req_id = rp_req_id r \<and> q = rp_query r) in
          (dr\<lparr>dr_pending_requests := filter (\<lambda>e. \<not> hit e) (dr_pending_requests dr)\<rparr>,
           map (\<lambda>(_, _, rctx). (rctx, reply_answer r)) (filter hit (dr_pending_requests dr))))"

definition resolver_on_packet ::
  "'ctx DnsResolver \<Rightarrow> UdpPacket
     \<Rightarrow> ('ctx DnsResolver \<times> ('ctx \<times> dns_answer) list) option option" where
  "resolver_on_packet dr p =
     rbind (parse_reply (udp_payload p)) (\<lambda>res. Some (Some (resolver_handle dr res)))"

text \<open>The route of a query: router hardware address, own hardware address, own address.\<close>

definition send_route :: "NetState \<Rightarrow> (MacAddr \<times> MacAddr \<times> Ipv4Addr) option" where
  "send_route ns = do {
     intf \<leftarrow> default_send_interface ns;
     router_ip \<leftarrow> index (is_routers (if_settings intf)) 0;
     router_mac \<leftarrow> ns_arp_table ns router_ip;
     ip_addr \<leftarrow> is_ipv4 (if_settings intf);
     Some (router_mac, if_mac_addr intf, ip_addr)
   }"

text \<open>\<open>None\<close> is the \<open>todo!\<close> for an IPv6 server, \<open>Some None\<close> the \<open>SendError\<close>.\<close>

definition try_send ::
  "(bytes \<Rightarrow> bool) \<Rightarrow> NetState \<Rightarrow> IpAddr \<Rightarrow> bytes \<Rightarrow> bytes option option" where
  "try_send pub_ok ns dst_ip payload =
     (case send_route ns of
        None \<Rightarrow> Some None
      | Some (dst_mac, src_mac, src_ip) \<Rightarrow>
          (case dst_ip of
             V6 _ \<Rightarrow> None
           | V4 addr \<Rightarrow>
               let packet = pad_packet (eth_frame dst_mac src_mac Et_Ipv4
                     (udp_build (udp_builder_new src_ip addr FIXED_DNS_CLIENT 53 payload)))
               in Some (if pub_ok packet then Some packet else None)))"

text \<open>The result: the new state, the packets sent, and the callers whose request is refused.\<close>

definition user_resolve ::
  "(bytes \<Rightarrow> bool) \<Rightarrow> NetState \<Rightarrow> u16 \<Rightarrow> 'ctx DnsResolver \<Rightarrow> 'ctx \<Rightarrow> dns_query
     \<Rightarrow> ('ctx DnsResolver \<times> bytes list \<times> 'ctx list) option" where
  "user_resolve pub_ok ns req_id dr rctx query = do {
     server \<leftarrow> index (dr_servers dr) 0;
     question \<leftarrow> make_question req_id (fst query) (snd query);
     r \<leftarrow> try_send pub_ok ns server question;
     Some (case r of
        Some packet \<Rightarrow>
          (dr\<lparr>dr_pending_requests := dr_pending_requests dr @ [(req_id, query, rctx)]\<rparr>, [packet], [])
      | None \<Rightarrow> (dr, [], [rctx]))
   }"

subsection \<open>Dispatch of received packets (lib.rs)\<close>

record ('ctx, 'tcp) Daemon =
  d_net :: NetState
  d_dns :: "'ctx DnsResolver"
  d_tcp :: 'tcp

definition handle_udp_dhcp ::
  "(bytes \<Rightarrow> bool) \<Rightarrow> NetState \<Rightarrow> FrameHeader \<Rightarrow> UdpPacket \<Rightarrow> (NetState \<times> bytes list) option" where
  "handle_udp_dhcp pub_ok ns e p = do {
     k \<leftarrow> interface_index ns (fh_dst_mac e);
     (i, sent) \<leftarrow> on_dhcp_packet pub_ok (ns_interfaces ns ! k) p;
     Some (ns\<lparr>ns_interfaces := (ns_interfaces ns)[k := i]\<rparr>, sent)
   }"

definition udp_handler :: "NetState \<Rightarrow> Ipv4Addr \<Rightarrow> u16 \<Rightarrow> UdpHandler option" where
  "udp_handler ns dst_ip dst_port =
     (case ns_udp_handlers ns \<lparr>sa_host = V4 dst_ip, sa_port = dst_port\<rparr> of
        Some h \<Rightarrow> Some h
      | None \<Rightarrow> ns_udp_handlers ns \<lparr>sa_host = V4 ipv4_ZERO, sa_port = dst_port\<rparr>)"

definition on_udp ::
  "(bytes \<Rightarrow> bool) \<Rightarrow> ('ctx, 'tcp) Daemon \<Rightarrow> FrameHeader \<Rightarrow> Ipv4Header \<Rightarrow> UdpPacket
     \<Rightarrow> (('ctx, 'tcp) Daemon \<times> bytes list \<times> ('ctx \<times> dns_answer) list) option option" where
  "on_udp pub_ok d e h p =
     (case udp_handler (d_net d) (ip_dst_ip h) (udp_dst_port (udp_header p)) of
        None \<Rightarrow> Some (Some (d, [], []))
      | Some HandleUdpDhcp \<Rightarrow>
          rbind (Some (handle_udp_dhcp pub_ok (d_net d) e p)) (\<lambda>(ns, sent).
            Some (Some (d\<lparr>d_net := ns\<rparr>, sent, [])))
      | Some HandleUdpDns \<Rightarrow>
          rbind (resolver_on_packet (d_dns d) p) (\<lambda>(dr, answers).
            Some (Some (d\<lparr>d_dns := dr\<rparr>, [], answers))))"

definition on_ipv4 ::
  "(bytes \<Rightarrow> bool) \<Rightarrow> u16 \<Rightarrow> (Ipv4Header \<Rightarrow> Segment \<Rightarrow> 'tcp \<Rightarrow> 'tcp option)
     \<Rightarrow> ('ctx, 'tcp) Daemon \<Rightarrow> FrameHeader \<Rightarrow> bytes
     \<Rightarrow> (('ctx, 'tcp) Daemon \<times> bytes list \<times> ('ctx \<times> dns_answer) list) option option" where
  "on_ipv4 pub_ok all_flags handle_tcp d e payload =
     rbind (Some (ipv4_packet_from_bytes payload)) (\<lambda>ip.
     let h = ipp_header ip in
     if ip_protocol h = TCP then
       rbind (Some (do {
         seg \<leftarrow> segment_from_bytes all_flags (ipp_payload ip);
         handle_tcp h seg (d_tcp d) })) (\<lambda>t.
       Some (Some (d\<lparr>d_tcp := t\<rparr>, [], [])))
     else if ip_protocol h = UDP then
       rbind (Some (udp_packet_from_bytes (ipp_payload ip))) (\<lambda>p. on_udp pub_ok d e h p)
     else Some (Some (d, [], [])))"

definition on_packet ::
  "(bytes \<Rightarrow> bool) \<Rightarrow> u16 \<Rightarrow> (Ipv4Header \<Rightarrow> Segment \<Rightarrow> 'tcp \<Rightarrow> 'tcp option)
     \<Rightarrow> ('ctx, 'tcp) Daemon \<Rightarrow> bytes
     \<Rightarrow> (('ctx, 'tcp) Daemon \<times> bytes list \<times> ('ctx \<times> dns_answer) list) option option" where
  "on_packet pub_ok all_flags handle_tcp d packet =
     rbind (Some (frame_from_bytes packet)) (\<lambda>frame.
     (case fh_ethertype (fr_header frame) of
        Et_ARP \<Rightarrow>
          rbind (Some (do {
            arp \<leftarrow> arp_from_bytes (fr_payload frame);
            handle_arp_packet pub_ok (d_net d) frame arp })) (\<lambda>(ns, sent).
          Some (Some (d\<lparr>d_net := ns\<rparr>, sent, [])))
      | Et_Ipv4 \<Rightarrow> on_ipv4 pub_ok all_flags handle_tcp d (fr_header frame) (fr_payload frame)
      | _ \<Rightarrow> Some (Some (d, [], []))))"

subsection \<open>Life cycle of an interface\<close>

text \<open>An interface is created, starts discovery, and then handles received DHCP packets.\<close>

inductive if_reachable :: "(bytes \<Rightarrow> bool) \<Rightarrow> MacAddr \<Rightarrow> Interface \<Rightarrow> bool" for pub_ok mac where
  if_start: "interface_discover pub_ok (interface_new rnd mac) = Some (i, sent) \<Longrightarrow>
    if_reachable pub_ok mac i"
| if_packet: "if_reachable pub_ok mac i \<Longrightarrow> on_dhcp_packet pub_ok i p = Some (i', sent) \<Longrightarrow>
    if_reachable pub_ok mac i'"

definition online_inv :: "MacAddr \<Rightarrow> Interface \<Rightarrow> bool" where
  "online_inv mac i \<longleftrightarrow>
     if_mac_addr i = mac \<and> dc_mac_addr (if_dhcp_client i) = mac \<and>
     dc_state (if_dhcp_client i) \<noteq> Initial \<and>
     (if_arp_probe_ok i \<longleftrightarrow> dc_state (if_dhcp_client i) = Operational) \<and>
     (is_ipv4 (if_settings i) \<noteq> None \<longleftrightarrow> dc_state (if_dhcp_client i) = Operational)"

lemma accept_offer_client:
  "accept_offer pub_ok c ip sid = Some (c', sent) \<Longrightarrow> c' = c\<lparr>dc_state := Requested\<rparr>"
  by (auto simp: accept_offer_def Let_def split: bind_splits if_splits)

text \<open>The transitions of the client: an offer is accepted, an acknowledgement gives settings.\<close>

lemma client_handle_cases:
  assumes "client_handle pub_ok c payload = Some (c', sent, settings)"
  shows "(c' = c \<and> settings = None) \<or>
    (dc_state c = Discover \<and> c' = c\<lparr>dc_state := Requested\<rparr> \<and> settings = None) \<or>
    (dc_state c = Requested \<and> c' = c\<lparr>dc_state := Operational\<rparr> \<and>
     settings = Some (ack_settings payload))"
  using assms
  by (auto simp: client_handle_def split: if_splits option.splits ClientState.splits bind_splits
      dest: accept_offer_client)

text \<open>The client does not look at the transaction id or at the hardware address of a reply.\<close>

lemma client_ignores_transaction:
  "client_handle pub_ok c (payload\<lparr>dh_xid := x, dh_mac_addr := m\<rparr>) = client_handle pub_ok c payload"
  by (simp add: client_handle_def ack_settings_def split: option.split ClientState.split)

lemma arp_probe_result:
  "arp_probe pub_ok i = Some (i', sent) \<Longrightarrow> i' = i\<lparr>if_arp_probe_ok := True\<rparr>"
  by (auto simp: arp_probe_def Let_def split: option.splits bind_splits if_splits)

lemma on_dhcp_packet_cases:
  assumes "on_dhcp_packet pub_ok i p = Some (i', sent)"
  shows "\<exists>c payload s settings. client_handle pub_ok (if_dhcp_client i) payload = Some (c, s, settings) \<and>
    i' = (case settings of None \<Rightarrow> i\<lparr>if_dhcp_client := c\<rparr>
      | Some st \<Rightarrow> i\<lparr>if_dhcp_client := c, if_settings := st, if_arp_probe_ok := True\<rparr>)"
proof -
  obtain c s settings where run: "client_on_packet pub_ok (if_dhcp_client i) p = Some (c, s, settings)"
    using assms by (auto simp: on_dhcp_packet_def split: bind_splits)
  then obtain payload where "client_handle pub_ok (if_dhcp_client i) payload = Some (c, s, settings)"
    by (auto simp: client_on_packet_def split: bind_splits)
  moreover have "i' = (case settings of None \<Rightarrow> i\<lparr>if_dhcp_client := c\<rparr>
      | Some st \<Rightarrow> i\<lparr>if_dhcp_client := c, if_settings := st, if_arp_probe_ok := True\<rparr>)"
    using assms run arp_probe_result
    by (cases settings) (auto simp: on_dhcp_packet_def Let_def split: bind_splits dest!: arp_probe_result)
  ultimately show ?thesis by blast
qed

lemma online_inv_packet:
  assumes "online_inv mac i" and "on_dhcp_packet pub_ok i p = Some (i', sent)"
  shows "online_inv mac i'"
proof -
  obtain c payload s settings where
    run: "client_handle pub_ok (if_dhcp_client i) payload = Some (c, s, settings)"
    and i': "i' = (case settings of None \<Rightarrow> i\<lparr>if_dhcp_client := c\<rparr>
      | Some st \<Rightarrow> i\<lparr>if_dhcp_client := c, if_settings := st, if_arp_probe_ok := True\<rparr>)"
    using on_dhcp_packet_cases [OF assms(2)] by blast
  from client_handle_cases [OF run] assms(1) show ?thesis
    unfolding i' by (elim disjE) (auto simp: online_inv_def ack_settings_def)
qed

text \<open>C38: An interface is online exactly when its address was granted: in every state reached by
  starting discovery and handling any received DHCP packets, the interface keeps its hardware
  address, it answers ARP (\<open>arp_probe_ok\<close>) exactly when its DHCP client is operational, and
  it has an IPv4 address exactly then.\<close>

theorem interface_online_iff_operational:
  assumes "if_reachable pub_ok mac i"
  shows "if_mac_addr i = mac \<and> dc_mac_addr (if_dhcp_client i) = mac \<and>
     (if_arp_probe_ok i \<longleftrightarrow> dc_state (if_dhcp_client i) = Operational) \<and>
     (is_ipv4 (if_settings i) \<noteq> None \<longleftrightarrow> dc_state (if_dhcp_client i) = Operational)"
proof -
  have "online_inv mac i"
    using assms
  proof (induction rule: if_reachable.induct)
    case (if_start rnd i sent)
    then show ?case
      by (auto simp: interface_discover_def send_discover_def interface_new_def client_new_def
          online_inv_def settings_new_def Let_def split: bind_splits if_splits)
  next
    case (if_packet i p i' sent)
    show ?case by (rule online_inv_packet [OF if_packet.IH if_packet.hyps(2)])
  qed
  then show ?thesis by (simp add: online_inv_def)
qed

theorem interface_online_iff_operational_witness:
  "\<exists>i. if_reachable (\<lambda>_. True) mac_BROADCAST i \<and> \<not> if_arp_probe_ok i \<and>
     is_ipv4 (if_settings i) = None"
proof -
  define i where "i = (interface_new 1 mac_BROADCAST)
    \<lparr>if_dhcp_client := (client_new 1 mac_BROADCAST)\<lparr>dc_state := Discover\<rparr>\<rparr>"
  have "\<exists>sent. interface_discover (\<lambda>_. True) (interface_new 1 mac_BROADCAST) = Some (i, sent)"
    by (simp add: interface_discover_def send_discover_def i_def interface_new_def client_new_def
        mac_BROADCAST_def mac_ZERO_def payload_to_bytes_def payload_discover_def
        options_to_bytes_def Let_def)
  then have "if_reachable (\<lambda>_. True) mac_BROADCAST i" by (auto intro: if_start)
  moreover have "dc_state (if_dhcp_client i) = Discover" by (simp add: i_def)
  ultimately show ?thesis
    using interface_online_iff_operational [of "\<lambda>_. True" mac_BROADCAST i] by auto
qed

subsection \<open>Answering ARP requests\<close>

lemma arp_loop_find:
  "arp_loop pub_ok frame arp is =
     (case find (\<lambda>i. if_arp_probe_ok i \<and> is_ipv4 (if_settings i) = Some (arp_dst_ip arp)) is of
        None \<Rightarrow> Some []
      | Some i \<Rightarrow> reply_if_ours pub_ok frame arp i)"
  by (induction "is") auto

lemma reply_if_ours_reply:
  assumes "is_ipv4 (if_settings i) = Some (arp_dst_ip arp)" and "arp_operation arp = Request"
  shows "\<exists>r pl. reply_if_ours (\<lambda>_. True) frame arp i = Some [r] \<and>
    frame_from_bytes r = Some \<lparr>fr_header = \<lparr>fh_dst_mac = fh_src_mac (fr_header frame),
      fh_src_mac = if_mac_addr i, fh_ethertype = Et_ARP\<rparr>, fr_payload = pl\<rparr> \<and>
    arp_from_bytes pl = Some \<lparr>arp_ptype = Et_Ipv4, arp_operation = Reply,
      arp_src_hw = if_mac_addr i, arp_src_ip = arp_dst_ip arp,
      arp_dst_hw = arp_src_hw arp, arp_dst_ip = arp_src_ip arp\<rparr>"
proof -
  let ?reply = "arp\<lparr>arp_operation := Reply, arp_dst_hw := arp_src_hw arp,
    arp_dst_ip := arp_src_ip arp, arp_src_hw := if_mac_addr i, arp_src_ip := arp_dst_ip arp\<rparr>"
  have "arp_from_bytes (arp_to_bytes ?reply) = Some (?reply\<lparr>arp_ptype := Et_Ipv4\<rparr>)"
    using arp_parse_padded [of ?reply "[]"] by simp
  then show ?thesis
    using assms
    by (simp add: reply_if_ours_def arp_reply_packet_def arp_to_reply_def arp_is_request_def
        eth_frame_def frame_roundtrip)
qed

text \<open>C37: An ARP request for an address is answered for exactly the interfaces that are online
  with it: a received request with a sender address and no target hardware address teaches the
  sender's address to the ARP table; if an interface is online with the requested address, the
  first such interface sends exactly one frame, addressed to the sender of the request, which
  parses to the ARP reply with the interface's hardware address and the requested address;
  otherwise nothing is sent.\<close>

theorem arp_request_answered:
  assumes "arp_operation arp = Request" and "arp_src_ip arp \<noteq> ipv4_ZERO"
    and "arp_dst_hw arp = mac_ZERO" and "arp_dst_ip arp \<noteq> ipv4_ZERO"
    and "fr_payload f = arp_to_bytes arp @ pad" and "fh_ethertype (fr_header f) = Et_ARP"
  shows "\<exists>d' sent. on_packet (\<lambda>_. True) all_flags handle_tcp d (frame_to_bytes f) =
      Some (Some (d', sent, [])) \<and>
    ns_arp_table (d_net d') = (ns_arp_table (d_net d))(arp_src_ip arp \<mapsto> arp_src_hw arp) \<and>
    (case find (\<lambda>i. if_arp_probe_ok i \<and> is_ipv4 (if_settings i) = Some (arp_dst_ip arp))
            (ns_interfaces (d_net d)) of
       None \<Rightarrow> sent = []
     | Some i \<Rightarrow> \<exists>r pl. sent = [r] \<and>
         frame_from_bytes r = Some \<lparr>fr_header = \<lparr>fh_dst_mac = fh_src_mac (fr_header f),
           fh_src_mac = if_mac_addr i, fh_ethertype = Et_ARP\<rparr>, fr_payload = pl\<rparr> \<and>
         arp_from_bytes pl = Some \<lparr>arp_ptype = Et_Ipv4, arp_operation = Reply,
           arp_src_hw = if_mac_addr i, arp_src_ip = arp_dst_ip arp,
           arp_dst_hw = arp_src_hw arp, arp_dst_ip = arp_src_ip arp\<rparr>)"
proof -
  let ?ours = "\<lambda>i. if_arp_probe_ok i \<and> is_ipv4 (if_settings i) = Some (arp_dst_ip arp)"
  let ?arp = "arp\<lparr>arp_ptype := Et_Ipv4\<rparr>"
  have parse: "arp_from_bytes (fr_payload f) = Some ?arp"
    using assms(5) by (simp add: arp_parse_padded)
  show ?thesis
  proof (cases "find ?ours (ns_interfaces (d_net d))")
    case None
    then show ?thesis using assms parse
      by (simp add: on_packet_def frame_roundtrip handle_arp_packet_def Let_def arp_is_request_def
          arp_loop_find)
  next
    case (Some i)
    then have "is_ipv4 (if_settings i) = Some (arp_dst_ip ?arp)"
      by (auto simp: find_Some_iff)
    then obtain r pl where r: "reply_if_ours (\<lambda>_. True) f ?arp i = Some [r]"
      and rest: "frame_from_bytes r = Some \<lparr>fr_header = \<lparr>fh_dst_mac = fh_src_mac (fr_header f),
           fh_src_mac = if_mac_addr i, fh_ethertype = Et_ARP\<rparr>, fr_payload = pl\<rparr>"
        "arp_from_bytes pl = Some \<lparr>arp_ptype = Et_Ipv4, arp_operation = Reply,
           arp_src_hw = if_mac_addr i, arp_src_ip = arp_dst_ip ?arp,
           arp_dst_hw = arp_src_hw ?arp, arp_dst_ip = arp_src_ip ?arp\<rparr>"
      using reply_if_ours_reply [of i ?arp f] assms(1) by auto
    show ?thesis using assms parse Some r rest
      by (simp add: on_packet_def frame_roundtrip handle_arp_packet_def Let_def arp_is_request_def
          arp_loop_find)
  qed
qed

theorem arp_request_answered_witness:
  "\<exists>d' sent. on_packet (\<lambda>_. True) 0 (\<lambda>_ _ t. Some t)
      \<lparr>d_net = net_state_init 1 mac_BROADCAST, d_dns = (resolver_new :: unit DnsResolver), d_tcp = ()\<rparr>
      (frame_to_bytes \<lparr>fr_header = \<lparr>fh_dst_mac = mac_BROADCAST, fh_src_mac = MacAddr 1 2 3 4 5 6,
         fh_ethertype = Et_ARP\<rparr>,
       fr_payload = arp_to_bytes \<lparr>arp_ptype = Et_Ipv4, arp_operation = Request,
         arp_src_hw = MacAddr 1 2 3 4 5 6, arp_src_ip = Ipv4Addr 10 0 2 2,
         arp_dst_hw = mac_ZERO, arp_dst_ip = Ipv4Addr 10 0 2 15\<rparr> @ []\<rparr>) =
      Some (Some (d', sent, [])) \<and>
    ns_arp_table (d_net d') = [Ipv4Addr 10 0 2 2 \<mapsto> MacAddr 1 2 3 4 5 6] \<and> sent = []"
  using arp_request_answered [of
      "\<lparr>arp_ptype = Et_Ipv4, arp_operation = Request,
         arp_src_hw = MacAddr 1 2 3 4 5 6, arp_src_ip = Ipv4Addr 10 0 2 2,
         arp_dst_hw = mac_ZERO, arp_dst_ip = Ipv4Addr 10 0 2 15\<rparr>"
      "\<lparr>fr_header = \<lparr>fh_dst_mac = mac_BROADCAST, fh_src_mac = MacAddr 1 2 3 4 5 6,
         fh_ethertype = Et_ARP\<rparr>,
       fr_payload = arp_to_bytes \<lparr>arp_ptype = Et_Ipv4, arp_operation = Request,
         arp_src_hw = MacAddr 1 2 3 4 5 6, arp_src_ip = Ipv4Addr 10 0 2 2,
         arp_dst_hw = mac_ZERO, arp_dst_ip = Ipv4Addr 10 0 2 15\<rparr> @ []\<rparr>" "[]" 0 "\<lambda>_ _ t. Some t"
      "\<lparr>d_net = net_state_init 1 mac_BROADCAST, d_dns = (resolver_new :: unit DnsResolver), d_tcp = ()\<rparr>"]
  by (simp add: ipv4_ZERO_def net_state_init_def net_state_new_def interface_new_def)

subsection \<open>Requests of users to the resolver\<close>

text \<open>A user can stop the network daemon with a name: as long as the first name server is an
  IPv4 address (the built-in servers are), resolving a query panics exactly when some label of the
  requested domain is empty, longer than 63 characters or not ASCII.\<close>

lemma user_resolve_panics_iff:
  assumes "dr_servers dr = V4 server # rest"
  shows "user_resolve pub_ok ns req_id dr rctx (domain, qtype) = None \<longleftrightarrow>
    (\<exists>l \<in> set (split_on CHR ''.'' domain). l = [] \<or> 64 \<le> length l \<or>
       (\<exists>c \<in> set l. 128 \<le> (of_char c :: nat)))"
proof -
  have sends: "\<exists>r. try_send pub_ok ns (V4 server) q = Some r" for q
    by (auto simp: try_send_def Let_def split: option.split prod.split)
  have "user_resolve pub_ok ns req_id dr rctx (domain, qtype) = None \<longleftrightarrow>
      make_question req_id domain qtype = None"
  proof (cases "make_question req_id domain qtype")
    case (Some q)
    then show ?thesis using assms sends [of q]
      by (auto simp: user_resolve_def index_def split: option.split)
  qed (use assms in \<open>simp add: user_resolve_def index_def\<close>)
  also have "\<dots> \<longleftrightarrow> \<not> list_all ok_label (split_on CHR ''.'' domain)"
    using make_question_iff [of req_id domain qtype] by (cases "make_question req_id domain qtype") auto
  finally show ?thesis by (auto simp: list_all_iff ok_label_def not_less)
qed

lemma user_resolve_panics_iff_example:
  "user_resolve (\<lambda>_. True) (net_state_init 1 mac_BROADCAST) 7 (resolver_new :: unit DnsResolver) ()
     (''a..b'', QA) = None"
  using user_resolve_panics_iff [of "resolver_new :: unit DnsResolver" "Ipv4Addr 1 1 1 1"
      "[V4 (Ipv4Addr 1 0 0 1)]" "\<lambda>_. True" "net_state_init 1 mac_BROADCAST" 7 "()" "''a..b''" QA]
  by (simp add: resolver_new_def)

end
