(* ===== verification/TcpSockets.thy ===== *)
theory TcpSockets
  imports NetDaemon "HOL-Library.Multiset"
begin

text \<open>
  The user sockets of the network daemon (\<open>daemon_net/src/tcp_handler.rs\<close>), the request
  protocol of a socket (\<open>libd7/src/net/tcp/socket_ipc_protocol.rs\<close>) and the main loop of the
  daemon (\<open>daemon_net/src/lib.rs\<close>).

  The connection state machine is the third-party crate \<open>tcpstate\<close>: its operations are the
  record \<open>TcpCrate\<close>, a parameter. A call returns its result, the callbacks into the user data
  of the socket that it made, in order, and the new state of the connection. What one call of
  the handler reads from outside (random bytes, the network state, whether a system call
  succeeds) is the record \<open>TcpEnv\<close>. The effects of the handler are appended to \<open>th_out\<close>;
  a reply context that Rust drops without a reply is negatively acknowledged, which is the
  effect \<open>ONack\<close>. The hash maps of the source are association lists.
\<close>

subsection \<open>Requests and replies (socket_ipc_protocol.rs)\<close>

datatype BindError = AlreadyInUse | NotAcceptable | NoPortsAvailable | BindPermissionDenied

datatype NetworkError =
  NoInterfaces | NoRouters | NoArpEntry | NoIpAddr | NameResolution | InvalidSocketAddr

datatype OptionKey = NagleDelayKey

datatype SockOption = NagleDelay nat

datatype SockRequest =
    RqGetState | RqGetOption OptionKey | RqSetOption SockOption | RqConnect SocketAddr
  | RqListen nat | RqAccept | RqShutdown | RqClose | RqAbort | RqRecv nat | RqSend bytes | RqRemove

type_synonym SocketId = nat
type_synonym Cookie = nat

datatype 'e TcpError = RetryAfter Cookie | ContinueAfter Cookie | TcpFailure 'e

datatype 'cs SockReply =
  RpState 'cs | RpOption SockOption | RpRecv bytes | RpAccept SocketAddr SocketId | RpNoData

datatype 'e SockError = ErrNetwork NetworkError | ErrTcp "'e TcpError"

subsection \<open>The connection state machine (crate tcpstate)\<close>

record SegmentMeta =
  sm_seqn :: u32
  sm_ackn :: u32
  sm_window :: u16
  sm_flags :: u16
  sm_data :: bytes

text \<open>The callbacks of the trait \<open>UserData\<close> that have an effect.\<close>

datatype 'e Act =
  ActSend SocketAddr SegmentMeta | ActEvent Cookie "'e TcpError + unit" | ActTimeout nat

text \<open>Every operation gets the values that its calls of \<open>new_seqn\<close> return.\<close>

type_synonym seqns = "nat \<Rightarrow> u32"
type_synonym ('r, 'e, 's) CrateResult = "('e TcpError + 'r) \<times> 'e Act list \<times> 's"

record ('s, 'cs, 'e) TcpCrate =
  tc_new :: 's
  tc_state :: "'s \<Rightarrow> 'cs"
  tc_connect :: "seqns \<Rightarrow> SocketAddr \<Rightarrow> 's \<Rightarrow> (unit, 'e, 's) CrateResult"
  tc_listen :: "seqns \<Rightarrow> nat \<Rightarrow> 's \<Rightarrow> (unit, 'e, 's) CrateResult"
  tc_accept :: "seqns \<Rightarrow> 's \<Rightarrow> (SocketAddr \<times> 's \<times> 'e Act list, 'e, 's) CrateResult"
  tc_remote :: "'s \<Rightarrow> SocketAddr"
  tc_shutdown :: "seqns \<Rightarrow> 's \<Rightarrow> (unit, 'e, 's) CrateResult"
  tc_close :: "seqns \<Rightarrow> 's \<Rightarrow> (unit, 'e, 's) CrateResult"
  tc_abort :: "seqns \<Rightarrow> 's \<Rightarrow> (unit, 'e, 's) CrateResult"
  tc_send :: "seqns \<Rightarrow> bytes \<Rightarrow> 's \<Rightarrow> (unit, 'e, 's) CrateResult"
  tc_recv :: "seqns \<Rightarrow> bytes \<Rightarrow> 's \<Rightarrow> (nat \<times> bytes, 'e, 's) CrateResult"
  tc_on_segment :: "seqns \<Rightarrow> SocketAddr \<Rightarrow> SegmentMeta \<Rightarrow> 's \<Rightarrow> 'e Act list \<times> 's"

record 'ctx TcpEnv =
  te_net :: "NetState option"
  te_pub_ok :: "bytes \<Rightarrow> bool"
  te_reply_ok :: "'ctx \<Rightarrow> bool"
  te_nack_ok :: "'ctx \<Rightarrow> bool"
  te_unsub_ok :: "nat \<Rightarrow> bool"
  te_pipe :: "string \<Rightarrow> nat option"
  te_alloc_ok :: "nat \<Rightarrow> bool"
  te_crypto :: bytes
  te_fast :: "nat \<Rightarrow> bytes"
  te_ports :: "(u8 \<times> u8) list"

definition new_seqn :: "'ctx TcpEnv \<Rightarrow> seqns" where
  "new_seqn env n = word_of_nat (from_le (te_fast env n))"

subsection \<open>Hash maps as association lists\<close>

text \<open>\<open>remove\<close> returns the value; \<open>insert\<close> returns the value it replaces.\<close>

fun al_remove :: "'k \<Rightarrow> ('k \<times> 'v) list \<Rightarrow> ('v \<times> ('k \<times> 'v) list) option" where
  "al_remove k [] = None"
| "al_remove k ((k', v) # al) =
     (if k = k' then Some (v, al) else map_option (apsnd (Cons (k', v))) (al_remove k al))"

definition al_insert ::
  "'k \<Rightarrow> 'v \<Rightarrow> ('k \<times> 'v) list \<Rightarrow> 'v option \<times> ('k \<times> 'v) list" where
  "al_insert k v al =
     (case al_remove k al of
        None \<Rightarrow> (None, (k, v) # al)
      | Some (old, al') \<Rightarrow> (Some old, (k, v) # al'))"

subsection \<open>Sockets\<close>

datatype SuspendMode = Continue | Retry SockRequest

record ('e, 'ctx) SocketData =
  sd_sub :: nat
  sd_local_port :: u16
  sd_send_error :: "NetworkError option"
  sd_suspended :: "(Cookie \<times> SuspendMode \<times> 'ctx) list"
  sd_ready :: "(SuspendMode \<times> 'ctx \<times> ('e TcpError + unit)) list"

record ('s, 'e, 'ctx) Socket =
  sk_state :: 's
  sk_data :: "('e, 'ctx) SocketData"

datatype ('cs, 'e, 'ctx) Out =
    OSend bytes
  | OReply 'ctx "'e SockError + 'cs SockReply"
  | ONack 'ctx
  | OUnsubscribe nat

definition net_route :: "NetState \<Rightarrow> NetworkError + MacAddr \<times> MacAddr \<times> Ipv4Addr" where
  "net_route ns =
     (case default_send_interface ns of
        None \<Rightarrow> Inl NoInterfaces
      | Some intf \<Rightarrow>
          (case is_routers (if_settings intf) of
             [] \<Rightarrow> Inl NoRouters
           | router_ip # _ \<Rightarrow>
               (case ns_arp_table ns router_ip of
                  None \<Rightarrow> Inl NoArpEntry
                | Some router_mac \<Rightarrow>
                    (case is_ipv4 (if_settings intf) of
                       None \<Rightarrow> Inl NoIpAddr
                     | Some ip_addr \<Rightarrow> Inr (router_mac, if_mac_addr intf, ip_addr)))))"

definition segment_packet ::
  "MacAddr \<Rightarrow> MacAddr \<Rightarrow> Ipv4Addr \<Rightarrow> u16 \<Rightarrow> Ipv4Addr \<Rightarrow> u16 \<Rightarrow> SegmentMeta \<Rightarrow> bytes" where
  "segment_packet dst_mac src_mac src_ip src_port dst_ip dst_port seg =
     pad_packet (eth_frame dst_mac src_mac Et_Ipv4 (tcp_build
       (tcp_builder_new src_ip dst_ip src_port dst_port (sm_seqn seg) (sm_ackn seg)
         (sm_window seg) (sm_flags seg) (sm_data seg))))"

definition send_inner ::
  "'ctx TcpEnv \<Rightarrow> SocketAddr \<Rightarrow> SegmentMeta \<Rightarrow> ('e, 'ctx) SocketData
     \<Rightarrow> (NetworkError + bytes) option" where
  "send_inner env to seg d = do {
     net_state \<leftarrow> te_net env;
     (case net_route net_state of
        Inl err \<Rightarrow> Some (Inl err)
      | Inr (dst_mac, src_mac, src_ip) \<Rightarrow>
          (case sa_host to of
             V6 _ \<Rightarrow> None
           | V4 dst_ip \<Rightarrow> do {
               let packet = segment_packet dst_mac src_mac src_ip (sd_local_port d) dst_ip
                     (sa_port to) seg;
               rassert (te_pub_ok env packet);
               Some (Inr packet)
             }))
   }"

text \<open>The callbacks \<open>send\<close>, \<open>event\<close> and \<open>add_timeout\<close>.\<close>

fun callback ::
  "'ctx TcpEnv \<Rightarrow> ('e, 'ctx) SocketData \<times> ('cs, 'e, 'ctx) Out list \<Rightarrow> 'e Act
     \<Rightarrow> (('e, 'ctx) SocketData \<times> ('cs, 'e, 'ctx) Out list) option" where
  "callback env (d, out) (ActSend to seg) = do {
     r \<leftarrow> send_inner env to seg d;
     Some (case r of
        Inr packet \<Rightarrow> (d, out @ [OSend packet])
      | Inl err \<Rightarrow> (d\<lparr>sd_send_error := Some err\<rparr>, out))
   }"
| "callback env (d, out) (ActEvent cookie result) = do {
     ((smode, reply_ctx), suspended) \<leftarrow> al_remove cookie (sd_suspended d);
     Some (d\<lparr>sd_suspended := suspended, sd_ready := sd_ready d @ [(smode, reply_ctx, result)]\<rparr>, out)
   }"
| "callback env (d, out) (ActTimeout t) = Some (d, out)"

text \<open>A call into the crate with the callbacks it makes.\<close>

definition crate_call ::
  "'ctx TcpEnv \<Rightarrow> 'e Act list \<Rightarrow> 's \<Rightarrow> ('s, 'e, 'ctx) Socket
     \<Rightarrow> (('s, 'e, 'ctx) Socket \<times> ('cs, 'e, 'ctx) Out list) option" where
  "crate_call env acts s socket = do {
     (d, out) \<leftarrow> foldM (callback env) (sk_data socket, []) acts;
     Some (socket\<lparr>sk_state := s, sk_data := d\<rparr>, out)
   }"

text \<open>Dropping a reply context, and dropping a socket with everything it holds.\<close>

definition drop_ctx :: "'ctx TcpEnv \<Rightarrow> 'ctx \<Rightarrow> ('cs, 'e, 'ctx) Out list option" where
  "drop_ctx env c = do { rassert (te_nack_ok env c); Some [ONack c] }"

definition data_ctxs :: "('e, 'ctx) SocketData \<Rightarrow> 'ctx list" where
  "data_ctxs d = map (\<lambda>(_, _, c). c) (sd_suspended d) @ map (\<lambda>(_, c, _). c) (sd_ready d)"

definition drop_socket ::
  "'ctx TcpEnv \<Rightarrow> ('s, 'e, 'ctx) Socket \<Rightarrow> ('cs, 'e, 'ctx) Out list option" where
  "drop_socket env socket = do {
     rassert (te_unsub_ok env (sd_sub (sk_data socket)));
     rassert (list_all (te_nack_ok env) (data_ctxs (sk_data socket)));
     Some (OUnsubscribe (sd_sub (sk_data socket)) # map ONack (data_ctxs (sk_data socket)))
   }"

subsection \<open>The handler\<close>

record Binding =
  bi_local :: SocketAddr
  bi_remote :: "SocketAddr option"

definition match_any :: "u16 \<Rightarrow> Binding" where
  "match_any local_port =
     \<lparr>bi_local = \<lparr>sa_host = V4 ipv4_ZERO, sa_port = local_port\<rparr>, bi_remote = None\<rparr>"

record ('s, 'cs, 'e, 'ctx) TcpHandler =
  th_bindings :: "Binding \<rightharpoonup> SocketId"
  th_sockets :: "(SocketId \<times> ('s, 'e, 'ctx) Socket) list"
  th_next_id :: nat
  th_out :: "('cs, 'e, 'ctx) Out list"

definition tcp_handler_new :: "('s, 'cs, 'e, 'ctx) TcpHandler" where
  "tcp_handler_new =
     \<lparr>th_bindings = Map.empty, th_sockets = [], th_next_id = 0, th_out = []\<rparr>"

definition handler_for ::
  "('s, 'cs, 'e, 'ctx) TcpHandler \<Rightarrow> SocketId \<Rightarrow> ('s, 'e, 'ctx) Socket option" where
  "handler_for h socket_id = map_of (th_sockets h) socket_id"

text \<open>The socket behind the reference that \<open>handler_for\<close> returned has changed.\<close>

definition put_socket ::
  "SocketId \<Rightarrow> ('s, 'e, 'ctx) Socket \<Rightarrow> ('s, 'cs, 'e, 'ctx) TcpHandler
     \<Rightarrow> ('s, 'cs, 'e, 'ctx) TcpHandler" where
  "put_socket socket_id socket h = h\<lparr>th_sockets := snd (al_insert socket_id socket (th_sockets h))\<rparr>"

definition emit ::
  "('cs, 'e, 'ctx) Out list \<Rightarrow> ('s, 'cs, 'e, 'ctx) TcpHandler \<Rightarrow> ('s, 'cs, 'e, 'ctx) TcpHandler" where
  "emit out h = h\<lparr>th_out := th_out h @ out\<rparr>"

text \<open>\<open>self.sockets.insert(id, socket)\<close>, which drops a socket it replaces.\<close>

definition insert_socket ::
  "'ctx TcpEnv \<Rightarrow> SocketId \<Rightarrow> ('s, 'e, 'ctx) Socket \<Rightarrow> ('s, 'cs, 'e, 'ctx) TcpHandler
     \<Rightarrow> ('s, 'cs, 'e, 'ctx) TcpHandler option" where
  "insert_socket env socket_id socket h =
     (case al_insert socket_id socket (th_sockets h) of
        (None, al) \<Rightarrow> Some (h\<lparr>th_sockets := al\<rparr>)
      | (Some old, al) \<Rightarrow> do {
          out \<leftarrow> drop_socket env old;
          Some (emit out (h\<lparr>th_sockets := al\<rparr>))
        })"

definition new_socket_id :: "('s, 'cs, 'e, 'ctx) TcpHandler \<Rightarrow> SocketId \<times> ('s, 'cs, 'e, 'ctx) TcpHandler" where
  "new_socket_id h = (th_next_id h, h\<lparr>th_next_id := (th_next_id h + 1) mod 2 ^ 64\<rparr>)"

definition topic_name :: "'ctx TcpEnv \<Rightarrow> string" where
  "topic_name env = ''netd/tcp/socket/'' @ show_nat (from_le (te_crypto env))"

text \<open>The data of a new socket, with the pipe that \<open>ipc::Server::pipe\<close> creates.\<close>

definition new_socket_data :: "'ctx TcpEnv \<Rightarrow> u16 \<Rightarrow> ('e, 'ctx) SocketData option" where
  "new_socket_data env local_port = do {
     sub \<leftarrow> te_pipe env (topic_name env);
     Some \<lparr>sd_sub = sub, sd_local_port = local_port, sd_send_error = None, sd_suspended = [],
           sd_ready = []\<rparr>
   }"

definition socket_for :: "(Binding \<rightharpoonup> SocketId) \<Rightarrow> Binding \<Rightarrow> SocketId option" where
  "socket_for bindings b =
     (let remote = bi_remote b;
          no_remote = b\<lparr>bi_remote := None\<rparr>;
          any_local = b\<lparr>bi_local := \<lparr>sa_host = V4 ipv4_ZERO, sa_port = sa_port (bi_local b)\<rparr>\<rparr>
      in if bindings b \<noteq> None then bindings b
         else if remote \<noteq> None \<and> bindings no_remote \<noteq> None then bindings no_remote
         else if bindings any_local \<noteq> None then bindings any_local
         else bindings (any_local\<lparr>bi_remote := None\<rparr>))"

definition RANGE_DYNAMIC :: "u16 list" where
  "RANGE_DYNAMIC = map word_of_nat [49152..<65536]"

definition pick_free_port :: "(u8 \<times> u8) list \<Rightarrow> (Binding \<rightharpoonup> SocketId) \<Rightarrow> u16 option" where
  "pick_free_port rnd bindings =
     (let free = (\<lambda>port. socket_for bindings (match_any port) = None)
      in case find free (map (\<lambda>(a, b). random_dynamic_port a b) (take 10 rnd)) of
           Some port \<Rightarrow> Some port
         | None \<Rightarrow> find free RANGE_DYNAMIC)"

definition new_user_socket ::
  "('s, 'cs, 'e) TcpCrate \<Rightarrow> 'ctx TcpEnv \<Rightarrow> u16 \<Rightarrow> ('s, 'cs, 'e, 'ctx) TcpHandler
     \<Rightarrow> ((BindError + string) \<times> ('s, 'cs, 'e, 'ctx) TcpHandler) option" where
  "new_user_socket crate env port h0 =
     (let (socket_id, h) = new_socket_id h0
      in case (if port \<noteq> 0 then Some port else pick_free_port (te_ports env) (th_bindings h)) of
           None \<Rightarrow> Some (Inl NoPortsAvailable, h)
         | Some local_port \<Rightarrow> do {
             d \<leftarrow> new_socket_data env local_port;
             h \<leftarrow> insert_socket env socket_id \<lparr>sk_state = tc_new crate, sk_data = d\<rparr> h;
             Some (Inr (topic_name env),
               h\<lparr>th_bindings := (th_bindings h)(match_any local_port \<mapsto> socket_id)\<rparr>)
           })"

definition subscriptions :: "('s, 'cs, 'e, 'ctx) TcpHandler \<Rightarrow> (nat \<times> SocketId) list" where
  "subscriptions h = map (\<lambda>(s_id, s). (sd_sub (sk_data s), s_id)) (th_sockets h)"

text \<open>\<open>reply_ctx.reply(r).expect(..)\<close>\<close>

definition reply_ctx ::
  "'ctx TcpEnv \<Rightarrow> 'ctx \<Rightarrow> 'e SockError + 'cs SockReply \<Rightarrow> ('s, 'cs, 'e, 'ctx) TcpHandler
     \<Rightarrow> ('s, 'cs, 'e, 'ctx) TcpHandler option" where
  "reply_ctx env c r h = do { rassert (te_reply_ok env c); Some (emit [OReply c r] h) }"

subsubsection \<open>Requests of a socket\<close>

definition remove_socket ::
  "('s, 'cs, 'e) TcpCrate \<Rightarrow> 'ctx TcpEnv \<Rightarrow> SocketId \<Rightarrow> 'ctx \<Rightarrow> ('s, 'cs, 'e, 'ctx) TcpHandler
     \<Rightarrow> ('s, 'cs, 'e, 'ctx) TcpHandler option" where
  "remove_socket crate env socket_id c h = do {
     (s, sockets) \<leftarrow> al_remove socket_id (th_sockets h);
     let bindings = (\<lambda>b. if th_bindings h b = Some socket_id then None else th_bindings h b);
     let (r, acts, st) = tc_abort crate (new_seqn env) (sk_state s);
     (s, out) \<leftarrow> crate_call env acts st s;
     replied \<leftarrow> (if te_reply_ok env c
        then Some [OReply c (map_sum ErrTcp (\<lambda>_. RpNoData) r)]
        else drop_ctx env c);
     dropped \<leftarrow> drop_socket env s;
     Some (emit (out @ replied @ dropped) (h\<lparr>th_bindings := bindings, th_sockets := sockets\<rparr>))
   }"

text \<open>
  The calls of the other requests: the result, the changed socket, the effects, and the socket
  that \<open>call_accept\<close> made.
\<close>

definition no_data ::
  "'ctx TcpEnv \<Rightarrow> (unit, 'e, 's) CrateResult \<Rightarrow> ('s, 'e, 'ctx) Socket
     \<Rightarrow> (('e TcpError + 'cs SockReply) \<times> ('s, 'e, 'ctx) Socket \<times> ('cs, 'e, 'ctx) Out list) option" where
  "no_data env res socket = (case res of (r, acts, s) \<Rightarrow> do {
     (socket, out) \<leftarrow> crate_call env acts s socket;
     Some (map_sum id (\<lambda>_. RpNoData) r, socket, out)
   })"

definition call_accept ::
  "('s, 'cs, 'e) TcpCrate \<Rightarrow> 'ctx TcpEnv \<Rightarrow> ('s, 'e, 'ctx) Socket
     \<Rightarrow> (('e TcpError + SocketAddr \<times> ('s, 'e, 'ctx) Socket) \<times> ('s, 'e, 'ctx) Socket
         \<times> ('cs, 'e, 'ctx) Out list) option" where
  "call_accept crate env socket = (case tc_accept crate (new_seqn env) (sk_state socket) of
     (r, acts, s) \<Rightarrow> do {
       (socket, out) \<leftarrow> crate_call env acts s socket;
       (case r of
          Inl err \<Rightarrow> Some (Inl err, socket, out)
        | Inr (addr, s1, acts1) \<Rightarrow> do {
            d \<leftarrow> new_socket_data env (sd_local_port (sk_data socket));
            (new, out1) \<leftarrow> crate_call env acts1 s1 \<lparr>sk_state = s1, sk_data = d\<rparr>;
            Some (Inr (addr, new), socket, out @ out1)
          })
     })"

definition call_recv ::
  "('s, 'cs, 'e) TcpCrate \<Rightarrow> 'ctx TcpEnv \<Rightarrow> nat \<Rightarrow> ('s, 'e, 'ctx) Socket
     \<Rightarrow> (('e TcpError + 'cs SockReply) \<times> ('s, 'e, 'ctx) Socket \<times> ('cs, 'e, 'ctx) Out list) option" where
  "call_recv crate env n socket = do {
     rassert (te_alloc_ok env n);
     let (r, acts, s) = tc_recv crate (new_seqn env) (replicate n 0) (sk_state socket);
     (socket, out) \<leftarrow> crate_call env acts s socket;
     Some (map_sum id (\<lambda>(k, buffer). RpRecv (take k buffer)) r, socket, out)
   }"

fun request_call ::
  "('s, 'cs, 'e) TcpCrate \<Rightarrow> 'ctx TcpEnv \<Rightarrow> SockRequest \<Rightarrow> ('s, 'e, 'ctx) Socket
     \<Rightarrow> (('e TcpError + 'cs SockReply) \<times> ('s, 'e, 'ctx) Socket \<times> ('cs, 'e, 'ctx) Out list) option" where
  "request_call crate env RqGetState socket =
     Some (Inr (RpState (tc_state crate (sk_state socket))), socket, [])"
| "request_call crate env (RqConnect to) socket =
     no_data env (tc_connect crate (new_seqn env) to (sk_state socket)) socket"
| "request_call crate env (RqListen backlog) socket =
     no_data env (tc_listen crate (new_seqn env) backlog (sk_state socket)) socket"
| "request_call crate env RqShutdown socket =
     no_data env (tc_shutdown crate (new_seqn env) (sk_state socket)) socket"
| "request_call crate env RqClose socket =
     no_data env (tc_close crate (new_seqn env) (sk_state socket)) socket"
| "request_call crate env RqAbort socket =
     no_data env (tc_abort crate (new_seqn env) (sk_state socket)) socket"
| "request_call crate env (RqSend dat) socket =
     no_data env (tc_send crate (new_seqn env) dat (sk_state socket)) socket"
| "request_call crate env (RqRecv n) socket = call_recv crate env n socket"
| "request_call crate env _ socket = None"

text \<open>Registering the socket that was accepted, under its new identifier.\<close>

definition accept_request ::
  "('s, 'cs, 'e) TcpCrate \<Rightarrow> 'ctx TcpEnv \<Rightarrow> SocketId \<Rightarrow> ('s, 'e, 'ctx) Socket
     \<Rightarrow> ('s, 'cs, 'e, 'ctx) TcpHandler
     \<Rightarrow> (('e TcpError + 'cs SockReply) \<times> ('s, 'cs, 'e, 'ctx) TcpHandler) option" where
  "accept_request crate env socket_id socket h = do {
     (r, socket, out) \<leftarrow> call_accept crate env socket;
     let h = emit out (put_socket socket_id socket h);
     (case r of
        Inl err \<Rightarrow> Some (Inl err, h)
      | Inr (addr, new) \<Rightarrow> do {
          let (new_id, h) = new_socket_id h;
          let b = \<lparr>bi_local = \<lparr>sa_host = V4 ipv4_ZERO, sa_port = sd_local_port (sk_data new)\<rparr>,
                   bi_remote = Some (tc_remote crate (sk_state new))\<rparr>;
          h \<leftarrow> insert_socket env new_id new (h\<lparr>th_bindings := (th_bindings h)(b \<mapsto> new_id)\<rparr>);
          Some (Inr (RpAccept addr new_id), h)
        })
   }"

definition perform_request ::
  "('s, 'cs, 'e) TcpCrate \<Rightarrow> 'ctx TcpEnv \<Rightarrow> SocketId \<Rightarrow> SockRequest \<Rightarrow> ('s, 'e, 'ctx) Socket
     \<Rightarrow> ('s, 'cs, 'e, 'ctx) TcpHandler
     \<Rightarrow> (('e TcpError + 'cs SockReply) \<times> ('s, 'cs, 'e, 'ctx) TcpHandler) option" where
  "perform_request crate env socket_id request socket h =
     (if request = RqAccept then accept_request crate env socket_id socket h
      else do {
        (r, socket, out) \<leftarrow> request_call crate env request socket;
        Some (r, emit out (put_socket socket_id socket h))
      })"

text \<open>\<open>events_suspended.insert(cookie, (mode, reply_ctx))\<close>\<close>

definition suspend ::
  "'ctx TcpEnv \<Rightarrow> SocketId \<Rightarrow> Cookie \<Rightarrow> SuspendMode \<Rightarrow> 'ctx \<Rightarrow> ('s, 'cs, 'e, 'ctx) TcpHandler
     \<Rightarrow> ('s, 'cs, 'e, 'ctx) TcpHandler option" where
  "suspend env socket_id cookie smode c h = do {
     socket \<leftarrow> handler_for h socket_id;
     let d = sk_data socket;
     let (old, suspended) = al_insert cookie (smode, c) (sd_suspended d);
     let h = put_socket socket_id (socket\<lparr>sk_data := d\<lparr>sd_suspended := suspended\<rparr>\<rparr>) h;
     (case old of
        None \<Rightarrow> Some h
      | Some (_, c0) \<Rightarrow> do { out \<leftarrow> drop_ctx env c0; Some (emit out h) })
   }"

definition finish_request ::
  "'ctx TcpEnv \<Rightarrow> SocketId \<Rightarrow> SockRequest \<Rightarrow> 'ctx \<Rightarrow> 'e TcpError + 'cs SockReply
     \<Rightarrow> ('s, 'cs, 'e, 'ctx) TcpHandler \<Rightarrow> ('s, 'cs, 'e, 'ctx) TcpHandler option" where
  "finish_request env socket_id request c reply h =
     (case reply of
        Inl (RetryAfter cookie) \<Rightarrow> suspend env socket_id cookie (Retry request) c h
      | Inl (ContinueAfter cookie) \<Rightarrow> suspend env socket_id cookie Continue c h
      | other \<Rightarrow> do {
          handler_for h socket_id;
          reply_ctx env c (map_sum ErrTcp id other) h
        })"

definition take_send_error :: "('s, 'e, 'ctx) Socket \<Rightarrow> ('s, 'e, 'ctx) Socket" where
  "take_send_error socket = socket\<lparr>sk_data := (sk_data socket)\<lparr>sd_send_error := None\<rparr>\<rparr>"

definition user_socket_event_inner ::
  "('s, 'cs, 'e) TcpCrate \<Rightarrow> 'ctx TcpEnv \<Rightarrow> SocketId \<Rightarrow> SockRequest \<Rightarrow> 'ctx
     \<Rightarrow> ('s, 'cs, 'e, 'ctx) TcpHandler \<Rightarrow> (bool \<times> ('s, 'cs, 'e, 'ctx) TcpHandler) option" where
  "user_socket_event_inner crate env socket_id request c h = do {
     socket \<leftarrow> handler_for h socket_id;
     (if request = RqRemove then do {
        h \<leftarrow> remove_socket crate env socket_id c h;
        Some (False, h)
      } else (case sd_send_error (sk_data socket) of
        Some err \<Rightarrow> do {
          h \<leftarrow> reply_ctx env c (Inl (ErrNetwork err))
            (put_socket socket_id (take_send_error socket) h);
          Some (True, h)
        }
      | None \<Rightarrow> do {
          (reply, h) \<leftarrow> perform_request crate env socket_id request socket h;
          h \<leftarrow> finish_request env socket_id request c reply h;
          Some (True, h)
        }))
   }"

subsubsection \<open>Events\<close>

definition event_reply :: "'e TcpError + unit \<Rightarrow> 'e SockError + 'cs SockReply" where
  "event_reply r = map_sum ErrTcp (\<lambda>_. RpNoData) r"

definition process_event ::
  "('s, 'cs, 'e) TcpCrate \<Rightarrow> 'ctx TcpEnv \<Rightarrow> SocketId \<Rightarrow> NetworkError option
     \<Rightarrow> SuspendMode \<times> 'ctx \<times> ('e TcpError + unit) \<Rightarrow> ('s, 'cs, 'e, 'ctx) TcpHandler
     \<Rightarrow> ('s, 'cs, 'e, 'ctx) TcpHandler option" where
  "process_event crate env socket_id send_error ev h =
     (case ev of (smode, c, result) \<Rightarrow>
       (case send_error of
          Some err \<Rightarrow> reply_ctx env c (Inl (ErrNetwork err)) h
        | None \<Rightarrow>
            (case smode of
               Continue \<Rightarrow> reply_ctx env c (event_reply result) h
             | Retry request \<Rightarrow>
                 (case result of
                    Inl err \<Rightarrow> reply_ctx env c (event_reply result) h
                  | Inr _ \<Rightarrow> do {
                      (_, h) \<leftarrow> user_socket_event_inner crate env socket_id request c h;
                      Some h
                    }))))"

text \<open>The environment of the event number \<open>n\<close> is \<open>env n\<close>.\<close>

fun events_loop ::
  "('s, 'cs, 'e) TcpCrate \<Rightarrow> (nat \<Rightarrow> 'ctx TcpEnv) \<Rightarrow> SocketId \<Rightarrow> NetworkError option \<Rightarrow> nat
     \<Rightarrow> (SuspendMode \<times> 'ctx \<times> ('e TcpError + unit)) list \<Rightarrow> ('s, 'cs, 'e, 'ctx) TcpHandler
     \<Rightarrow> ('s, 'cs, 'e, 'ctx) TcpHandler option" where
  "events_loop crate env socket_id send_error n [] h = Some h"
| "events_loop crate env socket_id send_error n (ev # events) h = do {
     h \<leftarrow> process_event crate (env n) socket_id send_error ev h;
     events_loop crate env socket_id send_error (Suc n) events h
   }"

definition process_events ::
  "('s, 'cs, 'e) TcpCrate \<Rightarrow> (nat \<Rightarrow> 'ctx TcpEnv) \<Rightarrow> SocketId \<Rightarrow> ('s, 'cs, 'e, 'ctx) TcpHandler
     \<Rightarrow> ('s, 'cs, 'e, 'ctx) TcpHandler option" where
  "process_events crate env socket_id h = do {
     socket \<leftarrow> handler_for h socket_id;
     let events = sd_ready (sk_data socket);
     (if events = [] then Some h
      else do {
        let d = sk_data socket;
        events_loop crate env socket_id (sd_send_error d) 0 events
          (put_socket socket_id (socket\<lparr>sk_data := d\<lparr>sd_ready := [], sd_send_error := None\<rparr>\<rparr>) h)
      })
   }"

text \<open>The message that \<open>receive\<close> returns is the argument \<open>msg\<close>, \<open>None\<close> if it fails.\<close>

definition user_socket_event ::
  "('s, 'cs, 'e) TcpCrate \<Rightarrow> 'ctx TcpEnv \<Rightarrow> (nat \<Rightarrow> 'ctx TcpEnv) \<Rightarrow> SocketId
     \<Rightarrow> ('ctx \<times> SockRequest) option \<Rightarrow> ('s, 'cs, 'e, 'ctx) TcpHandler
     \<Rightarrow> ('s, 'cs, 'e, 'ctx) TcpHandler option" where
  "user_socket_event crate env env_ev socket_id msg h = do {
     handler_for h socket_id;
     (c, request) \<leftarrow> msg;
     (check_events, h) \<leftarrow> user_socket_event_inner crate env socket_id request c h;
     (if check_events then process_events crate env_ev socket_id h else Some h)
   }"

definition segment_meta :: "Segment \<Rightarrow> SegmentMeta" where
  "segment_meta seg =
     \<lparr>sm_seqn = sh_sequence (seg_header seg), sm_ackn = sh_ack_number (seg_header seg),
      sm_window = sh_window_size (seg_header seg), sm_flags = sh_flags (seg_header seg),
      sm_data = seg_payload seg\<rparr>"

definition segment_binding :: "Ipv4Header \<Rightarrow> Segment \<Rightarrow> Binding" where
  "segment_binding iph seg =
     \<lparr>bi_local = \<lparr>sa_host = V4 (ip_dst_ip iph), sa_port = sh_dst_port (seg_header seg)\<rparr>,
      bi_remote = Some \<lparr>sa_host = V4 (ip_src_ip iph), sa_port = sh_src_port (seg_header seg)\<rparr>\<rparr>"

definition handle_packet ::
  "('s, 'cs, 'e) TcpCrate \<Rightarrow> 'ctx TcpEnv \<Rightarrow> (nat \<Rightarrow> 'ctx TcpEnv) \<Rightarrow> Ipv4Header \<Rightarrow> Segment
     \<Rightarrow> ('s, 'cs, 'e, 'ctx) TcpHandler \<Rightarrow> ('s, 'cs, 'e, 'ctx) TcpHandler option" where
  "handle_packet crate env env_ev iph seg h =
     (case socket_for (th_bindings h) (segment_binding iph seg) of
        None \<Rightarrow> Some h
      | Some socket_id \<Rightarrow> do {
          socket \<leftarrow> handler_for h socket_id;
          let (acts, s) = tc_on_segment crate (new_seqn env)
                \<lparr>sa_host = V4 (ip_src_ip iph), sa_port = sh_src_port (seg_header seg)\<rparr>
                (segment_meta seg) (sk_state socket);
          (socket, out) \<leftarrow> crate_call env acts s socket;
          process_events crate env_ev socket_id (emit out (put_socket socket_id socket h))
        })"

subsection \<open>The main loop of the daemon (lib.rs)\<close>

text \<open>What \<open>select!\<close> reports, with the message that is then received.\<close>

datatype 'ctx Selected =
    SelTcp nat "('ctx \<times> SockRequest) option"
  | SelMac 'ctx
  | SelReceived bytes
  | SelDns 'ctx dns_query
  | SelNewTcp 'ctx SocketAddr
  | SelError

datatype 'ctx MainOut =
    MPacket bytes
  | MAnswer 'ctx dns_answer
  | MRefuse 'ctx
  | MMac 'ctx MacAddr
  | MBound 'ctx "BindError + string"

text \<open>
  One iteration. The outer \<open>None\<close> is an iteration that does not return, \<open>Some None\<close> a
  panic. The effects on TCP sockets are in the state of the handler, which reads the network
  state of the daemon: no iteration holds its lock while it calls the handler.
\<close>

definition main_iteration ::
  "('s, 'cs, 'e) TcpCrate \<Rightarrow> 'ctx TcpEnv \<Rightarrow> (nat \<Rightarrow> 'ctx TcpEnv) \<Rightarrow> u16 \<Rightarrow> u16 \<Rightarrow> MacAddr
     \<Rightarrow> 'ctx Selected \<Rightarrow> ('ctx, ('s, 'cs, 'e, 'ctx) TcpHandler) Daemon
     \<Rightarrow> (('ctx, ('s, 'cs, 'e, 'ctx) TcpHandler) Daemon \<times> 'ctx MainOut list) option option" where
  "main_iteration crate env0 env_ev0 all_flags req_id mac sel d =
     (let env = env0\<lparr>te_net := Some (d_net d)\<rparr>;
          env_ev = (\<lambda>n. (env_ev0 n)\<lparr>te_net := Some (d_net d)\<rparr>)
      in case sel of
        SelTcp i msg \<Rightarrow> Some (do {
          (_, socket_id) \<leftarrow> index (subscriptions (d_tcp d)) i;
          t \<leftarrow> user_socket_event crate env env_ev socket_id msg (d_tcp d);
          Some (d\<lparr>d_tcp := t\<rparr>, [])
        })
      | SelMac c \<Rightarrow> Some (do { rassert (te_reply_ok env c); Some (d, [MMac c mac]) })
      | SelReceived packet \<Rightarrow>
          rbind (on_packet (te_pub_ok env) all_flags (handle_packet crate env env_ev) d packet)
            (\<lambda>(d, sent, answers).
               Some (Some (d, map MPacket sent @ map (\<lambda>(c, a). MAnswer c a) answers)))
      | SelDns c query \<Rightarrow> Some (do {
          (dr, sent, refused) \<leftarrow> user_resolve (te_pub_ok env) (d_net d) req_id (d_dns d) c query;
          Some (d\<lparr>d_dns := dr\<rparr>, map MPacket sent @ map MRefuse refused)
        })
      | SelNewTcp c addr \<Rightarrow> Some (do {
          (r, t) \<leftarrow> new_user_socket crate env (sa_port addr) (d_tcp d);
          rassert (te_reply_ok env c);
          Some (d\<lparr>d_tcp := t\<rparr>, [MBound c r])
        })
      | SelError \<Rightarrow> Some None)"

end
