(* ===== verification/TcpBalance.thy ===== *)
theory TcpBalance
  imports TcpSockets
begin

text \<open>
  Every request that a client sent to a TCP socket is answered exactly once or is still held by
  its socket: the reply contexts that the handler received are, as a multiset, those it has
  answered or refused together with those that are suspended or ready in some socket.
\<close>

subsection \<open>Contexts answered and contexts held\<close>

fun out_ctx :: "('cs, 'e, 'ctx) Out \<Rightarrow> 'ctx list" where
  "out_ctx (OReply c _) = [c]"
| "out_ctx (ONack c) = [c]"
| "out_ctx _ = []"

definition answered :: "('cs, 'e, 'ctx) Out list \<Rightarrow> 'ctx multiset" where
  "answered out = mset (concat (map out_ctx out))"

definition sock_held :: "('s, 'e, 'ctx) Socket \<Rightarrow> 'ctx multiset" where
  "sock_held s = mset (data_ctxs (sk_data s))"

definition held_in :: "(SocketId \<times> ('s, 'e, 'ctx) Socket) list \<Rightarrow> 'ctx multiset" where
  "held_in al = sum_list (map (\<lambda>(_, s). sock_held s) al)"

definition balance :: "('s, 'cs, 'e, 'ctx) TcpHandler \<Rightarrow> 'ctx multiset" where
  "balance h = held_in (th_sockets h) + answered (th_out h)"

lemma answered_simps [simp]:
  "answered [] = {#}" "answered (x # xs) = mset (out_ctx x) + answered xs"
  "answered (xs @ ys) = answered xs + answered ys" "answered (map ONack cs) = mset cs"
  by (simp_all add: answered_def) (induction cs, auto)

lemma held_in_simps [simp]:
  "held_in [] = {#}" "held_in ((k, s) # al) = sock_held s + held_in al"
  by (simp_all add: held_in_def)

lemma al_remove_None: "al_remove k al = None \<longleftrightarrow> map_of al k = None"
  by (induction al) auto

lemma al_remove_lookup: "al_remove k al = Some (v, al') \<Longrightarrow> map_of al k = Some v"
  by (induction al arbitrary: al') auto

lemma al_remove_mset:
  "al_remove k al = Some (v, al') \<Longrightarrow> mset al = add_mset (k, v) (mset al')"
  by (induction al arbitrary: al') (auto split: if_splits)

lemma held_in_mset: "held_in al = (\<Sum>(k, s) \<in># mset al. sock_held s)"
  by (induction al) auto

lemma held_in_remove: "al_remove k al = Some (s, al') \<Longrightarrow> held_in al = sock_held s + held_in al'"
  by (simp add: held_in_mset al_remove_mset)

lemma al_insert_cases:
  assumes "al_insert k v al = (old, al')"
  obtains (fresh) "old = None" "map_of al k = None" "al' = (k, v) # al"
    | (replaced) v0 rest where "old = Some v0" "map_of al k = Some v0"
        "al_remove k al = Some (v0, rest)" "al' = (k, v) # rest"
  using assms by (auto simp: al_insert_def al_remove_None al_remove_lookup split: option.splits)

lemma data_ctxs_mset:
  "mset (data_ctxs d) = mset (map (\<lambda>(_, _, c). c) (sd_suspended d)) + mset (map (\<lambda>(_, c, _). c) (sd_ready d))"
  by (simp add: data_ctxs_def)

lemma suspended_remove:
  "al_remove k al = Some ((m, c), al') \<Longrightarrow>
     image_mset (\<lambda>(_, _, c). c) (mset al) = add_mset c (image_mset (\<lambda>(_, _, c). c) (mset al'))"
  by (simp add: al_remove_mset)

lemma mset_exchange:
  fixes a b s s' x y :: "'a multiset"
  assumes "a + s = b + s'" and "s' + x = s + y"
  shows "a + x = b + y"
proof -
  have "(a + x) + s = (b + y) + s"
    by (metis assms add.assoc add.commute)
  then show ?thesis by simp
qed

subsection \<open>The balance of each operation\<close>

lemma callback_held:
  "callback env (d, out) act = Some (d', out') \<Longrightarrow>
     mset (data_ctxs d') = mset (data_ctxs d) \<and> answered out' = answered out"
  by (cases act) (auto simp: data_ctxs_mset suspended_remove split: bind_splits sum.splits)

lemma callbacks_held:
  "foldM (callback env) (d, out) acts = Some (d', out') \<Longrightarrow>
     mset (data_ctxs d') = mset (data_ctxs d) \<and> answered out' = answered out"
proof (induction acts arbitrary: d out)
  case Nil
  then show ?case by simp
next
  case (Cons act acts)
  from Cons.prems obtain d1 out1 where one: "callback env (d, out) act = Some (d1, out1)"
    and rest: "foldM (callback env) (d1, out1) acts = Some (d', out')"
    by (auto split: option.splits)
  show ?case using callback_held [OF one] Cons.IH [OF rest] by simp
qed

lemma crate_call_held:
  assumes "crate_call env acts s socket = Some (socket', out)"
  shows "sock_held socket' = sock_held socket \<and> answered out = {#}"
proof -
  from assms obtain d where "foldM (callback env) (sk_data socket, []) acts = Some (d, out)"
    and "socket' = socket\<lparr>sk_state := s, sk_data := d\<rparr>"
    by (auto simp: crate_call_def split: bind_splits)
  with callbacks_held [of env "sk_data socket" "[]" acts d out] show ?thesis
    by (simp add: sock_held_def)
qed

lemma drop_socket_answered: "drop_socket env s = Some out \<Longrightarrow> answered out = sock_held s"
  by (auto simp: drop_socket_def sock_held_def split: if_splits)

lemma drop_ctx_answered: "drop_ctx env c = Some out \<Longrightarrow> answered out = {#c#}"
  by (auto simp: drop_ctx_def split: if_splits)

lemma balance_emit [simp]: "balance (emit out h) = balance h + answered out"
  by (simp add: balance_def emit_def)

lemma balance_put:
  assumes "handler_for h k = Some s"
  shows "balance (put_socket k s' h) + sock_held s = balance h + sock_held s'"
proof (cases "al_insert k s' (th_sockets h)")
  case (Pair old al')
  from Pair show ?thesis
  proof (cases rule: al_insert_cases)
    case fresh
    with assms show ?thesis by (simp add: handler_for_def)
  next
    case (replaced v0 rest)
    with assms have "v0 = s" by (simp add: handler_for_def)
    with replaced Pair show ?thesis by (simp add: balance_def put_socket_def held_in_remove)
  qed
qed

lemma balance_put_same:
  assumes "handler_for h k = Some s" and "sock_held s' = sock_held s"
  shows "balance (put_socket k s' h) = balance h"
  using balance_put [OF assms(1), of s'] assms(2) by simp

lemma balance_insert_socket:
  assumes "insert_socket env k s h = Some h'"
  shows "balance h' = balance h + sock_held s"
proof (cases "al_insert k s (th_sockets h)")
  case (Pair old al')
  from Pair show ?thesis
  proof (cases rule: al_insert_cases)
    case fresh
    with assms Pair show ?thesis by (auto simp: insert_socket_def balance_def)
  next
    case (replaced v0 rest)
    from assms Pair replaced obtain out where "drop_socket env v0 = Some out"
      and "h' = emit out (h\<lparr>th_sockets := al'\<rparr>)"
      by (auto simp: insert_socket_def split: bind_splits)
    with replaced show ?thesis by (simp add: balance_def emit_def held_in_remove drop_socket_answered)
  qed
qed

lemma balance_new_socket_id [simp]: "balance (snd (new_socket_id h)) = balance h"
  by (simp add: new_socket_id_def balance_def)

lemma new_socket_data_held:
  "new_socket_data env p = Some d \<Longrightarrow> data_ctxs d = []"
  by (auto simp: new_socket_data_def data_ctxs_def split: bind_splits)

lemma balance_bindings [simp]: "balance (h\<lparr>th_bindings := b\<rparr>) = balance h"
  by (simp add: balance_def)

lemma new_user_socket_balance:
  assumes "new_user_socket crate env port h = Some (r, h')"
  shows "balance h' = balance h"
proof -
  obtain k h1 where id: "new_socket_id h = (k, h1)" by fastforce
  then have "balance h1 = balance h" by (metis balance_new_socket_id snd_conv)
  with assms id show ?thesis
    by (auto simp: new_user_socket_def sock_held_def dest!: new_socket_data_held balance_insert_socket
        split: bind_splits option.splits if_splits)
qed

lemma reply_ctx_balance:
  "reply_ctx env c r h = Some h' \<Longrightarrow> balance h' = balance h + {#c#}"
  by (auto simp: reply_ctx_def split: if_splits)

lemma remove_socket_balance:
  assumes "remove_socket crate env k c h = Some h'"
  shows "balance h' = balance h + {#c#}"
proof -
  from assms obtain s sockets where rem: "al_remove k (th_sockets h) = Some (s, sockets)"
    by (auto simp: remove_socket_def split: bind_splits)
  obtain r acts st where abort: "tc_abort crate (new_seqn env) (sk_state s) = (r, acts, st)"
    by (metis prod_cases3)
  from assms rem abort obtain s1 out replied dropped where
    call: "crate_call env acts st s = Some (s1, out)"
    and rep: "(if te_reply_ok env c then Some [OReply c (map_sum ErrTcp (\<lambda>_. RpNoData) r)]
       else drop_ctx env c) = Some replied"
    and dropped: "drop_socket env s1 = Some dropped"
    and h': "h' = emit (out @ replied @ dropped) (h\<lparr>th_bindings := (\<lambda>b. if th_bindings h b = Some k
       then None else th_bindings h b), th_sockets := sockets\<rparr>)"
    by (auto simp: remove_socket_def split: bind_splits)
  have "answered replied = {#c#}"
    using rep by (auto simp: drop_ctx_answered split: if_splits)
  with rem h' crate_call_held [OF call] drop_socket_answered [OF dropped] show ?thesis
    by (simp add: balance_def emit_def held_in_remove)
qed

lemma no_data_held:
  "no_data env res socket = Some (r, socket', out) \<Longrightarrow>
     sock_held socket' = sock_held socket \<and> answered out = {#}"
  by (auto simp: no_data_def dest!: crate_call_held split: prod.splits bind_splits)

lemma call_recv_held:
  "call_recv crate env n socket = Some (r, socket', out) \<Longrightarrow>
     sock_held socket' = sock_held socket \<and> answered out = {#}"
  by (auto simp: call_recv_def dest!: crate_call_held split: prod.splits bind_splits if_splits)

lemma request_call_held:
  "request_call crate env request socket = Some (r, socket', out) \<Longrightarrow>
     sock_held socket' = sock_held socket \<and> answered out = {#}"
  by (cases request) (auto dest: no_data_held call_recv_held)

lemma call_accept_held:
  assumes "call_accept crate env socket = Some (r, socket', out)"
  shows "sock_held socket' = sock_held socket \<and> answered out = {#} \<and>
    (\<forall>addr new. r = Inr (addr, new) \<longrightarrow> sock_held new = {#})"
  using assms
  by (auto simp: call_accept_def sock_held_def dest!: crate_call_held new_socket_data_held
      split: prod.splits bind_splits sum.splits)

lemma accept_request_balance:
  assumes "accept_request crate env k socket h = Some (r, h')" and "handler_for h k = Some socket"
  shows "balance h' = balance h"
proof -
  from assms(1) obtain r1 socket1 out where acc: "call_accept crate env socket = Some (r1, socket1, out)"
    by (auto simp: accept_request_def split: bind_splits)
  note held = call_accept_held [OF acc]
  have put: "balance (emit out (put_socket k socket1 h)) = balance h"
    using held balance_put_same [OF assms(2), of socket1] by simp
  show ?thesis
  proof (cases r1)
    case (Inl err)
    with assms(1) acc put show ?thesis by (simp add: accept_request_def)
  next
    case (Inr p)
    obtain addr new where p: "p = (addr, new)" by fastforce
    from assms(1) acc Inr p obtain h2 b i where
      "insert_socket env i new (h2\<lparr>th_bindings := b\<rparr>) = Some h'"
      and "h2 = snd (new_socket_id (emit out (put_socket k socket1 h)))"
      by (auto simp: accept_request_def Let_def split: bind_splits prod.splits)
    with put held Inr p show ?thesis by (simp add: balance_insert_socket)
  qed
qed

lemma perform_request_balance:
  assumes "perform_request crate env k request socket h = Some (r, h')"
    and "handler_for h k = Some socket"
  shows "balance h' = balance h"
proof (cases "request = RqAccept")
  case True
  with assms show ?thesis by (auto simp: perform_request_def intro: accept_request_balance)
next
  case False
  with assms(1) obtain socket1 out where
    call: "request_call crate env request socket = Some (r, socket1, out)"
    and "h' = emit out (put_socket k socket1 h)"
    by (auto simp: perform_request_def split: bind_splits)
  with request_call_held [OF call] balance_put_same [OF assms(2), of socket1] show ?thesis by simp
qed

lemma suspend_balance:
  assumes "suspend env k cookie m c h = Some h'"
  shows "balance h' = balance h + {#c#}"
proof -
  from assms obtain socket where socket: "handler_for h k = Some socket"
    by (auto simp: suspend_def split: bind_splits)
  obtain old al where ins: "al_insert cookie (m, c) (sd_suspended (sk_data socket)) = (old, al)"
    by fastforce
  let ?s = "socket\<lparr>sk_data := (sk_data socket)\<lparr>sd_suspended := al\<rparr>\<rparr>"
  note put = balance_put [OF socket, of ?s]
  from ins show ?thesis
  proof (cases rule: al_insert_cases)
    case fresh
    then have "sock_held ?s = sock_held socket + {#c#}" by (simp add: sock_held_def data_ctxs_mset)
    with put have "balance (put_socket k ?s h) = balance h + {#c#}" by simp
    with assms socket ins fresh show ?thesis by (auto simp: suspend_def Let_def)
  next
    case (replaced v0 rest)
    obtain m0 c0 where v0: "v0 = (m0, c0)" by fastforce
    with replaced have "sock_held ?s + {#c0#} = sock_held socket + {#c#}"
      by (simp add: sock_held_def data_ctxs_mset suspended_remove)
    with put have "balance (put_socket k ?s h) + {#c0#} = balance h + {#c#}"
      by (rule mset_exchange)
    with assms socket ins replaced v0 show ?thesis
      by (auto simp: suspend_def drop_ctx_answered split: bind_splits)
  qed
qed

lemma finish_request_balance:
  "finish_request env k request c reply h = Some h' \<Longrightarrow> balance h' = balance h + {#c#}"
  by (auto simp: finish_request_def suspend_balance reply_ctx_balance
      split: sum.splits TcpError.splits bind_splits)

lemma inner_balance:
  assumes "user_socket_event_inner crate env k request c h = Some (b, h')"
  shows "balance h' = balance h + {#c#}"
proof -
  from assms obtain socket where socket: "handler_for h k = Some socket"
    by (auto simp: user_socket_event_inner_def split: bind_splits)
  consider (remove) "request = RqRemove"
    | (error) err where "request \<noteq> RqRemove" "sd_send_error (sk_data socket) = Some err"
    | (perform) "request \<noteq> RqRemove" "sd_send_error (sk_data socket) = None"
    by (cases "sd_send_error (sk_data socket)") auto
  then show ?thesis
  proof cases
    case remove
    with assms socket show ?thesis
      by (auto simp: user_socket_event_inner_def remove_socket_balance split: bind_splits)
  next
    case error
    have "sock_held (take_send_error socket) = sock_held socket"
      by (simp add: take_send_error_def sock_held_def data_ctxs_def)
    then have "balance (put_socket k (take_send_error socket) h) = balance h"
      by (rule balance_put_same [OF socket])
    with assms socket error show ?thesis
      by (auto simp: user_socket_event_inner_def reply_ctx_balance split: bind_splits)
  next
    case perform
    with assms socket obtain r h1 where
      "perform_request crate env k request socket h = Some (r, h1)"
      and "finish_request env k request c r h1 = Some h'"
      by (auto simp: user_socket_event_inner_def split: bind_splits)
    with socket show ?thesis by (simp add: perform_request_balance finish_request_balance)
  qed
qed

lemma process_event_balance:
  "process_event crate env k e (m, c, r) h = Some h' \<Longrightarrow> balance h' = balance h + {#c#}"
  by (auto simp: process_event_def reply_ctx_balance inner_balance
      split: option.splits SuspendMode.splits sum.splits bind_splits)

lemma events_loop_balance:
  "events_loop crate env k e n evs h = Some h' \<Longrightarrow>
     balance h' = balance h + mset (map (\<lambda>(_, c, _). c) evs)"
proof (induction evs arbitrary: n h)
  case Nil
  then show ?case by simp
next
  case (Cons ev evs)
  obtain m c r where ev: "ev = (m, c, r)" by (cases ev) auto
  with Cons.prems obtain h1 where "process_event crate (env n) k e (m, c, r) h = Some h1"
    and "events_loop crate env k e (Suc n) evs h1 = Some h'"
    by (auto split: bind_splits)
  with Cons.IH [of "Suc n" h1] ev show ?case by (simp add: process_event_balance)
qed

lemma process_events_balance:
  assumes "process_events crate env k h = Some h'"
  shows "balance h' = balance h"
proof -
  from assms obtain socket where socket: "handler_for h k = Some socket"
    by (auto simp: process_events_def split: bind_splits)
  let ?d = "sk_data socket"
  let ?s = "socket\<lparr>sk_data := ?d\<lparr>sd_ready := [], sd_send_error := None\<rparr>\<rparr>"
  have "sock_held ?s + mset (map (\<lambda>(_, c, _). c) (sd_ready ?d)) = sock_held socket + {#}"
    by (simp add: sock_held_def data_ctxs_mset)
  with balance_put [OF socket, of ?s]
  have "balance (put_socket k ?s h) + mset (map (\<lambda>(_, c, _). c) (sd_ready ?d)) = balance h + {#}"
    by (rule mset_exchange)
  moreover from assms socket have "h' = h \<or>
      events_loop crate env k (sd_send_error ?d) 0 (sd_ready ?d) (put_socket k ?s h) = Some h'"
    by (simp add: process_events_def Let_def split: if_splits)
  ultimately show ?thesis by (auto simp: events_loop_balance)
qed

lemma user_socket_event_balance:
  assumes "user_socket_event crate env env_ev k (Some (c, request)) h = Some h'"
  shows "balance h' = balance h + {#c#}"
  using assms
  by (auto simp: user_socket_event_def inner_balance process_events_balance
      split: bind_splits if_splits)

lemma handle_packet_balance:
  assumes "handle_packet crate env env_ev iph seg h = Some h'"
  shows "balance h' = balance h"
proof (cases "socket_for (th_bindings h) (segment_binding iph seg)")
  case None
  with assms show ?thesis by (simp add: handle_packet_def)
next
  case (Some k)
  with assms obtain socket where socket: "handler_for h k = Some socket"
    by (auto simp: handle_packet_def split: bind_splits)
  with assms Some obtain acts s socket1 out where
    call: "crate_call env acts s socket = Some (socket1, out)"
    and events: "process_events crate env_ev k (emit out (put_socket k socket1 h)) = Some h'"
    by (auto simp: handle_packet_def split: bind_splits prod.splits)
  note held = crate_call_held [OF call]
  with socket have "balance (put_socket k socket1 h) = balance h" by (simp add: balance_put_same)
  with process_events_balance [OF events] held show ?thesis by simp
qed

subsection \<open>A concrete state machine and environment\<close>

text \<open>
  A connection that suspends a connect until a segment arrives. Its state is the number of
  the pending cookie.
\<close>

definition demo_crate :: "(nat option, nat, unit) TcpCrate" where
  "demo_crate =
     \<lparr>tc_new = None, tc_state = (\<lambda>s. 0),
      tc_connect = (\<lambda>_ to s. case s of
         None \<Rightarrow> (Inl (ContinueAfter 7), [], Some 7) | Some _ \<Rightarrow> (Inl (TcpFailure ()), [], s)),
      tc_listen = (\<lambda>_ _ s. (Inr (), [], s)),
      tc_accept = (\<lambda>_ s. (Inl (TcpFailure ()), [], s)),
      tc_remote = (\<lambda>_. \<lparr>sa_host = V4 ipv4_ZERO, sa_port = 0\<rparr>),
      tc_shutdown = (\<lambda>_ s. (Inr (), [], s)), tc_close = (\<lambda>_ s. (Inr (), [], s)),
      tc_abort = (\<lambda>_ s. (Inr (), [], s)), tc_send = (\<lambda>_ _ s. (Inr (), [], s)),
      tc_recv = (\<lambda>_ buf s. (Inr (0, buf), [], s)),
      tc_on_segment = (\<lambda>_ _ _ s. case s of
         None \<Rightarrow> ([], None) | Some c \<Rightarrow> ([ActEvent c (Inr ())], None))\<rparr>"

definition demo_tcp_env :: "nat TcpEnv" where
  "demo_tcp_env =
     \<lparr>te_net = Some net_state_new, te_pub_ok = (\<lambda>_. True), te_reply_ok = (\<lambda>_. True),
      te_nack_ok = (\<lambda>_. True), te_unsub_ok = (\<lambda>_. True), te_pipe = (\<lambda>_. Some 3),
      te_alloc_ok = (\<lambda>n. n \<le> 65536), te_crypto = [1, 2], te_fast = (\<lambda>_. [0, 0, 0, 1]),
      te_ports = [(1, 2)]\<rparr>"

definition demo_tcp_data :: "(unit, nat) SocketData" where
  "demo_tcp_data = \<lparr>sd_sub = 3, sd_local_port = 80, sd_send_error = None, sd_suspended = [],
     sd_ready = []\<rparr>"

definition demo_tcp :: "(nat option, nat, unit, nat) TcpHandler" where
  "demo_tcp =
     \<lparr>th_bindings = [match_any 80 \<mapsto> 0],
      th_sockets = [(0, \<lparr>sk_state = None, sk_data = demo_tcp_data\<rparr>)],
      th_next_id = 1, th_out = []\<rparr>"

definition demo_suspended :: "(nat option, nat, unit, nat) TcpHandler" where
  "demo_suspended = demo_tcp\<lparr>th_sockets :=
     [(0, \<lparr>sk_state = Some 7, sk_data = demo_tcp_data\<lparr>sd_suspended := [(7, Continue, 5)]\<rparr>\<rparr>)]\<rparr>"

definition demo_segment :: Segment where
  "demo_segment = \<lparr>seg_header = \<lparr>sh_src_port = 1234, sh_dst_port = 80, sh_sequence = 0,
     sh_ack_number = 0, sh_flags = 2, sh_window_size = 10, sh_options = segment_options_empty,
     sh_checksum = 0, sh_offset = 20\<rparr>, seg_payload = []\<rparr>"

definition demo_iph :: Ipv4Header where
  "demo_iph = \<lparr>ip_dscp_and_ecn = 0, ip_payload_len = 20, ip_identification = 0,
     ip_flags_and_frament = 0, ip_ttl = 64, ip_protocol = TCP, ip_src_ip = ipv4_LOCALHOST,
     ip_dst_ip = ipv4_LOCALHOST\<rparr>"

lemma demo_new_socket:
  "new_user_socket demo_crate demo_tcp_env 80 tcp_handler_new =
     Some (Inr (topic_name demo_tcp_env), demo_tcp)"
  by (simp add: new_user_socket_def new_socket_id_def tcp_handler_new_def new_socket_data_def
      insert_socket_def al_insert_def demo_tcp_env_def demo_tcp_def demo_tcp_data_def demo_crate_def)

lemma demo_connect:
  "user_socket_event demo_crate demo_tcp_env (\<lambda>_. demo_tcp_env) 0 (Some (5, RqConnect a)) demo_tcp =
     Some demo_suspended"
  by (simp add: user_socket_event_def user_socket_event_inner_def handler_for_def demo_tcp_def
      demo_tcp_data_def perform_request_def no_data_def demo_crate_def crate_call_def put_socket_def
      al_insert_def emit_def finish_request_def suspend_def process_events_def Let_def
      demo_suspended_def)

lemma demo_binding: "socket_for (th_bindings demo_suspended) (segment_binding demo_iph demo_segment) = Some 0"
  by (simp add: socket_for_def segment_binding_def demo_suspended_def demo_tcp_def match_any_def
      demo_iph_def demo_segment_def Let_def ipv4_ZERO_def ipv4_LOCALHOST_def)

lemma demo_packet:
  "\<exists>h. handle_packet demo_crate demo_tcp_env (\<lambda>_. demo_tcp_env) demo_iph demo_segment demo_suspended =
     Some h \<and> th_out h = [OReply 5 (Inr RpNoData)]"
  by (simp add: handle_packet_def demo_binding)
    (simp add: handler_for_def demo_suspended_def demo_tcp_def demo_tcp_data_def demo_crate_def
      crate_call_def put_socket_def al_insert_def emit_def process_events_def process_event_def
      reply_ctx_def demo_tcp_env_def event_reply_def Let_def)

subsection \<open>Runs of the handler\<close>

text \<open>A run, with the reply contexts of the requests received so far.\<close>

inductive tcp_run ::
  "('s, 'cs, 'e) TcpCrate \<Rightarrow> 'ctx list \<Rightarrow> ('s, 'cs, 'e, 'ctx) TcpHandler \<Rightarrow> bool" for crate where
  run_new: "tcp_run crate [] tcp_handler_new"
| run_socket: "tcp_run crate cs h \<Longrightarrow> new_user_socket crate env port h = Some (r, h') \<Longrightarrow>
    tcp_run crate cs h'"
| run_request: "tcp_run crate cs h \<Longrightarrow>
    user_socket_event crate env env_ev k (Some (c, request)) h = Some h' \<Longrightarrow>
    tcp_run crate (c # cs) h'"
| run_packet: "tcp_run crate cs h \<Longrightarrow> handle_packet crate env env_ev iph seg h = Some h' \<Longrightarrow>
    tcp_run crate cs h'"

text \<open>C19: In every run of the TCP handler the reply contexts of the requests it received are, counted
  with multiplicity, exactly the ones it has answered or refused and the ones its sockets still
  hold: no request is lost and none is answered twice. This holds for every behaviour of the
  state machine crate, with retries, send errors, removed sockets and replaced cookies.
\<close>

theorem tcp_requests_conserved:
  assumes "tcp_run crate cs h"
  shows "mset cs = answered (th_out h) + held_in (th_sockets h)"
proof -
  from assms have "balance h = mset cs"
  proof induction
    case run_new
    show ?case by (simp add: balance_def tcp_handler_new_def)
  next
    case run_socket
    then show ?case by (simp add: new_user_socket_balance)
  next
    case run_request
    then show ?case by (simp add: user_socket_event_balance)
  next
    case run_packet
    then show ?case by (simp add: handle_packet_balance)
  qed
  then show ?thesis by (simp add: balance_def ac_simps)
qed

theorem tcp_requests_conserved_witness:
  "\<exists>h. tcp_run demo_crate [5 :: nat] h \<and> {#5#} = answered (th_out h) + held_in (th_sockets h) \<and>
     OReply 5 (Inr RpNoData) \<in> set (th_out h)"
proof -
  have "tcp_run demo_crate [] (demo_tcp :: (nat option, nat, unit, nat) TcpHandler)"
    using demo_new_socket by (rule run_socket [OF run_new])
  then have connected: "tcp_run demo_crate [5] demo_suspended"
    using demo_connect [of "\<lparr>sa_host = V4 ipv4_LOCALHOST, sa_port = 9\<rparr>"] by (rule run_request)
  obtain h where "handle_packet demo_crate demo_tcp_env (\<lambda>_. demo_tcp_env) demo_iph demo_segment
      demo_suspended = Some h" and out: "th_out h = [OReply 5 (Inr RpNoData)]"
    using demo_packet by blast
  with connected have run: "tcp_run demo_crate [5] h" by (blast intro: run_packet)
  from tcp_requests_conserved [OF run] run out show ?thesis by (intro exI [of _ h]) simp
qed

end
