(* ===== verification/TcpTotal.thy ===== *)
theory TcpTotal
  imports TcpBalance
begin

text \<open>
  The TCP handler never panics while its environment behaves: the lookups it unwraps succeed,
  and an event of the state machine always finds its suspended request. The contract of the
  crate is \<open>crate_ok\<close>, stated with two views of a connection: the cookies it still has to
  report, and the peers it may send to.
\<close>

subsection \<open>Association lists with distinct keys\<close>

lemma al_remove_distinct:
  assumes "al_remove k al = Some (v, al')" and "distinct (map fst al)"
  shows "distinct (map fst al') \<and> map_of al' = (map_of al)(k := None) \<and>
    fst ` set al' = fst ` set al - {k} \<and> set al' \<subseteq> set al"
  using assms
proof (induction al arbitrary: al')
  case Nil
  then show ?case by simp
next
  case (Cons p al)
  obtain k0 v0 where p: "p = (k0, v0)" by fastforce
  show ?case
  proof (cases "k = k0")
    case True
    with Cons.prems p have al': "al' = al" and "k \<notin> fst ` set al" by auto
    then have "map_of al k = None" by (simp add: map_of_eq_None_iff)
    with True p al' Cons.prems show ?thesis by (auto simp: fun_upd_def)
  next
    case False
    with Cons.prems p obtain al1 where rem: "al_remove k al = Some (v, al1)"
      and al': "al' = (k0, v0) # al1" by auto
    from Cons.prems(2) have "distinct (map fst al)" by simp
    with Cons.IH [OF rem] have IH: "distinct (map fst al1) \<and> map_of al1 = (map_of al)(k := None) \<and>
      fst ` set al1 = fst ` set al - {k} \<and> set al1 \<subseteq> set al" .
    with Cons.prems p al' False show ?thesis by (auto simp: fun_upd_twist)
  qed
qed

lemma al_insert_distinct:
  assumes "al_insert k v al = (old, al')" and "distinct (map fst al)"
  shows "distinct (map fst al') \<and> map_of al' = (map_of al)(k \<mapsto> v) \<and>
    fst ` set al' = insert k (fst ` set al) \<and> set al' \<subseteq> insert (k, v) (set al)"
  using assms(1)
proof (cases rule: al_insert_cases)
  case fresh
  with assms(2) show ?thesis by (auto simp: map_of_eq_None_iff)
next
  case (replaced v0 rest)
  with al_remove_distinct [OF replaced(3) assms(2)] show ?thesis by (auto simp: fun_upd_def)
qed

subsection \<open>The contract of the state machine\<close>

fun act_events :: "'e Act list \<Rightarrow> Cookie list" where
  "act_events [] = []"
| "act_events (ActEvent c _ # acts) = c # act_events acts"
| "act_events (_ # acts) = act_events acts"

fun act_targets :: "'e Act list \<Rightarrow> SocketAddr set" where
  "act_targets [] = {}"
| "act_targets (ActSend to _ # acts) = insert to (act_targets acts)"
| "act_targets (_ # acts) = act_targets acts"

fun result_cookie :: "'e TcpError + 'r \<Rightarrow> Cookie set" where
  "result_cookie (Inl (RetryAfter c)) = {c}"
| "result_cookie (Inl (ContinueAfter c)) = {c}"
| "result_cookie _ = {}"

text \<open>
  A call reports each pending cookie at most once and no other cookie, sends only to peers it
  knows or was given, and a cookie that it returns is pending afterwards.
\<close>

definition step_ok ::
  "('s \<Rightarrow> Cookie set) \<Rightarrow> ('s \<Rightarrow> SocketAddr set) \<Rightarrow> SocketAddr set \<Rightarrow> 's
     \<Rightarrow> ('r, 'e, 's) CrateResult \<Rightarrow> bool" where
  "step_ok pend peers given s res \<longleftrightarrow> (case res of (r, acts, s') \<Rightarrow>
     distinct (act_events acts) \<and> set (act_events acts) \<subseteq> pend s \<and>
     act_targets acts \<subseteq> peers s \<union> given \<and>
     pend s' = (pend s - set (act_events acts)) \<union> result_cookie r \<and>
     peers s' \<subseteq> peers s \<union> given)"

definition accepted_ok ::
  "('s \<Rightarrow> Cookie set) \<Rightarrow> ('s \<Rightarrow> SocketAddr set) \<Rightarrow> 's
     \<Rightarrow> (SocketAddr \<times> 's \<times> 'e Act list, 'e, 's) CrateResult \<Rightarrow> bool" where
  "accepted_ok pend peers s res \<longleftrightarrow> (case res of
     (Inr (addr, s1, acts1), _, _) \<Rightarrow> pend s1 = {} \<and> peers s1 \<subseteq> peers s \<and>
        act_events acts1 = [] \<and> act_targets acts1 \<subseteq> peers s
   | _ \<Rightarrow> True)"

definition crate_ok ::
  "('s, 'cs, 'e) TcpCrate \<Rightarrow> ('s \<Rightarrow> Cookie set) \<Rightarrow> ('s \<Rightarrow> SocketAddr set) \<Rightarrow> bool" where
  "crate_ok crate pend peers \<longleftrightarrow>
     pend (tc_new crate) = {} \<and> peers (tc_new crate) = {} \<and>
     (\<forall>f to s. step_ok pend peers {to} s (tc_connect crate f to s)) \<and>
     (\<forall>f n s. step_ok pend peers {} s (tc_listen crate f n s)) \<and>
     (\<forall>f s. step_ok pend peers {} s (tc_accept crate f s)) \<and>
     (\<forall>f s. accepted_ok pend peers s (tc_accept crate f s)) \<and>
     (\<forall>f s. step_ok pend peers {} s (tc_shutdown crate f s)) \<and>
     (\<forall>f s. step_ok pend peers {} s (tc_close crate f s)) \<and>
     (\<forall>f s. step_ok pend peers {} s (tc_abort crate f s)) \<and>
     (\<forall>f dat s. step_ok pend peers {} s (tc_send crate f dat s)) \<and>
     (\<forall>f buf s. step_ok pend peers {} s (tc_recv crate f buf s)) \<and>
     (\<forall>f from seg s. step_ok pend peers {from} s
        (Inr () :: 'e TcpError + unit, tc_on_segment crate f from seg s))"

definition env_ok :: "nat \<Rightarrow> 'ctx TcpEnv \<Rightarrow> bool" where
  "env_ok lim env \<longleftrightarrow>
     te_net env \<noteq> None \<and> (\<forall>p. te_pub_ok env p) \<and> (\<forall>c. te_reply_ok env c) \<and>
     (\<forall>c. te_nack_ok env c) \<and> (\<forall>s. te_unsub_ok env s) \<and> (\<forall>t. te_pipe env t \<noteq> None) \<and>
     (\<forall>n \<le> lim. te_alloc_ok env n)"

subsection \<open>The invariant of the handler\<close>

definition is_v4 :: "SocketAddr \<Rightarrow> bool" where
  "is_v4 a \<longleftrightarrow> (\<exists>ip. sa_host a = V4 ip)"

text \<open>The requests that are implemented, with buffers up to \<open>lim\<close> bytes.\<close>

fun req_ok :: "nat \<Rightarrow> SockRequest \<Rightarrow> bool" where
  "req_ok lim (RqGetOption _) \<longleftrightarrow> False"
| "req_ok lim (RqSetOption _) \<longleftrightarrow> False"
| "req_ok lim (RqConnect to) \<longleftrightarrow> is_v4 to"
| "req_ok lim (RqRecv n) \<longleftrightarrow> n \<le> lim"
| "req_ok lim _ \<longleftrightarrow> True"

fun mode_ok :: "nat \<Rightarrow> SuspendMode \<Rightarrow> bool" where
  "mode_ok lim Continue \<longleftrightarrow> True"
| "mode_ok lim (Retry r) \<longleftrightarrow> req_ok lim r \<and> r \<noteq> RqRemove"

definition data_ok :: "nat \<Rightarrow> Cookie set \<Rightarrow> ('e, 'ctx) SocketData \<Rightarrow> bool" where
  "data_ok lim K d \<longleftrightarrow>
     fst ` set (sd_suspended d) = K \<and> distinct (map fst (sd_suspended d)) \<and>
     (\<forall>(_, m, _) \<in> set (sd_suspended d). mode_ok lim m) \<and>
     (\<forall>(m, _, _) \<in> set (sd_ready d). mode_ok lim m)"

text \<open>
  A socket whose last call returned \<open>r\<close>: the suspended requests are those of the pending
  cookies, except the one in \<open>r\<close>.
\<close>

definition sock_mid ::
  "nat \<Rightarrow> ('s \<Rightarrow> Cookie set) \<Rightarrow> ('s \<Rightarrow> SocketAddr set) \<Rightarrow> Cookie set \<Rightarrow> ('s, 'e, 'ctx) Socket \<Rightarrow> bool" where
  "sock_mid lim pend peers R s \<longleftrightarrow>
     (\<exists>K. data_ok lim K (sk_data s) \<and> pend (sk_state s) = K \<union> R) \<and> (\<forall>a \<in> peers (sk_state s). is_v4 a)"

definition handler_mid ::
  "nat \<Rightarrow> ('s \<Rightarrow> Cookie set) \<Rightarrow> ('s \<Rightarrow> SocketAddr set) \<Rightarrow> SocketId \<Rightarrow> Cookie set
     \<Rightarrow> ('s, 'cs, 'e, 'ctx) TcpHandler \<Rightarrow> bool" where
  "handler_mid lim pend peers k0 R h \<longleftrightarrow>
     distinct (map fst (th_sockets h)) \<and>
     (\<forall>k s. handler_for h k = Some s \<longrightarrow> sock_mid lim pend peers (if k = k0 then R else {}) s) \<and>
     (\<forall>b k. th_bindings h b = Some k \<longrightarrow> handler_for h k \<noteq> None)"

definition handler_ok ::
  "nat \<Rightarrow> ('s \<Rightarrow> Cookie set) \<Rightarrow> ('s \<Rightarrow> SocketAddr set) \<Rightarrow> ('s, 'cs, 'e, 'ctx) TcpHandler \<Rightarrow> bool" where
  "handler_ok lim pend peers h \<longleftrightarrow> handler_mid lim pend peers 0 {} h"

lemma handler_ok_mid: "handler_ok lim pend peers h \<longleftrightarrow> handler_mid lim pend peers k {} h"
  by (simp add: handler_ok_def handler_mid_def)

lemma handler_ok_socket:
  "handler_ok lim pend peers h \<Longrightarrow> handler_for h k = Some s \<Longrightarrow> sock_mid lim pend peers {} s"
  by (auto simp: handler_ok_def handler_mid_def split: if_splits)

lemma handler_mid_put:
  assumes "handler_mid lim pend peers k0 R h" and "handler_for h k = Some s"
    and "sock_mid lim pend peers R' s'" and "k = k0 \<or> R = {}"
  shows "handler_mid lim pend peers k R' (put_socket k s' h)"
    and "handler_for (put_socket k s' h) k = Some s'"
proof -
  obtain old al where ins: "al_insert k s' (th_sockets h) = (old, al)" by fastforce
  with assms(1) have "distinct (map fst al) \<and> map_of al = (map_of (th_sockets h))(k \<mapsto> s')"
    using al_insert_distinct by (fastforce simp: handler_mid_def)
  with ins assms show "handler_mid lim pend peers k R' (put_socket k s' h)"
    and "handler_for (put_socket k s' h) k = Some s'"
    by (auto simp: handler_mid_def put_socket_def handler_for_def split: if_splits)
qed

lemma handler_mid_emit [simp]:
  "handler_mid lim pend peers k R (emit out h) = handler_mid lim pend peers k R h"
  "handler_for (emit out h) = handler_for h"
  by (auto simp: handler_mid_def handler_for_def emit_def)

subsection \<open>Calls into the crate\<close>

lemma env_okD:
  assumes "env_ok lim env"
  shows "\<exists>net. te_net env = Some net" and "te_pub_ok env p" and "te_reply_ok env c"
    and "te_nack_ok env c" and "te_unsub_ok env i" and "\<exists>sub. te_pipe env t = Some sub"
    and "n \<le> lim \<Longrightarrow> te_alloc_ok env n"
  using assms by (simp_all add: env_ok_def)

lemma send_inner_total:
  assumes "env_ok lim env" and "is_v4 to"
  shows "\<exists>r. send_inner env to seg d = Some r"
proof -
  from env_okD(1) [OF assms(1)] obtain net where net: "te_net env = Some net" by blast
  from assms(2) obtain ip where ip: "sa_host to = V4 ip" by (auto simp: is_v4_def)
  show ?thesis
  proof (cases "net_route net")
    case (Inl err)
    with net show ?thesis by (simp add: send_inner_def)
  next
    case (Inr p)
    obtain a b c where "p = (a, b, c)" by (metis prod_cases3)
    with net ip Inr show ?thesis by (simp add: send_inner_def Let_def env_okD(2) [OF assms(1)])
  qed
qed

lemma callback_total:
  assumes "env_ok lim env" and "data_ok lim K d"
    and "set (act_events [act]) \<subseteq> K" and "\<forall>a \<in> act_targets [act]. is_v4 a"
  shows "\<exists>d' out'. callback env (d, out) act = Some (d', out') \<and>
    data_ok lim (K - set (act_events [act])) d' \<and> sd_local_port d' = sd_local_port d"
proof (cases act)
  case (ActSend to seg)
  with assms obtain r where "send_inner env to seg d = Some r" by (auto dest: send_inner_total)
  with ActSend assms(2) show ?thesis by (cases r) (auto simp: data_ok_def)
next
  case (ActEvent c result)
  with assms(2,3) have "al_remove c (sd_suspended d) \<noteq> None"
    by (auto simp: al_remove_None map_of_eq_None_iff data_ok_def)
  then obtain m ctx al where rem: "al_remove c (sd_suspended d) = Some ((m, ctx), al)" by auto
  from assms(2) have keys: "fst ` set (sd_suspended d) = K" "distinct (map fst (sd_suspended d))"
    and modes: "\<And>k m x. (k, m, x) \<in> set (sd_suspended d) \<Longrightarrow> mode_ok lim m"
      "\<And>m x y. (m, x, y) \<in> set (sd_ready d) \<Longrightarrow> mode_ok lim m"
    unfolding data_ok_def by (blast, blast, auto)
  from rem have "(c, m, ctx) \<in> set (sd_suspended d)" by (metis al_remove_lookup map_of_SomeD)
  then have "mode_ok lim m" by (rule modes)
  moreover have "distinct (map fst al)" "fst ` set al = K - {c}" "set al \<subseteq> set (sd_suspended d)"
    using al_remove_distinct [OF rem keys(2)] keys(1) by simp_all
  ultimately have "data_ok lim (K - {c})
      (d\<lparr>sd_suspended := al, sd_ready := sd_ready d @ [(m, ctx, result)]\<rparr>)"
    using modes by (auto simp: data_ok_def)
  with ActEvent rem show ?thesis by simp
next
  case (ActTimeout t)
  with assms(2) show ?thesis by simp
qed

lemma act_cons:
  "act_events (act # acts) = act_events [act] @ act_events acts"
  "act_targets (act # acts) = act_targets [act] \<union> act_targets acts"
  by (cases act; simp)+

lemma callbacks_total:
  assumes "env_ok lim env" and "data_ok lim K d" and "distinct (act_events acts)"
    and "set (act_events acts) \<subseteq> K" and "\<forall>a \<in> act_targets acts. is_v4 a"
  shows "\<exists>d' out'. foldM (callback env) (d, out) acts = Some (d', out') \<and>
    data_ok lim (K - set (act_events acts)) d' \<and> sd_local_port d' = sd_local_port d"
  using assms
proof (induction acts arbitrary: d out K)
  case Nil
  then show ?case by simp
next
  case (Cons act acts)
  note split = act_cons [of act acts]
  have now: "set (act_events [act]) \<subseteq> K" "\<forall>a \<in> act_targets [act]. is_v4 a"
    using Cons.prems(4,5) unfolding split by auto
  from callback_total [OF Cons.prems(1,2) now, of out] obtain d1 out1 where
    one: "callback env (d, out) act = Some (d1, out1)"
    and ok: "data_ok lim (K - set (act_events [act])) d1" "sd_local_port d1 = sd_local_port d"
    by blast
  have later: "distinct (act_events acts)" "set (act_events acts) \<subseteq> K - set (act_events [act])"
    "\<forall>a \<in> act_targets acts. is_v4 a"
    using Cons.prems(3-5) unfolding split by auto
  from Cons.IH [OF Cons.prems(1) ok(1) later, of out1] one ok(2) show ?case
    unfolding split by (auto simp: Diff_eq Int_assoc)
qed

lemma crate_call_total:
  fixes env :: "'ctx TcpEnv" and s :: "('s, 'e, 'ctx) Socket"
  assumes "env_ok lim env" and "sock_mid lim pend peers {} s"
    and "step_ok pend peers given (sk_state s) (r, acts, st)" and "\<forall>a \<in> given. is_v4 a"
  shows "\<exists>s' (out :: ('cs, 'e, 'ctx) Out list). crate_call env acts st s = Some (s', out) \<and>
    sock_mid lim pend peers (result_cookie r) s' \<and> sk_state s' = st"
proof -
  from assms(2) have d: "data_ok lim (pend (sk_state s)) (sk_data s)"
    and v4: "\<forall>a \<in> peers (sk_state s). is_v4 a"
    by (auto simp: sock_mid_def)
  from assms(3) have st: "distinct (act_events acts)" "set (act_events acts) \<subseteq> pend (sk_state s)"
    "act_targets acts \<subseteq> peers (sk_state s) \<union> given"
    "pend st = (pend (sk_state s) - set (act_events acts)) \<union> result_cookie r"
    "peers st \<subseteq> peers (sk_state s) \<union> given"
    by (simp_all add: step_ok_def)
  from st(3) v4 assms(4) have "\<forall>a \<in> act_targets acts. is_v4 a" by blast
  from callbacks_total [OF assms(1) d st(1,2) this, of "[]"]
  obtain d' and out :: "('cs, 'e, 'ctx) Out list" where
    "foldM (callback env) (sk_data s, []) acts = Some (d', out)"
    and "data_ok lim (pend (sk_state s) - set (act_events acts)) d'"
    by blast
  moreover from st(5) v4 assms(4) have "\<forall>a \<in> peers st. is_v4 a" by blast
  ultimately show ?thesis using st(4) by (auto simp: crate_call_def sock_mid_def)
qed

lemma result_cookie_map [simp]: "result_cookie (map_sum id f r) = result_cookie r"
  by (cases r rule: result_cookie.cases) simp_all

text \<open>The call returns, and leaves its socket as its result says.\<close>

definition call_ok ::
  "nat \<Rightarrow> ('s \<Rightarrow> Cookie set) \<Rightarrow> ('s \<Rightarrow> SocketAddr set)
     \<Rightarrow> (('e TcpError + 'r) \<times> ('s, 'e, 'ctx) Socket \<times> ('cs, 'e, 'ctx) Out list) option \<Rightarrow> bool" where
  "call_ok lim pend peers x \<longleftrightarrow>
     (case x of None \<Rightarrow> False | Some (r, s, _) \<Rightarrow> sock_mid lim pend peers (result_cookie r) s)"

lemma call_okE:
  assumes "call_ok lim pend peers x"
  obtains r s out where "x = Some (r, s, out)" and "sock_mid lim pend peers (result_cookie r) s"
  using assms by (auto simp: call_ok_def split: option.splits)

lemma no_data_total:
  fixes env :: "'ctx TcpEnv" and s :: "('s, 'e, 'ctx) Socket"
  assumes "env_ok lim env" and "sock_mid lim pend peers {} s"
    and "step_ok pend peers given (sk_state s) res" and "\<forall>a \<in> given. is_v4 a"
  shows "call_ok lim pend peers (no_data env res s ::
    (('e TcpError + 'cs SockReply) \<times> ('s, 'e, 'ctx) Socket \<times> ('cs, 'e, 'ctx) Out list) option)"
proof -
  obtain r acts st where res: "res = (r, acts, st)" by (metis prod_cases3)
  from crate_call_total [OF assms(1,2) assms(3) [unfolded res] assms(4)]
  obtain s' and out :: "('cs, 'e, 'ctx) Out list" where
    "crate_call env acts st s = Some (s', out)" "sock_mid lim pend peers (result_cookie r) s'" by blast
  with res show ?thesis by (simp add: no_data_def call_ok_def)
qed

lemma call_recv_total:
  fixes crate :: "('s, 'cs, 'e) TcpCrate" and env :: "'ctx TcpEnv"
  assumes "env_ok lim env" and "sock_mid lim pend peers {} s" and "crate_ok crate pend peers"
    and "n \<le> lim"
  shows "call_ok lim pend peers (call_recv crate env n s)"
proof -
  obtain r acts st where res: "tc_recv crate (new_seqn env) (replicate n 0) (sk_state s) = (r, acts, st)"
    by (metis prod_cases3)
  with assms(3) have "step_ok pend peers {} (sk_state s) (r, acts, st)"
    unfolding crate_ok_def by metis
  from crate_call_total [OF assms(1,2) this] obtain s' and out :: "('cs, 'e, 'ctx) Out list" where
    "crate_call env acts st s = Some (s', out)" "sock_mid lim pend peers (result_cookie r) s'" by auto
  with res env_okD(7) [OF assms(1,4)] show ?thesis by (simp add: call_recv_def call_ok_def)
qed

lemma request_call_total:
  assumes "env_ok lim env" and "sock_mid lim pend peers {} s" and "crate_ok crate pend peers"
    and "req_ok lim request" and "request \<noteq> RqRemove" and "request \<noteq> RqAccept"
  shows "call_ok lim pend peers (request_call crate env request s)"
proof -
  note plain = no_data_total [OF assms(1,2), where given = "{}", simplified]
  have connect: "call_ok lim pend peers (no_data env (tc_connect crate f to (sk_state s)) s)"
    if "is_v4 to" for f to
    by (rule no_data_total [OF assms(1,2), where given = "{to}"])
      (use assms(3) that in \<open>simp_all add: crate_ok_def\<close>)
  have unchanged: "call_ok lim pend peers (Some (Inr r, s, []))" for r
    using assms(2) by (simp add: call_ok_def)
  show ?thesis
    using assms(3-6)
    by (cases request) (simp_all add: crate_ok_def plain connect unchanged call_recv_total [OF assms(1-3)])
qed

subsection \<open>Requests and events\<close>

lemma handler_for_fields [simp]:
  "handler_for (h\<lparr>th_next_id := n\<rparr>) k = handler_for h k"
  "handler_for (h\<lparr>th_bindings := b\<rparr>) k = handler_for h k"
  by (simp_all add: handler_for_def)

lemma handler_mid_next_id [simp]:
  "handler_mid lim pend peers k R (h\<lparr>th_next_id := n\<rparr>) = handler_mid lim pend peers k R h"
  by (simp add: handler_mid_def)

lemma handler_mid_bind:
  "handler_mid lim pend peers k0 R h \<Longrightarrow> handler_for h k \<noteq> None \<Longrightarrow>
     handler_mid lim pend peers k0 R (h\<lparr>th_bindings := (th_bindings h)(b \<mapsto> k)\<rparr>)"
  by (simp add: handler_mid_def)

text \<open>Inserting a socket, when a binding for it may already have been made.\<close>

lemma insert_socket_total:
  assumes "handler_ok lim pend peers h" and "sock_mid lim pend peers {} s" and "env_ok lim env"
    and "\<And>b k1. B b = Some k1 \<Longrightarrow> k1 = k \<or> th_bindings h b = Some k1"
  shows "\<exists>h'. insert_socket env k s (h\<lparr>th_bindings := B\<rparr>) = Some h' \<and> handler_ok lim pend peers h' \<and>
    (\<forall>k1. handler_for h' k1 = (if k1 = k then Some s else handler_for h k1))"
proof -
  obtain old al where ins: "al_insert k s (th_sockets h) = (old, al)" by fastforce
  with assms(1) have al: "distinct (map fst al) \<and> map_of al = (map_of (th_sockets h))(k \<mapsto> s)"
    using al_insert_distinct by (fastforce simp: handler_ok_def handler_mid_def)
  let ?h = "h\<lparr>th_bindings := B, th_sockets := al\<rparr>"
  have look: "\<forall>k1. handler_for ?h k1 = (if k1 = k then Some s else handler_for h k1)"
    using al by (simp add: handler_for_def)
  have "\<forall>b k1. B b = Some k1 \<longrightarrow> handler_for ?h k1 \<noteq> None"
  proof (intro allI impI)
    fix b k1
    assume "B b = Some k1"
    from assms(4) [OF this] assms(1) look show "handler_for ?h k1 \<noteq> None"
      by (auto simp: handler_ok_def handler_mid_def)
  qed
  with look al assms(1,2) have ok: "handler_ok lim pend peers ?h"
    by (auto simp: handler_ok_def handler_mid_def split: if_splits)
  show ?thesis
  proof (cases old)
    case None
    with ins ok look show ?thesis by (simp add: insert_socket_def)
  next
    case (Some s0)
    then have "insert_socket env k s (h\<lparr>th_bindings := B\<rparr>) =
        Some (emit (OUnsubscribe (sd_sub (sk_data s0)) # map ONack (data_ctxs (sk_data s0))) ?h)"
      using ins env_okD(4,5) [OF assms(3)] by (simp add: insert_socket_def drop_socket_def list_all_iff)
    with ok look show ?thesis by (simp add: handler_ok_def)
  qed
qed

lemma insert_bound_socket_total:
  assumes "handler_ok lim pend peers h" and "sock_mid lim pend peers {} s" and "env_ok lim env"
  shows "\<exists>h'. insert_socket env k s (h\<lparr>th_bindings := (th_bindings h)(b \<mapsto> k)\<rparr>) = Some h' \<and>
    handler_ok lim pend peers h' \<and>
    (\<forall>k1. handler_for h' k1 = (if k1 = k then Some s else handler_for h k1))"
  by (rule insert_socket_total [OF assms]) (auto split: if_splits)

lemma new_socket_data_ok:
  assumes "env_ok lim env"
  shows "\<exists>d. new_socket_data env p = Some d \<and> data_ok lim {} d"
  using env_okD(6) [OF assms, of "topic_name env"] by (auto simp: new_socket_data_def data_ok_def)

lemma call_accept_total:
  fixes crate :: "('s, 'cs, 'e) TcpCrate" and env :: "'ctx TcpEnv"
  assumes "env_ok lim env" and "sock_mid lim pend peers {} s" and "crate_ok crate pend peers"
  shows "\<exists>r s' out. call_accept crate env s = Some (r, s', out) \<and>
    sock_mid lim pend peers (result_cookie r) s' \<and>
    (\<forall>addr new. r = Inr (addr, new) \<longrightarrow> sock_mid lim pend peers {} new)"
proof -
  obtain r acts st where res: "tc_accept crate (new_seqn env) (sk_state s) = (r, acts, st)"
    by (metis prod_cases3)
  with assms(3) have step: "step_ok pend peers {} (sk_state s) (r, acts, st)"
    and acc: "accepted_ok pend peers (sk_state s) (r, acts, st)"
    unfolding crate_ok_def by metis+
  from crate_call_total [OF assms(1,2) step] obtain s' and out :: "('cs, 'e, 'ctx) Out list" where
    call: "crate_call env acts st s = Some (s', out)"
    and ok: "sock_mid lim pend peers (result_cookie r) s'" by auto
  show ?thesis
  proof (cases r)
    case (Inl err)
    with res call ok show ?thesis by (cases err) (auto simp: call_accept_def)
  next
    case (Inr p)
    obtain addr s1 acts1 where p: "p = (addr, s1, acts1)" by (metis prod_cases3)
    from assms(2) have v4: "\<forall>a \<in> peers (sk_state s). is_v4 a" by (simp add: sock_mid_def)
    with acc Inr p have new: "pend s1 = {}" "\<forall>a \<in> peers s1. is_v4 a" "act_events acts1 = []"
      "\<forall>a \<in> act_targets acts1. is_v4 a"
      by (auto simp: accepted_ok_def)
    obtain d :: "('e, 'ctx) SocketData" where
      d: "new_socket_data env (sd_local_port (sk_data s')) = Some d" "data_ok lim {} d"
      using new_socket_data_ok [OF assms(1)] by blast
    from callbacks_total [OF assms(1) d(2), of acts1 "[]"] new obtain d1 and
      out1 :: "('cs, 'e, 'ctx) Out list" where
      fold: "foldM (callback env) (d, []) acts1 = Some (d1, out1)" and "data_ok lim {} d1" by auto
    then have "sock_mid lim pend peers {} \<lparr>sk_state = s1, sk_data = d1\<rparr>"
      using new by (simp add: sock_mid_def)
    moreover have "crate_call env acts1 s1 \<lparr>sk_state = s1, sk_data = d\<rparr> =
        Some (\<lparr>sk_state = s1, sk_data = d1\<rparr>, out1)"
      using fold by (simp add: crate_call_def)
    ultimately show ?thesis using res call ok Inr p d(1) by (simp add: call_accept_def)
  qed
qed

lemma accept_request_total:
  assumes "env_ok lim env" and "handler_ok lim pend peers h" and "handler_for h k = Some s"
    and "crate_ok crate pend peers"
  shows "\<exists>r h'. accept_request crate env k s h = Some (r, h') \<and>
    handler_mid lim pend peers k (result_cookie r) h' \<and> handler_for h' k \<noteq> None"
proof -
  have "sock_mid lim pend peers {} s" using assms(2,3) by (rule handler_ok_socket)
  from call_accept_total [OF assms(1) this assms(4)] obtain r s' out where
    acc: "call_accept crate env s = Some (r, s', out)"
    and ok: "sock_mid lim pend peers (result_cookie r) s'"
    and new_ok: "\<forall>addr new. r = Inr (addr, new) \<longrightarrow> sock_mid lim pend peers {} new" by blast
  let ?h = "emit out (put_socket k s' h)"
  have mid: "handler_mid lim pend peers k (result_cookie r) ?h" and there: "handler_for ?h k = Some s'"
    using handler_mid_put [OF assms(2) [unfolded handler_ok_mid [of _ _ _ _ k]] assms(3) ok] by auto
  show ?thesis
  proof (cases r)
    case (Inl err)
    with acc mid there show ?thesis by (cases err) (auto simp: accept_request_def Let_def)
  next
    case (Inr p)
    obtain addr new where p: "p = (addr, new)" by fastforce
    obtain new_id h1 where id: "new_socket_id ?h = (new_id, h1)" by fastforce
    then have h1: "h1 = ?h\<lparr>th_next_id := th_next_id h1\<rparr>" by (auto simp: new_socket_id_def)
    then have ok1: "handler_ok lim pend peers h1" and there1: "handler_for h1 k = Some s'"
      using mid there Inr by (metis handler_mid_next_id handler_ok_mid result_cookie.simps(4),
          metis handler_for_fields(1))
    let ?b = "\<lparr>bi_local = \<lparr>sa_host = V4 ipv4_ZERO, sa_port = sd_local_port (sk_data new)\<rparr>,
                   bi_remote = Some (tc_remote crate (sk_state new))\<rparr>"
    from new_ok Inr p have "sock_mid lim pend peers {} new" by simp
    from insert_bound_socket_total [OF ok1 this assms(1), of new_id ?b]
    obtain h' where "insert_socket env new_id new (h1\<lparr>th_bindings := (th_bindings h1)(?b \<mapsto> new_id)\<rparr>) = Some h'"
      and "handler_ok lim pend peers h'"
      and "\<forall>k1. handler_for h' k1 = (if k1 = new_id then Some new else handler_for h1 k1)"
      by blast
    with acc Inr p id there1 show ?thesis
      by (simp add: accept_request_def Let_def handler_ok_mid [of _ _ _ _ k])
  qed
qed

lemma perform_request_total:
  assumes "env_ok lim env" and "handler_ok lim pend peers h" and "handler_for h k = Some s"
    and "crate_ok crate pend peers" and "req_ok lim request" and "request \<noteq> RqRemove"
  shows "\<exists>r h'. perform_request crate env k request s h = Some (r, h') \<and>
    handler_mid lim pend peers k (result_cookie r) h' \<and> handler_for h' k \<noteq> None"
proof (cases "request = RqAccept")
  case True
  with accept_request_total [OF assms(1-4)] show ?thesis by (simp add: perform_request_def)
next
  case False
  have "sock_mid lim pend peers {} s" using assms(2,3) by (rule handler_ok_socket)
  from request_call_total [OF assms(1) this assms(4-6) False] obtain r s' out where
    call: "request_call crate env request s = Some (r, s', out)"
    and ok: "sock_mid lim pend peers (result_cookie r) s'" by (rule call_okE)
  from handler_mid_put [OF assms(2) [unfolded handler_ok_mid [of _ _ _ _ k]] assms(3) ok] call False
  show ?thesis by (simp add: perform_request_def)
qed

lemma suspend_total:
  assumes "env_ok lim env" and "handler_mid lim pend peers k {cookie} h"
    and "handler_for h k \<noteq> None" and "mode_ok lim m"
  shows "\<exists>h'. suspend env k cookie m c h = Some h' \<and> handler_ok lim pend peers h' \<and>
    handler_for h' k \<noteq> None"
proof -
  from assms(3) obtain s where s: "handler_for h k = Some s" by blast
  with assms(2) have "sock_mid lim pend peers {cookie} s" unfolding handler_mid_def by metis
  then obtain K where d: "data_ok lim K (sk_data s)" and pend: "pend (sk_state s) = K \<union> {cookie}"
    and v4: "\<forall>a \<in> peers (sk_state s). is_v4 a" by (auto simp: sock_mid_def)
  obtain old al where ins: "al_insert cookie (m, c) (sd_suspended (sk_data s)) = (old, al)" by fastforce
  from d have "distinct (map fst (sd_suspended (sk_data s)))" by (simp add: data_ok_def)
  from al_insert_distinct [OF ins this] d assms(4)
  have "data_ok lim (insert cookie K) ((sk_data s)\<lparr>sd_suspended := al\<rparr>)"
    by (auto simp: data_ok_def)
  with pend v4 have "sock_mid lim pend peers {} (s\<lparr>sk_data := (sk_data s)\<lparr>sd_suspended := al\<rparr>\<rparr>)"
    by (simp add: sock_mid_def)
  from handler_mid_put [OF assms(2) s this] s ins env_okD(4) [OF assms(1)] show ?thesis
    by (cases old) (auto simp: suspend_def Let_def drop_ctx_def handler_ok_mid [of _ _ _ _ k])
qed

lemma reply_ctx_total:
  "env_ok lim env \<Longrightarrow> handler_ok lim pend peers h \<Longrightarrow> \<exists>h'. reply_ctx env c r h = Some h' \<and>
     handler_ok lim pend peers h' \<and> (\<forall>k. handler_for h' k = handler_for h k)"
  by (simp add: reply_ctx_def env_okD(3) handler_ok_def)

lemma finish_request_total:
  assumes "env_ok lim env" and "handler_mid lim pend peers k (result_cookie r) h"
    and "handler_for h k \<noteq> None" and "req_ok lim request" and "request \<noteq> RqRemove"
  shows "\<exists>h'. finish_request env k request c r h = Some h' \<and> handler_ok lim pend peers h' \<and>
    handler_for h' k \<noteq> None"
proof -
  consider (retry) cookie where "r = Inl (RetryAfter cookie)"
    | (continue) cookie where "r = Inl (ContinueAfter cookie)"
    | (answer) "result_cookie r = {}" "finish_request env k request c r h =
        Option.bind (handler_for h k) (\<lambda>_. reply_ctx env c (map_sum ErrTcp id r) h)"
    by (cases r rule: result_cookie.cases) (auto simp: finish_request_def)
  then show ?thesis
  proof cases
    case (retry cookie)
    with assms suspend_total [OF assms(1) _ assms(3), of _ _ cookie "Retry request"] show ?thesis
      by (simp add: finish_request_def)
  next
    case (continue cookie)
    with assms suspend_total [OF assms(1) _ assms(3), of _ _ cookie Continue] show ?thesis
      by (simp add: finish_request_def)
  next
    case answer
    with assms(2) have "handler_ok lim pend peers h" by (simp add: handler_ok_mid [of _ _ _ _ k])
    from reply_ctx_total [OF assms(1) this, of c "map_sum ErrTcp id r"] assms(3) answer(2) show ?thesis
      by auto
  qed
qed

lemma sock_mid_take_error [simp]:
  "sock_mid lim pend peers R (take_send_error s) = sock_mid lim pend peers R s"
  by (simp add: sock_mid_def take_send_error_def data_ok_def)

lemma inner_total:
  assumes "env_ok lim env" and "handler_ok lim pend peers h" and "handler_for h k \<noteq> None"
    and "crate_ok crate pend peers" and "req_ok lim request" and "request \<noteq> RqRemove"
  shows "\<exists>h'. user_socket_event_inner crate env k request c h = Some (True, h') \<and>
    handler_ok lim pend peers h' \<and> handler_for h' k \<noteq> None"
proof -
  from assms(3) obtain s where s: "handler_for h k = Some s" by blast
  show ?thesis
  proof (cases "sd_send_error (sk_data s)")
    case (Some err)
    let ?h = "put_socket k (take_send_error s) h"
    have "sock_mid lim pend peers {} (take_send_error s)"
      using assms(2) s by (simp add: handler_ok_socket)
    from handler_mid_put [OF assms(2) [unfolded handler_ok_mid [of _ _ _ _ k]] s this]
    have "handler_ok lim pend peers ?h" and there: "handler_for ?h k = Some (take_send_error s)"
      by (simp_all add: handler_ok_mid [of _ _ _ _ k])
    from reply_ctx_total [OF assms(1) this(1), of c "Inl (ErrNetwork err)"] there s Some assms(6)
    show ?thesis by (fastforce simp: user_socket_event_inner_def)
  next
    case None
    from perform_request_total [OF assms(1,2) s assms(4-6)] obtain r h1 where
      "perform_request crate env k request s h = Some (r, h1)"
      and "handler_mid lim pend peers k (result_cookie r) h1" and "handler_for h1 k \<noteq> None" by blast
    with finish_request_total [OF assms(1) this(2,3) assms(5,6), of c] None s assms(6) show ?thesis
      by (fastforce simp: user_socket_event_inner_def)
  qed
qed

lemma remove_socket_total:
  fixes crate :: "('s, 'cs, 'e) TcpCrate" and env :: "'ctx TcpEnv"
  assumes "env_ok lim env" and "handler_ok lim pend peers h" and "handler_for h k \<noteq> None"
    and "crate_ok crate pend peers"
  shows "\<exists>h'. remove_socket crate env k c h = Some h' \<and> handler_ok lim pend peers h'"
proof -
  from assms(3) have "al_remove k (th_sockets h) \<noteq> None"
    by (simp add: al_remove_None handler_for_def)
  then obtain s al where rem: "al_remove k (th_sockets h) = Some (s, al)" by auto
  then have "handler_for h k = Some s" by (simp add: handler_for_def al_remove_lookup)
  with assms(2) have ok: "sock_mid lim pend peers {} s" by (rule handler_ok_socket)
  obtain r acts st where abort: "tc_abort crate (new_seqn env) (sk_state s) = (r, acts, st)"
    by (metis prod_cases3)
  with assms(4) have step: "step_ok pend peers {} (sk_state s) (r, acts, st)"
    unfolding crate_ok_def by metis
  let ?h = "h\<lparr>th_bindings := (\<lambda>b. if th_bindings h b = Some k then None else th_bindings h b),
    th_sockets := al\<rparr>"
  from crate_call_total [OF assms(1) ok step] obtain s1 and out :: "('cs, 'e, 'ctx) Out list" where
    "crate_call env acts st s = Some (s1, out)" by auto
  with rem abort have "\<exists>out. remove_socket crate env k c h = Some (emit out ?h)"
    by (auto simp: remove_socket_def drop_socket_def list_all_iff env_okD(3-5) [OF assms(1)])
  moreover have "handler_ok lim pend peers ?h"
  proof -
    from assms(2) have "distinct (map fst (th_sockets h))" by (simp add: handler_ok_def handler_mid_def)
    from al_remove_distinct [OF rem this] have "distinct (map fst al)"
      and "\<forall>k1. handler_for ?h k1 = (if k1 = k then None else handler_for h k1)"
      by (simp_all add: handler_for_def)
    with assms(2) show ?thesis by (auto simp: handler_ok_def handler_mid_def split: if_splits)
  qed
  ultimately show ?thesis by (auto simp: handler_ok_def)
qed

lemma process_event_total:
  assumes "env_ok lim env" and "handler_ok lim pend peers h" and "handler_for h k \<noteq> None"
    and "crate_ok crate pend peers" and "mode_ok lim m"
  shows "\<exists>h'. process_event crate env k e (m, c, r) h = Some h' \<and> handler_ok lim pend peers h' \<and>
    handler_for h' k \<noteq> None"
proof -
  have reply: "\<exists>h'. reply_ctx env c x h = Some h' \<and> handler_ok lim pend peers h' \<and>
      handler_for h' k \<noteq> None" for x
    using reply_ctx_total [OF assms(1,2), of c x] assms(3) by auto
  have retry: "\<exists>h'. user_socket_event_inner crate env k request c h = Some (True, h') \<and>
      handler_ok lim pend peers h' \<and> handler_for h' k \<noteq> None" if "m = Retry request" for request
    by (rule inner_total [OF assms(1-4)]) (use assms(5) that in simp_all)
  show ?thesis
  proof (cases "e = None \<and> isl r = False \<and> m \<noteq> Continue")
    case True
    then obtain request u where "m = Retry request" "r = Inr u" "e = None"
      by (cases m; cases r) auto
    with retry show ?thesis by (fastforce simp: process_event_def)
  next
    case False
    then have "\<exists>x. process_event crate env k e (m, c, r) h = reply_ctx env c x h"
      by (auto simp: process_event_def split: option.split SuspendMode.split sum.split)
    with reply show ?thesis by metis
  qed
qed

lemma events_loop_total:
  assumes "\<forall>n. env_ok lim (env n)" and "crate_ok crate pend peers"
    and "handler_ok lim pend peers h" and "handler_for h k \<noteq> None"
    and "\<forall>(m, _, _) \<in> set evs. mode_ok lim m"
  shows "\<exists>h'. events_loop crate env k e n evs h = Some h' \<and> handler_ok lim pend peers h'"
  using assms(3-)
proof (induction evs arbitrary: n h)
  case Nil
  then show ?case by simp
next
  case (Cons ev evs)
  obtain m c r where ev: "ev = (m, c, r)" by (metis prod_cases3)
  with Cons.prems(3) have "mode_ok lim m" by simp
  from process_event_total [OF spec [OF assms(1)] Cons.prems(1,2) assms(2) this, of n e c r]
  obtain h1 where "process_event crate (env n) k e (m, c, r) h = Some h1"
    "handler_ok lim pend peers h1" "handler_for h1 k \<noteq> None" by blast
  with Cons.IH [OF this(2,3), of "Suc n"] Cons.prems(3) ev show ?case by simp
qed

lemma process_events_total:
  assumes "\<forall>n. env_ok lim (env n)" and "crate_ok crate pend peers"
    and "handler_ok lim pend peers h" and "handler_for h k \<noteq> None"
  shows "\<exists>h'. process_events crate env k h = Some h' \<and> handler_ok lim pend peers h'"
proof -
  from assms(4) obtain s where s: "handler_for h k = Some s" by blast
  let ?s = "s\<lparr>sk_data := (sk_data s)\<lparr>sd_ready := [], sd_send_error := None\<rparr>\<rparr>"
  have ok: "sock_mid lim pend peers {} s" using assms(3) s by (rule handler_ok_socket)
  then have "sock_mid lim pend peers {} ?s" and modes: "\<forall>(m, _, _) \<in> set (sd_ready (sk_data s)). mode_ok lim m"
    by (auto simp: sock_mid_def data_ok_def)
  from handler_mid_put [OF assms(3) [unfolded handler_ok_mid [of _ _ _ _ k]] s this(1)]
  have "handler_ok lim pend peers (put_socket k ?s h)" "handler_for (put_socket k ?s h) k \<noteq> None"
    by (simp_all add: handler_ok_mid [of _ _ _ _ k])
  from events_loop_total [OF assms(1,2) this modes] s assms(3) show ?thesis
    by (simp add: process_events_def Let_def)
qed

subsection \<open>The operations of the handler\<close>

lemma socket_for_bound: "socket_for bindings b = Some k \<Longrightarrow> \<exists>b'. bindings b' = Some k"
  by (auto simp: socket_for_def Let_def split: if_splits)

lemma handle_packet_total:
  fixes crate :: "('s, 'cs, 'e) TcpCrate" and env :: "'ctx TcpEnv"
  assumes "env_ok lim env" and "\<forall>n. env_ok lim (env_ev n)" and "crate_ok crate pend peers"
    and "handler_ok lim pend peers h"
  shows "\<exists>h'. handle_packet crate env env_ev iph seg h = Some h' \<and> handler_ok lim pend peers h'"
proof (cases "socket_for (th_bindings h) (segment_binding iph seg)")
  case None
  with assms(4) show ?thesis by (simp add: handle_packet_def)
next
  case (Some k)
  then obtain b where "th_bindings h b = Some k" by (auto dest: socket_for_bound)
  with assms(4) obtain s where s: "handler_for h k = Some s"
    unfolding handler_ok_def handler_mid_def by blast
  let ?from = "\<lparr>sa_host = V4 (ip_src_ip iph), sa_port = sh_src_port (seg_header seg)\<rparr>"
  obtain acts st where seg: "tc_on_segment crate (new_seqn env) ?from (segment_meta seg) (sk_state s) = (acts, st)"
    by fastforce
  with assms(3) have step: "step_ok pend peers {?from} (sk_state s) (Inr () :: 'e TcpError + unit, acts, st)"
    unfolding crate_ok_def by metis
  have ok: "sock_mid lim pend peers {} s" using assms(4) s by (rule handler_ok_socket)
  from crate_call_total [OF assms(1) ok step] obtain s1 and out :: "('cs, 'e, 'ctx) Out list" where
    call: "crate_call env acts st s = Some (s1, out)" and ok1: "sock_mid lim pend peers {} s1"
    by (auto simp: is_v4_def)
  from handler_mid_put [OF assms(4) [unfolded handler_ok_mid [of _ _ _ _ k]] s ok1]
  have "handler_ok lim pend peers (emit out (put_socket k s1 h))"
    "handler_for (emit out (put_socket k s1 h)) k \<noteq> None"
    by (simp_all add: handler_ok_mid [of _ _ _ _ k])
  from process_events_total [OF assms(2,3) this] Some s seg call show ?thesis
    by (simp add: handle_packet_def)
qed

lemma user_socket_event_total:
  assumes "env_ok lim env" and "\<forall>n. env_ok lim (env_ev n)" and "crate_ok crate pend peers"
    and "handler_ok lim pend peers h" and "handler_for h k \<noteq> None" and "req_ok lim request"
  shows "\<exists>h'. user_socket_event crate env env_ev k (Some (c, request)) h = Some h' \<and>
    handler_ok lim pend peers h'"
proof (cases "request = RqRemove")
  case True
  with remove_socket_total [OF assms(1,4,5,3), of c] assms(5) show ?thesis
    by (auto simp: user_socket_event_def user_socket_event_inner_def)
next
  case False
  from inner_total [OF assms(1,4,5,3,6) False, of c] obtain h1 where
    "user_socket_event_inner crate env k request c h = Some (True, h1)"
    "handler_ok lim pend peers h1" "handler_for h1 k \<noteq> None" by blast
  with process_events_total [OF assms(2,3) this(2,3)] assms(5) show ?thesis
    by (auto simp: user_socket_event_def)
qed

lemma new_user_socket_total:
  fixes crate :: "('s, 'cs, 'e) TcpCrate" and env :: "'ctx TcpEnv"
  assumes "env_ok lim env" and "crate_ok crate pend peers" and "handler_ok lim pend peers h"
  shows "\<exists>r h'. new_user_socket crate env port h = Some (r, h') \<and> handler_ok lim pend peers h'"
proof -
  obtain k h1 where id: "new_socket_id h = (k, h1)" by fastforce
  then have ok: "handler_ok lim pend peers h1"
    using assms(3) by (auto simp: new_socket_id_def handler_ok_def)
  show ?thesis
  proof (cases "if port \<noteq> 0 then Some port else pick_free_port (te_ports env) (th_bindings h1)")
    case None
    with id ok show ?thesis by (simp add: new_user_socket_def)
  next
    case (Some p)
    obtain d :: "('e, 'ctx) SocketData" where d: "new_socket_data env p = Some d" "data_ok lim {} d"
      using new_socket_data_ok [OF assms(1)] by blast
    let ?s = "\<lparr>sk_state = tc_new crate, sk_data = d\<rparr>"
    have "sock_mid lim pend peers {} ?s"
      using assms(2) d(2) by (simp add: sock_mid_def crate_ok_def)
    from insert_socket_total [OF ok this assms(1), of "th_bindings h1" k]
    obtain h2 where "insert_socket env k ?s h1 = Some h2" "handler_ok lim pend peers h2"
      "handler_for h2 k \<noteq> None" by auto
    with id Some d(1) show ?thesis
      by (simp add: new_user_socket_def handler_ok_def handler_mid_bind)
  qed
qed

lemma handler_new_ok: "handler_ok lim pend peers tcp_handler_new"
  by (simp add: handler_ok_def handler_mid_def handler_for_def tcp_handler_new_def)


lemma demo_crate_ok: "crate_ok demo_crate set_option (\<lambda>_. {})"
  by (auto simp: crate_ok_def demo_crate_def step_ok_def accepted_ok_def split: option.split)

lemma demo_tcp_env_ok: "env_ok 65536 demo_tcp_env"
  by (simp add: env_ok_def demo_tcp_env_def)


subsection \<open>Automatic ports\<close>

lemma socket_for_match_any [simp]: "socket_for bindings (match_any p) = bindings (match_any p)"
  by (simp add: socket_for_def match_any_def Let_def)

lemma RANGE_DYNAMIC_set: "set RANGE_DYNAMIC = {p. 49152 \<le> p}"
proof -
  have "p \<in> (word_of_nat :: nat \<Rightarrow> u16) ` {49152..<65536}" if "49152 \<le> p" for p
  proof (rule image_eqI)
    show "unat p \<in> {49152..<65536}"
      using that unsigned_less [of p] by (simp add: word_le_nat_alt)
  qed simp
  moreover have "49152 \<le> (word_of_nat n :: u16)" if "n \<in> {49152..<65536}" for n
    using that by (simp add: word_le_nat_alt unat_of_nat)
  ultimately show ?thesis unfolding RANGE_DYNAMIC_def set_map set_upt by blast
qed

lemma find_SomeD: "find P xs = Some x \<Longrightarrow> x \<in> set xs \<and> P x"
  by (auto simp: find_Some_iff)

lemma random_ports_dynamic:
  "q \<in> set (map (\<lambda>(a, b). random_dynamic_port a b) rnd) \<Longrightarrow> 49152 \<le> q"
  by (auto simp: random_dynamic_port_range)

lemma pick_free_port_Some:
  assumes "pick_free_port rnd bindings = Some p"
  shows "49152 \<le> p \<and> bindings (match_any p) = None"
proof -
  let ?free = "\<lambda>port. bindings (match_any port) = None"
  from assms have "find ?free (map (\<lambda>(a, b). random_dynamic_port a b) (take 10 rnd)) = Some p \<or>
      find ?free RANGE_DYNAMIC = Some p"
    by (simp add: pick_free_port_def Let_def split: option.splits)
  then show ?thesis using random_ports_dynamic RANGE_DYNAMIC_set by (auto dest!: find_SomeD)
qed

lemma pick_free_port_None:
  "pick_free_port rnd bindings = None \<longleftrightarrow> (\<forall>p \<ge> 49152. bindings (match_any p) \<noteq> None)"
proof
  assume "pick_free_port rnd bindings = None"
  then show "\<forall>p \<ge> 49152. bindings (match_any p) \<noteq> None"
    by (auto simp: pick_free_port_def Let_def find_None_iff RANGE_DYNAMIC_set split: option.splits)
next
  assume "\<forall>p \<ge> 49152. bindings (match_any p) \<noteq> None"
  then show "pick_free_port rnd bindings = None"
    using pick_free_port_Some [of rnd bindings] by (cases "pick_free_port rnd bindings") auto
qed

text \<open>Binding a socket without a port either fails because every dynamic port is bound, and then
  changes no socket and no binding, or it binds a port from the dynamic range that was free: no
  other socket loses its binding.
\<close>

lemma automatic_port_is_free:
  assumes "new_user_socket crate env 0 h = Some (r, h')"
  shows "(\<forall>p \<ge> 49152. th_bindings h (match_any p) \<noteq> None) \<and> r = Inl NoPortsAvailable \<and>
      th_bindings h' = th_bindings h \<and> th_sockets h' = th_sockets h \<or>
    (\<exists>p \<ge> 49152. th_bindings h (match_any p) = None \<and> r = Inr (topic_name env) \<and>
      th_bindings h' = (th_bindings h)(match_any p \<mapsto> th_next_id h))"
proof (cases "pick_free_port (te_ports env) (th_bindings h)")
  case None
  with assms show ?thesis
    by (auto simp: new_user_socket_def new_socket_id_def pick_free_port_None)
next
  case (Some p)
  have "th_bindings h2 = th_bindings h1" if "insert_socket env k s h1 = Some h2" for k s and h1 h2 ::
    "('a, 'b, 'c, 'd) TcpHandler"
    using that by (auto simp: insert_socket_def emit_def split: prod.splits option.splits bind_splits)
  with assms Some pick_free_port_Some [OF Some] show ?thesis
    by (auto simp: new_user_socket_def new_socket_id_def split: bind_splits)
qed

lemma automatic_port_is_free_example:
  "\<exists>p r h'. new_user_socket demo_crate demo_tcp_env 0 demo_tcp = Some (r, h') \<and> 49152 \<le> p \<and>
     th_bindings h' = (th_bindings demo_tcp)(match_any p \<mapsto> 1)"
proof -
  have "handler_ok 65536 set_option (\<lambda>_. {}) demo_tcp"
    by (simp add: handler_ok_def handler_mid_def handler_for_def demo_tcp_def demo_tcp_data_def
        sock_mid_def data_ok_def)
  then obtain r h' where new: "new_user_socket demo_crate demo_tcp_env 0 demo_tcp = Some (r, h')"
    using new_user_socket_total [OF demo_tcp_env_ok demo_crate_ok] by blast
  have "th_bindings demo_tcp (match_any 49152) = None" and "th_next_id demo_tcp = 1"
    by (simp_all add: demo_tcp_def match_any_def)
  with automatic_port_is_free [OF new] new show ?thesis by (metis order_refl)
qed

end
