(* ===== verification/PhysMap.thy ===== *)
theory PhysMap
  imports Prelude
begin

text \<open>
  Physical memory ranges and the memory map of the boot loader: \<open>src/memory/area.rs\<close>,
  \<open>src/memory/map.rs\<close> and the page alignment helpers of \<open>src/memory/utils.rs\<close> and
  \<open>src/memory/prelude.rs\<close>. Addresses are naturals; the overflow checks of the kernel build and
  the range checks of the address types of the \<open>x86_64\<close> crate (a physical address has at most
  52 bits, subtracting a larger address panics) are written out.
\<close>

subsection \<open>Page alignment\<close>

definition PAGE_SIZE :: nat where "PAGE_SIZE = 0x200000"

definition to_pages_round_up :: "nat \<Rightarrow> nat option" where
  "to_pages_round_up b = do { s \<leftarrow> checked_u64 (b + (PAGE_SIZE - 1)); Some (s div PAGE_SIZE) }"

definition page_align_up :: "nat \<Rightarrow> nat option" where
  "page_align_up b = do { p \<leftarrow> to_pages_round_up b; checked_u64 (p * PAGE_SIZE) }"

definition page_align_u64 :: "nat \<Rightarrow> bool \<Rightarrow> nat option" where
  "page_align_u64 address upwards =
     (if address mod PAGE_SIZE = 0 then Some address
      else if upwards then do {
        s \<leftarrow> checked_u64 (address + PAGE_SIZE);
        checked_sub s (address mod PAGE_SIZE)
      }
      else checked_sub address (address mod PAGE_SIZE))"

definition phys_addr :: "nat \<Rightarrow> nat option" where
  "phys_addr a = (if a < 2 ^ 52 then Some a else None)"

definition page_align :: "nat \<Rightarrow> bool \<Rightarrow> nat option" where
  "page_align address upwards = do { a \<leftarrow> page_align_u64 address upwards; phys_addr a }"

subsection \<open>Ranges\<close>

record PhysMemoryRange =
  pr_start :: nat
  pr_end :: nat

definition prange :: "nat \<Rightarrow> nat \<Rightarrow> PhysMemoryRange" where
  "prange a b = \<lparr>pr_start = a, pr_end = b\<rparr>"

definition contains_address :: "PhysMemoryRange \<Rightarrow> nat \<Rightarrow> bool" where
  "contains_address r a \<longleftrightarrow> pr_start r \<le> a \<and> a < pr_end r"

definition size_bytes :: "PhysMemoryRange \<Rightarrow> nat option" where
  "size_bytes r = checked_sub (pr_end r) (pr_start r)"

definition size_pages :: "PhysMemoryRange \<Rightarrow> nat option" where
  "size_pages r = do { s \<leftarrow> size_bytes r; Some (s div PAGE_SIZE) }"

definition can_merge :: "PhysMemoryRange \<Rightarrow> PhysMemoryRange \<Rightarrow> bool" where
  "can_merge r oth \<longleftrightarrow> (let ss = pr_start r; se = pr_end r; os = pr_start oth; oe = pr_end oth
     in (ss \<le> os \<and> os \<le> se) \<or> (ss \<le> oe \<and> oe \<le> se))"

definition merge :: "PhysMemoryRange \<Rightarrow> PhysMemoryRange \<Rightarrow> PhysMemoryRange option" where
  "merge r oth = do {
     rassert (can_merge r oth);
     Some (prange (min (pr_start r) (pr_start oth)) (max (pr_end r) (pr_end oth)))
   }"

definition below :: "PhysMemoryRange \<Rightarrow> nat \<Rightarrow> PhysMemoryRange option" where
  "below r a = (if a \<le> pr_start r then None else Some (prange (pr_start r) (min (pr_end r) a)))"

definition above :: "PhysMemoryRange \<Rightarrow> nat \<Rightarrow> PhysMemoryRange option" where
  "above r a = (if a \<ge> pr_end r then None else Some (prange (max (pr_start r) a) (pr_end r)))"

subsection \<open>The table of usable memory\<close>

definition MAX_OK_ENTRIES :: nat where "MAX_OK_ENTRIES = 20"

definition MEMORY_RESERVED_BELOW :: nat where "MEMORY_RESERVED_BELOW = 0x11000000"
definition HEAP_START :: nat where "HEAP_START = 0x40000000"
definition HEAP_SIZE :: nat where "HEAP_SIZE = 0x6400000"

type_synonym MemoryRanges = "PhysMemoryRange option list"

definition ranges_new :: MemoryRanges where
  "ranges_new = replicate MAX_OK_ENTRIES None"

text \<open>The loop of \<open>write_entry\<close>: it stops at the first entry it can merge with (\<open>Inl\<close>) or
  returns the first free slot (\<open>Inr\<close>).\<close>

fun write_loop :: "MemoryRanges \<Rightarrow> PhysMemoryRange \<Rightarrow> nat list \<Rightarrow> nat option
    \<Rightarrow> (MemoryRanges + nat option) option" where
  "write_loop r entry [] first_free = Some (Inr first_free)"
| "write_loop r entry (i # is) first_free = (case r ! i of
     Some ok \<Rightarrow>
       (if can_merge ok entry then do { m \<leftarrow> merge ok entry; Some (Inl (r[i := Some m])) }
        else write_loop r entry is first_free)
   | None \<Rightarrow> write_loop r entry is (if first_free = None then Some i else first_free))"

definition write_entry :: "MemoryRanges \<Rightarrow> PhysMemoryRange \<Rightarrow> MemoryRanges option" where
  "write_entry r entry = do {
     res \<leftarrow> write_loop r entry [0 ..< MAX_OK_ENTRIES] None;
     (case res of
        Inl r' \<Rightarrow> Some r'
      | Inr first_free \<Rightarrow> do { i \<leftarrow> first_free; Some (r[i := Some entry]) })
   }"

definition split_and_write_entry :: "MemoryRanges \<Rightarrow> PhysMemoryRange \<Rightarrow> MemoryRanges option" where
  "split_and_write_entry r entry = (case above entry MEMORY_RESERVED_BELOW of
     None \<Rightarrow> Some r
   | Some ok \<Rightarrow> do {
       r \<leftarrow> (case below ok HEAP_START of Some b \<Rightarrow> write_entry r b | None \<Rightarrow> Some r);
       (case above ok (HEAP_START + HEAP_SIZE) of Some a \<Rightarrow> write_entry r a | None \<Rightarrow> Some r)
     })"

subsection \<open>Loading the memory map\<close>

record MemoryInfo =
  mi_allocatable :: MemoryRanges
  mi_max_memory :: nat

text \<open>An entry of the map: start, size, type, ACPI attributes; the raw reads of \<open>read_item\<close>
  are the argument of the model.\<close>

type_synonym map_item = "nat \<times> nat \<times> nat \<times> nat"

text \<open>The part of the loop body after the two ends have been aligned.\<close>

definition load_range :: "MemoryRanges \<Rightarrow> nat \<Rightarrow> nat \<Rightarrow> nat \<Rightarrow> nat \<Rightarrow> MemoryRanges option" where
  "load_range allocatable start fin e_type e_acpi_data =
     (if start = fin then Some allocatable
      else if e_acpi_data mod 2 \<noteq> 1 then Some allocatable
      else if e_type = 1 \<or> e_type = 4 then split_and_write_entry allocatable (prange start fin)
      else Some allocatable)"

definition load_item :: "MemoryRanges \<times> nat \<Rightarrow> map_item \<Rightarrow> (MemoryRanges \<times> nat) option" where
  "load_item s item = (case s of (allocatable, max_memory) \<Rightarrow> case item of
     (e_start, e_size, e_type, e_acpi_data) \<Rightarrow> do {
       e_end \<leftarrow> checked_u64 (e_start + e_size);
       let max_memory = max max_memory e_end;
       a \<leftarrow> phys_addr e_start;
       start \<leftarrow> page_align a True;
       b \<leftarrow> phys_addr e_end;
       fin \<leftarrow> page_align b False;
       r \<leftarrow> load_range allocatable start fin e_type e_acpi_data;
       Some (r, max_memory)
     })"

text \<open>The loop that adds up the sizes for the log panics like the loop of the source.\<close>

definition count_bytes :: "MemoryRanges \<Rightarrow> nat option" where
  "count_bytes r = foldM (\<lambda>n entry. case entry of
     None \<Rightarrow> Some n
   | Some area \<Rightarrow> do { s \<leftarrow> size_bytes area; checked_u64 (n + s) }) 0 r"

definition load_memory_map :: "map_item list \<Rightarrow> MemoryInfo option" where
  "load_memory_map items = do {
     (allocatable, max_memory) \<leftarrow> foldM load_item (ranges_new, 0) items;
     _ \<leftarrow> count_bytes allocatable;
     Some \<lparr>mi_allocatable = allocatable, mi_max_memory = max_memory\<rparr>
   }"

subsection \<open>Specification: the addresses covered\<close>

definition span :: "PhysMemoryRange \<Rightarrow> nat set" where
  "span r = {pr_start r ..< pr_end r}"

definition proper :: "PhysMemoryRange \<Rightarrow> bool" where
  "proper r \<longleftrightarrow> pr_start r < pr_end r"

definition covered :: "MemoryRanges \<Rightarrow> nat set" where
  "covered r = {x. \<exists>e. Some e \<in> set r \<and> x \<in> span e}"

definition table_ok :: "MemoryRanges \<Rightarrow> bool" where
  "table_ok r \<longleftrightarrow> length r = MAX_OK_ENTRIES \<and> (\<forall>e. Some e \<in> set r \<longrightarrow> proper e)"

text \<open>The permanently reserved addresses, and what an item of the map contributes.\<close>

definition reserved :: "nat set" where
  "reserved = {..<MEMORY_RESERVED_BELOW} \<union> {HEAP_START ..< HEAP_START + HEAP_SIZE}"

definition usable :: "map_item \<Rightarrow> bool" where
  "usable item \<longleftrightarrow> (case item of (s, n, t, acpi) \<Rightarrow> acpi mod 2 = 1 \<and> (t = 1 \<or> t = 4))"

definition full_pages :: "map_item \<Rightarrow> nat set" where
  "full_pages item = (case item of (s, n, t, acpi) \<Rightarrow>
     {a. s \<le> a div PAGE_SIZE * PAGE_SIZE \<and> a div PAGE_SIZE * PAGE_SIZE + PAGE_SIZE \<le> s + n})"

subsection \<open>Facts\<close>

lemma page_align_down: "page_align_u64 a False = Some (a div PAGE_SIZE * PAGE_SIZE)"
  by (auto simp: page_align_u64_def checked_sub_def minus_mod_eq_div_mult [symmetric])

lemma page_align_up_eq:
  assumes "a + PAGE_SIZE < 2 ^ 64"
  shows "page_align_u64 a True = Some ((a + (PAGE_SIZE - 1)) div PAGE_SIZE * PAGE_SIZE)"
proof -
  have P: "0 < PAGE_SIZE" by (simp add: PAGE_SIZE_def)
  have a: "a = a div PAGE_SIZE * PAGE_SIZE + a mod PAGE_SIZE" by simp
  show ?thesis
  proof (cases "a mod PAGE_SIZE = 0")
    case True
    then obtain k where "a = k * PAGE_SIZE" by (metis a add.right_neutral)
    moreover have "(k * PAGE_SIZE + (PAGE_SIZE - 1)) div PAGE_SIZE = k"
      using P by (subst div_mult_self3) simp_all
    ultimately show ?thesis using True by (simp add: page_align_u64_def)
  next
    case False
    let ?q = "a div PAGE_SIZE" and ?r = "a mod PAGE_SIZE"
    have r: "0 < ?r" "?r < PAGE_SIZE" using False P by simp_all
    have "a + (PAGE_SIZE - 1) = (?q + 1) * PAGE_SIZE + (?r - 1)" using a r by simp
    moreover have "((?q + 1) * PAGE_SIZE + (?r - 1)) div PAGE_SIZE = ?q + 1"
      using r by (subst div_mult_self3) auto
    moreover have "a + PAGE_SIZE - ?r = (?q + 1) * PAGE_SIZE"
    proof -
      have "(?q + 1) * PAGE_SIZE = ?q * PAGE_SIZE + PAGE_SIZE" by simp
      then show ?thesis using a r by linarith
    qed
    ultimately show ?thesis
      using False assms r by (simp add: page_align_u64_def checked_u64_def checked_sub_def)
  qed
qed

lemma span_below: "span r \<inter> {..<a} = (case below r a of None \<Rightarrow> {} | Some b \<Rightarrow> span b)"
  by (auto simp: below_def span_def prange_def)

lemma span_above: "span r \<inter> {a..} = (case above r a of None \<Rightarrow> {} | Some b \<Rightarrow> span b)"
  by (auto simp: above_def span_def prange_def)

lemma below_proper: "proper r \<Longrightarrow> below r a = Some b \<Longrightarrow> proper b"
  by (auto simp: below_def proper_def prange_def split: if_splits)

lemma above_proper: "proper r \<Longrightarrow> above r a = Some b \<Longrightarrow> proper b"
  by (auto simp: above_def proper_def prange_def split: if_splits)

lemma merge_span:
  assumes "proper r" and "proper s" and "merge r s = Some m"
  shows "span m = span r \<union> span s" and "proper m"
  using assms by (auto simp: merge_def can_merge_def Let_def span_def proper_def prange_def split: if_splits)

text \<open>\<open>can_merge\<close> misses exactly one way of overlapping: the other range strictly around this one.\<close>

lemma can_merge_iff:
  assumes "proper r" and "proper s"
  shows "can_merge r s \<longleftrightarrow> pr_start s \<le> pr_end r \<and> pr_start r \<le> pr_end s \<and>
           \<not> (pr_start s < pr_start r \<and> pr_end r < pr_end s)"
  using assms by (auto simp: can_merge_def Let_def proper_def)

lemma covered_update:
  assumes "i < length r" and "\<And>e. r ! i = Some e \<Longrightarrow> span e \<subseteq> span n"
  shows "covered (r[i := Some n]) = covered r \<union> span n"
proof -
  have set: "Some e \<in> set (r[i := Some n]) \<longleftrightarrow> e = n \<or> (\<exists>j < length r. j \<noteq> i \<and> r ! j = Some e)" for e
    using assms(1) by (auto simp: in_set_conv_nth nth_list_update split: if_splits)
  show ?thesis
  proof (intro set_eqI iffI)
    fix x assume "x \<in> covered (r[i := Some n])"
    then obtain e where "Some e \<in> set (r[i := Some n])" "x \<in> span e" by (auto simp: covered_def)
    then show "x \<in> covered r \<union> span n" unfolding set by (auto simp: covered_def in_set_conv_nth)
  next
    fix x assume "x \<in> covered r \<union> span n"
    then consider "x \<in> span n" | j e where "j < length r" "r ! j = Some e" "x \<in> span e"
      by (auto simp: covered_def in_set_conv_nth)
    then show "x \<in> covered (r[i := Some n])"
    proof cases
      case (2 j e)
      then show ?thesis using assms(2) [of e] by (cases "j = i") (auto simp: covered_def set)
    qed (auto simp: covered_def set)
  qed
qed

lemma write_loop_merged:
  assumes "write_loop r entry is ff = Some (Inl r')" and "table_ok r" and "proper entry"
    and "\<forall>i \<in> set is. i < length r"
  shows "table_ok r' \<and> covered r' = covered r \<union> span entry"
  using assms(1,4)
proof (induction "is" arbitrary: ff)
  case (Cons i "is")
  show ?case
  proof (cases "r ! i")
    case None
    with Cons show ?thesis by simp
  next
    case (Some ok)
    have i: "i < length r" using Cons.prems by simp
    have ok: "proper ok" using assms(2) i Some nth_mem [OF i] by (auto simp: table_ok_def)
    show ?thesis
    proof (cases "can_merge ok entry")
      case True
      then obtain m where m: "merge ok entry = Some m" by (simp add: merge_def)
      note span = merge_span [OF ok assms(3) m]
      have r': "r' = r[i := Some m]" using Cons.prems(1) Some True m by simp
      have "covered r' = covered r \<union> span m" unfolding r' using i Some span by (intro covered_update) auto
      moreover have "span ok \<subseteq> covered r"
        using i Some nth_mem [OF i] by (auto simp: covered_def)
      moreover have "table_ok r'"
        unfolding r' using assms(2) span(2)
        by (auto simp: table_ok_def dest!: set_update_subset_insert [THEN subsetD])
      ultimately show ?thesis using span(1) by auto
    next
      case False
      with Some Cons show ?thesis by simp
    qed
  qed
qed simp

lemma write_loop_free:
  assumes "write_loop r entry is ff = Some (Inr (Some i))" and "\<forall>i \<in> set is. i < length r"
    and "\<And>i. ff = Some i \<Longrightarrow> i < length r \<and> r ! i = None"
  shows "i < length r \<and> r ! i = None"
  using assms
proof (induction "is" arbitrary: ff)
  case (Cons j "is")
  show ?case
  proof (cases "r ! j")
    case None
    then have "write_loop r entry is (if ff = None then Some j else ff) = Some (Inr (Some i))"
      using Cons.prems(1) by simp
    then show ?thesis by (rule Cons.IH) (use Cons.prems None in \<open>auto split: if_splits\<close>)
  next
    case (Some ok)
    then have "write_loop r entry is ff = Some (Inr (Some i))"
      using Cons.prems(1) by (auto split: if_splits simp: merge_def)
    then show ?thesis by (rule Cons.IH) (use Cons.prems in auto)
  qed
qed simp

lemma write_entry_correct:
  assumes "table_ok r" and "proper entry" and "write_entry r entry = Some r'"
  shows "table_ok r'" and "covered r' = covered r \<union> span entry"
proof -
  have len: "\<forall>i \<in> set [0 ..< MAX_OK_ENTRIES]. i < length r" using assms(1) by (simp add: table_ok_def)
  from assms(3) obtain res where w: "write_loop r entry [0 ..< MAX_OK_ENTRIES] None = Some res"
    by (auto simp: write_entry_def bind_eq_Some_conv)
  have "table_ok r' \<and> covered r' = covered r \<union> span entry"
  proof (cases res)
    case (Inl a)
    with w assms(3) write_loop_merged [OF _ assms(1,2) len] show ?thesis by (simp add: write_entry_def)
  next
    case (Inr ff)
    with w assms(3) obtain i where i: "ff = Some i" "r' = r[i := Some entry]"
      by (auto simp: write_entry_def bind_eq_Some_conv)
    with write_loop_free [OF _ len, of entry None i] w Inr have "i < length r" "r ! i = None" by auto
    then have "covered r' = covered r \<union> span entry" unfolding i by (intro covered_update) auto
    moreover have "table_ok r'" using i assms(1,2)
      by (auto simp: table_ok_def dest!: set_update_subset_insert [THEN subsetD])
    ultimately show ?thesis by blast
  qed
  then show "table_ok r'" "covered r' = covered r \<union> span entry" by auto
qed

lemma write_opt_correct:
  assumes "table_ok r" and "\<And>e. x = Some e \<Longrightarrow> proper e"
    and "(case x of Some b \<Rightarrow> write_entry r b | None \<Rightarrow> Some r) = Some r'"
  shows "table_ok r' \<and> covered r' = covered r \<union> (case x of None \<Rightarrow> {} | Some b \<Rightarrow> span b)"
  using assms write_entry_correct [OF assms(1)] by (auto split: option.splits)

lemma split_and_write_correct:
  assumes "table_ok r" and "proper entry" and "split_and_write_entry r entry = Some r'"
  shows "table_ok r' \<and> covered r' = covered r \<union> (span entry - reserved)"
proof (cases "above entry MEMORY_RESERVED_BELOW")
  case None
  then have "span entry \<inter> {MEMORY_RESERVED_BELOW..} = {}" by (simp add: span_above)
  then have "span entry - reserved = {}" by (auto simp: reserved_def)
  with None assms show ?thesis by (simp only: split_and_write_entry_def option.case option.inject) simp
next
  case (Some ok)
  then obtain r1 where r1: "(case below ok HEAP_START of Some b \<Rightarrow> write_entry r b | None \<Rightarrow> Some r) = Some r1"
    and r2: "(case above ok (HEAP_START + HEAP_SIZE) of Some a \<Rightarrow> write_entry r1 a | None \<Rightarrow> Some r1) = Some r'"
    using assms(3) by (auto simp: split_and_write_entry_def bind_eq_Some_conv)
  have ok: "proper ok" using above_proper [OF assms(2) Some] .
  have 1: "table_ok r1 \<and> covered r1 = covered r \<union> (span ok \<inter> {..<HEAP_START})"
    unfolding span_below using assms(1) below_proper [OF ok] r1 by (intro write_opt_correct) auto
  have 2: "table_ok r' \<and> covered r' = covered r1 \<union> (span ok \<inter> {HEAP_START + HEAP_SIZE..})"
    unfolding span_above using 1 above_proper [OF ok] r2 by (intro write_opt_correct) auto
  have "span ok = span entry \<inter> {MEMORY_RESERVED_BELOW..}" using Some by (simp add: span_above)
  with 1 2 show ?thesis by (auto simp: reserved_def)
qed

text \<open>The full pages of an item are the range between the aligned ends, if there is one.\<close>

lemma full_pages_span:
  "full_pages (s, n, t, acpi) =
    {(s + (PAGE_SIZE - 1)) div PAGE_SIZE * PAGE_SIZE ..< (s + n) div PAGE_SIZE * PAGE_SIZE}"
proof -
  define A where "A = (s + (PAGE_SIZE - 1)) div PAGE_SIZE"
  have P: "0 < PAGE_SIZE" by (simp add: PAGE_SIZE_def)
  have d: "k * PAGE_SIZE \<le> a \<longleftrightarrow> k \<le> a div PAGE_SIZE" for a k
    using P by (simp add: less_eq_div_iff_mult_less_eq)
  have lo: "s \<le> k * PAGE_SIZE \<longleftrightarrow> A \<le> k" for k
  proof
    assume "s \<le> k * PAGE_SIZE"
    then have "A \<le> (k * PAGE_SIZE + (PAGE_SIZE - 1)) div PAGE_SIZE"
      unfolding A_def by (intro div_le_mono) simp
    also have "\<dots> = k + (PAGE_SIZE - 1) div PAGE_SIZE" using P by (intro div_mult_self3) simp
    also have "\<dots> = k" using P by simp
    finally show "A \<le> k" .
  next
    assume "A \<le> k"
    then have "A * PAGE_SIZE \<le> k * PAGE_SIZE" by simp
    moreover have "s \<le> A * PAGE_SIZE"
      using div_mult_mod_eq [of "s + (PAGE_SIZE - 1)" PAGE_SIZE]
        mod_less_divisor [OF P, of "s + (PAGE_SIZE - 1)"] unfolding A_def by linarith
    ultimately show "s \<le> k * PAGE_SIZE" by linarith
  qed
  have "k * PAGE_SIZE + PAGE_SIZE \<le> s + n \<longleftrightarrow> k < (s + n) div PAGE_SIZE" for k
    using d [of "Suc k" "s + n"] by (simp add: Suc_le_eq add.commute)
  moreover have "A * PAGE_SIZE \<le> a \<longleftrightarrow> A \<le> a div PAGE_SIZE"
    and "a < (s + n) div PAGE_SIZE * PAGE_SIZE \<longleftrightarrow> a div PAGE_SIZE < (s + n) div PAGE_SIZE" for a
    using d [of "(s + n) div PAGE_SIZE" a] d [of A a] by linarith+
  ultimately show ?thesis using lo unfolding A_def [symmetric] full_pages_def by auto
qed

lemma page_align_eq:
  assumes "a < 2 ^ 52"
  shows "page_align a False = Some (a div PAGE_SIZE * PAGE_SIZE)"
    and "page_align a True = phys_addr ((a + (PAGE_SIZE - 1)) div PAGE_SIZE * PAGE_SIZE)"
proof -
  have "a div PAGE_SIZE * PAGE_SIZE < 2 ^ 52"
    using assms div_times_less_eq_dividend [of a PAGE_SIZE] by linarith
  then show "page_align a False = Some (a div PAGE_SIZE * PAGE_SIZE)"
    by (simp add: page_align_def page_align_down phys_addr_def)
  have "a + PAGE_SIZE < 2 ^ 64" using assms by (simp add: PAGE_SIZE_def)
  then show "page_align a True = phys_addr ((a + (PAGE_SIZE - 1)) div PAGE_SIZE * PAGE_SIZE)"
    by (simp add: page_align_def page_align_up_eq)
qed

text \<open>The aligned ends of an item in order: it contains a page boundary or is empty.\<close>

definition ordered_item :: "map_item \<Rightarrow> bool" where
  "ordered_item item = (case item of (s, n, _, _) \<Rightarrow>
     (s + (PAGE_SIZE - 1)) div PAGE_SIZE \<le> (s + n) div PAGE_SIZE)"

lemma load_range_correct:
  assumes "table_ok r" and "usable (s, n, t, acpi) \<longrightarrow> a \<le> b" and "load_range r a b t acpi = Some r'"
  shows "table_ok r' \<and> covered r' = covered r \<union> (if usable (s, n, t, acpi) then {a ..< b} - reserved else {})"
proof (cases "usable (s, n, t, acpi) \<and> a \<noteq> b")
  case True
  then have "split_and_write_entry r (prange a b) = Some r'" "proper (prange a b)"
    using assms(2,3) by (auto simp: load_range_def usable_def prange_def proper_def)
  with split_and_write_correct [OF assms(1)] True show ?thesis by (simp add: span_def prange_def)
next
  case False
  then have "r' = r" using assms(3) by (auto simp: load_range_def usable_def split: if_splits)
  with False assms(1) show ?thesis by auto
qed

lemma load_item_correct:
  assumes "table_ok r" and "usable item \<longrightarrow> ordered_item item" and "load_item (r, mx) item = Some (r', mx')"
  shows "table_ok r' \<and> covered r' = covered r \<union> (if usable item then full_pages item - reserved else {})"
proof -
  obtain s n t acpi where item: "item = (s, n, t, acpi)" by (cases item)
  define A where "A = (s + (PAGE_SIZE - 1)) div PAGE_SIZE * PAGE_SIZE"
  define B where "B = (s + n) div PAGE_SIZE * PAGE_SIZE"
  from assms(3) obtain start fin where b: "s < 2 ^ 52" "s + n < 2 ^ 52"
    and al: "page_align s True = Some start" "page_align (s + n) False = Some fin"
    and step: "load_range r start fin t acpi = Some r'"
    by (auto simp: load_item_def item bind_eq_Some_conv phys_addr_def checked_u64_eq_Some split: if_splits)
  have ends: "start = A" "fin = B"
    using al page_align_eq(2) [OF b(1)] page_align_eq(1) [OF b(2)] unfolding A_def B_def
    by (simp_all add: phys_addr_def split: if_splits)
  have "usable item \<longrightarrow> A \<le> B"
    using assms(2) unfolding ordered_item_def item A_def B_def prod.case by (blast intro: mult_le_mono1)
  with load_range_correct [OF assms(1) _ step [unfolded ends], of s n] full_pages_span [of s n t acpi]
  show ?thesis by (simp only: item A_def B_def)
qed

lemma load_items_correct:
  assumes "foldM load_item (r, mx) items = Some (r', mx')" and "table_ok r"
    and "\<forall>item \<in> set items. usable item \<longrightarrow> ordered_item item"
  shows "table_ok r' \<and> covered r' = covered r \<union> (\<Union>item \<in> {i \<in> set items. usable i}. full_pages item - reserved)"
  using assms
proof (induction items arbitrary: r mx)
  case (Cons item items)
  then obtain r1 m1 where 1: "load_item (r, mx) item = Some (r1, m1)"
    and 2: "foldM load_item (r1, m1) items = Some (r', mx')" by (auto split: option.splits)
  have "table_ok r1 \<and> covered r1 = covered r \<union> (if usable item then full_pages item - reserved else {})"
    using Cons.prems 1 by (intro load_item_correct) auto
  with Cons.IH [OF 2] Cons.prems(3) show ?case by (auto split: if_splits)
qed simp

lemma covered_new [simp]: "covered ranges_new = {}" "table_ok ranges_new"
  by (auto simp: covered_def ranges_new_def table_ok_def)

subsection \<open>Claims\<close>

text \<open>the memory map. For a boot map whose usable entries are not inside a single page, the memory
  declared allocatable is exactly the set of all full pages of the usable entries without the
  memory reserved for the kernel and for the heap; in particular reserved memory is never
  allocatable.\<close>

lemma memory_map_exact:
  assumes "load_memory_map items = Some info"
    and "\<forall>item \<in> set items. usable item \<longrightarrow> ordered_item item"
  shows "covered (mi_allocatable info) = (\<Union>item \<in> {i \<in> set items. usable i}. full_pages item) - reserved"
proof -
  from assms(1) obtain r mx where "foldM load_item (ranges_new, 0) items = Some (r, mx)"
    and "mi_allocatable info = r"
    by (auto simp: load_memory_map_def bind_eq_Some_conv)
  with load_items_correct [OF _ covered_new(2) assms(2), of 0 r mx] show ?thesis by auto
qed

lemma memory_map_exact_example:
  "\<exists>info. load_memory_map [(0x20000000, 0x200005, 1, 1)] = Some info \<and>
     covered (mi_allocatable info) =
       (\<Union>item \<in> {i \<in> set [(0x20000000, 0x200005, 1, 1)]. usable i}. full_pages item) - reserved"
proof -
  have twenty: "[0 ..< 20] = [0, 1, 2, 3, 4, 5, 6, 7, 8, 9, 10, 11, 12, 13, 14, 15, 16, 17, 18, 19]"
    by (simp add: upt_rec)
  have none: "replicate 20 x = [x, x, x, x, x, x, x, x, x, x, x, x, x, x, x, x, x, x, x, x]" for x :: "'z option"
    by (simp add: numeral_eq_Suc)
  have "load_memory_map [(0x20000000, 0x200005, 1, 1)] \<noteq> None"
    by (simp add: load_memory_map_def load_item_def load_range_def checked_u64_def phys_addr_def
        page_align_def page_align_u64_def PAGE_SIZE_def checked_sub_def split_and_write_entry_def
        above_def below_def MEMORY_RESERVED_BELOW_def HEAP_START_def HEAP_SIZE_def write_entry_def
        MAX_OK_ENTRIES_def ranges_new_def count_bytes_def size_bytes_def prange_def twenty none)
  then obtain info where info: "load_memory_map [(0x20000000, 0x200005, 1, 1)] = Some info" by blast
  have "covered (mi_allocatable info) =
      (\<Union>item \<in> {i \<in> set [(0x20000000, 0x200005, 1, 1)]. usable i}. full_pages item) - reserved"
    by (rule memory_map_exact [OF info]) (simp add: ordered_item_def PAGE_SIZE_def)
  with info show ?thesis by blast
qed

text \<open>a usable entry that lies inside a single page stops the boot. The aligned start is then
  above the aligned end; the two are only compared for equality, so an inverted range is stored
  and adding up the sizes underflows: for such an entry (below the heap) \<open>load_memory_map\<close> panics.\<close>

lemma memory_map_small_entry_panics:
  "load_memory_map [(0x20000001, 0x100, 1, 1)] = None"
proof -
  have twenty: "[0 ..< 20] = [0, 1, 2, 3, 4, 5, 6, 7, 8, 9, 10, 11, 12, 13, 14, 15, 16, 17, 18, 19]"
    by (simp add: upt_rec)
  have none: "replicate 20 x = [x, x, x, x, x, x, x, x, x, x, x, x, x, x, x, x, x, x, x, x]" for x :: "'z option"
    by (simp add: numeral_eq_Suc)
  show ?thesis
    by (simp add: load_memory_map_def load_item_def load_range_def checked_u64_def phys_addr_def
        page_align_def page_align_u64_def PAGE_SIZE_def checked_sub_def split_and_write_entry_def
        above_def below_def MEMORY_RESERVED_BELOW_def HEAP_START_def HEAP_SIZE_def write_entry_def
        MAX_OK_ENTRIES_def ranges_new_def count_bytes_def size_bytes_def prange_def twenty none)
qed

end
