(* ===== verification/VirtAlloc.thy ===== *)
theory VirtAlloc
  imports PhysMap RustVec
begin

text \<open>
  Allocators of address ranges. The kernel's first-fit allocator of virtual addresses
  (\<open>src/memory/virt/allocator.rs\<close>, \<open>src/memory/virt/mod.rs\<close>) and the DMA block allocator
  (\<open>src/memory/allocators/dma_allocator.rs\<close>) share the contract \<open>space_allocator\<close>; the
  first one can also free and satisfies \<open>range_allocator\<close>.
\<close>

subsection \<open>The contract\<close>

definition chunk :: "nat \<Rightarrow> nat \<Rightarrow> nat \<Rightarrow> nat set" where
  "chunk u a n = {a ..< a + n * u}"

text \<open>A sequence of allocations: the chunks handed out and the final state.\<close>

fun alloc_all :: "(nat \<Rightarrow> 's \<Rightarrow> (nat \<times> 's) option) \<Rightarrow> nat list \<Rightarrow> 's \<Rightarrow> ((nat \<times> nat) list \<times> 's) option" where
  "alloc_all al [] s = Some ([], s)"
| "alloc_all al (n # ns) s = do {
     (a, s) \<leftarrow> al n s;
     (cs, s) \<leftarrow> alloc_all al ns s;
     Some ((a, n) # cs, s)
   }"

locale space_allocator =
  fixes free_space :: "'s \<Rightarrow> nat set"
    and al :: "nat \<Rightarrow> 's \<Rightarrow> (nat \<times> 's) option"
    and u :: nat
    and ok :: "'s \<Rightarrow> bool"
  assumes al_ok: "ok s \<Longrightarrow> al n s = Some (a, s') \<Longrightarrow> ok s'"
    and al_free: "ok s \<Longrightarrow> al n s = Some (a, s') \<Longrightarrow> chunk u a n \<subseteq> free_space s"
    and al_takes: "ok s \<Longrightarrow> al n s = Some (a, s') \<Longrightarrow> free_space s' = free_space s - chunk u a n"
begin

lemma alloc_all_ok:
  "ok s \<Longrightarrow> alloc_all al ns s = Some (cs, s') \<Longrightarrow> ok s'"
  by (induction ns arbitrary: s cs) (auto simp: bind_eq_Some_conv dest: al_ok)

lemma alloc_all_space:
  "ok s \<Longrightarrow> alloc_all al ns s = Some (cs, s') \<Longrightarrow>
   free_space s' \<subseteq> free_space s \<and> (\<forall>(a, n) \<in> set cs. chunk u a n \<subseteq> free_space s \<and> chunk u a n \<inter> free_space s' = {})"
proof (induction ns arbitrary: s cs)
  case (Cons n ns)
  from Cons.prems(2) obtain a s1 cs1 where al1: "al n s = Some (a, s1)"
    and rest: "alloc_all al ns s1 = Some (cs1, s')" and cs: "cs = (a, n) # cs1"
    by (auto simp: bind_eq_Some_conv)
  note ih = Cons.IH [OF al_ok [OF Cons.prems(1) al1] rest]
  show ?case using ih al_free [OF Cons.prems(1) al1] al_takes [OF Cons.prems(1) al1] unfolding cs by auto
qed simp

text \<open>No two chunks of a sequence of allocations overlap.\<close>

lemma alloc_all_disjoint:
  "ok s \<Longrightarrow> alloc_all al ns s = Some (cs, s') \<Longrightarrow>
   sorted_wrt (\<lambda>(a, n) (b, m). chunk u a n \<inter> chunk u b m = {}) cs"
proof (induction ns arbitrary: s cs)
  case (Cons n ns)
  from Cons.prems(2) obtain a s1 cs1 where al1: "al n s = Some (a, s1)"
    and rest: "alloc_all al ns s1 = Some (cs1, s')" and cs: "cs = (a, n) # cs1"
    by (auto simp: bind_eq_Some_conv)
  note ok1 = al_ok [OF Cons.prems(1) al1]
  have "\<forall>(b, m) \<in> set cs1. chunk u b m \<subseteq> free_space s1" using alloc_all_space [OF ok1 rest] by auto
  moreover have "free_space s1 \<inter> chunk u a n = {}" using al_takes [OF Cons.prems(1) al1] by auto
  ultimately show ?case using Cons.IH [OF ok1 rest] unfolding cs by fastforce
qed simp

end

locale range_allocator = space_allocator +
  fixes rel :: "nat \<Rightarrow> nat \<Rightarrow> 's \<Rightarrow> 's option"
    and fits :: "nat \<Rightarrow> bool"
  assumes rel_gives: "ok s \<Longrightarrow> 0 < n \<Longrightarrow> fits a \<Longrightarrow> chunk u a n \<inter> free_space s = {} \<Longrightarrow>
      \<exists>s'. rel a n s = Some s' \<and> ok s' \<and> free_space s' = free_space s \<union> chunk u a n"
    and al_fits: "ok s \<Longrightarrow> al n s = Some (a, s') \<Longrightarrow> fits a"
begin

text \<open>Freeing what was just allocated gives the free space back.\<close>

lemma alloc_free_roundtrip:
  assumes "ok s" and "0 < n" and "al n s = Some (a, s1)"
  shows "\<exists>s2. rel a n s1 = Some s2 \<and> ok s2 \<and> free_space s2 = free_space s"
proof -
  have "chunk u a n \<inter> free_space s1 = {}" using al_takes [OF assms(1,3)] by auto
  from rel_gives [OF al_ok [OF assms(1,3)] assms(2) al_fits [OF assms(1,3)] this]
  show ?thesis using al_takes [OF assms(1,3)] al_free [OF assms(1,3)] by auto
qed

end

subsection \<open>Virtual addresses\<close>

record Block =
  bl_start :: nat
  bl_end :: nat

definition START_ADDR :: nat where "START_ADDR = 0x100000000"
definition END_ADDR :: nat where "END_ADDR = 0x200000000"

definition free_list_init :: "Block list" where
  "free_list_init = [\<lparr>bl_start = START_ADDR, bl_end = END_ADDR\<rparr>]"

definition bl_size_bytes :: "Block \<Rightarrow> nat option" where
  "bl_size_bytes b = checked_sub (bl_end b) (bl_start b)"

definition bl_size_pages :: "Block \<Rightarrow> nat option" where
  "bl_size_pages b = do { s \<leftarrow> bl_size_bytes b; Some (s div PAGE_SIZE) }"

fun va_allocate :: "nat \<Rightarrow> Block list \<Rightarrow> (nat \<times> Block list) option" where
  "va_allocate npages [] = None"
| "va_allocate npages (b # bs) = (case bl_size_pages b of
     None \<Rightarrow> None
   | Some block_size \<Rightarrow>
       (if block_size \<ge> npages then
          (if block_size = npages then Some (bl_start b, bs)
           else Some (bl_start b, b\<lparr>bl_start := bl_start b + npages * PAGE_SIZE\<rparr> # bs))
        else (case va_allocate npages bs of
                None \<Rightarrow> None | Some (a, bs') \<Rightarrow> Some (a, b # bs'))))"

definition va_free :: "nat \<Rightarrow> nat \<Rightarrow> Block list \<Rightarrow> Block list option" where
  "va_free start npages fl = (case binary_search (map bl_start fl) start of
     Inr _ \<Rightarrow> None
   | Inl ix \<Rightarrow>
       (let fin = start + npages * PAGE_SIZE in
        if ix > 0 \<and> bl_end (fl ! (ix - 1)) = start then
          Some (fl[ix - 1 := (fl ! (ix - 1))\<lparr>bl_end := bl_end (fl ! (ix - 1)) + npages * PAGE_SIZE\<rparr>])
        else if ix < length fl \<and> bl_start (fl ! ix) = fin then
          Some (fl[ix := (fl ! ix)\<lparr>bl_start := start\<rparr>])
        else Some (vec_insert fl ix \<lparr>bl_start = start, bl_end = fin\<rparr>)))"

subsection \<open>Invariant of the free list\<close>

definition block_ok :: "Block \<Rightarrow> bool" where
  "block_ok b \<longleftrightarrow> bl_start b < bl_end b \<and> PAGE_SIZE dvd bl_start b \<and> PAGE_SIZE dvd bl_end b"

definition va_inv :: "Block list \<Rightarrow> bool" where
  "va_inv fl \<longleftrightarrow> list_all block_ok fl \<and> sorted_wrt (\<lambda>a b. bl_end a \<le> bl_start b) fl"

definition bl_span :: "Block \<Rightarrow> nat set" where "bl_span b = {bl_start b ..< bl_end b}"

definition va_space :: "Block list \<Rightarrow> nat set" where "va_space fl = \<Union> (bl_span ` set fl)"

lemma page_pos: "0 < PAGE_SIZE" by (simp add: PAGE_SIZE_def)

lemma bl_size_pages_ok:
  assumes "block_ok b" and "bl_size_pages b = Some k"
  shows "bl_end b = bl_start b + k * PAGE_SIZE" and "0 < k"
proof -
  from assms have k: "k = (bl_end b - bl_start b) div PAGE_SIZE" and lt: "bl_start b < bl_end b"
    by (auto simp: bl_size_pages_def bl_size_bytes_def bind_eq_Some_conv checked_sub_eq_Some block_ok_def)
  have "PAGE_SIZE dvd bl_end b - bl_start b" using assms(1) by (simp add: block_ok_def dvd_diff_nat)
  then have e: "k * PAGE_SIZE = bl_end b - bl_start b" using k by simp
  with lt show "bl_end b = bl_start b + k * PAGE_SIZE" by simp
  show "0 < k" using e lt page_pos by (cases k) auto
qed

lemma block_ok_size: "block_ok b \<Longrightarrow> \<exists>k. bl_size_pages b = Some k"
  by (auto simp: bl_size_pages_def bl_size_bytes_def checked_sub_def block_ok_def)

lemma va_inv_init: "va_inv free_list_init"
  by (simp add: va_inv_def free_list_init_def block_ok_def START_ADDR_def END_ADDR_def PAGE_SIZE_def)

lemma va_inv_Cons:
  "va_inv (b # fl) \<longleftrightarrow> block_ok b \<and> (\<forall>c \<in> set fl. bl_end b \<le> bl_start c) \<and> va_inv fl"
  by (auto simp: va_inv_def)

lemma va_space_Cons: "va_space (b # fl) = bl_span b \<union> va_space fl"
  by (simp add: va_space_def)

lemma va_space_above: "\<forall>c \<in> set fl. e \<le> bl_start c \<Longrightarrow> x \<in> va_space fl \<Longrightarrow> e \<le> x"
  by (auto simp: va_space_def bl_span_def)

lemma va_allocate_correct:
  assumes "va_inv fl" and "va_allocate n fl = Some (a, fl')"
  shows "va_inv fl' \<and> chunk PAGE_SIZE a n \<subseteq> va_space fl \<and> va_space fl' = va_space fl - chunk PAGE_SIZE a n \<and>
    PAGE_SIZE dvd a \<and> (\<forall>e. (\<forall>c \<in> set fl. e \<le> bl_start c) \<longrightarrow> (\<forall>c \<in> set fl'. e \<le> bl_start c))"
  using assms
proof (induction fl arbitrary: a fl')
  case (Cons b fl)
  from Cons.prems(1) have b: "block_ok b" and later: "\<forall>c \<in> set fl. bl_end b \<le> bl_start c" and inv: "va_inv fl"
    by (simp_all add: va_inv_Cons)
  obtain k where k: "bl_size_pages b = Some k" using block_ok_size [OF b] by blast
  note size = bl_size_pages_ok [OF b k]
  have above: "bl_end b \<le> x" if "x \<in> va_space fl" for x using va_space_above [OF later that] .
  consider (exact) "n = k" | (split) "n < k" | (skip) "k < n" by linarith
  then show ?case
  proof cases
    case exact
    then have r: "a = bl_start b" "fl' = fl" using Cons.prems(2) k by auto
    have "chunk PAGE_SIZE a n = bl_span b" using exact size(1) by (simp add: r chunk_def bl_span_def)
    moreover have "bl_span b \<inter> va_space fl = {}" using above by (force simp: bl_span_def)
    ultimately show ?thesis using inv b by (auto simp: r va_space_Cons block_ok_def)
  next
    case split
    let ?b = "b\<lparr>bl_start := bl_start b + n * PAGE_SIZE\<rparr>"
    have r: "a = bl_start b" "fl' = ?b # fl" using Cons.prems(2) k split by auto
    have lt: "bl_start b + n * PAGE_SIZE < bl_end b" using split page_pos size(1) by simp
    then have "block_ok ?b" using b by (auto simp: block_ok_def)
    moreover have "bl_span b = chunk PAGE_SIZE a n \<union> bl_span ?b" "chunk PAGE_SIZE a n \<inter> bl_span ?b = {}"
      using lt by (auto simp: r chunk_def bl_span_def)
    moreover have "chunk PAGE_SIZE a n \<inter> va_space fl = {}"
      using above lt by (force simp: r chunk_def)
    ultimately show ?thesis using inv b later
      by (auto simp: r va_space_Cons va_inv_Cons block_ok_def)
  next
    case skip
    then obtain fl1 where rec: "va_allocate n fl = Some (a, fl1)" and fl': "fl' = b # fl1"
      using Cons.prems(2) k by (auto split: option.splits)
    note ih = Cons.IH [OF inv rec]
    have "chunk PAGE_SIZE a n \<inter> bl_span b = {}" using ih above by (force simp: bl_span_def)
    with ih b later show ?thesis by (auto simp: fl' va_space_Cons va_inv_Cons)
  qed
qed simp

text \<open>Freeing: the list is cut at the insertion point, and the new range lies between the parts.\<close>

lemma va_inv_append:
  "va_inv (xs @ ys) \<longleftrightarrow> va_inv xs \<and> va_inv ys \<and> (\<forall>x \<in> set xs. \<forall>y \<in> set ys. bl_end x \<le> bl_start y)"
  by (auto simp: va_inv_def sorted_wrt_append)

lemma va_space_append: "va_space (xs @ ys) = va_space xs \<union> va_space ys"
  by (auto simp: va_space_def)

lemma va_inv_sorted: "va_inv fl \<Longrightarrow> sorted (map bl_start fl)"
proof (induction fl)
  case (Cons b fl)
  then show ?case by (auto simp: va_inv_Cons block_ok_def)
qed simp

lemma va_free_cut:
  assumes "va_inv fl" and "0 < n" and "chunk PAGE_SIZE a n \<inter> va_space fl = {}"
  obtains i where "binary_search (map bl_start fl) a = Inl i" and "i \<le> length fl"
    and "\<forall>x \<in> set (take i fl). bl_end x \<le> a" and "\<forall>y \<in> set (drop i fl). a + n * PAGE_SIZE \<le> bl_start y"
proof -
  have a_in: "a \<in> chunk PAGE_SIZE a n" using assms(2) page_pos by (simp add: chunk_def)
  have apart: "bl_end b \<le> a \<or> a < bl_start b" if "b \<in> set fl" for b
    using assms(3) a_in that by (force simp: va_space_def bl_span_def)
  have ok: "block_ok b" if "b \<in> set fl" for b using assms(1) that by (simp add: va_inv_def list_all_iff)
  note bs = binary_search_correct [OF va_inv_sorted [OF assms(1)], of a]
  show ?thesis
  proof (cases "binary_search (map bl_start fl) a")
    case (Inr j)
    with bs have "j < length fl" "bl_start (fl ! j) = a" by auto
    then have "fl ! j \<in> set fl" by simp
    from apart [OF this] ok [OF this] \<open>bl_start (fl ! j) = a\<close> show ?thesis by (simp add: block_ok_def)
  next
    case (Inl i)
    with bs have i: "i \<le> length fl" and lo: "\<forall>j < i. bl_start (fl ! j) < a"
      and hi: "\<forall>j. i \<le> j \<and> j < length fl \<longrightarrow> a < bl_start (fl ! j)" by auto
    have "bl_end x \<le> a" if "x \<in> set (take i fl)" for x
    proof -
      from that i obtain j where "j < i" "x = fl ! j" by (auto simp: in_set_conv_nth)
      with lo i apart [of x] show ?thesis by (metis nth_mem order_less_imp_not_less less_le_trans)
    qed
    moreover have "a + n * PAGE_SIZE \<le> bl_start y" if "y \<in> set (drop i fl)" for y
    proof (rule ccontr)
      from that i obtain j where j: "i \<le> j" "j < length fl" "y = fl ! j"
        by (auto simp: in_set_conv_nth) (metis le_add1 less_diff_conv add.commute)
      then have y: "y \<in> set fl" "a < bl_start y" using hi by auto
      assume "\<not> a + n * PAGE_SIZE \<le> bl_start y"
      then have "bl_start y \<in> chunk PAGE_SIZE a n" using y(2) by (simp add: chunk_def)
      moreover have "bl_start y \<in> va_space fl"
        using y(1) ok [OF y(1)] by (auto simp: va_space_def bl_span_def block_ok_def intro!: bexI [of _ y])
      ultimately show False using assms(3) by blast
    qed
    ultimately show ?thesis using that Inl i by blast
  qed
qed

lemma va_free_correct:
  assumes inv: "va_inv fl" and n: "0 < n" and a: "PAGE_SIZE dvd a"
    and free: "chunk PAGE_SIZE a n \<inter> va_space fl = {}"
  shows "\<exists>fl'. va_free a n fl = Some fl' \<and> va_inv fl' \<and> va_space fl' = va_space fl \<union> chunk PAGE_SIZE a n"
proof -
  obtain i where i: "binary_search (map bl_start fl) a = Inl i" "i \<le> length fl"
    and lo: "\<forall>x \<in> set (take i fl). bl_end x \<le> a" and hi: "\<forall>y \<in> set (drop i fl). a + n * PAGE_SIZE \<le> bl_start y"
    using va_free_cut [OF inv n free] by blast
  define xs ys where "xs = take i fl" and "ys = drop i fl"
  have fl: "fl = xs @ ys" and len: "length xs = i" using i(2) by (simp_all add: xs_def ys_def)
  have lo': "\<forall>x \<in> set xs. bl_end x \<le> a" and hi': "\<forall>y \<in> set ys. a + n * PAGE_SIZE \<le> bl_start y"
    using lo hi by (simp_all add: xs_def ys_def)
  have inv': "va_inv xs" "va_inv ys" "\<forall>x \<in> set xs. \<forall>y \<in> set ys. bl_end x \<le> bl_start y"
    using inv by (simp_all add: fl va_inv_append)
  have pos: "a < a + n * PAGE_SIZE" using n page_pos by simp
  have dv: "PAGE_SIZE dvd a + n * PAGE_SIZE" using a by simp
  let ?new = "\<lparr>bl_start = a, bl_end = a + n * PAGE_SIZE\<rparr>"
  have new: "block_ok ?new" "bl_span ?new = chunk PAGE_SIZE a n"
    using pos a dv by (simp_all add: block_ok_def bl_span_def chunk_def)
  consider (prev) xs' p where "xs = xs' @ [p]" "bl_end p = a"
    | (nxt) y ys' where "ys = y # ys'" "bl_start y = a + n * PAGE_SIZE" "\<not> (i > 0 \<and> bl_end (fl ! (i - 1)) = a)"
    | (none) "\<not> (i > 0 \<and> bl_end (fl ! (i - 1)) = a)" "\<not> (i < length fl \<and> bl_start (fl ! i) = a + n * PAGE_SIZE)"
  proof (cases "i > 0 \<and> bl_end (fl ! (i - 1)) = a")
    case True
    then have "xs \<noteq> []" using len by auto
    then have "xs = butlast xs @ [last xs]" by simp
    moreover have "fl ! (i - 1) = last xs" using True len \<open>xs \<noteq> []\<close> by (simp add: fl nth_append last_conv_nth)
    ultimately show ?thesis using prev True by metis
  next
    case False
    show ?thesis
    proof (cases "i < length fl \<and> bl_start (fl ! i) = a + n * PAGE_SIZE")
      case True
      then obtain y ys' where "ys = y # ys'" using len by (cases ys) (auto simp: fl)
      then show ?thesis using nxt True False len by (simp add: fl nth_append)
    qed (use none False in blast)
  qed
  then show ?thesis
  proof cases
    case prev
    let ?p = "p\<lparr>bl_end := bl_end p + n * PAGE_SIZE\<rparr>"
    have at: "fl ! (i - 1) = p" "fl[i - 1 := ?p] = xs' @ [?p] @ ys"
      using len by (auto simp: fl prev(1) nth_append list_update_append)
    have p: "block_ok p" using inv'(1) by (simp add: prev(1) va_inv_append va_inv_Cons)
    then have "block_ok ?p" "bl_span ?p = bl_span p \<union> chunk PAGE_SIZE a n"
      using prev(2) pos dv by (auto simp: block_ok_def bl_span_def chunk_def)
    moreover have "i > 0" using len prev(1) by auto
    ultimately show ?thesis
      using i(1) at prev inv' hi'
      by (intro exI [of _ "xs' @ [?p] @ ys"])
        (auto simp: va_free_def Let_def fl va_inv_append va_inv_Cons va_space_append va_space_Cons)
  next
    case nxt
    let ?y = "y\<lparr>bl_start := a\<rparr>"
    have at: "fl ! i = y" "fl[i := ?y] = xs @ [?y] @ ys'" "i < length fl"
      using len by (auto simp: fl nxt(1) nth_append list_update_append)
    have y: "block_ok y" using inv'(2) by (simp add: nxt(1) va_inv_Cons)
    then have "block_ok ?y" "bl_span ?y = bl_span y \<union> chunk PAGE_SIZE a n"
      using nxt(2) pos a by (auto simp: block_ok_def bl_span_def chunk_def)
    then show ?thesis
      using i(1) at nxt inv' lo'
      by (intro exI [of _ "xs @ [?y] @ ys'"])
        (auto simp: va_free_def Let_def fl va_inv_append va_inv_Cons va_space_append va_space_Cons)
  next
    case none
    have at: "vec_insert fl i ?new = xs @ [?new] @ ys" by (simp add: vec_insert_def xs_def ys_def)
    have "va_free a n fl = Some (xs @ [?new] @ ys)"
      using i(1) none at by (auto simp: va_free_def Let_def)
    then show ?thesis using new inv' lo' hi' inv
      by (auto simp: fl va_inv_append va_inv_Cons va_space_append va_space_Cons)
  qed
qed

interpretation virt_alloc: range_allocator va_space va_allocate PAGE_SIZE va_inv va_free "\<lambda>a. PAGE_SIZE dvd a"
proof unfold_locales
  show "va_inv s'" "chunk PAGE_SIZE a n \<subseteq> va_space s" "va_space s' = va_space s - chunk PAGE_SIZE a n"
      "PAGE_SIZE dvd a"
    if "va_inv s" "va_allocate n s = Some (a, s')" for s n a s'
    using va_allocate_correct [OF that] by blast+
qed (rule va_free_correct)

text \<open>An empty area starts at a free block, so freeing it is taken for a double free.\<close>

lemma va_free_empty:
  assumes "va_inv fl" and "va_allocate 0 fl = Some (a, fl')"
  shows "va_free a 0 fl' = None"
proof -
  obtain b bs where fl: "fl = b # bs" using assms(2) by (cases fl) auto
  have b: "block_ok b" using assms(1) by (simp add: fl va_inv_Cons)
  obtain k where k: "bl_size_pages b = Some k" using block_ok_size [OF b] by blast
  have "va_allocate 0 fl = Some (bl_start b, fl)"
    using bl_size_pages_ok(2) [OF b k] k by (simp add: fl)
  then have a: "a = bl_start b" "fl' = fl" using assms(2) by auto
  show ?thesis unfolding a
  proof (cases "binary_search (map bl_start fl) (bl_start b)")
    case (Inl i)
    with binary_search_correct [OF va_inv_sorted [OF assms(1)], of "bl_start b"]
    have "\<forall>j < i. map bl_start fl ! j < bl_start b"
      "\<forall>j. i \<le> j \<and> j < length fl \<longrightarrow> bl_start b < map bl_start fl ! j" by auto
    then have False by (cases i) (auto simp: fl)
    then show "va_free (bl_start b) 0 fl = None" ..
  qed (simp add: va_free_def)
qed

lemma va_alloc_free:
  assumes "va_inv fl" and "va_allocate n fl = Some (a, fl1)" and "va_free a n fl1 = Some fl2"
  shows "va_inv fl2" and "va_space fl2 = va_space fl"
proof -
  have "0 < n" using va_free_empty [OF assms(1)] assms(2,3) by (cases n) auto
  then show "va_inv fl2" "va_space fl2 = va_space fl"
    using virt_alloc.alloc_free_roundtrip [OF assms(1) _ assms(2)] assms(3) by auto
qed

subsection \<open>DMA memory\<close>

datatype BlockState = BFree | BUsed

definition DMA_BLOCK_SIZE :: nat where "DMA_BLOCK_SIZE = 0x1000"
definition DMA_MEMORY_START :: nat where "DMA_MEMORY_START = 0x40000"
definition DMA_MEMORY_SIZE :: nat where "DMA_MEMORY_SIZE = 0x40000"

definition round_up_block :: "nat \<Rightarrow> nat option" where
  "round_up_block s = do { t \<leftarrow> checked_u64 (s + (DMA_BLOCK_SIZE - 1)); Some (t div DMA_BLOCK_SIZE) }"

definition DMA_BLOCKS :: nat where "DMA_BLOCKS = DMA_MEMORY_SIZE div DMA_BLOCK_SIZE"

definition dma_new :: "BlockState list" where "dma_new = replicate DMA_BLOCKS BFree"

record DMARegion =
  dr_start :: nat
  dr_size_blocks :: nat

text \<open>The search loop over the start block, the inner check, and the marking loop.\<close>

definition all_free :: "nat \<Rightarrow> nat \<Rightarrow> BlockState list \<Rightarrow> bool" where
  "all_free start n blocks = list_all (\<lambda>off. blocks ! (start + off) = BFree) [0 ..< n]"

definition mark_used :: "nat \<Rightarrow> nat \<Rightarrow> BlockState list \<Rightarrow> BlockState list" where
  "mark_used start n blocks = fold (\<lambda>off bs. bs[start + off := BUsed]) [0 ..< n] blocks"

definition dma_alloc_blocks :: "nat \<Rightarrow> BlockState list \<Rightarrow> (nat \<times> BlockState list) option" where
  "dma_alloc_blocks n blocks = do {
     rassert (n \<le> length blocks);
     start \<leftarrow> List.find (\<lambda>start. all_free start n blocks) [0 ..< length blocks - n];
     Some (DMA_MEMORY_START + start * DMA_BLOCK_SIZE, mark_used start n blocks)
   }"

definition dma_allocate :: "nat \<Rightarrow> BlockState list \<Rightarrow> (DMARegion \<times> BlockState list) option" where
  "dma_allocate sz blocks = do {
     rassert (sz \<noteq> 0);
     n \<leftarrow> round_up_block sz;
     (a, blocks) \<leftarrow> dma_alloc_blocks n blocks;
     Some (\<lparr>dr_start = a, dr_size_blocks = n\<rparr>, blocks)
   }"

definition dma_free :: "DMARegion \<Rightarrow> BlockState list \<Rightarrow> BlockState list option" where
  "dma_free region blocks = None"

definition dma_space :: "BlockState list \<Rightarrow> nat set" where
  "dma_space blocks = {x. DMA_MEMORY_START \<le> x \<and>
     (let i = (x - DMA_MEMORY_START) div DMA_BLOCK_SIZE in i < length blocks \<and> blocks ! i = BFree)}"

lemma mark_used_nth:
  assumes "start + n \<le> length blocks" and "i < length blocks"
  shows "mark_used start n blocks ! i = (if start \<le> i \<and> i < start + n then BUsed else blocks ! i)"
    and "length (mark_used start n blocks) = length blocks"
proof -
  have "length (mark_used start n blocks) = length blocks \<and>
    (mark_used start n blocks ! i = (if start \<le> i \<and> i < start + n then BUsed else blocks ! i))"
    using assms by (induction n) (auto simp: mark_used_def nth_list_update)
  then show "mark_used start n blocks ! i = (if start \<le> i \<and> i < start + n then BUsed else blocks ! i)"
    and "length (mark_used start n blocks) = length blocks" by auto
qed

lemma dma_chunk_iff:
  "x \<in> chunk DMA_BLOCK_SIZE (DMA_MEMORY_START + st * DMA_BLOCK_SIZE) n \<longleftrightarrow>
   DMA_MEMORY_START \<le> x \<and> st \<le> (x - DMA_MEMORY_START) div DMA_BLOCK_SIZE \<and>
   (x - DMA_MEMORY_START) div DMA_BLOCK_SIZE < st + n"
proof -
  have B: "0 < DMA_BLOCK_SIZE" by (simp add: DMA_BLOCK_SIZE_def)
  show ?thesis
  proof (cases "DMA_MEMORY_START \<le> x")
    case True
    then obtain y where x: "x = DMA_MEMORY_START + y" using le_Suc_ex by blast
    have 1: "k \<le> y div DMA_BLOCK_SIZE \<longleftrightarrow> k * DMA_BLOCK_SIZE \<le> y" for k
      using B by (simp add: less_eq_div_iff_mult_less_eq)
    have 2: "y div DMA_BLOCK_SIZE < k \<longleftrightarrow> y < k * DMA_BLOCK_SIZE" for k
      using 1 [of k] by linarith
    show ?thesis unfolding x by (simp add: chunk_def 1 2 add_mult_distrib)
  next
    case False
    then show ?thesis by (auto simp: chunk_def)
  qed
qed

lemma dma_alloc_blocks_cases:
  assumes "dma_alloc_blocks n blocks = Some (a, blocks')"
  obtains st where "a = DMA_MEMORY_START + st * DMA_BLOCK_SIZE" and "blocks' = mark_used st n blocks"
    and "st + n < length blocks" and "\<forall>i. st \<le> i \<and> i < st + n \<longrightarrow> blocks ! i = BFree"
proof -
  from assms obtain st where st: "List.find (\<lambda>start. all_free start n blocks) [0 ..< length blocks - n] = Some st"
    and r: "a = DMA_MEMORY_START + st * DMA_BLOCK_SIZE" "blocks' = mark_used st n blocks"
    by (auto simp: dma_alloc_blocks_def bind_eq_Some_conv split: if_splits)
  from st have "all_free st n blocks" "st < length blocks - n" by (auto simp: find_Some_iff)
  moreover from this(1) have "blocks ! i = BFree" if "st \<le> i \<and> i < st + n" for i
  proof -
    have "i - st < n" "st + (i - st) = i" using that by auto
    with \<open>all_free st n blocks\<close> show ?thesis
      unfolding all_free_def list_all_iff by (metis atLeastLessThan_iff set_upt zero_le)
  qed
  ultimately show ?thesis using r by (intro that [of st]) auto
qed

interpretation dma_alloc: space_allocator dma_space dma_alloc_blocks DMA_BLOCK_SIZE "\<lambda>b. length b = DMA_BLOCKS"
proof
  fix s s' :: "BlockState list" and n a
  assume len: "length s = DMA_BLOCKS" and al: "dma_alloc_blocks n s = Some (a, s')"
  from al obtain st where a: "a = DMA_MEMORY_START + st * DMA_BLOCK_SIZE" and s': "s' = mark_used st n s"
    and fit: "st + n < length s" and free: "\<forall>i. st \<le> i \<and> i < st + n \<longrightarrow> s ! i = BFree"
    by (rule dma_alloc_blocks_cases)
  have nth: "s' ! i = (if st \<le> i \<and> i < st + n then BUsed else s ! i)" if "i < length s" for i
    unfolding s' using fit that by (intro mark_used_nth) auto
  show len': "length s' = DMA_BLOCKS" using len fit mark_used_nth(2) [of st n s 0] by (simp add: s')
  show "chunk DMA_BLOCK_SIZE a n \<subseteq> dma_space s"
    using fit free by (auto simp: a dma_chunk_iff dma_space_def Let_def)
  show "dma_space s' = dma_space s - chunk DMA_BLOCK_SIZE a n"
    using nth len len' by (auto simp: a dma_chunk_iff dma_space_def Let_def split: if_splits)
qed

subsection \<open>Claims\<close>



text \<open>C33: freeing returns exactly the freed range. On a consistent free list, freeing an aligned,
  non-empty range that is not free succeeds, keeps the list consistent (sorted, disjoint,
  page-aligned) and adds exactly that range to the free space; so allocating and freeing
  restores the free space.\<close>

theorem virt_free_exact:
  assumes "va_inv fl" and "0 < n"
  shows "(PAGE_SIZE dvd a \<and> chunk PAGE_SIZE a n \<inter> va_space fl = {} \<longrightarrow>
      (\<exists>fl'. va_free a n fl = Some fl' \<and> va_inv fl' \<and> va_space fl' = va_space fl \<union> chunk PAGE_SIZE a n)) \<and>
    (va_allocate n fl = Some (b, fl1) \<longrightarrow>
      (\<exists>fl2. va_free b n fl1 = Some fl2 \<and> va_inv fl2 \<and> va_space fl2 = va_space fl))"
  using va_free_correct [OF assms] virt_alloc.alloc_free_roundtrip [OF assms] by blast

theorem virt_free_exact_witness:
  "\<exists>fl'. va_free 0x40000000 2 free_list_init = Some fl' \<and> va_inv fl'"
proof -
  have "chunk PAGE_SIZE 0x40000000 2 \<inter> va_space free_list_init = {}"
    by (auto simp: chunk_def PAGE_SIZE_def va_space_def free_list_init_def bl_span_def START_ADDR_def)
  moreover have "PAGE_SIZE dvd 0x40000000" by (simp add: PAGE_SIZE_def)
  ultimately show ?thesis
    using virt_free_exact [OF va_inv_init, of 2 "0x40000000" 0 "[]"] by (metis zero_less_numeral)
qed

text \<open>an empty virtual allocation cannot be freed. Allocating zero pages succeeds whenever anything
  is free and returns the start of a free block, and freeing it then panics as a double free.\<close>

lemma virt_empty_allocation_panics:
  assumes "va_inv fl" and "fl \<noteq> []"
  shows "\<exists>a fl'. va_allocate 0 fl = Some (a, fl') \<and> va_free a 0 fl' = None"
proof -
  obtain b bs where fl: "fl = b # bs" using assms(2) by (cases fl) auto
  have b: "block_ok b" using assms(1) by (simp add: fl va_inv_Cons)
  obtain k where "bl_size_pages b = Some k" using block_ok_size [OF b] by blast
  then obtain a fl' where "va_allocate 0 fl = Some (a, fl')" by (cases "k = 0") (auto simp: fl)
  then show ?thesis using va_free_empty [OF assms(1)] by blast
qed

lemma virt_empty_allocation_panics_example:
  "\<exists>a fl'. va_allocate 0 free_list_init = Some (a, fl') \<and> va_free a 0 fl' = None"
  by (rule virt_empty_allocation_panics [OF va_inv_init]) (simp add: free_list_init_def)

text \<open>DMA regions never overlap, but the pool is never used up. The regions of any sequence of
  allocations are pairwise disjoint, and every region ends before the last block of the pool: the
  search stops one block early, so a request for the whole pool panics even when all is free.\<close>

lemma dma_regions:
  assumes "alloc_all dma_alloc_blocks ns dma_new = Some (cs, bs)"
  shows "sorted_wrt (\<lambda>(a, n) (b, m). chunk DMA_BLOCK_SIZE a n \<inter> chunk DMA_BLOCK_SIZE b m = {}) cs \<and>
    dma_allocate DMA_MEMORY_SIZE dma_new = None \<and>
    (dma_alloc_blocks n bs = Some (a, bs') \<longrightarrow> a + n * DMA_BLOCK_SIZE < DMA_MEMORY_START + DMA_MEMORY_SIZE)"
proof -
  have len: "length dma_new = DMA_BLOCKS" by (simp add: dma_new_def)
  have len': "length bs = DMA_BLOCKS" using dma_alloc.alloc_all_ok [OF len assms] .
  have "dma_allocate DMA_MEMORY_SIZE dma_new = None"
    by (simp add: dma_allocate_def round_up_block_def checked_u64_def DMA_MEMORY_SIZE_def DMA_BLOCK_SIZE_def
        dma_alloc_blocks_def dma_new_def DMA_BLOCKS_def)
  moreover have "a + n * DMA_BLOCK_SIZE < DMA_MEMORY_START + DMA_MEMORY_SIZE"
    if "dma_alloc_blocks n bs = Some (a, bs')"
  proof -
    from that obtain st where a: "a = DMA_MEMORY_START + st * DMA_BLOCK_SIZE" and "st + n < length bs"
      by (rule dma_alloc_blocks_cases)
    then have "(st + n) * DMA_BLOCK_SIZE < DMA_BLOCKS * DMA_BLOCK_SIZE" using len' by (simp add: DMA_BLOCK_SIZE_def)
    then show ?thesis by (simp add: a add_mult_distrib DMA_BLOCKS_def DMA_MEMORY_SIZE_def DMA_BLOCK_SIZE_def)
  qed
  ultimately show ?thesis using dma_alloc.alloc_all_disjoint [OF len assms] by blast
qed

lemma dma_regions_example:
  "alloc_all dma_alloc_blocks [] dma_new = Some ([], dma_new) \<and> dma_allocate DMA_MEMORY_SIZE dma_new = None"
  using dma_regions [of "[]" "[]" dma_new] by simp

end
