(* ===== verification/Paging.thy ===== *)
theory Paging
  imports Prelude
begin

text \<open>
  The page tables of \<open>src/memory/paging/mapper.rs\<close>: three levels of tables with 2 MiB pages
  as leaves. The tables of one page map lie behind each other in memory. The model keeps the
  content of the tables by physical address; the pointer arithmetic of the code only translates
  such an address to the place where the table is mapped. An entry is unused (\<open>None\<close>) or
  holds an address and flags.
\<close>

subsection \<open>Data\<close>

datatype PtFlag = PRESENT | WRITABLE | HUGE_PAGE | NO_EXECUTE

type_synonym pt_entry = "(nat \<times> PtFlag set) option"

record PageMap =
  pm_phys_addr :: nat
  pm_table_count :: nat
  pm_mem :: "nat \<Rightarrow> nat \<Rightarrow> pt_entry"

definition HUGE_PAGE_SIZE :: nat where "HUGE_PAGE_SIZE = 0x200000"

definition MAX_PAGE_TABLES :: nat where "MAX_PAGE_TABLES = HUGE_PAGE_SIZE div 0x1000"

definition p4_index :: "nat \<Rightarrow> nat" where "p4_index a = a div 2 ^ 39 mod 512"
definition p3_index :: "nat \<Rightarrow> nat" where "p3_index a = a div 2 ^ 30 mod 512"
definition p2_index :: "nat \<Rightarrow> nat" where "p2_index a = a div 2 ^ 21 mod 512"

definition frame_addr :: "nat \<Rightarrow> nat \<Rightarrow> nat" where
  "frame_addr base ix = base + 0x1000 * ix"

definition zero_table :: "nat \<Rightarrow> PageMap \<Rightarrow> PageMap" where
  "zero_table a pm = pm\<lparr>pm_mem := (pm_mem pm)(a := (\<lambda>_. None))\<rparr>"

definition set_addr :: "nat \<Rightarrow> nat \<Rightarrow> nat \<Rightarrow> PtFlag set \<Rightarrow> PageMap \<Rightarrow> PageMap" where
  "set_addr table i a flags pm =
     pm\<lparr>pm_mem := (pm_mem pm)(table := (pm_mem pm table)(i := Some (a, flags)))\<rparr>"

subsection \<open>Operations\<close>

definition pm_init :: "nat \<Rightarrow> nat \<Rightarrow> (nat \<Rightarrow> nat \<Rightarrow> pt_entry) \<Rightarrow> PageMap" where
  "pm_init phys_addr virt_addr mem =
     (let pm = \<lparr>pm_phys_addr = phys_addr, pm_table_count = 3, pm_mem = mem\<rparr>;
          p4 = frame_addr phys_addr 0; p3 = frame_addr phys_addr 1; p2 = frame_addr phys_addr 2;
          pm = zero_table p2 (zero_table p3 (zero_table p4 pm));
          pm = set_addr p4 (p4_index virt_addr) (frame_addr phys_addr 1) {PRESENT, WRITABLE} pm;
          pm = set_addr p3 (p3_index virt_addr) (frame_addr phys_addr 2) {PRESENT, WRITABLE} pm
      in set_addr p2 (p2_index virt_addr) (frame_addr phys_addr 0) {PRESENT, WRITABLE, HUGE_PAGE} pm)"

text \<open>\<open>None\<close> is the failed assertion, \<open>Some None\<close> an unmapped address.\<close>

definition translate :: "PageMap \<Rightarrow> nat \<Rightarrow> nat option option" where
  "translate pm addr =
     (case pm_mem pm (pm_phys_addr pm) (p4_index addr) of
        None \<Rightarrow> Some None
      | Some (a3, _) \<Rightarrow>
          (case pm_mem pm a3 (p3_index addr) of
             None \<Rightarrow> Some None
           | Some (a2, _) \<Rightarrow>
               (case pm_mem pm a2 (p2_index addr) of
                  None \<Rightarrow> Some None
                | Some (a, flags) \<Rightarrow> do { rassert (HUGE_PAGE \<in> flags); Some (Some a) })))"

definition unmap :: "PageMap \<Rightarrow> nat \<Rightarrow> PageMap option" where
  "unmap pm page =
     (case pm_mem pm (pm_phys_addr pm) (p4_index page) of
        None \<Rightarrow> None
      | Some (a3, _) \<Rightarrow>
          (case pm_mem pm a3 (p3_index page) of
             None \<Rightarrow> None
           | Some (a2, _) \<Rightarrow>
               Some (pm\<lparr>pm_mem := (pm_mem pm)(a2 := (pm_mem pm a2)(p2_index page := None))\<rparr>)))"

text \<open>The table an entry refers to; a missing table is placed behind the existing ones.\<close>

definition ensure_table :: "PageMap \<Rightarrow> nat \<Rightarrow> nat \<Rightarrow> PageMap \<times> nat" where
  "ensure_table pm table i =
     (case pm_mem pm table i of
        Some (a, _) \<Rightarrow> (pm, a)
      | None \<Rightarrow>
          let addr = frame_addr (pm_phys_addr pm) (pm_table_count pm);
              pm = pm\<lparr>pm_table_count := pm_table_count pm + 1\<rparr>
          in (zero_table addr (set_addr table i addr {PRESENT, WRITABLE} pm), addr))"

definition map_to :: "PageMap \<Rightarrow> nat \<Rightarrow> nat \<Rightarrow> PtFlag set \<Rightarrow> PageMap" where
  "map_to pm page frame flags =
     (let (pm, p3) = ensure_table pm (pm_phys_addr pm) (p4_index page);
          (pm, p2) = ensure_table pm p3 (p3_index page)
      in set_addr p2 (p2_index page) frame (insert HUGE_PAGE flags) pm)"

definition identity_map :: "PageMap \<Rightarrow> nat \<Rightarrow> PtFlag set \<Rightarrow> PageMap" where
  "identity_map pm frame flags = map_to pm frame frame flags"

definition map_table :: "PageMap \<Rightarrow> nat \<Rightarrow> PageMap \<Rightarrow> bool \<Rightarrow> PageMap" where
  "map_table pm page other writable =
     map_to pm page (pm_phys_addr other)
       ({PRESENT, NO_EXECUTE} \<union> (if writable then {WRITABLE} else {}))"

subsection \<open>The tree of tables\<close>

text \<open>The table of level 3 below an index, of level 2 below two, and the leaf entry of a page.\<close>

definition p3_of :: "PageMap \<Rightarrow> nat \<Rightarrow> nat option" where
  "p3_of pm i = map_option fst (pm_mem pm (pm_phys_addr pm) i)"

definition p2_of :: "PageMap \<Rightarrow> nat \<Rightarrow> nat \<Rightarrow> nat option" where
  "p2_of pm i j = do { a \<leftarrow> p3_of pm i; map_option fst (pm_mem pm a j) }"

definition leaf_of :: "PageMap \<Rightarrow> nat \<Rightarrow> nat \<Rightarrow> nat \<Rightarrow> pt_entry" where
  "leaf_of pm i j k = do { b \<leftarrow> p2_of pm i j; pm_mem pm b k }"

definition page_entry :: "PageMap \<Rightarrow> nat \<Rightarrow> pt_entry" where
  "page_entry pm addr = leaf_of pm (p4_index addr) (p3_index addr) (p2_index addr)"

definition tabs :: "PageMap \<Rightarrow> nat set" where
  "tabs pm = {frame_addr (pm_phys_addr pm) k | k. 1 \<le> k \<and> k < pm_table_count pm}"

text \<open>
  Every table that is referred to was placed by the map, no table is referred to twice, and the
  leaves are huge pages.
\<close>

definition pt_inv :: "PageMap \<Rightarrow> bool" where
  "pt_inv pm \<longleftrightarrow>
     1 \<le> pm_table_count pm
   \<and> (\<forall>i a. p3_of pm i = Some a \<longrightarrow> a \<in> tabs pm)
   \<and> (\<forall>i j b. p2_of pm i j = Some b \<longrightarrow> b \<in> tabs pm)
   \<and> (\<forall>i i' a. p3_of pm i = Some a \<longrightarrow> p3_of pm i' = Some a \<longrightarrow> i = i')
   \<and> (\<forall>i j i' j' b. p2_of pm i j = Some b \<longrightarrow> p2_of pm i' j' = Some b \<longrightarrow> i = i' \<and> j = j')
   \<and> (\<forall>i i' j' a. p3_of pm i = Some a \<longrightarrow> p2_of pm i' j' \<noteq> Some a)
   \<and> (\<forall>i j k a f. leaf_of pm i j k = Some (a, f) \<longrightarrow> HUGE_PAGE \<in> f)"

lemma pt_invD:
  assumes "pt_inv pm"
  shows "1 \<le> pm_table_count pm"
    and "p3_of pm i = Some a \<Longrightarrow> a \<in> tabs pm"
    and "p2_of pm i j = Some b \<Longrightarrow> b \<in> tabs pm"
    and "p3_of pm i = Some a \<Longrightarrow> p3_of pm i' = Some a \<Longrightarrow> i = i'"
    and "p2_of pm i j = Some b \<Longrightarrow> p2_of pm i' j' = Some b \<Longrightarrow> i = i' \<and> j = j'"
    and "p3_of pm i = Some a \<Longrightarrow> p2_of pm i' j' \<noteq> Some a"
    and "leaf_of pm i j k = Some (a, f) \<Longrightarrow> HUGE_PAGE \<in> f"
proof -
  note parts = assms [unfolded pt_inv_def]
  show "1 \<le> pm_table_count pm" using parts by (rule conjunct1)
  note parts = parts [THEN conjunct2]
  show "p3_of pm i = Some a \<Longrightarrow> a \<in> tabs pm" using parts [THEN conjunct1] by blast
  note parts = parts [THEN conjunct2]
  show "p2_of pm i j = Some b \<Longrightarrow> b \<in> tabs pm" using parts [THEN conjunct1] by blast
  note parts = parts [THEN conjunct2]
  show "p3_of pm i = Some a \<Longrightarrow> p3_of pm i' = Some a \<Longrightarrow> i = i'"
    using parts [THEN conjunct1] by blast
  note parts = parts [THEN conjunct2]
  show "p2_of pm i j = Some b \<Longrightarrow> p2_of pm i' j' = Some b \<Longrightarrow> i = i' \<and> j = j'"
    using parts [THEN conjunct1] by blast
  note parts = parts [THEN conjunct2]
  show "p3_of pm i = Some a \<Longrightarrow> p2_of pm i' j' \<noteq> Some a" using parts [THEN conjunct1] by blast
  note parts = parts [THEN conjunct2]
  show "leaf_of pm i j k = Some (a, f) \<Longrightarrow> HUGE_PAGE \<in> f" using parts by blast
qed

lemma pt_invI:
  assumes "1 \<le> pm_table_count pm"
    and "\<And>i a. p3_of pm i = Some a \<Longrightarrow> a \<in> tabs pm"
    and "\<And>i j b. p2_of pm i j = Some b \<Longrightarrow> b \<in> tabs pm"
    and "\<And>i i' a. p3_of pm i = Some a \<Longrightarrow> p3_of pm i' = Some a \<Longrightarrow> i = i'"
    and "\<And>i j i' j' b. p2_of pm i j = Some b \<Longrightarrow> p2_of pm i' j' = Some b \<Longrightarrow> i = i' \<and> j = j'"
    and "\<And>i i' j' a. p3_of pm i = Some a \<Longrightarrow> p2_of pm i' j' \<noteq> Some a"
    and "\<And>i j k a f. leaf_of pm i j k = Some (a, f) \<Longrightarrow> HUGE_PAGE \<in> f"
  shows "pt_inv pm"
  using assms unfolding pt_inv_def by blast

lemma root_not_tab: "pm_phys_addr pm \<notin> tabs pm"
  by (auto simp: tabs_def frame_addr_def)

lemma new_not_tab: "frame_addr (pm_phys_addr pm) (pm_table_count pm) \<notin> tabs pm"
  by (auto simp: tabs_def frame_addr_def)

lemma new_not_root: "1 \<le> pm_table_count pm \<Longrightarrow>
    frame_addr (pm_phys_addr pm) (pm_table_count pm) \<noteq> pm_phys_addr pm"
  by (simp add: frame_addr_def)

lemma translate_leaf:
  "translate pm addr = (case page_entry pm addr of
     None \<Rightarrow> Some None
   | Some (a, flags) \<Rightarrow> do { rassert (HUGE_PAGE \<in> flags); Some (Some a) })"
  by (simp add: translate_def page_entry_def leaf_of_def p2_of_def p3_of_def split: option.split)

text \<open>In a well-formed map, translation never panics and reads the leaf entry.\<close>

lemma translate_inv:
  assumes "pt_inv pm"
  shows "translate pm addr = Some (map_option fst (page_entry pm addr))"
proof (cases "page_entry pm addr")
  case (Some e)
  then obtain a f where "page_entry pm addr = Some (a, f)" by (cases e) auto
  then show ?thesis
    using pt_invD(7) [OF assms] by (simp add: translate_leaf page_entry_def)
qed (simp add: translate_leaf)

subsection \<open>Adding a missing table\<close>

text \<open>The effect of a new table below the root, and below a table of level 3.\<close>

definition grown :: "PageMap \<Rightarrow> nat \<Rightarrow> nat \<Rightarrow> PageMap" where
  "grown pm table i =
     (let addr = frame_addr (pm_phys_addr pm) (pm_table_count pm)
      in zero_table addr (set_addr table i addr {PRESENT, WRITABLE}
           (pm\<lparr>pm_table_count := pm_table_count pm + 1\<rparr>)))"

lemma ensure_table_eq:
  "ensure_table pm table i =
     (case pm_mem pm table i of
        Some (a, _) \<Rightarrow> (pm, a)
      | None \<Rightarrow> (grown pm table i, frame_addr (pm_phys_addr pm) (pm_table_count pm)))"
  by (simp add: ensure_table_def grown_def Let_def split: option.split)

lemma grown_fields [simp]:
  "pm_phys_addr (grown pm table i) = pm_phys_addr pm"
  "pm_table_count (grown pm table i) = Suc (pm_table_count pm)"
  by (simp_all add: grown_def zero_table_def set_addr_def Let_def)

lemma grown_mem:
  "pm_mem (grown pm table i) a = (let n = frame_addr (pm_phys_addr pm) (pm_table_count pm) in
     if a = n then (\<lambda>_. None)
     else if a = table then (pm_mem pm table)(i := Some (n, {PRESENT, WRITABLE})) else pm_mem pm a)"
  by (simp add: grown_def zero_table_def set_addr_def Let_def)

lemma tabs_grown: "1 \<le> pm_table_count pm \<Longrightarrow>
    tabs (grown pm table i) = insert (frame_addr (pm_phys_addr pm) (pm_table_count pm)) (tabs pm)"
  by (auto simp: tabs_def less_Suc_eq)

lemma grown_root:
  assumes inv: "pt_inv pm" and free: "p3_of pm i = None"
  shows "pt_inv (grown pm (pm_phys_addr pm) i)"
    and "p3_of (grown pm (pm_phys_addr pm) i) i = Some (frame_addr (pm_phys_addr pm) (pm_table_count pm))"
    and "leaf_of (grown pm (pm_phys_addr pm) i) = leaf_of pm"
proof -
  let ?n = "frame_addr (pm_phys_addr pm) (pm_table_count pm)" and ?g = "grown pm (pm_phys_addr pm) i"
  have count: "1 \<le> pm_table_count pm" using inv by (rule pt_invD)
  note new = new_not_tab [of pm] new_not_root [OF count] root_not_tab [of pm]
  have p3: "p3_of ?g x = (if x = i then Some ?n else p3_of pm x)" for x
    using new by (simp add: p3_of_def grown_mem Let_def)
  have old: "pm_mem ?g a = pm_mem pm a" if "a \<in> tabs pm" for a
    using that new by (auto simp: grown_mem Let_def)
  have p2: "p2_of ?g x y = p2_of pm x y" for x y
  proof (cases "p3_of pm x")
    case None
    then show ?thesis by (simp add: p2_of_def p3) (simp add: grown_mem Let_def)
  next
    case (Some a)
    then show ?thesis using free pt_invD(2) [OF inv Some] by (auto simp: p2_of_def p3 old)
  qed
  show leaf: "leaf_of ?g = leaf_of pm"
  proof (intro ext)
    fix x y z
    show "leaf_of ?g x y z = leaf_of pm x y z"
      using pt_invD(3) [OF inv, of x y] by (cases "p2_of pm x y") (simp_all add: leaf_of_def p2 old)
  qed
  show "p3_of ?g i = Some ?n" by (simp add: p3)
  have fresh: "p3_of pm x \<noteq> Some ?n" "p2_of pm x y \<noteq> Some ?n" for x y
    using pt_invD(2,3) [OF inv] new(1) by blast+
  show "pt_inv ?g"
  proof (rule pt_invI)
    show "a \<in> tabs ?g" if "p3_of ?g x = Some a" for x a
      using that pt_invD(2) [OF inv] by (auto simp: p3 tabs_grown [OF count] split: if_splits)
    show "b \<in> tabs ?g" if "p2_of ?g x y = Some b" for x y b
      using that pt_invD(3) [OF inv] by (auto simp: p2 tabs_grown [OF count])
    show "x = x'" if "p3_of ?g x = Some a" and "p3_of ?g x' = Some a" for x x' a
      using that fresh(1) [of x] fresh(1) [of x'] pt_invD(4) [OF inv, of x a x']
      by (auto simp: p3 split: if_splits)
    show "x = x' \<and> y = y'" if "p2_of ?g x y = Some b" and "p2_of ?g x' y' = Some b" for x y x' y' b
      using that pt_invD(5) [OF inv] by (simp add: p2)
    show "p2_of ?g x' y' \<noteq> Some a" if "p3_of ?g x = Some a" for x x' y' a
      using that pt_invD(6) [OF inv] fresh(2) by (auto simp: p3 p2 split: if_splits)
    show "HUGE_PAGE \<in> f" if "leaf_of ?g x y z = Some (a, f)" for x y z a f
      using that pt_invD(7) [OF inv] by (simp add: leaf)
  qed simp
qed

lemma grown_level3:
  assumes inv: "pt_inv pm" and a3: "p3_of pm i = Some a3" and free: "pm_mem pm a3 j = None"
  shows "pt_inv (grown pm a3 j)"
    and "p2_of (grown pm a3 j) i j = Some (frame_addr (pm_phys_addr pm) (pm_table_count pm))"
    and "leaf_of (grown pm a3 j) = leaf_of pm"
proof -
  let ?n = "frame_addr (pm_phys_addr pm) (pm_table_count pm)" and ?g = "grown pm a3 j"
  have count: "1 \<le> pm_table_count pm" using inv by (rule pt_invD)
  have tab3: "a3 \<in> tabs pm" using inv a3 by (rule pt_invD)
  note new = new_not_tab [of pm] new_not_root [OF count] root_not_tab [of pm]
  have p3: "p3_of ?g x = p3_of pm x" for x
    using new tab3 by (auto simp: p3_of_def grown_mem Let_def)
  have p2: "p2_of ?g x y = (if x = i \<and> y = j then Some ?n else p2_of pm x y)" for x y
  proof (cases "p3_of pm x")
    case (Some a)
    have "a \<noteq> ?n" using pt_invD(2) [OF inv Some] new by auto
    moreover have "a = a3 \<longleftrightarrow> x = i" using pt_invD(4) [OF inv Some, of i] a3 Some by auto
    ultimately show ?thesis using Some by (auto simp: p2_of_def p3 grown_mem Let_def)
  qed (use a3 in \<open>auto simp: p2_of_def p3\<close>)
  have free2: "p2_of pm i j = None" using a3 free by (simp add: p2_of_def)
  have old: "pm_mem ?g b = pm_mem pm b" if "p2_of pm x y = Some b" for x y b
    using pt_invD(3) [OF inv that] pt_invD(6) [OF inv a3, of x y] that new
    by (auto simp: grown_mem Let_def)
  show leaf: "leaf_of ?g = leaf_of pm"
  proof (intro ext)
    fix x y z
    show "leaf_of ?g x y z = leaf_of pm x y z"
    proof (cases "x = i \<and> y = j")
      case True
      then show ?thesis using free2 by (simp add: leaf_of_def p2) (simp add: grown_mem Let_def)
    next
      case False
      then show ?thesis by (cases "p2_of pm x y") (auto simp: leaf_of_def p2 old)
    qed
  qed
  show "p2_of ?g i j = Some ?n" by (simp add: p2)
  have fresh: "p3_of pm x \<noteq> Some ?n" "p2_of pm x y \<noteq> Some ?n" for x y
    using pt_invD(2,3) [OF inv] new(1) by blast+
  show "pt_inv ?g"
  proof (rule pt_invI)
    show "a \<in> tabs ?g" if "p3_of ?g x = Some a" for x a
      using that pt_invD(2) [OF inv] by (auto simp: p3 tabs_grown [OF count])
    show "b \<in> tabs ?g" if "p2_of ?g x y = Some b" for x y b
      using that pt_invD(3) [OF inv] by (auto simp: p2 tabs_grown [OF count] split: if_splits)
    show "x = x'" if "p3_of ?g x = Some a" and "p3_of ?g x' = Some a" for x x' a
      using that pt_invD(4) [OF inv] by (simp add: p3)
    show "x = x' \<and> y = y'" if "p2_of ?g x y = Some b" and "p2_of ?g x' y' = Some b" for x y x' y' b
      using that fresh(2) pt_invD(5) [OF inv, of x y b x' y'] by (auto simp: p2 split: if_splits)
    show "p2_of ?g x' y' \<noteq> Some a" if "p3_of ?g x = Some a" for x x' y' a
      using that pt_invD(6) [OF inv] fresh(1) by (auto simp: p3 p2 split: if_splits)
    show "HUGE_PAGE \<in> f" if "leaf_of ?g x y z = Some (a, f)" for x y z a f
      using that pt_invD(7) [OF inv] by (simp add: leaf)
  qed simp
qed

lemma ensure_root:
  assumes "pt_inv pm" and "ensure_table pm (pm_phys_addr pm) i = (pm', a)"
  shows "pt_inv pm'" and "p3_of pm' i = Some a" and "leaf_of pm' = leaf_of pm"
    and "pm_phys_addr pm' = pm_phys_addr pm"
proof -
  have "pt_inv pm' \<and> p3_of pm' i = Some a \<and> leaf_of pm' = leaf_of pm
      \<and> pm_phys_addr pm' = pm_phys_addr pm"
  proof (cases "pm_mem pm (pm_phys_addr pm) i")
    case None
    then have "p3_of pm i = None" by (simp add: p3_of_def)
    with None assms grown_root [OF assms(1)] show ?thesis by (auto simp: ensure_table_eq)
  next
    case (Some e)
    with assms show ?thesis by (cases e) (auto simp: ensure_table_eq p3_of_def)
  qed
  then show "pt_inv pm'" and "p3_of pm' i = Some a" and "leaf_of pm' = leaf_of pm"
    and "pm_phys_addr pm' = pm_phys_addr pm" by simp_all
qed

lemma ensure_level3:
  assumes "pt_inv pm" and "p3_of pm i = Some a3" and "ensure_table pm a3 j = (pm', b)"
  shows "pt_inv pm'" and "p2_of pm' i j = Some b" and "leaf_of pm' = leaf_of pm"
    and "pm_phys_addr pm' = pm_phys_addr pm"
proof -
  have "pt_inv pm' \<and> p2_of pm' i j = Some b \<and> leaf_of pm' = leaf_of pm
      \<and> pm_phys_addr pm' = pm_phys_addr pm"
  proof (cases "pm_mem pm a3 j")
    case None
    with assms(3) grown_level3 [OF assms(1,2) None] show ?thesis by (auto simp: ensure_table_eq)
  next
    case (Some e)
    with assms show ?thesis by (cases e) (auto simp: ensure_table_eq p2_of_def)
  qed
  then show "pt_inv pm'" and "p2_of pm' i j = Some b" and "leaf_of pm' = leaf_of pm"
    and "pm_phys_addr pm' = pm_phys_addr pm" by simp_all
qed

subsection \<open>Writing a leaf entry\<close>

definition set_leaf :: "PageMap \<Rightarrow> nat \<Rightarrow> nat \<Rightarrow> pt_entry \<Rightarrow> PageMap" where
  "set_leaf pm b k e = pm\<lparr>pm_mem := (pm_mem pm)(b := (pm_mem pm b)(k := e))\<rparr>"

lemma set_leaf_mem:
  "pm_mem (set_leaf pm b k e) a = (if a = b then (pm_mem pm b)(k := e) else pm_mem pm a)"
  by (simp add: set_leaf_def)

lemma set_leaf_fields [simp]:
  "pm_phys_addr (set_leaf pm b k e) = pm_phys_addr pm"
  "pm_table_count (set_leaf pm b k e) = pm_table_count pm"
  "tabs (set_leaf pm b k e) = tabs pm"
  by (simp_all add: set_leaf_def tabs_def)

lemma set_leaf_effect:
  assumes inv: "pt_inv pm" and b: "p2_of pm i j = Some b"
    and huge: "\<And>a f. e = Some (a, f) \<Longrightarrow> HUGE_PAGE \<in> f"
  shows "pt_inv (set_leaf pm b k e)"
    and "leaf_of (set_leaf pm b k e) x y z = (if x = i \<and> y = j \<and> z = k then e else leaf_of pm x y z)"
proof -
  let ?s = "set_leaf pm b k e"
  have tab: "b \<in> tabs pm" using inv b by (rule pt_invD)
  have p3: "p3_of ?s x = p3_of pm x" for x
    using tab root_not_tab [of pm] by (auto simp: p3_of_def set_leaf_mem)
  have p2: "p2_of ?s x y = p2_of pm x y" for x y
  proof (cases "p3_of pm x")
    case (Some a)
    have "a \<noteq> b" using pt_invD(6) [OF inv Some, of i j] b by auto
    then show ?thesis using Some by (simp add: p2_of_def p3 set_leaf_mem)
  qed (simp add: p2_of_def p3)
  have leaf: "leaf_of ?s x y z = (if x = i \<and> y = j \<and> z = k then e else leaf_of pm x y z)" for x y z
  proof (cases "p2_of pm x y")
    case None
    then show ?thesis using b by (auto simp: leaf_of_def p2)
  next
    case (Some c)
    have "c = b \<longleftrightarrow> x = i \<and> y = j" using pt_invD(5) [OF inv Some, of i j] b Some by auto
    then show ?thesis using Some by (auto simp: leaf_of_def p2 set_leaf_mem)
  qed
  then show "leaf_of ?s x y z = (if x = i \<and> y = j \<and> z = k then e else leaf_of pm x y z)" .
  show "pt_inv ?s"
  proof (rule pt_invI)
    show "HUGE_PAGE \<in> f" if "leaf_of ?s x y z = Some (a, f)" for x y z a f
      using that huge pt_invD(7) [OF inv, of x y z] by (auto simp: leaf split: if_splits)
  qed (use pt_invD(1-6) [OF inv] in \<open>simp_all add: p3 p2\<close>)
qed

subsection \<open>The map a page table implements\<close>

text \<open>Two addresses lie in the same page when all three indices agree.\<close>

definition page_key :: "nat \<Rightarrow> nat \<times> nat \<times> nat" where
  "page_key a = (p4_index a, p3_index a, p2_index a)"

definition space :: "PageMap \<Rightarrow> nat \<times> nat \<times> nat \<Rightarrow> pt_entry" where
  "space pm = (\<lambda>(i, j, k). leaf_of pm i j k)"

lemma page_entry_space: "page_entry pm a = space pm (page_key a)"
  by (simp add: page_entry_def space_def page_key_def)

lemma map_to_refines:
  assumes inv: "pt_inv pm"
  shows "pt_inv (map_to pm page frame flags)"
    and "space (map_to pm page frame flags) =
      (space pm)(page_key page \<mapsto> (frame, insert HUGE_PAGE flags))"
    and "pm_phys_addr (map_to pm page frame flags) = pm_phys_addr pm"
proof -
  obtain pm1 a3 where e1: "ensure_table pm (pm_phys_addr pm) (p4_index page) = (pm1, a3)"
    by (cases "ensure_table pm (pm_phys_addr pm) (p4_index page)")
  note r1 = ensure_root [OF inv e1]
  obtain pm2 b where e2: "ensure_table pm1 a3 (p3_index page) = (pm2, b)"
    by (cases "ensure_table pm1 a3 (p3_index page)")
  note r2 = ensure_level3 [OF r1(1,2) e2]
  have eq: "map_to pm page frame flags =
      set_leaf pm2 b (p2_index page) (Some (frame, insert HUGE_PAGE flags))"
    by (simp add: map_to_def e1 e2 set_addr_def set_leaf_def)
  note w = set_leaf_effect [OF r2(1,2), of "Some (frame, insert HUGE_PAGE flags)"]
  show "pt_inv (map_to pm page frame flags)" unfolding eq by (rule w) auto
  show "space (map_to pm page frame flags) =
      (space pm)(page_key page \<mapsto> (frame, insert HUGE_PAGE flags))"
    unfolding eq using w(2) r1(3) r2(3) by (auto simp: space_def page_key_def fun_eq_iff)
  show "pm_phys_addr (map_to pm page frame flags) = pm_phys_addr pm"
    unfolding eq by (simp add: r1(4) r2(4))
qed

lemma unmap_refines:
  assumes inv: "pt_inv pm" and "unmap pm page = Some pm'"
  shows "pt_inv pm'" and "space pm' = (space pm)(page_key page := None)"
    and "pm_phys_addr pm' = pm_phys_addr pm"
proof -
  obtain b where b: "p2_of pm (p4_index page) (p3_index page) = Some b"
    and eq: "pm' = set_leaf pm b (p2_index page) None"
    using assms(2)
    by (auto simp: unmap_def p2_of_def p3_of_def set_leaf_def split: option.splits)
  note w = set_leaf_effect [OF inv b, of None "p2_index page"]
  show "pt_inv pm'" unfolding eq by (rule w) simp
  show "space pm' = (space pm)(page_key page := None)"
    unfolding eq using w(2) by (auto simp: space_def page_key_def fun_eq_iff)
  show "pm_phys_addr pm' = pm_phys_addr pm" by (simp add: eq)
qed

text \<open>A page that is mapped can be unmapped: its tables exist.\<close>

lemma unmap_defined: "page_entry pm page \<noteq> None \<Longrightarrow> unmap pm page \<noteq> None"
  by (auto simp: page_entry_def leaf_of_def p2_of_def p3_of_def unmap_def split: option.splits bind_splits)

lemma pm_init_refines:
  shows "pt_inv (pm_init phys virt mem)"
    and "space (pm_init phys virt mem) =
      [page_key virt \<mapsto> (phys, {PRESENT, WRITABLE, HUGE_PAGE})]"
proof -
  let ?pm = "pm_init phys virt mem"
  have mem: "pm_mem ?pm phys = [p4_index virt \<mapsto> (phys + 0x1000, {PRESENT, WRITABLE})]"
    "pm_mem ?pm (phys + 0x1000) = [p3_index virt \<mapsto> (phys + 0x2000, {PRESENT, WRITABLE})]"
    "pm_mem ?pm (phys + 0x2000) = [p2_index virt \<mapsto> (phys, {PRESENT, WRITABLE, HUGE_PAGE})]"
    "pm_phys_addr ?pm = phys" "pm_table_count ?pm = 3"
    by (simp_all add: pm_init_def Let_def zero_table_def set_addr_def frame_addr_def fun_eq_iff)
  have p3: "p3_of ?pm i = (if i = p4_index virt then Some (phys + 0x1000) else None)" for i
    by (simp add: p3_of_def mem)
  have p2: "p2_of ?pm i j =
      (if i = p4_index virt \<and> j = p3_index virt then Some (phys + 0x2000) else None)" for i j
    by (simp add: p2_of_def p3 mem)
  have leaf: "leaf_of ?pm i j k = (if i = p4_index virt \<and> j = p3_index virt \<and> k = p2_index virt
      then Some (phys, {PRESENT, WRITABLE, HUGE_PAGE}) else None)" for i j k
    by (simp add: leaf_of_def p2 mem)
  have "phys + 0x1000 \<in> tabs ?pm" "phys + 0x2000 \<in> tabs ?pm"
    unfolding tabs_def frame_addr_def mem
    by (rule CollectI, rule exI [of _ 1], simp, rule CollectI, rule exI [of _ 2], simp)
  then show "pt_inv ?pm"
    by (intro pt_invI) (auto simp: p3 p2 leaf mem split: if_splits)
  show "space ?pm = [page_key virt \<mapsto> (phys, {PRESENT, WRITABLE, HUGE_PAGE})]"
    by (auto simp: space_def page_key_def leaf fun_eq_iff)
qed

subsection \<open>The interface of an address space\<close>

text \<open>
  What the users of a page table rely on: mapping a page changes the entry of that page and of no
  other. The client facts are about a sequence of mappings, as the loops over the frames of an
  allocation make them.
\<close>

locale address_space =
  fixes ok :: "'s \<Rightarrow> bool"
    and view :: "'s \<Rightarrow> 'k \<Rightarrow> 'v option"
    and key :: "nat \<Rightarrow> 'k"
    and entry :: "nat \<Rightarrow> 'f \<Rightarrow> 'v"
    and put :: "'s \<Rightarrow> nat \<Rightarrow> nat \<Rightarrow> 'f \<Rightarrow> 's"
  assumes put_ok: "ok s \<Longrightarrow> ok (put s page frame flags)"
    and put_view: "ok s \<Longrightarrow> view (put s page frame flags) = (view s)(key page \<mapsto> entry frame flags)"
begin

lemma put_all_ok: "ok s \<Longrightarrow> ok (fold (\<lambda>(page, frame) s. put s page frame flags) ps s)"
  by (induction ps arbitrary: s) (auto simp: put_ok)

lemma put_all_other:
  "ok s \<Longrightarrow> k \<notin> key ` fst ` set ps \<Longrightarrow>
     view (fold (\<lambda>(page, frame) s. put s page frame flags) ps s) k = view s k"
  by (induction ps arbitrary: s) (auto simp: put_ok put_view)

lemma put_all_mapped:
  "ok s \<Longrightarrow> (page, frame) \<in> set ps \<Longrightarrow> distinct (map (key \<circ> fst) ps) \<Longrightarrow>
     view (fold (\<lambda>(page, frame) s. put s page frame flags) ps s) (key page) = Some (entry frame flags)"
proof (induction ps arbitrary: s)
  case (Cons p ps)
  obtain pg fr where p: "p = (pg, fr)" by (cases p)
  show ?case
  proof (cases "(page, frame) = p")
    case True
    have "key page \<notin> set (map (key \<circ> fst) ps)"
      using Cons.prems(3) True by (cases p) simp
    then have "key page \<notin> key ` fst ` set ps" by (simp add: image_image)
    then show ?thesis using Cons.prems(1) True p by (simp add: put_all_other put_ok put_view)
  next
    case False
    then show ?thesis using Cons p by (auto simp: put_ok)
  qed
qed simp

end

interpretation page_tables: address_space pt_inv space page_key
    "\<lambda>frame flags. (frame, insert HUGE_PAGE flags)" map_to
  by unfold_locales (simp_all add: map_to_refines)

subsection \<open>Reachable page tables\<close>

inductive pt_reachable :: "PageMap \<Rightarrow> bool" where
  pt_start: "pt_reachable (pm_init phys virt mem)"
| pt_map: "pt_reachable pm \<Longrightarrow> pt_reachable (map_to pm page frame flags)"
| pt_unmap: "pt_reachable pm \<Longrightarrow> unmap pm page = Some pm' \<Longrightarrow> pt_reachable pm'"

lemma pt_reachable_inv: "pt_reachable pm \<Longrightarrow> pt_inv pm"
  by (induction rule: pt_reachable.induct)
    (auto intro: pm_init_refines map_to_refines unmap_refines)

text \<open>C16: Page tables implement a map from pages to frames. For every page table built by
  initialisation, mapping and unmapping, \<open>translate\<close> does not panic on any address; after
  \<open>map_to\<close> it gives the new frame for every address of the mapped page and the old result for
  every other address; after \<open>unmap\<close> it gives nothing for the page and the old result
  elsewhere; and unmapping a page that translates does not panic.\<close>

theorem page_table_refines_map:
  assumes "pt_reachable pm"
  shows "translate pm a \<noteq> None \<and>
    translate (map_to pm page frame flags) a =
      (if page_key a = page_key page then Some (Some frame) else translate pm a) \<and>
    (\<forall>pm'. unmap pm page = Some pm' \<longrightarrow>
      translate pm' a = (if page_key a = page_key page then Some None else translate pm a)) \<and>
    (translate pm page \<noteq> Some None \<longrightarrow> unmap pm page \<noteq> None)"
proof -
  note inv = pt_reachable_inv [OF assms]
  have "translate pm' a = (if page_key a = page_key page then Some None else translate pm a)"
    if "unmap pm page = Some pm'" for pm'
    using unmap_refines [OF inv that] inv by (simp add: translate_inv page_entry_space)
  moreover have "translate (map_to pm page frame flags) a =
      (if page_key a = page_key page then Some (Some frame) else translate pm a)"
    using map_to_refines [OF inv] inv by (simp add: translate_inv page_entry_space)
  moreover have "translate pm page \<noteq> Some None \<longrightarrow> unmap pm page \<noteq> None"
    using unmap_defined [of pm page] inv by (auto simp: translate_inv)
  ultimately show ?thesis using inv by (simp add: translate_inv)
qed

theorem page_table_refines_map_witness:
  "translate (map_to (pm_init 0 0 (\<lambda>_ _. None)) 0x40000000 0x200000 {PRESENT}) 0x40000123 =
     Some (Some 0x200000)"
  using page_table_refines_map [OF pt_start, of 0 0 "\<lambda>_ _. None" "0x40000123" "0x40000000" "0x200000" "{PRESENT}"]
  by (simp add: page_key_def p4_index_def p3_index_def p2_index_def)

subsection \<open>Running out of tables\<close>

text \<open>Mapping a page below an unused entry of the root adds two tables.\<close>

lemma map_to_grows:
  assumes inv: "pt_inv pm" and free: "p3_of pm (p4_index page) = None"
  shows "pm_table_count (map_to pm page frame flags) = pm_table_count pm + 2"
    and "p3_of (map_to pm page frame flags) i =
      (if i = p4_index page then Some (frame_addr (pm_phys_addr pm) (pm_table_count pm)) else p3_of pm i)"
proof -
  let ?n = "frame_addr (pm_phys_addr pm) (pm_table_count pm)"
  let ?g = "grown pm (pm_phys_addr pm) (p4_index page)"
  have count: "1 \<le> pm_table_count pm" using inv by (rule pt_invD)
  have e1: "ensure_table pm (pm_phys_addr pm) (p4_index page) = (?g, ?n)"
    using free by (auto simp: ensure_table_eq p3_of_def split: option.splits)
  have empty: "pm_mem ?g ?n j = None" for j by (simp add: grown_mem)
  have e2: "ensure_table ?g ?n (p3_index page) =
      (grown ?g ?n (p3_index page), frame_addr (pm_phys_addr pm) (Suc (pm_table_count pm)))"
    by (simp add: ensure_table_eq empty)
  have eq: "map_to pm page frame flags = set_addr (frame_addr (pm_phys_addr pm) (Suc (pm_table_count pm)))
      (p2_index page) frame (insert HUGE_PAGE flags) (grown ?g ?n (p3_index page))"
    by (simp add: map_to_def e1 e2)
  show "pm_table_count (map_to pm page frame flags) = pm_table_count pm + 2"
    unfolding eq by (simp add: set_addr_def)
  show "p3_of (map_to pm page frame flags) i = (if i = p4_index page then Some ?n else p3_of pm i)"
    unfolding eq using count
    by (simp add: p3_of_def set_addr_def grown_mem Let_def frame_addr_def)
qed

text \<open>Pages below the root entries \<open>1\<close>, \<open>2\<close>, \<open>3\<close>, \<dots> of a fresh table.\<close>

definition sparse :: "nat \<Rightarrow> nat \<Rightarrow> PageMap" where
  "sparse phys n =
     fold (\<lambda>i pm. map_to pm (i * 2 ^ 39) 0 {PRESENT}) [1..<Suc n] (pm_init phys 0 (\<lambda>_ _. None))"

lemma sparse_state:
  "n \<le> 511 \<Longrightarrow> pt_inv (sparse phys n) \<and> pm_phys_addr (sparse phys n) = phys \<and>
     pm_table_count (sparse phys n) = 3 + 2 * n \<and>
     (\<forall>i. n < i \<longrightarrow> p3_of (sparse phys n) i = None) \<and>
     (0 < n \<longrightarrow> p3_of (sparse phys n) n = Some (frame_addr phys (1 + 2 * n)))"
proof (induction n)
  case 0
  have "p3_of (pm_init phys 0 (\<lambda>_ _. None)) i = None" if "0 < i" for i
    using that by (simp add: pm_init_def Let_def zero_table_def set_addr_def frame_addr_def
        p3_of_def p4_index_def)
  then show ?case
    using pm_init_refines(1) [of phys 0 "\<lambda>_ _. None"]
    by (simp add: sparse_def) (simp add: pm_init_def Let_def zero_table_def set_addr_def)
next
  case (Suc n)
  let ?pm = "sparse phys n" and ?page = "Suc n * 2 ^ 39"
  have step: "sparse phys (Suc n) = map_to ?pm ?page 0 {PRESENT}" by (simp add: sparse_def)
  have i4: "p4_index ?page = Suc n" using Suc.prems by (simp add: p4_index_def)
  have IH: "pt_inv ?pm" "pm_phys_addr ?pm = phys" "pm_table_count ?pm = 3 + 2 * n"
    "\<And>i. n < i \<Longrightarrow> p3_of ?pm i = None" using Suc by simp_all
  have free: "p3_of ?pm (p4_index ?page) = None" using IH(4) i4 by simp
  note g = map_to_grows [OF IH(1) free, of 0 "{PRESENT}"]
  show ?case
    unfolding step g(2) i4 using g(1) map_to_refines(1,3) [OF IH(1)] IH
    by (simp add: i4 frame_addr_def)
qed

text \<open>The space for page tables is not checked. A page map owns one huge page for its tables,
  but \<open>map_to\<close> places a missing table behind the last one without looking at
  \<open>MAX_PAGE_TABLES\<close>: mapping one page below each of the root entries 1 to 256 of a fresh
  table makes the root refer to a table outside of the page the map owns.\<close>

lemma page_tables_unbounded:
  "\<exists>a. p3_of (sparse phys 256) 256 = Some a \<and> phys + HUGE_PAGE_SIZE \<le> a \<and>
    MAX_PAGE_TABLES < pm_table_count (sparse phys 256)"
  using sparse_state [of 256 phys]
  by (simp add: frame_addr_def HUGE_PAGE_SIZE_def MAX_PAGE_TABLES_def)

end
