(* ===== verification/PhysMem.thy ===== *)
theory PhysMem
  imports VirtAlloc Paging ByteCodec
begin

text \<open>
  Physical memory as the kernel uses it (\<open>src/memory/phys/mod.rs\<close>,
  \<open>src/memory/phys/allocator.rs\<close>, \<open>src/memory/mod.rs\<close>): allocations, their contents and
  the mapping of all physical memory into the higher half. The buddy allocator of the crate
  \<open>allogator\<close> and the address constructor of the crate \<open>x86_64\<close> are parameters, the
  fields of \<open>Ext\<close>; \<open>ext_ok\<close> states what the kernel relies on: an address with a correct sign
  extension is accepted unchanged, and an allocated block is aligned and lies in the
  higher-half mapping below the end of the physical address space.
\<close>

subsection \<open>Parameters and state\<close>

record 'a Ext =
  x_virt_new :: "nat \<Rightarrow> nat option"
  x_allocate :: "nat \<Rightarrow> nat \<Rightarrow> 'a \<Rightarrow> (nat \<times> 'a) option"
  x_deallocate :: "nat \<Rightarrow> nat \<Rightarrow> nat \<Rightarrow> 'a \<Rightarrow> 'a"

record Allocation =
  al_start :: nat
  al_size :: nat
  al_align :: nat

text \<open>The kernel's page map, the free list of virtual addresses, the contents of the physical
  memory and the state of the physical allocator.\<close>

record 'a Mem =
  ms_page_map :: PageMap
  ms_free_list :: "Block list"
  ms_ram :: "nat \<Rightarrow> u8"
  ms_phys :: 'a

definition HIGHER_HALF_START :: nat where "HIGHER_HALF_START = 0xffff800000000000"

definition canonical :: "nat \<Rightarrow> bool" where
  "canonical a \<longleftrightarrow> a < 2 ^ 47 \<or> (HIGHER_HALF_START \<le> a \<and> a < 2 ^ 64)"

definition ext_ok :: "'a Ext \<Rightarrow> bool" where
  "ext_ok x \<longleftrightarrow>
     (\<forall>a. canonical a \<longrightarrow> x_virt_new x a = Some a) \<and>
     (\<forall>sz al st p st'. x_allocate x sz al st = Some (p, st') \<longrightarrow>
        HIGHER_HALF_START \<le> p \<and> p + sz \<le> HIGHER_HALF_START + 2 ^ 46 \<and>
        al dvd p - HIGHER_HALF_START \<and> p \<noteq> HIGHER_HALF_START)"

subsection \<open>Addresses\<close>

definition virt_add :: "'a Ext \<Rightarrow> nat \<Rightarrow> nat \<Rightarrow> nat option" where
  "virt_add x a n = do { s \<leftarrow> checked_u64 (a + n); x_virt_new x s }"

definition phys_to_virt :: "'a Ext \<Rightarrow> nat \<Rightarrow> nat option" where
  "phys_to_virt x p = do { s \<leftarrow> checked_u64 (HIGHER_HALF_START + p); x_virt_new x s }"

definition undo_offset_ptr :: "nat \<Rightarrow> nat option" where
  "undo_offset_ptr p = checked_sub p HIGHER_HALF_START"

subsection \<open>Allocations\<close>

definition ram_fill :: "(nat \<Rightarrow> u8) \<Rightarrow> nat \<Rightarrow> nat \<Rightarrow> u8 \<Rightarrow> (nat \<Rightarrow> u8)" where
  "ram_fill ram a n v = (\<lambda>i. if a \<le> i \<and> i < a + n then v else ram i)"

definition ram_write :: "(nat \<Rightarrow> u8) \<Rightarrow> nat \<Rightarrow> bytes \<Rightarrow> (nat \<Rightarrow> u8)" where
  "ram_write ram a bs = (\<lambda>i. if a \<le> i \<and> i < a + length bs then bs ! (i - a) else ram i)"

definition to_allocation :: "nat \<Rightarrow> nat \<Rightarrow> nat \<Rightarrow> Allocation option" where
  "to_allocation physptr sz align = do {
     s \<leftarrow> phys_addr physptr;
     Some \<lparr>al_start = s, al_size = sz, al_align = align\<rparr>
   }"

text \<open>The inner \<open>None\<close> is \<open>OutOfMemory\<close>.\<close>

definition phys_allocate :: "'a Ext \<Rightarrow> nat \<Rightarrow> nat \<Rightarrow> 'a Mem \<Rightarrow> (Allocation option \<times> 'a Mem) option" where
  "phys_allocate x sz align m =
     (case x_allocate x sz align (ms_phys m) of
        None \<Rightarrow> Some (None, m)
      | Some (ia, st) \<Rightarrow> do {
          p \<leftarrow> undo_offset_ptr ia;
          al \<leftarrow> to_allocation p sz align;
          Some (Some al, m\<lparr>ms_phys := st\<rparr>)
        })"

definition phys_allocate_zeroed ::
    "'a Ext \<Rightarrow> nat \<Rightarrow> nat \<Rightarrow> 'a Mem \<Rightarrow> (Allocation option \<times> 'a Mem) option" where
  "phys_allocate_zeroed x sz align m =
     (case x_allocate x sz align (ms_phys m) of
        None \<Rightarrow> Some (None, m)
      | Some (ia, st) \<Rightarrow> do {
          p \<leftarrow> undo_offset_ptr ia;
          al \<leftarrow> to_allocation p sz align;
          Some (Some al, m\<lparr>ms_phys := st, ms_ram := ram_fill (ms_ram m) p sz 0\<rparr>)
        })"

text \<open>\<open>Drop for Allocation\<close>: the block goes back to the allocator; a zero start is a double drop.\<close>

definition phys_deallocate :: "'a Ext \<Rightarrow> Allocation \<Rightarrow> 'a Mem \<Rightarrow> 'a Mem option" where
  "phys_deallocate x al m = do {
     v \<leftarrow> phys_to_virt x (al_start al);
     Some (m\<lparr>ms_phys := x_deallocate x v (al_size al) (al_align al) (ms_phys m)\<rparr>)
   }"

definition drop_allocation :: "'a Ext \<Rightarrow> Allocation \<Rightarrow> 'a Mem \<Rightarrow> 'a Mem option" where
  "drop_allocation x al m = do {
     m \<leftarrow> phys_deallocate x al m;
     rassert (al_start al \<noteq> 0);
     Some m
   }"

definition leak :: "Allocation \<Rightarrow> PhysMemoryRange" where
  "leak al = prange (al_start al) (al_start al + al_size al)"

text \<open>\<open>al.read()[i..j]\<close> and \<open>al.write()[i..i + n].copy_from_slice(..)\<close>.\<close>

definition al_read :: "'a Mem \<Rightarrow> Allocation \<Rightarrow> nat \<Rightarrow> nat \<Rightarrow> bytes option" where
  "al_read m al i j = (if i \<le> j \<and> j \<le> al_size al
     then Some (mem_range (ms_ram m) (al_start al + i) (j - i)) else None)"

definition al_write :: "'a Mem \<Rightarrow> Allocation \<Rightarrow> nat \<Rightarrow> bytes \<Rightarrow> 'a Mem option" where
  "al_write m al i bs = (if i + length bs \<le> al_size al
     then Some (m\<lparr>ms_ram := ram_write (ms_ram m) (al_start al + i) bs\<rparr>) else None)"

subsection \<open>Initialisation of the physical allocator\<close>

function pow2_from :: "nat \<Rightarrow> nat \<Rightarrow> nat" where
  "pow2_from n p = (if n \<le> p \<or> p = 0 then p else pow2_from n (2 * p))"
  by auto
termination by (relation "measure (\<lambda>(n, p). n - p)") auto

declare pow2_from.simps [simp del]

text \<open>\<open>usize::next_power_of_two\<close>, which panics when the result does not fit.\<close>

definition next_power_of_two :: "nat \<Rightarrow> nat option" where
  "next_power_of_two n = checked_u64 (pow2_from n 1)"

text \<open>The memory blocks that \<open>init\<close> gives to the buddy allocator: all areas are collected, but
  only the first one is used.\<close>

definition phys_blocks :: "'a Ext \<Rightarrow> PhysMemoryRange option list \<Rightarrow> (nat \<times> nat) list option" where
  "phys_blocks x areas = foldM (\<lambda>blocks area.
     (case area of
        None \<Rightarrow> Some blocks
      | Some area \<Rightarrow> do {
          ptr \<leftarrow> phys_to_virt x (pr_start area);
          rassert (ptr \<noteq> 0);
          n \<leftarrow> size_bytes area;
          p \<leftarrow> next_power_of_two n;
          Some (blocks @ [(ptr, p div 2)])
        })) [] areas"

definition phys_init :: "'a Ext \<Rightarrow> PhysMemoryRange option list \<Rightarrow> (nat \<times> nat) list option" where
  "phys_init x areas = do { blocks \<leftarrow> phys_blocks x areas; Some (take 1 blocks) }"

subsection \<open>The higher-half mapping of physical memory\<close>

definition map_phys_frame :: "'a Ext \<Rightarrow> PageMap \<Rightarrow> nat \<Rightarrow> PageMap option" where
  "map_phys_frame x pm frame = do {
     a \<leftarrow> checked_u64 (HIGHER_HALF_START + frame);
     page \<leftarrow> x_virt_new x a;
     rassert (page mod PAGE_SIZE = 0);
     Some (map_to pm page frame {PRESENT, WRITABLE, NO_EXECUTE})
   }"

definition map_phys_memory :: "'a Ext \<Rightarrow> nat \<Rightarrow> PageMap \<Rightarrow> PageMap option" where
  "map_phys_memory x max_memory pm =
     foldM (map_phys_frame x) pm (map (\<lambda>i. i * PAGE_SIZE) [0 ..< max_memory div PAGE_SIZE + 1])"

subsection \<open>Facts\<close>

lemma pow2_from_bounds:
  "p > 0 \<Longrightarrow> n \<le> pow2_from n p \<and> p \<le> pow2_from n p \<and> (p < n \<longrightarrow> pow2_from n p < 2 * n) \<and>
     (\<exists>k. pow2_from n p = 2 ^ k * p)"
proof (induction n p rule: pow2_from.induct)
  case (1 n p)
  show ?case
  proof (cases "n \<le> p")
    case True
    then show ?thesis using 1 by (subst (1 2 3 4) pow2_from.simps) (auto intro: exI [of _ 0])
  next
    case False
    with 1 have IH: "n \<le> pow2_from n (2 * p)" "2 * p \<le> pow2_from n (2 * p)"
      "2 * p < n \<longrightarrow> pow2_from n (2 * p) < 2 * n" "\<exists>k. pow2_from n (2 * p) = 2 ^ k * (2 * p)"
      by auto
    have eq: "pow2_from n p = pow2_from n (2 * p)" using False 1 by (simp add: pow2_from.simps)
    have "pow2_from n (2 * p) < 2 * n"
    proof (cases "2 * p < n")
      case False2: False
      then have "pow2_from n (2 * p) = 2 * p" by (simp add: pow2_from.simps)
      with False show ?thesis by simp
    qed (use IH in simp)
    moreover obtain k where "pow2_from n (2 * p) = 2 ^ k * (2 * p)" using IH by blast
    then have "pow2_from n (2 * p) = 2 ^ Suc k * p" by simp
    ultimately show ?thesis unfolding eq using IH by (intro conjI) (auto intro: exI [of _ "Suc k"])
  qed
qed

lemma ram_write_read:
  "off + n \<le> length bs \<Longrightarrow> mem_range (ram_write ram a bs) (a + off) n = take n (drop off bs)"
  by (intro nth_equalityI) (auto simp: mem_range_def ram_write_def)

lemma ram_write_other:
  "b + n \<le> a \<or> a + length bs \<le> b \<Longrightarrow> mem_range (ram_write ram a bs) b n = mem_range ram b n"
  by (intro mem_range_cong) (auto simp: ram_write_def)

lemma ext_okD:
  assumes "ext_ok x"
  shows "canonical a \<Longrightarrow> x_virt_new x a = Some a"
    and "x_allocate x sz al st = Some (p, st') \<Longrightarrow> HIGHER_HALF_START \<le> p \<and>
      p + sz \<le> HIGHER_HALF_START + 2 ^ 46 \<and> al dvd p - HIGHER_HALF_START \<and> p \<noteq> HIGHER_HALF_START"
  using assms unfolding ext_ok_def by blast+

lemma phys_to_virt_ok:
  "ext_ok x \<Longrightarrow> p < 2 ^ 46 \<Longrightarrow> phys_to_virt x p = Some (HIGHER_HALF_START + p)"
  by (simp add: phys_to_virt_def checked_u64_def canonical_def ext_okD HIGHER_HALF_START_def)

lemma page_key_eq_iff:
  "page_key a = page_key b \<longleftrightarrow> a div PAGE_SIZE mod 2 ^ 27 = b div PAGE_SIZE mod 2 ^ 27"
proof -
  have split: "x mod 2 ^ 27 = 512 * (512 * (x div 512 div 512 mod 512) + x div 512 mod 512) + x mod 512"
    for x :: nat
  proof -
    have "x mod (512 * (512 * 512)) = 512 * (x div 512 mod (512 * 512)) + x mod 512"
      by (rule mod_mult2_eq)
    also have "x div 512 mod (512 * 512) = 512 * (x div 512 div 512 mod 512) + x div 512 mod 512"
      by (rule mod_mult2_eq)
    finally show ?thesis by simp
  qed
  have idx: "p2_index c = c div PAGE_SIZE mod 512" "p3_index c = c div PAGE_SIZE div 512 mod 512"
    "p4_index c = c div PAGE_SIZE div 512 div 512 mod 512" for c
    by (simp_all add: p2_index_def p3_index_def p4_index_def PAGE_SIZE_def div_mult2_eq [symmetric])
  show ?thesis
  proof
    assume "page_key a = page_key b"
    then show "a div PAGE_SIZE mod 2 ^ 27 = b div PAGE_SIZE mod 2 ^ 27"
      by (simp only: page_key_def idx split prod.inject)
  next
    assume eq: "a div PAGE_SIZE mod 2 ^ 27 = b div PAGE_SIZE mod 2 ^ 27"
    have m: "x mod 2 ^ 27 mod 512 = x mod 512" "x mod 2 ^ 27 div 512 mod 512 = x div 512 mod 512"
      "x mod 2 ^ 27 div 512 div 512 mod 512 = x div 512 div 512 mod 512" for x :: nat
    proof -
      have d: "(512 * y + w) div 512 = y" "(512 * y + w) mod 512 = w" if "w < 512" for y w :: nat
        using that by simp_all
      have lt: "z mod 512 < 512" for z :: nat by simp
      show "x mod 2 ^ 27 mod 512 = x mod 512" "x mod 2 ^ 27 div 512 mod 512 = x div 512 mod 512"
        "x mod 2 ^ 27 div 512 div 512 mod 512 = x div 512 div 512 mod 512"
        unfolding split [of x] d [OF lt] by (rule refl, rule refl, rule mod_mod_trivial)
    qed
    from eq show "page_key a = page_key b"
      by (simp only: page_key_def idx prod.inject) (metis m)
  qed
qed

lemma page_key_base: "page_key (a div PAGE_SIZE * PAGE_SIZE) = page_key a"
  by (simp add: page_key_eq_iff PAGE_SIZE_def)

lemma page_key_small:
  "a < 2 ^ 48 \<Longrightarrow> b < 2 ^ 48 \<Longrightarrow> page_key a = page_key b \<longleftrightarrow> a div PAGE_SIZE = b div PAGE_SIZE"
  by (simp add: page_key_eq_iff PAGE_SIZE_def)

text \<open>The higher half shows the physical memory: the kernel reads physical address \<open>p\<close> at
  \<open>phys_to_virt p\<close>. The boot loop never panics for memory below the limit.\<close>

lemma map_phys_frame_ok:
  assumes "ext_ok x" and "PAGE_SIZE dvd frame" and "frame < 2 ^ 46"
  shows "map_phys_frame x pm frame =
    Some (map_to pm (HIGHER_HALF_START + frame) frame {PRESENT, WRITABLE, NO_EXECUTE})"
proof -
  have "canonical (HIGHER_HALF_START + frame)" using assms(3)
    by (simp add: canonical_def HIGHER_HALF_START_def)
  moreover have "PAGE_SIZE dvd HIGHER_HALF_START + frame"
    using assms(2) by (intro dvd_add) (simp_all add: PAGE_SIZE_def HIGHER_HALF_START_def)
  ultimately show ?thesis using assms(1,3)
    by (simp add: map_phys_frame_def checked_u64_def ext_okD dvd_imp_mod_0 HIGHER_HALF_START_def)
qed

lemma map_phys_memory_ok:
  assumes x: "ext_ok x" and inv: "pt_inv pm" and max: "max_memory < 2 ^ 46"
  shows "\<exists>pm'. map_phys_memory x max_memory pm = Some pm' \<and> pt_inv pm' \<and>
    (\<forall>p \<le> max_memory. space pm' (page_key (HIGHER_HALF_START + p)) =
      Some (p div PAGE_SIZE * PAGE_SIZE, {HUGE_PAGE, PRESENT, WRITABLE, NO_EXECUTE}))"
proof -
  define k where "k = max_memory div PAGE_SIZE + 1"
  let ?frames = "map (\<lambda>i. i * PAGE_SIZE) [0 ..< k]"
  let ?flags = "{PRESENT, WRITABLE, NO_EXECUTE}"
  let ?ps = "map (\<lambda>f. (HIGHER_HALF_START + f, f)) ?frames"
  have small: "f < 2 ^ 46" "PAGE_SIZE dvd f" if "f \<in> set ?frames" for f
  proof -
    from that obtain i where i: "f = i * PAGE_SIZE" "i < k" using page_pos by fastforce
    then have "f \<le> max_memory" by (simp add: k_def less_eq_div_iff_mult_less_eq page_pos less_Suc_eq_le)
    then show "f < 2 ^ 46" using max by simp
    show "PAGE_SIZE dvd f" by (simp add: i)
  qed
  have step: "foldM (map_phys_frame x) pm fs =
      Some (fold (\<lambda>(page, frame) s. map_to s page frame ?flags) (map (\<lambda>f. (HIGHER_HALF_START + f, f)) fs) pm)"
    if "set fs \<subseteq> set ?frames" for fs pm
    using that
  proof (induction fs arbitrary: pm)
    case (Cons f fs)
    then have "map_phys_frame x pm f = Some (map_to pm (HIGHER_HALF_START + f) f ?flags)"
      by (intro map_phys_frame_ok x) (use small in auto)
    with Cons show ?case by simp
  qed simp
  let ?pm' = "fold (\<lambda>(page, frame) s. map_to s page frame ?flags) ?ps pm"
  have key: "page_key (HIGHER_HALF_START + p) = page_key (HIGHER_HALF_START + q) \<longleftrightarrow>
      p div PAGE_SIZE = q div PAGE_SIZE" if "p < 2 ^ 46" "q < 2 ^ 46" for p q
  proof -
    have h: "(HIGHER_HALF_START + r) div PAGE_SIZE mod 2 ^ 27 = 2 ^ 26 + r div PAGE_SIZE" if "r < 2 ^ 46" for r
    proof -
      have "(HIGHER_HALF_START + r) div PAGE_SIZE = HIGHER_HALF_START div PAGE_SIZE + r div PAGE_SIZE"
        by (rule div_plus_div_distrib_dvd_left) (simp add: HIGHER_HALF_START_def PAGE_SIZE_def)
      also have "HIGHER_HALF_START div PAGE_SIZE = 65535 * 2 ^ 27 + 2 ^ 26"
        by (simp add: HIGHER_HALF_START_def PAGE_SIZE_def)
      finally have "(HIGHER_HALF_START + r) div PAGE_SIZE mod 2 ^ 27 = (2 ^ 26 + r div PAGE_SIZE) mod 2 ^ 27"
        by (simp only: add.assoc mod_mult_self3)
      moreover have "r div PAGE_SIZE < 2 ^ 26" using that by (simp add: PAGE_SIZE_def)
      ultimately show ?thesis by simp
    qed
    show ?thesis unfolding page_key_eq_iff h [OF that(1)] h [OF that(2)] by simp
  qed
  have dist: "distinct (map (page_key \<circ> fst) ?ps)"
  proof -
    have "inj_on (\<lambda>f. page_key (HIGHER_HALF_START + f)) (set ?frames)"
    proof (rule inj_onI)
      fix f g assume fg: "f \<in> set ?frames" "g \<in> set ?frames"
        "page_key (HIGHER_HALF_START + f) = page_key (HIGHER_HALF_START + g)"
      then have "f div PAGE_SIZE = g div PAGE_SIZE" using key small by blast
      then show "f = g" using small(2) [OF fg(1)] small(2) [OF fg(2)] page_pos
        by (metis dvd_div_mult_self)
    qed
    moreover have "distinct ?frames" using page_pos by (simp add: distinct_map inj_on_def)
    ultimately have "distinct (map (\<lambda>f. page_key (HIGHER_HALF_START + f)) ?frames)"
      by (simp only: distinct_map)
    then show ?thesis by (simp only: map_map comp_def fst_conv)
  qed
  have "space ?pm' (page_key (HIGHER_HALF_START + p)) =
      Some (p div PAGE_SIZE * PAGE_SIZE, {HUGE_PAGE, PRESENT, WRITABLE, NO_EXECUTE})"
    if "p \<le> max_memory" for p
  proof -
    let ?f = "p div PAGE_SIZE * PAGE_SIZE"
    have "p div PAGE_SIZE < k" using that by (simp add: k_def less_Suc_eq_le div_le_mono)
    then have f: "?f \<in> set ?frames" by auto
    then have "(HIGHER_HALF_START + ?f, ?f) \<in> set ?ps"
      unfolding set_map [of "\<lambda>f. (HIGHER_HALF_START + f, f)"] by (rule rev_image_eqI) simp
    from page_tables.put_all_mapped [OF inv this dist]
    have "space ?pm' (page_key (HIGHER_HALF_START + ?f)) = Some (?f, insert HUGE_PAGE ?flags)" .
    moreover have "page_key (HIGHER_HALF_START + ?f) = page_key (HIGHER_HALF_START + p)"
      using key [of ?f p] small(1) [OF f] that max page_pos by simp
    ultimately show ?thesis by simp
  qed
  moreover have "pt_inv ?pm'" by (rule page_tables.put_all_ok [OF inv])
  moreover have "map_phys_memory x max_memory pm = Some ?pm'"
    unfolding map_phys_memory_def k_def [symmetric] by (rule step) simp
  ultimately show ?thesis by blast
qed

subsection \<open>An instance of the parameters\<close>

text \<open>An allocator that hands out consecutive memory shows that the assumptions can be met.\<close>

definition bump :: "nat Ext" where
  "bump = \<lparr>x_virt_new = (\<lambda>a. if canonical a then Some a else None),
     x_allocate = (\<lambda>sz al st. if 0 < st \<and> al dvd st \<and> st + sz \<le> 2 ^ 46
       then Some (HIGHER_HALF_START + st, st + sz) else None),
     x_deallocate = (\<lambda>p sz al st. st)\<rparr>"

lemma bump_ok: "ext_ok bump"
  by (auto simp: ext_ok_def bump_def split: if_splits)

end
