(* ===== verification/ElfLoader.thy ===== *)
theory ElfLoader
  imports PhysMem
begin

text \<open>
  Executable images: the parser \<open>src/util/elf_parser.rs\<close> and the loader
  \<open>src/multitasking/elf_loader.rs\<close>. Fields of the packed headers are read little-endian at
  their offsets. The loader copies the segments into newly allocated frames.
\<close>

subsection \<open>Data\<close>

definition MAX_PH_ENTRY_COUNT :: nat where "MAX_PH_ENTRY_COUNT = 20"
definition ELF_MAGIC :: nat where "ELF_MAGIC = 0x464c457f"
definition ELF_BITNESS_64 :: nat where "ELF_BITNESS_64 = 2"
definition ELF_LITTLE_ENDIAN :: nat where "ELF_LITTLE_ENDIAN = 1"
definition CURRENT_ELF_VERSION :: nat where "CURRENT_ELF_VERSION = 1"
definition ELF_ARCH_X86_64 :: nat where "ELF_ARCH_X86_64 = 0x3E"
definition ELF_PH_TABLE_ENTRY_SIZE :: nat where "ELF_PH_TABLE_ENTRY_SIZE = 56"

definition ELF_EXECUTABLE :: nat where "ELF_EXECUTABLE = 0"
definition ELF_WRITABLE :: nat where "ELF_WRITABLE = 1"
definition ELF_READABLE :: nat where "ELF_READABLE = 2"

record ELFHeader =
  eh_magic :: nat
  eh_bitness :: nat
  eh_endianness :: nat
  eh_elf_version :: nat
  eh_abi_version :: nat
  eh_elf_type :: nat
  eh_instrucion_set :: nat
  eh_elf_version_2 :: nat
  eh_program_entry_pos :: nat
  eh_ph_table_position :: nat
  eh_sh_table_position :: nat
  eh_flags :: nat
  eh_header_size :: nat
  eh_ph_table_entry_size :: nat
  eh_ph_table_entry_count :: nat
  eh_sh_table_entry_size :: nat
  eh_sh_table_entry_count :: nat
  eh_sh_table_names :: nat

record ELFProgramHeader =
  ph_header_type :: nat
  ph_flags :: u32
  ph_offset :: nat
  ph_virtual_address :: nat
  ph_size_in_file :: nat
  ph_size_in_memory :: nat
  ph_alignment :: nat

record ELFData =
  ed_header :: ELFHeader
  ed_ph_table :: "ELFProgramHeader option list"

datatype ELFParsingError = NotElf | Not64Bit | WrongEndianness | WrongVersion | WrongAbi
  | WrongInstrcutionSet | WrongElfVersion | InvalidELF | FeatureSupportMissing | EmptyHeader

record ElfImage =
  ei_header :: ELFHeader
  ei_sections :: "(ELFProgramHeader \<times> Allocation list) list"

definition loadable :: "ELFProgramHeader \<Rightarrow> bool" where
  "loadable ph \<longleftrightarrow> ph_header_type ph = 1"

text \<open>A permission is given by the number of its bit.\<close>

definition has_flag :: "ELFProgramHeader \<Rightarrow> nat \<Rightarrow> bool" where
  "has_flag ph flag \<longleftrightarrow> bit (ph_flags ph) flag"

subsection \<open>Parser\<close>

definition le_at :: "bytes \<Rightarrow> nat \<Rightarrow> nat \<Rightarrow> nat" where
  "le_at bs off n = from_le (take n (drop off bs))"

definition read_elf_header :: "bytes \<Rightarrow> ELFHeader" where
  "read_elf_header bs =
     \<lparr>eh_magic = le_at bs 0 4, eh_bitness = le_at bs 4 1, eh_endianness = le_at bs 5 1,
      eh_elf_version = le_at bs 6 1, eh_abi_version = le_at bs 7 1, eh_elf_type = le_at bs 16 2,
      eh_instrucion_set = le_at bs 18 2, eh_elf_version_2 = le_at bs 20 4,
      eh_program_entry_pos = le_at bs 24 8, eh_ph_table_position = le_at bs 32 8,
      eh_sh_table_position = le_at bs 40 8, eh_flags = le_at bs 48 4,
      eh_header_size = le_at bs 52 2, eh_ph_table_entry_size = le_at bs 54 2,
      eh_ph_table_entry_count = le_at bs 56 2, eh_sh_table_entry_size = le_at bs 58 2,
      eh_sh_table_entry_count = le_at bs 60 2, eh_sh_table_names = le_at bs 62 2\<rparr>"

definition read_program_header :: "bytes \<Rightarrow> ELFProgramHeader" where
  "read_program_header bs =
     \<lparr>ph_header_type = le_at bs 0 4, ph_flags = word_of_nat (le_at bs 4 4),
      ph_offset = le_at bs 8 8, ph_virtual_address = le_at bs 16 8,
      ph_size_in_file = le_at bs 32 8, ph_size_in_memory = le_at bs 40 8,
      ph_alignment = le_at bs 48 8\<rparr>"

text \<open>One iteration over the program headers: the table and the number of its used entries. A
  load entry beyond the end of the table panics.\<close>

definition parse_ph :: "bytes \<Rightarrow> ELFHeader \<Rightarrow> ELFProgramHeader option list \<times> nat \<Rightarrow> nat
    \<Rightarrow> (ELFProgramHeader option list \<times> nat) option" where
  "parse_ph data header state i = (case state of (table, used) \<Rightarrow> do {
     offset \<leftarrow> checked_u64 (eh_ph_table_position header + eh_ph_table_entry_size header * i);
     fin \<leftarrow> checked_u64 (offset + 56);
     raw \<leftarrow> slice data offset fin;
     let ph = read_program_header raw;
     (if ph_header_type ph = 1
      then do { rassert (used < length table); Some (table[used := Some ph], used + 1) }
      else Some (table, used))
   })"

definition parse_elf :: "bytes \<Rightarrow> (ELFParsingError + ELFData) option" where
  "parse_elf data = do {
     raw \<leftarrow> slice data 0 64;
     let h = read_elf_header raw;
     (if eh_magic h \<noteq> ELF_MAGIC then Some (Inl NotElf)
      else if eh_bitness h \<noteq> ELF_BITNESS_64 then Some (Inl Not64Bit)
      else if eh_ph_table_entry_size h \<noteq> ELF_PH_TABLE_ENTRY_SIZE then Some (Inl InvalidELF)
      else if eh_endianness h \<noteq> ELF_LITTLE_ENDIAN then Some (Inl WrongEndianness)
      else if eh_elf_version h \<noteq> CURRENT_ELF_VERSION \<or> eh_elf_version_2 h \<noteq> CURRENT_ELF_VERSION
        then Some (Inl WrongVersion)
      else if eh_instrucion_set h \<noteq> ELF_ARCH_X86_64 then Some (Inl WrongInstrcutionSet)
      else do {
        (table, used) \<leftarrow> foldM (parse_ph data h) (replicate MAX_PH_ENTRY_COUNT None, 0)
          [0 ..< eh_ph_table_entry_count h];
        Some (Inr \<lparr>ed_header = h, ed_ph_table = table\<rparr>)
      })
   }"

definition last_addr :: "ELFData \<Rightarrow> nat option" where
  "last_addr d = do {
     ends \<leftarrow> foldM (\<lambda>es ph. do {
         e \<leftarrow> checked_u64 (ph_virtual_address ph + ph_size_in_memory ph);
         Some (es @ [e]) }) [] (map the (filter (\<lambda>p. p \<noteq> None) (ed_ph_table d)));
     (if ends = [] then None else Some (Max (set ends)))
   }"

subsection \<open>Loader\<close>

definition drop_allocations :: "'a Ext \<Rightarrow> Allocation list \<Rightarrow> 'a Mem \<Rightarrow> 'a Mem option" where
  "drop_allocations x als m = foldM (\<lambda>m al. drop_allocation x al m) m als"

text \<open>One frame of a segment. \<open>Inl\<close> is \<open>OutOfMemory\<close>.\<close>

definition load_frame :: "'a Ext \<Rightarrow> bytes \<Rightarrow> ELFProgramHeader \<Rightarrow> 'a Mem
    \<Rightarrow> (Allocation option \<times> 'a Mem) option" where
  "load_frame x img ph m = do {
     (a, m) \<leftarrow> phys_allocate_zeroed x PAGE_SIZE PAGE_SIZE m;
     (case a of
        None \<Rightarrow> Some (None, m)
      | Some al \<Rightarrow> do {
          let start = ph_offset ph;
          let sz = ph_size_in_file ph;
          rassert (sz \<le> al_size al);
          fin \<leftarrow> checked_u64 (start + sz);
          src \<leftarrow> slice img start fin;
          m \<leftarrow> al_write m al 0 src;
          Some (Some al, m)
        })
   }"

fun load_frames :: "'a Ext \<Rightarrow> bytes \<Rightarrow> ELFProgramHeader \<Rightarrow> nat \<Rightarrow> Allocation list \<Rightarrow> 'a Mem
    \<Rightarrow> ((Allocation list + Allocation list) \<times> 'a Mem) option" where
  "load_frames x img ph 0 fs m = Some (Inr fs, m)"
| "load_frames x img ph (Suc n) fs m = (case load_frame x img ph m of
     None \<Rightarrow> None
   | Some (None, m) \<Rightarrow> Some (Inl fs, m)
   | Some (Some al, m) \<Rightarrow> load_frames x img ph n (fs @ [al]) m)"

text \<open>The loop over the segments; when memory runs out, the frames allocated so far are freed.\<close>

fun load_sections :: "'a Ext \<Rightarrow> bytes \<Rightarrow> ELFProgramHeader list
    \<Rightarrow> (ELFProgramHeader \<times> Allocation list) list \<Rightarrow> 'a Mem
    \<Rightarrow> ((ELFProgramHeader \<times> Allocation list) list option \<times> 'a Mem) option" where
  "load_sections x img [] done m = Some (Some done, m)"
| "load_sections x img (ph # phs) done m =
     (if loadable ph \<and> ph_size_in_memory ph \<noteq> 0 then do {
        n \<leftarrow> page_align_u64 (ph_size_in_memory ph) True;
        (r, m) \<leftarrow> load_frames x img ph (n div PAGE_SIZE) [] m;
        (case r of
           Inl fs \<Rightarrow> do {
             m \<leftarrow> drop_allocations x fs m;
             m \<leftarrow> drop_allocations x (concat (map snd done)) m;
             Some (None, m)
           }
         | Inr fs \<Rightarrow> load_sections x img phs (done @ [(ph, fs)]) m)
      }
      else load_sections x img phs done m)"

definition load_elf :: "'a Ext \<Rightarrow> bytes \<Rightarrow> 'a Mem \<Rightarrow> (ElfImage option \<times> 'a Mem) option" where
  "load_elf x img m = do {
     parsed \<leftarrow> parse_elf img;
     (case parsed of
        Inl _ \<Rightarrow> None
      | Inr elf \<Rightarrow> do {
          (r, m) \<leftarrow> load_sections x img (map the (filter (\<lambda>p. p \<noteq> None) (ed_ph_table elf))) [] m;
          Some (map_option (\<lambda>s. \<lparr>ei_header = ed_header elf, ei_sections = s\<rparr>) r, m)
        })
   }"

subsection \<open>Facts\<close>

text \<open>Every frame of a segment receives the first bytes of the segment's file contents.\<close>

lemma load_frame_contents:
  assumes "load_frame x img ph m = Some (Some al, m')"
  shows "ph_size_in_file ph \<le> PAGE_SIZE" and "ph_offset ph + ph_size_in_file ph \<le> length img"
    and "al_size al = PAGE_SIZE"
    and "al_read m' al 0 PAGE_SIZE =
      Some (take (ph_size_in_file ph) (drop (ph_offset ph) img) @
            replicate (PAGE_SIZE - ph_size_in_file ph) 0)"
    and "ms_page_map m' = ms_page_map m" and "ms_free_list m' = ms_free_list m"
proof -
  from assms have al: "al_size al = PAGE_SIZE" and sz: "ph_size_in_file ph \<le> PAGE_SIZE"
    and fits: "ph_offset ph + ph_size_in_file ph \<le> length img"
    and ram: "ms_ram m' = ram_write (ram_fill (ms_ram m) (al_start al) PAGE_SIZE 0) (al_start al)
        (take (ph_size_in_file ph) (drop (ph_offset ph) img))"
    and rest: "ms_page_map m' = ms_page_map m" "ms_free_list m' = ms_free_list m"
    by (auto simp: load_frame_def phys_allocate_zeroed_def to_allocation_def al_write_def phys_addr_def
        panic_simps Let_def split: option.splits bind_splits if_splits prod.splits)
  show "ph_size_in_file ph \<le> PAGE_SIZE" "ph_offset ph + ph_size_in_file ph \<le> length img"
    "al_size al = PAGE_SIZE" "ms_page_map m' = ms_page_map m" "ms_free_list m' = ms_free_list m"
    using al sz fits rest by simp_all
  show "al_read m' al 0 PAGE_SIZE =
      Some (take (ph_size_in_file ph) (drop (ph_offset ph) img) @
            replicate (PAGE_SIZE - ph_size_in_file ph) 0)"
    using sz fits unfolding al_read_def al ram
    by (auto intro!: nth_equalityI simp: mem_range_def ram_write_def ram_fill_def nth_append)
qed

end
