(* ===== verification/ProcMem.thy ===== *)
theory ProcMem
  imports ElfLoader Abi
begin

text \<open>
  The process descriptor and the operations on the memory of a process
  (\<open>src/multitasking/process.rs\<close>): access to the saved registers on its stack, the kernel's
  view of a range of its memory, and allocation and release of dynamic memory. The status field
  of the metadata is never read after creation and is left out.
\<close>

unbundle bit_operations_syntax

subsection \<open>Data\<close>

definition PROCESS_COMMON_CODE :: nat where "PROCESS_COMMON_CODE = 0x200000"
definition PROCESS_STACK :: nat where "PROCESS_STACK = 0x400000"
definition PROCESS_STACK_SIZE_PAGES :: nat where "PROCESS_STACK_SIZE_PAGES = 2"

record Process =
  p_page_table :: PageMap
  p_stack_pointer :: nat
  p_stack_memory :: Allocation
  p_dynamic_memory :: "Allocation list"
  p_repeat_syscall :: bool
  p_elf_image :: ElfImage
  p_id :: pid

record ProcessSwitchInfo =
  si_p4addr :: nat
  si_stack_pointer :: nat
  si_pid :: pid

definition switch_info :: "Process \<Rightarrow> ProcessSwitchInfo" where
  "switch_info p = \<lparr>si_p4addr = pm_phys_addr (p_page_table p),
     si_stack_pointer = p_stack_pointer p, si_pid = p_id p\<rparr>"

subsection \<open>Saved registers\<close>

definition stack_item :: "Process \<Rightarrow> nat \<Rightarrow> nat option" where
  "stack_item p depth = do {
     top \<leftarrow> checked_sub (p_stack_pointer p) PROCESS_STACK;
     checked_u64 (top + depth * 8)
   }"

definition read_stack_u64 :: "'a Mem \<Rightarrow> Process \<Rightarrow> nat \<Rightarrow> nat option" where
  "read_stack_u64 m p depth = do {
     item \<leftarrow> stack_item p depth;
     fin \<leftarrow> checked_u64 (item + 8);
     buf \<leftarrow> al_read m (p_stack_memory p) item fin;
     Some (from_le buf)
   }"

definition write_stack_u64 :: "'a Mem \<Rightarrow> Process \<Rightarrow> nat \<Rightarrow> nat \<Rightarrow> 'a Mem option" where
  "write_stack_u64 m p depth value = do {
     item \<leftarrow> stack_item p depth;
     _ \<leftarrow> checked_u64 (item + 8);
     al_write m (p_stack_memory p) item (to_le 8 value)
   }"

subsection \<open>Slices of process memory\<close>

definition align_down :: "nat \<Rightarrow> nat" where
  "align_down a = a div PAGE_SIZE * PAGE_SIZE"

definition align_up :: "nat \<Rightarrow> nat option" where
  "align_up a = (if a mod PAGE_SIZE = 0 then Some a else checked_u64 (align_down a + PAGE_SIZE))"

text \<open>The loop over the pages: the flag is false when a page of the process is not mapped.\<close>

fun slice_pages :: "'a Ext \<Rightarrow> PtFlag set \<Rightarrow> PageMap \<Rightarrow> nat \<Rightarrow> nat \<Rightarrow> nat list \<Rightarrow> PageMap
    \<Rightarrow> (bool \<times> PageMap) option" where
  "slice_pages x flags pt r_start area [] kpm = Some (True, kpm)"
| "slice_pages x flags pt r_start area (i # is) kpm = do {
     let r_offset = i * PAGE_SIZE;
     a \<leftarrow> checked_u64 (r_start + r_offset);
     proc_frame_start \<leftarrow> x_virt_new x a;
     page \<leftarrow> virt_add x area r_offset;
     rassert (page mod PAGE_SIZE = 0);
     t \<leftarrow> translate pt proc_frame_start;
     (case t of
        None \<Rightarrow> Some (False, kpm)
      | Some frame \<Rightarrow> slice_pages x flags pt r_start area is (map_to kpm page frame flags))
   }"

text \<open>The result holds the start and the number of pages of the virtual area and the address of
  the slice in it. The area is dropped, and so freed, when a page is missing.\<close>

definition memory_slice_flags :: "'a Ext \<Rightarrow> PtFlag set \<Rightarrow> Process \<Rightarrow> nat \<Rightarrow> nat \<Rightarrow> 'a Mem
    \<Rightarrow> ((nat \<times> nat \<times> nat) option \<times> 'a Mem) option" where
  "memory_slice_flags x flags p ptr len m = do {
     _ \<leftarrow> phys_to_virt x (pm_phys_addr (p_page_table p));
     let r_start = align_down ptr;
     e \<leftarrow> checked_u64 (ptr + len);
     r_end \<leftarrow> align_up e;
     let r_size_pages = (r_end - r_start) div PAGE_SIZE;
     let offset = ptr - r_start;
     (start, fl) \<leftarrow> va_allocate r_size_pages (ms_free_list m);
     _ \<leftarrow> virt_add x start (r_size_pages * PAGE_SIZE);
     (ok, kpm) \<leftarrow> slice_pages x flags (p_page_table p) r_start start [0 ..< r_size_pages] (ms_page_map m);
     (if ok then do {
        a \<leftarrow> virt_add x start offset;
        Some (Some (start, r_size_pages, a), m\<lparr>ms_page_map := kpm, ms_free_list := fl\<rparr>)
      } else do {
        fl \<leftarrow> va_free start r_size_pages fl;
        Some (None, m\<lparr>ms_page_map := kpm, ms_free_list := fl\<rparr>)
      })
   }"

definition memory_slice :: "'a Ext \<Rightarrow> Process \<Rightarrow> nat \<Rightarrow> nat \<Rightarrow> 'a Mem
    \<Rightarrow> ((nat \<times> nat \<times> nat) option \<times> 'a Mem) option" where
  "memory_slice x p ptr len m = memory_slice_flags x {PRESENT} p ptr len m"

definition memory_slice_mut :: "'a Ext \<Rightarrow> Process \<Rightarrow> nat \<Rightarrow> nat \<Rightarrow> 'a Mem
    \<Rightarrow> ((nat \<times> nat \<times> nat) option \<times> 'a Mem) option" where
  "memory_slice_mut x p ptr len m = memory_slice_flags x {PRESENT, WRITABLE} p ptr len m"

text \<open>The memory seen through a page map, byte by byte; \<open>None\<close> is a page fault.\<close>

definition vread :: "(nat \<Rightarrow> u8) \<Rightarrow> PageMap \<Rightarrow> nat \<Rightarrow> u8 option" where
  "vread ram pm a = map_option (\<lambda>(f, _). ram (f + a mod PAGE_SIZE)) (page_entry pm a)"

definition vwrite :: "PageMap \<Rightarrow> (nat \<Rightarrow> u8) \<Rightarrow> nat \<times> u8 \<Rightarrow> (nat \<Rightarrow> u8) option" where
  "vwrite pm ram = (\<lambda>(a, b). map_option (\<lambda>(f, _). ram(f + a mod PAGE_SIZE := b)) (page_entry pm a))"

definition fetch :: "(nat \<Rightarrow> u8) \<Rightarrow> PageMap \<Rightarrow> nat \<Rightarrow> nat \<Rightarrow> bytes option" where
  "fetch ram pm a n = those (map (vread ram pm) [a ..< a + n])"

definition store :: "PageMap \<Rightarrow> (nat \<Rightarrow> u8) \<Rightarrow> nat \<Rightarrow> bytes \<Rightarrow> (nat \<Rightarrow> u8) option" where
  "store pm ram a bs = foldM (vwrite pm) ram (zip [a ..< a + length bs] bs)"

text \<open>A block of the form \<open>if let Some((_area, slice)) = process.memory_slice(ptr, len)\<close> that
  reads the slice; the area is freed at the end of the block.\<close>

definition read_slice :: "'a Ext \<Rightarrow> Process \<Rightarrow> nat \<Rightarrow> nat \<Rightarrow> 'a Mem \<Rightarrow> (bytes option \<times> 'a Mem) option" where
  "read_slice x p ptr len m = do {
     (r, m) \<leftarrow> memory_slice x p ptr len m;
     (case r of
        None \<Rightarrow> Some (None, m)
      | Some (start, npages, a) \<Rightarrow> do {
          bs \<leftarrow> fetch (ms_ram m) (ms_page_map m) a len;
          fl \<leftarrow> va_free start npages (ms_free_list m);
          Some (Some bs, m\<lparr>ms_free_list := fl\<rparr>)
        })
   }"

subsection \<open>Dynamic memory\<close>

definition pt_flags_of :: "u8 \<Rightarrow> PtFlag set" where
  "pt_flags_of flags = {PRESENT} \<union> (if flags AND MP_WRITE = MP_WRITE then {WRITABLE} else {})
     \<union> (if flags AND MP_EXECUTE = MP_EXECUTE then {} else {NO_EXECUTE})"

definition is_dynamic :: "Process \<Rightarrow> nat \<Rightarrow> bool" where
  "is_dynamic p phys_start \<longleftrightarrow> phys_start \<in> al_start ` set (p_dynamic_memory p)"

definition alloc_page :: "'a Ext \<Rightarrow> PtFlag set \<Rightarrow> nat \<Rightarrow> Process \<Rightarrow> 'a Mem
    \<Rightarrow> ((SyscallErrorCode + unit) \<times> Process \<times> 'a Mem) option" where
  "alloc_page x pt_flags page p m = do {
     t \<leftarrow> translate (p_page_table p) page;
     (case t of
        Some phys_start \<Rightarrow>
          (if \<not> is_dynamic p phys_start then Some (Inl ec_mmap_permission_error, p, m)
           else do {
             rassert (page mod PAGE_SIZE = 0);
             Some (Inr (), p\<lparr>p_page_table := map_to (p_page_table p) page phys_start pt_flags\<rparr>, m)
           })
      | None \<Rightarrow> do {
          (r, m) \<leftarrow> phys_allocate_zeroed x PAGE_SIZE PAGE_SIZE m;
          (case r of
             None \<Rightarrow> Some (Inl ec_out_of_memory, p, m)
           | Some allocation \<Rightarrow> do {
               rassert (page mod PAGE_SIZE = 0);
               Some (Inr (),
                 p\<lparr>p_page_table := map_to (p_page_table p) page (al_start allocation) pt_flags,
                   p_dynamic_memory := p_dynamic_memory p @ [allocation]\<rparr>, m)
             })
        })
   }"

fun alloc_pages :: "'a Ext \<Rightarrow> PtFlag set \<Rightarrow> nat \<Rightarrow> nat list \<Rightarrow> Process \<Rightarrow> 'a Mem
    \<Rightarrow> ((SyscallErrorCode + unit) \<times> Process \<times> 'a Mem) option" where
  "alloc_pages x pt_flags area [] p m = Some (Inr (), p, m)"
| "alloc_pages x pt_flags area (i # is) p m = do {
     page \<leftarrow> virt_add x area (i * PAGE_SIZE);
     (r, p, m) \<leftarrow> alloc_page x pt_flags page p m;
     (case r of
        Inl e \<Rightarrow> Some (Inl e, p, m)
      | Inr _ \<Rightarrow> alloc_pages x pt_flags area is p m)
   }"

definition memory_alloc :: "'a Ext \<Rightarrow> nat \<Rightarrow> nat \<Rightarrow> u8 \<Rightarrow> Process \<Rightarrow> 'a Mem
    \<Rightarrow> ((SyscallErrorCode + unit) \<times> Process \<times> 'a Mem) option" where
  "memory_alloc x area_ptr sz flags p m =
     (if area_ptr mod PAGE_SIZE \<noteq> 0 then Some (Inl ec_mmap_incorrect_alignment, p, m)
      else if sz mod PAGE_SIZE \<noteq> 0 then Some (Inl ec_mmap_incorrect_alignment, p, m)
      else if flags AND MP_READ \<noteq> MP_READ then Some (Inl ec_unsupported, p, m)
      else do {
        _ \<leftarrow> phys_to_virt x (pm_phys_addr (p_page_table p));
        alloc_pages x (pt_flags_of flags) area_ptr [0 ..< sz div PAGE_SIZE] p m
      })"

text \<open>The allocations with the frame of the page are removed from the list and dropped.\<close>

definition dealloc_page :: "'a Ext \<Rightarrow> nat \<Rightarrow> Process \<Rightarrow> 'a Mem
    \<Rightarrow> ((SyscallErrorCode + unit) \<times> Process \<times> 'a Mem) option" where
  "dealloc_page x page p m = do {
     t \<leftarrow> translate (p_page_table p) page;
     (case t of
        None \<Rightarrow> Some (Inr (), p, m)
      | Some phys_start \<Rightarrow> do {
          let drained = filter (\<lambda>b. al_start b = phys_start) (p_dynamic_memory p);
          let p = p\<lparr>p_dynamic_memory := filter (\<lambda>b. al_start b \<noteq> phys_start) (p_dynamic_memory p)\<rparr>;
          m \<leftarrow> drop_allocations x drained m;
          (if drained = [] then Some (Inl ec_mmap_permission_error, p, m)
           else do {
             rassert (page mod PAGE_SIZE = 0);
             pm \<leftarrow> unmap (p_page_table p) page;
             Some (Inr (), p\<lparr>p_page_table := pm\<rparr>, m)
           })
        })
   }"

fun dealloc_pages :: "'a Ext \<Rightarrow> nat \<Rightarrow> nat list \<Rightarrow> Process \<Rightarrow> 'a Mem
    \<Rightarrow> ((SyscallErrorCode + unit) \<times> Process \<times> 'a Mem) option" where
  "dealloc_pages x area [] p m = Some (Inr (), p, m)"
| "dealloc_pages x area (i # is) p m = do {
     page \<leftarrow> virt_add x area (i * PAGE_SIZE);
     (r, p, m) \<leftarrow> dealloc_page x page p m;
     (case r of
        Inl e \<Rightarrow> Some (Inl e, p, m)
      | Inr _ \<Rightarrow> dealloc_pages x area is p m)
   }"

definition memory_dealloc :: "'a Ext \<Rightarrow> nat \<Rightarrow> nat \<Rightarrow> Process \<Rightarrow> 'a Mem
    \<Rightarrow> ((SyscallErrorCode + unit) \<times> Process \<times> 'a Mem) option" where
  "memory_dealloc x area_ptr sz p m =
     (if area_ptr mod PAGE_SIZE \<noteq> 0 then Some (Inl ec_mmap_incorrect_alignment, p, m)
      else if sz mod PAGE_SIZE \<noteq> 0 then Some (Inl ec_mmap_incorrect_alignment, p, m)
      else do {
        _ \<leftarrow> phys_to_virt x (pm_phys_addr (p_page_table p));
        dealloc_pages x area_ptr [0 ..< sz div PAGE_SIZE] p m
      })"

subsection \<open>Facts about slices\<close>

definition mem_inv :: "'a Mem \<Rightarrow> bool" where
  "mem_inv m \<longleftrightarrow> pt_inv (ms_page_map m) \<and> va_inv (ms_free_list m) \<and>
     va_space (ms_free_list m) \<subseteq> {START_ADDR ..< END_ADDR}"

definition proc_inv :: "Process \<Rightarrow> bool" where
  "proc_inv p \<longleftrightarrow> pt_inv (p_page_table p) \<and> pm_phys_addr (p_page_table p) < 2 ^ 46 \<and>
     (\<forall>al \<in> set (p_dynamic_memory p). 0 < al_start al \<and> al_start al < 2 ^ 46)"

text \<open>A block of the free list is large enough for the pages of the range.\<close>

definition slice_room :: "nat \<Rightarrow> nat \<Rightarrow> 'a Mem \<Rightarrow> bool" where
  "slice_room ptr len m = (case align_up (ptr + len) of
     None \<Rightarrow> False
   | Some e \<Rightarrow> va_allocate ((e - align_down ptr) div PAGE_SIZE) (ms_free_list m) \<noteq> None)"

lemma virt_add_ok: "ext_ok x \<Longrightarrow> a + n < 2 ^ 47 \<Longrightarrow> virt_add x a n = Some (a + n)"
  by (simp add: virt_add_def checked_u64_def ext_okD canonical_def)

lemma slice_pages_ok:
  assumes x: "ext_ok x" and pt: "pt_inv pt" and kpm: "pt_inv kpm" and al: "PAGE_SIZE dvd area"
    and r: "\<And>i. i \<in> set is \<Longrightarrow> r_start + i * PAGE_SIZE < 2 ^ 47"
    and ar: "\<And>i. i \<in> set is \<Longrightarrow> area + i * PAGE_SIZE < 2 ^ 47" and dist: "distinct is"
  shows "\<exists>b kpm'. slice_pages x flags pt r_start area is kpm = Some (b, kpm') \<and> pt_inv kpm' \<and>
    (b \<longleftrightarrow> (\<forall>i \<in> set is. page_entry pt (r_start + i * PAGE_SIZE) \<noteq> None)) \<and>
    (\<forall>k. k \<notin> (\<lambda>i. page_key (area + i * PAGE_SIZE)) ` set is \<longrightarrow> space kpm' k = space kpm k) \<and>
    (b \<longrightarrow> (\<forall>i \<in> set is. space kpm' (page_key (area + i * PAGE_SIZE)) =
       map_option (\<lambda>(f, _). (f, insert HUGE_PAGE flags)) (page_entry pt (r_start + i * PAGE_SIZE))))"
  using kpm r ar dist
proof (induction "is" arbitrary: kpm)
  case (Cons i "is")
  let ?a = "r_start + i * PAGE_SIZE" and ?page = "area + i * PAGE_SIZE"
  have step: "slice_pages x flags pt r_start area (i # is) kpm =
      (case page_entry pt ?a of None \<Rightarrow> Some (False, kpm)
       | Some (f, _) \<Rightarrow> slice_pages x flags pt r_start area is (map_to kpm ?page f flags))"
  proof -
    have "x_virt_new x ?a = Some ?a" "?a < 2 ^ 64"
      using Cons.prems(2) [of i] by (simp_all add: ext_okD [OF x] canonical_def)
    moreover have "virt_add x area (i * PAGE_SIZE) = Some ?page"
      using Cons.prems(3) [of i] by (simp add: virt_add_ok [OF x])
    moreover have "?page mod PAGE_SIZE = 0" using al by simp
    ultimately show ?thesis
      by (simp add: checked_u64_def translate_inv [OF pt] Let_def split: option.split)
  qed
  show ?case
  proof (cases "page_entry pt ?a")
    case None
    then show ?thesis unfolding step using Cons.prems(1) by auto
  next
    case (Some e)
    obtain f g where e: "e = (f, g)" by (cases e)
    let ?kpm1 = "map_to kpm ?page f flags"
    note m = map_to_refines [OF Cons.prems(1), of ?page f flags]
    obtain b kpm' where IH: "slice_pages x flags pt r_start area is ?kpm1 = Some (b, kpm')" "pt_inv kpm'"
      "b \<longleftrightarrow> (\<forall>i \<in> set is. page_entry pt (r_start + i * PAGE_SIZE) \<noteq> None)"
      "\<forall>k. k \<notin> (\<lambda>i. page_key (area + i * PAGE_SIZE)) ` set is \<longrightarrow> space kpm' k = space ?kpm1 k"
      "b \<longrightarrow> (\<forall>i \<in> set is. space kpm' (page_key (area + i * PAGE_SIZE)) =
        map_option (\<lambda>(f, _). (f, insert HUGE_PAGE flags)) (page_entry pt (r_start + i * PAGE_SIZE)))"
      using Cons.IH [OF m(1)] Cons.prems(2,3,4) by fastforce
    have fresh: "page_key ?page \<notin> (\<lambda>i. page_key (area + i * PAGE_SIZE)) ` set is"
    proof
      assume "page_key ?page \<in> (\<lambda>i. page_key (area + i * PAGE_SIZE)) ` set is"
      then obtain j where j: "j \<in> set is" "page_key ?page = page_key (area + j * PAGE_SIZE)" by auto
      then have "?page div PAGE_SIZE = (area + j * PAGE_SIZE) div PAGE_SIZE"
        using Cons.prems(3) [of i] Cons.prems(3) [of j] by (subst (asm) page_key_small) simp_all
      then have "i = j" using page_pos by simp
      with j(1) Cons.prems(4) show False by simp
    qed
    have top: "space kpm' (page_key ?page) = Some (f, insert HUGE_PAGE flags)"
      unfolding IH(4) [rule_format, OF fresh] m(2) by simp
    have "space kpm' k = space kpm k"
      if "k \<notin> (\<lambda>i. page_key (area + i * PAGE_SIZE)) ` set (i # is)" for k
    proof -
      have "space kpm' k = space ?kpm1 k" using that by (intro IH(4) [rule_format]) simp
      then show ?thesis using that by (simp add: m(2))
    qed
    then show ?thesis unfolding step using IH top by (simp add: Some e)
  qed
qed auto

text \<open>An address in an area whose start is aligned: its page and its offset in the page.\<close>

lemma area_addr:
  assumes "PAGE_SIZE dvd a"
  shows "page_key (a + q) = page_key (a + q div PAGE_SIZE * PAGE_SIZE)"
    and "(a + q) mod PAGE_SIZE = q mod PAGE_SIZE"
proof -
  obtain c where a: "a = PAGE_SIZE * c" using assms by (rule dvdE)
  have "(a + q) div PAGE_SIZE * PAGE_SIZE = a + q div PAGE_SIZE * PAGE_SIZE"
    using page_pos by (simp add: a distrib_right)
  then show "page_key (a + q) = page_key (a + q div PAGE_SIZE * PAGE_SIZE)"
    using page_key_base [of "a + q"] by simp
  show "(a + q) mod PAGE_SIZE = q mod PAGE_SIZE" by (simp add: a)
qed

lemma those_map_Some: "those (map f xs) = (if \<forall>x \<in> set xs. f x \<noteq> None then Some (map (the \<circ> f) xs) else None)"
  by (induction xs) (auto split: option.splits)

lemma fetch_eqI:
  assumes "\<And>i. i < n \<Longrightarrow> vread ram pm (a + i) = vread ram pm' (b + i)"
  shows "fetch ram pm a n = fetch ram pm' b n"
proof -
  have shift: "[c ..< c + n] = map (\<lambda>i. c + i) [0 ..< n]" for c
    by (induction n) simp_all
  show ?thesis unfolding fetch_def shift [of a] shift [of b] map_map comp_def
    by (rule arg_cong [of _ _ those]) (use assms in simp)
qed

lemma pred_div:
  assumes "0 < (q::nat)" and "0 < P"
  shows "(q - 1) div P + 1 = (if q mod P = 0 then q div P else q div P + 1)"
proof -
  let ?c = "q div P" and ?d = "q mod P"
  have q: "q = ?c * P + ?d" by simp
  show ?thesis
  proof (cases "?d = 0")
    case True
    then obtain c where c: "?c = Suc c" using q assms(1) by (cases ?c) auto
    have "q - 1 = (P - 1) + c * P" using q True assms by (simp add: c)
    also have "\<dots> div P = c" using assms(2) by (subst div_mult_self1) simp_all
    finally have "(q - 1) div P = c" .
    with True c show ?thesis by simp
  next
    case False
    have "q - 1 = (?d - 1) + ?c * P" using q False by linarith
    moreover have "?d - 1 < P" using assms(2) by (simp add: less_imp_diff_less)
    ultimately have "(q - 1) div P = ?c" using assms by simp
    with False show ?thesis by simp
  qed
qed

text \<open>The pages that a range of addresses touches.\<close>

lemma range_pages:
  assumes "0 < len" and "ptr + len < 2 ^ 47"
  obtains e where "align_up (ptr + len) = Some e" and "e \<le> 2 ^ 47" and "align_down ptr + (e - align_down ptr) = e"
    and "0 < (e - align_down ptr) div PAGE_SIZE"
    and "align_down ptr + (e - align_down ptr) div PAGE_SIZE * PAGE_SIZE = e"
    and "\<And>j. j < len \<Longrightarrow> (ptr - align_down ptr + j) div PAGE_SIZE < (e - align_down ptr) div PAGE_SIZE"
    and "\<And>i. i < (e - align_down ptr) div PAGE_SIZE \<Longrightarrow>
      \<exists>j < len. (ptr - align_down ptr + j) div PAGE_SIZE = i"
proof -
  let ?P = PAGE_SIZE
  define s where "s = ptr div ?P"
  define t where "t = (ptr + len - 1) div ?P"
  define e where "e = (t + 1) * ?P"
  have P: "?P = 2097152" by (simp add: PAGE_SIZE_def)
  have up: "align_up (ptr + len) = Some e"
  proof -
    let ?q = "ptr + len"
    have e: "e = (if ?q mod ?P = 0 then ?q div ?P else ?q div ?P + 1) * ?P"
      unfolding e_def t_def using pred_div [of ?q ?P] assms(1) page_pos by simp
    have "?q div ?P * ?P + ?P < 2 ^ 64"
      using div_times_less_eq_dividend [of ?q ?P] assms(2) by (simp add: P)
    moreover have "?q mod ?P = 0 \<Longrightarrow> ?q div ?P * ?P = ?q" by (simp add: mod_0_imp_dvd)
    ultimately show ?thesis by (simp add: align_up_def align_down_def checked_u64_def e)
  qed
  have ad: "align_down ptr = s * ?P" by (simp add: align_down_def s_def)
  have st: "s \<le> t" using assms(1) unfolding s_def t_def by (intro div_le_mono) simp
  have n: "(e - align_down ptr) div ?P = t + 1 - s"
    unfolding e_def ad diff_mult_distrib [symmetric] using page_pos by (rule div_mult_self_is_m)
  have off: "ptr - align_down ptr + j = ptr + j - s * ?P" "s * ?P \<le> ptr" for j
    using times_div_less_eq_dividend [of ?P ptr] by (simp_all add: ad s_def mult.commute)
  have dv: "(ptr - align_down ptr + j) div ?P = (ptr + j) div ?P - s" for j
  proof -
    obtain y where y: "ptr + j = y + s * ?P" using off(2) by (metis le_add2 le_iff_add add.commute trans_le_add1)
    then have "(ptr + j) div ?P = s + y div ?P" using page_pos by simp
    with y show ?thesis unfolding off(1) by simp
  qed
  show thesis
  proof (rule that [OF up])
    have "t < 2 ^ 26" unfolding t_def by (rule less_mult_imp_div_less) (use assms in \<open>simp add: P\<close>)
    then show "e \<le> 2 ^ 47" by (simp add: e_def P)
    have "s * ?P \<le> (t + 1) * ?P" using st by (intro mult_le_mono1) simp
    then show "align_down ptr + (e - align_down ptr) = e" by (simp add: ad e_def)
    show "0 < (e - align_down ptr) div ?P" using st by (simp add: n)
    show "align_down ptr + (e - align_down ptr) div ?P * ?P = e"
      unfolding n unfolding ad e_def distrib_right [symmetric] using st by simp
  next
    fix j assume "j < len"
    then have "(ptr + j) div ?P \<le> t" unfolding t_def by (intro div_le_mono) simp
    then show "(ptr - align_down ptr + j) div ?P < (e - align_down ptr) div ?P"
      unfolding dv n using st by simp
  next
    fix i assume "i < (e - align_down ptr) div ?P"
    then have i: "s + i \<le> t" by (simp add: n)
    show "\<exists>j < len. (ptr - align_down ptr + j) div ?P = i"
    proof (cases "i = 0")
      case True
      then show ?thesis using assms(1) dv [of 0] by (intro exI [of _ 0]) (simp add: s_def)
    next
      case False
      let ?j = "(s + i) * ?P - ptr"
      have "ptr < (s + 1) * ?P"
        using dividend_less_div_times [OF page_pos, of ptr] by (simp add: s_def)
      also have "\<dots> \<le> (s + i) * ?P" using False by (intro mult_le_mono1) simp
      finally have lo: "ptr < (s + i) * ?P" .
      have hi: "(s + i) * ?P \<le> ptr + len - 1"
        using i unfolding t_def by (meson div_times_less_eq_dividend le_trans mult_le_mono1)
      have "?j < len" using lo hi assms(1) by simp
      moreover have "(ptr - align_down ptr + ?j) div ?P = i" unfolding dv using lo page_pos by simp
      ultimately show ?thesis by blast
    qed
  qed
qed

text \<open>The bytes of a range exist when all its pages are mapped, and a second map in which the
  pages of an area lead to the same frames shows the same bytes.\<close>

lemma page_entry_area:
  "PAGE_SIZE dvd r \<Longrightarrow> page_entry pm (r + q) = page_entry pm (r + q div PAGE_SIZE * PAGE_SIZE)"
  unfolding page_entry_space by (rule arg_cong [OF area_addr(1)])

lemma fetch_defined_iff:
  assumes r: "PAGE_SIZE dvd r"
    and inside: "\<And>j. j < len \<Longrightarrow> (off + j) div PAGE_SIZE < n"
    and hit: "\<And>i. i < n \<Longrightarrow> \<exists>j < len. (off + j) div PAGE_SIZE = i"
  shows "fetch ram pt (r + off) len = None \<longleftrightarrow> (\<exists>i < n. page_entry pt (r + i * PAGE_SIZE) = None)"
proof -
  have "fetch ram pt (r + off) len = None \<longleftrightarrow> (\<exists>j < len. page_entry pt (r + (off + j)) = None)"
  proof -
    have "(\<exists>a \<in> set [r + off ..< r + off + len]. Q a) \<longleftrightarrow> (\<exists>j < len. Q (r + (off + j)))" for Q
    proof
      assume "\<exists>a \<in> set [r + off ..< r + off + len]. Q a"
      then obtain a where "r + off \<le> a" "a < r + off + len" "Q a" by auto
      then show "\<exists>j < len. Q (r + (off + j))" by (intro exI [of _ "a - (r + off)"]) auto
    qed auto
    moreover have "fetch ram pt (r + off) len = None \<longleftrightarrow>
        (\<exists>a \<in> set [r + off ..< r + off + len]. page_entry pt a = None)"
      unfolding fetch_def those_map_Some vread_def by (simp del: set_upt not_None_eq)
    ultimately show ?thesis by simp
  qed
  also have "\<dots> \<longleftrightarrow> (\<exists>i < n. page_entry pt (r + i * PAGE_SIZE) = None)"
  proof
    assume "\<exists>j < len. page_entry pt (r + (off + j)) = None"
    then obtain j where "j < len" "page_entry pt (r + (off + j)) = None" by blast
    then show "\<exists>i < n. page_entry pt (r + i * PAGE_SIZE) = None"
      using page_entry_area [OF r, of pt "off + j"] inside by auto
  next
    assume "\<exists>i < n. page_entry pt (r + i * PAGE_SIZE) = None"
    then obtain i where i: "i < n" "page_entry pt (r + i * PAGE_SIZE) = None" by blast
    from hit [OF i(1)] obtain j where "j < len" "(off + j) div PAGE_SIZE = i" by blast
    then show "\<exists>j < len. page_entry pt (r + (off + j)) = None"
      using page_entry_area [OF r, of pt "off + j"] i(2) by auto
  qed
  finally show ?thesis .
qed

lemma fetch_remapped:
  assumes r: "PAGE_SIZE dvd r" and s: "PAGE_SIZE dvd s"
    and inside: "\<And>j. j < len \<Longrightarrow> (off + j) div PAGE_SIZE < n"
    and same: "\<And>i. i < n \<Longrightarrow> space pm (page_key (s + i * PAGE_SIZE)) =
      map_option (\<lambda>(f, _). (f, fl)) (page_entry pt (r + i * PAGE_SIZE))"
  shows "fetch ram pm (s + off) len = fetch ram pt (r + off) len"
proof (rule fetch_eqI)
  fix j assume "j < len"
  let ?q = "off + j"
  have "page_entry pm (s + ?q) = map_option (\<lambda>(f, _). (f, fl)) (page_entry pt (r + ?q))"
    using same [OF inside [OF \<open>j < len\<close>]] page_entry_area [OF s, of pm ?q] page_entry_area [OF r, of pt ?q]
    by (simp only: page_entry_space)
  moreover have "(s + ?q) mod PAGE_SIZE = (r + ?q) mod PAGE_SIZE"
    unfolding area_addr(2) [OF s] area_addr(2) [OF r] ..
  ultimately show "vread ram pm (s + off + j) = vread ram pt (r + off + j)"
    by (cases "page_entry pt (r + ?q)") (auto simp: vread_def add.assoc)
qed

lemma va_allocate_bounds:
  assumes "va_inv fl" and "va_space fl \<subseteq> {START_ADDR ..< END_ADDR}"
    and "va_allocate n fl = Some (s, fl')" and "0 < n"
  shows "PAGE_SIZE dvd s" and "START_ADDR \<le> s" and "s + n * PAGE_SIZE \<le> END_ADDR"
proof -
  note al = va_allocate_correct [OF assms(1,3)]
  show "PAGE_SIZE dvd s" using al by simp
  have pos: "0 < n * PAGE_SIZE" using assms(4) page_pos by simp
  then have "s \<in> chunk PAGE_SIZE s n" "s + n * PAGE_SIZE - 1 \<in> chunk PAGE_SIZE s n"
    unfolding chunk_def atLeastLessThan_iff by linarith+
  then have "s \<in> {START_ADDR ..< END_ADDR}" "s + n * PAGE_SIZE - 1 \<in> {START_ADDR ..< END_ADDR}"
    using al assms(2) by blast+
  then show "START_ADDR \<le> s" "s + n * PAGE_SIZE \<le> END_ADDR" using pos by auto
qed

text \<open>The slice of a range: the address and the pages of the area, when all pages are mapped.\<close>

lemma memory_slice_ok:
  assumes x: "ext_ok x" and p: "proc_inv p" and m: "mem_inv m"
    and len: "0 < len" and top: "ptr + len < 2 ^ 47"
    and room: "slice_room ptr len m"
  obtains kpm start n fl fl' where "0 < n" "va_allocate n (ms_free_list m) = Some (start, fl)"
    "va_free start n fl = Some fl'" "va_inv fl'" "va_space fl' = va_space (ms_free_list m)"
    "pt_inv kpm" "\<And>k. k \<notin> page_key ` {START_ADDR ..< END_ADDR} \<Longrightarrow> space kpm k = space (ms_page_map m) k"
    "memory_slice_flags x flags p ptr len m =
      (if fetch (ms_ram m) (p_page_table p) ptr len = None
       then Some (None, m\<lparr>ms_page_map := kpm, ms_free_list := fl'\<rparr>)
       else Some (Some (start, n, start + (ptr - align_down ptr)),
                  m\<lparr>ms_page_map := kpm, ms_free_list := fl\<rparr>))"
    "fetch (ms_ram m) (p_page_table p) ptr len \<noteq> None \<Longrightarrow>
      fetch ram kpm (start + (ptr - align_down ptr)) len = fetch ram (p_page_table p) ptr len"
proof -
  let ?pt = "p_page_table p" and ?r = "align_down ptr"
  have pt: "pt_inv ?pt" and pp: "pm_phys_addr ?pt < 2 ^ 46" using p by (auto simp: proc_inv_def)
  have kpm: "pt_inv (ms_page_map m)" and va: "va_inv (ms_free_list m)"
    and sp: "va_space (ms_free_list m) \<subseteq> {START_ADDR ..< END_ADDR}" using m by (auto simp: mem_inv_def)
  obtain e where e: "align_up (ptr + len) = Some e" "e \<le> 2 ^ 47" "0 < (e - ?r) div PAGE_SIZE"
      "?r + (e - ?r) div PAGE_SIZE * PAGE_SIZE = e"
    and inside: "\<And>j. j < len \<Longrightarrow> (ptr - ?r + j) div PAGE_SIZE < (e - ?r) div PAGE_SIZE"
    and hit: "\<And>i. i < (e - ?r) div PAGE_SIZE \<Longrightarrow> \<exists>j < len. (ptr - ?r + j) div PAGE_SIZE = i"
    using range_pages [OF len top] by metis
  define n where "n = (e - ?r) div PAGE_SIZE"
  note inside = inside [folded n_def] and hit = hit [folded n_def]
  obtain start fl where al: "va_allocate n (ms_free_list m) = Some (start, fl)"
    using room e(1) by (auto simp: n_def slice_room_def)
  have n: "0 < n" using e(3) by (simp add: n_def)
  note b = va_allocate_bounds [OF va sp al n]
  have END: "END_ADDR < 2 ^ 47" by (simp add: END_ADDR_def)
  have rd: "PAGE_SIZE dvd ?r" and rle: "?r + (ptr - ?r) = ptr" by (simp_all add: align_down_def)
  have lim: "?r + i * PAGE_SIZE < 2 ^ 47" "start + i * PAGE_SIZE < END_ADDR" if "i \<in> set [0 ..< n]" for i
  proof -
    from that page_pos have "i * PAGE_SIZE < n * PAGE_SIZE" by simp
    then show "?r + i * PAGE_SIZE < 2 ^ 47" "start + i * PAGE_SIZE < END_ADDR"
      using e(2,4) b(3) unfolding n_def by linarith+
  qed
  obtain c kpm' where sl: "slice_pages x flags ?pt ?r start [0 ..< n] (ms_page_map m) = Some (c, kpm')"
    and kpm': "pt_inv kpm'" and c: "c \<longleftrightarrow> (\<forall>i \<in> set [0 ..< n]. page_entry ?pt (?r + i * PAGE_SIZE) \<noteq> None)"
    and others: "\<forall>k. k \<notin> (\<lambda>i. page_key (start + i * PAGE_SIZE)) ` set [0 ..< n] \<longrightarrow>
      space kpm' k = space (ms_page_map m) k"
    and mapped: "c \<longrightarrow> (\<forall>i \<in> set [0 ..< n]. space kpm' (page_key (start + i * PAGE_SIZE)) =
       map_option (\<lambda>(f, _). (f, insert HUGE_PAGE flags)) (page_entry ?pt (?r + i * PAGE_SIZE)))"
    using slice_pages_ok [OF x pt kpm b(1) lim(1) less_trans [OF lim(2) END] distinct_upt, where flags = flags]
    by blast
  have c': "c \<longleftrightarrow> fetch (ms_ram m) ?pt ptr len \<noteq> None"
    using fetch_defined_iff [OF rd inside hit, of "ms_ram m" ?pt] unfolding rle c by auto
  obtain fl' where fr: "va_free start n fl = Some fl'" "va_inv fl'" "va_space fl' = va_space (ms_free_list m)"
    using virt_alloc.alloc_free_roundtrip [OF va n al] by blast
  have off: "ptr - ?r < n * PAGE_SIZE" using inside [OF len] page_pos by (simp add: div_less_iff_less_mult)
  have bits: "phys_to_virt x (pm_phys_addr ?pt) = Some (HIGHER_HALF_START + pm_phys_addr ?pt)"
    "checked_u64 (ptr + len) = Some (ptr + len)"
    "virt_add x start (n * PAGE_SIZE) = Some (start + n * PAGE_SIZE)"
    "virt_add x start (ptr - ?r) = Some (start + (ptr - ?r))"
    using phys_to_virt_ok [OF x pp] top virt_add_ok [OF x] b(3) END off by (simp_all add: checked_u64_def)
  show thesis
  proof (rule that [OF n al fr kpm'])
    fix k assume k: "k \<notin> page_key ` {START_ADDR ..< END_ADDR}"
    have "start + i * PAGE_SIZE \<in> {START_ADDR ..< END_ADDR}" if "i \<in> set [0 ..< n]" for i
      using lim(2) [OF that] b(2) by simp
    then show "space kpm' k = space (ms_page_map m) k" using others k by blast
  next
    show "memory_slice_flags x flags p ptr len m =
      (if fetch (ms_ram m) ?pt ptr len = None
       then Some (None, m\<lparr>ms_page_map := kpm', ms_free_list := fl'\<rparr>)
       else Some (Some (start, n, start + (ptr - ?r)), m\<lparr>ms_page_map := kpm', ms_free_list := fl\<rparr>))"
      using sl e(1) al fr bits c' by (simp add: memory_slice_flags_def Let_def n_def [symmetric])
  next
    assume "fetch (ms_ram m) ?pt ptr len \<noteq> None"
    then show "fetch ram kpm' (start + (ptr - ?r)) len = fetch ram ?pt ptr len"
      using fetch_remapped [OF rd b(1) inside, where pm = kpm' and fl = "insert HUGE_PAGE flags" and pt = ?pt
          and ram = ram] mapped c'
      unfolding rle by simp
  qed
qed

text \<open>Reading a slice returns the bytes the process itself sees, and nothing when it sees a page
  fault. The kernel's own mappings and the free address space are as before.\<close>

lemma read_slice_ok:
  assumes x: "ext_ok x" and p: "proc_inv p" and m: "mem_inv m"
    and len: "0 < len" and top: "ptr + len < 2 ^ 47"
    and room: "slice_room ptr len m"
  shows "\<exists>m'. read_slice x p ptr len m = Some (fetch (ms_ram m) (p_page_table p) ptr len, m') \<and>
    mem_inv m' \<and> va_space (ms_free_list m') = va_space (ms_free_list m) \<and>
    ms_ram m' = ms_ram m \<and> ms_phys m' = ms_phys m \<and>
    (\<forall>k. k \<notin> page_key ` {START_ADDR ..< END_ADDR} \<longrightarrow>
      space (ms_page_map m') k = space (ms_page_map m) k)"
proof -
  obtain kpm start n fl fl' where "0 < n" "va_allocate n (ms_free_list m) = Some (start, fl)"
    "va_free start n fl = Some fl'" "va_inv fl'" "va_space fl' = va_space (ms_free_list m)" "pt_inv kpm"
    "\<And>k. k \<notin> page_key ` {START_ADDR ..< END_ADDR} \<Longrightarrow> space kpm k = space (ms_page_map m) k"
    "memory_slice_flags x {PRESENT} p ptr len m =
      (if fetch (ms_ram m) (p_page_table p) ptr len = None
       then Some (None, m\<lparr>ms_page_map := kpm, ms_free_list := fl'\<rparr>)
       else Some (Some (start, n, start + (ptr - align_down ptr)),
                  m\<lparr>ms_page_map := kpm, ms_free_list := fl\<rparr>))"
    "fetch (ms_ram m) (p_page_table p) ptr len \<noteq> None \<Longrightarrow>
      fetch (ms_ram m) kpm (start + (ptr - align_down ptr)) len = fetch (ms_ram m) (p_page_table p) ptr len"
    by (rule memory_slice_ok [OF assms, where flags = "{PRESENT}" and ram = "ms_ram m"]) (rule that)
  with m show ?thesis
    by (cases "fetch (ms_ram m) (p_page_table p) ptr len") (simp_all add: read_slice_def memory_slice_def mem_inv_def)
qed

subsection \<open>Facts about dynamic memory\<close>

definition proc_space :: "Process \<Rightarrow> nat \<times> nat \<times> nat \<Rightarrow> pt_entry" where
  "proc_space p = space (p_page_table p)"

text \<open>The frames of the process that are not dynamic memory: stack, program, page tables, shared
  kernel pages. The allocator does not hand them out while they are in use; \<open>J\<close> is the
  invariant of the allocator that says so.\<close>

definition fixed_frames :: "Process \<Rightarrow> nat set" where
  "fixed_frames p = {f. \<exists>k g. proc_space p k = Some (f, g) \<and> \<not> is_dynamic p f}"

definition avoids :: "'a Ext \<Rightarrow> nat set \<Rightarrow> ('a \<Rightarrow> bool) \<Rightarrow> bool" where
  "avoids x F J \<longleftrightarrow> (\<forall>sz al st q st'. J st \<longrightarrow> x_allocate x sz al st = Some (q, st') \<longrightarrow>
     q - HIGHER_HALF_START \<notin> F \<and> J st')"

definition dyn_page :: "Process \<Rightarrow> PtFlag set \<Rightarrow> nat \<times> nat \<times> nat \<Rightarrow> bool" where
  "dyn_page p flags k \<longleftrightarrow> (\<exists>f. proc_space p k = Some (f, insert HUGE_PAGE flags) \<and> is_dynamic p f)"

lemma translate_proc: "proc_inv p \<Longrightarrow> translate (p_page_table p) a = Some (map_option fst (proc_space p (page_key a)))"
  by (simp add: proc_inv_def translate_inv page_entry_space proc_space_def)

lemma allocate_zeroed_ok:
  assumes x: "ext_ok x"
  shows "phys_allocate_zeroed x sz al m = (case x_allocate x sz al (ms_phys m) of
      None \<Rightarrow> Some (None, m)
    | Some (q, st) \<Rightarrow> Some (Some \<lparr>al_start = q - HIGHER_HALF_START, al_size = sz, al_align = al\<rparr>,
        m\<lparr>ms_phys := st, ms_ram := ram_fill (ms_ram m) (q - HIGHER_HALF_START) sz 0\<rparr>))"
    and "x_allocate x sz al (ms_phys m) = Some (q, st) \<Longrightarrow>
      0 < q - HIGHER_HALF_START \<and> q - HIGHER_HALF_START < 2 ^ 52 \<and> (0 < sz \<longrightarrow> q - HIGHER_HALF_START < 2 ^ 46)"
proof -
  have b: "0 < q - HIGHER_HALF_START \<and> q - HIGHER_HALF_START < 2 ^ 52 \<and> HIGHER_HALF_START \<le> q \<and>
      (0 < sz \<longrightarrow> q - HIGHER_HALF_START < 2 ^ 46)"
    if "x_allocate x sz al (ms_phys m) = Some (q, st)" for q st
    using ext_okD(2) [OF x that] by auto
  then show "x_allocate x sz al (ms_phys m) = Some (q, st) \<Longrightarrow>
      0 < q - HIGHER_HALF_START \<and> q - HIGHER_HALF_START < 2 ^ 52 \<and> (0 < sz \<longrightarrow> q - HIGHER_HALF_START < 2 ^ 46)"
    by blast
  show "phys_allocate_zeroed x sz al m = (case x_allocate x sz al (ms_phys m) of
      None \<Rightarrow> Some (None, m)
    | Some (q, st) \<Rightarrow> Some (Some \<lparr>al_start = q - HIGHER_HALF_START, al_size = sz, al_align = al\<rparr>,
        m\<lparr>ms_phys := st, ms_ram := ram_fill (ms_ram m) (q - HIGHER_HALF_START) sz 0\<rparr>))"
    using b by (auto simp: phys_allocate_zeroed_def undo_offset_ptr_def checked_sub_def to_allocation_def
        phys_addr_def split: option.split)
qed

text \<open>One page: either an error and no change, or the page is mapped to a dynamic frame. A frame
  that becomes dynamic comes from the allocator.\<close>

lemma alloc_page_ok:
  assumes x: "ext_ok x" and p: "proc_inv p" and page: "page mod PAGE_SIZE = 0"
  obtains r p' m' where "alloc_page x flags page p m = Some (r, p', m')" "proc_inv p'"
    "\<And>f. is_dynamic p f \<Longrightarrow> is_dynamic p' f"
    "\<And>f. is_dynamic p' f \<Longrightarrow> is_dynamic p f \<or>
      (\<exists>q. x_allocate x PAGE_SIZE PAGE_SIZE (ms_phys m) = Some (q, ms_phys m') \<and> f = q - HIGHER_HALF_START)"
    "ms_phys m' = ms_phys m \<or> (\<exists>q. x_allocate x PAGE_SIZE PAGE_SIZE (ms_phys m) = Some (q, ms_phys m'))"
    "r \<noteq> Inr () \<Longrightarrow> p' = p"
    "r = Inr () \<Longrightarrow> dyn_page p' flags (page_key page) \<and>
      (\<forall>f g. proc_space p (page_key page) = Some (f, g) \<longrightarrow> is_dynamic p f \<and> proc_space p' (page_key page) = Some (f, insert HUGE_PAGE flags))"
    "\<And>k. k \<noteq> page_key page \<Longrightarrow> proc_space p' k = proc_space p k"
proof (cases "proc_space p (page_key page)")
  case None
  show thesis
  proof (cases "x_allocate x PAGE_SIZE PAGE_SIZE (ms_phys m)")
    case None2: None
    show thesis
      by (rule that [of "Inl ec_out_of_memory" p m])
        (use None None2 p in \<open>simp_all add: alloc_page_def translate_proc allocate_zeroed_ok(1) [OF x]\<close>)
  next
    case (Some r)
    obtain q st where q: "x_allocate x PAGE_SIZE PAGE_SIZE (ms_phys m) = Some (q, st)" using Some by (cases r) auto
    let ?f = "q - HIGHER_HALF_START"
    let ?al = "\<lparr>al_start = ?f, al_size = PAGE_SIZE, al_align = PAGE_SIZE\<rparr>"
    let ?p = "p\<lparr>p_page_table := map_to (p_page_table p) page ?f flags, p_dynamic_memory := p_dynamic_memory p @ [?al]\<rparr>"
    let ?m = "m\<lparr>ms_phys := st, ms_ram := ram_fill (ms_ram m) ?f PAGE_SIZE 0\<rparr>"
    have b: "0 < ?f" "?f < 2 ^ 46" using allocate_zeroed_ok(2) [OF x q] page_pos by auto
    have mp: "pt_inv (p_page_table p)" using p by (simp add: proc_inv_def)
    note mt = map_to_refines [OF mp, of page ?f flags]
    show thesis
      by (rule that [of "Inr ()" ?p ?m])
        (use None q p b page mt in \<open>auto simp: alloc_page_def translate_proc allocate_zeroed_ok(1) [OF x]
           proc_inv_def proc_space_def is_dynamic_def dyn_page_def\<close>)
  qed
next
  case (Some e)
  obtain f g where e: "e = (f, g)" by (cases e)
  have mp: "pt_inv (p_page_table p)" using p by (simp add: proc_inv_def)
  note mt = map_to_refines [OF mp, of page f flags]
  show thesis
  proof (cases "is_dynamic p f")
    case False
    show thesis
      by (rule that [of "Inl ec_mmap_permission_error" p m])
        (use Some e p False in \<open>simp_all add: alloc_page_def translate_proc\<close>)
  next
    case True
    let ?p = "p\<lparr>p_page_table := map_to (p_page_table p) page f flags\<rparr>"
    show thesis
      by (rule that [of "Inr ()" ?p m])
        (use Some e p True page mt in \<open>auto simp: alloc_page_def translate_proc proc_inv_def proc_space_def
           is_dynamic_def dyn_page_def\<close>)
  qed
qed

lemma alloc_pages_ok:
  assumes x: "ext_ok x" and area: "PAGE_SIZE dvd area" and av: "avoids x F J"
    and p: "proc_inv p" and J: "J (ms_phys m)" and F: "\<And>f. f \<in> F \<Longrightarrow> \<not> is_dynamic p f"
    and lim: "\<And>i. i \<in> set idx \<Longrightarrow> area + i * PAGE_SIZE < 2 ^ 47"
  shows "\<exists>r p' m'. alloc_pages x flags area idx p m = Some (r, p', m') \<and> proc_inv p' \<and>
    (\<forall>k. k \<notin> (\<lambda>i. page_key (area + i * PAGE_SIZE)) ` set idx \<longrightarrow> proc_space p' k = proc_space p k) \<and>
    (\<forall>k f g. proc_space p k = Some (f, g) \<longrightarrow> f \<in> F \<longrightarrow> proc_space p' k = Some (f, g)) \<and>
    (\<forall>k. dyn_page p flags k \<longrightarrow> dyn_page p' flags k) \<and>
    (r = Inr () \<longrightarrow> (\<forall>i \<in> set idx. dyn_page p' flags (page_key (area + i * PAGE_SIZE))))"
  using p J F lim
proof (induction idx arbitrary: p m)
  case (Cons i idx)
  let ?page = "area + i * PAGE_SIZE"
  have pg: "virt_add x area (i * PAGE_SIZE) = Some ?page" "?page mod PAGE_SIZE = 0"
    using virt_add_ok [OF x] Cons.prems(4) [of i] area by auto
  obtain r p1 m1 where s: "alloc_page x flags ?page p m = Some (r, p1, m1)" "proc_inv p1"
    "\<And>f. is_dynamic p f \<Longrightarrow> is_dynamic p1 f"
    "\<And>f. is_dynamic p1 f \<Longrightarrow> is_dynamic p f \<or>
      (\<exists>q. x_allocate x PAGE_SIZE PAGE_SIZE (ms_phys m) = Some (q, ms_phys m1) \<and> f = q - HIGHER_HALF_START)"
    "ms_phys m1 = ms_phys m \<or> (\<exists>q. x_allocate x PAGE_SIZE PAGE_SIZE (ms_phys m) = Some (q, ms_phys m1))"
    "r \<noteq> Inr () \<Longrightarrow> p1 = p"
    "r = Inr () \<Longrightarrow> dyn_page p1 flags (page_key ?page) \<and> (\<forall>f g. proc_space p (page_key ?page) = Some (f, g) \<longrightarrow>
       is_dynamic p f \<and> proc_space p1 (page_key ?page) = Some (f, insert HUGE_PAGE flags))"
    "\<And>k. k \<noteq> page_key ?page \<Longrightarrow> proc_space p1 k = proc_space p k"
    by (rule alloc_page_ok [OF x Cons.prems(1) pg(2), where flags = flags and m = m]) blast
  have J1: "J (ms_phys m1)" using s(5) Cons.prems(2) av unfolding avoids_def by metis
  have F1: "\<not> is_dynamic p1 f" if "f \<in> F" for f
    using s(4) [of f] Cons.prems(2) Cons.prems(3) [OF that] that av unfolding avoids_def by metis
  have keepF: "proc_space p1 k = Some (f, g)" if "proc_space p k = Some (f, g)" "f \<in> F" for k f g
    using that s(6,7,8) Cons.prems(3) by (cases "r = Inr ()") (cases "k = page_key ?page", auto)
  have keepD: "dyn_page p1 flags k" if "dyn_page p flags k" for k
    using that s(3,6,7,8) unfolding dyn_page_def
    by (cases "r = Inr ()"; cases "k = page_key ?page") (auto simp: dyn_page_def)
  show ?case
  proof (cases r)
    case (Inl e)
    then show ?thesis using s(1,6) pg(1) Cons.prems(1) by simp
  next
    case (Inr u)
    then have r: "r = Inr ()" by simp
    have "\<exists>r p' m'. alloc_pages x flags area idx p1 m1 = Some (r, p', m') \<and> proc_inv p' \<and>
      (\<forall>k. k \<notin> (\<lambda>i. page_key (area + i * PAGE_SIZE)) ` set idx \<longrightarrow> proc_space p' k = proc_space p1 k) \<and>
      (\<forall>k f g. proc_space p1 k = Some (f, g) \<longrightarrow> f \<in> F \<longrightarrow> proc_space p' k = Some (f, g)) \<and>
      (\<forall>k. dyn_page p1 flags k \<longrightarrow> dyn_page p' flags k) \<and>
      (r = Inr () \<longrightarrow> (\<forall>i \<in> set idx. dyn_page p' flags (page_key (area + i * PAGE_SIZE))))"
      by (rule Cons.IH [OF s(2) J1]) (use F1 Cons.prems(4) in auto)
    then obtain r' p' m' where IH: "alloc_pages x flags area idx p1 m1 = Some (r', p', m')" "proc_inv p'"
      "\<And>k. k \<notin> (\<lambda>i. page_key (area + i * PAGE_SIZE)) ` set idx \<Longrightarrow> proc_space p' k = proc_space p1 k"
      "\<And>k f g. proc_space p1 k = Some (f, g) \<Longrightarrow> f \<in> F \<Longrightarrow> proc_space p' k = Some (f, g)"
      "\<And>k. dyn_page p1 flags k \<Longrightarrow> dyn_page p' flags k"
      "r' = Inr () \<Longrightarrow> (\<forall>i \<in> set idx. dyn_page p' flags (page_key (area + i * PAGE_SIZE)))"
      by blast
    show ?thesis
    proof (intro exI conjI allI impI)
      show "alloc_pages x flags area (i # idx) p m = Some (r', p', m')" using s(1) r pg(1) IH(1) by simp
      show "proc_space p' k = proc_space p k"
        if "k \<notin> (\<lambda>i. page_key (area + i * PAGE_SIZE)) ` set (i # idx)" for k
        using that IH(3) [of k] s(8) [of k] by simp
      show "\<forall>j \<in> set (i # idx). dyn_page p' flags (page_key (area + j * PAGE_SIZE))" if "r' = Inr ()"
        using IH(5,6) s(7) [OF r] that by simp
    qed (use IH(2,4,5) keepF keepD in blast)+
  qed
qed auto

lemma drop_allocations_ok:
  assumes "ext_ok x" and "\<And>al. al \<in> set als \<Longrightarrow> 0 < al_start al \<and> al_start al < 2 ^ 46"
  shows "\<exists>m'. drop_allocations x als m = Some m' \<and> ms_ram m' = ms_ram m \<and> ms_page_map m' = ms_page_map m \<and>
    ms_free_list m' = ms_free_list m"
  using assms(2)
proof (induction als arbitrary: m)
  case (Cons al als)
  let ?m = "m\<lparr>ms_phys := x_deallocate x (HIGHER_HALF_START + al_start al) (al_size al) (al_align al) (ms_phys m)\<rparr>"
  have "drop_allocation x al m = Some ?m"
    using Cons.prems [of al] phys_to_virt_ok [OF assms(1), of "al_start al"]
    by (simp add: drop_allocation_def phys_deallocate_def)
  moreover have "\<exists>m'. drop_allocations x als ?m = Some m' \<and> ms_ram m' = ms_ram ?m \<and>
      ms_page_map m' = ms_page_map ?m \<and> ms_free_list m' = ms_free_list ?m"
    by (rule Cons.IH) (use Cons.prems in simp)
  ultimately show ?case by (simp add: drop_allocations_def)
qed (simp add: drop_allocations_def)

lemma dealloc_page_ok:
  assumes x: "ext_ok x" and p: "proc_inv p" and page: "page mod PAGE_SIZE = 0"
  obtains r p' m' where "dealloc_page x page p m = Some (r, p', m')" "proc_inv p'"
    "\<And>f. is_dynamic p' f \<Longrightarrow> is_dynamic p f" "r \<noteq> Inr () \<Longrightarrow> proc_space p' = proc_space p"
    "r = Inr () \<Longrightarrow> proc_space p' = (proc_space p)(page_key page := None) \<and>
      (\<forall>f g. proc_space p (page_key page) = Some (f, g) \<longrightarrow> is_dynamic p f)"
proof (cases "proc_space p (page_key page)")
  case None
  then have "proc_space p = (proc_space p)(page_key page := None)" by auto
  then show thesis
    by (intro that [of "Inr ()" p m]) (use None p in \<open>simp_all add: dealloc_page_def translate_proc\<close>)
next
  case (Some e)
  obtain f g where e: "e = (f, g)" by (cases e)
  let ?dr = "filter (\<lambda>b. al_start b = f) (p_dynamic_memory p)"
  let ?p = "p\<lparr>p_dynamic_memory := filter (\<lambda>b. al_start b \<noteq> f) (p_dynamic_memory p)\<rparr>"
  have mp: "pt_inv (p_page_table p)" using p by (simp add: proc_inv_def)
  obtain m' where m': "drop_allocations x ?dr m = Some m'"
    using drop_allocations_ok [OF x, of ?dr m] p by (auto simp: proc_inv_def)
  have inv: "proc_inv ?p" using p by (auto simp: proc_inv_def)
  have dyn: "is_dynamic ?p h \<Longrightarrow> is_dynamic p h" for h by (auto simp: is_dynamic_def)
  show thesis
  proof (cases "?dr = []")
    case True
    show thesis
      by (rule that [of "Inl ec_mmap_permission_error" ?p m'])
        (use Some e m' True inv dyn p in \<open>simp_all add: dealloc_page_def translate_proc proc_space_def Let_def\<close>)
  next
    case False
    have df: "is_dynamic p f" using False by (auto simp: is_dynamic_def filter_empty_conv)
    obtain pm where pm: "unmap (p_page_table p) page = Some pm"
      using unmap_defined [of "p_page_table p" page] Some by (auto simp: page_entry_space proc_space_def)
    note um = unmap_refines [OF mp pm]
    have inv': "proc_inv (?p\<lparr>p_page_table := pm\<rparr>)" using inv um by (simp add: proc_inv_def)
    show thesis
      by (rule that [of "Inr ()" "?p\<lparr>p_page_table := pm\<rparr>" m'])
        (use Some e m' False inv' dyn p page pm um df in
         \<open>auto simp: dealloc_page_def translate_proc proc_space_def is_dynamic_def Let_def\<close>)
  qed
qed

lemma dealloc_pages_ok:
  assumes x: "ext_ok x" and area: "PAGE_SIZE dvd area" and p: "proc_inv p"
    and lim: "\<And>i. i \<in> set idx \<Longrightarrow> area + i * PAGE_SIZE < 2 ^ 47"
  shows "\<exists>r p' m'. dealloc_pages x area idx p m = Some (r, p', m') \<and> proc_inv p' \<and>
    (\<forall>f. is_dynamic p' f \<longrightarrow> is_dynamic p f) \<and>
    (\<forall>k. proc_space p' k = proc_space p k \<or> proc_space p' k = None \<and>
      k \<in> (\<lambda>i. page_key (area + i * PAGE_SIZE)) ` set idx \<and> (\<exists>f g. proc_space p k = Some (f, g) \<and> is_dynamic p f)) \<and>
    (r = Inr () \<longrightarrow> (\<forall>i \<in> set idx. proc_space p' (page_key (area + i * PAGE_SIZE)) = None))"
  using p lim
proof (induction idx arbitrary: p m)
  case (Cons i idx)
  let ?page = "area + i * PAGE_SIZE"
  have pg: "virt_add x area (i * PAGE_SIZE) = Some ?page" "?page mod PAGE_SIZE = 0"
    using virt_add_ok [OF x] Cons.prems(2) [of i] area by auto
  obtain r p1 m1 where s: "dealloc_page x ?page p m = Some (r, p1, m1)" "proc_inv p1"
    "\<And>f. is_dynamic p1 f \<Longrightarrow> is_dynamic p f" "r \<noteq> Inr () \<Longrightarrow> proc_space p1 = proc_space p"
    "r = Inr () \<Longrightarrow> proc_space p1 = (proc_space p)(page_key ?page := None) \<and>
      (\<forall>f g. proc_space p (page_key ?page) = Some (f, g) \<longrightarrow> is_dynamic p f)"
    by (rule dealloc_page_ok [OF x Cons.prems(1) pg(2), where m = m]) blast
  show ?case
  proof (cases r)
    case (Inl e)
    then show ?thesis using s pg(1) by (intro exI [of _ r] exI [of _ p1] exI [of _ m1]) auto
  next
    case (Inr u)
    then have r: "r = Inr ()" by simp
    have "\<exists>r p' m'. dealloc_pages x area idx p1 m1 = Some (r, p', m') \<and> proc_inv p' \<and>
      (\<forall>f. is_dynamic p' f \<longrightarrow> is_dynamic p1 f) \<and>
      (\<forall>k. proc_space p' k = proc_space p1 k \<or> proc_space p' k = None \<and>
        k \<in> (\<lambda>i. page_key (area + i * PAGE_SIZE)) ` set idx \<and> (\<exists>f g. proc_space p1 k = Some (f, g) \<and> is_dynamic p1 f)) \<and>
      (r = Inr () \<longrightarrow> (\<forall>i \<in> set idx. proc_space p' (page_key (area + i * PAGE_SIZE)) = None))"
      by (rule Cons.IH [OF s(2)]) (use Cons.prems(2) in simp)
    then obtain r' p' m' where IH: "dealloc_pages x area idx p1 m1 = Some (r', p', m')" "proc_inv p'"
      "\<And>f. is_dynamic p' f \<Longrightarrow> is_dynamic p1 f"
      "\<And>k. proc_space p' k = proc_space p1 k \<or> proc_space p' k = None \<and>
        k \<in> (\<lambda>i. page_key (area + i * PAGE_SIZE)) ` set idx \<and> (\<exists>f g. proc_space p1 k = Some (f, g) \<and> is_dynamic p1 f)"
      "r' = Inr () \<Longrightarrow> (\<forall>i \<in> set idx. proc_space p' (page_key (area + i * PAGE_SIZE)) = None)"
      by blast
    have here: "proc_space p' (page_key ?page) = None" using IH(4) [of "page_key ?page"] s(5) [OF r] by auto
    show ?thesis
    proof (intro exI conjI allI impI)
      show "dealloc_pages x area (i # idx) p m = Some (r', p', m')" using s(1) r pg(1) IH(1) by simp
      show "proc_space p' k = proc_space p k \<or> proc_space p' k = None \<and>
        k \<in> (\<lambda>i. page_key (area + i * PAGE_SIZE)) ` set (i # idx) \<and>
        (\<exists>f g. proc_space p k = Some (f, g) \<and> is_dynamic p f)" for k
        using IH(4) [of k] s(3) s(5) [OF r] here
        by (cases "k = page_key ?page"; cases "proc_space p k") auto
    qed (use IH s here in auto)
  qed
qed auto

lemma range_keys:
  assumes "PAGE_SIZE dvd area" and "PAGE_SIZE dvd sz"
  shows "(\<lambda>i. page_key (area + i * PAGE_SIZE)) ` set [0 ..< sz div PAGE_SIZE] = page_key ` {area ..< area + sz}"
proof (intro equalityI subsetI)
  fix k assume "k \<in> (\<lambda>i. page_key (area + i * PAGE_SIZE)) ` set [0 ..< sz div PAGE_SIZE]"
  then obtain i where i: "i < sz div PAGE_SIZE" "k = page_key (area + i * PAGE_SIZE)" by auto
  then have "i * PAGE_SIZE < sz" using assms(2) page_pos
    by (metis dvd_div_mult_self mult_less_cancel2)
  then show "k \<in> page_key ` {area ..< area + sz}" using i(2) by auto
next
  fix k assume "k \<in> page_key ` {area ..< area + sz}"
  then obtain a where "k = page_key a" "area \<le> a" "a < area + sz" by auto
  then obtain q where q: "k = page_key (area + q)" "q < sz" by (metis le_Suc_ex nat_add_left_cancel_less)
  have "q div PAGE_SIZE < sz div PAGE_SIZE"
    using q(2) assms(2) page_pos by (simp add: div_less_iff_less_mult)
  then show "k \<in> (\<lambda>i. page_key (area + i * PAGE_SIZE)) ` set [0 ..< sz div PAGE_SIZE]"
    unfolding q(1) area_addr(1) [OF assms(1), of q] by simp
qed

lemma range_ball:
  assumes "PAGE_SIZE dvd area" and "PAGE_SIZE dvd sz"
  shows "(\<forall>i \<in> set [0 ..< sz div PAGE_SIZE]. Q (page_key (area + i * PAGE_SIZE))) \<longleftrightarrow>
    (\<forall>a \<in> {area ..< area + sz}. Q (page_key a))"
proof -
  have "(\<forall>k \<in> (\<lambda>i. page_key (area + i * PAGE_SIZE)) ` set [0 ..< sz div PAGE_SIZE]. Q k) \<longleftrightarrow>
      (\<forall>k \<in> page_key ` {area ..< area + sz}. Q k)" unfolding range_keys [OF assms] ..
  then show ?thesis by (simp del: set_upt)
qed

lemma range_limit:
  "PAGE_SIZE dvd sz \<Longrightarrow> area + sz < 2 ^ 47 \<Longrightarrow> i \<in> set [0 ..< sz div PAGE_SIZE] \<Longrightarrow>
     area + i * PAGE_SIZE < 2 ^ 47"
proof -
  assume "PAGE_SIZE dvd sz" "area + sz < 2 ^ 47" "i \<in> set [0 ..< sz div PAGE_SIZE]"
  then have "i * PAGE_SIZE \<le> sz" by (metis atLeastLessThan_iff dvd_div_mult_self less_imp_le mult_le_mono1 set_upt)
  then show "area + i * PAGE_SIZE < 2 ^ 47" using \<open>area + sz < 2 ^ 47\<close> by linarith
qed

subsection \<open>Properties\<close>


text \<open>A process with an empty stack and program, used to evaluate the properties.\<close>

definition demo_process :: Process where
  "demo_process = \<lparr>p_page_table = pm_init 0x20000000 0 (\<lambda>_ _. None), p_stack_pointer = 0x400000,
     p_stack_memory = \<lparr>al_start = 0x30000000, al_size = 0x400000, al_align = 0x200000\<rparr>,
     p_dynamic_memory = [], p_repeat_syscall = False,
     p_elf_image = \<lparr>ei_header = read_elf_header [], ei_sections = []\<rparr>, p_id = 1\<rparr>"

definition demo_mem :: "nat Mem" where
  "demo_mem = \<lparr>ms_page_map = pm_init 0x10000000 0x10000000 (\<lambda>_ _. None),
     ms_free_list = free_list_init, ms_ram = (\<lambda>a. word_of_nat a), ms_phys = 0x40000000\<rparr>"

lemma demo_inv: "proc_inv demo_process" "mem_inv demo_mem"
  "proc_space demo_process = [page_key 0 \<mapsto> (0x20000000, {PRESENT, WRITABLE, HUGE_PAGE})]"
proof -
  have "pm_phys_addr (pm_init 0x20000000 0 (\<lambda>_ _. None)) = 0x20000000"
    by (simp add: pm_init_def Let_def zero_table_def set_addr_def)
  then show "proc_inv demo_process" by (simp add: proc_inv_def demo_process_def pm_init_refines)
  show "mem_inv demo_mem"
    by (simp add: mem_inv_def demo_mem_def pm_init_refines va_inv_init) (simp add: va_space_def free_list_init_def bl_span_def)
  show "proc_space demo_process = [page_key 0 \<mapsto> (0x20000000, {PRESENT, WRITABLE, HUGE_PAGE})]"
    by (simp add: proc_space_def demo_process_def pm_init_refines)
qed


text \<open>C4: The kernel's view of process memory is the process's own view. For a non-empty range of
  the lower half, mapping the range into the kernel and reading it returns exactly the bytes the
  process sees at those addresses, and returns nothing when and only when the process itself has no
  page at one of them. The memory contents, the kernel's mappings outside the area for such slices
  and the free virtual address space are unchanged, so the kernel never panics or leaks address
  space here as long as a free block is large enough.\<close>

theorem process_slice_exact:
  assumes "ext_ok x" and "proc_inv p" and "mem_inv m" and "0 < len" and "ptr + len < 2 ^ 47"
    and "slice_room ptr len m"
  shows "\<exists>m'. read_slice x p ptr len m = Some (fetch (ms_ram m) (p_page_table p) ptr len, m') \<and>
    mem_inv m' \<and> va_space (ms_free_list m') = va_space (ms_free_list m) \<and>
    ms_ram m' = ms_ram m \<and> ms_phys m' = ms_phys m \<and>
    (\<forall>k. k \<notin> page_key ` {START_ADDR ..< END_ADDR} \<longrightarrow>
      space (ms_page_map m') k = space (ms_page_map m) k)"
  using assms by (rule read_slice_ok)

theorem process_slice_exact_witness:
  "\<exists>m'. read_slice bump demo_process 0x1234 2 demo_mem = Some (Some [0x34, 0x35], m') \<and> mem_inv m'"
proof -
  have f: "fetch (ms_ram demo_mem) (p_page_table demo_process) 0x1234 2 = Some [0x34, 0x35]"
  proof -
    have "page_entry (p_page_table demo_process) a = Some (0x20000000, {PRESENT, WRITABLE, HUGE_PAGE})"
      if "a < PAGE_SIZE" for a
    proof -
      have "page_key a = page_key 0" using that by (subst page_key_small) (simp_all add: PAGE_SIZE_def)
      then show ?thesis using demo_inv(3) by (simp add: page_entry_space proc_space_def)
    qed
    then show ?thesis
      by (simp add: fetch_def vread_def upt_rec [of "0x1234"] upt_rec [of "0x1235"] PAGE_SIZE_def demo_mem_def)
  qed
  have "slice_room 0x1234 2 demo_mem"
    by (simp add: slice_room_def align_up_def align_down_def checked_u64_def demo_mem_def free_list_init_def
        bl_size_pages_def bl_size_bytes_def checked_sub_def START_ADDR_def END_ADDR_def PAGE_SIZE_def)
  from process_slice_exact [OF bump_ok demo_inv(1,2) _ _ this] show ?thesis unfolding f by auto
qed

end
