(* ===== verification/ProcCreate.thy ===== *)
theory ProcCreate
  imports ProcMem
begin

text \<open>
  Creation of a process (\<open>create_process\<close> of \<open>src/multitasking/process.rs\<close>) and the way of
  its arguments: \<open>exec\<close> of \<open>libs/libd7/src/syscall.rs\<close> packs them, the system call of
  \<open>src/syscall/mod.rs\<close> unpacks them, \<open>create_process\<close> writes them to the new stack, and
  \<open>libs/libd7/src/env.rs\<close> reads them in the new process. A string is the list of its UTF-8 bytes.
  User code is compiled without overflow checks, so its pointer arithmetic wraps.
\<close>

subsection \<open>UTF-8\<close>

definition cont_byte :: "u8 \<Rightarrow> bool" where
  "cont_byte b \<longleftrightarrow> 0x80 \<le> b \<and> b \<le> 0xBF"

text \<open>\<open>core::str::from_utf8\<close>: the well-formed sequences of one to four bytes.\<close>

fun utf8_valid :: "bytes \<Rightarrow> bool" where
  "utf8_valid [] = True"
| "utf8_valid (a # bs) =
     (if a \<le> 0x7F then utf8_valid bs
      else if 0xC2 \<le> a \<and> a \<le> 0xDF then
        (case bs of b # r \<Rightarrow> cont_byte b \<and> utf8_valid r | _ \<Rightarrow> False)
      else if 0xE0 \<le> a \<and> a \<le> 0xEF then
        (case bs of b # c # r \<Rightarrow> cont_byte b \<and> cont_byte c \<and> (a = 0xE0 \<longrightarrow> 0xA0 \<le> b) \<and>
             (a = 0xED \<longrightarrow> b \<le> 0x9F) \<and> utf8_valid r | _ \<Rightarrow> False)
      else if 0xF0 \<le> a \<and> a \<le> 0xF4 then
        (case bs of b # c # d # r \<Rightarrow> cont_byte b \<and> cont_byte c \<and> cont_byte d \<and>
             (a = 0xF0 \<longrightarrow> 0x90 \<le> b) \<and> (a = 0xF4 \<longrightarrow> b \<le> 0x8F) \<and> utf8_valid r | _ \<Rightarrow> False)
      else False)"

subsection \<open>The system call side\<close>

text \<open>The argument block that \<open>libd7::syscall::exec\<close> builds.\<close>

definition exec_args_raw :: "bytes list \<Rightarrow> bytes" where
  "exec_args_raw args = to_le 8 (length args) @ concat (map (\<lambda>a. to_le 8 (length a)) args) @ concat args"

text \<open>The macro \<open>try_str!\<close>: long strings panic, invalid ones are an error for the caller.\<close>

definition try_str :: "bytes \<Rightarrow> (SyscallErrorCode + bytes) option" where
  "try_str s = do {
     rassert (length s < 10000);
     Some (if utf8_valid s then Inr s else Inl ec_invalid_utf8)
   }"

definition exec_arg_len :: "bytes \<Rightarrow> nat \<Rightarrow> nat option" where
  "exec_arg_len s i = do {
     off \<leftarrow> checked_u64 ((1 + i) * 8);
     tail \<leftarrow> slice s off (length s);
     buf \<leftarrow> slice tail 0 8;
     Some (from_le buf)
   }"

fun exec_arg_loop :: "bytes \<Rightarrow> nat list \<Rightarrow> nat \<Rightarrow> bytes list \<Rightarrow> (SyscallErrorCode + bytes list) option" where
  "exec_arg_loop s [] cursor args = Some (Inr args)"
| "exec_arg_loop s (i # is) cursor args = do {
     len \<leftarrow> exec_arg_len s i;
     tail \<leftarrow> slice s cursor (length s);
     raw \<leftarrow> slice tail 0 len;
     r \<leftarrow> try_str raw;
     (case r of
        Inl e \<Rightarrow> Some (Inl e)
      | Inr a \<Rightarrow> do { cursor \<leftarrow> checked_u64 (cursor + len); exec_arg_loop s is cursor (args @ [a]) })
   }"

definition exec_args :: "bytes \<Rightarrow> (SyscallErrorCode + bytes list) option" where
  "exec_args s = do {
     buf \<leftarrow> slice s 0 8;
     let argc = from_le buf;
     n \<leftarrow> checked_u64 (1 + argc);
     cursor \<leftarrow> checked_u64 (n * 8);
     exec_arg_loop s [0 ..< argc] cursor []
   }"

subsection \<open>The new process\<close>

definition push_u64 :: "Allocation \<Rightarrow> nat \<times> 'a Mem \<Rightarrow> nat \<Rightarrow> (nat \<times> 'a Mem) option" where
  "push_u64 al s v = (case s of (tp, m) \<Rightarrow> do {
     tp \<leftarrow> checked_sub tp 8;
     m \<leftarrow> al_write m al tp (to_le 8 v);
     Some (tp, m)
   })"

definition push_u8 :: "Allocation \<Rightarrow> nat \<times> 'a Mem \<Rightarrow> u8 \<Rightarrow> (nat \<times> 'a Mem) option" where
  "push_u8 al s b = (case s of (tp, m) \<Rightarrow> do {
     tp \<leftarrow> checked_sub tp 1;
     m \<leftarrow> al_write m al tp [b];
     Some (tp, m)
   })"

lemma push_u8_top: "push_u8 al (tp, m) b = Some (tp', m') \<Longrightarrow> tp = Suc tp'"
  by (auto simp: push_u8_def panic_simps bind_eq_Some_conv)

function align_u64 :: "Allocation \<Rightarrow> nat \<times> 'a Mem \<Rightarrow> (nat \<times> 'a Mem) option" where
  "align_u64 al (tp, m) = (if tp mod 8 = 0 then Some (tp, m)
     else (case push_u8 al (tp, m) 0 of None \<Rightarrow> None | Some s \<Rightarrow> align_u64 al s))"
  by pat_completeness auto
termination
proof (relation "measure (\<lambda>(al, tp, m). tp)")
  fix al tp and m :: "'a Mem" and s
  assume "push_u8 al (tp, m) 0 = Some s"
  then show "((al, s), al, tp, m) \<in> measure (\<lambda>(al, tp, m). tp)"
    by (cases s) (auto dest: push_u8_top)
qed simp

declare align_u64.simps [simp del]

definition STACK_ITEMS_FIXED :: nat where "STACK_ITEMS_FIXED = 15 + 1 + 5"

definition next_multiple_of_8 :: "nat \<Rightarrow> nat" where
  "next_multiple_of_8 n = (if n mod 8 = 0 then n else n + (8 - n mod 8))"

definition args_size_in_memory :: "bytes list \<Rightarrow> nat" where
  "args_size_in_memory args = 8 + 8 * length args + next_multiple_of_8 (sum_list (map length args))"

text \<open>Filling of the stack: arguments, then the frame for \<open>iretq\<close>.\<close>

definition push_args :: "Allocation \<Rightarrow> bytes list \<Rightarrow> nat \<times> 'a Mem \<Rightarrow> (nat \<times> 'a Mem) option" where
  "push_args al args s = do {
     s \<leftarrow> push_u64 al s (length args);
     s \<leftarrow> foldM (\<lambda>s arg. push_u64 al s (length arg)) s args;
     s \<leftarrow> foldM (\<lambda>s arg. foldM (push_u8 al) s (rev arg)) s (rev args);
     align_u64 al s
   }"

definition populate_stack :: "Allocation \<Rightarrow> bytes list \<Rightarrow> nat \<Rightarrow> nat \<Rightarrow> 'a Mem \<Rightarrow> 'a Mem option" where
  "populate_stack al args process_stack_end entry m = do {
     s \<leftarrow> push_args al args (al_size al, m);
     s \<leftarrow> push_u64 al s 0;
     s \<leftarrow> push_u64 al s process_stack_end;
     s \<leftarrow> push_u64 al s 0x0202;
     s \<leftarrow> push_u64 al s 0x8;
     (_, m) \<leftarrow> push_u64 al s entry;
     Some m
   }"

definition map_checked :: "nat \<Rightarrow> nat \<Rightarrow> PtFlag set \<Rightarrow> PageMap \<Rightarrow> PageMap option" where
  "map_checked page frame flags pm = do {
     rassert (page mod PAGE_SIZE = 0);
     rassert (frame mod PAGE_SIZE = 0);
     Some (map_to pm page frame flags)
   }"

definition section_flags :: "ELFProgramHeader \<Rightarrow> PtFlag set option" where
  "section_flags ph = do {
     rassert (has_flag ph ELF_READABLE);
     Some ({PRESENT} \<union> (if has_flag ph ELF_EXECUTABLE then {} else {NO_EXECUTE})
       \<union> (if has_flag ph ELF_WRITABLE then {WRITABLE} else {}))
   }"

fun map_section :: "'a Ext \<Rightarrow> PtFlag set \<Rightarrow> nat \<Rightarrow> nat \<Rightarrow> Allocation list \<Rightarrow> PageMap \<Rightarrow> PageMap option" where
  "map_section x flags start i [] pm = Some pm"
| "map_section x flags start i (frame # frames) pm = do {
     page \<leftarrow> virt_add x start (PAGE_SIZE * i);
     pm \<leftarrow> map_checked page (al_start frame) flags pm;
     map_section x flags start (i + 1) frames pm
   }"

definition map_image :: "'a Ext \<Rightarrow> ElfImage \<Rightarrow> PageMap \<Rightarrow> PageMap option" where
  "map_image x elf pm = foldM (\<lambda>pm (ph, frames). do {
     rassert (ph_virtual_address ph \<ge> 0x400000);
     start \<leftarrow> x_virt_new x (ph_virtual_address ph);
     flags \<leftarrow> section_flags ph;
     map_section x flags start 0 frames pm
   }) pm (ei_sections elf)"

definition drop_image :: "'a Ext \<Rightarrow> ElfImage \<Rightarrow> 'a Mem \<Rightarrow> 'a Mem option" where
  "drop_image x elf m = drop_allocations x (concat (map snd (ei_sections elf))) m"

text \<open>The page tables of a process. \<open>raw\<close> is the previous content of the frame, read as entries;
  \<open>idt\<close> and \<open>common\<close> are the frames shared by all processes.\<close>

definition process_page_map :: "'a Ext \<Rightarrow> nat \<Rightarrow> nat \<Rightarrow> (nat \<Rightarrow> nat \<Rightarrow> pt_entry) \<Rightarrow> Allocation \<Rightarrow> Allocation
    \<Rightarrow> ElfImage \<Rightarrow> PageMap option" where
  "process_page_map x idt common raw pt_frame stack elf = do {
     pm_addr \<leftarrow> phys_to_virt x (al_start pt_frame);
     rassert (pm_addr mod PAGE_SIZE = 0);
     let pm = pm_init (al_start pt_frame) pm_addr raw;
     pm \<leftarrow> map_checked 0 idt {PRESENT, NO_EXECUTE, WRITABLE} pm;
     pm \<leftarrow> map_checked PROCESS_COMMON_CODE common {PRESENT} pm;
     pm \<leftarrow> foldM (\<lambda>pm i. map_checked (PROCESS_STACK + i * PAGE_SIZE) (al_start stack + i * PAGE_SIZE)
             {PRESENT, WRITABLE, NO_EXECUTE} pm) pm [0 ..< PROCESS_STACK_SIZE_PAGES];
     map_image x elf pm
   }"

definition create_process :: "'a Ext \<Rightarrow> nat \<Rightarrow> nat \<Rightarrow> (nat \<Rightarrow> nat \<Rightarrow> pt_entry) \<Rightarrow> pid \<Rightarrow> bytes list
    \<Rightarrow> ElfImage \<Rightarrow> 'a Mem \<Rightarrow> (Process option \<times> 'a Mem) option" where
  "create_process x idt common raw pid args elf m = do {
     let stack_size_bytes = PROCESS_STACK_SIZE_PAGES * PAGE_SIZE;
     (a, m) \<leftarrow> phys_allocate_zeroed x stack_size_bytes PAGE_SIZE m;
     (case a of
        None \<Rightarrow> do { m \<leftarrow> drop_image x elf m; Some (None, m) }
      | Some stack \<Rightarrow> do {
          process_stack_end \<leftarrow> checked_sub (PROCESS_STACK + stack_size_bytes) (args_size_in_memory args);
          process_init_rsp \<leftarrow> checked_sub process_stack_end (STACK_ITEMS_FIXED * 8);
          rassert (args_size_in_memory args + STACK_ITEMS_FIXED \<le> stack_size_bytes);
          m \<leftarrow> populate_stack stack args process_stack_end (eh_program_entry_pos (ei_header elf)) m;
          (a, m) \<leftarrow> phys_allocate x PAGE_SIZE PAGE_SIZE m;
          (case a of
             None \<Rightarrow> do { m \<leftarrow> drop_allocation x stack m; m \<leftarrow> drop_image x elf m; Some (None, m) }
           | Some pt_frame \<Rightarrow> do {
               pm \<leftarrow> process_page_map x idt common raw pt_frame stack elf;
               Some (Some \<lparr>p_page_table = pm, p_stack_pointer = process_init_rsp,
                 p_stack_memory = stack, p_dynamic_memory = [], p_repeat_syscall = False,
                 p_elf_image = elf, p_id = pid\<rparr>, m)
             })
        })
   }"

subsection \<open>The arguments in the new process\<close>

definition PROCESS_STACK_END :: nat where
  "PROCESS_STACK_END = PROCESS_STACK + PAGE_SIZE * PROCESS_STACK_SIZE_PAGES"

definition ptr_sub :: "nat \<Rightarrow> nat \<Rightarrow> nat" where
  "ptr_sub a n = (a + (2 ^ 64 - n mod 2 ^ 64)) mod 2 ^ 64"

definition load_u64 :: "(nat \<Rightarrow> nat \<Rightarrow> bytes option) \<Rightarrow> nat \<Rightarrow> nat option" where
  "load_u64 rd a = map_option from_le (rd a 8)"

definition env_argc :: "(nat \<Rightarrow> nat \<Rightarrow> bytes option) \<Rightarrow> nat option" where
  "env_argc rd = load_u64 rd (ptr_sub PROCESS_STACK_END 8)"

definition env_arg_len :: "(nat \<Rightarrow> nat \<Rightarrow> bytes option) \<Rightarrow> nat \<Rightarrow> nat option" where
  "env_arg_len rd i = load_u64 rd (ptr_sub (ptr_sub PROCESS_STACK_END 16) (8 * i))"

record Args =
  ar_index :: nat
  ar_ptr :: nat

definition env_args :: "(nat \<Rightarrow> nat \<Rightarrow> bytes option) \<Rightarrow> Args option" where
  "env_args rd = do {
     let cursor = ptr_sub PROCESS_STACK_END 8;
     argc \<leftarrow> load_u64 rd cursor;
     total \<leftarrow> foldM (\<lambda>t i. do {
         n \<leftarrow> load_u64 rd (ptr_sub cursor (8 * (i + 1)));
         Some ((t + n) mod 2 ^ 64) }) 0 [0 ..< argc];
     Some \<lparr>ar_index = 0, ar_ptr = ptr_sub (ptr_sub cursor (argc * 8)) total\<rparr>
   }"

text \<open>\<open>Iterator for Args\<close>: the inner \<open>None\<close> is the end of the iteration.\<close>

definition args_next :: "(nat \<Rightarrow> nat \<Rightarrow> bytes option) \<Rightarrow> Args \<Rightarrow> (bytes option \<times> Args) option" where
  "args_next rd it = do {
     argc \<leftarrow> env_argc rd;
     (if ar_index it \<ge> argc then Some (None, it)
      else do {
        arg_len \<leftarrow> env_arg_len rd (ar_index it);
        s \<leftarrow> rd (ar_ptr it) arg_len;
        rassert (utf8_valid s);
        Some (Some s, \<lparr>ar_index = ar_index it + 1, ar_ptr = (ar_ptr it + arg_len) mod 2 ^ 64\<rparr>)
      })
   }"

text \<open>Collecting the first \<open>n\<close> items.\<close>

fun args_take :: "(nat \<Rightarrow> nat \<Rightarrow> bytes option) \<Rightarrow> nat \<Rightarrow> Args \<Rightarrow> bytes list option" where
  "args_take rd 0 it = Some []"
| "args_take rd (Suc n) it = (case args_next rd it of
     None \<Rightarrow> None
   | Some (None, it) \<Rightarrow> Some []
   | Some (Some s, it) \<Rightarrow> map_option (Cons s) (args_take rd n it))"

subsection \<open>Facts: packing and unpacking\<close>

lemma concat_chunk:
  assumes "\<And>x. x \<in> set xs \<Longrightarrow> length (f x) = k" and "i < length xs"
  shows "take k (drop (i * k) (concat (map f xs) @ rest)) = f (xs ! i)"
  using assms
proof (induction xs arbitrary: i)
  case (Cons x xs)
  show ?case
  proof (cases i)
    case 0
    then show ?thesis using Cons.prems(1) [of x] by simp
  next
    case (Suc j)
    have "drop (Suc j * k) (f x @ ys) = drop (j * k) ys" for ys using Cons.prems(1) [of x] by simp
    then show ?thesis using Cons Suc by simp
  qed
qed simp

lemma length_concat_chunks: "length (concat (map (\<lambda>a. to_le 8 (f a)) xs)) = 8 * length xs"
  by (induction xs) simp_all

lemma concat_item:
  assumes "d < length xs"
  shows "take (length (xs ! d)) (drop (length (concat (take d xs))) (concat xs @ rest)) = xs ! d"
proof -
  have "concat xs = concat (take d xs) @ xs ! d @ concat (drop (Suc d) xs)"
    using id_take_nth_drop [OF assms] by (metis concat.simps(2) concat_append)
  then show ?thesis by simp
qed

lemma concat_take_Suc: "d < length xs \<Longrightarrow> concat (take (Suc d) xs) = concat (take d xs) @ xs ! d"
  by (simp add: take_Suc_conv_app_nth)

lemma length_item_le:
  "d < length xs \<Longrightarrow> length (concat (take d xs)) + length (xs ! d) \<le> length (concat xs)"
proof -
  assume d: "d < length xs"
  have "concat xs = concat (take (Suc d) xs) @ concat (drop (Suc d) xs)" by (metis append_take_drop_id concat_append)
  then show ?thesis using concat_take_Suc [OF d] by (metis le_add1 length_append)
qed

definition args_ok :: "bytes list \<Rightarrow> bool" where
  "args_ok args \<longleftrightarrow> (\<forall>a \<in> set args. utf8_valid a \<and> length a < 10000)"

lemma exec_arg_len_raw:
  assumes "i < length args" and "length (exec_args_raw args) < 2 ^ 64"
  shows "exec_arg_len (exec_args_raw args) i = Some (length (args ! i))"
proof -
  let ?L = "concat (map (\<lambda>a. to_le 8 (length a)) args)"
  have len: "length (exec_args_raw args) = 8 + 8 * length args + length (concat args)"
    by (simp add: exec_args_raw_def length_concat_chunks)
  have "drop ((1 + i) * 8) (exec_args_raw args) = drop (i * 8) (?L @ concat args)"
    by (simp add: exec_args_raw_def)
  then have "take 8 (drop ((1 + i) * 8) (exec_args_raw args)) = to_le 8 (length (args ! i))"
    using concat_chunk [of args "\<lambda>a. to_le 8 (length a)" 8 i "concat args"] assms(1) by simp
  moreover have "length (args ! i) < 256 ^ 8"
    using length_item_le [OF assms(1)] assms(2) len by simp
  ultimately show ?thesis
    using assms len by (simp add: exec_arg_len_def slice_def checked_u64_def)
qed

lemma exec_arg_loop_raw:
  assumes ok: "args_ok args" and small: "length (exec_args_raw args) < 2 ^ 64" and d: "d \<le> length args"
  shows "exec_arg_loop (exec_args_raw args) [d ..< length args]
    (8 + 8 * length args + length (concat (take d args))) (take d args) = Some (Inr args)"
  using d
proof (induction "length args - d" arbitrary: d)
  case (Suc k)
  then have d: "d < length args" by simp
  let ?s = "exec_args_raw args" and ?c = "8 + 8 * length args + length (concat (take d args))"
  have len: "length ?s = 8 + 8 * length args + length (concat args)"
    by (simp add: exec_args_raw_def length_concat_chunks)
  have drop: "drop ?c ?s = drop (length (concat (take d args))) (concat args)"
    by (simp add: exec_args_raw_def length_concat_chunks)
  have item: "take (length (args ! d)) (drop ?c ?s) = args ! d"
    unfolding drop using concat_item [OF d, of "[]"] by simp
  have le: "?c + length (args ! d) \<le> length ?s" using length_item_le [OF d] len by simp
  have ts: "try_str (args ! d) = Some (Inr (args ! d))"
    using ok d by (simp add: args_ok_def try_str_def)
  have upt: "[d ..< length args] = d # [Suc d ..< length args]" using d by (simp add: upt_conv_Cons)
  have "exec_arg_loop ?s [Suc d ..< length args] (?c + length (args ! d)) (take d args @ [args ! d]) = Some (Inr args)"
    using Suc.hyps(1) [of "Suc d"] Suc.hyps(2) d by (simp add: take_Suc_conv_app_nth algebra_simps)
  then show ?case unfolding upt
    using exec_arg_len_raw [OF d small] item le small ts
    by (simp add: slice_def checked_u64_def)
qed simp

lemma exec_args_raw_ok:
  assumes "args_ok args" and "length (exec_args_raw args) < 2 ^ 64"
  shows "exec_args (exec_args_raw args) = Some (Inr args)"
proof -
  have len: "length (exec_args_raw args) = 8 + 8 * length args + length (concat args)"
    by (simp add: exec_args_raw_def length_concat_chunks)
  have "take 8 (exec_args_raw args) = to_le 8 (length args)" by (simp add: exec_args_raw_def)
  then show ?thesis
    using exec_arg_loop_raw [OF assms, of 0] len assms(2)
    by (simp add: exec_args_def slice_def checked_u64_def Let_def mult.commute)
qed

subsection \<open>Facts: the stack of the new process\<close>

text \<open>The state of the filling when the bytes \<open>bs\<close> are on the stack.\<close>

definition filled :: "'a Mem \<Rightarrow> Allocation \<Rightarrow> bytes \<Rightarrow> nat \<times> 'a Mem" where
  "filled m al bs = (al_size al - length bs,
     m\<lparr>ms_ram := ram_write (ms_ram m) (al_start al + (al_size al - length bs)) bs\<rparr>)"

lemma ram_write_append:
  "ram_write (ram_write ram (a + length xs) ys) a xs = ram_write ram a (xs @ ys)"
  by (auto simp: ram_write_def fun_eq_iff nth_append)

lemma ram_write_Nil [simp]: "ram_write ram a [] = ram"
  by (auto simp: ram_write_def fun_eq_iff)

lemma filled_Nil [simp]: "filled m al [] = (al_size al, m)"
  by (simp add: filled_def)

lemma push_bytes:
  assumes "length xs + length bs \<le> al_size al"
  shows "al_write (snd (filled m al bs)) al (al_size al - length bs - length xs) xs =
    Some (snd (filled m al (xs @ bs)))"
proof -
  define t where "t = al_size al - length bs - length xs"
  have e1: "al_start al + (al_size al - length bs) = (al_start al + t) + length xs"
    and e2: "al_size al - length (xs @ bs) = t" and e3: "t + length xs \<le> al_size al"
    using assms by (simp_all add: t_def)
  show ?thesis unfolding t_def [symmetric] al_write_def filled_def snd_conv e1 e2
    using e3 by (simp add: ram_write_append)
qed

lemma push_u64_filled:
  assumes "8 + length bs \<le> al_size al"
  shows "push_u64 al (filled m al bs) v = Some (filled m al (to_le 8 v @ bs))"
proof -
  let ?s = "filled m al bs" and ?t = "filled m al (to_le 8 v @ bs)"
  have "fst ?t = fst ?s - 8" "8 \<le> fst ?s" using assms by (simp_all add: filled_def)
  moreover have "al_write (snd ?s) al (fst ?s - 8) (to_le 8 v) = Some (snd ?t)"
    using push_bytes [of "to_le 8 v" bs al m] assms by (simp add: filled_def)
  ultimately show ?thesis by (simp add: push_u64_def checked_sub_def case_prod_beta prod_eq_iff)
qed

lemma push_u8_filled:
  assumes "1 + length bs \<le> al_size al"
  shows "push_u8 al (filled m al bs) v = Some (filled m al (v # bs))"
proof -
  let ?s = "filled m al bs" and ?t = "filled m al (v # bs)"
  have "fst ?t = fst ?s - 1" "1 \<le> fst ?s" using assms by (simp_all add: filled_def)
  moreover have "al_write (snd ?s) al (fst ?s - 1) [v] = Some (snd ?t)"
    using push_bytes [of "[v]" bs al m] assms by (simp add: filled_def)
  ultimately show ?thesis by (simp add: push_u8_def checked_sub_def case_prod_beta prod_eq_iff)
qed

lemma push_lens_filled:
  "8 * length args + length bs \<le> al_size al \<Longrightarrow>
   foldM (\<lambda>s arg. push_u64 al s (length arg)) (filled m al bs) args =
     Some (filled m al (concat (map (\<lambda>a. to_le 8 (length a)) (rev args)) @ bs))"
proof (induction args arbitrary: bs)
  case (Cons a args)
  then show ?case using Cons.IH [of "to_le 8 (length a) @ bs"] by (simp add: push_u64_filled)
qed simp

lemma push_rev_filled:
  "length xs + length bs \<le> al_size al \<Longrightarrow>
   foldM (push_u8 al) (filled m al bs) (rev xs) = Some (filled m al (xs @ bs))"
proof (induction xs arbitrary: bs rule: rev_induct)
  case (snoc x xs)
  then show ?case using snoc.IH [of "x # bs"] by (simp add: push_u8_filled)
qed simp

lemma push_all_filled:
  "length (concat args) + length bs \<le> al_size al \<Longrightarrow>
   foldM (\<lambda>s arg. foldM (push_u8 al) s (rev arg)) (filled m al bs) (rev args) =
     Some (filled m al (concat args @ bs))"
proof (induction args arbitrary: bs rule: rev_induct)
  case (snoc a args)
  then show ?case using snoc.IH [of "a @ bs"] by (simp add: push_rev_filled)
qed simp

lemma align_filled:
  assumes "8 dvd al_size al" and "next_multiple_of_8 (length bs) \<le> al_size al"
  shows "align_u64 al (filled m al bs) =
    Some (filled m al (replicate (next_multiple_of_8 (length bs) - length bs) 0 @ bs))"
  using assms(2)
proof (induction "next_multiple_of_8 (length bs) - length bs" arbitrary: bs)
  case 0
  then have z: "length bs mod 8 = 0" by (auto simp: next_multiple_of_8_def split: if_splits)
  then have "8 dvd al_size al - length bs" using assms(1) by (simp add: dvd_diff_nat mod_0_imp_dvd)
  then show ?case using z by (simp add: filled_def align_u64.simps next_multiple_of_8_def)
next
  case (Suc k)
  then have nz: "length bs mod 8 \<noteq> 0" and k: "8 - length bs mod 8 = Suc k"
    by (auto simp: next_multiple_of_8_def split: if_splits)
  then have nm: "next_multiple_of_8 (length bs) = length bs + Suc k" by (simp add: next_multiple_of_8_def)
  have nm': "next_multiple_of_8 (length (0 # bs)) = length bs + Suc k"
    using nz k by (auto simp: next_multiple_of_8_def mod_Suc)
  have fits: "Suc (length bs) \<le> al_size al" using Suc.prems nm by simp
  have "(al_size al - length bs) mod 8 \<noteq> 0"
    using nz assms(1) fits by (metis Suc_leD dvd_diffD1 mod_0_imp_dvd mod_eq_0_iff_dvd)
  then have "align_u64 al (filled m al bs) = align_u64 al (filled m al (0 # bs))"
    using push_u8_filled [of bs al m 0] fits by (simp add: filled_def align_u64.simps [of al "al_size al - length bs"])
  also have "\<dots> = Some (filled m al (replicate (next_multiple_of_8 (length (0 # bs)) - length (0 # bs)) 0 @ 0 # bs))"
    by (rule Suc.hyps(1)) (use nm nm' Suc.prems Suc.hyps(2) in simp_all)
  also have "replicate (next_multiple_of_8 (length (0 # bs)) - length (0 # bs)) 0 @ 0 # bs =
      replicate (next_multiple_of_8 (length bs) - length bs) 0 @ bs"
    unfolding nm nm' by (simp add: replicate_app_Cons_same)
  finally show ?case .
qed

text \<open>The argument block and the whole initial contents of the stack, upwards in memory.\<close>

definition arg_block :: "bytes list \<Rightarrow> bytes" where
  "arg_block args = concat args @ concat (map (\<lambda>a. to_le 8 (length a)) (rev args)) @ to_le 8 (length args)"

definition init_stack :: "bytes list \<Rightarrow> nat \<Rightarrow> nat \<Rightarrow> bytes" where
  "init_stack args sp entry = to_le 8 entry @ to_le 8 0x8 @ to_le 8 0x0202 @ to_le 8 sp @ to_le 8 0 @
     replicate (args_size_in_memory args - length (arg_block args)) 0 @ arg_block args"

lemma next_multiple_add: "next_multiple_of_8 (8 * k + n) = 8 * k + next_multiple_of_8 n"
proof -
  have "(8 * k + n) mod 8 = n mod 8" by simp
  then show ?thesis by (simp only: next_multiple_of_8_def add.assoc split: if_split) simp
qed

lemma next_multiple_ge: "n \<le> next_multiple_of_8 n"
  by (simp only: next_multiple_of_8_def le_add1 order_refl split: if_split) simp

lemma length_arg_block: "length (arg_block args) = 8 + 8 * length args + length (concat args)"
  unfolding arg_block_def length_append length_concat_chunks by simp

lemma args_size_eq: "args_size_in_memory args = next_multiple_of_8 (length (arg_block args))"
proof -
  have "length (arg_block args) = 8 * (1 + length args) + sum_list (map length args)"
    by (simp add: length_arg_block length_concat)
  then show ?thesis unfolding args_size_in_memory_def by (simp only: next_multiple_add) simp
qed

lemma length_init_stack: "length (init_stack args sp entry) = 40 + args_size_in_memory args"
  using next_multiple_ge [of "length (arg_block args)"] by (simp add: init_stack_def args_size_eq)

lemma push_args_ok:
  assumes "args_size_in_memory args \<le> al_size al" and "8 dvd al_size al"
  shows "push_args al args (al_size al, m) =
    Some (filled m al (replicate (args_size_in_memory args - length (arg_block args)) 0 @ arg_block args))"
proof -
  let ?n = "to_le 8 (length args)" and ?L = "concat (map (\<lambda>a. to_le 8 (length a)) (rev args))"
  have len: "length (arg_block args) \<le> al_size al"
    using next_multiple_ge [of "length (arg_block args)"] assms(1) by (simp add: args_size_eq)
  have lens: "length (?L @ ?n) = 8 * length args + 8"
    unfolding length_append length_concat_chunks by simp
  have 1: "push_u64 al (al_size al, m) (length args) = Some (filled m al ?n)"
    using push_u64_filled [of "[]" al m "length args"] len by (simp add: length_arg_block)
  have 2: "foldM (\<lambda>s arg. push_u64 al s (length arg)) (filled m al ?n) args = Some (filled m al (?L @ ?n))"
    using len by (intro push_lens_filled) (simp add: length_arg_block)
  have 3: "foldM (\<lambda>s arg. foldM (push_u8 al) s (rev arg)) (filled m al (?L @ ?n)) (rev args) =
      Some (filled m al (concat args @ ?L @ ?n))"
    by (rule push_all_filled, unfold lens) (use len in \<open>simp add: length_arg_block\<close>)
  have 4: "align_u64 al (filled m al (arg_block args)) =
      Some (filled m al (replicate (next_multiple_of_8 (length (arg_block args)) - length (arg_block args)) 0 @ arg_block args))"
    by (rule align_filled [OF assms(2)]) (use assms(1) in \<open>simp add: args_size_eq\<close>)
  show ?thesis unfolding push_args_def 1 bind.bind_lunit 2 3
    using 4 by (simp add: arg_block_def args_size_eq)
qed

lemma populate_stack_ok:
  assumes "40 + args_size_in_memory args \<le> al_size al" and "8 dvd al_size al"
  shows "populate_stack al args sp entry m = Some (snd (filled m al (init_stack args sp entry)))"
proof -
  let ?b = "replicate (args_size_in_memory args - length (arg_block args)) 0 @ arg_block args"
  have len: "length ?b = args_size_in_memory args"
    using next_multiple_ge [of "length (arg_block args)"] by (simp add: args_size_eq)
  have p: "push_args al args (al_size al, m) = Some (filled m al ?b)"
    by (rule push_args_ok) (use assms in simp_all)
  show ?thesis
    unfolding populate_stack_def p init_stack_def using assms(1) len
    by (simp add: push_u64_filled case_prod_beta del: length_append length_replicate)
      (simp add: push_u64_filled case_prod_beta)
qed

subsection \<open>Facts: the page tables of the new process\<close>

text \<open>An image whose segments are readable, aligned and above the stack.\<close>

definition elf_fits :: "ElfImage \<Rightarrow> bool" where
  "elf_fits elf \<longleftrightarrow> (\<forall>(ph, frames) \<in> set (ei_sections elf). has_flag ph ELF_READABLE \<and>
     PROCESS_STACK_END \<le> ph_virtual_address ph \<and> PAGE_SIZE dvd ph_virtual_address ph \<and>
     ph_virtual_address ph + PAGE_SIZE * length frames < 2 ^ 47 \<and>
     (\<forall>f \<in> set frames. PAGE_SIZE dvd al_start f))"

text \<open>\<open>pm'\<close> differs from \<open>pm\<close> only above the stack.\<close>

definition above_stack :: "PageMap \<Rightarrow> PageMap \<Rightarrow> bool" where
  "above_stack pm pm' \<longleftrightarrow> pt_inv pm' \<and> pm_phys_addr pm' = pm_phys_addr pm \<and>
     (\<forall>a < PROCESS_STACK_END. space pm' (page_key a) = space pm (page_key a))"

lemma above_stack_refl: "pt_inv pm \<Longrightarrow> above_stack pm pm"
  by (simp add: above_stack_def)

lemma above_stack_trans: "above_stack pm pm1 \<Longrightarrow> above_stack pm1 pm2 \<Longrightarrow> above_stack pm pm2"
  by (simp add: above_stack_def)

lemma above_stack_map:
  assumes "pt_inv pm" and "PROCESS_STACK_END \<le> page" and "page < 2 ^ 47" and "PAGE_SIZE dvd page"
  shows "above_stack pm (map_to pm page frame flags)"
proof -
  have "page_key a \<noteq> page_key page" if "a < PROCESS_STACK_END" for a
  proof -
    have "a < page" using that assms(2) by simp
    then have "a div PAGE_SIZE < page div PAGE_SIZE"
      using assms(4) page_pos by (simp add: div_less_iff_less_mult)
    then show ?thesis using assms(3) \<open>a < page\<close> by (subst page_key_small) simp_all
  qed
  then show ?thesis using map_to_refines [OF assms(1)] by (simp add: above_stack_def)
qed

lemma map_section_ok:
  assumes x: "ext_ok x" and "PROCESS_STACK_END \<le> start" and al: "PAGE_SIZE dvd start"
    and "start + PAGE_SIZE * (i + length frames) < 2 ^ 47" and "\<forall>f \<in> set frames. PAGE_SIZE dvd al_start f"
    and "pt_inv pm"
  shows "\<exists>pm'. map_section x flags start i frames pm = Some pm' \<and> above_stack pm pm'"
  using assms(2-)
proof (induction frames arbitrary: i pm)
  case Nil
  then show ?case by (simp add: above_stack_refl)
next
  case (Cons f frames)
  let ?page = "start + PAGE_SIZE * i"
  have hi: "start + PAGE_SIZE * (i + 1 + length frames) < 2 ^ 47" using Cons.prems(3) by simp
  then have lt: "?page < 2 ^ 47" by (simp add: algebra_simps)
  have "PAGE_SIZE dvd ?page" using Cons.prems(2) by simp
  then have step: "above_stack pm (map_to pm ?page (al_start f) flags)"
    using above_stack_map [OF Cons.prems(5), of ?page] Cons.prems(1) lt by simp
  have "\<exists>pm'. map_section x flags start (i + 1) frames (map_to pm ?page (al_start f) flags) = Some pm' \<and>
      above_stack (map_to pm ?page (al_start f) flags) pm'"
    by (rule Cons.IH [OF Cons.prems(1,2) hi]) (use Cons.prems(4) step in \<open>auto simp: above_stack_def\<close>)
  then show ?case
    using virt_add_ok [OF x lt] Cons.prems(2,4) above_stack_trans [OF step]
    by (auto simp: map_checked_def)
qed

lemma map_image_ok:
  assumes x: "ext_ok x" and fits: "elf_fits elf" and pm: "pt_inv pm"
  shows "\<exists>pm'. map_image x elf pm = Some pm' \<and> above_stack pm pm'"
  unfolding map_image_def
proof (rule foldM_total [where I = "above_stack pm"])
  show "above_stack pm pm" by (rule above_stack_refl [OF pm])
next
  fix q s assume s: "s \<in> set (ei_sections elf)" and q: "above_stack pm q"
  obtain ph frames where sf: "s = (ph, frames)" by (cases s)
  let ?v = "ph_virtual_address ph"
  from fits s sf have f: "has_flag ph ELF_READABLE" "PROCESS_STACK_END \<le> ?v" "PAGE_SIZE dvd ?v"
    "?v + PAGE_SIZE * (0 + length frames) < 2 ^ 47" "\<forall>f \<in> set frames. PAGE_SIZE dvd al_start f"
    by (auto simp: elf_fits_def)
  have vn: "x_virt_new x ?v = Some ?v" using f(4) by (intro ext_okD(1) [OF x]) (simp add: canonical_def)
  have "0x400000 \<le> ?v"
    using f(2) by (simp add: PROCESS_STACK_END_def PROCESS_STACK_def PAGE_SIZE_def PROCESS_STACK_SIZE_PAGES_def)
  moreover obtain fl where "section_flags ph = Some fl" using f(1) by (simp add: section_flags_def)
  moreover have "pt_inv q" using q by (simp add: above_stack_def)
  with map_section_ok [OF x f(2-5)] obtain q' where "map_section x fl ?v 0 frames q = Some q'" "above_stack q q'"
    by blast
  ultimately show "\<exists>s'. (case s of (ph, frames) \<Rightarrow> do {
       rassert (ph_virtual_address ph \<ge> 0x400000);
       start \<leftarrow> x_virt_new x (ph_virtual_address ph);
       flags \<leftarrow> section_flags ph;
       map_section x flags start 0 frames q }) = Some s' \<and> above_stack pm s'"
    using vn above_stack_trans [OF q] by (simp add: sf)
qed

lemma pm_init_phys: "pm_phys_addr (pm_init phys virt raw) = phys"
  by (simp add: pm_init_def Let_def zero_table_def set_addr_def)

definition STACK_FLAGS :: "PtFlag set" where
  "STACK_FLAGS = {PRESENT, WRITABLE, NO_EXECUTE}"

lemma process_page_map_ok:
  assumes x: "ext_ok x" and fits: "elf_fits elf" and "PAGE_SIZE dvd idt" "PAGE_SIZE dvd common"
    and pt: "PAGE_SIZE dvd al_start pt_frame" "al_start pt_frame < 2 ^ 46" and st: "PAGE_SIZE dvd al_start stack"
  shows "\<exists>pm. process_page_map x idt common raw pt_frame stack elf = Some pm \<and> pt_inv pm \<and>
    pm_phys_addr pm = al_start pt_frame \<and>
    (\<forall>off < 2 * PAGE_SIZE. page_entry pm (PROCESS_STACK + off) =
      Some (al_start stack + off div PAGE_SIZE * PAGE_SIZE, insert HUGE_PAGE STACK_FLAGS))"
proof -
  let ?v = "HIGHER_HALF_START + al_start pt_frame"
  define pm0 where "pm0 = pm_init (al_start pt_frame) ?v raw"
  define pm1 where "pm1 = map_to pm0 0 idt {PRESENT, NO_EXECUTE, WRITABLE}"
  define pm2 where "pm2 = map_to pm1 PROCESS_COMMON_CODE common {PRESENT}"
  define pm3 where "pm3 = map_to pm2 PROCESS_STACK (al_start stack) STACK_FLAGS"
  define pm4 where "pm4 = map_to pm3 (PROCESS_STACK + PAGE_SIZE) (al_start stack + PAGE_SIZE) STACK_FLAGS"
  have i0: "pt_inv pm0" unfolding pm0_def by (rule pm_init_refines)
  note m1 = map_to_refines [OF i0, of 0 idt "{PRESENT, NO_EXECUTE, WRITABLE}", folded pm1_def]
  note m2 = map_to_refines [OF m1(1), of PROCESS_COMMON_CODE common "{PRESENT}", folded pm2_def]
  note m3 = map_to_refines [OF m2(1), of PROCESS_STACK "al_start stack" STACK_FLAGS, folded pm3_def]
  note m4 = map_to_refines [OF m3(1), of "PROCESS_STACK + PAGE_SIZE" "al_start stack + PAGE_SIZE" STACK_FLAGS, folded pm4_def]
  obtain pm where pm: "map_image x elf pm4 = Some pm" "above_stack pm4 pm"
    using map_image_ok [OF x fits m4(1)] by blast
  have v: "?v mod PAGE_SIZE = 0"
    using dvd_add [OF _ pt(1), of HIGHER_HALF_START] by (simp add: PAGE_SIZE_def HIGHER_HALF_START_def mod_eq_0_iff_dvd)
  have pages: "PROCESS_COMMON_CODE mod PAGE_SIZE = 0" "PROCESS_STACK mod PAGE_SIZE = 0"
    "[0 ..< PROCESS_STACK_SIZE_PAGES] = [0, 1]"
    by (simp_all add: PROCESS_COMMON_CODE_def PROCESS_STACK_def PAGE_SIZE_def PROCESS_STACK_SIZE_PAGES_def
        numeral_2_eq_2)
  have "map_checked 0 idt {PRESENT, NO_EXECUTE, WRITABLE} pm0 = Some pm1"
    "map_checked PROCESS_COMMON_CODE common {PRESENT} pm1 = Some pm2"
    "map_checked PROCESS_STACK (al_start stack) STACK_FLAGS pm2 = Some pm3"
    "map_checked (PROCESS_STACK + PAGE_SIZE) (al_start stack + PAGE_SIZE) STACK_FLAGS pm3 = Some pm4"
    using assms(3,4) st pages
    by (simp_all add: map_checked_def pm1_def pm2_def pm3_def pm4_def)
  then have run: "process_page_map x idt common raw pt_frame stack elf = Some pm"
    unfolding process_page_map_def STACK_FLAGS_def [symmetric] pages(3)
    using phys_to_virt_ok [OF x pt(2)] v pm(1) by (simp add: Let_def pm0_def [symmetric])
  have key: "page_key (PROCESS_STACK + off) = page_key (PROCESS_STACK + q) \<longleftrightarrow> off div PAGE_SIZE = q div PAGE_SIZE"
    if "off < 2 * PAGE_SIZE" "q < 2 * PAGE_SIZE" for off q
  proof -
    have "(PROCESS_STACK + r) div PAGE_SIZE = 2 + r div PAGE_SIZE" for r
    proof -
      have eq: "PROCESS_STACK + r = r + 2 * PAGE_SIZE" by (simp add: PROCESS_STACK_def PAGE_SIZE_def)
      show ?thesis unfolding eq using page_pos by simp
    qed
    then show ?thesis
      using that by (subst page_key_small) (simp_all add: PROCESS_STACK_def PAGE_SIZE_def)
  qed
  have entry: "page_entry pm (PROCESS_STACK + off) =
      Some (al_start stack + off div PAGE_SIZE * PAGE_SIZE, insert HUGE_PAGE STACK_FLAGS)"
    if off: "off < 2 * PAGE_SIZE" for off
  proof -
    have "off div PAGE_SIZE < 2" using off page_pos by (simp add: div_less_iff_less_mult)
    then consider "off div PAGE_SIZE = 0" | "off div PAGE_SIZE = 1" by linarith
    moreover have "page_entry pm (PROCESS_STACK + off) = space pm4 (page_key (PROCESS_STACK + off))"
      using pm(2) off by (simp add: above_stack_def page_entry_space PROCESS_STACK_END_def PROCESS_STACK_SIZE_PAGES_def)
    ultimately show ?thesis
      using key [OF off, of PAGE_SIZE] key [OF off, of 0] page_pos by cases (simp_all add: m3(2) m4(2))
  qed
  have "pm_phys_addr pm = al_start pt_frame"
    using pm(2) m1(3) m2(3) m3(3) m4(3) by (simp add: above_stack_def pm0_def pm_init_phys)
  then show ?thesis using run pm(2) entry by (auto simp: above_stack_def)
qed

subsection \<open>Facts: reading the arguments\<close>

text \<open>\<open>rd\<close> reads the top of the stack, which ends with the argument block.\<close>

definition shows_args :: "(nat \<Rightarrow> nat \<Rightarrow> bytes option) \<Rightarrow> bytes list \<Rightarrow> bool" where
  "shows_args rd args \<longleftrightarrow> length (arg_block args) \<le> PROCESS_STACK_END \<and>
     (\<forall>k n. n \<le> k \<longrightarrow> k \<le> length (arg_block args) \<longrightarrow>
       rd (PROCESS_STACK_END - k) n = Some (take n (drop (length (arg_block args) - k) (arg_block args))))"

lemma shows_argsD:
  "shows_args rd args \<Longrightarrow> n \<le> k \<Longrightarrow> k \<le> length (arg_block args) \<Longrightarrow>
     rd (PROCESS_STACK_END - k) n = Some (take n (drop (length (arg_block args) - k) (arg_block args)))"
  by (simp add: shows_args_def)

lemma stack_end_bound: "PROCESS_STACK_END < 2 ^ 24"
  by (simp add: PROCESS_STACK_END_def PROCESS_STACK_def PAGE_SIZE_def PROCESS_STACK_SIZE_PAGES_def)

lemma ptr_sub_ok: "n \<le> a \<Longrightarrow> a < 2 ^ 64 \<Longrightarrow> ptr_sub a n = a - n"
proof -
  assume n: "n \<le> a" "a < 2 ^ 64"
  then have "a + (2 ^ 64 - n mod 2 ^ 64) = (a - n) + 2 ^ 64" by simp
  then show ?thesis using n unfolding ptr_sub_def by (simp only: mod_add_self2) simp
qed

lemma shown_argc:
  assumes "shows_args rd args"
  shows "load_u64 rd (ptr_sub PROCESS_STACK_END 8) = Some (length args)"
proof -
  let ?B = "arg_block args"
  have len: "length ?B = 8 + 8 * length args + length (concat args)" by (rule length_arg_block)
  have "rd (PROCESS_STACK_END - 8) 8 = Some (take 8 (drop (length ?B - 8) ?B))"
    using assms len by (simp add: shows_args_def)
  moreover have "drop (length ?B - 8) ?B = to_le 8 (length args)" unfolding len by (simp add: arg_block_def length_concat_chunks)
  moreover have "length args < 256 ^ 8" using assms len stack_end_bound by (simp add: shows_args_def)
  moreover have "ptr_sub PROCESS_STACK_END 8 = PROCESS_STACK_END - 8"
    using assms len stack_end_bound by (intro ptr_sub_ok) (simp_all add: shows_args_def)
  ultimately show ?thesis by (simp add: load_u64_def)
qed

lemma shown_arg_len:
  assumes "shows_args rd args" and i: "i < length args"
  shows "load_u64 rd (PROCESS_STACK_END - (16 + 8 * i)) = Some (length (args ! i))"
proof -
  let ?B = "arg_block args" and ?L = "concat (map (\<lambda>a. to_le 8 (length a)) (rev args))"
  have len: "length ?B = 8 + 8 * length args + length (concat args)" by (rule length_arg_block)
  have k: "length ?B - (16 + 8 * i) = length (concat args) + (length args - 1 - i) * 8" using i len by simp
  have "rd (PROCESS_STACK_END - (16 + 8 * i)) 8 = Some (take 8 (drop (length ?B - (16 + 8 * i)) ?B))"
    using assms len i by (simp add: shows_args_def)
  moreover have "drop (length ?B - (16 + 8 * i)) ?B = drop ((length args - 1 - i) * 8) (?L @ to_le 8 (length args))"
    unfolding k by (simp add: arg_block_def)
  moreover have "take 8 (drop ((length args - 1 - i) * 8) (?L @ to_le 8 (length args))) =
      to_le 8 (length (rev args ! (length args - 1 - i)))"
    using i by (intro concat_chunk) simp_all
  moreover have "rev args ! (length args - 1 - i) = args ! i" using i by (simp add: rev_nth)
  moreover have "length (args ! i) < 256 ^ 8"
    using assms len stack_end_bound length_item_le [OF i] by (simp add: shows_args_def)
  ultimately show ?thesis by (simp add: load_u64_def)
qed

lemma shown_env_arg_len:
  assumes "shows_args rd args" and i: "i < length args"
  shows "env_arg_len rd i = Some (length (args ! i))"
proof -
  have b: "16 + 8 * i \<le> PROCESS_STACK_END"
    using assms length_arg_block [of args] by (simp add: shows_args_def)
  then have "ptr_sub (ptr_sub PROCESS_STACK_END 16) (8 * i) = PROCESS_STACK_END - (16 + 8 * i)"
    using stack_end_bound by (simp add: ptr_sub_ok)
  then show ?thesis using shown_arg_len [OF assms] by (simp add: env_arg_len_def)
qed

lemma env_args_start:
  assumes sh: "shows_args rd args"
  shows "env_args rd = Some \<lparr>ar_index = 0, ar_ptr = PROCESS_STACK_END - length (arg_block args)\<rparr>"
proof -
  let ?cur = "ptr_sub PROCESS_STACK_END 8"
  have len: "length (arg_block args) = 8 + 8 * length args + length (concat args)" by (rule length_arg_block)
  have le: "length (arg_block args) \<le> PROCESS_STACK_END" using sh by (simp add: shows_args_def)
  have cur: "?cur = PROCESS_STACK_END - 8" using le len stack_end_bound by (intro ptr_sub_ok) simp_all
  have sums: "foldM (\<lambda>t i. do { n \<leftarrow> load_u64 rd (ptr_sub ?cur (8 * (i + 1))); Some ((t + n) mod 2 ^ 64) })
      0 [0 ..< d] = Some (length (concat (take d args)))" if "d \<le> length args" for d
    using that
  proof (induction d)
    case (Suc d)
    have "ptr_sub ?cur (8 * (d + 1)) = PROCESS_STACK_END - (16 + 8 * d)"
      unfolding cur using le len Suc.prems stack_end_bound by (subst ptr_sub_ok) simp_all
    moreover have "length (concat (take d args)) + length (args ! d) < 2 ^ 64"
      using length_item_le [of d args] Suc.prems le len stack_end_bound by simp
    ultimately show ?case
      using Suc shown_arg_len [OF sh, of d] concat_take_Suc [of d args] by (simp add: foldM_append)
  qed simp
  have "ptr_sub (ptr_sub ?cur (length args * 8)) (length (concat args)) = PROCESS_STACK_END - length (arg_block args)"
    unfolding cur using le len stack_end_bound by (simp add: ptr_sub_ok)
  then show ?thesis
    using shown_argc [OF sh] sums [of "length args"] by (simp add: env_args_def Let_def)
qed

lemma args_take_shown:
  assumes sh: "shows_args rd args" and ok: "args_ok args" and d: "d \<le> length args"
  shows "args_take rd (length args - d + 1)
    \<lparr>ar_index = d, ar_ptr = PROCESS_STACK_END - length (arg_block args) + length (concat (take d args))\<rparr> =
      Some (drop d args)"
  using d
proof (induction "length args - d" arbitrary: d)
  case 0
  then show ?case using shown_argc [OF sh] by (simp add: args_next_def env_argc_def)
next
  case (Suc k)
  let ?B = "arg_block args" and ?c = "length (concat (take d args))"
  have d: "d < length args" using Suc by simp
  have le: "length ?B \<le> PROCESS_STACK_END" using sh by (simp add: shows_args_def)
  have len: "length ?B = 8 + 8 * length args + length (concat args)" by (rule length_arg_block)
  note item = length_item_le [OF d]
  have p: "PROCESS_STACK_END - length ?B + ?c = PROCESS_STACK_END - (length ?B - ?c)" using le item len by simp
  have "rd (PROCESS_STACK_END - (length ?B - ?c)) (length (args ! d)) =
      Some (take (length (args ! d)) (drop (length ?B - (length ?B - ?c)) ?B))"
    by (rule shows_argsD [OF sh]) (use item len in simp_all)
  also have "length ?B - (length ?B - ?c) = ?c" using item len by simp
  also have "take (length (args ! d)) (drop ?c ?B) = args ! d"
    unfolding arg_block_def by (rule concat_item [OF d])
  finally have rd: "rd (PROCESS_STACK_END - length ?B + ?c) (length (args ! d)) = Some (args ! d)"
    unfolding p .
  have v: "utf8_valid (args ! d)" using ok d by (simp add: args_ok_def)
  have sum: "(PROCESS_STACK_END - length ?B + ?c + length (args ! d)) mod 2 ^ 64 =
      PROCESS_STACK_END - length ?B + length (concat (take (Suc d) args))"
    using concat_take_Suc [OF d] item le len stack_end_bound by simp
  have "args_take rd (length args - Suc d + 1)
      \<lparr>ar_index = Suc d, ar_ptr = PROCESS_STACK_END - length ?B + length (concat (take (Suc d) args))\<rparr> =
        Some (drop (Suc d) args)"
    by (rule Suc.hyps(1)) (use Suc.hyps(2) d in simp_all)
  moreover have "length args - d + 1 = Suc (length args - Suc d + 1)" using d by simp
  ultimately show ?case
    using d rd v sum shown_argc [OF sh] shown_env_arg_len [OF sh d]
    by (simp add: args_next_def env_argc_def Cons_nth_drop_Suc)
qed

subsection \<open>Facts: the new process\<close>

lemma phys_allocate_ok:
  assumes x: "ext_ok x" and a: "x_allocate x sz al (ms_phys m) = Some (q, st)"
  shows "phys_allocate x sz al m = Some (Some \<lparr>al_start = q - HIGHER_HALF_START, al_size = sz, al_align = al\<rparr>,
    m\<lparr>ms_phys := st\<rparr>)"
  using ext_okD(2) [OF x a] a
  by (auto simp: phys_allocate_def undo_offset_ptr_def checked_sub_def to_allocation_def phys_addr_def)

text \<open>The contents of the zeroed and then filled stack.\<close>

lemma filled_ram:
  assumes r: "ms_ram m = ram_fill ram (al_start al) (al_size al) 0" and len: "length bs \<le> al_size al"
    and "off + n \<le> al_size al"
  shows "off + n \<le> al_size al - length bs \<Longrightarrow>
      mem_range (ms_ram (snd (filled m al bs))) (al_start al + off) n = replicate n 0"
    and "al_size al - length bs \<le> off \<Longrightarrow>
      mem_range (ms_ram (snd (filled m al bs))) (al_start al + off) n =
        take n (drop (off - (al_size al - length bs)) bs)"
proof -
  assume "off + n \<le> al_size al - length bs"
  then show "mem_range (ms_ram (snd (filled m al bs))) (al_start al + off) n = replicate n 0"
    using assms by (intro nth_equalityI) (auto simp: mem_range_def filled_def ram_write_def ram_fill_def)
next
  let ?t = "al_size al - length bs"
  assume o: "?t \<le> off"
  have "mem_range (ram_write (ms_ram m) (al_start al + ?t) bs) (al_start al + ?t + (off - ?t)) n =
      take n (drop (off - ?t) bs)"
    by (rule ram_write_read) (use assms(3) len o in simp)
  moreover have "al_start al + ?t + (off - ?t) = al_start al + off" using o by simp
  ultimately show "mem_range (ms_ram (snd (filled m al bs))) (al_start al + off) n = take n (drop (off - ?t) bs)"
    by (simp add: filled_def)
qed

lemma fetch_stack:
  assumes e: "\<forall>off < 2 * PAGE_SIZE. page_entry pm (PROCESS_STACK + off) = Some (S + off div PAGE_SIZE * PAGE_SIZE, fl)"
    and "off + n \<le> 2 * PAGE_SIZE"
  shows "fetch ram pm (PROCESS_STACK + off) n = Some (mem_range ram (S + off) n)"
proof -
  have v: "vread ram pm (PROCESS_STACK + (off + i)) = Some (ram (S + off + i))" if "i < n" for i
  proof -
    have "(PROCESS_STACK + (off + i)) mod PAGE_SIZE = (off + i) mod PAGE_SIZE"
      by (rule area_addr(2)) (simp add: PROCESS_STACK_def PAGE_SIZE_def)
    moreover have "(off + i) div PAGE_SIZE * PAGE_SIZE + (off + i) mod PAGE_SIZE = off + i" by simp
    moreover have "page_entry pm (PROCESS_STACK + (off + i)) = Some (S + (off + i) div PAGE_SIZE * PAGE_SIZE, fl)"
      using e assms(2) that by simp
    ultimately show ?thesis by (simp add: vread_def add.assoc)
  qed
  have shift: "[c ..< c + n] = map (\<lambda>i. c + i) [0 ..< n]" for c by (induction n) simp_all
  have "fetch ram pm (PROCESS_STACK + off) n = those (map (\<lambda>i. Some (ram (S + off + i))) [0 ..< n])"
    unfolding fetch_def shift [of "PROCESS_STACK + off"] map_map comp_def
    by (rule arg_cong [of _ _ those]) (use v in \<open>simp add: add.assoc\<close>)
  also have "\<dots> = Some (map (\<lambda>i. ram (S + off + i)) [0 ..< n])"
    unfolding those_map_Some by (simp add: comp_def)
  finally show ?thesis unfolding mem_range_def shift [of "S + off"] by (simp add: comp_def)
qed

lemma create_process_ok:
  assumes x: "ext_ok x" and fits: "elf_fits elf" and al: "PAGE_SIZE dvd idt" "PAGE_SIZE dvd common"
    and room: "args_size_in_memory args + STACK_ITEMS_FIXED * 8 \<le> PROCESS_STACK_SIZE_PAGES * PAGE_SIZE"
    and a1: "x_allocate x (PROCESS_STACK_SIZE_PAGES * PAGE_SIZE) PAGE_SIZE (ms_phys m) = Some (q1, st1)"
    and a2: "x_allocate x PAGE_SIZE PAGE_SIZE st1 = Some (q2, st2)"
  obtains pm stack m1 where "create_process x idt common raw pid args elf m =
      Some (Some \<lparr>p_page_table = pm,
          p_stack_pointer = PROCESS_STACK_END - args_size_in_memory args - STACK_ITEMS_FIXED * 8,
          p_stack_memory = stack, p_dynamic_memory = [], p_repeat_syscall = False, p_elf_image = elf, p_id = pid\<rparr>,
        (snd (filled m1 stack (init_stack args (PROCESS_STACK_END - args_size_in_memory args)
          (eh_program_entry_pos (ei_header elf)))))\<lparr>ms_phys := st2\<rparr>)"
    "al_size stack = 2 * PAGE_SIZE" "ms_ram m1 = ram_fill (ms_ram m) (al_start stack) (al_size stack) 0"
    "pt_inv pm" "pm_phys_addr pm < 2 ^ 46"
    "\<forall>off < 2 * PAGE_SIZE. page_entry pm (PROCESS_STACK + off) =
      Some (al_start stack + off div PAGE_SIZE * PAGE_SIZE, insert HUGE_PAGE STACK_FLAGS)"
proof -
  let ?size = "PROCESS_STACK_SIZE_PAGES * PAGE_SIZE"
  let ?stack = "\<lparr>al_start = q1 - HIGHER_HALF_START, al_size = ?size, al_align = PAGE_SIZE\<rparr>"
  let ?pt = "\<lparr>al_start = q2 - HIGHER_HALF_START, al_size = PAGE_SIZE, al_align = PAGE_SIZE\<rparr>"
  let ?m1 = "m\<lparr>ms_phys := st1, ms_ram := ram_fill (ms_ram m) (q1 - HIGHER_HALF_START) ?size 0\<rparr>"
  let ?fin = "PROCESS_STACK_END - args_size_in_memory args" and ?entry = "eh_program_entry_pos (ei_header elf)"
  have size: "?size = 2 * PAGE_SIZE" by (simp add: PROCESS_STACK_SIZE_PAGES_def)
  have se: "PROCESS_STACK + ?size = PROCESS_STACK_END" by (simp add: PROCESS_STACK_END_def mult.commute)
  have z: "phys_allocate_zeroed x ?size PAGE_SIZE m = Some (Some ?stack, ?m1)"
    using a1 by (simp add: allocate_zeroed_ok(1) [OF x])
  have popul: "populate_stack ?stack args ?fin ?entry ?m1 = Some (snd (filled ?m1 ?stack (init_stack args ?fin ?entry)))"
    by (rule populate_stack_ok) (use room in \<open>simp_all add: STACK_ITEMS_FIXED_def size PAGE_SIZE_def\<close>)
  have phys: "ms_phys (snd (filled ?m1 ?stack bs)) = st1" for bs by (simp add: filled_def)
  have a2': "x_allocate x PAGE_SIZE PAGE_SIZE (ms_phys (snd (filled ?m1 ?stack bs))) = Some (q2, st2)" for bs
    unfolding phys by (rule a2)
  have b: "PAGE_SIZE dvd al_start ?pt" "al_start ?pt < 2 ^ 46" "PAGE_SIZE dvd al_start ?stack"
    using ext_okD(2) [OF x a2] ext_okD(2) [OF x a1] page_pos by auto
  obtain pm where pm: "process_page_map x idt common raw ?pt ?stack elf = Some pm" "pt_inv pm"
    "pm_phys_addr pm = al_start ?pt"
    "\<forall>off < 2 * PAGE_SIZE. page_entry pm (PROCESS_STACK + off) =
      Some (al_start ?stack + off div PAGE_SIZE * PAGE_SIZE, insert HUGE_PAGE STACK_FLAGS)"
    using process_page_map_ok [OF x fits al b] by blast
  have subs: "checked_sub PROCESS_STACK_END (args_size_in_memory args) = Some ?fin"
    "checked_sub ?fin (STACK_ITEMS_FIXED * 8) = Some (?fin - STACK_ITEMS_FIXED * 8)"
    "args_size_in_memory args + STACK_ITEMS_FIXED \<le> ?size"
    using room unfolding se [symmetric] by (simp_all add: checked_sub_def STACK_ITEMS_FIXED_def)
  show thesis
  proof (rule that [of pm ?stack ?m1])
    show "create_process x idt common raw pid args elf m =
      Some (Some \<lparr>p_page_table = pm, p_stack_pointer = ?fin - STACK_ITEMS_FIXED * 8,
          p_stack_memory = ?stack, p_dynamic_memory = [], p_repeat_syscall = False, p_elf_image = elf, p_id = pid\<rparr>,
        (snd (filled ?m1 ?stack (init_stack args ?fin ?entry)))\<lparr>ms_phys := st2\<rparr>)"
      unfolding create_process_def Let_def se z
      by (simp add: subs popul phys_allocate_ok [OF x a2'] pm(1))
  qed (use pm b(2) size in simp_all)
qed

lemma read_stack_mem:
  assumes "p_stack_memory p = al" and "al_size al = 2 * PAGE_SIZE" and "p_stack_pointer p = PROCESS_STACK + t"
    and "t + depth * 8 + 8 \<le> 2 * PAGE_SIZE"
  shows "read_stack_u64 m p depth = Some (from_le (mem_range (ms_ram m) (al_start al + (t + depth * 8)) 8))"
proof -
  have "t + depth * 8 + 8 < 2 ^ 64" using assms(4) by (simp add: PAGE_SIZE_def)
  then show ?thesis using assms
    by (simp add: read_stack_u64_def stack_item_def checked_sub_def checked_u64_def al_read_def)
qed

lemma init_stack_regs:
  assumes "j < 5"
  shows "take 8 (drop (j * 8) (init_stack args sp entry)) = to_le 8 ([entry, 8, 0x0202, sp, 0] ! j)"
proof -
  have "init_stack args sp entry = concat (map (to_le 8) [entry, 8, 0x0202, sp, 0]) @
      (replicate (args_size_in_memory args - length (arg_block args)) 0 @ arg_block args)"
    by (simp add: init_stack_def)
  then show ?thesis
    using concat_chunk [of "[entry, 8, 0x0202, sp, 0]" "to_le 8" 8 j] assms by simp
qed

text \<open>What the saved registers of a new process are: fifteen zero registers and a zero temporary,
  then the frame that starts the program.\<close>

definition initial_registers :: "nat \<Rightarrow> nat \<Rightarrow> nat list" where
  "initial_registers entry sp = replicate 16 0 @ [entry, 8, 0x0202, sp, 0]"

lemma new_process_registers:
  assumes ram: "ms_ram m = ram_fill ram (al_start al) (al_size al) 0" and sz: "al_size al = 2 * PAGE_SIZE"
    and room: "args_size_in_memory args + 168 \<le> 2 * PAGE_SIZE"
    and p: "p_stack_memory p = al" "p_stack_pointer p = PROCESS_STACK_END - args_size_in_memory args - 168"
    and bounds: "entry < 2 ^ 64" "sp < 2 ^ 64" and d: "d < 21"
    and m': "ms_ram m' = ms_ram (snd (filled m al (init_stack args sp entry)))"
  shows "read_stack_u64 m' p d = Some (initial_registers entry sp ! d)"
proof -
  let ?A = "args_size_in_memory args" and ?I = "init_stack args sp entry"
  define t where "t = 2 * PAGE_SIZE - ?A - 168"
  have len: "length ?I = 40 + ?A" by (rule length_init_stack)
  have sp: "p_stack_pointer p = PROCESS_STACK + t"
    using p(2) room by (simp add: t_def PROCESS_STACK_END_def PROCESS_STACK_SIZE_PAGES_def)
  have rd: "read_stack_u64 m' p d = Some (from_le (mem_range (ms_ram m') (al_start al + (t + d * 8)) 8))"
    by (rule read_stack_mem [OF p(1) sz sp]) (use d room in \<open>simp add: t_def\<close>)
  have fits: "t + d * 8 + 8 \<le> al_size al" using d room sz by (simp add: t_def)
  have li: "length ?I \<le> al_size al" using len room sz by simp
  show ?thesis
  proof (cases "d < 16")
    case True
    then have "mem_range (ms_ram m') (al_start al + (t + d * 8)) 8 = replicate 8 0"
      unfolding m' by (intro filled_ram(1) [OF ram li fits]) (use len room sz in \<open>simp add: t_def\<close>)
    moreover have "from_le (replicate n 0) = 0" for n by (induction n) simp_all
    ultimately show ?thesis using rd True by (simp add: initial_registers_def nth_append)
  next
    case False
    define j where "j = d - 16"
    have j: "d = 16 + j" "j < 5" using False d by (simp_all add: j_def)
    have "mem_range (ms_ram m') (al_start al + (t + d * 8)) 8 =
        take 8 (drop (t + d * 8 - (al_size al - length ?I)) ?I)"
      unfolding m' by (intro filled_ram(2) [OF ram li fits]) (use j len room sz in \<open>simp add: t_def\<close>)
    also have "t + d * 8 - (al_size al - length ?I) = j * 8" using j(1) len room sz by (simp add: t_def)
    also have "take 8 (drop (j * 8) ?I) = to_le 8 ([entry, 8, 0x0202, sp, 0] ! j)" by (rule init_stack_regs [OF j(2)])
    finally have mr: "mem_range (ms_ram m') (al_start al + (t + d * 8)) 8 = to_le 8 ([entry, 8, 0x0202, sp, 0] ! j)" .
    have "\<forall>v \<in> set [entry, 8, 0x0202, sp, 0]. v < 256 ^ 8" using bounds by simp
    moreover have "[entry, 8, 0x0202, sp, 0] ! j \<in> set [entry, 8, 0x0202, sp, 0]"
      by (rule nth_mem) (use j(2) in simp)
    ultimately have "[entry, 8, 0x0202, sp, 0] ! j < 256 ^ 8" by blast
    then have "read_stack_u64 m' p d = Some ([entry, 8, 0x0202, sp, 0] ! j)" using rd by (simp add: mr)
    then show ?thesis using j by (simp add: initial_registers_def nth_append)
  qed
qed

lemma new_process_shows_args:
  assumes ram: "ms_ram m = ram_fill ram (al_start al) (al_size al) 0" and sz: "al_size al = 2 * PAGE_SIZE"
    and room: "args_size_in_memory args + 168 \<le> 2 * PAGE_SIZE"
    and e: "\<forall>off < 2 * PAGE_SIZE. page_entry pm (PROCESS_STACK + off) =
      Some (al_start al + off div PAGE_SIZE * PAGE_SIZE, fl)"
  shows "shows_args (fetch (ms_ram (snd (filled m al (init_stack args sp entry)))) pm) args"
proof -
  let ?B = "arg_block args" and ?I = "init_stack args sp entry"
  let ?ram = "ms_ram (snd (filled m al ?I))"
  have len: "length ?I = 40 + args_size_in_memory args" by (rule length_init_stack)
  have bl: "length ?B \<le> args_size_in_memory args" using next_multiple_ge by (simp add: args_size_eq)
  have I: "\<exists>pre. ?I = pre @ ?B" unfolding init_stack_def by (metis append.assoc)
  have li: "length ?I \<le> al_size al" using len room sz by simp
  have "fetch ?ram pm (PROCESS_STACK_END - k) n = Some (take n (drop (length ?B - k) ?B))"
    if nk: "n \<le> k" "k \<le> length ?B" for k n
  proof -
    have kA: "k \<le> 2 * PAGE_SIZE" using nk bl room by simp
    have addr: "PROCESS_STACK_END - k = PROCESS_STACK + (2 * PAGE_SIZE - k)"
      using kA by (simp add: PROCESS_STACK_END_def PROCESS_STACK_SIZE_PAGES_def)
    have "fetch ?ram pm (PROCESS_STACK_END - k) n = Some (mem_range ?ram (al_start al + (2 * PAGE_SIZE - k)) n)"
      unfolding addr by (rule fetch_stack [OF e]) (use nk kA in simp)
    also have "mem_range ?ram (al_start al + (2 * PAGE_SIZE - k)) n =
        take n (drop (2 * PAGE_SIZE - k - (al_size al - length ?I)) ?I)"
      by (rule filled_ram(2) [OF ram li]) (use nk kA sz bl len in simp_all)
    also have "2 * PAGE_SIZE - k - (al_size al - length ?I) = length ?I - k"
      using nk bl len room sz by simp
    also have "drop (length ?I - k) ?I = drop (length ?B - k) ?B" using I nk(2) by auto
    finally show ?thesis .
  qed
  moreover have "length ?B \<le> PROCESS_STACK_END"
    using bl room by (simp add: PROCESS_STACK_END_def PROCESS_STACK_SIZE_PAGES_def)
  ultimately show ?thesis by (simp add: shows_args_def)
qed

subsection \<open>Property\<close>

text \<open>C5: Program arguments arrive unchanged. For arguments that are valid UTF-8, shorter than the
  limit of the system call and together fit on the stack, unpacking the block built by
  \<open>libd7::exec\<close> in the kernel gives the arguments back; when the allocator has a stack and a page
  table, \<open>create_process\<close> returns a process in which \<open>libd7::env::args\<close>, reading through the
  page tables of that process, yields exactly these arguments and then ends. The saved registers of
  the process are zero and its start frame holds the entry point, the code segment, the flags with
  interrupts enabled, and the stack pointer below the arguments.\<close>

theorem exec_args_roundtrip:
  assumes x: "ext_ok x" and fits: "elf_fits elf" and al: "PAGE_SIZE dvd idt" "PAGE_SIZE dvd common"
    and ok: "args_ok args"
    and room: "args_size_in_memory args + STACK_ITEMS_FIXED * 8 \<le> PROCESS_STACK_SIZE_PAGES * PAGE_SIZE"
    and entry: "eh_program_entry_pos (ei_header elf) < 2 ^ 64"
    and a1: "x_allocate x (PROCESS_STACK_SIZE_PAGES * PAGE_SIZE) PAGE_SIZE (ms_phys m) = Some (q1, st1)"
    and a2: "x_allocate x PAGE_SIZE PAGE_SIZE st1 = Some (q2, st2)"
  shows "exec_args (exec_args_raw args) = Some (Inr args) \<and>
    (\<exists>p m' it. create_process x idt common raw pid args elf m = Some (Some p, m') \<and> p_id p = pid \<and>
      proc_inv p \<and>
      env_args (fetch (ms_ram m') (p_page_table p)) = Some it \<and>
      args_take (fetch (ms_ram m') (p_page_table p)) (length args + 1) it = Some args \<and>
      map (read_stack_u64 m' p) [0 ..< 21] =
        map Some (initial_registers (eh_program_entry_pos (ei_header elf))
          (PROCESS_STACK_END - args_size_in_memory args)))"
proof
  have fix8: "STACK_ITEMS_FIXED * 8 = 168" and sz2: "PROCESS_STACK_SIZE_PAGES * PAGE_SIZE = 2 * PAGE_SIZE"
    by (simp_all add: STACK_ITEMS_FIXED_def PROCESS_STACK_SIZE_PAGES_def)
  have room2: "args_size_in_memory args + 168 \<le> 2 * PAGE_SIZE" using room unfolding fix8 sz2 .
  have "length (exec_args_raw args) = length (arg_block args)"
    by (simp add: length_arg_block exec_args_raw_def length_concat_chunks)
  also have "\<dots> \<le> args_size_in_memory args" using next_multiple_ge by (simp add: args_size_eq)
  finally have "length (exec_args_raw args) < 2 ^ 64" using room2 by (simp add: PAGE_SIZE_def)
  then show "exec_args (exec_args_raw args) = Some (Inr args)" by (rule exec_args_raw_ok [OF ok])
  let ?sp = "PROCESS_STACK_END - args_size_in_memory args" and ?entry = "eh_program_entry_pos (ei_header elf)"
  obtain pm stack m1 where c: "create_process x idt common raw pid args elf m =
      Some (Some \<lparr>p_page_table = pm, p_stack_pointer = ?sp - STACK_ITEMS_FIXED * 8, p_stack_memory = stack,
          p_dynamic_memory = [], p_repeat_syscall = False, p_elf_image = elf, p_id = pid\<rparr>,
        (snd (filled m1 stack (init_stack args ?sp ?entry)))\<lparr>ms_phys := st2\<rparr>)"
    and st: "al_size stack = 2 * PAGE_SIZE" "ms_ram m1 = ram_fill (ms_ram m) (al_start stack) (al_size stack) 0"
    and pm: "pt_inv pm" "pm_phys_addr pm < 2 ^ 46"
      "\<forall>off < 2 * PAGE_SIZE. page_entry pm (PROCESS_STACK + off) =
        Some (al_start stack + off div PAGE_SIZE * PAGE_SIZE, insert HUGE_PAGE STACK_FLAGS)"
    by (rule create_process_ok [OF x fits al room a1 a2])
  let ?p = "\<lparr>p_page_table = pm, p_stack_pointer = ?sp - STACK_ITEMS_FIXED * 8, p_stack_memory = stack,
          p_dynamic_memory = [], p_repeat_syscall = False, p_elf_image = elf, p_id = pid\<rparr>"
  let ?m = "(snd (filled m1 stack (init_stack args ?sp ?entry)))\<lparr>ms_phys := st2\<rparr>"
  have sh: "shows_args (fetch (ms_ram ?m) pm) args"
    using new_process_shows_args [OF st(2,1) room2 pm(3)] by simp
  have "read_stack_u64 ?m ?p d = Some (initial_registers ?entry ?sp ! d)" if "d < 21" for d
    by (rule new_process_registers [OF st(2,1) room2 _ _ entry _ that]) (use stack_end_bound fix8 in simp_all)
  moreover have "length (initial_registers ?entry ?sp) = 21" by (simp add: initial_registers_def)
  ultimately have regs: "map (read_stack_u64 ?m ?p) [0 ..< 21] = map Some (initial_registers ?entry ?sp)"
    by (intro nth_equalityI) simp_all
  show "\<exists>p m' it. create_process x idt common raw pid args elf m = Some (Some p, m') \<and> p_id p = pid \<and>
      proc_inv p \<and> env_args (fetch (ms_ram m') (p_page_table p)) = Some it \<and>
      args_take (fetch (ms_ram m') (p_page_table p)) (length args + 1) it = Some args \<and>
      map (read_stack_u64 m' p) [0 ..< 21] = map Some (initial_registers ?entry ?sp)"
    using c pm(1,2) regs env_args_start [OF sh] args_take_shown [OF sh ok, of 0]
    by (intro exI [of _ ?p] exI [of _ ?m]) (simp add: proc_inv_def)
qed

theorem exec_args_roundtrip_witness:
  "exec_args (exec_args_raw [[0x61, 0x62], [0xC3, 0xA4]]) = Some (Inr [[0x61, 0x62], [0xC3, 0xA4]])"
proof -
  let ?elf = "\<lparr>ei_header = read_elf_header [], ei_sections = []\<rparr>"
  have e: "eh_program_entry_pos (ei_header ?elf) < 2 ^ 64" by (simp add: read_elf_header_def le_at_def)
  have a: "x_allocate bump (PROCESS_STACK_SIZE_PAGES * PAGE_SIZE) PAGE_SIZE (ms_phys demo_mem) =
      Some (HIGHER_HALF_START + 0x40000000, 0x40400000)"
    "x_allocate bump PAGE_SIZE PAGE_SIZE 0x40400000 = Some (HIGHER_HALF_START + 0x40400000, 0x40600000)"
    by (simp_all add: bump_def demo_mem_def PAGE_SIZE_def PROCESS_STACK_SIZE_PAGES_def)
  have ok: "args_ok [[0x61, 0x62], [0xC3, 0xA4]]" by (simp add: args_ok_def cont_byte_def)
  have r: "args_size_in_memory [[0x61, 0x62], [0xC3, 0xA4]] + STACK_ITEMS_FIXED * 8
      \<le> PROCESS_STACK_SIZE_PAGES * PAGE_SIZE"
    by (simp add: args_size_in_memory_def next_multiple_of_8_def STACK_ITEMS_FIXED_def
        PROCESS_STACK_SIZE_PAGES_def PAGE_SIZE_def)
  show ?thesis
    using exec_args_roundtrip [OF bump_ok _ _ _ ok r e a, of 0 0] by (simp add: elf_fits_def)
qed

end
