(* ===== verification/Clock.thy ===== *)
theory Clock
  imports Prelude
begin

text \<open>
  Time on the boot processor (\<open>src/time.rs\<close>) and the conversion to and from timer ticks
  (\<open>src/smp/sleep.rs\<close>). An instant is a value of the time stamp counter; the counter, the
  measured frequencies and the capabilities of the processor are arguments. Setting a deadline
  gives the value written to the hardware.
\<close>

subsection \<open>Frequencies and conversion\<close>

record TimerHw =
  th_tsc_deadline :: bool
  th_tsc_freq :: nat
  th_lapic_freq :: nat

definition freq_hz :: "TimerHw \<Rightarrow> nat option" where
  "freq_hz hw = (let value = (if th_tsc_deadline hw then th_tsc_freq hw else th_lapic_freq hw)
     in do { rassert (value \<noteq> 0); Some value })"

definition ONE_YEAR_NS :: nat where "ONE_YEAR_NS = 365 * 24 * 60 * 60 * 1000000000"

definition ns_to_ticks :: "TimerHw \<Rightarrow> nat \<Rightarrow> nat option" where
  "ns_to_ticks hw ns = do {
     rassert (ns < ONE_YEAR_NS);
     f \<leftarrow> freq_hz hw;
     (if ns > 1000000000 then checked_u64 (ns div 1000000 * (f div 1000))
      else if ns > 1000000 then do { t \<leftarrow> checked_u64 (ns div 1000 * f); Some (t div 1000000) }
      else do { t \<leftarrow> checked_u64 (ns * f); Some (t div 1000000000) })
   }"

definition ticks_to_ns :: "TimerHw \<Rightarrow> nat \<Rightarrow> nat option" where
  "ticks_to_ns hw ticks = do {
     rassert (ticks < (2 ^ 64 - 1) div 1000000);
     f \<leftarrow> freq_hz hw;
     rassert (f div 1000 \<noteq> 0);
     Some (ticks * 1000000 div (f div 1000))
   }"

subsection \<open>Instants\<close>

definition add_ticks :: "instant \<Rightarrow> nat \<Rightarrow> instant option" where
  "add_ticks t n = checked_u64 (t + n)"

definition add_ns :: "TimerHw \<Rightarrow> instant \<Rightarrow> nat \<Rightarrow> instant option" where
  "add_ns hw t ns = do { n \<leftarrow> ns_to_ticks hw ns; checked_u64 (t + n) }"

definition try_ticks_from :: "instant \<Rightarrow> instant \<Rightarrow> nat option" where
  "try_ticks_from t earlier = (if earlier \<le> t then Some (t - earlier) else None)"

text \<open>Panics when the instants are in the wrong order.\<close>

definition ticks_from :: "instant \<Rightarrow> instant \<Rightarrow> nat option" where
  "ticks_from t earlier = try_ticks_from t earlier"

definition duration_from :: "TimerHw \<Rightarrow> instant \<Rightarrow> instant \<Rightarrow> nat option" where
  "duration_from hw t earlier = do { n \<leftarrow> ticks_from t earlier; ticks_to_ns hw n }"

subsection \<open>Deadlines\<close>

datatype TimerWrite = TscDeadline nat | LapicTicks nat

text \<open>The hardware write and whether the deadline was accepted; the LAPIC counter has 32 bits.\<close>

definition set_deadline :: "TimerHw \<Rightarrow> instant \<Rightarrow> instant \<Rightarrow> TimerWrite \<times> bool" where
  "set_deadline hw now t =
     (if th_tsc_deadline hw then (TscDeadline t, True)
      else let ticks = (case try_ticks_from t now of None \<Rightarrow> 10 | Some n \<Rightarrow> n) mod 2 ^ 32
           in (LapicTicks ticks, ticks \<noteq> 0))"

definition clear_deadline :: "TimerHw \<Rightarrow> TimerWrite" where
  "clear_deadline hw = (if th_tsc_deadline hw then TscDeadline 0 else LapicTicks 0)"

subsection \<open>Facts\<close>

text \<open>The bound on the frequency is 500 GHz; with it no product overflows.\<close>

definition freq_ok :: "TimerHw \<Rightarrow> bool" where
  "freq_ok hw = (case freq_hz hw of None \<Rightarrow> False | Some f \<Rightarrow> f \<le> 500000000000)"

lemma ns_to_ticks_defined:
  assumes f: "freq_ok hw" and ns: "ns < ONE_YEAR_NS"
  shows "\<exists>t. ns_to_ticks hw ns = Some t"
proof -
  obtain f where hz: "freq_hz hw = Some f" and le: "f \<le> 500000000000"
    using f by (auto simp: freq_ok_def split: option.splits)
  have a: "ns div 1000000 * (f div 1000) < 2 ^ 64"
  proof -
    have "ns div 1000000 * (f div 1000) \<le> 31536000000 * 500000000"
      using ns le by (intro mult_le_mono) (simp_all add: ONE_YEAR_NS_def)
    then show ?thesis by simp
  qed
  have b: "ns div 1000 * f < 2 ^ 64" if "\<not> 1000000000 < ns"
  proof -
    have "ns div 1000 * f \<le> 1000000 * 500000000000" using that le by (intro mult_le_mono) simp_all
    then show ?thesis by simp
  qed
  have c: "ns * f < 2 ^ 64" if "\<not> 1000000 < ns"
  proof -
    have "ns * f \<le> 1000000 * 500000000000" using that le by (intro mult_le_mono) simp_all
    then show ?thesis by simp
  qed
  consider "1000000000 < ns" | "\<not> 1000000000 < ns" "1000000 < ns" | "\<not> 1000000 < ns" by blast
  then show ?thesis
  proof cases
    case 1
    then show ?thesis using ns hz a by (simp add: ns_to_ticks_def checked_u64_def)
  next
    case 2
    then show ?thesis using ns hz b by (simp add: ns_to_ticks_def checked_u64_def)
  next
    case 3
    then show ?thesis using ns hz c by (simp add: ns_to_ticks_def checked_u64_def)
  qed
qed

text \<open>The result never exceeds the exact number of ticks: a sleep never lasts longer than asked.\<close>

lemma ns_to_ticks_le:
  assumes hz: "freq_hz hw = Some f" and t: "ns_to_ticks hw ns = Some t"
  shows "t * 1000000000 \<le> ns * f"
proof -
  have d: "n div k * k \<le> n" for n k :: nat by (rule div_times_less_eq_dividend)
  consider "ns > 1000000000" | "\<not> ns > 1000000000" "ns > 1000000" | "\<not> ns > 1000000" by blast
  then show ?thesis
  proof cases
    case 1
    then have "t = ns div 1000000 * (f div 1000)"
      using t hz by (auto simp: ns_to_ticks_def checked_u64_def split: if_splits)
    then have "t * 1000000000 = (ns div 1000000 * 1000000) * (f div 1000 * 1000)" by simp
    also have "\<dots> \<le> ns * f" by (intro mult_le_mono d)
    finally show ?thesis .
  next
    case 2
    then have "t = ns div 1000 * f div 1000000"
      using t hz by (auto simp: ns_to_ticks_def checked_u64_def split: if_splits)
    then have "t * 1000000000 = (ns div 1000 * f div 1000000 * 1000000) * 1000" by simp
    also have "\<dots> \<le> (ns div 1000 * f) * 1000" by (intro mult_le_mono1 d)
    also have "\<dots> = (ns div 1000 * 1000) * f" by simp
    also have "\<dots> \<le> ns * f" by (intro mult_le_mono1 d)
    finally show ?thesis .
  next
    case 3
    then have "t = ns * f div 1000000000"
      using t hz by (auto simp: ns_to_ticks_def checked_u64_def split: if_splits)
    then show ?thesis by (simp add: d)
  qed
qed

end
