(* ===== verification/Scheduler.thy ===== *)
theory Scheduler
  imports IpcDelivery ProcCreate Clock
begin

text \<open>
  The scheduler (\<open>src/multitasking/scheduler.rs\<close>): the table of processes, the queues, and the
  choice of the next process. Operations that read the clock take the time as an argument.
  Termination also acts on the IPC manager and returns the memory of the process; the encoding of
  the termination message is a parameter.
\<close>

subsection \<open>Data\<close>

definition TIME_SLICE_NS :: nat where "TIME_SLICE_NS = 100000000"
definition MIN_EXEC_TIME_NS :: nat where "MIN_EXEC_TIME_NS = TIME_SLICE_NS div 10"

datatype ProcessSwitch =
    SwContinue
  | SwIdle
  | SwSwitch ProcessSwitchInfo
  | SwRepeatSyscall ProcessSwitchInfo

record Scheduler =
  sc_processes :: "pid \<rightharpoonup> Process"
  sc_queues :: Queues
  sc_running :: "pid option"
  sc_timeslice_end :: "instant option"
  sc_next_pid :: pid

definition scheduler_new :: Scheduler where
  "scheduler_new = \<lparr>sc_processes = Map.empty, sc_queues = queues_new, sc_running = None,
     sc_timeslice_end = None, sc_next_pid = pid_first\<rparr>"

subsection \<open>Process table\<close>

definition get_running_pid :: "Scheduler \<Rightarrow> pid option" where
  "get_running_pid s = sc_running s"

definition take_process_by_id :: "pid \<Rightarrow> Scheduler \<Rightarrow> Process option \<times> Scheduler" where
  "take_process_by_id pid s = (sc_processes s pid, s\<lparr>sc_processes := (sc_processes s)(pid := None)\<rparr>)"

definition give_back_process :: "Process \<Rightarrow> Scheduler \<Rightarrow> Scheduler" where
  "give_back_process p s = s\<lparr>sc_processes := (sc_processes s)(p_id p \<mapsto> p)\<rparr>"

definition process_by_id :: "Scheduler \<Rightarrow> pid \<Rightarrow> Process option" where
  "process_by_id s pid = sc_processes s pid"

definition process_ids :: "(nat set \<Rightarrow> nat list) \<Rightarrow> Scheduler \<Rightarrow> pid list" where
  "process_ids ord s = ord (dom (sc_processes s))"

text \<open>The pid is used up even when the process cannot be created.\<close>

definition spawn :: "'a Ext \<Rightarrow> nat \<Rightarrow> nat \<Rightarrow> (nat \<Rightarrow> nat \<Rightarrow> pt_entry) \<Rightarrow> bytes list \<Rightarrow> ElfImage
    \<Rightarrow> Scheduler \<Rightarrow> 'a Mem \<Rightarrow> (pid option \<times> Scheduler \<times> 'a Mem) option" where
  "spawn x idt common raw args elf s m = do {
     let pid = sc_next_pid s;
     next \<leftarrow> pid_next (sc_next_pid s);
     let s = s\<lparr>sc_next_pid := next\<rparr>;
     (r, m) \<leftarrow> create_process x idt common raw pid args elf m;
     (case r of
        None \<Rightarrow> Some (None, s, m)
      | Some process \<Rightarrow> do {
          q \<leftarrow> give pid WNone (sc_queues s);
          Some (Some pid, s\<lparr>sc_processes := (sc_processes s)(pid \<mapsto> process), sc_queues := q\<rparr>, m)
        })
   }"

subsection \<open>Switching\<close>

text \<open>The switch to a process, by repeating its system call if one is pending.\<close>

definition switch_target :: "Process \<Rightarrow> ProcessSwitch" where
  "switch_target p = (if p_repeat_syscall p then SwRepeatSyscall (switch_info p) else SwSwitch (switch_info p))"

definition sched_switch :: "TimerHw \<Rightarrow> instant \<Rightarrow> WaitFor option \<Rightarrow> Scheduler \<Rightarrow> (ProcessSwitch \<times> Scheduler) option" where
  "sched_switch hw now schedule s = do {
     q \<leftarrow> (case schedule of
         None \<Rightarrow> Some (sc_queues s)
       | Some w \<Rightarrow> (case sc_running s of
           None \<Rightarrow> Some (sc_queues s)
         | Some running_pid \<Rightarrow> give running_pid w (sc_queues s)));
     (case take_next q of
        (Some pid, q) \<Rightarrow> do {
          ticks \<leftarrow> ns_to_ticks hw TIME_SLICE_NS;
          slice_end \<leftarrow> add_ticks now ticks;
          process \<leftarrow> sc_processes s pid;
          Some (switch_target process,
            s\<lparr>sc_queues := q, sc_running := Some pid, sc_timeslice_end := Some slice_end\<rparr>)
        }
      | (None, q) \<Rightarrow> Some (SwIdle, s\<lparr>sc_queues := q, sc_running := None, sc_timeslice_end := None\<rparr>))
   }"

definition switch_current_or_next :: "Scheduler \<Rightarrow> (ProcessSwitch \<times> Scheduler) option" where
  "switch_current_or_next s =
     (let s = (case sc_running s of
          None \<Rightarrow> (let (r, q) = take_next (sc_queues s) in s\<lparr>sc_running := r, sc_queues := q\<rparr>)
        | Some _ \<Rightarrow> s)
      in (case sc_running s of
            None \<Rightarrow> Some (SwIdle, s)
          | Some pid \<Rightarrow> do { process \<leftarrow> sc_processes s pid; Some (switch_target process, s) }))"

text \<open>The clock is read twice: for the sleepers and for the end of the next time slice.\<close>

definition tick :: "TimerHw \<Rightarrow> instant \<Rightarrow> instant \<Rightarrow> Scheduler \<Rightarrow> (ProcessSwitch \<times> Scheduler) option" where
  "tick hw now later s = sched_switch hw later (Some WNone) (s\<lparr>sc_queues := on_tick now (sc_queues s)\<rparr>)"

definition next_tick :: "TimerHw \<Rightarrow> instant \<Rightarrow> Scheduler \<Rightarrow> instant option option" where
  "next_tick hw now s =
     (let wakeup = next_wakeup (sc_queues s);
          wakeup = (case sc_timeslice_end s of
              None \<Rightarrow> wakeup
            | Some slice_end \<Rightarrow> Some (case wakeup of None \<Rightarrow> slice_end | Some w \<Rightarrow> min w slice_end))
      in (case wakeup of
            None \<Rightarrow> Some None
          | Some w \<Rightarrow> do { limit \<leftarrow> add_ns hw now MIN_EXEC_TIME_NS; Some (Some (min w limit)) }))"

definition sched_try_resolve :: "WaitFor \<Rightarrow> Scheduler \<Rightarrow> (WaitFor + pid) option" where
  "sched_try_resolve w s = do { p \<leftarrow> sc_running s; Some (try_resolve_immediate w (sc_queues s) p) }"

definition sched_on_event :: "(nat set \<Rightarrow> nat list) \<Rightarrow> eventid \<Rightarrow> Scheduler \<Rightarrow> Scheduler" where
  "sched_on_event ord e s = s\<lparr>sc_queues := on_explicit_event ord e (sc_queues s)\<rparr>"

text \<open>Panics when the process is missing or its page table is not the active one.\<close>

definition store_state :: "pid \<Rightarrow> nat \<Rightarrow> nat \<Rightarrow> Scheduler \<Rightarrow> Scheduler option" where
  "store_state pid page_table stack_pointer s = do {
     p \<leftarrow> sc_processes s pid;
     rassert (pm_phys_addr (p_page_table p) = page_table);
     Some (s\<lparr>sc_processes := (sc_processes s)(pid \<mapsto> p\<lparr>p_stack_pointer := stack_pointer\<rparr>)\<rparr>)
   }"

subsection \<open>Termination\<close>

text \<open>Dropping a process frees its stack, dynamic memory and image, but not its page tables.\<close>

definition drop_process :: "'a Ext \<Rightarrow> Process \<Rightarrow> 'a Mem \<Rightarrow> 'a Mem option" where
  "drop_process x p m = do {
     m \<leftarrow> drop_allocation x (p_stack_memory p) m;
     m \<leftarrow> drop_allocations x (p_dynamic_memory p) m;
     drop_image x (p_elf_image p) m
   }"

definition sched_terminate :: "'a Ext \<Rightarrow> (nat set \<Rightarrow> nat list) \<Rightarrow> bytes option \<Rightarrow> pid
    \<Rightarrow> Scheduler \<Rightarrow> Manager \<Rightarrow> 'a Mem \<Rightarrow> (Scheduler \<times> Manager \<times> 'a Mem) option" where
  "sched_terminate x ord encoded target s mgr m = do {
     (s, mgr, m) \<leftarrow> (case sc_processes s target of
         None \<Rightarrow> Some (s, mgr, m)
       | Some process \<Rightarrow> do {
           let q = queues_on_process_over ord (p_id process) (sc_queues s);
           (mgr, q) \<leftarrow> ipc_on_process_over ord (p_id process) mgr q;
           (mgr, q) \<leftarrow> kernel_publish ord ''process/terminated'' encoded mgr q;
           m \<leftarrow> drop_process x process m;
           Some (s\<lparr>sc_processes := (sc_processes s)(target := None), sc_queues := q\<rparr>, mgr, m)
         });
     Some (if sc_running s = Some target then s\<lparr>sc_running := None, sc_timeslice_end := None\<rparr> else s, mgr, m)
   }"

definition terminate_and_switch :: "'a Ext \<Rightarrow> (nat set \<Rightarrow> nat list) \<Rightarrow> TimerHw \<Rightarrow> instant \<Rightarrow> bytes option \<Rightarrow> pid
    \<Rightarrow> Scheduler \<Rightarrow> Manager \<Rightarrow> 'a Mem \<Rightarrow> (ProcessSwitch \<times> Scheduler \<times> Manager \<times> 'a Mem) option" where
  "terminate_and_switch x ord hw now encoded target s mgr m = do {
     let is_current = (sc_running s = Some target);
     (s, mgr, m) \<leftarrow> sched_terminate x ord encoded target s mgr m;
     (sw, s) \<leftarrow> (if is_current then sched_switch hw now None s else switch_current_or_next s);
     Some (sw, s, mgr, m)
   }"

subsection \<open>Invariant\<close>

definition allocs_ok :: "Allocation list \<Rightarrow> bool" where
  "allocs_ok als \<longleftrightarrow> (\<forall>al \<in> set als. 0 < al_start al \<and> al_start al < 2 ^ 46)"

definition image_ok :: "ElfImage \<Rightarrow> bool" where
  "image_ok elf \<longleftrightarrow> allocs_ok (concat (map snd (ei_sections elf)))"

definition proc_ok :: "Process \<Rightarrow> bool" where
  "proc_ok p \<longleftrightarrow> proc_inv p \<and> allocs_ok [p_stack_memory p] \<and> image_ok (p_elf_image p)"

text \<open>Every process is in the queues exactly once or is the running one, and the table is keyed by
  the ids of its processes.\<close>

definition sched_inv :: "Scheduler \<Rightarrow> bool" where
  "sched_inv s \<longleftrightarrow> queues_inv (sc_queues s) \<and>
     dom (sc_processes s) = queued (sc_queues s) \<union> set_option (sc_running s) \<and>
     queued (sc_queues s) \<inter> set_option (sc_running s) = {} \<and>
     (\<forall>pid p. sc_processes s pid = Some p \<longrightarrow> p_id p = pid \<and> pid < sc_next_pid s \<and> proc_ok p)"

lemma sched_invI:
  assumes "queues_inv (sc_queues s)" "dom (sc_processes s) = queued (sc_queues s) \<union> set_option (sc_running s)"
    "queued (sc_queues s) \<inter> set_option (sc_running s) = {}"
    "\<And>pid p. sc_processes s pid = Some p \<Longrightarrow> p_id p = pid \<and> pid < sc_next_pid s \<and> proc_ok p"
  shows "sched_inv s"
  using assms by (simp add: sched_inv_def)

lemma sched_invD:
  assumes "sched_inv s"
  shows "queues_inv (sc_queues s)" "dom (sc_processes s) = queued (sc_queues s) \<union> set_option (sc_running s)"
    "queued (sc_queues s) \<inter> set_option (sc_running s) = {}"
    "sc_processes s pid = Some p \<Longrightarrow> p_id p = pid" "sc_processes s pid = Some p \<Longrightarrow> pid < sc_next_pid s"
    "sc_processes s pid = Some p \<Longrightarrow> proc_ok p"
  using assms by (auto simp: sched_inv_def)

lemma sched_inv_new: "sched_inv scheduler_new"
  by (simp add: sched_inv_def scheduler_new_def queues_inv_new) (simp add: queues_new_def queued_def)

text \<open>Replacing the queues by queues with the same members.\<close>

lemma sched_inv_queues:
  assumes "sched_inv s" and "queues_inv q" and "queued q = queued (sc_queues s)"
  shows "sched_inv (s\<lparr>sc_queues := q\<rparr>)"
  using assms by (simp add: sched_inv_def)

subsection \<open>Process creation keeps the invariant\<close>

lemma map_checked_inv: "map_checked page frame flags pm = Some pm' \<Longrightarrow> pt_inv pm \<Longrightarrow>
    pt_inv pm' \<and> pm_phys_addr pm' = pm_phys_addr pm"
  by (auto simp: map_checked_def map_to_refines split: if_splits)

lemma map_section_inv:
  "map_section x flags start i frames pm = Some pm' \<Longrightarrow> pt_inv pm \<Longrightarrow>
     pt_inv pm' \<and> pm_phys_addr pm' = pm_phys_addr pm"
proof (induction x flags start i frames pm rule: map_section.induct)
  case (2 x flags start i frame frames pm)
  then show ?case by (auto simp: bind_eq_Some_conv) (metis map_checked_inv)+
qed simp

lemma map_image_inv:
  assumes "map_image x elf pm = Some pm'" and "pt_inv pm"
  shows "pt_inv pm' \<and> pm_phys_addr pm' = pm_phys_addr pm"
  using assms(1) unfolding map_image_def
proof (rule foldM_invariant)
  show "pt_inv pm \<and> pm_phys_addr pm = pm_phys_addr pm" using assms(2) by simp
qed (auto simp: bind_eq_Some_conv split: prod.splits if_splits dest: map_section_inv)

lemma process_page_map_inv:
  assumes "process_page_map x idt common raw pt_frame stack elf = Some pm"
  shows "pt_inv pm \<and> pm_phys_addr pm = al_start pt_frame"
proof -
  from assms obtain a pm1 pm2 pm3 where
    s: "map_checked 0 idt {PRESENT, NO_EXECUTE, WRITABLE} (pm_init (al_start pt_frame) a raw) = Some pm1"
    "map_checked PROCESS_COMMON_CODE common {PRESENT} pm1 = Some pm2"
    "foldM (\<lambda>pm i. map_checked (PROCESS_STACK + i * PAGE_SIZE) (al_start stack + i * PAGE_SIZE)
       {PRESENT, WRITABLE, NO_EXECUTE} pm) pm2 [0 ..< PROCESS_STACK_SIZE_PAGES] = Some pm3"
    "map_image x elf pm3 = Some pm"
    by (auto simp: process_page_map_def Let_def bind_eq_Some_conv split: if_splits)
  have 2: "pt_inv pm2 \<and> pm_phys_addr pm2 = al_start pt_frame"
    using map_checked_inv [OF s(1)] map_checked_inv [OF s(2)] pm_init_refines(1) pm_init_phys by metis
  have 3: "pt_inv pm3 \<and> pm_phys_addr pm3 = al_start pt_frame"
    by (rule foldM_invariant [OF s(3), where I = "\<lambda>q. pt_inv q \<and> pm_phys_addr q = al_start pt_frame", OF 2])
      (metis map_checked_inv)
  then show ?thesis using map_image_inv [OF s(4)] by simp
qed

lemma phys_allocate_bounds:
  assumes x: "ext_ok x" and a: "phys_allocate x PAGE_SIZE PAGE_SIZE m = Some (Some al, m')"
  shows "0 < al_start al \<and> al_start al < 2 ^ 46"
proof -
  obtain q st where q: "x_allocate x PAGE_SIZE PAGE_SIZE (ms_phys m) = Some (q, st)"
    using a by (auto simp: phys_allocate_def split: option.splits)
  show ?thesis
    using allocate_zeroed_ok(2) [OF x q] phys_allocate_ok [OF x q] a page_pos by auto
qed

lemma phys_allocate_zeroed_bounds:
  assumes x: "ext_ok x" and a: "phys_allocate_zeroed x sz al m = Some (Some stack, m')" and "0 < sz"
  shows "0 < al_start stack \<and> al_start stack < 2 ^ 46"
proof -
  obtain q st where q: "x_allocate x sz al (ms_phys m) = Some (q, st)"
    using a by (auto simp: allocate_zeroed_ok(1) [OF x] split: option.splits)
  show ?thesis
    using allocate_zeroed_ok(2) [OF x q] q a assms(3) by (auto simp: allocate_zeroed_ok(1) [OF x])
qed

lemma create_process_result:
  assumes x: "ext_ok x" and elf: "image_ok elf"
    and c: "create_process x idt common raw pid args elf m = Some (Some p, m')"
  shows "p_id p = pid" and "proc_ok p" and "\<not> p_repeat_syscall p"
proof -
  let ?n = "PROCESS_STACK_SIZE_PAGES * PAGE_SIZE"
  have n: "0 < ?n" by (simp add: PROCESS_STACK_SIZE_PAGES_def PAGE_SIZE_def)
  from c obtain stack m1 m2 pt_frame m3 pm sp where
    st: "phys_allocate_zeroed x ?n PAGE_SIZE m = Some (Some stack, m1)"
    and pt: "phys_allocate x PAGE_SIZE PAGE_SIZE m2 = Some (Some pt_frame, m3)"
    and pm: "process_page_map x idt common raw pt_frame stack elf = Some pm"
    and p: "p = \<lparr>p_page_table = pm, p_stack_pointer = sp, p_stack_memory = stack, p_dynamic_memory = [],
        p_repeat_syscall = False, p_elf_image = elf, p_id = pid\<rparr>"
    by (auto simp: create_process_def Let_def bind_eq_Some_conv split: option.splits if_splits prod.splits)
  show "p_id p = pid" "\<not> p_repeat_syscall p" by (simp_all add: p)
  show "proc_ok p"
    using process_page_map_inv [OF pm] phys_allocate_bounds [OF x pt] phys_allocate_zeroed_bounds [OF x st n] elf
    by (simp add: p proc_ok_def proc_inv_def allocs_ok_def)
qed

lemma spawn_inv:
  assumes x: "ext_ok x" and elf: "image_ok elf" and inv: "sched_inv s"
    and sp: "spawn x idt common raw args elf s m = Some (r, s', m')"
  shows "sched_inv s'" and "r = Some pid \<Longrightarrow> pid \<notin> dom (sc_processes s) \<and> pid \<in> dom (sc_processes s')"
proof -
  note D = sched_invD [OF inv]
  have fresh: "sc_next_pid s \<notin> dom (sc_processes s)" using D(5) by blast
  obtain nx c m1 where nx: "pid_next (sc_next_pid s) = Some nx"
    and c: "create_process x idt common raw (sc_next_pid s) args elf m = Some (c, m1)"
    using sp by (auto simp: spawn_def Let_def bind_eq_Some_conv)
  have nx': "nx = sc_next_pid s + 1" using nx by (auto simp: pid_next_def checked_u64_eq_Some split: if_splits)
  have "sched_inv s' \<and> (r = Some pid \<longrightarrow> pid \<notin> dom (sc_processes s) \<and> pid \<in> dom (sc_processes s'))"
  proof (cases c)
    case None
    then have "s' = s\<lparr>sc_next_pid := nx\<rparr>" "r = None" using sp nx c by (auto simp: spawn_def Let_def)
    then show ?thesis using inv nx' by (auto simp: sched_inv_def less_Suc_eq)
  next
    case (Some p)
    obtain q where g: "give (sc_next_pid s) WNone (sc_queues s) = Some q"
      and s': "s' = s\<lparr>sc_next_pid := nx, sc_processes := (sc_processes s)(sc_next_pid s \<mapsto> p), sc_queues := q\<rparr>"
      and r: "r = Some (sc_next_pid s)"
      using sp nx c Some by (auto simp: spawn_def Let_def bind_eq_Some_conv)
    have nq: "sc_next_pid s \<notin> queued (sc_queues s)" "sc_next_pid s \<notin> set_option (sc_running s)"
      using fresh D(2) by auto
    note res = create_process_result [OF x elf c [unfolded Some]]
    have "sched_inv s'"
    proof (rule sched_invI)
      show "queues_inv (sc_queues s')" using give_inv [OF D(1) nq(1) g] by (simp add: s')
      show "dom (sc_processes s') = queued (sc_queues s') \<union> set_option (sc_running s')"
        "queued (sc_queues s') \<inter> set_option (sc_running s') = {}"
        using give_queued [OF D(1) g] D(2,3) nq by (auto simp: s')
      show "p_id p' = pid' \<and> pid' < sc_next_pid s' \<and> proc_ok p'" if "sc_processes s' pid' = Some p'" for pid' p'
        using that res D(4,5,6) nx' by (fastforce simp: s' less_Suc_eq split: if_splits)
    qed
    then show ?thesis using fresh r s' by auto
  qed
  then show "sched_inv s'" "r = Some pid \<Longrightarrow> pid \<notin> dom (sc_processes s) \<and> pid \<in> dom (sc_processes s')" by auto
qed

subsection \<open>Switching keeps the invariant and never panics\<close>

definition clock_ok :: "TimerHw \<Rightarrow> instant \<Rightarrow> bool" where
  "clock_ok hw now \<longleftrightarrow> freq_ok hw \<and> now < 2 ^ 63"

definition waits_left :: "Scheduler \<Rightarrow> bool" where
  "waits_left s \<longleftrightarrow> next_waitid (sc_queues s) + 1 < 2 ^ 64"

lemma slice_end_defined:
  assumes "clock_ok hw now"
  obtains t e where "ns_to_ticks hw TIME_SLICE_NS = Some t" and "add_ticks now t = Some e"
proof -
  obtain f where f: "freq_hz hw = Some f" "f \<le> 500000000000"
    using assms by (auto simp: clock_ok_def freq_ok_def split: option.splits)
  obtain t where t: "ns_to_ticks hw TIME_SLICE_NS = Some t"
    using ns_to_ticks_defined [of hw TIME_SLICE_NS] assms
    by (auto simp: clock_ok_def TIME_SLICE_NS_def ONE_YEAR_NS_def)
  have "t * 1000000000 \<le> TIME_SLICE_NS * f" by (rule ns_to_ticks_le [OF f(1) t])
  also have "\<dots> \<le> 100000000 * 500000000000" using f(2) by (simp add: TIME_SLICE_NS_def)
  finally have "t \<le> 50000000000" by simp
  then have "add_ticks now t = Some (now + t)"
    using assms by (simp add: add_ticks_def clock_ok_def checked_u64_def)
  with t that show thesis by blast
qed

text \<open>What a switch reports about the scheduler.\<close>

definition switch_matches :: "ProcessSwitch \<Rightarrow> Scheduler \<Rightarrow> bool" where
  "switch_matches sw s = (case sw of
     SwContinue \<Rightarrow> False
   | SwIdle \<Rightarrow> sc_running s = None \<and> running (sc_queues s) = []
   | SwSwitch i \<Rightarrow> sc_running s = Some (si_pid i) \<and>
       (\<exists>p. sc_processes s (si_pid i) = Some p \<and> i = switch_info p \<and> \<not> p_repeat_syscall p)
   | SwRepeatSyscall i \<Rightarrow> sc_running s = Some (si_pid i) \<and>
       (\<exists>p. sc_processes s (si_pid i) = Some p \<and> i = switch_info p \<and> p_repeat_syscall p))"

lemma switch_target_matches:
  "sc_running s = Some pid \<Longrightarrow> sc_processes s pid = Some p \<Longrightarrow> p_id p = pid \<Longrightarrow> switch_matches (switch_target p) s"
  by (simp add: switch_matches_def switch_target_def switch_info_def)

text \<open>Activating the next process of queues that hold every process.\<close>

lemma activate_next:
  assumes q: "queues_inv q" and dom: "dom (sc_processes s) = queued q" and t: "take_next q = (Some pid, q')"
    and ok: "\<And>pid p. sc_processes s pid = Some p \<Longrightarrow> p_id p = pid \<and> pid < sc_next_pid s \<and> proc_ok p"
  obtains p where "sc_processes s pid = Some p"
    and "sched_inv (s\<lparr>sc_queues := q', sc_running := Some pid, sc_timeslice_end := e\<rparr>)"
    and "switch_matches (switch_target p) (s\<lparr>sc_queues := q', sc_running := Some pid, sc_timeslice_end := e\<rparr>)"
proof -
  note tn = take_next_queued [OF q t]
  have "pid \<in> dom (sc_processes s)" using dom tn(1) by simp
  then obtain p where p: "sc_processes s pid = Some p" by auto
  have "sched_inv (s\<lparr>sc_queues := q', sc_running := Some pid, sc_timeslice_end := e\<rparr>)"
    by (rule sched_invI) (use take_next_inv [OF q t] tn dom ok in auto)
  then show thesis using that [OF p] switch_target_matches [of _ pid p] p ok [OF p] by simp
qed

lemma sched_switch_inv:
  assumes inv: "sched_inv s" and sw: "sched_switch hw now schedule s = Some (sw, s')"
    and sched: "schedule = None \<Longrightarrow> sc_running s = None"
  shows "sched_inv s'" and "switch_matches sw s'" and "sc_processes s' = sc_processes s"
proof -
  note D = sched_invD [OF inv]
  have ok: "p_id p = pid \<and> pid < sc_next_pid s \<and> proc_ok p" if "sc_processes s pid = Some p" for pid p
    using D that by blast
  obtain q where q: "(case schedule of None \<Rightarrow> Some (sc_queues s)
       | Some w \<Rightarrow> (case sc_running s of None \<Rightarrow> Some (sc_queues s)
         | Some running_pid \<Rightarrow> give running_pid w (sc_queues s))) = Some q"
    using sw unfolding sched_switch_def bind_eq_Some_conv by blast
  have qi: "queues_inv q \<and> dom (sc_processes s) = queued q"
  proof (cases "sc_running s")
    case (Some p)
    then obtain w where "give p w (sc_queues s) = Some q" using sched q by (cases schedule) auto
    moreover have "p \<notin> queued (sc_queues s)" using D(3) Some by auto
    ultimately show ?thesis using give_inv [OF D(1)] give_queued [OF D(1)] D(2) Some by simp
  qed (use q D(1,2) in \<open>simp split: option.splits\<close>)
  obtain r q' where tn: "take_next q = (r, q')" by (cases "take_next q")
  have "sched_inv s' \<and> switch_matches sw s' \<and> sc_processes s' = sc_processes s"
  proof (cases r)
    case None
    have e: "q' = q" "running q = []" using take_next_None tn None by auto
    let ?s = "s\<lparr>sc_queues := q, sc_running := None, sc_timeslice_end := None\<rparr>"
    have "sched_inv ?s" by (rule sched_invI) (use qi D in simp_all)
    moreover have "s' = ?s" "sw = SwIdle" using sw tn None e unfolding sched_switch_def q by simp_all
    ultimately show ?thesis using e by (simp add: switch_matches_def)
  next
    case (Some pid)
    obtain t e p where "add_ticks now t = Some e" "sc_processes s pid = Some p" "sw = switch_target p"
      "s' = s\<lparr>sc_queues := q', sc_running := Some pid, sc_timeslice_end := Some e\<rparr>"
      using sw tn Some unfolding sched_switch_def q by (auto simp: bind_eq_Some_conv)
    then show ?thesis
      using activate_next [OF conjunct1 [OF qi] conjunct2 [OF qi] tn [unfolded Some] ok, where e = "Some e"] by auto
  qed
  then show "sched_inv s'" "switch_matches sw s'" "sc_processes s' = sc_processes s" by auto
qed

lemma sched_switch_ok:
  assumes inv: "sched_inv s" and clock: "clock_ok hw now" and left: "schedule \<noteq> None \<Longrightarrow> waits_left s"
    and sched: "case schedule of None \<Rightarrow> sc_running s = None | Some w \<Rightarrow> wf_wait w"
  shows "\<exists>sw s'. sched_switch hw now schedule s = Some (sw, s') \<and> sched_inv s' \<and> switch_matches sw s' \<and>
    sc_processes s' = sc_processes s"
proof -
  note D = sched_invD [OF inv]
  have "\<exists>q. (case schedule of None \<Rightarrow> Some (sc_queues s)
       | Some w \<Rightarrow> (case sc_running s of None \<Rightarrow> Some (sc_queues s)
         | Some running_pid \<Rightarrow> give running_pid w (sc_queues s))) = Some q \<and> queued q = dom (sc_processes s) \<and> queues_inv q"
  proof (cases "sc_running s")
    case (Some p)
    then obtain w where w: "schedule = Some w" "wf_wait w" using sched by (cases schedule) auto
    obtain q where g: "give p w (sc_queues s) = Some q"
      using give_total [OF w(2)] left w(1) by (auto simp: waits_left_def)
    have "p \<notin> queued (sc_queues s)" using D(3) Some by auto
    then show ?thesis using w Some g give_inv [OF D(1) _ g] give_queued [OF D(1) g] D(2) by simp
  qed (use D(1,2) in \<open>simp split: option.split\<close>)
  then obtain q where q: "(case schedule of None \<Rightarrow> Some (sc_queues s)
       | Some w \<Rightarrow> (case sc_running s of None \<Rightarrow> Some (sc_queues s)
         | Some running_pid \<Rightarrow> give running_pid w (sc_queues s))) = Some q"
    and dom: "queued q = dom (sc_processes s)" "queues_inv q" by blast
  obtain t e where te: "ns_to_ticks hw TIME_SLICE_NS = Some t" "add_ticks now t = Some e"
    by (rule slice_end_defined [OF clock])
  obtain r q' where tn: "take_next q = (r, q')" by (cases "take_next q")
  have "\<exists>p. sc_processes s pid = Some p" if "r = Some pid" for pid
    using take_next_queued(1) [OF dom(2) tn [unfolded that]] dom(1) by (metis domD insertI1)
  then obtain sw s' where "sched_switch hw now schedule s = Some (sw, s')"
    unfolding sched_switch_def q using tn te by (cases r) auto
  moreover have "schedule = None \<Longrightarrow> sc_running s = None" using sched by simp
  ultimately show ?thesis using sched_switch_inv [OF inv] by blast
qed

lemma switch_current_or_next_ok:
  assumes inv: "sched_inv s"
  shows "\<exists>sw s'. switch_current_or_next s = Some (sw, s') \<and> sched_inv s' \<and> switch_matches sw s' \<and>
    sc_processes s' = sc_processes s"
proof -
  note D = sched_invD [OF inv]
  have ok: "p_id p = pid \<and> pid < sc_next_pid s \<and> proc_ok p" if "sc_processes s pid = Some p" for pid p
    using D that by blast
  show ?thesis
  proof (cases "sc_running s")
    case (Some pid)
    then have "pid \<in> dom (sc_processes s)" using D(2) by simp
    then obtain p where p: "sc_processes s pid = Some p" by auto
    then show ?thesis using inv Some switch_target_matches [OF Some p D(4) [OF p]]
      by (simp add: switch_current_or_next_def)
  next
    case None
    obtain r q' where tn: "take_next (sc_queues s) = (r, q')" by (cases "take_next (sc_queues s)")
    show ?thesis
    proof (cases r)
      case r: None
      have "q' = sc_queues s" "running (sc_queues s) = []" using take_next_None tn r by auto
      moreover have "sched_inv (s\<lparr>sc_running := None\<rparr>)" using inv None by (simp add: sched_inv_def)
      ultimately show ?thesis using inv None tn r by (simp add: switch_current_or_next_def switch_matches_def)
    next
      case (Some pid)
      have dom: "dom (sc_processes s) = queued (sc_queues s)" using D(2) None by simp
      let ?s = "s\<lparr>sc_queues := q', sc_running := Some pid, sc_timeslice_end := sc_timeslice_end s\<rparr>"
      obtain p where "sc_processes s pid = Some p" "sched_inv ?s" "switch_matches (switch_target p) ?s"
        by (rule activate_next [OF D(1) dom tn [unfolded Some] ok, where e = "sc_timeslice_end s"])
      moreover have "?s = s\<lparr>sc_running := Some pid, sc_queues := q'\<rparr>" by (cases s) simp
      ultimately show ?thesis using None tn Some by (simp add: switch_current_or_next_def)
    qed
  qed
qed

lemma switch_current_or_next_inv:
  assumes "sched_inv s" and "switch_current_or_next s = Some (sw, s')"
  shows "sched_inv s'" and "switch_matches sw s'" and "sc_processes s' = sc_processes s"
  using switch_current_or_next_ok [OF assms(1)] assms(2) by auto

lemma on_tick_sched_inv: "sched_inv s \<Longrightarrow> sched_inv (s\<lparr>sc_queues := on_tick now (sc_queues s)\<rparr>)"
  using sched_inv_queues on_tick_inv on_tick_queued sched_invD(1) queues_inv_parts by blast

lemma tick_inv:
  assumes "sched_inv s" and "tick hw now later s = Some (sw, s')"
  shows "sched_inv s'" and "switch_matches sw s'" and "sc_processes s' = sc_processes s"
  using sched_switch_inv [OF on_tick_sched_inv [OF assms(1)] assms(2) [unfolded tick_def]] by simp_all

lemma next_waitid_on_tick: "next_waitid (on_tick now qs) = next_waitid qs"
proof (induction now qs rule: on_tick.induct)
  case (1 now qs)
  then show ?case
    by (cases "wait_sleeping qs") (simp_all add: on_tick.simps [of now qs] trigger_wait_fields split: prod.split)
qed

lemma tick_ok:
  assumes inv: "sched_inv s" and clock: "clock_ok hw later" and left: "waits_left s"
  shows "\<exists>sw s'. tick hw now later s = Some (sw, s') \<and> sched_inv s' \<and> switch_matches sw s' \<and>
    sc_processes s' = sc_processes s"
proof -
  let ?s = "s\<lparr>sc_queues := on_tick now (sc_queues s)\<rparr>"
  have "sched_inv ?s" by (rule on_tick_sched_inv [OF inv])
  moreover have "waits_left ?s" using left by (simp add: waits_left_def next_waitid_on_tick)
  ultimately show ?thesis
    unfolding tick_def using sched_switch_ok [of ?s hw later "Some WNone"] clock by simp
qed

subsection \<open>Events, saved contexts and termination\<close>

lemma sched_on_event_inv:
  assumes "iter_order ord" and "sched_inv s"
  shows "sched_inv (sched_on_event ord e s)"
  using sched_inv_queues [OF assms(2)] on_explicit_event_inv [OF assms(1)] on_explicit_event_queued
    sched_invD(1) [OF assms(2)]
  by (simp add: sched_on_event_def)

lemma sched_inv_update_process:
  assumes "sched_inv s" and "sc_processes s pid = Some p" and "p_id p' = pid" and "proc_ok p'"
  shows "sched_inv (s\<lparr>sc_processes := (sc_processes s)(pid \<mapsto> p')\<rparr>)"
proof -
  note D = sched_invD [OF assms(1)]
  have "pid \<in> queued (sc_queues s) \<union> set_option (sc_running s)" using D(2) assms(2) by blast
  then show ?thesis
    by (intro sched_invI) (use D assms in \<open>auto split: if_splits\<close>)
qed

lemma store_state_inv:
  assumes "sched_inv s" and "store_state pid page_table sp s = Some s'"
  shows "sched_inv s'"
proof -
  obtain p where p: "sc_processes s pid = Some p" "s' = s\<lparr>sc_processes := (sc_processes s)(pid \<mapsto> p\<lparr>p_stack_pointer := sp\<rparr>)\<rparr>"
    using assms(2) by (auto simp: store_state_def bind_eq_Some_conv split: if_splits)
  show ?thesis unfolding p(2)
    by (rule sched_inv_update_process [OF assms(1) p(1)])
       (use sched_invD(4,6) [OF assms(1) p(1)] in \<open>simp_all add: proc_ok_def proc_inv_def\<close>)
qed

lemma drop_process_ok:
  assumes x: "ext_ok x" and p: "proc_ok p"
  shows "\<exists>m'. drop_process x p m = Some m' \<and> ms_ram m' = ms_ram m \<and> ms_page_map m' = ms_page_map m \<and>
    ms_free_list m' = ms_free_list m"
proof -
  let ?als = "p_stack_memory p # p_dynamic_memory p @ concat (map snd (ei_sections (p_elf_image p)))"
  have "\<And>al. al \<in> set ?als \<Longrightarrow> 0 < al_start al \<and> al_start al < 2 ^ 46"
    using p by (auto simp: proc_ok_def proc_inv_def allocs_ok_def image_ok_def)
  moreover have "drop_process x p m = drop_allocations x ?als m"
    by (cases "drop_allocation x (p_stack_memory p) m")
       (simp_all add: drop_process_def drop_image_def drop_allocations_def foldM_append)
  ultimately show ?thesis using drop_allocations_ok [OF x, of ?als m] by simp
qed

lemma topic_terminated: "topic_new ''process/terminated'' \<noteq> None"
  by code_simp

lemma sched_terminate_ok:
  assumes x: "ext_ok x" and ord: "iter_order ord" and inv: "sched_inv s" and mgr: "mgr_inv mgr"
    and run: "sc_running s = Some target"
  shows "\<exists>s' mgr' m'. sched_terminate x ord (Some data) target s mgr m = Some (s', mgr', m') \<and> sched_inv s' \<and>
    mgr_inv mgr' \<and> sc_running s' = None \<and> sc_processes s' = (sc_processes s)(target := None) \<and>
    or_default (process_subscriptions mgr' target) = {} \<and> ms_ram m' = ms_ram m \<and>
    ms_page_map m' = ms_page_map m \<and> ms_free_list m' = ms_free_list m"
proof -
  note D = sched_invD [OF inv]
  have "target \<in> dom (sc_processes s)" using D(2) run by simp
  then obtain p where p: "sc_processes s target = Some p" by auto
  have nq: "target \<notin> queued (sc_queues s)" using D(3) run by auto
  let ?q = "queues_on_process_over ord target (sc_queues s)"
  have q: "queues_inv ?q" "queued ?q = queued (sc_queues s)"
    using on_process_over_inv [OF ord D(1)] on_process_over_queued [OF D(1)] nq by (auto simp: queued_def)
  obtain mgr1 q1 where 1: "ipc_on_process_over ord target mgr ?q = Some (mgr1, q1)" "mgr_inv mgr1"
      "queues_inv q1" "queued q1 = queued ?q" "or_default (process_subscriptions mgr1 target) = {}"
    using ipc_on_process_over_total [OF ord mgr q(1), of target] by blast
  obtain t where t: "topic_new ''process/terminated'' = Some t" using topic_terminated by blast
  obtain mgr2 q2 where 2: "kernel_publish ord ''process/terminated'' (Some data) mgr1 q1 = Some (mgr2, q2)"
      "mgr_inv mgr2" "queues_inv q2" "queued q2 = queued q1" 
    using kernel_publish_total [OF ord 1(2,3) t, of data] by blast
  have "process_subscriptions mgr2 = process_subscriptions mgr1" by (rule kernel_publish_subscriptions [OF 2(1)])
  obtain m' where m': "drop_process x p m = Some m'" "ms_ram m' = ms_ram m" "ms_page_map m' = ms_page_map m"
      "ms_free_list m' = ms_free_list m"
    using drop_process_ok [OF x D(6) [OF p]] by blast
  let ?s = "s\<lparr>sc_processes := (sc_processes s)(target := None), sc_queues := q2, sc_running := None,
      sc_timeslice_end := None\<rparr>"
  have "sched_terminate x ord (Some data) target s mgr m = Some (?s, mgr2, m')"
    using p D(4) [OF p] 1(1) 2(1) m'(1) run by (simp add: sched_terminate_def Let_def)
  moreover have "sched_inv ?s"
    by (rule sched_invI) (use D 1 2 q nq run in \<open>auto split: if_splits\<close>)
  ultimately show ?thesis
    using 2(2) 1(5) m' \<open>process_subscriptions mgr2 = process_subscriptions mgr1\<close> by simp
qed

lemma terminate_and_switch_ok:
  assumes "ext_ok x" and "iter_order ord" and "sched_inv s" and "mgr_inv mgr" and run: "sc_running s = Some target"
    and clock: "clock_ok hw now"
  shows "\<exists>sw s' mgr' m'. terminate_and_switch x ord hw now (Some data) target s mgr m = Some (sw, s', mgr', m') \<and>
    sched_inv s' \<and> mgr_inv mgr' \<and> switch_matches sw s' \<and> sc_processes s' = (sc_processes s)(target := None) \<and>
    or_default (process_subscriptions mgr' target) = {} \<and> ms_ram m' = ms_ram m \<and>
    ms_page_map m' = ms_page_map m \<and> ms_free_list m' = ms_free_list m"
proof -
  obtain s1 mgr' m' where 1: "sched_terminate x ord (Some data) target s mgr m = Some (s1, mgr', m')" "sched_inv s1"
      "mgr_inv mgr'" "sc_running s1 = None" "sc_processes s1 = (sc_processes s)(target := None)"
      "or_default (process_subscriptions mgr' target) = {}" "ms_ram m' = ms_ram m"
      "ms_page_map m' = ms_page_map m" "ms_free_list m' = ms_free_list m"
    using sched_terminate_ok [OF assms(1-5), of data m] by blast
  obtain sw s' where 2: "sched_switch hw now None s1 = Some (sw, s')" "sched_inv s'" "switch_matches sw s'"
      "sc_processes s' = sc_processes s1"
    using sched_switch_ok [OF 1(2) clock, of None] 1(4) by auto
  have "terminate_and_switch x ord hw now (Some data) target s mgr m = Some (sw, s', mgr', m')"
    using 1(1) 2(1) run by (simp add: terminate_and_switch_def)
  then show ?thesis using 1 2 by simp
qed

lemma terminate_and_switch_inv:
  assumes x: "ext_ok x" and ord: "iter_order ord" and inv: "sched_inv s" and mgr: "mgr_inv mgr" and run: "sc_running s = Some target"
    and t: "terminate_and_switch x ord hw now encoded target s mgr m = Some (sw, s', mgr', m')"
  shows "sched_inv s'" "mgr_inv mgr'" "switch_matches sw s'" "sc_processes s' = (sc_processes s)(target := None)"
    "ms_ram m' = ms_ram m" "ms_page_map m' = ms_page_map m" "ms_free_list m' = ms_free_list m"
proof -
  have "target \<in> dom (sc_processes s)" using sched_invD(2) [OF inv] run by simp
  then obtain data where data: "encoded = Some data"
    using t by (cases encoded) (auto simp: terminate_and_switch_def sched_terminate_def kernel_publish_def bind_eq_Some_conv Let_def)
  obtain s1 mgr1 m1 where 1: "sched_terminate x ord encoded target s mgr m = Some (s1, mgr1, m1)" "sched_inv s1"
      "mgr_inv mgr1" "sc_running s1 = None" "sc_processes s1 = (sc_processes s)(target := None)" "ms_ram m1 = ms_ram m"
      "ms_page_map m1 = ms_page_map m" "ms_free_list m1 = ms_free_list m"
    using sched_terminate_ok [OF x ord inv mgr run, of data m] data by blast
  have sw: "sched_switch hw now None s1 = Some (sw, s')" and eqs: "mgr' = mgr1" "m' = m1"
    using t 1(1) run by (auto simp: terminate_and_switch_def bind_eq_Some_conv)
  note i = sched_switch_inv [OF 1(2) sw 1(4)]
  show "sched_inv s'" "switch_matches sw s'" by (fact i)+
  show "mgr_inv mgr'" "sc_processes s' = (sc_processes s)(target := None)" "ms_ram m' = ms_ram m"
    "ms_page_map m' = ms_page_map m" "ms_free_list m' = ms_free_list m"
    using i(3) 1 eqs by simp_all
qed

end
