(* ===== verification/Entropy.thy ===== *)
theory Entropy
  imports ByteCodec
begin

text \<open>
  The entropy pool (\<open>src/random.rs\<close>). What the processor delivers is an input: the readings
  of the time stamp counter and the results of single \<open>rdseed\<close> or \<open>rdrand\<close>
  instructions, each an infinite sequence with the position of the next one. The hash function
  of the crate \<open>sha2\<close> is an argument.
\<close>

unbundle bit_operations_syntax

subsection \<open>Processor inputs\<close>

record Inputs =
  tsc_values :: "nat \<Rightarrow> nat"
  tsc_reads :: nat
  hwr_values :: "nat \<Rightarrow> u64 option"
  hwr_reads :: nat
  has_rdseed :: bool
  has_rdrand :: bool

definition tsc_read :: "Inputs \<Rightarrow> nat \<times> Inputs" where
  "tsc_read c = (tsc_values c (tsc_reads c), c\<lparr>tsc_reads := tsc_reads c + 1\<rparr>)"

text \<open>The retry loop of the two instructions: a failed attempt clears the carry flag.\<close>

fun hw_retry :: "nat \<Rightarrow> Inputs \<Rightarrow> u64 option \<times> Inputs" where
  "hw_retry 0 c = (None, c)"
| "hw_retry (Suc n) c =
     (let r = hwr_values c (hwr_reads c); c = c\<lparr>hwr_reads := hwr_reads c + 1\<rparr>
      in case r of Some v \<Rightarrow> (Some v, c) | None \<Rightarrow> hw_retry n c)"

text \<open>\<open>rdseed\<close> and \<open>rdrand\<close> panic when all ten attempts fail.\<close>

definition hw_random :: "Inputs \<Rightarrow> (u64 \<times> Inputs) option" where
  "hw_random c = (case hw_retry 10 c of (r, c) \<Rightarrow> do { v \<leftarrow> r; Some (v, c) })"

definition read_best_hw_random :: "Inputs \<Rightarrow> (u64 option \<times> Inputs) option" where
  "read_best_hw_random c =
     (if has_rdseed c then do { (v, c) \<leftarrow> hw_random c; Some (Some v, c) }
      else if has_rdrand c then do { (v, c) \<leftarrow> hw_random c; Some (Some v, c) }
      else Some (None, c))"

subsection \<open>The pool\<close>

record Pool =
  pool_values :: "u64 list"
  pool_read_index :: nat
  pool_write_index :: nat

definition POOL_LEN :: nat where "POOL_LEN = 512"

definition pool_new :: Pool where
  "pool_new = \<lparr>pool_values = replicate POOL_LEN 0, pool_read_index = 0, pool_write_index = 0\<rparr>"

text \<open>The atomic \<open>fetch_add\<close> of an index wraps at the width of \<open>usize\<close>.\<close>

definition push_seed :: "u64 \<Rightarrow> Pool \<Rightarrow> Pool" where
  "push_seed v pl =
     (let idx = pool_write_index pl mod POOL_LEN
      in pl\<lparr>pool_values := (pool_values pl)[idx := pool_values pl ! idx XOR v],
           pool_write_index := (pool_write_index pl + 1) mod 2 ^ 64\<rparr>)"

definition fast_entropy :: "Pool \<Rightarrow> Inputs \<Rightarrow> (u64 \<times> Inputs) option" where
  "fast_entropy pl c = do {
     let (t, c) = tsc_read c;
     let v = word_rotl (pool_read_index pl mod 2 ^ 32) (of_nat t :: u64);
     (r, c) \<leftarrow> read_best_hw_random c;
     Some (case r of None \<Rightarrow> v | Some w \<Rightarrow> v XOR w, c)
   }"

definition insert_entropy :: "u64 \<Rightarrow> Pool \<Rightarrow> Inputs \<Rightarrow> (Pool \<times> Inputs) option" where
  "insert_entropy v pl c = do {
     (a, c) \<leftarrow> fast_entropy pl c;
     (b, c) \<leftarrow> fast_entropy pl c;
     Some (push_seed (word_rotl (unat b mod 2 ^ 32) (v XOR a)) pl, c)
   }"

definition read_one :: "Pool \<Rightarrow> Inputs \<Rightarrow> (u64 \<times> Pool \<times> Inputs) option" where
  "read_one pl c = do {
     (pl, c) \<leftarrow> insert_entropy 0 pl c;
     let idx = pool_read_index pl mod POOL_LEN;
     let v = pool_values pl ! idx;
     Some (v, pl\<lparr>pool_values := (pool_values pl)[idx := v + 1],
                pool_read_index := (pool_read_index pl + 1) mod 2 ^ 64\<rparr>, c)
   }"

definition random_read :: "(bytes \<Rightarrow> bytes) \<Rightarrow> Pool \<Rightarrow> Inputs \<Rightarrow> (u64 \<times> Pool \<times> Inputs) option" where
  "random_read sha256 pl c = do {
     (v, pl, c) \<leftarrow> read_one pl c;
     result \<leftarrow> slice (sha256 (to_le 8 (unat v))) 0 8;
     Some (of_nat (from_le result), pl, c)
   }"

text \<open>\<open>fill_bytes\<close> of the random number generator: a fresh value for every chunk of 8 bytes.\<close>

fun fill_bytes :: "(bytes \<Rightarrow> bytes) \<Rightarrow> nat \<Rightarrow> Pool \<Rightarrow> Inputs \<Rightarrow> (bytes \<times> Pool \<times> Inputs) option" where
  "fill_bytes sha256 n pl c = (if n = 0 then Some ([], pl, c) else do {
     (v, pl, c) \<leftarrow> random_read sha256 pl c;
     (bs, pl, c) \<leftarrow> fill_bytes sha256 (n - 8) pl c;
     Some (take (min n 8) (to_le 8 (unat v)) @ bs, pl, c)
   })"

declare fill_bytes.simps [simp del]

definition random_init :: "Pool \<Rightarrow> Inputs \<Rightarrow> (Pool \<times> Inputs) option" where
  "random_init pl c = foldM (\<lambda>(pl, c) _. insert_entropy 0 pl c) (pl, c) [0 ..< POOL_LEN * 5]"

subsection \<open>Facts\<close>

definition pool_inv :: "Pool \<Rightarrow> bool" where
  "pool_inv pl \<longleftrightarrow> length (pool_values pl) = POOL_LEN \<and> pool_read_index pl < 2 ^ 64 \<and> pool_write_index pl < 2 ^ 64"

lemma pool_inv_new: "pool_inv pool_new"
  by (simp add: pool_inv_def pool_new_def)

lemma push_seed_inv: "pool_inv pl \<Longrightarrow> pool_inv (push_seed v pl)"
  by (simp add: pool_inv_def push_seed_def Let_def)

lemma insert_entropy_inv: "insert_entropy v pl c = Some (pl', c') \<Longrightarrow> pool_inv pl \<Longrightarrow> pool_inv pl'"
  by (auto simp: insert_entropy_def bind_eq_Some_conv push_seed_inv)

lemma read_one_inv: "read_one pl c = Some (v, pl', c') \<Longrightarrow> pool_inv pl \<Longrightarrow> pool_inv pl'"
  by (auto simp: read_one_def bind_eq_Some_conv Let_def pool_inv_def dest!: insert_entropy_inv)

lemma random_read_inv: "random_read sha256 pl c = Some (v, pl', c') \<Longrightarrow> pool_inv pl \<Longrightarrow> pool_inv pl'"
  by (auto simp: random_read_def bind_eq_Some_conv dest: read_one_inv)

text \<open>Inserting touches one slot only, and the slots are visited round robin.\<close>

lemma push_seed_slots:
  assumes "pool_inv pl" and "i < POOL_LEN"
  shows "pool_values (push_seed v pl) ! i =
    (if i = pool_write_index pl mod POOL_LEN then pool_values pl ! i XOR v else pool_values pl ! i)"
  using assms by (auto simp: push_seed_def pool_inv_def Let_def)

text \<open>The bytes requested are the bytes delivered.\<close>

lemma fill_bytes_length: "fill_bytes sha256 n pl c = Some (bs, pl', c') \<Longrightarrow> length bs = n"
proof (induction sha256 n pl c arbitrary: bs pl' c' rule: fill_bytes.induct)
  case (1 sha256 n pl c)
  show ?case
  proof (cases "n = 0")
    case True
    then show ?thesis using "1.prems" by (simp add: fill_bytes.simps)
  next
    case False
    then obtain v pl1 c1 rest where r: "random_read sha256 pl c = Some (v, pl1, c1)"
      and f: "fill_bytes sha256 (n - 8) pl1 c1 = Some (rest, pl', c')"
      and bs: "bs = take (min n 8) (to_le 8 (unat v)) @ rest"
      using "1.prems" by (subst (asm) fill_bytes.simps) (auto simp: bind_eq_Some_conv)
    have "length rest = n - 8" by (rule "1.IH" [OF False r _ _ f]) simp_all
    then show ?thesis by (simp add: bs)
  qed
qed

end
