(* ===== verification/Syslog.thy ===== *)
theory Syslog
  imports Prelude "HOL-Library.Sublist"
begin

text \<open>
  The kernel log (\<open>src/syslog.rs\<close>): the text sent to the debug port, and the buffer that the
  system call \<open>kernel_log_read\<close> drains. A log record of the crate \<open>log\<close> is its level,
  target, module path and formatted message. The serial port and the screen are not modelled.
\<close>

subsection \<open>Records\<close>

datatype Level = LError | LWarn | LInfo | LDebug | LTrace

fun level_rank :: "Level \<Rightarrow> nat" where
  "level_rank LError = 1"
| "level_rank LWarn = 2"
| "level_rank LInfo = 3"
| "level_rank LDebug = 4"
| "level_rank LTrace = 5"

fun level_name :: "Level \<Rightarrow> string" where
  "level_name LError = ''ERROR''"
| "level_name LWarn = ''WARN''"
| "level_name LInfo = ''INFO''"
| "level_name LDebug = ''DEBUG''"
| "level_name LTrace = ''TRACE''"

record LogRecord =
  lr_level :: Level
  lr_target :: string
  lr_module :: "string option"
  lr_args :: string

definition LEVEL_SCREEN :: Level where "LEVEL_SCREEN = LDebug"
definition LEVEL_PORTE9 :: Level where "LEVEL_PORTE9 = LDebug"

text \<open>Left and right aligned fields of a format string.\<close>

definition pad_right :: "nat \<Rightarrow> string \<Rightarrow> string" where
  "pad_right n s = s @ replicate (n - length s) (CHR '' '')"

definition pad_left :: "nat \<Rightarrow> string \<Rightarrow> string" where
  "pad_left n s = replicate (n - length s) (CHR '' '') @ s"

definition newline :: char where "newline = char_of (10 :: nat)"

subsection \<open>Writing\<close>

text \<open>\<open>write_str\<close> of the debug port: line ends become CR LF, a NUL byte panics.\<close>

fun port_write :: "string \<Rightarrow> string option" where
  "port_write [] = Some []"
| "port_write (c # s) = do {
     rassert (c \<noteq> CHR 0x00);
     out \<leftarrow> port_write s;
     Some (if c = newline then CHR 0x0D # newline # out else c # out)
   }"

definition process_output_target :: string where
  "process_output_target = ''d7os::syscall::PROCESS_OUTPUT''"

definition log_target :: "LogRecord \<Rightarrow> string" where
  "log_target r = (if lr_target r = process_output_target then ''PROCESS_OUTPUT'' else lr_target r)"

definition level_le :: "Level \<Rightarrow> Level \<Rightarrow> bool" where
  "level_le a b \<longleftrightarrow> level_rank a \<le> level_rank b"

definition log_enabled :: "Level \<Rightarrow> bool" where
  "log_enabled l \<longleftrightarrow> level_le l LEVEL_SCREEN \<or> level_le l LEVEL_PORTE9"

text \<open>Records of the allocator and of the memory modules never reach the buffer.\<close>

definition from_memory :: "string option \<Rightarrow> bool" where
  "from_memory path = (case path of
     None \<Rightarrow> True
   | Some p \<Rightarrow> sublist ''::memory::'' p \<or> prefix ''allogator::'' p)"

text \<open>\<open>log\<close>: the text for the debug port and the new contents of the buffer.\<close>

definition syslog_log :: "nat \<Rightarrow> bool \<Rightarrow> LogRecord \<Rightarrow> string \<Rightarrow> (string \<times> string) option" where
  "syslog_log cpu can_allocate r wal =
     (if lr_module r = Some ''aml::parser'' \<and> lr_level r = LTrace then Some ([], wal)
      else do {
        let target = log_target r;
        let line = ''[c'' @ show_nat cpu @ ''] '' @ pad_right 25 target @ '' '' @
              pad_right 5 (level_name (lr_level r)) @ '' '' @ lr_args r @ [newline];
        out \<leftarrow> (if level_le (lr_level r) LEVEL_PORTE9 then port_write line else Some []);
        (if from_memory (lr_module r) then Some (out, wal)
         else if level_le (lr_level r) LEVEL_SCREEN \<and> can_allocate then
           Some (out, wal @ pad_right 5 (level_name (lr_level r)) @ '' '' @ target @ '' - '' @ lr_args r @ [newline])
         else Some (out, wal))
      })"

definition process_output :: "nat \<Rightarrow> bool \<Rightarrow> pid \<Rightarrow> string \<Rightarrow> string \<Rightarrow> (string \<times> string) option" where
  "process_output cpu can_allocate pid s wal = syslog_log cpu can_allocate
     \<lparr>lr_level = LInfo, lr_target = process_output_target, lr_module = Some process_output_target,
      lr_args = ''[pid='' @ pad_left 2 (show_nat pid) @ ''] '' @ s\<rparr> wal"

subsection \<open>Reading\<close>

text \<open>\<open>syscall_read\<close>: the bytes copied to the front of the buffer, and the remaining log.\<close>

definition syslog_read :: "nat \<Rightarrow> string \<Rightarrow> string \<times> string" where
  "syslog_read buffer_len wal =
     (let count = min (length wal) buffer_len in (take count wal, drop count wal))"

subsection \<open>Facts\<close>

lemma port_write_iff: "(\<exists>out. port_write s = Some out) \<longleftrightarrow> CHR 0x00 \<notin> set s"
  by (induction s) (auto simp: rassert_def)

text \<open>Reading in any number of steps gives the log in order, without loss or repetition.\<close>

fun syslog_reads :: "nat list \<Rightarrow> string \<Rightarrow> string list \<times> string" where
  "syslog_reads [] wal = ([], wal)"
| "syslog_reads (n # ns) wal = (let (r, wal) = syslog_read n wal; (rs, wal) = syslog_reads ns wal in (r # rs, wal))"

lemma syslog_reads_concat: "syslog_reads ns wal = (rs, wal') \<Longrightarrow> concat rs @ wal' = wal"
proof (induction ns arbitrary: wal rs)
  case (Cons n ns)
  then show ?case by (auto simp: syslog_read_def Let_def split: prod.splits)
qed simp

lemma syslog_read_length: "syslog_read n wal = (r, wal') \<Longrightarrow> length r \<le> n \<and> r @ wal' = wal"
  by (auto simp: syslog_read_def Let_def)

end
