(* ===== verification/PicIdt.thy ===== *)
theory PicIdt
  imports Prelude
begin

text \<open>
  The chained interrupt controllers (\<open>src/driver/pic.rs\<close>) and the interrupt descriptors
  (\<open>src/interrupt/idt.rs\<close>). The bytes written to the ports are collected in order; what the
  status registers return is an argument.
\<close>

unbundle bit_operations_syntax

subsection \<open>The controllers\<close>

definition PIC1_COMMAND :: nat where "PIC1_COMMAND = 0x20"
definition PIC2_COMMAND :: nat where "PIC2_COMMAND = 0xA0"
definition PIC1_DATA :: nat where "PIC1_DATA = 0x21"
definition PIC2_DATA :: nat where "PIC2_DATA = 0xA1"
definition PIC_CMD_EOI :: u8 where "PIC_CMD_EOI = 0x20"
definition PIC_CMD_INIT :: u8 where "PIC_CMD_INIT = 0x11"
definition PIC_CMD_READ_ISR :: u8 where "PIC_CMD_READ_ISR = 0x0b"
definition IO_WAIT_PORT :: nat where "IO_WAIT_PORT = 0x80"

record Pic =
  pic_offset :: u8
  pic_command_port :: nat
  pic_data_port :: nat

record ChainedPics =
  pics_1 :: Pic
  pics_2 :: Pic
  pics_enabled :: bool
  pics_out :: "(nat \<times> u8) list"

definition pics_new :: "u8 \<Rightarrow> u8 \<Rightarrow> ChainedPics" where
  "pics_new offset1 offset2 =
     \<lparr>pics_1 = \<lparr>pic_offset = offset1, pic_command_port = PIC1_COMMAND, pic_data_port = PIC1_DATA\<rparr>,
      pics_2 = \<lparr>pic_offset = offset2, pic_command_port = PIC2_COMMAND, pic_data_port = PIC2_DATA\<rparr>,
      pics_enabled = False, pics_out = []\<rparr>"

definition pic_write :: "nat \<Rightarrow> u8 \<Rightarrow> ChainedPics \<Rightarrow> ChainedPics" where
  "pic_write port v c = c\<lparr>pics_out := pics_out c @ [(port, v)]\<rparr>"

text \<open>The addition is checked for overflow, but only evaluated when the first comparison holds.\<close>

definition pic_handles :: "Pic \<Rightarrow> u8 \<Rightarrow> bool option" where
  "pic_handles p i = (if pic_offset p \<le> i
     then (if unat (pic_offset p) + 8 < 256 then Some (i < pic_offset p + 8) else None) else Some False)"

definition pics_handles :: "ChainedPics \<Rightarrow> u8 \<Rightarrow> bool option" where
  "pics_handles c i = do {
     a \<leftarrow> pic_handles (pics_1 c) i;
     if a then Some True else pic_handles (pics_2 c) i
   }"

definition send_eoi :: "Pic \<Rightarrow> ChainedPics \<Rightarrow> ChainedPics" where
  "send_eoi p c = pic_write (pic_command_port p) PIC_CMD_EOI c"

definition pics_init :: "ChainedPics \<Rightarrow> ChainedPics" where
  "pics_init c =
     (let io_wait = pic_write IO_WAIT_PORT 0; p1 = pics_1 c; p2 = pics_2 c;
          c = io_wait (pic_write (pic_command_port p1) PIC_CMD_INIT c);
          c = io_wait (pic_write (pic_command_port p2) PIC_CMD_INIT c);
          c = io_wait (pic_write (pic_data_port p1) (pic_offset p1) c);
          c = io_wait (pic_write (pic_data_port p2) (pic_offset p2) c);
          c = io_wait (pic_write (pic_data_port p1) 4 c);
          c = io_wait (pic_write (pic_data_port p2) 2 c);
          c = io_wait (pic_write (pic_data_port p1) 1 c);
          c = io_wait (pic_write (pic_data_port p2) 1 c);
          c = pic_write (pic_data_port p1) 0xF8 c;
          c = pic_write (pic_data_port p2) 0xB1 c
      in c\<lparr>pics_enabled := True\<rparr>)"

definition pics_disable :: "ChainedPics \<Rightarrow> ChainedPics" where
  "pics_disable c = (pic_write (pic_data_port (pics_2 c)) 0xFF
     (pic_write (pic_data_port (pics_1 c)) 0xFF c))\<lparr>pics_enabled := False\<rparr>"

text \<open>The two status bytes are the values the ports return after the command.\<close>

definition pics_read_isr :: "u8 \<Rightarrow> u8 \<Rightarrow> ChainedPics \<Rightarrow> u16 \<times> ChainedPics" where
  "pics_read_isr isr1 isr2 c =
     (push_bit 8 (ucast isr2) OR ucast isr1,
      pic_write (pic_command_port (pics_2 c)) PIC_CMD_READ_ISR
        (pic_write (pic_command_port (pics_1 c)) PIC_CMD_READ_ISR c))"

definition notify_eoi :: "u8 \<Rightarrow> ChainedPics \<Rightarrow> ChainedPics option" where
  "notify_eoi i c = do {
     h \<leftarrow> pics_handles c i;
     (if h then do {
        second \<leftarrow> pic_handles (pics_2 c) i;
        let c = (if second then send_eoi (pics_2 c) c else c);
        Some (send_eoi (pics_1 c) c)
      } else Some c)
   }"

definition notify_eoi_primary :: "ChainedPics \<Rightarrow> ChainedPics" where
  "notify_eoi_primary c = send_eoi (pics_1 c) c"

subsection \<open>Interrupt descriptors\<close>

record Descriptor =
  d_pointer_low :: u16
  d_gdt_selector :: u16
  d_ist_offset :: u8
  d_options :: u8
  d_pointer_middle :: u16
  d_pointer_high :: u32
  d_reserved :: u32

definition GDT_SELECTOR_CODE :: u16 where "GDT_SELECTOR_CODE = 0x08"
definition IDT_ENTRY_COUNT :: nat where "IDT_ENTRY_COUNT = 0x100"

definition descriptor_new :: "bool \<Rightarrow> u64 \<Rightarrow> u8 \<Rightarrow> u8 option \<Rightarrow> Descriptor option" where
  "descriptor_new present pointer ring ist = do {
     ist_offset \<leftarrow> (case ist of None \<Rightarrow> Some 0 | Some i \<Rightarrow> if i = 255 then None else Some (i + 1));
     rassert (ist_offset < 8);
     rassert (present \<or> (pointer = 0 \<and> ring = 0));
     Some \<lparr>d_pointer_low = ucast (pointer AND 0xffff), d_gdt_selector = GDT_SELECTOR_CODE,
       d_ist_offset = ist_offset,
       d_options = 0x0E OR push_bit 5 ring OR push_bit 7 (if present then 1 else 0),
       d_pointer_middle = ucast (drop_bit 16 (pointer AND 0xffff0000)),
       d_pointer_high = ucast (drop_bit 32 (pointer AND 0xffffffff00000000)), d_reserved = 0\<rparr>
   }"

text \<open>What the processor reads from a descriptor.\<close>

definition descriptor_pointer :: "Descriptor \<Rightarrow> u64" where
  "descriptor_pointer d = push_bit 32 (ucast (d_pointer_high d)) OR push_bit 16 (ucast (d_pointer_middle d)) OR
     ucast (d_pointer_low d)"

definition descriptor_present :: "Descriptor \<Rightarrow> bool" where
  "descriptor_present d = bit (d_options d) 7"

subsection \<open>Facts\<close>

text \<open>After the setup with the offsets of the kernel, every vector from 0x20 to 0x2f is acknowledged, at the
  second controller first when it comes from there.\<close>

lemma notify_eoi_kernel:
  assumes "pics_1 c = pics_1 (pics_new 0x20 0x28)" and "pics_2 c = pics_2 (pics_new 0x20 0x28)"
  shows "notify_eoi i c = Some (c\<lparr>pics_out := pics_out c @
    (if 0x28 \<le> i \<and> i < 0x30 then [(PIC2_COMMAND, PIC_CMD_EOI), (PIC1_COMMAND, PIC_CMD_EOI)]
     else if 0x20 \<le> i \<and> i < 0x28 then [(PIC1_COMMAND, PIC_CMD_EOI)] else [])\<rparr>)"
proof -
  have h: "pic_handles (pics_1 c) i = Some (0x20 \<le> i \<and> i < 0x28)" "pic_handles (pics_2 c) i = Some (0x28 \<le> i \<and> i < 0x30)"
    using assms by (simp_all add: pic_handles_def pics_new_def)
  have "\<not> (0x20 \<le> i \<and> i < 0x28 \<and> 0x28 \<le> i \<and> i < 0x30)" by auto
  moreover have "pic_command_port (pics_1 c) = PIC1_COMMAND" "pic_command_port (pics_2 c) = PIC2_COMMAND"
    using assms by (simp_all add: pics_new_def)
  ultimately show ?thesis
    using h by (cases c) (auto simp: notify_eoi_def pics_handles_def send_eoi_def pic_write_def)
qed

lemma descriptor_roundtrip:
  assumes "descriptor_new present pointer ring ist = Some d"
  shows "descriptor_pointer d = pointer" and "ring < 4 \<Longrightarrow> descriptor_present d = present"
proof -
  have d: "d_pointer_low d = ucast (pointer AND 0xffff)" "d_pointer_middle d = ucast (drop_bit 16 (pointer AND 0xffff0000))"
    "d_pointer_high d = ucast (drop_bit 32 (pointer AND 0xffffffff00000000))"
    "d_options d = 0x0E OR push_bit 5 ring OR push_bit 7 (if present then 1 else 0)"
    using assms by (auto simp: descriptor_new_def bind_eq_Some_conv split: if_splits)
  have masks: "(0xffff :: u64) = mask 16" "(0xffff0000 :: u64) = push_bit 16 (mask 16)"
    "(0xffffffff00000000 :: u64) = push_bit 32 (mask 32)" by (simp_all add: mask_eq_exp_minus_1)
  show "descriptor_pointer d = pointer"
    unfolding descriptor_pointer_def d masks
  proof (rule bit_word_eqI)
    fix n assume n: "n < LENGTH(64)"
    consider "n < 16" | "16 \<le> n" "n < 32" | "32 \<le> n" by linarith
    then show "bit ((push_bit 32 (ucast (ucast (drop_bit 32 (pointer AND push_bit 32 (mask 32))) :: u32)) OR
        push_bit 16 (ucast (ucast (drop_bit 16 (pointer AND push_bit 16 (mask 16))) :: u16)) OR
        ucast (ucast (pointer AND mask 16) :: u16)) :: u64) n = bit pointer n"
      using n by cases (auto simp: bit_simps)
  qed
  show "descriptor_present d = present" if "ring < 4"
  proof -
    have "ring div 4 = 0" using that by (simp add: div_word_less)
    then have "\<not> bit ring 2" by (simp add: bit_iff_odd)
    then show ?thesis unfolding descriptor_present_def d by (auto simp: bit_simps)
  qed
qed

end
