(* ===== verification/Syscalls.thy ===== *)
theory Syscalls
  imports Scheduler Entropy Syslog PicIdt
begin

text \<open>
  The system calls (\<open>src/syscall/mod.rs\<close>) on the state of the whole kernel. A system call runs
  with its process taken out of the scheduler; it returns the result, the process and the state.
  What is not under the kernel's control is a field of \<open>Env\<close>: the third-party crates, the
  frames and table contents fixed at boot, and the processor the code runs on. Of the log
  records only the process output is kept.
\<close>

subsection \<open>State and environment\<close>

record 'a KState =
  k_sched :: Scheduler
  k_mgr :: Manager
  k_env :: Kenv
  k_next_event :: nat
  k_mem :: "'a Mem"
  k_dma :: "BlockState list"
  k_wal :: string
  k_port :: string
  k_pool :: Pool
  k_cpu :: Inputs
  k_deadline :: "TimerWrite option"
  k_eoi :: nat
  k_pic :: ChainedPics
  k_pit_ticks :: u64

record ('f, 'a) Env =
  e_ext :: "'a Ext"
  e_ord :: "nat set \<Rightarrow> nat list"
  e_timer :: TimerHw
  e_bsp :: bool
  e_cpu_id :: nat
  e_can_allocate :: bool
  e_idt :: nat
  e_common :: nat
  e_raw :: "nat \<Rightarrow> nat \<Rightarrow> pt_entry"
  e_enc_message :: "Message \<Rightarrow> bytes option"
  e_enc_terminated :: "pid \<Rightarrow> 'f ProcessResult \<Rightarrow> bytes option"
  e_enc_unit :: "bytes option"
  e_enc_u8 :: "u8 \<Rightarrow> bytes option"
  e_page_fault :: "u64 \<Rightarrow> u64 option"
  e_enabled :: bool
  e_sha256 :: "bytes \<Rightarrow> bytes"

datatype 'f SyscallResult =
    ScContinue "nat + nat"
  | ScSwitch "nat + nat" WaitFor
  | ScRepeatAfter WaitFor
  | ScTerminate "'f ProcessResult"

record RawSyscall =
  rs_routine :: nat
  rs_arg0 :: nat
  rs_arg1 :: nat
  rs_arg2 :: nat
  rs_arg3 :: nat

type_synonym ('f, 'a) sys = "('f SyscallResult \<times> Process \<times> 'a KState) option"

subsection \<open>Common parts\<close>

definition ok_ret :: "nat \<Rightarrow> Process \<Rightarrow> 'a KState \<Rightarrow> ('f, 'a) sys" where
  "ok_ret v p k = Some (ScContinue (Inr v), p, k)"

definition err_ret :: "SyscallErrorCode \<Rightarrow> Process \<Rightarrow> 'a KState \<Rightarrow> ('f, 'a) sys" where
  "err_ret c p k = Some (ScContinue (Inl (unat (error_code c))), p, k)"

definition bad_pointer :: "nat \<Rightarrow> Process \<Rightarrow> 'a KState \<Rightarrow> ('f, 'a) sys" where
  "bad_pointer a p k = Some (ScTerminate (Failed (PointerError (of_nat a))), p, k)"

text \<open>The macros \<open>try_len!\<close>, \<open>try_str!\<close> and \<open>try_ipc!\<close> return early from the system call.\<close>

definition MAX_LEN :: nat where "MAX_LEN = 0x400000000"

definition try_len :: "nat \<Rightarrow> Process \<Rightarrow> 'a KState \<Rightarrow> ('f, 'a) sys \<Rightarrow> ('f, 'a) sys" where
  "try_len len p k f = (if len > MAX_LEN then err_ret ec_too_large p k else f)"

definition text_of :: "bytes \<Rightarrow> string" where
  "text_of bs = map (\<lambda>b. char_of (unat b)) bs"

definition with_str :: "bytes \<Rightarrow> Process \<Rightarrow> 'a KState \<Rightarrow> (bytes \<Rightarrow> ('f, 'a) sys) \<Rightarrow> ('f, 'a) sys" where
  "with_str bs p k f = do {
     r \<leftarrow> try_str bs;
     (case r of Inl e \<Rightarrow> err_ret e p k | Inr s \<Rightarrow> f s)
   }"

definition with_ipc :: "IpcError + 'v \<Rightarrow> Process \<Rightarrow> 'a KState \<Rightarrow> ('v \<Rightarrow> ('f, 'a) sys) \<Rightarrow> ('f, 'a) sys" where
  "with_ipc r p k f = (case r of Inl e \<Rightarrow> err_ret (ipc_error_code e) p k | Inr v \<Rightarrow> f v)"

text \<open>A slice of process memory that is read only; its area is released again.\<close>

definition with_slice :: "('f, 'a) Env \<Rightarrow> nat \<Rightarrow> nat \<Rightarrow> Process \<Rightarrow> 'a KState
    \<Rightarrow> (bytes \<Rightarrow> 'a KState \<Rightarrow> ('f, 'a) sys) \<Rightarrow> ('f, 'a) sys" where
  "with_slice env ptr len p k f = do {
     (r, m) \<leftarrow> read_slice (e_ext env) p ptr len (k_mem k);
     let k = k\<lparr>k_mem := m\<rparr>;
     (case r of None \<Rightarrow> bad_pointer ptr p k | Some bs \<Rightarrow> f bs k)
   }"

text \<open>A slice that is written: the body gives its result and the bytes to store at the front.\<close>

definition with_slice_mut :: "('f, 'a) Env \<Rightarrow> nat \<Rightarrow> nat \<Rightarrow> Process \<Rightarrow> 'a KState
    \<Rightarrow> ('a KState \<Rightarrow> ('f SyscallResult \<times> bytes \<times> 'a KState) option) \<Rightarrow> ('f, 'a) sys" where
  "with_slice_mut env ptr len p k f = do {
     (r, m) \<leftarrow> memory_slice_mut (e_ext env) p ptr len (k_mem k);
     let k = k\<lparr>k_mem := m\<rparr>;
     (case r of
        None \<Rightarrow> bad_pointer ptr p k
      | Some (start, npages, a) \<Rightarrow> do {
          (res, bs, k) \<leftarrow> f k;
          rassert (length bs \<le> len);
          ram \<leftarrow> store (ms_page_map (k_mem k)) (ms_ram (k_mem k)) a bs;
          fl \<leftarrow> va_free start npages (ms_free_list (k_mem k));
          Some (res, p, k\<lparr>k_mem := (k_mem k)\<lparr>ms_ram := ram, ms_free_list := fl\<rparr>\<rparr>)
        })
   }"

definition with_topic :: "('f, 'a) Env \<Rightarrow> nat \<Rightarrow> nat \<Rightarrow> Process \<Rightarrow> 'a KState
    \<Rightarrow> (Topic \<Rightarrow> 'a KState \<Rightarrow> ('f, 'a) sys) \<Rightarrow> ('f, 'a) sys" where
  "with_topic env ptr len p k f = with_slice env ptr len p k (\<lambda>bs k. with_str bs p k (\<lambda>s.
     (case topic_try_new (text_of s) of
        Inl _ \<Rightarrow> err_ret (ipc_error_code InvalidTopic) p k
      | Inr t \<Rightarrow> f t k)))"

text \<open>The events of an IPC result go to the scheduler.\<close>

definition k_consume :: "('f, 'a) Env \<Rightarrow> 'v IpcResult \<Rightarrow> 'a KState \<Rightarrow> (IpcError + 'v) \<times> 'a KState" where
  "k_consume env r k = (case consume_events (e_ord env) r (sc_queues (k_sched k)) of
     (v, q) \<Rightarrow> (v, k\<lparr>k_sched := (k_sched k)\<lparr>sc_queues := q\<rparr>\<rparr>))"

definition now :: "'a KState \<Rightarrow> instant \<times> 'a KState" where
  "now k = (case tsc_read (k_cpu k) of (t, c) \<Rightarrow> (t, k\<lparr>k_cpu := c\<rparr>))"

subsection \<open>Processes and time\<close>

definition syscall_debug_print :: "('f, 'a) Env \<Rightarrow> RawSyscall \<Rightarrow> Process \<Rightarrow> 'a KState \<Rightarrow> ('f, 'a) sys" where
  "syscall_debug_print env rs p k = do {
     let str_len = rs_arg0 rs;
     str_ptr \<leftarrow> x_virt_new (e_ext env) (rs_arg1 rs);
     try_len str_len p k (with_slice env str_ptr str_len p k (\<lambda>bs k. with_str bs p k (\<lambda>s. do {
       (out, wal) \<leftarrow> process_output (e_cpu_id env) (e_can_allocate env) (p_id p) (text_of s) (k_wal k);
       ok_ret 0 p (k\<lparr>k_wal := wal, k_port := k_port k @ out\<rparr>)
     })))
   }"

definition syscall_exec :: "('f, 'a) Env \<Rightarrow> RawSyscall \<Rightarrow> Process \<Rightarrow> 'a KState \<Rightarrow> ('f, 'a) sys" where
  "syscall_exec env rs p k =
     (let image_len = rs_arg0 rs; args_size = rs_arg2 rs
      in try_len image_len p k (try_len args_size p k (do {
        args_ptr \<leftarrow> x_virt_new (e_ext env) (rs_arg3 rs);
        with_slice env args_ptr args_size p k (\<lambda>s k. do {
          r \<leftarrow> exec_args s;
          (case r of
             Inl e \<Rightarrow> err_ret e p k
           | Inr args \<Rightarrow> do {
               image_ptr \<leftarrow> x_virt_new (e_ext env) (rs_arg1 rs);
               with_slice env image_ptr image_len p k (\<lambda>img k. do {
                 (elf, m) \<leftarrow> load_elf (e_ext env) img (k_mem k);
                 let k = k\<lparr>k_mem := m\<rparr>;
                 (case elf of
                    None \<Rightarrow> err_ret ec_out_of_memory p k
                  | Some elf \<Rightarrow> do {
                      (r, s, m) \<leftarrow> spawn (e_ext env) (e_idt env) (e_common env) (e_raw env) args elf
                        (k_sched k) (k_mem k);
                      let k = k\<lparr>k_sched := s, k_mem := m\<rparr>;
                      (case r of
                         Some pid \<Rightarrow> ok_ret pid p k
                       | None \<Rightarrow> err_ret ec_out_of_memory p k)
                    })
               })
             })
        })
      })))"

definition syscall_random :: "('f, 'a) Env \<Rightarrow> RawSyscall \<Rightarrow> Process \<Rightarrow> 'a KState \<Rightarrow> ('f, 'a) sys" where
  "syscall_random env rs p k = do {
     (pl, c) \<leftarrow> insert_entropy (of_nat (rs_arg0 rs)) (k_pool k) (k_cpu k);
     (v, pl, c) \<leftarrow> random_read (e_sha256 env) pl c;
     Some (ScSwitch (Inr (unat v)) WNone, p, k\<lparr>k_pool := pl, k_cpu := c\<rparr>)
   }"

text \<open>Only the boot processor has a sleep queue; elsewhere the call panics.\<close>

definition syscall_sched_sleep_ns :: "('f, 'a) Env \<Rightarrow> RawSyscall \<Rightarrow> Process \<Rightarrow> 'a KState \<Rightarrow> ('f, 'a) sys" where
  "syscall_sched_sleep_ns env rs p k = do {
     rassert (e_bsp env);
     let (t, k) = now k;
     t \<leftarrow> add_ns (e_timer env) t (rs_arg0 rs);
     Some (ScSwitch (Inr 0) (Time t), p, k)
   }"

subsection \<open>Inter-process communication\<close>

definition syscall_ipc_subscribe :: "('f, 'a) Env \<Rightarrow> RawSyscall \<Rightarrow> Process \<Rightarrow> 'a KState \<Rightarrow> ('f, 'a) sys" where
  "syscall_ipc_subscribe env rs p k = (case flags_from_bits (of_nat (rs_arg2 rs)) of
     None \<Rightarrow> Some (ScTerminate (Failed SyscallArgument), p, k)
   | Some flags \<Rightarrow> (let filter_len = rs_arg0 rs in try_len filter_len p k (do {
       filter_ptr \<leftarrow> x_virt_new (e_ext env) (rs_arg1 rs);
       with_slice env filter_ptr filter_len p k (\<lambda>bs k. with_str bs p k (\<lambda>s.
         (case filter_try_new (text_of s) (\<not> flags_contains flags SF_PREFIX) of
            Inl _ \<Rightarrow> err_ret (ipc_error_code InvalidTopic) p k
          | Inr filt \<Rightarrow> do {
              (r, mgr) \<leftarrow> subscribe (k_mgr k) (p_id p) filt (flags_contains flags SF_RELIABLE)
                (flags_contains flags SF_PIPE);
              let k = k\<lparr>k_mgr := mgr\<rparr>;
              (case r of
                 Inl e \<Rightarrow> err_ret (ipc_error_code (Subscription e)) p k
               | Inr sub \<Rightarrow> ok_ret sub p k)
            })))
     })))"

definition syscall_ipc_unsubscribe :: "('f, 'a) Env \<Rightarrow> RawSyscall \<Rightarrow> Process \<Rightarrow> 'a KState \<Rightarrow> ('f, 'a) sys" where
  "syscall_ipc_unsubscribe env rs p k = do {
     (r, mgr) \<leftarrow> unsubscribe (p_id p) (rs_arg0 rs) (k_mgr k);
     let (v, k) = k_consume env r (k\<lparr>k_mgr := mgr\<rparr>);
     with_ipc v p k (\<lambda>_. ok_ret 0 p k)
   }"

text \<open>The lengths and addresses of topic and data are checked before any memory is read.\<close>

definition topic_data_args :: "('f, 'a) Env \<Rightarrow> RawSyscall \<Rightarrow> Process \<Rightarrow> 'a KState
    \<Rightarrow> (nat \<Rightarrow> nat \<Rightarrow> ('f, 'a) sys) \<Rightarrow> ('f, 'a) sys" where
  "topic_data_args env rs p k f = try_len (rs_arg0 rs) p k (do {
     topic_ptr \<leftarrow> x_virt_new (e_ext env) (rs_arg1 rs);
     try_len (rs_arg2 rs) p k (do {
       data_ptr \<leftarrow> x_virt_new (e_ext env) (rs_arg3 rs);
       f topic_ptr data_ptr
     })
   })"

definition syscall_ipc_publish :: "('f, 'a) Env \<Rightarrow> RawSyscall \<Rightarrow> Process \<Rightarrow> 'a KState \<Rightarrow> ('f, 'a) sys" where
  "syscall_ipc_publish env rs p k = topic_data_args env rs p k (\<lambda>topic_ptr data_ptr.
     with_topic env topic_ptr (rs_arg0 rs) p k (\<lambda>topic k.
       with_slice env data_ptr (rs_arg2 rs) p k (\<lambda>data k. do {
         (r, mgr) \<leftarrow> publish (e_ord env) topic data (k_mgr k);
         let (v, k) = k_consume env r (k\<lparr>k_mgr := mgr\<rparr>);
         with_ipc v p k (\<lambda>_. ok_ret 0 p k)
       })))"

definition syscall_ipc_deliver :: "('f, 'a) Env \<Rightarrow> RawSyscall \<Rightarrow> Process \<Rightarrow> 'a KState \<Rightarrow> ('f, 'a) sys" where
  "syscall_ipc_deliver env rs p k = topic_data_args env rs p k (\<lambda>topic_ptr data_ptr.
     if delivery_complete (p_id p) (k_mgr k) then do {
       (r, mgr) \<leftarrow> after_delivery (p_id p) (k_mgr k);
       let (v, k) = k_consume env r (k\<lparr>k_mgr := mgr\<rparr>);
       with_ipc v p k (\<lambda>_. ok_ret 0 p k)
     }
     else with_topic env topic_ptr (rs_arg0 rs) p k (\<lambda>topic k.
       with_slice env data_ptr (rs_arg2 rs) p k (\<lambda>data k. do {
         (r, mgr, ne) \<leftarrow> deliver (e_ord env) (k_env k) (p_id p) topic data (k_mgr k) (k_next_event k);
         let (v, k) = k_consume env r (k\<lparr>k_mgr := mgr, k_next_event := ne\<rparr>);
         with_ipc v p k (\<lambda>d. case d of
             DeliverProcess event \<Rightarrow> Some (ScRepeatAfter (Event event), p, k)
           | DeliverKernel \<Rightarrow> ok_ret 0 p k)
       })))"

definition syscall_ipc_deliver_reply :: "('f, 'a) Env \<Rightarrow> RawSyscall \<Rightarrow> Process \<Rightarrow> 'a KState \<Rightarrow> ('f, 'a) sys" where
  "syscall_ipc_deliver_reply env rs p k = topic_data_args env rs p k (\<lambda>topic_ptr data_ptr.
     with_topic env topic_ptr (rs_arg0 rs) p k (\<lambda>topic k.
       with_slice env data_ptr (rs_arg2 rs) p k (\<lambda>data k. do {
         (r, mgr) \<leftarrow> deliver_reply (e_ord env) topic data (k_mgr k);
         let (v, k) = k_consume env r (k\<lparr>k_mgr := mgr\<rparr>);
         with_ipc v p k (\<lambda>_. ok_ret 0 p k)
       })))"

text \<open>A message larger than the buffer panics.\<close>

definition syscall_ipc_receive :: "('f, 'a) Env \<Rightarrow> RawSyscall \<Rightarrow> Process \<Rightarrow> 'a KState \<Rightarrow> ('f, 'a) sys" where
  "syscall_ipc_receive env rs p k = (let sub = rs_arg0 rs; buf_len = rs_arg1 rs in
     try_len buf_len p k (do {
       buf_ptr \<leftarrow> x_virt_new (e_ext env) (rs_arg2 rs);
       with_slice_mut env buf_ptr buf_len p k (\<lambda>k. do {
         (r, mgr, ne) \<leftarrow> receive (p_id p) sub (k_mgr k) (k_next_event k);
         let (v, k) = k_consume env r (k\<lparr>k_mgr := mgr, k_next_event := ne\<rparr>);
         (case v of
            Inl e \<Rightarrow> Some (ScContinue (Inl (unat (error_code (ipc_error_code e)))), [], k)
          | Inr (Inl event) \<Rightarrow> Some (ScRepeatAfter (Event event), [], k)
          | Inr (Inr msg) \<Rightarrow> do {
              ser_msg \<leftarrow> e_enc_message env msg;
              Some (ScContinue (Inr (length ser_msg)), ser_msg, k)
            })
       })
     }))"

definition syscall_ipc_acknowledge :: "('f, 'a) Env \<Rightarrow> RawSyscall \<Rightarrow> Process \<Rightarrow> 'a KState \<Rightarrow> ('f, 'a) sys" where
  "syscall_ipc_acknowledge env rs p k = do {
     (r, mgr) \<leftarrow> acknowledge (rs_arg0 rs) (rs_arg1 rs) (rs_arg2 rs \<noteq> 0) (k_mgr k);
     let (v, k) = k_consume env r (k\<lparr>k_mgr := mgr\<rparr>);
     with_ipc v p k (\<lambda>_. ok_ret 0 p k)
   }"

fun chunks8 :: "bytes \<Rightarrow> nat list" where
  "chunks8 (a # b # c # d # e # f # g # h # bs) = from_le [a, b, c, d, e, f, g, h] # chunks8 bs"
| "chunks8 _ = []"

text \<open>The loop over the subscriptions: the index of the first one with a message, or all the
  conditions to wait for.\<close>

fun select_loop :: "nat \<Rightarrow> nat list \<Rightarrow> WaitFor list \<Rightarrow> Manager \<Rightarrow> nat
    \<Rightarrow> ((nat + WaitFor list) \<times> Manager \<times> nat) option" where
  "select_loop i [] conditions mgr ne = Some (Inr conditions, mgr, ne)"
| "select_loop i (sub # subs) conditions mgr ne = (case waiting_for sub mgr ne of
     None \<Rightarrow> None
   | Some (condition, mgr, ne) \<Rightarrow>
       (if condition = WNone then Some (Inl i, mgr, ne)
        else select_loop (i + 1) subs (conditions @ [condition]) mgr ne))"

definition syscall_ipc_select :: "('f, 'a) Env \<Rightarrow> RawSyscall \<Rightarrow> Process \<Rightarrow> 'a KState \<Rightarrow> ('f, 'a) sys" where
  "syscall_ipc_select env rs p k = (let subs_len = rs_arg0 rs; nonblocking = rs_arg2 rs in
     if subs_len = 0 then err_ret ec_empty_list_argument p k
     else do {
       subs \<leftarrow> x_virt_new (e_ext env) (rs_arg1 rs);
       len \<leftarrow> checked_u64 (subs_len * 8);
       try_len len p k (with_slice env subs len p k (\<lambda>bs k. do {
         (r, mgr, ne) \<leftarrow> select_loop 0 (chunks8 bs) [] (k_mgr k) (k_next_event k);
         let k = k\<lparr>k_mgr := mgr, k_next_event := ne\<rparr>;
         (case r of
            Inl i \<Rightarrow> ok_ret i p k
          | Inr conditions \<Rightarrow>
              (if nonblocking \<noteq> 0 then err_ret ec_would_block p k
               else Some (ScRepeatAfter (FirstOf conditions), p, k)))
       }))
     })"

definition syscall_kernel_log_read :: "('f, 'a) Env \<Rightarrow> RawSyscall \<Rightarrow> Process \<Rightarrow> 'a KState \<Rightarrow> ('f, 'a) sys" where
  "syscall_kernel_log_read env rs p k = (let buf_len = rs_arg0 rs in
     try_len buf_len p k (do {
       buf_ptr \<leftarrow> x_virt_new (e_ext env) (rs_arg1 rs);
       with_slice_mut env buf_ptr buf_len p k (\<lambda>k.
         (let (r, wal) = syslog_read buf_len (k_wal k)
          in Some (ScContinue (Inr (length r)), map (\<lambda>c. of_nat (of_char c)) r, k\<lparr>k_wal := wal\<rparr>)))
     }))"

subsection \<open>Memory\<close>

definition mmap_writable :: "nat \<Rightarrow> bool option" where
  "mmap_writable flags = (case mp_from_bits (of_nat flags) of
     None \<Rightarrow> None
   | Some fl \<Rightarrow> (if fl = MP_READ then Some False else if fl = MP_READ OR MP_WRITE then Some True else None))"

text \<open>The frames of the inclusive range, mapped one after the other.\<close>

definition mmap_frames :: "'a Ext \<Rightarrow> PtFlag set \<Rightarrow> nat \<Rightarrow> nat \<Rightarrow> nat \<Rightarrow> PageMap \<Rightarrow> PageMap option" where
  "mmap_frames x flags virt first final pt = foldM (\<lambda>pt i. do {
     page \<leftarrow> virt_add x virt (i * PAGE_SIZE);
     rassert (page mod PAGE_SIZE = 0);
     Some (map_to pt page ((first + i) * PAGE_SIZE) flags) }) pt [0 ..< final + 1 - first]"

definition syscall_mmap_physical :: "('f, 'a) Env \<Rightarrow> RawSyscall \<Rightarrow> Process \<Rightarrow> 'a KState \<Rightarrow> ('f, 'a) sys" where
  "syscall_mmap_physical env rs p k = do {
     phys \<leftarrow> phys_addr (rs_arg1 rs);
     virt \<leftarrow> x_virt_new (e_ext env) (rs_arg2 rs);
     (case mmap_writable (rs_arg3 rs) of
        None \<Rightarrow> err_ret ec_mmap_invalid_protection_flags p k
      | Some writable \<Rightarrow>
          (let flags = {PRESENT, NO_EXECUTE} \<union> (if writable then {WRITABLE} else {}) in
           if virt mod PAGE_SIZE \<noteq> 0 then err_ret ec_ptr_unaligned p k
           else if phys mod PAGE_SIZE \<noteq> 0 then err_ret ec_ptr_unaligned p k
           else do {
             e \<leftarrow> checked_u64 (phys + rs_arg0 rs);
             e \<leftarrow> phys_addr e;
             _ \<leftarrow> phys_to_virt (e_ext env) (pm_phys_addr (p_page_table p));
             pt \<leftarrow> mmap_frames (e_ext env) flags virt (phys div PAGE_SIZE) (e div PAGE_SIZE) (p_page_table p);
             ok_ret 0 (p\<lparr>p_page_table := pt\<rparr>) k
           }))
   }"

definition syscall_dma_allocate :: "RawSyscall \<Rightarrow> Process \<Rightarrow> 'a KState \<Rightarrow> ('f, 'a) sys" where
  "syscall_dma_allocate rs p k = do {
     rassert (rs_arg0 rs \<noteq> 0);
     (region, blocks) \<leftarrow> dma_allocate (rs_arg0 rs) (k_dma k);
     ok_ret (dr_start region) p (k\<lparr>k_dma := blocks\<rparr>)
   }"

definition memory_ret :: "((SyscallErrorCode + unit) \<times> Process \<times> 'a Mem) \<Rightarrow> 'a KState \<Rightarrow> ('f, 'a) sys" where
  "memory_ret res k = (case res of (r, p, m) \<Rightarrow>
     (let k = k\<lparr>k_mem := m\<rparr> in case r of Inr _ \<Rightarrow> ok_ret 0 p k | Inl code \<Rightarrow> err_ret code p k))"

definition syscall_mem_alloc :: "('f, 'a) Env \<Rightarrow> RawSyscall \<Rightarrow> Process \<Rightarrow> 'a KState \<Rightarrow> ('f, 'a) sys" where
  "syscall_mem_alloc env rs p k = do {
     area_ptr \<leftarrow> x_virt_new (e_ext env) (rs_arg1 rs);
     (case mp_from_bits (of_nat (rs_arg2 rs)) of
        None \<Rightarrow> err_ret ec_mmap_invalid_protection_flags p k
      | Some flags \<Rightarrow> do {
          res \<leftarrow> memory_alloc (e_ext env) area_ptr (rs_arg0 rs) flags p (k_mem k);
          memory_ret res k
        })
   }"

definition syscall_mem_dealloc :: "('f, 'a) Env \<Rightarrow> RawSyscall \<Rightarrow> Process \<Rightarrow> 'a KState \<Rightarrow> ('f, 'a) sys" where
  "syscall_mem_dealloc env rs p k = do {
     area_ptr \<leftarrow> x_virt_new (e_ext env) (rs_arg1 rs);
     res \<leftarrow> memory_dealloc (e_ext env) area_ptr (rs_arg0 rs) p (k_mem k);
     memory_ret res k
   }"

subsection \<open>Dispatch\<close>

fun syscall_routine :: "('f, 'a) Env \<Rightarrow> SyscallNumber \<Rightarrow> RawSyscall \<Rightarrow> Process \<Rightarrow> 'a KState \<Rightarrow> ('f, 'a) sys" where
  "syscall_routine env sys_exit rs p k = Some (ScTerminate (Completed (of_nat (rs_arg0 rs))), p, k)"
| "syscall_routine env sys_get_pid rs p k = ok_ret (p_id p) p k"
| "syscall_routine env sys_debug_print rs p k = syscall_debug_print env rs p k"
| "syscall_routine env sys_exec rs p k = syscall_exec env rs p k"
| "syscall_routine env sys_random rs p k = syscall_random env rs p k"
| "syscall_routine env sys_sched_yield rs p k = Some (ScSwitch (Inr 0) WNone, p, k)"
| "syscall_routine env sys_sched_sleep_ns rs p k = syscall_sched_sleep_ns env rs p k"
| "syscall_routine env sys_ipc_subscribe rs p k = syscall_ipc_subscribe env rs p k"
| "syscall_routine env sys_ipc_unsubscribe rs p k = syscall_ipc_unsubscribe env rs p k"
| "syscall_routine env sys_ipc_publish rs p k = syscall_ipc_publish env rs p k"
| "syscall_routine env sys_ipc_deliver rs p k = syscall_ipc_deliver env rs p k"
| "syscall_routine env sys_ipc_deliver_reply rs p k = syscall_ipc_deliver_reply env rs p k"
| "syscall_routine env sys_ipc_receive rs p k = syscall_ipc_receive env rs p k"
| "syscall_routine env sys_ipc_acknowledge rs p k = syscall_ipc_acknowledge env rs p k"
| "syscall_routine env sys_ipc_select rs p k = syscall_ipc_select env rs p k"
| "syscall_routine env sys_kernel_log_read rs p k = syscall_kernel_log_read env rs p k"
| "syscall_routine env sys_irq_set_handler rs p k = None"
| "syscall_routine env sys_mmap_physical rs p k = syscall_mmap_physical env rs p k"
| "syscall_routine env sys_dma_allocate rs p k = syscall_dma_allocate rs p k"
| "syscall_routine env sys_dma_free rs p k = ok_ret 0 p k"
| "syscall_routine env sys_mem_alloc rs p k = syscall_mem_alloc env rs p k"
| "syscall_routine env sys_mem_dealloc rs p k = syscall_mem_dealloc env rs p k"

definition syscall :: "('f, 'a) Env \<Rightarrow> RawSyscall \<Rightarrow> Process \<Rightarrow> 'a KState \<Rightarrow> ('f, 'a) sys" where
  "syscall env rs p k = (case syscall_try_from (of_nat (rs_routine rs)) of
     Some n \<Rightarrow> syscall_routine env n rs p k
   | None \<Rightarrow> Some (ScTerminate (Failed (SyscallNumberError (of_nat (rs_routine rs)))), p, k))"

datatype 'f SyscallResultAction =
    AcTerminate "'f ProcessResult"
  | AcContinue
  | AcSwitch WaitFor

text \<open>The registers of the caller are on its stack; the result replaces two of them.\<close>

definition read_syscall :: "'a Mem \<Rightarrow> Process \<Rightarrow> RawSyscall option" where
  "read_syscall m p = do {
     rax \<leftarrow> read_stack_u64 m p 0;
     rdi \<leftarrow> read_stack_u64 m p 5;
     rsi \<leftarrow> read_stack_u64 m p 4;
     rdx \<leftarrow> read_stack_u64 m p 3;
     rcx \<leftarrow> read_stack_u64 m p 2;
     Some \<lparr>rs_routine = rax, rs_arg0 = rdi, rs_arg1 = rsi, rs_arg2 = rdx, rs_arg3 = rcx\<rparr>
   }"

definition write_result :: "'a Mem \<Rightarrow> Process \<Rightarrow> nat + nat \<Rightarrow> 'a Mem option" where
  "write_result m p r = (case r of
     Inr v \<Rightarrow> do { m \<leftarrow> write_stack_u64 m p 0 1; write_stack_u64 m p 5 v }
   | Inl v \<Rightarrow> do { m \<leftarrow> write_stack_u64 m p 0 0; write_stack_u64 m p 5 v })"

fun result_value :: "'f SyscallResult \<Rightarrow> (nat + nat) option" where
  "result_value (ScContinue r) = Some r"
| "result_value (ScSwitch r _) = Some r"
| "result_value _ = None"

fun result_action :: "'f SyscallResult \<Rightarrow> bool \<times> 'f SyscallResultAction" where
  "result_action (ScContinue _) = (False, AcContinue)"
| "result_action (ScSwitch _ w) = (False, AcSwitch w)"
| "result_action (ScTerminate r) = (False, AcTerminate r)"
| "result_action (ScRepeatAfter w) = (True, AcSwitch w)"

definition handle_syscall :: "('f, 'a) Env \<Rightarrow> pid \<Rightarrow> 'a KState \<Rightarrow> ('f SyscallResultAction \<times> 'a KState) option" where
  "handle_syscall env pid k = do {
     rassert (e_bsp env);
     let (p, s) = take_process_by_id pid (k_sched k);
     p \<leftarrow> p;
     let k = k\<lparr>k_sched := s\<rparr>;
     rs \<leftarrow> read_syscall (k_mem k) p;
     (res, p, k) \<leftarrow> syscall env rs p k;
     m \<leftarrow> (case result_value res of None \<Rightarrow> Some (k_mem k) | Some r \<Rightarrow> write_result (k_mem k) p r);
     let (rep, action) = result_action res;
     let p = p\<lparr>p_repeat_syscall := rep\<rparr>;
     Some (action, k\<lparr>k_mem := m, k_sched := give_back_process p (k_sched k)\<rparr>)
   }"

end
