(* ===== verification/SyscallInv.thy ===== *)
theory SyscallInv
  imports Syscalls
begin

text \<open>
  What every system call keeps. \<open>call_inv\<close> is the invariant while a process is taken out of
  the scheduler; \<open>keeps\<close> states that a computation, if it returns, establishes it and asks to
  wait for a condition the scheduler accepts. The rules of \<open>keeps_intros\<close> follow the
  combinators the system calls are built from.
\<close>

subsection \<open>Memory operations\<close>

lemma slice_pages_inv:
  "slice_pages x flags pt r area idx kpm = Some (b, kpm') \<Longrightarrow> pt_inv kpm \<Longrightarrow> pt_inv kpm'"
proof (induction x flags pt r area idx kpm rule: slice_pages.induct)
  case (2 x flags pt r_start area i "is" kpm)
  from "2.prems"(1) show ?case
    using "2.IH" "2.prems"(2) map_to_refines(1)
    by (auto simp: bind_eq_Some_conv Let_def split: option.splits if_splits)
qed simp

text \<open>After the area is released again, the free address space is as before.\<close>

definition slice_done :: "'a Mem \<Rightarrow> (nat \<times> nat \<times> nat) option \<Rightarrow> 'a Mem \<Rightarrow> bool" where
  "slice_done m r m' = (case r of
     None \<Rightarrow> mem_inv m' \<and> va_space (ms_free_list m') = va_space (ms_free_list m)
   | Some (start, n, a) \<Rightarrow> (\<forall>fl. va_free start n (ms_free_list m') = Some fl \<longrightarrow>
       mem_inv (m'\<lparr>ms_free_list := fl\<rparr>) \<and> va_space fl = va_space (ms_free_list m)))"

lemma memory_slice_inv:
  assumes s: "memory_slice_flags x flags p ptr len m = Some (r, m')" and m: "mem_inv m"
  shows "ms_ram m' = ms_ram m" and "ms_phys m' = ms_phys m" and "slice_done m r m'"
proof -
  obtain n start fl ok kpm where a: "va_allocate n (ms_free_list m) = Some (start, fl)"
    and sp: "slice_pages x flags (p_page_table p) (align_down ptr) start [0 ..< n] (ms_page_map m) = Some (ok, kpm)"
    and res: "if ok then \<exists>a. r = Some (start, n, a) \<and> m' = m\<lparr>ms_page_map := kpm, ms_free_list := fl\<rparr>
       else \<exists>fl'. va_free start n fl = Some fl' \<and> r = None \<and> m' = m\<lparr>ms_page_map := kpm, ms_free_list := fl'\<rparr>"
    using s by (auto simp: memory_slice_flags_def bind_eq_Some_conv Let_def split: if_splits)
  have inv: "pt_inv kpm" "va_inv (ms_free_list m)" "va_space (ms_free_list m) \<subseteq> {START_ADDR ..< END_ADDR}"
    using slice_pages_inv [OF sp] m by (auto simp: mem_inv_def)
  show "ms_ram m' = ms_ram m" "ms_phys m' = ms_phys m" using res by (auto split: if_splits)
  show "slice_done m r m'"
    using res inv va_alloc_free [OF inv(2) a] by (auto simp: slice_done_def mem_inv_def split: if_splits)
qed

lemma read_slice_inv:
  assumes "read_slice x p ptr len m = Some (r, m')" and "mem_inv m"
  shows "mem_inv m'" and "ms_ram m' = ms_ram m" and "ms_phys m' = ms_phys m"
    and "va_space (ms_free_list m') = va_space (ms_free_list m)"
proof -
  obtain s m1 where s: "memory_slice_flags x {PRESENT} p ptr len m = Some (s, m1)"
    and rest: "(case s of None \<Rightarrow> Some (None, m1) | Some (start, npages, a) \<Rightarrow> do {
          bs \<leftarrow> fetch (ms_ram m1) (ms_page_map m1) a len;
          fl \<leftarrow> va_free start npages (ms_free_list m1);
          Some (Some bs, m1\<lparr>ms_free_list := fl\<rparr>) }) = Some (r, m')"
    using assms(1) by (auto simp: read_slice_def memory_slice_def bind_eq_Some_conv)
  note i = memory_slice_inv [OF s assms(2)]
  show "mem_inv m'" "ms_ram m' = ms_ram m" "ms_phys m' = ms_phys m"
    "va_space (ms_free_list m') = va_space (ms_free_list m)"
    using rest i by (auto simp: slice_done_def bind_eq_Some_conv split: option.splits prod.splits)
qed

text \<open>Allocation of physical memory leaves the kernel's address space alone.\<close>

definition space_kept :: "'a Mem \<Rightarrow> 'a Mem \<Rightarrow> bool" where
  "space_kept m m' \<longleftrightarrow> ms_page_map m' = ms_page_map m \<and> ms_free_list m' = ms_free_list m"

lemma space_kept_trans: "space_kept a b \<Longrightarrow> space_kept b c \<Longrightarrow> space_kept a c"
  by (simp add: space_kept_def)

lemma space_kept_refl [simp]: "space_kept m m"
  by (simp add: space_kept_def)

lemma space_kept_inv: "space_kept m m' \<Longrightarrow> mem_inv m \<Longrightarrow> mem_inv m'"
  by (simp add: space_kept_def mem_inv_def)

lemma phys_ops_kept:
  "phys_allocate x sz al m = Some (r, m') \<Longrightarrow> space_kept m m'"
  "phys_allocate_zeroed x sz al m = Some (r, m') \<Longrightarrow> space_kept m m'"
  "drop_allocation x a m = Some m' \<Longrightarrow> space_kept m m'"
  "al_write m a i bs = Some m' \<Longrightarrow> space_kept m m'"
  by (auto simp: space_kept_def phys_allocate_def phys_allocate_zeroed_def drop_allocation_def phys_deallocate_def
      al_write_def bind_eq_Some_conv split: option.splits if_splits prod.splits)

lemma drop_allocations_kept: "drop_allocations x als m = Some m' \<Longrightarrow> space_kept m m'"
  unfolding drop_allocations_def
  by (erule foldM_invariant) (auto intro: space_kept_trans phys_ops_kept)

definition proc_kept :: "Process \<Rightarrow> Process \<Rightarrow> bool" where
  "proc_kept p p' \<longleftrightarrow> proc_ok p' \<and> switch_info p' = switch_info p"

lemma proc_kept_id: "proc_kept p p' \<Longrightarrow> p_id p' = p_id p"
  by (simp add: proc_kept_def switch_info_def)

lemma proc_ok_page_table:
  "proc_ok p \<Longrightarrow> pt_inv pm \<Longrightarrow> pm_phys_addr pm = pm_phys_addr (p_page_table p) \<Longrightarrow> proc_ok (p\<lparr>p_page_table := pm\<rparr>)"
  by (simp add: proc_ok_def proc_inv_def)

lemma proc_ok_parts: "proc_ok p \<Longrightarrow> pt_inv (p_page_table p)"
  by (simp add: proc_ok_def proc_inv_def)

lemma alloc_page_kept:
  assumes "alloc_page x flags page p m = Some (r, p', m')" and x: "ext_ok x" and p: "proc_ok p"
  shows "proc_kept p p' \<and> space_kept m m'"
proof -
  note mt = map_to_refines [OF proc_ok_parts [OF p], of page]
  consider "p' = p" "space_kept m m'"
    | f where "p' = p\<lparr>p_page_table := map_to (p_page_table p) page f flags\<rparr>" "m' = m"
    | al where "phys_allocate_zeroed x PAGE_SIZE PAGE_SIZE m = Some (Some al, m')"
      "p' = p\<lparr>p_page_table := map_to (p_page_table p) page (al_start al) flags, p_dynamic_memory := p_dynamic_memory p @ [al]\<rparr>"
    using assms(1) phys_ops_kept(2) [of x PAGE_SIZE PAGE_SIZE m]
    by (auto simp: alloc_page_def bind_eq_Some_conv split: option.splits if_splits)
  then show ?thesis
  proof cases
    case (3 al)
    then show ?thesis
      using p mt phys_allocate_zeroed_bounds [OF x 3(1) page_pos] phys_ops_kept(2) [OF 3(1)]
      by (simp add: proc_kept_def proc_ok_def proc_inv_def switch_info_def)
  qed (use p mt proc_ok_page_table [OF p] in \<open>simp_all add: proc_kept_def switch_info_def\<close>)
qed

lemma alloc_pages_kept:
  assumes x: "ext_ok x"
  shows "alloc_pages x flags area idx p m = Some (r, p', m') \<Longrightarrow> proc_ok p \<Longrightarrow> proc_kept p p' \<and> space_kept m m'"
proof (induction idx arbitrary: p m)
  case (Cons i idx)
  obtain page r1 p1 m1 where a: "alloc_page x flags page p m = Some (r1, p1, m1)"
    and rest: "(case r1 of Inl e \<Rightarrow> Some (Inl e, p1, m1) | Inr _ \<Rightarrow> alloc_pages x flags area idx p1 m1) = Some (r, p', m')"
    using Cons.prems(1) by (simp only: alloc_pages.simps bind_eq_Some_conv) auto
  note k = alloc_page_kept [OF a x Cons.prems(2)]
  show ?case
  proof (cases r1)
    case (Inl e)
    then show ?thesis using rest k by simp
  next
    case (Inr u)
    then have "proc_kept p1 p' \<and> space_kept m1 m'" using rest k Cons.IH [of p1 m1] by (simp add: proc_kept_def)
    then show ?thesis using k space_kept_trans [of m m1 m'] by (simp add: proc_kept_def)
  qed
qed (simp add: proc_kept_def)

lemma dealloc_page_kept:
  assumes "dealloc_page x page p m = Some (r, p', m')" and p: "proc_ok p"
  shows "proc_kept p p' \<and> space_kept m m'"
proof -
  obtain t where t: "translate (p_page_table p) page = Some t"
    using assms(1) by (auto simp: dealloc_page_def bind_eq_Some_conv)
  show ?thesis
  proof (cases t)
    case None
    then show ?thesis using assms t by (simp add: dealloc_page_def proc_kept_def)
  next
    case (Some f)
    let ?dr = "filter (\<lambda>b. al_start b = f) (p_dynamic_memory p)"
    let ?p = "p\<lparr>p_dynamic_memory := filter (\<lambda>b. al_start b \<noteq> f) (p_dynamic_memory p)\<rparr>"
    obtain m1 where m1: "drop_allocations x ?dr m = Some m1"
      using assms(1) t Some by (auto simp: dealloc_page_def bind_eq_Some_conv Let_def)
    have ok: "proc_ok ?p" using p by (auto simp: proc_ok_def proc_inv_def)
    consider "p' = ?p" "m' = m1" | pm where "unmap (p_page_table p) page = Some pm" "p' = ?p\<lparr>p_page_table := pm\<rparr>" "m' = m1"
      using assms(1) t Some m1 by (auto simp: dealloc_page_def bind_eq_Some_conv Let_def split: if_splits)
    then show ?thesis
    proof cases
      case 1
      then show ?thesis using ok drop_allocations_kept [OF m1] by (simp add: proc_kept_def switch_info_def)
    next
      case (2 pm)
      then show ?thesis
        using ok drop_allocations_kept [OF m1] unmap_refines [OF proc_ok_parts [OF p] 2(1)]
          proc_ok_page_table [of ?p pm] by (simp add: proc_kept_def switch_info_def)
    qed
  qed
qed

lemma dealloc_pages_kept:
  "dealloc_pages x area idx p m = Some (r, p', m') \<Longrightarrow> proc_ok p \<Longrightarrow> proc_kept p p' \<and> space_kept m m'"
proof (induction idx arbitrary: p m)
  case (Cons i idx)
  obtain page r1 p1 m1 where a: "dealloc_page x page p m = Some (r1, p1, m1)"
    and rest: "(case r1 of Inl e \<Rightarrow> Some (Inl e, p1, m1) | Inr _ \<Rightarrow> dealloc_pages x area idx p1 m1) = Some (r, p', m')"
    using Cons.prems(1) by (simp only: dealloc_pages.simps bind_eq_Some_conv) auto
  note k = dealloc_page_kept [OF a Cons.prems(2)]
  show ?case
  proof (cases r1)
    case (Inl e)
    then show ?thesis using rest k by simp
  next
    case (Inr u)
    then have "proc_kept p1 p' \<and> space_kept m1 m'" using rest k Cons.IH [of p1 m1] by (simp add: proc_kept_def)
    then show ?thesis using k space_kept_trans [of m m1 m'] by (simp add: proc_kept_def)
  qed
qed (simp add: proc_kept_def)

text \<open>Loading a program: every frame of the image is a valid allocation.\<close>

lemma load_frame_kept:
  assumes "load_frame x img ph m = Some (r, m')" and x: "ext_ok x"
  shows "space_kept m m' \<and> (\<forall>al. r = Some al \<longrightarrow> 0 < al_start al \<and> al_start al < 2 ^ 46)"
proof -
  obtain a m1 where a: "phys_allocate_zeroed x PAGE_SIZE PAGE_SIZE m = Some (a, m1)"
    using assms(1) by (auto simp: load_frame_def bind_eq_Some_conv)
  show ?thesis
  proof (cases a)
    case None
    then show ?thesis using assms(1) a phys_ops_kept(2) [OF a] by (simp add: load_frame_def)
  next
    case (Some al)
    then obtain src where w: "al_write m1 al 0 src = Some m'" "r = Some al"
      using assms(1) a by (auto simp: load_frame_def bind_eq_Some_conv Let_def split: if_splits)
    show ?thesis
      using w space_kept_trans [OF phys_ops_kept(2) [OF a] phys_ops_kept(4) [OF w(1)]]
        phys_allocate_zeroed_bounds [OF x a [unfolded Some] page_pos] by simp
  qed
qed

lemma load_frames_kept:
  assumes x: "ext_ok x"
  shows "load_frames x img ph n fs m = Some (r, m') \<Longrightarrow> allocs_ok fs \<Longrightarrow>
    space_kept m m' \<and> (case r of Inl fs' \<Rightarrow> True | Inr fs' \<Rightarrow> allocs_ok fs')"
proof (induction n arbitrary: fs m)
  case (Suc n)
  then obtain a m1 where a: "load_frame x img ph m = Some (a, m1)" by (auto split: option.splits)
  note k = load_frame_kept [OF a x]
  show ?case
  proof (cases a)
    case None
    then show ?thesis using Suc.prems a k by auto
  next
    case (Some al)
    then have "allocs_ok (fs @ [al])" using Suc.prems k by (auto simp: allocs_ok_def)
    then show ?thesis using Suc a Some k space_kept_trans [of m m1 m'] by simp
  qed
qed auto

lemma load_sections_kept:
  assumes x: "ext_ok x"
  shows "load_sections x img phs ss m = Some (r, m') \<Longrightarrow> allocs_ok (concat (map snd ss)) \<Longrightarrow>
    space_kept m m' \<and> (\<forall>ss'. r = Some ss' \<longrightarrow> allocs_ok (concat (map snd ss')))"
proof (induction phs arbitrary: ss m)
  case (Cons ph phs)
  show ?case
  proof (cases "loadable ph \<and> ph_size_in_memory ph \<noteq> 0")
    case False
    then show ?thesis using Cons by auto
  next
    case True
    then obtain n q m1 where q: "load_frames x img ph n [] m = Some (q, m1)"
      and rest: "(case q of Inl fs \<Rightarrow> do { m \<leftarrow> drop_allocations x fs m1; m \<leftarrow> drop_allocations x (concat (map snd ss)) m;
             Some (None, m) } | Inr fs \<Rightarrow> load_sections x img phs (ss @ [(ph, fs)]) m1) = Some (r, m')"
      using Cons.prems(1) by (auto simp: bind_eq_Some_conv)
    have k: "space_kept m m1" "\<And>fs. q = Inr fs \<Longrightarrow> allocs_ok fs"
      using load_frames_kept [OF x q] by (auto simp: allocs_ok_def)
    show ?thesis
    proof (cases q)
      case (Inl fs)
      then obtain m2 where "drop_allocations x fs m1 = Some m2" "drop_allocations x (concat (map snd ss)) m2 = Some m'" "r = None"
        using rest by (auto simp: bind_eq_Some_conv)
      then show ?thesis using k(1) drop_allocations_kept space_kept_trans by (metis option.distinct(1))
    next
      case (Inr fs)
      then have "allocs_ok (concat (map snd (ss @ [(ph, fs)])))" using k(2) Cons.prems(2) by (auto simp: allocs_ok_def)
      then show ?thesis using Cons.IH [of "ss @ [(ph, fs)]" m1] rest Inr k(1) space_kept_trans [of m m1 m'] by simp
    qed
  qed
qed auto

lemma load_elf_kept:
  assumes "load_elf x img m = Some (r, m')" and x: "ext_ok x"
  shows "space_kept m m'" and "r = Some elf \<Longrightarrow> image_ok elf"
proof -
  obtain e where e: "parse_elf img = Some (Inr e)"
    using assms(1) by (cases "parse_elf img"; cases "the (parse_elf img)") (auto simp: load_elf_def)
  then obtain s where "load_sections x img (map the (filter (\<lambda>p. p \<noteq> None) (ed_ph_table e))) [] m = Some (s, m')"
    and r: "r = map_option (\<lambda>s. \<lparr>ei_header = ed_header e, ei_sections = s\<rparr>) s"
    using assms(1) by (auto simp: load_elf_def bind_eq_Some_conv)
  from load_sections_kept [OF x this(1)] have "space_kept m m' \<and> (\<forall>ss'. s = Some ss' \<longrightarrow> allocs_ok (concat (map snd ss')))"
    by (simp add: allocs_ok_def)
  then show "space_kept m m'" "r = Some elf \<Longrightarrow> image_ok elf" by (auto simp: r image_ok_def)
qed

text \<open>Creating a process touches physical memory only.\<close>

lemma push_kept:
  "push_u64 al s v = Some s' \<Longrightarrow> space_kept (snd s) (snd s')"
  "push_u8 al s b = Some s' \<Longrightarrow> space_kept (snd s) (snd s')"
  by (auto simp: push_u64_def push_u8_def bind_eq_Some_conv split: prod.splits dest: phys_ops_kept(4))

lemma align_u64_kept: "align_u64 al s = Some s' \<Longrightarrow> space_kept (snd s) (snd s')"
proof (induction al s rule: align_u64.induct)
  case (1 al tp m)
  show ?case
  proof (cases "tp mod 8 = 0")
    case True
    then show ?thesis using "1.prems" by (simp add: align_u64.simps)
  next
    case False
    then obtain s1 where s1: "push_u8 al (tp, m) 0 = Some s1" "align_u64 al s1 = Some s'"
      using "1.prems" by (auto simp: align_u64.simps [of al tp m] split: option.splits)
    show ?thesis using "1.IH" [OF False s1] push_kept(2) [OF s1(1)] space_kept_trans by (metis snd_conv)
  qed
qed

lemma fold_push_kept:
  "foldM (\<lambda>s arg. push_u64 al s (f arg)) s xs = Some s' \<Longrightarrow> space_kept (snd s) (snd s')"
  "foldM (push_u8 al) s bs = Some s' \<Longrightarrow> space_kept (snd s) (snd s')"
  by (erule foldM_invariant; blast intro: space_kept_refl space_kept_trans push_kept)+

lemma push_args_kept:
  assumes "push_args al args s = Some s'"
  shows "space_kept (snd s) (snd s')"
proof -
  obtain s1 s2 s3 where a: "push_u64 al s (length args) = Some s1"
    "foldM (\<lambda>s arg. push_u64 al s (length arg)) s1 args = Some s2"
    "foldM (\<lambda>s arg. foldM (push_u8 al) s (rev arg)) s2 (rev args) = Some s3" "align_u64 al s3 = Some s'"
    using assms by (auto simp: push_args_def bind_eq_Some_conv)
  have "space_kept (snd s2) (snd s3)"
    by (rule foldM_invariant [OF a(3), where I = "\<lambda>s. space_kept (snd s2) (snd s)"])
       (blast intro: space_kept_refl space_kept_trans fold_push_kept(2))+
  then show ?thesis
    using push_kept(1) [OF a(1)] fold_push_kept(1) [OF a(2)] align_u64_kept [OF a(4)] space_kept_trans by metis
qed

lemma populate_stack_kept:
  assumes "populate_stack al args e entry m = Some m'"
  shows "space_kept m m'"
proof -
  obtain s0 s1 s2 s3 s4 t where a: "push_args al args (al_size al, m) = Some s0" "push_u64 al s0 0 = Some s1"
    "push_u64 al s1 e = Some s2" "push_u64 al s2 0x0202 = Some s3" "push_u64 al s3 0x8 = Some s4"
    "push_u64 al s4 entry = Some (t, m')"
    using assms by (auto simp: populate_stack_def bind_eq_Some_conv)
  show ?thesis
    using push_args_kept [OF a(1)] push_kept(1) [OF a(2)] push_kept(1) [OF a(3)] push_kept(1) [OF a(4)]
      push_kept(1) [OF a(5)] push_kept(1) [OF a(6)] by (simp add: space_kept_def)
qed

lemma create_process_kept:
  assumes "create_process x idt common raw pid args elf m = Some (r, m')"
  shows "space_kept m m'"
proof -
  let ?n = "PROCESS_STACK_SIZE_PAGES * PAGE_SIZE"
  have d: "space_kept m m'" if "drop_image x elf m = Some m'" for m m' :: "'a Mem"
    using that drop_allocations_kept by (auto simp: drop_image_def)
  obtain a m1 where a: "phys_allocate_zeroed x ?n PAGE_SIZE m = Some (a, m1)"
    using assms by (auto simp: create_process_def bind_eq_Some_conv Let_def)
  note k1 = phys_ops_kept(2) [OF a]
  show ?thesis
  proof (cases a)
    case None
    then show ?thesis using assms a k1 d space_kept_trans
      by (simp add: create_process_def bind_eq_Some_conv) blast
  next
    case (Some stack)
    then obtain e entry m2 b m3 where p: "populate_stack stack args e entry m1 = Some m2"
      and b: "phys_allocate x PAGE_SIZE PAGE_SIZE m2 = Some (b, m3)"
      and rest: "(case b of None \<Rightarrow> \<exists>m4. drop_allocation x stack m3 = Some m4 \<and> drop_image x elf m4 = Some m' | Some _ \<Rightarrow> m' = m3)"
      using assms a
      by (auto simp: create_process_def bind_eq_Some_conv Let_def split: if_splits option.splits)
    have k3: "space_kept m m3"
      using k1 populate_stack_kept [OF p] phys_ops_kept(1) [OF b] space_kept_trans by blast
    show ?thesis
    proof (cases b)
      case None
      then obtain m4 where "drop_allocation x stack m3 = Some m4" "drop_image x elf m4 = Some m'" using rest by auto
      then show ?thesis using k3 d phys_ops_kept(3) space_kept_trans by blast
    qed (use rest k3 in simp)
  qed
qed

lemma spawn_kept: "spawn x idt common raw args elf s m = Some (r, s', m') \<Longrightarrow> space_kept m m'"
  by (auto simp: spawn_def Let_def bind_eq_Some_conv split: option.splits dest: create_process_kept)

lemma spawn_give_back:
  assumes "p_id p \<noteq> sc_next_pid s" and "spawn x idt common raw args elf s m = Some (r, s', m')"
  shows "spawn x idt common raw args elf (give_back_process p s) m = Some (r, give_back_process p s', m')"
proof -
  obtain nx c m1 where nx: "pid_next (sc_next_pid s) = Some nx"
    and c: "create_process x idt common raw (sc_next_pid s) args elf m = Some (c, m1)"
    using assms(2) by (auto simp: spawn_def Let_def bind_eq_Some_conv)
  show ?thesis
  proof (cases c)
    case None
    then show ?thesis using assms nx c by (auto simp: spawn_def give_back_process_def Let_def)
  next
    case (Some q)
    then obtain qs where "give (sc_next_pid s) WNone (sc_queues s) = Some qs"
      using assms(2) nx c by (auto simp: spawn_def Let_def bind_eq_Some_conv)
    then show ?thesis
      using assms nx c Some by (auto simp: spawn_def give_back_process_def Let_def fun_upd_twist)
  qed
qed

subsection \<open>The invariant of a system call\<close>

named_theorems keeps_intros

definition call_inv :: "pid \<Rightarrow> Process \<Rightarrow> 'a KState \<Rightarrow> bool" where
  "call_inv pid p k \<longleftrightarrow> p_id p = pid \<and> sc_running (k_sched k) = Some pid \<and>
     sched_inv (give_back_process p (k_sched k)) \<and> mgr_inv (k_mgr k) \<and> mem_inv (k_mem k) \<and>
     pool_inv (k_pool k) \<and> length (k_dma k) = DMA_BLOCKS"

fun result_ok :: "'f SyscallResult \<Rightarrow> bool" where
  "result_ok (ScSwitch _ w) = wf_wait w"
| "result_ok (ScRepeatAfter w) = wf_wait w"
| "result_ok _ = True"

definition keeps :: "pid \<Rightarrow> ('f, 'a) sys \<Rightarrow> bool" where
  "keeps pid c \<longleftrightarrow> (\<forall>res p k. c = Some (res, p, k) \<longrightarrow> call_inv pid p k \<and> result_ok res)"

lemma keeps_None [keeps_intros]: "keeps pid None"
  by (simp add: keeps_def)

lemma keeps_Some [keeps_intros]: "call_inv pid p k \<Longrightarrow> result_ok res \<Longrightarrow> keeps pid (Some (res, p, k))"
  by (simp add: keeps_def)

lemma keeps_rets [keeps_intros]:
  "call_inv pid p k \<Longrightarrow> keeps pid (ok_ret v p k)"
  "call_inv pid p k \<Longrightarrow> keeps pid (err_ret c p k)"
  "call_inv pid p k \<Longrightarrow> keeps pid (bad_pointer a p k)"
  by (simp_all add: keeps_def ok_ret_def err_ret_def bad_pointer_def)

lemma keeps_bind [keeps_intros]: "(\<And>v. c = Some v \<Longrightarrow> keeps pid (f v)) \<Longrightarrow> keeps pid (Option.bind c f)"
  by (cases c) (simp_all add: keeps_def)

lemma keeps_cases [keeps_intros]:
  "(\<And>a. x = Inl a \<Longrightarrow> keeps pid (f a)) \<Longrightarrow> (\<And>b. x = Inr b \<Longrightarrow> keeps pid (g b)) \<Longrightarrow>
     keeps pid (case x of Inl a \<Rightarrow> f a | Inr b \<Rightarrow> g b)"
  "(b \<Longrightarrow> keeps pid c) \<Longrightarrow> (\<not> b \<Longrightarrow> keeps pid d) \<Longrightarrow> keeps pid (if b then c else d)"
  "(z = None \<Longrightarrow> keeps pid c) \<Longrightarrow> (\<And>y. z = Some y \<Longrightarrow> keeps pid (h y)) \<Longrightarrow>
     keeps pid (case z of None \<Rightarrow> c | Some y \<Rightarrow> h y)"
  by (auto split: sum.split option.split)

lemma keeps_try_len [keeps_intros]: "call_inv pid p k \<Longrightarrow> keeps pid c \<Longrightarrow> keeps pid (try_len len p k c)"
  by (simp add: try_len_def keeps_rets)

lemma keeps_with_str [keeps_intros]:
  "call_inv pid p k \<Longrightarrow> (\<And>s. keeps pid (f s)) \<Longrightarrow> keeps pid (with_str bs p k f)"
  unfolding with_str_def by (rule keeps_bind) (auto intro: keeps_rets split: sum.split)

lemma keeps_with_ipc [keeps_intros]:
  "call_inv pid p k \<Longrightarrow> (\<And>v. r = Inr v \<Longrightarrow> keeps pid (f v)) \<Longrightarrow> keeps pid (with_ipc r p k f)"
  by (auto simp: with_ipc_def intro: keeps_rets split: sum.split)

lemma call_inv_mem: "call_inv pid p k \<Longrightarrow> mem_inv m \<Longrightarrow> call_inv pid p (k\<lparr>k_mem := m\<rparr>)"
  by (simp add: call_inv_def)

lemma keeps_with_slice [keeps_intros]:
  assumes "call_inv pid p k"
    and "\<And>bs m. call_inv pid p (k\<lparr>k_mem := m\<rparr>) \<Longrightarrow> keeps pid (f bs (k\<lparr>k_mem := m\<rparr>))"
  shows "keeps pid (with_slice env ptr len p k f)"
  unfolding with_slice_def
proof (rule keeps_bind)
  fix v assume v: "read_slice (e_ext env) p ptr len (k_mem k) = Some v"
  obtain r m where rm: "v = (r, m)" by (cases v)
  have "mem_inv m" using read_slice_inv(1) [OF v [unfolded rm]] assms(1) by (simp add: call_inv_def)
  then have "call_inv pid p (k\<lparr>k_mem := m\<rparr>)" using assms(1) by (rule call_inv_mem [rotated])
  then show "keeps pid (case v of (r, m) \<Rightarrow> let k = k\<lparr>k_mem := m\<rparr>
      in case r of None \<Rightarrow> bad_pointer ptr p k | Some bs \<Rightarrow> f bs k)"
    using assms(2) by (simp add: rm Let_def keeps_rets split: option.split)
qed

lemma keeps_with_topic [keeps_intros]:
  assumes "call_inv pid p k"
    and "\<And>t m. call_inv pid p (k\<lparr>k_mem := m\<rparr>) \<Longrightarrow> keeps pid (f t (k\<lparr>k_mem := m\<rparr>))"
  shows "keeps pid (with_topic env ptr len p k f)"
  unfolding with_topic_def
  by (intro keeps_with_slice keeps_with_str assms(1)) (auto intro: assms(2) keeps_rets split: sum.split)

lemma keeps_topic_data [keeps_intros]:
  assumes "call_inv pid p k" and "\<And>t d. keeps pid (f t d)"
  shows "keeps pid (topic_data_args env rs p k f)"
  unfolding topic_data_args_def by (intro keeps_try_len keeps_bind assms)

text \<open>The body of a writable slice changes neither the memory nor the process.\<close>

definition keeps_body :: "pid \<Rightarrow> Process \<Rightarrow> 'a Mem \<Rightarrow> ('f SyscallResult \<times> bytes \<times> 'a KState) option \<Rightarrow> bool" where
  "keeps_body pid p m c \<longleftrightarrow> (\<forall>res bs k m'. c = Some (res, bs, k) \<longrightarrow> k_mem k = m \<and> result_ok res \<and>
     (mem_inv m' \<longrightarrow> call_inv pid p (k\<lparr>k_mem := m'\<rparr>)))"

lemma keeps_with_slice_mut [keeps_intros]:
  assumes inv: "call_inv pid p k" and f: "\<And>m. keeps_body pid p m (f (k\<lparr>k_mem := m\<rparr>))"
  shows "keeps pid (with_slice_mut env ptr len p k f)"
  unfolding with_slice_mut_def
proof (rule keeps_bind)
  fix v assume v: "memory_slice_mut (e_ext env) p ptr len (k_mem k) = Some v"
  obtain r m where rm: "v = (r, m)" by (cases v)
  have mem: "mem_inv (k_mem k)" using inv by (simp add: call_inv_def)
  note s = memory_slice_inv [OF v [unfolded rm memory_slice_mut_def] mem]
  show "keeps pid (case v of (r, m) \<Rightarrow> let k = k\<lparr>k_mem := m\<rparr>
      in case r of None \<Rightarrow> bad_pointer ptr p k
       | Some (start, npages, a) \<Rightarrow> do {
          (res, bs, k) \<leftarrow> f k;
          rassert (length bs \<le> len);
          ram \<leftarrow> store (ms_page_map (k_mem k)) (ms_ram (k_mem k)) a bs;
          fl \<leftarrow> va_free start npages (ms_free_list (k_mem k));
          Some (res, p, k\<lparr>k_mem := (k_mem k)\<lparr>ms_ram := ram, ms_free_list := fl\<rparr>\<rparr>)
        })"
  proof (cases r)
    case None
    then have "mem_inv m" using s(3) by (simp add: slice_done_def)
    then show ?thesis using None call_inv_mem [OF inv] by (simp add: rm keeps_rets)
  next
    case (Some sl)
    obtain start n a where sl: "sl = (start, n, a)" by (cases sl)
    have "call_inv pid p (k'\<lparr>k_mem := (k_mem k')\<lparr>ms_ram := ram, ms_free_list := fl\<rparr>\<rparr>) \<and> result_ok res"
      if "f (k\<lparr>k_mem := m\<rparr>) = Some (res, bs, k')" "va_free start n (ms_free_list (k_mem k')) = Some fl" for res bs k' fl ram
    proof -
      have k': "k_mem k' = m" "result_ok res" "\<And>m'. mem_inv m' \<Longrightarrow> call_inv pid p (k'\<lparr>k_mem := m'\<rparr>)"
        using f [of m] that(1) by (auto simp: keeps_body_def)
      have "mem_inv (m\<lparr>ms_free_list := fl\<rparr>)" using s(3) that(2) k'(1) by (simp add: Some sl slice_done_def)
      then have "mem_inv (m\<lparr>ms_ram := ram, ms_free_list := fl\<rparr>)" by (simp add: mem_inv_def)
      then show ?thesis using k' by simp
    qed
    then show ?thesis
      by (auto simp: rm Some sl Let_def keeps_def bind_eq_Some_conv)
  qed
qed

subsection \<open>Every system call keeps it\<close>

lemma call_inv_fields [simp]:
  "call_inv pid p (k\<lparr>k_wal := w\<rparr>) = call_inv pid p k" "call_inv pid p (k\<lparr>k_port := w\<rparr>) = call_inv pid p k"
  "call_inv pid p (k\<lparr>k_cpu := c\<rparr>) = call_inv pid p k" "call_inv pid p (k\<lparr>k_next_event := n\<rparr>) = call_inv pid p k"
  by (simp_all add: call_inv_def)

lemma call_inv_mgr: "call_inv pid p k \<Longrightarrow> mgr_inv mgr \<Longrightarrow> call_inv pid p (k\<lparr>k_mgr := mgr\<rparr>)"
  by (simp add: call_inv_def)

lemma call_inv_mgrD: "call_inv pid p k \<Longrightarrow> mgr_inv (k_mgr k)"
  by (simp add: call_inv_def)

lemma k_consume_eq:
  obtains q where "k_consume env r k = (ipc_value r, k\<lparr>k_sched := (k_sched k)\<lparr>sc_queues := q\<rparr>\<rparr>)"
    "consume_events (e_ord env) r (sc_queues (k_sched k)) = (ipc_value r, q)"
  by (simp add: k_consume_def consume_events_def)

lemma call_inv_consume:
  assumes "iter_order (e_ord env)" and "call_inv pid p k"
  shows "call_inv pid p (snd (k_consume env r k))"
proof -
  obtain q where q: "k_consume env r k = (ipc_value r, k\<lparr>k_sched := (k_sched k)\<lparr>sc_queues := q\<rparr>\<rparr>)"
    "consume_events (e_ord env) r (sc_queues (k_sched k)) = (ipc_value r, q)" by (rule k_consume_eq)
  let ?s = "give_back_process p (k_sched k)"
  have s: "sched_inv ?s" using assms(2) by (simp add: call_inv_def)
  have "sc_queues ?s = sc_queues (k_sched k)" by (simp add: give_back_process_def)
  then have "sched_inv (?s\<lparr>sc_queues := q\<rparr>)"
    using consume_events_inv [OF assms(1) _ q(2)] sched_invD(1) [OF s] by (intro sched_inv_queues [OF s]) simp_all
  moreover have "?s\<lparr>sc_queues := q\<rparr> = give_back_process p ((k_sched k)\<lparr>sc_queues := q\<rparr>)"
    by (simp add: give_back_process_def)
  ultimately show ?thesis using assms(2) q(1) by (simp add: call_inv_def)
qed

text \<open>The common end of the IPC calls without a value.\<close>

lemma keeps_ipc_unit:
  assumes "iter_order (e_ord env)" and "call_inv pid p k" and "mgr_inv mgr"
  shows "keeps pid (let (v, k) = k_consume env r (k\<lparr>k_mgr := mgr\<rparr>) in with_ipc v p k (\<lambda>_. ok_ret 0 p k))"
proof -
  have "call_inv pid p (snd (k_consume env r (k\<lparr>k_mgr := mgr\<rparr>)))"
    by (rule call_inv_consume [OF assms(1) call_inv_mgr [OF assms(2,3)]])
  then show ?thesis by (cases "k_consume env r (k\<lparr>k_mgr := mgr\<rparr>)") (auto intro: keeps_intros)
qed

lemma keeps_debug_print: "call_inv (p_id p) p k \<Longrightarrow> keeps (p_id p) (syscall_debug_print env rs p k)"
  unfolding syscall_debug_print_def Let_def
  by (intro keeps_intros; (assumption | clarsimp)) (auto intro: keeps_intros)

lemma keeps_random: "call_inv pid p k \<Longrightarrow> keeps pid (syscall_random env rs p k)"
  unfolding syscall_random_def
  by (auto simp: keeps_def bind_eq_Some_conv call_inv_def dest!: insert_entropy_inv random_read_inv)

lemma keeps_sleep: "call_inv pid p k \<Longrightarrow> keeps pid (syscall_sched_sleep_ns env rs p k)"
  unfolding syscall_sched_sleep_ns_def now_def
  by (auto simp: keeps_def bind_eq_Some_conv split: prod.splits)

lemma keeps_subscribe:
  assumes "call_inv pid p k"
  shows "keeps pid (syscall_ipc_subscribe env rs p k)"
proof (cases "flags_from_bits (of_nat (rs_arg2 rs))")
  case None
  then show ?thesis using assms by (simp add: syscall_ipc_subscribe_def keeps_Some)
next
  case (Some flags)
  have r: "keeps pid (do { (r, mgr) \<leftarrow> subscribe (k_mgr k) (p_id p) filt (flags_contains flags SF_RELIABLE) (flags_contains flags SF_PIPE);
        let k = k\<lparr>k_mgr := mgr\<rparr>;
        (case r of Inl e \<Rightarrow> err_ret (ipc_error_code (Subscription e)) p k | Inr sub \<Rightarrow> ok_ret sub p k) })"
    if "call_inv pid p k" for k :: "'a KState" and filt
  proof (rule keeps_bind, clarify)
    fix r mgr assume "subscribe (k_mgr k) (p_id p) filt (flags_contains flags SF_RELIABLE) (flags_contains flags SF_PIPE) = Some (r, mgr)"
    then have "mgr_inv mgr" using subscribe_inv [OF call_inv_mgrD [OF that]] pipe_implies(1) by blast
    then show "keeps pid (let k = k\<lparr>k_mgr := mgr\<rparr> in case r of Inl e \<Rightarrow> err_ret (ipc_error_code (Subscription e)) p k | Inr sub \<Rightarrow> ok_ret sub p k)"
      using that by (auto simp: Let_def intro: keeps_rets call_inv_mgr split: sum.split)
  qed
  show ?thesis
    unfolding syscall_ipc_subscribe_def Some Let_def option.case
    by (intro keeps_try_len assms, rule keeps_bind, intro keeps_with_slice keeps_with_str keeps_cases keeps_rets assms)
       (assumption | rule r [unfolded Let_def])+
qed

lemma keeps_unsubscribe:
  assumes "iter_order (e_ord env)" and "call_inv pid p k"
  shows "keeps pid (syscall_ipc_unsubscribe env rs p k)"
  unfolding syscall_ipc_unsubscribe_def
proof (rule keeps_bind, clarify)
  fix r mgr assume "unsubscribe (p_id p) (rs_arg0 rs) (k_mgr k) = Some (r, mgr)"
  then have "mgr_inv mgr" using unsubscribe_total [OF call_inv_mgrD [OF assms(2)], of "p_id p" "rs_arg0 rs"] by auto
  then show "keeps pid (let (v, k) = k_consume env r (k\<lparr>k_mgr := mgr\<rparr>) in with_ipc v p k (\<lambda>_. ok_ret 0 p k))"
    by (rule keeps_ipc_unit [OF assms])
qed

lemma keeps_publish:
  assumes "iter_order (e_ord env)" and "call_inv pid p k"
  shows "keeps pid (syscall_ipc_publish env rs p k)"
proof -
  have r: "keeps pid (do { (r, mgr) \<leftarrow> publish (e_ord env) t data (k_mgr k);
      let (v, k) = k_consume env r (k\<lparr>k_mgr := mgr\<rparr>); with_ipc v p k (\<lambda>_. ok_ret 0 p k) })"
    if "call_inv pid p k" for k :: "'b KState" and t data
  proof (rule keeps_bind, clarify)
    fix r mgr assume "publish (e_ord env) t data (k_mgr k) = Some (r, mgr)"
    then have "mgr_inv mgr" using publish_eq [OF assms(1) call_inv_mgrD [OF that], of t data] by simp
    then show "keeps pid (let (v, k) = k_consume env r (k\<lparr>k_mgr := mgr\<rparr>) in with_ipc v p k (\<lambda>_. ok_ret 0 p k))"
      by (rule keeps_ipc_unit [OF assms(1) that])
  qed
  show ?thesis unfolding syscall_ipc_publish_def by (intro keeps_topic_data keeps_with_topic keeps_with_slice r assms(2))
qed

lemma keeps_deliver_reply:
  assumes "iter_order (e_ord env)" and "call_inv pid p k"
  shows "keeps pid (syscall_ipc_deliver_reply env rs p k)"
proof -
  have r: "keeps pid (do { (r, mgr) \<leftarrow> deliver_reply (e_ord env) t data (k_mgr k);
      let (v, k) = k_consume env r (k\<lparr>k_mgr := mgr\<rparr>); with_ipc v p k (\<lambda>_. ok_ret 0 p k) })"
    if "call_inv pid p k" for k :: "'b KState" and t data
  proof (rule keeps_bind, clarify)
    fix r mgr assume "deliver_reply (e_ord env) t data (k_mgr k) = Some (r, mgr)"
    then have "mgr_inv mgr" by (rule deliver_reply_inv [OF call_inv_mgrD [OF that]])
    then show "keeps pid (let (v, k) = k_consume env r (k\<lparr>k_mgr := mgr\<rparr>) in with_ipc v p k (\<lambda>_. ok_ret 0 p k))"
      by (rule keeps_ipc_unit [OF assms(1) that])
  qed
  show ?thesis unfolding syscall_ipc_deliver_reply_def
    by (intro keeps_topic_data keeps_with_topic keeps_with_slice r assms(2))
qed

lemma keeps_deliver:
  assumes "iter_order (e_ord env)" and "call_inv pid p k"
  shows "keeps pid (syscall_ipc_deliver env rs p k)"
proof -
  have r: "keeps pid (do { (r, mgr, ne) \<leftarrow> deliver (e_ord env) (k_env k) (p_id p) t data (k_mgr k) (k_next_event k);
      let (v, k) = k_consume env r (k\<lparr>k_mgr := mgr, k_next_event := ne\<rparr>);
      with_ipc v p k (\<lambda>d. case d of DeliverProcess event \<Rightarrow> Some (ScRepeatAfter (Event event), p, k)
           | DeliverKernel \<Rightarrow> ok_ret 0 p k) })"
    if "call_inv pid p k" for k :: "'b KState" and t data
  proof (rule keeps_bind, clarify)
    fix r mgr ne assume "deliver (e_ord env) (k_env k) (p_id p) t data (k_mgr k) (k_next_event k) = Some (r, mgr, ne)"
    then have "mgr_inv mgr" by (rule deliver_inv [OF call_inv_mgrD [OF that]])
    then have "call_inv pid p (k\<lparr>k_mgr := mgr, k_next_event := ne\<rparr>)" using call_inv_mgr [OF that] by simp
    then have "call_inv pid p (snd (k_consume env r (k\<lparr>k_mgr := mgr, k_next_event := ne\<rparr>)))"
      by (rule call_inv_consume [OF assms(1)])
    then show "keeps pid (let (v, k) = k_consume env r (k\<lparr>k_mgr := mgr, k_next_event := ne\<rparr>)
      in with_ipc v p k (\<lambda>d. case d of DeliverProcess event \<Rightarrow> Some (ScRepeatAfter (Event event), p, k)
           | DeliverKernel \<Rightarrow> ok_ret 0 p k))"
      by (cases "k_consume env r (k\<lparr>k_mgr := mgr, k_next_event := ne\<rparr>)")
         (auto intro!: keeps_intros split: Deliver.split)
  qed
  have c: "keeps pid (do { (r, mgr) \<leftarrow> after_delivery (p_id p) (k_mgr k);
       let (v, k) = k_consume env r (k\<lparr>k_mgr := mgr\<rparr>); with_ipc v p k (\<lambda>_. ok_ret 0 p k) })"
  proof (rule keeps_bind, clarify)
    fix r mgr assume "after_delivery (p_id p) (k_mgr k) = Some (r, mgr)"
    then have "mgr_inv mgr" by (rule after_delivery_inv [OF call_inv_mgrD [OF assms(2)]])
    then show "keeps pid (let (v, k) = k_consume env r (k\<lparr>k_mgr := mgr\<rparr>) in with_ipc v p k (\<lambda>_. ok_ret 0 p k))"
      by (rule keeps_ipc_unit [OF assms])
  qed
  have d: "keeps pid (with_topic env a n p k (\<lambda>topic k. with_slice env b l p k (\<lambda>data k. do {
         (r, mgr, ne) \<leftarrow> deliver (e_ord env) (k_env k) (p_id p) topic data (k_mgr k) (k_next_event k);
         let (v, k) = k_consume env r (k\<lparr>k_mgr := mgr, k_next_event := ne\<rparr>);
         with_ipc v p k (\<lambda>d. case d of DeliverProcess event \<Rightarrow> Some (ScRepeatAfter (Event event), p, k)
           | DeliverKernel \<Rightarrow> ok_ret 0 p k) })))" for a n b l
    by (intro keeps_with_topic keeps_with_slice r assms(2))
  show ?thesis unfolding syscall_ipc_deliver_def
    by (intro keeps_topic_data assms(2)) (simp only: c d simp_thms split: if_split)
qed

text \<open>Acknowledging is the exception: the invariant of the manager survives when the message with
  this id was received before.\<close>

lemma keeps_acknowledge:
  assumes "iter_order (e_ord env)" and "call_inv pid p k" and "outstanding (k_mgr k) (rs_arg1 rs)"
  shows "keeps pid (syscall_ipc_acknowledge env rs p k)"
  unfolding syscall_ipc_acknowledge_def
proof (rule keeps_bind, clarify)
  fix r mgr assume "acknowledge (rs_arg0 rs) (rs_arg1 rs) (rs_arg2 rs \<noteq> 0) (k_mgr k) = Some (r, mgr)"
  then have "mgr_inv mgr" by (rule acknowledge_inv [OF call_inv_mgrD [OF assms(2)] assms(3)])
  then show "keeps pid (let (v, k) = k_consume env r (k\<lparr>k_mgr := mgr\<rparr>) in with_ipc v p k (\<lambda>_. ok_ret 0 p k))"
    by (rule keeps_ipc_unit [OF assms(1,2)])
qed

lemma waiting_for_leaf: "waiting_for sub mgr ne = Some (w, mgr', ne') \<Longrightarrow> w \<noteq> WNone \<Longrightarrow> \<exists>e. w = Event e"
  by (auto simp: waiting_for_def bind_eq_Some_conv eq_wait_for_def Let_def split: prod.splits if_splits)

lemma select_loop_inv:
  "select_loop i subs ws mgr ne = Some (r, mgr', ne') \<Longrightarrow> mgr_inv mgr \<Longrightarrow> list_all leaf ws \<Longrightarrow>
     mgr_inv mgr' \<and> (\<forall>ws'. r = Inr ws' \<longrightarrow> list_all leaf ws')"
proof (induction i subs ws mgr ne rule: select_loop.induct)
  case (2 i sub subs ws mgr ne)
  obtain w m1 n1 where w: "waiting_for sub mgr ne = Some (w, m1, n1)"
    using "2.prems"(1) by (auto split: option.splits)
  have m1: "mgr_inv m1" by (rule waiting_for_inv [OF "2.prems"(2) w])
  show ?case
  proof (cases "w = WNone")
    case True
    then show ?thesis using "2.prems"(1) w m1 by auto
  next
    case False
    then have "list_all leaf (ws @ [w])" using waiting_for_leaf [OF w] "2.prems"(3) by auto
    then show ?thesis using "2.IH" [OF w _ _ False _ m1] "2.prems"(1) w False by simp
  qed
qed auto

lemma keeps_select:
  assumes "call_inv pid p k"
  shows "keeps pid (syscall_ipc_select env rs p k)"
proof -
  have r: "keeps pid (do { (r, mgr, ne) \<leftarrow> select_loop 0 subs [] (k_mgr k) (k_next_event k);
         let k = k\<lparr>k_mgr := mgr, k_next_event := ne\<rparr>;
         (case r of Inl i \<Rightarrow> ok_ret i p k
          | Inr conditions \<Rightarrow> (if n \<noteq> 0 then err_ret ec_would_block p k
               else Some (ScRepeatAfter (FirstOf conditions), p, k))) })"
    if "call_inv pid p k" for k :: "'a KState" and subs and n :: nat
  proof (rule keeps_bind, clarify)
    fix r mgr ne assume "select_loop 0 subs [] (k_mgr k) (k_next_event k) = Some (r, mgr, ne)"
    then have "mgr_inv mgr \<and> (\<forall>ws. r = Inr ws \<longrightarrow> list_all leaf ws)"
      by (rule select_loop_inv [OF _ call_inv_mgrD [OF that]]) simp
    then show "keeps pid (let k = k\<lparr>k_mgr := mgr, k_next_event := ne\<rparr>
      in case r of Inl i \<Rightarrow> ok_ret i p k
          | Inr conditions \<Rightarrow> (if n \<noteq> 0 then err_ret ec_would_block p k
               else Some (ScRepeatAfter (FirstOf conditions), p, k)))"
      using call_inv_mgr [OF that] by (auto simp: Let_def intro!: keeps_intros split: sum.split)
  qed
  show ?thesis
    unfolding syscall_ipc_select_def Let_def
    using assms by (auto intro!: keeps_rets keeps_bind keeps_try_len keeps_with_slice r [unfolded Let_def])
qed

lemma keeps_receive:
  assumes "iter_order (e_ord env)" and "call_inv pid p k"
  shows "keeps pid (syscall_ipc_receive env rs p k)"
proof -
  have "keeps_body pid p m (do {
         (r, mgr, ne) \<leftarrow> receive (p_id p) sub (k_mgr (k\<lparr>k_mem := m\<rparr>)) (k_next_event (k\<lparr>k_mem := m\<rparr>));
         let (v, k) = k_consume env r ((k\<lparr>k_mem := m\<rparr>)\<lparr>k_mgr := mgr, k_next_event := ne\<rparr>);
         (case v of
            Inl e \<Rightarrow> Some (ScContinue (Inl (unat (error_code (ipc_error_code e)))), [], k)
          | Inr (Inl event) \<Rightarrow> Some (ScRepeatAfter (Event event), [], k)
          | Inr (Inr msg) \<Rightarrow> do {
              ser_msg \<leftarrow> e_enc_message env msg;
              Some (ScContinue (Inr (length ser_msg)), ser_msg, k)
            }) })" for m sub
  proof -
    obtain r mgr ne where r: "receive (p_id p) sub (k_mgr k) (k_next_event k) = Some (r, mgr, ne)" and i: "mgr_inv mgr"
      using receive_total [OF call_inv_mgrD [OF assms(2)], of "p_id p" sub "k_next_event k"] by blast
    let ?k = "k\<lparr>k_mem := m, k_mgr := mgr, k_next_event := ne\<rparr>"
    obtain q where q: "k_consume env r ?k = (ipc_value r, ?k\<lparr>k_sched := (k_sched ?k)\<lparr>sc_queues := q\<rparr>\<rparr>)"
      "consume_events (e_ord env) r (sc_queues (k_sched ?k)) = (ipc_value r, q)"
      by (rule k_consume_eq)
    have "call_inv pid p ((?k\<lparr>k_sched := (k_sched ?k)\<lparr>sc_queues := q\<rparr>\<rparr>)\<lparr>k_mem := m'\<rparr>)" if "mem_inv m'" for m'
    proof -
      have "call_inv pid p (k\<lparr>k_mgr := mgr, k_next_event := ne\<rparr>)" using call_inv_mgr [OF assms(2) i] by simp
      from call_inv_consume [OF assms(1) this, of r] show ?thesis
        using that q(2) by (simp add: k_consume_def call_inv_def)
    qed
    then show ?thesis
      by (auto simp: r q(1) keeps_body_def bind_eq_Some_conv split: sum.splits)
  qed
  then show ?thesis
    unfolding syscall_ipc_receive_def Let_def by (intro keeps_try_len keeps_bind keeps_with_slice_mut assms(2))
qed

lemma keeps_log_read:
  assumes "call_inv pid p k"
  shows "keeps pid (syscall_kernel_log_read env rs p k)"
  unfolding syscall_kernel_log_read_def Let_def
  by (intro keeps_try_len keeps_bind keeps_with_slice_mut assms)
     (use assms in \<open>auto simp: keeps_body_def call_inv_def split: prod.splits\<close>)

lemma call_inv_proc:
  assumes "call_inv pid p k" and "proc_kept p p'"
  shows "call_inv pid p' k"
proof -
  let ?s = "give_back_process p (k_sched k)"
  have "sched_inv (?s\<lparr>sc_processes := (sc_processes ?s)(p_id p \<mapsto> p')\<rparr>)"
    using assms by (intro sched_inv_update_process [where p = p]) (auto simp: call_inv_def proc_kept_def switch_info_def give_back_process_def)
  moreover have "?s\<lparr>sc_processes := (sc_processes ?s)(p_id p \<mapsto> p')\<rparr> = give_back_process p' (k_sched k)"
    using proc_kept_id [OF assms(2)] by (simp add: give_back_process_def)
  ultimately show ?thesis using assms proc_kept_id [OF assms(2)] by (simp add: call_inv_def)
qed

lemma call_inv_proc_ok: "call_inv pid p k \<Longrightarrow> proc_ok p"
  by (auto simp: call_inv_def give_back_process_def dest!: sched_invD(6))

lemma mmap_frames_inv:
  assumes "mmap_frames x flags virt a b pt = Some pt'" and "pt_inv pt"
  shows "pt_inv pt' \<and> pm_phys_addr pt' = pm_phys_addr pt"
  using assms(1) unfolding mmap_frames_def
  by (rule foldM_invariant) (auto simp: assms(2) bind_eq_Some_conv map_to_refines split: if_splits)

lemma keeps_mmap:
  assumes "call_inv pid p k"
  shows "keeps pid (syscall_mmap_physical env rs p k)"
proof -
  have "call_inv pid (p\<lparr>p_page_table := pt\<rparr>) k" if "mmap_frames x flags v a b (p_page_table p) = Some pt" for x flags v a b pt
    using mmap_frames_inv [OF that] call_inv_proc_ok [OF assms] proc_ok_page_table [of p pt]
    by (intro call_inv_proc [OF assms]) (simp add: proc_kept_def proc_ok_parts switch_info_def)
  note c = this
  show ?thesis
    unfolding syscall_mmap_physical_def Let_def
    by (intro keeps_bind keeps_cases; (rule keeps_rets)?) (rule assms | erule c)+
qed

lemma keeps_memory_ret:
  assumes "call_inv pid p k" and "proc_kept p p' \<and> space_kept (k_mem k) m'"
  shows "keeps pid (memory_ret (r, p', m') k)"
proof -
  have "call_inv pid p' (k\<lparr>k_mem := m'\<rparr>)"
  proof (rule call_inv_mem)
    show "call_inv pid p' k" using assms by (simp add: call_inv_proc)
    show "mem_inv m'" using assms by (auto simp: call_inv_def intro: space_kept_inv)
  qed
  then show ?thesis by (auto simp: memory_ret_def Let_def intro: keeps_rets split: sum.split)
qed

lemma memory_alloc_kept:
  assumes "ext_ok x" and "proc_ok p" and "memory_alloc x a n fl p m = Some (r, p', m')"
  shows "proc_kept p p' \<and> space_kept m m'"
proof -
  have "p' = p \<and> m' = m \<or> alloc_pages x (pt_flags_of fl) a [0 ..< n div PAGE_SIZE] p m = Some (r, p', m')"
    using assms(3) by (auto simp: memory_alloc_def bind_eq_Some_conv split: if_splits)
  then show ?thesis using alloc_pages_kept [OF assms(1)] assms(2) by (auto simp: proc_kept_def)
qed

lemma memory_dealloc_kept:
  assumes "proc_ok p" and "memory_dealloc x a n p m = Some (r, p', m')"
  shows "proc_kept p p' \<and> space_kept m m'"
proof -
  have "p' = p \<and> m' = m \<or> dealloc_pages x a [0 ..< n div PAGE_SIZE] p m = Some (r, p', m')"
    using assms(2) by (auto simp: memory_dealloc_def bind_eq_Some_conv split: if_splits)
  then show ?thesis using assms(1) by (auto simp: proc_kept_def dest: dealloc_pages_kept)
qed

lemma keeps_mem_alloc:
  assumes "ext_ok (e_ext env)" and "call_inv pid p k"
  shows "keeps pid (syscall_mem_alloc env rs p k)"
  unfolding syscall_mem_alloc_def using assms(2) memory_alloc_kept [OF assms(1) call_inv_proc_ok [OF assms(2)]]
  by (auto intro!: keeps_rets keeps_bind keeps_cases keeps_memory_ret)

lemma keeps_mem_dealloc:
  assumes "call_inv pid p k"
  shows "keeps pid (syscall_mem_dealloc env rs p k)"
  unfolding syscall_mem_dealloc_def using assms memory_dealloc_kept [OF call_inv_proc_ok [OF assms], where x = "e_ext env"]
  by (auto intro!: keeps_rets keeps_bind keeps_memory_ret)

lemma keeps_dma: "call_inv pid p k \<Longrightarrow> keeps pid (syscall_dma_allocate rs p k)"
  unfolding syscall_dma_allocate_def
  by (auto simp: keeps_def bind_eq_Some_conv ok_ret_def call_inv_def dma_allocate_def dest!: dma_alloc.al_ok [rotated])

lemma call_inv_spawn:
  assumes x: "ext_ok x" and inv: "call_inv pid p k" and elf: "image_ok elf"
    and sp: "spawn x idt common raw args elf (k_sched k) (k_mem k) = Some (r, s, m)"
  shows "call_inv pid p (k\<lparr>k_sched := s, k_mem := m\<rparr>)"
proof -
  let ?s = "give_back_process p (k_sched k)"
  have "sched_inv ?s" using inv by (simp add: call_inv_def)
  moreover have "p_id p < sc_next_pid (k_sched k)"
    using sched_invD(5) [OF \<open>sched_inv ?s\<close>, of "p_id p" p] by (simp add: give_back_process_def)
  then have "spawn x idt common raw args elf ?s (k_mem k) = Some (r, give_back_process p s, m)"
    by (intro spawn_give_back [OF _ sp]) simp
  ultimately have "sched_inv (give_back_process p s)" using spawn_inv(1) [OF x elf] by blast
  moreover have "sc_running s = sc_running (k_sched k)"
    using sp by (auto simp: spawn_def Let_def bind_eq_Some_conv split: option.splits)
  moreover have "mem_inv m" using spawn_kept [OF sp] inv by (auto simp: call_inv_def intro: space_kept_inv)
  ultimately show ?thesis using inv by (simp add: call_inv_def)
qed

lemma keeps_exec:
  assumes x: "ext_ok (e_ext env)" and inv: "call_inv pid p k"
  shows "keeps pid (syscall_exec env rs p k)"
proof -
  have r: "keeps pid (do {
       (elf, m) \<leftarrow> load_elf (e_ext env) img (k_mem k);
       let k = k\<lparr>k_mem := m\<rparr>;
       (case elf of None \<Rightarrow> err_ret ec_out_of_memory p k
        | Some elf \<Rightarrow> do {
            (r, s, m) \<leftarrow> spawn (e_ext env) (e_idt env) (e_common env) (e_raw env) args elf (k_sched k) (k_mem k);
            let k = k\<lparr>k_sched := s, k_mem := m\<rparr>;
            (case r of Some pid \<Rightarrow> ok_ret pid p k | None \<Rightarrow> err_ret ec_out_of_memory p k) }) })"
    if k: "call_inv pid p k" for k :: "'a KState" and args img
  proof (rule keeps_bind, clarify)
    fix r m assume l: "load_elf (e_ext env) img (k_mem k) = Some (r, m)"
    have "mem_inv m" using load_elf_kept(1) [OF l x] k by (auto simp: call_inv_def intro: space_kept_inv)
    then have k1: "call_inv pid p (k\<lparr>k_mem := m\<rparr>)" by (rule call_inv_mem [OF k])
    show "keeps pid (let k = k\<lparr>k_mem := m\<rparr> in case r of None \<Rightarrow> err_ret ec_out_of_memory p k
        | Some elf \<Rightarrow> do {
            (r, s, m) \<leftarrow> spawn (e_ext env) (e_idt env) (e_common env) (e_raw env) args elf (k_sched k) (k_mem k);
            let k = k\<lparr>k_sched := s, k_mem := m\<rparr>;
            (case r of Some pid \<Rightarrow> ok_ret pid p k | None \<Rightarrow> err_ret ec_out_of_memory p k) })"
    proof (cases r)
      case None
      then show ?thesis using k1 by (simp add: keeps_rets)
    next
      case (Some elf)
      then have "image_ok elf" using load_elf_kept(2) [OF l x] by simp
      then show ?thesis unfolding Some Let_def option.case
        by (intro keeps_bind, clarify) (auto intro: keeps_rets dest!: call_inv_spawn [OF x k1] split: option.split)
    qed
  qed
  show ?thesis
    unfolding syscall_exec_def Let_def
    by (intro keeps_try_len inv, rule keeps_bind, rule keeps_with_slice [OF inv], rule keeps_bind,
        intro keeps_cases keeps_rets, assumption, rule keeps_bind, rule keeps_with_slice, assumption,
        erule r [unfolded Let_def])
qed

text \<open>The assumption on acknowledgements: a process acknowledges only what it has received.\<close>

definition fair_call :: "RawSyscall \<Rightarrow> 'a KState \<Rightarrow> bool" where
  "fair_call rs k \<longleftrightarrow> (syscall_try_from (of_nat (rs_routine rs)) = Some sys_ipc_acknowledge \<longrightarrow>
     outstanding (k_mgr k) (rs_arg1 rs))"

lemma keeps_syscall:
  assumes "ext_ok (e_ext env)" and "iter_order (e_ord env)" and "call_inv pid p k" and "fair_call rs k"
  shows "keeps pid (syscall env rs p k)"
proof (cases "syscall_try_from (of_nat (rs_routine rs))")
  case None
  then show ?thesis using assms(3) by (simp add: syscall_def keeps_Some)
next
  case (Some n)
  have pid: "p_id p = pid" using assms(3) by (simp add: call_inv_def)
  have "keeps pid (syscall_routine env n rs p k)"
    using assms Some keeps_debug_print [of p k env rs]
    by (cases n) (simp_all add: pid fair_call_def keeps_None keeps_Some keeps_rets keeps_exec keeps_random keeps_sleep
      keeps_subscribe keeps_unsubscribe keeps_publish keeps_deliver keeps_deliver_reply keeps_receive
      keeps_acknowledge keeps_select keeps_log_read keeps_mmap keeps_dma keeps_mem_alloc keeps_mem_dealloc)
  then show ?thesis using Some by (simp add: syscall_def)
qed

end
