(* ===== verification/SyscallEffects.thy ===== *)
theory SyscallEffects
  imports SyscallInv
begin

text \<open>
  The effect of a whole system call (\<open>handle_syscall\<close> of \<open>src/syscall/mod.rs\<close>): it keeps
  the kernel invariant, a finished call has its result in two saved registers, and a call that
  has to wait leaves all memory as it was, so that it is repeated with the same registers.
\<close>

subsection \<open>The kernel invariant\<close>

definition kernel_inv :: "'a KState \<Rightarrow> bool" where
  "kernel_inv k \<longleftrightarrow> sched_inv (k_sched k) \<and> mgr_inv (k_mgr k) \<and> mem_inv (k_mem k) \<and>
     pool_inv (k_pool k) \<and> length (k_dma k) = DMA_BLOCKS"

text \<open>The next system call of a process acknowledges only what was received.\<close>

definition fair :: "pid \<Rightarrow> 'a KState \<Rightarrow> bool" where
  "fair pid k \<longleftrightarrow> (\<forall>p rs. sc_processes (k_sched k) pid = Some p \<longrightarrow> read_syscall (k_mem k) p = Some rs \<longrightarrow> fair_call rs k)"

lemma take_give_back: "sc_processes s pid = Some p \<Longrightarrow> p_id p = pid \<Longrightarrow>
    give_back_process p (s\<lparr>sc_processes := (sc_processes s)(pid := None)\<rparr>) = s"
  by (cases s) (auto simp: give_back_process_def)

text \<open>The parts of \<open>handle_syscall\<close>.\<close>

lemma handle_syscallE:
  assumes "handle_syscall env pid k = Some (action, k')" and "sched_inv (k_sched k)"
  obtains p rs res p1 k1 m where "sc_processes (k_sched k) pid = Some p" "p_id p = pid"
    "read_syscall (k_mem k) p = Some rs"
    "syscall env rs p (k\<lparr>k_sched := (k_sched k)\<lparr>sc_processes := (sc_processes (k_sched k))(pid := None)\<rparr>\<rparr>) = Some (res, p1, k1)"
    "(case result_value res of None \<Rightarrow> Some (k_mem k1) | Some r \<Rightarrow> write_result (k_mem k1) p1 r) = Some m"
    "action = snd (result_action res)"
    "k' = k1\<lparr>k_mem := m, k_sched := give_back_process (p1\<lparr>p_repeat_syscall := fst (result_action res)\<rparr>) (k_sched k1)\<rparr>"
proof -
  obtain p rs res p1 k1 m where p: "sc_processes (k_sched k) pid = Some p" and rs: "read_syscall (k_mem k) p = Some rs"
    and sc: "syscall env rs p (k\<lparr>k_sched := (k_sched k)\<lparr>sc_processes := (sc_processes (k_sched k))(pid := None)\<rparr>\<rparr>) = Some (res, p1, k1)"
    and m: "(case result_value res of None \<Rightarrow> Some (k_mem k1) | Some r \<Rightarrow> write_result (k_mem k1) p1 r) = Some m"
    and k': "(case result_action res of (rep, action) \<Rightarrow> Some (action, k1\<lparr>k_mem := m,
      k_sched := give_back_process (p1\<lparr>p_repeat_syscall := rep\<rparr>) (k_sched k1)\<rparr>)) = Some (action, k')"
    using assms(1) by (auto simp: handle_syscall_def take_process_by_id_def bind_eq_Some_conv split: if_splits)
  have "p_id p = pid" by (rule sched_invD(4) [OF assms(2) p])
  with that p rs sc m k' show thesis by (cases "result_action res") auto
qed

lemma write_stack_kept: "write_stack_u64 m p d v = Some m' \<Longrightarrow> space_kept m m'"
  by (auto simp: write_stack_u64_def bind_eq_Some_conv dest: phys_ops_kept(4))

lemma write_result_kept: "write_result m p r = Some m' \<Longrightarrow> space_kept m m'"
  by (auto simp: write_result_def bind_eq_Some_conv split: sum.splits)
     (meson space_kept_trans write_stack_kept)+

lemma handle_syscall_inv:
  assumes x: "ext_ok (e_ext env)" and ord: "iter_order (e_ord env)" and inv: "kernel_inv k"
    and run: "sc_running (k_sched k) = Some pid" and fair: "fair pid k"
    and h: "handle_syscall env pid k = Some (action, k')"
  shows "kernel_inv k'" and "sc_running (k_sched k') = Some pid"
    and "action = AcSwitch w \<Longrightarrow> wf_wait w"
proof -
  have s: "sched_inv (k_sched k)" using inv by (simp add: kernel_inv_def)
  obtain p rs res p1 k1 m where p: "sc_processes (k_sched k) pid = Some p" "p_id p = pid"
    and rs: "read_syscall (k_mem k) p = Some rs"
    and sc: "syscall env rs p (k\<lparr>k_sched := (k_sched k)\<lparr>sc_processes := (sc_processes (k_sched k))(pid := None)\<rparr>\<rparr>) = Some (res, p1, k1)"
    and m: "(case result_value res of None \<Rightarrow> Some (k_mem k1) | Some r \<Rightarrow> write_result (k_mem k1) p1 r) = Some m"
    and a: "action = snd (result_action res)"
    and k': "k' = k1\<lparr>k_mem := m, k_sched := give_back_process (p1\<lparr>p_repeat_syscall := fst (result_action res)\<rparr>) (k_sched k1)\<rparr>"
    by (rule handle_syscallE [OF h s])
  let ?k0 = "k\<lparr>k_sched := (k_sched k)\<lparr>sc_processes := (sc_processes (k_sched k))(pid := None)\<rparr>\<rparr>"
  have "call_inv pid p ?k0" using inv run p by (simp add: call_inv_def kernel_inv_def take_give_back)
  moreover have "fair_call rs ?k0" using fair p rs by (simp add: fair_def fair_call_def)
  ultimately have c: "call_inv pid p1 k1" and ok: "result_ok res"
    using keeps_syscall [OF x ord] sc by (auto simp: keeps_def)
  have "proc_kept p1 (p1\<lparr>p_repeat_syscall := b\<rparr>)" for b
    using call_inv_proc_ok [OF c] by (simp add: proc_kept_def proc_ok_def proc_inv_def switch_info_def)
  then have c': "call_inv pid (p1\<lparr>p_repeat_syscall := fst (result_action res)\<rparr>) k1" by (rule call_inv_proc [OF c])
  have "space_kept (k_mem k1) m" using m write_result_kept by (auto split: option.splits)
  then have "mem_inv m" using c by (auto simp: call_inv_def intro: space_kept_inv)
  then show "kernel_inv k'" "sc_running (k_sched k') = Some pid"
    using c' by (simp_all add: k' kernel_inv_def call_inv_def) (simp add: give_back_process_def)
  show "action = AcSwitch w \<Longrightarrow> wf_wait w" using ok a by (cases res) auto
qed

subsection \<open>A call that does not continue changes no memory\<close>

named_theorems calm_intros

definition calm_state :: "'a KState \<Rightarrow> 'a KState \<Rightarrow> bool" where
  "calm_state k0 k \<longleftrightarrow> ms_ram (k_mem k) = ms_ram (k_mem k0) \<and> sc_processes (k_sched k) = sc_processes (k_sched k0)"

text \<open>The caller keeps its stack pointer and page table; unless it continues at once, nothing but
  scheduler queues, messages and kernel bookkeeping changes.\<close>

definition calm :: "Process \<Rightarrow> 'a KState \<Rightarrow> ('f, 'a) sys \<Rightarrow> bool" where
  "calm p k0 c \<longleftrightarrow> (\<forall>res p' k'. c = Some (res, p', k') \<longrightarrow> switch_info p' = switch_info p \<and>
     (p' = p \<and> calm_state k0 k' \<or> (\<exists>r. res = ScContinue r)))"

lemma calm_basic [calm_intros]:
  "calm p k0 None" "calm p k0 (ok_ret v p k)" "calm p k0 (err_ret e p k)" "calm p k0 (Some (ScContinue r, p, k))"
  "calm_state k0 k \<Longrightarrow> calm p k0 (bad_pointer a p k)"
  "calm_state k0 k \<Longrightarrow> calm p k0 (Some (res, p, k))"
  by (simp_all add: calm_def ok_ret_def err_ret_def bad_pointer_def)

lemma calm_bind [calm_intros]: "(\<And>v. c = Some v \<Longrightarrow> calm p k0 (f v)) \<Longrightarrow> calm p k0 (Option.bind c f)"
  by (cases c) (simp_all add: calm_def)

lemma calm_cases [calm_intros]:
  "(\<And>a. x = Inl a \<Longrightarrow> calm p k0 (f a)) \<Longrightarrow> (\<And>b. x = Inr b \<Longrightarrow> calm p k0 (g b)) \<Longrightarrow>
     calm p k0 (case x of Inl a \<Rightarrow> f a | Inr b \<Rightarrow> g b)"
  "(b \<Longrightarrow> calm p k0 c) \<Longrightarrow> (\<not> b \<Longrightarrow> calm p k0 d) \<Longrightarrow> calm p k0 (if b then c else d)"
  "(z = None \<Longrightarrow> calm p k0 c) \<Longrightarrow> (\<And>y. z = Some y \<Longrightarrow> calm p k0 (h y)) \<Longrightarrow>
     calm p k0 (case z of None \<Rightarrow> c | Some y \<Rightarrow> h y)"
  "(\<And>u v. q = (u, v) \<Longrightarrow> calm p k0 (i u v)) \<Longrightarrow> calm p k0 (case q of (u, v) \<Rightarrow> i u v)"
  by (auto split: sum.split option.split prod.split)

lemma calm_macros [calm_intros]:
  "calm p k0 c \<Longrightarrow> calm p k0 (try_len len p k c)"
  "(\<And>s. calm p k0 (f s)) \<Longrightarrow> calm p k0 (with_str bs p k f)"
  "(\<And>v. r = Inr v \<Longrightarrow> calm p k0 (g v)) \<Longrightarrow> calm p k0 (with_ipc r p k g)"
  by (auto simp: try_len_def with_str_def with_ipc_def intro!: calm_intros)

lemma calm_memory_ret:
  "proc_kept p p' \<and> space_kept (k_mem k) m' \<Longrightarrow> calm p k0 (memory_ret (r, p', m') k)"
  by (auto simp: calm_def memory_ret_def proc_kept_def ok_ret_def err_ret_def Let_def split: sum.splits)

lemma memory_slice_ram: "memory_slice_flags x flags p ptr len m = Some (r, m') \<Longrightarrow> ms_ram m' = ms_ram m"
  by (auto simp: memory_slice_flags_def bind_eq_Some_conv Let_def split: if_splits)

lemma calm_state_mem [simp]: "calm_state k0 (k\<lparr>k_mem := m\<rparr>) \<longleftrightarrow>
    ms_ram m = ms_ram (k_mem k0) \<and> sc_processes (k_sched k) = sc_processes (k_sched k0)"
  by (simp add: calm_state_def)

lemma calm_with_slice [calm_intros]:
  assumes "calm_state k0 k" and "\<And>bs m. calm_state k0 (k\<lparr>k_mem := m\<rparr>) \<Longrightarrow> calm p k0 (f bs (k\<lparr>k_mem := m\<rparr>))"
  shows "calm p k0 (with_slice env ptr len p k f)"
proof -
  have "ms_ram m = ms_ram (k_mem k)" if "read_slice x q ptr len (k_mem k) = Some (r, m)" for x :: "'a Ext" and q r m
    using that by (auto simp: read_slice_def memory_slice_def bind_eq_Some_conv split: option.splits dest!: memory_slice_ram)
  then have "calm_state k0 (k\<lparr>k_mem := m\<rparr>)" if "read_slice (e_ext env) p ptr len (k_mem k) = Some (r, m)" for r m
    using that assms(1) by (auto simp: calm_state_def)
  then show ?thesis
    unfolding with_slice_def Let_def using assms(2) by (auto intro!: calm_bind calm_cases calm_basic(5))
qed

lemma calm_with_topic [calm_intros]:
  assumes "calm_state k0 k" and "\<And>t m. calm_state k0 (k\<lparr>k_mem := m\<rparr>) \<Longrightarrow> calm p k0 (f t (k\<lparr>k_mem := m\<rparr>))"
  shows "calm p k0 (with_topic env ptr len p k f)"
  unfolding with_topic_def by (intro calm_with_slice calm_macros calm_cases calm_basic(3) assms)

lemma calm_topic_data [calm_intros]:
  "(\<And>t d. calm p k0 (f t d)) \<Longrightarrow> calm p k0 (topic_data_args env rs p k f)"
  unfolding topic_data_args_def by (intro calm_macros calm_bind)

lemma store_Nil [simp]: "store pm ram a [] = Some ram"
  by (simp add: store_def)

lemma calm_with_slice_mut [calm_intros]:
  assumes "calm_state k0 k"
    and "\<And>m res bs k'. calm_state k0 (k\<lparr>k_mem := m\<rparr>) \<Longrightarrow> f (k\<lparr>k_mem := m\<rparr>) = Some (res, bs, k') \<Longrightarrow>
      bs = [] \<and> calm_state k0 k' \<or> (\<exists>r. res = ScContinue r)"
  shows "calm p k0 (with_slice_mut env ptr len p k f)"
proof -
  have "switch_info p' = switch_info p \<and> (p' = p \<and> calm_state k0 k' \<or> (\<exists>r. res = ScContinue r))"
    if c: "with_slice_mut env ptr len p k f = Some (res, p', k')" for res p' k'
  proof -
    obtain r m where s: "memory_slice_flags (e_ext env) {PRESENT, WRITABLE} p ptr len (k_mem k) = Some (r, m)"
      using c by (auto simp: with_slice_mut_def memory_slice_mut_def bind_eq_Some_conv)
    have m: "calm_state k0 (k\<lparr>k_mem := m\<rparr>)" using memory_slice_ram [OF s] assms(1) by (auto simp: calm_state_def)
    show ?thesis
    proof (cases r)
      case None
      then show ?thesis using c s m by (auto simp: with_slice_mut_def memory_slice_mut_def bad_pointer_def)
    next
      case (Some t)
      obtain start n a where t: "t = (start, n, a)" by (cases t)
      obtain bs k1 r2 fl where b: "f (k\<lparr>k_mem := m\<rparr>) = Some (res, bs, k1)"
        "store (ms_page_map (k_mem k1)) (ms_ram (k_mem k1)) a bs = Some r2" "p' = p"
        "k' = k1\<lparr>k_mem := (k_mem k1)\<lparr>ms_ram := r2, ms_free_list := fl\<rparr>\<rparr>"
        using c s by (auto simp: Some t with_slice_mut_def memory_slice_mut_def bind_eq_Some_conv split: if_splits)
      show ?thesis using assms(2) [OF m b(1)] b(2-4) by (auto simp: calm_state_def)
    qed
  qed
  then show ?thesis by (simp add: calm_def)
qed

text \<open>Only three system calls wait.\<close>

named_theorems never_intros

definition never :: "('f, 'a) sys \<Rightarrow> bool" where
  "never c \<longleftrightarrow> (\<forall>w p k. c \<noteq> Some (ScRepeatAfter w, p, k))"

lemma never_basic [never_intros]:
  "never None" "never (ok_ret v q k)" "never (err_ret e q k)" "never (bad_pointer a q k)"
  "never (Some (ScContinue r, q, k))" "never (Some (ScSwitch r w, q, k))" "never (Some (ScTerminate t, q, k))"
  by (simp_all add: never_def ok_ret_def err_ret_def bad_pointer_def)

lemma never_bind [never_intros]: "(\<And>v. c = Some v \<Longrightarrow> never (f v)) \<Longrightarrow> never (Option.bind c f)"
  by (cases c) (simp_all add: never_def)

lemma never_cases [never_intros]:
  "(\<And>a. x = Inl a \<Longrightarrow> never (f a)) \<Longrightarrow> (\<And>b. x = Inr b \<Longrightarrow> never (g b)) \<Longrightarrow>
     never (case x of Inl a \<Rightarrow> f a | Inr b \<Rightarrow> g b)"
  "(b \<Longrightarrow> never c) \<Longrightarrow> (\<not> b \<Longrightarrow> never d) \<Longrightarrow> never (if b then c else d)"
  "(z = None \<Longrightarrow> never c) \<Longrightarrow> (\<And>y. z = Some y \<Longrightarrow> never (h y)) \<Longrightarrow> never (case z of None \<Rightarrow> c | Some y \<Rightarrow> h y)"
  "(\<And>u v. q = (u, v) \<Longrightarrow> never (i u v)) \<Longrightarrow> never (case q of (u, v) \<Rightarrow> i u v)"
  by (auto split: sum.split option.split prod.split)

lemma never_macros [never_intros]:
  "never c \<Longrightarrow> never (try_len len q k c)"
  "(\<And>s. never (f s)) \<Longrightarrow> never (with_str bs q k f)"
  "(\<And>v. r = Inr v \<Longrightarrow> never (g v)) \<Longrightarrow> never (with_ipc r q k g)"
  "never (memory_ret t k)"
  by (auto simp: try_len_def with_str_def with_ipc_def memory_ret_def Let_def intro!: never_intros split: prod.split)

lemma never_with_slice [never_intros]: "(\<And>bs k. never (f bs k)) \<Longrightarrow> never (with_slice env ptr len q k f)"
  unfolding with_slice_def Let_def by (intro never_bind never_cases never_basic)

lemma never_with_topic [never_intros]: "(\<And>t k. never (g t k)) \<Longrightarrow> never (with_topic env ptr len q k g)"
  unfolding with_topic_def by (intro never_with_slice never_macros never_cases never_basic)

lemma never_topic_data [never_intros]: "(\<And>t d. never (h t d)) \<Longrightarrow> never (topic_data_args env rs q k h)"
  unfolding topic_data_args_def by (intro never_macros never_bind)

lemma never_slice_mut [never_intros]:
  assumes "\<And>k w bs k'. f k \<noteq> Some (ScRepeatAfter w, bs, k')"
  shows "never (with_slice_mut env ptr len q k f)"
  unfolding with_slice_mut_def Let_def
  by (auto simp: never_def bind_eq_Some_conv bad_pointer_def assms split: option.split)

definition waiting_calls :: "SyscallNumber set" where
  "waiting_calls = {sys_ipc_deliver, sys_ipc_receive, sys_ipc_select}"

lemma never_calls:
  "never (syscall_debug_print env rs p k)"
  "never (syscall_exec env rs p k)"
  "never (syscall_random env rs p k)"
  "never (syscall_sched_sleep_ns env rs p k)"
  "never (syscall_ipc_subscribe env rs p k)"
  "never (syscall_ipc_unsubscribe env rs p k)"
  "never (syscall_ipc_publish env rs p k)"
  "never (syscall_ipc_deliver_reply env rs p k)"
  "never (syscall_ipc_acknowledge env rs p k)"
  "never (syscall_mmap_physical env rs p k)"
  "never (syscall_mem_alloc env rs p k)"
  "never (syscall_mem_dealloc env rs p k)"
  "never (syscall_dma_allocate rs p k)"
  unfolding syscall_debug_print_def syscall_exec_def syscall_random_def syscall_sched_sleep_ns_def syscall_ipc_subscribe_def
    syscall_ipc_unsubscribe_def syscall_ipc_publish_def syscall_ipc_deliver_reply_def syscall_ipc_acknowledge_def syscall_mmap_physical_def syscall_mem_alloc_def syscall_mem_dealloc_def
    syscall_dma_allocate_def Let_def
  by (intro never_intros)+

lemma never_log_read: "never (syscall_kernel_log_read env rs p k)"
  unfolding syscall_kernel_log_read_def Let_def by (intro never_intros) (simp split: prod.split)

lemma never_routine:
  assumes "n \<notin> waiting_calls"
  shows "never (syscall_routine env n rs p k)"
  using assms by (cases n) (simp_all add: waiting_calls_def never_basic never_calls never_log_read)

lemma receive_cases:
  assumes "(case v of Inl e \<Rightarrow> Some (ScContinue (f e), [], k)
      | Inr (Inl event) \<Rightarrow> Some (ScRepeatAfter (Event event), [], k)
      | Inr (Inr msg) \<Rightarrow> do { ser_msg \<leftarrow> enc msg; Some (ScContinue (g ser_msg), ser_msg, k) }) = Some (res, bs, k')"
  shows "bs = [] \<and> k' = k \<or> (\<exists>r. res = ScContinue r)"
proof (cases v)
  case (Inr r)
  then show ?thesis using assms by (cases r) (auto simp: bind_eq_Some_conv)
qed (use assms in simp)

lemma k_consume_calm: "k_consume env r k = (v, k') \<Longrightarrow> calm_state k0 k' \<longleftrightarrow> calm_state k0 k"
  by (auto simp: k_consume_def calm_state_def split: prod.splits)

lemma calm_receive: "calm p k (syscall_ipc_receive env rs p k)"
  unfolding syscall_ipc_receive_def Let_def
  by (intro calm_macros calm_bind calm_with_slice_mut)
     (auto simp: bind_eq_Some_conv calm_state_def k_consume_def consume_events_def dest!: receive_cases)

lemma calm_deliver: "calm p k (syscall_ipc_deliver env rs p k)"
  unfolding syscall_ipc_deliver_def Let_def
  by (intro calm_intros; simp add: calm_state_def k_consume_def consume_events_def split: Deliver.split;
      auto intro!: calm_intros simp: calm_state_def)

lemma calm_calls:
  "calm p k (syscall_debug_print env rs p k)"
  "calm p k (syscall_exec env rs p k)"
  "calm p k (syscall_random env rs p k)"
  "calm p k (syscall_sched_sleep_ns env rs p k)"
  "calm p k (syscall_ipc_subscribe env rs p k)"
  "calm p k (syscall_ipc_unsubscribe env rs p k)"
  "calm p k (syscall_ipc_publish env rs p k)"
  "calm p k (syscall_ipc_deliver_reply env rs p k)"
  "calm p k (syscall_ipc_acknowledge env rs p k)"
  "calm p k (syscall_ipc_select env rs p k)"
  "calm p k (syscall_dma_allocate rs p k)"
  unfolding syscall_debug_print_def syscall_exec_def syscall_random_def syscall_sched_sleep_ns_def syscall_ipc_subscribe_def
    syscall_ipc_unsubscribe_def syscall_ipc_publish_def syscall_ipc_deliver_reply_def syscall_ipc_acknowledge_def
    syscall_ipc_select_def syscall_dma_allocate_def Let_def
  by (intro calm_intros; auto simp: calm_state_def now_def split: prod.splits)+

lemma calm_log_read: "calm p k (syscall_kernel_log_read env rs p k)"
  unfolding syscall_kernel_log_read_def Let_def by (intro calm_intros) (auto simp: calm_state_def split: prod.splits)

lemma calm_memory_calls:
  assumes x: "ext_ok (e_ext env)" and p: "proc_ok p"
  shows "calm p k (syscall_mem_alloc env rs p k)" "calm p k (syscall_mem_dealloc env rs p k)"
    "calm p k (syscall_mmap_physical env rs p k)"
proof -
  show "calm p k (syscall_mem_alloc env rs p k)"
    unfolding syscall_mem_alloc_def using memory_alloc_kept [OF x p] by (auto intro!: calm_intros calm_memory_ret)
  show "calm p k (syscall_mem_dealloc env rs p k)"
    unfolding syscall_mem_dealloc_def using memory_dealloc_kept [OF p, where x = "e_ext env"]
    by (auto intro!: calm_intros calm_memory_ret)
  have "calm p k (ok_ret 0 (p\<lparr>p_page_table := pt\<rparr>) k)"
    if "mmap_frames (e_ext env) flags v a b (p_page_table p) = Some pt" for flags v a b pt
    using mmap_frames_inv [OF that proc_ok_parts [OF p]] by (simp add: calm_def ok_ret_def switch_info_def)
  then show "calm p k (syscall_mmap_physical env rs p k)"
    unfolding syscall_mmap_physical_def Let_def by (intro calm_bind calm_cases calm_basic)
qed

lemma calm_syscall:
  assumes "ext_ok (e_ext env)" and "proc_ok p"
  shows "calm p k (syscall env rs p k)"
proof (cases "syscall_try_from (of_nat (rs_routine rs))")
  case None
  then show ?thesis by (simp add: syscall_def calm_basic calm_state_def)
next
  case (Some n)
  then show ?thesis
    using calm_calls calm_log_read calm_memory_calls [OF assms] calm_receive calm_deliver
    by (cases n) (auto simp: syscall_def calm_state_def intro!: calm_basic)
qed

lemma syscall_repeat:
  assumes "syscall env rs p k = Some (ScRepeatAfter w, p', k')"
  obtains n where "syscall_try_from (of_nat (rs_routine rs)) = Some n" "n \<in> waiting_calls"
proof -
  obtain n where n: "syscall_try_from (of_nat (rs_routine rs)) = Some n"
    "syscall_routine env n rs p k = Some (ScRepeatAfter w, p', k')"
    using assms by (auto simp: syscall_def split: option.splits)
  have "n \<in> waiting_calls" using never_routine [of n env rs p k] n(2) by (auto simp: never_def)
  with n show thesis using that by blast
qed

subsection \<open>Saved registers\<close>

lemma read_stack_cong:
  assumes "ms_ram m' = ms_ram m" and "p_stack_pointer p' = p_stack_pointer p" and "p_stack_memory p' = p_stack_memory p"
  shows "read_stack_u64 m' p' d = read_stack_u64 m p d"
  unfolding read_stack_u64_def stack_item_def al_read_def assms ..

lemma read_syscall_cong:
  "ms_ram m' = ms_ram m \<Longrightarrow> p_stack_pointer p' = p_stack_pointer p \<Longrightarrow> p_stack_memory p' = p_stack_memory p \<Longrightarrow>
     read_syscall m' p' = read_syscall m p"
  unfolding read_syscall_def by (simp add: read_stack_cong [of m' m p' p])

lemma mem_range_write:
  "mem_range (ram_write ram a bs) a (length bs) = bs"
  "b + n \<le> a \<or> a + length bs \<le> b \<Longrightarrow> mem_range (ram_write ram a bs) b n = mem_range ram b n"
  by (auto intro!: nth_equalityI simp: mem_range_def ram_write_def)

lemma write_read_stack:
  assumes "write_stack_u64 m p d v = Some m'"
  shows "read_stack_u64 m' p d = Some (v mod 2 ^ 64)"
    and "d' \<noteq> d \<Longrightarrow> read_stack_u64 m' p d' = read_stack_u64 m p d'"
proof -
  obtain b where b: "checked_sub (p_stack_pointer p) PROCESS_STACK = Some b" "b + d * 8 + 8 \<le> al_size (p_stack_memory p)"
    "checked_u64 (b + d * 8) = Some (b + d * 8)" "checked_u64 (b + d * 8 + 8) = Some (b + d * 8 + 8)"
    "m' = m\<lparr>ms_ram := ram_write (ms_ram m) (al_start (p_stack_memory p) + (b + d * 8)) (to_le 8 v)\<rparr>"
    using assms by (auto simp: write_stack_u64_def stack_item_def bind_eq_Some_conv al_write_def checked_u64_def split: if_splits)
  have "(256 :: nat) ^ 8 = 2 ^ 64" by simp
  then show "read_stack_u64 m' p d = Some (v mod 2 ^ 64)"
    using b mem_range_write(1) [of "ms_ram m" "al_start (p_stack_memory p) + (b + d * 8)" "to_le 8 v"]
    by (simp add: read_stack_u64_def stack_item_def al_read_def from_le_to_le)
  show "read_stack_u64 m' p d' = read_stack_u64 m p d'" if "d' \<noteq> d"
  proof -
    have "mem_range (ms_ram m') (al_start (p_stack_memory p) + (b + d' * 8)) 8 =
        mem_range (ms_ram m) (al_start (p_stack_memory p) + (b + d' * 8)) 8"
      using that b(5) by (simp add: mem_range_write(2) nat_neq_iff) (intro mem_range_write(2), auto)
    then show ?thesis using b(1) by (simp add: read_stack_u64_def stack_item_def al_read_def checked_u64_def)
  qed
qed

lemma write_result_visible:
  assumes "write_result m p r = Some m'"
  shows "read_stack_u64 m' p 0 = Some (case r of Inl _ \<Rightarrow> 0 | Inr _ \<Rightarrow> 1)"
    and "read_stack_u64 m' p 5 = Some ((case r of Inl v \<Rightarrow> v | Inr v \<Rightarrow> v) mod 2 ^ 64)"
proof -
  obtain m1 where 1: "write_stack_u64 m p 0 (case r of Inl _ \<Rightarrow> 0 | Inr _ \<Rightarrow> 1) = Some m1"
    and 2: "write_stack_u64 m1 p 5 (case r of Inl v \<Rightarrow> v | Inr v \<Rightarrow> v) = Some m'"
    using assms by (auto simp: write_result_def bind_eq_Some_conv split: sum.splits)
  show "read_stack_u64 m' p 0 = Some (case r of Inl _ \<Rightarrow> 0 | Inr _ \<Rightarrow> 1)"
    using write_read_stack(2) [OF 2, of 0] write_read_stack(1) [OF 1] by (auto split: sum.split)
  show "read_stack_u64 m' p 5 = Some ((case r of Inl v \<Rightarrow> v | Inr v \<Rightarrow> v) mod 2 ^ 64)"
    using write_read_stack(1) [OF 2] .
qed

subsection \<open>A small kernel\<close>

text \<open>One running process whose registers ask for its process id; used to evaluate the properties.\<close>

definition demo_env :: "(unit, nat) Env" where
  "demo_env = \<lparr>e_ext = bump, e_ord = sorted_list_of_set, e_timer = \<lparr>th_tsc_deadline = True, th_tsc_freq = 1000000000, th_lapic_freq = 1\<rparr>,
     e_bsp = True, e_cpu_id = 0, e_can_allocate = True, e_idt = 0, e_common = 0, e_raw = (\<lambda>_ _. None),
     e_enc_message = (\<lambda>_. Some []), e_enc_terminated = (\<lambda>_ _. Some []), e_enc_unit = Some [], e_enc_u8 = (\<lambda>b. Some [b]),
     e_page_fault = Some, e_enabled = True, e_sha256 = (\<lambda>bs. bs @ bs)\<rparr>"

definition demo_kernel :: "nat KState" where
  "demo_kernel = \<lparr>k_sched = \<lparr>sc_processes = [1 \<mapsto> demo_process], sc_queues = queues_new, sc_running = Some 1,
       sc_timeslice_end = None, sc_next_pid = 2\<rparr>,
     k_mgr = manager_new, k_env = \<lparr>ke_services = Map.empty, ke_initrd = None, ke_dec_pair = (\<lambda>_. None), ke_enc_bytes = Some\<rparr>,
     k_next_event = 0, k_mem = demo_mem\<lparr>ms_ram := (\<lambda>a. if a = 0x30000000 then 1 else 0)\<rparr>, k_dma = dma_new, k_wal = [], k_port = [],
     k_pool = pool_new, k_cpu = \<lparr>tsc_values = (\<lambda>n. n), tsc_reads = 0, hwr_values = (\<lambda>_. None), hwr_reads = 0,
       has_rdseed = False, has_rdrand = False\<rparr>, k_deadline = None, k_eoi = 0, k_pic = pics_new 0x20 0x28, k_pit_ticks = 0\<rparr>"

lemma demo_env_ok: "ext_ok (e_ext demo_env)" "iter_order (e_ord demo_env)"
  by (simp_all add: demo_env_def bump_ok iter_order_sorted)

lemma demo_kernel_inv: "kernel_inv demo_kernel"
proof -
  have "proc_ok demo_process" using demo_inv(1)
    by (simp add: proc_ok_def) (simp add: demo_process_def allocs_ok_def image_ok_def)
  moreover have "p_id demo_process = 1" by (simp add: demo_process_def)
  moreover have "queued queues_new = {}" by (simp add: queues_new_def queued_def)
  ultimately have "sched_inv (k_sched demo_kernel)"
    by (simp add: sched_inv_def demo_kernel_def queues_inv_new)
  moreover have "mem_inv (k_mem demo_kernel)" using demo_inv(2) by (simp add: demo_kernel_def mem_inv_def)
  ultimately show ?thesis
    by (simp add: kernel_inv_def) (simp add: demo_kernel_def pool_inv_new dma_new_def)
qed

lemma demo_registers: "read_syscall (k_mem demo_kernel) demo_process =
    Some \<lparr>rs_routine = 1, rs_arg0 = 0, rs_arg1 = 0, rs_arg2 = 0, rs_arg3 = 0\<rparr>"
proof -
  have r: "read_stack_u64 (k_mem demo_kernel) demo_process d = Some (if d = 0 then 1 else 0)" if "d < 10" for d
  proof -
    have "mem_range (ms_ram (k_mem demo_kernel)) (0x30000000 + d * 8) 8 = (if d = 0 then [1, 0, 0, 0, 0, 0, 0, 0] else [0, 0, 0, 0, 0, 0, 0, 0])"
      by (simp add: mem_range_def demo_kernel_def upt_rec)
    then show ?thesis using that
      by (simp add: read_stack_u64_def stack_item_def demo_process_def PROCESS_STACK_def checked_sub_def checked_u64_def al_read_def)
  qed
  show ?thesis by (simp add: read_syscall_def r)
qed

lemma demo_fair: "fair 1 demo_kernel"
  using demo_registers by (simp add: fair_def fair_call_def demo_kernel_def syscall_try_from_iff)

subsection \<open>Property\<close>

definition taken :: "pid \<Rightarrow> 'a KState \<Rightarrow> 'a KState" where
  "taken pid k = k\<lparr>k_sched := (k_sched k)\<lparr>sc_processes := (sc_processes (k_sched k))(pid := None)\<rparr>\<rparr>"

text \<open>The two saved registers that carry an answer: success flag and value.\<close>

definition answered :: "'a Mem \<Rightarrow> Process \<Rightarrow> nat + nat \<Rightarrow> bool" where
  "answered m p r \<longleftrightarrow> read_stack_u64 m p 0 = Some (case r of Inl _ \<Rightarrow> 0 | Inr _ \<Rightarrow> 1) \<and>
     read_stack_u64 m p 5 = Some ((case r of Inl v \<Rightarrow> v | Inr v \<Rightarrow> v) mod 2 ^ 64)"

lemma handle_syscall_answer:
  assumes x: "ext_ok (e_ext env)" and ord: "iter_order (e_ord env)" and inv: "kernel_inv k"
    and run: "sc_running (k_sched k) = Some pid" and fair: "fair pid k"
    and h: "handle_syscall env pid k = Some (action, k')"
  shows "\<exists>p rs res p1 k1 p'. sc_processes (k_sched k) pid = Some p \<and> read_syscall (k_mem k) p = Some rs \<and>
    syscall env rs p (taken pid k) = Some (res, p1, k1) \<and> sc_processes (k_sched k') pid = Some p' \<and>
    (case res of
       ScContinue r \<Rightarrow> action = AcContinue \<and> \<not> p_repeat_syscall p' \<and> answered (k_mem k') p' r
     | ScSwitch r w \<Rightarrow> action = AcSwitch w \<and> \<not> p_repeat_syscall p' \<and> answered (k_mem k') p' r
     | ScTerminate t \<Rightarrow> action = AcTerminate t \<and> \<not> p_repeat_syscall p'
     | ScRepeatAfter w \<Rightarrow> action = AcSwitch w \<and> p_repeat_syscall p' \<and> ms_ram (k_mem k') = ms_ram (k_mem k) \<and>
         read_syscall (k_mem k') p' = Some rs \<and>
         (\<exists>n \<in> waiting_calls. syscall_try_from (of_nat (rs_routine rs)) = Some n))"
proof -
  have s: "sched_inv (k_sched k)" using inv by (simp add: kernel_inv_def)
  obtain p rs res p1 k1 m where p: "sc_processes (k_sched k) pid = Some p" "p_id p = pid"
    and rs: "read_syscall (k_mem k) p = Some rs"
    and sc: "syscall env rs p (taken pid k) = Some (res, p1, k1)"
    and m: "(case result_value res of None \<Rightarrow> Some (k_mem k1) | Some r \<Rightarrow> write_result (k_mem k1) p1 r) = Some m"
    and a: "action = snd (result_action res)"
    and k': "k' = k1\<lparr>k_mem := m, k_sched := give_back_process (p1\<lparr>p_repeat_syscall := fst (result_action res)\<rparr>) (k_sched k1)\<rparr>"
    by (rule handle_syscallE [OF h s, folded taken_def])
  have "call_inv pid p (taken pid k)" using inv run p by (simp add: taken_def call_inv_def kernel_inv_def take_give_back)
  moreover have "fair_call rs (taken pid k)" using fair p rs by (simp add: taken_def fair_def fair_call_def)
  ultimately have "call_inv pid p1 k1" using keeps_syscall [OF x ord] sc by (auto simp: keeps_def)
  then have p1: "p_id p1 = pid" by (simp add: call_inv_def)
  let ?p = "p1\<lparr>p_repeat_syscall := fst (result_action res)\<rparr>"
  have p': "sc_processes (k_sched k') pid = Some ?p" by (simp add: k' give_back_process_def p1)
  have c: "read_stack_u64 m' ?p d = read_stack_u64 m' p1 d" for m' :: "'a Mem" and d by (rule read_stack_cong) simp_all
  have w: "answered (k_mem k') ?p r" if "result_value res = Some r" for r
    using m that write_result_visible [of "k_mem k1" p1 r m] by (simp add: answered_def k' c)
  show ?thesis
  proof (intro exI conjI)
    show "case res of
       ScContinue r \<Rightarrow> action = AcContinue \<and> \<not> p_repeat_syscall ?p \<and> answered (k_mem k') ?p r
     | ScSwitch r w \<Rightarrow> action = AcSwitch w \<and> \<not> p_repeat_syscall ?p \<and> answered (k_mem k') ?p r
     | ScTerminate t \<Rightarrow> action = AcTerminate t \<and> \<not> p_repeat_syscall ?p
     | ScRepeatAfter w \<Rightarrow> action = AcSwitch w \<and> p_repeat_syscall ?p \<and> ms_ram (k_mem k') = ms_ram (k_mem k) \<and>
         read_syscall (k_mem k') ?p = Some rs \<and>
         (\<exists>n \<in> waiting_calls. syscall_try_from (of_nat (rs_routine rs)) = Some n)"
    proof (cases res)
      case (ScRepeatAfter wf)
      obtain n where n: "syscall_try_from (of_nat (rs_routine rs)) = Some n" "n \<in> waiting_calls"
        by (rule syscall_repeat [OF sc [unfolded ScRepeatAfter]])
      have n': "p1 = p" "ms_ram (k_mem k1) = ms_ram (k_mem (taken pid k))"
        using calm_syscall [OF x sched_invD(6) [OF s p(1)], of "taken pid k" rs] sc ScRepeatAfter
        by (auto simp: calm_def calm_state_def)
      have "m = k_mem k1" using m ScRepeatAfter by simp
      then have ram: "ms_ram (k_mem k') = ms_ram (k_mem k)" using n'(2) by (simp add: k' taken_def)
      have "read_syscall (k_mem k') ?p = read_syscall (k_mem k) p" by (rule read_syscall_cong) (simp_all add: ram n'(1))
      then show ?thesis using a ram n rs ScRepeatAfter by auto
    qed (use a w in simp_all)
  qed (fact p rs sc p')+
qed


lemma demo_syscall: "syscall demo_env \<lparr>rs_routine = 1, rs_arg0 = 0, rs_arg1 = 0, rs_arg2 = 0, rs_arg3 = 0\<rparr> demo_process k =
    Some (ScContinue (Inr 1), demo_process, k)"
  by (simp add: syscall_def syscall_try_from_def syscall_numbers_def ok_ret_def) (simp add: demo_process_def)

lemma demo_handle:
  assumes "k_sched k = k_sched demo_kernel" and "k_mem k = k_mem demo_kernel"
  shows "\<exists>k'. handle_syscall demo_env 1 k = Some (AcContinue, k')"
proof -
  have wr: "\<exists>m'. write_stack_u64 m demo_process d v = Some m'" if "d < 10" for d v and m :: "nat Mem"
    using that by (simp add: write_stack_u64_def stack_item_def demo_process_def PROCESS_STACK_def checked_sub_def checked_u64_def al_write_def)
  obtain m1 where m1: "write_stack_u64 (k_mem demo_kernel) demo_process 0 1 = Some m1" using wr [of 0] by auto
  obtain m2 where m2: "write_stack_u64 m1 demo_process 5 1 = Some m2" using wr [of 5] by auto
  have "sc_processes (k_sched demo_kernel) 1 = Some demo_process" "e_bsp demo_env" by (simp_all add: demo_kernel_def demo_env_def)
  then show ?thesis
    using demo_registers demo_syscall m1 m2 assms by (simp add: handle_syscall_def take_process_by_id_def write_result_def)
qed


end
