(* ===== verification/Interrupts.thy ===== *)
theory Interrupts
  imports SyscallEffects
begin

text \<open>
  Interrupts (\<open>src/interrupt/handler.rs\<close>, \<open>src/interrupt/mod.rs\<close>): what happens when a
  process or the idle kernel is interrupted, up to the point where the processor continues with
  a process, returns to the interrupted code or goes idle. Repeating suspended system calls is a
  recursion without a bound in the code, so it takes fuel here.
\<close>

subsection \<open>Outcomes\<close>

text \<open>A handler panics, returns, or never returns: it is out of fuel, waits for a lock it holds
  itself or spins on the hardware.\<close>

datatype 'x Run = NoReturn | Panic | Return 'x

fun run_bind :: "'x Run \<Rightarrow> ('x \<Rightarrow> 'y Run) \<Rightarrow> 'y Run" where
  "run_bind NoReturn f = NoReturn"
| "run_bind Panic f = Panic"
| "run_bind (Return v) f = f v"

definition run_of :: "'x option \<Rightarrow> 'x Run" where
  "run_of c = (case c of None \<Rightarrow> Panic | Some v \<Rightarrow> Return v)"

text \<open>Where the processor continues: a pair of registers for the assembly code, the idle loop, or
  a direct jump into a process.\<close>

datatype Next = NxReturn "128 word" | NxIdle | NxJump ProcessSwitchInfo

definition process_pair_to_u128 :: "nat \<Rightarrow> nat \<Rightarrow> 128 word" where
  "process_pair_to_u128 stack_pointer page_table = push_bit 64 (of_nat stack_pointer) OR of_nat page_table"

definition return_process :: "ProcessSwitchInfo \<Rightarrow> 128 word" where
  "return_process p = process_pair_to_u128 (si_stack_pointer p) (si_p4addr p)"

text \<open>What the processor passes to a handler, and what the devices hold: the byte of the keyboard,
  if there is one, and the in-service registers of the two interrupt controllers.\<close>

record 'f Irq =
  irq_vector :: u8
  irq_rsp :: nat
  irq_page_table :: nat
  irq_frame :: 'f
  irq_error_code :: u32
  irq_cr2 :: u64
  irq_keyboard :: "u8 option"
  irq_isr1 :: u8
  irq_isr2 :: u8

subsection \<open>The scheduler with the clock\<close>

text \<open>The clock is read only when a process was found.\<close>

definition k_switch :: "('f, 'a) Env \<Rightarrow> WaitFor option \<Rightarrow> 'a KState \<Rightarrow> (ProcessSwitch \<times> 'a KState) option" where
  "k_switch env schedule k = do {
     let (t, k') = now k;
     (sw, s) \<leftarrow> sched_switch (e_timer env) t schedule (k_sched k);
     Some (sw, (if sw = SwIdle then k else k')\<lparr>k_sched := s\<rparr>)
   }"

definition k_tick :: "('f, 'a) Env \<Rightarrow> 'a KState \<Rightarrow> (ProcessSwitch \<times> 'a KState) option" where
  "k_tick env k = do {
     let (t, k) = now k;
     let (later, k') = now k;
     (sw, s) \<leftarrow> tick (e_timer env) t later (k_sched k);
     Some (sw, (if sw = SwIdle then k else k')\<lparr>k_sched := s\<rparr>)
   }"

definition k_switch_current :: "'a KState \<Rightarrow> (ProcessSwitch \<times> 'a KState) option" where
  "k_switch_current k = do { (sw, s) \<leftarrow> switch_current_or_next (k_sched k); Some (sw, k\<lparr>k_sched := s\<rparr>) }"

text \<open>The timer is set for the next tick; a deadline that the hardware refuses panics.\<close>

definition k_set_deadline :: "('f, 'a) Env \<Rightarrow> 'a KState \<Rightarrow> 'a KState option" where
  "k_set_deadline env k = do {
     let (t, k') = now k;
     d \<leftarrow> next_tick (e_timer env) t (k_sched k);
     (case d of
        None \<Rightarrow> Some k
      | Some deadline \<Rightarrow> do {
          let (t, k) = now k';
          let (w, accepted) = set_deadline (e_timer env) t deadline;
          rassert accepted;
          Some (k\<lparr>k_deadline := Some w\<rparr>)
        })
   }"

definition k_terminate :: "('f, 'a) Env \<Rightarrow> pid \<Rightarrow> 'f ProcessResult \<Rightarrow> 'a KState \<Rightarrow> (ProcessSwitch \<times> 'a KState) option" where
  "k_terminate env pid status k = do {
     let (t, k') = now k;
     (sw, s, mgr, m) \<leftarrow> terminate_and_switch (e_ext env) (e_ord env) (e_timer env) t
       (e_enc_terminated env pid status) pid (k_sched k) (k_mgr k) (k_mem k);
     Some (sw, (if sc_running (k_sched k) = Some pid \<and> sw \<noteq> SwIdle then k' else k)
       \<lparr>k_sched := s, k_mgr := mgr, k_mem := m\<rparr>)
   }"

definition k_publish :: "('f, 'a) Env \<Rightarrow> string \<Rightarrow> bytes option \<Rightarrow> 'a KState \<Rightarrow> 'a KState option" where
  "k_publish env topic encoded k = do {
     (mgr, q) \<leftarrow> kernel_publish (e_ord env) topic encoded (k_mgr k) (sc_queues (k_sched k));
     Some (k\<lparr>k_mgr := mgr, k_sched := (k_sched k)\<lparr>sc_queues := q\<rparr>\<rparr>)
   }"

definition k_insert_entropy :: "u64 \<Rightarrow> 'a KState \<Rightarrow> 'a KState option" where
  "k_insert_entropy v k = do {
     (pl, c) \<leftarrow> insert_entropy v (k_pool k) (k_cpu k);
     Some (k\<lparr>k_pool := pl, k_cpu := c\<rparr>)
   }"

definition write_eoi :: "'a KState \<Rightarrow> 'a KState" where
  "write_eoi k = k\<lparr>k_eoi := k_eoi k + 1\<rparr>"

definition pics_notify_eoi :: "u8 \<Rightarrow> 'a KState \<Rightarrow> 'a KState option" where
  "pics_notify_eoi i k = do { c \<leftarrow> notify_eoi i (k_pic k); Some (k\<lparr>k_pic := c\<rparr>) }"

subsection \<open>Repeating a system call\<close>

text \<open>\<open>handle_repeat_syscall\<close> returns the process to continue with, if any, or leaves the handler
  through \<open>terminate\<close>, which never returns to its caller.\<close>

fun handle_repeat_syscall :: "nat \<Rightarrow> ('f, 'a) Env \<Rightarrow> ProcessSwitchInfo \<Rightarrow> 'a KState
      \<Rightarrow> ((ProcessSwitchInfo option + Next) \<times> 'a KState) Run"
  and terminate :: "nat \<Rightarrow> ('f, 'a) Env \<Rightarrow> pid \<Rightarrow> 'f ProcessResult \<Rightarrow> 'a KState \<Rightarrow> (Next \<times> 'a KState) Run" where
  "handle_repeat_syscall 0 env p k = NoReturn"
| "handle_repeat_syscall (Suc fuel) env p k =
     run_bind (run_of (handle_syscall env (si_pid p) k)) (\<lambda>(action, k). case action of
         AcTerminate status \<Rightarrow> run_bind (terminate fuel env (si_pid p) status k) (\<lambda>(nx, k). Return (Inr nx, k))
       | AcContinue \<Rightarrow> Return (Inl (Some p), k)
       | AcSwitch schedule \<Rightarrow> run_bind (run_of (k_switch env (Some schedule) k)) (\<lambda>(sw, k). case sw of
             SwContinue \<Rightarrow> Return (Inl None, k)
           | SwIdle \<Rightarrow> Return (Inl None, k)
           | SwSwitch inner_p \<Rightarrow> Return (Inl (Some inner_p), k)
           | SwRepeatSyscall inner_p \<Rightarrow>
               (if si_pid p = si_pid inner_p then Panic else handle_repeat_syscall fuel env inner_p k)))"
| "terminate 0 env pid status k = NoReturn"
| "terminate (Suc fuel) env pid status k =
     run_bind (run_of (k_terminate env pid status k)) (\<lambda>(sw, k). case sw of
         SwContinue \<Rightarrow> Panic
       | SwIdle \<Rightarrow> Return (NxIdle, k)
       | SwSwitch p \<Rightarrow> Return (NxJump p, k)
       | SwRepeatSyscall p \<Rightarrow> run_bind (handle_repeat_syscall fuel env p k) (\<lambda>(r, k). case r of
             Inl (Some rp) \<Rightarrow> Return (NxJump rp, k)
           | Inl None \<Rightarrow> Return (NxIdle, k)
           | Inr nx \<Rightarrow> Return (nx, k)))"

definition fail :: "nat \<Rightarrow> ('f, 'a) Env \<Rightarrow> pid \<Rightarrow> 'f ProcessError \<Rightarrow> 'a KState \<Rightarrow> (Next \<times> 'a KState) Run" where
  "fail fuel env pid error k = terminate fuel env pid (Failed error) k"

subsection \<open>Device interrupts\<close>

definition exception_irq0 :: "'a KState \<Rightarrow> 'a KState Run" where
  "exception_irq0 k = (if \<not> pics_enabled (k_pic k) then Panic
     else run_of (pics_notify_eoi 0x20 (k\<lparr>k_pit_ticks := k_pit_ticks k + 1\<rparr>)))"

definition exception_irq1 :: "('f, 'a) Env \<Rightarrow> 'f Irq \<Rightarrow> 'a KState \<Rightarrow> 'a KState Run" where
  "exception_irq1 env irq k = (case irq_keyboard irq of
     None \<Rightarrow> NoReturn
   | Some byte \<Rightarrow> run_of (do {
       k \<leftarrow> k_publish env ''irq/keyboard'' (e_enc_u8 env byte) k;
       pics_notify_eoi 0x21 k
     }))"

definition exception_irq14 :: "'a KState \<Rightarrow> 'a KState Run" where
  "exception_irq14 k = (if \<not> pics_enabled (k_pic k) then Panic else run_of (pics_notify_eoi 0x2e k))"

text \<open>For a real interrupt the lock of the controllers is taken a second time.\<close>

definition exception_irq7 :: "'f Irq \<Rightarrow> 'a KState \<Rightarrow> 'a KState Run" where
  "exception_irq7 irq k = (if \<not> pics_enabled (k_pic k) then Panic
     else (case pics_read_isr (irq_isr1 irq) (irq_isr2 irq) (k_pic k) of (isr, c) \<Rightarrow>
       if isr AND push_bit 7 1 \<noteq> 0 then NoReturn else Return (k\<lparr>k_pic := c\<rparr>)))"

definition exception_irq15 :: "'f Irq \<Rightarrow> 'a KState \<Rightarrow> 'a KState Run" where
  "exception_irq15 irq k = (if \<not> pics_enabled (k_pic k) then Panic
     else (case pics_read_isr (irq_isr1 irq) (irq_isr2 irq) (k_pic k) of (isr, c) \<Rightarrow>
       let k = k\<lparr>k_pic := c\<rparr> in
       if isr AND push_bit 15 1 \<noteq> 0 then run_of (pics_notify_eoi 0x2f k)
       else Return (k\<lparr>k_pic := notify_eoi_primary c\<rparr>)))"

definition publish_irq :: "('f, 'a) Env \<Rightarrow> u8 \<Rightarrow> 'a KState \<Rightarrow> 'a KState option" where
  "publish_irq env interrupt k = do {
     rassert (0x30 \<le> interrupt);
     k \<leftarrow> k_publish env (''irq/'' @ show_nat (unat (interrupt - 0x30))) (e_enc_unit env) k;
     Some (write_eoi k)
   }"

subsection \<open>Interrupts of a process\<close>

text \<open>The macro \<open>handle_switch!\<close>. In the range of dynamic interrupts it is used while the lock of the
  scheduler is held, which makes repeating a system call panic. Falling out of the macro returns to
  the interrupted process.\<close>

definition handle_switch :: "nat \<Rightarrow> ('f, 'a) Env \<Rightarrow> bool \<Rightarrow> 'f Irq \<Rightarrow> ProcessSwitch \<Rightarrow> 'a KState \<Rightarrow> (Next \<times> 'a KState) Run" where
  "handle_switch fuel env locked irq sw k =
     (let interrupted = NxReturn (process_pair_to_u128 (irq_rsp irq) (irq_page_table irq)) in case sw of
        SwContinue \<Rightarrow> Return (interrupted, k)
      | SwIdle \<Rightarrow> Return (NxIdle, k)
      | SwSwitch p \<Rightarrow> Return (NxReturn (return_process p), k)
      | SwRepeatSyscall p \<Rightarrow>
          (if locked then Panic
           else run_bind (handle_repeat_syscall fuel env p k) (\<lambda>(r, k). case r of
               Inl (Some inner_p) \<Rightarrow> Return (NxReturn (return_process inner_p), k)
             | Inl None \<Rightarrow> Return (interrupted, k)
             | Inr nx \<Rightarrow> Return (nx, k))))"

definition interrupt_syscall :: "nat \<Rightarrow> ('f, 'a) Env \<Rightarrow> 'f Irq \<Rightarrow> pid \<Rightarrow> 'a KState \<Rightarrow> (Next \<times> 'a KState) Run" where
  "interrupt_syscall fuel env irq pid k =
     run_bind (run_of (handle_syscall env pid k)) (\<lambda>(action, k). case action of
         AcTerminate status \<Rightarrow> terminate fuel env pid status k
       | AcContinue \<Rightarrow> handle_switch fuel env False irq SwContinue k
       | AcSwitch schedule \<Rightarrow> run_bind (run_of (do {
             (target, k) \<leftarrow> k_switch env (Some schedule) k;
             k \<leftarrow> k_set_deadline env k;
             Some (target, k)
           })) (\<lambda>(target, k). handle_switch fuel env False irq target k))"

definition interrupt_deadline :: "nat \<Rightarrow> ('f, 'a) Env \<Rightarrow> 'f Irq \<Rightarrow> 'a KState \<Rightarrow> (Next \<times> 'a KState) Run" where
  "interrupt_deadline fuel env irq k =
     (let k = write_eoi k in
      if \<not> e_enabled env then Panic
      else if e_bsp env then run_bind (run_of (do {
          (target, k) \<leftarrow> k_tick env k;
          k \<leftarrow> k_set_deadline env k;
          Some (target, k)
        })) (\<lambda>(target, k). handle_switch fuel env False irq target k)
      else handle_switch fuel env False irq SwIdle k)"

text \<open>Errors of the process by interrupt vector.\<close>

definition process_error :: "('f, 'a) Env \<Rightarrow> 'f Irq \<Rightarrow> 'f ProcessError option" where
  "process_error env irq = (let v = irq_vector irq in
     if v = 0x00 then Some (DivideByZero (irq_frame irq))
     else if v = 0x0e then do {
       code \<leftarrow> e_page_fault env (ucast (irq_error_code irq));
       Some (PageFault (irq_frame irq) (irq_cr2 irq) code)
     }
     else if v \<in> {0x08, 0x0a, 0x0b, 0x0c, 0x0d, 0x11, 0x1e} then Some (InterruptWithCode v (irq_frame irq) (irq_error_code irq))
     else Some (Interrupt v (irq_frame irq)))"

definition dispatch :: "nat \<Rightarrow> ('f, 'a) Env \<Rightarrow> 'f Irq \<Rightarrow> pid \<Rightarrow> 'a KState \<Rightarrow> (Next \<times> 'a KState) Run" where
  "dispatch fuel env irq pid k =
     (let v = irq_vector irq; continue = (\<lambda>k. handle_switch fuel env False irq SwContinue k) in
      if v = 0xd7 then interrupt_syscall fuel env irq pid k
      else if v = 0xd8 then interrupt_deadline fuel env irq k
      else if v = 0x20 then Panic
      else if v = 0x21 then run_bind (exception_irq1 env irq k) continue
      else if v = 0x27 then run_bind (exception_irq7 irq k) continue
      else if 0x22 \<le> v \<and> v \<le> 0x26 \<or> v = 0x28 \<or> 0x2c \<le> v \<and> v \<le> 0x2d then Panic
      else if v = 0x2e then run_bind (exception_irq14 k) continue
      else if v = 0x2f then run_bind (exception_irq15 irq k) continue
      else if 0x30 \<le> v \<and> v \<le> 0x9f then run_bind (run_of (do {
          k \<leftarrow> publish_irq env v k;
          k_switch_current k
        })) (\<lambda>(target, k). handle_switch fuel env True irq target k)
      else run_bind (run_of (process_error env irq)) (\<lambda>e. fail fuel env pid e k))"

definition process_interrupt_inner :: "nat \<Rightarrow> ('f, 'a) Env \<Rightarrow> 'f Irq \<Rightarrow> 'a KState \<Rightarrow> (Next \<times> 'a KState) Run" where
  "process_interrupt_inner fuel env irq k = run_bind (run_of (do {
     pid \<leftarrow> get_running_pid (k_sched k);
     s \<leftarrow> store_state pid (irq_page_table irq) (irq_rsp irq) (k_sched k);
     k \<leftarrow> k_insert_entropy (ucast (irq_vector irq)) (k\<lparr>k_sched := s\<rparr>);
     Some (pid, k)
   })) (\<lambda>(pid, k). dispatch fuel env irq pid k)"

subsection \<open>Interrupts of the kernel\<close>

text \<open>While the kernel idles, handlers return a process to switch to, or zero.\<close>

definition kernel_switch :: "nat \<Rightarrow> ('f, 'a) Env \<Rightarrow> ProcessSwitch \<Rightarrow> 'a KState \<Rightarrow> (Next \<times> 'a KState) Run" where
  "kernel_switch fuel env sw k = (case sw of
     SwContinue \<Rightarrow> Return (NxReturn 0, k)
   | SwIdle \<Rightarrow> Return (NxReturn 0, k)
   | SwSwitch p \<Rightarrow> Return (NxReturn (return_process p), k)
   | SwRepeatSyscall p \<Rightarrow> run_bind (handle_repeat_syscall fuel env p k) (\<lambda>(r, k). case r of
         Inl (Some rp) \<Rightarrow> Return (NxReturn (return_process rp), k)
       | Inl None \<Rightarrow> Return (NxReturn 0, k)
       | Inr nx \<Rightarrow> Return (nx, k)))"

definition exception_tsc_deadline :: "nat \<Rightarrow> ('f, 'a) Env \<Rightarrow> 'a KState \<Rightarrow> (Next \<times> 'a KState) Run" where
  "exception_tsc_deadline fuel env k = run_bind (run_of (k_insert_entropy 0 k)) (\<lambda>k.
     let k = write_eoi k in
     if e_bsp env \<and> e_enabled env then run_bind (run_of (do {
         (target, k) \<leftarrow> k_tick env k;
         k \<leftarrow> k_set_deadline env k;
         Some (target, k)
       })) (\<lambda>(target, k). kernel_switch fuel env target k)
     else Return (NxReturn 0, k))"

definition irq_dynamic :: "nat \<Rightarrow> ('f, 'a) Env \<Rightarrow> u8 \<Rightarrow> 'a KState \<Rightarrow> (Next \<times> 'a KState) Run" where
  "irq_dynamic fuel env interrupt k = run_bind (run_of (do {
     k \<leftarrow> publish_irq env interrupt k;
     k_switch_current k
   })) (\<lambda>(target, k). kernel_switch fuel env target k)"

text \<open>The handlers of the kernel's interrupt table.\<close>

datatype Handler =
    HPanics
  | HBreakpoint
  | HDoubleFault
  | HIrq0
  | HIrq1
  | HIrq7
  | HIrq14
  | HIrq15
  | HDynamic u8
  | HDeadline
  | HIpiPanic

definition kernel_handlers :: "nat \<Rightarrow> Handler option" where
  "kernel_handlers v =
     (if v \<in> {0x00, 0x06, 0x0b, 0x0d, 0x0e, 0xd7, 0xff} then Some HPanics
      else if v = 0x03 then Some HBreakpoint
      else if v = 0x08 then Some HDoubleFault
      else if v = 0x20 then Some HIrq0
      else if v = 0x21 then Some HIrq1
      else if v = 0x27 then Some HIrq7
      else if v = 0x2e then Some HIrq14
      else if v = 0x2f then Some HIrq15
      else if 0x30 \<le> v \<and> v \<le> 0x9f then Some (HDynamic (of_nat v))
      else if v = 0xd8 then Some HDeadline
      else if v = 0xdd then Some HIpiPanic
      else None)"

text \<open>\<open>init\<close>: the table of descriptors, given the addresses of the handlers.\<close>

definition kernel_idt :: "(nat \<Rightarrow> u64) \<Rightarrow> Descriptor list option" where
  "kernel_idt address = foldM (\<lambda>table v. do {
     d \<leftarrow> (case kernel_handlers v of
         None \<Rightarrow> descriptor_new False 0 0 None
       | Some h \<Rightarrow> descriptor_new True (address v) 0 (if h = HDoubleFault then Some 0 else None));
     Some (table @ [d]) }) [] [0 ..< IDT_ENTRY_COUNT]"

fun run_handler :: "nat \<Rightarrow> ('f, 'a) Env \<Rightarrow> 'f Irq \<Rightarrow> Handler \<Rightarrow> 'a KState \<Rightarrow> (Next \<times> 'a KState) Run" where
  "run_handler fuel env irq HPanics k = Panic"
| "run_handler fuel env irq HBreakpoint k = Return (NxReturn 0, k)"
| "run_handler fuel env irq HDoubleFault k = NoReturn"
| "run_handler fuel env irq HIrq0 k = run_bind (exception_irq0 k) (\<lambda>k. Return (NxReturn 0, k))"
| "run_handler fuel env irq HIrq1 k = run_bind (exception_irq1 env irq k) (\<lambda>k. Return (NxReturn 0, k))"
| "run_handler fuel env irq HIrq7 k = run_bind (exception_irq7 irq k) (\<lambda>k. Return (NxReturn 0, k))"
| "run_handler fuel env irq HIrq14 k = run_bind (exception_irq14 k) (\<lambda>k. Return (NxReturn 0, k))"
| "run_handler fuel env irq HIrq15 k = run_bind (exception_irq15 irq k) (\<lambda>k. Return (NxReturn 0, k))"
| "run_handler fuel env irq (HDynamic i) k = irq_dynamic fuel env i k"
| "run_handler fuel env irq HDeadline k = exception_tsc_deadline fuel env k"
| "run_handler fuel env irq HIpiPanic k = NoReturn"

subsection \<open>The interrupt table of a process\<close>

text \<open>\<open>write_process_dts\<close>: entry \<open>i\<close> points to the \<open>i\<close>-th jump of five bytes.\<close>

definition process_idt :: "u64 \<Rightarrow> Descriptor list option" where
  "process_idt idt_table = foldM (\<lambda>table v. do {
     pointer \<leftarrow> checked_u64 (unat idt_table + v * 5);
     d \<leftarrow> descriptor_new True (of_nat pointer) 0 None;
     Some (table @ [d]) }) [] [0 ..< IDT_ENTRY_COUNT]"

subsection \<open>Facts\<close>

text \<open>The registers in which the pair arrives: \<open>rax\<close> is the page table, \<open>rdx\<close> the stack pointer.\<close>

lemma return_process_registers:
  assumes "si_stack_pointer p < 2 ^ 64" and "si_p4addr p < 2 ^ 64"
  shows "unat (return_process p) mod 2 ^ 64 = si_p4addr p" and "unat (return_process p) div 2 ^ 64 = si_stack_pointer p"
proof -
  have "unat (return_process p) = push_bit 64 (si_stack_pointer p) OR si_p4addr p"
  proof -
    have lt: "push_bit 64 (si_stack_pointer p) < (2 :: nat) ^ 128" "si_p4addr p < (2 :: nat) ^ 128"
      using assms by (simp_all add: push_bit_eq_mult)
    have "push_bit 64 (of_nat (si_stack_pointer p) :: 128 word) = of_nat (push_bit 64 (si_stack_pointer p))"
      by (simp add: push_bit_eq_mult)
    then have "unat (push_bit 64 (of_nat (si_stack_pointer p)) :: 128 word) = push_bit 64 (si_stack_pointer p)"
      "unat (of_nat (si_p4addr p) :: 128 word) = si_p4addr p"
      using lt by (simp_all add: unat_of_nat take_bit_eq_mod)
    then show ?thesis by (simp add: return_process_def process_pair_to_u128_def unsigned_or_eq)
  qed
  also have "\<dots> = si_stack_pointer p * 2 ^ 64 + si_p4addr p"
  proof -
    have "bit (push_bit 64 (si_stack_pointer p)) n \<Longrightarrow> \<not> bit (si_p4addr p) n" for n
      using assms(2) by (metis bit_push_bit_iff_nat bit_take_bit_iff linorder_not_less take_bit_nat_eq_self_iff)
    then have "push_bit 64 (si_stack_pointer p) AND si_p4addr p = 0" by (intro bit_eqI) (auto simp: bit_simps)
    then show ?thesis by (simp add: disjunctive_add_eq_or [symmetric]) (simp add: push_bit_eq_mult)
  qed
  finally have e: "unat (return_process p) = si_stack_pointer p * 2 ^ 64 + si_p4addr p" .
  show "unat (return_process p) mod 2 ^ 64 = si_p4addr p" "unat (return_process p) div 2 ^ 64 = si_stack_pointer p"
    using assms unfolding e by simp_all
qed

text \<open>Tables of descriptors.\<close>

lemma foldM_collect:
  "(\<And>v. v \<in> set xs \<Longrightarrow> g v = Some (d v)) \<Longrightarrow> foldM (\<lambda>t v. do { e \<leftarrow> g v; Some (t @ [e]) }) ys xs = Some (ys @ map d xs)"
  by (induction xs arbitrary: ys) simp_all

lemma descriptor_new_plain: "\<exists>d. descriptor_new True a 0 ist = Some d" if "ist = None \<or> ist = Some 0"
  using that by (auto simp: descriptor_new_def)

lemma kernel_idt_entries:
  obtains ds where "kernel_idt address = Some ds" "length ds = IDT_ENTRY_COUNT"
    "\<And>v. v < IDT_ENTRY_COUNT \<Longrightarrow> descriptor_present (ds ! v) \<longleftrightarrow> kernel_handlers v \<noteq> None"
    "\<And>v. v < IDT_ENTRY_COUNT \<Longrightarrow> kernel_handlers v \<noteq> None \<Longrightarrow> descriptor_pointer (ds ! v) = address v"
proof -
  define g where "g v = (case kernel_handlers v of
         None \<Rightarrow> descriptor_new False 0 0 None
       | Some h \<Rightarrow> descriptor_new True (address v) 0 (if h = HDoubleFault then Some 0 else None))" for v
  define d where "d v = the (g v)" for v
  have "\<exists>e. g v = Some e" for v
    using descriptor_new_plain by (auto simp: g_def descriptor_new_def split: option.split)
  then have d: "g v = Some (d v)" for v by (simp add: d_def)
  have "kernel_idt address = Some (map d [0 ..< IDT_ENTRY_COUNT])"
    unfolding kernel_idt_def g_def [symmetric] using foldM_collect [of "[0 ..< IDT_ENTRY_COUNT]" g d "[]"] d by simp
  moreover have "descriptor_present (d v) \<longleftrightarrow> kernel_handlers v \<noteq> None" for v
    using descriptor_roundtrip(2) [of _ _ 0 _ "d v"] d [of v] by (auto simp: g_def split: option.splits)
  moreover have "descriptor_pointer (d v) = address v" if "kernel_handlers v \<noteq> None" for v
    using descriptor_roundtrip(1) [of _ _ 0 _ "d v"] d [of v] that by (auto simp: g_def split: option.splits)
  ultimately show thesis using that [of "map d [0 ..< IDT_ENTRY_COUNT]"] by simp
qed

lemma process_idt_entries:
  assumes "unat idt_table + 5 * IDT_ENTRY_COUNT \<le> 2 ^ 64"
  obtains ds where "process_idt idt_table = Some ds" "length ds = IDT_ENTRY_COUNT"
    "\<And>v. v < IDT_ENTRY_COUNT \<Longrightarrow> descriptor_pointer (ds ! v) = idt_table + 5 * of_nat v"
proof -
  define g where "g v = do { pointer \<leftarrow> checked_u64 (unat idt_table + v * 5); descriptor_new True (of_nat pointer) 0 None }" for v
  define d where "d v = the (descriptor_new True (idt_table + 5 * of_nat v) 0 None)" for v
  have e: "descriptor_new True (idt_table + 5 * of_nat v) 0 None = Some (d v)" for v
    using descriptor_new_plain [of None] by (simp add: d_def)
  have g: "g v = Some (d v)" if "v < IDT_ENTRY_COUNT" for v
    using that assms e [of v] by (simp add: g_def checked_u64_def mult.commute)
  have "process_idt idt_table = foldM (\<lambda>t v. do { e \<leftarrow> g v; Some (t @ [e]) }) [] [0 ..< IDT_ENTRY_COUNT]"
    by (simp add: process_idt_def g_def)
  then have "process_idt idt_table = Some (map d [0 ..< IDT_ENTRY_COUNT])"
    using foldM_collect [of "[0 ..< IDT_ENTRY_COUNT]" g d "[]"] g by simp
  then show thesis using that [of "map d [0 ..< IDT_ENTRY_COUNT]"] descriptor_roundtrip(1) [OF e] by simp
qed

end
