(* ===== verification/InterruptSafety.thy ===== *)
theory InterruptSafety
  imports Interrupts
begin

text \<open>
  What an interrupt of a process leads to: every handler keeps the kernel invariant, and the
  processor continues with the saved context of the process that the scheduler regards as
  running, or idles when there is none.
\<close>

subsection \<open>Suspended system calls\<close>

definition waits_in_call :: "'a Mem \<Rightarrow> Process \<Rightarrow> bool" where
  "waits_in_call m p \<longleftrightarrow> (\<exists>rs. read_syscall m p = Some rs \<and>
     (\<exists>n \<in> waiting_calls. syscall_try_from (of_nat (rs_routine rs)) = Some n))"

definition stack_range :: "Process \<Rightarrow> nat set" where
  "stack_range p = {al_start (p_stack_memory p) ..< al_start (p_stack_memory p) + al_size (p_stack_memory p)}"

text \<open>A suspended process is in one of the calls that wait, and stacks do not overlap.\<close>

definition calls_ok :: "'a KState \<Rightarrow> bool" where
  "calls_ok k \<longleftrightarrow> (\<forall>pid p. sc_processes (k_sched k) pid = Some p \<longrightarrow> p_repeat_syscall p \<longrightarrow> waits_in_call (k_mem k) p) \<and>
     (\<forall>a b p q. sc_processes (k_sched k) a = Some p \<longrightarrow> sc_processes (k_sched k) b = Some q \<longrightarrow> a \<noteq> b \<longrightarrow>
       stack_range p \<inter> stack_range q = {})"

lemma waits_in_call_cong:
  "ms_ram m' = ms_ram m \<Longrightarrow> p_stack_pointer p' = p_stack_pointer p \<Longrightarrow> p_stack_memory p' = p_stack_memory p \<Longrightarrow>
     waits_in_call m' p' = waits_in_call m p"
  by (simp add: waits_in_call_def read_syscall_cong [of m' m p' p])

lemma calls_ok_subset:
  assumes "calls_ok k" and "sc_processes (k_sched k') \<subseteq>\<^sub>m sc_processes (k_sched k)"
    and "ms_ram (k_mem k') = ms_ram (k_mem k)"
  shows "calls_ok k'"
proof -
  have sub: "sc_processes (k_sched k) pid = Some p" if "sc_processes (k_sched k') pid = Some p" for pid p
    using assms(2) that by (force simp: map_le_def)
  have "waits_in_call (k_mem k') p = waits_in_call (k_mem k) p" for p
    by (rule waits_in_call_cong) (simp_all add: assms(3))
  with sub assms(1) show ?thesis unfolding calls_ok_def by metis
qed

text \<open>A write to the stack of a process leaves other stacks alone.\<close>

lemma write_other_stack:
  assumes "write_stack_u64 m p d v = Some m'" and "stack_range p \<inter> stack_range q = {}"
  shows "read_stack_u64 m' q d' = read_stack_u64 m q d'"
proof -
  obtain i where i: "i + 8 \<le> al_size (p_stack_memory p)"
    "m' = m\<lparr>ms_ram := ram_write (ms_ram m) (al_start (p_stack_memory p) + i) (to_le 8 v)\<rparr>"
    using assms(1) by (auto simp: write_stack_u64_def bind_eq_Some_conv al_write_def split: if_splits)
  have "al_read m' (p_stack_memory q) j (j + 8) = al_read m (p_stack_memory q) j (j + 8)" for j
  proof (cases "j + 8 \<le> al_size (p_stack_memory q)")
    case True
    let ?a = "al_start (p_stack_memory p) + i" and ?b = "al_start (p_stack_memory q) + j"
    have "?b + 8 \<le> ?a \<or> ?a + 8 \<le> ?b"
    proof (rule ccontr)
      assume "\<not> ?thesis"
      then have "max ?a ?b \<in> stack_range p \<inter> stack_range q" using i(1) True by (auto simp: stack_range_def)
      with assms(2) show False by simp
    qed
    then show ?thesis using True i(2) by (simp add: al_read_def mem_range_write(2))
  qed (simp add: al_read_def)
  then show ?thesis by (cases "stack_item q d'") (simp_all add: read_stack_u64_def checked_u64_def)
qed

lemma write_result_other:
  assumes "write_result m p r = Some m'" and "stack_range p \<inter> stack_range q = {}"
  shows "waits_in_call m' q = waits_in_call m q"
proof -
  obtain m1 d v d' v' where "write_stack_u64 m p d v = Some m1" "write_stack_u64 m1 p d' v' = Some m'"
    using assms(1) by (auto simp: write_result_def bind_eq_Some_conv split: sum.splits)
  then have "read_stack_u64 m' q i = read_stack_u64 m q i" for i using write_other_stack assms(2) by metis
  then show ?thesis by (simp add: waits_in_call_def read_syscall_def)
qed

lemma handle_syscall_context:
  assumes x: "ext_ok (e_ext env)" and ord: "iter_order (e_ord env)" and inv: "kernel_inv k"
    and run: "sc_running (k_sched k) = Some pid" and fair: "fair pid k"
    and h: "handle_syscall env pid k = Some (action, k')"
  obtains p p' where "sc_processes (k_sched k) pid = Some p" "sc_processes (k_sched k') pid = Some p'"
    "switch_info p' = switch_info p" "p_stack_memory p' = p_stack_memory p \<or> action = AcContinue"
    "action = AcContinue \<Longrightarrow> \<not> p_repeat_syscall p'" "p_repeat_syscall p' \<Longrightarrow> waits_in_call (k_mem k') p'"
    "action \<noteq> AcContinue \<Longrightarrow> q \<noteq> pid \<Longrightarrow> sc_processes (k_sched k') q = sc_processes (k_sched k) q"
    "action \<noteq> AcContinue \<Longrightarrow> stack_range p \<inter> stack_range r = {} \<Longrightarrow> waits_in_call (k_mem k') r = waits_in_call (k_mem k) r"
proof -
  have s: "sched_inv (k_sched k)" using inv by (simp add: kernel_inv_def)
  obtain p rs res p1 k1 m where p: "sc_processes (k_sched k) pid = Some p" "p_id p = pid"
    and rs: "read_syscall (k_mem k) p = Some rs"
    and sc: "syscall env rs p (taken pid k) = Some (res, p1, k1)"
    and m: "(case result_value res of None \<Rightarrow> Some (k_mem k1) | Some r \<Rightarrow> write_result (k_mem k1) p1 r) = Some m"
    and a: "action = snd (result_action res)"
    and k': "k' = k1\<lparr>k_mem := m, k_sched := give_back_process (p1\<lparr>p_repeat_syscall := fst (result_action res)\<rparr>) (k_sched k1)\<rparr>"
    by (rule handle_syscallE [OF h s, folded taken_def])
  let ?p = "p1\<lparr>p_repeat_syscall := fst (result_action res)\<rparr>"
  note calm = calm_syscall [OF x sched_invD(6) [OF s p(1)], of "taken pid k" rs]
  have si: "switch_info p1 = switch_info p" using calm sc by (auto simp: calm_def)
  then have "p_id p1 = pid" using p(2) by (simp add: switch_info_def)
  then have p': "sc_processes (k_sched k') pid = Some ?p" by (simp add: k' give_back_process_def)
  have c: "p1 = p" "calm_state (taken pid k) k1" if "action \<noteq> AcContinue"
    using calm sc that a by (auto simp: calm_def)
  obtain p2 where p2: "sc_processes (k_sched k') pid = Some p2"
    "p_repeat_syscall p2 \<Longrightarrow> waits_in_call (k_mem k') p2"
    using handle_syscall_answer [OF assms] by (fastforce simp: waits_in_call_def split: SyscallResult.splits)
  show thesis
  proof (rule that [OF p(1) p'])
    show "switch_info ?p = switch_info p" using si by (simp add: switch_info_def)
    show "p_stack_memory ?p = p_stack_memory p \<or> action = AcContinue" using c by auto
    show "\<not> p_repeat_syscall ?p" if "action = AcContinue" using a that by (cases res) auto
    show "waits_in_call (k_mem k') ?p" if "p_repeat_syscall ?p" using p2 p' that by simp
    show "sc_processes (k_sched k') q = sc_processes (k_sched k) q" if "action \<noteq> AcContinue" "q \<noteq> pid"
      using c [OF that(1)] that(2) p(2) by (auto simp: k' give_back_process_def calm_state_def taken_def)
    show "waits_in_call (k_mem k') r = waits_in_call (k_mem k) r"
      if "action \<noteq> AcContinue" "stack_range p \<inter> stack_range r = {}"
    proof -
      have "waits_in_call (k_mem k1) r = waits_in_call (k_mem k) r"
        using c(2) [OF that(1)] by (intro waits_in_call_cong) (simp_all add: calm_state_def taken_def)
      moreover have "waits_in_call m r = waits_in_call (k_mem k1) r"
        using m write_result_other [of "k_mem k1" p1 _ m r] that c(1) [OF that(1)] by (auto split: option.splits)
      ultimately show ?thesis by (simp add: k')
    qed
  qed
qed

lemma handle_syscall_calls_ok:
  assumes x: "ext_ok (e_ext env)" and ord: "iter_order (e_ord env)" and inv: "kernel_inv k"
    and run: "sc_running (k_sched k) = Some pid" and fair: "fair pid k"
    and h: "handle_syscall env pid k = Some (action, k')" and ok: "calls_ok k" and act: "action \<noteq> AcContinue"
  shows "calls_ok k'"
proof -
  note hc = handle_syscall_context [OF x ord inv run fair h]
  obtain p p' where p: "sc_processes (k_sched k) pid = Some p" "sc_processes (k_sched k') pid = Some p'"
    "p_repeat_syscall p' \<Longrightarrow> waits_in_call (k_mem k') p'" "stack_range p' = stack_range p"
    using hc act by (metis stack_range_def)
  have other: "sc_processes (k_sched k') q = sc_processes (k_sched k) q" if "q \<noteq> pid" for q using hc act that by metis
  have waits: "waits_in_call (k_mem k') r = waits_in_call (k_mem k) r" if "stack_range p \<inter> stack_range r = {}" for r
    using hc act that p(1) by (metis option.inject)
  have apart: "stack_range a \<inter> stack_range b = {}"
    if "sc_processes (k_sched k) i = Some a" "sc_processes (k_sched k) j = Some b" "i \<noteq> j" for i j a b
    using ok that unfolding calls_ok_def by blast
  show ?thesis unfolding calls_ok_def
  proof (intro conjI allI impI)
    fix i r assume r: "sc_processes (k_sched k') i = Some r" "p_repeat_syscall r"
    show "waits_in_call (k_mem k') r"
    proof (cases "i = pid")
      case False
      then have "sc_processes (k_sched k) i = Some r" using r(1) other by simp
      then show ?thesis using ok r(2) waits [OF apart [OF p(1)]] False unfolding calls_ok_def by blast
    qed (use r p in simp)
  next
    fix i j a b assume "sc_processes (k_sched k') i = Some a" "sc_processes (k_sched k') j = Some b" "i \<noteq> j"
    then show "stack_range a \<inter> stack_range b = {}"
      using other p apart by (cases "i = pid"; cases "j = pid") fastforce+
  qed
qed

subsection \<open>Scheduling steps\<close>

text \<open>Everything outside the scheduler is as before, apart from clocks, timers and counters.\<close>

lemma now_fields:
  "now k = (t, k') \<Longrightarrow> k_sched k' = k_sched k \<and> k_mgr k' = k_mgr k \<and> k_mem k' = k_mem k \<and>
     k_pool k' = k_pool k \<and> k_dma k' = k_dma k"
  by (auto simp: now_def split: prod.splits)

lemma kernel_inv_sched:
  "kernel_inv k \<Longrightarrow> sched_inv (k_sched k') \<Longrightarrow> k_mgr k' = k_mgr k \<Longrightarrow> k_mem k' = k_mem k \<Longrightarrow> k_pool k' = k_pool k \<Longrightarrow>
     k_dma k' = k_dma k \<Longrightarrow> kernel_inv k'"
  by (simp add: kernel_inv_def)

lemma k_switch_inv:
  assumes "kernel_inv k" and "k_switch env (Some w) k = Some (sw, k')"
  shows "kernel_inv k'" and "switch_matches sw (k_sched k')" and "sc_processes (k_sched k') = sc_processes (k_sched k)"
    and "k_mem k' = k_mem k"
proof -
  obtain t k1 s where n: "now k = (t, k1)" and s: "sched_switch (e_timer env) t (Some w) (k_sched k) = Some (sw, s)"
    and k': "k' = (if sw = SwIdle then k else k1)\<lparr>k_sched := s\<rparr>"
    using assms(2) by (auto simp: k_switch_def bind_eq_Some_conv split: prod.splits)
  have inv: "sched_inv (k_sched k)" using assms(1) by (simp add: kernel_inv_def)
  note i = sched_switch_inv [OF inv s]
  show "kernel_inv k'" by (rule kernel_inv_sched [OF assms(1)]) (use i(1) now_fields [OF n] in \<open>simp_all add: k'\<close>)
  show "switch_matches sw (k_sched k')" "sc_processes (k_sched k') = sc_processes (k_sched k)" "k_mem k' = k_mem k"
    using i now_fields [OF n] by (simp_all add: k')
qed

lemma k_tick_inv:
  assumes "kernel_inv k" and "k_tick env k = Some (sw, k')"
  shows "kernel_inv k'" and "switch_matches sw (k_sched k')" and "sc_processes (k_sched k') = sc_processes (k_sched k)"
    and "k_mem k' = k_mem k"
proof -
  obtain t k1 u k2 s where n: "now k = (t, k1)" "now k1 = (u, k2)" and s: "tick (e_timer env) t u (k_sched k1) = Some (sw, s)"
    and k': "k' = (if sw = SwIdle then k1 else k2)\<lparr>k_sched := s\<rparr>"
    using assms(2) by (auto simp: k_tick_def bind_eq_Some_conv split: prod.splits)
  have inv: "sched_inv (k_sched k1)" using assms(1) now_fields [OF n(1)] by (simp add: kernel_inv_def)
  note i = tick_inv [OF inv s]
  show "kernel_inv k'"
    by (rule kernel_inv_sched [OF assms(1)]) (use i(1) now_fields [OF n(1)] now_fields [OF n(2)] in \<open>simp_all add: k'\<close>)
  show "switch_matches sw (k_sched k')" "sc_processes (k_sched k') = sc_processes (k_sched k)" "k_mem k' = k_mem k"
    using i now_fields [OF n(1)] now_fields [OF n(2)] by (simp_all add: k')
qed

lemma k_set_deadline_same:
  assumes "k_set_deadline env k = Some k'"
  shows "k_sched k' = k_sched k \<and> k_mgr k' = k_mgr k \<and> k_mem k' = k_mem k \<and> k_pool k' = k_pool k \<and> k_dma k' = k_dma k"
proof -
  obtain t k1 u k2 where n: "now k = (t, k1)" "now k1 = (u, k2)" by (meson surj_pair)
  obtain d where d: "next_tick (e_timer env) t (k_sched k) = Some d"
    using assms n by (auto simp: k_set_deadline_def bind_eq_Some_conv)
  show ?thesis
    using assms n d now_fields [OF n(1)] now_fields [OF n(2)]
    by (cases d) (auto simp: k_set_deadline_def split: prod.splits if_splits)
qed

lemma k_set_deadline_inv: "k_set_deadline env k = Some k' \<Longrightarrow> kernel_inv k \<Longrightarrow> kernel_inv k'"
  by (drule k_set_deadline_same) (simp add: kernel_inv_def)

lemma k_terminate_inv:
  assumes x: "ext_ok (e_ext env)" and ord: "iter_order (e_ord env)" and inv: "kernel_inv k"
    and run: "sc_running (k_sched k) = Some pid" and t: "k_terminate env pid status k = Some (sw, k')"
  shows "kernel_inv k'" and "switch_matches sw (k_sched k')"
    and "sc_processes (k_sched k') = (sc_processes (k_sched k))(pid := None)" and "ms_ram (k_mem k') = ms_ram (k_mem k)"
proof -
  obtain u k1 s mgr m where n: "now k = (u, k1)" and ts: "terminate_and_switch (e_ext env) (e_ord env) (e_timer env) u
       (e_enc_terminated env pid status) pid (k_sched k) (k_mgr k) (k_mem k) = Some (sw, s, mgr, m)"
    and k': "k' = (if sc_running (k_sched k) = Some pid \<and> sw \<noteq> SwIdle then k1 else k)\<lparr>k_sched := s, k_mgr := mgr, k_mem := m\<rparr>"
    using t by (auto simp: k_terminate_def bind_eq_Some_conv split: prod.splits)
  have i: "sched_inv (k_sched k)" "mgr_inv (k_mgr k)" using inv by (simp_all add: kernel_inv_def)
  note T = terminate_and_switch_inv [OF x ord i run ts]
  show "kernel_inv k'" using T inv now_fields [OF n] by (simp add: k' kernel_inv_def mem_inv_def)
  show "switch_matches sw (k_sched k')" "sc_processes (k_sched k') = (sc_processes (k_sched k))(pid := None)"
    "ms_ram (k_mem k') = ms_ram (k_mem k)" using T by (simp_all add: k')
qed

subsection \<open>Repeated system calls\<close>

text \<open>The context belongs to the running process, which is not suspended in a call.\<close>

definition resumes :: "ProcessSwitchInfo \<Rightarrow> 'a KState \<Rightarrow> bool" where
  "resumes i k \<longleftrightarrow> switch_matches (SwSwitch i) (k_sched k)"

definition next_ok :: "Next \<Rightarrow> 'a KState \<Rightarrow> bool" where
  "next_ok nx k = (case nx of
     NxIdle \<Rightarrow> sc_running (k_sched k) = None
   | NxJump i \<Rightarrow> resumes i k
   | NxReturn w \<Rightarrow> (\<exists>i. w = return_process i \<and> resumes i k))"

definition repeated_ok :: "ProcessSwitchInfo option + Next \<Rightarrow> 'a KState \<Rightarrow> bool" where
  "repeated_ok r k = (case r of
     Inl None \<Rightarrow> sc_running (k_sched k) = None
   | Inl (Some i) \<Rightarrow> resumes i k
   | Inr nx \<Rightarrow> next_ok nx k)"

lemma run_bind_Return: "run_bind c f = Return v \<longleftrightarrow> (\<exists>u. c = Return u \<and> f u = Return v)"
  by (cases c) auto

lemma run_of_Return [simp]: "run_of c = Return v \<longleftrightarrow> c = Some v"
  by (auto simp: run_of_def split: option.splits)

lemma repeat_choice:
  "(case r of Inl None \<Rightarrow> Return (g, k) | Inl (Some rp) \<Rightarrow> Return (f rp, k) | Inr nx \<Rightarrow> Return (nx, k)) =
     Return ((case r of Inl None \<Rightarrow> g | Inl (Some rp) \<Rightarrow> f rp | Inr nx \<Rightarrow> nx), k)"
  by (cases r) (simp_all split: option.split)

lemma waits_fair: "sc_processes (k_sched k) pid = Some p \<Longrightarrow> waits_in_call (k_mem k) p \<Longrightarrow> fair pid k"
  by (auto simp: fair_def fair_call_def waits_in_call_def waiting_calls_def)

lemma repeat_matches:
  assumes "switch_matches (SwRepeatSyscall i) (k_sched k)" and "calls_ok k"
  obtains p where "sc_running (k_sched k) = Some (si_pid i)" "sc_processes (k_sched k) (si_pid i) = Some p"
    "i = switch_info p" "fair (si_pid i) k"
  using assms waits_fair [of k "si_pid i"] that unfolding switch_matches_def calls_ok_def by fastforce

lemma terminate_step:
  assumes x: "ext_ok (e_ext env)" and ord: "iter_order (e_ord env)" and inv: "kernel_inv k" and ok: "calls_ok k"
    and run: "sc_running (k_sched k) = Some pid"
    and IH: "\<And>i k r k'. kernel_inv k \<Longrightarrow> calls_ok k \<Longrightarrow> switch_matches (SwRepeatSyscall i) (k_sched k) \<Longrightarrow>
      handle_repeat_syscall n env i k = Return (r, k') \<Longrightarrow> kernel_inv k' \<and> repeated_ok r k'"
    and t: "terminate (Suc n) env pid status k = Return (nx, k')"
  shows "kernel_inv k' \<and> next_ok nx k'"
proof -
  obtain sw k1 where t1: "k_terminate env pid status k = Some (sw, k1)"
    using t by (auto simp: run_bind_Return)
  note T = k_terminate_inv [OF x ord inv run t1]
  have "sc_processes (k_sched k1) \<subseteq>\<^sub>m sc_processes (k_sched k)" using T(3) by (simp add: map_le_def)
  then have ok1: "calls_ok k1" by (rule calls_ok_subset [OF ok _ T(4)])
  show ?thesis
  proof (cases sw)
    case (SwRepeatSyscall i)
    then obtain r where r: "handle_repeat_syscall n env i k1 = Return (r, k')"
      and nx: "nx = (case r of Inl (Some rp) \<Rightarrow> NxJump rp | Inl None \<Rightarrow> NxIdle | Inr nx \<Rightarrow> nx)"
      using t t1 by (auto simp: run_bind_Return repeat_choice)
    have "kernel_inv k' \<and> repeated_ok r k'" using IH [OF T(1) ok1 _ r] T(2) SwRepeatSyscall by simp
    then show ?thesis using nx by (cases r) (auto simp: repeated_ok_def next_ok_def split: option.splits)
  qed (use t t1 T in \<open>auto simp: run_of_def next_ok_def resumes_def switch_matches_def\<close>)
qed

lemma repeat_step:
  assumes x: "ext_ok (e_ext env)" and ord: "iter_order (e_ord env)" and inv: "kernel_inv k" and ok: "calls_ok k"
    and sw: "switch_matches (SwRepeatSyscall i) (k_sched k)"
    and IH: "\<And>i k r k'. kernel_inv k \<Longrightarrow> calls_ok k \<Longrightarrow> switch_matches (SwRepeatSyscall i) (k_sched k) \<Longrightarrow>
      handle_repeat_syscall n env i k = Return (r, k') \<Longrightarrow> kernel_inv k' \<and> repeated_ok r k'"
    and IT: "\<And>pid status k nx k'. kernel_inv k \<Longrightarrow> calls_ok k \<Longrightarrow> sc_running (k_sched k) = Some pid \<Longrightarrow>
      terminate n env pid status k = Return (nx, k') \<Longrightarrow> kernel_inv k' \<and> next_ok nx k'"
    and h: "handle_repeat_syscall (Suc n) env i k = Return (r, k')"
  shows "kernel_inv k' \<and> repeated_ok r k'"
proof -
  obtain p where p: "sc_running (k_sched k) = Some (si_pid i)" "sc_processes (k_sched k) (si_pid i) = Some p"
    "i = switch_info p" "fair (si_pid i) k"
    by (rule repeat_matches [OF sw ok])
  obtain action k1 where h1: "handle_syscall env (si_pid i) k = Some (action, k1)"
    using h by (auto simp: run_bind_Return)
  note H = handle_syscall_inv [OF x ord inv p(1) p(4) h1]
  have ok1: "calls_ok k1" if "action \<noteq> AcContinue" by (rule handle_syscall_calls_ok [OF x ord inv p(1) p(4) h1 ok that])
  show ?thesis
  proof (cases action)
    case (AcTerminate status)
    then show ?thesis using h h1 IT [OF H(1) ok1 H(2)] by (auto simp: run_bind_Return repeated_ok_def)
  next
    case AcContinue
    obtain p' where "sc_processes (k_sched k1) (si_pid i) = Some p'" "switch_info p' = i" "\<not> p_repeat_syscall p'"
      using handle_syscall_context [OF x ord inv p(1) p(4) h1] p(2,3) AcContinue by (metis option.inject)
    then show ?thesis using h h1 H AcContinue by (auto simp: run_of_def repeated_ok_def resumes_def switch_matches_def)
  next
    case (AcSwitch w)
    obtain sw k2 where s: "k_switch env (Some w) k1 = Some (sw, k2)"
      using h h1 AcSwitch by (auto simp: run_bind_Return)
    note S = k_switch_inv [OF H(1) s]
    have ok2: "calls_ok k2" by (rule calls_ok_subset [OF ok1]) (simp_all add: AcSwitch S)
    show ?thesis
      using h h1 s AcSwitch S(1,2) IH [OF S(1) ok2]
      by (cases sw) (auto simp: run_of_def repeated_ok_def resumes_def switch_matches_def split: if_splits)
  qed
qed

lemma repeat_and_terminate:
  assumes "ext_ok (e_ext env)" and "iter_order (e_ord env)"
  shows "kernel_inv k \<Longrightarrow> calls_ok k \<Longrightarrow> switch_matches (SwRepeatSyscall i) (k_sched k) \<Longrightarrow>
      handle_repeat_syscall n env i k = Return (r, k') \<Longrightarrow> kernel_inv k' \<and> repeated_ok r k'"
    and "kernel_inv l \<Longrightarrow> calls_ok l \<Longrightarrow> sc_running (k_sched l) = Some pid \<Longrightarrow>
      terminate n env pid status l = Return (nx, l') \<Longrightarrow> kernel_inv l' \<and> next_ok nx l'"
proof (induction n arbitrary: k i r k' l pid status nx l')
  case (Suc n)
  { case 1 show ?case by (rule repeat_step [OF assms 1(1-3) _ _ 1(4)]) (fact Suc.IH)+ }
  { case 2 show ?case by (rule terminate_step [OF assms 2(1-3) _ 2(4)]) (fact Suc.IH) }
qed simp_all

subsection \<open>Handlers\<close>

lemma kernel_publish_inv:
  assumes "iter_order ord" and "mgr_inv mgr" and "queues_inv qs" and p: "kernel_publish ord topic encoded mgr qs = Some (mgr', qs')"
  shows "mgr_inv mgr'" and "queues_inv qs'" and "queued qs' = queued qs"
proof -
  obtain data t where "encoded = Some data" "topic_new topic = Some t"
    using p by (cases encoded; cases "topic_new topic") (auto simp: kernel_publish_def)
  then show "mgr_inv mgr'" "queues_inv qs'" "queued qs' = queued qs"
    using kernel_publish_total [OF assms(1-3), of topic t data] p by auto
qed

text \<open>Handlers that leave the table of processes, the running process and the memory alone.\<close>

definition keeps_processes :: "'a KState \<Rightarrow> 'a KState \<Rightarrow> bool" where
  "keeps_processes k k' \<longleftrightarrow> sc_processes (k_sched k') = sc_processes (k_sched k) \<and>
     sc_running (k_sched k') = sc_running (k_sched k) \<and> k_mem k' = k_mem k"

lemma k_publish_inv:
  assumes "iter_order (e_ord env)" and "kernel_inv k" and "k_publish env topic encoded k = Some k'"
  shows "kernel_inv k'" and "keeps_processes k k'"
proof -
  obtain mgr q where p: "kernel_publish (e_ord env) topic encoded (k_mgr k) (sc_queues (k_sched k)) = Some (mgr, q)"
    and k': "k' = k\<lparr>k_mgr := mgr, k_sched := (k_sched k)\<lparr>sc_queues := q\<rparr>\<rparr>"
    using assms(3) by (auto simp: k_publish_def bind_eq_Some_conv)
  have s: "sched_inv (k_sched k)" "mgr_inv (k_mgr k)" using assms(2) by (simp_all add: kernel_inv_def)
  note P = kernel_publish_inv [OF assms(1) s(2) sched_invD(1) [OF s(1)] p]
  show "kernel_inv k'" using assms(2) P sched_inv_queues [OF s(1) P(2,3)] by (simp add: kernel_inv_def k')
  show "keeps_processes k k'" by (simp add: keeps_processes_def k')
qed

lemma device_handlers_inv:
  assumes "kernel_inv k" and "iter_order (e_ord env)"
  shows "exception_irq1 env irq k = Return k' \<Longrightarrow> kernel_inv k' \<and> keeps_processes k k'"
    and "exception_irq7 irq k = Return k' \<Longrightarrow> kernel_inv k' \<and> keeps_processes k k'"
    and "exception_irq14 k = Return k' \<Longrightarrow> kernel_inv k' \<and> keeps_processes k k'"
    and "exception_irq15 irq k = Return k' \<Longrightarrow> kernel_inv k' \<and> keeps_processes k k'"
    and "publish_irq env v k = Some k' \<Longrightarrow> kernel_inv k' \<and> keeps_processes k k'"
proof -
  have pic: "kernel_inv l' \<and> keeps_processes l l'" if "pics_notify_eoi i l = Some l'" "kernel_inv l" for i and l l' :: "'a KState"
    using that by (auto simp: pics_notify_eoi_def bind_eq_Some_conv kernel_inv_def keeps_processes_def)
  have set_pic: "kernel_inv (l\<lparr>k_pic := c\<rparr>) \<longleftrightarrow> kernel_inv l" "keeps_processes l (l\<lparr>k_pic := c\<rparr>)"
    "keeps_processes (l\<lparr>k_pic := c\<rparr>) l' \<longleftrightarrow> keeps_processes l l'" for l l' :: "'a KState" and c
    by (simp_all add: kernel_inv_def keeps_processes_def)
  show "exception_irq1 env irq k = Return k' \<Longrightarrow> kernel_inv k' \<and> keeps_processes k k'"
    using k_publish_inv [OF assms(2,1)] pic
    by (auto simp: exception_irq1_def bind_eq_Some_conv keeps_processes_def split: option.splits)
  show "exception_irq7 irq k = Return k' \<Longrightarrow> kernel_inv k' \<and> keeps_processes k k'"
    using assms(1) by (auto simp: exception_irq7_def set_pic split: if_splits prod.splits)
  show "exception_irq14 k = Return k' \<Longrightarrow> kernel_inv k' \<and> keeps_processes k k'"
    using assms(1) pic by (auto simp: exception_irq14_def split: if_splits)
  show "exception_irq15 irq k = Return k' \<Longrightarrow> kernel_inv k' \<and> keeps_processes k k'"
    using assms(1) pic [of "0x2f"] by (fastforce simp: exception_irq15_def set_pic Let_def split: if_splits prod.splits)
  show "publish_irq env v k = Some k' \<Longrightarrow> kernel_inv k' \<and> keeps_processes k k'"
    using k_publish_inv [OF assms(2,1)]
    by (auto simp: publish_irq_def bind_eq_Some_conv write_eoi_def kernel_inv_def keeps_processes_def split: if_splits)
qed

text \<open>The interrupted context, or its resumption although nothing is running any more.\<close>

definition interrupted :: "'f Irq \<Rightarrow> Next" where
  "interrupted irq = NxReturn (process_pair_to_u128 (irq_rsp irq) (irq_page_table irq))"

lemma handle_switch_inv:
  assumes x: "ext_ok (e_ext env)" and ord: "iter_order (e_ord env)" and inv: "kernel_inv k" and ok: "calls_ok k"
    and sw: "switch_matches sw (k_sched k)" and h: "handle_switch fuel env locked irq sw k = Return (nx, k')"
  shows "kernel_inv k' \<and> (next_ok nx k' \<or> nx = interrupted irq \<and> sc_running (k_sched k') = None)"
proof (cases sw)
  case (SwRepeatSyscall i)
  then obtain r where r: "handle_repeat_syscall fuel env i k = Return (r, k')"
    and nx: "nx = (case r of Inl None \<Rightarrow> interrupted irq | Inl (Some p) \<Rightarrow> NxReturn (return_process p) | Inr nx \<Rightarrow> nx)"
    using h unfolding interrupted_def by (auto simp: handle_switch_def run_bind_Return repeat_choice split: if_splits)
  have "kernel_inv k' \<and> repeated_ok r k'"
    using repeat_and_terminate(1) [OF x ord inv ok _ r] sw SwRepeatSyscall by simp
  then show ?thesis using nx by (cases r) (auto simp: repeated_ok_def next_ok_def split: option.splits)
next
  case (SwSwitch i)
  then have "nx = NxReturn (return_process i)" "k' = k" using h by (simp_all add: handle_switch_def)
  then show ?thesis using inv sw SwSwitch by (auto simp: next_ok_def resumes_def)
qed (use h inv sw in \<open>auto simp: handle_switch_def next_ok_def switch_matches_def\<close>)

text \<open>The state in which the handlers start: the context of the process is stored.\<close>

definition saved :: "'f Irq \<Rightarrow> pid \<Rightarrow> Process \<Rightarrow> 'a KState \<Rightarrow> 'a KState" where
  "saved irq pid p k = k\<lparr>k_sched := (k_sched k)\<lparr>sc_processes :=
     (sc_processes (k_sched k))(pid \<mapsto> p\<lparr>p_stack_pointer := irq_rsp irq\<rparr>)\<rparr>\<rparr>"

definition in_process :: "'f Irq \<Rightarrow> pid \<Rightarrow> 'a KState \<Rightarrow> bool" where
  "in_process irq pid k \<longleftrightarrow> sc_running (k_sched k) = Some pid \<and>
     (\<exists>p. sc_processes (k_sched k) pid = Some p \<and> p_stack_pointer p = irq_rsp irq \<and>
       pm_phys_addr (p_page_table p) = irq_page_table irq \<and> \<not> p_repeat_syscall p)"

lemma in_process_next:
  assumes "kernel_inv k" and "in_process irq pid k"
  shows "next_ok (interrupted irq) k"
proof -
  obtain p where p: "sc_running (k_sched k) = Some pid" "sc_processes (k_sched k) pid = Some p" "p_stack_pointer p = irq_rsp irq"
    "pm_phys_addr (p_page_table p) = irq_page_table irq" "\<not> p_repeat_syscall p"
    using assms(2) by (auto simp: in_process_def)
  have "p_id p = pid" using assms(1) p(2) sched_invD(4) by (auto simp: kernel_inv_def)
  then have "resumes (switch_info p) k" using p by (simp add: resumes_def switch_matches_def switch_info_def)
  moreover have "interrupted irq = NxReturn (return_process (switch_info p))"
    using p by (simp add: interrupted_def return_process_def switch_info_def)
  ultimately show ?thesis by (auto simp: next_ok_def)
qed

lemma in_process_keeps: "keeps_processes k k' \<Longrightarrow> in_process irq pid k \<Longrightarrow> in_process irq pid k'"
  by (simp add: in_process_def keeps_processes_def)

lemma calls_ok_keeps: "calls_ok k \<Longrightarrow> keeps_processes k k' \<Longrightarrow> calls_ok k'"
  by (erule calls_ok_subset) (simp_all add: keeps_processes_def)

lemma interrupt_syscall_inv:
  assumes x: "ext_ok (e_ext env)" and ord: "iter_order (e_ord env)" and inv: "kernel_inv k" and ok: "calls_ok k"
    and pr: "in_process irq pid k" and fair: "fair pid k"
    and h: "interrupt_syscall fuel env irq pid k = Return (nx, k')"
  shows "kernel_inv k' \<and> (next_ok nx k' \<or> nx = interrupted irq \<and> sc_running (k_sched k') = None)"
proof -
  have run: "sc_running (k_sched k) = Some pid" using pr by (simp add: in_process_def)
  obtain action k1 where h1: "handle_syscall env pid k = Some (action, k1)"
    using h by (auto simp: interrupt_syscall_def run_bind_Return)
  note H = handle_syscall_inv [OF x ord inv run fair h1]
  have ok1: "calls_ok k1" if "action \<noteq> AcContinue" by (rule handle_syscall_calls_ok [OF x ord inv run fair h1 ok that])
  show ?thesis
  proof (cases action)
    case (AcTerminate status)
    then show ?thesis
      using h h1 repeat_and_terminate(2) [OF x ord H(1) ok1 H(2)] by (auto simp: interrupt_syscall_def run_of_def)
  next
    case AcContinue
    obtain p p' where "sc_processes (k_sched k) pid = Some p" "sc_processes (k_sched k1) pid = Some p'"
      "switch_info p' = switch_info p" "\<not> p_repeat_syscall p'"
      using handle_syscall_context [OF x ord inv run fair h1] AcContinue by metis
    then have "in_process irq pid k1" using pr H(2) by (auto simp: in_process_def switch_info_def)
    then show ?thesis
      using h h1 AcContinue H(1) in_process_next
      by (auto simp: interrupt_syscall_def run_of_def handle_switch_def interrupted_def)
  next
    case (AcSwitch w)
    obtain sw k2 k3 where s: "k_switch env (Some w) k1 = Some (sw, k2)" "k_set_deadline env k2 = Some k3"
      and h': "handle_switch fuel env False irq sw k3 = Return (nx, k')"
      using h h1 AcSwitch by (auto simp: interrupt_syscall_def run_bind_Return bind_eq_Some_conv)
    note S = k_switch_inv [OF H(1) s(1)] and D = k_set_deadline_same [OF s(2)]
    have "calls_ok k3" by (rule calls_ok_subset [OF ok1]) (simp_all add: AcSwitch S D)
    then show ?thesis
      using handle_switch_inv [OF x ord k_set_deadline_inv [OF s(2) S(1)] _ _ h'] S(2) D by simp
  qed
qed

lemma interrupt_deadline_inv:
  assumes x: "ext_ok (e_ext env)" and ord: "iter_order (e_ord env)" and bsp: "e_bsp env" and inv: "kernel_inv k" and ok: "calls_ok k"
    and h: "interrupt_deadline fuel env irq k = Return (nx, k')"
  shows "kernel_inv k' \<and> (next_ok nx k' \<or> nx = interrupted irq \<and> sc_running (k_sched k') = None)"
proof -
  have e: "kernel_inv (write_eoi k)" "sc_processes (k_sched (write_eoi k)) = sc_processes (k_sched k)" "k_mem (write_eoi k) = k_mem k"
    using inv by (simp_all add: write_eoi_def kernel_inv_def)
  obtain sw k2 k3 where s: "k_tick env (write_eoi k) = Some (sw, k2)" "k_set_deadline env k2 = Some k3"
    and h': "handle_switch fuel env False irq sw k3 = Return (nx, k')"
    using h bsp by (auto simp: interrupt_deadline_def run_bind_Return bind_eq_Some_conv Let_def split: if_splits)
  note S = k_tick_inv [OF e(1) s(1)] and D = k_set_deadline_same [OF s(2)]
  have "calls_ok k3" by (rule calls_ok_subset [OF ok]) (simp_all add: e S D)
  then show ?thesis
    using handle_switch_inv [OF x ord k_set_deadline_inv [OF s(2) S(1)] _ _ h'] S(2) D by simp
qed

lemma dispatch_cases:
  assumes inv: "kernel_inv k" and ord: "iter_order (e_ord env)" and h: "dispatch fuel env irq pid k = Return (nx, k')"
  obtains (syscall) "irq_vector irq = 0xd7" "interrupt_syscall fuel env irq pid k = Return (nx, k')"
  | (deadline) "irq_vector irq = 0xd8" "interrupt_deadline fuel env irq k = Return (nx, k')"
  | (device) "kernel_inv k'" "keeps_processes k k'" "nx = interrupted irq"
  | (dynamic) k1 sw k2 where "kernel_inv k1" "keeps_processes k k1" "k_switch_current k1 = Some (sw, k2)"
      "handle_switch fuel env True irq sw k2 = Return (nx, k')"
  | (error) e where "terminate fuel env pid (Failed e) k = Return (nx, k')"
proof -
  let ?v = "irq_vector irq"
  note dev = device_handlers_inv [OF inv ord]
  have cont: "nx = interrupted irq \<and> k' = l" if "handle_switch fuel env False irq SwContinue l = Return (nx, k')" for l
    using that by (simp add: handle_switch_def interrupted_def)
  note h = h [unfolded dispatch_def Let_def]
  consider "?v \<in> {0xd7, 0xd8}" | "?v \<notin> {0xd7, 0xd8}" "?v \<in> {0x21, 0x27, 0x2e, 0x2f}"
    | "?v \<notin> {0xd7, 0xd8, 0x21, 0x27, 0x2e, 0x2f}" by blast
  then show thesis
  proof cases
    case 1
    then show ?thesis using h syscall deadline by (elim insertE) simp_all
  next
    case 2
    then obtain l where "exception_irq1 env irq k = Return l \<or> exception_irq7 irq k = Return l \<or>
        exception_irq14 k = Return l \<or> exception_irq15 irq k = Return l"
      and l: "handle_switch fuel env False irq SwContinue l = Return (nx, k')"
      using h by (elim insertE) (auto simp: run_bind_Return)
    then have "kernel_inv l \<and> keeps_processes k l" using dev(1-4) by blast
    then show ?thesis using device cont [OF l] by blast
  next
    case 3
    show ?thesis
    proof (cases "0x30 \<le> ?v \<and> ?v \<le> 0x9f")
      case True
      then obtain k1 sw k2 where "publish_irq env ?v k = Some k1" "k_switch_current k1 = Some (sw, k2)"
        "handle_switch fuel env True irq sw k2 = Return (nx, k')"
        using h 3 by (auto simp: run_bind_Return bind_eq_Some_conv split: if_splits)
      then show ?thesis using dynamic dev(5) by blast
    next
      case False
      then show ?thesis using h 3 error by (auto simp: run_bind_Return fail_def split: if_splits)
    qed
  qed
qed

lemma dispatch_inv:
  assumes x: "ext_ok (e_ext env)" and ord: "iter_order (e_ord env)" and bsp: "e_bsp env" and inv: "kernel_inv k" and ok: "calls_ok k"
    and pr: "in_process irq pid k" and fair: "fair pid k" and h: "dispatch fuel env irq pid k = Return (nx, k')"
  shows "kernel_inv k' \<and> (next_ok nx k' \<or>
    irq_vector irq \<in> {0xd7, 0xd8} \<and> nx = interrupted irq \<and> sc_running (k_sched k') = None)"
  using inv ord h
proof (cases rule: dispatch_cases)
  case syscall
  then show ?thesis using interrupt_syscall_inv [OF x ord inv ok pr fair] by blast
next
  case deadline
  then show ?thesis using interrupt_deadline_inv [OF x ord bsp inv ok] by blast
next
  case device
  then show ?thesis using in_process_next in_process_keeps [OF _ pr] by blast
next
  case (dynamic k1 sw k2)
  have p: "in_process irq pid k1" by (rule in_process_keeps [OF dynamic(2) pr])
  obtain s where s: "switch_current_or_next (k_sched k1) = Some (sw, s)" "k2 = k1\<lparr>k_sched := s\<rparr>"
    using dynamic(3) by (auto simp: k_switch_current_def bind_eq_Some_conv)
  have i: "sched_inv (k_sched k1)" using dynamic(1) by (simp add: kernel_inv_def)
  note S = switch_current_or_next_inv [OF i s(1)]
  obtain q where q: "sw = SwSwitch q"
    using s(1) p by (auto simp: switch_current_or_next_def in_process_def switch_target_def split: if_splits)
  have "kernel_inv k2" using dynamic(1) S(1) by (simp add: s(2) kernel_inv_def)
  moreover have "resumes q k2" using S(2) q by (simp add: s(2) resumes_def)
  ultimately show ?thesis using dynamic(4) q by (auto simp: handle_switch_def next_ok_def)
next
  case (error e)
  have "sc_running (k_sched k) = Some pid" using pr by (simp add: in_process_def)
  then show ?thesis using repeat_and_terminate(2) [OF x ord inv ok _ error] by blast
qed

subsection \<open>Properties\<close>

lemma interrupt_enter:
  assumes inv: "kernel_inv k" and ok: "calls_ok k" and run: "sc_running (k_sched k) = Some pid"
    and p: "sc_processes (k_sched k) pid = Some p" "\<not> p_repeat_syscall p"
    and h: "process_interrupt_inner fuel env irq k = Return (nx, k')"
  obtains k1 where "kernel_inv k1" "calls_ok k1" "in_process irq pid k1" "k_sched k1 = k_sched (saved irq pid p k)"
    "k_mgr k1 = k_mgr k" "k_mem k1 = k_mem k" "dispatch fuel env irq pid k1 = Return (nx, k')"
proof -
  obtain s k1 where st: "store_state pid (irq_page_table irq) (irq_rsp irq) (k_sched k) = Some s"
    and e: "k_insert_entropy (ucast (irq_vector irq)) (k\<lparr>k_sched := s\<rparr>) = Some k1"
    and d: "dispatch fuel env irq pid k1 = Return (nx, k')"
    using h run by (auto simp: process_interrupt_inner_def run_bind_Return get_running_pid_def bind_eq_Some_conv)
  let ?p = "p\<lparr>p_stack_pointer := irq_rsp irq\<rparr>"
  have s: "s = k_sched (saved irq pid p k)" and pt: "pm_phys_addr (p_page_table p) = irq_page_table irq"
    using st p(1) by (auto simp: store_state_def saved_def split: if_splits)
  have k1: "k_sched k1 = s" "k_mgr k1 = k_mgr k" "k_mem k1 = k_mem k" "k_dma k1 = k_dma k"
    using e by (auto simp: k_insert_entropy_def bind_eq_Some_conv)
  have pool: "pool_inv (k_pool k1)"
    using e inv by (auto simp: k_insert_entropy_def bind_eq_Some_conv kernel_inv_def dest: insert_entropy_inv)
  have "sched_inv s" using store_state_inv [OF _ st] inv by (simp add: kernel_inv_def)
  then have i: "kernel_inv k1" using inv k1 pool by (simp add: kernel_inv_def)
  have c: "calls_ok k1"
    using ok p unfolding calls_ok_def by (simp add: k1 s saved_def stack_range_def)
  have "in_process irq pid k1" using run p(2) pt by (simp add: in_process_def k1 s saved_def)
  with i c show thesis by (rule that) (simp_all add: k1 s d)
qed


definition demo_irq :: "unit Irq" where
  "demo_irq = \<lparr>irq_vector = 0xd7, irq_rsp = p_stack_pointer demo_process, irq_page_table = pm_phys_addr (p_page_table demo_process),
     irq_frame = (), irq_error_code = 0, irq_cr2 = 0, irq_keyboard = None, irq_isr1 = 0, irq_isr2 = 0\<rparr>"

lemma demo_saved: "saved demo_irq 1 demo_process demo_kernel = demo_kernel"
  by (simp add: saved_def demo_irq_def demo_kernel_def)

lemma demo_calls_ok: "calls_ok demo_kernel"
  by (simp add: calls_ok_def demo_kernel_def demo_process_def)

lemma entropy_without_hardware:
  "\<not> has_rdseed c \<Longrightarrow> \<not> has_rdrand c \<Longrightarrow> \<exists>pl' c'. insert_entropy v pl c = Some (pl', c')"
  by (simp add: insert_entropy_def fast_entropy_def read_best_hw_random_def tsc_read_def)

lemma demo_interrupt: "\<exists>k'. process_interrupt_inner 1 demo_env demo_irq demo_kernel = Return (interrupted demo_irq, k')"
proof -
  have st: "store_state 1 (irq_page_table demo_irq) (irq_rsp demo_irq) (k_sched demo_kernel) = Some (k_sched demo_kernel)"
    by (simp add: store_state_def demo_kernel_def demo_irq_def)
  have "get_running_pid (k_sched demo_kernel) = Some 1" "\<not> has_rdseed (k_cpu demo_kernel)" "\<not> has_rdrand (k_cpu demo_kernel)"
    by (simp_all add: get_running_pid_def demo_kernel_def)
  moreover obtain pl c where e: "insert_entropy (ucast (irq_vector demo_irq)) (k_pool demo_kernel) (k_cpu demo_kernel) = Some (pl, c)"
    using entropy_without_hardware calculation(2,3) by blast
  let ?k = "demo_kernel\<lparr>k_pool := pl, k_cpu := c\<rparr>"
  obtain k' where "handle_syscall demo_env 1 ?k = Some (AcContinue, k')" using demo_handle [of ?k] by auto
  moreover have "irq_vector demo_irq = 0xd7" by (simp add: demo_irq_def)
  ultimately show ?thesis
    using st e by (simp add: process_interrupt_inner_def k_insert_entropy_def run_of_def dispatch_def interrupt_syscall_def
      handle_switch_def interrupted_def)
qed


end
