(* ===== verification/RepeatProgress.thy ===== *)
theory RepeatProgress
  imports InterruptSafety
begin

text \<open>
  Repeating suspended system calls ends. A process that is woken has either a message or a
  result, and then its call completes, or it blocks again without waking anyone else; so every
  round of the recursion in \<open>handle_repeat_syscall\<close> shortens the run queue.
\<close>

subsection \<open>Calls that complete or block quietly\<close>

definition buffer_mapped :: "Process \<Rightarrow> nat \<Rightarrow> nat \<Rightarrow> bool" where
  "buffer_mapped p ptr len \<longleftrightarrow> ptr + len < 2 ^ 47 \<and>
     (\<forall>a. a mod PAGE_SIZE = 0 \<longrightarrow> align_down ptr \<le> a \<longrightarrow> a < ptr + len \<longrightarrow> translate (p_page_table p) a \<noteq> Some None)"

definition events_only :: "WaitFor \<Rightarrow> bool" where
  "events_only w = (case w of
     Event _ \<Rightarrow> True
   | FirstOf ws \<Rightarrow> ws \<noteq> [] \<and> list_all (\<lambda>w. case w of Event _ \<Rightarrow> True | _ \<Rightarrow> False) ws
   | _ \<Rightarrow> False)"

definition settles :: "'a KState \<Rightarrow> ('f, 'a) sys \<Rightarrow> bool" where
  "settles k0 c \<longleftrightarrow> (\<forall>res p k. c = Some (res, p, k) \<longrightarrow> (\<exists>r. res = ScContinue r) \<or>
     (\<exists>w. res = ScRepeatAfter w \<and> events_only w \<and> sc_queues (k_sched k) = sc_queues (k_sched k0) \<and>
       delivery_result (k_mgr k) = delivery_result (k_mgr k0)))"

lemma slice_pages_mapped:
  assumes x: "ext_ok x" and "slice_pages x flags pt r_start area js kpm = Some (ok, kpm')"
    and "\<And>i. i \<in> set js \<Longrightarrow> r_start + i * PAGE_SIZE < 2 ^ 47 \<and> translate pt (r_start + i * PAGE_SIZE) \<noteq> Some None"
  shows ok
  using assms(2,3)
proof (induction js arbitrary: kpm)
  case (Cons i js)
  let ?a = "r_start + i * PAGE_SIZE"
  have a: "?a < 2 ^ 47" "translate pt ?a \<noteq> Some None" using Cons.prems(2) by simp_all
  then have "x_virt_new x ?a = Some ?a" using x by (simp add: ext_ok_def canonical_def)
  then obtain page frame where "slice_pages x flags pt r_start area js (map_to kpm page frame flags) = Some (ok, kpm')"
    using Cons.prems(1) a by (auto simp: bind_eq_Some_conv checked_u64_eq_Some Let_def split: option.splits if_splits)
  then show ?case using Cons.IH Cons.prems(2) by simp
qed simp

lemma memory_slice_mapped:
  assumes x: "ext_ok x" and b: "buffer_mapped p ptr len" and s: "memory_slice_flags x flags p ptr len m = Some (r, m')"
  shows "r \<noteq> None"
proof -
  obtain e r_end start fl ok kpm where e: "checked_u64 (ptr + len) = Some e" "align_up e = Some r_end"
    and sp: "slice_pages x flags (p_page_table p) (align_down ptr) start [0 ..< (r_end - align_down ptr) div PAGE_SIZE] (ms_page_map m) = Some (ok, kpm)"
    and r: "ok \<longrightarrow> r \<noteq> None"
    using s by (auto simp: memory_slice_flags_def bind_eq_Some_conv Let_def split: if_splits)
  have e': "e = ptr + len" using e(1) by (simp add: checked_u64_eq_Some)
  have "align_down e + e mod PAGE_SIZE = e" by (simp add: align_down_def)
  then have re: "r_end < ptr + len + PAGE_SIZE"
    using e(2) page_pos by (auto simp: e' align_up_def checked_u64_eq_Some split: if_splits)
  have "ok"
  proof (rule slice_pages_mapped [OF x sp])
    fix i assume "i \<in> set [0 ..< (r_end - align_down ptr) div PAGE_SIZE]"
    then have "Suc i \<le> (r_end - align_down ptr) div PAGE_SIZE" by simp
    then have "Suc i * PAGE_SIZE \<le> r_end - align_down ptr" using less_eq_div_iff_mult_less_eq page_pos by blast
    then have lt: "align_down ptr + i * PAGE_SIZE < ptr + len" using re page_pos by simp
    have "(align_down ptr + i * PAGE_SIZE) mod PAGE_SIZE = 0" by (simp add: align_down_def)
    then show "align_down ptr + i * PAGE_SIZE < 2 ^ 47 \<and> translate (p_page_table p) (align_down ptr + i * PAGE_SIZE) \<noteq> Some None"
      using lt b unfolding buffer_mapped_def by (metis le_add1 order.strict_trans)
  qed
  with r show ?thesis by blast
qed

lemma settles_basic:
  "settles k0 None" "settles k0 (ok_ret v q k)" "settles k0 (err_ret e q k)" "settles k0 (Some (ScContinue r, q, k))"
  by (simp_all add: settles_def ok_ret_def err_ret_def)

lemma settles_bind: "(\<And>v. c = Some v \<Longrightarrow> settles k0 (f v)) \<Longrightarrow> settles k0 (Option.bind c f)"
  by (cases c) (simp_all add: settles_def)

lemma settles_try_len: "settles k0 c \<Longrightarrow> settles k0 (try_len len p k c)"
  by (simp add: try_len_def settles_basic)

lemma k_consume_quiet:
  assumes "iter_order (e_ord env)" and "ipc_events r = {}"
  shows "k_consume env r k = (ipc_value r, k)"
proof -
  have "e_ord env {} = []" using assms(1) by (metis finite.emptyI iter_order_def set_empty)
  then show ?thesis using assms(2) by (simp add: k_consume_def consume_events_def)
qed

lemma settles_mem [simp]: "settles k0 (Some (res, q, k\<lparr>k_mem := m\<rparr>)) = settles k0 (Some (res, q, k))"
  by (simp add: settles_def)

lemma settles_with_slice_mut:
  assumes x: "ext_ok (e_ext env)" and b: "buffer_mapped p ptr len"
    and f: "\<And>m res bs k1. f (k\<lparr>k_mem := m\<rparr>) = Some (res, bs, k1) \<Longrightarrow> settles k (Some (res, p, k1))"
  shows "settles k (with_slice_mut env ptr len p k f)"
proof (cases "memory_slice_mut (e_ext env) p ptr len (k_mem k)")
  case (Some v)
  obtain r m where rm: "v = (r, m)" by (cases v)
  have "r \<noteq> None" using memory_slice_mapped [OF x b] Some by (simp add: rm memory_slice_mut_def)
  then obtain start n a where v: "v = (Some (start, n, a), m)" using rm by auto
  show ?thesis
  proof (cases "f (k\<lparr>k_mem := m\<rparr>)")
    case (Some w)
    obtain res bs k1 where w: "w = (res, bs, k1)" by (cases w)
    have "settles k (Some (res, p, k1\<lparr>k_mem := m'\<rparr>))" for m' using f Some w by simp
    then show ?thesis
      using Some w v \<open>memory_slice_mut _ _ _ _ _ = Some v\<close> unfolding with_slice_mut_def Let_def
      by (auto intro!: settles_bind settles_basic)
  qed (use v Some in \<open>simp add: with_slice_mut_def settles_basic\<close>)
qed (simp add: with_slice_mut_def settles_basic)

lemma receive_quiet:
  assumes "receive pid sub mgr ne = Some (r, mgr', ne')"
  shows "ipc_events r = {} \<and> delivery_result mgr' = delivery_result mgr"
proof (cases "verify_process_owns mgr pid sub")
  case (Inr u)
  show ?thesis
  proof (cases "mailboxes mgr sub")
    case (Some entry)
    with assms Inr obtain mb where mb: "entry = Some mb" by (cases entry) (auto simp: receive_def)
    obtain r0 mb' ne0 where "mb_pop_or_event mb ne = (r0, mb', ne0)" by (cases "mb_pop_or_event mb ne")
    then show ?thesis using assms Inr Some mb by (auto simp: receive_def ipc_success_def)
  qed (use assms Inr in \<open>auto simp: receive_def ipc_error_def\<close>)
qed (use assms in \<open>auto simp: receive_def ipc_error_def\<close>)

lemma settles_receive:
  assumes x: "ext_ok (e_ext env)" and ord: "iter_order (e_ord env)" and b: "buffer_mapped p (rs_arg2 rs) (rs_arg1 rs)"
  shows "settles k (syscall_ipc_receive env rs p k)"
proof -
  have v: "x_virt_new (e_ext env) (rs_arg2 rs) = Some (rs_arg2 rs)"
    using x b by (simp add: ext_ok_def canonical_def buffer_mapped_def)
  show ?thesis
    unfolding syscall_ipc_receive_def Let_def v bind.bind_lunit
  proof (intro settles_try_len settles_with_slice_mut [OF x b], goal_cases)
    case (1 m res bs k1)
    obtain r mgr ne where r: "receive (p_id p) (rs_arg0 rs) (k_mgr k) (k_next_event k) = Some (r, mgr, ne)"
      using 1 by (auto simp: bind_eq_Some_conv)
    note q = conjunct1 [OF receive_quiet [OF r]] conjunct2 [OF receive_quiet [OF r]]
    show ?case
    proof (cases "ipc_value r")
      case (Inr w)
      then show ?thesis
        using 1 r q k_consume_quiet [OF ord q(1)] by (cases w) (auto simp: settles_def events_only_def bind_eq_Some_conv)
    qed (use 1 r k_consume_quiet [OF ord q(1)] in \<open>auto simp: settles_def\<close>)
  qed
qed

lemma waiting_for_quiet:
  assumes "waiting_for sub mgr ne = Some (w, mgr', ne')"
  shows "delivery_result mgr' = delivery_result mgr" and "w = WNone \<or> (\<exists>e. w = Event e)"
  using assms by (auto simp: waiting_for_def bind_eq_Some_conv eq_wait_for_def split: prod.splits if_splits)

lemma select_loop_quiet:
  assumes "select_loop i subs conds mgr ne = Some (r, mgr', ne')"
  shows "delivery_result mgr' = delivery_result mgr \<and>
    (case r of Inl _ \<Rightarrow> True | Inr cs \<Rightarrow> (\<exists>es. cs = conds @ map Event es \<and> length es = length subs))"
  using assms
proof (induction i subs conds mgr ne rule: select_loop.induct)
  case (2 i sub subs conds mgr ne)
  obtain w m1 n1 where w: "waiting_for sub mgr ne = Some (w, m1, n1)"
    using "2.prems" by (auto split: option.splits)
  note q = waiting_for_quiet [OF w]
  show ?case
  proof (cases "w = WNone")
    case False
    then obtain e where e: "w = Event e" using q(2) by blast
    have "select_loop (i + 1) subs (conds @ [w]) m1 n1 = Some (r, mgr', ne')" using "2.prems" w False by simp
    from "2.IH" [OF w refl refl False this] show ?thesis
      using q(1) e by (cases r) (auto, metis (no_types, opaque_lifting) length_Cons list.simps(9))
  qed (use "2.prems" w q in auto)
qed auto

lemma chunks8_length: "length (chunks8 bs) = length bs div 8"
  by (induction bs rule: chunks8.induct) simp_all

lemma read_slice_length: "read_slice x p ptr len m = Some (Some bs, m') \<Longrightarrow> length bs = len"
proof -
  have "length ys = length xs" if "those xs = Some ys" for xs :: "u8 option list" and ys
    using that by (induction xs arbitrary: ys) (auto split: option.splits)
  then show "read_slice x p ptr len m = Some (Some bs, m') \<Longrightarrow> length bs = len"
    by (auto simp: read_slice_def bind_eq_Some_conv fetch_def split: option.splits)
qed

lemma read_slice_None:
  assumes "read_slice x p ptr len m = Some (None, m')"
  shows "memory_slice_flags x {PRESENT} p ptr len m = Some (None, m')"
proof -
  obtain sl m1 where "memory_slice_flags x {PRESENT} p ptr len m = Some (sl, m1)"
    using assms by (auto simp: read_slice_def memory_slice_def bind_eq_Some_conv)
  then show ?thesis using assms by (cases sl) (auto simp: read_slice_def memory_slice_def bind_eq_Some_conv)
qed

lemma settles_select:
  assumes x: "ext_ok (e_ext env)" and b: "buffer_mapped p (rs_arg1 rs) (rs_arg0 rs * 8)"
  shows "settles k (syscall_ipc_select env rs p k)"
proof (cases "rs_arg0 rs = 0")
  case False
  let ?n = "rs_arg0 rs * 8"
  have v: "x_virt_new (e_ext env) (rs_arg1 rs) = Some (rs_arg1 rs)" "checked_u64 ?n = Some ?n"
    using x b by (simp_all add: ext_ok_def canonical_def buffer_mapped_def checked_u64_def)
  have "settles k (with_slice env (rs_arg1 rs) ?n p k (\<lambda>bs k. do {
         (r, mgr, ne) \<leftarrow> select_loop 0 (chunks8 bs) [] (k_mgr k) (k_next_event k);
         let k = k\<lparr>k_mgr := mgr, k_next_event := ne\<rparr>;
         (case r of
            Inl i \<Rightarrow> ok_ret i p k
          | Inr conditions \<Rightarrow>
              (if rs_arg2 rs \<noteq> 0 then err_ret ec_would_block p k
               else Some (ScRepeatAfter (FirstOf conditions), p, k))) }))"
  proof (cases "read_slice (e_ext env) p (rs_arg1 rs) ?n (k_mem k)")
    case (Some t)
    obtain o' m where om: "t = (o', m)" by (cases t)
    have "o' \<noteq> None"
    proof
      assume "o' = None"
      with Some om have "read_slice (e_ext env) p (rs_arg1 rs) ?n (k_mem k) = Some (None, m)" by simp
      from memory_slice_mapped [OF x b read_slice_None [OF this]] show False by simp
    qed
    then obtain bs where t: "t = (Some bs, m)" using om by auto
    have n: "length (chunks8 bs) \<noteq> 0" using chunks8_length [of bs] read_slice_length [OF Some [unfolded t]] False by simp
    have "settles k (case r of Inl i \<Rightarrow> ok_ret i p (k\<lparr>k_mem := m, k_mgr := mgr, k_next_event := ne\<rparr>)
          | Inr conditions \<Rightarrow> if rs_arg2 rs \<noteq> 0 then err_ret ec_would_block p (k\<lparr>k_mem := m, k_mgr := mgr, k_next_event := ne\<rparr>)
               else Some (ScRepeatAfter (FirstOf conditions), p, k\<lparr>k_mem := m, k_mgr := mgr, k_next_event := ne\<rparr>))"
      if "select_loop 0 (chunks8 bs) [] (k_mgr k) (k_next_event k) = Some (r, mgr, ne)" for r mgr ne
      using select_loop_quiet [OF that] n
      by (cases r) (auto simp: ok_ret_def err_ret_def settles_def events_only_def list_all_iff)
    then show ?thesis using Some t by (auto simp: with_slice_def Let_def intro!: settles_bind)
  qed (simp add: with_slice_def settles_basic)
  then show ?thesis using False v by (simp add: syscall_ipc_select_def Let_def settles_try_len)
qed (simp add: syscall_ipc_select_def settles_basic)

lemma settles_deliver:
  assumes "delivery_complete (p_id p) (k_mgr k)"
  shows "settles k (syscall_ipc_deliver env rs p k)"
  unfolding syscall_ipc_deliver_def topic_data_args_def with_ipc_def Let_def
  using assms by (auto intro!: settles_bind settles_try_len settles_basic split: sum.split prod.split)

subsection \<open>The run queue gets shorter\<close>

definition quiet :: "'a KState \<Rightarrow> Process \<Rightarrow> bool" where
  "quiet k p \<longleftrightarrow> (\<exists>rs. read_syscall (k_mem k) p = Some rs \<and> (case syscall_try_from (of_nat (rs_routine rs)) of
     Some sys_ipc_receive \<Rightarrow> buffer_mapped p (rs_arg2 rs) (rs_arg1 rs)
   | Some sys_ipc_select \<Rightarrow> buffer_mapped p (rs_arg1 rs) (rs_arg0 rs * 8)
   | Some sys_ipc_deliver \<Rightarrow> delivery_complete (p_id p) (k_mgr k)
   | _ \<Rightarrow> False))"

definition ready_ok :: "'a KState \<Rightarrow> bool" where
  "ready_ok k \<longleftrightarrow> (\<forall>pid p. pid \<in> set (running (sc_queues (k_sched k))) \<union> set_option (sc_running (k_sched k)) \<longrightarrow>
     sc_processes (k_sched k) pid = Some p \<longrightarrow> p_repeat_syscall p \<longrightarrow> quiet k p)"

lemma quiet_settles:
  assumes "ext_ok (e_ext env)" and "iter_order (e_ord env)" and "quiet k p" and "read_syscall (k_mem k) p = Some rs"
  shows "settles (taken pid k) (syscall env rs p (taken pid k))"
proof -
  have t: "k_mgr (taken pid k) = k_mgr k" by (simp add: taken_def)
  show ?thesis
    using assms settles_receive [OF assms(1,2), of p rs] settles_select [OF assms(1), of p rs]
      settles_deliver [of p "taken pid k" env rs]
    by (auto simp: quiet_def syscall_def t split: option.splits SyscallNumber.splits)
qed

lemma handle_quiet:
  assumes x: "ext_ok (e_ext env)" and ord: "iter_order (e_ord env)" and inv: "kernel_inv k"
    and p: "sc_processes (k_sched k) pid = Some p" and q: "quiet k p"
    and h: "handle_syscall env pid k = Some (action, k')" and act: "action \<noteq> AcContinue"
  obtains w where "action = AcSwitch w" "events_only w" "sc_queues (k_sched k') = sc_queues (k_sched k)"
    "delivery_result (k_mgr k') = delivery_result (k_mgr k)" "ms_ram (k_mem k') = ms_ram (k_mem k)"
    "\<And>q. q \<noteq> pid \<Longrightarrow> sc_processes (k_sched k') q = sc_processes (k_sched k) q"
proof -
  have s: "sched_inv (k_sched k)" using inv by (simp add: kernel_inv_def)
  obtain p' rs res p1 k1 m where p': "sc_processes (k_sched k) pid = Some p'" "p_id p' = pid"
    and rs: "read_syscall (k_mem k) p' = Some rs"
    and sc: "syscall env rs p' (taken pid k) = Some (res, p1, k1)"
    and m: "(case result_value res of None \<Rightarrow> Some (k_mem k1) | Some r \<Rightarrow> write_result (k_mem k1) p1 r) = Some m"
    and a: "action = snd (result_action res)"
    and k': "k' = k1\<lparr>k_mem := m, k_sched := give_back_process (p1\<lparr>p_repeat_syscall := fst (result_action res)\<rparr>) (k_sched k1)\<rparr>"
    by (rule handle_syscallE [OF h s, folded taken_def])
  have [simp]: "p' = p" using p p' by simp
  obtain w where w: "res = ScRepeatAfter w" "events_only w" "sc_queues (k_sched k1) = sc_queues (k_sched k)"
    "delivery_result (k_mgr k1) = delivery_result (k_mgr k)"
    using quiet_settles [OF x ord q, of rs pid] rs sc a act by (auto simp: settles_def taken_def)
  have c: "p1 = p" "calm_state (taken pid k) k1"
    using calm_syscall [OF x sched_invD(6) [OF s p], of "taken pid k" rs] sc w(1) by (auto simp: calm_def)
  have [simp]: "m = k_mem k1" using m w(1) by simp
  show thesis
  proof (rule that)
    show "action = AcSwitch w" "events_only w" using a w by simp_all
    show "sc_queues (k_sched k') = sc_queues (k_sched k)" "delivery_result (k_mgr k') = delivery_result (k_mgr k)"
      using w by (simp_all add: k' give_back_process_def)
    show "ms_ram (k_mem k') = ms_ram (k_mem k)" using c(2) by (simp add: k' calm_state_def taken_def)
    show "sc_processes (k_sched k') q = sc_processes (k_sched k) q" if "q \<noteq> pid" for q
      using c p'(2) that by (simp add: k' give_back_process_def calm_state_def taken_def)
  qed
qed

lemma first_done_events: "list_all (\<lambda>w. case w of Event _ \<Rightarrow> True | _ \<Rightarrow> False) ws \<Longrightarrow> first_done qs c ws = None"
  by (induction ws) (auto split: WaitFor.splits)

lemma give_events:
  assumes "events_only w" and g: "give pid w qs = Some qs'"
  shows "running qs' = running qs"
proof -
  have "reduce_queues w qs pid \<noteq> Some WNone"
  proof (cases w)
    case (FirstOf ws)
    with assms(1) have ws: "ws \<noteq> []" "first_done qs pid ws = None" by (auto simp: events_only_def first_done_events)
    have "reduce (FirstOf ws) \<noteq> Some WNone"
      using ws(1) reduce_loop_empty [of ws "[]" None] reduce_loop_leaves [of ws "[]" None]
      by (auto simp: reduce_def bind_eq_Some_conv split: option.splits list.splits)
    then show ?thesis using FirstOf ws by (simp add: reduce_queues_def)
  qed (use assms(1) in \<open>auto simp: events_only_def reduce_queues_def reduce_def\<close>)
  with g show ?thesis by (cases rule: give_cases) (auto dest!: register_all_fields)
qed

lemma k_switch_shorter:
  assumes "k_switch env (Some w) k = Some (SwRepeatSyscall j, k')" and "events_only w"
  shows "\<exists>pid. running (sc_queues (k_sched k)) = pid # running (sc_queues (k_sched k')) \<and> sc_running (k_sched k') = Some pid"
    and "k_mgr k' = k_mgr k"
proof -
  obtain t k1 s where n: "now k = (t, k1)" and s: "sched_switch (e_timer env) t (Some w) (k_sched k) = Some (SwRepeatSyscall j, s)"
    and k': "k' = k1\<lparr>k_sched := s\<rparr>"
    using assms(1) by (auto simp: k_switch_def bind_eq_Some_conv split: prod.splits)
  obtain q where q: "(case sc_running (k_sched k) of None \<Rightarrow> Some (sc_queues (k_sched k))
      | Some running_pid \<Rightarrow> give running_pid w (sc_queues (k_sched k))) = Some q"
    using s unfolding sched_switch_def bind_eq_Some_conv by auto
  have r: "running q = running (sc_queues (k_sched k))"
    using q give_events [OF assms(2)] by (auto split: option.splits)
  obtain pid rest where "running q = pid # rest"
    using s q by (cases "running q") (auto simp: sched_switch_def take_next_def)
  then show "\<exists>pid. running (sc_queues (k_sched k)) = pid # running (sc_queues (k_sched k')) \<and> sc_running (k_sched k') = Some pid"
    using s q r by (auto simp: sched_switch_def take_next_def bind_eq_Some_conv k')
  show "k_mgr k' = k_mgr k" using now_fields [OF n] by (simp add: k')
qed

lemma quiet_cong:
  assumes "ms_ram (k_mem k') = ms_ram (k_mem k)" and "delivery_result (k_mgr k') = delivery_result (k_mgr k)"
  shows "quiet k' p = quiet k p"
proof -
  have "read_syscall (k_mem k') p = read_syscall (k_mem k) p" by (rule read_syscall_cong) (simp_all add: assms(1))
  then show ?thesis unfolding quiet_def delivery_complete_def assms(2) by simp
qed

lemma run_bind_NoReturn: "run_bind c f = NoReturn \<longleftrightarrow> c = NoReturn \<or> (\<exists>v. c = Return v \<and> f v = NoReturn)"
  by (cases c) auto

lemma run_of_NoReturn [simp]: "run_of c \<noteq> NoReturn"
  by (simp add: run_of_def split: option.splits)

lemma repeat_ends:
  assumes x: "ext_ok (e_ext env)" and ord: "iter_order (e_ord env)"
  shows "kernel_inv k \<Longrightarrow> calls_ok k \<Longrightarrow> ready_ok k \<Longrightarrow> switch_matches (SwRepeatSyscall i) (k_sched k) \<Longrightarrow>
    length (running (sc_queues (k_sched k))) < fuel \<Longrightarrow> handle_repeat_syscall fuel env i k \<noteq> NoReturn"
proof (induction fuel arbitrary: i k)
  case (Suc fuel)
  note inv = Suc.prems(1) and ok = Suc.prems(2) and ready = Suc.prems(3)
  obtain p where p: "sc_running (k_sched k) = Some (si_pid i)" "sc_processes (k_sched k) (si_pid i) = Some p"
    "i = switch_info p" "fair (si_pid i) k"
    by (rule repeat_matches [OF Suc.prems(4) ok])
  have rep: "p_repeat_syscall p" using Suc.prems(4) p(2) by (simp add: switch_matches_def)
  then have q: "quiet k p" using ready p(1,2) by (simp add: ready_ok_def)
  show ?case
  proof
    assume nr: "handle_repeat_syscall (Suc fuel) env i k = NoReturn"
    then obtain action k1 where h: "handle_syscall env (si_pid i) k = Some (action, k1)"
      by (auto simp: run_bind_NoReturn)
    have act: "action \<noteq> AcContinue" using nr h by (auto simp: run_of_def)
    note H = handle_syscall_inv [OF x ord inv p(1) p(4) h]
    obtain w where w: "action = AcSwitch w" "events_only w" "sc_queues (k_sched k1) = sc_queues (k_sched k)"
      "delivery_result (k_mgr k1) = delivery_result (k_mgr k)" "ms_ram (k_mem k1) = ms_ram (k_mem k)"
      "\<And>q. q \<noteq> si_pid i \<Longrightarrow> sc_processes (k_sched k1) q = sc_processes (k_sched k) q"
      by (rule handle_quiet [OF x ord inv p(2) q h act]) blast
    obtain sw k2 where s': "k_switch env (Some w) k1 = Some (sw, k2)"
      using nr h w(1) by (cases "k_switch env (Some w) k1") (auto simp: run_of_def)
    then obtain j where s: "k_switch env (Some w) k1 = Some (SwRepeatSyscall j, k2)"
      and nr2: "handle_repeat_syscall fuel env j k2 = NoReturn"
      using nr h w(1) by (cases sw) (auto simp: run_of_def split: if_splits)
    note S = k_switch_inv [OF H(1) s] and R = k_switch_shorter [OF s w(2)]
    obtain pid where r: "running (sc_queues (k_sched k)) = pid # running (sc_queues (k_sched k2))" "sc_running (k_sched k2) = Some pid"
      using R(1) w(3) by auto
    have ok2: "calls_ok k2"
      by (rule calls_ok_subset [OF handle_syscall_calls_ok [OF x ord inv p(1) p(4) h ok act]]) (simp_all add: S)
    have "si_pid i \<notin> set (running (sc_queues (k_sched k)))"
      using sched_invD(3) [of "k_sched k"] inv p(1) by (auto simp: kernel_inv_def queued_def)
    then have same: "sc_processes (k_sched k2) a = sc_processes (k_sched k) a" if "a \<in> set (running (sc_queues (k_sched k)))" for a
      using S(3) w(6) [of a] that by metis
    have "quiet k2 r' = quiet k r'" for r' by (rule quiet_cong) (simp_all add: S(4) R(2) w)
    then have "ready_ok k2" using ready same r unfolding ready_ok_def by (auto simp: r)
    then show False using Suc.IH [OF S(1) ok2 _ S(2)] Suc.prems(5) r nr2 by simp
  qed
qed (simp only: not_less_zero)

subsection \<open>Property\<close>


definition demo_waiting :: "nat KState" where
  "demo_waiting = demo_kernel\<lparr>k_sched := (k_sched demo_kernel)\<lparr>sc_processes := [1 \<mapsto> demo_process\<lparr>p_repeat_syscall := True\<rparr>]\<rparr>,
     k_mgr := manager_new\<lparr>delivery_result := [1 \<mapsto> Inr ()]\<rparr>,
     k_mem := (k_mem demo_kernel)\<lparr>ms_ram := (\<lambda>a. if a = 0x30000000 then ucast (syscall_code sys_ipc_deliver) else 0)\<rparr>\<rparr>"

lemma demo_waiting_call: "\<exists>rs. read_syscall (k_mem demo_waiting) (demo_process\<lparr>p_repeat_syscall := True\<rparr>) = Some rs \<and>
    syscall_try_from (of_nat (rs_routine rs)) = Some sys_ipc_deliver"
proof -
  let ?p = "demo_process\<lparr>p_repeat_syscall := True\<rparr>" and ?c = "ucast (syscall_code sys_ipc_deliver) :: u8"
  have r: "read_stack_u64 (k_mem demo_waiting) ?p d = Some (if d = 0 then unat ?c else 0)" if "d < 10" for d
  proof -
    have "mem_range (ms_ram (k_mem demo_waiting)) (0x30000000 + d * 8) 8 = (if d = 0 then [?c, 0, 0, 0, 0, 0, 0, 0] else [0, 0, 0, 0, 0, 0, 0, 0])"
      by (simp add: mem_range_def demo_waiting_def upt_rec)
    then show ?thesis using that
      by (simp add: read_stack_u64_def stack_item_def demo_process_def PROCESS_STACK_def checked_sub_def checked_u64_def al_read_def)
  qed
  have "of_nat (unat ?c) = syscall_code sys_ipc_deliver" by simp
  then show ?thesis by (simp add: read_syscall_def r syscall_try_from_iff)
qed

lemma demo_waiting_process: "sc_processes (k_sched demo_waiting) = [1 \<mapsto> demo_process\<lparr>p_repeat_syscall := True\<rparr>]"
  by (simp add: demo_waiting_def)

lemma demo_waiting_inv: "kernel_inv demo_waiting"
proof -
  have d: "sched_inv (k_sched demo_kernel)" "mgr_inv manager_new" "mem_inv (k_mem demo_kernel)" "pool_inv (k_pool demo_kernel)"
    "length (k_dma demo_kernel) = DMA_BLOCKS" "sc_processes (k_sched demo_kernel) 1 = Some demo_process"
    using demo_kernel_inv by (simp_all add: kernel_inv_def demo_kernel_def)
  have "proc_ok (demo_process\<lparr>p_repeat_syscall := True\<rparr>)"
    using sched_invD(6) [OF d(1,6)] by (simp add: proc_ok_def proc_inv_def)
  moreover have "p_id demo_process = 1" by (simp add: demo_process_def)
  moreover have "(sc_processes (k_sched demo_kernel))(1 \<mapsto> p) = [1 \<mapsto> p]" for p by (simp add: demo_kernel_def)
  ultimately have "sched_inv (k_sched demo_waiting)"
    using sched_inv_update_process [OF d(1,6), of "demo_process\<lparr>p_repeat_syscall := True\<rparr>"] by (simp add: demo_waiting_def)
  moreover have "mgr_inv (k_mgr demo_waiting)" using d(2) by (simp add: demo_waiting_def mgr_inv_def)
  moreover have "mem_inv (k_mem demo_waiting)" using d(3) by (simp add: demo_waiting_def mem_inv_def)
  ultimately show ?thesis using d by (simp add: kernel_inv_def) (simp add: demo_waiting_def)
qed

lemma demo_waiting_ok: "calls_ok demo_waiting" "ready_ok demo_waiting"
    "switch_matches (SwRepeatSyscall (switch_info demo_process)) (k_sched demo_waiting)"
proof -
  let ?p = "demo_process\<lparr>p_repeat_syscall := True\<rparr>"
  have "p_id demo_process = 1" by (simp add: demo_process_def)
  then have "quiet demo_waiting ?p"
    using demo_waiting_call by (force simp: quiet_def delivery_complete_def demo_waiting_def)
  then show "ready_ok demo_waiting" by (auto simp: ready_ok_def demo_waiting_process split: if_splits)
  have "waits_in_call (k_mem demo_waiting) ?p" using demo_waiting_call by (auto simp: waits_in_call_def waiting_calls_def)
  then show "calls_ok demo_waiting" by (auto simp: calls_ok_def demo_waiting_process split: if_splits)
  show "switch_matches (SwRepeatSyscall (switch_info demo_process)) (k_sched demo_waiting)"
    using \<open>p_id demo_process = 1\<close>
    by (simp add: switch_matches_def switch_info_def demo_waiting_process) (simp add: demo_waiting_def demo_kernel_def)
qed


end
