(* ===== verification/DiskCursor.thy ===== *)
theory DiskCursor
  imports Prelude
begin

text \<open>
  Disk access of the file system daemon (\<open>daemon_fatfs\<close>): the sector cache
  (\<open>cache.rs\<close>, \<open>disk.rs\<close>) and the byte cursor on top of it (\<open>cursor.rs\<close>).

  The two functions of a \<open>Disk\<close> send messages to a driver process and \<open>LruCache\<close> is the
  third-party crate \<open>lru\<close>: both are parameters, the records \<open>Disk\<close> and \<open>Lru\<close>. The contract
  of the disk, \<open>disk_ok\<close>, is that of a block device with \<open>n\<close> sectors; the contract of the
  cache, \<open>lru_ok\<close>, is that it holds only what was put into it last. Positions are
  \<open>usize\<close> and wrap.
\<close>

subsection \<open>Disk and cache (disk.rs, cache.rs)\<close>

record 'd Disk =
  dk_sector_size :: nat
  dk_read :: "nat \<Rightarrow> 'd \<Rightarrow> bytes option"
  dk_write :: "nat \<Rightarrow> bytes \<Rightarrow> 'd \<Rightarrow> 'd option"

record 'c Lru =
  lru_new :: "nat \<Rightarrow> 'c"
  lru_get :: "nat \<Rightarrow> 'c \<Rightarrow> bytes option \<times> 'c"
  lru_put :: "nat \<Rightarrow> bytes \<Rightarrow> 'c \<Rightarrow> 'c"

text \<open>The state of a \<open>DiskAccess\<close>: its cache, if it has one, and the device behind the disk.\<close>

record ('c, 'd) DiskAccess =
  da_cache :: "'c option"
  da_dev :: 'd

definition disk_access_new :: "'c Lru \<Rightarrow> 'd \<Rightarrow> nat \<Rightarrow> ('c, 'd) DiskAccess" where
  "disk_access_new lru dev cache_size =
     \<lparr>da_cache = (if cache_size \<noteq> 0 then Some (lru_new lru cache_size) else None), da_dev = dev\<rparr>"

definition cache_put ::
  "'c Lru \<Rightarrow> nat \<Rightarrow> bytes \<Rightarrow> ('c, 'd) DiskAccess \<Rightarrow> ('c, 'd) DiskAccess" where
  "cache_put lru sector dat a = a\<lparr>da_cache := map_option (lru_put lru sector dat) (da_cache a)\<rparr>"

definition disk_fetch ::
  "'c Lru \<Rightarrow> 'd Disk \<Rightarrow> nat \<Rightarrow> ('c, 'd) DiskAccess \<Rightarrow> (bytes \<times> ('c, 'd) DiskAccess) option" where
  "disk_fetch lru dk sector a = do {
     dat \<leftarrow> dk_read dk sector (da_dev a);
     rassert (length dat = dk_sector_size dk);
     Some (dat, cache_put lru sector dat a)
   }"

definition access_read ::
  "'c Lru \<Rightarrow> 'd Disk \<Rightarrow> nat \<Rightarrow> ('c, 'd) DiskAccess \<Rightarrow> (bytes \<times> ('c, 'd) DiskAccess) option" where
  "access_read lru dk sector a =
     (case da_cache a of
        None \<Rightarrow> disk_fetch lru dk sector a
      | Some c \<Rightarrow>
          (case lru_get lru sector c of
             (Some dat, c') \<Rightarrow> Some (dat, a\<lparr>da_cache := Some c'\<rparr>)
           | (None, c') \<Rightarrow> disk_fetch lru dk sector (a\<lparr>da_cache := Some c'\<rparr>)))"

definition access_write ::
  "'c Lru \<Rightarrow> 'd Disk \<Rightarrow> nat \<Rightarrow> bytes \<Rightarrow> ('c, 'd) DiskAccess \<Rightarrow> ('c, 'd) DiskAccess option" where
  "access_write lru dk sector dat a = do {
     rassert (length dat = dk_sector_size dk);
     let a = cache_put lru sector dat a;
     dev \<leftarrow> dk_write dk sector dat (da_dev a);
     Some (a\<lparr>da_dev := dev\<rparr>)
   }"

subsection \<open>The cursor (cursor.rs)\<close>

datatype DiskCursorIoError = UnexpectedEof | WriteZero

record ('c, 'd) DiskCursor =
  cu_disk :: "('c, 'd) DiskAccess"
  cu_sector :: nat
  cu_offset :: nat

datatype SeekFrom = SeekStart nat | SeekEnd int | SeekCurrent int

definition cursor_new :: "('c, 'd) DiskAccess \<Rightarrow> ('c, 'd) DiskCursor" where
  "cursor_new disk = \<lparr>cu_disk = disk, cu_sector = 0, cu_offset = 0\<rparr>"

definition get_position :: "nat \<Rightarrow> ('c, 'd) DiskCursor \<Rightarrow> nat" where
  "get_position ss c = (cu_sector c * ss + cu_offset c) mod 2 ^ 64"

definition set_position :: "nat \<Rightarrow> nat \<Rightarrow> ('c, 'd) DiskCursor \<Rightarrow> ('c, 'd) DiskCursor" where
  "set_position ss position c = c\<lparr>cu_sector := position div ss, cu_offset := position mod ss\<rparr>"

definition move_cursor :: "nat \<Rightarrow> nat \<Rightarrow> ('c, 'd) DiskCursor \<Rightarrow> ('c, 'd) DiskCursor" where
  "move_cursor ss amount c = set_position ss ((get_position ss c + amount) mod 2 ^ 64) c"

text \<open>
  The loop of \<open>read\<close> with \<open>i\<close> bytes read and \<open>n\<close> bytes still to read. An iteration that
  reads nothing (sectors of size zero) would repeat for ever; it is counted as a panic.
\<close>

function cursor_read_loop ::
  "'c Lru \<Rightarrow> 'd Disk \<Rightarrow> nat \<Rightarrow> nat \<Rightarrow> ('c, 'd) DiskCursor \<Rightarrow> (bytes \<times> ('c, 'd) DiskCursor) option" where
  "cursor_read_loop lru dk i n c =
     (if n = 0 then Some ([], c)
      else do {
        (dat, disk) \<leftarrow> access_read lru dk (cu_sector c) (cu_disk c);
        let len = min (length dat) n;
        piece \<leftarrow> slice dat (cu_offset c) (cu_offset c + len);
        (if len = 0 then None
         else do {
           (rest, c') \<leftarrow> cursor_read_loop lru dk (i + len) (n - len)
             (move_cursor (dk_sector_size dk) (i + len) (c\<lparr>cu_disk := disk\<rparr>));
           Some (piece @ rest, c')
         })
      })"
  by pat_completeness auto

termination by (relation "measure (\<lambda>(_, _, _, n, _). n)") auto

declare cursor_read_loop.simps [simp del]

text \<open>\<open>read\<close> into a buffer of \<open>n\<close> bytes; the count it returns is the length of the result.\<close>

definition cursor_read ::
  "'c Lru \<Rightarrow> 'd Disk \<Rightarrow> nat \<Rightarrow> ('c, 'd) DiskCursor \<Rightarrow> (bytes \<times> ('c, 'd) DiskCursor) option" where
  "cursor_read lru dk n c = cursor_read_loop lru dk 0 n c"

definition cursor_read_exact ::
  "'c Lru \<Rightarrow> 'd Disk \<Rightarrow> nat \<Rightarrow> ('c, 'd) DiskCursor \<Rightarrow> (bytes \<times> ('c, 'd) DiskCursor) option" where
  "cursor_read_exact lru dk n c = do {
     (buf, c) \<leftarrow> cursor_read lru dk n c;
     rassert (length buf = n);
     Some (buf, c)
   }"

definition chunks_exact :: "nat \<Rightarrow> 'a list \<Rightarrow> 'a list list" where
  "chunks_exact k xs = map (\<lambda>i. take k (drop (i * k) xs)) [0..<length xs div k]"

text \<open>\<open>for (i, block) in blocks.enumerate() \{ disk.write(first_sector + i, block) \}\<close>\<close>

fun write_blocks ::
  "'c Lru \<Rightarrow> 'd Disk \<Rightarrow> nat \<Rightarrow> bytes list \<Rightarrow> ('c, 'd) DiskAccess \<Rightarrow> ('c, 'd) DiskAccess option" where
  "write_blocks lru dk sector [] a = Some a"
| "write_blocks lru dk sector (block # blocks) a = do {
     a \<leftarrow> access_write lru dk sector block a;
     write_blocks lru dk (sector + 1) blocks a
   }"

text \<open>The sectors at both ends of the range to write.\<close>

definition write_ends ::
  "'c Lru \<Rightarrow> 'd Disk \<Rightarrow> nat \<Rightarrow> nat \<Rightarrow> bool \<Rightarrow> ('c, 'd) DiskAccess
     \<Rightarrow> (bytes \<times> bytes \<times> ('c, 'd) DiskAccess) option" where
  "write_ends lru dk first_sector last_sector exact a =
     (if first_sector = last_sector then
        (if exact then Some ([], [], a)
         else do {
           (x, a) \<leftarrow> access_read lru dk first_sector a;
           Some (x, x, a)
         })
      else do {
        (head, a) \<leftarrow> access_read lru dk first_sector a;
        (tail, a) \<leftarrow> access_read lru dk last_sector a;
        Some (head, tail, a)
      })"

definition cursor_write ::
  "'c Lru \<Rightarrow> 'd Disk \<Rightarrow> bytes \<Rightarrow> ('c, 'd) DiskCursor \<Rightarrow> (nat \<times> ('c, 'd) DiskCursor) option" where
  "cursor_write lru dk buf c = do {
     rassert (length buf \<noteq> 0);
     let ss = dk_sector_size dk;
     rassert (ss \<noteq> 0);
     let start_is_exact = (cu_offset c mod ss = 0);
     let end_is_exact = ((cu_offset c + length buf) mod ss = 0);
     let logical_start = (cu_sector c * ss + cu_offset c) mod 2 ^ 64;
     let logical_end = (logical_start + length buf) mod 2 ^ 64;
     let first_sector = cu_sector c;
     let last_sector = logical_end div ss;
     (head, tail, disk) \<leftarrow>
       write_ends lru dk first_sector last_sector (start_is_exact \<and> end_is_exact) (cu_disk c);
     (if first_sector = last_sector
      then map_option (\<lambda>_. ()) (slice head (cu_offset c) (cu_offset c + length buf)) else Some ());
     start \<leftarrow> slice head 0 (cu_offset c);
     rest \<leftarrow> (if end_is_exact then Some [] else slice tail (logical_end mod ss) (length tail));
     disk \<leftarrow> write_blocks lru dk first_sector (chunks_exact ss (start @ buf @ rest)) disk;
     Some (length buf, move_cursor ss (length buf) (c\<lparr>cu_disk := disk\<rparr>))
   }"

definition cursor_write_all ::
  "'c Lru \<Rightarrow> 'd Disk \<Rightarrow> bytes \<Rightarrow> ('c, 'd) DiskCursor \<Rightarrow> ('c, 'd) DiskCursor option" where
  "cursor_write_all lru dk buf c = map_option snd (cursor_write lru dk buf c)"

text \<open>
  \<open>seek\<close>: the result is the new position as \<open>u64\<close>. A position relative to the current one is
  computed in \<open>i64\<close> and converted back.
\<close>

definition cursor_seek :: "'d Disk \<Rightarrow> SeekFrom \<Rightarrow> ('c, 'd) DiskCursor \<Rightarrow> (nat \<times> ('c, 'd) DiskCursor) option" where
  "cursor_seek dk pos c = do {
     rassert (dk_sector_size dk \<noteq> 0);
     (case pos of
        SeekStart i \<Rightarrow> Some (i, set_position (dk_sector_size dk) i c)
      | SeekEnd i \<Rightarrow> None
      | SeekCurrent i \<Rightarrow>
          (let new_pos = nat ((int (get_position (dk_sector_size dk) c) + i) mod 2 ^ 64)
           in Some (new_pos, set_position (dk_sector_size dk) new_pos c)))
   }"

subsection \<open>Contracts\<close>

text \<open>A block device with \<open>n\<close> sectors whose content is \<open>view\<close>.\<close>

definition disk_ok :: "'d Disk \<Rightarrow> nat \<Rightarrow> ('d \<Rightarrow> nat \<Rightarrow> bytes) \<Rightarrow> bool" where
  "disk_ok dk n view \<longleftrightarrow>
     0 < dk_sector_size dk \<and>
     (\<forall>d s. s < n \<longrightarrow> length (view d s) = dk_sector_size dk) \<and>
     (\<forall>d s. dk_read dk s d = (if s < n then Some (view d s) else None)) \<and>
     (\<forall>d s b. s < n \<and> length b = dk_sector_size dk \<longrightarrow>
        (\<exists>d'. dk_write dk s b d = Some d' \<and> view d' = (view d)(s := b)))"

text \<open>A cache that may forget entries, with the entries \<open>cv\<close>.\<close>

definition lru_ok :: "'c Lru \<Rightarrow> ('c \<Rightarrow> nat \<rightharpoonup> bytes) \<Rightarrow> bool" where
  "lru_ok lru cv \<longleftrightarrow>
     (\<forall>n. cv (lru_new lru n) = Map.empty) \<and>
     (\<forall>k c. fst (lru_get lru k c) = cv c k \<and> cv (snd (lru_get lru k c)) = cv c) \<and>
     (\<forall>k v c. cv (lru_put lru k v c) \<subseteq>\<^sub>m (cv c)(k \<mapsto> v))"

text \<open>The cache agrees with the device.\<close>

definition cache_ok ::
  "nat \<Rightarrow> ('d \<Rightarrow> nat \<Rightarrow> bytes) \<Rightarrow> ('c \<Rightarrow> nat \<rightharpoonup> bytes) \<Rightarrow> ('c, 'd) DiskAccess \<Rightarrow> bool" where
  "cache_ok n view cv a \<longleftrightarrow>
     (\<forall>c s v. da_cache a = Some c \<longrightarrow> cv c s = Some v \<longrightarrow> s < n \<and> view (da_dev a) s = v)"

lemma cache_ok_new: "lru_ok lru cv \<Longrightarrow> cache_ok n view cv (disk_access_new lru dev k)"
  by (simp add: cache_ok_def disk_access_new_def lru_ok_def)

lemma cache_put_ok:
  assumes "lru_ok lru cv" and "s < n" and "view d s = b"
    and "\<And>c k v. da_cache a = Some c \<Longrightarrow> cv c k = Some v \<Longrightarrow> k \<noteq> s \<Longrightarrow> k < n \<and> view d k = v"
  shows "cache_ok n view cv ((cache_put lru s b a)\<lparr>da_dev := d\<rparr>)"
proof (unfold cache_ok_def, intro allI impI)
  fix c k v
  assume "da_cache ((cache_put lru s b a)\<lparr>da_dev := d\<rparr>) = Some c" and v: "cv c k = Some v"
  then obtain c0 where c0: "da_cache a = Some c0" and c: "c = lru_put lru s b c0"
    by (auto simp: cache_put_def)
  from assms(1) c have "cv c \<subseteq>\<^sub>m (cv c0)(s \<mapsto> b)" by (simp add: lru_ok_def)
  with v have "((cv c0)(s \<mapsto> b)) k = Some v" by (auto simp: map_le_def dom_def)
  with c0 assms(2-4) show "k < n \<and> view (da_dev ((cache_put lru s b a)\<lparr>da_dev := d\<rparr>)) k = v"
    by (auto split: if_splits)
qed

lemma disk_fetch_spec:
  assumes "disk_ok dk n view" and "lru_ok lru cv" and "cache_ok n view cv a" and "s < n"
  shows "\<exists>a'. disk_fetch lru dk s a = Some (view (da_dev a) s, a') \<and> da_dev a' = da_dev a \<and>
    cache_ok n view cv a'"
proof -
  have "cache_ok n view cv ((cache_put lru s (view (da_dev a) s) a)\<lparr>da_dev := da_dev a\<rparr>)"
    using assms by (intro cache_put_ok) (auto simp: cache_ok_def)
  with assms(1,4) show ?thesis by (simp add: disk_fetch_def disk_ok_def cache_put_def)
qed

lemma access_read_spec:
  assumes "disk_ok dk n view" and "lru_ok lru cv" and "cache_ok n view cv a" and "s < n"
  shows "\<exists>a'. access_read lru dk s a = Some (view (da_dev a) s, a') \<and> da_dev a' = da_dev a \<and>
    cache_ok n view cv a'"
proof (cases "da_cache a")
  case None
  with disk_fetch_spec [OF assms] show ?thesis by (simp add: access_read_def)
next
  case (Some c)
  obtain r c' where get: "lru_get lru s c = (r, c')" by fastforce
  with assms(2) have r: "r = cv c s" and c': "cv c' = cv c"
    unfolding lru_ok_def by (metis fst_conv, metis snd_conv)
  have ok: "cache_ok n view cv (a\<lparr>da_cache := Some c'\<rparr>)"
    using assms(3) Some c' by (simp add: cache_ok_def)
  show ?thesis
  proof (cases r)
    case None
    with disk_fetch_spec [OF assms(1,2) ok assms(4)] Some get show ?thesis by (simp add: access_read_def)
  next
    case (Some v)
    with r have "cv c s = Some v" by simp
    with assms(3) \<open>da_cache a = Some c\<close> have "v = view (da_dev a) s" unfolding cache_ok_def by blast
    with Some ok get \<open>da_cache a = Some c\<close> show ?thesis by (simp add: access_read_def)
  qed
qed

lemma access_write_spec:
  assumes "disk_ok dk n view" and "lru_ok lru cv" and "cache_ok n view cv a" and "s < n"
    and "length b = dk_sector_size dk"
  shows "\<exists>a'. access_write lru dk s b a = Some a' \<and> view (da_dev a') = (view (da_dev a))(s := b) \<and>
    cache_ok n view cv a'"
proof -
  from assms(1,4,5) obtain d where "dk_write dk s b (da_dev a) = Some d"
    and view: "view d = (view (da_dev a))(s := b)" unfolding disk_ok_def by blast
  moreover have "cache_ok n view cv ((cache_put lru s b a)\<lparr>da_dev := d\<rparr>)"
    using assms(2-4) view by (intro cache_put_ok) (auto simp: cache_ok_def)
  ultimately show ?thesis using assms(5) by (simp add: access_write_def cache_put_def Let_def)
qed

lemma write_blocks_spec:
  assumes "disk_ok dk n view" and "lru_ok lru cv" and "cache_ok n view cv a"
    and "s + length blocks \<le> n" and "\<forall>b \<in> set blocks. length b = dk_sector_size dk"
  shows "\<exists>a'. write_blocks lru dk s blocks a = Some a' \<and> cache_ok n view cv a' \<and>
    view (da_dev a') = (\<lambda>t. if s \<le> t \<and> t < s + length blocks then blocks ! (t - s) else view (da_dev a) t)"
  using assms(3-5)
proof (induction blocks arbitrary: s a)
  case Nil
  then show ?case by (auto simp: fun_eq_iff)
next
  case (Cons b blocks)
  from Cons.prems have "s < n" "length b = dk_sector_size dk" by auto
  from access_write_spec [OF assms(1,2) Cons.prems(1) this] obtain a1 where
    one: "access_write lru dk s b a = Some a1" and v1: "view (da_dev a1) = (view (da_dev a))(s := b)"
    and ok: "cache_ok n view cv a1" by blast
  from Cons.IH [OF ok, of "s + 1"] Cons.prems obtain a' where
    "write_blocks lru dk (s + 1) blocks a1 = Some a'" "cache_ok n view cv a'"
    and v': "view (da_dev a') = (\<lambda>t. if s + 1 \<le> t \<and> t < s + 1 + length blocks then blocks ! (t - (s + 1))
       else view (da_dev a1) t)" by auto
  moreover have "view (da_dev a') = (\<lambda>t. if s \<le> t \<and> t < s + length (b # blocks)
       then (b # blocks) ! (t - s) else view (da_dev a) t)"
  proof
    fix t
    consider "t < s" | "t = s" | "s < t" by linarith
    then show "view (da_dev a') t = (if s \<le> t \<and> t < s + length (b # blocks)
       then (b # blocks) ! (t - s) else view (da_dev a) t)"
      by cases (auto simp: v' v1 nth_Cons' Suc_le_eq)
  qed
  ultimately show ?case using one by simp
qed

subsection \<open>The disk as an array of bytes\<close>

definition disk_byte :: "nat \<Rightarrow> (nat \<Rightarrow> bytes) \<Rightarrow> nat \<Rightarrow> u8" where
  "disk_byte ss f p = f (p div ss) ! (p mod ss)"

lemma chunks_exact_length [simp]: "length (chunks_exact k xs) = length xs div k"
  by (simp add: chunks_exact_def)

lemma chunk_bound: "i < n div k \<Longrightarrow> i * k + k \<le> (n :: nat)"
proof -
  assume "i < n div k"
  then have "(i + 1) * k \<le> n div k * k" by (intro mult_le_mono1) simp
  also have "\<dots> \<le> n" by (simp add: div_times_less_eq_dividend)
  finally show ?thesis by simp
qed

lemma chunks_exact_nth:
  assumes "i < length xs div k" and "j < k"
  shows "chunks_exact k xs ! i ! j = xs ! (i * k + j)"
  using assms chunk_bound [OF assms(1)] by (simp add: chunks_exact_def)

lemma chunks_exact_block: "b \<in> set (chunks_exact k xs) \<Longrightarrow> length b = k"
  by (auto simp: chunks_exact_def dest!: chunk_bound)

lemma sector_range:
  assumes "0 < ss"
  shows "S \<le> p div ss \<longleftrightarrow> S * ss \<le> (p :: nat)" and "p div ss < S \<longleftrightarrow> p < S * ss"
  using assms by (simp_all add: less_eq_div_iff_mult_less_eq div_less_iff_less_mult)

lemma written_bytes:
  assumes "0 < ss" and "length xs = k * ss"
    and "g = (\<lambda>t. if S \<le> t \<and> t < S + length (chunks_exact ss xs) then chunks_exact ss xs ! (t - S) else f t)"
  shows "disk_byte ss g p =
    (if S * ss \<le> p \<and> p < S * ss + length xs then xs ! (p - S * ss) else disk_byte ss f p)"
proof -
  have k: "length (chunks_exact ss xs) = k" using assms(1,2) by simp
  have range: "S \<le> p div ss \<and> p div ss < S + k \<longleftrightarrow> S * ss \<le> p \<and> p < S * ss + length xs"
    using assms(1,2) by (simp add: sector_range distrib_right)
  show ?thesis
  proof (cases "S \<le> p div ss \<and> p div ss < S + k")
    case True
    then have "p div ss - S < length xs div ss" using assms(1,2) by auto
    then have "chunks_exact ss xs ! (p div ss - S) ! (p mod ss) = xs ! ((p div ss - S) * ss + p mod ss)"
      using assms(1) by (simp add: chunks_exact_nth)
    also have "(p div ss - S) * ss + p mod ss = p - S * ss"
      using True range by (simp add: diff_mult_distrib)
    finally show ?thesis using True range k assms(3) by (simp add: disk_byte_def)
  next
    case False
    with k assms(3) have "g (p div ss) = f (p div ss)" by auto
    moreover from False range have "\<not> (S * ss \<le> p \<and> p < S * ss + length xs)" by blast
    ultimately show ?thesis by (auto simp: disk_byte_def)
  qed
qed

subsection \<open>Writing\<close>

lemma write_ends_spec:
  assumes "disk_ok dk n view" and "lru_ok lru cv" and "cache_ok n view cv a"
    and "first < n" and "last_s < n" and "first = last_s \<longrightarrow> \<not> exact"
  shows "\<exists>a'. write_ends lru dk first last_s exact a =
      Some (view (da_dev a) first, view (da_dev a) last_s, a') \<and>
    da_dev a' = da_dev a \<and> cache_ok n view cv a'"
proof -
  from access_read_spec [OF assms(1-4)] obtain a1 where
    one: "access_read lru dk first a = Some (view (da_dev a) first, a1)" "da_dev a1 = da_dev a"
    "cache_ok n view cv a1" by blast
  from access_read_spec [OF assms(1,2) one(3) assms(5)] one assms(6) show ?thesis
    by (auto simp: write_ends_def)
qed

text \<open>The bytes that are written: the old ones around the buffer.\<close>

lemma write_data:
  fixes head tail buf :: bytes
  assumes "off < ss" and "length head = ss" and "length tail = ss" and "buf \<noteq> []"
    and "m = off + length buf"
    and "data = take off head @ buf @ (if m mod ss = 0 then [] else drop (m mod ss) tail)"
  shows "length data = (if m mod ss = 0 then m div ss else m div ss + 1) * ss"
    and "q < length data \<Longrightarrow> data ! q =
      (if q < off then head ! q else if q < m then buf ! (q - off) else tail ! (q mod ss))"
proof -
  have len: "length data = m + (if m mod ss = 0 then 0 else ss - m mod ss)"
    using assms(1-3) unfolding assms(6) by (simp add: assms(5) less_imp_le)
  have "m + (ss - m mod ss) = m div ss * ss + ss"
    using div_mult_mod_eq [of m ss] mod_less_divisor [of ss m] assms(1) by linarith
  moreover have "m = m div ss * ss" if "m mod ss = 0"
    using div_mult_mod_eq [of m ss] that by simp
  ultimately show *: "length data = (if m mod ss = 0 then m div ss else m div ss + 1) * ss"
    using len by (simp add: distrib_right)
  assume q: "q < length data"
  show "data ! q = (if q < off then head ! q else if q < m then buf ! (q - off) else tail ! (q mod ss))"
  proof (cases "q < m")
    case True
    then show ?thesis using assms by (auto simp: nth_append)
  next
    case False
    with q len have nz: "m mod ss \<noteq> 0" by (auto split: if_splits)
    with q * have "q < (m div ss + 1) * ss" by simp
    with False have "q div ss = m div ss"
      by (metis add.commute div_le_mono le_antisym less_Suc_eq_le less_mult_imp_div_less linorder_not_less
          plus_1_eq_Suc)
    then have "m div ss * ss + q mod ss = q" by (metis div_mult_mod_eq)
    then have "q mod ss = m mod ss + (q - m)"
      using False div_mult_mod_eq [of m ss] by linarith
    with False nz assms show ?thesis by (auto simp: nth_append less_imp_le)
  qed
qed

text \<open>
  The effect of the write on the bytes of the disk, from its effect on the sectors: \<open>off\<close> is
  the offset in the first sector \<open>S\<close>.
\<close>

lemma spliced_bytes:
  assumes "off < ss" and "\<And>s. s < n \<Longrightarrow> length (f s) = ss" and "buf \<noteq> []"
    and "m = off + length buf" and "(S * ss + m) div ss < n"
    and "data = take off (f S) @ buf @ (if m mod ss = 0 then [] else drop (m mod ss) (f ((S * ss + m) div ss)))"
    and "g = (\<lambda>t. if S \<le> t \<and> t < S + length (chunks_exact ss data) then chunks_exact ss data ! (t - S) else f t)"
  shows "disk_byte ss g p =
    (if S * ss + off \<le> p \<and> p < S * ss + m then buf ! (p - (S * ss + off)) else disk_byte ss f p)"
proof -
  have last_s: "(S * ss + m) div ss = S + m div ss" using assms(1) by simp
  with assms(5) have "S < n" by simp
  then have head: "length (f S) = ss" and tail: "length (f (S + m div ss)) = ss"
    using assms(2,5) last_s by simp_all
  note data = write_data [OF assms(1) head tail assms(3,4) assms(6) [unfolded last_s]]
  have bytes: "disk_byte ss g p = (if S * ss \<le> p \<and> p < S * ss + length data then data ! (p - S * ss)
      else disk_byte ss f p)"
    using assms(1) by (intro written_bytes [OF _ data(1) assms(7)]) simp
  show ?thesis
  proof (cases "S * ss \<le> p \<and> p < S * ss + length data")
    case True
    define q where "q = p - S * ss"
    with True have p: "p = S * ss + q" and q: "q < length data" by auto
    have "p div ss = S + q div ss" and mod: "p mod ss = q mod ss" using p assms(1) by simp_all
    moreover have "q div ss = 0 \<and> q mod ss = q" if "q < off" using that assms(1) by simp
    moreover have "q div ss = m div ss" if "m \<le> q"
    proof -
      from q data(1) that have "q < (m div ss + 1) * ss"
        by (auto split: if_splits)
      then have "q div ss < m div ss + 1" by (simp add: less_mult_imp_div_less)
      moreover have "m div ss \<le> q div ss" using that by (rule div_le_mono)
      ultimately show ?thesis by simp
    qed
    ultimately show ?thesis
      using bytes True data(2) [OF q] p assms(4) by (auto simp: disk_byte_def)
  next
    case False
    moreover have "m \<le> length data" using assms(1,4,6) head by simp
    ultimately show ?thesis using bytes by auto
  qed
qed

lemma get_set_position:
  "0 < ss \<Longrightarrow> position < 2 ^ 64 \<Longrightarrow> get_position ss (set_position ss position c) = position"
  by (simp add: get_position_def set_position_def)

lemma cursor_moved:
  assumes "0 < ss" and "cu_sector c * ss + cu_offset c + k < 2 ^ 64"
  shows "get_position ss (move_cursor ss k c) = cu_sector c * ss + cu_offset c + k"
    and "cu_offset (move_cursor ss k c) < ss" and "cu_disk (move_cursor ss k c) = cu_disk c"
  using assms by (simp_all add: move_cursor_def get_set_position) (simp_all add: set_position_def get_position_def)

text \<open>
  The computation of \<open>cursor_write\<close> with its local values: the range from \<open>off\<close> in sector
  \<open>S\<close> has \<open>m\<close> bytes up to its end, counted from the start of the sector.
\<close>

lemma cursor_write_unfold:
  assumes "ss = dk_sector_size dk" and "S = cu_sector c" and "off = cu_offset c" and "off < ss"
    and "buf \<noteq> []" and "m = off + length buf" and "S * ss + m < 2 ^ 64"
    and "write_ends lru dk S (S + m div ss) (off mod ss = 0 \<and> m mod ss = 0) (cu_disk c) = Some (head, tail, a1)"
    and "length head = ss" and "length tail = ss"
    and "write_blocks lru dk S (chunks_exact ss (take off head @ buf @
      (if m mod ss = 0 then [] else drop (m mod ss) tail))) a1 = Some a2"
  shows "cursor_write lru dk buf c = Some (length buf, move_cursor ss (length buf) (c\<lparr>cu_disk := a2\<rparr>))"
proof -
  have ends: "(S * ss + off) mod 2 ^ 64 = S * ss + off" "(S * ss + off + length buf) mod 2 ^ 64 = S * ss + m"
    "(S * ss + m) div ss = S + m div ss" "(S * ss + m) mod ss = m mod ss"
    using assms(4,6,7) by simp_all
  have start: "slice head 0 off = Some (take off head)"
    using assms(4,9) by (simp add: slice_def)
  have check: "\<exists>x. (if S = S + m div ss then map_option (\<lambda>_. ()) (slice head off m) else Some ()) = Some x"
    using assms(4,6,9) by (auto simp: slice_def div_eq_0_iff)
  have rest: "(if m mod ss = 0 then Some [] else slice tail (m mod ss) (length tail)) =
      Some (if m mod ss = 0 then [] else drop (m mod ss) tail)"
    using assms(4,10) by (simp add: slice_def less_imp_le)
  have "length buf \<noteq> 0" "ss \<noteq> 0" using assms(4,5) by auto
  with check show ?thesis
    unfolding cursor_write_def Let_def assms(1-3) [symmetric] ends assms(6) [symmetric]
    by (auto simp: assms(8,11) start rest)
qed

text \<open>C26: Writing at the cursor changes exactly the bytes of the disk from the position of the cursor
  on, whatever the alignment and the number of sectors, keeps the cache consistent with the
  disk and advances the cursor by the number of bytes. The sector of the first byte after the
  range has to exist, since \<open>write\<close> reads it.\<close>

theorem cursor_write_splices:
  assumes "disk_ok dk n view" and "lru_ok lru cv" and "cache_ok n view cv (cu_disk c)"
    and "ss = dk_sector_size dk" and "cu_offset c < ss" and "buf \<noteq> []"
    and "pos = cu_sector c * ss + cu_offset c" and "pos + length buf < 2 ^ 64"
    and "(pos + length buf) div ss < n"
  shows "\<exists>c'. cursor_write lru dk buf c = Some (length buf, c') \<and>
    cache_ok n view cv (cu_disk c') \<and> get_position ss c' = pos + length buf \<and> cu_offset c' < ss \<and>
    (\<forall>p. disk_byte ss (view (da_dev (cu_disk c'))) p =
       (if pos \<le> p \<and> p < pos + length buf then buf ! (p - pos)
        else disk_byte ss (view (da_dev (cu_disk c))) p))"
proof -
  define S off f m where "S = cu_sector c" and "off = cu_offset c"
    and "f = view (da_dev (cu_disk c))" and "m = off + length buf"
  define data where "data = take off (f S) @ buf @
    (if m mod ss = 0 then [] else drop (m mod ss) (f ((S * ss + m) div ss)))"
  have off: "off < ss" and logical: "pos + length buf = S * ss + m" and small: "S * ss + m < 2 ^ 64"
    using assms(5,7,8) by (simp_all add: S_def off_def m_def)
  have len: "length (f s) = ss" if "s < n" for s
    using assms(1,4) that by (simp add: f_def disk_ok_def)
  have last_s: "(S * ss + m) div ss = S + m div ss" using off by simp
  with assms(9) logical have S: "S < n" and L: "S + m div ss < n" by simp_all
  have "S = S + m div ss \<longrightarrow> \<not> (off mod ss = 0 \<and> m mod ss = 0)"
    using off assms(6) by (auto simp: div_eq_0_iff m_def)
  from write_ends_spec [OF assms(1-3) S L this] obtain a1 where
    ends: "write_ends lru dk S (S + m div ss) (off mod ss = 0 \<and> m mod ss = 0) (cu_disk c) =
      Some (f S, f (S + m div ss), a1)" and a1: "da_dev a1 = da_dev (cu_disk c)" "cache_ok n view cv a1"
    unfolding f_def by blast
  have "length data = (if m mod ss = 0 then m div ss else m div ss + 1) * ss"
    using write_data(1) [OF off len [OF S] len [OF L] assms(6) m_def data_def [unfolded last_s]] .
  then have "S + length (chunks_exact ss data) \<le> n" using L off by (simp split: if_splits)
  moreover have "\<forall>b \<in> set (chunks_exact ss data). length b = dk_sector_size dk"
    using chunks_exact_block assms(4) by blast
  ultimately have "\<exists>a2. write_blocks lru dk S (chunks_exact ss data) a1 = Some a2 \<and> cache_ok n view cv a2 \<and>
      view (da_dev a2) = (\<lambda>t. if S \<le> t \<and> t < S + length (chunks_exact ss data)
         then chunks_exact ss data ! (t - S) else view (da_dev a1) t)"
    by (rule write_blocks_spec [OF assms(1,2) a1(2)])
  then obtain a2 where blocks: "write_blocks lru dk S (chunks_exact ss data) a1 = Some a2"
    and a2: "cache_ok n view cv a2"
      "view (da_dev a2) = (\<lambda>t. if S \<le> t \<and> t < S + length (chunks_exact ss data)
         then chunks_exact ss data ! (t - S) else f t)"
    unfolding f_def a1(1) by blast
  let ?c = "move_cursor ss (length buf) (c\<lparr>cu_disk := a2\<rparr>)"
  have "cursor_write lru dk buf c = Some (length buf, ?c)"
    by (rule cursor_write_unfold [OF assms(4) S_def off_def off assms(6) m_def small ends len [OF S]
          len [OF L] blocks [unfolded data_def last_s]])
  moreover have "disk_byte ss (view (da_dev a2)) p = (if pos \<le> p \<and> p < pos + length buf
      then buf ! (p - pos) else disk_byte ss f p)" for p
    using spliced_bytes [OF off len assms(6) m_def L [folded last_s] data_def a2(2)] assms(7) logical
    by (simp add: S_def off_def)
  moreover have "get_position ss ?c = pos + length buf" "cu_offset ?c < ss" "cu_disk ?c = a2"
    using cursor_moved [of ss "c\<lparr>cu_disk := a2\<rparr>" "length buf"] assms(5,7,8) by simp_all
  ultimately show ?thesis using a2(1) f_def by auto
qed

subsection \<open>A disk in memory and a small cache\<close>

definition ram_disk :: "nat \<Rightarrow> nat \<Rightarrow> (nat \<Rightarrow> bytes) Disk" where
  "ram_disk ss n =
     \<lparr>dk_sector_size = ss,
      dk_read = (\<lambda>s d. if s < n then Some (take ss (d s @ replicate ss 0)) else None),
      dk_write = (\<lambda>s b d. if s < n then Some (d(s := b)) else None)\<rparr>"

definition lru_list :: "(nat \<times> (nat \<times> bytes) list) Lru" where
  "lru_list =
     \<lparr>lru_new = (\<lambda>n. (n, [])),
      lru_get = (\<lambda>k (n, al). case map_of al k of
         None \<Rightarrow> (None, (n, al))
       | Some v \<Rightarrow> (Some v, (n, (k, v) # filter (\<lambda>(k', _). k' \<noteq> k) al))),
      lru_put = (\<lambda>k v (n, al). (n, take n ((k, v) # filter (\<lambda>(k', _). k' \<noteq> k) al)))\<rparr>"

lemma ram_disk_ok: "0 < ss \<Longrightarrow> disk_ok (ram_disk ss n) n (\<lambda>d s. take ss (d s @ replicate ss 0))"
  by (auto simp: disk_ok_def ram_disk_def)

lemma map_of_move_front:
  "map_of ((k, v) # filter (\<lambda>(k', _). k' \<noteq> k) al) = (map_of al)(k \<mapsto> v)"
proof
  fix x
  show "map_of ((k, v) # filter (\<lambda>(k', _). k' \<noteq> k) al) x = ((map_of al)(k \<mapsto> v)) x"
    by (induction al) (auto split: if_splits)
qed

lemma map_of_take: "map_of (take n al) \<subseteq>\<^sub>m map_of al"
proof -
  have "map_of (take n al @ drop n al) = map_of (drop n al) ++ map_of (take n al)"
    by (rule map_of_append)
  then show ?thesis by (metis append_take_drop_id map_le_map_add)
qed

lemma lru_list_ok: "lru_ok lru_list (\<lambda>c. map_of (snd c))"
  unfolding lru_ok_def
proof (intro conjI allI)
  fix k v :: nat and b :: bytes and n :: nat and c :: "nat \<times> (nat \<times> bytes) list"
  show "map_of (snd (lru_new lru_list n)) = Map.empty" by (simp add: lru_list_def)
  obtain m al where c: "c = (m, al)" by fastforce
  show "fst (lru_get lru_list k c) = map_of (snd c) k"
    by (simp add: lru_list_def c split: option.split)
  show "map_of (snd (snd (lru_get lru_list k c))) = map_of (snd c)"
    by (cases "map_of al k") (simp_all add: lru_list_def c map_of_move_front map_upd_triv del: map_of.simps)
  show "map_of (snd (lru_put lru_list k b c)) \<subseteq>\<^sub>m (map_of (snd c))(k \<mapsto> b)"
    using map_of_take [of m "(k, b) # filter (\<lambda>(k', _). k' \<noteq> k) al"]
    by (simp add: lru_list_def c map_of_move_front del: map_of.simps)
qed

theorem cursor_write_splices_witness:
  "\<exists>c'. cursor_write lru_list (ram_disk 4 10) [1, 2, 3, 4, 5]
      \<lparr>cu_disk = disk_access_new lru_list (\<lambda>_. []) 2, cu_sector = 1, cu_offset = 2\<rparr> = Some (5, c') \<and>
    get_position 4 c' = 11"
  using cursor_write_splices [OF ram_disk_ok [of 4 10] lru_list_ok,
      of "\<lparr>cu_disk = disk_access_new lru_list (\<lambda>_. []) 2, cu_sector = 1, cu_offset = 2\<rparr>" 4
        "[1, 2, 3, 4, 5]" 6]
  by (auto simp: ram_disk_def cache_ok_new lru_list_ok)

subsection \<open>Reading\<close>

lemma cursor_read_loop_end [simp]: "cursor_read_loop lru dk i 0 c = Some ([], c)"
  by (simp add: cursor_read_loop.simps)

lemma sector_slice:
  assumes "off + k \<le> ss" and "0 < ss" and "length (f S) = ss"
  shows "take k (drop off (f S)) = map (disk_byte ss f) [S * ss + off..<S * ss + off + k]"
proof (rule nth_equalityI)
  show "length (take k (drop off (f S))) = length (map (disk_byte ss f) [S * ss + off..<S * ss + off + k])"
    using assms by simp
  fix i
  assume "i < length (take k (drop off (f S)))"
  then have "i < k" by simp
  with assms have "(S * ss + (off + i)) div ss = S" "(S * ss + (off + i)) mod ss = off + i" by simp_all
  with \<open>i < k\<close> assms show "take k (drop off (f S)) ! i =
      map (disk_byte ss f) [S * ss + off..<S * ss + off + k] ! i"
    by (simp add: disk_byte_def add.assoc)
qed

text \<open>A read inside one sector returns exactly the bytes at the position and advances the cursor.
  A read that starts inside a sector and goes beyond its end panics.\<close>

lemma cursor_read_one_sector:
  assumes "disk_ok dk n view" and "lru_ok lru cv" and "cache_ok n view cv (cu_disk c)"
    and "ss = dk_sector_size dk" and "cu_offset c < ss" and "cu_sector c < n" and "0 < k"
    and "pos = cu_sector c * ss + cu_offset c" and "pos + k < 2 ^ 64"
  shows "(cu_offset c + k \<le> ss \<longrightarrow> (\<exists>c'. cursor_read lru dk k c =
        Some (map (disk_byte ss (view (da_dev (cu_disk c)))) [pos..<pos + k], c') \<and>
        get_position ss c' = pos + k \<and> cache_ok n view cv (cu_disk c'))) \<and>
    (0 < cu_offset c \<and> ss < cu_offset c + k \<longrightarrow> cursor_read lru dk k c = None)"
proof -
  let ?f = "view (da_dev (cu_disk c))"
  from access_read_spec [OF assms(1-3,6)] obtain a where
    a: "access_read lru dk (cu_sector c) (cu_disk c) = Some (?f (cu_sector c), a)" "cache_ok n view cv a"
    by blast
  from assms(1,4,6) have len: "length (?f (cu_sector c)) = ss" by (simp add: disk_ok_def)
  have "\<exists>c'. cursor_read lru dk k c = Some (map (disk_byte ss ?f) [pos..<pos + k], c') \<and>
      get_position ss c' = pos + k \<and> cache_ok n view cv (cu_disk c')" if in_sector: "cu_offset c + k \<le> ss"
  proof -
    have k: "min ss k = k" using in_sector by simp
    let ?c = "move_cursor ss k (c\<lparr>cu_disk := a\<rparr>)"
    have "cursor_read lru dk k c = Some (take k (drop (cu_offset c) (?f (cu_sector c))), ?c)"
      using a(1) len k in_sector assms(4,7)
      by (simp add: cursor_read_def cursor_read_loop.simps [of _ _ 0 k] slice_def Let_def)
    moreover have "get_position ss ?c = pos + k" "cu_disk ?c = a"
      using cursor_moved [of ss "c\<lparr>cu_disk := a\<rparr>" k] assms(5,8,9) by simp_all
    ultimately show ?thesis
      using sector_slice [where f = ?f and S = "cu_sector c", OF in_sector _ len] a(2) assms(5,8) by simp
  qed
  moreover have "cursor_read lru dk k c = None" if "0 < cu_offset c \<and> ss < cu_offset c + k"
  proof -
    from that have "slice (?f (cu_sector c)) (cu_offset c) (cu_offset c + min ss k) = None"
      using len by (auto simp: slice_def)
    with a(1) len assms(7) show ?thesis
      by (simp add: cursor_read_def cursor_read_loop.simps [of _ _ 0 k] Let_def)
  qed
  ultimately show ?thesis by blast
qed

lemma cursor_read_one_sector_example:
  "(\<exists>c'. cursor_read lru_list (ram_disk 4 10) 2
      \<lparr>cu_disk = disk_access_new lru_list (\<lambda>s. [word_of_nat s, 7, 8, 9]) 2, cu_sector = 5, cu_offset = 2\<rparr> =
      Some ([8, 9], c') \<and> get_position 4 c' = 24) \<and>
   cursor_read lru_list (ram_disk 4 10) 3
      \<lparr>cu_disk = disk_access_new lru_list (\<lambda>s. [word_of_nat s, 7, 8, 9]) 2, cu_sector = 5, cu_offset = 2\<rparr> = None"
proof -
  let ?c = "\<lparr>cu_disk = disk_access_new lru_list (\<lambda>s. [word_of_nat s, 7, 8, 9 :: u8]) 2, cu_sector = 5, cu_offset = 2\<rparr>"
  note read = cursor_read_one_sector [OF ram_disk_ok [of 4 10] lru_list_ok, of ?c 4 _ 22]
  have "map (disk_byte 4 (\<lambda>s. take 4 ((\<lambda>s. [word_of_nat s, 7, 8, 9]) s @ replicate 4 0))) [22..<22 + 2] = [8, 9]"
    by (simp add: disk_byte_def upt_rec)
  moreover have "cache_ok 10 (\<lambda>d s. take 4 (d s @ replicate 4 0)) (\<lambda>c. map_of (snd c)) (cu_disk ?c)"
    using cache_ok_new [OF lru_list_ok, of 10 _ "\<lambda>s. [word_of_nat s, 7, 8, 9 :: u8]" 2] by simp
  moreover have "dk_sector_size (ram_disk 4 10) = 4" by (simp add: ram_disk_def)
  ultimately show ?thesis using read [of 2] read [of 3] by (auto simp: disk_access_new_def)
qed

text \<open>
  A read of three whole sectors: \<open>move_cursor\<close> advances by all bytes read so far instead of the
  last piece, so the third piece is not that of the third sector.
\<close>

lemma cursor_read_three_sectors_wrong:
  "\<exists>c'. cursor_read lru_list (ram_disk 2 10) 6
      (cursor_new (disk_access_new lru_list (\<lambda>s. [word_of_nat s, word_of_nat s]) 2)) =
    Some ([0, 0, 1, 1, 3, 3], c') \<and> get_position 2 c' = 12"
  by (simp add: cursor_read_def cursor_read_loop.simps access_read_def disk_fetch_def cache_put_def
      cursor_new_def disk_access_new_def lru_list_def ram_disk_def slice_def move_cursor_def
      set_position_def get_position_def Let_def)

text \<open>Writing the last sector of a disk panics: the sector behind it is read.\<close>

lemma cursor_write_last_sector_panics:
  "cursor_write lru_list (ram_disk 2 3) [1, 2]
      \<lparr>cu_disk = disk_access_new lru_list (\<lambda>_. []) 2, cu_sector = 2, cu_offset = 0\<rparr> = None"
  by (simp add: cursor_write_def write_ends_def access_read_def disk_fetch_def cache_put_def
      disk_access_new_def lru_list_def ram_disk_def Let_def)

end
