(* ===== verification/ServiceDaemon.thy ===== *)
theory ServiceDaemon
  imports Abi "HOL-Library.Multiset"
begin

text \<open>
  The service daemon (\<open>daemon_service/src/lib.rs\<close>): it starts the services of the startup file
  when the services they require are registered, and holds back the requests of clients that wait
  for services. Acknowledgements and started processes are appended to \<open>sv_out\<close>. Reading and
  decoding the startup file, spawning a process and the success of an acknowledgement are
  parameters.
\<close>

subsection \<open>State\<close>

record ServiceDefinition =
  sd_name :: string
  sd_description :: "string option"
  sd_requires :: "string set"
  sd_from_initrd :: bool
  sd_executable :: string

record Registration =
  rg_name :: string
  rg_oneshot :: bool

datatype 'c SvOut = SvAck 'c | SvNack 'c | SvStarted string pid

record 'c Services =
  sv_definitions :: "ServiceDefinition list"
  sv_start_queue :: "string list"
  sv_managed :: "pid \<rightharpoonup> string"
  sv_discovery :: "string \<rightharpoonup> bool"
  sv_waiting_for_all :: "(string set \<times> 'c) list"
  sv_waiting_for_any :: "(string set \<times> 'c) list"
  sv_out :: "'c SvOut list"

text \<open>What one call reads from outside: the new process of the \<open>n\<close>-th spawn, and acknowledgements.\<close>

record 'c SvEnv =
  se_spawn :: "nat \<Rightarrow> string \<Rightarrow> pid option"
  se_ack_ok :: "'c \<Rightarrow> bool"

definition services_new :: "ServiceDefinition list \<Rightarrow> 'c Services" where
  "services_new definitions =
     \<lparr>sv_definitions = definitions, sv_start_queue = map sd_name definitions, sv_managed = Map.empty,
      sv_discovery = Map.empty, sv_waiting_for_all = [], sv_waiting_for_any = [], sv_out = []\<rparr>"

subsection \<open>Operations\<close>

definition definition_by_name :: "'c Services \<Rightarrow> string \<Rightarrow> ServiceDefinition option" where
  "definition_by_name s name = find (\<lambda>d. sd_name d = name) (sv_definitions s)"

definition is_registered :: "'c Services \<Rightarrow> string \<Rightarrow> bool" where
  "is_registered s name \<longleftrightarrow> sv_discovery s name \<noteq> None"

definition are_requirements_up :: "'c Services \<Rightarrow> ServiceDefinition \<Rightarrow> bool" where
  "are_requirements_up s d \<longleftrightarrow> (\<forall>r \<in> sd_requires d. is_registered s r)"

definition sv_emit :: "'c SvOut \<Rightarrow> 'c Services \<Rightarrow> 'c Services" where
  "sv_emit e s = s\<lparr>sv_out := sv_out s @ [e]\<rparr>"

definition sv_ack :: "'c SvEnv \<Rightarrow> 'c \<Rightarrow> 'c Services \<Rightarrow> 'c Services option" where
  "sv_ack env c s = do { rassert (se_ack_ok env c); Some (sv_emit (SvAck c) s) }"

definition sv_nack :: "'c SvEnv \<Rightarrow> 'c \<Rightarrow> 'c Services \<Rightarrow> 'c Services option" where
  "sv_nack env c s = do { rassert (se_ack_ok env c); Some (sv_emit (SvNack c) s) }"

text \<open>Starting the service number \<open>n\<close> of this step.\<close>

definition start_service ::
  "'c SvEnv \<Rightarrow> nat \<Rightarrow> ServiceDefinition \<Rightarrow> 'c Services \<Rightarrow> 'c Services option" where
  "start_service env n d s = do {
     rassert (sd_from_initrd d);
     p \<leftarrow> se_spawn env n (sd_executable d);
     Some (sv_emit (SvStarted (sd_name d) p)
       (s\<lparr>sv_managed := (sv_managed s)(p \<mapsto> sd_name d)\<rparr>))
   }"

definition remove_nth :: "nat \<Rightarrow> 'a list \<Rightarrow> 'a list" where
  "remove_nth i xs = take i xs @ drop (Suc i) xs"

text \<open>The indices, from \<open>i\<close> on, of the queued services whose requirements are up.\<close>

fun start_indices :: "'c Services \<Rightarrow> nat \<Rightarrow> string list \<Rightarrow> nat list option" where
  "start_indices s i [] = Some []"
| "start_indices s i (name # names) = do {
     d \<leftarrow> definition_by_name s name;
     is \<leftarrow> start_indices s (Suc i) names;
     Some (if are_requirements_up s d then i # is else is)
   }"

text \<open>The second loop, which takes the indices from the last one on.\<close>

fun start_loop :: "'c SvEnv \<Rightarrow> nat \<Rightarrow> nat list \<Rightarrow> 'c Services \<Rightarrow> 'c Services option" where
  "start_loop env n [] s = Some s"
| "start_loop env n (i # is) s = do {
     name \<leftarrow> index (sv_start_queue s) i;
     let s = s\<lparr>sv_start_queue := remove_nth i (sv_start_queue s)\<rparr>;
     d \<leftarrow> definition_by_name s name;
     s \<leftarrow> start_service env n d s;
     start_loop env (Suc n) is s
   }"

definition sv_step :: "'c SvEnv \<Rightarrow> 'c Services \<Rightarrow> 'c Services option" where
  "sv_step env s = do {
     is \<leftarrow> start_indices s 0 (sv_start_queue s);
     start_loop env 0 (rev is) s
   }"

text \<open>Indices of the waiting requests that are satisfied, and their release.\<close>

fun completed_indices :: "(string set \<Rightarrow> bool) \<Rightarrow> nat \<Rightarrow> (string set \<times> 'c) list \<Rightarrow> nat list" where
  "completed_indices P i [] = []"
| "completed_indices P i ((names, _) # ws) =
     (if P names then i # completed_indices P (Suc i) ws else completed_indices P (Suc i) ws)"

fun release_all :: "'c SvEnv \<Rightarrow> nat list \<Rightarrow> 'c Services \<Rightarrow> 'c Services option" where
  "release_all env [] s = Some s"
| "release_all env (i # is) s = do {
     (_, c) \<leftarrow> index (sv_waiting_for_all s) i;
     s \<leftarrow> sv_ack env c (s\<lparr>sv_waiting_for_all := remove_nth i (sv_waiting_for_all s)\<rparr>);
     release_all env is s
   }"

fun release_any :: "'c SvEnv \<Rightarrow> nat list \<Rightarrow> 'c Services \<Rightarrow> 'c Services option" where
  "release_any env [] s = Some s"
| "release_any env (i # is) s = do {
     (_, c) \<leftarrow> index (sv_waiting_for_any s) i;
     s \<leftarrow> sv_ack env c (s\<lparr>sv_waiting_for_any := remove_nth i (sv_waiting_for_any s)\<rparr>);
     release_any env is s
   }"

definition all_registered :: "'c Services \<Rightarrow> string set \<Rightarrow> bool" where
  "all_registered s names \<longleftrightarrow> (\<forall>n \<in> names. is_registered s n)"

definition any_registered :: "'c Services \<Rightarrow> string set \<Rightarrow> bool" where
  "any_registered s names \<longleftrightarrow> (\<exists>n \<in> names. is_registered s n)"

definition on_register :: "'c SvEnv \<Rightarrow> 'c \<Rightarrow> Registration \<Rightarrow> 'c Services \<Rightarrow> 'c Services option" where
  "on_register env c reg s =
     (if sv_discovery s (rg_name reg) \<noteq> None then sv_nack env c s
      else do {
        s \<leftarrow> sv_ack env c (s\<lparr>sv_discovery := (sv_discovery s)(rg_name reg \<mapsto> rg_oneshot reg)\<rparr>);
        s \<leftarrow> release_all env (rev (completed_indices (all_registered s) 0 (sv_waiting_for_all s))) s;
        release_any env (rev (completed_indices (any_registered s) 0 (sv_waiting_for_any s))) s
      })"

definition on_waitfor_any :: "'c SvEnv \<Rightarrow> 'c \<Rightarrow> string set \<Rightarrow> 'c Services \<Rightarrow> 'c Services option" where
  "on_waitfor_any env c names s =
     (if any_registered s names then sv_ack env c s
      else Some (s\<lparr>sv_waiting_for_any := sv_waiting_for_any s @ [(names, c)]\<rparr>))"

definition on_waitfor_all :: "'c SvEnv \<Rightarrow> 'c \<Rightarrow> string set \<Rightarrow> 'c Services \<Rightarrow> 'c Services option" where
  "on_waitfor_all env c names s =
     (if all_registered s names then sv_ack env c s
      else Some (s\<lparr>sv_waiting_for_all := sv_waiting_for_all s @ [(names, c)]\<rparr>))"

definition on_process_completed :: "pid \<Rightarrow> 'f ProcessResult \<Rightarrow> 'c Services \<Rightarrow> 'c Services" where
  "on_process_completed p result s =
     (case sv_managed s p of
        None \<Rightarrow> s
      | Some name \<Rightarrow>
          let s = s\<lparr>sv_managed := (sv_managed s)(p := None)\<rparr> in
          (case sv_discovery s name of
             None \<Rightarrow> s
           | Some oneshot \<Rightarrow>
               if oneshot \<and> result = Completed 0 then s
               else s\<lparr>sv_discovery := (sv_discovery s)(name := None)\<rparr>))"

datatype ('c, 'f) SvEvent =
    EvTerminated pid "'f ProcessResult"
  | EvRegister 'c Registration
  | EvWaitAny 'c "string set"
  | EvWaitAll 'c "string set"

text \<open>One iteration of the main loop: a step, then the message that \<open>select!\<close> delivers.\<close>

definition sv_iteration ::
  "'c SvEnv \<Rightarrow> ('c, 'f) SvEvent \<Rightarrow> 'c Services \<Rightarrow> 'c Services option" where
  "sv_iteration env ev s = do {
     s \<leftarrow> sv_step env s;
     (case ev of
        EvTerminated p result \<Rightarrow> Some (on_process_completed p result s)
      | EvRegister c reg \<Rightarrow> on_register env c reg s
      | EvWaitAny c names \<Rightarrow> on_waitfor_any env c names s
      | EvWaitAll c names \<Rightarrow> on_waitfor_all env c names s)
   }"

subsection \<open>Releasing waiting requests\<close>

lemma remove_nth_middle [simp]: "remove_nth (length xs) (xs @ x # ys) = xs @ ys"
  by (simp add: remove_nth_def)

lemma index_middle [simp]: "index (xs @ x # ys) (length xs) = Some x"
  by (simp add: index_def)

lemma completed_indices_snoc:
  "completed_indices P i (ws @ [(names, c)]) =
     completed_indices P i ws @ (if P names then [i + length ws] else [])"
  by (induction ws arbitrary: i) auto

lemma release_all_spec:
  assumes "sv_waiting_for_all s = ws @ tail"
  shows "release_all env (rev (completed_indices P 0 ws)) s =
    (if \<forall>(names, c) \<in> set ws. P names \<longrightarrow> se_ack_ok env c
     then Some (s\<lparr>sv_waiting_for_all := filter (\<lambda>(names, _). \<not> P names) ws @ tail,
       sv_out := sv_out s @ rev (map (\<lambda>(_, c). SvAck c) (filter (\<lambda>(names, _). P names) ws))\<rparr>)
     else None)"
  using assms
proof (induction ws arbitrary: s tail rule: rev_induct)
  case Nil
  then show ?case by simp
next
  case (snoc w ws)
  obtain names c where w: "w = (names, c)" by fastforce
  show ?case
  proof (cases "P names")
    case True
    with snoc.IH [of "sv_emit (SvAck c) (s\<lparr>sv_waiting_for_all := ws @ tail\<rparr>)" tail] snoc.prems w show ?thesis
      by (simp add: completed_indices_snoc sv_ack_def sv_emit_def)
  next
    case False
    with snoc.IH [of s "w # tail"] snoc.prems w show ?thesis by (simp add: completed_indices_snoc)
  qed
qed

lemma release_any_spec:
  assumes "sv_waiting_for_any s = ws @ tail"
  shows "release_any env (rev (completed_indices P 0 ws)) s =
    (if \<forall>(names, c) \<in> set ws. P names \<longrightarrow> se_ack_ok env c
     then Some (s\<lparr>sv_waiting_for_any := filter (\<lambda>(names, _). \<not> P names) ws @ tail,
       sv_out := sv_out s @ rev (map (\<lambda>(_, c). SvAck c) (filter (\<lambda>(names, _). P names) ws))\<rparr>)
     else None)"
  using assms
proof (induction ws arbitrary: s tail rule: rev_induct)
  case Nil
  then show ?case by simp
next
  case (snoc w ws)
  obtain names c where w: "w = (names, c)" by fastforce
  show ?case
  proof (cases "P names")
    case True
    with snoc.IH [of "sv_emit (SvAck c) (s\<lparr>sv_waiting_for_any := ws @ tail\<rparr>)" tail] snoc.prems w show ?thesis
      by (simp add: completed_indices_snoc sv_ack_def sv_emit_def)
  next
    case False
    with snoc.IH [of s "w # tail"] snoc.prems w show ?thesis by (simp add: completed_indices_snoc)
  qed
qed

subsection \<open>Starting services\<close>

definition sv_ready :: "'c Services \<Rightarrow> string \<Rightarrow> bool" where
  "sv_ready s name \<longleftrightarrow>
     (case definition_by_name s name of None \<Rightarrow> False | Some d \<Rightarrow> are_requirements_up s d)"

fun out_started :: "'c SvOut \<Rightarrow> string list" where
  "out_started (SvStarted name _) = [name]"
| "out_started _ = []"

definition started :: "'c Services \<Rightarrow> string list" where
  "started s = concat (map out_started (sv_out s))"

fun out_answered :: "'c SvOut \<Rightarrow> 'c list" where
  "out_answered (SvAck c) = [c]"
| "out_answered (SvNack c) = [c]"
| "out_answered _ = []"

definition sv_answered :: "'c Services \<Rightarrow> 'c list" where
  "sv_answered s = concat (map out_answered (sv_out s))"

lemma started_emit [simp]:
  "started (sv_emit e s) = started s @ out_started e"
  "sv_answered (sv_emit e s) = sv_answered s @ out_answered e"
  by (simp_all add: started_def sv_answered_def sv_emit_def)

text \<open>The part of the state that starting services leaves alone.\<close>

definition same_rest :: "'c Services \<Rightarrow> 'c Services \<Rightarrow> bool" where
  "same_rest s s' \<longleftrightarrow>
     sv_definitions s' = sv_definitions s \<and> sv_discovery s' = sv_discovery s \<and>
     sv_waiting_for_all s' = sv_waiting_for_all s \<and> sv_waiting_for_any s' = sv_waiting_for_any s \<and>
     sv_answered s' = sv_answered s"

lemma same_rest_refl [simp]: "same_rest s s"
  by (simp add: same_rest_def)

lemma same_rest_trans: "same_rest s s1 \<Longrightarrow> same_rest s1 s2 \<Longrightarrow> same_rest s s2"
  by (simp add: same_rest_def)

lemma same_rest_ready:
  "same_rest s s' \<Longrightarrow> sv_ready s' = sv_ready s \<and> definition_by_name s' = definition_by_name s"
  by (simp add: same_rest_def sv_ready_def definition_by_name_def are_requirements_up_def
      is_registered_def fun_eq_iff cong: option.case_cong)

lemma definition_name: "definition_by_name s name = Some d \<Longrightarrow> sd_name d = name"
  by (auto simp: definition_by_name_def find_Some_iff)

lemma start_indices_snoc:
  assumes "start_indices s i (names @ [name]) = Some is"
  shows "\<exists>d is0. definition_by_name s name = Some d \<and> start_indices s i names = Some is0 \<and>
    is = is0 @ (if sv_ready s name then [i + length names] else [])"
  using assms
proof (induction names arbitrary: i "is")
  case Nil
  then show ?case by (auto simp: sv_ready_def split: bind_splits if_splits)
next
  case (Cons n names)
  from Cons.prems obtain d1 is1 where d1: "definition_by_name s n = Some d1"
    and is1: "start_indices s (Suc i) (names @ [name]) = Some is1"
    and "is": "is = (if are_requirements_up s d1 then i # is1 else is1)"
    by (auto split: bind_splits)
  from Cons.IH [OF is1] d1 "is" show ?case by auto
qed

lemma start_service_spec:
  assumes "start_service env n d s = Some s'"
  shows "same_rest s s' \<and> started s' = started s @ [sd_name d] \<and> sv_start_queue s' = sv_start_queue s"
  using assms
  by (auto simp: start_service_def same_rest_def started_def sv_answered_def sv_emit_def
      split: bind_splits if_splits)

lemma start_loop_spec:
  assumes "start_loop env n (rev is) s = Some s'" and "start_indices s 0 names = Some is"
    and "sv_start_queue s = names @ tail"
  shows "same_rest s s' \<and> sv_start_queue s' = filter (\<lambda>x. \<not> sv_ready s x) names @ tail \<and>
    started s' = started s @ rev (filter (sv_ready s) names)"
  using assms
proof (induction names arbitrary: n s "is" tail rule: rev_induct)
  case Nil
  then show ?case by simp
next
  case (snoc name names)
  from start_indices_snoc [OF snoc.prems(2)] obtain d is0 where
    d: "definition_by_name s name = Some d" and is0: "start_indices s 0 names = Some is0"
    and "is": "is = is0 @ (if sv_ready s name then [length names] else [])"
    by auto
  show ?case
  proof (cases "sv_ready s name")
    case True
    let ?s = "s\<lparr>sv_start_queue := names @ tail\<rparr>"
    have same: "same_rest s ?s" and st: "started ?s = started s"
      by (simp_all add: same_rest_def started_def sv_answered_def)
    from snoc.prems(1,3) "is" True d obtain s1 where
      s1: "start_service env n d ?s = Some s1" and rest: "start_loop env (Suc n) (rev is0) s1 = Some s'"
      using same_rest_ready [OF same] by (auto split: bind_splits)
    note one = start_service_spec [OF s1]
    then have same1: "same_rest s s1" using same same_rest_trans by blast
    have indices: "start_indices s1 0 names = Some is0"
    proof -
      have "start_indices s1 i ns = start_indices s i ns" for i ns
        using same1 same_rest_ready [OF same1]
        by (induction ns arbitrary: i)
          (auto simp: same_rest_def are_requirements_up_def is_registered_def)
      with is0 show ?thesis by simp
    qed
    have "sv_start_queue s1 = names @ tail" using one by simp
    from snoc.IH [OF rest indices this] one same1 st True definition_name [OF d] same_rest_ready [OF same1]
    show ?thesis by (auto intro: same_rest_trans)
  next
    case False
    with snoc.IH [of n is0 s "name # tail"] snoc.prems "is" is0 show ?thesis by simp
  qed
qed

lemma sv_step_spec:
  assumes "sv_step env s = Some s'"
  shows "same_rest s s' \<and> sv_start_queue s' = filter (\<lambda>x. \<not> sv_ready s x) (sv_start_queue s) \<and>
    started s' = started s @ rev (filter (sv_ready s) (sv_start_queue s))"
proof -
  from assms obtain "is" where "start_indices s 0 (sv_start_queue s) = Some is"
    and "start_loop env 0 (rev is) s = Some s'"
    by (auto simp: sv_step_def split: bind_splits)
  from start_loop_spec [OF this(2,1), of "[]"] show ?thesis by simp
qed

subsection \<open>Runs of the daemon\<close>

fun event_ctx :: "('c, 'f) SvEvent \<Rightarrow> 'c list" where
  "event_ctx (EvTerminated _ _) = []"
| "event_ctx (EvRegister c _) = [c]"
| "event_ctx (EvWaitAny c _) = [c]"
| "event_ctx (EvWaitAll c _) = [c]"

inductive sv_run ::
  "ServiceDefinition list \<Rightarrow> ('c, 'f) SvEvent list \<Rightarrow> 'c Services \<Rightarrow> bool" for defs where
  run_start: "sv_run defs [] (services_new defs)"
| run_iteration: "sv_run defs evs s \<Longrightarrow> sv_iteration env ev s = Some s' \<Longrightarrow>
    sv_run defs (evs @ [ev]) s'"

definition event_ctxs :: "('c, 'f) SvEvent list \<Rightarrow> 'c list" where
  "event_ctxs evs = concat (map event_ctx evs)"

definition sv_waiting :: "'c Services \<Rightarrow> 'c multiset" where
  "sv_waiting s = mset (map snd (sv_waiting_for_all s)) + mset (map snd (sv_waiting_for_any s))"

text \<open>No waiting request is satisfied already.\<close>

definition none_satisfied :: "'c Services \<Rightarrow> bool" where
  "none_satisfied s \<longleftrightarrow>
     (\<forall>(names, _) \<in> set (sv_waiting_for_all s). \<not> all_registered s names) \<and>
     (\<forall>(names, _) \<in> set (sv_waiting_for_any s). \<not> any_registered s names)"

definition sv_inv :: "ServiceDefinition list \<Rightarrow> 'c list \<Rightarrow> 'c Services \<Rightarrow> bool" where
  "sv_inv defs cs s \<longleftrightarrow>
     mset cs = mset (sv_answered s) + sv_waiting s \<and> none_satisfied s \<and>
     mset (map sd_name defs) = mset (sv_start_queue s) + mset (started s)"

lemma sv_inv_new: "sv_inv defs [] (services_new defs)"
  by (simp add: sv_inv_def services_new_def sv_answered_def started_def sv_waiting_def none_satisfied_def)

lemma same_rest_inv:
  assumes "same_rest s s'" and "sv_inv defs cs s"
    and "mset (sv_start_queue s') + mset (started s') = mset (sv_start_queue s) + mset (started s)"
  shows "sv_inv defs cs s'"
  using assms
  by (simp add: sv_inv_def same_rest_def sv_waiting_def none_satisfied_def all_registered_def
      any_registered_def is_registered_def)

lemma sv_step_inv:
  assumes "sv_step env s = Some s'" and "sv_inv defs cs s"
  shows "sv_inv defs cs s'"
proof -
  have "mset (filter (\<lambda>x. \<not> sv_ready s x) xs) + mset (filter (sv_ready s) xs) = mset xs" for xs
    by (induction xs) auto
  with sv_step_spec [OF assms(1)] have "mset (sv_start_queue s') + mset (started s') =
      mset (sv_start_queue s) + mset (started s)"
    by (simp flip: mset_filter)
  with sv_step_spec [OF assms(1)] assms(2) show ?thesis by (blast intro: same_rest_inv)
qed

lemma acks_out [simp]:
  "concat (map out_started (rev (map (\<lambda>(_, c). SvAck c) ws))) = []"
  "concat (map out_answered (rev (map (\<lambda>(_, c). SvAck c) ws))) = rev (map snd ws)"
  by (induction ws) auto

lemma answer_inv:
  assumes "sv_inv defs cs s" and "out_answered e = [c]" and "out_started e = []"
  shows "sv_inv defs (cs @ [c]) (sv_emit e s)"
proof -
  have "none_satisfied (sv_emit e s) = none_satisfied s" "sv_waiting (sv_emit e s) = sv_waiting s"
    "sv_start_queue (sv_emit e s) = sv_start_queue s"
    by (simp_all add: none_satisfied_def sv_waiting_def sv_emit_def all_registered_def
        any_registered_def is_registered_def)
  with assms show ?thesis by (simp add: sv_inv_def)
qed

lemma partition_ctxs:
  "mset (map snd (filter (\<lambda>(names, _). P names) ws)) + mset (map snd (filter (\<lambda>(names, _). \<not> P names) ws)) =
     mset (map snd ws)"
  by (induction ws) auto

lemma on_register_inv:
  assumes "on_register env c reg s = Some s'" and "sv_inv defs cs s"
  shows "sv_inv defs (cs @ [c]) s'"
proof (cases "sv_discovery s (rg_name reg) = None")
  case False
  with assms show ?thesis by (auto simp: on_register_def sv_nack_def answer_inv split: if_splits)
next
  case True
  let ?s = "sv_emit (SvAck c) (s\<lparr>sv_discovery := (sv_discovery s)(rg_name reg \<mapsto> rg_oneshot reg)\<rparr>)"
  let ?all = "all_registered ?s" and ?any = "any_registered ?s"
  let ?ws = "sv_waiting_for_all s" and ?vs = "sv_waiting_for_any s"
  let ?s1 = "?s\<lparr>sv_waiting_for_all := filter (\<lambda>(names, _). \<not> ?all names) ?ws,
    sv_out := sv_out ?s @ rev (map (\<lambda>(_, c). SvAck c) (filter (\<lambda>(names, _). ?all names) ?ws))\<rparr>"
  have any1: "any_registered ?s1 = ?any" by (simp add: any_registered_def is_registered_def fun_eq_iff)
  from assms(1) True obtain s1 where
    "release_all env (rev (completed_indices ?all 0 ?ws)) ?s = Some s1"
    and any: "release_any env (rev (completed_indices (any_registered s1) 0 (sv_waiting_for_any s1))) s1 = Some s'"
    by (auto simp: on_register_def sv_ack_def sv_emit_def split: bind_splits if_splits)
  then have s1: "s1 = ?s1"
    using release_all_spec [of ?s ?ws "[]" env ?all] by (auto simp: sv_emit_def split: if_splits)
  have "s' = s1\<lparr>sv_waiting_for_any := filter (\<lambda>(names, _). \<not> ?any names) ?vs,
      sv_out := sv_out s1 @ rev (map (\<lambda>(_, c). SvAck c) (filter (\<lambda>(names, _). ?any names) ?vs))\<rparr>"
    using any release_any_spec [of s1 ?vs "[]" env ?any] any1
    by (auto simp: s1 sv_emit_def split: if_splits)
  note s' = this [unfolded s1]
  have "mset (sv_answered s') + sv_waiting s' = add_mset c (mset (sv_answered s) + sv_waiting s)"
    using partition_ctxs [of ?all ?ws, symmetric] partition_ctxs [of ?any ?vs, symmetric]
    by (simp add: s' sv_answered_def sv_waiting_def sv_emit_def ac_simps)
  moreover have "started s' = started s" by (simp add: s' started_def sv_emit_def)
  moreover have "none_satisfied s'"
    by (auto simp: s' none_satisfied_def all_registered_def any_registered_def is_registered_def sv_emit_def)
  ultimately show ?thesis using assms(2) by (simp add: sv_inv_def s' sv_emit_def)
qed

lemma on_waitfor_inv:
  assumes "sv_inv defs cs s"
  shows "on_waitfor_any env c names s = Some s' \<Longrightarrow> sv_inv defs (cs @ [c]) s'"
    and "on_waitfor_all env c names s = Some s' \<Longrightarrow> sv_inv defs (cs @ [c]) s'"
proof -
  have waits: "sv_inv defs (cs @ [c]) (s\<lparr>sv_waiting_for_any := sv_waiting_for_any s @ [(names, c)]\<rparr>)"
    if "\<not> any_registered s names"
    using assms that
    by (auto simp: sv_inv_def sv_waiting_def none_satisfied_def sv_answered_def started_def
        all_registered_def any_registered_def is_registered_def)
  have waits_all: "sv_inv defs (cs @ [c]) (s\<lparr>sv_waiting_for_all := sv_waiting_for_all s @ [(names, c)]\<rparr>)"
    if "\<not> all_registered s names"
    using assms that
    by (auto simp: sv_inv_def sv_waiting_def none_satisfied_def sv_answered_def started_def
        all_registered_def any_registered_def is_registered_def)
  show "on_waitfor_any env c names s = Some s' \<Longrightarrow> sv_inv defs (cs @ [c]) s'"
    using waits assms by (auto simp: on_waitfor_any_def sv_ack_def answer_inv split: if_splits)
  show "on_waitfor_all env c names s = Some s' \<Longrightarrow> sv_inv defs (cs @ [c]) s'"
    using waits_all assms by (auto simp: on_waitfor_all_def sv_ack_def answer_inv split: if_splits)
qed

lemma fewer_registered_inv:
  assumes "sv_inv defs cs s" and less: "\<forall>n. disc n \<noteq> None \<longrightarrow> sv_discovery s n \<noteq> None"
  shows "sv_inv defs cs (s\<lparr>sv_managed := mng, sv_discovery := disc\<rparr>)"
proof -
  let ?s = "s\<lparr>sv_managed := mng, sv_discovery := disc\<rparr>"
  have all: "all_registered s names" if "all_registered ?s names" for names
    using that less by (simp add: all_registered_def is_registered_def)
  have any: "any_registered s names" if registered: "any_registered ?s names" for names
  proof -
    from registered obtain n where "n \<in> names" "disc n \<noteq> None"
      by (auto simp: any_registered_def is_registered_def)
    with less show ?thesis by (auto simp: any_registered_def is_registered_def intro!: bexI [of _ n])
  qed
  from all any have "\<not> all_registered s names \<Longrightarrow> \<not> all_registered ?s names"
    "\<not> any_registered s names \<Longrightarrow> \<not> any_registered ?s names" for names by blast+
  with assms(1) have "none_satisfied ?s" by (fastforce simp: sv_inv_def none_satisfied_def)
  with assms(1) show ?thesis by (simp add: sv_inv_def sv_waiting_def sv_answered_def started_def)
qed

lemma on_process_completed_inv:
  assumes "sv_inv defs cs s"
  shows "sv_inv defs cs (on_process_completed p result s)"
proof (cases "sv_managed s p")
  case None
  with assms show ?thesis by (simp add: on_process_completed_def)
next
  case (Some name)
  have "sv_inv defs cs (s\<lparr>sv_managed := (sv_managed s)(p := None)\<rparr>)"
    using fewer_registered_inv [OF assms, of "sv_discovery s" "(sv_managed s)(p := None)"] by simp
  moreover have "sv_inv defs cs (s\<lparr>sv_managed := (sv_managed s)(p := None),
      sv_discovery := (sv_discovery s)(name := None)\<rparr>)"
    by (rule fewer_registered_inv [OF assms]) simp
  ultimately show ?thesis
    using Some by (cases "sv_discovery s name") (simp_all add: on_process_completed_def Let_def)
qed

lemma sv_iteration_inv:
  assumes "sv_iteration env ev s = Some s'" and "sv_inv defs cs s"
  shows "sv_inv defs (cs @ event_ctx ev) s'"
proof -
  from assms(1) obtain s1 where step: "sv_step env s = Some s1"
    by (auto simp: sv_iteration_def split: bind_splits)
  note inv = sv_step_inv [OF step assms(2)]
  show ?thesis
  proof (cases ev)
    case (EvTerminated p result)
    then have "s' = on_process_completed p result s1"
      using assms(1) step by (simp add: sv_iteration_def)
    with EvTerminated on_process_completed_inv [OF inv] show ?thesis by simp
  next
    case (EvRegister c reg)
    with assms(1) step on_register_inv [OF _ inv] show ?thesis by (simp add: sv_iteration_def)
  next
    case (EvWaitAny c names)
    with assms(1) step on_waitfor_inv(1) [OF inv] show ?thesis by (simp add: sv_iteration_def)
  next
    case (EvWaitAll c names)
    with assms(1) step on_waitfor_inv(2) [OF inv] show ?thesis by (simp add: sv_iteration_def)
  qed
qed

text \<open>C22: In every run of the service daemon each request it received is answered exactly once or still
  waiting, no request is waiting although its services are registered, and every service of the
  startup file has been started once or is still queued.\<close>

theorem service_requests_served:
  assumes "sv_run defs evs s"
  shows "mset (event_ctxs evs) = mset (sv_answered s) + sv_waiting s \<and>
    (\<forall>(names, _) \<in> set (sv_waiting_for_all s). \<not> all_registered s names) \<and>
    (\<forall>(names, _) \<in> set (sv_waiting_for_any s). \<not> any_registered s names) \<and>
    mset (map sd_name defs) = mset (sv_start_queue s) + mset (started s)"
proof -
  from assms have "sv_inv defs (event_ctxs evs) s"
    by induction (auto simp: event_ctxs_def intro: sv_inv_new sv_iteration_inv)
  then show ?thesis by (simp add: sv_inv_def none_satisfied_def)
qed

text \<open>A step starts exactly the queued services whose requirements are registered.\<close>

lemma sv_step_starts_ready:
  assumes "sv_step env s = Some s'"
  shows "started s' = started s @ rev (filter (sv_ready s) (sv_start_queue s))"
    and "\<forall>name \<in> set (sv_start_queue s'). \<not> sv_ready s' name"
  using sv_step_spec [OF assms] same_rest_ready [of s s'] by auto

definition demo_defs :: "ServiceDefinition list" where
  "demo_defs =
     [\<lparr>sd_name = ''a'', sd_description = None, sd_requires = {''b''}, sd_from_initrd = True,
       sd_executable = ''mod_a''\<rparr>,
      \<lparr>sd_name = ''b'', sd_description = None, sd_requires = {}, sd_from_initrd = True,
       sd_executable = ''mod_b''\<rparr>]"

definition demo_sv_env :: "nat SvEnv" where
  "demo_sv_env = \<lparr>se_spawn = (\<lambda>n _. Some (n + 10)), se_ack_ok = (\<lambda>_. True)\<rparr>"

theorem service_requests_served_witness:
  "\<exists>s. sv_run demo_defs [EvWaitAny 1 {''a'', ''b''}, EvRegister 2 \<lparr>rg_name = ''b'', rg_oneshot = False\<rparr> ::
       (nat, unit) SvEvent] s \<and>
     {#1, 2#} = mset (sv_answered s) + sv_waiting s \<and> started s = [''b'']"
proof -
  let ?ev1 = "EvWaitAny 1 {''a'', ''b''} :: (nat, unit) SvEvent"
  let ?ev2 = "EvRegister 2 \<lparr>rg_name = ''b'', rg_oneshot = False\<rparr> :: (nat, unit) SvEvent"
  have "\<exists>s1 s2. sv_iteration demo_sv_env ?ev1 (services_new demo_defs) = Some s1 \<and>
      sv_iteration demo_sv_env ?ev2 s1 = Some s2 \<and> started s2 = [''b'']"
    by (simp add: sv_iteration_def sv_step_def services_new_def demo_defs_def demo_sv_env_def
        definition_by_name_def are_requirements_up_def is_registered_def start_service_def
        remove_nth_def index_def sv_emit_def on_waitfor_any_def any_registered_def on_register_def
        sv_ack_def all_registered_def started_def Let_def)
  then obtain s1 s2 where it: "sv_iteration demo_sv_env ?ev1 (services_new demo_defs) = Some s1"
    "sv_iteration demo_sv_env ?ev2 s1 = Some s2" and st: "started s2 = [''b'']" by blast
  have run: "sv_run demo_defs [?ev1, ?ev2] s2"
    using run_iteration [OF run_iteration [OF run_start it(1)] it(2)] by simp
  from service_requests_served [OF run] run st show ?thesis by (auto simp: event_ctxs_def)
qed

end
