(* ===== verification/PortIO.thy ===== *)
theory PortIO
  imports Prelude
begin

text \<open>
  Port input and output (\<open>cpuio::UnsafePort\<close>). The state of a driver's conversation with its
  device is the list of port operations so far. A device is a function that gives the value of
  the next input, for each width, from that history: this covers every deterministic device.
  Output is an operation without a result. A driver that sleeps between operations leaves that
  in the history too.
\<close>

datatype PortOp =
  In8 u16 u8 | In16 u16 u16 | In32 u16 u32 | Out8 u16 u8 | Out16 u16 u16 | Out32 u16 u32
| SleepNs u64

type_synonym io_log = "PortOp list"

record Dev =
  dv8 :: "io_log \<Rightarrow> u16 \<Rightarrow> u8"
  dv16 :: "io_log \<Rightarrow> u16 \<Rightarrow> u16"
  dv32 :: "io_log \<Rightarrow> u16 \<Rightarrow> u32"

definition in8 :: "Dev \<Rightarrow> u16 \<Rightarrow> io_log \<Rightarrow> u8 \<times> io_log" where
  "in8 dv p l = (let v = dv8 dv l p in (v, l @ [In8 p v]))"

definition in16 :: "Dev \<Rightarrow> u16 \<Rightarrow> io_log \<Rightarrow> u16 \<times> io_log" where
  "in16 dv p l = (let v = dv16 dv l p in (v, l @ [In16 p v]))"

definition in32 :: "Dev \<Rightarrow> u16 \<Rightarrow> io_log \<Rightarrow> u32 \<times> io_log" where
  "in32 dv p l = (let v = dv32 dv l p in (v, l @ [In32 p v]))"

definition out8 :: "u16 \<Rightarrow> u8 \<Rightarrow> io_log \<Rightarrow> io_log" where
  "out8 p v l = l @ [Out8 p v]"

definition out16 :: "u16 \<Rightarrow> u16 \<Rightarrow> io_log \<Rightarrow> io_log" where
  "out16 p v l = l @ [Out16 p v]"

definition out32 :: "u16 \<Rightarrow> u32 \<Rightarrow> io_log \<Rightarrow> io_log" where
  "out32 p v l = l @ [Out32 p v]"

definition sleep_ns :: "u64 \<Rightarrow> io_log \<Rightarrow> io_log" where
  "sleep_ns n l = l @ [SleepNs n]"

lemmas port_defs = in8_def in16_def in32_def out8_def out16_def out32_def sleep_ns_def

text \<open>The outputs of a conversation.\<close>

fun is_output :: "PortOp \<Rightarrow> bool" where
  "is_output (Out8 _ _) = True"
| "is_output (Out16 _ _) = True"
| "is_output (Out32 _ _) = True"
| "is_output _ = False"

definition outputs :: "io_log \<Rightarrow> PortOp list" where
  "outputs l = filter is_output l"

lemma outputs_simps [simp]:
  "outputs [] = []" "outputs (l @ l') = outputs l @ outputs l'"
  "outputs (In8 p v8 # l) = outputs l" "outputs (In16 p v16 # l) = outputs l"
  "outputs (In32 p v32 # l) = outputs l" "outputs (SleepNs n # l) = outputs l"
  "outputs (Out8 p v8 # l) = Out8 p v8 # outputs l"
  "outputs (Out16 p v16 # l) = Out16 p v16 # outputs l"
  "outputs (Out32 p v32 # l) = Out32 p v32 # outputs l"
  by (simp_all add: outputs_def)

text \<open>Writing several values to the same port.\<close>

lemma fold_out16: "fold (\<lambda>v l. out16 p v l) vs l = l @ map (Out16 p) vs"
  by (induction vs arbitrary: l) (simp_all add: out16_def)

lemma fold_out8: "fold (\<lambda>v l. out8 p v l) vs l = l @ map (Out8 p) vs"
  by (induction vs arbitrary: l) (simp_all add: out8_def)

text \<open>Reading the same port several times.\<close>

fun in8s :: "Dev \<Rightarrow> u16 \<Rightarrow> nat \<Rightarrow> io_log \<Rightarrow> u8 list \<times> io_log" where
  "in8s dv p 0 l = ([], l)"
| "in8s dv p (Suc n) l = (let (v, l) = in8 dv p l; (vs, l) = in8s dv p n l in (v # vs, l))"

fun in16s :: "Dev \<Rightarrow> u16 \<Rightarrow> nat \<Rightarrow> io_log \<Rightarrow> u16 list \<times> io_log" where
  "in16s dv p 0 l = ([], l)"
| "in16s dv p (Suc n) l = (let (v, l) = in16 dv p l; (vs, l) = in16s dv p n l in (v # vs, l))"

lemma in16s_log:
  "in16s dv p n l = (vs, l') \<Longrightarrow> length vs = n \<and> l' = l @ map (In16 p) vs"
proof (induction n arbitrary: l vs)
  case 0
  then show ?case by simp
next
  case (Suc n)
  then obtain ws where "in16s dv p n (l @ [In16 p (dv16 dv l p)]) = (ws, l')"
    and vs: "vs = dv16 dv l p # ws"
    by (auto simp: in16_def Let_def split: prod.splits)
  from Suc.IH [OF this(1)] vs show ?case by simp
qed

lemma in8s_log:
  "in8s dv p n l = (vs, l') \<Longrightarrow> length vs = n \<and> l' = l @ map (In8 p) vs"
proof (induction n arbitrary: l vs)
  case 0
  then show ?case by simp
next
  case (Suc n)
  then obtain ws where "in8s dv p n (l @ [In8 p (dv8 dv l p)]) = (ws, l')"
    and vs: "vs = dv8 dv l p # ws"
    by (auto simp: in8_def Let_def split: prod.splits)
  from Suc.IH [OF this(1)] vs show ?case by simp
qed

subsection \<open>Writing into a memory\<close>

definition overwrite :: "nat \<Rightarrow> 'a list \<Rightarrow> (nat \<Rightarrow> 'a) \<Rightarrow> nat \<Rightarrow> 'a" where
  "overwrite a xs f = (\<lambda>q. if a \<le> q \<and> q < a + length xs then xs ! (q - a) else f q)"

lemma overwrite_Nil [simp]: "overwrite a [] f = f"
  by (auto simp: overwrite_def fun_eq_iff)

lemma overwrite_Cons: "overwrite a (x # xs) f = overwrite (Suc a) xs (f(a := x))"
  by (auto simp: overwrite_def fun_eq_iff nth_Cons' Suc_diff_le)

lemma overwrite_append: "overwrite (a + length xs) ys (overwrite a xs f) = overwrite a (xs @ ys) f"
  by (auto simp: overwrite_def fun_eq_iff nth_append)

lemma map_overwrite: "map (overwrite a xs f) [a..<a + length xs] = xs"
  by (rule nth_equalityI) (simp_all add: overwrite_def)

end
