(* ===== verification/Rtc.thy ===== *)
theory Rtc
  imports PortIO
begin

text \<open>
  The driver of the CMOS real-time clock (\<open>driver_rtc/src/lib.rs\<close>). Whether a date exists is
  decided by the crate \<open>chrono\<close> and is a parameter \<open>ymd_ok\<close>. The loop of
  \<open>get_current_time\<close> has fuel: the number of its iterations.
\<close>

unbundle bit_operations_syntax

subsection \<open>Registers and formats\<close>

definition NMI_DISABLE_BIT :: u8 where "NMI_DISABLE_BIT = 0x80"

definition PORT_REGSEL :: u16 where "PORT_REGSEL = 0x70"
definition PORT_VALUE :: u16 where "PORT_VALUE = 0x71"

definition read_register :: "Dev \<Rightarrow> u8 \<Rightarrow> io_log \<Rightarrow> (u8 \<times> io_log) option" where
  "read_register dv register_number l = do {
     rassert (register_number < 0xff AND NOT NMI_DISABLE_BIT);
     Some (in8 dv PORT_VALUE (out8 PORT_REGSEL (NMI_DISABLE_BIT OR register_number) l))
   }"

datatype RtcMode = BinaryMode | BcdMode

fun to_bin :: "RtcMode \<Rightarrow> u8 \<Rightarrow> u8" where
  "to_bin BinaryMode v = v"
| "to_bin BcdMode v = drop_bit 1 (v AND 0xf0) + drop_bit 3 (v AND 0xf0) + (v AND 0xf)"

datatype HoursMode = Hours12 | Hours24

fun to_24h :: "HoursMode \<Rightarrow> u8 \<Rightarrow> u8 option" where
  "to_24h Hours24 v = Some v"
| "to_24h Hours12 v = do {
     let pm = (v AND 0x80 \<noteq> 0);
     let m = v AND NOT 0x80;
     rassert (m \<noteq> 0);
     rassert (m \<le> 12);
     Some (if pm then (if m = 12 then 12 else m + 12) else (if m = 12 then 0 else m))
   }"

definition read_config :: "Dev \<Rightarrow> io_log \<Rightarrow> ((RtcMode \<times> HoursMode) \<times> io_log) option" where
  "read_config dv l = do {
     (b, l) \<leftarrow> read_register dv 0x0b l;
     Some ((if b AND 4 \<noteq> 0 then BinaryMode else BcdMode, if b AND 2 \<noteq> 0 then Hours24 else Hours12), l)
   }"

definition is_update_in_progress :: "Dev \<Rightarrow> io_log \<Rightarrow> (bool \<times> io_log) option" where
  "is_update_in_progress dv l = do {
     (a, l) \<leftarrow> read_register dv 0x0a l;
     Some (a AND 0x80 \<noteq> 0, l)
   }"

record Snapshot =
  sn_seconds :: u8
  sn_minutes :: u8
  sn_hours :: u8
  sn_day :: u8
  sn_month :: u8
  sn_year_last_digits :: u8
  sn_maybe_century :: u8

definition snapshot_read ::
  "Dev \<Rightarrow> RtcMode \<times> HoursMode \<Rightarrow> io_log \<Rightarrow> (Snapshot \<times> io_log) option" where
  "snapshot_read dv config l = (case config of (mode, hoursf) \<Rightarrow> do {
     (seconds, l) \<leftarrow> read_register dv 0x00 l;
     (minutes, l) \<leftarrow> read_register dv 0x02 l;
     (hours, l) \<leftarrow> read_register dv 0x04 l;
     hours \<leftarrow> to_24h hoursf (to_bin mode hours);
     (day, l) \<leftarrow> read_register dv 0x07 l;
     (month, l) \<leftarrow> read_register dv 0x08 l;
     (year, l) \<leftarrow> read_register dv 0x09 l;
     (century, l) \<leftarrow> read_register dv 0x32 l;
     Some (\<lparr>sn_seconds = to_bin mode seconds, sn_minutes = to_bin mode minutes, sn_hours = hours,
            sn_day = to_bin mode day, sn_month = to_bin mode month,
            sn_year_last_digits = to_bin mode year, sn_maybe_century = to_bin mode century\<rparr>, l)
   })"

subsection \<open>Reading the time\<close>

fun snapshot_loop ::
  "Dev \<Rightarrow> RtcMode \<times> HoursMode \<Rightarrow> nat \<Rightarrow> io_log \<Rightarrow> (Snapshot \<times> io_log) option" where
  "snapshot_loop dv config 0 l = None"
| "snapshot_loop dv config (Suc fuel) l = do {
     (busy, l) \<leftarrow> is_update_in_progress dv l;
     (if busy then snapshot_loop dv config fuel l
      else do {
        (a, l) \<leftarrow> snapshot_read dv config l;
        (busy, l) \<leftarrow> is_update_in_progress dv l;
        (if busy then snapshot_loop dv config fuel l
         else do {
           (b, l) \<leftarrow> snapshot_read dv config l;
           (if a = b then Some (a, l) else snapshot_loop dv config fuel l)
         })
      })
   }"

record NaiveDateTime =
  dt_year :: int
  dt_month :: nat
  dt_day :: nat
  dt_hour :: nat
  dt_minute :: nat
  dt_second :: nat

definition snapshot_time :: "(int \<Rightarrow> nat \<Rightarrow> nat \<Rightarrow> bool) \<Rightarrow> Snapshot \<Rightarrow> NaiveDateTime option" where
  "snapshot_time ymd_ok t = do {
     rassert (sn_seconds t < 60);
     rassert (sn_minutes t < 60);
     rassert (sn_hours t < 24);
     rassert (sn_day t \<noteq> 0 \<and> sn_day t \<le> 31);
     rassert (sn_month t \<noteq> 0 \<and> sn_month t \<le> 12);
     year \<leftarrow> (if sn_maybe_century t = 0 then Some (2000 + ucast (sn_year_last_digits t) :: u16)
       else do {
         rassert (20 \<le> sn_maybe_century t);
         Some (100 * ucast (sn_maybe_century t) + ucast (sn_year_last_digits t))
       });
     rassert (ymd_ok (uint year) (unat (sn_month t)) (unat (sn_day t)));
     Some \<lparr>dt_year = uint year, dt_month = unat (sn_month t), dt_day = unat (sn_day t),
           dt_hour = unat (sn_hours t), dt_minute = unat (sn_minutes t), dt_second = unat (sn_seconds t)\<rparr>
   }"

definition get_current_time ::
  "(int \<Rightarrow> nat \<Rightarrow> nat \<Rightarrow> bool) \<Rightarrow> Dev \<Rightarrow> RtcMode \<times> HoursMode \<Rightarrow> nat \<Rightarrow> io_log
     \<Rightarrow> (NaiveDateTime \<times> io_log) option" where
  "get_current_time ymd_ok dv config fuel l = do {
     (t, l) \<leftarrow> snapshot_loop dv config fuel l;
     time \<leftarrow> snapshot_time ymd_ok t;
     Some (time, l)
   }"

subsection \<open>How the clock stores a time\<close>

fun encode_reg :: "RtcMode \<Rightarrow> nat \<Rightarrow> u8" where
  "encode_reg BinaryMode n = of_nat n"
| "encode_reg BcdMode n = of_nat (16 * (n div 10) + n mod 10)"

fun encode_hour :: "RtcMode \<times> HoursMode \<Rightarrow> nat \<Rightarrow> u8" where
  "encode_hour (mode, Hours24) h = encode_reg mode h"
| "encode_hour (mode, Hours12) h =
     (if 12 \<le> h then 0x80 else 0) OR encode_reg mode (if h mod 12 = 0 then 12 else h mod 12)"

definition encodes_time :: "RtcMode \<times> HoursMode \<Rightarrow> NaiveDateTime \<Rightarrow> (u8 \<Rightarrow> u8) \<Rightarrow> bool" where
  "encodes_time config t regs \<longleftrightarrow>
     regs 0x00 = encode_reg (fst config) (dt_second t)
   \<and> regs 0x02 = encode_reg (fst config) (dt_minute t)
   \<and> regs 0x04 = encode_hour config (dt_hour t)
   \<and> regs 0x07 = encode_reg (fst config) (dt_day t)
   \<and> regs 0x08 = encode_reg (fst config) (dt_month t)
   \<and> regs 0x09 = encode_reg (fst config) (nat (dt_year t) mod 100)
   \<and> regs 0x32 = encode_reg (fst config) (nat (dt_year t) div 100)"

definition valid_time :: "NaiveDateTime \<Rightarrow> bool" where
  "valid_time t \<longleftrightarrow> dt_second t < 60 \<and> dt_minute t < 60 \<and> dt_hour t < 24
     \<and> 1 \<le> dt_day t \<and> dt_day t \<le> 31 \<and> 1 \<le> dt_month t \<and> dt_month t \<le> 12
     \<and> 2000 \<le> dt_year t \<and> dt_year t < 10000"

text \<open>
  A clock chip that is updating its registers for the first \<open>n\<close> port operations, and then holds
  the values \<open>regs\<close>.
\<close>

definition settles_after :: "nat \<Rightarrow> (u8 \<Rightarrow> u8) \<Rightarrow> Dev \<Rightarrow> bool" where
  "settles_after n regs dv \<longleftrightarrow> (\<forall>l r. (n \<le> length l \<longrightarrow>
       dv8 dv (l @ [Out8 PORT_REGSEL (NMI_DISABLE_BIT OR r)]) PORT_VALUE = regs r)
     \<and> (dv8 dv (l @ [Out8 PORT_REGSEL (NMI_DISABLE_BIT OR 0x0a)]) PORT_VALUE AND 0x80 \<noteq> 0
         \<longleftrightarrow> length l < n))"

subsection \<open>Decoding\<close>

lemma to_bin_table:
  "list_all (\<lambda>n. to_bin BcdMode (encode_reg BcdMode n) = of_nat n) [0..<100]"
  by code_simp

lemma to_bin_encode_reg: "n < 100 \<Longrightarrow> to_bin mode (encode_reg mode n) = of_nat n"
  using to_bin_table by (cases mode) (simp_all add: list_all_iff del: to_bin.simps(2) encode_reg.simps(2))

lemma to_24h_table:
  "list_all (\<lambda>h. to_24h Hours12 (to_bin BinaryMode (encode_hour (BinaryMode, Hours12) h)) = Some (of_nat h)
     \<and> to_24h Hours12 (to_bin BcdMode (encode_hour (BcdMode, Hours12) h))
         = (if h < 12 then Some (of_nat h) else None)) [0..<24]"
  by code_simp

definition afternoon_unreadable :: "RtcMode \<times> HoursMode \<Rightarrow> nat \<Rightarrow> bool" where
  "afternoon_unreadable config h \<longleftrightarrow> config = (BcdMode, Hours12) \<and> 12 \<le> h"

lemma to_24h_encode_hour:
  assumes "h < 24"
  shows "to_24h hoursf (to_bin mode (encode_hour (mode, hoursf) h))
    = (if afternoon_unreadable (mode, hoursf) h then None else Some (of_nat h))"
proof (cases hoursf)
  case Hours24
  with assms show ?thesis by (simp add: to_bin_encode_reg afternoon_unreadable_def)
next
  case Hours12
  from to_24h_table assms have *:
    "to_24h Hours12 (to_bin BinaryMode (encode_hour (BinaryMode, Hours12) h)) = Some (of_nat h)"
    "to_24h Hours12 (to_bin BcdMode (encode_hour (BcdMode, Hours12) h))
       = (if h < 12 then Some (of_nat h) else None)"
    by (auto simp: list_all_iff simp del: to_24h.simps to_bin.simps encode_hour.simps)
  show ?thesis
    by (cases mode) (simp_all add: * Hours12 afternoon_unreadable_def
      del: to_24h.simps to_bin.simps encode_hour.simps)
qed

subsection \<open>Reading a settled clock\<close>

lemma read_register_settled:
  assumes "settles_after n regs dv" "n \<le> length l" "r < 0x7f"
  shows "read_register dv r l
    = Some (regs r, l @ [Out8 PORT_REGSEL (NMI_DISABLE_BIT OR r), In8 PORT_VALUE (regs r)])"
proof -
  have "(0xff :: u8) AND NOT NMI_DISABLE_BIT = 0x7f" by (simp add: NMI_DISABLE_BIT_def)
  with assms show ?thesis
    by (simp add: read_register_def port_defs settles_after_def rassert_def Let_def)
qed

lemma update_flag:
  assumes "settles_after n regs dv"
  obtains l' where "is_update_in_progress dv l = Some (length l < n, l')"
    "length l' = length l + 2"
proof -
  have "(0xff :: u8) AND NOT NMI_DISABLE_BIT = 0x7f" by (simp add: NMI_DISABLE_BIT_def)
  with assms that show thesis
    by (simp add: is_update_in_progress_def read_register_def port_defs settles_after_def
        rassert_def Let_def)
qed

definition snapshot_of :: "NaiveDateTime \<Rightarrow> Snapshot" where
  "snapshot_of t = \<lparr>sn_seconds = of_nat (dt_second t), sn_minutes = of_nat (dt_minute t),
     sn_hours = of_nat (dt_hour t), sn_day = of_nat (dt_day t), sn_month = of_nat (dt_month t),
     sn_year_last_digits = of_nat (nat (dt_year t) mod 100),
     sn_maybe_century = of_nat (nat (dt_year t) div 100)\<rparr>"

lemma snapshot_settled:
  assumes "settles_after n regs dv" "n \<le> length l" "encodes_time config t regs" "valid_time t"
  shows "if afternoon_unreadable config (dt_hour t) then snapshot_read dv config l = None
    else \<exists>l'. snapshot_read dv config l = Some (snapshot_of t, l') \<and> length l \<le> length l'"
proof -
  obtain mode hoursf where c: "config = (mode, hoursf)" by (cases config)
  have r: "\<And>l r. n \<le> length l \<Longrightarrow> r < 0x7f \<Longrightarrow> read_register dv r l
    = Some (regs r, l @ [Out8 PORT_REGSEL (NMI_DISABLE_BIT OR r), In8 PORT_VALUE (regs r)])"
    using assms(1) by (rule read_register_settled)
  from assms(4) have h: "dt_hour t < 24" and "dt_second t < 100" "dt_minute t < 100"
    "dt_day t < 100" "dt_month t < 100" "nat (dt_year t) mod 100 < 100" "nat (dt_year t) div 100 < 100"
    by (auto simp: valid_time_def)
  note b = this(2-)[THEN to_bin_encode_reg [of _ mode]]
  from assms(2,3) show ?thesis
    by (simp add: snapshot_read_def c r b to_24h_encode_hour [OF h] encodes_time_def snapshot_of_def)
qed

lemma snapshot_loop_settled:
  assumes s: "settles_after n regs dv" and e: "encodes_time config t regs" "valid_time t"
  shows "n - length l < fuel \<Longrightarrow> if afternoon_unreadable config (dt_hour t)
      then snapshot_loop dv config fuel l = None
      else \<exists>l'. snapshot_loop dv config fuel l = Some (snapshot_of t, l')"
proof (induction fuel arbitrary: l)
  case 0
  then show ?case by simp
next
  case (Suc fuel)
  obtain l1 where l1: "is_update_in_progress dv l = Some (length l < n, l1)"
    and len: "length l1 = length l + 2" using s by (rule update_flag)
  show ?case
  proof (cases "length l < n")
    case True
    with Suc.prems len have "n - length l1 < fuel" by simp
    with Suc.IH l1 True show ?thesis by simp
  next
    case False
    note read = snapshot_settled [OF s _ e]
    show ?thesis
    proof (cases "afternoon_unreadable config (dt_hour t)")
      case True
      with read [of l1] False len l1 show ?thesis by simp
    next
      case readable: False
      from read [of l1] False len readable obtain l2 where
        l2: "snapshot_read dv config l1 = Some (snapshot_of t, l2)" "length l1 \<le> length l2" by auto
      obtain l3 where l3: "is_update_in_progress dv l2 = Some (length l2 < n, l3)"
        "length l3 = length l2 + 2" using s by (rule update_flag)
      from read [of l3] l3 l2 False len readable obtain l4 where
        l4: "snapshot_read dv config l3 = Some (snapshot_of t, l4)" by auto
      from False len l2 have "\<not> length l2 < n" by simp
      with readable False l1 l2 l3 l4 show ?thesis by simp
    qed
  qed
qed

lemma unat_of_nat_u8: "n < 256 \<Longrightarrow> unat (of_nat n :: u8) = n"
  by (simp add: unat_of_nat take_bit_eq_mod)

lemma of_nat_u8_order:
  assumes "a < 256" "b < 256"
  shows "(of_nat a :: u8) < of_nat b \<longleftrightarrow> a < b" "(of_nat a :: u8) \<le> of_nat b \<longleftrightarrow> a \<le> b"
  using assms by (simp_all add: word_less_nat_alt word_le_nat_alt unat_of_nat_u8)

lemma of_nat_u8_nonzero: "0 < a \<Longrightarrow> a < 256 \<Longrightarrow> (of_nat a :: u8) \<noteq> 0"
  using unat_of_nat_u8 [of a] by (metis less_numeral_extra(3) unat_0)

lemma snapshot_year:
  assumes "y < 10000"
  shows "uint (100 * ucast (of_nat (y div 100) :: u8) + ucast (of_nat (y mod 100) :: u8) :: u16) = int y"
proof -
  have u: "ucast (of_nat n :: u8) = (of_nat n :: u16)" if "n < 256" for n
    using that by (metis of_nat_unat unat_of_nat_u8)
  have "100 * ucast (of_nat (y div 100) :: u8) + ucast (of_nat (y mod 100) :: u8)
      = (of_nat (100 * (y div 100) + y mod 100) :: u16)"
    using u [of "y div 100"] u [of "y mod 100"] assms
    by (simp only: of_nat_add of_nat_mult of_nat_numeral)
  also have "100 * (y div 100) + y mod 100 = y" by simp
  finally show ?thesis using assms by (simp add: uint_nat unat_of_nat take_bit_eq_mod)
qed

lemma snapshot_time_of:
  assumes "valid_time t" "ymd_ok (dt_year t) (dt_month t) (dt_day t)"
  shows "snapshot_time ymd_ok (snapshot_of t) = Some t"
proof -
  let ?y = "nat (dt_year t)"
  from assms(1) have b: "dt_second t < 60" "dt_minute t < 60" "dt_hour t < 24"
    "1 \<le> dt_day t" "dt_day t \<le> 31" "1 \<le> dt_month t" "dt_month t \<le> 12"
    and c: "20 \<le> ?y div 100" "?y div 100 < 100" "?y < 10000" "0 \<le> dt_year t"
    by (auto simp: valid_time_def)
  note order = of_nat_u8_order [of _ 60, simplified] of_nat_u8_order [of _ 24, simplified]
    of_nat_u8_order [of _ 31, simplified] of_nat_u8_order [of _ 12, simplified]
    of_nat_u8_order [of 20, simplified]
  from b c assms(2) show ?thesis
    by (simp add: snapshot_time_def snapshot_of_def order of_nat_u8_nonzero unat_of_nat_u8
        snapshot_year rassert_def)
qed


definition demo_regs :: "u8 \<Rightarrow> u8" where
  "demo_regs r = (if r = 0x00 then 0x59 else if r = 0x02 then 0x30 else if r = 0x04 then 0x23
     else if r = 0x07 then 0x31 else if r = 0x08 then 0x12 else if r = 0x09 then 0x22
     else if r = 0x32 then 0x20 else 0)"

definition demo_clock :: Dev where
  "demo_clock = \<lparr>dv8 = (\<lambda>l p. case last l of
       Out8 q r \<Rightarrow> (if length l - 1 < 3 then 0xff else demo_regs (r AND 0x7f)) | _ \<Rightarrow> 0),
     dv16 = (\<lambda>_ _. 0), dv32 = (\<lambda>_ _. 0)\<rparr>"

definition demo_time :: NaiveDateTime where
  "demo_time = \<lparr>dt_year = 2022, dt_month = 12, dt_day = 31, dt_hour = 23, dt_minute = 30, dt_second = 59\<rparr>"


end
