(* ===== verification/AtaPio.thy ===== *)
theory AtaPio
  imports PortIO
begin

text \<open>
  The ATA disk driver (\<open>driver_ata_pio/src/ata_pio.rs\<close> and \<open>lib.rs\<close>) and the
  disk access of the boot loader (\<open>libs/d7boot/src/ata_pio.rs\<close>). Loops that poll a status
  register have fuel, the number of their iterations; a call that panics or uses up its fuel is
  \<open>None\<close>.

  The drive itself is described by the contract \<open>is_ata\<close>: a machine with the command registers
  and a memory of 16-bit words, that is busy for some number of status reads after a command.
\<close>

unbundle bit_operations_syntax

subsection \<open>The driver (ata_pio.rs)\<close>

definition ATA_SECTOR_SIZE :: nat where "ATA_SECTOR_SIZE = 0x200"

definition PORT_DATA :: u16 where "PORT_DATA = 0x1F0"
definition PORT_SECCOUNT :: u16 where "PORT_SECCOUNT = 0x1F2"
definition PORT_LBA0 :: u16 where "PORT_LBA0 = 0x1F3"
definition PORT_LBA1 :: u16 where "PORT_LBA1 = 0x1F4"
definition PORT_LBA2 :: u16 where "PORT_LBA2 = 0x1F5"
definition PORT_DRIVESELECT :: u16 where "PORT_DRIVESELECT = 0x1F6"
definition PORT_COMMAND :: u16 where "PORT_COMMAND = 0x1F7"
definition PORT_DEV_CTRL :: u16 where "PORT_DEV_CTRL = 0x3F6"

lemmas ata_ports = PORT_DATA_def PORT_SECCOUNT_def PORT_LBA0_def PORT_LBA1_def PORT_LBA2_def
  PORT_DRIVESELECT_def PORT_COMMAND_def PORT_DEV_CTRL_def

definition sleep_ms :: "u64 \<Rightarrow> io_log \<Rightarrow> io_log" where
  "sleep_ms ms = sleep_ns (ms * 100000)"

record DriveProperties =
  lba28_sectors :: u32
  lba48_sectors :: "u64 option"

definition supports_lba48 :: "DriveProperties \<Rightarrow> bool" where
  "supports_lba48 d \<longleftrightarrow> lba48_sectors d \<noteq> None"

definition sector_count :: "DriveProperties \<Rightarrow> u64" where
  "sector_count d = (case lba48_sectors d of Some n \<Rightarrow> n | None \<Rightarrow> ucast (lba28_sectors d))"

definition send_command :: "u8 \<Rightarrow> io_log \<Rightarrow> io_log" where
  "send_command cmd = out8 PORT_COMMAND cmd"

definition read_status :: "Dev \<Rightarrow> io_log \<Rightarrow> u8 \<times> io_log" where
  "read_status dv = in8 dv PORT_COMMAND"

fun reset_wait :: "Dev \<Rightarrow> nat \<Rightarrow> io_log \<Rightarrow> io_log option" where
  "reset_wait dv 0 l = None"
| "reset_wait dv (Suc fuel) l =
     (let (v, l) = in8 dv PORT_DEV_CTRL l in
      if v AND 0xc0 = 0x40 then Some l else reset_wait dv fuel l)"

definition reset_drives :: "Dev \<Rightarrow> nat \<Rightarrow> io_log \<Rightarrow> io_log option" where
  "reset_drives dv fuel l =
     (let l = out8 PORT_DEV_CTRL 0 l; (_, l) = in8s dv PORT_DEV_CTRL 4 l in reset_wait dv fuel l)"

definition is_ready :: "Dev \<Rightarrow> io_log \<Rightarrow> bool \<times> io_log" where
  "is_ready dv l =
     (let (_, l) = in8s dv PORT_COMMAND 4 l; (dat, l) = read_status dv l in (dat AND 0xc0 = 0x40, l))"

fun wait_ready :: "Dev \<Rightarrow> nat \<Rightarrow> io_log \<Rightarrow> io_log option" where
  "wait_ready dv 0 l = None"
| "wait_ready dv (Suc fuel) l =
     (case is_ready dv l of (ready, l) \<Rightarrow> if ready then Some l else wait_ready dv fuel l)"

text \<open>The loop of \<open>identify\<close>: \<open>Some False\<close> when the drive does not exist.\<close>

fun identify_wait :: "Dev \<Rightarrow> nat \<Rightarrow> bool \<Rightarrow> io_log \<Rightarrow> (bool \<times> io_log) option" where
  "identify_wait dv 0 first_cleared l = None"
| "identify_wait dv (Suc fuel) first_cleared l =
     (let (dat, l) = read_status dv l in
      if dat = 0 then Some (False, l)
      else if dat AND 1 \<noteq> 0 then None
      else if dat AND 0x80 \<noteq> 0 then identify_wait dv fuel first_cleared l
      else if first_cleared then
        (let (v1, l) = in8 dv PORT_LBA1 l; (v2, l) = in8 dv PORT_LBA2 l in
         if v1 \<noteq> 0 \<or> v2 \<noteq> 0 then None else identify_wait dv fuel False l)
      else if dat AND 8 \<noteq> 0 then Some (True, l)
      else identify_wait dv fuel first_cleared l)"

fun identify_data :: "Dev \<Rightarrow> nat \<Rightarrow> io_log \<Rightarrow> u16 list \<times> io_log" where
  "identify_data dv 0 l = ([], l)"
| "identify_data dv (Suc n) l =
     (let (w, l) = in16 dv PORT_DATA l; (ws, l) = identify_data dv n (sleep_ms 1 l) in (w # ws, l))"

definition lba48_of :: "u16 list \<Rightarrow> u64 option" where
  "lba48_of dat =
     (if dat ! 83 AND 0x400 \<noteq> 0
      then Some (ucast (dat ! 100) OR push_bit 0x10 (ucast (dat ! 101))
        OR push_bit 0x20 (ucast (dat ! 102)) OR push_bit 0x30 (ucast (dat ! 103)))
      else None)"

definition lba28_of :: "u16 list \<Rightarrow> u32" where
  "lba28_of dat = ucast (dat ! 60) OR push_bit 0x10 (ucast (dat ! 61))"

definition identify ::
  "Dev \<Rightarrow> nat \<Rightarrow> nat \<Rightarrow> io_log \<Rightarrow> (DriveProperties option \<times> io_log) option" where
  "identify dv fuel drive l = do {
     rassert (drive \<le> 1);
     let l = out8 PORT_DRIVESELECT (if drive = 0 then 0xa0 else 0xb0) l;
     let l = out8 PORT_LBA0 0 l;
     let l = out8 PORT_LBA1 0 l;
     let l = out8 PORT_LBA2 0 l;
     let l = send_command 0xEC l;
     let l = sleep_ms 1 l;
     (found, l) \<leftarrow> identify_wait dv fuel True l;
     (if \<not> found then Some (None, l)
      else do {
        let (dat, l) = identify_data dv 256 l;
        rassert (\<not> (lba28_of dat = 0 \<and> (lba48_of dat = None \<or> lba48_of dat = Some 0)));
        Some (Some \<lparr>lba28_sectors = lba28_of dat, lba48_sectors = lba48_of dat\<rparr>, l)
      })
   }"

definition ata_pio_new :: "Dev \<Rightarrow> nat \<Rightarrow> io_log \<Rightarrow> (DriveProperties list \<times> io_log) option" where
  "ata_pio_new dv fuel l = do {
     l \<leftarrow> reset_drives dv fuel l;
     (d0, l) \<leftarrow> identify dv fuel 0 l;
     (d1, l) \<leftarrow> identify dv fuel 1 l;
     Some ((case d0 of Some d \<Rightarrow> [d] | None \<Rightarrow> []) @ (case d1 of Some d \<Rightarrow> [d] | None \<Rightarrow> []), l)
   }"

text \<open>The registers both transfers set before their command.\<close>

definition send_address :: "nat \<Rightarrow> u64 \<Rightarrow> u8 \<Rightarrow> io_log \<Rightarrow> io_log option" where
  "send_address drive lba sectors l = do {
     let bits24_27 = (ucast (drop_bit 24 lba) :: u8);
     rassert (bits24_27 < 8);
     let bits24_27 = bits24_27 OR 0xE0 OR push_bit 4 (of_nat drive);
     let l = out8 PORT_DRIVESELECT bits24_27 l;
     let l = out8 PORT_SECCOUNT sectors l;
     let l = out8 PORT_LBA0 (ucast (lba AND 0xFF)) l;
     let l = out8 PORT_LBA1 (ucast (drop_bit 0x8 (lba AND 0xFF00))) l;
     let l = out8 PORT_LBA2 (ucast (drop_bit 0x10 (lba AND 0xFF0000))) l;
     Some l
   }"

definition word_bytes :: "u16 \<Rightarrow> bytes" where
  "word_bytes word = [ucast (word AND 0xFF), ucast (drop_bit 0x8 (word AND 0xFF00))]"

definition read_lba ::
  "Dev \<Rightarrow> nat \<Rightarrow> nat \<Rightarrow> u64 \<Rightarrow> u8 \<Rightarrow> io_log \<Rightarrow> (bytes \<times> io_log) option" where
  "read_lba dv fuel drive lba sectors l = do {
     rassert (sectors > 0);
     rassert (drive \<le> 1);
     rassert (lba < 2 ^ 28);
     l \<leftarrow> send_address drive lba sectors l;
     let l = send_command 0x20 l;
     l \<leftarrow> wait_ready dv fuel l;
     let (ws, l) = in16s dv PORT_DATA (unat sectors * (ATA_SECTOR_SIZE div 2)) l;
     Some (concat (map word_bytes ws), l)
   }"

fun data_words :: "bytes \<Rightarrow> u16 list" where
  "data_words (lo # hi # rest) = (ucast lo OR push_bit 8 (ucast hi)) # data_words rest"
| "data_words _ = []"

definition write_lba :: "Dev \<Rightarrow> nat \<Rightarrow> nat \<Rightarrow> u64 \<Rightarrow> bytes \<Rightarrow> io_log \<Rightarrow> io_log option" where
  "write_lba dv fuel drive lba dat l = do {
     rassert (drive \<le> 1);
     rassert (lba < 2 ^ 28);
     rassert (length dat mod ATA_SECTOR_SIZE = 0);
     let sectors = length dat div ATA_SECTOR_SIZE;
     rassert (sectors > 0);
     l \<leftarrow> send_address drive lba (of_nat sectors) l;
     let l = send_command 0x30 l;
     l \<leftarrow> wait_ready dv fuel l;
     Some (fold (out16 PORT_DATA) (data_words dat) l)
   }"

definition drive_count :: "DriveProperties list \<Rightarrow> nat" where
  "drive_count drives = length drives"

definition capacity_sectors :: "DriveProperties list \<Rightarrow> nat \<Rightarrow> u64 option" where
  "capacity_sectors drives drive = map_option sector_count (index drives drive)"

subsection \<open>The driver process (lib.rs)\<close>

text \<open>Requests by the index of the subscription they arrive on, with their answers.\<close>

datatype AtaRequest = ReadRequest nat u64 u8 | WriteRequest nat u64 bytes | InfoRequest
datatype AtaReply = ReadReply bytes | WriteAck | InfoReply "u64 list"

definition ata_start :: "Dev \<Rightarrow> nat \<Rightarrow> io_log \<Rightarrow> (u64 list \<times> io_log) option" where
  "ata_start dv fuel l = do {
     (drives, l) \<leftarrow> ata_pio_new dv fuel l;
     rassert (drive_count drives > 0);
     drive_info \<leftarrow> those (map (capacity_sectors drives) [0..<drive_count drives]);
     Some (drive_info, l)
   }"

fun ata_serve ::
  "Dev \<Rightarrow> nat \<Rightarrow> u64 list \<Rightarrow> AtaRequest \<Rightarrow> io_log \<Rightarrow> (AtaReply \<times> io_log) option" where
  "ata_serve dv fuel drive_info (ReadRequest i sector n) l = do {
     (dat, l) \<leftarrow> read_lba dv fuel i sector n l;
     Some (ReadReply dat, l)
   }"
| "ata_serve dv fuel drive_info (WriteRequest i sector dat) l = do {
     l \<leftarrow> write_lba dv fuel i sector dat l;
     Some (WriteAck, l)
   }"
| "ata_serve dv fuel drive_info InfoRequest l = Some (InfoReply drive_info, l)"

subsection \<open>The drive\<close>

datatype AtaMode = Idle | Reading nat nat | Writing nat nat

record AtaDrive =
  ad_select :: u8
  ad_seccount :: u8
  ad_lba0 :: u8
  ad_lba1 :: u8
  ad_lba2 :: u8
  ad_mode :: AtaMode
  ad_busy :: nat
  ad_store :: "nat \<Rightarrow> nat \<Rightarrow> u16"

definition ad_drive :: "AtaDrive \<Rightarrow> nat" where
  "ad_drive s = (if bit (ad_select s) 4 then 1 else 0)"

definition ad_lba :: "AtaDrive \<Rightarrow> nat" where
  "ad_lba s = unat (ad_lba0 s) + 2 ^ 8 * unat (ad_lba1 s) + 2 ^ 16 * unat (ad_lba2 s)
     + 2 ^ 24 * unat (ad_select s AND 0xF)"

definition ad_words :: "AtaDrive \<Rightarrow> nat" where
  "ad_words s = 256 * (if ad_seccount s = 0 then 256 else unat (ad_seccount s))"

text \<open>The effect of a port operation on the drive; \<open>lat\<close> is how long a command keeps it busy.\<close>

fun ata_step :: "nat \<Rightarrow> AtaDrive \<Rightarrow> PortOp \<Rightarrow> AtaDrive" where
  "ata_step lat s (Out8 p v) =
     (if p = PORT_DRIVESELECT then s\<lparr>ad_select := v\<rparr>
      else if p = PORT_SECCOUNT then s\<lparr>ad_seccount := v\<rparr>
      else if p = PORT_LBA0 then s\<lparr>ad_lba0 := v\<rparr>
      else if p = PORT_LBA1 then s\<lparr>ad_lba1 := v\<rparr>
      else if p = PORT_LBA2 then s\<lparr>ad_lba2 := v\<rparr>
      else if p = PORT_COMMAND then s\<lparr>ad_busy := lat, ad_mode :=
        (if v = 0x20 then Reading (256 * ad_lba s) (ad_words s)
         else if v = 0x30 then Writing (256 * ad_lba s) (ad_words s) else Idle)\<rparr>
      else s)"
| "ata_step lat s (In8 p v) =
     (if p = PORT_COMMAND then s\<lparr>ad_busy := ad_busy s - 1\<rparr> else s)"
| "ata_step lat s (In16 p w) =
     (if p = PORT_DATA then
        (case ad_mode s of Reading a (Suc n) \<Rightarrow> s\<lparr>ad_mode := Reading (Suc a) n\<rparr> | _ \<Rightarrow> s)
      else s)"
| "ata_step lat s (Out16 p w) =
     (if p = PORT_DATA then
        (case ad_mode s of
           Writing a (Suc n) \<Rightarrow> s\<lparr>ad_mode := Writing (Suc a) n,
             ad_store := (ad_store s)(ad_drive s := (ad_store s (ad_drive s))(a := w))\<rparr>
         | _ \<Rightarrow> s)
      else s)"
| "ata_step lat s _ = s"

definition ata_state :: "nat \<Rightarrow> AtaDrive \<Rightarrow> io_log \<Rightarrow> AtaDrive" where
  "ata_state lat s0 l = foldl (ata_step lat) s0 l"

definition is_ata :: "nat \<Rightarrow> AtaDrive \<Rightarrow> Dev \<Rightarrow> bool" where
  "is_ata lat s0 dv \<longleftrightarrow> (\<forall>l. let s = ata_state lat s0 l in
     (dv8 dv l PORT_COMMAND AND 0xc0 = 0x40 \<longleftrightarrow> ad_busy s = 0)
   \<and> (\<forall>a n. ad_mode s = Reading a (Suc n) \<longrightarrow> dv16 dv l PORT_DATA = ad_store s (ad_drive s) a))"

abbreviation disk_words :: "nat \<Rightarrow> AtaDrive \<Rightarrow> io_log \<Rightarrow> nat \<Rightarrow> nat \<Rightarrow> u16" where
  "disk_words lat s0 l \<equiv> ad_store (ata_state lat s0 l)"

lemma ad_drive_upd [simp]:
  "ad_drive (s\<lparr>ad_mode := m\<rparr>) = ad_drive s" "ad_drive (s\<lparr>ad_store := st\<rparr>) = ad_drive s"
  "ad_drive (s\<lparr>ad_busy := b\<rparr>) = ad_drive s"
  by (simp_all add: ad_drive_def)

lemma ata_state_snoc [simp]: "ata_state lat s0 (l @ [x]) = ata_step lat (ata_state lat s0 l) x"
  by (simp add: ata_state_def)

lemma is_ata_status: "is_ata lat s0 dv \<Longrightarrow>
    dv8 dv l PORT_COMMAND AND 0xc0 = 0x40 \<longleftrightarrow> ad_busy (ata_state lat s0 l) = 0"
  by (simp add: is_ata_def Let_def)

lemma is_ata_data: "is_ata lat s0 dv \<Longrightarrow> ad_mode (ata_state lat s0 l) = Reading a (Suc n) \<Longrightarrow>
    dv16 dv l PORT_DATA = ad_store (ata_state lat s0 l) (ad_drive (ata_state lat s0 l)) a"
  by (simp add: is_ata_def Let_def)

subsection \<open>Waiting, reading and writing words\<close>

lemma state_status_reads:
  "in8s dv PORT_COMMAND n l = (vs, l') \<Longrightarrow>
     ata_state lat s0 l' = (ata_state lat s0 l)\<lparr>ad_busy := ad_busy (ata_state lat s0 l) - n\<rparr>"
  by (induction n arbitrary: l vs) (auto simp: in8_def Let_def split: prod.splits)

lemma is_ready_ata:
  assumes "is_ata lat s0 dv" "is_ready dv l = (b, l')"
  shows "b \<longleftrightarrow> ad_busy (ata_state lat s0 l) \<le> 4"
    and "ata_state lat s0 l' = (ata_state lat s0 l)\<lparr>ad_busy := ad_busy (ata_state lat s0 l) - 5\<rparr>"
proof -
  obtain vs l1 where l1: "in8s dv PORT_COMMAND 4 l = (vs, l1)" by fastforce
  from state_status_reads [OF l1, of lat s0] assms is_ata_status [OF assms(1), of l1] l1
  show "b \<longleftrightarrow> ad_busy (ata_state lat s0 l) \<le> 4"
    and "ata_state lat s0 l' = (ata_state lat s0 l)\<lparr>ad_busy := ad_busy (ata_state lat s0 l) - 5\<rparr>"
    by (auto simp: is_ready_def read_status_def in8_def Let_def simp del: in8s.simps)
qed

lemma wait_ready_ata:
  assumes "is_ata lat s0 dv"
  shows "ad_busy (ata_state lat s0 l) < fuel \<Longrightarrow> \<exists>l'. wait_ready dv fuel l = Some l'
    \<and> ata_state lat s0 l' = (ata_state lat s0 l)\<lparr>ad_busy := 0\<rparr>"
proof (induction fuel arbitrary: l)
  case 0
  then show ?case by simp
next
  case (Suc fuel)
  obtain b l1 where r: "is_ready dv l = (b, l1)" by fastforce
  note ready = is_ready_ata [OF assms r]
  show ?case
  proof (cases b)
    case True
    with ready r show ?thesis by simp
  next
    case False
    with ready Suc.prems have "ad_busy (ata_state lat s0 l1) < fuel" by simp
    from Suc.IH [OF this] ready(2) False r show ?thesis by auto
  qed
qed

lemma in16s_ata:
  assumes "is_ata lat s0 dv"
  shows "ad_mode (ata_state lat s0 l) = Reading a (k + n) \<Longrightarrow> \<exists>l'. in16s dv PORT_DATA k l
      = (map (ad_store (ata_state lat s0 l) (ad_drive (ata_state lat s0 l))) [a..<a + k], l')
    \<and> ata_state lat s0 l' = (ata_state lat s0 l)\<lparr>ad_mode := Reading (a + k) n\<rparr>"
proof (induction k arbitrary: a l)
  case 0
  then show ?case by simp
next
  case (Suc k)
  let ?s = "ata_state lat s0 l"
  let ?w = "ad_store ?s (ad_drive ?s) a"
  let ?l1 = "l @ [In16 PORT_DATA ?w]"
  from Suc.prems have w: "dv16 dv l PORT_DATA = ?w" using is_ata_data [OF assms] by simp
  have s1: "ata_state lat s0 ?l1 = ?s\<lparr>ad_mode := Reading (Suc a) (k + n)\<rparr>"
    using Suc.prems by simp
  from Suc.IH [of ?l1 "Suc a"] s1 obtain l' where
    "in16s dv PORT_DATA k ?l1 = (map (ad_store ?s (ad_drive ?s)) [Suc a..<Suc a + k], l')"
    "ata_state lat s0 l' = ?s\<lparr>ad_mode := Reading (Suc a + k) n\<rparr>"
    by (auto simp: ad_drive_def simp del: ata_state_snoc)
  moreover have "[a..<a + Suc k] = a # [Suc a..<Suc a + k]" by (simp add: upt_conv_Cons)
  ultimately show ?case by (simp add: in16_def w Let_def del: upt_Suc)
qed

lemma out16s_ata:
  "ad_mode (ata_state lat s0 l) = Writing a (length ws + n) \<Longrightarrow>
     ata_state lat s0 (fold (out16 PORT_DATA) ws l) = (let s = ata_state lat s0 l in
       s\<lparr>ad_mode := Writing (a + length ws) n,
         ad_store := (ad_store s)(ad_drive s := overwrite a ws (ad_store s (ad_drive s)))\<rparr>)"
proof (induction ws arbitrary: a l)
  case Nil
  then show ?case by (cases "ata_state lat s0 l") (simp add: Let_def)
next
  case (Cons w ws)
  let ?l1 = "out16 PORT_DATA w l"
  from Cons.prems have "ata_state lat s0 ?l1 = (let s = ata_state lat s0 l in
       s\<lparr>ad_mode := Writing (Suc a) (length ws + n),
         ad_store := (ad_store s)(ad_drive s := (ad_store s (ad_drive s))(a := w))\<rparr>)"
    by (simp add: out16_def Let_def)
  with Cons.IH [of ?l1 "Suc a"] show ?case
    by (simp add: Let_def overwrite_Cons cong: if_cong)
qed

subsection \<open>Whole transfers\<close>

lemma bytes_of_nat:
  fixes n :: nat
  shows "n mod 2 ^ 8 + 2 ^ 8 * (n div 2 ^ 8 mod 2 ^ 8) + 2 ^ 16 * (n div 2 ^ 16 mod 2 ^ 8)
    + 2 ^ 24 * (n div 2 ^ 24) = n"
proof -
  obtain a b c where q: "a = n div 256" "b = a div 256" "c = b div 256" by blast
  obtain ra rb rn where r: "rn = n mod 256" "ra = a mod 256" "rb = b mod 256" by blast
  have "n = rn + 256 * a" "a = ra + 256 * b" "b = rb + 256 * c"
    unfolding q r by (simp_all only: mod_mult_div_eq)
  then have "rn + 2 ^ 8 * ra + 2 ^ 16 * rb + 2 ^ 24 * c = n" by simp
  moreover have e: "n mod 2 ^ 8 = rn" "n div 2 ^ 8 mod 2 ^ 8 = ra" "n div 2 ^ 16 mod 2 ^ 8 = rb"
    "n div 2 ^ 24 = c" by (simp_all add: q r div_mult2_eq [symmetric])
  ultimately show ?thesis unfolding e by simp
qed

lemma unat_lba_parts:
  assumes "lba < (2 ^ 28 :: u64)"
  shows "unat (ucast (lba AND 0xFF) :: u8) + 2 ^ 8 * unat (ucast (drop_bit 8 (lba AND 0xFF00)) :: u8)
    + 2 ^ 16 * unat (ucast (drop_bit 16 (lba AND 0xFF0000)) :: u8)
    + 2 ^ 24 * unat (ucast (drop_bit 24 lba) :: u8) = unat lba"
proof -
  let ?n = "unat lba"
  from assms have n: "?n < 2 ^ 28" by (simp add: word_less_nat_alt)
  have m: "lba AND 0xFF = take_bit 8 lba" "drop_bit 8 (lba AND 0xFF00) = take_bit 8 (drop_bit 8 lba)"
    "drop_bit 16 (lba AND 0xFF0000) = take_bit 8 (drop_bit 16 lba)"
    by (simp_all add: take_bit_eq_mask mask_eq_exp_minus_1)
  have "unat (ucast (lba AND 0xFF) :: u8) = ?n mod 2 ^ 8"
    using n by (simp only: m, simp add: unsigned_ucast_eq unsigned_take_bit_eq unsigned_drop_bit_eq)
      (simp add: take_bit_eq_mod drop_bit_eq_div)
  moreover have "unat (ucast (drop_bit 8 (lba AND 0xFF00)) :: u8) = ?n div 2 ^ 8 mod 2 ^ 8"
    using n by (simp only: m, simp add: unsigned_ucast_eq unsigned_take_bit_eq unsigned_drop_bit_eq)
      (simp add: take_bit_eq_mod drop_bit_eq_div)
  moreover have "unat (ucast (drop_bit 16 (lba AND 0xFF0000)) :: u8) = ?n div 2 ^ 16 mod 2 ^ 8"
    using n by (simp only: m, simp add: unsigned_ucast_eq unsigned_take_bit_eq unsigned_drop_bit_eq)
      (simp add: take_bit_eq_mod drop_bit_eq_div)
  moreover have "unat (ucast (drop_bit 24 lba) :: u8) = ?n div 2 ^ 24"
    using n by (simp add: unsigned_ucast_eq unsigned_drop_bit_eq) (simp add: take_bit_eq_mod drop_bit_eq_div)
  ultimately show ?thesis by (simp only: bytes_of_nat)
qed

lemma select_table:
  "list_all (\<lambda>n. list_all (\<lambda>d. (of_nat n OR 0xE0 OR push_bit 4 d) AND 0xF = (of_nat n :: u8)
      \<and> (bit (of_nat n OR 0xE0 OR push_bit 4 d :: u8) 4 \<longleftrightarrow> d = 1)) [0, 1]) [0..<8]"
  by code_simp

lemma select_bits:
  assumes "lba < (2 ^ 27 :: u64)" "drive \<le> 1"
  defines "v \<equiv> (ucast (drop_bit 24 lba) :: u8)"
  shows "v < 8" "(v OR 0xE0 OR push_bit 4 (of_nat drive)) AND 0xF = v"
    "bit (v OR 0xE0 OR push_bit 4 (of_nat drive)) 4 \<longleftrightarrow> drive = 1"
proof -
  from assms(1) have "unat lba < 2 ^ 27" by (simp add: word_less_nat_alt)
  then have "unat v < 8"
    unfolding v_def by (simp add: unsigned_ucast_eq unsigned_drop_bit_eq)
      (simp add: take_bit_eq_mod drop_bit_eq_div)
  then show *: "v < 8" by (simp add: word_less_nat_alt)
  from \<open>unat v < 8\<close> have "unat v \<in> set [0..<8]" by simp
  from bspec [OF select_table [unfolded list_all_iff [of _ "[0..<8]"]] this]
  have tab: "list_all (\<lambda>d. (v OR 0xE0 OR push_bit 4 d) AND 0xF = v
      \<and> (bit (v OR 0xE0 OR push_bit 4 d) 4 \<longleftrightarrow> d = 1)) [0, 1]" by simp
  from assms(2) have "drive = 0 \<or> drive = 1" by auto
  with tab * show "(v OR 0xE0 OR push_bit 4 (of_nat drive)) AND 0xF = v"
    "bit (v OR 0xE0 OR push_bit 4 (of_nat drive)) 4 \<longleftrightarrow> drive = 1" by auto
qed

lemma send_address_ata:
  assumes "lba < 2 ^ 27" "drive \<le> 1"
  obtains l' where "send_address drive lba sectors l = Some l'"
    "ad_drive (ata_state lat s0 l') = drive" "ad_lba (ata_state lat s0 l') = unat lba"
    "ad_seccount (ata_state lat s0 l') = sectors"
    "ad_store (ata_state lat s0 l') = ad_store (ata_state lat s0 l)"
proof -
  from assms(1) have "lba < 2 ^ 28" by (simp add: word_less_nat_alt)
  note parts = unat_lba_parts [OF this]
  note bits = select_bits [OF assms]
  let ?v = "ucast (drop_bit 24 lba) OR 0xE0 OR push_bit 4 (of_nat drive) :: u8"
  let ?l = "l @ [Out8 PORT_DRIVESELECT ?v, Out8 PORT_SECCOUNT sectors,
    Out8 PORT_LBA0 (ucast (lba AND 0xFF)), Out8 PORT_LBA1 (ucast (drop_bit 0x8 (lba AND 0xFF00))),
    Out8 PORT_LBA2 (ucast (drop_bit 0x10 (lba AND 0xFF0000)))]"
  have s: "ata_state lat s0 ?l = (ata_state lat s0 l)\<lparr>ad_select := ?v, ad_seccount := sectors,
      ad_lba0 := ucast (lba AND 0xFF), ad_lba1 := ucast (drop_bit 0x8 (lba AND 0xFF00)),
      ad_lba2 := ucast (drop_bit 0x10 (lba AND 0xFF0000))\<rparr>"
    by (simp add: ata_state_def ata_ports)
  show thesis
  proof (rule that)
    show "send_address drive lba sectors l = Some ?l"
      using bits(1) by (simp add: send_address_def out8_def)
    show "ad_drive (ata_state lat s0 ?l) = drive"
      unfolding s ad_drive_def using bits(3) assms(2) by auto
    show "ad_lba (ata_state lat s0 ?l) = unat lba"
      unfolding s ad_lba_def using bits(2) parts by simp
  qed (simp_all only: s, simp_all)
qed

lemma send_address_panics: "2 ^ 27 \<le> lba \<Longrightarrow> lba < 2 ^ 28 \<Longrightarrow> send_address drive lba sectors l = None"
proof -
  assume "2 ^ 27 \<le> lba" "lba < 2 ^ 28"
  then have "8 \<le> unat lba div 2 ^ 24" "unat lba < 2 ^ 28"
    by (simp_all add: word_less_nat_alt word_le_nat_alt)
  then have "8 \<le> unat (ucast (drop_bit 24 lba) :: u8)"
    by (simp add: unsigned_ucast_eq unsigned_drop_bit_eq) (simp add: take_bit_eq_mod drop_bit_eq_div)
  then have "\<not> (ucast (drop_bit 24 lba) :: u8) < 8" by (simp add: word_less_nat_alt)
  then show ?thesis by (simp add: send_address_def)
qed

lemma send_command_ata:
  assumes "is_ata lat s0 dv" "lat < fuel"
    and "s = ata_state lat s0 l" and "cmd = 0x20 \<or> cmd = 0x30"
  shows "\<exists>l'. wait_ready dv fuel (send_command cmd l) = Some l'
    \<and> ata_state lat s0 l' = s\<lparr>ad_busy := 0, ad_mode :=
      (if cmd = 0x20 then Reading (256 * ad_lba s) (ad_words s)
       else Writing (256 * ad_lba s) (ad_words s))\<rparr>"
proof -
  have s: "ata_state lat s0 (send_command cmd l) = s\<lparr>ad_busy := lat, ad_mode :=
      (if cmd = 0x20 then Reading (256 * ad_lba s) (ad_words s)
       else Writing (256 * ad_lba s) (ad_words s))\<rparr>"
    using assms(3,4) by (auto simp: send_command_def out8_def ata_ports)
  then have "ad_busy (ata_state lat s0 (send_command cmd l)) < fuel" using assms(2) by simp
  from wait_ready_ata [OF assms(1) this, unfolded s] show ?thesis by auto
qed

lemma read_words_ata:
  assumes "is_ata lat s0 dv" "lat < fuel" and s: "s = ata_state lat s0 l"
    and "ad_seccount s = sectors" "sectors \<noteq> 0"
  shows "\<exists>l1 l2. wait_ready dv fuel (send_command 0x20 l) = Some l1
    \<and> in16s dv PORT_DATA (256 * unat sectors) l1 = (map (ad_store s (ad_drive s))
        [256 * ad_lba s..<256 * ad_lba s + 256 * unat sectors], l2)
    \<and> disk_words lat s0 l2 = ad_store s"
proof -
  obtain l1 where l1: "wait_ready dv fuel (send_command 0x20 l) = Some l1"
    and s1: "ata_state lat s0 l1 = s\<lparr>ad_busy := 0, ad_mode := Reading (256 * ad_lba s) (ad_words s)\<rparr>"
    using send_command_ata [OF assms(1-3), where cmd = "0x20"] by auto
  from assms(4,5) have "ad_words s = 256 * unat sectors" by (simp add: ad_words_def)
  with s1 have "ad_mode (ata_state lat s0 l1) = Reading (256 * ad_lba s) (256 * unat sectors + 0)" by simp
  from in16s_ata [OF assms(1) this] s1 l1 show ?thesis by auto
qed

definition disk_bytes :: "(nat \<Rightarrow> u16) \<Rightarrow> nat \<Rightarrow> nat \<Rightarrow> bytes" where
  "disk_bytes f lba n = concat (map word_bytes (map f [256 * lba..<256 * (lba + n)]))"

lemma read_lba_ata:
  assumes "is_ata lat s0 dv" "lat < fuel" "lba < 2 ^ 27" "drive \<le> 1" "sectors \<noteq> 0"
  obtains l' where "read_lba dv fuel drive lba sectors l
      = Some (disk_bytes (disk_words lat s0 l drive) (unat lba) (unat sectors), l')"
    "disk_words lat s0 l' = disk_words lat s0 l"
proof -
  obtain l1 where l1: "send_address drive lba sectors l = Some l1"
    "ad_drive (ata_state lat s0 l1) = drive" "ad_lba (ata_state lat s0 l1) = unat lba"
    "ad_seccount (ata_state lat s0 l1) = sectors" "disk_words lat s0 l1 = disk_words lat s0 l"
    using assms(3,4) by (rule send_address_ata)
  from read_words_ata [OF assms(1,2) refl l1(4) assms(5)] l1 obtain l2 l3 where
    l2: "wait_ready dv fuel (send_command 0x20 l1) = Some l2" and
    l3: "in16s dv PORT_DATA (256 * unat sectors) l2
      = (map (disk_words lat s0 l drive) [256 * unat lba..<256 * unat lba + 256 * unat sectors], l3)"
    "disk_words lat s0 l3 = disk_words lat s0 l" by auto
  from assms(3) have "lba < 2 ^ 28" by (simp add: word_less_nat_alt)
  moreover have "0 < sectors" using assms(5) by (simp add: word_gt_0)
  ultimately show thesis using l1(1) l2 l3 assms(4) that
    by (auto simp: read_lba_def disk_bytes_def ATA_SECTOR_SIZE_def mult.commute distrib_left)
qed

lemma length_data_words: "length (data_words dat) = length dat div 2"
  by (induction dat rule: data_words.induct) simp_all

lemma word_bytes_join: "word_bytes (ucast lo OR push_bit 8 (ucast hi)) = [lo, hi]"
proof -
  let ?w = "ucast lo OR push_bit 8 (ucast hi) :: u16"
  have m: "?w AND 0xFF = take_bit 8 ?w" "drop_bit 8 (?w AND 0xFF00) = take_bit 8 (drop_bit 8 ?w)"
    by (simp_all add: take_bit_eq_mask mask_eq_exp_minus_1)
  have "ucast (take_bit 8 ?w) = lo" by (rule bit_word_eqI) (simp add: bit_simps)
  moreover have "ucast (take_bit 8 (drop_bit 8 ?w)) = hi"
    by (rule bit_word_eqI) (auto simp: bit_simps dest: bit_imp_le_length)
  ultimately show ?thesis unfolding word_bytes_def m by simp
qed

lemma data_words_bytes: "even (length dat) \<Longrightarrow> concat (map word_bytes (data_words dat)) = dat"
  by (induction dat rule: data_words.induct) (simp_all add: word_bytes_join)

lemma write_lba_ata:
  assumes "is_ata lat s0 dv" "lat < fuel" "lba < 2 ^ 27" "drive \<le> 1"
    and "length dat = 512 * n" "0 < n" "n \<le> 256"
  obtains l' where "write_lba dv fuel drive lba dat l = Some l'"
    "disk_words lat s0 l' = (disk_words lat s0 l)(drive :=
       overwrite (256 * unat lba) (data_words dat) (disk_words lat s0 l drive))"
proof -
  obtain l1 where l1: "send_address drive lba (of_nat n) l = Some l1"
    "ad_drive (ata_state lat s0 l1) = drive" "ad_lba (ata_state lat s0 l1) = unat lba"
    "ad_seccount (ata_state lat s0 l1) = of_nat n" "disk_words lat s0 l1 = disk_words lat s0 l"
    using assms(3,4) by (rule send_address_ata)
  let ?s = "ata_state lat s0 l1"
  obtain l2 where l2: "wait_ready dv fuel (send_command 0x30 l1) = Some l2"
    and s2: "ata_state lat s0 l2 = ?s\<lparr>ad_busy := 0, ad_mode := Writing (256 * ad_lba ?s) (ad_words ?s)\<rparr>"
    using send_command_ata [OF assms(1,2) refl, where cmd = "0x30" and l = l1] by auto
  have "ad_words ?s = 256 * n"
  proof (cases "n = 256")
    case True
    with l1(4) show ?thesis by (simp add: ad_words_def)
  next
    case False
    with assms(7) have "unat (of_nat n :: u8) = n" by (simp add: unat_of_nat take_bit_eq_mod)
    with l1(4) assms(6) show ?thesis by (auto simp: ad_words_def)
  qed
  with s2 l1(3) assms(5) have "ad_mode (ata_state lat s0 l2) = Writing (256 * unat lba) (length (data_words dat) + 0)"
    by (simp add: length_data_words)
  from out16s_ata [OF this] s2 l1 have
    "disk_words lat s0 (fold (out16 PORT_DATA) (data_words dat) l2) = (disk_words lat s0 l)(drive :=
       overwrite (256 * unat lba) (data_words dat) (disk_words lat s0 l drive))"
    by (simp add: Let_def)
  moreover from assms(3) have "lba < 2 ^ 28" by (simp add: word_less_nat_alt)
  ultimately show thesis using l1(1) l2 assms(4-6) that
    by (simp add: write_lba_def ATA_SECTOR_SIZE_def)
qed

text \<open>The driver cannot address the upper half of the sectors a 28-bit address reaches.\<close>

lemma ata_upper_half_panics:
  assumes "2 ^ 27 \<le> lba" "lba < 2 ^ 28"
  shows "read_lba dv fuel drive lba sectors l = None" "write_lba dv fuel drive lba dat l = None"
  using send_address_panics [OF assms] by (simp_all add: read_lba_def write_lba_def rassert_def)

text \<open>C25: What the disk driver writes is what it reads back. On a drive that is busy for at most
  \<open>lat\<close> status reads after each command, writing up to 255 whole sectors below sector
  \<open>2 ^ 27\<close> returns, changes exactly those sectors of that drive, and reading
  the same sectors returns the bytes written and changes no sector.\<close>

theorem ata_write_read:
  assumes "is_ata lat s0 dv" "lat < fuel" "lba < 2 ^ 27" "drive \<le> 1"
    and "length dat = 512 * unat sectors" "sectors \<noteq> 0"
  shows "\<exists>l1 l2. write_lba dv fuel drive lba dat l = Some l1
    \<and> read_lba dv fuel drive lba sectors l1 = Some (dat, l2)
    \<and> disk_words lat s0 l2 = disk_words lat s0 l1
    \<and> (\<forall>d q. d \<noteq> drive \<or> q < 256 * unat lba \<or> 256 * (unat lba + unat sectors) \<le> q
         \<longrightarrow> disk_words lat s0 l1 d q = disk_words lat s0 l d q)"
proof -
  have n: "0 < unat sectors" "unat sectors \<le> 256"
    using assms(6) unsigned_less [of sectors] by (auto simp: unat_gt_0 intro: less_imp_le)
  let ?a = "256 * unat lba"
  obtain l1 where l1: "write_lba dv fuel drive lba dat l = Some l1"
    "disk_words lat s0 l1 = (disk_words lat s0 l)(drive :=
       overwrite ?a (data_words dat) (disk_words lat s0 l drive))"
    using assms(1-5) n by (rule write_lba_ata)
  obtain l2 where l2: "read_lba dv fuel drive lba sectors l1
      = Some (disk_bytes (disk_words lat s0 l1 drive) (unat lba) (unat sectors), l2)"
    "disk_words lat s0 l2 = disk_words lat s0 l1"
    using assms(1-4,6) by (rule read_lba_ata)
  have len: "?a + length (data_words dat) = 256 * (unat lba + unat sectors)"
    using assms(5) by (simp add: length_data_words)
  have "map (disk_words lat s0 l1 drive) [?a..<256 * (unat lba + unat sectors)] = data_words dat"
    unfolding l1(2) len [symmetric] by (simp add: map_overwrite)
  then have "disk_bytes (disk_words lat s0 l1 drive) (unat lba) (unat sectors) = dat"
    using assms(5) by (simp add: disk_bytes_def data_words_bytes)
  with l1 l2 len show ?thesis by (auto simp: overwrite_def)
qed

definition demo_ata_state :: AtaDrive where
  "demo_ata_state = \<lparr>ad_select = 0, ad_seccount = 0, ad_lba0 = 0, ad_lba1 = 0, ad_lba2 = 0,
     ad_mode = Idle, ad_busy = 0, ad_store = (\<lambda>_ _. 0)\<rparr>"

definition demo_ata :: Dev where
  "demo_ata = \<lparr>dv8 = (\<lambda>l p. if ad_busy (ata_state 7 demo_ata_state l) = 0 then 0x40 else 0x80),
     dv16 = (\<lambda>l p. let s = ata_state 7 demo_ata_state l in
       case ad_mode s of Reading a n \<Rightarrow> ad_store s (ad_drive s) a | _ \<Rightarrow> 0), dv32 = (\<lambda>_ _. 0)\<rparr>"

theorem ata_write_read_witness:
  "\<exists>l1 l2. write_lba demo_ata 8 1 1000 (replicate 1024 0x5a) [] = Some l1
    \<and> read_lba demo_ata 8 1 1000 2 l1 = Some (replicate 1024 0x5a, l2)"
proof -
  have "is_ata 7 demo_ata_state demo_ata" by (auto simp: is_ata_def demo_ata_def Let_def)
  from ata_write_read [OF this, of 8 1000 1 "replicate 1024 0x5a" 2 "[]"]
  show ?thesis by auto
qed

end
