(* ===== verification/D7Boot.thy ===== *)
theory D7Boot
  imports AtaPio ByteCodec
begin

text \<open>
  The second stage of the boot loader (\<open>libs/d7boot/src/lib.rs\<close> and \<open>ata_pio.rs\<close>): it
  reads the sectors of the boot disk into memory, copies the segments of the kernel image to
  their addresses and the initial ram disk behind them.

  Memory is a function from addresses to bytes. \<open>error\<close> halts the processor: the result is
  \<open>None\<close>, as it is for polling loops that use up their fuel and for undefined behaviour
  (\<open>copy_nonoverlapping\<close> of overlapping ranges). Arithmetic on addresses wraps at 64 bits.
\<close>

unbundle bit_operations_syntax

type_synonym boot_mem = "nat \<Rightarrow> u8"

subsection \<open>Disk access (ata_pio.rs)\<close>

definition boot_read_status :: "Dev \<Rightarrow> io_log \<Rightarrow> u8 \<times> io_log" where
  "boot_read_status dv = in8 dv PORT_COMMAND"

definition boot_send_command :: "u8 \<Rightarrow> io_log \<Rightarrow> io_log" where
  "boot_send_command cmd = out8 PORT_COMMAND cmd"

fun boot_reset_wait :: "Dev \<Rightarrow> nat \<Rightarrow> io_log \<Rightarrow> io_log option" where
  "boot_reset_wait dv 0 l = None"
| "boot_reset_wait dv (Suc fuel) l =
     (let (v, l) = in8 dv PORT_DEV_CTRL l in
      if v AND 0xc0 = 0x40 then Some l else boot_reset_wait dv fuel l)"

definition boot_reset_drives :: "Dev \<Rightarrow> nat \<Rightarrow> io_log \<Rightarrow> io_log option" where
  "boot_reset_drives dv fuel l =
     (let l = out8 PORT_DEV_CTRL 0 l; (_, l) = in8s dv PORT_DEV_CTRL 4 l in boot_reset_wait dv fuel l)"

definition boot_is_ready :: "Dev \<Rightarrow> io_log \<Rightarrow> bool \<times> io_log" where
  "boot_is_ready dv l =
     (let (_, l) = in8s dv PORT_COMMAND 4 l; (dat, l) = boot_read_status dv l
      in (dat AND 0xc0 = 0x40, l))"

fun boot_wait_ready :: "Dev \<Rightarrow> nat \<Rightarrow> io_log \<Rightarrow> io_log option" where
  "boot_wait_ready dv 0 l = None"
| "boot_wait_ready dv (Suc fuel) l =
     (case boot_is_ready dv l of (ready, l) \<Rightarrow> if ready then Some l else boot_wait_ready dv fuel l)"

fun boot_identify_wait :: "Dev \<Rightarrow> nat \<Rightarrow> bool \<Rightarrow> io_log \<Rightarrow> (bool \<times> io_log) option" where
  "boot_identify_wait dv 0 first_cleared l = None"
| "boot_identify_wait dv (Suc fuel) first_cleared l =
     (let (dat, l) = boot_read_status dv l in
      if dat = 0 then Some (False, l)
      else if dat AND 1 \<noteq> 0 then None
      else if dat AND 0x80 \<noteq> 0 then boot_identify_wait dv fuel first_cleared l
      else if first_cleared then
        (let (v1, l) = in8 dv PORT_LBA1 l; (v2, l) = in8 dv PORT_LBA2 l in
         if v1 \<noteq> 0 \<or> v2 \<noteq> 0 then None else boot_identify_wait dv fuel False l)
      else if dat AND 8 \<noteq> 0 then Some (True, l)
      else boot_identify_wait dv fuel first_cleared l)"

definition boot_sectors_of :: "u16 list \<Rightarrow> u64 option" where
  "boot_sectors_of dat = do {
     let lba48_supported = (dat ! 83 AND 0x400 \<noteq> 0);
     let lba28_sectors = (ucast (ucast (dat ! 60) OR push_bit 0x10 (ucast (dat ! 61)) :: u32) :: u64);
     let lba48_sectors = (if lba48_supported
       then ucast (dat ! 100) OR push_bit 0x10 (ucast (dat ! 101))
         OR push_bit 0x20 (ucast (dat ! 102)) OR push_bit 0x30 (ucast (dat ! 103))
       else 0);
     rassert (\<not> (lba28_sectors = 0 \<and> lba48_sectors = 0));
     Some (if lba48_supported then max lba48_sectors lba28_sectors else lba28_sectors)
   }"

definition boot_identify :: "Dev \<Rightarrow> nat \<Rightarrow> io_log \<Rightarrow> (u64 \<times> io_log) option" where
  "boot_identify dv fuel l = do {
     let l = out8 PORT_DRIVESELECT 0xa0 l;
     let l = out8 PORT_SECCOUNT 0 l;
     let l = out8 PORT_LBA0 0 l;
     let l = out8 PORT_LBA1 0 l;
     let l = out8 PORT_LBA2 0 l;
     let l = boot_send_command 0xEC l;
     (found, l) \<leftarrow> boot_identify_wait dv fuel True l;
     (if \<not> found then Some (0, l)
      else do {
        let (dat, l) = in16s dv PORT_DATA 256 l;
        n \<leftarrow> boot_sectors_of dat;
        Some (n, l)
      })
   }"

definition boot_ata_init :: "Dev \<Rightarrow> nat \<Rightarrow> io_log \<Rightarrow> (u64 \<times> io_log) option" where
  "boot_ata_init dv fuel l = do {
     l \<leftarrow> boot_reset_drives dv fuel l;
     boot_identify dv fuel l
   }"

fun store_words :: "nat \<Rightarrow> u16 list \<Rightarrow> boot_mem \<Rightarrow> boot_mem" where
  "store_words dst [] mem = mem"
| "store_words dst (w # ws) mem =
     store_words (dst + 2) ws (mem(dst := ucast w, dst + 1 := ucast (drop_bit 8 w)))"

definition boot_read_lba ::
  "Dev \<Rightarrow> nat \<Rightarrow> u64 \<Rightarrow> u8 \<Rightarrow> nat \<Rightarrow> boot_mem \<times> io_log \<Rightarrow> (boot_mem \<times> io_log) option" where
  "boot_read_lba dv fuel lba sectors dst ml = (case ml of (mem, l) \<Rightarrow> do {
     rassert (sectors \<noteq> 0);
     rassert (\<not> 2 ^ 28 \<le> lba);
     let bits24_27 = ((ucast (drop_bit 24 lba) :: u8) OR 0xE0);
     let l = out8 PORT_DRIVESELECT bits24_27 l;
     let l = out8 PORT_SECCOUNT sectors l;
     let l = out8 PORT_LBA0 (ucast (lba AND 0xFF)) l;
     let l = out8 PORT_LBA1 (ucast (drop_bit 0x8 (lba AND 0xFF00))) l;
     let l = out8 PORT_LBA2 (ucast (drop_bit 0x10 (lba AND 0xFF0000))) l;
     let l = boot_send_command 0x20 l;
     l \<leftarrow> boot_wait_ready dv fuel l;
     let (ws, l) = in16s dv PORT_DATA (unat sectors * (ATA_SECTOR_SIZE div 2)) l;
     Some (store_words dst ws mem, l)
   })"

subsection \<open>Loading the kernel (lib.rs)\<close>

definition ELF_LOADPOINT :: nat where "ELF_LOADPOINT = 0x100000"
definition INITRD_SPLIT_SECTOR_PTR :: nat where "INITRD_SPLIT_SECTOR_PTR = 0x3000"
definition INITRD_END_SECTOR_PTR :: nat where "INITRD_END_SECTOR_PTR = 0x3004"
definition KERNEL_ENTRY_POINT :: nat where "KERNEL_ENTRY_POINT = 0x1000000"
definition BOOT_PAGE_SIZE_BYTES :: nat where "BOOT_PAGE_SIZE_BYTES = 0x200000"
definition BOOTLOADER_SECTOR_COUNT :: nat where "BOOTLOADER_SECTOR_COUNT = 6"

definition boot_page_align_up :: "u64 \<Rightarrow> u64" where
  "boot_page_align_up addr = (addr + of_nat BOOT_PAGE_SIZE_BYTES - 1) AND NOT (of_nat BOOT_PAGE_SIZE_BYTES - 1)"

definition mem_le :: "boot_mem \<Rightarrow> nat \<Rightarrow> nat \<Rightarrow> nat" where
  "mem_le mem a n = from_le (mem_range mem a n)"

definition write_bytes :: "nat \<Rightarrow> u8 \<Rightarrow> nat \<Rightarrow> boot_mem \<Rightarrow> boot_mem" where
  "write_bytes dst v n mem = (\<lambda>a. if dst \<le> a \<and> a < dst + n then v else mem a)"

definition copy_nonoverlapping :: "nat \<Rightarrow> nat \<Rightarrow> nat \<Rightarrow> boot_mem \<Rightarrow> boot_mem option" where
  "copy_nonoverlapping src dst n mem = do {
     rassert (src + n \<le> dst \<or> dst + n \<le> src);
     Some (\<lambda>a. if dst \<le> a \<and> a < dst + n then mem (src + (a - dst)) else mem a)
   }"

definition check_elf :: "boot_mem \<Rightarrow> unit option" where
  "check_elf mem = do {
     rassert (mem_le mem ELF_LOADPOINT 4 = 0x464c457f);
     rassert (mem_le mem (ELF_LOADPOINT + 0x18) 8 = KERNEL_ENTRY_POINT)
   }"

definition load_segment :: "boot_mem \<times> nat \<Rightarrow> nat \<Rightarrow> (boot_mem \<times> nat) option" where
  "load_segment s i = (case s of (mem, max_vaddr) \<Rightarrow> do {
     let base = ELF_LOADPOINT + 0x40 + i * 0x38;
     (if mem_le mem base 4 = 1
      then do {
        let p_offset = mem_le mem (base + 0x08) 8;
        let p_vaddr = mem_le mem (base + 0x10) 8;
        let p_filesz = mem_le mem (base + 0x20) 8;
        let p_memsz = mem_le mem (base + 0x28) 8;
        let max_vaddr = (if max_vaddr < p_vaddr then (p_vaddr + p_memsz) mod 2 ^ 64 else max_vaddr);
        let mem = write_bytes p_vaddr 0 p_memsz mem;
        mem \<leftarrow> copy_nonoverlapping ((ELF_LOADPOINT + p_offset) mod 2 ^ 64) p_vaddr p_filesz mem;
        Some (mem, max_vaddr)
      }
      else Some (mem, max_vaddr))
   })"

definition load_sectors ::
  "Dev \<Rightarrow> nat \<Rightarrow> nat \<Rightarrow> boot_mem \<times> io_log \<Rightarrow> (boot_mem \<times> io_log) option" where
  "load_sectors dv fuel end_sector ml =
     map_option fst (foldM (\<lambda>(ml, dst) lba. do {
         ml \<leftarrow> boot_read_lba dv fuel (of_nat lba) 1 dst ml;
         Some (ml, dst + 0x200)
       }) (ml, ELF_LOADPOINT) [BOOTLOADER_SECTOR_COUNT ..< end_sector])"

text \<open>The characters shown before the jump to the kernel are stored in the screen memory.\<close>

definition show_loaded :: "boot_mem \<Rightarrow> boot_mem" where
  "show_loaded mem = (\<lambda>a. if 0xb8000 \<le> a \<and> a < 0xb8008
     then to_le 8 0x0f4b0f200f3e0f2d ! (a - 0xb8000) else mem a)"

definition d7boot :: "Dev \<Rightarrow> nat \<Rightarrow> boot_mem \<times> io_log \<Rightarrow> (boot_mem \<times> io_log) option" where
  "d7boot dv fuel ml = (case ml of (mem, l) \<Rightarrow> do {
     let initrd_start_sector = mem_le mem INITRD_SPLIT_SECTOR_PTR 4;
     let initrd_end_sector = mem_le mem INITRD_END_SECTOR_PTR 4;
     (supported_sector_count, l) \<leftarrow> boot_ata_init dv fuel l;
     rassert (\<not> unat supported_sector_count < initrd_end_sector);
     (mem, l) \<leftarrow> load_sectors dv fuel initrd_end_sector (mem, l);
     check_elf mem;
     let program_header_count = mem_le mem (ELF_LOADPOINT + 0x38) 2;
     (mem, max_vaddr) \<leftarrow> foldM load_segment (mem, 0) [0 ..< program_header_count];
     let src_ptr = (ELF_LOADPOINT + (initrd_start_sector + 2 ^ 64 - BOOTLOADER_SECTOR_COUNT) * 0x200) mod 2 ^ 64;
     let dst_ptr = unat (boot_page_align_up (of_nat max_vaddr));
     let n = ((initrd_end_sector + 2 ^ 64 - initrd_start_sector) * 0x200) mod 2 ^ 64;
     mem \<leftarrow> copy_nonoverlapping src_ptr dst_ptr n mem;
     Some (show_loaded mem, l)
   })"

subsection \<open>Reading sectors\<close>

lemma boot_is_ready_eq: "boot_is_ready = is_ready"
  by (simp add: fun_eq_iff boot_is_ready_def is_ready_def boot_read_status_def read_status_def)

lemma boot_wait_ready_eq: "boot_wait_ready dv fuel l = wait_ready dv fuel l"
  by (induction fuel arbitrary: l) (simp_all add: boot_is_ready_eq split: prod.split)

lemma boot_send_command_eq: "boot_send_command = send_command"
  by (simp add: fun_eq_iff boot_send_command_def send_command_def)

lemma boot_select_table:
  "list_all (\<lambda>n. (of_nat n OR 0xE0) AND 0xF = (of_nat n :: u8)
      \<and> \<not> bit (of_nat n OR 0xE0 :: u8) 4) [0..<16]"
  by code_simp

lemma boot_select_bits:
  assumes "lba < (2 ^ 28 :: u64)"
  defines "v \<equiv> (ucast (drop_bit 24 lba) :: u8)"
  shows "(v OR 0xE0) AND 0xF = v" "\<not> bit (v OR 0xE0) 4"
proof -
  from assms(1) have "unat lba < 2 ^ 28" by (simp add: word_less_nat_alt)
  then have "unat v < 16"
    unfolding v_def by (simp add: unsigned_ucast_eq unsigned_drop_bit_eq)
      (simp add: take_bit_eq_mod drop_bit_eq_div)
  then have "unat v \<in> set [0..<16]" by simp
  from bspec [OF boot_select_table [unfolded list_all_iff] this]
  show "(v OR 0xE0) AND 0xF = v" "\<not> bit (v OR 0xE0) 4" by simp_all
qed

lemma boot_read_lba_ata:
  assumes "is_ata lat s0 dv" "lat < fuel" "lba < 2 ^ 28" "sectors \<noteq> 0"
  obtains l' where "boot_read_lba dv fuel lba sectors dst (mem, l)
      = Some (store_words dst (map (disk_words lat s0 l 0)
          [256 * unat lba..<256 * unat lba + 256 * unat sectors]) mem, l')"
    "disk_words lat s0 l' = disk_words lat s0 l"
proof -
  let ?v = "ucast (drop_bit 24 lba) OR 0xE0 :: u8"
  let ?l = "l @ [Out8 PORT_DRIVESELECT ?v, Out8 PORT_SECCOUNT sectors,
    Out8 PORT_LBA0 (ucast (lba AND 0xFF)), Out8 PORT_LBA1 (ucast (drop_bit 0x8 (lba AND 0xFF00))),
    Out8 PORT_LBA2 (ucast (drop_bit 0x10 (lba AND 0xFF0000)))]"
  let ?s = "ata_state lat s0 ?l"
  note bits = boot_select_bits [OF assms(3)] and parts = unat_lba_parts [OF assms(3)]
  have s: "?s = (ata_state lat s0 l)\<lparr>ad_select := ?v, ad_seccount := sectors,
      ad_lba0 := ucast (lba AND 0xFF), ad_lba1 := ucast (drop_bit 0x8 (lba AND 0xFF00)),
      ad_lba2 := ucast (drop_bit 0x10 (lba AND 0xFF0000))\<rparr>"
    by (simp add: ata_state_def ata_ports)
  obtain l1 where l1: "l1 = ?l" by blast
  have f: "ad_drive (ata_state lat s0 l1) = 0" "ad_lba (ata_state lat s0 l1) = unat lba"
    "ad_seccount (ata_state lat s0 l1) = sectors" "disk_words lat s0 l1 = disk_words lat s0 l"
    unfolding l1 s ad_drive_def ad_lba_def using bits parts by simp_all
  from read_words_ata [OF assms(1,2) refl f(3) assms(4)] f obtain l2 l3 where
    l2: "wait_ready dv fuel (send_command 0x20 l1) = Some l2" and
    l3: "in16s dv PORT_DATA (256 * unat sectors) l2
      = (map (disk_words lat s0 l 0) [256 * unat lba..<256 * unat lba + 256 * unat sectors], l3)"
    "disk_words lat s0 l3 = disk_words lat s0 l" by auto
  show thesis
  proof (rule that)
    show "boot_read_lba dv fuel lba sectors dst (mem, l)
      = Some (store_words dst (map (disk_words lat s0 l 0)
          [256 * unat lba..<256 * unat lba + 256 * unat sectors]) mem, l3)"
      using l2 [unfolded l1] l3(1) assms(3,4) by (simp add: boot_read_lba_def boot_wait_ready_eq boot_send_command_eq
        out8_def ATA_SECTOR_SIZE_def mult.commute not_le)
  qed (rule l3(2))
qed

lemma word_bytes_eq: "word_bytes w = [ucast w, ucast (drop_bit 8 w)]"
proof -
  have m: "w AND 0xFF = take_bit 8 w" "drop_bit 8 (w AND 0xFF00) = take_bit 8 (drop_bit 8 w)"
    by (simp_all add: take_bit_eq_mask mask_eq_exp_minus_1)
  have "(ucast (take_bit 8 v) :: u8) = ucast v" for v :: u16
    by (rule bit_word_eqI) (simp add: bit_simps)
  then show ?thesis unfolding word_bytes_def m by simp
qed

lemma store_words_overwrite: "store_words dst ws mem = overwrite dst (concat (map word_bytes ws)) mem"
  by (induction ws arbitrary: dst mem) (simp_all add: word_bytes_eq overwrite_Cons)

lemma length_disk_bytes [simp]: "length (disk_bytes f a n) = 512 * n"
  by (simp add: disk_bytes_def length_concat word_bytes_def comp_def sum_list_triv diff_mult_distrib2 [symmetric])

lemma disk_bytes_Suc: "disk_bytes f a (Suc n) = disk_bytes f a n @ disk_bytes f (a + n) 1"
proof -
  have "[256 * a..<256 * (a + Suc n)] = [256 * a..<256 * (a + n)] @ [256 * (a + n)..<256 * (a + n + 1)]"
    using upt_add_eq_append [of "256 * a" "256 * (a + n)" 256] by (simp add: distrib_left add.commute [of 256])
  then show ?thesis by (simp add: disk_bytes_def del: upt_Suc)
qed

lemma load_sectors_ata:
  assumes "is_ata lat s0 dv" "lat < fuel"
  shows "6 + n \<le> 2 ^ 28 \<Longrightarrow> \<exists>l'. foldM (\<lambda>(ml, dst) lba. do {
         ml \<leftarrow> boot_read_lba dv fuel (of_nat lba) 1 dst ml;
         Some (ml, dst + 0x200)
       }) ((mem, l), ELF_LOADPOINT) [6 ..< 6 + n]
     = Some ((overwrite ELF_LOADPOINT (disk_bytes (disk_words lat s0 l 0) 6 n) mem, l'), ELF_LOADPOINT + 512 * n)
     \<and> disk_words lat s0 l' = disk_words lat s0 l"
proof (induction n)
  case 0
  then show ?case by (simp add: disk_bytes_def)
next
  case (Suc n)
  let ?d = "disk_bytes (disk_words lat s0 l 0)"
  let ?m = "overwrite ELF_LOADPOINT (?d 6 n) mem"
  from Suc obtain l1 where l1: "foldM (\<lambda>(ml, dst) lba. do {
         ml \<leftarrow> boot_read_lba dv fuel (of_nat lba) 1 dst ml;
         Some (ml, dst + 0x200)
       }) ((mem, l), ELF_LOADPOINT) [6 ..< 6 + n] = Some ((?m, l1), ELF_LOADPOINT + 512 * n)"
    and d1: "disk_words lat s0 l1 = disk_words lat s0 l" by auto
  have u: "unat (of_nat (6 + n) :: u64) = 6 + n"
    using Suc.prems by (simp add: unat_of_nat take_bit_eq_mod del: of_nat_add)
  with Suc.prems have "(of_nat (6 + n) :: u64) < 2 ^ 28" by (simp add: word_less_nat_alt)
  then obtain l2 where l2: "boot_read_lba dv fuel (of_nat (6 + n)) 1 (ELF_LOADPOINT + 512 * n) (?m, l1)
      = Some (store_words (ELF_LOADPOINT + 512 * n) (map (disk_words lat s0 l1 0)
          [256 * unat (of_nat (6 + n) :: u64)..<256 * unat (of_nat (6 + n) :: u64) + 256 * unat (1 :: u8)]) ?m, l2)"
    and d2: "disk_words lat s0 l2 = disk_words lat s0 l1"
    by (rule boot_read_lba_ata [OF assms _ one_neq_zero])
  have "store_words (ELF_LOADPOINT + 512 * n) (map (disk_words lat s0 l1 0)
          [256 * unat (of_nat (6 + n) :: u64)..<256 * unat (of_nat (6 + n) :: u64) + 256 * unat (1 :: u8)]) ?m
      = overwrite (ELF_LOADPOINT + length (?d 6 n)) (?d (6 + n) 1) ?m"
    unfolding u by (simp only: store_words_overwrite d1 disk_bytes_def [of _ "6 + n"])
      (simp add: distrib_left del: upt_Suc)
  also have "\<dots> = overwrite ELF_LOADPOINT (?d 6 (Suc n)) mem"
    by (simp only: overwrite_append disk_bytes_Suc)
  finally have m2: "store_words (ELF_LOADPOINT + 512 * n) (map (disk_words lat s0 l1 0)
          [256 * unat (of_nat (6 + n) :: u64)..<256 * unat (of_nat (6 + n) :: u64) + 256 * unat (1 :: u8)]) ?m
      = overwrite ELF_LOADPOINT (?d 6 (Suc n)) mem" .
  have up: "[6 ..< 6 + Suc n] = [6 ..< 6 + n] @ [6 + n]"
    by (simp only: add_Suc_right upt_Suc_append [OF le_add1])
  show ?case unfolding up foldM_append l1 using l2 [unfolded m2] d1 d2 by simp
qed

text \<open>Nothing before the first write to the data port changes the disk.\<close>

lemma disk_unchanged: "(\<And>w. Out16 PORT_DATA w \<notin> set ops) \<Longrightarrow>
    ad_store (foldl (ata_step lat) s ops) = ad_store s"
proof (induction ops arbitrary: s)
  case Nil
  then show ?case by simp
next
  case (Cons x ops)
  from Cons.prems have "x \<noteq> Out16 PORT_DATA w" for w by auto
  then have "ad_store (ata_step lat s x) = ad_store s"
    by (cases x) (auto split: AtaMode.split nat.split)
  with Cons show ?case by simp
qed

definition no_data_write :: "PortOp \<Rightarrow> bool" where
  "no_data_write x \<longleftrightarrow> (\<forall>w. x \<noteq> Out16 PORT_DATA w)"

lemma no_data_write_simps [simp]:
  "no_data_write (In8 p v8)" "no_data_write (In16 p v16)" "no_data_write (Out8 p v8)"
  by (simp_all add: no_data_write_def)

definition only_reads :: "io_log \<Rightarrow> io_log \<Rightarrow> bool" where
  "only_reads l l' \<longleftrightarrow> (\<exists>ops. l' = l @ ops \<and> list_all no_data_write ops)"

lemma only_reads_trans: "only_reads l l1 \<Longrightarrow> only_reads l1 l2 \<Longrightarrow> only_reads l l2"
  by (fastforce simp: only_reads_def)

lemma only_reads_refl [simp]: "list_all no_data_write ops \<Longrightarrow> only_reads l (l @ ops)"
  by (simp add: only_reads_def)

lemma only_reads_append: "only_reads (l @ ops) l' \<Longrightarrow> list_all no_data_write ops \<Longrightarrow> only_reads l l'"
  by (auto simp: only_reads_def)

lemma only_reads_disk: "only_reads l l' \<Longrightarrow> disk_words lat s0 l' = disk_words lat s0 l"
  unfolding only_reads_def ata_state_def list_all_iff no_data_write_def
  using disk_unchanged by fastforce

lemma in8s_only_reads: "in8s dv p n l = (vs, l') \<Longrightarrow> only_reads l l'"
  using in8s_log by (fastforce simp: only_reads_def list_all_iff)

lemma in16s_only_reads: "in16s dv p n l = (vs, l') \<Longrightarrow> only_reads l l'"
  using in16s_log by (fastforce simp: only_reads_def list_all_iff)

lemma boot_reset_wait_only_reads: "boot_reset_wait dv fuel l = Some l' \<Longrightarrow> only_reads l l'"
proof (induction fuel arbitrary: l)
  case (Suc fuel)
  then show ?case
    by (auto simp: in8_def Let_def split: if_splits dest!: Suc.IH elim: only_reads_append)
qed simp

lemma boot_identify_wait_only_reads:
  "boot_identify_wait dv fuel b l = Some (found, l') \<Longrightarrow> only_reads l l'"
proof (induction fuel arbitrary: b l)
  case (Suc fuel)
  then show ?case
    by (auto simp: boot_read_status_def in8_def Let_def split: if_splits
        dest!: Suc.IH elim: only_reads_append)
qed simp

lemma boot_ata_init_only_reads:
  assumes "boot_ata_init dv fuel l = Some (n, l')"
  shows "only_reads l l'"
proof -
  from assms obtain l1 where reset: "boot_reset_drives dv fuel l = Some l1"
    and ident: "boot_identify dv fuel l1 = Some (n, l')"
    by (auto simp: boot_ata_init_def bind_eq_Some_conv)
  have "only_reads l l1"
    using reset by (auto simp: boot_reset_drives_def out8_def Let_def split: prod.splits
      dest!: in8s_only_reads boot_reset_wait_only_reads simp del: in8s.simps)
      (rule only_reads_append [OF only_reads_trans], assumption+, simp)
  moreover have "only_reads l1 l'"
    using ident by (auto simp: boot_identify_def boot_send_command_def out8_def Let_def bind_eq_Some_conv
      split: prod.splits if_splits dest!: in16s_only_reads boot_identify_wait_only_reads
      elim: only_reads_append simp del: in16s.simps)
      (rule only_reads_append [OF only_reads_trans], assumption+, simp)
  ultimately show ?thesis by (rule only_reads_trans)
qed

subsection \<open>The kernel image\<close>

definition img_le :: "bytes \<Rightarrow> nat \<Rightarrow> nat \<Rightarrow> nat" where
  "img_le img off n = from_le (take n (drop off img))"

type_synonym segment = "nat \<times> nat \<times> nat \<times> nat"

text \<open>The loadable segments of an image: offset, address, size in the file and in memory.\<close>

definition image_segment :: "bytes \<Rightarrow> nat \<Rightarrow> segment option" where
  "image_segment img i = (let b = 0x40 + i * 0x38 in
     if img_le img b 4 = 1
     then Some (img_le img (b + 0x08) 8, img_le img (b + 0x10) 8, img_le img (b + 0x20) 8, img_le img (b + 0x28) 8)
     else None)"

definition image_segments :: "bytes \<Rightarrow> segment list" where
  "image_segments img = List.map_filter (image_segment img) [0..<img_le img 0x38 2]"

text \<open>Segments in ascending order, with a gap between them, behind the image read from the disk.\<close>

fun segments_ok :: "nat \<Rightarrow> nat \<Rightarrow> segment list \<Rightarrow> bool" where
  "segments_ok n lo [] = True"
| "segments_ok n lo ((off, va, fs, ms) # segs) \<longleftrightarrow>
     lo < va \<and> ELF_LOADPOINT + n \<le> va \<and> fs \<le> ms \<and> off + fs \<le> n
   \<and> va + ms + BOOT_PAGE_SIZE_BYTES \<le> 2 ^ 64 \<and> segments_ok n (va + ms) segs"

definition segments_end :: "nat \<Rightarrow> segment list \<Rightarrow> nat" where
  "segments_end lo segs = fold (\<lambda>(off, va, fs, ms) _. va + ms) segs lo"

definition boot_image_ok :: "bytes \<Rightarrow> bool" where
  "boot_image_ok img \<longleftrightarrow> 0x40 + 0x38 * img_le img 0x38 2 \<le> length img
     \<and> img_le img 0 4 = 0x464c457f \<and> img_le img 0x18 8 = KERNEL_ENTRY_POINT
     \<and> image_segments img \<noteq> [] \<and> segments_ok (length img) 0 (image_segments img)"

definition place :: "bytes \<Rightarrow> segment \<Rightarrow> boot_mem \<Rightarrow> boot_mem" where
  "place img seg mem = (case seg of (off, va, fs, ms) \<Rightarrow> (\<lambda>a.
     if va \<le> a \<and> a < va + fs then img ! (off + (a - va))
     else if va \<le> a \<and> a < va + ms then 0 else mem a))"

definition loaded :: "bytes \<Rightarrow> boot_mem \<Rightarrow> bool" where
  "loaded img mem \<longleftrightarrow> (\<forall>i<length img. mem (ELF_LOADPOINT + i) = img ! i)"

lemma mem_le_loaded:
  assumes "loaded img mem" "off + n \<le> length img"
  shows "mem_le mem (ELF_LOADPOINT + off) n = img_le img off n"
proof -
  have "mem_range mem (ELF_LOADPOINT + off) n = take n (drop off img)"
    using assms by (intro nth_equalityI) (auto simp: mem_range_def loaded_def add.assoc)
  then show ?thesis by (simp add: mem_le_def img_le_def)
qed

lemma load_segment_loaded:
  assumes "loaded img mem" "0x40 + 0x38 * Suc i \<le> length img"
  shows "case image_segment img i of
      None \<Rightarrow> load_segment (mem, m) i = Some (mem, m)
    | Some (off, va, fs, ms) \<Rightarrow> segments_ok (length img) m [(off, va, fs, ms)] \<longrightarrow>
        load_segment (mem, m) i = Some (place img (off, va, fs, ms) mem, va + ms)
        \<and> loaded img (place img (off, va, fs, ms) mem)"
proof -
  let ?b = "0x40 + i * 0x38"
  have le: "mem_le mem (ELF_LOADPOINT + 0x40 + i * 0x38 + off) n = img_le img (?b + off) n"
    if "off + n \<le> 0x38" for off n
    using mem_le_loaded [OF assms(1), of "?b + off" n] assms(2) that by (simp add: add.assoc)
  note fields = le [of 0 4] le [of 8 8] le [of 16 8] le [of 32 8] le [of 40 8]
  show ?thesis
  proof (cases "img_le img ?b 4 = 1")
    case False
    with fields show ?thesis by (simp add: image_segment_def load_segment_def)
  next
    case True
    obtain off va fs ms where v: "off = img_le img (?b + 0x08) 8" "va = img_le img (?b + 0x10) 8"
      "fs = img_le img (?b + 0x20) 8" "ms = img_le img (?b + 0x28) 8" by blast
    have "load_segment (mem, m) i = Some (place img (off, va, fs, ms) mem, va + ms)
        \<and> loaded img (place img (off, va, fs, ms) mem)"
      if ok: "segments_ok (length img) m [(off, va, fs, ms)]"
    proof -
      from ok have b: "m < va" "ELF_LOADPOINT + length img \<le> va" "fs \<le> ms" "off + fs \<le> length img"
        "va + ms < 2 ^ 64" by (simp_all add: BOOT_PAGE_SIZE_BYTES_def)
      then have "(va + ms) mod 2 ^ 64 = va + ms" "(ELF_LOADPOINT + off) mod 2 ^ 64 = ELF_LOADPOINT + off"
        by simp_all
      moreover have "(\<lambda>a. if va \<le> a \<and> a < va + fs
          then write_bytes va 0 ms mem (ELF_LOADPOINT + off + (a - va)) else write_bytes va 0 ms mem a)
        = place img (off, va, fs, ms) mem" (is "?f = ?g")
      proof
        fix a
        show "?f a = ?g a"
        proof (cases "va \<le> a \<and> a < va + fs")
          case True
          then obtain d where "a = va + d" "d < fs" by (metis le_Suc_ex nat_add_left_cancel_less)
          with assms(1) b show ?thesis by (simp add: place_def write_bytes_def loaded_def add.assoc)
        next
          case False
          then have "?f a = write_bytes va 0 ms mem a" "?g a = (if va \<le> a \<and> a < va + ms then 0 else mem a)"
            by (auto simp: place_def)
          then show ?thesis by (simp add: write_bytes_def)
        qed
      qed
      moreover have "loaded img (place img (off, va, fs, ms) mem)"
        using assms(1) b by (auto simp: loaded_def place_def)
      moreover have "mem_le mem (ELF_LOADPOINT + 0x40 + i * 0x38) 4 = 1"
        "mem_le mem (ELF_LOADPOINT + 0x40 + i * 0x38 + 0x08) 8 = off"
        "mem_le mem (ELF_LOADPOINT + 0x40 + i * 0x38 + 0x10) 8 = va"
        "mem_le mem (ELF_LOADPOINT + 0x40 + i * 0x38 + 0x20) 8 = fs"
        "mem_le mem (ELF_LOADPOINT + 0x40 + i * 0x38 + 0x28) 8 = ms"
        using True fields v by simp_all
      ultimately show ?thesis using b
        by (simp add: load_segment_def copy_nonoverlapping_def Let_def cong: if_cong)
    qed
    with True v show ?thesis by (simp add: image_segment_def Let_def)
  qed
qed

lemma load_segments_loaded:
  assumes "loaded img mem" "segments_ok (length img) m (List.map_filter (image_segment img) is)"
    and "\<forall>i\<in>set is. 0x40 + 0x38 * Suc i \<le> length img"
  shows "foldM load_segment (mem, m) is
    = Some (fold (place img) (List.map_filter (image_segment img) is) mem,
        segments_end m (List.map_filter (image_segment img) is))"
  using assms
proof (induction "is" arbitrary: mem m)
  case Nil
  then show ?case by (simp add: map_filter_simps segments_end_def)
next
  case (Cons i "is")
  note head = load_segment_loaded [OF Cons.prems(1), of i m]
  show ?case
  proof (cases "image_segment img i")
    case None
    with head Cons show ?thesis by (simp add: map_filter_simps)
  next
    case (Some seg)
    obtain off va fs ms where seg: "seg = (off, va, fs, ms)" by (cases seg)
    with Some head Cons.prems have
      "load_segment (mem, m) i = Some (place img seg mem, va + ms)" "loaded img (place img seg mem)"
      by (simp_all add: map_filter_simps)
    with Some seg Cons show ?thesis by (simp add: map_filter_simps segments_end_def)
  qed
qed

lemma fold_place_below:
  "segments_ok n lo segs \<Longrightarrow> a < lo \<or> a < ELF_LOADPOINT + n \<Longrightarrow> fold (place img) segs mem a = mem a"
proof (induction segs arbitrary: lo mem)
  case (Cons seg segs)
  obtain off va fs ms where seg: "seg = (off, va, fs, ms)" by (cases seg)
  from Cons.prems seg have "segments_ok n (va + ms) segs" "a < va" by auto
  with Cons.IH [of "va + ms" "place img seg mem"] seg show ?case by (auto simp: place_def)
qed simp

lemma fold_place_segment:
  assumes "segments_ok (length img) lo segs" "(off, va, fs, ms) \<in> set segs"
  shows "mem_range (fold (place img) segs mem) va ms = take fs (drop off img) @ replicate (ms - fs) 0"
  using assms
proof (induction segs arbitrary: lo mem)
  case (Cons seg segs)
  show ?case
  proof (cases "seg = (off, va, fs, ms)")
    case False
    obtain off' va' fs' ms' where "seg = (off', va', fs', ms')" by (cases seg)
    with Cons False show ?thesis by auto
  next
    case True
    with Cons.prems have ok: "segments_ok (length img) (va + ms) segs" "fs \<le> ms" "off + fs \<le> length img"
      by auto
    have "fold (place img) segs (place img seg mem) (va + i)
        = (take fs (drop off img) @ replicate (ms - fs) 0) ! i" if "i < ms" for i
      using fold_place_below [OF ok(1), of "va + i" img "place img seg mem"] ok(2,3) that
      by (simp add: True place_def nth_append min_absorb2)
    with ok show ?thesis
      by (intro nth_equalityI) (simp_all add: mem_range_def min_absorb2)
  qed
qed simp

lemma segments_end_ge:
  assumes "segments_ok n lo segs" "segs \<noteq> []"
  shows "ELF_LOADPOINT + n \<le> segments_end lo segs"
    and "(off, va, fs, ms) \<in> set segs \<Longrightarrow> va + ms \<le> segments_end lo segs"
    and "segments_end lo segs + BOOT_PAGE_SIZE_BYTES \<le> 2 ^ 64"
proof -
  have mono: "segments_ok n lo segs \<Longrightarrow> lo \<le> segments_end lo segs" for lo segs
  proof (induction segs arbitrary: lo)
    case (Cons seg segs)
    then show ?case by (cases seg) (fastforce simp: segments_end_def dest: less_imp_le)
  qed (simp add: segments_end_def)
  have "ELF_LOADPOINT + n \<le> segments_end lo segs
    \<and> (\<forall>(off, va, fs, ms) \<in> set segs. va + ms \<le> segments_end lo segs)
    \<and> segments_end lo segs + BOOT_PAGE_SIZE_BYTES \<le> 2 ^ 64"
    using assms
  proof (induction segs arbitrary: lo)
    case (Cons seg segs)
    obtain off va fs ms where seg: "seg = (off, va, fs, ms)" by (cases seg)
    with Cons.prems mono [of "va + ms" segs] have "va + ms \<le> segments_end lo (seg # segs)"
      "segments_end lo (seg # segs) = segments_end (va + ms) segs" by (simp_all add: segments_end_def)
    with Cons seg show ?case
      by (cases "segs = []") (auto simp: segments_end_def)
  qed simp
  then show "ELF_LOADPOINT + n \<le> segments_end lo segs"
    "(off, va, fs, ms) \<in> set segs \<Longrightarrow> va + ms \<le> segments_end lo segs"
    "segments_end lo segs + BOOT_PAGE_SIZE_BYTES \<le> 2 ^ 64" by auto
qed

lemma unat_boot_page_align_up:
  assumes "m + BOOT_PAGE_SIZE_BYTES \<le> 2 ^ 64"
  shows "unat (boot_page_align_up (of_nat m)) = (m + 0x1fffff) div 0x200000 * 0x200000"
    and "m \<le> (m + 0x1fffff) div 0x200000 * 0x200000"
proof -
  let ?x = "of_nat (m + 0x1fffff) :: u64"
  from assms have u: "unat ?x = m + 0x1fffff"
    by (simp add: unat_of_nat take_bit_eq_mod BOOT_PAGE_SIZE_BYTES_def del: of_nat_add)
  have "boot_page_align_up (of_nat m) = ?x AND NOT (mask 21)"
    by (simp add: boot_page_align_up_def BOOT_PAGE_SIZE_BYTES_def mask_eq_exp_minus_1 add.commute)
  also have "\<dots> = push_bit 21 (drop_bit 21 ?x)"
    by (rule bit_word_eqI) (auto simp: bit_simps not_le)
  finally have "unat (boot_page_align_up (of_nat m)) = take_bit 64 (push_bit 21 (drop_bit 21 (unat ?x)))"
    using take_bit_nat_eq_self [of "unat ?x" 64] unsigned_less [of ?x, where 'a = nat]
    by (simp add: unsigned_push_bit_eq unsigned_drop_bit_eq del: of_nat_add)
  moreover have "(m + 0x1fffff) div 2 ^ 21 * 2 ^ 21 \<le> m + 0x1fffff" by (rule div_times_less_eq_dividend)
  then have "(m + 0x1fffff) div 2 ^ 21 * 2 ^ 21 < 2 ^ 64"
    using assms by (simp add: BOOT_PAGE_SIZE_BYTES_def)
  ultimately show "unat (boot_page_align_up (of_nat m)) = (m + 0x1fffff) div 0x200000 * 0x200000"
    unfolding u by (simp add: take_bit_eq_mod push_bit_eq_mult drop_bit_eq_div)
  have "m + 0x1fffff = (m + 0x1fffff) div 0x200000 * 0x200000 + (m + 0x1fffff) mod 0x200000"
    by (simp only: div_mult_mod_eq)
  moreover have "(m + 0x1fffff) mod 0x200000 \<le> 0x1fffff"
    using mod_less_divisor [of "0x200000 :: nat" "m + 0x1fffff"] by linarith
  ultimately show "m \<le> (m + 0x1fffff) div 0x200000 * 0x200000" by linarith
qed

lemma segments_above: "(off, va, fs, ms) \<in> set segs \<Longrightarrow> segments_ok n lo segs \<Longrightarrow> ELF_LOADPOINT + n \<le> va"
  by (induction segs arbitrary: lo) auto

lemma boot_offsets:
  assumes "6 \<le> s" "s \<le> e" "e \<le> 2 ^ 28"
  shows "(ELF_LOADPOINT + (s + 2 ^ 64 - BOOTLOADER_SECTOR_COUNT) * 0x200) mod 2 ^ 64 = ELF_LOADPOINT + (s - 6) * 512"
    and "((e + 2 ^ 64 - s) * 0x200) mod 2 ^ 64 = (e - s) * 512"
proof -
  from assms obtain k j where kj: "s = 6 + k" "e = s + j" by (auto simp: le_iff_add)
  with assms(3) have b: "ELF_LOADPOINT + k * 512 < 2 ^ 64" "j * 512 < 2 ^ 64"
    by (simp_all add: ELF_LOADPOINT_def)
  have wrap: "(x + (k + 2 ^ 64) * 0x200) mod 2 ^ 64 = x + k * 512" if "x + k * 512 < 2 ^ 64" for x k :: nat
  proof -
    have "x + (k + 2 ^ 64) * 0x200 = (x + k * 512) + 0x200 * 2 ^ 64" by simp
    then have "(x + (k + 2 ^ 64) * 0x200) mod 2 ^ 64 = (x + k * 512) mod 2 ^ 64"
      by (simp only: mod_mult_self1)
    with that show ?thesis by (simp only: mod_less)
  qed
  from wrap [OF b(1)] show "(ELF_LOADPOINT + (s + 2 ^ 64 - BOOTLOADER_SECTOR_COUNT) * 0x200) mod 2 ^ 64 = ELF_LOADPOINT + (s - 6) * 512"
    by (simp add: kj BOOTLOADER_SECTOR_COUNT_def add.commute)
  from wrap [of 0 j] b(2) show "((e + 2 ^ 64 - s) * 0x200) mod 2 ^ 64 = (e - s) * 512"
    by (simp add: kj add.commute)
qed

text \<open>
  The gap between segments matters: a segment that begins exactly where an earlier one ended is
  copied, but the end of the kernel, behind which the ram disk is put, does not move.
\<close>

lemma adjacent_segment_not_counted:
  assumes "load_segment (mem, va) i = Some (mem', m)" "mem_le mem (ELF_LOADPOINT + 0x40 + i * 0x38) 4 = 1"
    and "mem_le mem (ELF_LOADPOINT + 0x40 + i * 0x38 + 0x10) 8 = va"
  shows "m = va"
  using assms by (auto simp: load_segment_def Let_def bind_eq_Some_conv split: if_splits)

text \<open>C10: The boot loader puts the kernel and the initial ram disk in place. When the drive
  identifies itself with enough sectors and holds, behind the boot sectors, a kernel image
  whose loadable segments are in ascending order with gaps between them and behind the image, the boot loader
  reaches the jump to the kernel; then every segment is in memory at its address, filled up with
  zeros, and the initial ram disk follows at the next page boundary.\<close>

theorem d7boot_loads_kernel:
  assumes "is_ata lat s0 dv" "lat < fuel" "boot_ata_init dv fuel l = Some (n, l1)"
    and "s = mem_le mem INITRD_SPLIT_SECTOR_PTR 4" "e = mem_le mem INITRD_END_SECTOR_PTR 4"
    and "6 \<le> s" "s \<le> e" "e \<le> unat n" "e \<le> 2 ^ 28"
    and "img = disk_bytes (disk_words lat s0 l 0) 6 (e - 6)" "boot_image_ok img"
  shows "\<exists>mem' l'. d7boot dv fuel (mem, l) = Some (mem', l')
    \<and> (\<forall>(off, va, fs, ms) \<in> set (image_segments img).
         mem_range mem' va ms = take fs (drop off img) @ replicate (ms - fs) 0)
    \<and> mem_range mem' ((segments_end 0 (image_segments img) + 0x1fffff) div 0x200000 * 0x200000)
         ((e - s) * 512) = drop ((s - 6) * 512) img"
proof -
  let ?segs = "image_segments img"
  let ?top = "segments_end 0 ?segs"
  let ?dst = "(?top + 0x1fffff) div 0x200000 * 0x200000"
  have ok: "segments_ok (length img) 0 ?segs" "?segs \<noteq> []" "0x40 + 0x38 * img_le img 0x38 2 \<le> length img"
    using assms(11) by (simp_all add: boot_image_ok_def)
  note ends = segments_end_ge [OF ok(1,2)]
  note align = unat_boot_page_align_up [OF ends(3)]
  have len: "length img = 512 * (e - 6)" by (simp add: assms(10))
  have d1: "disk_words lat s0 l1 = disk_words lat s0 l"
    by (rule only_reads_disk [OF boot_ata_init_only_reads [OF assms(3)]])
  let ?m1 = "overwrite ELF_LOADPOINT img mem"
  obtain l2 where l2: "load_sectors dv fuel e (mem, l1) = Some (?m1, l2)"
    using load_sectors_ata [OF assms(1,2), of "e - 6" mem l1] assms(6,7,9,10)
    by (auto simp: load_sectors_def BOOTLOADER_SECTOR_COUNT_def d1)
  have m1: "loaded img ?m1" by (simp add: loaded_def overwrite_def)
  note le = mem_le_loaded [OF m1]
  have elf: "check_elf ?m1 = Some ()" "mem_le ?m1 (ELF_LOADPOINT + 0x38) 2 = img_le img 0x38 2"
    using assms(11) le [of 0 4] le [of "0x18" 8] le [of "0x38" 2]
    by (simp_all add: boot_image_ok_def check_elf_def)
  let ?m2 = "fold (place img) ?segs ?m1"
  have m2: "foldM load_segment (?m1, 0) [0..<img_le img 0x38 2] = Some (?m2, ?top)"
    using load_segments_loaded [OF m1 ok(1) [unfolded image_segments_def]] ok(3)
    by (simp add: image_segments_def)
  obtain D where D: "unat (boot_page_align_up (of_nat ?top)) = D" "?top \<le> D" "D = ?dst"
    using align by blast
  let ?src = "ELF_LOADPOINT + (s - 6) * 512" and ?n = "(e - s) * 512"
  have src: "?src + ?n = ELF_LOADPOINT + length img"
    using assms(6,7) len by (simp add: diff_mult_distrib)
  with ends(1) D(2) have before: "?src + ?n \<le> D" by linarith
  define m3 where "m3 = (\<lambda>a. if D \<le> a \<and> a < D + ?n then ?m2 (?src + (a - D)) else ?m2 a)"
  have "copy_nonoverlapping ?src D ?n ?m2 = Some m3"
    using before by (simp add: copy_nonoverlapping_def m3_def)
  with boot_offsets [OF assms(6,7,9)] have boot: "d7boot dv fuel (mem, l) = Some (show_loaded m3, l2)"
    using assms(8) l2 elf m2 D(1) unfolding d7boot_def Let_def assms(4,5) [symmetric] prod.case assms(3)
    by (simp add: not_less del: power_numeral)
  have above: "show_loaded m3 a = m3 a" if "ELF_LOADPOINT \<le> a" for a
    using that by (simp add: show_loaded_def ELF_LOADPOINT_def)
  have "mem_range (show_loaded m3) D ?n = drop ((s - 6) * 512) img"
  proof (rule nth_equalityI)
    show "length (mem_range (show_loaded m3) D ?n) = length (drop ((s - 6) * 512) img)"
      using src by simp
    fix i assume "i < length (mem_range (show_loaded m3) D ?n)"
    then have i: "i < ?n" by simp
    with src have "?m2 (?src + i) = img ! ((s - 6) * 512 + i)"
      using fold_place_below [OF ok(1), of "?src + i" img ?m1] m1 by (simp add: loaded_def add.assoc)
    with i have "m3 (D + i) = img ! ((s - 6) * 512 + i)" by (simp add: m3_def)
    moreover from ends(1) D(2) have "show_loaded m3 (D + i) = m3 (D + i)" by (intro above) linarith
    ultimately show "mem_range (show_loaded m3) D ?n ! i = drop ((s - 6) * 512) img ! i"
      using i src by (simp add: mem_range_def)
  qed
  moreover have "mem_range (show_loaded m3) va ms = take fs (drop off img) @ replicate (ms - fs) 0"
    if seg: "(off, va, fs, ms) \<in> set ?segs" for off va fs ms
  proof -
    have "ELF_LOADPOINT + length img \<le> va"
      using seg ok(1) by (rule segments_above)
    with ends(2) [OF seg] D(2) have "mem_range (show_loaded m3) va ms = mem_range ?m2 va ms"
      by (intro mem_range_cong) (subst above, linarith, simp add: m3_def)
    with fold_place_segment [OF ok(1) seg] show ?thesis by simp
  qed
  ultimately show ?thesis using boot unfolding D(3) by blast
qed

definition demo_image :: bytes where
  "demo_image = to_le 4 0x464c457f @ replicate 20 0 @ to_le 8 0x1000000 @ replicate 24 0 @ to_le 2 1
     @ replicate 6 0 @ to_le 4 1 @ replicate 4 0 @ to_le 8 0x80 @ to_le 8 0x1000000 @ replicate 8 0
     @ to_le 8 4 @ to_le 8 8 @ replicate 16 0 @ [1, 2, 3, 4] @ replicate 380 0 @ replicate 512 0xd7"

definition demo_disk :: AtaDrive where
  "demo_disk = \<lparr>ad_select = 0, ad_seccount = 0, ad_lba0 = 0, ad_lba1 = 0, ad_lba2 = 0,
     ad_mode = Idle, ad_busy = 0, ad_store = (\<lambda>_. overwrite 1536 (data_words demo_image) (\<lambda>_. 0))\<rparr>"

definition demo_boot_dev :: Dev where
  "demo_boot_dev = \<lparr>dv8 = (\<lambda>l p. if p = PORT_LBA1 \<or> p = PORT_LBA2 then 0 else 0x48),
     dv16 = (\<lambda>l p. let s = ata_state 0 demo_disk l in
       case ad_mode s of Reading a n \<Rightarrow> ad_store s (ad_drive s) a | _ \<Rightarrow> 0x1000), dv32 = (\<lambda>_ _. 0)\<rparr>"

definition demo_boot_mem :: boot_mem where
  "demo_boot_mem = (\<lambda>a. if a = 0x3000 then 7 else if a = 0x3004 then 8 else 0)"

lemma demo_not_busy: "ad_busy (ata_state 0 demo_disk l) = 0"
proof -
  have "ad_busy s = 0 \<Longrightarrow> ad_busy (ata_step 0 s x) = 0" for s x
    by (cases x) (auto split: AtaMode.split nat.split)
  then have "ad_busy s = 0 \<Longrightarrow> ad_busy (foldl (ata_step 0) s l) = 0" for s
    by (induction l arbitrary: s) simp_all
  then show ?thesis by (simp add: ata_state_def demo_disk_def)
qed

lemma demo_identify_data:
  "ad_mode (ata_state 0 demo_disk l) = Idle \<Longrightarrow>
     \<exists>l'. in16s demo_boot_dev PORT_DATA n l = (replicate n 0x1000, l')"
proof (induction n arbitrary: l)
  case (Suc n)
  from Suc.prems have "ad_mode (ata_state 0 demo_disk (l @ [In16 PORT_DATA 0x1000])) = Idle" by simp
  from Suc.IH [OF this] Suc.prems show ?case by (auto simp: in16_def demo_boot_dev_def)
qed simp

lemma demo_boot_init: "\<exists>l1. boot_ata_init demo_boot_dev (Suc (Suc k)) [] = Some (0x10001000, l1)"
proof -
  have nums: "(4 :: nat) = Suc (Suc (Suc (Suc 0)))" by simp
  have reset: "\<exists>l1. boot_reset_drives demo_boot_dev (Suc (Suc k)) [] = Some l1"
    unfolding boot_reset_drives_def nums
    by (simp add: in8_def demo_boot_dev_def Let_def ata_ports)
  then obtain l1 where l1: "boot_reset_drives demo_boot_dev (Suc (Suc k)) [] = Some l1" by blast
  let ?l = "out8 PORT_LBA2 0 (out8 PORT_LBA1 0 (out8 PORT_LBA0 0 (out8 PORT_SECCOUNT 0 (out8 PORT_DRIVESELECT 0xa0 l1))))"
  have "\<exists>l2. boot_identify_wait demo_boot_dev (Suc (Suc k)) True (boot_send_command 0xEC ?l) = Some (True, l2)
      \<and> ad_mode (ata_state 0 demo_disk l2) = Idle"
    by (simp add: boot_read_status_def in8_def demo_boot_dev_def Let_def ata_ports
        boot_send_command_def out8_def ata_state_def)
  then obtain l2 where l2: "boot_identify_wait demo_boot_dev (Suc (Suc k)) True (boot_send_command 0xEC ?l) = Some (True, l2)"
    "ad_mode (ata_state 0 demo_disk l2) = Idle" by blast
  from demo_identify_data [OF l2(2), of 256] obtain l3
    where l3: "in16s demo_boot_dev PORT_DATA 256 l2 = (replicate 256 0x1000, l3)" by blast
  have "boot_sectors_of (replicate 256 0x1000) = Some 0x10001000" by (simp add: boot_sectors_of_def)
  with l1 l2 l3 show ?thesis by (simp add: boot_ata_init_def boot_identify_def)
qed

theorem d7boot_loads_kernel_witness:
  "\<exists>mem' l'. d7boot demo_boot_dev 9 (demo_boot_mem, []) = Some (mem', l')
    \<and> mem_range mem' 0x1000000 8 = [1, 2, 3, 4, 0, 0, 0, 0]
    \<and> mem_range mem' 0x1200000 512 = replicate 512 0xd7"
proof -
  have ata: "is_ata 0 demo_disk demo_boot_dev"
    by (auto simp: is_ata_def demo_not_busy demo_boot_dev_def Let_def ata_ports)
  obtain l1 where init: "boot_ata_init demo_boot_dev 9 [] = Some (0x10001000, l1)"
    using demo_boot_init [of 7] by auto
  have se: "7 = mem_le demo_boot_mem INITRD_SPLIT_SECTOR_PTR 4" "8 = mem_le demo_boot_mem INITRD_END_SECTOR_PTR 4"
    by (simp_all add: mem_le_def mem_range_def demo_boot_mem_def INITRD_SPLIT_SECTOR_PTR_def
        INITRD_END_SECTOR_PTR_def)
  have ev: "even (length demo_image)" "length (data_words demo_image) = 512"
    by (simp_all add: demo_image_def length_data_words)
  have "map (overwrite 1536 (data_words demo_image) (\<lambda>_. 0)) [1536..<1536 + 512] = data_words demo_image"
    using map_overwrite [of 1536 "data_words demo_image" "\<lambda>_. 0"] unfolding ev(2) .
  then have img: "demo_image = disk_bytes (disk_words 0 demo_disk [] 0) 6 (8 - 6)"
    using data_words_bytes [OF ev(1)]
    by (simp add: disk_bytes_def ata_state_def demo_disk_def del: upt_Suc)
  have fields: "img_le demo_image 0 4 = 0x464c457f" "img_le demo_image 0x18 8 = 0x1000000"
    "img_le demo_image 0x38 2 = 1" "img_le demo_image 0x40 4 = 1" "img_le demo_image 0x48 8 = 0x80"
    "img_le demo_image 0x50 8 = 0x1000000" "img_le demo_image 0x60 8 = 4" "img_le demo_image 0x68 8 = 8"
    and parts: "take 4 (drop 0x80 demo_image) = [1, 2, 3, 4]"
      "drop ((7 - 6) * 512) demo_image = replicate 512 0xd7" and len: "length demo_image = 1024"
    by (simp_all add: img_le_def demo_image_def)
  have segs: "image_segments demo_image = [(0x80, 0x1000000, 4, 8)]"
    by (simp add: image_segments_def image_segment_def fields map_filter_simps)
  have ok: "boot_image_ok demo_image"
    by (simp add: boot_image_ok_def segs fields len ELF_LOADPOINT_def BOOT_PAGE_SIZE_BYTES_def
        KERNEL_ENTRY_POINT_def)
  have "(0 :: nat) < 9" "(6 :: nat) \<le> 7" "(7 :: nat) \<le> 8" "8 \<le> unat (0x10001000 :: u64)" "(8 :: nat) \<le> 2 ^ 28"
    by simp_all
  from d7boot_loads_kernel [OF ata this(1) init se this(2-5) img ok] obtain mem' l' where
    boot: "d7boot demo_boot_dev 9 (demo_boot_mem, []) = Some (mem', l')"
    and seg: "\<forall>(off, va, fs, ms) \<in> set (image_segments demo_image).
         mem_range mem' va ms = take fs (drop off demo_image) @ replicate (ms - fs) 0"
    and rd: "mem_range mem' ((segments_end 0 (image_segments demo_image) + 0x1fffff) div 0x200000 * 0x200000)
         ((8 - 7) * 512) = drop ((7 - 6) * 512) demo_image" by blast
  have dst: "(segments_end 0 (image_segments demo_image) + 0x1fffff) div 0x200000 * 0x200000 = 0x1200000"
    "(8 - 7) * 512 = (512 :: nat)" by (simp_all add: segs segments_end_def)
  from seg have "mem_range mem' 0x1000000 8 = [1, 2, 3, 4] @ replicate (8 - 4) 0"
    by (simp only: segs list.set ball_simps prod.case parts)
  moreover have "replicate (8 - 4) 0 = [0, 0, 0, 0 :: u8]" by (simp add: numeral_eq_Suc)
  ultimately show ?thesis using boot rd [unfolded dst parts] by auto
qed

end
