(* ===== verification/Ps2Keyboard.thy ===== *)
theory Ps2Keyboard
  imports PortIO
begin

text \<open>
  The PS/2 keyboard driver (\<open>driver_ps2/src/keyboard.rs\<close>, \<open>state.rs\<close> and \<open>lib.rs\<close>): the
  conversation with the keyboard controller at start-up, and the decoding of scan codes into key
  events. Loops that wait for the controller have fuel for each wait; a call that panics or uses up its
  fuel is \<open>None\<close>.
\<close>

unbundle bit_operations_syntax

subsection \<open>Scan codes (state.rs)\<close>

record KeyboardEvent =
  ke_keycode :: u16
  ke_release :: bool

record KeyboardState =
  next_is_release :: bool
  next_is_alternative :: bool

definition SC_RELEASED :: u8 where "SC_RELEASED = 0xf0"
definition SC_ALTERNATIVE :: u8 where "SC_ALTERNATIVE = 0xe0"
definition SC_ERROR_0 :: u8 where "SC_ERROR_0 = 0x00"
definition SC_ERROR_1 :: u8 where "SC_ERROR_1 = 0xff"

definition keyboard_state_new :: KeyboardState where
  "keyboard_state_new = \<lparr>next_is_release = False, next_is_alternative = False\<rparr>"

definition kb_apply :: "u8 \<Rightarrow> KeyboardState \<Rightarrow> KeyboardEvent option \<times> KeyboardState" where
  "kb_apply byte s =
     (if byte = SC_RELEASED then (None, s\<lparr>next_is_release := True\<rparr>)
      else if byte = SC_ALTERNATIVE then (None, s\<lparr>next_is_alternative := True\<rparr>)
      else if byte = SC_ERROR_0 \<or> byte = SC_ERROR_1
        then (None, s\<lparr>next_is_release := False, next_is_alternative := False\<rparr>)
      else
        (let keycode = ucast byte OR push_bit 8 (of_bool (next_is_alternative s));
             event = \<lparr>ke_keycode = keycode, ke_release = next_is_release s\<rparr>
         in (Some event, s\<lparr>next_is_release := False, next_is_alternative := False\<rparr>)))"

subsection \<open>The controller (keyboard.rs)\<close>

definition PS2_DATA :: u16 where "PS2_DATA = 0x60"
definition PS2_STATUS :: u16 where "PS2_STATUS = 0x64"
definition PS2_COMMAND :: u16 where "PS2_COMMAND = 0x64"
definition IO_WAIT_TIMEOUT :: nat where "IO_WAIT_TIMEOUT = 1000"

lemmas ps2_ports = PS2_DATA_def PS2_STATUS_def PS2_COMMAND_def

fun wait_ready_read :: "Dev \<Rightarrow> nat \<Rightarrow> io_log \<Rightarrow> io_log option" where
  "wait_ready_read dv 0 l = None"
| "wait_ready_read dv (Suc fuel) l =
     (let (v, l) = in8 dv PS2_STATUS l in
      if v AND 1 \<noteq> 0 then Some l else wait_ready_read dv fuel l)"

fun wait_ready_write :: "Dev \<Rightarrow> nat \<Rightarrow> io_log \<Rightarrow> io_log option" where
  "wait_ready_write dv 0 l = None"
| "wait_ready_write dv (Suc fuel) l =
     (let (v, l) = in8 dv PS2_STATUS l in
      if v AND 2 = 0 then Some l else wait_ready_write dv fuel l)"

definition read_byte :: "Dev \<Rightarrow> nat \<Rightarrow> io_log \<Rightarrow> (u8 \<times> io_log) option" where
  "read_byte dv fuel l = do {
     l \<leftarrow> wait_ready_read dv fuel l;
     Some (in8 dv PS2_DATA l)
   }"

definition write_data :: "Dev \<Rightarrow> nat \<Rightarrow> u8 \<Rightarrow> io_log \<Rightarrow> io_log option" where
  "write_data dv fuel v l = do {
     l \<leftarrow> wait_ready_write dv fuel l;
     Some (out8 PS2_DATA v l)
   }"

definition ps2_write_command :: "Dev \<Rightarrow> nat \<Rightarrow> u8 \<Rightarrow> io_log \<Rightarrow> io_log option" where
  "ps2_write_command dv fuel c l = do {
     l \<leftarrow> wait_ready_write dv fuel l;
     Some (out8 PS2_COMMAND c l)
   }"

text \<open>Reading until one of the expected bytes arrives; \<open>n\<close> is the number of tries left.\<close>

fun read_until :: "Dev \<Rightarrow> nat \<Rightarrow> (u8 \<Rightarrow> bool) \<Rightarrow> nat \<Rightarrow> io_log \<Rightarrow> (bool \<times> io_log) option" where
  "read_until dv fuel expected 0 l = Some (False, l)"
| "read_until dv fuel expected (Suc n) l = do {
     (x, l) \<leftarrow> read_byte dv fuel l;
     (if expected x then Some (True, l) else read_until dv fuel expected n l)
   }"

definition test_result :: "Dev \<Rightarrow> nat \<Rightarrow> u8 \<Rightarrow> io_log \<Rightarrow> (bool \<times> io_log) option" where
  "test_result dv fuel result l = read_until dv fuel (\<lambda>x. x = result) IO_WAIT_TIMEOUT l"

definition test_echo :: "Dev \<Rightarrow> nat \<Rightarrow> io_log \<Rightarrow> (bool \<times> io_log) option" where
  "test_echo dv fuel l = do {
     l \<leftarrow> write_data dv fuel 0xEE l;
     test_result dv fuel 0xEE l
   }"

definition self_test :: "Dev \<Rightarrow> nat \<Rightarrow> io_log \<Rightarrow> (bool \<times> io_log) option" where
  "self_test dv fuel l = do {
     l \<leftarrow> write_data dv fuel 0xFF l;
     test_result dv fuel 0xAA l
   }"

definition verify_keyboard :: "Dev \<Rightarrow> nat \<Rightarrow> io_log \<Rightarrow> io_log option" where
  "verify_keyboard dv fuel l = do {
     l \<leftarrow> write_data dv fuel 0xF2 l;
     (found, l) \<leftarrow> read_until dv fuel (\<lambda>x. x = 0xAB) IO_WAIT_TIMEOUT l;
     rassert found;
     (known, l) \<leftarrow> read_until dv fuel (\<lambda>x. x = 0x41 \<or> x = 0xC1 \<or> x = 0x83) IO_WAIT_TIMEOUT l;
     rassert known;
     Some l
   }"

definition configure :: "Dev \<Rightarrow> nat \<Rightarrow> io_log \<Rightarrow> io_log option" where
  "configure dv fuel l = do {
     l \<leftarrow> wait_ready_write dv fuel l;
     l \<leftarrow> ps2_write_command dv fuel 0x20 l;
     (conf, l) \<leftarrow> read_byte dv fuel l;
     l \<leftarrow> ps2_write_command dv fuel 0x60 l;
     l \<leftarrow> write_data dv fuel (conf AND 0xBF) l;
     l \<leftarrow> write_data dv fuel 0xF0 l;
     l \<leftarrow> write_data dv fuel 0x02 l;
     (acknowledged, l) \<leftarrow> test_result dv fuel 0xFA l;
     rassert acknowledged;
     Some l
   }"

definition disable_scanning :: "Dev \<Rightarrow> nat \<Rightarrow> io_log \<Rightarrow> io_log option" where
  "disable_scanning dv fuel l = do {
     l \<leftarrow> write_data dv fuel 0xF5 l;
     (acknowledged, l) \<leftarrow> test_result dv fuel 0xFA l;
     rassert acknowledged;
     Some l
   }"

definition enable_scanning :: "Dev \<Rightarrow> nat \<Rightarrow> io_log \<Rightarrow> io_log option" where
  "enable_scanning dv fuel l = do {
     l \<leftarrow> write_data dv fuel 0xF4 l;
     (acknowledged, l) \<leftarrow> test_result dv fuel 0xFA l;
     rassert acknowledged;
     Some l
   }"

definition keyboard_init :: "Dev \<Rightarrow> nat \<Rightarrow> io_log \<Rightarrow> io_log option" where
  "keyboard_init dv fuel l = do {
     (ok, l) \<leftarrow> self_test dv fuel l;
     rassert ok;
     (_, l) \<leftarrow> test_echo dv fuel l;
     l \<leftarrow> disable_scanning dv fuel l;
     l \<leftarrow> verify_keyboard dv fuel l;
     l \<leftarrow> configure dv fuel l;
     enable_scanning dv fuel l
   }"

definition keyboard_notify :: "u8 \<Rightarrow> KeyboardState \<Rightarrow> KeyboardEvent option \<times> KeyboardState" where
  "keyboard_notify byte s = (if byte = 0xFA \<or> byte = 0xEE then (None, s) else kb_apply byte s)"

subsection \<open>The driver process (lib.rs)\<close>

text \<open>The events published for a sequence of bytes received with keyboard interrupts.\<close>

fun ps2_loop :: "bytes \<Rightarrow> KeyboardState \<Rightarrow> KeyboardEvent list \<times> KeyboardState" where
  "ps2_loop [] s = ([], s)"
| "ps2_loop (byte # rest) s =
     (let (event, s) = keyboard_notify byte s; (events, s) = ps2_loop rest s
      in ((case event of Some e \<Rightarrow> [e] | None \<Rightarrow> []) @ events, s))"

subsection \<open>Every access is preceded by a status check\<close>

fun status_allows :: "PortOp option \<Rightarrow> PortOp \<Rightarrow> bool" where
  "status_allows prev (Out8 p v) \<longleftrightarrow>
     (case prev of Some (In8 q s) \<Rightarrow> q = PS2_STATUS \<and> s AND 2 = 0 | _ \<Rightarrow> False)"
| "status_allows prev (In8 p v) \<longleftrightarrow> p = PS2_STATUS \<or>
     (case prev of Some (In8 q s) \<Rightarrow> q = PS2_STATUS \<and> s AND 1 \<noteq> 0 | _ \<Rightarrow> False)"
| "status_allows prev _ \<longleftrightarrow> False"

fun status_guarded :: "PortOp option \<Rightarrow> io_log \<Rightarrow> bool" where
  "status_guarded prev [] \<longleftrightarrow> True"
| "status_guarded prev (x # xs) \<longleftrightarrow> status_allows prev x \<and> status_guarded (Some x) xs"

lemma status_guarded_weaken: "status_guarded None l \<Longrightarrow> status_guarded prev l"
  by (cases l; cases "hd l") auto

lemma status_guarded_append:
  "status_guarded prev a \<Longrightarrow> status_guarded None b \<Longrightarrow> status_guarded prev (a @ b)"
  by (induction a arbitrary: prev) (auto simp: status_guarded_weaken)

definition conversation :: "io_log \<Rightarrow> io_log \<Rightarrow> PortOp list \<Rightarrow> bool" where
  "conversation l l' outs \<longleftrightarrow> (\<exists>ops. l' = l @ ops \<and> status_guarded None ops \<and> outputs ops = outs)"

lemma conversation_trans:
  "conversation l l1 outs1 \<Longrightarrow> conversation l1 l2 outs2 \<Longrightarrow> conversation l l2 (outs1 @ outs2)"
  unfolding conversation_def using status_guarded_append by fastforce

lemma status_reads_guarded:
  "list_all (\<lambda>x. \<exists>v. x = In8 PS2_STATUS v) ops \<Longrightarrow> status_guarded None ops \<and> outputs ops = []"
proof -
  have "list_all (\<lambda>x. \<exists>v. x = In8 PS2_STATUS v) ops \<Longrightarrow> status_guarded prev ops \<and> outputs ops = []" for prev
    by (induction ops arbitrary: prev) auto
  then show "list_all (\<lambda>x. \<exists>v. x = In8 PS2_STATUS v) ops \<Longrightarrow> ?thesis" by blast
qed

lemma wait_ready_write_log:
  "wait_ready_write dv fuel l = Some l' \<Longrightarrow> \<exists>ops v. l' = l @ ops @ [In8 PS2_STATUS v]
     \<and> list_all (\<lambda>x. \<exists>v. x = In8 PS2_STATUS v) ops \<and> v AND 2 = 0"
proof (induction fuel arbitrary: l)
  case (Suc fuel)
  show ?case
  proof (cases "dv8 dv l PS2_STATUS AND 2 = 0")
    case True
    with Suc.prems show ?thesis by (intro exI [of _ "[]"]) (auto simp: in8_def Let_def)
  next
    case False
    with Suc obtain ops v where "l' = (l @ [In8 PS2_STATUS (dv8 dv l PS2_STATUS)]) @ ops @ [In8 PS2_STATUS v]"
      "list_all (\<lambda>x. \<exists>v. x = In8 PS2_STATUS v) ops" "v AND 2 = 0"
      by (fastforce simp: in8_def Let_def)
    then show ?thesis
      by (intro exI [of _ "In8 PS2_STATUS (dv8 dv l PS2_STATUS) # ops"]) auto
  qed
qed simp

lemma wait_ready_read_log:
  "wait_ready_read dv fuel l = Some l' \<Longrightarrow> \<exists>ops v. l' = l @ ops @ [In8 PS2_STATUS v]
     \<and> list_all (\<lambda>x. \<exists>v. x = In8 PS2_STATUS v) ops \<and> v AND 1 \<noteq> 0"
proof (induction fuel arbitrary: l)
  case (Suc fuel)
  show ?case
  proof (cases "dv8 dv l PS2_STATUS AND 1 = 0")
    case False
    with Suc.prems show ?thesis by (intro exI [of _ "[]"]) (auto simp: in8_def Let_def)
  next
    case True
    with Suc obtain ops v where "l' = (l @ [In8 PS2_STATUS (dv8 dv l PS2_STATUS)]) @ ops @ [In8 PS2_STATUS v]"
      "list_all (\<lambda>x. \<exists>v. x = In8 PS2_STATUS v) ops" "v AND 1 \<noteq> 0"
      by (fastforce simp: in8_def Let_def)
    then show ?thesis
      by (intro exI [of _ "In8 PS2_STATUS (dv8 dv l PS2_STATUS) # ops"]) auto
  qed
qed simp

lemma status_then:
  assumes "list_all (\<lambda>x. \<exists>v. x = In8 PS2_STATUS v) ops" "status_allows (Some (In8 PS2_STATUS v)) x"
  shows "conversation l (l @ ops @ [In8 PS2_STATUS v, x]) (outputs [x])"
proof -
  have "status_guarded None (ops @ [In8 PS2_STATUS v, x])"
    using assms status_guarded_append status_reads_guarded by fastforce
  then show ?thesis using status_reads_guarded [OF assms(1)]
    by (cases x) (auto simp: conversation_def)
qed

lemma wait_conversation: "wait_ready_write dv fuel l = Some l' \<Longrightarrow> conversation l l' []"
proof -
  assume "wait_ready_write dv fuel l = Some l'"
  then obtain ops v where l': "l' = l @ ops @ [In8 PS2_STATUS v]"
    and ops: "list_all (\<lambda>x. \<exists>v. x = In8 PS2_STATUS v) ops"
    using wait_ready_write_log by blast
  from ops have "list_all (\<lambda>x. \<exists>v. x = In8 PS2_STATUS v) (ops @ [In8 PS2_STATUS v])" by simp
  from status_reads_guarded [OF this] l' show ?thesis unfolding conversation_def by blast
qed

lemma write_conversation:
  "write_data dv fuel v l = Some l' \<Longrightarrow> conversation l l' [Out8 PS2_DATA v]"
  "ps2_write_command dv fuel v l = Some l' \<Longrightarrow> conversation l l' [Out8 PS2_COMMAND v]"
  using status_then [where x = "Out8 PS2_DATA v"] status_then [where x = "Out8 PS2_COMMAND v"]
  by (fastforce simp: write_data_def ps2_write_command_def bind_eq_Some_conv out8_def
      dest!: wait_ready_write_log)+

lemma read_conversation: "read_byte dv fuel l = Some (v, l') \<Longrightarrow> conversation l l' []"
  using status_then [where x = "In8 PS2_DATA v"]
  by (fastforce simp: read_byte_def bind_eq_Some_conv in8_def Let_def dest!: wait_ready_read_log)

lemma read_until_conversation:
  "read_until dv fuel expected n l = Some (found, l') \<Longrightarrow> conversation l l' []"
proof (induction n arbitrary: l)
  case 0
  then show ?case by (auto simp: conversation_def)
next
  case (Suc n)
  then obtain x l1 where "read_byte dv fuel l = Some (x, l1)"
    and rest: "if expected x then (True, l1) = (found, l') else read_until dv fuel expected n l1 = Some (found, l')"
    by (auto simp: bind_eq_Some_conv split: if_splits)
  then have l1: "conversation l l1 []" by (simp add: read_conversation)
  show ?case
  proof (cases "expected x")
    case False
    with rest Suc.IH have "conversation l1 l' []" by simp
    with conversation_trans [OF l1 this] show ?thesis by simp
  qed (use rest l1 in simp)
qed

lemmas conversation_steps = wait_conversation write_conversation read_conversation read_until_conversation

lemma conversation_silent:
  "conversation l l1 outs \<Longrightarrow> conversation l1 l2 [] \<Longrightarrow> conversation l l2 outs"
  using conversation_trans by fastforce

lemma test_conversation: "test_result dv fuel result l = Some (found, l') \<Longrightarrow> conversation l l' []"
  by (simp add: test_result_def read_until_conversation)

lemma command_conversations:
  "self_test dv fuel l = Some (ok, l') \<Longrightarrow> conversation l l' [Out8 PS2_DATA 0xFF]"
  "test_echo dv fuel l = Some (ok, l') \<Longrightarrow> conversation l l' [Out8 PS2_DATA 0xEE]"
  "disable_scanning dv fuel l = Some l' \<Longrightarrow> conversation l l' [Out8 PS2_DATA 0xF5]"
  "enable_scanning dv fuel l = Some l' \<Longrightarrow> conversation l l' [Out8 PS2_DATA 0xF4]"
  by (auto simp: self_test_def test_echo_def disable_scanning_def enable_scanning_def bind_eq_Some_conv
      split: if_splits dest!: write_conversation test_conversation elim: conversation_silent)

lemma verify_conversation: "verify_keyboard dv fuel l = Some l' \<Longrightarrow> conversation l l' [Out8 PS2_DATA 0xF2]"
  by (auto simp: verify_keyboard_def bind_eq_Some_conv split: if_splits
      dest!: write_conversation read_until_conversation intro: conversation_silent)

lemma configure_conversation:
  assumes "configure dv fuel l = Some l'"
  obtains conf where "conversation l l' [Out8 PS2_COMMAND 0x20, Out8 PS2_COMMAND 0x60,
    Out8 PS2_DATA (conf AND 0xBF), Out8 PS2_DATA 0xF0, Out8 PS2_DATA 0x02]"
proof -
  from assms obtain l1 l2 conf l3 l4 l5 l6 l7 ok where
    "wait_ready_write dv fuel l = Some l1" "ps2_write_command dv fuel 0x20 l1 = Some l2"
    "read_byte dv fuel l2 = Some (conf, l3)" "ps2_write_command dv fuel 0x60 l3 = Some l4"
    "write_data dv fuel (conf AND 0xBF) l4 = Some l5" "write_data dv fuel 0xF0 l5 = Some l6"
    "write_data dv fuel 0x02 l6 = Some l7" "test_result dv fuel 0xFA l7 = Some (ok, l')"
    by (auto simp: configure_def bind_eq_Some_conv split: if_splits)
  then have "conversation l l1 []" "conversation l1 l2 [Out8 PS2_COMMAND 0x20]" "conversation l2 l3 []"
    "conversation l3 l4 [Out8 PS2_COMMAND 0x60]" "conversation l4 l5 [Out8 PS2_DATA (conf AND 0xBF)]"
    "conversation l5 l6 [Out8 PS2_DATA 0xF0]" "conversation l6 l7 [Out8 PS2_DATA 0x02]" "conversation l7 l' []"
    by (simp_all add: conversation_steps test_conversation)
  from conversation_trans [OF this(1) conversation_trans [OF this(2) conversation_trans [OF this(3)
      conversation_trans [OF this(4) conversation_trans [OF this(5) conversation_trans [OF this(6)
      conversation_trans [OF this(7,8)]]]]]]] that
  show thesis by simp
qed

text \<open>The keyboard driver speaks the controller's protocol, whatever the keyboard answers.
  Every byte it sends during initialisation directly follows a status read that shows
  room in the controller's input buffer, every byte it reads follows a status read that shows data in the output buffer, and
  when initialisation ends the bytes sent are exactly reset, echo, disable
  scanning, identify, the controller configuration with translation turned off, scan code set 2
  and enable scanning.\<close>

lemma keyboard_init_protocol:
  assumes "keyboard_init dv fuel l = Some l'"
  shows "\<exists>ops conf. l' = l @ ops \<and> status_guarded None ops
    \<and> outputs ops = [Out8 PS2_DATA 0xFF, Out8 PS2_DATA 0xEE, Out8 PS2_DATA 0xF5, Out8 PS2_DATA 0xF2,
        Out8 PS2_COMMAND 0x20, Out8 PS2_COMMAND 0x60, Out8 PS2_DATA (conf AND 0xBF),
        Out8 PS2_DATA 0xF0, Out8 PS2_DATA 0x02, Out8 PS2_DATA 0xF4]"
proof -
  from assms obtain ok l1 ok' l2 l3 l4 l5 where
    steps: "self_test dv fuel l = Some (ok, l1)" "test_echo dv fuel l1 = Some (ok', l2)"
    "disable_scanning dv fuel l2 = Some l3" "verify_keyboard dv fuel l3 = Some l4"
    "configure dv fuel l4 = Some l5" "enable_scanning dv fuel l5 = Some l'"
    by (auto simp: keyboard_init_def bind_eq_Some_conv split: if_splits)
  from configure_conversation [OF steps(5)] obtain conf where c: "conversation l4 l5
    [Out8 PS2_COMMAND 0x20, Out8 PS2_COMMAND 0x60, Out8 PS2_DATA (conf AND 0xBF), Out8 PS2_DATA 0xF0,
     Out8 PS2_DATA 0x02]" .
  note o = command_conversations(1) [OF steps(1)] command_conversations(2) [OF steps(2)]
    command_conversations(3) [OF steps(3)] verify_conversation [OF steps(4)]
    command_conversations(4) [OF steps(6)]
  from conversation_trans [OF o(1) conversation_trans [OF o(2) conversation_trans [OF o(3)
      conversation_trans [OF o(4) conversation_trans [OF c o(5)]]]]]
  show ?thesis by (auto simp: conversation_def)
qed

subsection \<open>Decoding scan codes\<close>

text \<open>The bytes a keyboard sends in scan code set 2 for an event.\<close>

definition encode_event :: "KeyboardEvent \<Rightarrow> bytes" where
  "encode_event e = (if bit (ke_keycode e) 8 then [SC_ALTERNATIVE] else [])
     @ (if ke_release e then [SC_RELEASED] else []) @ [ucast (ke_keycode e)]"

definition plain_code :: "u8 \<Rightarrow> bool" where
  "plain_code b \<longleftrightarrow> b \<notin> {SC_RELEASED, SC_ALTERNATIVE, SC_ERROR_0, SC_ERROR_1, 0xFA, 0xEE}"

definition event_ok :: "KeyboardEvent \<Rightarrow> bool" where
  "event_ok e \<longleftrightarrow> ke_keycode e < 0x200 \<and> plain_code (ucast (ke_keycode e))"

lemma keycode_join:
  assumes "k < (0x200 :: u16)"
  shows "ucast (ucast k :: u8) OR push_bit 8 (of_bool (bit k 8)) = k"
proof (rule bit_word_eqI)
  fix n assume "n < LENGTH(16)"
  have "take_bit 9 k = k"
    using assms by (simp add: word_unat_eq_iff unsigned_take_bit_eq word_less_nat_alt take_bit_nat_eq_self_iff)
  then have "bit k n \<Longrightarrow> n < 9" by (metis bit_take_bit_iff)
  then show "bit (ucast (ucast k :: u8) OR push_bit 8 (of_bool (bit k 8)) :: u16) n = bit k n"
    using \<open>n < LENGTH(16)\<close> by (cases "n < 8"; cases "n = 8") (auto simp: bit_simps)
qed

lemma notify_plain:
  assumes "plain_code b"
  shows "keyboard_notify b s = (Some \<lparr>ke_keycode = ucast b OR push_bit 8 (of_bool (next_is_alternative s)),
    ke_release = next_is_release s\<rparr>, keyboard_state_new)"
  using assms
  by (cases s) (simp add: plain_code_def keyboard_notify_def kb_apply_def keyboard_state_new_def)

lemma ps2_loop_append:
  "ps2_loop (a @ b) s = (let (e1, s) = ps2_loop a s; (e2, s) = ps2_loop b s in (e1 @ e2, s))"
  by (induction a arbitrary: s) (simp_all add: Let_def split: prod.split)

lemma ps2_loop_event:
  assumes "event_ok e"
  shows "ps2_loop (encode_event e) keyboard_state_new = ([e], keyboard_state_new)"
proof -
  have codes: "keyboard_notify SC_ALTERNATIVE s = (None, s\<lparr>next_is_alternative := True\<rparr>)"
    "keyboard_notify SC_RELEASED s = (None, s\<lparr>next_is_release := True\<rparr>)" for s
    by (simp_all add: keyboard_notify_def kb_apply_def SC_ALTERNATIVE_def SC_RELEASED_def)
  obtain k r where e: "e = \<lparr>ke_keycode = k, ke_release = r\<rparr>" by (cases e)
  with assms have k: "plain_code (ucast k)" "k < 0x200" by (simp_all add: event_ok_def)
  show ?thesis
    using keycode_join [OF k(2)] by (cases "bit k 8"; cases r)
      (simp_all add: e encode_event_def codes notify_plain [OF k(1)] keyboard_state_new_def)
qed

text \<open>C40: The keyboard driver publishes exactly the key events the keyboard reports: from the
  bytes of any sequence of presses and releases, with acknowledgement and echo bytes arriving
  between them, it recovers the sequence.\<close>

theorem keyboard_events_decoded:
  assumes "\<forall>e \<in> set es. event_ok e" "length noise = length es"
    and "\<forall>n \<in> set noise. set n \<subseteq> {0xFA, 0xEE}"
  shows "ps2_loop (concat (map2 (\<lambda>n e. n @ encode_event e) noise es)) keyboard_state_new
    = (es, keyboard_state_new)"
  using assms
proof (induction es arbitrary: noise)
  case Nil
  then show ?case by simp
next
  case (Cons e es)
  then obtain n noise' where noise: "noise = n # noise'" by (cases noise) auto
  have "set n \<subseteq> {0xFA, 0xEE} \<Longrightarrow> ps2_loop n s = ([], s)" for n s
    by (induction n) (auto simp: keyboard_notify_def)
  with Cons noise show ?case by (auto simp: ps2_loop_append ps2_loop_event Let_def)
qed

theorem keyboard_events_decoded_witness:
  "ps2_loop (concat (map2 (\<lambda>n e. n @ encode_event e) [[0xFA], [], [0xEE, 0xFA]]
       [\<lparr>ke_keycode = 0x1c, ke_release = False\<rparr>, \<lparr>ke_keycode = 0x1c, ke_release = True\<rparr>,
        \<lparr>ke_keycode = 0x175, ke_release = True\<rparr>])) keyboard_state_new
    = ([\<lparr>ke_keycode = 0x1c, ke_release = False\<rparr>, \<lparr>ke_keycode = 0x1c, ke_release = True\<rparr>,
        \<lparr>ke_keycode = 0x175, ke_release = True\<rparr>], keyboard_state_new)"
  by (rule keyboard_events_decoded)
    (simp_all add: event_ok_def plain_code_def SC_RELEASED_def SC_ALTERNATIVE_def SC_ERROR_0_def SC_ERROR_1_def)

subsection \<open>A keyboard that answers\<close>

text \<open>
  The output buffer of a controller with a keyboard that answers every command at once; for it
  the initialisation ends.
\<close>

fun kb_answers :: "PortOp \<Rightarrow> bytes" where
  "kb_answers (Out8 p v) =
     (if p = PS2_COMMAND then (if v = 0x20 then [0x45] else [])
      else if v = 0xFF then [0xFA, 0xAA] else if v = 0xEE then [0xEE]
      else if v = 0xF2 then [0xFA, 0xAB, 0x83] else if v = 0x05 then [] else [0xFA])"
| "kb_answers _ = []"

definition kb_buffer :: "io_log \<Rightarrow> bytes" where
  "kb_buffer l = fold (\<lambda>x q. case x of In8 p v \<Rightarrow> (if p = PS2_DATA then tl q else q)
     | _ \<Rightarrow> q @ kb_answers x) l []"

definition demo_keyboard :: Dev where
  "demo_keyboard = \<lparr>dv8 = (\<lambda>l p. if p = PS2_STATUS then (if kb_buffer l = [] then 0 else 1) else hd (kb_buffer l @ [0])),
     dv16 = (\<lambda>_ _. 0), dv32 = (\<lambda>_ _. 0)\<rparr>"

lemma demo_keyboard_init: "keyboard_init demo_keyboard 2 [] \<noteq> None"
  by code_simp

lemma keyboard_init_protocol_example:
  "\<exists>l'. keyboard_init demo_keyboard 2 [] = Some l' \<and> status_guarded None l'
    \<and> length (outputs l') = 10 \<and> last (outputs l') = Out8 PS2_DATA 0xF4"
proof -
  obtain l' where l': "keyboard_init demo_keyboard 2 [] = Some l'" using demo_keyboard_init by auto
  from keyboard_init_protocol [OF this] l' show ?thesis by auto
qed

end
