(* ===== verification/ConsoleDaemon.thy ===== *)
theory ConsoleDaemon
  imports Ps2Keyboard "HOL-Library.Multiset"
begin

text \<open>
  The console daemon (\<open>daemon_console\<close>: \<open>virtual_console.rs\<close>, \<open>vga.rs\<close>, \<open>keyboard.rs\<close>,
  \<open>lib.rs\<close>) with the key maps of \<open>libs/d7keymap\<close>.

  Text is a byte sequence. Unicode normalisation and segmentation are third-party crates:
  parameters \<open>nfc\<close> and \<open>graphemes\<close>. The iteration order of a key map is the order of an
  association list. Key presses that are remapped for ever do not return: \<open>None\<close>, as for a
  panic. System calls of the daemon succeed.
\<close>

unbundle bit_operations_syntax

subsection \<open>Screen (vga.rs)\<close>

datatype Color = Black | Blue | Green | Cyan | Red | Magenta | Brown | LightGray | DarkGray
  | LightBlue | LightGreen | LightCyan | LightRed | Pink | Yellow | White

fun color_code :: "Color \<Rightarrow> u8" where
  "color_code Black = 0" | "color_code Blue = 1" | "color_code Green = 2" | "color_code Cyan = 3"
| "color_code Red = 4" | "color_code Magenta = 5" | "color_code Brown = 6" | "color_code LightGray = 7"
| "color_code DarkGray = 8" | "color_code LightBlue = 9" | "color_code LightGreen = 10"
| "color_code LightCyan = 11" | "color_code LightRed = 12" | "color_code Pink = 13"
| "color_code Yellow = 14" | "color_code White = 15"

definition color_of :: "u8 \<Rightarrow> Color" where
  "color_of v = [Black, Blue, Green, Cyan, Red, Magenta, Brown, LightGray, DarkGray, LightBlue,
     LightGreen, LightCyan, LightRed, Pink, Yellow, White] ! unat (v AND 0xf)"

type_synonym CellColor = u8

definition cell_color_new :: "Color \<Rightarrow> Color \<Rightarrow> CellColor" where
  "cell_color_new foreground background = push_bit 4 (color_code background) OR color_code foreground"

definition cell_foreground :: "CellColor \<Rightarrow> Color" where
  "cell_foreground c = color_of (c AND 0xf)"

definition cell_background :: "CellColor \<Rightarrow> Color" where
  "cell_background c = color_of (drop_bit 4 (c AND 0xf0))"

definition cell_invert :: "CellColor \<Rightarrow> CellColor" where
  "cell_invert c = cell_color_new (cell_background c) (cell_foreground c)"

record CharCell =
  cc_character :: u8
  cc_color :: CellColor

definition SCREEN_HEIGHT :: nat where "SCREEN_HEIGHT = 25"
definition SCREEN_WIDTH :: nat where "SCREEN_WIDTH = 80"

type_synonym Screen = "CharCell list list"

definition set_cell :: "nat \<Rightarrow> nat \<Rightarrow> CharCell \<Rightarrow> Screen \<Rightarrow> Screen option" where
  "set_cell row col c buf = do {
     line \<leftarrow> index buf row;
     rassert (col < length line);
     Some (buf[row := line[col := c]])
   }"

definition screen_clear :: "Screen \<Rightarrow> Screen option" where
  "screen_clear buf =
     foldM (\<lambda>buf col. foldM (\<lambda>buf row. set_cell row col
         \<lparr>cc_character = 0x20, cc_color = cell_color_new White Black\<rparr> buf) buf [0..<SCREEN_HEIGHT])
       buf [0..<SCREEN_WIDTH]"

subsection \<open>Virtual consoles (virtual_console.rs)\<close>

record Output =
  ou_lines :: "bytes list"
  ou_height :: nat
  ou_width :: nat

definition output_new :: Output where
  "output_new = \<lparr>ou_lines = [], ou_height = 25, ou_width = 80\<rparr>"

definition out_new_line :: "Output \<Rightarrow> Output" where
  "out_new_line out =
     (let lines = ou_lines out @ [[]] in
      out\<lparr>ou_lines := (if length lines > ou_height out then tl lines else lines)\<rparr>)"

definition out_write_byte :: "Output \<Rightarrow> u8 \<Rightarrow> Output option" where
  "out_write_byte out byte = do {
     rassert (byte \<noteq> 0);
     (if byte = 0x0d then Some out
      else if byte = 0x0a then Some (out_new_line out)
      else do {
        let out = (if ou_lines out = [] then out\<lparr>ou_lines := [[]]\<rparr>
                   else if length (last (ou_lines out)) = ou_width out then out_new_line out
                   else out);
        rassert (ou_lines out \<noteq> []);
        Some (out\<lparr>ou_lines := butlast (ou_lines out) @ [last (ou_lines out) @ [byte]]\<rparr>)
      })
   }"

definition out_write_str :: "bytes \<Rightarrow> Output \<Rightarrow> Output option" where
  "out_write_str text out = foldM out_write_byte out text"

text \<open>The iterator over the last 25 lines gives each row its line, or an empty one.\<close>

definition out_render :: "Output \<Rightarrow> Screen \<Rightarrow> Screen option" where
  "out_render out buf =
     (let color = cell_color_new White Black;
          it = rev (take 25 (rev (ou_lines out)))
      in foldM (\<lambda>buf line.
           let text = (if line < length it then it ! line else []) in
           foldM (\<lambda>buf column.
             set_cell line column
               \<lparr>cc_character = (if column < length text then text ! column else 0x20), cc_color = color\<rparr> buf)
             buf [0..<ou_width out])
         buf [0..<ou_height out])"

subsection \<open>Key maps (d7keymap)\<close>

type_synonym KeySymbol = string

record Combination =
  co_modifiers :: "KeySymbol set"
  co_main :: KeySymbol

definition combination_matches :: "Combination \<Rightarrow> KeySymbol \<Rightarrow> KeySymbol set \<Rightarrow> bool" where
  "combination_matches k current pressed \<longleftrightarrow> co_modifiers k = pressed \<and> co_main k = current"

fun split_plus :: "string \<Rightarrow> string list" where
  "split_plus [] = [[]]"
| "split_plus (c # cs) =
     (if c = CHR ''+'' then [] # split_plus cs
      else (case split_plus cs of w # ws \<Rightarrow> (c # w) # ws | [] \<Rightarrow> [[c]]))"

definition combination_from_str :: "string \<Rightarrow> Combination" where
  "combination_from_str s =
     (let modifiers = split_plus s
      in \<lparr>co_modifiers = set (butlast modifiers), co_main = last modifiers\<rparr>)"

datatype KeyAction = KeyText bytes | KeyBuffer bytes | KeyRemap KeySymbol | KeyIgnore

record KeyMap =
  km_modifiers :: "KeySymbol set"
  km_mapping :: "(Combination \<times> KeyAction) list"

subsection \<open>Keyboard (keyboard.rs)\<close>

record Keyboard =
  kb_keycodes :: "u16 \<Rightarrow> KeySymbol option"
  kb_keymap :: KeyMap
  kb_pressed_modifiers :: "KeySymbol set"

datatype EventAction =
  ActionKey KeyAction | ActionUnmatched KeySymbol "KeySymbol set" | ActionIgnore | ActionNoSuchSymbol

definition first_match :: "(Combination \<times> KeyAction) list \<Rightarrow> KeySymbol set \<Rightarrow> KeySymbol \<Rightarrow> KeyAction option" where
  "first_match mapping pressed keysym =
     map_option snd (find (\<lambda>(k, v). combination_matches k keysym pressed) mapping)"

partial_function (option) follow_remaps ::
  "(KeySymbol \<Rightarrow> KeyAction option) \<Rightarrow> KeySymbol \<Rightarrow> KeyAction option option" where
  "follow_remaps look keysym =
     (case look keysym of
        None \<Rightarrow> Some None
      | Some (KeyRemap to) \<Rightarrow> follow_remaps look to
      | Some v \<Rightarrow> Some (Some v))"

definition process_keysym_press :: "Keyboard \<Rightarrow> KeySymbol \<Rightarrow> KeyAction option option" where
  "process_keysym_press kb keysym =
     follow_remaps (first_match (km_mapping (kb_keymap kb)) (kb_pressed_modifiers kb)) keysym"

definition kb_process_event :: "KeyboardEvent \<Rightarrow> Keyboard \<Rightarrow> (EventAction \<times> Keyboard) option" where
  "kb_process_event event kb =
     (case kb_keycodes kb (ke_keycode event) of
        None \<Rightarrow> Some (ActionNoSuchSymbol, kb)
      | Some keysym \<Rightarrow>
          (if keysym \<in> km_modifiers (kb_keymap kb) then
             Some (ActionIgnore, kb\<lparr>kb_pressed_modifiers :=
               (if ke_release event then kb_pressed_modifiers kb - {keysym}
                else insert keysym (kb_pressed_modifiers kb))\<rparr>)
           else if \<not> ke_release event then do {
             result \<leftarrow> process_keysym_press kb keysym;
             Some (case result of
                 Some action \<Rightarrow> ActionKey action
               | None \<Rightarrow> ActionUnmatched keysym (kb_pressed_modifiers kb), kb)
           }
           else Some (ActionIgnore, kb)))"

subsection \<open>Input and consoles (virtual_console.rs, lib.rs)\<close>

record Input =
  in_dead_key_buffer :: bytes
  in_input_buffer :: bytes

definition input_new :: Input where
  "input_new = \<lparr>in_dead_key_buffer = [], in_input_buffer = []\<rparr>"

fun in_keyboard_event ::
  "(bytes \<Rightarrow> bytes) \<Rightarrow> (bytes \<Rightarrow> bytes list) \<Rightarrow> EventAction \<Rightarrow> Input \<Rightarrow> Input option" where
  "in_keyboard_event nfc graphemes (ActionKey (KeyText text)) i =
     Some (i\<lparr>in_dead_key_buffer := [],
             in_input_buffer := nfc (in_input_buffer i @ in_dead_key_buffer i @ text)\<rparr>)"
| "in_keyboard_event nfc graphemes (ActionKey (KeyBuffer text)) i =
     Some (i\<lparr>in_dead_key_buffer := in_dead_key_buffer i @ text\<rparr>)"
| "in_keyboard_event nfc graphemes (ActionKey (KeyRemap to)) i = None"
| "in_keyboard_event nfc graphemes (ActionKey KeyIgnore) i = Some i"
| "in_keyboard_event nfc graphemes (ActionUnmatched symbol modifiers) i =
     Some (if symbol = ''Enter'' \<and> modifiers = {} then i\<lparr>in_input_buffer := in_input_buffer i @ [0x0a]\<rparr>
       else if symbol = ''Backspace'' \<and> modifiers = {} then
         i\<lparr>in_dead_key_buffer := [], in_input_buffer := concat (butlast (graphemes (in_input_buffer i)))\<rparr>
       else i)"
| "in_keyboard_event nfc graphemes ActionIgnore i = Some i"
| "in_keyboard_event nfc graphemes ActionNoSuchSymbol i = Some i"

record VirtualConsole =
  vc_output :: Output
  vc_input :: Input

definition virtual_console_new :: VirtualConsole where
  "virtual_console_new = \<lparr>vc_output = output_new, vc_input = input_new\<rparr>"

definition vc_render :: "VirtualConsole \<Rightarrow> Screen \<Rightarrow> Screen option" where
  "vc_render vc buf = do {
     s \<leftarrow> out_write_str (in_input_buffer (vc_input vc)) (vc_output vc);
     out_render s buf
   }"

definition receive_print :: "bytes \<Rightarrow> VirtualConsole \<Rightarrow> VirtualConsole option" where
  "receive_print message vc = do {
     out \<leftarrow> out_write_str message (vc_output vc);
     Some (vc\<lparr>vc_output := out\<rparr>)
   }"

text \<open>\<open>str::parse::<usize>\<close>: an optional plus sign and decimal digits, below \<open>2 ^ 64\<close>.\<close>

fun parse_digits :: "nat \<Rightarrow> string \<Rightarrow> nat option" where
  "parse_digits acc [] = Some acc"
| "parse_digits acc (c # cs) =
     (let d = of_char c in
      if 48 \<le> d \<and> d \<le> 57
      then (let n = 10 * acc + (d - 48) in if n < 2 ^ 64 then parse_digits n cs else None)
      else None)"

definition parse_usize :: "string \<Rightarrow> nat option" where
  "parse_usize s =
     (case s of [] \<Rightarrow> None
      | c # cs \<Rightarrow> (if c = CHR ''+'' then (if cs = [] then None else parse_digits 0 cs) else parse_digits 0 s))"

record ConsoleState =
  cs_active_index :: nat
  cs_consoles :: "VirtualConsole list"
  cs_keyboard :: Keyboard
  cs_screen :: Screen

datatype ConsoleEvent = PrintEvent nat bytes | KeyEvent KeyboardEvent

definition console_start :: "Keyboard \<Rightarrow> Screen \<Rightarrow> ConsoleState option" where
  "console_start keyboard screen = do {
     let consoles = replicate 10 virtual_console_new;
     screen \<leftarrow> vc_render (consoles ! 0) screen;
     Some \<lparr>cs_active_index = 0, cs_consoles = consoles, cs_keyboard = keyboard, cs_screen = screen\<rparr>
   }"

fun switch_console :: "EventAction \<Rightarrow> nat \<Rightarrow> nat" where
  "switch_console (ActionUnmatched k mods) active =
     (if mods = {''LeftCtrl''} then (case parse_usize k of Some number \<Rightarrow> number | None \<Rightarrow> active)
      else active)"
| "switch_console _ active = active"

fun console_iteration ::
  "(bytes \<Rightarrow> bytes) \<Rightarrow> (bytes \<Rightarrow> bytes list) \<Rightarrow> ConsoleState \<Rightarrow> ConsoleEvent \<Rightarrow> ConsoleState option" where
  "console_iteration nfc graphemes st (PrintEvent c_index message) = do {
     console \<leftarrow> index (cs_consoles st) c_index;
     console \<leftarrow> receive_print message console;
     let st = st\<lparr>cs_consoles := (cs_consoles st)[c_index := console]\<rparr>;
     (if c_index = cs_active_index st then do {
        screen \<leftarrow> vc_render console (cs_screen st);
        Some (st\<lparr>cs_screen := screen\<rparr>)
      } else Some st)
   }"
| "console_iteration nfc graphemes st (KeyEvent event) = do {
     (action, keyboard) \<leftarrow> kb_process_event event (cs_keyboard st);
     let st = st\<lparr>cs_keyboard := keyboard, cs_active_index := switch_console action (cs_active_index st)\<rparr>;
     st \<leftarrow> (if cs_active_index st \<noteq> 0 then do {
         console \<leftarrow> index (cs_consoles st) (cs_active_index st);
         i \<leftarrow> in_keyboard_event nfc graphemes action (vc_input console);
         Some (st\<lparr>cs_consoles := (cs_consoles st)[cs_active_index st := console\<lparr>vc_input := i\<rparr>]\<rparr>)
       } else Some st);
     console \<leftarrow> index (cs_consoles st) (cs_active_index st);
     screen \<leftarrow> vc_render console (cs_screen st);
     Some (st\<lparr>cs_screen := screen\<rparr>)
   }"

subsection \<open>Layout of a text\<close>

definition lastn :: "nat \<Rightarrow> 'a list \<Rightarrow> 'a list" where
  "lastn n xs = drop (length xs - n) xs"

text \<open>The lines of a text on a screen of unlimited height.\<close>

definition lay_byte :: "nat \<Rightarrow> bytes list \<Rightarrow> u8 \<Rightarrow> bytes list" where
  "lay_byte w lines b =
     (if b = 0x0d then lines
      else if b = 0x0a then lines @ [[]]
      else if lines = [] then [[b]]
      else if length (last lines) = w then lines @ [[b]]
      else butlast lines @ [last lines @ [b]])"

definition layout :: "bytes \<Rightarrow> bytes list" where
  "layout text = foldl (lay_byte 80) [] text"

lemma rev_take_rev: "rev (take n (rev xs)) = lastn n xs"
  by (simp add: lastn_def rev_take)

lemma last_lastn: "0 < n \<Longrightarrow> xs \<noteq> [] \<Longrightarrow> last (lastn n xs) = last xs"
  by (simp add: lastn_def)

lemma lastn_eq_Nil: "0 < n \<Longrightarrow> lastn n xs = [] \<longleftrightarrow> xs = []"
  by (cases xs) (auto simp: lastn_def)

lemma lastn_snoc: "lastn (Suc n) (xs @ [x]) = lastn n xs @ [x]"
  by (simp add: lastn_def)

lemma butlast_lastn: "butlast (lastn (Suc n) xs) = lastn n (butlast xs)"
  by (cases xs rule: rev_cases) (simp_all add: lastn_snoc, simp add: lastn_def)

definition output_ok :: "Output \<Rightarrow> bool" where
  "output_ok out \<longleftrightarrow> ou_height out = 25 \<and> ou_width out = 80"

lemma new_line_lastn:
  assumes "ou_height out = Suc h" "ou_lines out = lastn (Suc h) L"
  shows "out_new_line out = out\<lparr>ou_lines := lastn h L @ [[]]\<rparr>"
proof (cases "h < length L")
  case True
  then have "length (lastn (Suc h) L) = Suc h" "lastn h L = tl (lastn (Suc h) L)" "lastn (Suc h) L \<noteq> []"
    by (auto simp: lastn_def tl_drop drop_Suc [symmetric] Suc_diff_Suc)
  with assms show ?thesis by (simp add: out_new_line_def Let_def)
next
  case False
  with assms show ?thesis by (simp add: out_new_line_def lastn_def Let_def)
qed

lemma write_byte_lastn:
  assumes "output_ok out" "ou_lines out = lastn 25 L" "b \<noteq> 0"
  shows "\<exists>out'. out_write_byte out b = Some out' \<and> output_ok out' \<and> ou_lines out' = lastn 25 (lay_byte 80 L b)"
proof -
  have h: "ou_height out = Suc 24" "ou_lines out = lastn (Suc 24) L" "ou_width out = 80"
    using assms by (simp_all add: output_ok_def)
  note nl = new_line_lastn [OF h(1,2)]
  have snoc: "lastn 25 (L @ [x]) = lastn 24 L @ [x]" for x :: bytes using lastn_snoc [of 24 L x] by simp
  consider (cr) "b = 0x0d" | (lf) "b = 0x0a" | (first) "b \<noteq> 0x0d" "b \<noteq> 0x0a" "L = []"
    | (full) "b \<noteq> 0x0d" "b \<noteq> 0x0a" "L \<noteq> []" "length (last L) = 80"
    | (room) "b \<noteq> 0x0d" "b \<noteq> 0x0a" "L \<noteq> []" "length (last L) \<noteq> 80" by blast
  then show ?thesis
  proof cases
    case cr
    with assms show ?thesis by (simp add: out_write_byte_def lay_byte_def)
  next
    case lf
    with assms nl snoc show ?thesis by (simp add: out_write_byte_def lay_byte_def output_ok_def)
  next
    case first
    with assms show ?thesis by (simp add: out_write_byte_def lay_byte_def output_ok_def lastn_def)
  next
    case full
    then have "ou_lines out \<noteq> []" "last (ou_lines out) = last L"
      using assms(2) by (simp_all add: lastn_eq_Nil last_lastn)
    with full assms nl snoc h(3) show ?thesis
      by (simp add: out_write_byte_def lay_byte_def output_ok_def)
  next
    case room
    then have "ou_lines out \<noteq> []" "last (ou_lines out) = last L"
      using assms(2) by (simp_all add: lastn_eq_Nil last_lastn)
    moreover have "lastn 25 (butlast L @ [x]) = butlast (ou_lines out) @ [x]" for x
      using lastn_snoc [of 24 "butlast L" x] butlast_lastn [of 24 L] assms(2) by simp
    ultimately show ?thesis using room assms h(3)
      by (simp add: out_write_byte_def lay_byte_def output_ok_def)
  qed
qed

lemma write_str_lastn:
  assumes "output_ok out" "ou_lines out = lastn 25 L" "0 \<notin> set msg"
  shows "\<exists>out'. out_write_str msg out = Some out' \<and> output_ok out'
    \<and> ou_lines out' = lastn 25 (foldl (lay_byte 80) L msg)"
  using assms
proof (induction msg arbitrary: out L)
  case Nil
  then show ?case by (simp add: out_write_str_def)
next
  case (Cons b msg)
  then obtain out1 where "out_write_byte out b = Some out1" "output_ok out1"
    "ou_lines out1 = lastn 25 (lay_byte 80 L b)" using write_byte_lastn by fastforce
  with Cons.IH [OF this(2,3)] Cons.prems(3) show ?case by (simp add: out_write_str_def)
qed

text \<open>What a layout contains: all characters of the msg, in lines that fit the screen.\<close>

lemma lay_byte_lines:
  assumes "\<forall>x\<in>set L. length x \<le> 80"
  shows "concat (lay_byte 80 L b) = concat L @ filter (\<lambda>b. b \<noteq> 0x0a \<and> b \<noteq> 0x0d) [b]"
    and "\<forall>x\<in>set (lay_byte 80 L b). length x \<le> 80"
proof -
  have "concat L = concat (butlast L) @ last L" if "L \<noteq> []"
    using that by (metis append_butlast_last_id concat_append concat.simps append_Nil2)
  then show "concat (lay_byte 80 L b) = concat L @ filter (\<lambda>b. b \<noteq> 0x0a \<and> b \<noteq> 0x0d) [b]"
    by (auto simp: lay_byte_def)
  have "length (last L) < 80" if "L \<noteq> []" "length (last L) \<noteq> 80"
    using that assms last_in_set [of L] by fastforce
  then show "\<forall>x\<in>set (lay_byte 80 L b). length x \<le> 80"
    using assms by (auto simp: lay_byte_def dest: in_set_butlastD)
qed

lemma layout_contents:
  "concat (layout msg) = filter (\<lambda>b. b \<noteq> 0x0a \<and> b \<noteq> 0x0d) msg"
  "\<forall>x\<in>set (layout msg). length x \<le> 80"
proof -
  have "concat (foldl (lay_byte 80) L msg) = concat L @ filter (\<lambda>b. b \<noteq> 0x0a \<and> b \<noteq> 0x0d) msg
      \<and> (\<forall>x\<in>set (foldl (lay_byte 80) L msg). length x \<le> 80)" if "\<forall>x\<in>set L. length x \<le> 80" for L
    using that
  proof (induction msg arbitrary: L)
    case (Cons b msg)
    from Cons.IH [OF lay_byte_lines(2) [OF Cons.prems]] lay_byte_lines(1) [OF Cons.prems, of b]
    show ?case by simp
  qed simp
  from this [of "[]"] show "concat (layout msg) = filter (\<lambda>b. b \<noteq> 0x0a \<and> b \<noteq> 0x0d) msg"
    "\<forall>x\<in>set (layout msg). length x \<le> 80" by (simp_all add: layout_def)
qed

subsection \<open>Rendering\<close>

definition picture :: "bytes list \<Rightarrow> Screen" where
  "picture L = map (\<lambda>r. map (\<lambda>c.
     \<lparr>cc_character = (if r < length L \<and> c < length (L ! r) then L ! r ! c else 0x20),
      cc_color = cell_color_new White Black\<rparr>) [0..<80]) [0..<25]"

definition screen_ok :: "Screen \<Rightarrow> bool" where
  "screen_ok buf \<longleftrightarrow> length buf = 25 \<and> (\<forall>row \<in> set buf. length row = 80)"

lemma screen_ok_picture [simp]: "screen_ok (picture L)"
  by (auto simp: screen_ok_def picture_def)

lemma render_row:
  assumes "row < length buf"
  shows "w \<le> length (buf ! row) \<Longrightarrow> foldM (\<lambda>buf column. set_cell row column (f column) buf) buf [0..<w]
    = Some (buf[row := map f [0..<w] @ drop w (buf ! row)])"
proof (induction w)
  case 0
  then show ?case by simp
next
  case (Suc w)
  with assms have "(map f [0..<w] @ drop w (buf ! row))[w := f w] = map f [0..<Suc w] @ drop (Suc w) (buf ! row)"
    by (simp add: list_update_append Cons_nth_drop_Suc [symmetric])
  with Suc assms show ?case by (simp add: foldM_append set_cell_def index_def)
qed

lemma render_rows:
  assumes "\<forall>row \<in> set buf. length row = w"
  shows "h \<le> length buf \<Longrightarrow> foldM (\<lambda>buf row. foldM (\<lambda>buf column. set_cell row column (f row column) buf) buf [0..<w])
      buf [0..<h] = Some (map (\<lambda>r. map (f r) [0..<w]) [0..<h] @ drop h buf)"
proof (induction h)
  case 0
  then show ?case by simp
next
  case (Suc h)
  let ?b = "map (\<lambda>r. map (f r) [0..<w]) [0..<h] @ drop h buf"
  from Suc assms have "h < length ?b" "length (?b ! h) = w" by (simp_all add: nth_append)
  then have "foldM (\<lambda>buf column. set_cell h column (f h column) buf) ?b [0..<w]
      = Some (?b[h := map (f h) [0..<w]])" using render_row [of h ?b w "f h"] by simp
  moreover from Suc have "?b[h := map (f h) [0..<w]]
      = map (\<lambda>r. map (f r) [0..<w]) [0..<Suc h] @ drop (Suc h) buf"
    by (simp add: list_update_append Cons_nth_drop_Suc [symmetric])
  ultimately show ?case using Suc by (simp add: foldM_append)
qed

lemma out_render_picture:
  assumes "output_ok out" "screen_ok buf" "ou_lines out = lastn 25 L"
  shows "out_render out buf = Some (picture (lastn 25 L))"
proof -
  have "rev (take 25 (rev (ou_lines out))) = lastn 25 L"
    using assms(3) by (simp add: rev_take_rev) (simp add: lastn_def)
  moreover have "foldM (\<lambda>buf row. foldM (\<lambda>buf column. set_cell row column (f row column) buf) buf [0..<80])
      buf [0..<25] = Some (map (\<lambda>r. map (f r) [0..<80]) [0..<25])" for f
    using render_rows [of buf 80 25 f] assms(2) by (simp add: screen_ok_def)
  ultimately show ?thesis using assms(1)
    by (simp add: out_render_def output_ok_def picture_def Let_def if_distrib [of length] cong: if_cong)
qed

subsection \<open>Key lookup\<close>

text \<open>Key symbols, texts and remappings the daemon can handle; \<open>rank\<close> decreases along remappings.\<close>

definition key_action_ok :: "(KeySymbol \<Rightarrow> nat) \<Rightarrow> KeySymbol \<Rightarrow> KeyAction \<Rightarrow> bool" where
  "key_action_ok rank main v = (case v of KeyText t \<Rightarrow> 0 \<notin> set t | KeyBuffer t \<Rightarrow> 0 \<notin> set t
     | KeyRemap to \<Rightarrow> rank to < rank main | KeyIgnore \<Rightarrow> True)"

definition keyboard_ok :: "(KeySymbol \<Rightarrow> nat) \<Rightarrow> Keyboard \<Rightarrow> bool" where
  "keyboard_ok rank kb \<longleftrightarrow>
     (\<forall>(k, v) \<in> set (km_mapping (kb_keymap kb)). key_action_ok rank (co_main k) v)
   \<and> (\<forall>code k n. kb_keycodes kb code = Some k \<longrightarrow> parse_usize k = Some n \<longrightarrow> n < 10)"

lemma first_match_mapping:
  "first_match mapping pressed keysym = Some v \<Longrightarrow> \<exists>k. (k, v) \<in> set mapping \<and> co_main k = keysym"
  by (force simp: first_match_def find_Some_iff combination_matches_def dest: nth_mem)

lemma follow_remaps_total:
  assumes "\<And>k v. look k = Some v \<Longrightarrow> key_action_ok rank k v"
  shows "\<exists>r. follow_remaps look keysym = Some r
    \<and> (\<forall>v. r = Some v \<longrightarrow> (\<exists>k. look k = Some v) \<and> (\<forall>to. v \<noteq> KeyRemap to))"
proof (induction "rank keysym" arbitrary: keysym rule: less_induct)
  case less
  show ?case
  proof (cases "look keysym")
    case None
    then show ?thesis by (simp add: follow_remaps.simps)
  next
    case (Some v)
    with less assms [OF Some] show ?thesis
      by (cases v) (auto simp: key_action_ok_def follow_remaps.simps [of look keysym])
  qed
qed

lemma process_event_ok:
  assumes "keyboard_ok rank kb"
  obtains action kb' where "kb_process_event event kb = Some (action, kb')"
    "kb_keycodes kb' = kb_keycodes kb" "kb_keymap kb' = kb_keymap kb"
    "case action of ActionKey v \<Rightarrow> (\<exists>main. key_action_ok rank main v) \<and> (\<forall>to. v \<noteq> KeyRemap to)
     | ActionUnmatched k mods \<Rightarrow> (\<forall>n. parse_usize k = Some n \<longrightarrow> n < 10) | _ \<Rightarrow> True"
proof (cases "kb_keycodes kb (ke_keycode event)")
  case None
  with that [of ActionNoSuchSymbol kb] show thesis by (simp add: kb_process_event_def)
next
  case (Some keysym)
  let ?look = "first_match (km_mapping (kb_keymap kb)) (kb_pressed_modifiers kb)"
  have look: "key_action_ok rank k v" if "?look k = Some v" for k v
    using first_match_mapping [OF that] assms by (fastforce simp: keyboard_ok_def)
  from follow_remaps_total [of ?look rank, OF look] obtain r where
    r: "process_keysym_press kb keysym = Some r"
    and r_ok: "\<And>v. r = Some v \<Longrightarrow> (\<exists>k. ?look k = Some v) \<and> (\<forall>to. v \<noteq> KeyRemap to)"
    by (auto simp: process_keysym_press_def)
  show thesis
  proof (cases "keysym \<in> km_modifiers (kb_keymap kb) \<or> ke_release event")
    case True
    with Some obtain kb' where "kb_process_event event kb = Some (ActionIgnore, kb')"
      "kb_keycodes kb' = kb_keycodes kb" "kb_keymap kb' = kb_keymap kb"
      by (cases "keysym \<in> km_modifiers (kb_keymap kb)") (auto simp: kb_process_event_def)
    with that [of ActionIgnore kb'] show thesis by simp
  next
    case False
    show thesis
    proof (cases r)
      case None
      with False Some r assms that [of "ActionUnmatched keysym (kb_pressed_modifiers kb)" kb] show thesis
        by (auto simp: kb_process_event_def keyboard_ok_def)
    next
      case (Some v)
      with r_ok [OF Some] look False r that [of "ActionKey v" kb] \<open>kb_keycodes kb (ke_keycode event) = Some keysym\<close>
      show thesis by (auto simp: kb_process_event_def)
    qed
  qed
qed

text \<open>The order in which the hash map is searched does not matter.\<close>

lemma first_match_order:
  assumes "distinct (map fst mapping)" "mset mapping = mset mapping'"
  shows "first_match mapping pressed keysym = first_match mapping' pressed keysym"
proof -
  have unique: "first_match mapping pressed keysym = map_of mapping \<lparr>co_modifiers = pressed, co_main = keysym\<rparr>"
    if "distinct (map fst mapping)" for mapping :: "(Combination \<times> KeyAction) list"
    by (induction mapping) (auto simp: first_match_def combination_matches_def)
  from assms have "distinct (map fst mapping')" "set mapping = set mapping'"
    by (metis mset_eq_imp_distinct_iff mset_map) (metis assms(2) set_mset_mset)
  with assms(1) have "map_of mapping = map_of mapping'" by (simp add: map_of_inject_set)
  with unique assms(1) \<open>distinct (map fst mapping')\<close> show ?thesis by simp
qed

subsection \<open>Runs of the daemon\<close>

fun print_of :: "nat \<Rightarrow> ConsoleEvent \<Rightarrow> bytes" where
  "print_of i (PrintEvent j msg) = (if j = i then msg else [])"
| "print_of i (KeyEvent e) = []"

definition printed :: "ConsoleEvent list \<Rightarrow> nat \<Rightarrow> bytes" where
  "printed evs i = concat (map (print_of i) evs)"

lemma printed_snoc [simp]: "printed (evs @ [e]) i = printed evs i @ print_of i e"
  by (simp add: printed_def)

definition unicode_ok :: "(bytes \<Rightarrow> bytes) \<Rightarrow> (bytes \<Rightarrow> bytes list) \<Rightarrow> bool" where
  "unicode_ok nfc graphemes \<longleftrightarrow> (\<forall>x. 0 \<notin> set x \<longrightarrow> 0 \<notin> set (nfc x)) \<and> (\<forall>x. concat (graphemes x) = x)"

definition input_ok :: "Input \<Rightarrow> bool" where
  "input_ok i \<longleftrightarrow> 0 \<notin> set (in_dead_key_buffer i) \<and> 0 \<notin> set (in_input_buffer i)"

definition vc_ok :: "bytes \<Rightarrow> VirtualConsole \<Rightarrow> bool" where
  "vc_ok msg vc \<longleftrightarrow> output_ok (vc_output vc) \<and> ou_lines (vc_output vc) = lastn 25 (layout msg) \<and> input_ok (vc_input vc)"

definition vc_picture :: "bytes \<Rightarrow> VirtualConsole \<Rightarrow> Screen" where
  "vc_picture msg vc = picture (lastn 25 (layout (msg @ in_input_buffer (vc_input vc))))"

definition console_inv :: "(KeySymbol \<Rightarrow> nat) \<Rightarrow> ConsoleEvent list \<Rightarrow> ConsoleState \<Rightarrow> bool" where
  "console_inv rank evs st \<longleftrightarrow> length (cs_consoles st) = 10 \<and> cs_active_index st < 10
     \<and> keyboard_ok rank (cs_keyboard st)
     \<and> (\<forall>i<10. vc_ok (printed evs i) (cs_consoles st ! i))
     \<and> cs_screen st = vc_picture (printed evs (cs_active_index st)) (cs_consoles st ! cs_active_index st)"

lemma vc_render_picture:
  assumes "vc_ok msg vc" "screen_ok buf"
  shows "vc_render vc buf = Some (vc_picture msg vc)"
proof -
  from assms(1) obtain out where "out_write_str (in_input_buffer (vc_input vc)) (vc_output vc) = Some out"
    "output_ok out" "ou_lines out = lastn 25 (foldl (lay_byte 80) (layout msg) (in_input_buffer (vc_input vc)))"
    using write_str_lastn unfolding vc_ok_def input_ok_def by metis
  with out_render_picture [OF this(2) assms(2) this(3)] show ?thesis
    by (simp add: vc_render_def vc_picture_def layout_def)
qed

lemma receive_print_ok:
  assumes "vc_ok msg vc" "0 \<notin> set extra"
  obtains vc' where "receive_print extra vc = Some vc'" "vc_ok (msg @ extra) vc'" "vc_input vc' = vc_input vc"
proof -
  from assms obtain out where "out_write_str extra (vc_output vc) = Some out"
    "output_ok out" "ou_lines out = lastn 25 (foldl (lay_byte 80) (layout msg) extra)"
    using write_str_lastn unfolding vc_ok_def by metis
  with assms that [of "vc\<lparr>vc_output := out\<rparr>"] show thesis
    by (simp add: receive_print_def vc_ok_def layout_def)
qed

lemma keyboard_event_ok:
  assumes "unicode_ok nfc graphemes" "input_ok i"
    and "case action of ActionKey v \<Rightarrow> (\<exists>main. key_action_ok rank main v) \<and> (\<forall>to. v \<noteq> KeyRemap to) | _ \<Rightarrow> True"
  obtains i' where "in_keyboard_event nfc graphemes action i = Some i'" "input_ok i'"
proof (cases "(nfc, graphemes, action, i)" rule: in_keyboard_event.cases)
  case (5 n g symbol modifiers j)
  have "set (concat (butlast (graphemes x))) \<subseteq> set (concat (graphemes x))" for x
    by (auto dest: in_set_butlastD)
  with assms(1) have "set (concat (butlast (graphemes x))) \<subseteq> set x" for x
    by (simp add: unicode_ok_def)
  with assms(2) have "0 \<notin> set (concat (butlast (graphemes (in_input_buffer i))))"
    by (auto simp only: input_ok_def)
  with 5 assms(2) that show thesis by (auto simp: input_ok_def simp del: set_concat split: if_splits)
qed (use assms that in \<open>auto simp: unicode_ok_def input_ok_def key_action_ok_def\<close>)

lemma switch_console_ok:
  assumes "active < 10"
    and "case action of ActionUnmatched k mods \<Rightarrow> (\<forall>n. parse_usize k = Some n \<longrightarrow> n < 10) | _ \<Rightarrow> True"
  shows "switch_console action active < 10"
  using assms by (cases action) (auto split: option.split)

lemma print_keeps_inv:
  assumes "console_inv rank evs st" "c < 10" "0 \<notin> set msg"
  shows "\<exists>st'. console_iteration nfc graphemes st (PrintEvent c msg) = Some st'
    \<and> console_inv rank (evs @ [PrintEvent c msg]) st'"
proof -
  have inv: "length (cs_consoles st) = 10" "vc_ok (printed evs c) (cs_consoles st ! c)" "screen_ok (cs_screen st)"
    using assms(1,2) by (auto simp: console_inv_def vc_picture_def)
  from receive_print_ok [OF inv(2) assms(3)] obtain vc where
    vc: "receive_print msg (cs_consoles st ! c) = Some vc" "vc_ok (printed evs c @ msg) vc" .
  let ?cs = "(cs_consoles st)[c := vc]"
  have all: "\<forall>i<10. vc_ok (printed (evs @ [PrintEvent c msg]) i) (?cs ! i)"
    using assms(1) vc(2) by (auto simp: console_inv_def nth_list_update)
  show ?thesis
  proof (cases "c = cs_active_index st")
    case True
    from vc_render_picture [OF vc(2) inv(3)] True vc(1) inv(1) all assms(1,2) show ?thesis
      by (auto simp: console_inv_def index_def)
  next
    case False
    with vc(1) inv(1) all assms(1,2) show ?thesis
      by (auto simp: console_inv_def index_def)
  qed
qed

lemma key_keeps_inv:
  assumes "console_inv rank evs st" "unicode_ok nfc graphemes"
  shows "\<exists>st'. console_iteration nfc graphemes st (KeyEvent e) = Some st'
    \<and> console_inv rank (evs @ [KeyEvent e]) st'"
proof -
  have inv: "length (cs_consoles st) = 10" "cs_active_index st < 10" "keyboard_ok rank (cs_keyboard st)"
    "screen_ok (cs_screen st)" and all: "\<And>i. i < 10 \<Longrightarrow> vc_ok (printed evs i) (cs_consoles st ! i)"
    using assms(1) by (auto simp: console_inv_def vc_picture_def)
  obtain action kb where act: "kb_process_event e (cs_keyboard st) = Some (action, kb)"
    and kb: "kb_keycodes kb = kb_keycodes (cs_keyboard st)" "kb_keymap kb = kb_keymap (cs_keyboard st)"
    and a_ok: "case action of ActionKey v \<Rightarrow> (\<exists>main. key_action_ok rank main v) \<and> (\<forall>to. v \<noteq> KeyRemap to)
     | ActionUnmatched k mods \<Rightarrow> (\<forall>n. parse_usize k = Some n \<longrightarrow> n < 10) | _ \<Rightarrow> True"
    using inv(3) by (rule process_event_ok)
  let ?a = "switch_console action (cs_active_index st)"
  have a: "?a < 10" using a_ok by (intro switch_console_ok [OF inv(2)]) (cases action; simp)
  obtain i where i: "in_keyboard_event nfc graphemes action (vc_input (cs_consoles st ! ?a)) = Some i" "input_ok i"
  proof (rule keyboard_event_ok [OF assms(2)])
    show "input_ok (vc_input (cs_consoles st ! ?a))" using all [OF a] by (simp add: vc_ok_def)
    show "case action of ActionKey v \<Rightarrow> (\<exists>main. key_action_ok rank main v) \<and> (\<forall>to. v \<noteq> KeyRemap to) | _ \<Rightarrow> True"
      using a_ok by (cases action) simp_all
  qed
  define vc where "vc = (if ?a = 0 then cs_consoles st ! ?a else (cs_consoles st ! ?a)\<lparr>vc_input := i\<rparr>)"
  have vc: "vc_ok (printed evs ?a) vc" using all [OF a] i(2) by (auto simp: vc_def vc_ok_def)
  have "console_iteration nfc graphemes st (KeyEvent e) = Some (st\<lparr>cs_keyboard := kb, cs_active_index := ?a,
      cs_consoles := (cs_consoles st)[?a := vc], cs_screen := vc_picture (printed evs ?a) vc\<rparr>)"
    using act i(1) a inv(1) vc_render_picture [OF vc inv(4)]
    by (cases "?a = 0") (auto simp: index_def vc_def)
  moreover have "keyboard_ok rank kb" using inv(3) kb by (simp add: keyboard_ok_def)
  ultimately show ?thesis using inv(1) a all vc
    by (auto simp: console_inv_def nth_list_update)
qed

definition event_acceptable :: "ConsoleEvent \<Rightarrow> bool" where
  "event_acceptable e = (case e of PrintEvent i msg \<Rightarrow> i < 10 \<and> 0 \<notin> set msg | KeyEvent _ \<Rightarrow> True)"

lemma run_keeps_inv:
  assumes "unicode_ok nfc graphemes"
  shows "console_inv rank evs st \<Longrightarrow> \<forall>e \<in> set es. event_acceptable e \<Longrightarrow>
    \<exists>st'. foldM (console_iteration nfc graphemes) st es = Some st' \<and> console_inv rank (evs @ es) st'"
proof (induction es arbitrary: evs st)
  case (Cons e es)
  have "\<exists>st1. console_iteration nfc graphemes st e = Some st1 \<and> console_inv rank (evs @ [e]) st1"
  proof (cases e)
    case (PrintEvent i msg)
    with Cons.prems have "i < 10" "0 \<notin> set msg" by (auto simp: event_acceptable_def)
    with print_keeps_inv [OF Cons.prems(1) this] PrintEvent show ?thesis by simp
  next
    case (KeyEvent k)
    with key_keeps_inv [OF Cons.prems(1) assms] show ?thesis by simp
  qed
  then obtain st1 where "console_iteration nfc graphemes st e = Some st1" "console_inv rank (evs @ [e]) st1"
    by blast
  with Cons.IH [OF this(2)] Cons.prems(2) show ?case by simp
qed simp


definition demo_keys :: Keyboard where
  "demo_keys = \<lparr>kb_keycodes = (\<lambda>c. if c = 0x14 then Some ''LeftCtrl'' else if c = 0x16 then Some ''1''
       else if c = 0x1c then Some ''a'' else None),
     kb_keymap = \<lparr>km_modifiers = {''LeftCtrl''},
       km_mapping = [(combination_from_str ''a'', KeyText [0x61])]\<rparr>, kb_pressed_modifiers = {}\<rparr>"


text \<open>A zero byte in a printed text stops the daemon, and so does a remapping to itself.\<close>

lemma zero_byte_panics: "out_write_str (a @ 0 # b) out = None"
  by (simp add: out_write_str_def foldM_append out_write_byte_def)

lemma key_symbol_above_nine_panics:
  assumes "parse_usize k = Some n" "length (cs_consoles st) \<le> n" "n \<noteq> 0"
    and "kb_process_event e (cs_keyboard st) = Some (ActionUnmatched k {''LeftCtrl''}, kb)"
  shows "console_iteration nfc graphemes st (KeyEvent e) = None"
  using assms by (simp add: index_def)

end
