(* ===== verification/VgaTerminal.thy ===== *)
theory VgaTerminal
  imports ConsoleDaemon
begin

text \<open>
  The kernel's text terminal (\<open>src/src/driver/vga_buffer.rs\<close>). The cursor packs row and column
  into one 64-bit word, as the code does; colours and character cells are those of the console
  daemon, whose \<open>vga.rs\<close> has the same types. An out-of-range access or a failed assertion is \<open>None\<close>.
\<close>

unbundle bit_operations_syntax

subsection \<open>Cursor\<close>

definition cursor_position :: "u64 \<Rightarrow> nat \<times> nat" where
  "cursor_position v = (unat (drop_bit 32 v), unat (v AND 0xffffffff))"

definition cursor_pack :: "nat \<Rightarrow> nat \<Rightarrow> u64" where
  "cursor_pack row col = push_bit 32 (of_nat row) OR of_nat col"

definition cursor_update :: "(nat \<Rightarrow> nat \<Rightarrow> nat \<times> nat) \<Rightarrow> u64 \<Rightarrow> u64 option" where
  "cursor_update f v = do {
     let (row, col) = cursor_position v;
     let (new_row, new_col) = f row col;
     rassert (new_row < SCREEN_HEIGHT);
     rassert (new_col < SCREEN_WIDTH);
     Some (cursor_pack new_row new_col)
   }"

definition cursor_next_col :: "u64 \<Rightarrow> (bool \<times> u64) option" where
  "cursor_next_col v = do {
     let overflow = (\<not> snd (cursor_position v) + 1 < SCREEN_WIDTH);
     v \<leftarrow> cursor_update (\<lambda>row col. (row, if col + 1 < SCREEN_WIDTH then col + 1 else col)) v;
     Some (overflow, v)
   }"

definition cursor_prev :: "u64 \<Rightarrow> u64 option" where
  "cursor_prev = cursor_update (\<lambda>row col.
     if col > 0 then (row, col - 1) else if row > 0 then (row - 1, SCREEN_WIDTH - 1) else (row, col))"

definition cursor_newline :: "u64 \<Rightarrow> (bool \<times> u64) option" where
  "cursor_newline v = do {
     let result = (\<not> fst (cursor_position v) < SCREEN_HEIGHT - 1);
     v \<leftarrow> cursor_update (\<lambda>row col. (if row < SCREEN_HEIGHT - 1 then row + 1 else row, 0)) v;
     Some (result, v)
   }"

definition cursor_set_col :: "nat \<Rightarrow> u64 \<Rightarrow> u64 option" where
  "cursor_set_col col v = do {
     rassert (col < SCREEN_WIDTH);
     Some ((v AND 0xffffffff00000000) OR of_nat col)
   }"

definition cursor_set_position :: "nat \<Rightarrow> nat \<Rightarrow> u64 option" where
  "cursor_set_position row col = do {
     rassert (row < SCREEN_HEIGHT);
     rassert (col < SCREEN_WIDTH);
     Some (cursor_pack row col)
   }"

subsection \<open>Terminal\<close>

record Terminal =
  te_cursor :: u64
  te_buffer :: Screen

definition blank_cell :: "CellColor \<Rightarrow> CharCell" where
  "blank_cell color = \<lparr>cc_character = 0x20, cc_color = color\<rparr>"

definition term_clear :: "CellColor \<Rightarrow> Terminal \<Rightarrow> Terminal option" where
  "term_clear color t = do {
     c \<leftarrow> cursor_set_position 0 0;
     buf \<leftarrow> foldM (\<lambda>buf col. foldM (\<lambda>buf row. set_cell row col (blank_cell color) buf) buf [0..<SCREEN_HEIGHT])
       (te_buffer t) [0..<SCREEN_WIDTH];
     Some (t\<lparr>te_cursor := c, te_buffer := buf\<rparr>)
   }"

definition term_reset :: "Terminal \<Rightarrow> Terminal option" where
  "term_reset = term_clear (cell_color_new White Black)"

definition term_clear_line :: "CellColor \<Rightarrow> Terminal \<Rightarrow> Terminal option" where
  "term_clear_line color t = do {
     let (row, _) = cursor_position (te_cursor t);
     buf \<leftarrow> foldM (\<lambda>buf col. set_cell row col (blank_cell color) buf) (te_buffer t) [0..<SCREEN_WIDTH];
     c \<leftarrow> cursor_set_col 0 (te_cursor t);
     Some (t\<lparr>te_cursor := c, te_buffer := buf\<rparr>)
   }"

definition copy_cell :: "nat \<Rightarrow> Screen \<Rightarrow> nat \<Rightarrow> Screen option" where
  "copy_cell row buf col = do {
     line \<leftarrow> index buf (row + 1);
     new_value \<leftarrow> index line col;
     set_cell row col new_value buf
   }"

definition scroll_line :: "Screen \<Rightarrow> Screen option" where
  "scroll_line buf = do {
     buf \<leftarrow> foldM (\<lambda>buf row. foldM (copy_cell row) buf [0..<SCREEN_WIDTH]) buf [0..<SCREEN_HEIGHT - 1];
     foldM (\<lambda>buf col. set_cell (SCREEN_HEIGHT - 1) col (blank_cell (cell_color_new White Black)) buf)
       buf [0..<SCREEN_WIDTH]
   }"

definition term_newline :: "Terminal \<Rightarrow> Terminal option" where
  "term_newline t = do {
     (scroll, c) \<leftarrow> cursor_newline (te_cursor t);
     buf \<leftarrow> (if scroll then scroll_line (te_buffer t) else Some (te_buffer t));
     Some (t\<lparr>te_cursor := c, te_buffer := buf\<rparr>)
   }"

text \<open>The last branch of \<open>write_byte\<close>, for a character that is displayed.\<close>

definition term_put :: "u8 \<Rightarrow> CellColor \<Rightarrow> Terminal \<Rightarrow> Terminal option" where
  "term_put byte color t = do {
     let (row, col) = cursor_position (te_cursor t);
     buf \<leftarrow> set_cell row col \<lparr>cc_character = byte, cc_color = color\<rparr> (te_buffer t);
     (col_overflows, c) \<leftarrow> cursor_next_col (te_cursor t);
     let t = t\<lparr>te_cursor := c, te_buffer := buf\<rparr>;
     (if col_overflows then term_newline t else Some t)
   }"

text \<open>\<open>backspace\<close> writes a blank through \<open>write_byte\<close>, which displays it.\<close>

definition term_backspace :: "Terminal \<Rightarrow> Terminal option" where
  "term_backspace t = do {
     c \<leftarrow> cursor_prev (te_cursor t);
     t \<leftarrow> term_put 0x20 (cell_color_new White Black) (t\<lparr>te_cursor := c\<rparr>);
     c \<leftarrow> cursor_prev (te_cursor t);
     Some (t\<lparr>te_cursor := c\<rparr>)
   }"

definition term_write_byte :: "u8 \<Rightarrow> CellColor \<Rightarrow> Terminal \<Rightarrow> Terminal option" where
  "term_write_byte byte color t = do {
     rassert (byte \<noteq> 0);
     (if byte = 0x0a then term_newline t
      else if byte = 0x8 then term_backspace t
      else term_put byte color t)
   }"

definition term_write_str :: "bytes \<Rightarrow> Terminal \<Rightarrow> Terminal option" where
  "term_write_str s t = foldM (\<lambda>t byte. term_write_byte byte (cell_color_new White Black) t) t s"

subsection \<open>Cursor arithmetic\<close>

lemma cursor_position_pack:
  assumes "row < 2 ^ 32" "col < 2 ^ 32"
  shows "cursor_position (cursor_pack row col) = (row, col)"
proof -
  have c: "bit col n \<Longrightarrow> n < 32" and r: "bit row n \<Longrightarrow> n < 32" for n
    using assms by (metis bit_take_bit_iff take_bit_nat_eq_self)+
  have "drop_bit 32 (cursor_pack row col) = of_nat row"
    by (rule bit_word_eqI) (auto simp: cursor_pack_def bit_simps dest: c r)
  moreover have "cursor_pack row col AND mask 32 = of_nat col"
    by (rule bit_word_eqI) (auto simp: cursor_pack_def bit_simps dest: c)
  moreover have "(0xffffffff :: u64) = mask 32" by (simp add: mask_eq_exp_minus_1)
  ultimately show ?thesis using assms
    by (simp add: cursor_position_def unat_of_nat take_bit_eq_mod)
qed

lemma cursor_update_pack:
  assumes "row < 25" "col < 80" "f row col = (row', col')" "row' < 25" "col' < 80"
  shows "cursor_update f (cursor_pack row col) = Some (cursor_pack row' col')"
  using assms by (simp add: cursor_update_def cursor_position_pack SCREEN_HEIGHT_def SCREEN_WIDTH_def)

lemma cursor_moves:
  assumes "row < 25" "col < 80"
  shows "cursor_next_col (cursor_pack row col)
      = Some (if col < 79 then (False, cursor_pack row (col + 1)) else (True, cursor_pack row col))"
    and "cursor_newline (cursor_pack row col)
      = Some (if row < 24 then (False, cursor_pack (row + 1) 0) else (True, cursor_pack row 0))"
    and "cursor_prev (cursor_pack row col) = Some (if col > 0 then cursor_pack row (col - 1)
      else if row > 0 then cursor_pack (row - 1) 79 else cursor_pack row col)"
  using assms
  by (auto simp: cursor_next_col_def cursor_newline_def cursor_prev_def cursor_update_pack
      cursor_position_pack SCREEN_HEIGHT_def SCREEN_WIDTH_def)

subsection \<open>Clearing and scrolling\<close>

lemma copy_row:
  assumes "row + 1 < length buf" "length (buf ! row) = 80" "length (buf ! (row + 1)) = 80"
  shows "w \<le> 80 \<Longrightarrow> foldM (copy_cell row) buf [0..<w]
    = Some (buf[row := take w (buf ! (row + 1)) @ drop w (buf ! row)])"
proof (induction w)
  case 0
  then show ?case by simp
next
  case (Suc w)
  with assms have "(take w (buf ! (row + 1)) @ drop w (buf ! row))[w := buf ! (row + 1) ! w]
      = take (Suc w) (buf ! (row + 1)) @ drop (Suc w) (buf ! row)"
    by (simp add: list_update_append take_Suc_conv_app_nth Cons_nth_drop_Suc [symmetric])
  with Suc assms show ?case by (simp add: foldM_append copy_cell_def set_cell_def index_def)
qed

lemma copy_rows:
  assumes "screen_ok buf"
  shows "h \<le> 24 \<Longrightarrow> foldM (\<lambda>buf row. foldM (copy_cell row) buf [0..<80]) buf [0..<h]
    = Some (take h (tl buf) @ drop h buf)"
proof (induction h)
  case 0
  then show ?case by simp
next
  case (Suc h)
  let ?b = "take h (tl buf) @ drop h buf"
  from assms have len: "length buf = 25" "\<And>i. i < 25 \<Longrightarrow> length (buf ! i) = 80" by (auto simp: screen_ok_def)
  with Suc have b: "?b ! h = buf ! h" "?b ! (h + 1) = buf ! (h + 1)" "length ?b = 25"
    by (simp_all add: nth_append)
  with Suc len have "foldM (copy_cell h) ?b [0..<80] = Some (?b[h := buf ! (h + 1)])"
    using copy_row [of h ?b 80] by simp
  moreover from Suc len have "?b[h := buf ! (h + 1)] = take (Suc h) (tl buf) @ drop (Suc h) buf"
    by (simp add: list_update_append take_Suc_conv_app_nth nth_tl Cons_nth_drop_Suc [symmetric])
  ultimately show ?case using Suc by (simp add: foldM_append)
qed

abbreviation blank_row :: "CharCell list" where
  "blank_row \<equiv> replicate 80 (blank_cell (cell_color_new White Black))"

lemma scroll_line_eq:
  assumes "screen_ok buf"
  shows "scroll_line buf = Some (tl buf @ [blank_row])"
proof -
  from assms have len: "length buf = 25" "length (buf ! 24) = 80" by (auto simp: screen_ok_def)
  let ?b = "tl buf @ [buf ! 24]"
  have "take 24 (tl buf) @ drop 24 buf = ?b"
    using len by (simp add: Cons_nth_drop_Suc [symmetric])
  with copy_rows [OF assms, of 24] have
    "foldM (\<lambda>buf row. foldM (copy_cell row) buf [0..<80]) buf [0..<24] = Some ?b" by simp
  moreover have "foldM (\<lambda>buf col. set_cell 24 col (blank_cell (cell_color_new White Black)) buf) ?b [0..<80]
      = Some (?b[24 := map (\<lambda>_. blank_cell (cell_color_new White Black)) [0..<80]])"
    using render_row [of 24 ?b 80 "\<lambda>_. blank_cell (cell_color_new White Black)"] len by (simp add: nth_append)
  ultimately show ?thesis using len
    by (simp add: scroll_line_def SCREEN_HEIGHT_def SCREEN_WIDTH_def map_replicate_const list_update_append)
qed

lemma clear_column:
  assumes "\<forall>row \<in> set buf. w < length row"
  shows "h \<le> length buf \<Longrightarrow> foldM (\<lambda>buf row. set_cell row w c buf) buf [0..<h]
    = Some (map (\<lambda>row. row[w := c]) (take h buf) @ drop h buf)"
proof (induction h)
  case 0
  then show ?case by simp
next
  case (Suc h)
  with assms have "w < length (buf ! h)" by simp
  with Suc show ?case
    by (simp add: foldM_append set_cell_def index_def nth_append list_update_append
        take_Suc_conv_app_nth Cons_nth_drop_Suc [symmetric])
qed

lemma clear_columns:
  assumes "screen_ok buf"
  shows "w \<le> 80 \<Longrightarrow> foldM (\<lambda>buf col. foldM (\<lambda>buf row. set_cell row col c buf) buf [0..<25]) buf [0..<w]
    = Some (map (\<lambda>row. replicate w c @ drop w row) buf)"
proof (induction w)
  case 0
  then show ?case by simp
next
  case (Suc w)
  let ?b = "map (\<lambda>row. replicate w c @ drop w row) buf"
  have len: "length ?b = 25" "\<forall>row \<in> set ?b. w < length row"
    using assms Suc.prems by (auto simp: screen_ok_def)
  have "map (\<lambda>row. row[w := c]) ?b = map (\<lambda>row. replicate (Suc w) c @ drop (Suc w) row) buf"
    using assms Suc.prems
    by (auto simp: screen_ok_def list_update_append Cons_nth_drop_Suc [symmetric] replicate_append_same [symmetric])
  with clear_column [OF len(2), of 25 c] len(1) Suc show ?case by (simp add: foldM_append)
qed

lemma term_clear_eq:
  assumes "screen_ok (te_buffer t)"
  shows "term_clear color t = Some (t\<lparr>te_cursor := cursor_pack 0 0,
    te_buffer := replicate 25 (replicate 80 (blank_cell color))\<rparr>)"
proof -
  have "map (\<lambda>row. replicate 80 (blank_cell color) @ drop 80 row) (te_buffer t)
      = replicate 25 (replicate 80 (blank_cell color))"
    using assms by (auto simp: screen_ok_def intro!: nth_equalityI)
  with clear_columns [OF assms, of 80] show ?thesis
    by (simp add: term_clear_def cursor_set_position_def SCREEN_HEIGHT_def SCREEN_WIDTH_def)
qed

subsection \<open>What the terminal shows\<close>

text \<open>The lines of a text when a full line is ended at once.\<close>

definition eager_byte :: "bytes list \<Rightarrow> u8 \<Rightarrow> bytes list" where
  "eager_byte lines b =
     (if b = 0x0a then lines @ [[]]
      else butlast lines @ [last lines @ [b]] @ (if length (last lines) = 79 then [[]] else []))"

definition eager_layout :: "bytes \<Rightarrow> bytes list" where
  "eager_layout msg = foldl eager_byte [[]] msg"

definition screen_row :: "bytes \<Rightarrow> CharCell list" where
  "screen_row l = map (\<lambda>c. \<lparr>cc_character = (if c < length l then l ! c else 0x20),
     cc_color = cell_color_new White Black\<rparr>) [0..<80]"

lemma screen_row_Nil: "screen_row [] = blank_row"
  by (simp add: screen_row_def blank_cell_def map_replicate_const)

lemma screen_row_snoc:
  assumes "length l < 80"
  shows "(screen_row l)[length l := \<lparr>cc_character = b, cc_color = cell_color_new White Black\<rparr>] = screen_row (l @ [b])"
  using assms by (intro nth_equalityI) (auto simp: screen_row_def nth_list_update nth_append)

lemma picture_rows:
  assumes "length L \<le> 25"
  shows "picture L = map screen_row L @ replicate (25 - length L) blank_row"
  unfolding screen_row_Nil [symmetric] using assms
  by (intro nth_equalityI) (auto simp: picture_def screen_row_def nth_append)

definition shows_lines :: "bytes list \<Rightarrow> Screen \<Rightarrow> bool" where
  "shows_lines lines buf \<longleftrightarrow> lines \<noteq> [] \<and> buf = picture (lastn 25 lines)"

definition cursor_row :: "bytes list \<Rightarrow> nat" where
  "cursor_row lines = min (length lines) 25 - 1"

lemma cursor_row_less: "cursor_row lines < 25"
  by (auto simp: cursor_row_def min_def)

lemma length_lastn [simp]: "length (lastn n xs) = min n (length xs)"
  by (simp add: lastn_def)

lemma term_newline_shows:
  assumes "shows_lines lines (te_buffer t)" "te_cursor t = cursor_pack (cursor_row lines) col" "col < 80"
  shows "\<exists>t'. term_newline t = Some t' \<and> shows_lines (lines @ [[]]) (te_buffer t')
    \<and> te_cursor t' = cursor_pack (cursor_row (lines @ [[]])) 0"
proof -
  note move = cursor_moves(2) [OF cursor_row_less assms(3), of lines]
  have pic: "te_buffer t = picture (lastn 25 lines)" "lines \<noteq> []" using assms(1) by (simp_all add: shows_lines_def)
  have snoc: "lastn 25 (lines @ [[]]) = lastn 24 lines @ [[]]" using lastn_snoc [of 24 lines "[]"] by simp
  show ?thesis
  proof (cases "length lines < 25")
    case True
    then have all: "lastn 25 lines = lines" "lastn 24 lines = lines" by (simp_all add: lastn_def)
    have "picture lines = picture (lines @ [[]])"
      using True by (simp add: picture_rows screen_row_Nil replicate_Suc [symmetric] Suc_diff_Suc del: replicate_Suc)
    moreover have "cursor_row lines < 24" "cursor_row (lines @ [[]]) = cursor_row lines + 1"
      using True pic(2) by (auto simp: cursor_row_def min_def Suc_le_eq)
    ultimately show ?thesis using move assms(2) pic all snoc
      by (simp add: term_newline_def shows_lines_def)
  next
    case False
    then have row: "cursor_row lines = 24" "cursor_row (lines @ [[]]) = 24" by (simp_all add: cursor_row_def)
    from False have "length (lastn 25 lines) = 25" "lastn 24 lines = tl (lastn 25 lines)"
      by (simp_all add: lastn_def tl_drop drop_Suc [symmetric] Suc_diff_Suc numeral_eq_Suc)
    then have "tl (picture (lastn 25 lines)) @ [blank_row] = picture (lastn 24 lines @ [[]])"
      by (simp add: picture_rows map_tl screen_row_Nil)
    with scroll_line_eq [of "te_buffer t"] move assms(2) pic row snoc show ?thesis
      by (simp add: term_newline_def shows_lines_def)
  qed
qed

lemma term_put_shows:
  assumes "shows_lines lines (te_buffer t)" "te_cursor t = cursor_pack (cursor_row lines) (length (last lines))"
    and "length (last lines) < 80" "b \<noteq> 0x0a"
  shows "\<exists>t'. term_put b (cell_color_new White Black) t = Some t' \<and> shows_lines (eager_byte lines b) (te_buffer t')
    \<and> te_cursor t' = cursor_pack (cursor_row (eager_byte lines b)) (length (last (eager_byte lines b)))
    \<and> length (last (eager_byte lines b)) < 80"
proof -
  let ?L = "lastn 25 lines" and ?row = "cursor_row lines" and ?col = "length (last lines)"
  let ?c = "\<lparr>cc_character = b, cc_color = cell_color_new White Black\<rparr>"
  let ?lines = "butlast lines @ [last lines @ [b]]"
  have pic: "te_buffer t = picture ?L" "lines \<noteq> []" using assms(1) by (simp_all add: shows_lines_def)
  have pos: "cursor_position (te_cursor t) = (?row, ?col)"
    using assms(2,3) cursor_row_less [of lines] by (simp add: cursor_position_pack)
  have last_L: "?L \<noteq> []" "last ?L = last lines" "butlast ?L = lastn 24 (butlast lines)" "length ?L - 1 = ?row" "length ?L \<le> 25"
    using pic(2) butlast_lastn [of 24 lines] by (simp_all add: lastn_eq_Nil last_lastn cursor_row_def min.commute)
  have "map screen_row ?L = map screen_row (butlast ?L @ [last lines])"
    using append_butlast_last_id [OF last_L(1)] last_L(2) by (intro arg_cong [of _ _ "map screen_row"]) simp
  then have split: "picture ?L = map screen_row (butlast ?L) @ [screen_row (last lines)] @ replicate (25 - length ?L) blank_row"
    using picture_rows [OF last_L(5)] by simp
  have len: "length (map screen_row (butlast ?L)) = ?row" using last_L(4) by simp
  have "set_cell ?row ?col ?c (picture ?L)
      = Some (map screen_row (butlast ?L) @ [screen_row (last lines @ [b])] @ replicate (25 - length ?L) blank_row)"
    unfolding split set_cell_def index_def using len screen_row_snoc [OF assms(3), of b] assms(3)
    by (simp add: nth_append list_update_append screen_row_def)
  also have "map screen_row (butlast ?L) @ [screen_row (last lines @ [b])] @ replicate (25 - length ?L) blank_row
      = picture (lastn 25 ?lines)"
  proof -
    have "lastn 25 ?lines = butlast ?L @ [last lines @ [b]]"
      using lastn_snoc [of 24 "butlast lines" "last lines @ [b]"] last_L(3) by simp
    moreover have le: "length (butlast ?L @ [last lines @ [b]]) = length ?L"
      using pic(2) by (cases lines) (auto simp: min_def)
    ultimately show ?thesis using picture_rows [of "butlast ?L @ [last lines @ [b]]", unfolded le, OF last_L(5)]
      by (simp only: map_append list.map append_assoc)
  qed
  finally have cell: "set_cell ?row ?col ?c (te_buffer t) = Some (picture (lastn 25 ?lines))" using pic(1) by simp
  have shown: "shows_lines ?lines (picture (lastn 25 ?lines))" by (simp add: shows_lines_def)
  have row: "cursor_row ?lines = ?row" using pic(2) by (simp add: cursor_row_def)
  note next_col = cursor_moves(1) [OF cursor_row_less assms(3), of lines]
  show ?thesis
  proof (cases "?col = 79")
    case False
    with cell next_col assms pos shown row show ?thesis
      by (simp add: term_put_def eager_byte_def)
  next
    case True
    let ?t = "t\<lparr>te_cursor := cursor_pack ?row 79, te_buffer := picture (lastn 25 ?lines)\<rparr>"
    from term_newline_shows [of ?lines ?t 79] shown row obtain t' where
      "term_newline ?t = Some t'" "shows_lines (?lines @ [[]]) (te_buffer t')"
      "te_cursor t' = cursor_pack (cursor_row (?lines @ [[]])) 0" by auto
    with True cell next_col assms(2,4) pos show ?thesis
      by (simp add: term_put_def eager_byte_def)
  qed
qed

lemma term_write_str_shows:
  assumes "shows_lines lines (te_buffer t)" "te_cursor t = cursor_pack (cursor_row lines) (length (last lines))"
    and "length (last lines) < 80" "0 \<notin> set s" "8 \<notin> set s"
  shows "\<exists>t'. term_write_str s t = Some t' \<and> shows_lines (foldl eager_byte lines s) (te_buffer t')
    \<and> te_cursor t' = cursor_pack (cursor_row (foldl eager_byte lines s)) (length (last (foldl eager_byte lines s)))
    \<and> length (last (foldl eager_byte lines s)) < 80"
  using assms
proof (induction s arbitrary: lines t)
  case Nil
  then show ?case by (simp add: term_write_str_def)
next
  case (Cons b s)
  have "\<exists>t'. term_write_byte b (cell_color_new White Black) t = Some t' \<and> shows_lines (eager_byte lines b) (te_buffer t')
    \<and> te_cursor t' = cursor_pack (cursor_row (eager_byte lines b)) (length (last (eager_byte lines b)))
    \<and> length (last (eager_byte lines b)) < 80"
  proof (cases "b = 0x0a")
    case True
    with term_newline_shows [OF Cons.prems(1-3)] show ?thesis
      by (auto simp: term_write_byte_def eager_byte_def)
  next
    case False
    with term_put_shows [OF Cons.prems(1-3) False] Cons.prems(4,5) show ?thesis
      by (simp add: term_write_byte_def)
  qed
  with Cons.IH Cons.prems(4,5) show ?case by (fastforce simp: term_write_str_def)
qed

subsection \<open>Writing never fails\<close>

definition term_ok :: "Terminal \<Rightarrow> bool" where
  "term_ok t \<longleftrightarrow> screen_ok (te_buffer t) \<and> (\<exists>row col. row < 25 \<and> col < 80 \<and> te_cursor t = cursor_pack row col)"

lemma screen_ok_scroll: "screen_ok buf \<Longrightarrow> screen_ok (tl buf @ [blank_row])"
  by (auto simp: screen_ok_def dest: list.set_sel(2) [rotated])

lemma term_newline_ok: "term_ok t \<Longrightarrow> \<exists>t'. term_newline t = Some t' \<and> term_ok t'"
proof -
  assume t: "term_ok t"
  then obtain row col where rc: "row < 25" "col < 80" "te_cursor t = cursor_pack row col" by (auto simp: term_ok_def)
  have pos: "\<exists>r c. r < 25 \<and> c < 80 \<and> cursor_pack (row + 1) 0 = cursor_pack r c" if "row < 24"
    using that by (intro exI [of _ "row + 1"] exI [of _ 0]) simp
  show ?thesis
  proof (cases "row < 24")
    case True
    with t rc cursor_moves(2) [OF rc(1,2)] pos show ?thesis by (simp add: term_newline_def term_ok_def)
  next
    case False
    have "\<exists>r c. r < 25 \<and> c < 80 \<and> cursor_pack row 0 = cursor_pack r c"
      using rc(1) by (intro exI [of _ row] exI [of _ 0]) simp
    with False t rc cursor_moves(2) [OF rc(1,2)] scroll_line_eq [of "te_buffer t"] screen_ok_scroll [of "te_buffer t"]
    show ?thesis by (simp add: term_newline_def term_ok_def)
  qed
qed

lemma set_cell_ok:
  assumes "screen_ok buf" "row < 25" "col < 80"
  shows "\<exists>buf'. set_cell row col c buf = Some buf' \<and> screen_ok buf'"
  using assms by (auto simp: set_cell_def index_def screen_ok_def dest!: set_update_subset_insert [THEN subsetD])

lemma term_put_ok:
  assumes "term_ok t"
  shows "\<exists>t'. term_put b color t = Some t' \<and> term_ok t'"
proof -
  from assms obtain row col where rc: "row < 25" "col < 80" "te_cursor t = cursor_pack row col"
    and buf: "screen_ok (te_buffer t)" by (auto simp: term_ok_def)
  from set_cell_ok [OF buf rc(1,2)] obtain buf where
    buf: "set_cell row col \<lparr>cc_character = b, cc_color = color\<rparr> (te_buffer t) = Some buf" "screen_ok buf" by blast
  have next_ok: "term_ok (t\<lparr>te_cursor := cursor_pack row c, te_buffer := buf\<rparr>)" if "c < 80" for c
    using that rc(1) buf(2) by (auto simp: term_ok_def)
  show ?thesis
  proof (cases "col < 79")
    case True
    with rc buf cursor_moves(1) [OF rc(1,2)] next_ok [of "col + 1"] show ?thesis
      by (simp add: term_put_def cursor_position_pack)
  next
    case False
    with rc buf cursor_moves(1) [OF rc(1,2)] term_newline_ok [OF next_ok [OF rc(2)]] show ?thesis
      by (simp add: term_put_def cursor_position_pack)
  qed
qed

lemma cursor_prev_ok: "term_ok t \<Longrightarrow> \<exists>c. cursor_prev (te_cursor t) = Some c \<and> term_ok (t\<lparr>te_cursor := c\<rparr>)"
proof -
  assume t: "term_ok t"
  then obtain row col where rc: "row < 25" "col < 80" "te_cursor t = cursor_pack row col" by (auto simp: term_ok_def)
  from cursor_moves(3) [OF rc(1,2)] obtain r c where
    "cursor_prev (te_cursor t) = Some (cursor_pack r c)" "r < 25" "c < 80"
    using rc by (cases "col > 0"; cases "row > 0") fastforce+
  with t show ?thesis by (auto simp: term_ok_def)
qed

lemma term_write_byte_ok: "term_ok t \<Longrightarrow> b \<noteq> 0 \<Longrightarrow> \<exists>t'. term_write_byte b color t = Some t' \<and> term_ok t'"
proof -
  assume t: "term_ok t" "b \<noteq> 0"
  have "\<exists>t'. term_backspace t = Some t' \<and> term_ok t'"
  proof -
    obtain c where c: "cursor_prev (te_cursor t) = Some c" "term_ok (t\<lparr>te_cursor := c\<rparr>)"
      using cursor_prev_ok [OF t(1)] by blast
    obtain t1 where t1: "term_put 0x20 (cell_color_new White Black) (t\<lparr>te_cursor := c\<rparr>) = Some t1" "term_ok t1"
      using term_put_ok [OF c(2)] by blast
    with c cursor_prev_ok [OF t1(2)] show ?thesis by (auto simp: term_backspace_def)
  qed
  with t term_newline_ok term_put_ok show ?thesis by (simp add: term_write_byte_def)
qed

lemma term_write_str_ok: "term_ok t \<Longrightarrow> 0 \<notin> set s \<Longrightarrow> \<exists>t'. term_write_str s t = Some t' \<and> term_ok t'"
proof (induction s arbitrary: t)
  case (Cons b s)
  from term_write_byte_ok [OF Cons.prems(1), of b] Cons.prems(2) obtain t1 where
    "term_write_byte b (cell_color_new White Black) t = Some t1" "term_ok t1" by fastforce
  with Cons show ?case by (auto simp: term_write_str_def)
qed (simp add: term_write_str_def)

text \<open>C30: The kernel terminal shows what is written to it. After a reset, writing any text
  without zero bytes returns with the cursor on the screen; for a text without backspaces the
  screen shows the last 25 lines of the text, wrapped at 80 columns, and the cursor is behind the last character.\<close>

theorem terminal_shows_text:
  assumes "screen_ok (te_buffer t)" "0 \<notin> set s"
  shows "\<exists>t0 t'. term_reset t = Some t0 \<and> term_write_str s t0 = Some t' \<and> term_ok t'
    \<and> (8 \<notin> set s \<longrightarrow> te_buffer t' = picture (lastn 25 (eager_layout s))
        \<and> cursor_position (te_cursor t') = (min (length (eager_layout s)) 25 - 1, length (last (eager_layout s))))"
proof -
  let ?t = "t\<lparr>te_cursor := cursor_pack 0 0, te_buffer := picture [[]]\<rparr>"
  have "picture [[]] = replicate 25 blank_row" by (simp add: picture_rows screen_row_Nil numeral_eq_Suc)
  with term_clear_eq [OF assms(1)] have reset: "term_reset t = Some ?t" by (simp add: term_reset_def)
  have "term_ok ?t" by (auto simp: term_ok_def intro!: exI [of _ 0])
  from term_write_str_ok [OF this assms(2)] obtain t' where t': "term_write_str s ?t = Some t'" "term_ok t'" by blast
  have "te_buffer t' = picture (lastn 25 (eager_layout s))
      \<and> cursor_position (te_cursor t') = (min (length (eager_layout s)) 25 - 1, length (last (eager_layout s)))"
    if "8 \<notin> set s"
  proof -
    have "shows_lines [[]] (te_buffer ?t)" by (simp add: shows_lines_def lastn_def)
    from term_write_str_shows [OF this _ _ assms(2) that] t'(1) have
      "shows_lines (eager_layout s) (te_buffer t')"
      "te_cursor t' = cursor_pack (cursor_row (eager_layout s)) (length (last (eager_layout s)))"
      "length (last (eager_layout s)) < 80"
      by (auto simp: cursor_row_def eager_layout_def)
    with cursor_row_less [of "eager_layout s"] show ?thesis
      by (simp add: shows_lines_def cursor_position_pack cursor_row_def)
  qed
  with reset t' show ?thesis by blast
qed

theorem terminal_shows_text_witness:
  "\<exists>t0 t'. term_reset \<lparr>te_cursor = 7, te_buffer = picture [[1]]\<rparr> = Some t0
    \<and> term_write_str [0x68, 0x69, 0x0a] t0 = Some t' \<and> te_buffer t' = picture [[0x68, 0x69], []]
    \<and> cursor_position (te_cursor t') = (1, 0)"
  using terminal_shows_text [of "\<lparr>te_cursor = 7, te_buffer = picture [[1]]\<rparr>" "[0x68, 0x69, 0x0a]"]
  by (auto simp: eager_layout_def eager_byte_def lastn_def)

end
