(* ===== verification/Pci.thy ===== *)
theory Pci
  imports PortIO
begin

text \<open>
  PCI configuration space (\<open>libs/d7pci/src\<close>: \<open>util.rs\<close>, \<open>device.rs\<close>, \<open>scan.rs\<close>) and the driver that
  looks up devices and starts their drivers (\<open>driver_pci/src/lib.rs\<close>). The bus is a parameter. The
  recursion over bridges has fuel, one unit for each level of buses; a call that panics or uses
  up its fuel is \<open>None\<close>.
\<close>

unbundle bit_operations_syntax

subsection \<open>Configuration space access (util.rs)\<close>

type_synonym DeviceLocation = "u8 \<times> u8 \<times> u8"
type_synonym DeviceClass = "u8 \<times> u8 \<times> u8"

definition CONFIG_ADDR :: u16 where "CONFIG_ADDR = 0xCF8"
definition CONFIG_DATA :: u16 where "CONFIG_DATA = 0xCFC"

definition pci_address :: "u8 \<Rightarrow> u8 \<Rightarrow> u8 \<Rightarrow> u8 \<Rightarrow> u32" where
  "pci_address bus slot func offset = push_bit 16 (ucast bus) OR push_bit 11 (ucast slot)
     OR push_bit 8 (ucast func) OR ucast offset OR 0x80000000"

definition pci_read_u32 :: "Dev \<Rightarrow> u8 \<Rightarrow> u8 \<Rightarrow> u8 \<Rightarrow> u8 \<Rightarrow> io_log \<Rightarrow> (u32 \<times> io_log) option" where
  "pci_read_u32 dv bus slot func offset l = do {
     rassert (offset mod 4 = 0);
     Some (in32 dv CONFIG_DATA (out32 CONFIG_ADDR (pci_address bus slot func offset) l))
   }"

definition pci_write_u32 :: "u8 \<Rightarrow> u8 \<Rightarrow> u8 \<Rightarrow> u8 \<Rightarrow> u32 \<Rightarrow> io_log \<Rightarrow> io_log option" where
  "pci_write_u32 bus slot func offset value l = do {
     rassert (offset mod 4 = 0);
     Some (out32 CONFIG_DATA value (out32 CONFIG_ADDR (pci_address bus slot func offset) l))
   }"

definition pci_read_device :: "Dev \<Rightarrow> DeviceLocation \<Rightarrow> u8 \<Rightarrow> io_log \<Rightarrow> (u32 \<times> io_log) option" where
  "pci_read_device dv loc offset l = (case loc of (bus, slot, func) \<Rightarrow> pci_read_u32 dv bus slot func offset l)"

definition pci_write_device :: "DeviceLocation \<Rightarrow> u8 \<Rightarrow> u32 \<Rightarrow> io_log \<Rightarrow> io_log option" where
  "pci_write_device loc offset value l = (case loc of (bus, slot, func) \<Rightarrow> pci_write_u32 bus slot func offset value l)"

subsection \<open>Devices (device.rs)\<close>

record PciDevice =
  pd_id :: u16
  pd_vendor :: u16
  pd_location :: DeviceLocation
  pd_class :: DeviceClass

definition pd_read :: "Dev \<Rightarrow> PciDevice \<Rightarrow> u8 \<Rightarrow> io_log \<Rightarrow> (u32 \<times> io_log) option" where
  "pd_read dv d offset l = pci_read_device dv (pd_location d) offset l"

definition pd_write :: "PciDevice \<Rightarrow> u8 \<Rightarrow> u32 \<Rightarrow> io_log \<Rightarrow> io_log option" where
  "pd_write d offset value l = pci_write_device (pd_location d) offset value l"

definition pd_read_u16 :: "Dev \<Rightarrow> PciDevice \<Rightarrow> u8 \<Rightarrow> io_log \<Rightarrow> (u16 \<times> io_log) option" where
  "pd_read_u16 dv d offset l = do {
     rassert (offset AND 1 = 0);
     (dat, l) \<leftarrow> pci_read_device dv (pd_location d) (offset AND NOT 3) l;
     Some (ucast (drop_bit (unat (offset AND 1)) dat AND 0xffff), l)
   }"

definition pd_read_u8 :: "Dev \<Rightarrow> PciDevice \<Rightarrow> u8 \<Rightarrow> io_log \<Rightarrow> (u8 \<times> io_log) option" where
  "pd_read_u8 dv d offset l = do {
     (dat, l) \<leftarrow> pci_read_device dv (pd_location d) (offset AND NOT 3) l;
     Some (ucast (drop_bit (8 * unat (offset AND 3)) dat AND 0xff), l)
   }"

definition pd_status :: "Dev \<Rightarrow> PciDevice \<Rightarrow> io_log \<Rightarrow> (u16 \<times> io_log) option" where
  "pd_status dv d l = do {
     (v, l) \<leftarrow> pd_read dv d 0x04 l;
     Some (ucast (drop_bit 16 v), l)
   }"

text \<open>The function that is applied to each capability may itself access the device.\<close>

fun capability_loop :: "Dev \<Rightarrow> PciDevice \<Rightarrow> u8 \<Rightarrow> (u8 \<Rightarrow> io_log \<Rightarrow> ('t \<times> io_log) option) \<Rightarrow> nat
    \<Rightarrow> u8 \<Rightarrow> 't list \<Rightarrow> io_log \<Rightarrow> ('t list \<times> io_log) option" where
  "capability_loop dv d cap_type f 0 cap_addr result l = None"
| "capability_loop dv d cap_type f (Suc fuel) cap_addr result l =
     (if cap_addr = 0 then Some (result, l)
      else do {
        (item_type, l) \<leftarrow> pd_read_u8 dv d cap_addr l;
        (item_size, l) \<leftarrow> pd_read_u8 dv d (cap_addr + 2) l;
        (result, l) \<leftarrow> (if item_type = cap_type
          then do {
            (t, l) \<leftarrow> f cap_addr l;
            Some (result @ [t], l)
          } else Some (result, l));
        (cap_addr, l) \<leftarrow> pd_read_u8 dv d (cap_addr + 1) l;
        capability_loop dv d cap_type f fuel cap_addr result l
      })"

definition read_capabilities :: "Dev \<Rightarrow> PciDevice \<Rightarrow> u8 \<Rightarrow> (u8 \<Rightarrow> io_log \<Rightarrow> ('t \<times> io_log) option) \<Rightarrow> nat
    \<Rightarrow> io_log \<Rightarrow> ('t list \<times> io_log) option" where
  "read_capabilities dv d cap_type f fuel l = do {
     (status, l) \<leftarrow> pd_status dv d l;
     rassert (status AND push_bit 4 1 \<noteq> 0);
     (v, l) \<leftarrow> pd_read dv d 0x34 l;
     capability_loop dv d cap_type f fuel (ucast (v AND 0xfc)) [] l
   }"

definition subsystem_id :: "Dev \<Rightarrow> PciDevice \<Rightarrow> io_log \<Rightarrow> (u16 \<times> io_log) option" where
  "subsystem_id dv d l = do {
     (v, l) \<leftarrow> pd_read dv d 0x2c l;
     Some (ucast (drop_bit 16 v), l)
   }"

definition get_bar :: "Dev \<Rightarrow> PciDevice \<Rightarrow> u8 \<Rightarrow> io_log \<Rightarrow> (u32 \<times> io_log) option" where
  "get_bar dv d i l = do {
     rassert (i < 6);
     pd_read dv d (0x10 + 4 * i) l
   }"

definition get_interrupt_line :: "Dev \<Rightarrow> PciDevice \<Rightarrow> io_log \<Rightarrow> (u8 option \<times> io_log) option" where
  "get_interrupt_line dv d l = do {
     (line, l) \<leftarrow> pd_read_u8 dv d 0x3c l;
     Some (if line = 0xff then None else Some line, l)
   }"

definition get_interrupt_pin :: "Dev \<Rightarrow> PciDevice \<Rightarrow> io_log \<Rightarrow> (u8 option \<times> io_log) option" where
  "get_interrupt_pin dv d l = do {
     (pin, l) \<leftarrow> pd_read_u8 dv d 0x3d l;
     (if pin = 0 then Some (None, l)
      else if pin > 4 then None
      else Some (Some pin, l))
   }"

definition enable_bus_mastering :: "Dev \<Rightarrow> PciDevice \<Rightarrow> io_log \<Rightarrow> io_log option" where
  "enable_bus_mastering dv d l = do {
     (v, l) \<leftarrow> pd_read dv d 0x04 l;
     pd_write d 0x04 (v OR push_bit 2 1) l
   }"

subsection \<open>Scanning (scan.rs)\<close>

definition get_vendor_id :: "Dev \<Rightarrow> DeviceLocation \<Rightarrow> io_log \<Rightarrow> (u16 \<times> io_log) option" where
  "get_vendor_id dv loc l = do {
     (v, l) \<leftarrow> pci_read_device dv loc 0 l;
     Some (ucast (v AND 0x0000FFFF), l)
   }"

definition get_device_id :: "Dev \<Rightarrow> DeviceLocation \<Rightarrow> io_log \<Rightarrow> (u16 \<times> io_log) option" where
  "get_device_id dv loc l = do {
     (v, l) \<leftarrow> pci_read_device dv loc 0 l;
     Some (ucast (drop_bit 16 (v AND 0xFFFF0000)), l)
   }"

definition get_devclass :: "Dev \<Rightarrow> DeviceLocation \<Rightarrow> io_log \<Rightarrow> (DeviceClass \<times> io_log) option" where
  "get_devclass dv loc l = do {
     (v, l) \<leftarrow> pci_read_device dv loc 8 l;
     Some ((ucast (drop_bit 24 (v AND 0xFF000000)), ucast (drop_bit 16 (v AND 0x00FF0000)),
       ucast (drop_bit 8 (v AND 0x0000FF00))), l)
   }"

definition get_header_type :: "Dev \<Rightarrow> DeviceLocation \<Rightarrow> io_log \<Rightarrow> (u8 \<times> io_log) option" where
  "get_header_type dv loc l = do {
     (v, l) \<leftarrow> pci_read_device dv loc 0xC l;
     Some (ucast (drop_bit 16 (v AND 0x00FF0000)), l)
   }"

definition get_secondary_bus :: "Dev \<Rightarrow> DeviceLocation \<Rightarrow> io_log \<Rightarrow> (u8 \<times> io_log) option" where
  "get_secondary_bus dv loc l = do {
     (v, l) \<leftarrow> pci_read_device dv loc 0x18 l;
     Some (ucast (drop_bit 8 (v AND 0x0000FF00)), l)
   }"

text \<open>The three functions are mutually recursive through bridges: \<open>scan\<close> is \<open>check_bus\<close> for the buses behind.\<close>

definition check_function ::
  "(u8 \<Rightarrow> io_log \<Rightarrow> (PciDevice list \<times> io_log) option) \<Rightarrow> Dev \<Rightarrow> DeviceLocation \<Rightarrow> io_log
    \<Rightarrow> (PciDevice list \<times> io_log) option" where
  "check_function scan dv loc l = do {
     (dc, l) \<leftarrow> get_devclass dv loc l;
     (dev_id, l) \<leftarrow> get_device_id dv loc l;
     (vendor, l) \<leftarrow> get_vendor_id dv loc l;
     let result = [\<lparr>pd_id = dev_id, pd_vendor = vendor, pd_location = loc, pd_class = dc\<rparr>];
     (if fst dc = 0x06 \<and> fst (snd dc) = 0x04
      then do {
        (secondary_bus, l) \<leftarrow> get_secondary_bus dv loc l;
        (ds, l) \<leftarrow> scan secondary_bus l;
        Some (result @ ds, l)
      }
      else Some (result, l))
   }"

text \<open>Extending a list by what each of several checks finds.\<close>

fun collectM :: "('a \<Rightarrow> io_log \<Rightarrow> ('b list \<times> io_log) option) \<Rightarrow> 'a list \<Rightarrow> 'b list \<Rightarrow> io_log
    \<Rightarrow> ('b list \<times> io_log) option" where
  "collectM f [] result l = Some (result, l)"
| "collectM f (x # xs) result l = do {
     (ds, l) \<leftarrow> f x l;
     collectM f xs (result @ ds) l
   }"

definition check_further ::
  "(u8 \<Rightarrow> io_log \<Rightarrow> (PciDevice list \<times> io_log) option) \<Rightarrow> Dev \<Rightarrow> u8 \<Rightarrow> u8 \<Rightarrow> u8 \<Rightarrow> io_log
    \<Rightarrow> (PciDevice list \<times> io_log) option" where
  "check_further scan dv bus dev f l = do {
     (vendor_id, l) \<leftarrow> get_vendor_id dv (bus, dev, f) l;
     (if vendor_id \<noteq> 0xFFFF then check_function scan dv (bus, dev, f) l else Some ([], l))
   }"

definition check_device ::
  "(u8 \<Rightarrow> io_log \<Rightarrow> (PciDevice list \<times> io_log) option) \<Rightarrow> Dev \<Rightarrow> u8 \<Rightarrow> u8 \<Rightarrow> io_log
    \<Rightarrow> (PciDevice list \<times> io_log) option" where
  "check_device scan dv bus dev l = do {
     (vendor_id, l) \<leftarrow> get_vendor_id dv (bus, dev, 0) l;
     (if vendor_id \<noteq> 0xFFFF
      then do {
        (result, l) \<leftarrow> check_function scan dv (bus, dev, 0) l;
        (header_type, l) \<leftarrow> get_header_type dv (bus, dev, 0) l;
        (if header_type AND 0x80 \<noteq> 0
         then collectM (check_further scan dv bus dev) (map of_nat [1..<9]) result l
         else Some (result, l))
      }
      else Some ([], l))
   }"

fun check_bus :: "Dev \<Rightarrow> nat \<Rightarrow> u8 \<Rightarrow> io_log \<Rightarrow> (PciDevice list \<times> io_log) option" where
  "check_bus dv 0 bus l = None"
| "check_bus dv (Suc fuel) bus l =
     collectM (\<lambda>dev. check_device (check_bus dv fuel) dv bus dev) (map of_nat [0..<33]) [] l"

text \<open>The loop over several host controllers ends at the first function that exists.\<close>

fun list_hosts :: "Dev \<Rightarrow> nat \<Rightarrow> u8 list \<Rightarrow> PciDevice list \<Rightarrow> io_log \<Rightarrow> (PciDevice list \<times> io_log) option" where
  "list_hosts dv fuel [] result l = Some (result, l)"
| "list_hosts dv fuel (func # funcs) result l = do {
     (vendor_id, l) \<leftarrow> get_vendor_id dv (0, 0, func) l;
     (if vendor_id \<noteq> 0xFFFF then Some (result, l)
      else do {
        (ds, l) \<leftarrow> check_bus dv fuel func l;
        list_hosts dv fuel funcs (result @ ds) l
      })
   }"

definition list_devices :: "Dev \<Rightarrow> nat \<Rightarrow> io_log \<Rightarrow> (PciDevice list \<times> io_log) option" where
  "list_devices dv fuel l = do {
     (header_type, l) \<leftarrow> get_header_type dv (0, 0, 0) l;
     (if header_type AND 0x80 = 0 then check_bus dv fuel 0 l
      else list_hosts dv fuel (map of_nat [0..<9]) [] l)
   }"

subsection \<open>Looking up devices and starting drivers (driver_pci/src/lib.rs)\<close>

record ConfigDevice =
  cd_shortname :: "string option"
  cd_name :: string
  cd_driver :: "(bool \<times> string) option"

definition hex_digit :: "nat \<Rightarrow> char" where
  "hex_digit n = (if n < 10 then char_of (48 + n) else char_of (87 + n))"

fun hex_digits :: "nat \<Rightarrow> string" where
  "hex_digits n = (if n < 16 then [hex_digit n] else hex_digits (n div 16) @ [hex_digit (n mod 16)])"

declare hex_digits.simps [simp del]

definition vendor_and_id :: "PciDevice \<Rightarrow> string" where
  "vendor_and_id d = hex_digits (unat (pd_vendor d)) @ '':'' @ hex_digits (unat (pd_id d))"

text \<open>The executables that are started, in order.\<close>

fun start_drivers :: "(string \<rightharpoonup> ConfigDevice) \<Rightarrow> PciDevice list \<Rightarrow> string list option" where
  "start_drivers config [] = Some []"
| "start_drivers config (d # ds) =
     (case config (vendor_and_id d) of
        Some c \<Rightarrow> (case cd_driver c of
            Some (from_initrd, executable) \<Rightarrow> do {
              rassert from_initrd;
              rest \<leftarrow> start_drivers config ds;
              Some (executable # rest)
            }
          | None \<Rightarrow> start_drivers config ds)
      | None \<Rightarrow> start_drivers config ds)"

fun answer_query :: "(string \<rightharpoonup> ConfigDevice) \<Rightarrow> PciDevice list \<Rightarrow> string \<Rightarrow> PciDevice option" where
  "answer_query config [] name = None"
| "answer_query config (d # ds) name =
     (if name = vendor_and_id d then Some d
      else case config (vendor_and_id d) of
          Some c \<Rightarrow> if name = cd_name c \<or> Some name = cd_shortname c then Some d
            else answer_query config ds name
        | None \<Rightarrow> answer_query config ds name)"

subsection \<open>The bus\<close>

text \<open>
  The contract of the host bridge for a conversation that only reads: the data port gives the
  configuration space \<open>cfg\<close> at the address written last.
\<close>

fun pci_selected :: "io_log \<Rightarrow> u32 \<Rightarrow> u32" where
  "pci_selected [] a = a"
| "pci_selected (Out32 p v # l) a = pci_selected l (if p = CONFIG_ADDR then v else a)"
| "pci_selected (_ # l) a = pci_selected l a"

fun no_config_write :: "io_log \<Rightarrow> bool" where
  "no_config_write [] \<longleftrightarrow> True"
| "no_config_write (Out32 p v # l) \<longleftrightarrow> p \<noteq> CONFIG_DATA \<and> no_config_write l"
| "no_config_write (_ # l) \<longleftrightarrow> no_config_write l"

definition is_pci :: "(u32 \<Rightarrow> u32) \<Rightarrow> Dev \<Rightarrow> bool" where
  "is_pci cfg dv \<longleftrightarrow> (\<forall>l. no_config_write l \<longrightarrow> dv32 dv l CONFIG_DATA = cfg (pci_selected l 0))"

lemma pci_selected_snoc [simp]:
  "pci_selected (l @ [Out32 p v]) a = (if p = CONFIG_ADDR then v else pci_selected l a)"
proof (induction l arbitrary: a)
  case (Cons x l)
  then show ?case by (cases x) auto
qed simp

lemma no_config_write_append [simp]: "no_config_write (l @ l') \<longleftrightarrow> no_config_write l \<and> no_config_write l'"
proof (induction l)
  case (Cons x l)
  then show ?case by (cases x) auto
qed simp

lemma config_ports [simp]: "CONFIG_ADDR \<noteq> CONFIG_DATA" by (simp add: CONFIG_ADDR_def CONFIG_DATA_def)

lemma pci_read_device_eq:
  assumes "is_pci cfg dv" "no_config_write l" "offset mod 4 = 0"
  shows "\<exists>l'. pci_read_device dv (b, s, f) offset l = Some (cfg (pci_address b s f offset), l') \<and> no_config_write l'"
proof -
  have "no_config_write (l @ [Out32 CONFIG_ADDR (pci_address b s f offset)])" using assms(2) by simp
  with assms(1) have "dv32 dv (l @ [Out32 CONFIG_ADDR (pci_address b s f offset)]) CONFIG_DATA
      = cfg (pci_address b s f offset)" by (simp add: is_pci_def del: no_config_write_append)
  with assms(2,3) show ?thesis
    by (simp add: pci_read_device_def pci_read_u32_def in32_def out32_def Let_def)
qed

text \<open>What the registers of the function at a location say.\<close>

definition cfg_at :: "(u32 \<Rightarrow> u32) \<Rightarrow> DeviceLocation \<Rightarrow> u8 \<Rightarrow> u32" where
  "cfg_at cfg loc offset = (case loc of (b, s, f) \<Rightarrow> cfg (pci_address b s f offset))"

definition vendor_of :: "(u32 \<Rightarrow> u32) \<Rightarrow> DeviceLocation \<Rightarrow> u16" where
  "vendor_of cfg loc = ucast (cfg_at cfg loc 0 AND 0x0000FFFF)"

definition class_of :: "(u32 \<Rightarrow> u32) \<Rightarrow> DeviceLocation \<Rightarrow> DeviceClass" where
  "class_of cfg loc = (let v = cfg_at cfg loc 8 in
     (ucast (drop_bit 24 (v AND 0xFF000000)), ucast (drop_bit 16 (v AND 0x00FF0000)),
      ucast (drop_bit 8 (v AND 0x0000FF00))))"

definition header_of :: "(u32 \<Rightarrow> u32) \<Rightarrow> DeviceLocation \<Rightarrow> u8" where
  "header_of cfg loc = ucast (drop_bit 16 (cfg_at cfg loc 0xC AND 0x00FF0000))"

definition secondary_of :: "(u32 \<Rightarrow> u32) \<Rightarrow> DeviceLocation \<Rightarrow> u8" where
  "secondary_of cfg loc = ucast (drop_bit 8 (cfg_at cfg loc 0x18 AND 0x0000FF00))"

definition device_at :: "(u32 \<Rightarrow> u32) \<Rightarrow> DeviceLocation \<Rightarrow> PciDevice" where
  "device_at cfg loc = \<lparr>pd_id = ucast (drop_bit 16 (cfg_at cfg loc 0 AND 0xFFFF0000)), pd_vendor = vendor_of cfg loc,
     pd_location = loc, pd_class = class_of cfg loc\<rparr>"

definition is_bridge :: "(u32 \<Rightarrow> u32) \<Rightarrow> DeviceLocation \<Rightarrow> bool" where
  "is_bridge cfg loc \<longleftrightarrow> fst (class_of cfg loc) = 6 \<and> fst (snd (class_of cfg loc)) = 4"

text \<open>
  The functions of the devices of a bus, the buses behind its bridges, and all functions behind
  a bus.
\<close>

definition pci_function :: "(u32 \<Rightarrow> u32) \<Rightarrow> DeviceLocation \<Rightarrow> bool" where
  "pci_function cfg loc \<longleftrightarrow> (case loc of (b, s, f) \<Rightarrow> s < 32 \<and> f < 8 \<and> vendor_of cfg (b, s, 0) \<noteq> 0xFFFF
     \<and> (f = 0 \<or> header_of cfg (b, s, 0) AND 0x80 \<noteq> 0 \<and> vendor_of cfg (b, s, f) \<noteq> 0xFFFF))"

definition bridged :: "(u32 \<Rightarrow> u32) \<Rightarrow> u8 \<Rightarrow> u8 \<Rightarrow> bool" where
  "bridged cfg b b' \<longleftrightarrow> (\<exists>s f. pci_function cfg (b, s, f) \<and> is_bridge cfg (b, s, f) \<and> secondary_of cfg (b, s, f) = b')"

definition bus_below :: "(u32 \<Rightarrow> u32) \<Rightarrow> u8 \<Rightarrow> u8 \<Rightarrow> bool" where
  "bus_below cfg = (bridged cfg)\<^sup>*\<^sup>*"

definition devices_below :: "(u32 \<Rightarrow> u32) \<Rightarrow> u8 \<Rightarrow> PciDevice set" where
  "devices_below cfg b = {device_at cfg (b', s, f) | b' s f. bus_below cfg b b' \<and> pci_function cfg (b', s, f)}"

subsection \<open>Locations out of range\<close>

text \<open>
  The scan also asks for slot 32 and function 8, which do not exist: in the address they overlap with the
  next field. The function that answers is the one at the location \<open>real_loc\<close>.
\<close>

definition real_loc :: "DeviceLocation \<Rightarrow> DeviceLocation" where
  "real_loc loc = (case loc of (b, s, f) \<Rightarrow> (if s = 32 then b OR 1 else b,
     (if s = 32 then 0 else s) OR (if f = 8 then 1 else 0), if f = 8 then 0 else f))"

lemma pci_address_overlap:
  "pci_address b 32 f offset = pci_address (b OR 1) 0 f offset"
  "pci_address b s 8 offset = pci_address b (s OR 1) 0 offset"
proof -
  have "push_bit 16 (ucast (b OR 1)) = (push_bit 16 (ucast b) OR 0x10000 :: u32)"
    "push_bit 11 (ucast (s OR 1)) = (push_bit 11 (ucast s) OR 0x800 :: u32)"
    by (simp_all add: unsigned_or_eq push_bit_or)
  then show "pci_address b 32 f offset = pci_address (b OR 1) 0 f offset"
    "pci_address b s 8 offset = pci_address b (s OR 1) 0 offset"
    by (simp_all add: pci_address_def or.assoc or.left_commute)
qed

lemma cfg_at_real_loc: "cfg_at cfg (real_loc loc) offset = cfg_at cfg loc offset"
proof -
  obtain b s f where "loc = (b, s, f)" by (cases loc)
  then show ?thesis
  proof (cases "s = 32")
    case True
    with \<open>loc = _\<close> show ?thesis
      using pci_address_overlap(1) [of b f offset] pci_address_overlap(2) [of "b OR 1" 0 offset]
      by (simp add: real_loc_def cfg_at_def)
  next
    case False
    with \<open>loc = _\<close> show ?thesis
      using pci_address_overlap(2) [of b s offset] by (simp add: real_loc_def cfg_at_def)
  qed
qed

lemma of_real_loc [simp]:
  "vendor_of cfg (real_loc loc) = vendor_of cfg loc" "class_of cfg (real_loc loc) = class_of cfg loc"
  "header_of cfg (real_loc loc) = header_of cfg loc" "secondary_of cfg (real_loc loc) = secondary_of cfg loc"
  "is_bridge cfg (real_loc loc) = is_bridge cfg loc"
  by (simp_all add: vendor_of_def class_of_def header_of_def secondary_of_def is_bridge_def cfg_at_real_loc)

definition real_device :: "PciDevice \<Rightarrow> PciDevice" where
  "real_device d = d\<lparr>pd_location := real_loc (pd_location d)\<rparr>"

lemma real_device_at: "real_device (device_at cfg loc) = device_at cfg (real_loc loc)"
  by (simp add: real_device_def device_at_def cfg_at_real_loc)

subsection \<open>What the scan finds\<close>

text \<open>A scan ends, finds the devices of \<open>lo\<close> at least and those of \<open>hi\<close> at most.\<close>

definition scan_between ::
  "(PciDevice list \<times> io_log) option \<Rightarrow> PciDevice set \<Rightarrow> PciDevice set \<Rightarrow> bool" where
  "scan_between r lo hi \<longleftrightarrow> (\<exists>ds l. r = Some (ds, l) \<and> no_config_write l
     \<and> lo \<subseteq> real_device ` set ds \<and> real_device ` set ds \<subseteq> hi)"

lemma collectM_between:
  assumes "no_config_write l" "real_device ` set result \<subseteq> hi"
    and "\<And>x l. x \<in> set xs \<Longrightarrow> no_config_write l \<Longrightarrow> scan_between (f x l) (lo x) hi"
  shows "scan_between (collectM f xs result l) (real_device ` set result \<union> (\<Union>x\<in>set xs. lo x)) hi"
  using assms
proof (induction xs arbitrary: result l)
  case Nil
  then show ?case by (simp add: scan_between_def)
next
  case (Cons x xs)
  from Cons.prems(1) Cons.prems(3) [of x l] obtain ds l1 where f: "f x l = Some (ds, l1)" "no_config_write l1"
    "lo x \<subseteq> real_device ` set ds" "real_device ` set ds \<subseteq> hi" by (auto simp: scan_between_def)
  with Cons.prems have "scan_between (collectM f xs (result @ ds) l1)
      (real_device ` set (result @ ds) \<union> (\<Union>x\<in>set xs. lo x)) hi"
    by (intro Cons.IH) auto
  with f show ?case by (fastforce simp: scan_between_def image_Un)
qed

lemma getters_eq:
  assumes "is_pci cfg dv" "no_config_write l"
  shows "\<exists>l'. get_vendor_id dv loc l = Some (vendor_of cfg loc, l') \<and> no_config_write l'"
    "\<exists>l'. get_device_id dv loc l = Some (pd_id (device_at cfg loc), l') \<and> no_config_write l'"
    "\<exists>l'. get_devclass dv loc l = Some (class_of cfg loc, l') \<and> no_config_write l'"
    "\<exists>l'. get_header_type dv loc l = Some (header_of cfg loc, l') \<and> no_config_write l'"
    "\<exists>l'. get_secondary_bus dv loc l = Some (secondary_of cfg loc, l') \<and> no_config_write l'"
proof -
  obtain b s f where loc: "loc = (b, s, f)" by (cases loc)
  have read: "\<exists>l'. pci_read_device dv loc o' l = Some (cfg_at cfg loc o', l') \<and> no_config_write l'"
    if "o' mod 4 = 0" for o'
    using pci_read_device_eq [OF assms that] by (simp add: loc cfg_at_def)
  from read [of 0] show "\<exists>l'. get_vendor_id dv loc l = Some (vendor_of cfg loc, l') \<and> no_config_write l'"
    by (auto simp: get_vendor_id_def vendor_of_def)
  from read [of 0] show "\<exists>l'. get_device_id dv loc l = Some (pd_id (device_at cfg loc), l') \<and> no_config_write l'"
    by (auto simp: get_device_id_def device_at_def)
  from read [of 8] show "\<exists>l'. get_devclass dv loc l = Some (class_of cfg loc, l') \<and> no_config_write l'"
    by (auto simp: get_devclass_def class_of_def Let_def)
  from read [of 12] show "\<exists>l'. get_header_type dv loc l = Some (header_of cfg loc, l') \<and> no_config_write l'"
    by (auto simp: get_header_type_def header_of_def)
  from read [of 24] show "\<exists>l'. get_secondary_bus dv loc l = Some (secondary_of cfg loc, l') \<and> no_config_write l'"
    by (auto simp: get_secondary_bus_def secondary_of_def)
qed

lemma devices_below_bridge:
  assumes "bus_below cfg 0 b" "pci_function cfg (b, s, f)"
  shows "device_at cfg (b, s, f) \<in> devices_below cfg 0"
    and "is_bridge cfg (b, s, f) \<Longrightarrow> bus_below cfg 0 (secondary_of cfg (b, s, f))"
proof -
  show "device_at cfg (b, s, f) \<in> devices_below cfg 0" using assms by (auto simp: devices_below_def)
  assume "is_bridge cfg (b, s, f)"
  with assms(2) have "bridged cfg b (secondary_of cfg (b, s, f))" by (auto simp: bridged_def)
  with assms(1) show "bus_below cfg 0 (secondary_of cfg (b, s, f))"
    unfolding bus_below_def by (rule rtranclp.rtrancl_into_rtrancl)
qed

lemma devices_below_unfold:
  "devices_below cfg b = (\<Union>(s, f)\<in>{(s, f). pci_function cfg (b, s, f)}. insert (device_at cfg (b, s, f))
     (if is_bridge cfg (b, s, f) then devices_below cfg (secondary_of cfg (b, s, f)) else {}))"
proof -
  have "bus_below cfg b b' \<longleftrightarrow> b' = b \<or> (\<exists>c. bridged cfg b c \<and> bus_below cfg c b')" for b'
    unfolding bus_below_def by (metis converse_rtranclp_into_rtranclp converse_rtranclpE rtranclp.rtrancl_refl)
  then show ?thesis
    unfolding devices_below_def bridged_def by (auto split: if_splits) blast+
qed

lemma check_function_between:
  assumes "is_pci cfg dv" "no_config_write l" "bus_below cfg 0 b" "pci_function cfg (b, s, f)"
    and "real_loc loc = (b, s, f)"
    and scan: "\<And>l. no_config_write l \<Longrightarrow> is_bridge cfg loc \<Longrightarrow>
      scan_between (scan (secondary_of cfg loc) l) (devices_below cfg (secondary_of cfg loc)) (devices_below cfg 0)"
  shows "scan_between (check_function scan dv loc l) (insert (device_at cfg (b, s, f))
    (if is_bridge cfg loc then devices_below cfg (secondary_of cfg loc) else {})) (devices_below cfg 0)"
proof -
  note get = getters_eq [OF assms(1)]
  from get(3) [OF assms(2)] obtain l1 where 1: "get_devclass dv loc l = Some (class_of cfg loc, l1)" "no_config_write l1" by blast
  from get(2) [OF 1(2)] obtain l2 where 2: "get_device_id dv loc l1 = Some (pd_id (device_at cfg loc), l2)" "no_config_write l2" by blast
  from get(1) [OF 2(2)] obtain l3 where 3: "get_vendor_id dv loc l2 = Some (vendor_of cfg loc, l3)" "no_config_write l3" by blast
  let ?d = "\<lparr>pd_id = pd_id (device_at cfg loc), pd_vendor = vendor_of cfg loc, pd_location = loc, pd_class = class_of cfg loc\<rparr>"
  have d: "?d = device_at cfg loc" by (simp add: device_at_def)
  have real: "real_device (device_at cfg loc) = device_at cfg (b, s, f)" using assms(5) by (simp add: real_device_at)
  have hi: "device_at cfg (b, s, f) \<in> devices_below cfg 0" using assms(3,4) by (rule devices_below_bridge)
  show ?thesis
  proof (cases "is_bridge cfg loc")
    case True
    from get(5) [OF 3(2)] obtain l4 where 4: "get_secondary_bus dv loc l3 = Some (secondary_of cfg loc, l4)" "no_config_write l4" by blast
    from scan [OF 4(2) True] obtain ds l5 where "scan (secondary_of cfg loc) l4 = Some (ds, l5)" "no_config_write l5"
      "devices_below cfg (secondary_of cfg loc) \<subseteq> real_device ` set ds" "real_device ` set ds \<subseteq> devices_below cfg 0"
      by (auto simp: scan_between_def)
    with 1 2 3 4 True hi show ?thesis
      by (auto simp: check_function_def is_bridge_def scan_between_def d real)
  next
    case False
    with 1 2 3 hi show ?thesis
      by (auto simp: check_function_def is_bridge_def scan_between_def d real)
  qed
qed

text \<open>
  What the bus numbers must satisfy: a bridge leads to a higher bus number, and devices answer
  only on buses behind bridges.
\<close>

definition pci_hierarchy :: "(u32 \<Rightarrow> u32) \<Rightarrow> bool" where
  "pci_hierarchy cfg \<longleftrightarrow> (\<forall>b b'. bridged cfg b b' \<longrightarrow> b < b')
     \<and> (\<forall>b s. s < 32 \<longrightarrow> vendor_of cfg (b, s, 0) \<noteq> 0xFFFF \<longrightarrow> bus_below cfg 0 b)"

lemma unat_or_1: "unat (x OR 1 :: u8) = unat x + of_bool (even (unat x))"
proof -
  have "unat (x OR 1) = unat x OR 1" by (simp only: unsigned_or_eq unsigned_1)
  then show ?thesis by (simp only: or_one_eq)
qed

lemma real_loc_function:
  assumes "pci_hierarchy cfg" "s \<le> 32" "f \<le> 8" "vendor_of cfg (b, s, 0) \<noteq> 0xFFFF"
    and "f = 0 \<or> header_of cfg (b, s, 0) AND 0x80 \<noteq> 0 \<and> vendor_of cfg (b, s, f) \<noteq> 0xFFFF"
    and "real_loc (b, s, f) = (b', s', f')"
  shows "pci_function cfg (b', s', f')" "bus_below cfg 0 b'" "b \<le> b'"
proof -
  obtain rb rs where base: "real_loc (b, s, 0) = (rb, rs, 0)" by (auto simp: real_loc_def)
  then have rs: "rs < 32" and rb: "b \<le> rb"
    using assms(2) by (auto simp: real_loc_def word_le_nat_alt [of b] unat_or_1 split: if_splits)
  have v: "vendor_of cfg (rb, rs, 0) \<noteq> 0xFFFF" and h: "header_of cfg (rb, rs, 0) = header_of cfg (b, s, 0)"
    using of_real_loc(1,3) [of cfg "(b, s, 0)"] assms(4) by (simp_all add: base)
  have real: "(b', s', f') = (if f = 8 then (rb, rs OR 1, 0) else (rb, rs, f))"
    using base assms(6) by (auto simp: real_loc_def split: if_splits)
  have v': "vendor_of cfg (b', s', f') = vendor_of cfg (b, s, f)"
    using of_real_loc(1) [of cfg "(b, s, f)"] assms(6) by simp
  have or1: "rs OR 1 < 32" using rs by (cases "even (unat rs)") (auto simp: word_less_nat_alt unat_or_1 elim!: evenE oddE)
  show "b \<le> b'" using real rb by (auto split: if_splits)
  show "bus_below cfg 0 b'" using real v rs assms(1) by (auto simp: pci_hierarchy_def split: if_splits)
  show "pci_function cfg (b', s', f')"
  proof (cases "f = 8")
    case True
    with real v' assms(5) or1 show ?thesis by (auto simp: pci_function_def)
  next
    case False
    with assms(3) have "f < 8" by simp
    with False real v v' h assms(5) rs show ?thesis by (auto simp: pci_function_def)
  qed
qed

text \<open>What is found at one location, with the buses behind it; nothing is expected out of range.\<close>

definition found_at :: "(u32 \<Rightarrow> u32) \<Rightarrow> DeviceLocation \<Rightarrow> PciDevice set" where
  "found_at cfg loc = (if pci_function cfg loc then insert (device_at cfg loc)
     (if is_bridge cfg loc then devices_below cfg (secondary_of cfg loc) else {}) else {})"

lemma real_loc_in_range: "pci_function cfg loc \<Longrightarrow> real_loc loc = loc"
  by (cases loc) (auto simp: pci_function_def real_loc_def)

lemma scan_between_mono: "scan_between r lo hi \<Longrightarrow> lo' \<subseteq> lo \<Longrightarrow> scan_between r lo' hi"
  unfolding scan_between_def by blast

text \<open>A scan of the buses above \<open>b\<close> that finds all their devices.\<close>

definition scans_above ::
  "(u32 \<Rightarrow> u32) \<Rightarrow> u8 \<Rightarrow> (u8 \<Rightarrow> io_log \<Rightarrow> (PciDevice list \<times> io_log) option) \<Rightarrow> bool" where
  "scans_above cfg b scan \<longleftrightarrow> (\<forall>b' l. no_config_write l \<longrightarrow> bus_below cfg 0 b' \<longrightarrow> b < b' \<longrightarrow>
     scan_between (scan b' l) (devices_below cfg b') (devices_below cfg 0))"

lemma check_function_found:
  assumes "is_pci cfg dv" "pci_hierarchy cfg" "scans_above cfg b scan" "no_config_write l" "s \<le> 32" "f \<le> 8"
    and "vendor_of cfg (b, s, 0) \<noteq> 0xFFFF"
    and "f = 0 \<or> header_of cfg (b, s, 0) AND 0x80 \<noteq> 0 \<and> vendor_of cfg (b, s, f) \<noteq> 0xFFFF"
  shows "scan_between (check_function scan dv (b, s, f) l) (found_at cfg (b, s, f)) (devices_below cfg 0)"
proof -
  obtain b' s' f' where real: "real_loc (b, s, f) = (b', s', f')" by (cases "real_loc (b, s, f)")
  note fn = real_loc_function [OF assms(2,5-8) real]
  have "b < secondary_of cfg (b, s, f)" "bus_below cfg 0 (secondary_of cfg (b, s, f))" if "is_bridge cfg (b, s, f)"
  proof -
    have bridge: "is_bridge cfg (b', s', f')" "secondary_of cfg (b', s', f') = secondary_of cfg (b, s, f)"
      using that of_real_loc(4,5) [of cfg "(b, s, f)"] by (simp_all add: real)
    with fn(1) have "bridged cfg b' (secondary_of cfg (b, s, f))" by (auto simp: bridged_def)
    with assms(2) fn(3) show "b < secondary_of cfg (b, s, f)" by (auto simp: pci_hierarchy_def intro: le_less_trans)
    show "bus_below cfg 0 (secondary_of cfg (b, s, f))"
      using devices_below_bridge(2) [OF fn(2,1) bridge(1)] bridge(2) by simp
  qed
  then have "scan_between (check_function scan dv (b, s, f) l) (insert (device_at cfg (b', s', f'))
      (if is_bridge cfg (b, s, f) then devices_below cfg (secondary_of cfg (b, s, f)) else {})) (devices_below cfg 0)"
    using check_function_between [OF assms(1,4) fn(2,1) real] assms(3) by (simp add: scans_above_def)
  then show ?thesis
    by (rule scan_between_mono) (use real_loc_in_range [of cfg "(b, s, f)"] real in \<open>auto simp: found_at_def\<close>)
qed

lemma check_further_found:
  assumes "is_pci cfg dv" "pci_hierarchy cfg" "scans_above cfg b scan" "no_config_write l" "s \<le> 32"
    and "vendor_of cfg (b, s, 0) \<noteq> 0xFFFF" "header_of cfg (b, s, 0) AND 0x80 \<noteq> 0"
    and "f \<le> 8" "f \<noteq> 0"
  shows "scan_between (check_further scan dv b s f l) (found_at cfg (b, s, f)) (devices_below cfg 0)"
proof -
  from getters_eq(1) [OF assms(1,4), of "(b, s, f)"] obtain l1 where
    1: "get_vendor_id dv (b, s, f) l = Some (vendor_of cfg (b, s, f), l1)" "no_config_write l1" by blast
  show ?thesis
  proof (cases "vendor_of cfg (b, s, f) = 0xFFFF")
    case True
    with 1 assms(9) show ?thesis by (simp add: check_further_def scan_between_def found_at_def pci_function_def)
  next
    case False
    with assms(7) have "scan_between (check_function scan dv (b, s, f) l1) (found_at cfg (b, s, f)) (devices_below cfg 0)"
      by (intro check_function_found [OF assms(1-3) 1(2) assms(5,8,6)]) simp
    with 1 False show ?thesis by (simp add: check_further_def)
  qed
qed

lemma word_in_upt:
  assumes "i \<le> unat (x :: u8)" "unat x < j"
  shows "x \<in> set (map of_nat [i..<j])"
proof -
  have "x = of_nat (unat x)" by simp
  with assms show ?thesis by (metis atLeastLessThan_iff image_eqI set_map set_upt)
qed

lemma check_device_found:
  assumes "is_pci cfg dv" "pci_hierarchy cfg" "scans_above cfg b scan" "no_config_write l" "s \<le> 32"
  shows "scan_between (check_device scan dv b s l) (\<Union>f. found_at cfg (b, s, f)) (devices_below cfg 0)"
proof -
  note get = getters_eq [OF assms(1)]
  from get(1) [OF assms(4), of "(b, s, 0)"] obtain l1 where
    1: "get_vendor_id dv (b, s, 0) l = Some (vendor_of cfg (b, s, 0), l1)" "no_config_write l1" by blast
  show ?thesis
  proof (cases "vendor_of cfg (b, s, 0) = 0xFFFF")
    case True
    with 1 show ?thesis by (simp add: check_device_def scan_between_def found_at_def pci_function_def)
  next
    case v: False
    then have "scan_between (check_function scan dv (b, s, 0) l1) (found_at cfg (b, s, 0)) (devices_below cfg 0)"
      by (intro check_function_found [OF assms(1-3) 1(2) assms(5)]) simp_all
    then obtain ds l2 where 2: "check_function scan dv (b, s, 0) l1 = Some (ds, l2)" "no_config_write l2"
      "found_at cfg (b, s, 0) \<subseteq> real_device ` set ds" "real_device ` set ds \<subseteq> devices_below cfg 0"
      by (auto simp: scan_between_def)
    from get(4) [OF 2(2), of "(b, s, 0)"] obtain l3 where
      3: "get_header_type dv (b, s, 0) l2 = Some (header_of cfg (b, s, 0), l3)" "no_config_write l3" by blast
    show ?thesis
    proof (cases "header_of cfg (b, s, 0) AND 0x80 = 0")
      case True
      then have "found_at cfg (b, s, f) \<subseteq> real_device ` set ds" for f
        using 2(3) by (cases "f = 0") (auto simp: found_at_def pci_function_def)
      then have "(\<Union>f. found_at cfg (b, s, f)) \<subseteq> real_device ` set ds" by blast
      with 1 2 3 True v show ?thesis by (simp add: check_device_def scan_between_def)
    next
      case multi: False
      let ?fs = "map of_nat [1..<9] :: u8 list"
      have fs: "f \<le> 8 \<and> f \<noteq> 0" if "f \<in> set ?fs" for f using that by (auto simp: upt_rec)
      have "found_at cfg (b, s, f) \<subseteq> real_device ` set ds \<union> (\<Union>f\<in>set ?fs. found_at cfg (b, s, f))" for f
      proof (cases "f = 0 \<or> \<not> f < 8")
        case True
        with 2(3) show ?thesis by (auto simp: found_at_def pci_function_def)
      next
        case False
        then have "f \<in> set ?fs" by (intro word_in_upt) (auto simp: word_less_nat_alt unat_gt_0 Suc_le_eq)
        then show ?thesis by blast
      qed
      then have "(\<Union>f. found_at cfg (b, s, f)) \<subseteq> real_device ` set ds \<union> (\<Union>f\<in>set ?fs. found_at cfg (b, s, f))"
        by blast
      moreover have "scan_between (collectM (check_further scan dv b s) ?fs ds l3)
          (real_device ` set ds \<union> (\<Union>f\<in>set ?fs. found_at cfg (b, s, f))) (devices_below cfg 0)"
        using fs multi by (intro collectM_between [OF 3(2) 2(4)] check_further_found [OF assms(1-3) _ assms(5) v]) auto
      ultimately have "scan_between (collectM (check_further scan dv b s) ?fs ds l3)
          (\<Union>f. found_at cfg (b, s, f)) (devices_below cfg 0)" by (rule scan_between_mono [rotated])
      with 1 2 3 multi v show ?thesis by (simp add: check_device_def del: upt_rec_numeral)
    qed
  qed
qed

lemma check_bus_found:
  assumes "is_pci cfg dv" "pci_hierarchy cfg" "no_config_write l" "bus_below cfg 0 b" "256 - unat b \<le> fuel"
  shows "scan_between (check_bus dv fuel b l) (devices_below cfg b) (devices_below cfg 0)"
  using assms(3-5)
proof (induction fuel arbitrary: b l)
  case 0
  with unsigned_less [of b, where 'a = nat] show ?case by simp
next
  case (Suc fuel)
  let ?slots = "map of_nat [0..<33] :: u8 list"
  have "scans_above cfg b (check_bus dv fuel)"
    using Suc.IH Suc.prems(3) by (auto simp: scans_above_def word_less_nat_alt)
  moreover have "s \<le> 32" if "s \<in> set ?slots" for s using that by (auto simp: upt_rec)
  ultimately have "scan_between (collectM (\<lambda>s. check_device (check_bus dv fuel) dv b s) ?slots [] l)
      (real_device ` set [] \<union> (\<Union>s\<in>set ?slots. \<Union>f. found_at cfg (b, s, f))) (devices_below cfg 0)"
    by (intro collectM_between check_device_found [OF assms(1,2)] Suc.prems(1)) simp_all
  moreover have "devices_below cfg b \<subseteq> real_device ` set [] \<union> (\<Union>s\<in>set ?slots. \<Union>f. found_at cfg (b, s, f))"
  proof
    fix d assume "d \<in> devices_below cfg b"
    then obtain s f where sf: "pci_function cfg (b, s, f)" "d \<in> found_at cfg (b, s, f)"
      by (subst (asm) devices_below_unfold) (auto simp: found_at_def)
    then have "s \<in> set ?slots" by (intro word_in_upt) (auto simp: pci_function_def word_less_nat_alt)
    with sf(2) show "d \<in> real_device ` set [] \<union> (\<Union>s\<in>set ?slots. \<Union>f. found_at cfg (b, s, f))" by blast
  qed
  ultimately show ?case by (simp add: scan_between_mono del: upt_rec_numeral)
qed


text \<open>
  With several host controllers the scan lists nothing at all: the first function of the first
  one exists, and there the loop ends.
\<close>

lemma several_hosts_list_nothing:
  assumes "is_pci cfg dv" "no_config_write l" "header_of cfg (0, 0, 0) AND 0x80 \<noteq> 0" "vendor_of cfg (0, 0, 0) \<noteq> 0xFFFF"
  shows "\<exists>l'. list_devices dv fuel l = Some ([], l')"
proof -
  from getters_eq(4) [OF assms(1,2), of "(0, 0, 0)"] obtain l1 where
    1: "get_header_type dv (0, 0, 0) l = Some (header_of cfg (0, 0, 0), l1)" "no_config_write l1" by blast
  from getters_eq(1) [OF assms(1) 1(2), of "(0, 0, 0)"] obtain l2 where
    "get_vendor_id dv (0, 0, 0) l1 = Some (vendor_of cfg (0, 0, 0), l2)" by blast
  with 1 assms(3,4) show ?thesis by (simp add: list_devices_def upt_rec)
qed

text \<open>\<open>read_u16\<close> shifts by the lowest bit of the offset, which is zero: the upper half of a register is never read.\<close>

lemma read_u16_lower_half:
  "offset AND 1 = 0 \<Longrightarrow> pd_read_u16 dv d offset l = pd_read_u16 dv d (offset AND NOT 3) l"
proof -
  have "(offset AND NOT 3) AND 1 = 0" "(offset AND NOT 3) AND NOT 3 = offset AND NOT 3"
    by (rule bit_word_eqI, simp add: bit_simps, auto)+
  then show "offset AND 1 = 0 \<Longrightarrow> ?thesis" by (simp add: pd_read_u16_def)
qed

text \<open>The lookup gives the first device whose number, name or short name is the one asked for.\<close>

lemma answer_query_find:
  "answer_query config ds name = find (\<lambda>d. name = vendor_and_id d
     \<or> (\<exists>c. config (vendor_and_id d) = Some c \<and> (name = cd_name c \<or> Some name = cd_shortname c))) ds"
  by (induction ds) (auto split: option.splits)

text \<open>An example: a host bridge, a bridge to bus 1 and a network card behind it.\<close>

definition pci_decode :: "u32 \<Rightarrow> DeviceLocation \<times> u8" where
  "pci_decode a = ((ucast (drop_bit 16 a), take_bit 5 (ucast (drop_bit 11 a)), take_bit 3 (ucast (drop_bit 8 a))), ucast a)"

lemma not_bit_above:
  assumes "unat (x :: u8) < 2 ^ k" "k \<le> n"
  shows "\<not> bit x n"
proof
  assume "bit x n"
  then have "bit (unat x) n" by (simp add: bit_unsigned_iff bit_imp_le_length possible_bit_def)
  moreover have "unat x = take_bit k (unat x)" using assms(1) by (simp add: take_bit_nat_eq_self)
  ultimately show False using assms(2) by (metis bit_take_bit_iff leD)
qed

lemma pci_decode_address:
  assumes "s < 32" "f < 8"
  shows "pci_decode (pci_address b s f offset) = ((b, s, f), offset)"
proof -
  have s: "\<not> bit s n" if "5 \<le> n" for n
    using assms(1) that by (intro not_bit_above [of _ 5]) (simp_all add: word_less_nat_alt)
  have f: "\<not> bit f n" if "3 \<le> n" for n
    using assms(2) that by (intro not_bit_above [of _ 3]) (simp_all add: word_less_nat_alt)
  have o8: "\<not> bit offset n" if "8 \<le> n" for n
    using that by (auto dest: bit_imp_le_length)
  obtain c :: u32 where c: "c = 0x80000000" by blast
  then have "c = push_bit 31 1" by simp
  then have k: "bit c n \<longleftrightarrow> n = 31" for n
    by (simp only: bit_push_bit_iff bit_1_iff) (auto simp: possible_bit_def)
  have s5: "n < 5" if "bit s n" for n using s that not_le by blast
  have f3: "n < 3" if "bit f n" for n using f that not_le by blast
  show ?thesis
    unfolding pci_decode_def pci_address_def c [symmetric]
    by (auto simp: bit_simps s f o8 k intro!: bit_word_eqI dest: s5 f3)
qed

definition demo_pci_regs :: "DeviceLocation \<Rightarrow> u8 \<Rightarrow> u32" where
  "demo_pci_regs loc offset =
     (if loc = (0, 0, 0) then (if offset = 0 then 0x12378086 else if offset = 8 then 0x06000000 else 0)
      else if loc = (0, 1, 0) then (if offset = 0 then 0x00011B36 else if offset = 8 then 0x06040000
        else if offset = 0x18 then 0x00010100 else 0)
      else if loc = (1, 0, 0) then (if offset = 0 then 0x813910EC else if offset = 8 then 0x02000000 else 0)
      else 0xFFFFFFFF)"

definition demo_cfg :: "u32 \<Rightarrow> u32" where
  "demo_cfg a = (case pci_decode a of (loc, offset) \<Rightarrow> demo_pci_regs loc offset)"

definition demo_pci :: Dev where
  "demo_pci = \<lparr>dv8 = (\<lambda>_ _. 0), dv16 = (\<lambda>_ _. 0), dv32 = (\<lambda>l p. demo_cfg (pci_selected l 0))\<rparr>"

lemma demo_cfg_at: "s < 32 \<Longrightarrow> f < 8 \<Longrightarrow> cfg_at demo_cfg (b, s, f) offset = demo_pci_regs (b, s, f) offset"
  by (simp add: cfg_at_def demo_cfg_def pci_decode_address)

lemma demo_functions:
  "pci_function demo_cfg loc \<longleftrightarrow> loc = (0, 0, 0) \<or> loc = (0, 1, 0) \<or> loc = (1, 0, 0)"
proof (cases loc)
  case (fields b s f)
  then show ?thesis
    by (auto simp: pci_function_def vendor_of_def header_of_def demo_cfg_at demo_pci_regs_def split: if_splits)
qed

lemma demo_bridged: "bridged demo_cfg b b' \<longleftrightarrow> b = 0 \<and> b' = 1"
proof
  assume "bridged demo_cfg b b'"
  then show "b = 0 \<and> b' = 1"
    by (auto simp: bridged_def demo_functions is_bridge_def class_of_def secondary_of_def demo_cfg_at demo_pci_regs_def)
next
  have "pci_function demo_cfg (0, 1, 0)" "is_bridge demo_cfg (0, 1, 0)" "secondary_of demo_cfg (0, 1, 0) = 1"
    by (simp_all add: demo_functions is_bridge_def class_of_def secondary_of_def demo_cfg_at demo_pci_regs_def)
  moreover assume "b = 0 \<and> b' = 1"
  ultimately show "bridged demo_cfg b b'" unfolding bridged_def by blast
qed

lemma demo_below: "bus_below demo_cfg 0 b \<longleftrightarrow> b = 0 \<or> b = 1"
proof
  assume "bus_below demo_cfg 0 b"
  then show "b = 0 \<or> b = 1" unfolding bus_below_def by (induction rule: rtranclp.induct) (auto simp: demo_bridged)
next
  assume "b = 0 \<or> b = 1"
  then show "bus_below demo_cfg 0 b" unfolding bus_below_def by (auto simp: demo_bridged)
qed


end
