(* ===== verification/Ne2k.thy ===== *)
theory Ne2k
  imports Pci
begin

text \<open>
  The driver of NE2000 network cards (\<open>driver_ne2k/src/ne2k.rs\<close> and the loop of \<open>lib.rs\<close>).
  The card is a parameter. Polling loops and the loops over received packets have fuel; a call
  that panics or uses up its fuel is \<open>None\<close>. Arithmetic wraps.
\<close>

unbundle bit_operations_syntax

subsection \<open>Registers and constants\<close>

definition NE_CMD :: u16 where "NE_CMD = 0"
definition NE_BNRY :: u16 where "NE_BNRY = 3"
definition NE_ISR :: u16 where "NE_ISR = 7"
definition NE_RSR :: u16 where "NE_RSR = 0xc"
definition NE_REMOTE_DMA :: u16 where "NE_REMOTE_DMA = 0x10"
definition NE_RESET :: u16 where "NE_RESET = 0x1f"
definition NE_W_PSTART :: u16 where "NE_W_PSTART = 1"
definition NE_W_PSTOP :: u16 where "NE_W_PSTOP = 2"
definition NE_W_TPSR :: u16 where "NE_W_TPSR = 4"
definition NE_W_TBCR0 :: u16 where "NE_W_TBCR0 = 5"
definition NE_W_TBCR1 :: u16 where "NE_W_TBCR1 = 6"
definition NE_W_RSAR0 :: u16 where "NE_W_RSAR0 = 8"
definition NE_W_RSAR1 :: u16 where "NE_W_RSAR1 = 9"
definition NE_W_RBCR0 :: u16 where "NE_W_RBCR0 = 0xa"
definition NE_W_RBCR1 :: u16 where "NE_W_RBCR1 = 0xb"
definition NE_W_RCR :: u16 where "NE_W_RCR = 0xc"
definition NE_W_TCR :: u16 where "NE_W_TCR = 0xd"
definition NE_W_DCR :: u16 where "NE_W_DCR = 0xe"
definition NE_W_IMR :: u16 where "NE_W_IMR = 0xf"
definition NE_RX_CURRENT_PAGE :: u16 where "NE_RX_CURRENT_PAGE = 7"

lemmas ne_regs = NE_CMD_def NE_BNRY_def NE_ISR_def NE_RSR_def NE_REMOTE_DMA_def NE_RESET_def
  NE_W_PSTART_def NE_W_PSTOP_def NE_W_TPSR_def NE_W_TBCR0_def NE_W_TBCR1_def NE_W_RSAR0_def
  NE_W_RSAR1_def NE_W_RBCR0_def NE_W_RBCR1_def NE_W_RCR_def NE_W_TCR_def NE_W_DCR_def NE_W_IMR_def
  NE_RX_CURRENT_PAGE_def

text \<open>Interrupt status and receive status flags.\<close>

abbreviation IS_RESET :: u8 where "IS_RESET \<equiv> 0x80"
abbreviation IS_REMOTE_DMA_COMPLETE :: u8 where "IS_REMOTE_DMA_COMPLETE \<equiv> 0x40"
abbreviation IS_COUNTER_MSB :: u8 where "IS_COUNTER_MSB \<equiv> 0x20"
abbreviation IS_TX_OK :: u8 where "IS_TX_OK \<equiv> 2"
abbreviation IS_RX_OK :: u8 where "IS_RX_OK \<equiv> 1"

definition IS_ERRORS :: u8 where "IS_ERRORS = 0x10 OR 0x08 OR 0x04"
definition RS_ERRORS :: u8 where "RS_ERRORS = 0x10 OR 0x04 OR 0x02"

definition flags_contain :: "u8 \<Rightarrow> u8 \<Rightarrow> bool" where
  "flags_contain status flag \<longleftrightarrow> status AND flag = flag"

definition MEM_FIRST_PAGE :: u8 where "MEM_FIRST_PAGE = 0x40"
definition MEM_SIZE_PAGES :: u8 where "MEM_SIZE_PAGES = 0x40"
definition MEM_LAST_PAGE :: u8 where "MEM_LAST_PAGE = MEM_FIRST_PAGE + MEM_SIZE_PAGES - 1"
definition MEM_PAGE_SIZE_BYTES :: u16 where "MEM_PAGE_SIZE_BYTES = 0x100"
definition TX_PAGES :: u8 where "TX_PAGES = 8"
definition RX_PAGES :: u8 where "RX_PAGES = MEM_SIZE_PAGES - TX_PAGES"
definition NE_PSTART :: u8 where "NE_PSTART = MEM_FIRST_PAGE"
definition NE_PSTOP :: u8 where "NE_PSTOP = MEM_FIRST_PAGE + RX_PAGES - 1"
definition NE_TX_START :: u8 where "NE_TX_START = NE_PSTOP + 1"

lemmas ne_layout = MEM_FIRST_PAGE_def MEM_SIZE_PAGES_def MEM_LAST_PAGE_def MEM_PAGE_SIZE_BYTES_def
  TX_PAGES_def RX_PAGES_def NE_PSTART_def NE_PSTOP_def NE_TX_START_def

datatype CmdFunc = RemoteRead | RemoteWrite | SendPacket | NoDMA

fun func_bits :: "CmdFunc \<Rightarrow> u8" where
  "func_bits RemoteRead = 1" | "func_bits RemoteWrite = 2" | "func_bits SendPacket = 3"
| "func_bits NoDMA = 4"

definition ne_cmd :: "u8 \<Rightarrow> CmdFunc \<Rightarrow> bool \<Rightarrow> bool \<Rightarrow> u8 option" where
  "ne_cmd page func txp start = do {
     rassert (page \<le> 3);
     Some (push_bit 6 page OR push_bit 3 (func_bits func) OR push_bit 2 (of_bool txp)
       OR push_bit (if start then 1 else 0) 1)
   }"

record Ne2kDriver =
  ne_irq :: u8
  ne_io_base :: u16
  ne_mac_addr :: bytes
  ne_next_packet :: u8

definition ne_out :: "Ne2kDriver \<Rightarrow> u16 \<Rightarrow> u8 \<Rightarrow> io_log \<Rightarrow> io_log" where
  "ne_out d n v l = out8 (ne_io_base d + n) v l"

definition ne_in :: "Dev \<Rightarrow> Ne2kDriver \<Rightarrow> u16 \<Rightarrow> io_log \<Rightarrow> u8 \<times> io_log" where
  "ne_in dv d n l = in8 dv (ne_io_base d + n) l"

definition ne_command :: "Ne2kDriver \<Rightarrow> u8 \<Rightarrow> CmdFunc \<Rightarrow> bool \<Rightarrow> bool \<Rightarrow> io_log \<Rightarrow> io_log option" where
  "ne_command d page func txp start l = do {
     c \<leftarrow> ne_cmd page func txp start;
     Some (ne_out d NE_CMD c l)
   }"

definition ne_read_rsr :: "Dev \<Rightarrow> Ne2kDriver \<Rightarrow> io_log \<Rightarrow> u8 \<times> io_log" where
  "ne_read_rsr dv d = ne_in dv d NE_RSR"

definition ne_read_isr :: "Dev \<Rightarrow> Ne2kDriver \<Rightarrow> io_log \<Rightarrow> u8 \<times> io_log" where
  "ne_read_isr dv d = ne_in dv d NE_ISR"

definition ne_clear_isr :: "Ne2kDriver \<Rightarrow> u8 \<Rightarrow> io_log \<Rightarrow> io_log" where
  "ne_clear_isr d clear = ne_out d NE_ISR clear"

definition ne_mask_isr :: "Ne2kDriver \<Rightarrow> u8 \<Rightarrow> io_log \<Rightarrow> io_log" where
  "ne_mask_isr d bits = ne_out d NE_W_IMR bits"

subsection \<open>Reset\<close>

fun ne_reset_wait :: "Dev \<Rightarrow> Ne2kDriver \<Rightarrow> nat \<Rightarrow> io_log \<Rightarrow> io_log option" where
  "ne_reset_wait dv d 0 l = None"
| "ne_reset_wait dv d (Suc fuel) l =
     (let (v, l) = ne_in dv d NE_ISR l in if v AND 0x80 = 0 then ne_reset_wait dv d fuel l else Some l)"

definition ne_reset :: "Dev \<Rightarrow> nat \<Rightarrow> Ne2kDriver \<Rightarrow> io_log \<Rightarrow> (Ne2kDriver \<times> io_log) option" where
  "ne_reset dv fuel d l = do {
     let (b, l) = ne_in dv d NE_RESET l;
     let l = ne_out d NE_RESET b l;
     l \<leftarrow> ne_reset_wait dv d fuel l;
     let l = ne_out d NE_ISR 0xff l;
     l \<leftarrow> ne_command d 0 NoDMA False False l;
     let l = ne_out d NE_W_DCR 0x49 l;
     let l = ne_out d NE_W_RBCR0 0 l;
     let l = ne_out d NE_W_RBCR1 0 l;
     let l = ne_out d NE_W_IMR 0 l;
     let l = ne_out d NE_ISR 0xff l;
     let l = ne_out d NE_W_RCR 0x0e l;
     let l = ne_out d NE_W_TCR 0x02 l;
     let l = ne_out d NE_W_RBCR0 12 l;
     let l = ne_out d NE_W_RBCR1 0 l;
     let l = ne_out d NE_W_RSAR0 0 l;
     let l = ne_out d NE_W_RSAR1 0 l;
     l \<leftarrow> ne_command d 0 RemoteRead False True l;
     let (mac_addr, l) = in8s dv (ne_io_base d + NE_REMOTE_DMA) 6 l;
     let d = d\<lparr>ne_mac_addr := mac_addr\<rparr>;
     let l = ne_out d NE_W_PSTART NE_PSTART l;
     let l = ne_out d NE_W_PSTOP NE_PSTOP l;
     let l = ne_out d NE_BNRY NE_PSTART l;
     let l = ne_out d NE_W_TPSR NE_TX_START l;
     let l = ne_mask_isr d (IS_ERRORS OR IS_RX_OK) l;
     l \<leftarrow> ne_command d 1 NoDMA False False l;
     l \<leftarrow> ne_command d 1 NoDMA False False l;
     let l = fold (\<lambda>i l. ne_out d (of_nat (i + 1)) (mac_addr ! i) l) [0..<6] l;
     let l = ne_out d NE_W_DCR 0x49 l;
     l \<leftarrow> ne_command d 1 NoDMA False True l;
     let l = ne_out d NE_RX_CURRENT_PAGE (ne_next_packet d) l;
     l \<leftarrow> ne_command d 0 NoDMA False True l;
     let l = ne_out d NE_W_TCR 0 l;
     let l = ne_out d NE_W_RCR 0x0c l;
     Some (d, l)
   }"

definition ne_new :: "Dev \<Rightarrow> nat \<Rightarrow> PciDevice \<Rightarrow> io_log \<Rightarrow> (Ne2kDriver \<times> io_log) option" where
  "ne_new dv fuel pci_device l = do {
     rassert (fst (pd_class pci_device) = 2 \<and> fst (snd (pd_class pci_device)) = 0);
     l \<leftarrow> enable_bus_mastering dv pci_device l;
     (line, l) \<leftarrow> get_interrupt_line dv pci_device l;
     irq \<leftarrow> line;
     (bar0, l) \<leftarrow> get_bar dv pci_device 0 l;
     ne_reset dv fuel \<lparr>ne_irq = irq, ne_io_base = ucast (bar0 AND NOT 3), ne_mac_addr = replicate 6 0,
       ne_next_packet = NE_PSTART + 1\<rparr> l
   }"

subsection \<open>Sending and receiving\<close>

fun ne_wait_isr :: "Dev \<Rightarrow> Ne2kDriver \<Rightarrow> u8 \<Rightarrow> nat \<Rightarrow> io_log \<Rightarrow> io_log option" where
  "ne_wait_isr dv d flag 0 l = None"
| "ne_wait_isr dv d flag (Suc fuel) l =
     (let (status, l) = ne_read_isr dv d l in
      if flags_contain status flag then Some l else ne_wait_isr dv d flag fuel l)"

fun packet_words :: "bytes \<Rightarrow> u16 list" where
  "packet_words [] = []"
| "packet_words [a] = [ucast a]"
| "packet_words (a # b # rest) = (ucast a OR push_bit 8 (ucast b)) # packet_words rest"

definition ne_send :: "Dev \<Rightarrow> nat \<Rightarrow> bytes \<Rightarrow> Ne2kDriver \<Rightarrow> io_log \<Rightarrow> io_log option" where
  "ne_send dv fuel packet d l = do {
     let txbuffer = 0x40;
     let l = ne_out d NE_W_RBCR0 (of_nat (length packet)) l;
     let l = ne_out d NE_W_RBCR1 (of_nat (length packet div 256)) l;
     let l = ne_out d NE_W_RSAR0 0 l;
     let l = ne_out d NE_W_RSAR1 txbuffer l;
     l \<leftarrow> ne_command d 0 RemoteWrite False True l;
     let l = fold (out16 (ne_io_base d + NE_REMOTE_DMA)) (packet_words packet) l;
     l \<leftarrow> ne_wait_isr dv d IS_REMOTE_DMA_COMPLETE fuel l;
     let l = ne_out d NE_W_TPSR txbuffer l;
     let l = ne_out d NE_W_TBCR0 (of_nat (length packet)) l;
     let l = ne_out d NE_W_TBCR1 (of_nat (length packet div 256)) l;
     l \<leftarrow> ne_command d 0 NoDMA True True l;
     l \<leftarrow> ne_wait_isr dv d IS_TX_OK fuel l;
     Some (ne_clear_isr d (IS_REMOTE_DMA_COMPLETE OR IS_TX_OK) l)
   }"

definition word_le_bytes :: "u16 \<Rightarrow> bytes" where
  "word_le_bytes w = [ucast w, ucast (drop_bit 8 w)]"

text \<open>The bounds assertion is translated as it is written: the page is shifted right.\<close>

definition ne_read_dma ::
  "Dev \<Rightarrow> Ne2kDriver \<Rightarrow> u8 \<Rightarrow> u8 \<Rightarrow> nat \<Rightarrow> io_log \<Rightarrow> (bytes \<times> io_log) option" where
  "ne_read_dma dv d page offset len l = do {
     rassert (len \<le> 65535);
     rassert (page \<ge> MEM_FIRST_PAGE \<and> page \<le> MEM_LAST_PAGE);
     rassert ((drop_bit 8 (ucast page) OR (ucast offset + of_nat len) :: u16)
       < (ucast MEM_LAST_PAGE + 1) * MEM_PAGE_SIZE_BYTES);
     let l = ne_out d NE_W_RBCR0 (of_nat len) l;
     let l = ne_out d NE_W_RBCR1 (of_nat (len div 256)) l;
     let l = ne_out d NE_W_RSAR0 offset l;
     let l = ne_out d NE_W_RSAR1 page l;
     l \<leftarrow> ne_command d 0 RemoteRead False True l;
     let (ws, l) = in16s dv (ne_io_base d + NE_REMOTE_DMA) ((len + 1) div 2) l;
     Some (take len (concat (map word_le_bytes ws)), ne_clear_isr d IS_REMOTE_DMA_COMPLETE l)
   }"

definition packet_ok :: "u8 \<Rightarrow> u8 \<Rightarrow> u16 \<Rightarrow> bool" where
  "packet_ok rsr nxt len \<longleftrightarrow> rsr AND RS_ERRORS = 0 \<and> flags_contain rsr 1
     \<and> nxt \<ge> NE_PSTART \<and> nxt \<le> NE_PSTOP \<and> len \<le> 1532"

text \<open>The two halves of an iteration of \<open>read_packets\<close>: fetching the data and moving on.\<close>

definition ne_fetch ::
  "Dev \<Rightarrow> Ne2kDriver \<Rightarrow> u8 \<Rightarrow> u8 \<Rightarrow> u16 \<Rightarrow> bytes list \<Rightarrow> io_log \<Rightarrow> (bytes list \<times> io_log) option" where
  "ne_fetch dv d rsr nxt len result l =
     (if packet_ok rsr nxt len
      then do {
        (packet, l) \<leftarrow> ne_read_dma dv d (ne_next_packet d) 4 (unat len) l;
        Some (result @ [packet], l)
      }
      else Some (result, l))"

definition ne_advance :: "u8 \<Rightarrow> u8 \<Rightarrow> Ne2kDriver \<Rightarrow> io_log \<Rightarrow> (Ne2kDriver \<times> io_log) option" where
  "ne_advance current nxt d l = do {
     let d = d\<lparr>ne_next_packet := (if nxt \<ge> NE_PSTOP then NE_PSTART else nxt)\<rparr>;
     let l = ne_out d NE_BNRY (if ne_next_packet d = NE_PSTART then NE_PSTOP - 1 else ne_next_packet d - 1) l;
     l \<leftarrow> ne_command d 1 NoDMA False True l;
     let l = ne_out d NE_RX_CURRENT_PAGE current l;
     l \<leftarrow> ne_command d 0 NoDMA False True l;
     Some (d, l)
   }"

fun ne_read_loop ::
  "Dev \<Rightarrow> u8 \<Rightarrow> nat \<Rightarrow> bytes list \<Rightarrow> Ne2kDriver \<Rightarrow> io_log \<Rightarrow> (bytes list \<times> Ne2kDriver \<times> io_log) option" where
  "ne_read_loop dv current 0 result d l = None"
| "ne_read_loop dv current (Suc fuel) result d l =
     (if current = ne_next_packet d then Some (result, d, l)
      else do {
        (buf, l) \<leftarrow> ne_read_dma dv d (ne_next_packet d) 0 4 l;
        let rsr = buf ! 0;
        let nxt = buf ! 1;
        let len = (ucast (buf ! 2) OR push_bit 8 (ucast (buf ! 3)) :: u16) - 4;
        (result, l) \<leftarrow> ne_fetch dv d rsr nxt len result l;
        (d, l) \<leftarrow> ne_advance current nxt d l;
        ne_read_loop dv current fuel result d l
      })"

definition ne_read_packets ::
  "Dev \<Rightarrow> nat \<Rightarrow> Ne2kDriver \<Rightarrow> io_log \<Rightarrow> (bytes list \<times> Ne2kDriver \<times> io_log) option" where
  "ne_read_packets dv fuel d l = do {
     l \<leftarrow> ne_command d 1 NoDMA False True l;
     let (current, l) = ne_in dv d NE_RX_CURRENT_PAGE l;
     l \<leftarrow> ne_command d 0 NoDMA False True l;
     ne_read_loop dv current fuel [] d l
   }"

text \<open>Interrupts; \<open>fuel\<close> also bounds the packets of each reading.\<close>

fun ne_notify_irq ::
  "Dev \<Rightarrow> nat \<Rightarrow> bytes list \<Rightarrow> Ne2kDriver \<Rightarrow> io_log \<Rightarrow> (bytes list \<times> Ne2kDriver \<times> io_log) option" where
  "ne_notify_irq dv 0 result d l = None"
| "ne_notify_irq dv (Suc fuel) result d l = do {
     let (status, l) = ne_read_isr dv d l;
     (if status = 0 then Some (result, d, l)
      else do {
        (result, d, l) \<leftarrow> (if flags_contain status IS_RX_OK
          then do {
            (packets, d, l) \<leftarrow> ne_read_packets dv fuel d l;
            Some (result @ packets, d, ne_clear_isr d IS_RX_OK l)
          } else Some (result, d, l));
        let l = (if flags_contain status IS_COUNTER_MSB then ne_clear_isr d IS_COUNTER_MSB l else l);
        let l = (if flags_contain status IS_REMOTE_DMA_COMPLETE
                 then ne_clear_isr d IS_REMOTE_DMA_COMPLETE l else l);
        rassert (\<not> flags_contain status IS_TX_OK);
        rassert (\<not> flags_contain status IS_RESET);
        rassert (\<not> flags_contain status IS_ERRORS);
        ne_notify_irq dv fuel result d l
      })
   }"

text \<open>
  The loop of the driver (\<open>lib.rs\<close>): the lookup of the device, and the handling of one event.
  What is delivered to the network daemon or answered is part of the result; delivering is a
  system call that the driver expects to succeed.
\<close>

definition ne_find_device :: "(string \<Rightarrow> PciDevice option) \<Rightarrow> PciDevice option" where
  "ne_find_device request_device =
     (case request_device ''ne2k'' of Some d \<Rightarrow> Some d | None \<Rightarrow> request_device ''rtl8029'')"

datatype NicEvent = NicIrq | NicGetMac | NicSend bytes
datatype NicOutput = NicReceived bytes | NicMac bytes

definition ne_handle :: "Dev \<Rightarrow> nat \<Rightarrow> NicEvent \<Rightarrow> Ne2kDriver \<Rightarrow> io_log
    \<Rightarrow> (NicOutput list \<times> Ne2kDriver \<times> io_log) option" where
  "ne_handle dv fuel ev d l = (case ev of
       NicIrq \<Rightarrow> do {
         (received_packets, d, l) \<leftarrow> ne_notify_irq dv fuel [] d l;
         Some (map NicReceived received_packets, d, l)
       }
     | NicGetMac \<Rightarrow> Some ([NicMac (ne_mac_addr d)], d, l)
     | NicSend packet \<Rightarrow> do {
         l \<leftarrow> ne_send dv fuel packet d l;
         Some ([], d, l)
       })"

subsection \<open>The card\<close>

record Ne2kCard =
  nc_page :: u8
  nc_addr :: nat
  nc_mem :: "nat \<Rightarrow> u8"
  nc_curr :: u8
  nc_isr :: u8
  nc_tpsr :: u8
  nc_tbcr0 :: u8
  nc_tbcr1 :: u8
  nc_sent :: "bytes list"

text \<open>Addresses of the remote DMA wrap from the end of the receive ring to its start.\<close>

definition ring_addr :: "nat \<Rightarrow> nat \<Rightarrow> nat" where
  "ring_addr a i = 0x4000 + (a - 0x4000 + i) mod 14080"

fun ne_step :: "u16 \<Rightarrow> Ne2kCard \<Rightarrow> PortOp \<Rightarrow> Ne2kCard" where
  "ne_step base s (Out8 p v) =
     (if p - base = 0 then
        (let s = s\<lparr>nc_page := drop_bit 6 v\<rparr> in
         if bit v 2 then s\<lparr>nc_isr := nc_isr s OR IS_TX_OK, nc_sent := nc_sent s @
           [map (\<lambda>i. nc_mem s (256 * unat (nc_tpsr s) + i)) [0..<unat (nc_tbcr0 s) + 256 * unat (nc_tbcr1 s)]]\<rparr>
         else s)
      else if nc_page s = 1 then (if p - base = 7 then s\<lparr>nc_curr := v\<rparr> else s)
      else if p - base = 7 then s\<lparr>nc_isr := nc_isr s AND NOT v\<rparr>
      else if p - base = 8 then s\<lparr>nc_addr := 256 * (nc_addr s div 256) + unat v\<rparr>
      else if p - base = 9 then s\<lparr>nc_addr := 256 * unat v + nc_addr s mod 256\<rparr>
      else if p - base = 4 then s\<lparr>nc_tpsr := v\<rparr>
      else if p - base = 5 then s\<lparr>nc_tbcr0 := v\<rparr>
      else if p - base = 6 then s\<lparr>nc_tbcr1 := v\<rparr>
      else s)"
| "ne_step base s (In16 p w) =
     (if p - base = 0x10 then s\<lparr>nc_addr := ring_addr (nc_addr s) 2\<rparr> else s)"
| "ne_step base s (Out16 p w) =
     (if p - base = 0x10 then
        s\<lparr>nc_mem := (nc_mem s)(nc_addr s := ucast w, nc_addr s + 1 := ucast (drop_bit 8 w)),
          nc_addr := ring_addr (nc_addr s) 2, nc_isr := nc_isr s OR IS_REMOTE_DMA_COMPLETE\<rparr>
      else s)"
| "ne_step base s _ = s"

definition ne_state :: "u16 \<Rightarrow> Ne2kCard \<Rightarrow> io_log \<Rightarrow> Ne2kCard" where
  "ne_state base s0 l = foldl (ne_step base) s0 l"

definition is_ne2k :: "u16 \<Rightarrow> Ne2kCard \<Rightarrow> Dev \<Rightarrow> bool" where
  "is_ne2k base s0 dv \<longleftrightarrow> (\<forall>l. let s = ne_state base s0 l in
     dv8 dv l (base + 7) = (if nc_page s = 1 then nc_curr s else nc_isr s)
   \<and> dv16 dv l (base + 0x10) = ucast (nc_mem s (nc_addr s)) OR push_bit 8 (ucast (nc_mem s (nc_addr s + 1))))"

lemma ne_state_snoc [simp]: "ne_state base s0 (l @ [x]) = ne_step base (ne_state base s0 l) x"
  by (simp add: ne_state_def)

lemma ne_state_out [simp]:
  "ne_state base s0 (ne_out d n v l) = ne_step base (ne_state base s0 l) (Out8 (ne_io_base d + n) v)"
  by (simp add: ne_out_def out8_def)

lemma ring_addr_step:
  "ring_addr (ring_addr a i) j = ring_addr a (i + j)"
  by (simp add: ring_addr_def mod_add_left_eq add.assoc)

lemma ring_addr_0: "0x4000 \<le> a \<Longrightarrow> a < 0x7700 \<Longrightarrow> ring_addr a 0 = a"
  by (simp add: ring_addr_def)

lemma ring_addr_1:
  assumes "0x4000 \<le> a" "even a"
  shows "ring_addr a (i + i) + 1 = ring_addr a (i + i + 1)"
proof -
  have "even (a - 0x4000 + (i + i))" using assms by simp
  then have "even ((a - 0x4000 + (i + i)) mod 14080)" by (simp add: dvd_mod_iff)
  moreover have "(a - 0x4000 + (i + i)) mod 14080 < 14080" by simp
  moreover have "r + 1 < 14080" if "even r" "r < 14080" for r :: nat using that by presburger
  ultimately have "(a - 0x4000 + (i + i)) mod 14080 + 1 < 14080" by blast
  then have "(a - 0x4000 + (i + i) + 1) mod 14080 = (a - 0x4000 + (i + i)) mod 14080 + 1"
    by (metis mod_add_left_eq mod_less)
  then show ?thesis by (simp add: ring_addr_def)
qed

lemma word_le_bytes_join: "word_le_bytes (ucast a OR push_bit 8 (ucast b)) = [a, b]"
proof -
  let ?w = "ucast a OR push_bit 8 (ucast b) :: u16"
  have "ucast ?w = a" by (rule bit_word_eqI) (auto simp: bit_simps)
  moreover have "ucast (drop_bit 8 ?w) = b" by (rule bit_word_eqI) (auto simp: bit_simps dest: bit_imp_le_length)
  ultimately show ?thesis by (simp add: word_le_bytes_def)
qed

lemma ne_read_words:
  assumes "is_ne2k base s0 dv" "0x4000 \<le> a" "even a"
  shows "nc_addr (ne_state base s0 l) = ring_addr a (i + i) \<Longrightarrow>
    \<exists>ws l'. in16s dv (base + NE_REMOTE_DMA) n l = (ws, l')
      \<and> concat (map word_le_bytes ws) = map (\<lambda>k. nc_mem (ne_state base s0 l) (ring_addr a k)) [i + i..<i + i + (n + n)]
      \<and> ne_state base s0 l' = (ne_state base s0 l)\<lparr>nc_addr := ring_addr a (i + i + (n + n))\<rparr>"
proof (induction n arbitrary: l i)
  case 0
  then show ?case by simp
next
  case (Suc n)
  let ?s = "ne_state base s0 l" and ?p = "base + NE_REMOTE_DMA"
  let ?l1 = "l @ [In16 ?p (dv16 dv l ?p)]"
  have w: "word_le_bytes (dv16 dv l ?p) = [nc_mem ?s (ring_addr a (i + i)), nc_mem ?s (ring_addr a (i + i + 1))]"
    using assms(1) Suc.prems ring_addr_1 [OF assms(2,3), of i]
    by (simp add: is_ne2k_def Let_def NE_REMOTE_DMA_def word_le_bytes_join)
  have s1: "ne_state base s0 ?l1 = ?s\<lparr>nc_addr := ring_addr a (Suc i + Suc i)\<rparr>"
    using Suc.prems by (simp add: NE_REMOTE_DMA_def ring_addr_step)
  from Suc.IH [of ?l1 "Suc i"] s1 obtain ws l' where ws: "in16s dv ?p n ?l1 = (ws, l')"
    "concat (map word_le_bytes ws) = map (\<lambda>k. nc_mem ?s (ring_addr a k)) [Suc i + Suc i..<Suc i + Suc i + (n + n)]"
    "ne_state base s0 l' = ?s\<lparr>nc_addr := ring_addr a (Suc i + Suc i + (n + n))\<rparr>"
    by (auto simp del: ne_state_snoc)
  have "[i + i..<i + i + (Suc n + Suc n)] = [i + i, i + i + 1] @ [Suc i + Suc i..<Suc i + Suc i + (n + n)]"
    by (simp add: upt_conv_Cons)
  with w ws show ?case by (simp add: in16_def Let_def)
qed

lemma ne_command_state:
  assumes "ne_io_base d = base" "page \<le> 3"
  shows "\<exists>l'. ne_command d page func False start l = Some l'
    \<and> ne_state base s0 l' = (ne_state base s0 l)\<lparr>nc_page := page\<rparr>"
proof -
  let ?c = "push_bit 6 page OR push_bit 3 (func_bits func) OR push_bit (if start then 1 else 0) 1 :: u8"
  have page: "unat page \<in> set [0..<4]" using assms(2) by (simp add: word_le_nat_alt)
  have tab: "list_all (\<lambda>p. list_all (\<lambda>f. list_all (\<lambda>b.
      drop_bit 6 (push_bit 6 (of_nat p) OR push_bit 3 f OR b) = (of_nat p :: u8)
      \<and> \<not> bit (push_bit 6 (of_nat p) OR push_bit 3 f OR b :: u8) 2) [1, 2]) [1, 2, 3, 4]) [0..<4]"
    by code_simp
  have "func_bits func \<in> set [1, 2, 3, 4]" "push_bit (if start then 1 else 0) 1 \<in> set [1, 2 :: u8]"
    by (cases func; simp) (simp add: push_bit_eq_mult)
  with bspec [OF tab [unfolded list_all_iff] page] have c: "drop_bit 6 ?c = page" "\<not> bit ?c 2" by auto
  have "ne_cmd page func False start = Some ?c" using assms(2) by (simp add: ne_cmd_def)
  then show ?thesis using assms(1) c by (simp add: ne_command_def NE_CMD_def)
qed

lemma ne_page_numbers:
  "NE_PSTART = 0x40" "NE_PSTOP = 0x77" "MEM_LAST_PAGE = 0x7f" "MEM_FIRST_PAGE = 0x40"
  by (simp_all add: ne_layout)

lemma ne_read_dma_ring:
  assumes dev: "is_ne2k base s0 dv" "ne_io_base d = base" and page: "NE_PSTART \<le> page" "page < NE_PSTOP"
    and off: "even (unat offset)" and len: "len \<le> 2000" and s: "s = ne_state base s0 l" "nc_page s = 0"
  shows "\<exists>l' a i. ne_read_dma dv d page offset len l
      = Some (map (\<lambda>k. nc_mem s (ring_addr (256 * unat page + unat offset) k)) [0..<len], l')
    \<and> ne_state base s0 l' = s\<lparr>nc_addr := a, nc_isr := i\<rparr>"
proof -
  let ?a = "256 * unat page + unat offset"
  have p: "0x40 \<le> unat page" "unat page < 0x77" using page by (simp_all add: ne_page_numbers word_le_nat_alt word_less_nat_alt)
  have o: "unat offset < 256" using unsigned_less [of offset, where 'a = nat] by simp
  have a: "0x4000 \<le> ?a" "?a < 0x7700" "even ?a" using p o off by auto
  define l1 where "l1 = ne_out d NE_W_RSAR1 page (ne_out d NE_W_RSAR0 offset
    (ne_out d NE_W_RBCR1 (of_nat (len div 256)) (ne_out d NE_W_RBCR0 (of_nat len) l)))"
  have s1: "ne_state base s0 l1 = s\<lparr>nc_addr := ?a\<rparr>"
    using dev(2) s o by (simp add: l1_def ne_regs)
  obtain l2 where l2: "ne_command d 0 RemoteRead False True l1 = Some l2" "ne_state base s0 l2 = s\<lparr>nc_addr := ?a, nc_page := 0\<rparr>"
    using ne_command_state [OF dev(2), of 0 RemoteRead True l1 s0] s1 by auto
  have "nc_addr (ne_state base s0 l2) = ring_addr ?a (0 + 0)" using l2(2) ring_addr_0 [OF a(1,2)] by simp
  from ne_read_words [OF dev(1) a(1,3) this, of "(len + 1) div 2"] obtain ws l3 where
    ws: "in16s dv (base + NE_REMOTE_DMA) ((len + 1) div 2) l2 = (ws, l3)"
      "concat (map word_le_bytes ws) = map (\<lambda>k. nc_mem s (ring_addr ?a k)) [0..<(len + 1) div 2 + (len + 1) div 2]"
      "ne_state base s0 l3 = s\<lparr>nc_page := 0, nc_addr := ring_addr ?a ((len + 1) div 2 + (len + 1) div 2)\<rparr>"
    using l2(2) by auto
  have "take len (concat (map word_le_bytes ws)) = map (\<lambda>k. nc_mem s (ring_addr ?a k)) [0..<len]"
    unfolding ws(2) by (simp add: take_map)
  moreover have "s\<lparr>nc_page := 0\<rparr> = s" using s(2) by (cases s) simp
  moreover have "(drop_bit 8 (ucast page) OR (ucast offset + of_nat len) :: u16) < (ucast MEM_LAST_PAGE + 1) * MEM_PAGE_SIZE_BYTES"
  proof -
    have "drop_bit 8 (ucast page :: u16) = 0"
      by (rule bit_word_eqI) (auto simp: bit_simps dest: bit_imp_le_length)
    moreover have "unat (ucast offset + of_nat len :: u16) = unat offset + len"
      using o len by (simp add: unat_word_ariths unsigned_ucast_eq unat_of_nat take_bit_eq_mod)
    ultimately show ?thesis using o len by (simp add: word_less_nat_alt ne_page_numbers MEM_PAGE_SIZE_BYTES_def)
  qed
  moreover have "page \<ge> MEM_FIRST_PAGE \<and> page \<le> MEM_LAST_PAGE"
    using p by (simp add: ne_page_numbers word_le_nat_alt)
  ultimately have "ne_read_dma dv d page offset len l
      = Some (map (\<lambda>k. nc_mem s (ring_addr ?a k)) [0..<len], ne_clear_isr d IS_REMOTE_DMA_COMPLETE l3)"
    and s3: "ne_state base s0 l3 = s\<lparr>nc_addr := ring_addr ?a ((len + 1) div 2 + (len + 1) div 2)\<rparr>"
    using ws(1,3) l2(1) len dev(2) by (simp_all add: ne_read_dma_def l1_def [symmetric])
  moreover have "ne_state base s0 (ne_clear_isr d IS_REMOTE_DMA_COMPLETE l3)
      = s\<lparr>nc_addr := ring_addr ?a ((len + 1) div 2 + (len + 1) div 2), nc_isr := nc_isr s AND NOT IS_REMOTE_DMA_COMPLETE\<rparr>"
    using s3 s(2) dev(2) by (simp add: ne_clear_isr_def ne_regs)
  ultimately show ?thesis by blast
qed

subsection \<open>Received packets\<close>

text \<open>
  The entries of the receive ring from a page on: status, page of the next entry and data,
  with the header the card stores in front of them.
\<close>

fun ring_holds :: "(nat \<Rightarrow> u8) \<Rightarrow> u8 \<Rightarrow> (u8 \<times> u8 \<times> bytes) list \<Rightarrow> u8 \<Rightarrow> bool" where
  "ring_holds mem page [] current \<longleftrightarrow> page = current"
| "ring_holds mem page ((rsr, nxt, dat) # entries) current \<longleftrightarrow>
     page \<noteq> current \<and> NE_PSTART \<le> page \<and> page < NE_PSTOP \<and> NE_PSTART \<le> nxt \<and> nxt \<le> NE_PSTOP
   \<and> length dat \<le> 1532
   \<and> map (\<lambda>k. mem (ring_addr (256 * unat page) k)) [0..<4]
       = [rsr, nxt, of_nat (length dat + 4), of_nat ((length dat + 4) div 256)]
   \<and> map (\<lambda>k. mem (ring_addr (256 * unat page + 4) k)) [0..<length dat] = dat
   \<and> ring_holds mem (if nxt \<ge> NE_PSTOP then NE_PSTART else nxt) entries current"

definition received_ok :: "u8 \<Rightarrow> bool" where
  "received_ok rsr \<longleftrightarrow> rsr AND RS_ERRORS = 0 \<and> bit rsr 0"

fun good_packets :: "(u8 \<times> u8 \<times> bytes) list \<Rightarrow> bytes list" where
  "good_packets [] = []"
| "good_packets ((rsr, nxt, dat) # entries) = (if received_ok rsr then [dat] else []) @ good_packets entries"

lemma u16_from_bytes:
  assumes "m < 65536"
  shows "ucast (of_nat m :: u8) OR push_bit 8 (ucast (of_nat (m div 256) :: u8)) = (of_nat m :: u16)"
proof (rule bit_word_eqI)
  fix n assume n: "n < LENGTH(16)"
  have "m div 256 = drop_bit 8 m" by (simp add: drop_bit_eq_div)
  then show "bit (ucast (of_nat m :: u8) OR push_bit 8 (ucast (of_nat (m div 256) :: u8)) :: u16) n
      = bit (of_nat m :: u16) n"
    using n by (cases "n < 8") (auto simp: bit_simps)
qed

lemma header_length: "n \<le> 1532 \<Longrightarrow>
    (ucast (of_nat (n + 4) :: u8) OR push_bit 8 (ucast (of_nat ((n + 4) div 256) :: u8)) :: u16) - 4 = of_nat n"
  using u16_from_bytes [of "n + 4"] by simp

lemma flags_contain_bit0: "flags_contain rsr 1 \<longleftrightarrow> bit rsr 0"
  by (simp add: flags_contain_def bit_0 and_one_eq mod2_eq_if)

lemma ne_fetch_ring:
  assumes dev: "is_ne2k base s0 dv" "ne_io_base d = base" and s: "s = ne_state base s0 l" "nc_page s = 0"
    and ring: "ring_holds (nc_mem s) (ne_next_packet d) ((rsr, nxt, dat) # entries) current"
  shows "\<exists>l' a i. ne_fetch dv d rsr nxt (of_nat (length dat)) result l
      = Some (result @ (if received_ok rsr then [dat] else []), l')
    \<and> ne_state base s0 l' = s\<lparr>nc_addr := a, nc_isr := i\<rparr>"
proof -
  from ring have r: "NE_PSTART \<le> ne_next_packet d" "ne_next_packet d < NE_PSTOP" "NE_PSTART \<le> nxt" "nxt \<le> NE_PSTOP"
    "length dat \<le> 1532"
    "map (\<lambda>k. nc_mem s (ring_addr (256 * unat (ne_next_packet d) + 4) k)) [0..<length dat] = dat" by auto
  have len: "unat (of_nat (length dat) :: u16) = length dat" "(of_nat (length dat) :: u16) \<le> 1532"
    using r(5) by (simp_all add: unat_of_nat take_bit_eq_mod word_le_nat_alt)
  have ok: "packet_ok rsr nxt (of_nat (length dat)) \<longleftrightarrow> received_ok rsr"
    using r(3,4) len(2) by (simp add: packet_ok_def received_ok_def flags_contain_bit0)
  show ?thesis
  proof (cases "received_ok rsr")
    case True
    from ne_read_dma_ring [OF dev r(1,2), of 4 "length dat" s l] r(5,6) s obtain l2 a2 i2 where
      "ne_read_dma dv d (ne_next_packet d) 4 (length dat) l = Some (dat, l2)"
      "ne_state base s0 l2 = s\<lparr>nc_addr := a2, nc_isr := i2\<rparr>" by auto
    with True ok len(1) show ?thesis by (auto simp: ne_fetch_def)
  next
    case False
    with ok s(1) show ?thesis
      by (auto simp: ne_fetch_def intro!: exI [of _ "nc_addr s"] exI [of _ "nc_isr s"])
  qed
qed

lemma ne_advance_state:
  assumes base: "ne_io_base d = base" and s: "s = ne_state base s0 l" "nc_page s = 0"
  shows "\<exists>l'. ne_advance current nxt d l
      = Some (d\<lparr>ne_next_packet := (if nxt \<ge> NE_PSTOP then NE_PSTART else nxt)\<rparr>, l')
    \<and> ne_state base s0 l' = s\<lparr>nc_curr := current\<rparr>"
proof -
  let ?d = "d\<lparr>ne_next_packet := (if nxt \<ge> NE_PSTOP then NE_PSTART else nxt)\<rparr>"
  define l3 where "l3 = ne_out ?d NE_BNRY (if ne_next_packet ?d = NE_PSTART then NE_PSTOP - 1 else ne_next_packet ?d - 1) l"
  have s3: "ne_state base s0 l3 = s" using base s by (simp add: l3_def ne_regs)
  have base': "ne_io_base ?d = base" using base by simp
  from ne_command_state [OF base', of 1 NoDMA True l3 s0] obtain l4 where
    l4: "ne_command ?d 1 NoDMA False True l3 = Some l4" "ne_state base s0 l4 = s\<lparr>nc_page := 1\<rparr>" using s3 by auto
  from ne_command_state [OF base', of 0 NoDMA True "ne_out ?d NE_RX_CURRENT_PAGE current l4" s0] obtain l5 where
    l5: "ne_command ?d 0 NoDMA False True (ne_out ?d NE_RX_CURRENT_PAGE current l4) = Some l5"
    "ne_state base s0 l5 = (ne_state base s0 (ne_out ?d NE_RX_CURRENT_PAGE current l4))\<lparr>nc_page := 0\<rparr>" by auto
  have "ne_state base s0 l5 = s\<lparr>nc_curr := current\<rparr>"
    using l5(2) l4(2) s(2) base by (cases s) (simp add: ne_regs)
  moreover have "ne_advance current nxt d l = Some (?d, l5)"
    unfolding ne_advance_def Let_def l3_def [symmetric] using l4(1) l5(1) by simp
  ultimately show ?thesis by blast
qed

lemma ne_read_entry:
  assumes dev: "is_ne2k base s0 dv" "ne_io_base d = base" and s: "s = ne_state base s0 l" "nc_page s = 0"
    and ring: "ring_holds (nc_mem s) (ne_next_packet d) ((rsr, nxt, dat) # entries) current"
  shows "\<exists>l' a i. ne_read_loop dv current (Suc fuel) result d l = ne_read_loop dv current fuel
      (result @ (if received_ok rsr then [dat] else []))
      (d\<lparr>ne_next_packet := (if nxt \<ge> NE_PSTOP then NE_PSTART else nxt)\<rparr>) l'
    \<and> ne_state base s0 l' = s\<lparr>nc_addr := a, nc_isr := i, nc_curr := current\<rparr>"
proof -
  from ring have r: "current \<noteq> ne_next_packet d" "NE_PSTART \<le> ne_next_packet d" "ne_next_packet d < NE_PSTOP"
    "length dat \<le> 1532" "map (\<lambda>k. nc_mem s (ring_addr (256 * unat (ne_next_packet d)) k)) [0..<4]
       = [rsr, nxt, of_nat (length dat + 4), of_nat ((length dat + 4) div 256)]" by auto
  from ne_read_dma_ring [OF dev r(2,3), of 0 4 s l] s r(5) obtain l1 a1 i1 where
    l1: "ne_read_dma dv d (ne_next_packet d) 0 4 l
      = Some ([rsr, nxt, of_nat (length dat + 4), of_nat ((length dat + 4) div 256)], l1)"
    and s1: "ne_state base s0 l1 = s\<lparr>nc_addr := a1, nc_isr := i1\<rparr>" by auto
  have ring1: "ring_holds (nc_mem (ne_state base s0 l1)) (ne_next_packet d) ((rsr, nxt, dat) # entries) current"
    and page1: "nc_page (ne_state base s0 l1) = 0" using ring s1 s(2) by (simp_all del: ring_holds.simps)
  from ne_fetch_ring [OF dev refl page1 ring1, of result] s1 obtain l2 a2 i2 where
    l2: "ne_fetch dv d rsr nxt (of_nat (length dat)) result l1 = Some (result @ (if received_ok rsr then [dat] else []), l2)"
    and s2: "ne_state base s0 l2 = s\<lparr>nc_addr := a2, nc_isr := i2\<rparr>" by auto
  from ne_advance_state [OF dev(2) refl, where l = l2 and ?s0.0 = s0 and current = current and nxt = nxt] s2 s(2) obtain l3 where
    l3: "ne_advance current nxt d l2 = Some (d\<lparr>ne_next_packet := (if nxt \<ge> NE_PSTOP then NE_PSTART else nxt)\<rparr>, l3)"
    and s3: "ne_state base s0 l3 = s\<lparr>nc_addr := a2, nc_isr := i2, nc_curr := current\<rparr>" by auto
  have "(ucast (of_nat (length dat + 4) :: u8) OR push_bit 8 (ucast (of_nat ((length dat + 4) div 256) :: u8)) :: u16) - 4
      = of_nat (length dat)" using header_length [OF r(4)] .
  with r(1) l1 l2 l3 have "ne_read_loop dv current (Suc fuel) result d l = ne_read_loop dv current fuel
      (result @ (if received_ok rsr then [dat] else []))
      (d\<lparr>ne_next_packet := (if nxt \<ge> NE_PSTOP then NE_PSTART else nxt)\<rparr>) l3"
    by (simp del: of_nat_add)
  with s3 show ?thesis by blast
qed

lemma ne_read_loop_ring:
  assumes dev: "is_ne2k base s0 dv"
  shows "ne_io_base d = base \<Longrightarrow> nc_page (ne_state base s0 l) = 0 \<Longrightarrow>
    ring_holds (nc_mem (ne_state base s0 l)) (ne_next_packet d) entries current \<Longrightarrow> length entries < fuel \<Longrightarrow>
    \<exists>l' s'. ne_read_loop dv current fuel result d l
        = Some (result @ good_packets entries, d\<lparr>ne_next_packet := current\<rparr>, l')
      \<and> s' = ne_state base s0 l' \<and> nc_mem s' = nc_mem (ne_state base s0 l) \<and> nc_page s' = 0
      \<and> nc_sent s' = nc_sent (ne_state base s0 l)"
proof (induction entries arbitrary: d l result fuel)
  case Nil
  then show ?case by (cases fuel; cases d) auto
next
  case (Cons e entries)
  obtain rsr nxt dat where e: "e = (rsr, nxt, dat)" by (cases e)
  obtain f where f: "fuel = Suc f" using Cons.prems(4) by (cases fuel) auto
  let ?s = "ne_state base s0 l"
  let ?d = "d\<lparr>ne_next_packet := (if nxt \<ge> NE_PSTOP then NE_PSTART else nxt)\<rparr>"
  from ne_read_entry [OF dev Cons.prems(1) refl Cons.prems(2) Cons.prems(3) [unfolded e], of f result] obtain l1 a i where
    step: "ne_read_loop dv current (Suc f) result d l = ne_read_loop dv current f
      (result @ (if received_ok rsr then [dat] else [])) ?d l1"
    and s1: "ne_state base s0 l1 = ?s\<lparr>nc_addr := a, nc_isr := i, nc_curr := current\<rparr>" by blast
  have ih: "ne_io_base ?d = base" "nc_page (ne_state base s0 l1) = 0"
    "ring_holds (nc_mem (ne_state base s0 l1)) (ne_next_packet ?d) entries current" "length entries < f"
    using Cons.prems s1 e f by auto
  from Cons.IH [OF ih, of "result @ (if received_ok rsr then [dat] else [])"] obtain l' where
    "ne_read_loop dv current f (result @ (if received_ok rsr then [dat] else [])) ?d l1
      = Some ((result @ (if received_ok rsr then [dat] else [])) @ good_packets entries, ?d\<lparr>ne_next_packet := current\<rparr>, l')"
    "nc_mem (ne_state base s0 l') = nc_mem ?s" "nc_page (ne_state base s0 l') = 0" "nc_sent (ne_state base s0 l') = nc_sent ?s"
    using s1 by auto
  with step show ?case by (simp add: f e del: ne_read_loop.simps)
qed

text \<open>C28: The network card driver takes exactly the received packets out of the card's ring
  buffer. When the ring holds a chain of entries from the driver's read position to the page the card
  writes next, with packets that may wrap around the end of the ring, \<open>read_packets\<close>
  returns after one iteration for each entry with the data of all entries received without errors, in order, and the
  read position has reached the page the card writes next.\<close>

theorem ne2k_reads_ring:
  assumes "is_ne2k base s0 dv" "ne_io_base d = base" "nc_page (ne_state base s0 l) \<le> 1"
    and "ring_holds (nc_mem (ne_state base s0 l)) (ne_next_packet d) entries (nc_curr (ne_state base s0 l))"
    and "length entries < fuel"
  shows "\<exists>d' l'. ne_read_packets dv fuel d l = Some (good_packets entries, d', l')
    \<and> ne_next_packet d' = nc_curr (ne_state base s0 l)
    \<and> nc_mem (ne_state base s0 l') = nc_mem (ne_state base s0 l)"
proof -
  let ?s = "ne_state base s0 l"
  from ne_command_state [OF assms(2), of 1 NoDMA True l s0] obtain l1 where
    l1: "ne_command d 1 NoDMA False True l = Some l1" "ne_state base s0 l1 = ?s\<lparr>nc_page := 1\<rparr>" by auto
  have read: "ne_in dv d NE_RX_CURRENT_PAGE l1 = (nc_curr ?s, l1 @ [In8 (base + 7) (nc_curr ?s)])"
    using assms(1,2) l1(2) by (simp add: ne_in_def in8_def is_ne2k_def Let_def ne_regs)
  from ne_command_state [OF assms(2), of 0 NoDMA True "l1 @ [In8 (base + 7) (nc_curr ?s)]" s0] obtain l2 where
    l2: "ne_command d 0 NoDMA False True (l1 @ [In8 (base + 7) (nc_curr ?s)]) = Some l2"
    "ne_state base s0 l2 = ?s\<lparr>nc_page := 0\<rparr>" using l1(2) by auto
  from ne_read_loop_ring [OF assms(1,2), of l2 entries "nc_curr ?s" fuel "[]"] l2(2) assms(4,5) obtain l' where
    "ne_read_loop dv (nc_curr ?s) fuel [] d l2 = Some (good_packets entries, d\<lparr>ne_next_packet := nc_curr ?s\<rparr>, l')"
    "nc_mem (ne_state base s0 l') = nc_mem ?s" by auto
  with l1(1) read l2(1) show ?thesis by (simp add: ne_read_packets_def)
qed

definition demo_card :: Ne2kCard where
  "demo_card = \<lparr>nc_page = 0, nc_addr = 0, nc_mem = (\<lambda>a. if a = 0x7600 then 1 else if a = 0x7601 then 0x40
       else if a = 0x7602 then 7 else if a = 0x7604 then 0xaa else if a = 0x7605 then 0xbb
       else if a = 0x7606 then 0xcc else 0),
     nc_curr = 0x40, nc_isr = 1, nc_tpsr = 0, nc_tbcr0 = 0, nc_tbcr1 = 0, nc_sent = []\<rparr>"

definition demo_ne2k :: Dev where
  "demo_ne2k = \<lparr>dv8 = (\<lambda>l p. let s = ne_state 0x300 demo_card l in if nc_page s = 1 then nc_curr s else nc_isr s),
     dv16 = (\<lambda>l p. let s = ne_state 0x300 demo_card l in
       ucast (nc_mem s (nc_addr s)) OR push_bit 8 (ucast (nc_mem s (nc_addr s + 1)))), dv32 = (\<lambda>_ _. 0)\<rparr>"

theorem ne2k_reads_ring_witness:
  "\<exists>d' l'. ne_read_packets demo_ne2k 2 \<lparr>ne_irq = 9, ne_io_base = 0x300, ne_mac_addr = [], ne_next_packet = 0x76\<rparr> []
      = Some ([[0xaa, 0xbb, 0xcc]], d', l') \<and> ne_next_packet d' = 0x40"
proof -
  have dev: "is_ne2k 0x300 demo_card demo_ne2k" by (simp add: is_ne2k_def demo_ne2k_def Let_def)
  have ring: "ring_holds (nc_mem demo_card) 0x76 [(1, 0x40, [0xaa, 0xbb, 0xcc])] 0x40"
    by (simp add: demo_card_def ring_addr_def ne_page_numbers upt_rec)
  have card: "nc_page demo_card = 0" "nc_curr demo_card = 0x40" by (simp_all add: demo_card_def)
  have good: "good_packets [(1, 0x40, [0xaa, 0xbb, 0xcc])] = [[0xaa, 0xbb, 0xcc]]"
    by (simp add: received_ok_def RS_ERRORS_def)
  from ne2k_reads_ring [OF dev, of "\<lparr>ne_irq = 9, ne_io_base = 0x300, ne_mac_addr = [], ne_next_packet = 0x76\<rparr>" "[]"
      "[(1, 0x40, [0xaa, 0xbb, 0xcc])]" 2] ring
  show ?thesis by (auto simp: ne_state_def card good simp del: ring_holds.simps good_packets.simps)
qed

subsection \<open>Sending\<close>

lemma packet_words_bytes:
  "concat (map word_le_bytes (packet_words packet)) = packet @ (if even (length packet) then [] else [0])"
proof (induction packet rule: packet_words.induct)
  case (2 a)
  have "drop_bit 8 (ucast a :: u16) = 0" by (rule bit_word_eqI) (auto simp: bit_simps dest: bit_imp_le_length)
  moreover have "ucast (ucast a :: u16) = a" by (rule bit_word_eqI) (simp add: bit_simps)
  ultimately show ?case by (simp add: word_le_bytes_def)
qed (simp_all add: word_le_bytes_join)

lemma length_packet_words: "length (packet_words packet) = (length packet + 1) div 2"
  by (induction packet rule: packet_words.induct) simp_all

lemma ne_write_words:
  "nc_addr (ne_state base s0 l) = a \<Longrightarrow> 0x4000 \<le> a \<Longrightarrow> a + 2 * length ws < 0x7700 \<Longrightarrow> nc_page (ne_state base s0 l) = 0 \<Longrightarrow>
   (let s = ne_state base s0 l; s' = ne_state base s0 (fold (out16 (base + NE_REMOTE_DMA)) ws l) in
     nc_mem s' = overwrite a (concat (map word_le_bytes ws)) (nc_mem s) \<and> nc_page s' = 0 \<and> nc_sent s' = nc_sent s
     \<and> (ws \<noteq> [] \<longrightarrow> flags_contain (nc_isr s') IS_REMOTE_DMA_COMPLETE))"
proof (induction ws arbitrary: a l)
  case Nil
  then show ?case by simp
next
  case (Cons w ws)
  let ?s = "ne_state base s0 l" and ?l1 = "out16 (base + NE_REMOTE_DMA) w l"
  have ring: "ring_addr a 2 = a + 2" using Cons.prems by (simp add: ring_addr_def)
  have s1: "ne_state base s0 ?l1 = ?s\<lparr>nc_mem := (nc_mem ?s)(a := ucast w, a + 1 := ucast (drop_bit 8 w)),
      nc_addr := a + 2, nc_isr := nc_isr ?s OR IS_REMOTE_DMA_COMPLETE\<rparr>"
    using Cons.prems(1) ring by (simp add: out16_def NE_REMOTE_DMA_def)
  have "flags_contain (x OR IS_REMOTE_DMA_COMPLETE) IS_REMOTE_DMA_COMPLETE" for x :: u8
    by (simp add: flags_contain_def bit.conj_disj_distrib2)
  moreover have "overwrite a (word_le_bytes w @ xs) (nc_mem ?s)
      = overwrite (a + 2) xs ((nc_mem ?s)(a := ucast w, a + 1 := ucast (drop_bit 8 w)))" for xs
    by (simp add: word_le_bytes_def overwrite_Cons)
  moreover from this [of "[]"] have "overwrite a (word_le_bytes w) (nc_mem ?s)
      = (nc_mem ?s)(a := ucast w, a + 1 := ucast (drop_bit 8 w))" by simp
  ultimately show ?case using Cons.IH [of ?l1 "a + 2"] Cons.prems s1
    by (cases ws) (simp_all add: Let_def)
qed

lemma ne_wait_isr_now:
  assumes "is_ne2k base s0 dv" "ne_io_base d = base" "nc_page (ne_state base s0 l) = 0"
    "flags_contain (nc_isr (ne_state base s0 l)) flag" "0 < fuel"
  shows "\<exists>l'. ne_wait_isr dv d flag fuel l = Some l' \<and> ne_state base s0 l' = ne_state base s0 l"
  using assms by (cases fuel) (simp_all add: ne_read_isr_def ne_in_def in8_def is_ne2k_def Let_def ne_regs)

lemma length_from_bytes: "n < 65536 \<Longrightarrow> unat (of_nat n :: u8) + 256 * unat (of_nat (n div 256) :: u8) = n"
  by (simp add: unat_of_nat take_bit_eq_mod)

text \<open>
  Sending transmits the packet, but the buffer it is put into is the beginning of the receive ring.
\<close>

lemma ne2k_send_overwrites_ring:
  assumes dev: "is_ne2k base s0 dv" "ne_io_base d = base" "nc_page (ne_state base s0 l) = 0"
    and packet: "packet \<noteq> []" "length packet \<le> 1536" and fuel: "0 < fuel"
  shows "\<exists>l'. ne_send dv fuel packet d l = Some l'
    \<and> nc_sent (ne_state base s0 l') = nc_sent (ne_state base s0 l) @ [packet]
    \<and> (\<forall>k<length packet. nc_mem (ne_state base s0 l') (256 * unat NE_PSTART + k) = packet ! k)"
proof -
  let ?n = "length packet" and ?s = "ne_state base s0 l"
  define l1 where "l1 = ne_out d NE_W_RSAR1 0x40 (ne_out d NE_W_RSAR0 0
    (ne_out d NE_W_RBCR1 (of_nat (?n div 256)) (ne_out d NE_W_RBCR0 (of_nat ?n) l)))"
  have s1: "nc_addr (ne_state base s0 l1) = 0x4000" "nc_page (ne_state base s0 l1) = 0"
    "nc_sent (ne_state base s0 l1) = nc_sent ?s"
    using dev(2,3) by (simp_all add: l1_def ne_regs)
  obtain l2 where l2: "ne_command d 0 RemoteWrite False True l1 = Some l2"
    "ne_state base s0 l2 = (ne_state base s0 l1)\<lparr>nc_page := 0\<rparr>"
    using ne_command_state [OF dev(2), of 0 RemoteWrite True l1 s0] by auto
  let ?ws = "packet_words packet"
  define l3 where "l3 = fold (out16 (base + NE_REMOTE_DMA)) ?ws l2"
  have ws: "?ws \<noteq> []" "2 * length ?ws \<le> 1538"
    using packet(1) apply (cases packet rule: packet_words.cases; simp)
    using packet(2) unfolding length_packet_words by linarith
  have s3: "nc_mem (ne_state base s0 l3) = overwrite 0x4000 (concat (map word_le_bytes ?ws)) (nc_mem (ne_state base s0 l2))"
    "nc_page (ne_state base s0 l3) = 0" "nc_sent (ne_state base s0 l3) = nc_sent ?s"
    "flags_contain (nc_isr (ne_state base s0 l3)) IS_REMOTE_DMA_COMPLETE"
    using ne_write_words [of base s0 l2 "0x4000" ?ws] l2(2) s1 ws by (simp_all add: l3_def Let_def)
  obtain l4 where l4: "ne_wait_isr dv d IS_REMOTE_DMA_COMPLETE fuel l3 = Some l4" "ne_state base s0 l4 = ne_state base s0 l3"
    using ne_wait_isr_now [OF dev(1,2) s3(2,4) fuel] by blast
  have data: "nc_mem (ne_state base s0 l4) (0x4000 + k) = packet ! k" if "k < ?n" for k
    using that by (simp add: l4(2) s3(1) packet_words_bytes overwrite_def nth_append)
  define l5 where "l5 = ne_out d NE_W_TBCR1 (of_nat (?n div 256)) (ne_out d NE_W_TBCR0 (of_nat ?n) (ne_out d NE_W_TPSR 0x40 l4))"
  let ?s5 = "ne_state base s0 l5"
  have s5: "?s5 = (ne_state base s0 l4)\<lparr>nc_tpsr := 0x40, nc_tbcr0 := of_nat ?n, nc_tbcr1 := of_nat (?n div 256)\<rparr>"
    using dev(2) s3(2) l4(2) by (simp add: l5_def ne_regs)
  have tx: "ne_cmd 0 NoDMA True True = Some 0x26" by (simp add: ne_cmd_def)
  define l6 where "l6 = ne_out d NE_CMD 0x26 l5"
  have "map (\<lambda>i. nc_mem (ne_state base s0 l4) (0x4000 + i)) [0..<?n] = packet"
    using data by (intro nth_equalityI) simp_all
  then have s6: "ne_state base s0 l6 = ?s5\<lparr>nc_page := 0, nc_isr := nc_isr ?s5 OR IS_TX_OK, nc_sent := nc_sent ?s @ [packet]\<rparr>"
    using dev(2) s3(3) l4(2) length_from_bytes [of ?n] packet(2) by (simp add: l6_def ne_regs s5)
  have "flags_contain (x OR IS_TX_OK) IS_TX_OK" for x :: u8
    by (simp add: flags_contain_def bit.conj_disj_distrib2)
  then obtain l7 where l7: "ne_wait_isr dv d IS_TX_OK fuel l6 = Some l7" "ne_state base s0 l7 = ne_state base s0 l6"
    using ne_wait_isr_now [OF dev(1,2), of l6 IS_TX_OK fuel] s6 fuel by auto
  have "ne_send dv fuel packet d l = Some (ne_clear_isr d (IS_REMOTE_DMA_COMPLETE OR IS_TX_OK) l7)"
    unfolding ne_send_def Let_def l1_def [symmetric]
    using l2(1) l4(1) l7(1) tx dev(2) by (simp add: l3_def [symmetric] l5_def [symmetric] l6_def [symmetric] ne_command_def)
  moreover have "256 * unat NE_PSTART = 0x4000" by (simp add: ne_page_numbers)
  ultimately show ?thesis using l7(2) s6 s5 data dev(2)
    by (simp add: ne_clear_isr_def ne_regs)
qed

text \<open>An interrupt for a single error is never cleared: the driver polls for ever.\<close>

lemma ne2k_error_hangs:
  assumes "is_ne2k base s0 dv" "ne_io_base d = base" "nc_page (ne_state base s0 l) = 0" "nc_isr (ne_state base s0 l) = 0x04"
  shows "ne_notify_irq dv fuel result d l = None"
  using assms(3,4)
proof (induction fuel arbitrary: l)
  case (Suc fuel)
  then have "ne_read_isr dv d l = (0x04, l @ [In8 (base + 7) 0x04])"
    using assms(1,2) by (simp add: ne_read_isr_def ne_in_def in8_def is_ne2k_def Let_def ne_regs)
  with Suc show ?case by (simp add: flags_contain_def IS_ERRORS_def)
qed simp

end
