(* ===== verification/Rtl8139.thy ===== *)
theory Rtl8139
  imports Ne2k
begin

text \<open>
  The driver of RTL8139 network cards (\<open>driver_rtl8139/src/rtl8139.rs\<close>, \<open>dma.rs\<close> and the loop of
  \<open>lib.rs\<close>). The card is a parameter, and so is the content of the receive buffer, \<open>rx\<close>, which
  the card writes: it depends on the history of port operations. The transmit buffers are
  memory of the driver. Polling loops have fuel; a call that panics, reaches a \<open>todo!\<close> or
  uses up its fuel is \<open>None\<close>. Arithmetic wraps.
\<close>

unbundle bit_operations_syntax

subsection \<open>Registers and constants\<close>

definition RL_MAC :: u16 where "RL_MAC = 0x00"
definition RL_MAR0 :: u16 where "RL_MAR0 = 0x08"
definition RL_MAR4 :: u16 where "RL_MAR4 = 0x12"
definition RL_TXSTATUS0 :: u16 where "RL_TXSTATUS0 = 0x10"
definition RL_TXADDR0 :: u16 where "RL_TXADDR0 = 0x20"
definition RL_RXBUF :: u16 where "RL_RXBUF = 0x30"
definition RL_COMMAND :: u16 where "RL_COMMAND = 0x37"
definition RL_CAPR :: u16 where "RL_CAPR = 0x38"
definition RL_IMR :: u16 where "RL_IMR = 0x3C"
definition RL_ISR :: u16 where "RL_ISR = 0x3E"
definition RL_TXCFG :: u16 where "RL_TXCFG = 0x40"
definition RL_RXCFG :: u16 where "RL_RXCFG = 0x44"
definition RL_MPC :: u16 where "RL_MPC = 0x4C"
definition RL_CFG9346 :: u16 where "RL_CFG9346 = 0x50"
definition RL_CONFIG1 :: u16 where "RL_CONFIG1 = 0x52"
definition RL_MSR :: u16 where "RL_MSR = 0x58"
definition RL_BMCR :: u16 where "RL_BMCR = 0x62"

lemmas rl_regs = RL_MAC_def RL_MAR0_def RL_MAR4_def RL_TXSTATUS0_def RL_TXADDR0_def RL_RXBUF_def
  RL_COMMAND_def RL_CAPR_def RL_IMR_def RL_ISR_def RL_TXCFG_def RL_RXCFG_def RL_MPC_def RL_CFG9346_def
  RL_CONFIG1_def RL_MSR_def RL_BMCR_def

definition TX_OWN :: u32 where "TX_OWN = 0x2000"

abbreviation CMD_TX_ENABLE :: u8 where "CMD_TX_ENABLE \<equiv> 0x04"
abbreviation CMD_RX_ENABLE :: u8 where "CMD_RX_ENABLE \<equiv> 0x08"
abbreviation CMD_RESET :: u8 where "CMD_RESET \<equiv> 0x10"

text \<open>Interrupt flags and receive flags, as sets of bits.\<close>

definition IF_ALL_SUPPORTED :: u16 where
  "IF_ALL_SUPPORTED = 0x01 OR 0x02 OR 0x04 OR 0x08 OR 0x10 OR 0x20 OR 0x40 OR 0x2000 OR 0x8000"

definition RX_ALL_FLAGS :: u16 where
  "RX_ALL_FLAGS = 0x8000 OR 0x4000 OR 0x2000 OR 0x20 OR 0x10 OR 0x08 OR 0x04 OR 0x02 OR 0x01"

definition RX_ALL_ERRORS :: u16 where "RX_ALL_ERRORS = 0x20 OR 0x04 OR 0x02"

definition PACKET_SIZE_MAX :: nat where "PACKET_SIZE_MAX = 0x600"
definition PACKET_SIZE_MIN :: nat where "PACKET_SIZE_MIN = 0x16"
definition RX_BUFFER_SIZE :: nat where "RX_BUFFER_SIZE = 32768"
definition TX_BUFFER_SIZE :: nat where "TX_BUFFER_SIZE = PACKET_SIZE_MAX"
definition TX_BUFFER_COUNT :: nat where "TX_BUFFER_COUNT = 4"

subsection \<open>Driver state (rtl8139.rs, dma.rs)\<close>

record RtlDriver =
  rl_irq :: u8
  rl_io_base :: u16
  rl_rx_phys :: u64
  rl_rx_offset :: nat
  rl_tx :: "(u64 \<times> bytes) list"
  rl_tx_next :: nat

text \<open>
  \<open>DMARegion::allocate\<close>: the \<open>dma_allocate\<close> system call gives the physical address; the first
  allocation also maps as many bytes of physical memory, from address 0. Both system calls are
  parameters.
\<close>

definition dma_region :: "(nat \<Rightarrow> 's \<Rightarrow> (u64 \<times> 's) option) \<Rightarrow> (nat \<Rightarrow> 's \<Rightarrow> 's option) \<Rightarrow> nat \<Rightarrow> bool \<times> 's
    \<Rightarrow> (u64 \<times> bool \<times> 's) option" where
  "dma_region dma_allocate mmap_from_zero size_bytes ms = (case ms of (mapped, s) \<Rightarrow> do {
     (phys, s) \<leftarrow> dma_allocate size_bytes s;
     s \<leftarrow> (if \<not> mapped then mmap_from_zero size_bytes s else Some s);
     Some (phys, True, s)
   })"

fun dma_regions_of :: "(nat \<Rightarrow> 's \<Rightarrow> (u64 \<times> 's) option) \<Rightarrow> (nat \<Rightarrow> 's \<Rightarrow> 's option) \<Rightarrow> nat \<Rightarrow> nat \<Rightarrow> bool \<times> 's
    \<Rightarrow> (u64 list \<times> bool \<times> 's) option" where
  "dma_regions_of dma_allocate mmap_from_zero size_bytes 0 ms = Some ([], ms)"
| "dma_regions_of dma_allocate mmap_from_zero size_bytes (Suc n) ms = do {
     (phys, ms) \<leftarrow> dma_region dma_allocate mmap_from_zero size_bytes ms;
     (physs, ms) \<leftarrow> dma_regions_of dma_allocate mmap_from_zero size_bytes n ms;
     Some (phys # physs, ms)
   }"

fun rl_reset_wait :: "Dev \<Rightarrow> u16 \<Rightarrow> nat \<Rightarrow> io_log \<Rightarrow> io_log option" where
  "rl_reset_wait dv base 0 l = None"
| "rl_reset_wait dv base (Suc fuel) l =
     (let (v, l) = in8 dv (base + RL_COMMAND) l in
      if v AND CMD_RESET \<noteq> 0 then rl_reset_wait dv base fuel l else Some l)"

definition rl_reset :: "Dev \<Rightarrow> nat \<Rightarrow> RtlDriver \<Rightarrow> io_log \<Rightarrow> (RtlDriver \<times> io_log) option" where
  "rl_reset dv fuel d l = do {
     let d = d\<lparr>rl_rx_offset := 0, rl_tx_next := 0\<rparr>;
     let base = rl_io_base d;
     let l = out8 (base + RL_COMMAND) CMD_RESET l;
     l \<leftarrow> rl_reset_wait dv base fuel l;
     let l = out8 (base + RL_CFG9346) (0x40 OR 0x80) l;
     let l = out8 (base + RL_CONFIG1) 0 l;
     let l = out32 (base + RL_MAR0) 0xffffffff l;
     let l = out32 (base + RL_MAR4) 0xffffffff l;
     let l = out8 (base + RL_COMMAND) (CMD_RX_ENABLE OR CMD_TX_ENABLE) l;
     let l = out32 (base + RL_RXBUF) (ucast (rl_rx_phys d)) l;
     let l = out8 (base + RL_MPC) 0 l;
     let l = out16 (base + RL_BMCR) (0x2000 OR 0x1000 OR 0x0100) l;
     let l = out8 (base + RL_MSR) 0x40 l;
     let l = out32 (base + RL_RXCFG) (0x02 OR 0x04 OR 0x08 OR 0x80 OR 0x0700 OR 0x1000 OR 0xE000) l;
     let l = out32 (base + RL_TXCFG) (0x00 OR 0x600 OR 0x3000000) l;
     let l = fold (\<lambda>i l. out32 (base + RL_TXADDR0 + of_nat i * 4) (ucast (fst (rl_tx d ! i))) l)
       [0..<length (rl_tx d)] l;
     let l = out8 (base + RL_CFG9346) 0 l;
     let l = out8 (base + RL_COMMAND) (CMD_RX_ENABLE OR CMD_TX_ENABLE) l;
     let l = out16 (base + RL_IMR) IF_ALL_SUPPORTED l;
     let l = out16 (base + RL_ISR) 0xffff l;
     Some (d, l)
   }"

text \<open>The contents of the buffers before the first packet are those the memory has.\<close>

definition rl_new ::
  "Dev \<Rightarrow> nat \<Rightarrow> (nat \<Rightarrow> 's \<Rightarrow> (u64 \<times> 's) option) \<Rightarrow> (nat \<Rightarrow> 's \<Rightarrow> 's option) \<Rightarrow> (u64 \<Rightarrow> bytes) \<Rightarrow> PciDevice
    \<Rightarrow> bool \<times> 's \<Rightarrow> io_log \<Rightarrow> (RtlDriver \<times> (bool \<times> 's) \<times> io_log) option" where
  "rl_new dv fuel dma_allocate mmap_from_zero contents pci_device ms l = do {
     rassert (fst (pd_class pci_device) = 2 \<and> fst (snd (pd_class pci_device)) = 0);
     l \<leftarrow> enable_bus_mastering dv pci_device l;
     (rx_phys, ms) \<leftarrow> dma_region dma_allocate mmap_from_zero (RX_BUFFER_SIZE + PACKET_SIZE_MAX) ms;
     (tx_phys, ms) \<leftarrow> dma_regions_of dma_allocate mmap_from_zero TX_BUFFER_SIZE TX_BUFFER_COUNT ms;
     (line, l) \<leftarrow> get_interrupt_line dv pci_device l;
     irq \<leftarrow> line;
     (bar0, l) \<leftarrow> get_bar dv pci_device 0 l;
     (d, l) \<leftarrow> rl_reset dv fuel \<lparr>rl_irq = irq, rl_io_base = ucast (bar0 AND NOT 1), rl_rx_phys = rx_phys, rl_rx_offset = 0,
       rl_tx = map (\<lambda>phys. (phys, contents phys)) tx_phys, rl_tx_next = 0\<rparr> l;
     Some (d, ms, l)
   }"

subsection \<open>Receiving\<close>

definition rx_u16 :: "(nat \<Rightarrow> u8) \<Rightarrow> nat \<Rightarrow> u16" where
  "rx_u16 mem a = ucast (mem a) OR push_bit 8 (ucast (mem (a + 1)))"

definition rl_receive ::
  "(io_log \<Rightarrow> nat \<Rightarrow> u8) \<Rightarrow> RtlDriver \<Rightarrow> io_log \<Rightarrow> (bytes option \<times> RtlDriver \<times> io_log) option" where
  "rl_receive rx d l = do {
     let mem = rx l;
     let start = rl_rx_offset d;
     let status = rx_u16 mem start AND RX_ALL_FLAGS;
     let length = rx_u16 mem (start + 2);
     (if status = 0 then Some (None, d, l)
      else do {
        rassert (status AND 1 = 1);
        rassert (\<not> (unat length < PACKET_SIZE_MIN \<or> unat length \<ge> PACKET_SIZE_MAX));
        rassert (status AND RX_ALL_ERRORS = 0);
        let packet_len = unat (length - 4);
        let packet_buffer = map (\<lambda>i. mem (start + 4 + i)) [0..<packet_len];
        let nic_rx_offset = ((of_nat start + length + 4 + 3) AND NOT 3) mod (of_nat RX_BUFFER_SIZE :: u16);
        let l = out16 (rl_io_base d + RL_CAPR) (of_nat start - 0x10) l;
        let d = d\<lparr>rl_rx_offset := unat (nic_rx_offset mod (of_nat RX_BUFFER_SIZE))\<rparr>;
        Some (Some packet_buffer, d, l)
      })
   }"

subsection \<open>Sending\<close>

fun rl_select_from :: "Dev \<Rightarrow> RtlDriver \<Rightarrow> nat list \<Rightarrow> io_log \<Rightarrow> nat option \<times> io_log" where
  "rl_select_from dv d [] l = (None, l)"
| "rl_select_from dv d (i # rest) l =
     (let potential_buffer = (rl_tx_next d + i) mod 4;
          (status, l) = in32 dv (rl_io_base d + RL_TXSTATUS0 + of_nat potential_buffer * 4) l
      in if status AND TX_OWN \<noteq> 0 then (Some potential_buffer, l) else rl_select_from dv d rest l)"

definition rl_select_buffer :: "Dev \<Rightarrow> RtlDriver \<Rightarrow> io_log \<Rightarrow> nat option \<times> io_log" where
  "rl_select_buffer dv d l = rl_select_from dv d [0..<TX_BUFFER_COUNT] l"

definition rl_send :: "Dev \<Rightarrow> bytes \<Rightarrow> RtlDriver \<Rightarrow> io_log \<Rightarrow> (RtlDriver \<times> io_log) option" where
  "rl_send dv packet d l = do {
     rassert (\<not> length packet > PACKET_SIZE_MAX);
     let (buffer, l) = rl_select_buffer dv d l;
     buffer_index \<leftarrow> buffer;
     let d = d\<lparr>rl_tx_next := (buffer_index + 1) mod 4\<rparr>;
     (phys, _) \<leftarrow> index (rl_tx d) buffer_index;
     let d = d\<lparr>rl_tx := (rl_tx d)[buffer_index := (phys, packet @ replicate (TX_BUFFER_SIZE - length packet) 0)]\<rparr>;
     let l = out32 (rl_io_base d + RL_TXSTATUS0 + of_nat buffer_index * 4) (of_nat (max (length packet) 60)) l;
     Some (d, l)
   }"

subsection \<open>Interrupts\<close>

fun rl_irq_loop :: "Dev \<Rightarrow> (io_log \<Rightarrow> nat \<Rightarrow> u8) \<Rightarrow> nat \<Rightarrow> u16 \<Rightarrow> bytes list \<Rightarrow> RtlDriver \<Rightarrow> io_log
    \<Rightarrow> (bytes list \<times> RtlDriver \<times> io_log) option" where
  "rl_irq_loop dv rx 0 status packets d l = None"
| "rl_irq_loop dv rx (Suc fuel) status packets d l =
     (if status AND IF_ALL_SUPPORTED = 0 then Some (packets, d, l)
      else do {
        (packets, d, l) \<leftarrow> (if bit status 0
          then do {
            (packet, d, l) \<leftarrow> rl_receive rx d l;
            Some (packets @ (case packet of Some p \<Rightarrow> [p] | None \<Rightarrow> []), d, l)
          } else Some (packets, d, l));
        rassert (\<not> bit status 1);
        rassert (\<not> bit status 3);
        rassert (\<not> bit status 5);
        rassert (\<not> bit status 15);
        let (val, l) = in16 dv (rl_io_base d + RL_ISR) l;
        let l = out16 (rl_io_base d + RL_ISR) val l;
        rl_irq_loop dv rx fuel (val AND IF_ALL_SUPPORTED) packets d l
      })"

definition rl_notify_irq ::
  "Dev \<Rightarrow> (io_log \<Rightarrow> nat \<Rightarrow> u8) \<Rightarrow> nat \<Rightarrow> RtlDriver \<Rightarrow> io_log \<Rightarrow> (bytes list \<times> RtlDriver \<times> io_log) option" where
  "rl_notify_irq dv rx fuel d l =
     (let (status, l) = in16 dv (rl_io_base d + RL_ISR) l
      in rl_irq_loop dv rx fuel (status AND IF_ALL_SUPPORTED) [] d l)"

definition rl_mac_addr :: "Dev \<Rightarrow> RtlDriver \<Rightarrow> io_log \<Rightarrow> bytes \<times> io_log" where
  "rl_mac_addr dv d l = fold (\<lambda>i (mac, l). let (b, l) = in8 dv (rl_io_base d + RL_MAC + of_nat i) l in (mac @ [b], l))
     [0..<6] ([], l)"

text \<open>The handling of one event by the loop of the driver (\<open>lib.rs\<close>).\<close>

definition rl_handle :: "Dev \<Rightarrow> (io_log \<Rightarrow> nat \<Rightarrow> u8) \<Rightarrow> nat \<Rightarrow> NicEvent \<Rightarrow> RtlDriver \<Rightarrow> io_log
    \<Rightarrow> (NicOutput list \<times> RtlDriver \<times> io_log) option" where
  "rl_handle dv rx fuel ev d l = (case ev of
       NicIrq \<Rightarrow> do {
         (received_packets, d, l) \<leftarrow> rl_notify_irq dv rx fuel d l;
         Some (map NicReceived received_packets, d, l)
       }
     | NicGetMac \<Rightarrow> (let (mac, l) = rl_mac_addr dv d l in Some ([NicMac mac], d, l))
     | NicSend packet \<Rightarrow> do {
         (d, l) \<leftarrow> rl_send dv packet d l;
         Some ([], d, l)
       })"

subsection \<open>What is received\<close>

text \<open>A packet in the receive buffer: flags, length with checksum, data.\<close>

definition rx_holds :: "(nat \<Rightarrow> u8) \<Rightarrow> nat \<Rightarrow> u16 \<Rightarrow> bytes \<Rightarrow> bool" where
  "rx_holds mem a flags dat \<longleftrightarrow> rx_u16 mem a = flags \<and> rx_u16 mem (a + 2) = of_nat (length dat + 4)
     \<and> (\<forall>i<length dat. mem (a + 4 + i) = dat ! i)"

definition rx_good :: "u16 \<Rightarrow> bytes \<Rightarrow> bool" where
  "rx_good flags dat \<longleftrightarrow> bit flags 0 \<and> flags AND RX_ALL_ERRORS = 0
     \<and> PACKET_SIZE_MIN \<le> length dat + 4 \<and> length dat + 4 < PACKET_SIZE_MAX"

definition rx_next :: "nat \<Rightarrow> nat \<Rightarrow> nat" where
  "rx_next a n = (a + n + 4 + 4 + 3) div 4 * 4 mod 32768"

lemma and_not_3: "unat (x AND NOT 3 :: u16) = unat x div 4 * 4"
proof -
  have "x AND NOT 3 = push_bit 2 (drop_bit 2 x)"
  proof -
    have "Suc (Suc (n - 2)) = n" if "2 \<le> n" for n using that by simp
    then have "x AND NOT (mask 2) = push_bit 2 (drop_bit 2 x)"
      by (intro bit_word_eqI) (auto simp: bit_simps not_less)
    then show ?thesis by (simp add: mask_eq_exp_minus_1)
  qed
  moreover have "unat x div 4 * 4 < 65536" using unsigned_less [of x, where 'a = nat] by simp
  ultimately show ?thesis
    by (simp add: unsigned_push_bit_eq unsigned_drop_bit_eq take_bit_nat_eq_self_iff)
      (simp add: push_bit_eq_mult drop_bit_eq_div take_bit_eq_mod)
qed

lemma rl_receive_packet:
  assumes "rx_holds (rx l) (rl_rx_offset d) flags dat" "rx_good flags dat" "rl_rx_offset d < 32768"
  shows "rl_receive rx d l = Some (Some dat, d\<lparr>rl_rx_offset := rx_next (rl_rx_offset d) (length dat)\<rparr>,
    l @ [Out16 (rl_io_base d + RL_CAPR) (of_nat (rl_rx_offset d) - 0x10)])"
proof -
  let ?a = "rl_rx_offset d" and ?n = "length dat"
  let ?w = "of_nat ?a + of_nat (?n + 4) + 4 + 3 :: u16"
  have h: "rx_u16 (rx l) ?a = flags" "rx_u16 (rx l) (?a + 2) = of_nat (?n + 4)"
    "\<And>i. i < ?n \<Longrightarrow> rx l (?a + 4 + i) = dat ! i" using assms(1) by (simp_all add: rx_holds_def)
  have g: "bit flags 0" "flags AND RX_ALL_ERRORS = 0" "PACKET_SIZE_MIN \<le> ?n + 4" "?n + 4 < PACKET_SIZE_MAX"
    using assms(2) by (simp_all add: rx_good_def)
  have n: "unat (of_nat (?n + 4) :: u16) = ?n + 4" "unat (of_nat (?n + 4) - 4 :: u16) = ?n"
    using g(4) by (simp_all add: PACKET_SIZE_MAX_def unat_of_nat take_bit_eq_mod del: of_nat_add)
      (simp add: unat_of_nat take_bit_eq_mod)
  have b0: "bit (flags AND RX_ALL_FLAGS) 0" using g(1) by (simp add: RX_ALL_FLAGS_def bit_simps)
  have st: "flags AND RX_ALL_FLAGS \<noteq> 0" "(flags AND RX_ALL_FLAGS) AND 1 = 1"
    using b0 by (auto simp del: bit_0) (simp add: and_one_eq bit_0 odd_iff_mod_2_eq_one)
  have er: "(flags AND RX_ALL_FLAGS) AND RX_ALL_ERRORS = 0"
    using g(2) by (metis and.assoc and.commute and_zero_eq)
  have w: "unat ?w = ?a + ?n + 4 + 4 + 3"
  proof -
    have "?w = of_nat (?a + ?n + 4 + 4 + 3)" by simp
    moreover have "?a + ?n + 4 + 4 + 3 < 65536" using assms(3) g(4) by (simp add: PACKET_SIZE_MAX_def)
    ultimately show ?thesis by (simp add: unat_of_nat take_bit_eq_mod del: of_nat_add)
  qed
  have off: "unat ((?w AND NOT 3) mod of_nat RX_BUFFER_SIZE mod of_nat RX_BUFFER_SIZE) = rx_next ?a ?n"
  proof -
    obtain x where x: "x = ?w AND NOT 3" by blast
    then have "unat x = (?a + ?n + 4 + 4 + 3) div 4 * 4" by (simp only: and_not_3 w)
    then show ?thesis unfolding x [symmetric] by (simp add: unat_mod_distrib rx_next_def RX_BUFFER_SIZE_def)
  qed
  have dat: "map (\<lambda>i. rx l (?a + 4 + i)) [0..<?n] = dat"
    using h(3) by (intro nth_equalityI) simp_all
  show ?thesis
    unfolding rl_receive_def Let_def h(1,2) n
    using st er g(3,4) off dat by (simp add: out16_def n del: of_nat_add)
qed

text \<open>
  The driver tells the card that it has read up to the packet it has just read, not past it: the
  value written is the old position. And it looks for a packet once for each time the interrupt status is
  read as set, which is twice for an interrupt.
\<close>

lemma rtl_reads_twice:
  assumes "dv16 dv l (rl_io_base d + RL_ISR) = 1"
    and "rl_receive rx d (l @ [In16 (rl_io_base d + RL_ISR) 1]) = Some (p1, d1, l1)" "rl_io_base d1 = rl_io_base d"
    and "dv16 dv l1 (rl_io_base d + RL_ISR) = 1"
    and "rl_receive rx d1 (l1 @ [In16 (rl_io_base d + RL_ISR) 1, Out16 (rl_io_base d + RL_ISR) 1]) = Some (p2, d2, l2)"
    and "rl_io_base d2 = rl_io_base d" "dv16 dv l2 (rl_io_base d + RL_ISR) = 0"
  shows "\<exists>l'. rl_notify_irq dv rx (Suc (Suc (Suc fuel))) d l
    = Some ((case p1 of Some p \<Rightarrow> [p] | None \<Rightarrow> []) @ (case p2 of Some p \<Rightarrow> [p] | None \<Rightarrow> []), d2, l')"
proof -
  have bits: "\<not> bit (1 :: u16) n" if "n \<noteq> 0" for n using that by (simp add: bit_1_iff)
  have "(1 :: u16) AND IF_ALL_SUPPORTED = 1" by (simp add: IF_ALL_SUPPORTED_def)
  with assms show ?thesis
    by (simp add: rl_notify_irq_def in16_def out16_def Let_def bits bit_1_iff)
qed

subsection \<open>What is sent\<close>

lemma rl_select_from_first:
  assumes "\<And>l i. i < 4 \<Longrightarrow> dv32 dv l (rl_io_base d + RL_TXSTATUS0 + of_nat i * 4) AND TX_OWN \<noteq> 0 \<longleftrightarrow> own i"
  shows "\<exists>l'. rl_select_from dv d is l = (map_option (\<lambda>i. (rl_tx_next d + i) mod 4)
      (find (\<lambda>i. own ((rl_tx_next d + i) mod 4)) is), l') \<and> outputs l' = outputs l"
proof (induction "is" arbitrary: l)
  case Nil
  then show ?case by simp
next
  case (Cons i "is")
  let ?b = "(rl_tx_next d + i) mod 4"
  show ?case
  proof (cases "own ?b")
    case True
    with assms [of ?b l] show ?thesis by (simp add: in32_def Let_def)
  next
    case False
    let ?p = "rl_io_base d + RL_TXSTATUS0 + of_nat ?b * 4"
    have "outputs (l @ [In32 ?p (dv32 dv l ?p)]) = outputs l" by simp
    with False assms [of ?b l] Cons.IH [of "l @ [In32 ?p (dv32 dv l ?p)]"] show ?thesis by (simp add: in32_def Let_def)
  qed
qed

text \<open>C29: The RTL8139 driver sends a packet through the first free transmit buffer after the one
  used last. It panics exactly when the packet is longer than a buffer or the card still
  owns all four; otherwise the only register written is the status of that buffer, with the
  length padded to 60, the frame the card reads there is the packet followed by zeros, and the other buffers are unchanged.\<close>

theorem rtl8139_send_exact:
  assumes "\<And>l i. i < 4 \<Longrightarrow> dv32 dv l (rl_io_base d + RL_TXSTATUS0 + of_nat i * 4) AND TX_OWN \<noteq> 0 \<longleftrightarrow> own i"
    and "length (rl_tx d) = 4"
  shows "case find (\<lambda>i. own ((rl_tx_next d + i) mod 4)) [0..<4] of
      None \<Rightarrow> rl_send dv packet d l = None
    | Some k \<Rightarrow> if length packet > 0x600 then rl_send dv packet d l = None
        else \<exists>d' l' b. b = (rl_tx_next d + k) mod 4 \<and> rl_send dv packet d l = Some (d', l')
          \<and> outputs l' = outputs l @ [Out32 (rl_io_base d + RL_TXSTATUS0 + of_nat b * 4) (of_nat (max (length packet) 60))]
          \<and> rl_tx_next d' = (b + 1) mod 4 \<and> length (rl_tx d') = 4
          \<and> take (max (length packet) 60) (snd (rl_tx d' ! b)) = packet @ replicate (60 - length packet) 0
          \<and> (\<forall>i<4. i \<noteq> b \<longrightarrow> rl_tx d' ! i = rl_tx d ! i)"
proof -
  obtain l1 where sel: "rl_select_buffer dv d l = (map_option (\<lambda>i. (rl_tx_next d + i) mod 4)
      (find (\<lambda>i. own ((rl_tx_next d + i) mod 4)) [0..<4]), l1)" and l1: "outputs l1 = outputs l"
    using rl_select_from_first [of dv d own, OF assms(1)] by (fastforce simp: rl_select_buffer_def TX_BUFFER_COUNT_def)
  show ?thesis
  proof (cases "find (\<lambda>i. own ((rl_tx_next d + i) mod 4)) [0..<4]")
    case None
    with sel show ?thesis by (simp add: rl_send_def del: upt_rec_numeral)
  next
    case (Some k)
    let ?b = "(rl_tx_next d + k) mod 4"
    have b: "?b < length (rl_tx d)" using assms(2) by simp
    have pad: "take (max (length packet) 60) (packet @ replicate (0x600 - length packet) 0)
        = packet @ replicate (60 - length packet) (0 :: u8)" if "length packet \<le> 0x600"
      using that by (auto simp: max_def min_def take_replicate)
    show ?thesis
    proof (cases "length packet > 0x600")
      case True
      with Some show ?thesis by (simp add: rl_send_def PACKET_SIZE_MAX_def del: upt_rec_numeral)
    next
      case False
      obtain phys old where "rl_tx d ! ?b = (phys, old)" by (cases "rl_tx d ! ?b")
      with False b sel Some have send: "rl_send dv packet d l = Some (d\<lparr>rl_tx_next := (?b + 1) mod 4,
          rl_tx := (rl_tx d)[?b := (phys, packet @ replicate (0x600 - length packet) 0)]\<rparr>,
          l1 @ [Out32 (rl_io_base d + RL_TXSTATUS0 + of_nat ?b * 4) (of_nat (max (length packet) 60))])"
        by (simp add: rl_send_def PACKET_SIZE_MAX_def TX_BUFFER_SIZE_def index_def out32_def del: upt_rec_numeral)
      with Some False b pad l1 assms(2) show ?thesis by (auto simp del: upt_rec_numeral)
    qed
  qed
qed

definition demo_rtl :: RtlDriver where
  "demo_rtl = \<lparr>rl_irq = 11, rl_io_base = 0xc000, rl_rx_phys = 0, rl_rx_offset = 0, rl_tx = replicate 4 (0, []), rl_tx_next = 3\<rparr>"

definition demo_rtl_card :: Dev where
  "demo_rtl_card = \<lparr>dv8 = (\<lambda>_ _. 0), dv16 = (\<lambda>_ _. 0), dv32 = (\<lambda>_ p. if p = 0xc014 then 0x2000 else 0)\<rparr>"

theorem rtl8139_send_exact_witness:
  "\<exists>d' l'. rl_send demo_rtl_card [1, 2] demo_rtl [] = Some (d', l')
    \<and> outputs l' = [Out32 0xc014 60] \<and> rl_tx_next d' = 2
    \<and> take 60 (snd (rl_tx d' ! 1)) = [1, 2] @ replicate 58 0"
proof -
  have own: "i < 4 \<Longrightarrow> dv32 demo_rtl_card l (rl_io_base demo_rtl + RL_TXSTATUS0 + of_nat i * 4) AND TX_OWN \<noteq> 0 \<longleftrightarrow> i = 1"
    for l and i :: nat
  proof -
    assume "i < 4"
    then consider "i = 0" | "i = 1" | "i = 2" | "i = 3" by linarith
    then show ?thesis by cases (simp_all add: demo_rtl_card_def demo_rtl_def TX_OWN_def RL_TXSTATUS0_def)
  qed
  have first: "find (\<lambda>i. (rl_tx_next demo_rtl + i) mod 4 = 1) [0..<4] = Some 2" by code_simp
  from rtl8139_send_exact [of demo_rtl_card demo_rtl "\<lambda>i. i = 1" "[1, 2]" "[]", OF own] show ?thesis
    unfolding first by (auto simp: demo_rtl_def RL_TXSTATUS0_def)
qed

end
