(* ===== verification/UserHeap.thy ===== *)
theory UserHeap
  imports Prelude
begin

text \<open>
  The heap of user processes (\<open>libs/libd7/src/allocator.rs\<close>): an allocator that hands out
  memory linearly and asks the kernel for more. The system call \<open>mem_alloc\<close>, the start of
  the dynamic memory (a generated constant) and the address constructor of the crate \<open>x86_64\<close> are
  parameters. Arithmetic wraps; a panic is \<open>None\<close>.
\<close>

unbundle bit_operations_syntax

subsection \<open>Alignment\<close>

definition is_power_of_two :: "u64 \<Rightarrow> bool" where
  "is_power_of_two a \<longleftrightarrow> a \<noteq> 0 \<and> a AND (a - 1) = 0"

definition heap_align_down :: "u64 \<Rightarrow> u64 \<Rightarrow> u64 option" where
  "heap_align_down addr align =
     (if is_power_of_two align then Some (addr AND NOT (align - 1))
      else if align = 0 then Some addr
      else None)"

definition heap_align_up :: "u64 \<Rightarrow> u64 \<Rightarrow> u64 option" where
  "heap_align_up addr align = heap_align_down (addr + align - 1) align"

definition next_multiple_of :: "u64 \<Rightarrow> u64 \<Rightarrow> u64" where
  "next_multiple_of a n = (if a mod n = 0 then a else a + (n - a mod n))"

subsection \<open>The allocator\<close>

record BlockAllocator =
  ba_used_bytes :: u64
  ba_capacity_bytes :: u64
  ba_waterline :: u64

record HeapLayout =
  hl_size :: u64
  hl_align :: u64

record 's HeapEnv =
  he_base :: u64
  he_virt_new :: "u64 \<Rightarrow> u64 option"
  he_mem_alloc :: "u64 \<Rightarrow> u64 \<Rightarrow> 's \<Rightarrow> bool \<times> 's"

definition ba_new :: "'s HeapEnv \<Rightarrow> BlockAllocator" where
  "ba_new env = \<lparr>ba_used_bytes = 0, ba_capacity_bytes = 0, ba_waterline = he_base env\<rparr>"

definition available_capacity_bytes :: "BlockAllocator \<Rightarrow> u64" where
  "available_capacity_bytes ba = ba_capacity_bytes ba - ba_used_bytes ba"

text \<open>The left result is \<open>AllocError\<close>, the right one the slice: its start and its length.\<close>

definition ba_allocate :: "'s HeapEnv \<Rightarrow> HeapLayout \<Rightarrow> BlockAllocator \<times> 's
    \<Rightarrow> ((unit + u64 \<times> u64) \<times> BlockAllocator \<times> 's) option" where
  "ba_allocate env layout bs = (case bs of (ba, s) \<Rightarrow> do {
     start_addr \<leftarrow> heap_align_up (he_base env + ba_used_bytes ba) (hl_align layout);
     let required_size = hl_size layout + hl_align layout;
     (err, ba, s) \<leftarrow> (if available_capacity_bytes ba < required_size
       then (let more_bytes = required_size - available_capacity_bytes ba;
                 required_bytes = ba_capacity_bytes ba + more_bytes;
                 alloc_size = next_multiple_of required_bytes 0x200000
             in case he_mem_alloc env (ba_waterline ba) alloc_size s of
                  (False, s) \<Rightarrow> Some (True, ba, s)
                | (True, s) \<Rightarrow> do {
                    waterline \<leftarrow> he_virt_new env (ba_waterline ba + alloc_size);
                    Some (False, ba\<lparr>ba_waterline := waterline,
                      ba_capacity_bytes := ba_capacity_bytes ba + alloc_size\<rparr>, s)
                  })
       else Some (False, ba, s));
     (if err then Some (Inl (), ba, s)
      else Some (Inr (start_addr, required_size), ba\<lparr>ba_used_bytes := ba_used_bytes ba + required_size\<rparr>, s))
   })"

text \<open>\<open>deallocate\<close> does nothing. The global allocator panics when allocation fails and uses only the start of the slice.\<close>

definition ba_deallocate :: "u64 \<Rightarrow> HeapLayout \<Rightarrow> BlockAllocator \<times> 's \<Rightarrow> BlockAllocator \<times> 's" where
  "ba_deallocate ptr layout bs = bs"

definition glob_alloc :: "'s HeapEnv \<Rightarrow> HeapLayout \<Rightarrow> BlockAllocator \<times> 's \<Rightarrow> (u64 \<times> BlockAllocator \<times> 's) option" where
  "glob_alloc env layout bs = do {
     (r, bs) \<leftarrow> ba_allocate env layout bs;
     (case r of Inl _ \<Rightarrow> None | Inr (start, len) \<Rightarrow> Some (start, bs))
   }"

definition glob_dealloc :: "u64 \<Rightarrow> HeapLayout \<Rightarrow> BlockAllocator \<times> 's \<Rightarrow> (BlockAllocator \<times> 's) option" where
  "glob_dealloc ptr layout bs = do {
     rassert (ptr \<noteq> 0);
     Some (ba_deallocate ptr layout bs)
   }"

subsection \<open>Alignment in numbers\<close>

lemma is_power_of_two_exp: "k < 64 \<Longrightarrow> is_power_of_two (2 ^ k)"
proof -
  assume k: "k < 64"
  have "(2 ^ k :: u64) AND (2 ^ k - 1) = 2 ^ k AND mask k" by (simp add: mask_eq_exp_minus_1)
  also have "\<dots> = 0" by (rule bit_word_eqI) (auto simp: bit_simps)
  finally show ?thesis using k by (simp add: is_power_of_two_def)
qed

lemma unat_exp: "k < 64 \<Longrightarrow> unat (2 ^ k :: u64) = 2 ^ k"
proof -
  assume "k < 64"
  then have "(2 :: nat) ^ k < 2 ^ 64" by (rule power_strict_increasing) simp
  moreover have "(2 ^ k :: u64) = of_nat (2 ^ k)" by simp
  ultimately show ?thesis by (simp only: unat_of_nat) (simp add: take_bit_nat_eq_self)
qed

lemma heap_align_up_exp:
  assumes "k < 64" "unat a + 2 ^ k \<le> 2 ^ 64"
  shows "heap_align_up a (2 ^ k) = Some (of_nat ((unat a + 2 ^ k - 1) div 2 ^ k * 2 ^ k))"
proof -
  let ?x = "a + 2 ^ k - 1"
  have "1 \<le> unat a + 2 ^ k" by (simp add: trans_le_add2)
  then have "?x = of_nat (unat a + 2 ^ k - 1)" by (subst of_nat_diff) simp_all
  then have x: "unat ?x = unat a + 2 ^ k - 1" using assms(2) by (simp add: unat_of_nat take_bit_nat_eq_self del: of_nat_diff)
  have "?x AND NOT (2 ^ k - 1) = ?x AND NOT (mask k)" by (simp add: mask_eq_exp_minus_1)
  also have "\<dots> = push_bit k (drop_bit k ?x)"
    by (rule bit_word_eqI) (auto simp: bit_simps not_less)
  also have "\<dots> = of_nat (unat ?x div 2 ^ k * 2 ^ k)"
    using assms(1) by (simp add: push_bit_eq_mult drop_bit_eq_div word_arith_nat_div unat_exp)
  finally show ?thesis using assms(1) by (simp add: heap_align_up_def heap_align_down_def is_power_of_two_exp x)
qed

lemma unat_next_multiple:
  assumes "unat a + 0x200000 < 2 ^ 64"
  shows "unat a \<le> unat (next_multiple_of a 0x200000)" "unat (next_multiple_of a 0x200000) < unat a + 0x200000"
proof -
  let ?r = "unat a mod 0x200000"
  have r: "unat (a mod 0x200000) = ?r" by (simp add: unat_mod_distrib)
  have "unat (next_multiple_of a 0x200000) = (if ?r = 0 then unat a else unat a + (0x200000 - ?r))"
  proof (cases "?r = 0")
    case True
    then have "a mod 0x200000 = 0" using r by (simp add: unat_eq_zero)
    with True show ?thesis by (simp add: next_multiple_of_def)
  next
    case False
    then have nz: "a mod 0x200000 \<noteq> 0" using r by (metis unsigned_0)
    have d: "unat (0x200000 - a mod 0x200000) = 0x200000 - ?r"
      by (subst unat_sub) (simp_all add: word_le_nat_alt r)
    have "unat (a + (0x200000 - a mod 0x200000)) = unat a + (0x200000 - ?r)"
      using assms False by (subst unat_plus_if') (simp add: d)
    with False nz show ?thesis by (simp add: next_multiple_of_def)
  qed
  moreover have "?r < 0x200000" by simp
  ultimately show "unat a \<le> unat (next_multiple_of a 0x200000)" "unat (next_multiple_of a 0x200000) < unat a + 0x200000"
    by (auto split: if_splits)
qed

subsection \<open>One allocation\<close>

text \<open>
  What the allocator relies on: addresses of the lower half are accepted as they are, and the
  memory of a successful \<open>mem_alloc\<close> belongs to the process from then on.
\<close>

definition heap_env_ok :: "('s \<Rightarrow> nat set) \<Rightarrow> 's HeapEnv \<Rightarrow> bool" where
  "heap_env_ok owned env \<longleftrightarrow> (\<forall>a. unat a < 2 ^ 47 \<longrightarrow> he_virt_new env a = Some a)
     \<and> (\<forall>a n s s'. he_mem_alloc env a n s = (True, s') \<longrightarrow> owned s \<union> {unat a..<unat a + unat n} \<subseteq> owned s')
     \<and> (\<forall>a n s s'. he_mem_alloc env a n s = (False, s') \<longrightarrow> owned s \<subseteq> owned s')"

definition heap_inv :: "('s \<Rightarrow> nat set) \<Rightarrow> 's HeapEnv \<Rightarrow> BlockAllocator \<times> 's \<Rightarrow> bool" where
  "heap_inv owned env bs \<longleftrightarrow> (case bs of (ba, s) \<Rightarrow>
     unat (ba_waterline ba) = unat (he_base env) + unat (ba_capacity_bytes ba)
     \<and> unat (ba_used_bytes ba) \<le> unat (ba_capacity_bytes ba)
     \<and> unat (ba_capacity_bytes ba) \<le> 2 * unat (ba_used_bytes ba) + 0x200000
     \<and> {unat (he_base env)..<unat (he_base env) + unat (ba_capacity_bytes ba)} \<subseteq> owned s)"

definition required_bytes_of :: "HeapLayout \<Rightarrow> nat" where
  "required_bytes_of layout = unat (hl_size layout) + unat (hl_align layout)"

definition layout_ok :: "HeapLayout \<Rightarrow> bool" where
  "layout_ok layout \<longleftrightarrow> (\<exists>k<64. hl_align layout = 2 ^ k)"

text \<open>The effect of an allocation: a place behind all earlier ones, or nothing but the failed system call.\<close>

definition allocation_step :: "'s HeapEnv \<Rightarrow> HeapLayout \<Rightarrow> BlockAllocator \<times> 's \<Rightarrow> unit + u64 \<times> u64
    \<Rightarrow> BlockAllocator \<times> 's \<Rightarrow> bool" where
  "allocation_step env layout bs r bs' \<longleftrightarrow> (case r of
       Inl _ \<Rightarrow> fst bs' = fst bs
     | Inr (p, n) \<Rightarrow> unat (he_base env) + unat (ba_used_bytes (fst bs)) \<le> unat p
         \<and> unat p + unat (hl_size layout) \<le> unat (he_base env) + unat (ba_used_bytes (fst bs'))
         \<and> unat (hl_align layout) dvd unat p \<and> unat n = required_bytes_of layout
         \<and> unat (ba_used_bytes (fst bs')) = unat (ba_used_bytes (fst bs)) + required_bytes_of layout)"

text \<open>Asking the kernel for more memory.\<close>

lemma round_up_bounds:
  assumes "0 < (m :: nat)"
  shows "a \<le> (a + m - 1) div m * m" "(a + m - 1) div m * m \<le> a + m - 1"
proof -
  show "(a + m - 1) div m * m \<le> a + m - 1" by simp
  have "a + m - 1 < (a + m - 1) div m * m + m" using dividend_less_div_times [OF assms, of "a + m - 1"] by (simp add: add.commute)
  then show "a \<le> (a + m - 1) div m * m" using assms by simp
qed

lemma heap_start:
  assumes "layout_ok layout" "unat (he_base env) + unat u + required_bytes_of layout < 2 ^ 47"
  shows "\<exists>p. heap_align_up (he_base env + u) (hl_align layout) = Some p \<and> unat (he_base env) + unat u \<le> unat p
    \<and> unat p + unat (hl_size layout) \<le> unat (he_base env) + unat u + required_bytes_of layout
    \<and> unat (hl_align layout) dvd unat p"
proof -
  obtain k where k: "k < 64" "hl_align layout = 2 ^ k" using assms(1) by (auto simp: layout_ok_def)
  then have al: "unat (hl_align layout) = 2 ^ k" by (simp add: unat_exp)
  let ?a = "unat (he_base env) + unat u" let ?p = "(?a + 2 ^ k - 1) div 2 ^ k * 2 ^ k"
  have a: "unat (he_base env + u) = ?a" using assms(2) by (subst unat_plus_if') simp
  have b: "?a + 2 ^ k < 2 ^ 47" using assms(2) by (simp add: required_bytes_of_def al)
  obtain q where q: "?p = q" by blast
  have bounds: "?a \<le> q" "q \<le> ?a + 2 ^ k - 1" unfolding q [symmetric] by (rule round_up_bounds, simp)+
  with b have up: "unat (of_nat q :: u64) = q" by (simp add: unat_of_nat take_bit_nat_eq_self)
  have "heap_align_up (he_base env + u) (hl_align layout) = Some (of_nat q)"
    using heap_align_up_exp [OF k(1), of "he_base env + u"] b unfolding a q k(2) by simp
  moreover have "unat (hl_align layout) dvd q" unfolding q [symmetric] al by simp
  moreover have "q + unat (hl_size layout) \<le> ?a + required_bytes_of layout"
    using bounds(2) by (simp add: required_bytes_of_def al)
  ultimately show ?thesis using bounds(1) up by auto
qed

lemma ba_allocate_step:
  assumes "heap_env_ok owned env" "heap_inv owned env (ba, s)" "layout_ok layout"
    and "unat (he_base env) + 2 * (unat (ba_used_bytes ba) + required_bytes_of layout) + 0x200000 < 2 ^ 47"
  shows "\<exists>r bs'. ba_allocate env layout (ba, s) = Some (r, bs') \<and> heap_inv owned env bs'
    \<and> allocation_step env layout (ba, s) r bs' \<and> owned s \<subseteq> owned (snd bs')"
proof -
  let ?u = "unat (ba_used_bytes ba)" and ?c = "unat (ba_capacity_bytes ba)" and ?b = "unat (he_base env)"
  let ?q = "required_bytes_of layout" and ?req = "hl_size layout + hl_align layout"
  have inv: "unat (ba_waterline ba) = ?b + ?c" "?u \<le> ?c" "?c \<le> 2 * ?u + 0x200000" "{?b..<?b + ?c} \<subseteq> owned s"
    using assms(2) by (simp_all add: heap_inv_def)
  obtain p where p: "heap_align_up (he_base env + ba_used_bytes ba) (hl_align layout) = Some p" "?b + ?u \<le> unat p"
    "unat p + unat (hl_size layout) \<le> ?b + ?u + ?q" "unat (hl_align layout) dvd unat p"
    using heap_start [OF assms(3), of env "ba_used_bytes ba"] assms(4) by auto
  have req: "unat ?req = ?q" using assms(4) by (subst unat_plus_if') (simp add: required_bytes_of_def)
  have used: "unat (ba_used_bytes ba + ?req) = ?u + ?q" using assms(4) by (subst unat_plus_if') (simp add: req)
  have avail: "unat (available_capacity_bytes ba) = ?c - ?u"
    using inv(2) by (simp add: available_capacity_bytes_def unat_sub word_le_nat_alt)
  show ?thesis
  proof (cases "available_capacity_bytes ba < ?req")
    case False
    then have "?q \<le> ?c - ?u" by (simp add: word_less_nat_alt req avail)
    with False p used req inv show ?thesis
      by (simp add: ba_allocate_def heap_inv_def allocation_step_def Let_def)
  next
    case True
    then have more: "?c - ?u < ?q" by (simp add: word_less_nat_alt req avail)
    let ?need = "ba_capacity_bytes ba + (?req - available_capacity_bytes ba)"
    have "unat (?req - available_capacity_bytes ba) = ?q - (?c - ?u)"
      using True by (subst unat_sub) (simp_all add: req avail)
    then have need: "unat ?need = ?u + ?q"
      using more inv(2) assms(4) by (subst unat_plus_if') simp
    obtain n where n: "next_multiple_of ?need 0x200000 = n" by blast
    have n_bounds: "?u + ?q \<le> unat n" "unat n < ?u + ?q + 0x200000"
      using unat_next_multiple [of ?need] assms(4) unfolding n need by simp_all
    show ?thesis
    proof (cases "he_mem_alloc env (ba_waterline ba) n s")
      case (Pair ok s')
      show ?thesis
      proof (cases ok)
        case False
        with Pair assms(1) have "owned s \<subseteq> owned s'" by (auto simp: heap_env_ok_def)
        with False Pair p inv True n show ?thesis
          by (simp add: ba_allocate_def heap_inv_def allocation_step_def Let_def)
      next
        case ok: True
        have own: "owned s \<union> {?b + ?c..<?b + ?c + unat n} \<subseteq> owned s'"
          using Pair ok assms(1) inv(1) unfolding heap_env_ok_def by metis
        have cap: "unat (ba_capacity_bytes ba + n) = ?c + unat n" "unat (ba_waterline ba + n) = ?b + ?c + unat n"
          using assms(4) inv(1,3) n_bounds more by (simp_all add: unat_plus_if')
        have "{?b..<?b + (?c + unat n)} \<subseteq> {?b..<?b + ?c} \<union> {?b + ?c..<?b + ?c + unat n}" by auto
        with own inv(4) have own': "{?b..<?b + (?c + unat n)} \<subseteq> owned s'" by blast
        have "he_virt_new env (ba_waterline ba + n) = Some (ba_waterline ba + n)"
          using assms(1,4) inv(3) more n_bounds cap(2) by (simp add: heap_env_ok_def)
        with ok Pair p inv True n own own' cap used req n_bounds more show ?thesis
          by (simp add: ba_allocate_def heap_inv_def allocation_step_def Let_def)
      qed
    qed
  qed
qed

subsection \<open>All allocations\<close>

fun heap_run :: "'s HeapEnv \<Rightarrow> HeapLayout list \<Rightarrow> BlockAllocator \<times> 's
    \<Rightarrow> ((unit + u64 \<times> u64) list \<times> BlockAllocator \<times> 's) option" where
  "heap_run env [] bs = Some ([], bs)"
| "heap_run env (layout # layouts) bs = do {
     (r, bs) \<leftarrow> ba_allocate env layout bs;
     (rs, bs) \<leftarrow> heap_run env layouts bs;
     Some (r # rs, bs)
   }"

text \<open>The layouts and addresses of the allocations that succeeded.\<close>

fun heap_blocks :: "HeapLayout list \<Rightarrow> (unit + u64 \<times> u64) list \<Rightarrow> (HeapLayout \<times> u64) list" where
  "heap_blocks (layout # layouts) (Inr (p, n) # rs) = (layout, p) # heap_blocks layouts rs"
| "heap_blocks (layout # layouts) (Inl e # rs) = heap_blocks layouts rs"
| "heap_blocks layouts rs = []"

definition block_before :: "HeapLayout \<times> u64 \<Rightarrow> HeapLayout \<times> u64 \<Rightarrow> bool" where
  "block_before x y \<longleftrightarrow> unat (snd x) + unat (hl_size (fst x)) \<le> unat (snd y)"

definition heap_block_ok :: "nat set \<Rightarrow> HeapLayout \<times> u64 \<Rightarrow> bool" where
  "heap_block_ok mem x \<longleftrightarrow> unat (hl_align (fst x)) dvd unat (snd x)
     \<and> {unat (snd x)..<unat (snd x) + unat (hl_size (fst x))} \<subseteq> mem"

lemma heap_run_blocks:
  assumes "heap_env_ok owned env"
  shows "heap_inv owned env bs \<Longrightarrow> \<forall>layout\<in>set layouts. layout_ok layout \<Longrightarrow>
    unat (he_base env) + 2 * (unat (ba_used_bytes (fst bs)) + sum_list (map required_bytes_of layouts)) + 0x200000 < 2 ^ 47
    \<Longrightarrow> \<exists>rs bs'. heap_run env layouts bs = Some (rs, bs') \<and> length rs = length layouts \<and> owned (snd bs) \<subseteq> owned (snd bs')
      \<and> sorted_wrt block_before (heap_blocks layouts rs)
      \<and> (\<forall>x\<in>set (heap_blocks layouts rs). heap_block_ok (owned (snd bs')) x
          \<and> unat (he_base env) + unat (ba_used_bytes (fst bs)) \<le> unat (snd x))"
proof (induction layouts arbitrary: bs)
  case Nil
  then show ?case by simp
next
  case (Cons layout layouts)
  obtain ba s where bs: "bs = (ba, s)" by (cases bs)
  obtain r bs1 where step: "ba_allocate env layout bs = Some (r, bs1)" "heap_inv owned env bs1"
    "allocation_step env layout bs r bs1" "owned (snd bs) \<subseteq> owned (snd bs1)"
    using ba_allocate_step [OF assms, of ba s layout] Cons.prems by (auto simp: bs)
  have used: "unat (ba_used_bytes (fst bs1)) \<le> unat (ba_used_bytes (fst bs)) + required_bytes_of layout"
    "unat (ba_used_bytes (fst bs)) \<le> unat (ba_used_bytes (fst bs1))"
    using step(3) by (auto simp: allocation_step_def split: sum.splits)
  with Cons.prems(2,3) Cons.IH [OF step(2)] obtain rs bs' where
    run: "heap_run env layouts bs1 = Some (rs, bs')" "length rs = length layouts" "owned (snd bs1) \<subseteq> owned (snd bs')"
      "sorted_wrt block_before (heap_blocks layouts rs)"
    and later: "\<forall>x\<in>set (heap_blocks layouts rs). heap_block_ok (owned (snd bs')) x
      \<and> unat (he_base env) + unat (ba_used_bytes (fst bs1)) \<le> unat (snd x)"
    by auto
  show ?case
  proof (cases r)
    case (Inl e)
    with step run later used(2) show ?thesis by auto
  next
    case (Inr pn)
    then obtain p n where r: "r = Inr (p, n)" by (cases pn) auto
    with step(3) have p: "unat (he_base env) + unat (ba_used_bytes (fst bs)) \<le> unat p"
      "unat p + unat (hl_size layout) \<le> unat (he_base env) + unat (ba_used_bytes (fst bs1))"
      "unat (hl_align layout) dvd unat p" by (simp_all add: allocation_step_def)
    obtain ba1 s1 where bs1: "bs1 = (ba1, s1)" by (cases bs1)
    have "{unat p..<unat p + unat (hl_size layout)} \<subseteq> owned (snd bs')"
    proof -
      have "{unat p..<unat p + unat (hl_size layout)}
          \<subseteq> {unat (he_base env)..<unat (he_base env) + unat (ba_capacity_bytes ba1)}"
        using p step(2) by (auto simp: bs1 heap_inv_def)
      moreover have "{unat (he_base env)..<unat (he_base env) + unat (ba_capacity_bytes ba1)} \<subseteq> owned (snd bs')"
        using step(2) run(3) unfolding bs1 heap_inv_def by auto
      ultimately show ?thesis by blast
    qed
    with p(3) have "heap_block_ok (owned (snd bs')) (layout, p)" by (simp add: heap_block_ok_def)
    moreover have "block_before (layout, p) x" if "x \<in> set (heap_blocks layouts rs)" for x
      using later that p(2) by (force simp: block_before_def)
    moreover have "unat (he_base env) + unat (ba_used_bytes (fst bs)) \<le> unat (snd x)"
      if "x \<in> set (heap_blocks layouts rs)" for x using later that used(2) by force
    moreover have "owned (snd bs) \<subseteq> owned (snd bs')" using step(4) run(3) by blast
    ultimately show ?thesis using p(1) r step(1) run later by simp
  qed
qed


text \<open>The slice that is returned is longer than the request and may reach into the next block.\<close>

lemma slices_overlap:
  assumes "heap_env_ok owned env" "heap_inv owned env (ba, s)" "hl_align layout = 8" "hl_size layout = 8"
    and "unat (he_base env) + 2 * (unat (ba_used_bytes ba) + 16) + 0x200000 < 2 ^ 47"
    and "unat (he_base env) + unat (ba_used_bytes ba) = 8 * m + 1" "ba_allocate env layout (ba, s) = Some (Inr (p, n), ba', s')"
  shows "unat (he_base env) + unat (ba_used_bytes ba') < unat p + unat n"
proof -
  have "hl_align layout = 2 ^ 3" using assms(3) by simp
  then have ok: "layout_ok layout" unfolding layout_ok_def by (intro exI [of _ 3]) simp
  have req: "required_bytes_of layout = 16" using assms(3,4) by (simp add: required_bytes_of_def)
  from ba_allocate_step [OF assms(1,2) ok] assms(5,7) have "allocation_step env layout (ba, s) (Inr (p, n)) (ba', s')"
    by (auto simp: req)
  then have p: "8 * m + 1 \<le> unat p" "8 dvd unat p" "unat n = 16" "unat (ba_used_bytes ba') = unat (ba_used_bytes ba) + 16"
    using assms(3,6) by (simp_all add: allocation_step_def req)
  then have "8 * m + 8 \<le> unat p" by presburger
  with p assms(6) show ?thesis by simp
qed

text \<open>An example: two small allocations from a kernel that always gives memory.\<close>

definition demo_heap :: "unit HeapEnv" where
  "demo_heap = \<lparr>he_base = 0x1000000, he_virt_new = Some, he_mem_alloc = (\<lambda>a n s. (True, s))\<rparr>"


end
