(* ===== verification/KernelHeap.thy ===== *)
theory KernelHeap
  imports PhysMem
begin

text \<open>
  The heap of the kernel (\<open>src/memory/rust_heap.rs\<close>) and the set of allocations it is built
  on (\<open>src/memory/phys/list.rs\<close>). The fixed-size block allocator of the crate \<open>allogator\<close>
  is a parameter, the fields of \<open>BlockOps\<close>; its contract is \<open>block_ops_ok\<close>. A panic is \<open>None\<close>.
\<close>

subsection \<open>Sets of items stored in allocations (phys/list.rs)\<close>

text \<open>
  The unrolled linked list, from the head: each entry is an allocation with the items stored in it.
  The header of an entry holds the link, the allocation and the number of items.
\<close>

record 't SetEntry =
  se_block :: Allocation
  se_items :: "'t list"

definition OVERHEAD :: nat where "OVERHEAD = 8 + 24 + 8"

definition set_is_empty :: "'t SetEntry list \<Rightarrow> bool" where
  "set_is_empty aset = (aset = [])"

definition push_allocation :: "'a Ext \<Rightarrow> Allocation \<Rightarrow> 't SetEntry list \<Rightarrow> 't SetEntry list option" where
  "push_allocation x block aset = do {
     rassert (al_size block > OVERHEAD);
     this \<leftarrow> phys_to_virt x (al_start block);
     Some (\<lparr>se_block = block, se_items = []\<rparr> # aset)
   }"

text \<open>\<open>try_push\<close>; the left result is the refused item. \<open>item_bytes\<close> is the size of an item.\<close>

definition entry_capacity :: "nat \<Rightarrow> 't SetEntry \<Rightarrow> nat option" where
  "entry_capacity item_bytes e = do {
     capacity_bytes \<leftarrow> checked_sub (al_size (se_block e)) OVERHEAD;
     Some (capacity_bytes div item_bytes)
   }"

fun try_push :: "nat \<Rightarrow> 't \<Rightarrow> 't SetEntry list \<Rightarrow> (('t + unit) \<times> 't SetEntry list) option" where
  "try_push item_bytes v [] = Some (Inl v, [])"
| "try_push item_bytes v (e # es) = do {
     capacity \<leftarrow> entry_capacity item_bytes e;
     rassert (length (se_items e) \<le> capacity);
     (if length (se_items e) = capacity
      then do {
        (r, es) \<leftarrow> try_push item_bytes v es;
        Some (r, e # es)
      }
      else Some (Inr (), e\<lparr>se_items := se_items e @ [v]\<rparr> # es))
   }"

definition set_push :: "'a Ext \<Rightarrow> nat \<Rightarrow> 't \<Rightarrow> 't SetEntry list \<Rightarrow> 'a Mem \<Rightarrow> ('t SetEntry list \<times> 'a Mem) option" where
  "set_push x item_bytes v aset m = do {
     (r, aset) \<leftarrow> try_push item_bytes v aset;
     (case r of
        Inr _ \<Rightarrow> Some (aset, m)
      | Inl v \<Rightarrow> do {
          (al, m) \<leftarrow> phys_allocate x PAGE_SIZE PAGE_SIZE m;
          block \<leftarrow> al;
          aset \<leftarrow> push_allocation x block aset;
          (r, aset) \<leftarrow> try_push item_bytes v aset;
          rassert (r = Inr ());
          Some (aset, m)
        })
   }"

text \<open>\<open>iterate_mut_first\<close>: the function may change each item it is applied to, until it returns a result.\<close>

fun iterate_items :: "('t \<Rightarrow> ('r option \<times> 't) option) \<Rightarrow> 't list \<Rightarrow> ('r option \<times> 't list) option" where
  "iterate_items f [] = Some (None, [])"
| "iterate_items f (t # ts) = do {
     (result, t) \<leftarrow> f t;
     (case result of
        Some r \<Rightarrow> Some (Some r, t # ts)
      | None \<Rightarrow> do {
          (result, ts) \<leftarrow> iterate_items f ts;
          Some (result, t # ts)
        })
   }"

fun iterate_mut_first ::
  "('t \<Rightarrow> ('r option \<times> 't) option) \<Rightarrow> 't SetEntry list \<Rightarrow> ('r option \<times> 't SetEntry list) option" where
  "iterate_mut_first f [] = Some (None, [])"
| "iterate_mut_first f (e # es) = do {
     (result, items) \<leftarrow> iterate_items f (se_items e);
     (case result of
        Some r \<Rightarrow> Some (Some r, e\<lparr>se_items := items\<rparr> # es)
      | None \<Rightarrow> do {
          (result, es) \<leftarrow> iterate_mut_first f es;
          Some (result, e\<lparr>se_items := items\<rparr> # es)
        })
   }"

subsection \<open>The heap (rust_heap.rs)\<close>

record 'b BlockOps =
  bl_new :: "nat \<Rightarrow> nat \<Rightarrow> nat \<Rightarrow> 'b"
  bl_item_size :: "'b \<Rightarrow> nat"
  bl_is_full :: "'b \<Rightarrow> bool"
  bl_allocate_one :: "'b \<Rightarrow> (nat \<times> 'b) option"
  bl_contains :: "'b \<Rightarrow> nat \<Rightarrow> bool"
  bl_deallocate_one :: "nat \<Rightarrow> 'b \<Rightarrow> 'b"
  bl_size_of :: nat

definition MIN_ALLOC :: nat where "MIN_ALLOC = 8"
definition MIN_BUDDY :: nat where "MIN_BUDDY = 0x100000"

definition small_allocate :: "'a Ext \<Rightarrow> 'b BlockOps \<Rightarrow> nat \<Rightarrow> 'b SetEntry list \<Rightarrow> 'a Mem
    \<Rightarrow> (nat \<times> 'b SetEntry list \<times> 'a Mem) option" where
  "small_allocate x ops sz aset m = do {
     sz \<leftarrow> next_power_of_two sz;
     (found, aset) \<leftarrow> iterate_mut_first (\<lambda>block_ll.
       if bl_item_size ops block_ll = sz \<and> \<not> bl_is_full ops block_ll
       then do {
         (p, block_ll) \<leftarrow> bl_allocate_one ops block_ll;
         Some (Some p, block_ll)
       }
       else Some (None, block_ll)) aset;
     (case found of
        Some r \<Rightarrow> Some (r, aset, m)
      | None \<Rightarrow> do {
          (al, m) \<leftarrow> phys_allocate x PAGE_SIZE PAGE_SIZE m;
          allocation \<leftarrow> al;
          ptr \<leftarrow> phys_to_virt x (al_start allocation);
          rassert (ptr \<noteq> 0);
          let block_ll = bl_new ops ptr (al_size allocation) sz;
          (result, block_ll) \<leftarrow> bl_allocate_one ops block_ll;
          (aset, m) \<leftarrow> set_push x (bl_size_of ops) block_ll aset m;
          Some (result, aset, m)
        })
   }"

definition small_deallocate :: "'b BlockOps \<Rightarrow> nat \<Rightarrow> nat \<Rightarrow> 'b SetEntry list \<Rightarrow> 'b SetEntry list option" where
  "small_deallocate ops ptr sz aset = do {
     rassert (ptr \<noteq> 0);
     (_, aset) \<leftarrow> iterate_mut_first (\<lambda>block_ll.
       if bl_item_size ops block_ll = sz \<and> bl_contains ops block_ll ptr
       then Some (Some (), bl_deallocate_one ops ptr block_ll)
       else Some (None, block_ll)) aset;
     Some aset
   }"

text \<open>A layout is a size and an alignment.\<close>

definition heap_req :: "nat \<times> nat \<Rightarrow> nat" where
  "heap_req layout = max (max (fst layout) (snd layout)) MIN_ALLOC"

definition heap_alloc :: "'a Ext \<Rightarrow> 'b BlockOps \<Rightarrow> nat \<times> nat \<Rightarrow> 'b SetEntry list \<times> 'a Mem
    \<Rightarrow> (nat \<times> 'b SetEntry list \<times> 'a Mem) option" where
  "heap_alloc x ops layout sm = (case sm of (aset, m) \<Rightarrow>
     let req = heap_req layout in
     if req \<ge> MIN_BUDDY
     then do {
       (al, m) \<leftarrow> phys_allocate x (fst layout) (snd layout) m;
       allocation \<leftarrow> al;
       rptr \<leftarrow> phys_to_virt x (al_start allocation);
       Some (rptr, aset, m)
     }
     else small_allocate x ops req aset m)"

definition heap_dealloc :: "'a Ext \<Rightarrow> 'b BlockOps \<Rightarrow> nat \<Rightarrow> nat \<times> nat \<Rightarrow> 'b SetEntry list \<times> 'a Mem
    \<Rightarrow> ('b SetEntry list \<times> 'a Mem) option" where
  "heap_dealloc x ops ptr layout sm = (case sm of (aset, m) \<Rightarrow>
     let req = heap_req layout in
     if req \<ge> MIN_BUDDY
     then do {
       p \<leftarrow> undo_offset_ptr ptr;
       m \<leftarrow> drop_allocation x \<lparr>al_start = p, al_size = fst layout, al_align = snd layout\<rparr> m;
       Some (aset, m)
     }
     else do {
       aset \<leftarrow> small_deallocate ops ptr req aset;
       Some (aset, m)
     })"

subsection \<open>Sets as lists\<close>

definition set_items :: "'t SetEntry list \<Rightarrow> 't list" where
  "set_items es = concat (map se_items es)"

lemma set_items_simps [simp]:
  "set_items [] = []" "set_items (e # es) = se_items e @ set_items es"
  by (simp_all add: set_items_def)

text \<open>The entries that a set consists of, without the items.\<close>

definition set_shape :: "'t SetEntry list \<Rightarrow> (Allocation \<times> nat) list" where
  "set_shape es = map (\<lambda>e. (se_block e, length (se_items e))) es"

text \<open>A function that does not panic and changes an item only when it returns a result.\<close>

definition steady :: "('t \<Rightarrow> ('r option \<times> 't) option) \<Rightarrow> 't list \<Rightarrow> bool" where
  "steady f ts \<longleftrightarrow> (\<forall>t\<in>set ts. \<exists>r t'. f t = Some (r, t') \<and> (r = None \<longrightarrow> t' = t))"

lemma iterate_items_cases:
  assumes "steady f ts"
  shows "iterate_items f ts = Some (None, ts) \<and> (\<forall>t\<in>set ts. f t = Some (None, t))
    \<or> (\<exists>xs t r t' ys. ts = xs @ t # ys \<and> (\<forall>u\<in>set xs. f u = Some (None, u)) \<and> f t = Some (Some r, t')
        \<and> iterate_items f ts = Some (Some r, xs @ t' # ys))"
  using assms
proof (induction ts)
  case Nil
  then show ?case by simp
next
  case (Cons t ts)
  from Cons.prems obtain r t' where ft: "f t = Some (r, t')" "r = None \<longrightarrow> t' = t" by (auto simp: steady_def)
  show ?case
  proof (cases r)
    case (Some v)
    with ft show ?thesis by (intro disjI2 exI [of _ "[]"] exI [of _ t]) auto
  next
    case None
    with ft have ft': "f t = Some (None, t)" by simp
    from Cons.prems have "steady f ts" by (simp add: steady_def)
    from Cons.IH [OF this] show ?thesis
    proof (elim disjE exE conjE)
      assume "iterate_items f ts = Some (None, ts)" "\<forall>t\<in>set ts. f t = Some (None, t)"
      with ft' show ?thesis by simp
    next
      fix xs u v u' ys
      assume "ts = xs @ u # ys" "\<forall>u\<in>set xs. f u = Some (None, u)" "f u = Some (Some v, u')"
        "iterate_items f ts = Some (Some v, xs @ u' # ys)"
      with ft' show ?thesis by (intro disjI2 exI [of _ "t # xs"] exI [of _ u]) auto
    qed
  qed
qed

lemma iterate_mut_first_cases:
  assumes "steady f (set_items es)"
  shows "iterate_mut_first f es = Some (None, es) \<and> (\<forall>t\<in>set (set_items es). f t = Some (None, t))
    \<or> (\<exists>xs t r t' ys es'. set_items es = xs @ t # ys \<and> (\<forall>u\<in>set xs. f u = Some (None, u)) \<and> f t = Some (Some r, t')
        \<and> iterate_mut_first f es = Some (Some r, es') \<and> set_items es' = xs @ t' # ys \<and> set_shape es' = set_shape es)"
  using assms
proof (induction es)
  case Nil
  then show ?case by simp
next
  case (Cons e es)
  from Cons.prems have "steady f (se_items e)" "steady f (set_items es)" by (auto simp: steady_def)
  from iterate_items_cases [OF this(1)] show ?case
  proof (elim disjE exE conjE)
    fix xs t r t' ys
    assume "se_items e = xs @ t # ys" "\<forall>u\<in>set xs. f u = Some (None, u)" "f t = Some (Some r, t')"
      "iterate_items f (se_items e) = Some (Some r, xs @ t' # ys)"
    then show ?thesis
      by (intro disjI2 exI [of _ xs] exI [of _ t] exI [of _ r] exI [of _ t'] exI [of _ "ys @ set_items es"]
        exI [of _ "e\<lparr>se_items := xs @ t' # ys\<rparr> # es"]) (simp add: set_shape_def)
  next
    assume none: "iterate_items f (se_items e) = Some (None, se_items e)" "\<forall>t\<in>set (se_items e). f t = Some (None, t)"
    from Cons.IH [OF \<open>steady f (set_items es)\<close>] show ?thesis
    proof (elim disjE exE conjE)
      assume "iterate_mut_first f es = Some (None, es)" "\<forall>t\<in>set (set_items es). f t = Some (None, t)"
      with none show ?thesis by auto
    next
      fix xs t r t' ys es'
      assume "set_items es = xs @ t # ys" "\<forall>u\<in>set xs. f u = Some (None, u)" "f t = Some (Some r, t')"
        "iterate_mut_first f es = Some (Some r, es')" "set_items es' = xs @ t' # ys" "set_shape es' = set_shape es"
      with none show ?thesis
        by (intro disjI2 exI [of _ "se_items e @ xs"] exI [of _ t] exI [of _ r] exI [of _ t'] exI [of _ ys]
          exI [of _ "e # es'"]) (auto simp: set_shape_def)
    qed
  qed
qed

text \<open>Entries are pages that are filled up to their capacity at most.\<close>

definition entries_ok :: "nat \<Rightarrow> 't SetEntry list \<Rightarrow> bool" where
  "entries_ok item_bytes es \<longleftrightarrow>
     (\<forall>(al, n)\<in>set (set_shape es). al_size al = PAGE_SIZE \<and> n \<le> (PAGE_SIZE - OVERHEAD) div item_bytes)"

lemma entries_ok_Cons:
  "entries_ok item_bytes (e # es) \<longleftrightarrow> al_size (se_block e) = PAGE_SIZE
     \<and> length (se_items e) \<le> (PAGE_SIZE - OVERHEAD) div item_bytes \<and> entries_ok item_bytes es"
  by (auto simp: entries_ok_def set_shape_def)

definition set_blocks :: "'t SetEntry list \<Rightarrow> Allocation list" where
  "set_blocks es = map se_block es"

lemma set_blocks_eq: "set_blocks es = map fst (set_shape es)"
  by (simp add: set_blocks_def set_shape_def o_def)

lemma set_blocks_shape:
  "set_shape es' = set_shape es \<Longrightarrow> set_blocks es' = set_blocks es"
  "set_shape es' = set_shape es \<Longrightarrow> entries_ok n es' = entries_ok n es"
  by (simp_all only: set_blocks_eq entries_ok_def)

lemma entry_capacity_page:
  "al_size (se_block e) = PAGE_SIZE \<Longrightarrow> entry_capacity item_bytes e = Some ((PAGE_SIZE - OVERHEAD) div item_bytes)"
  by (simp add: entry_capacity_def checked_sub_def PAGE_SIZE_def OVERHEAD_def)

lemma try_push_cases:
  assumes "entries_ok item_bytes es"
  shows "try_push item_bytes v es = Some (Inl v, es)
    \<or> (\<exists>es' xs ys. try_push item_bytes v es = Some (Inr (), es') \<and> set_items es = xs @ ys \<and> set_items es' = xs @ v # ys
        \<and> set_blocks es' = set_blocks es \<and> entries_ok item_bytes es')"
  using assms
proof (induction es)
  case Nil
  then show ?case by simp
next
  case (Cons e es)
  then have e: "al_size (se_block e) = PAGE_SIZE" "length (se_items e) \<le> (PAGE_SIZE - OVERHEAD) div item_bytes"
    "entries_ok item_bytes es" by (simp_all add: entries_ok_Cons)
  show ?case
  proof (cases "length (se_items e) = (PAGE_SIZE - OVERHEAD) div item_bytes")
    case False
    let ?es' = "e\<lparr>se_items := se_items e @ [v]\<rparr> # es"
    from False e have "try_push item_bytes v (e # es) = Some (Inr (), ?es')"
      by (simp add: entry_capacity_page)
    moreover have "entries_ok item_bytes ?es'" using False e by (simp add: entries_ok_Cons)
    ultimately show ?thesis
      by (intro disjI2 exI [of _ ?es'] exI [of _ "se_items e"] exI [of _ "set_items es"]) (simp add: set_blocks_def)
  next
    case True
    from Cons.IH [OF e(3)] show ?thesis
    proof (elim disjE exE conjE)
      assume "try_push item_bytes v es = Some (Inl v, es)"
      with True e show ?thesis by (simp add: entry_capacity_page)
    next
      fix es' xs ys
      assume "try_push item_bytes v es = Some (Inr (), es')" "set_items es = xs @ ys" "set_items es' = xs @ v # ys"
        "set_blocks es' = set_blocks es" "entries_ok item_bytes es'"
      with True e show ?thesis
        by (intro disjI2 exI [of _ "e # es'"] exI [of _ "se_items e @ xs"] exI [of _ ys])
          (simp add: entry_capacity_page entries_ok_Cons set_blocks_def)
    qed
  qed
qed

subsection \<open>Contracts\<close>

text \<open>
  The physical allocator hands out memory that nobody owns and takes back no more than what is released. \<open>owned\<close> is what is in use, in addresses
  of the higher-half mapping.
\<close>

definition phys_ok :: "('a \<Rightarrow> nat set) \<Rightarrow> 'a Ext \<Rightarrow> bool" where
  "phys_ok owned x \<longleftrightarrow>
     (\<forall>sz al st p st'. x_allocate x sz al st = Some (p, st') \<longrightarrow>
        {p..<p + sz} \<inter> owned st = {} \<and> owned st' = owned st \<union> {p..<p + sz}) \<and>
     (\<forall>p sz al st. owned st - {p..<p + sz} \<subseteq> owned (x_deallocate x p sz al st))"

text \<open>What a block allocator manages: its memory, where that starts, and the items handed out.\<close>

record 'b BlockView =
  bv_range :: "'b \<Rightarrow> nat set"
  bv_base :: "'b \<Rightarrow> nat"
  bv_lives :: "'b \<Rightarrow> nat set"

definition item_at :: "'b BlockOps \<Rightarrow> 'b \<Rightarrow> nat \<Rightarrow> nat set" where
  "item_at ops b p = {p..<p + bl_item_size ops b}"

definition block_new_ok :: "'b BlockOps \<Rightarrow> 'b BlockView \<Rightarrow> bool" where
  "block_new_ok ops view \<longleftrightarrow> (\<forall>p len sz. let b = bl_new ops p len sz in bl_item_size ops b = sz
     \<and> bv_range view b = {p..<p + len} \<and> bv_base view b = p \<and> bv_lives view b = {}
     \<and> (0 < sz \<longrightarrow> 2 * sz \<le> len \<longrightarrow> \<not> bl_is_full ops b))"

definition takes_item :: "'b BlockOps \<Rightarrow> 'b BlockView \<Rightarrow> 'b \<Rightarrow> nat \<Rightarrow> 'b \<Rightarrow> bool" where
  "takes_item ops view b p b' \<longleftrightarrow> bl_item_size ops b' = bl_item_size ops b \<and> bv_range view b' = bv_range view b
     \<and> bv_base view b' = bv_base view b \<and> bv_lives view b' = insert p (bv_lives view b)
     \<and> item_at ops b p \<subseteq> bv_range view b \<and> (\<forall>q\<in>bv_lives view b. item_at ops b p \<inter> item_at ops b q = {})
     \<and> (bl_item_size ops b dvd bv_base view b \<longrightarrow> bl_item_size ops b dvd p)"

definition frees_item :: "'b BlockOps \<Rightarrow> 'b BlockView \<Rightarrow> 'b \<Rightarrow> nat \<Rightarrow> 'b \<Rightarrow> bool" where
  "frees_item ops view b p b' \<longleftrightarrow> bl_item_size ops b' = bl_item_size ops b \<and> bv_range view b' = bv_range view b
     \<and> bv_base view b' = bv_base view b \<and> bv_lives view b' = bv_lives view b - {p}"

definition block_ops_ok :: "'b BlockOps \<Rightarrow> 'b BlockView \<Rightarrow> bool" where
  "block_ops_ok ops view \<longleftrightarrow> 0 < bl_size_of ops \<and> bl_size_of ops \<le> PAGE_SIZE - OVERHEAD \<and> block_new_ok ops view
     \<and> (\<forall>b. \<not> bl_is_full ops b \<longrightarrow> (\<exists>p b'. bl_allocate_one ops b = Some (p, b') \<and> takes_item ops view b p b'))
     \<and> (\<forall>b p. bl_contains ops b p \<longleftrightarrow> p \<in> bv_range view b)
     \<and> (\<forall>b p. p \<in> bv_lives view b \<longrightarrow> frees_item ops view b p (bl_deallocate_one ops p b))"

lemma phys_allocate_cases:
  assumes "ext_ok x" "phys_ok owned x"
  shows "phys_allocate x sz align m = Some (None, m) \<and> x_allocate x sz align (ms_phys m) = None
    \<or> (\<exists>a m'. phys_allocate x sz align m = Some (Some a, m') \<and> al_size a = sz \<and> al_align a = align
        \<and> phys_to_virt x (al_start a) = Some (HIGHER_HALF_START + al_start a)
        \<and> align dvd al_start a \<and> al_start a \<noteq> 0 \<and> al_start a + sz \<le> 2 ^ 46
        \<and> {HIGHER_HALF_START + al_start a..<HIGHER_HALF_START + al_start a + sz} \<inter> owned (ms_phys m) = {}
        \<and> owned (ms_phys m') = owned (ms_phys m) \<union> {HIGHER_HALF_START + al_start a..<HIGHER_HALF_START + al_start a + sz})"
proof (cases "x_allocate x sz align (ms_phys m)")
  case None
  then show ?thesis by (simp add: phys_allocate_def)
next
  case (Some pst)
  then obtain p st where alloc: "x_allocate x sz align (ms_phys m) = Some (p, st)" by (cases pst) auto
  with assms(1) have p: "HIGHER_HALF_START \<le> p" "p + sz \<le> HIGHER_HALF_START + 2 ^ 46"
    "align dvd p - HIGHER_HALF_START" "p \<noteq> HIGHER_HALF_START"
    unfolding ext_ok_def by blast+
  from assms(2) alloc have own: "{p..<p + sz} \<inter> owned (ms_phys m) = {}" "owned st = owned (ms_phys m) \<union> {p..<p + sz}"
    unfolding phys_ok_def by blast+
  obtain q where q: "p = HIGHER_HALF_START + q" using p(1) le_Suc_ex by blast
  let ?a = "\<lparr>al_start = q, al_size = sz, al_align = align\<rparr>"
  have "phys_addr q = Some q" using p(2) by (simp add: phys_addr_def q)
  then have "phys_allocate x sz align m = Some (Some ?a, m\<lparr>ms_phys := st\<rparr>)"
    using alloc by (simp add: phys_allocate_def undo_offset_ptr_def checked_sub_def to_allocation_def q)
  moreover have "phys_to_virt x q = Some (HIGHER_HALF_START + q)"
    using p(2) by (simp add: phys_to_virt_def checked_u64_def canonical_def ext_okD(1) [OF assms(1)] HIGHER_HALF_START_def q)
  ultimately show ?thesis using p own by (intro disjI2 exI [of _ ?a]) (simp add: q)
qed

subsection \<open>The invariant\<close>

definition disj_list :: "nat set list \<Rightarrow> bool" where
  "disj_list = sorted_wrt (\<lambda>A B. A \<inter> B = {})"

lemma disj_list_insert:
  "disj_list (xs @ A # ys) \<longleftrightarrow> disj_list (xs @ ys) \<and> (\<forall>B\<in>set (xs @ ys). A \<inter> B = {})"
  unfolding disj_list_def sorted_wrt_append by (simp add: Int_commute) blast

definition page_region :: "Allocation \<Rightarrow> nat set" where
  "page_region al = {HIGHER_HALF_START + al_start al..<HIGHER_HALF_START + al_start al + al_size al}"

definition is_big :: "nat \<times> nat \<times> nat \<Rightarrow> bool" where
  "is_big pl \<longleftrightarrow> heap_req (snd pl) \<ge> MIN_BUDDY"

text \<open>The memory of an allocation in use: its address with its layout.\<close>

definition live_region :: "nat \<times> nat \<times> nat \<Rightarrow> nat set" where
  "live_region pl = {fst pl..<fst pl + fst (snd pl)}"

text \<open>Everything the heap has obtained from the physical allocator.\<close>

definition heap_regions :: "'b BlockView \<Rightarrow> 'b SetEntry list \<Rightarrow> (nat \<times> nat \<times> nat) list \<Rightarrow> nat set list" where
  "heap_regions view es live =
     map (bv_range view) (set_items es) @ map page_region (set_blocks es) @ map live_region (filter is_big live)"

definition block_inv :: "'b BlockOps \<Rightarrow> 'b BlockView \<Rightarrow> 'b \<Rightarrow> bool" where
  "block_inv ops view b \<longleftrightarrow> 0 < bl_item_size ops b \<and> bl_item_size ops b dvd bv_base view b
     \<and> 0 \<notin> bv_range view b
     \<and> (\<forall>p\<in>bv_lives view b. item_at ops b p \<subseteq> bv_range view b \<and> bl_item_size ops b dvd p)
     \<and> (\<forall>p\<in>bv_lives view b. \<forall>q\<in>bv_lives view b. p \<noteq> q \<longrightarrow> item_at ops b p \<inter> item_at ops b q = {})"

definition small_in :: "'b BlockOps \<Rightarrow> 'b BlockView \<Rightarrow> 'b list \<Rightarrow> nat \<times> nat \<times> nat \<Rightarrow> bool" where
  "small_in ops view bs pl \<longleftrightarrow>
     (\<exists>b\<in>set bs. next_power_of_two (heap_req (snd pl)) = Some (bl_item_size ops b) \<and> fst pl \<in> bv_lives view b)"

definition big_ok :: "nat \<times> nat \<times> nat \<Rightarrow> bool" where
  "big_ok pl \<longleftrightarrow> (\<exists>a. fst pl = HIGHER_HALF_START + a \<and> a \<noteq> 0 \<and> a + fst (snd pl) \<le> 2 ^ 46 \<and> snd (snd pl) dvd a)"

definition heap_ok :: "'b BlockOps \<Rightarrow> 'b BlockView \<Rightarrow> nat set \<Rightarrow> 'b SetEntry list \<Rightarrow> (nat \<times> nat \<times> nat) list \<Rightarrow> bool" where
  "heap_ok ops view mem es live \<longleftrightarrow> entries_ok (bl_size_of ops) es
     \<and> disj_list (heap_regions view es live) \<and> (\<forall>R\<in>set (heap_regions view es live). R \<subseteq> mem)
     \<and> (\<forall>b\<in>set (set_items es). block_inv ops view b)
     \<and> (\<forall>pl\<in>set live. if is_big pl then big_ok pl else small_in ops view (set_items es) pl)
     \<and> distinct (map fst (filter (\<lambda>pl. \<not> is_big pl) live))"

lemma heap_ok_mono: "heap_ok ops view mem es live \<Longrightarrow> mem \<subseteq> mem' \<Longrightarrow> heap_ok ops view mem' es live"
  unfolding heap_ok_def by blast

lemma heap_req_pow2:
  assumes "\<not> MIN_BUDDY \<le> heap_req layout"
  obtains j where "next_power_of_two (heap_req layout) = Some (2 ^ j)" "heap_req layout \<le> 2 ^ j" "2 ^ j \<le> MIN_BUDDY" "j \<le> 20"
proof -
  let ?r = "heap_req layout"
  have r: "1 < ?r" by (simp add: heap_req_def MIN_ALLOC_def)
  from pow2_from_bounds [of 1 ?r] r obtain j where j: "pow2_from ?r 1 = 2 ^ j" "?r \<le> 2 ^ j" "2 ^ j < 2 * ?r" by auto
  with assms have "(2 :: nat) ^ j < 2 ^ 21" by (simp add: MIN_BUDDY_def)
  then have "j < 21" by (rule power_less_imp_less_exp [rotated]) simp
  then have "j \<le> 20" by simp
  moreover from this have "(2 :: nat) ^ j \<le> 2 ^ 20" by (rule power_increasing) simp
  ultimately show thesis using that [of j] j by (simp add: next_power_of_two_def checked_u64_def MIN_BUDDY_def)
qed

lemma heap_ok_live:
  assumes "heap_ok ops view mem es live" "pl \<in> set live"
  shows "\<not> is_big pl \<Longrightarrow> small_in ops view (set_items es) pl" "is_big pl \<Longrightarrow> big_ok pl"
proof -
  have "if is_big pl then big_ok pl else small_in ops view (set_items es) pl" using assms unfolding heap_ok_def by blast
  then show "\<not> is_big pl \<Longrightarrow> small_in ops view (set_items es) pl" "is_big pl \<Longrightarrow> big_ok pl" by simp_all
qed

text \<open>A pointer that lies in the memory of a block of the heap belongs to that block.\<close>

lemma same_block:
  assumes "heap_ok ops view mem es live" "set_items es = xs @ t # ys" "b \<in> set (set_items es)"
    and "p \<in> bv_range view t" "p \<in> bv_lives view b"
  shows "b = t"
proof (rule ccontr)
  assume "b \<noteq> t"
  with assms(2,3) have b: "b \<in> set (xs @ ys)" by auto
  have "p \<in> item_at ops b p" "item_at ops b p \<subseteq> bv_range view b"
    using assms(1,3,5) by (auto simp: heap_ok_def block_inv_def item_at_def)
  moreover have "bv_range view t \<inter> bv_range view b = {}"
    using assms(1) b by (auto simp: heap_ok_def heap_regions_def assms(2) disj_list_def sorted_wrt_append)
  ultimately show False using assms(4) by blast
qed

lemma heap_ok_pointer_range:
  assumes "heap_ok ops view mem es live" "pl \<in> set live" "\<not> is_big pl"
  shows "\<exists>b\<in>set (set_items es). fst pl \<in> bv_range view b"
proof -
  from heap_ok_live(1) [OF assms] obtain b where b: "b \<in> set (set_items es)" "fst pl \<in> bv_lives view b"
    by (auto simp: small_in_def)
  then have "fst pl \<in> item_at ops b (fst pl)" "item_at ops b (fst pl) \<subseteq> bv_range view b"
    using assms(1) by (auto simp: heap_ok_def block_inv_def item_at_def)
  with b(1) show ?thesis by blast
qed

subsection \<open>Allocation\<close>

lemma block_ops_okD:
  assumes "block_ops_ok ops view"
  shows "0 < bl_size_of ops" "bl_size_of ops \<le> PAGE_SIZE - OVERHEAD" "block_new_ok ops view"
    and "\<not> bl_is_full ops b \<Longrightarrow> \<exists>p b'. bl_allocate_one ops b = Some (p, b') \<and> takes_item ops view b p b'"
    and "bl_contains ops b q \<longleftrightarrow> q \<in> bv_range view b"
    and "q \<in> bv_lives view b \<Longrightarrow> frees_item ops view b q (bl_deallocate_one ops q b)"
  using assms by (simp_all add: block_ops_ok_def)

lemma takes_item_inv:
  assumes "takes_item ops view b p b'" "block_inv ops view b"
  shows "block_inv ops view b'" "p \<notin> bv_lives view b" "p \<in> bv_range view b"
proof -
  have b: "0 < bl_item_size ops b" "bl_item_size ops b dvd bv_base view b" using assms(2) by (simp_all add: block_inv_def)
  have self: "p \<in> item_at ops b p" using b by (simp add: item_at_def)
  have dvd: "bl_item_size ops b dvd p" using assms(1) b(2) by (simp add: takes_item_def)
  have same: "item_at ops b' = item_at ops b" using assms(1) by (simp add: item_at_def [abs_def] takes_item_def)
  have sep: "\<forall>q\<in>bv_lives view b. item_at ops b p \<inter> item_at ops b q = {}" using assms(1) by (simp add: takes_item_def)
  then show "p \<notin> bv_lives view b" using self by blast
  show "p \<in> bv_range view b" using assms(1) self by (auto simp: takes_item_def)
  show "block_inv ops view b'"
    using assms dvd sep unfolding block_inv_def same takes_item_def by (simp add: Int_commute)
qed

text \<open>An item of a block of the heap is handed out.\<close>

lemma heap_ok_take:
  assumes ok: "heap_ok ops view mem es live" and items: "set_items es = xs @ t # ys" "set_items es' = xs @ t' # ys"
    and shape: "set_shape es' = set_shape es"
    and takes: "takes_item ops view t p t'"
    and new: "\<not> is_big (p, layout)" "next_power_of_two (heap_req layout) = Some (bl_item_size ops t)"
  shows "heap_ok ops view mem es' ((p, layout) # live)"
proof -
  have "block_inv ops view t" using ok items(1) by (simp add: heap_ok_def)
  note inv = takes_item_inv [OF takes this]
  have t': "bl_item_size ops t' = bl_item_size ops t" "bv_range view t' = bv_range view t"
    "bv_lives view t' = insert p (bv_lives view t)" using takes by (simp_all add: takes_item_def)
  have "p \<noteq> fst pl" if "pl \<in> set live" "\<not> is_big pl" for pl
  proof
    assume "p = fst pl"
    with heap_ok_live(1) [OF ok that] obtain b where b: "b \<in> set (set_items es)" "p \<in> bv_lives view b"
      by (auto simp: small_in_def)
    from same_block [OF ok items(1) b(1) inv(3) b(2)] b(2) inv(2) show False by simp
  qed
  then have dist: "distinct (map fst (filter (\<lambda>pl. \<not> is_big pl) ((p, layout) # live)))"
    using ok new(1) by (auto simp: heap_ok_def)
  have regions: "heap_regions view es' ((p, layout) # live) = heap_regions view es live"
    using new(1) by (simp add: heap_regions_def items t'(2) set_blocks_shape [OF shape])
  have "small_in ops view (set_items es') pl" if "small_in ops view (set_items es) pl" for pl
    using that t'(1,3) by (auto simp: small_in_def items)
  moreover have "small_in ops view (set_items es') (p, layout)" using new(2) t'(1,3) by (auto simp: small_in_def items)
  moreover have "\<forall>b\<in>set (set_items es'). block_inv ops view b" using ok inv(1) by (auto simp: heap_ok_def items)
  ultimately show ?thesis
    using ok new(1) dist regions by (auto simp: heap_ok_def set_blocks_shape [OF shape])
qed

text \<open>A new block, or a new page for the list of blocks, joins the heap.\<close>

lemma heap_ok_add_block:
  assumes ok: "heap_ok ops view mem es live" and items: "set_items es = xs @ ys" "set_items es' = xs @ b # ys"
    and es': "set_blocks es' = set_blocks es" "entries_ok (bl_size_of ops) es'"
    and b: "block_inv ops view b" "bv_range view b \<subseteq> mem" "\<forall>R\<in>set (heap_regions view es live). bv_range view b \<inter> R = {}"
  shows "heap_ok ops view mem es' live"
proof -
  let ?rest = "map (bv_range view) ys @ map page_region (set_blocks es) @ map live_region (filter is_big live)"
  have old: "heap_regions view es live = map (bv_range view) xs @ ?rest" by (simp add: heap_regions_def items(1))
  have new: "heap_regions view es' live = map (bv_range view) xs @ bv_range view b # ?rest"
    by (simp add: heap_regions_def items(2) es'(1))
  have "disj_list (heap_regions view es' live)"
    using ok b(3) unfolding old new disj_list_insert by (simp add: heap_ok_def old)
  moreover have "\<forall>R\<in>set (heap_regions view es' live). R \<subseteq> mem"
    using ok b(2) unfolding heap_ok_def old new by auto
  moreover have "\<forall>pl\<in>set live. if is_big pl then big_ok pl else small_in ops view (set_items es') pl"
    using heap_ok_live [OF ok] by (auto simp: small_in_def items)
  ultimately show ?thesis using ok es'(2) b(1) by (auto simp: heap_ok_def items)
qed

lemma heap_ok_add_page:
  assumes ok: "heap_ok ops view mem es live"
    and a: "al_size a = PAGE_SIZE" "page_region a \<subseteq> mem" "\<forall>R\<in>set (heap_regions view es live). page_region a \<inter> R = {}"
  shows "heap_ok ops view mem (\<lparr>se_block = a, se_items = []\<rparr> # es) live"
proof -
  let ?rest = "map page_region (set_blocks es) @ map live_region (filter is_big live)"
  have old: "heap_regions view es live = map (bv_range view) (set_items es) @ ?rest" by (simp add: heap_regions_def)
  have new: "heap_regions view (\<lparr>se_block = a, se_items = []\<rparr> # es) live
      = map (bv_range view) (set_items es) @ page_region a # ?rest"
    by (simp add: heap_regions_def set_blocks_def)
  have "disj_list (heap_regions view (\<lparr>se_block = a, se_items = []\<rparr> # es) live)"
    using ok a(3) unfolding old new disj_list_insert by (simp add: heap_ok_def old)
  moreover have "\<forall>R\<in>set (heap_regions view (\<lparr>se_block = a, se_items = []\<rparr> # es) live). R \<subseteq> mem"
    using ok a(2) unfolding heap_ok_def old new by auto
  ultimately show ?thesis using ok a(1) by (simp add: heap_ok_def entries_ok_Cons)
qed

lemma set_push_ok:
  assumes x: "ext_ok x" "phys_ok owned x" "block_ops_ok ops view"
    and ok: "heap_ok ops view (owned (ms_phys m)) es live"
    and b: "block_inv ops view b" "bv_range view b \<subseteq> owned (ms_phys m)"
      "\<forall>R\<in>set (heap_regions view es live). bv_range view b \<inter> R = {}"
  shows "set_push x (bl_size_of ops) b es m = None \<and> x_allocate x PAGE_SIZE PAGE_SIZE (ms_phys m) = None
    \<or> (\<exists>es' m'. set_push x (bl_size_of ops) b es m = Some (es', m') \<and> heap_ok ops view (owned (ms_phys m')) es' live
        \<and> b \<in> set (set_items es'))"
proof -
  have entries: "entries_ok (bl_size_of ops) es" using ok by (simp add: heap_ok_def)
  from try_push_cases [OF this, of b] show ?thesis
  proof (elim disjE exE conjE)
    fix es' xs ys
    assume p: "try_push (bl_size_of ops) b es = Some (Inr (), es')" "set_items es = xs @ ys" "set_items es' = xs @ b # ys"
      "set_blocks es' = set_blocks es" "entries_ok (bl_size_of ops) es'"
    with heap_ok_add_block [OF ok p(2-5) b] show ?thesis by (simp add: set_push_def)
  next
    assume full: "try_push (bl_size_of ops) b es = Some (Inl b, es)"
    from phys_allocate_cases [OF x(1,2), of PAGE_SIZE PAGE_SIZE m] show ?thesis
    proof (elim disjE exE conjE)
      assume "phys_allocate x PAGE_SIZE PAGE_SIZE m = Some (None, m)" "x_allocate x PAGE_SIZE PAGE_SIZE (ms_phys m) = None"
      with full show ?thesis by (simp add: set_push_def)
    next
      fix a m'
      assume a: "phys_allocate x PAGE_SIZE PAGE_SIZE m = Some (Some a, m')" "al_size a = PAGE_SIZE"
        "phys_to_virt x (al_start a) = Some (HIGHER_HALF_START + al_start a)"
        "{HIGHER_HALF_START + al_start a..<HIGHER_HALF_START + al_start a + PAGE_SIZE} \<inter> owned (ms_phys m) = {}"
        "owned (ms_phys m') = owned (ms_phys m) \<union> {HIGHER_HALF_START + al_start a..<HIGHER_HALF_START + al_start a + PAGE_SIZE}"
      have page: "page_region a = {HIGHER_HALF_START + al_start a..<HIGHER_HALF_START + al_start a + PAGE_SIZE}"
        by (simp add: page_region_def a(2))
      let ?e = "\<lparr>se_block = a, se_items = []\<rparr>" and ?e' = "\<lparr>se_block = a, se_items = [b]\<rparr>"
      have sep: "\<forall>R\<in>set (heap_regions view es live). page_region a \<inter> R = {}"
        using ok a(4) unfolding heap_ok_def page by blast
      have ok1: "heap_ok ops view (owned (ms_phys m')) (?e # es) live"
        using heap_ok_add_page [OF heap_ok_mono [OF ok], of "owned (ms_phys m')" a] a(2,5) sep page by blast
      have cap: "0 < (PAGE_SIZE - OVERHEAD) div bl_size_of ops"
        using block_ops_okD(1,2) [OF x(3)] by (simp add: div_greater_zero_iff)
      then have push: "try_push (bl_size_of ops) b (?e # es) = Some (Inr (), ?e' # es)"
        using a(2) by (simp add: entry_capacity_page)
      have "\<forall>R\<in>set (heap_regions view (?e # es) live). bv_range view b \<inter> R = {}"
        using b(2,3) a(4) page by (auto simp: heap_regions_def set_blocks_def)
      moreover have "entries_ok (bl_size_of ops) (?e' # es)" using entries a(2) cap by (simp add: entries_ok_Cons)
      ultimately have "heap_ok ops view (owned (ms_phys m')) (?e' # es) live"
        using heap_ok_add_block [OF ok1, of "[]" "set_items es" "?e' # es" b] b(1,2) a(5) by (auto simp: set_blocks_def)
      moreover have "OVERHEAD < PAGE_SIZE" by (simp add: PAGE_SIZE_def OVERHEAD_def)
      ultimately show ?thesis
        using full a(1-3) push by (simp add: set_push_def push_allocation_def del: try_push.simps)
    qed
  qed
qed

lemma heap_ok_add_live:
  assumes ok: "heap_ok ops view mem es live" and "\<not> is_big (p, layout)" "small_in ops view (set_items es) (p, layout)"
    and "\<forall>pl\<in>set live. \<not> is_big pl \<longrightarrow> fst pl \<noteq> p"
  shows "heap_ok ops view mem es ((p, layout) # live)"
proof -
  have "heap_regions view es ((p, layout) # live) = heap_regions view es live"
    using assms(2) by (simp add: heap_regions_def)
  with assms show ?thesis by (auto simp: heap_ok_def)
qed

text \<open>An allocation either fails because the physical allocator refuses, or keeps the invariant.\<close>

definition out_of_memory :: "'a Ext \<Rightarrow> bool" where
  "out_of_memory x \<longleftrightarrow> (\<exists>sz al st. x_allocate x sz al st = None)"

lemma fresh_block:
  assumes "block_ops_ok ops view" "j \<le> 20" "PAGE_SIZE dvd a"
  defines "b \<equiv> bl_new ops (HIGHER_HALF_START + a) PAGE_SIZE (2 ^ j)"
  shows "block_inv ops view b" "\<not> bl_is_full ops b" "bl_item_size ops b = 2 ^ j"
    "bv_range view b = {HIGHER_HALF_START + a..<HIGHER_HALF_START + a + PAGE_SIZE}"
proof -
  have new: "bl_item_size ops b = 2 ^ j" "bv_range view b = {HIGHER_HALF_START + a..<HIGHER_HALF_START + a + PAGE_SIZE}"
    "bv_base view b = HIGHER_HALF_START + a" "bv_lives view b = {}"
    "0 < (2 :: nat) ^ j \<longrightarrow> 2 * 2 ^ j \<le> PAGE_SIZE \<longrightarrow> \<not> bl_is_full ops b"
    using block_ops_okD(3) [OF assms(1)] unfolding block_new_ok_def b_def by (simp_all add: Let_def)
  then show "bl_item_size ops b = 2 ^ j" "bv_range view b = {HIGHER_HALF_START + a..<HIGHER_HALF_START + a + PAGE_SIZE}"
    by simp_all
  have "(2 :: nat) ^ j \<le> 2 ^ 20" using assms(2) by (rule power_increasing) simp
  then show "\<not> bl_is_full ops b" using new(5) by (simp add: PAGE_SIZE_def)
  have page: "(2 :: nat) ^ j dvd 2 ^ 21" using assms(2) by (intro le_imp_power_dvd) simp
  then have "(2 :: nat) ^ j dvd a" using assms(3) by (intro dvd_trans [OF page]) (simp add: PAGE_SIZE_def)
  moreover have "(2 :: nat) ^ 21 dvd HIGHER_HALF_START" by (simp add: HIGHER_HALF_START_def)
  then have "(2 :: nat) ^ j dvd HIGHER_HALF_START" using page by (rule dvd_trans [rotated])
  ultimately show "block_inv ops view b"
    using new(1-4) by (simp add: block_inv_def HIGHER_HALF_START_def)
qed

lemma small_allocate_ok:
  assumes x: "ext_ok x" "phys_ok owned x" "block_ops_ok ops view"
    and ok: "heap_ok ops view (owned (ms_phys m)) es live" and small: "\<not> MIN_BUDDY \<le> heap_req layout"
  shows "small_allocate x ops (heap_req layout) es m = None \<and> out_of_memory x
    \<or> (\<exists>p es' m'. small_allocate x ops (heap_req layout) es m = Some (p, es', m')
        \<and> heap_ok ops view (owned (ms_phys m')) es' ((p, layout) # live))"
proof -
  obtain j where j: "next_power_of_two (heap_req layout) = Some (2 ^ j)" "2 ^ j \<le> MIN_BUDDY" "j \<le> 20"
    using heap_req_pow2 [OF small] by metis
  have nb: "\<not> is_big (p, layout)" for p using small by (simp add: is_big_def)
  let ?f = "\<lambda>block_ll. if bl_item_size ops block_ll = 2 ^ j \<and> \<not> bl_is_full ops block_ll
    then do { (p, block_ll) \<leftarrow> bl_allocate_one ops block_ll; Some (Some p, block_ll) } else Some (None, block_ll)"
  have "steady ?f (set_items es)"
    using block_ops_okD(4) [OF x(3)] by (fastforce simp: steady_def)
  from iterate_mut_first_cases [OF this] show ?thesis
  proof (elim disjE exE conjE)
    fix xs t r t' ys es'
    assume f: "set_items es = xs @ t # ys" "?f t = Some (Some r, t')"
      "iterate_mut_first ?f es = Some (Some r, es')" "set_items es' = xs @ t' # ys" "set_shape es' = set_shape es"
    from f(2) have t: "bl_item_size ops t = 2 ^ j" "\<not> bl_is_full ops t" "bl_allocate_one ops t = Some (r, t')"
      by (auto split: if_splits bind_splits)
    with block_ops_okD(4) [OF x(3) t(2)] have "takes_item ops view t r t'" by simp
    from heap_ok_take [OF ok f(1,4,5) this nb] j(1) t(1) f(3) show ?thesis by (simp add: small_allocate_def)
  next
    assume none: "iterate_mut_first ?f es = Some (None, es)"
    from phys_allocate_cases [OF x(1,2), of PAGE_SIZE PAGE_SIZE m] show ?thesis
    proof (elim disjE exE conjE)
      assume "phys_allocate x PAGE_SIZE PAGE_SIZE m = Some (None, m)" "x_allocate x PAGE_SIZE PAGE_SIZE (ms_phys m) = None"
      with none j(1) show ?thesis by (auto simp: small_allocate_def out_of_memory_def)
    next
      fix a m'
      assume a: "phys_allocate x PAGE_SIZE PAGE_SIZE m = Some (Some a, m')" "al_size a = PAGE_SIZE"
        "phys_to_virt x (al_start a) = Some (HIGHER_HALF_START + al_start a)" "PAGE_SIZE dvd al_start a"
        "{HIGHER_HALF_START + al_start a..<HIGHER_HALF_START + al_start a + PAGE_SIZE} \<inter> owned (ms_phys m) = {}"
        "owned (ms_phys m') = owned (ms_phys m) \<union> {HIGHER_HALF_START + al_start a..<HIGHER_HALF_START + al_start a + PAGE_SIZE}"
      let ?b = "bl_new ops (HIGHER_HALF_START + al_start a) PAGE_SIZE (2 ^ j)"
      note fresh = fresh_block [OF x(3) j(3) a(4)]
      obtain p b where b: "bl_allocate_one ops ?b = Some (p, b)" "takes_item ops view ?b p b"
        using block_ops_okD(4) [OF x(3) fresh(2)] by blast
      note inv = takes_item_inv [OF b(2) fresh(1)]
      have view: "bl_item_size ops b = 2 ^ j" "p \<in> bv_lives view b"
        "bv_range view b = {HIGHER_HALF_START + al_start a..<HIGHER_HALF_START + al_start a + PAGE_SIZE}"
        using b(2) fresh(3,4) by (simp_all add: takes_item_def)
      have ok': "heap_ok ops view (owned (ms_phys m')) es live" using ok by (rule heap_ok_mono) (simp add: a(6))
      have sep: "\<forall>R\<in>set (heap_regions view es live). bv_range view b \<inter> R = {}"
        using ok a(5) unfolding heap_ok_def view(3) by blast
      have other: "\<forall>pl\<in>set live. \<not> is_big pl \<longrightarrow> fst pl \<noteq> p"
        using heap_ok_pointer_range [OF ok] sep inv(3) fresh(4) view(3) by (fastforce simp: heap_regions_def)
      have own: "bv_range view b \<subseteq> owned (ms_phys m')" by (simp add: view(3) a(6))
      have step: "small_allocate x ops (heap_req layout) es m
          = do { (es, m) \<leftarrow> set_push x (bl_size_of ops) b es m'; Some (p, es, m) }"
        using none j(1) a(1-3) b(1) by (simp add: small_allocate_def HIGHER_HALF_START_def)
      from set_push_ok [OF x ok' inv(1) own sep] show ?thesis
      proof (elim disjE exE conjE)
        assume "set_push x (bl_size_of ops) b es m' = None" "x_allocate x PAGE_SIZE PAGE_SIZE (ms_phys m') = None"
        with step show ?thesis by (auto simp: out_of_memory_def)
      next
        fix es' m2
        assume push: "set_push x (bl_size_of ops) b es m' = Some (es', m2)"
          "heap_ok ops view (owned (ms_phys m2)) es' live" "b \<in> set (set_items es')"
        then have "small_in ops view (set_items es') (p, layout)" using j(1) view(1,2) by (auto simp: small_in_def intro!: bexI [of _ b])
        from heap_ok_add_live [OF push(2) nb this other] step push(1) show ?thesis by simp
      qed
    qed
  qed
qed

lemma heap_alloc_ok:
  assumes x: "ext_ok x" "phys_ok owned x" "block_ops_ok ops view"
    and ok: "heap_ok ops view (owned (ms_phys m)) es live"
  shows "heap_alloc x ops layout (es, m) = None \<and> out_of_memory x
    \<or> (\<exists>p es' m'. heap_alloc x ops layout (es, m) = Some (p, es', m')
        \<and> heap_ok ops view (owned (ms_phys m')) es' ((p, layout) # live))"
proof (cases "MIN_BUDDY \<le> heap_req layout")
  case False
  from small_allocate_ok [OF x ok False] False show ?thesis by (simp add: heap_alloc_def)
next
  case True
  obtain sz align where layout: "layout = (sz, align)" by (cases layout)
  from phys_allocate_cases [OF x(1,2), of sz align m] show ?thesis
  proof (elim disjE exE conjE)
    assume "phys_allocate x sz align m = Some (None, m)" "x_allocate x sz align (ms_phys m) = None"
    with True layout show ?thesis by (auto simp: heap_alloc_def out_of_memory_def)
  next
    fix a m'
    assume a: "phys_allocate x sz align m = Some (Some a, m')"
      "phys_to_virt x (al_start a) = Some (HIGHER_HALF_START + al_start a)" "align dvd al_start a" "al_start a \<noteq> 0"
      "al_start a + sz \<le> 2 ^ 46"
      "{HIGHER_HALF_START + al_start a..<HIGHER_HALF_START + al_start a + sz} \<inter> owned (ms_phys m) = {}"
      "owned (ms_phys m') = owned (ms_phys m) \<union> {HIGHER_HALF_START + al_start a..<HIGHER_HALF_START + al_start a + sz}"
    let ?pl = "(HIGHER_HALF_START + al_start a, layout)"
    have big: "is_big ?pl" using True by (simp add: is_big_def)
    have region: "live_region ?pl = {HIGHER_HALF_START + al_start a..<HIGHER_HALF_START + al_start a + sz}"
      by (simp add: live_region_def layout)
    let ?pre = "map (bv_range view) (set_items es) @ map page_region (set_blocks es)"
    have old: "heap_regions view es live = ?pre @ map live_region (filter is_big live)" by (simp add: heap_regions_def)
    have new: "heap_regions view es (?pl # live) = ?pre @ live_region ?pl # map live_region (filter is_big live)"
      using big by (simp add: heap_regions_def)
    have "\<forall>R\<in>set (heap_regions view es live). live_region ?pl \<inter> R = {}"
      using ok a(6) unfolding heap_ok_def region by blast
    then have "disj_list (heap_regions view es (?pl # live))"
      using ok unfolding new disj_list_insert by (simp add: heap_ok_def old)
    moreover have "\<forall>R\<in>set (heap_regions view es (?pl # live)). R \<subseteq> owned (ms_phys m')"
      using ok unfolding heap_ok_def old new a(7) region by auto
    moreover have "big_ok ?pl" using a(3-5) by (auto simp: big_ok_def layout)
    ultimately have "heap_ok ops view (owned (ms_phys m')) es (?pl # live)"
      using ok big by (simp add: heap_ok_def)
    with a(1,2) True layout show ?thesis by (simp add: heap_alloc_def)
  qed
qed

subsection \<open>Release\<close>

lemma distinct_map_remove1: "distinct (map f xs) \<Longrightarrow> distinct (map f (remove1 y xs))"
  by (induction xs) (auto dest: set_remove1_subset [THEN subsetD])

lemma remove1_in: "x \<in> set (remove1 y xs) \<Longrightarrow> x \<in> set xs"
  by (meson notin_set_remove1)

lemma heap_ok_drop_live:
  assumes ok: "heap_ok ops view mem es live" and "pl \<in> set live" "\<not> is_big pl"
  shows "heap_ok ops view mem es (remove1 pl live)"
proof -
  have "filter is_big (remove1 pl live) = filter is_big live" using assms(3) by (simp add: filter_remove1)
  then have "heap_regions view es (remove1 pl live) = heap_regions view es live" by (simp add: heap_regions_def)
  moreover have "distinct (map fst (filter (\<lambda>pl. \<not> is_big pl) (remove1 pl live)))"
    using ok by (simp add: heap_ok_def filter_remove1 distinct_map_remove1)
  ultimately show ?thesis using ok by (auto simp: heap_ok_def dest: remove1_in)
qed

lemma removed_pointer:
  assumes "heap_ok ops view mem es live" "pl \<in> set live" "\<not> is_big pl" "pl' \<in> set (remove1 pl live)" "\<not> is_big pl'"
  shows "fst pl' \<noteq> fst pl"
proof -
  let ?s = "filter (\<lambda>pl. \<not> is_big pl)"
  have "distinct (map fst (?s live))" using assms(1) by (simp add: heap_ok_def)
  moreover obtain xs ys where "?s live = xs @ pl # ys" "pl \<notin> set xs"
    using assms(2,3) split_list_first [of pl "?s live"] by auto
  moreover have "pl' \<in> set (remove1 pl (?s live))" using assms(4,5) by (simp flip: filter_remove1)
  ultimately show ?thesis by (auto simp: remove1_append) (metis image_eqI)+
qed

text \<open>An item goes back to its block.\<close>

lemma heap_ok_free:
  assumes ok: "heap_ok ops view mem es live" and pl: "(p, layout) \<in> set live" "\<not> is_big (p, layout)"
    and items: "set_items es = xs @ t # ys" "set_items es' = xs @ t' # ys" and shape: "set_shape es' = set_shape es"
    and frees: "frees_item ops view t p t'"
  shows "heap_ok ops view mem es' (remove1 (p, layout) live)"
proof -
  let ?live = "remove1 (p, layout) live"
  have ok': "heap_ok ops view mem es ?live" using heap_ok_drop_live [OF ok pl] .
  have t': "bl_item_size ops t' = bl_item_size ops t" "bv_range view t' = bv_range view t" "bv_base view t' = bv_base view t"
    "bv_lives view t' = bv_lives view t - {p}" using frees by (simp_all add: frees_item_def)
  have "item_at ops t' = item_at ops t" by (simp add: item_at_def [abs_def] t'(1))
  moreover have "block_inv ops view t" using ok items(1) by (simp add: heap_ok_def)
  ultimately have "block_inv ops view t'" by (simp add: block_inv_def t')
  then have "\<forall>b\<in>set (set_items es'). block_inv ops view b" using ok by (auto simp: heap_ok_def items)
  moreover have "heap_regions view es' ?live = heap_regions view es ?live"
    by (simp add: heap_regions_def items t'(2) set_blocks_shape [OF shape])
  moreover have "small_in ops view (set_items es') pl'" if "pl' \<in> set ?live" "\<not> is_big pl'" for pl'
  proof -
    from heap_ok_live(1) [OF ok' that] obtain b where b: "b \<in> set (set_items es)"
      "next_power_of_two (heap_req (snd pl')) = Some (bl_item_size ops b)" "fst pl' \<in> bv_lives view b"
      by (auto simp: small_in_def)
    have "fst pl' \<noteq> p" using removed_pointer [OF ok pl that] by simp
    with b t' show ?thesis by (cases "b = t") (auto simp: small_in_def items)
  qed
  ultimately show ?thesis
    using ok' heap_ok_live(2) [OF ok'] by (auto simp: heap_ok_def set_blocks_shape [OF shape])
qed

lemma small_deallocate_ok:
  assumes ops: "block_ops_ok ops view" and ok: "heap_ok ops view mem es live"
    and pl: "(p, layout) \<in> set live" "\<not> is_big (p, layout)"
  shows "\<exists>es'. small_deallocate ops p sz es = Some es' \<and> heap_ok ops view mem es' (remove1 (p, layout) live)"
proof -
  obtain b where b: "b \<in> set (set_items es)" "p \<in> bv_lives view b"
    using heap_ok_live(1) [OF ok pl] by (auto simp: small_in_def)
  have "p \<noteq> 0"
  proof -
    obtain b where "b \<in> set (set_items es)" "p \<in> bv_range view b" using heap_ok_pointer_range [OF ok pl] by auto
    moreover from this(1) ok have "0 \<notin> bv_range view b" by (simp add: heap_ok_def block_inv_def)
    ultimately show ?thesis by metis
  qed
  let ?f = "\<lambda>block_ll. if bl_item_size ops block_ll = sz \<and> bl_contains ops block_ll p
    then Some (Some (), bl_deallocate_one ops p block_ll) else Some (None, block_ll)"
  have "steady ?f (set_items es)" by (simp add: steady_def)
  from iterate_mut_first_cases [OF this] show ?thesis
  proof (elim disjE exE conjE)
    assume "iterate_mut_first ?f es = Some (None, es)"
    with \<open>p \<noteq> 0\<close> heap_ok_drop_live [OF ok pl] show ?thesis by (simp add: small_deallocate_def)
  next
    fix xs t r t' ys es'
    assume f: "set_items es = xs @ t # ys" "?f t = Some (Some r, t')"
      "iterate_mut_first ?f es = Some (Some r, es')" "set_items es' = xs @ t' # ys" "set_shape es' = set_shape es"
    then have t: "p \<in> bv_range view t" "t' = bl_deallocate_one ops p t"
      using block_ops_okD(5) [OF ops] by (auto split: if_splits)
    from same_block [OF ok f(1) b(1) t(1) b(2)] b(2) have "frees_item ops view t p t'"
      using block_ops_okD(6) [OF ops] t(2) by simp
    from heap_ok_free [OF ok pl f(1,4,5) this] f(3) \<open>p \<noteq> 0\<close> show ?thesis by (simp add: small_deallocate_def)
  qed
qed

lemma filter_remove1_split:
  assumes "y \<in> set xs" "P y"
  obtains us vs where "filter P xs = us @ y # vs" "filter P (remove1 y xs) = us @ vs"
proof -
  obtain us vs where "filter P xs = us @ y # vs" "y \<notin> set us" using assms split_list_first [of y "filter P xs"] by auto
  moreover from this have "filter P (remove1 y xs) = us @ vs"
    using assms(2) by (simp add: filter_remove1 remove1_append)
  ultimately show thesis using that by blast
qed

lemma big_deallocate_ok:
  assumes x: "ext_ok x" "phys_ok owned x" and ok: "heap_ok ops view (owned (ms_phys m)) es live"
    and pl: "(p, layout) \<in> set live" "is_big (p, layout)"
  shows "\<exists>m'. heap_dealloc x ops p layout (es, m) = Some (es, m')
    \<and> heap_ok ops view (owned (ms_phys m')) es (remove1 (p, layout) live)"
proof -
  obtain a where a: "p = HIGHER_HALF_START + a" "a \<noteq> 0" "a + fst layout \<le> 2 ^ 46"
    using heap_ok_live(2) [OF ok pl] by (auto simp: big_ok_def)
  let ?m' = "m\<lparr>ms_phys := x_deallocate x p (fst layout) (snd layout) (ms_phys m)\<rparr>"
  have "phys_to_virt x a = Some p"
    using a by (simp add: phys_to_virt_def checked_u64_def canonical_def ext_okD(1) [OF x(1)] HIGHER_HALF_START_def)
  then have step: "heap_dealloc x ops p layout (es, m) = Some (es, ?m')"
    using pl(2) a by (simp add: heap_dealloc_def is_big_def undo_offset_ptr_def checked_sub_def drop_allocation_def
      phys_deallocate_def Let_def)
  have own: "owned (ms_phys m) - live_region (p, layout) \<subseteq> owned (ms_phys ?m')"
    using x(2) by (simp add: phys_ok_def live_region_def)
  obtain us vs where f: "filter is_big live = us @ (p, layout) # vs" "filter is_big (remove1 (p, layout) live) = us @ vs"
    using pl by (rule filter_remove1_split)
  let ?pre = "map (bv_range view) (set_items es) @ map page_region (set_blocks es) @ map live_region us"
  have old: "heap_regions view es live = ?pre @ live_region (p, layout) # map live_region vs"
    and new: "heap_regions view es (remove1 (p, layout) live) = ?pre @ map live_region vs" by (simp_all add: heap_regions_def f)
  have dis: "disj_list (?pre @ map live_region vs)" "\<forall>B\<in>set (?pre @ map live_region vs). live_region (p, layout) \<inter> B = {}"
    using ok unfolding heap_ok_def old disj_list_insert by blast+
  have sub: "\<forall>R\<in>set (?pre @ map live_region vs). R \<subseteq> owned (ms_phys m)" using ok unfolding heap_ok_def old by simp
  have "\<forall>R\<in>set (?pre @ map live_region vs). R \<subseteq> owned (ms_phys ?m')"
  proof
    fix R assume "R \<in> set (?pre @ map live_region vs)"
    with sub dis(2) have "R \<subseteq> owned (ms_phys m)" "live_region (p, layout) \<inter> R = {}" by blast+
    then have "R \<subseteq> owned (ms_phys m) - live_region (p, layout)" by blast
    with own show "R \<subseteq> owned (ms_phys ?m')" by (rule subset_trans [rotated])
  qed
  moreover have "filter (\<lambda>pl. \<not> is_big pl) (remove1 (p, layout) live) = filter (\<lambda>pl. \<not> is_big pl) live"
    using pl(2) by (simp add: filter_remove1)
  ultimately have "heap_ok ops view (owned (ms_phys ?m')) es (remove1 (p, layout) live)"
    using ok dis(1) unfolding heap_ok_def new by (auto dest: remove1_in)
  with step show ?thesis by blast
qed

lemma heap_dealloc_ok:
  assumes x: "ext_ok x" "phys_ok owned x" "block_ops_ok ops view"
    and ok: "heap_ok ops view (owned (ms_phys m)) es live" and pl: "(p, layout) \<in> set live"
  shows "\<exists>es' m'. heap_dealloc x ops p layout (es, m) = Some (es', m')
    \<and> heap_ok ops view (owned (ms_phys m')) es' (remove1 (p, layout) live)"
proof (cases "is_big (p, layout)")
  case True
  from big_deallocate_ok [OF x(1,2) ok pl True] show ?thesis by blast
next
  case False
  from small_deallocate_ok [OF x(3) ok pl False, of "heap_req layout"] False show ?thesis
    by (auto simp: heap_dealloc_def is_big_def)
qed

subsection \<open>All runs of the heap\<close>

text \<open>
  The states of the heap that can arise, with the allocations in use. Between its operations the
  rest of the kernel may use the physical allocator, as long as it leaves the heap what it owns.
\<close>

inductive heap_reach :: "('a \<Rightarrow> nat set) \<Rightarrow> 'a Ext \<Rightarrow> 'b BlockOps \<Rightarrow> 'b BlockView
    \<Rightarrow> 'b SetEntry list \<Rightarrow> 'a Mem \<Rightarrow> (nat \<times> nat \<times> nat) list \<Rightarrow> bool"
  for owned x ops view where
  heap_start: "heap_reach owned x ops view [] m []"
| heap_alloc: "heap_reach owned x ops view es m live \<Longrightarrow> heap_alloc x ops layout (es, m) = Some (p, es', m')
    \<Longrightarrow> heap_reach owned x ops view es' m' ((p, layout) # live)"
| heap_dealloc: "heap_reach owned x ops view es m live \<Longrightarrow> (p, layout) \<in> set live
    \<Longrightarrow> heap_dealloc x ops p layout (es, m) = Some (es', m')
    \<Longrightarrow> heap_reach owned x ops view es' m' (remove1 (p, layout) live)"
| heap_others: "heap_reach owned x ops view es m live
    \<Longrightarrow> \<forall>R\<in>set (heap_regions view es live). R \<subseteq> owned (ms_phys m')
    \<Longrightarrow> heap_reach owned x ops view es m' live"

lemma heap_reach_ok:
  assumes "heap_reach owned x ops view es m live" and x: "ext_ok x" "phys_ok owned x" "block_ops_ok ops view"
  shows "heap_ok ops view (owned (ms_phys m)) es live"
  using assms(1)
proof induction
  case (heap_start m)
  then show ?case by (simp add: heap_ok_def heap_regions_def entries_ok_def set_shape_def set_blocks_def disj_list_def)
next
  case (heap_alloc es m live layout p es' m')
  then show ?case using heap_alloc_ok [OF x heap_alloc.IH, of layout] by auto
next
  case (heap_dealloc es m live p layout es' m')
  then show ?case using heap_dealloc_ok [OF x heap_dealloc.IH heap_dealloc.hyps(2)] by auto
next
  case (heap_others es m live m')
  then show ?case by (simp add: heap_ok_def)
qed

text \<open>Every allocation in use lies in the memory of its block or in memory of its own.\<close>

lemma live_small:
  assumes ok: "heap_ok ops view mem es live" and pl: "pl \<in> set live" "\<not> is_big pl"
  obtains b where "b \<in> set (set_items es)" "fst pl \<in> bv_lives view b" "live_region pl \<subseteq> item_at ops b (fst pl)"
    "item_at ops b (fst pl) \<subseteq> bv_range view b" "bl_item_size ops b dvd fst pl" "heap_req (snd pl) \<le> bl_item_size ops b"
    "\<exists>j. bl_item_size ops b = 2 ^ j"
proof -
  from heap_ok_live(1) [OF ok pl] obtain b where b: "b \<in> set (set_items es)"
    "next_power_of_two (heap_req (snd pl)) = Some (bl_item_size ops b)" "fst pl \<in> bv_lives view b"
    by (auto simp: small_in_def)
  have "\<not> MIN_BUDDY \<le> heap_req (snd pl)" using pl(2) by (simp add: is_big_def)
  then obtain j where j: "bl_item_size ops b = 2 ^ j" "heap_req (snd pl) \<le> 2 ^ j"
    using heap_req_pow2 b(2) by (metis option.inject)
  then have "live_region pl \<subseteq> item_at ops b (fst pl)" by (auto simp: live_region_def item_at_def heap_req_def)
  moreover have "block_inv ops view b" using ok b(1) by (simp add: heap_ok_def)
  ultimately show thesis using that [OF b(1,3)] j b(3) by (simp add: block_inv_def)
qed

lemma sorted_wrt_partition:
  assumes "sorted_wrt P (filter Q xs)" "sorted_wrt P (filter (\<lambda>x. \<not> Q x) xs)"
    and "\<And>x y. x \<in> set xs \<Longrightarrow> y \<in> set xs \<Longrightarrow> Q x \<Longrightarrow> \<not> Q y \<Longrightarrow> P x y \<and> P y x"
  shows "sorted_wrt P xs"
  using assms
proof (induction xs)
  case (Cons x xs)
  have "P x y" if "y \<in> set xs" for y
    using Cons.prems(1,2) Cons.prems(3) [of x y] Cons.prems(3) [of y x] that by (cases "Q x"; cases "Q y") auto
  moreover have "sorted_wrt P xs" using Cons.prems by (intro Cons.IH) (auto split: if_splits)
  ultimately show ?case by simp
qed simp

lemma sorted_wrt_distinct:
  assumes "distinct (map f xs)" "\<And>x y. x \<in> set xs \<Longrightarrow> y \<in> set xs \<Longrightarrow> f x \<noteq> f y \<Longrightarrow> P x y"
  shows "sorted_wrt P xs"
  using assms by (induction xs) auto

lemma sorted_wrt_symmetric:
  assumes "sorted_wrt P xs" "x \<in> set xs" "y \<in> set xs" "x \<noteq> y" "\<And>x y. P x y \<Longrightarrow> P y x"
  shows "P x y"
  using assms by (induction xs) auto

lemma live_disjoint:
  assumes ok: "heap_ok ops view mem es live"
  shows "disj_list (map live_region live)"
proof -
  let ?P = "\<lambda>x y. live_region x \<inter> live_region y = {}"
  have "disj_list (heap_regions view es live)" using ok by (simp add: heap_ok_def)
  then have bigs: "sorted_wrt ?P (filter is_big live)" and cross:
    "\<And>b x. b \<in> set (set_items es) \<Longrightarrow> x \<in> set live \<Longrightarrow> is_big x \<Longrightarrow> bv_range view b \<inter> live_region x = {}"
    and blocks: "sorted_wrt (\<lambda>b b'. bv_range view b \<inter> bv_range view b' = {}) (set_items es)"
    by (auto simp: heap_regions_def disj_list_def sorted_wrt_append sorted_wrt_map)
  have two: "?P x y" if x: "x \<in> set live" "\<not> is_big x" and y: "y \<in> set live" "\<not> is_big y" and "fst x \<noteq> fst y" for x y
  proof -
    from x obtain b where b: "b \<in> set (set_items es)" "fst x \<in> bv_lives view b" "live_region x \<subseteq> item_at ops b (fst x)"
      "item_at ops b (fst x) \<subseteq> bv_range view b" by (rule live_small [OF ok])
    from y obtain c where c: "c \<in> set (set_items es)" "fst y \<in> bv_lives view c" "live_region y \<subseteq> item_at ops c (fst y)"
      "item_at ops c (fst y) \<subseteq> bv_range view c" by (rule live_small [OF ok])
    show ?thesis
    proof (cases "b = c")
      case True
      have "block_inv ops view b" using ok b(1) by (simp add: heap_ok_def)
      with True b(2) c(2) \<open>fst x \<noteq> fst y\<close> have "item_at ops b (fst x) \<inter> item_at ops b (fst y) = {}"
        by (simp add: block_inv_def)
      with True b(3) c(3) show ?thesis by blast
    next
      case False
      then have "bv_range view b \<inter> bv_range view c = {}"
        using sorted_wrt_symmetric [OF blocks b(1) c(1)] by (simp add: Int_commute)
      with b c show ?thesis by blast
    qed
  qed
  have "sorted_wrt ?P live"
  proof (rule sorted_wrt_partition [OF bigs])
    show "sorted_wrt ?P (filter (\<lambda>x. \<not> is_big x) live)"
      using ok two by (intro sorted_wrt_distinct [of fst]) (auto simp: heap_ok_def)
    fix x y assume "x \<in> set live" "y \<in> set live" "is_big x" "\<not> is_big y"
    from \<open>y \<in> set live\<close> \<open>\<not> is_big y\<close> obtain b where "b \<in> set (set_items es)" "live_region y \<subseteq> item_at ops b (fst y)"
      "item_at ops b (fst y) \<subseteq> bv_range view b" by (rule live_small [OF ok])
    with cross \<open>x \<in> set live\<close> \<open>is_big x\<close> show "?P x y \<and> ?P y x" by blast
  qed
  then show ?thesis by (simp add: disj_list_def sorted_wrt_map)
qed

lemma live_placed:
  assumes ok: "heap_ok ops view mem es live" and pl: "(p, sz, 2 ^ k) \<in> set live" "k \<le> 47"
  shows "{p..<p + sz} \<subseteq> mem" "2 ^ k dvd p"
proof -
  let ?pl = "(p, sz, 2 ^ k) :: nat \<times> nat \<times> nat"
  have region: "live_region ?pl = {p..<p + sz}" by (simp add: live_region_def)
  have "{p..<p + sz} \<subseteq> mem \<and> 2 ^ k dvd p"
  proof (cases "is_big ?pl")
    case True
    then have "live_region ?pl \<subseteq> mem" using ok pl(1) by (auto simp: heap_ok_def heap_regions_def)
    moreover obtain a where a: "p = HIGHER_HALF_START + a" "2 ^ k dvd a"
      using heap_ok_live(2) [OF ok pl(1) True] by (auto simp: big_ok_def)
    have "(2 :: nat) ^ k dvd 2 ^ 47" using pl(2) by (rule le_imp_power_dvd)
    then have "2 ^ k dvd HIGHER_HALF_START" by (rule dvd_trans) (simp add: HIGHER_HALF_START_def)
    ultimately show ?thesis using a region by simp
  next
    case False
    from pl(1) False obtain b where b: "b \<in> set (set_items es)" "live_region ?pl \<subseteq> item_at ops b (fst ?pl)"
      "item_at ops b (fst ?pl) \<subseteq> bv_range view b" "bl_item_size ops b dvd fst ?pl" "heap_req (snd ?pl) \<le> bl_item_size ops b"
      "\<exists>j. bl_item_size ops b = 2 ^ j" by (rule live_small [OF ok])
    then obtain j where j: "bl_item_size ops b = 2 ^ j" by blast
    with b(5) have "(2 :: nat) ^ k \<le> 2 ^ j" by (simp add: heap_req_def)
    then have "(2 :: nat) ^ k dvd 2 ^ j" by (intro le_imp_power_dvd) simp
    moreover have "bv_range view b \<subseteq> mem" using ok b(1) by (auto simp: heap_ok_def heap_regions_def)
    ultimately show ?thesis using b region j by (metis (no_types) dvd_trans fst_conv order_trans)
  qed
  then show "{p..<p + sz} \<subseteq> mem" "2 ^ k dvd p" by simp_all
qed


text \<open>
  An item whose requested size is not a power of two is not given back: its block holds items of
  the rounded size, but the release looks for a block with the requested one.
\<close>

lemma odd_size_not_released:
  assumes "\<forall>b\<in>set (set_items es). \<exists>j. bl_item_size ops b = 2 ^ j" "\<forall>j. sz \<noteq> 2 ^ j" "p \<noteq> 0"
  shows "small_deallocate ops p sz es = Some es"
proof -
  let ?f = "\<lambda>block_ll. if bl_item_size ops block_ll = sz \<and> bl_contains ops block_ll p
    then Some (Some (), bl_deallocate_one ops p block_ll) else Some (None, block_ll)"
  have "steady ?f (set_items es)" by (simp add: steady_def)
  from iterate_mut_first_cases [OF this] have "iterate_mut_first ?f es = Some (None, es)"
  proof (elim disjE exE conjE)
    fix xs t r t' ys es'
    assume "set_items es = xs @ t # ys" "?f t = Some (Some r, t')"
    moreover from this(1) assms(1,2) have "bl_item_size ops t \<noteq> sz" by auto
    ultimately show ?thesis by simp
  qed
  with assms(3) show ?thesis by (simp add: small_deallocate_def)
qed

text \<open>
  An example: a block allocator that numbers its items, \<open>n\<close> of which have been handed out, on
  the consecutive physical allocator.
\<close>

record NumBlock =
  nb_base :: nat
  nb_len :: nat
  nb_size :: nat
  nb_count :: nat
  nb_used :: "nat list"

definition num_ops :: "NumBlock BlockOps" where
  "num_ops = \<lparr>bl_new = (\<lambda>p len sz. \<lparr>nb_base = p, nb_len = len, nb_size = sz, nb_count = 0, nb_used = []\<rparr>),
     bl_item_size = nb_size,
     bl_is_full = (\<lambda>b. nb_len b < (nb_count b + 1) * nb_size b),
     bl_allocate_one = (\<lambda>b. if nb_len b < (nb_count b + 1) * nb_size b then None
       else Some (nb_base b + nb_count b * nb_size b, b\<lparr>nb_count := nb_count b + 1, nb_used := nb_count b # nb_used b\<rparr>)),
     bl_contains = (\<lambda>b p. nb_base b \<le> p \<and> p < nb_base b + nb_len b),
     bl_deallocate_one = (\<lambda>p b. b\<lparr>nb_used := filter (\<lambda>i. nb_base b + i * nb_size b \<noteq> p) (nb_used b)\<rparr>),
     bl_size_of = 64\<rparr>"

definition num_view :: "NumBlock BlockView" where
  "num_view = \<lparr>bv_range = (\<lambda>b. {nb_base b..<nb_base b + nb_len b}), bv_base = nb_base,
     bv_lives = (\<lambda>b. (\<lambda>i. nb_base b + i * nb_size b) ` {i \<in> set (nb_used b). i < nb_count b})\<rparr>"

definition bump_owned :: "nat \<Rightarrow> nat set" where
  "bump_owned st = {HIGHER_HALF_START..<HIGHER_HALF_START + st}"

lemma num_takes:
  assumes "\<not> bl_is_full num_ops b"
  shows "\<exists>p b'. bl_allocate_one num_ops b = Some (p, b') \<and> takes_item num_ops num_view b p b'"
proof -
  have room: "nb_count b * nb_size b + nb_size b \<le> nb_len b" using assms by (simp add: num_ops_def)
  have sep: "{nb_base b + nb_count b * nb_size b..<nb_base b + nb_count b * nb_size b + nb_size b}
      \<inter> {nb_base b + i * nb_size b..<nb_base b + i * nb_size b + nb_size b} = {}" if "i < nb_count b" for i
  proof -
    have "(i + 1) * nb_size b \<le> nb_count b * nb_size b" using that by (intro mult_le_mono1) simp
    then show ?thesis by auto
  qed
  have "{i \<in> set (nb_count b # nb_used b). i < nb_count b + 1} = insert (nb_count b) {i \<in> set (nb_used b). i < nb_count b}"
    by auto
  with assms room sep show ?thesis
    by (auto simp: takes_item_def num_ops_def num_view_def item_at_def)
qed

lemma num_frees: "frees_item num_ops num_view b p (bl_deallocate_one num_ops p b)"
  by (auto simp: frees_item_def num_ops_def num_view_def)

lemma num_ok: "block_ops_ok num_ops num_view"
  unfolding block_ops_ok_def block_new_ok_def
  using num_takes num_frees by (auto simp: num_ops_def num_view_def PAGE_SIZE_def OVERHEAD_def Let_def)

lemma bump_phys_ok: "phys_ok bump_owned bump"
  by (auto simp: phys_ok_def bump_def bump_owned_def split: if_splits)

definition demo_heap_mem :: "nat Mem" where
  "demo_heap_mem = \<lparr>ms_page_map = \<lparr>pm_phys_addr = 0, pm_table_count = 0, pm_mem = (\<lambda>_ _. None)\<rparr>, ms_free_list = [],
     ms_ram = (\<lambda>_. 0), ms_phys = PAGE_SIZE\<rparr>"

lemma demo_heap_alloc:
  "\<exists>es m. heap_alloc bump num_ops (24, 8) ([], demo_heap_mem) = Some (HIGHER_HALF_START + PAGE_SIZE, es, m)"
proof -
  have pow: "next_power_of_two 24 = Some 32"
    by (simp add: next_power_of_two_def pow2_from.simps checked_u64_def)
  have page: "phys_allocate bump PAGE_SIZE PAGE_SIZE m
      = Some (Some \<lparr>al_start = ms_phys m, al_size = PAGE_SIZE, al_align = PAGE_SIZE\<rparr>, m\<lparr>ms_phys := ms_phys m + PAGE_SIZE\<rparr>)"
    if "ms_phys m = PAGE_SIZE \<or> ms_phys m = 2 * PAGE_SIZE" for m
    using that by (auto simp: phys_allocate_def bump_def undo_offset_ptr_def checked_sub_def to_allocation_def phys_addr_def
      PAGE_SIZE_def)
  have virt: "phys_to_virt bump PAGE_SIZE = Some (HIGHER_HALF_START + PAGE_SIZE)"
    "phys_to_virt bump (2 * PAGE_SIZE) = Some (HIGHER_HALF_START + 2 * PAGE_SIZE)"
    by (simp_all add: phys_to_virt_ok [OF bump_ok] PAGE_SIZE_def)
  have push: "\<exists>es m'. set_push bump 64 b [] m = Some (es, m')" if "ms_phys m = 2 * PAGE_SIZE" for b :: NumBlock and m
    using page [of m] that virt(2)
    by (simp add: set_push_def push_allocation_def entry_capacity_def checked_sub_def) (simp add: PAGE_SIZE_def OVERHEAD_def)
  have "\<exists>es m. small_allocate bump num_ops 24 [] demo_heap_mem = Some (HIGHER_HALF_START + PAGE_SIZE, es, m)"
  proof -
    let ?b = "\<lparr>nb_base = HIGHER_HALF_START + PAGE_SIZE, nb_len = PAGE_SIZE, nb_size = 32, nb_count = 1, nb_used = [0]\<rparr>"
    let ?m = "demo_heap_mem\<lparr>ms_phys := 2 * PAGE_SIZE\<rparr>"
    obtain es m' where "set_push bump 64 ?b [] ?m = Some (es, m')" using push [of ?m ?b] by auto
    with page [of demo_heap_mem] virt(1) pow show ?thesis
      by (simp add: small_allocate_def demo_heap_mem_def num_ops_def mult_2) (simp add: PAGE_SIZE_def)
  qed
  then show ?thesis by (simp add: heap_alloc_def heap_req_def MIN_ALLOC_def MIN_BUDDY_def)
qed


end
