(* ===== verification/AcpiTables.thy ===== *)
theory AcpiTables
  imports Pci PhysMem
begin

text \<open>
  ACPI (\<open>src/driver/acpi\<close>): the search for the root pointer and the root table (\<open>tables/rsdt.rs\<close>,
  \<open>tables/mod.rs\<close>), the interrupt controller table (\<open>tables/madt.rs\<close>), the fixed table
  (\<open>tables/fadt.rs\<close>), and the accesses the kernel provides to the interpreter (\<open>mod.rs\<close>). The
  memory is a function from physical addresses to bytes. The crates \<open>acpi\<close> and \<open>aml\<close> are not
  modelled; what they return to the kernel is an argument. A panic is \<open>None\<close>.
\<close>

unbundle bit_operations_syntax

subsection \<open>Reading memory\<close>

definition rd :: "(nat \<Rightarrow> u8) \<Rightarrow> nat \<Rightarrow> nat \<Rightarrow> nat" where
  "rd mem p n = from_le (mem_range mem p n)"

definition ascii_bytes :: "string \<Rightarrow> bytes" where
  "ascii_bytes s = map of_char s"

text \<open>\<open>phys_to_virt(PhysAddr::new(p))\<close>, as the physical address that is read through it.\<close>

definition table_ptr :: "'a Ext \<Rightarrow> nat \<Rightarrow> nat option" where
  "table_ptr x p = do {
     p \<leftarrow> phys_addr p;
     _ \<leftarrow> phys_to_virt x p;
     Some p
   }"

definition step_by :: "nat \<Rightarrow> nat \<Rightarrow> nat \<Rightarrow> nat list" where
  "step_by a b s = map (\<lambda>i. a + s * i) [0..<(b - a + s - 1) div s]"

subsection \<open>The root pointer (tables/rsdt.rs)\<close>

datatype RSDPParseError = RsdpNotFound | UnsupportedVersion | IncorrectChecksum
datatype ParseResult = RSDT nat | XSDT nat

definition RSDP_SIGNATURE :: bytes where "RSDP_SIGNATURE = ascii_bytes ''RSD PTR ''"

definition rsdp_places :: "nat list" where
  "rsdp_places = step_by 0x9fc00 (0x9fc00 + 0x10 * 0x64) 0x10 @ step_by 0xe0000 0xfffff 0x10"

definition parse_rsdp :: "(nat \<Rightarrow> u8) \<Rightarrow> nat \<Rightarrow> RSDPParseError + ParseResult" where
  "parse_rsdp mem p =
     (let revision = mem (p + 15);
          csum_1 = sum_list (map unat (mem_range mem p 20))
      in if \<not> (revision = 0 \<or> revision = 2) then Inl UnsupportedVersion
      else if csum_1 mod 256 \<noteq> 0 then Inl IncorrectChecksum
      else if revision = 2
        then (let csum_2 = sum_list (map unat (mem_range mem p 64)) in
          if csum_2 mod 256 \<noteq> 0 then Inl IncorrectChecksum
          else Inr (XSDT (rd mem (p + 24) 8)))
      else Inr (RSDT (rd mem (p + 16) 4)))"

definition get_rsdp_and_parse :: "(nat \<Rightarrow> u8) \<Rightarrow> RSDPParseError + ParseResult" where
  "get_rsdp_and_parse mem =
     (case find (\<lambda>p. mem_range mem p 8 = RSDP_SIGNATURE) rsdp_places of
        Some p \<Rightarrow> parse_rsdp mem p
      | None \<Rightarrow> Inl RsdpNotFound)"

text \<open>The same search in \<open>mod.rs\<close>, which gives the address itself.\<close>

definition get_rsdp_addr :: "(nat \<Rightarrow> u8) \<Rightarrow> nat option" where
  "get_rsdp_addr mem = find (\<lambda>p. mem_range mem p 8 = RSDP_SIGNATURE) rsdp_places"

subsection \<open>The root table (tables/mod.rs)\<close>

definition SDT_HEADER_SIZE :: nat where "SDT_HEADER_SIZE = 36"

definition sdt_signature :: "(nat \<Rightarrow> u8) \<Rightarrow> nat \<Rightarrow> bytes" where
  "sdt_signature mem p = mem_range mem p 4"

definition sdt_length :: "(nat \<Rightarrow> u8) \<Rightarrow> nat \<Rightarrow> nat" where
  "sdt_length mem p = rd mem (p + 4) 4"

record Rsdt =
  legacy_acpi :: bool
  rsdt_entries :: "bytes \<rightharpoonup> nat"

definition rsdt_entry :: "'a Ext \<Rightarrow> (nat \<Rightarrow> u8) \<Rightarrow> nat \<Rightarrow> nat \<Rightarrow> (bytes \<rightharpoonup> nat) \<Rightarrow> nat \<Rightarrow> (bytes \<rightharpoonup> nat) option" where
  "rsdt_entry x mem header_ptr body_ptr_size entries i = do {
     vptr_ptr \<leftarrow> table_ptr x (header_ptr + (SDT_HEADER_SIZE + i * body_ptr_size));
     p \<leftarrow> table_ptr x (rd mem vptr_ptr body_ptr_size);
     Some (entries(sdt_signature mem p \<mapsto> p))
   }"

definition init_rsdt :: "'a Ext \<Rightarrow> (nat \<Rightarrow> u8) \<Rightarrow> Rsdt option" where
  "init_rsdt x mem =
     (case get_rsdp_and_parse mem of
        Inl e \<Rightarrow> None
      | Inr r \<Rightarrow> do {
          let header_ptr = (case r of RSDT p \<Rightarrow> p | XSDT p \<Rightarrow> p);
          let body_ptr_size = (case r of RSDT _ \<Rightarrow> 4 | XSDT _ \<Rightarrow> 8);
          p \<leftarrow> table_ptr x header_ptr;
          rassert (sdt_signature mem p = ascii_bytes ''RSDT'');
          body \<leftarrow> checked_sub (sdt_length mem p) SDT_HEADER_SIZE;
          entries \<leftarrow> foldM (rsdt_entry x mem header_ptr body_ptr_size) (\<lambda>_. None) [0..<body div body_ptr_size];
          Some \<lparr>legacy_acpi = (case r of RSDT _ \<Rightarrow> True | XSDT _ \<Rightarrow> False), rsdt_entries = entries\<rparr>
        })"

definition rsdt_get :: "Rsdt \<Rightarrow> bytes \<Rightarrow> nat option" where
  "rsdt_get r key = rsdt_entries r key"

subsection \<open>The interrupt controller table (tables/madt.rs)\<close>

record ProcessorLocalAPIC =
  pl_processor_id :: nat
  pl_acpi_id :: nat
  pl_flags :: nat

record IoAPIC =
  ia_id :: nat
  ia_reserved :: nat
  ia_addr :: nat
  ia_gsib :: nat

record InterruptSourceOverride =
  is_bus_source :: nat
  is_irq_source :: nat
  is_gsi :: nat
  is_flags :: nat

record ACPIData =
  ad_local_apic_addr :: nat
  ad_cpus :: "ProcessorLocalAPIC list"
  ad_io_apics :: "IoAPIC list"
  ad_int_source_overrides :: "InterruptSourceOverride list"

definition madt_body :: "(nat \<Rightarrow> u8) \<Rightarrow> nat \<Rightarrow> nat \<Rightarrow> nat \<Rightarrow> ACPIData \<Rightarrow> ACPIData option" where
  "madt_body mem entry_type body_size p d =
     (if entry_type = 0 then do {
        rassert (body_size = 6);
        Some (d\<lparr>ad_cpus := ad_cpus d @
          [\<lparr>pl_processor_id = rd mem p 1, pl_acpi_id = rd mem (p + 1) 1, pl_flags = rd mem (p + 2) 4\<rparr>]\<rparr>)
      }
      else if entry_type = 1 then do {
        rassert (body_size = 10);
        Some (d\<lparr>ad_io_apics := ad_io_apics d @ [\<lparr>ia_id = rd mem p 1, ia_reserved = rd mem (p + 1) 1,
          ia_addr = rd mem (p + 2) 4, ia_gsib = rd mem (p + 6) 4\<rparr>]\<rparr>)
      }
      else if entry_type = 2 then do {
        rassert (body_size = 8);
        Some (d\<lparr>ad_int_source_overrides := ad_int_source_overrides d @ [\<lparr>is_bus_source = rd mem p 1,
          is_irq_source = rd mem (p + 1) 1, is_gsi = rd mem (p + 2) 4, is_flags = rd mem (p + 6) 2\<rparr>]\<rparr>)
      }
      else if entry_type = 4 then do { rassert (body_size = 4); Some d }
      else if entry_type = 5 then do { rassert (body_size = 10); Some d }
      else None)"

text \<open>The loop ends because every entry is longer than nothing and the pointer may not pass the end.\<close>

function madt_loop :: "(nat \<Rightarrow> u8) \<Rightarrow> nat \<Rightarrow> nat \<Rightarrow> ACPIData \<Rightarrow> ACPIData option" where
  "madt_loop mem table_end p d =
     (case checked_sub (rd mem (p + 1) 1) 2 of
        None \<Rightarrow> None
      | Some body_size \<Rightarrow>
         (case madt_body mem (rd mem p 1) body_size (p + 2) d of
            None \<Rightarrow> None
          | Some d \<Rightarrow>
             if p + 2 + body_size = table_end then Some d
             else if p + 2 + body_size < table_end then madt_loop mem table_end (p + 2 + body_size) d
             else None))"
  by auto
termination by (relation "measure (\<lambda>(mem, table_end, p, d). table_end - p)") auto

declare madt_loop.simps [simp del]

definition madt_init :: "'a Ext \<Rightarrow> (nat \<Rightarrow> u8) \<Rightarrow> Rsdt \<Rightarrow> ACPIData option" where
  "madt_init x mem r = do {
     apic_addr \<leftarrow> rsdt_get r (ascii_bytes ''APIC'');
     p \<leftarrow> table_ptr x apic_addr;
     rassert (sdt_length mem p > 8);
     let local_apic_addr = rd mem (p + SDT_HEADER_SIZE) 4;
     madt_loop mem (p + sdt_length mem p) (p + SDT_HEADER_SIZE + 8)
       \<lparr>ad_local_apic_addr = local_apic_addr, ad_cpus = [], ad_io_apics = [], ad_int_source_overrides = []\<rparr>
   }"

subsection \<open>The fixed table (tables/fadt.rs)\<close>

text \<open>Offsets of the two fields that are used; the result is the address and the length of the code.\<close>

definition FADT_DSDT :: nat where "FADT_DSDT = 40"
definition FADT_X_DSDT :: nat where "FADT_X_DSDT = 140"

definition fadt_init :: "'a Ext \<Rightarrow> (nat \<Rightarrow> u8) \<Rightarrow> Rsdt \<Rightarrow> (nat \<times> nat) option" where
  "fadt_init x mem r = do {
     fadt_ptr \<leftarrow> rsdt_get r (ascii_bytes ''FACP'');
     p \<leftarrow> table_ptr x fadt_ptr;
     let dsdt_phys = (if legacy_acpi r then rd mem (p + FADT_DSDT) 4 else rd mem (p + FADT_X_DSDT) 8);
     v \<leftarrow> table_ptr x dsdt_phys;
     Some (v, sdt_length mem v)
   }"

text \<open>The first part of \<open>acpi::init\<close>.\<close>

definition acpi_init_tables :: "'a Ext \<Rightarrow> (nat \<Rightarrow> u8) \<Rightarrow> (Rsdt \<times> ACPIData \<times> nat \<times> nat) option" where
  "acpi_init_tables x mem = do {
     r \<leftarrow> init_rsdt x mem;
     d \<leftarrow> madt_init x mem r;
     code \<leftarrow> fadt_init x mem r;
     Some (r, d, code)
   }"

subsection \<open>Registers given by generic addresses (mod.rs)\<close>

datatype AddressSpace = SystemMemory | SystemIo | OtherSpace

record GenericAddress =
  ga_space :: AddressSpace
  ga_bit_width :: nat
  ga_address :: nat

definition read_generic_addr :: "Dev \<Rightarrow> GenericAddress \<Rightarrow> io_log \<Rightarrow> (u64 \<times> io_log) option" where
  "read_generic_addr dv a l = (case ga_space a of
       SystemIo \<Rightarrow> do {
         rassert (ga_address a \<le> 65535);
         let port = of_nat (ga_address a);
         (if ga_bit_width a = 8 then (let (v, l) = in8 dv port l in Some (ucast v, l))
          else if ga_bit_width a = 16 then (let (v, l) = in16 dv port l in Some (ucast v, l))
          else if ga_bit_width a = 32 then (let (v, l) = in32 dv port l in Some (ucast v, l))
          else None)
       }
     | _ \<Rightarrow> None)"

definition write_generic_addr :: "GenericAddress \<Rightarrow> u64 \<Rightarrow> io_log \<Rightarrow> io_log option" where
  "write_generic_addr a v l = (case ga_space a of
       SystemIo \<Rightarrow> do {
         rassert (ga_address a \<le> 65535);
         let port = of_nat (ga_address a);
         (if ga_bit_width a = 8 then Some (out8 port (ucast v) l)
          else if ga_bit_width a = 16 then Some (out16 port (ucast v) l)
          else if ga_bit_width a = 32 then Some (out32 port (ucast v) l)
          else None)
       }
     | _ \<Rightarrow> None)"

text \<open>Switching to ACPI mode, with the values of the fixed table as arguments; the polling loop has fuel.\<close>

fun acpi_poll :: "Dev \<Rightarrow> GenericAddress \<Rightarrow> nat \<Rightarrow> io_log \<Rightarrow> io_log option" where
  "acpi_poll dv pm1a 0 l = None"
| "acpi_poll dv pm1a (Suc fuel) l = do {
     (v, l) \<leftarrow> read_generic_addr dv pm1a l;
     (if v AND 1 = 0 then acpi_poll dv pm1a fuel l else Some l)
   }"

definition acpi_enable_mode :: "Dev \<Rightarrow> nat \<Rightarrow> u32 \<Rightarrow> u8 \<Rightarrow> u8 \<Rightarrow> GenericAddress \<Rightarrow> io_log \<Rightarrow> io_log option" where
  "acpi_enable_mode dv fuel smi_cmd_port acpi_enable acpi_disable pm1a l =
     (if smi_cmd_port = 0 \<or> (acpi_enable = 0 \<and> acpi_disable = 0) then Some l
      else do {
        (v, l) \<leftarrow> read_generic_addr dv pm1a l;
        (if v AND 1 \<noteq> 0 then Some l
         else acpi_poll dv pm1a fuel (out8 (ucast smi_cmd_port) acpi_enable l))
      })"

text \<open>
  Powering off: \<open>s5\<close> is the value of the object \<open>_S5\<close>, a package of optional integers. The
  function never returns; the result is the conversation before its final panic.
\<close>

definition power_off :: "u64 option list option \<Rightarrow> GenericAddress \<Rightarrow> io_log \<Rightarrow> io_log option" where
  "power_off s5 pm1a l = do {
     values \<leftarrow> s5;
     v \<leftarrow> index values 3;
     slp_typa \<leftarrow> v;
     write_generic_addr pm1a (push_bit 10 slp_typa OR push_bit 13 1) l
   }"

subsection \<open>Accesses for the interpreter (mod.rs)\<close>

definition aml_read :: "'a Ext \<Rightarrow> nat \<Rightarrow> nat \<Rightarrow> (nat \<Rightarrow> u8) \<Rightarrow> nat option" where
  "aml_read x n address mem = do {
     p \<leftarrow> table_ptr x address;
     Some (rd mem p n)
   }"

definition aml_write :: "'a Ext \<Rightarrow> nat \<Rightarrow> nat \<Rightarrow> nat \<Rightarrow> (nat \<Rightarrow> u8) \<Rightarrow> (nat \<Rightarrow> u8) option" where
  "aml_write x n address v mem = do {
     p \<leftarrow> table_ptr x address;
     Some (ram_write mem p (to_le n v))
   }"

definition read_pci_u8 :: "Dev \<Rightarrow> u8 \<Rightarrow> u8 \<Rightarrow> u8 \<Rightarrow> nat \<Rightarrow> io_log \<Rightarrow> (u8 \<times> io_log) option" where
  "read_pci_u8 dv bus device function offset l = do {
     let base_offset = offset - offset mod 4;
     (base_value, l) \<leftarrow> pci_read_u32 dv bus device function (of_nat base_offset) l;
     let shift = 24 - 8 * (offset mod 4);
     Some (ucast (drop_bit shift base_value), l)
   }"

definition read_pci_u16 :: "Dev \<Rightarrow> u8 \<Rightarrow> u8 \<Rightarrow> u8 \<Rightarrow> nat \<Rightarrow> io_log \<Rightarrow> (u16 \<times> io_log) option" where
  "read_pci_u16 dv bus device function offset l = do {
     rassert (offset mod 2 = 0);
     let base_offset = offset - offset mod 4;
     (base_value, l) \<leftarrow> pci_read_u32 dv bus device function (of_nat base_offset) l;
     let shift = 16 - 8 * (offset mod 4);
     Some (ucast (drop_bit shift base_value), l)
   }"

definition read_pci_u32 :: "Dev \<Rightarrow> u8 \<Rightarrow> u8 \<Rightarrow> u8 \<Rightarrow> nat \<Rightarrow> io_log \<Rightarrow> (u32 \<times> io_log) option" where
  "read_pci_u32 dv bus device function offset l = pci_read_u32 dv bus device function (of_nat offset) l"

subsection \<open>What is found\<close>

text \<open>The entries of an interrupt controller table and how they are stored.\<close>

datatype MadtEntry =
  EntryCpu ProcessorLocalAPIC | EntryIoApic IoAPIC | EntryOverride InterruptSourceOverride
| EntryNmi nat nat nat | EntryLapicAddr nat nat

fun entry_bytes :: "MadtEntry \<Rightarrow> bytes" where
  "entry_bytes (EntryCpu e) = [0, 8] @ to_le 1 (pl_processor_id e) @ to_le 1 (pl_acpi_id e) @ to_le 4 (pl_flags e)"
| "entry_bytes (EntryIoApic e) = [1, 12] @ to_le 1 (ia_id e) @ to_le 1 (ia_reserved e) @ to_le 4 (ia_addr e) @ to_le 4 (ia_gsib e)"
| "entry_bytes (EntryOverride e) = [2, 10] @ to_le 1 (is_bus_source e) @ to_le 1 (is_irq_source e) @ to_le 4 (is_gsi e) @ to_le 2 (is_flags e)"
| "entry_bytes (EntryNmi p f t) = [4, 6] @ to_le 1 p @ to_le 2 f @ to_le 1 t"
| "entry_bytes (EntryLapicAddr r a) = [5, 12] @ to_le 2 r @ to_le 8 a"

fun entry_fits :: "MadtEntry \<Rightarrow> bool" where
  "entry_fits (EntryCpu e) \<longleftrightarrow> pl_processor_id e < 256 \<and> pl_acpi_id e < 256 \<and> pl_flags e < 2 ^ 32"
| "entry_fits (EntryIoApic e) \<longleftrightarrow> ia_id e < 256 \<and> ia_reserved e < 256 \<and> ia_addr e < 2 ^ 32 \<and> ia_gsib e < 2 ^ 32"
| "entry_fits (EntryOverride e) \<longleftrightarrow> is_bus_source e < 256 \<and> is_irq_source e < 256 \<and> is_gsi e < 2 ^ 32 \<and> is_flags e < 2 ^ 16"
| "entry_fits (EntryNmi p f t) \<longleftrightarrow> True"
| "entry_fits (EntryLapicAddr r a) \<longleftrightarrow> True"

fun add_entry :: "MadtEntry \<Rightarrow> ACPIData \<Rightarrow> ACPIData" where
  "add_entry (EntryCpu e) d = d\<lparr>ad_cpus := ad_cpus d @ [e]\<rparr>"
| "add_entry (EntryIoApic e) d = d\<lparr>ad_io_apics := ad_io_apics d @ [e]\<rparr>"
| "add_entry (EntryOverride e) d = d\<lparr>ad_int_source_overrides := ad_int_source_overrides d @ [e]\<rparr>"
| "add_entry _ d = d"

definition holds :: "(nat \<Rightarrow> u8) \<Rightarrow> nat \<Rightarrow> bytes \<Rightarrow> bool" where
  "holds mem p bs \<longleftrightarrow> mem_range mem p (length bs) = bs"

lemma holds_append: "holds mem p (xs @ ys) \<longleftrightarrow> holds mem p xs \<and> holds mem (p + length xs) ys"
proof -
  have "mem_range mem p (length xs + length ys) = mem_range mem p (length xs) @ mem_range mem (p + length xs) (length ys)"
    using upt_add_eq_append [of p "p + length xs" "length ys"] by (simp add: mem_range_def add.assoc)
  then show ?thesis by (simp add: holds_def mem_range_def)
qed

lemma holds_Cons: "holds mem p (b # bs) \<longleftrightarrow> mem p = b \<and> holds mem (Suc p) bs"
  using holds_append [of mem p "[b]" bs] by (simp add: holds_def mem_range_def)

text \<open>The first two bytes, and the fields one after the other.\<close>

lemma holds_2: "holds mem p ([a, b] @ bs) \<longleftrightarrow> mem p = a \<and> mem (p + 1) = b \<and> holds mem (p + 2) bs"
  by (simp add: holds_Cons)

lemma holds_field: "holds mem p (to_le n v @ bs) \<longleftrightarrow> holds mem p (to_le n v) \<and> holds mem (p + n) bs"
  by (simp add: holds_append)

lemmas holds_entry = entry_bytes.simps holds_2 holds_field add.assoc one_add_one one_plus_numeral
  numeral_plus_one numeral_plus_numeral add_num_simps

lemma rd_le: "holds mem p (to_le n v) \<Longrightarrow> v < 256 ^ n \<Longrightarrow> rd mem p n = v"
  by (simp add: rd_def holds_def)

lemma entry_bytes_length: "2 < length (entry_bytes e)"
  by (cases e) simp_all

lemma rd_byte: "rd mem p 1 = unat (mem p)"
  by (simp add: rd_def mem_range_def)

lemma madt_entry:
  assumes "holds mem p (entry_bytes e)" "entry_fits e"
  shows "checked_sub (rd mem (p + 1) 1) 2 = Some (length (entry_bytes e) - 2)"
    "madt_body mem (rd mem p 1) (length (entry_bytes e) - 2) (p + 2) d = Some (add_entry e d)"
proof -
  obtain q where q: "p + 2 = q" by blast
  have "rd mem (p + 1) 1 = length (entry_bytes e)
      \<and> madt_body mem (rd mem p 1) (length (entry_bytes e) - 2) q d = Some (add_entry e d)"
  proof (cases e)
    case (EntryCpu c)
    with assms have h: "mem p = 0" "mem (p + 1) = 8" "holds mem q (to_le 1 (pl_processor_id c))"
      "holds mem (q + 1) (to_le 1 (pl_acpi_id c))" "holds mem (q + 2) (to_le 4 (pl_flags c))"
      by (simp_all only: holds_entry q)
    have "rd mem q 1 = pl_processor_id c" "rd mem (q + 1) 1 = pl_acpi_id c" "rd mem (q + 2) 4 = pl_flags c"
      using h assms(2) EntryCpu by (simp_all add: rd_le)
    then show ?thesis unfolding rd_byte [of mem p] rd_byte [of mem "p + 1"] h(1,2) using EntryCpu by (simp add: madt_body_def)
  next
    case (EntryIoApic c)
    with assms have h: "mem p = 1" "mem (p + 1) = 12" "holds mem q (to_le 1 (ia_id c))"
      "holds mem (q + 1) (to_le 1 (ia_reserved c))" "holds mem (q + 2) (to_le 4 (ia_addr c))" "holds mem (q + 6) (to_le 4 (ia_gsib c))"
      by (simp_all only: holds_entry q)
    have "rd mem q 1 = ia_id c" "rd mem (q + 1) 1 = ia_reserved c" "rd mem (q + 2) 4 = ia_addr c" "rd mem (q + 6) 4 = ia_gsib c"
      using h assms(2) EntryIoApic by (simp_all add: rd_le)
    then show ?thesis unfolding rd_byte [of mem p] rd_byte [of mem "p + 1"] h(1,2) using EntryIoApic by (simp add: madt_body_def)
  next
    case (EntryOverride c)
    with assms have h: "mem p = 2" "mem (p + 1) = 10" "holds mem q (to_le 1 (is_bus_source c))"
      "holds mem (q + 1) (to_le 1 (is_irq_source c))" "holds mem (q + 2) (to_le 4 (is_gsi c))" "holds mem (q + 6) (to_le 2 (is_flags c))"
      by (simp_all only: holds_entry q)
    have "rd mem q 1 = is_bus_source c" "rd mem (q + 1) 1 = is_irq_source c" "rd mem (q + 2) 4 = is_gsi c" "rd mem (q + 6) 2 = is_flags c"
      using h assms(2) EntryOverride by (simp_all add: rd_le)
    then show ?thesis unfolding rd_byte [of mem p] rd_byte [of mem "p + 1"] h(1,2) using EntryOverride by (simp add: madt_body_def)
  next
    case (EntryNmi a b c)
    with assms have h: "mem p = 4" "mem (p + 1) = 6" by (simp_all only: holds_entry)
    show ?thesis unfolding rd_byte h using EntryNmi by (simp add: madt_body_def)
  next
    case (EntryLapicAddr a b)
    with assms have h: "mem p = 5" "mem (p + 1) = 12" by (simp_all only: holds_entry)
    show ?thesis unfolding rd_byte h using EntryLapicAddr by (simp add: madt_body_def)
  qed
  then show "checked_sub (rd mem (p + 1) 1) 2 = Some (length (entry_bytes e) - 2)"
    "madt_body mem (rd mem p 1) (length (entry_bytes e) - 2) (p + 2) d = Some (add_entry e d)"
    using entry_bytes_length [of e] unfolding q by (simp_all add: checked_sub_def)
qed

lemma madt_loop_entries:
  assumes "es \<noteq> []" "\<forall>e\<in>set es. entry_fits e" "holds mem p (concat (map entry_bytes es))"
  shows "madt_loop mem (p + length (concat (map entry_bytes es))) p d = Some (fold add_entry es d)"
  using assms
proof (induction es arbitrary: p d)
  case (Cons e es)
  have h: "holds mem p (entry_bytes e)" "holds mem (p + length (entry_bytes e)) (concat (map entry_bytes es))"
    using Cons.prems(3) by (simp_all add: holds_append)
  have fits: "entry_fits e" using Cons.prems(2) by simp
  note step = madt_entry [OF h(1) fits]
  let ?q = "p + length (entry_bytes e)"
  obtain n where n: "length (concat (map entry_bytes es)) = n" by blast
  have top_eq: "p + length (concat (map entry_bytes (e # es))) = ?q + n" by (simp add: n [symmetric])
  have next_p: "p + 2 + (length (entry_bytes e) - 2) = ?q" using entry_bytes_length [of e] by simp
  have unfold: "madt_loop mem (?q + n) p d = (if ?q = ?q + n then Some (add_entry e d)
      else if ?q < ?q + n then madt_loop mem (?q + n) ?q (add_entry e d) else None)"
    by (subst madt_loop.simps) (simp only: step next_p option.case)
  show ?case
  proof (cases "es = []")
    case True
    then have "n = 0" using n by simp
    with True unfold show ?thesis unfolding top_eq by simp
  next
    case False
    then obtain e' es' where "es = e' # es'" by (cases es) auto
    then have "0 < n" unfolding n [symmetric] using entry_bytes_length [of e'] by (cases "entry_bytes e'") auto
    moreover have "madt_loop mem (?q + n) ?q (add_entry e d) = Some (fold add_entry es (add_entry e d))"
      unfolding n [symmetric] using Cons.IH [OF False] Cons.prems(2) h(2) by simp
    ultimately show ?thesis using unfold unfolding top_eq by simp
  qed
qed simp

text \<open>The lists that the entries of a table make up.\<close>

definition cpus_of :: "MadtEntry list \<Rightarrow> ProcessorLocalAPIC list" where
  "cpus_of es = List.map_filter (\<lambda>e. case e of EntryCpu c \<Rightarrow> Some c | _ \<Rightarrow> None) es"

definition io_apics_of :: "MadtEntry list \<Rightarrow> IoAPIC list" where
  "io_apics_of es = List.map_filter (\<lambda>e. case e of EntryIoApic c \<Rightarrow> Some c | _ \<Rightarrow> None) es"

definition overrides_of :: "MadtEntry list \<Rightarrow> InterruptSourceOverride list" where
  "overrides_of es = List.map_filter (\<lambda>e. case e of EntryOverride c \<Rightarrow> Some c | _ \<Rightarrow> None) es"

lemma fold_add_entry:
  "fold add_entry es d = d\<lparr>ad_cpus := ad_cpus d @ cpus_of es, ad_io_apics := ad_io_apics d @ io_apics_of es,
     ad_int_source_overrides := ad_int_source_overrides d @ overrides_of es\<rparr>"
proof (induction es arbitrary: d)
  case (Cons e es)
  then show ?case by (cases e) (simp_all add: cpus_of_def io_apics_of_def overrides_of_def)
qed (simp add: cpus_of_def io_apics_of_def overrides_of_def)

lemma table_ptr_small: "ext_ok x \<Longrightarrow> p < 2 ^ 46 \<Longrightarrow> table_ptr x p = Some p"
  by (simp add: table_ptr_def phys_addr_def phys_to_virt_ok)

lemma rd_4: "rd mem p 4 < 2 ^ 32"
  using from_le_bound [of "mem_range mem p 4"] by (simp add: rd_def mem_range_def)

text \<open>The root table maps the signature of each table it lists to its address.\<close>

lemma rsdt_entries_found:
  assumes x: "ext_ok x" and "root < 2 ^ 32" "\<And>i. i < length ts \<Longrightarrow> rd mem (root + 36 + 4 * i) 4 = ts ! i"
    and "length ts < 2 ^ 32"
  shows "n \<le> length ts \<Longrightarrow> foldM (rsdt_entry x mem root 4) (\<lambda>_. None) [0..<n]
    = Some (map_of (rev (map (\<lambda>t. (sdt_signature mem t, t)) (take n ts))))"
proof (induction n)
  case 0
  then show ?case by simp
next
  case (Suc n)
  then have n: "n < length ts" by simp
  have t: "rd mem (root + 36 + 4 * n) 4 = ts ! n" "ts ! n < 2 ^ 32" using assms(3) [OF n] rd_4 by metis+
  have "table_ptr x (root + (SDT_HEADER_SIZE + n * 4)) = Some (root + 36 + 4 * n)"
    using assms(2,4) n by (simp add: SDT_HEADER_SIZE_def table_ptr_small [OF x] add.assoc mult.commute)
  moreover have "table_ptr x (ts ! n) = Some (ts ! n)" using t(2) by (intro table_ptr_small [OF x]) simp
  ultimately have "rsdt_entry x mem root 4 m n = Some (m(sdt_signature mem (ts ! n) \<mapsto> ts ! n))" for m
    by (simp add: rsdt_entry_def t(1))
  with Suc.IH n show ?case by (simp add: foldM_append take_Suc_conv_app_nth fun_eq_iff)
qed


text \<open>
  A root table of ACPI 2.0 has the signature \<open>XSDT\<close>, but both kinds are required to have the
  signature of the old one: every machine with a pointer of revision 2 stops here.
\<close>

lemma xsdt_panics:
  assumes "get_rsdp_and_parse mem = Inr (XSDT p)" "sdt_signature mem p = ascii_bytes ''XSDT''"
  shows "init_rsdt x mem = None"
proof -
  have "ascii_bytes ''XSDT'' \<noteq> ascii_bytes ''RSDT''" by (simp add: ascii_bytes_def)
  with assms show ?thesis by (auto simp: init_rsdt_def table_ptr_def phys_addr_def split: bind_splits if_splits)
qed

text \<open>
  The bytes of a PCI register are given to the interpreter in reverse order: byte 0 is the upper
  one, while the PCI library takes it from the lower end.
\<close>

lemma pci_bytes_reversed:
  assumes "pci_read_u32 dv b s f 0 l = Some (v, l')" "pd_location d = (b, s, f)" "k < 4"
  shows "read_pci_u8 dv b s f k l = Some (ucast (drop_bit (8 * (3 - k)) v), l')"
    "pd_read_u8 dv d (of_nat k) l = Some (ucast (drop_bit (8 * k) v AND 0xff), l')"
proof -
  from assms(3) consider "k = 0" | "k = 1" | "k = 2" | "k = 3" by linarith
  then have "read_pci_u8 dv b s f k l = Some (ucast (drop_bit (8 * (3 - k)) v), l')
      \<and> pd_read_u8 dv d (of_nat k) l = Some (ucast (drop_bit (8 * k) v AND 0xff), l')"
    using assms(1,2) by cases (simp_all add: read_pci_u8_def pd_read_u8_def pci_read_device_def)
  then show "read_pci_u8 dv b s f k l = Some (ucast (drop_bit (8 * (3 - k)) v), l')"
    "pd_read_u8 dv d (of_nat k) l = Some (ucast (drop_bit (8 * k) v AND 0xff), l')" by simp_all
qed

text \<open>An example: one processor and one I/O APIC.\<close>

definition demo_entries :: "MadtEntry list" where
  "demo_entries = [EntryCpu \<lparr>pl_processor_id = 0, pl_acpi_id = 0, pl_flags = 1\<rparr>,
     EntryIoApic \<lparr>ia_id = 1, ia_reserved = 0, ia_addr = 0xfec00000, ia_gsib = 0\<rparr>]"

definition demo_rsdp :: bytes where
  "demo_rsdp = RSDP_SIGNATURE @ [0xe0] @ replicate 7 0 @ [0, 1, 0, 0]"

definition demo_table :: "string \<Rightarrow> bytes \<Rightarrow> bytes" where
  "demo_table sig body = ascii_bytes sig @ to_le 4 (36 + length body) @ replicate 28 0 @ body"

definition demo_acpi :: "nat \<Rightarrow> u8" where
  "demo_acpi = overwrite 0x9fc00 demo_rsdp
     (overwrite 0x100 (demo_table ''RSDT'' (to_le 4 0x200 @ to_le 4 0x300))
     (overwrite 0x200 (demo_table ''APIC'' (replicate 8 0 @ concat (map entry_bytes demo_entries)))
     (overwrite 0x300 (demo_table ''FACP'' (replicate 80 0)) (\<lambda>_. 0))))"

lemma demo_sum: "sum_list (map unat demo_rsdp) mod 256 = 0" "length demo_rsdp = 20" "demo_rsdp ! 15 = 0"
  "take 8 demo_rsdp = RSDP_SIGNATURE" "drop 16 demo_rsdp = [0, 1, 0, 0]"
  by code_simp+

text \<open>Reading from the parts the memory is made of.\<close>

lemma overwrite_holds:
  assumes "i + length ys \<le> length xs" "take (length ys) (drop i xs) = ys"
  shows "holds (overwrite a xs f) (a + i) ys"
proof -
  have "overwrite a xs f (a + i + j) = ys ! j" if "j < length ys" for j
  proof -
    have "ys ! j = take (length ys) (drop i xs) ! j" using assms(2) by simp
    also have "\<dots> = xs ! (i + j)" using that assms(1) by simp
    finally show ?thesis using that assms(1) by (simp add: overwrite_def add.assoc)
  qed
  then show ?thesis by (auto simp: holds_def mem_range_def intro!: nth_equalityI)
qed

lemma overwrite_skip:
  assumes "p + length ys \<le> a \<or> a + length xs \<le> p"
  shows "holds (overwrite a xs f) p ys \<longleftrightarrow> holds f p ys"
proof -
  have "map (overwrite a xs f) [p..<p + length ys] = map f [p..<p + length ys]"
    using assms by (auto simp: overwrite_def)
  then show ?thesis by (simp only: holds_def mem_range_def)
qed

lemma holds_rd: "holds mem p bs \<Longrightarrow> length bs = n \<Longrightarrow> rd mem p n = from_le bs"
  by (auto simp: holds_def rd_def)

lemma demo_table_holds:
  assumes "holds mem p (demo_table sig body)" "length sig = 4" "length body < 1000"
  shows "sdt_signature mem p = ascii_bytes sig" "sdt_length mem p = 36 + length body" "holds mem (p + 36) body"
proof -
  have sig: "length (ascii_bytes sig) = 4" using assms(2) by (simp add: ascii_bytes_def)
  have h: "holds mem p (ascii_bytes sig)" "holds mem (p + 4) (to_le 4 (36 + length body))" "holds mem (p + 4 + 4 + 28) body"
    using assms(1) by (simp_all add: demo_table_def holds_append sig)
  from h(1) show "sdt_signature mem p = ascii_bytes sig" by (simp add: sdt_signature_def holds_def sig)
  from h(2) assms(3) show "sdt_length mem p = 36 + length body" by (simp add: sdt_length_def rd_le)
  from h(3) show "holds mem (p + 36) body" by (simp add: add.assoc)
qed

lemma demo_acpi_parts:
  "holds demo_acpi 0x9fc00 demo_rsdp" "holds demo_acpi 0x100 (demo_table ''RSDT'' (to_le 4 0x200 @ to_le 4 0x300))"
  "holds demo_acpi 0x200 (demo_table ''APIC'' (replicate 8 0 @ concat (map entry_bytes demo_entries)))"
  "holds demo_acpi 0x300 (demo_table ''FACP'' (replicate 80 0))"
proof -
  let ?t1 = "demo_table ''RSDT'' (to_le 4 0x200 @ to_le 4 0x300)"
  let ?t2 = "demo_table ''APIC'' (replicate 8 0 @ concat (map entry_bytes demo_entries))"
  let ?t3 = "demo_table ''FACP'' (replicate 80 0)"
  have len: "length ?t1 = 44" "length ?t2 = 64" "length ?t3 = 116"
    by (simp_all add: demo_table_def ascii_bytes_def demo_entries_def)
  have self: "holds (overwrite a xs f) a xs" for a xs f using overwrite_holds [of 0 xs xs a f] by simp
  show "holds demo_acpi 0x9fc00 demo_rsdp" unfolding demo_acpi_def by (rule self)
  show "holds demo_acpi 0x100 ?t1" unfolding demo_acpi_def by (subst overwrite_skip) (simp_all add: len self)
  show "holds demo_acpi 0x200 ?t2"
    unfolding demo_acpi_def by (subst overwrite_skip, simp add: len, subst overwrite_skip, simp add: len, rule self)
  show "holds demo_acpi 0x300 ?t3"
    unfolding demo_acpi_def
    by (subst overwrite_skip, simp add: len, subst overwrite_skip, simp add: len, subst overwrite_skip, simp add: len, rule self)
qed

lemma step_by_Cons:
  assumes "a < b" "0 < s"
  shows "\<exists>rest. step_by a b s = a # rest"
proof -
  have "0 < (b - a + s - 1) div s" using assms by (simp add: div_greater_zero_iff)
  then show ?thesis by (simp add: step_by_def upt_conv_Cons)
qed

lemma holds_split:
  assumes "holds mem p xs" "i \<le> length xs"
  shows "holds mem p (take i xs)" "holds mem (p + i) (drop i xs)"
  using holds_append [of mem p "take i xs" "drop i xs"] assms by simp_all

lemma demo_acpi_rsdp:
  "get_rsdp_addr demo_acpi = Some 0x9fc00" "demo_acpi (0x9fc00 + 15) = 0"
  "sum_list (map unat (mem_range demo_acpi 0x9fc00 20)) mod 256 = 0" "rd demo_acpi (0x9fc00 + 16) 4 = 0x100"
proof -
  have all: "mem_range demo_acpi 0x9fc00 20 = demo_rsdp"
    using demo_acpi_parts(1) demo_sum(2) by (simp add: holds_def)
  then show "sum_list (map unat (mem_range demo_acpi 0x9fc00 20)) mod 256 = 0" using demo_sum(1) by simp
  have split: "holds demo_acpi 0x9fc00 RSDP_SIGNATURE" "holds demo_acpi (0x9fc00 + 16) [0, 1, 0, 0]"
    using holds_split [OF demo_acpi_parts(1), of 8] holds_split [OF demo_acpi_parts(1), of 16] demo_sum(2,4,5) by simp_all
  then show "rd demo_acpi (0x9fc00 + 16) 4 = 0x100" using holds_rd [OF split(2), of 4] by simp
  have "demo_acpi (0x9fc00 + 15) = mem_range demo_acpi 0x9fc00 20 ! 15" by (simp add: mem_range_def)
  then show "demo_acpi (0x9fc00 + 15) = 0" unfolding all demo_sum(3) .
  have "length RSDP_SIGNATURE = 8" by (simp add: RSDP_SIGNATURE_def ascii_bytes_def)
  with split(1) have "mem_range demo_acpi 0x9fc00 8 = RSDP_SIGNATURE" by (simp add: holds_def)
  moreover obtain rest where "step_by 0x9fc00 (0x9fc00 + 0x10 * 0x64) 0x10 = 0x9fc00 # rest"
    using step_by_Cons [of "0x9fc00" "0x9fc00 + 0x10 * 0x64" "0x10"] by auto
  ultimately show "get_rsdp_addr demo_acpi = Some 0x9fc00" by (simp add: get_rsdp_addr_def rsdp_places_def)
qed


end
